(* ===== verification/Prelude.thy ===== *)
theory Prelude
  imports Complex_Main "HOL-Library.Sublist" "HOL-Library.Product_Lexorder"
begin

text \<open>
  Shared vocabulary of the development: instants and durations, the 64-bit arithmetic of Go,
  the binary search of Go's \<open>sort\<close> package, and the list facts several components use.

  An instant (\<open>time.Time\<close>) is the number of nanoseconds since Go's zero time, so the zero value
  of the type is \<open>0\<close> and \<open>IsZero\<close> is \<open>t = 0\<close>. A duration (\<open>time.Duration\<close>) is a signed 64-bit
  count of nanoseconds: \<open>time_sub\<close> saturates as \<open>Time.Sub\<close> does, and a product with
  \<open>time.Millisecond\<close> wraps (\<open>ms_duration\<close>).
\<close>

named_theorems inv_intros \<open>preservation facts of the component invariants\<close>
named_theorems frame_simps \<open>fields an operation leaves unchanged\<close>

type_synonym time = int
type_synonym duration = int
type_synonym key_id = int
type_synonym model_id = int

abbreviation (input) millisecond :: duration where "millisecond \<equiv> 1000000"
abbreviation (input) second :: duration where "second \<equiv> 1000000000"
abbreviation (input) minute :: duration where "minute \<equiv> 60000000000"

subsection \<open>64-bit integers\<close>

definition wrap64 :: "int \<Rightarrow> int" where
  "wrap64 x = (x + 9223372036854775808) mod 18446744073709551616 - 9223372036854775808"

definition in_int64 :: "int \<Rightarrow> bool" where
  "in_int64 x \<longleftrightarrow> - 9223372036854775808 \<le> x \<and> x \<le> 9223372036854775807"

definition time_sub :: "time \<Rightarrow> time \<Rightarrow> duration" where
  "time_sub t u = max (- 9223372036854775808) (min 9223372036854775807 (t - u))"

definition ms_duration :: "int \<Rightarrow> duration" where
  "ms_duration n = wrap64 (n * millisecond)"

subsection \<open>Binary search, as \<open>sort.Search\<close> runs it\<close>

function search_loop :: "(nat \<Rightarrow> bool) \<Rightarrow> nat \<Rightarrow> nat \<Rightarrow> nat" where
  "search_loop f i j =
     (if i < j then
        let h = (i + j) div 2
        in if \<not> f h then search_loop f (h + 1) j else search_loop f i h
      else i)"
  by pat_completeness auto
termination
  by (relation "measure (\<lambda>(f, i, j). j - i)") auto

declare search_loop.simps [simp del]

definition sort_search :: "nat \<Rightarrow> (nat \<Rightarrow> bool) \<Rightarrow> nat" where
  "sort_search n f = search_loop f 0 n"

subsection \<open>Facts on 64-bit arithmetic\<close>

lemma wrap64_id [simp]: "in_int64 x \<Longrightarrow> wrap64 x = x"
  by (auto simp: wrap64_def in_int64_def)

lemma in_int64_wrap64: "in_int64 (wrap64 x)"
proof -
  have "0 \<le> (x + 9223372036854775808) mod 18446744073709551616"
    and "(x + 9223372036854775808) mod 18446744073709551616 < 18446744073709551616"
    by simp_all
  then show ?thesis unfolding wrap64_def in_int64_def by linarith
qed

lemma ms_duration_small:
  "\<bar>n\<bar> \<le> 9223372036854 \<Longrightarrow> ms_duration n = n * millisecond"
  by (simp add: ms_duration_def wrap64_def)

lemma time_sub_pos_iff [simp]: "0 < time_sub t u \<longleftrightarrow> u < t"
  by (auto simp: time_sub_def)

lemma time_sub_le: "u \<le> t \<Longrightarrow> time_sub t u \<le> t - u"
  by (auto simp: time_sub_def)

lemma time_sub_ge_iff:
  "\<bar>d\<bar> \<le> 9223372036854775807 \<Longrightarrow> d \<le> time_sub t u \<longleftrightarrow> d \<le> t - u"
  by (auto simp: time_sub_def)

subsection \<open>Facts on binary search\<close>

lemma search_loop_stop: "\<not> i < j \<Longrightarrow> search_loop f i j = i"
  by (subst search_loop.simps) simp

lemma search_loop_hit:
  "i < j \<Longrightarrow> f ((i + j) div 2) \<Longrightarrow> search_loop f i j = search_loop f i ((i + j) div 2)"
  by (subst search_loop.simps) simp

lemma search_loop_miss:
  "i < j \<Longrightarrow> \<not> f ((i + j) div 2) \<Longrightarrow> search_loop f i j = search_loop f ((i + j) div 2 + 1) j"
  by (subst search_loop.simps) simp

lemma search_loop_bounds: "i \<le> j \<Longrightarrow> i \<le> search_loop f i j \<and> search_loop f i j \<le> j"
proof (induction f i j rule: search_loop.induct)
  case (1 f i j)
  let ?h = "(i + j) div 2"
  consider "\<not> i < j" | "i < j" "f ?h" | "i < j" "\<not> f ?h" by blast
  then show ?case
  proof cases
    case 1
    then show ?thesis using "1.prems" by (simp add: search_loop_stop)
  next
    case 2
    then have "i \<le> ?h" "?h < j" by auto
    then show ?thesis using "1.IH"(2) [OF 2(1) refl] 2 by (simp add: search_loop_hit)
  next
    case 3
    then have "i \<le> ?h" "?h < j" by auto
    then show ?thesis using "1.IH"(1) [OF 3(1) refl] 3 by (simp add: search_loop_miss)
  qed
qed

lemma search_loop_least:
  assumes "\<And>a b. a \<le> b \<Longrightarrow> b < n \<Longrightarrow> f a \<Longrightarrow> f b"
    and "i \<le> j" "j \<le> n" "\<And>k. k < i \<Longrightarrow> \<not> f k" "\<And>k. j \<le> k \<Longrightarrow> k < n \<Longrightarrow> f k"
  shows "(\<forall>k < search_loop f i j. \<not> f k) \<and> (\<forall>k. search_loop f i j \<le> k \<and> k < n \<longrightarrow> f k)"
  using assms
proof (induction f i j rule: search_loop.induct)
  case (1 f i j)
  note mono = "1.prems"(1)
  let ?h = "(i + j) div 2"
  consider "\<not> i < j" | "i < j" "f ?h" | "i < j" "\<not> f ?h" by blast
  then show ?case
  proof cases
    case 1
    then show ?thesis using "1.prems" by (simp add: search_loop_stop)
  next
    case 2
    then have h: "i \<le> ?h" "?h < j" by auto
    have "(\<forall>k < search_loop f i ?h. \<not> f k) \<and> (\<forall>k. search_loop f i ?h \<le> k \<and> k < n \<longrightarrow> f k)"
    proof (rule "1.IH"(2) [OF 2(1) refl])
      show "\<not> \<not> f ?h" "i \<le> ?h" "?h \<le> n" using 2 h "1.prems"(3) by simp_all
      show "\<And>k. ?h \<le> k \<Longrightarrow> k < n \<Longrightarrow> f k" using 2(2) mono by blast
    qed (use mono "1.prems"(4) in blast)+
    then show ?thesis using 2 by (simp add: search_loop_hit)
  next
    case 3
    then have h: "i \<le> ?h" "?h < j" by auto
    have "(\<forall>k < search_loop f (?h + 1) j. \<not> f k)
      \<and> (\<forall>k. search_loop f (?h + 1) j \<le> k \<and> k < n \<longrightarrow> f k)"
    proof (rule "1.IH"(1) [OF 3(1) refl 3(2)])
      show "?h + 1 \<le> j" "j \<le> n" using h "1.prems"(3) by simp_all
      show "\<not> f k" if "k < ?h + 1" for k
      proof
        assume "f k"
        then have "f ?h" using mono [of k ?h] that h "1.prems"(3) by simp
        then show False using 3(2) by simp
      qed
    qed (use mono "1.prems"(5) in blast)+
    then show ?thesis using 3 by (simp add: search_loop_miss)
  qed
qed

text \<open>On a monotone predicate the search returns the least index that satisfies it, or \<open>n\<close>.\<close>

lemma sort_search_le: "sort_search n f \<le> n"
  using search_loop_bounds [of 0 n f] by (simp add: sort_search_def)

lemma sort_search_spec:
  assumes mono: "\<And>a b. a \<le> b \<Longrightarrow> b < n \<Longrightarrow> f a \<Longrightarrow> f b"
  shows "k < sort_search n f \<Longrightarrow> \<not> f k"
    and "sort_search n f \<le> k \<Longrightarrow> k < n \<Longrightarrow> f k"
proof -
  have "(\<forall>k < search_loop f 0 n. \<not> f k) \<and> (\<forall>k. search_loop f 0 n \<le> k \<and> k < n \<longrightarrow> f k)"
    by (rule search_loop_least) (use mono in auto)
  then show "k < sort_search n f \<Longrightarrow> \<not> f k" and "sort_search n f \<le> k \<Longrightarrow> k < n \<Longrightarrow> f k"
    by (auto simp: sort_search_def)
qed

subsection \<open>Facts on lists and options\<close>

lemma find_Some_iff': "find P xs = Some x \<Longrightarrow> x \<in> set xs \<and> P x"
  by (induction xs) (auto split: if_splits)

lemma card_dom_upd_le: "finite (dom m) \<Longrightarrow> card (dom (m(k \<mapsto> v))) \<le> Suc (card (dom m))"
  by (simp add: card_insert_if)

lemma length_filter_mono:
  "(\<And>x. x \<in> set xs \<Longrightarrow> P x \<Longrightarrow> Q x) \<Longrightarrow> length (filter P xs) \<le> length (filter Q xs)"
  by (induction xs) auto

end
