(* ===== verification/Sliding_Window.thy ===== *)
theory Sliding_Window
  imports Prelude
begin

text \<open>
  The contract two rate limits of the program share: the per-key request limit of the key pool
  (\<open>internal/pool/state.go\<close>) and the per-client login limit (\<open>internal/adminauth/ratelimit.go\<close>).
  Both keep the instants of the admitted requests, drop those older than the window, and admit a
  new one only while fewer than the limit remain.
\<close>

text \<open>The instants admitted when a component is asked at each instant of a list in turn.\<close>

fun admitted :: "('s \<Rightarrow> time \<Rightarrow> bool \<times> 's) \<Rightarrow> 's \<Rightarrow> time list \<Rightarrow> time list" where
  "admitted ask s [] = []"
| "admitted ask s (now # nows) =
     (case ask s now of (ok, s') \<Rightarrow> (if ok then [now] else []) @ admitted ask s' nows)"

text \<open>The laws hold in states that satisfy \<open>inv\<close>, for questions not earlier than the instants
  already logged.\<close>

locale sliding_window =
  fixes limit :: nat and window :: duration
    and ask :: "'s \<Rightarrow> time \<Rightarrow> bool \<times> 's"
    and log :: "'s \<Rightarrow> time list"
    and inv :: "'s \<Rightarrow> bool"
  assumes window_pos: "0 < window"
    and ask_ok: "inv s \<Longrightarrow> \<forall>t\<in>set (log s). t \<le> now \<Longrightarrow> ask s now = (ok, s') \<Longrightarrow>
      ok \<longleftrightarrow> length (filter (\<lambda>t. now - window < t) (log s)) < limit"
    and ask_log: "inv s \<Longrightarrow> \<forall>t\<in>set (log s). t \<le> now \<Longrightarrow> ask s now = (ok, s') \<Longrightarrow>
      log s' = filter (\<lambda>t. now - window < t) (log s) @ (if ok then [now] else [])"
    and ask_inv: "inv s \<Longrightarrow> \<forall>t\<in>set (log s). t \<le> now \<Longrightarrow> ask s now = (ok, s') \<Longrightarrow> inv s'"
begin

lemma log_bounded:
  assumes "inv s" "\<forall>t\<in>set (log s). t \<le> now" "length (log s) \<le> limit" "ask s now = (ok, s')"
  shows "length (log s') \<le> limit"
proof -
  have "length (filter (\<lambda>t. now - window < t) (log s)) \<le> limit"
    using assms(3) by (rule le_trans [OF length_filter_le])
  then show ?thesis using ask_ok [OF assms(1,2,4)] ask_log [OF assms(1,2,4)] by (cases ok) simp_all
qed

lemma admitted_later: "sorted (now # nows) \<Longrightarrow> x \<in> set (admitted ask s nows) \<Longrightarrow> now \<le> x"
  by (induction nows arbitrary: s now) (fastforce split: prod.splits if_splits)+

lemma admitted_window_from:
  assumes "inv s" "sorted nows" "\<forall>x\<in>set (log s). \<forall>n\<in>set nows. x \<le> n" "length (log s) \<le> limit"
  shows "length (filter (\<lambda>x. t - window < x \<and> x \<le> t) (log s @ admitted ask s nows)) \<le> limit"
  using assms
proof (induction nows arbitrary: s)
  case Nil
  then show ?case by (simp add: le_trans [OF length_filter_le])
next
  case (Cons now nows)
  obtain ok s' where a: "ask s now = (ok, s')" by (cases "ask s now")
  have old: "\<forall>t\<in>set (log s). t \<le> now" using Cons.prems(3) by simp
  note al = ask_log [OF Cons.prems(1) old a]
  let ?w = "\<lambda>x. t - window < x \<and> x \<le> t" and ?new = "if ok then [now] else []"
  have IH: "length (filter ?w (log s' @ admitted ask s' nows)) \<le> limit"
    using Cons.prems log_bounded [OF Cons.prems(1) old _ a] ask_inv [OF Cons.prems(1) old a] al
    by (intro Cons.IH) (auto split: if_splits)
  show ?case
  proof (cases "now \<le> t")
    case True
    have "filter ?w (filter (\<lambda>x. now - window < x) (log s)) = filter ?w (log s)"
      using True by (auto intro!: filter_cong simp: filter_filter)
    then show ?thesis using IH a al by (simp add: filter_append)
  next
    case False
    have "filter ?w (admitted ask s' nows) = []"
      using admitted_later [of now nows _ s'] Cons.prems(2) False
      by (auto simp: filter_empty_conv) (meson order_trans)
    moreover have "length (filter ?w (log s)) \<le> limit"
      using Cons.prems(4) length_filter_le le_trans by blast
    ultimately show ?thesis using a False by simp
  qed
qed

text \<open>Asked at non-decreasing instants from an empty log, the component admits at most \<open>limit\<close>
  requests in any interval of the window's length.\<close>

lemma admitted_window:
  assumes "inv s" "sorted nows" "log s = []"
  shows "length (filter (\<lambda>x. t - window < x \<and> x \<le> t) (admitted ask s nows)) \<le> limit"
  using admitted_window_from [OF assms(1,2), of t] assms(3) by simp

end

end
