(* ===== verification/Key_State.thy ===== *)
theory Key_State
  imports Sliding_Window
begin

text \<open>
  \<open>internal/keystate\<close> and \<open>internal/pool/state.go\<close>: what the scheduler knows of one NVIDIA key,
  its request-rate window and its latency estimate. Floating-point values are reals (so the tests
  for NaN and infinity have nothing to exclude).
\<close>

record keySnapshot =
  ksID :: key_id
  Enabled :: bool
  AuthInvalid :: bool
  CooldownUntil :: "time option"
  CooldownLevel :: int
  ConsecutiveFailures :: int

record modelBlock =
  blockKeyID :: key_id
  blockModelID :: model_id

record keyState =
  snapshot :: keySnapshot
  busy :: bool
  streamingBusy :: int
  blocks :: "model_id set"
  latencyEWMA :: real
  latencySamples :: int
  requestTimes :: "time list"

definition ewmaAlpha :: real where "ewmaAlpha = 2 / 10"
definition latencyWarmupSamples :: int where "latencyWarmupSamples = 3"
definition keyRequestLimit :: nat where "keyRequestLimit = 30"
definition keyRequestWindow :: duration where "keyRequestWindow = minute"
definition unmeasuredLatencyWeight :: real where "unmeasuredLatencyWeight = 1 / 2"

text \<open>\<open>cloneSnapshot\<close> copies the cooldown instant so that two snapshots share no memory; on
  values it is the identity.\<close>

definition cloneSnapshot :: "keySnapshot \<Rightarrow> keySnapshot" where
  "cloneSnapshot s = (case CooldownUntil s of None \<Rightarrow> s | Some t \<Rightarrow> s\<lparr>CooldownUntil := Some t\<rparr>)"

definition newKeyState :: "keySnapshot \<Rightarrow> keyState" where
  "newKeyState s =
     \<lparr>snapshot = cloneSnapshot s, busy = False, streamingBusy = 0, blocks = {},
      latencyEWMA = 0, latencySamples = 0, requestTimes = []\<rparr>"

definition recordLatency :: "real \<Rightarrow> keyState \<Rightarrow> keyState" where
  "recordLatency durationMS s =
     (if durationMS \<le> 0 then s
      else
        let s1 = (if latencySamples s = 0 then s\<lparr>latencyEWMA := durationMS\<rparr>
                  else s\<lparr>latencyEWMA := ewmaAlpha * durationMS + (1 - ewmaAlpha) * latencyEWMA s\<rparr>)
        in if latencySamples s1 < 9223372036854775807
           then s1\<lparr>latencySamples := latencySamples s1 + 1\<rparr> else s1)"

definition latencyScore :: "keyState \<Rightarrow> real \<times> bool" where
  "latencyScore s =
     (if latencySamples s < latencyWarmupSamples then (0, False) else (latencyEWMA s, True))"

definition latencyWeight :: "real \<Rightarrow> keyState \<Rightarrow> real" where
  "latencyWeight unmeasuredWeight s =
     (case latencyScore s of
        (score, measured) \<Rightarrow> if \<not> measured then unmeasuredWeight else 1 / (1 + score / 1000))"

definition requestRetryAfter :: "time \<Rightarrow> keyState \<Rightarrow> duration \<times> keyState" where
  "requestRetryAfter now s =
     (let cutoff = now - keyRequestWindow;
          s1 = s\<lparr>requestTimes := filter (\<lambda>requestAt. requestAt > cutoff) (requestTimes s)\<rparr>
      in if length (requestTimes s1) < keyRequestLimit then (0, s1)
         else
           let retryAfter = wrap64 (keyRequestWindow - time_sub now (hd (requestTimes s1)))
           in if retryAfter \<le> 0 then (1, s1) else (retryAfter, s1))"

definition reserveRequest :: "time \<Rightarrow> keyState \<Rightarrow> (duration \<times> bool) \<times> keyState" where
  "reserveRequest now s =
     (case requestRetryAfter now s of
        (retryAfter, s1) \<Rightarrow>
          if retryAfter > 0 then ((retryAfter, False), s1)
          else ((0, True), s1\<lparr>requestTimes := requestTimes s1 @ [now]\<rparr>))"

subsection \<open>The request window\<close>

definition recent :: "time \<Rightarrow> keyState \<Rightarrow> time list" where
  "recent now s = filter (\<lambda>t. now - keyRequestWindow < t) (requestTimes s)"

lemma cloneSnapshot_eq [simp]: "cloneSnapshot s = s"
  by (simp add: cloneSnapshot_def split: option.splits)

lemma newKeyState_simps [simp]:
  "snapshot (newKeyState s) = s" "busy (newKeyState s) = False" "streamingBusy (newKeyState s) = 0"
  "blocks (newKeyState s) = {}" "requestTimes (newKeyState s) = []"
  by (simp_all add: newKeyState_def)

lemma requestRetryAfter_state: "snd (requestRetryAfter now s) = s\<lparr>requestTimes := recent now s\<rparr>"
  by (simp add: requestRetryAfter_def Let_def recent_def)

lemma requestRetryAfter_pos_iff:
  "0 < fst (requestRetryAfter now s) \<longleftrightarrow> keyRequestLimit \<le> length (recent now s)"
  by (auto simp: requestRetryAfter_def Let_def recent_def not_less)

lemma requestRetryAfter_nonneg: "0 \<le> fst (requestRetryAfter now s)"
  by (auto simp: requestRetryAfter_def Let_def)

lemma requestRetryAfter_cases:
  obtains ra where "requestRetryAfter now s = (ra, s\<lparr>requestTimes := recent now s\<rparr>)"
    "0 < ra \<longleftrightarrow> keyRequestLimit \<le> length (recent now s)" "0 \<le> ra"
  using requestRetryAfter_state [of now s] requestRetryAfter_pos_iff [of now s]
    requestRetryAfter_nonneg [of now s]
  by (cases "requestRetryAfter now s") auto

lemma reserveRequest_eq:
  "reserveRequest now s =
     (if length (recent now s) < keyRequestLimit
      then ((0, True), s\<lparr>requestTimes := recent now s @ [now]\<rparr>)
      else ((fst (requestRetryAfter now s), False), s\<lparr>requestTimes := recent now s\<rparr>))"
  by (rule requestRetryAfter_cases [of now s]) (auto simp: reserveRequest_def)

lemma length_recent_le: "length (recent now s) \<le> length (requestTimes s)"
  by (simp add: recent_def)

interpretation key_rate: sliding_window keyRequestLimit keyRequestWindow
  "\<lambda>s now. (snd (fst (reserveRequest now s)), snd (reserveRequest now s))" requestTimes "\<lambda>s. True"
  by unfold_locales
    (auto simp: reserveRequest_eq recent_def keyRequestWindow_def split: if_splits)

subsection \<open>The latency estimate\<close>

lemma latencyWeight_pos: "0 \<le> latencyEWMA s \<Longrightarrow> 0 < w \<Longrightarrow> 0 < latencyWeight w s"
  by (simp add: latencyWeight_def latencyScore_def)

lemma recordLatency_between:
  assumes "0 \<le> latencySamples s" "0 < d" "latencySamples s \<noteq> 0 \<Longrightarrow> lo \<le> latencyEWMA s \<and> latencyEWMA s \<le> hi"
    "lo \<le> d" "d \<le> hi"
  shows "lo \<le> latencyEWMA (recordLatency d s) \<and> latencyEWMA (recordLatency d s) \<le> hi"
proof -
  have "lo \<le> ewmaAlpha * d + (1 - ewmaAlpha) * e \<and> ewmaAlpha * d + (1 - ewmaAlpha) * e \<le> hi"
    if "lo \<le> e" "e \<le> hi" for e
    using assms(4,5) that by (simp add: ewmaAlpha_def)
  then show ?thesis using assms by (auto simp: recordLatency_def Let_def)
qed

subsection \<open>Properties\<close>

text \<open>C5: however often a key is asked, in any sixty seconds at most thirty of its reservations
  succeed.\<close>

theorem key_rate_limit:
  assumes "sorted nows"
  shows "length (filter (\<lambda>x. t - keyRequestWindow < x \<and> x \<le> t)
           (admitted (\<lambda>s now. (snd (fst (reserveRequest now s)), snd (reserveRequest now s)))
              (newKeyState ks) nows)) \<le> 30"
  using key_rate.admitted_window [OF TrueI assms, of "newKeyState ks" t] by (simp add: keyRequestLimit_def)

theorem key_rate_limit_witness:
  "length (filter (\<lambda>x. 40 - keyRequestWindow < x \<and> x \<le> 40)
     (admitted (\<lambda>s now. (snd (fst (reserveRequest now s)), snd (reserveRequest now s)))
        (newKeyState \<lparr>ksID = 7, Enabled = True, AuthInvalid = False, CooldownUntil = None,
                      CooldownLevel = 0, ConsecutiveFailures = 0\<rparr>) (map int [0..<40]))) \<le> 30"
  by (rule key_rate_limit) (simp add: sorted_wrt_map)

end
