(* ===== verification/Go_Strings.thy ===== *)
theory Go_Strings
  imports Prelude
begin

text \<open>
  The parts of Go's \<open>strings\<close> and \<open>strconv\<close> packages the program uses, on byte strings
  (\<^typ>\<open>string\<close>: one \<^typ>\<open>char\<close> per byte).
\<close>

subsection \<open>White space\<close>

text \<open>The UTF-8 encodings of the code points of Unicode's White_Space property, which is what
  \<open>strings.TrimSpace\<close> cuts from both ends.\<close>

definition space_seqs :: "string list" where
  "space_seqs =
     [[CHR 0x20], [CHR 0x09], [CHR 0x0A], [CHR 0x0B], [CHR 0x0C], [CHR 0x0D],
      [CHR 0xC2, CHR 0x85], [CHR 0xC2, CHR 0xA0], [CHR 0xE1, CHR 0x9A, CHR 0x80],
      [CHR 0xE2, CHR 0x80, CHR 0x80], [CHR 0xE2, CHR 0x80, CHR 0x81],
      [CHR 0xE2, CHR 0x80, CHR 0x82], [CHR 0xE2, CHR 0x80, CHR 0x83],
      [CHR 0xE2, CHR 0x80, CHR 0x84], [CHR 0xE2, CHR 0x80, CHR 0x85],
      [CHR 0xE2, CHR 0x80, CHR 0x86], [CHR 0xE2, CHR 0x80, CHR 0x87],
      [CHR 0xE2, CHR 0x80, CHR 0x88], [CHR 0xE2, CHR 0x80, CHR 0x89],
      [CHR 0xE2, CHR 0x80, CHR 0x8A], [CHR 0xE2, CHR 0x80, CHR 0xA8],
      [CHR 0xE2, CHR 0x80, CHR 0xA9], [CHR 0xE2, CHR 0x80, CHR 0xAF],
      [CHR 0xE2, CHR 0x81, CHR 0x9F], [CHR 0xE3, CHR 0x80, CHR 0x80]]"

function cut_front :: "string list \<Rightarrow> string \<Rightarrow> string" where
  "cut_front ps s =
     (case find (\<lambda>p. p \<noteq> [] \<and> prefix p s) ps of
        None \<Rightarrow> s
      | Some p \<Rightarrow> cut_front ps (drop (length p) s))"
  by pat_completeness auto
termination
proof (relation "measure (\<lambda>(ps, s). length s)")
  fix ps :: "string list" and s p :: string
  assume "find (\<lambda>p. p \<noteq> [] \<and> prefix p s) ps = Some p"
  then have "p \<noteq> []" "prefix p s" by (auto dest: find_Some_iff')
  then show "((ps, drop (length p) s), ps, s) \<in> measure (\<lambda>(ps, s). length s)"
    by (cases s; cases p) auto
qed simp

declare cut_front.simps [simp del]

definition trim_space :: "string \<Rightarrow> string" where
  "trim_space s = rev (cut_front (map rev space_seqs) (rev (cut_front space_seqs s)))"

subsection \<open>Splitting\<close>

fun split_at :: "(char \<Rightarrow> bool) \<Rightarrow> string \<Rightarrow> string list" where
  "split_at p [] = [[]]"
| "split_at p (c # cs) =
     (if p c then [] # split_at p cs
      else (case split_at p cs of [] \<Rightarrow> [[c]] | w # ws \<Rightarrow> (c # w) # ws))"

text \<open>\<open>strings.FieldsFunc\<close>: the maximal runs of bytes that do not satisfy \<open>p\<close>.\<close>

definition fields_func :: "(char \<Rightarrow> bool) \<Rightarrow> string \<Rightarrow> string list" where
  "fields_func p s = filter (\<lambda>w. w \<noteq> []) (split_at p s)"

text \<open>The text before the first occurrence of a byte, and the text after it if it occurs.\<close>

definition cut_at :: "char \<Rightarrow> string \<Rightarrow> string \<times> string option" where
  "cut_at c s =
     (takeWhile (\<lambda>x. x \<noteq> c) s,
      case dropWhile (\<lambda>x. x \<noteq> c) s of [] \<Rightarrow> None | _ # rest \<Rightarrow> Some rest)"

subsection \<open>Decimal integers\<close>

definition is_digit :: "char \<Rightarrow> bool" where
  "is_digit c \<longleftrightarrow> 48 \<le> (of_char c :: nat) \<and> (of_char c :: nat) \<le> 57"

fun digits_value :: "int \<Rightarrow> string \<Rightarrow> int" where
  "digits_value acc [] = acc"
| "digits_value acc (c # cs) = digits_value (acc * 10 + int (of_char c) - 48) cs"

text \<open>\<open>strconv.Atoi\<close> and \<open>strconv.ParseInt(s, 10, 64)\<close>: an optional sign, at least one digit,
  a value in the range of a 64-bit integer.\<close>

definition parse_int :: "string \<Rightarrow> int option" where
  "parse_int s =
     (let (neg, ds) = (case s of
          [] \<Rightarrow> (False, [])
        | c # cs \<Rightarrow> if c = CHR ''-'' then (True, cs) else if c = CHR ''+'' then (False, cs)
                     else (False, c # cs));
        v = (if neg then - digits_value 0 ds else digits_value 0 ds)
      in if ds = [] \<or> \<not> list_all is_digit ds \<or> \<not> in_int64 v then None else Some v)"

text \<open>\<open>strconv.Itoa\<close>, also as the verb \<open>%d\<close>; \<open>strconv.ParseUint(s, 10, bits)\<close>: digits only, a value below \<open>2 ^ bits\<close>.\<close>

fun nat_digits :: "nat \<Rightarrow> string" where
  "nat_digits n = (if n < 10 then [char_of (48 + n)] else nat_digits (n div 10) @ [char_of (48 + n mod 10)])"

declare nat_digits.simps [simp del]

definition itoa :: "int \<Rightarrow> string" where
  "itoa i = (if i < 0 then CHR ''-'' # nat_digits (nat (- i)) else nat_digits (nat i))"

definition parse_uint :: "nat \<Rightarrow> string \<Rightarrow> nat option" where
  "parse_uint bits s =
     (let v = nat (digits_value 0 s) in if s = [] \<or> \<not> list_all is_digit s \<or> v \<ge> 2 ^ bits then None else Some v)"

text \<open>\<open>strings.Join\<close>.\<close>

fun join_with :: "string \<Rightarrow> string list \<Rightarrow> string" where
  "join_with sep [] = []"
| "join_with sep [w] = w"
| "join_with sep (w # v # ws) = w @ sep @ join_with sep (v # ws)"

subsection \<open>Facts\<close>

lemma cut_front_no_match:
  "find (\<lambda>p. p \<noteq> [] \<and> prefix p s) ps = None \<Longrightarrow> cut_front ps s = s"
  by (simp add: cut_front.simps [of ps s])

lemma cut_front_stable:
  "find (\<lambda>p. p \<noteq> [] \<and> prefix p (cut_front ps s)) ps = None"
proof (induction ps s rule: cut_front.induct)
  case (1 ps s)
  then show ?case
    by (cases "find (\<lambda>p. p \<noteq> [] \<and> prefix p s) ps") (simp_all add: cut_front.simps [of ps s])
qed

lemma split_at_nonempty [simp]: "split_at p s \<noteq> []"
  by (cases s) (auto split: list.splits)

lemma set_split_at: "w \<in> set (split_at p s) \<Longrightarrow> c \<in> set w \<Longrightarrow> c \<in> set s \<and> \<not> p c"
proof (induction s arbitrary: w)
  case Nil
  then show ?case by simp
next
  case (Cons x xs)
  obtain u us where u: "split_at p xs = u # us"
    using split_at_nonempty [of p xs] by (cases "split_at p xs") auto
  have IH: "\<And>w. w \<in> set (u # us) \<Longrightarrow> c \<in> set w \<Longrightarrow> c \<in> set xs \<and> \<not> p c"
    using Cons.IH Cons.prems u by simp
  show ?case using Cons.prems IH [of u] IH [of w] u by (auto split: if_splits)
qed

lemma parse_int_in_int64: "parse_int s = Some v \<Longrightarrow> in_int64 v"
  by (auto simp: parse_int_def Let_def split: list.splits if_splits prod.splits)

lemma split_at_free: "\<forall>c \<in> set s. \<not> p c \<Longrightarrow> split_at p s = [s]"
  by (induction s) simp_all

lemma split_at_sep: "\<forall>c \<in> set w. \<not> p c \<Longrightarrow> p x \<Longrightarrow> split_at p (w @ x # s) = w # split_at p s"
  by (induction w) simp_all

lemma split_at_join:
  "ws \<noteq> [] \<Longrightarrow> \<forall>w \<in> set ws. \<forall>c \<in> set w. \<not> p c \<Longrightarrow> p x \<Longrightarrow> split_at p (join_with [x] ws) = ws"
  by (induction ws rule: induct_list012) (simp_all add: split_at_free split_at_sep)

lemma cut_at_sep: "c \<notin> set w \<Longrightarrow> cut_at c (w @ c # rest) = (w, Some rest)"
  by (induction w) (auto simp: cut_at_def)

lemma digits_value_append: "digits_value acc (s @ [c]) = digits_value acc s * 10 + int (of_char c) - 48"
  by (induction s arbitrary: acc) simp_all

lemma digit_char: "n < 10 \<Longrightarrow> is_digit (char_of (48 + n)) \<and> int (of_char (char_of (48 + n) :: char)) = 48 + int n"
  by (simp add: is_digit_def)

lemma nat_digits_value: "digits_value 0 (nat_digits n) = int n \<and> list_all is_digit (nat_digits n) \<and> nat_digits n \<noteq> []"
proof (induction n rule: nat_digits.induct)
  case (1 n)
  show ?case
  proof (cases "n < 10")
    case True
    then show ?thesis
      using digit_char [of n] by (simp add: nat_digits.simps [of n])
  next
    case False
    moreover have "int (n div 10) * 10 + int (n mod 10) = int n"
      by (simp flip: of_nat_add of_nat_mult add: zdiv_int zmod_int)
    ultimately show ?thesis
      using 1 digit_char [of "n mod 10"] by (simp add: nat_digits.simps [of n] digits_value_append del: of_nat_mod)
  qed
qed

lemma parse_uint_digits: "n < 2 ^ bits \<Longrightarrow> parse_uint bits (nat_digits n) = Some n"
  using nat_digits_value [of n] by (simp add: parse_uint_def Let_def)

end
