(* ===== verification/Failover_Matcher.thy ===== *)
theory Failover_Matcher
  imports Go_Strings
begin

text \<open>
  \<open>internal/fault/matcher.go\<close>: the operator's list of upstream status codes that make the router
  switch keys. \<open>parseFailoverSpec\<close> reads single codes and inclusive ranges, \<open>mergeRanges\<close> sorts
  and collapses them, \<open>Match\<close> searches the merged list by bisection.
\<close>

subsection \<open>Data\<close>

record inclusiveRange =
  low :: int
  high :: int

record FailoverMatcher =
  ranges :: "inclusiveRange list"
  spec :: string

datatype token_error =
    NonNumericStart
  | NonNumericEnd
  | StartAfterEnd int int
  | NonNumericCode

datatype failover_error =
    BadToken string token_error
  | CodesOutOfBounds string
  | SuccessCodes string
  | NoCodes string

definition DefaultFailoverStatusCodes :: string where
  "DefaultFailoverStatusCodes = ''429,500,502,503,504,529''"

subsection \<open>Operations\<close>

definition parseRangeToken :: "string \<Rightarrow> token_error + int \<times> int" where
  "parseRangeToken token =
     (case cut_at (CHR ''-'') token of
        (start, Some rest) \<Rightarrow>
          (case parse_int (trim_space start) of
             None \<Rightarrow> Inl NonNumericStart
           | Some lo \<Rightarrow>
               (case parse_int (trim_space rest) of
                  None \<Rightarrow> Inl NonNumericEnd
                | Some hi \<Rightarrow> if lo > hi then Inl (StartAfterEnd lo hi) else Inr (lo, hi)))
      | (_, None) \<Rightarrow>
          (case parse_int (trim_space token) of
             None \<Rightarrow> Inl NonNumericCode
           | Some code \<Rightarrow> Inr (code, code)))"

fun parseTokens :: "string list \<Rightarrow> failover_error + inclusiveRange list" where
  "parseTokens [] = Inr []"
| "parseTokens (raw # rest) =
     (let token = trim_space raw
      in if token = [] then parseTokens rest
         else (case parseRangeToken token of
                 Inl e \<Rightarrow> Inl (BadToken token e)
               | Inr (lo, hi) \<Rightarrow>
                   if lo < 100 \<or> hi > 599 then Inl (CodesOutOfBounds token)
                   else if lo < 400 then Inl (SuccessCodes token)
                   else (case parseTokens rest of
                           Inl e \<Rightarrow> Inl e
                         | Inr rs \<Rightarrow> Inr (\<lparr>low = lo, high = hi\<rparr> # rs))))"

definition is_separator :: "char \<Rightarrow> bool" where
  "is_separator c \<longleftrightarrow> c = CHR '','' \<or> c = CHR 0x0A \<or> c = CHR 0x0D"

definition parseFailoverSpec :: "string \<Rightarrow> failover_error + inclusiveRange list" where
  "parseFailoverSpec s =
     (case parseTokens (fields_func is_separator s) of
        Inl e \<Rightarrow> Inl e
      | Inr rs \<Rightarrow> if rs = [] then Inl (NoCodes s) else Inr rs)"

text \<open>The loop of \<open>mergeRanges\<close>: the head of the accumulator is the last merged range.\<close>

fun merge_loop :: "inclusiveRange list \<Rightarrow> inclusiveRange list \<Rightarrow> inclusiveRange list" where
  "merge_loop merged [] = rev merged"
| "merge_loop [] (current # rest) = merge_loop [current] rest"
| "merge_loop (prev # merged) (current # rest) =
     (if low current \<le> high prev + 1 then
        merge_loop ((if high current > high prev then prev\<lparr>high := high current\<rparr> else prev) # merged) rest
      else merge_loop (current # prev # merged) rest)"

definition mergeRanges :: "inclusiveRange list \<Rightarrow> inclusiveRange list" where
  "mergeRanges rs =
     (case sort_key (\<lambda>r. (low r, high r)) rs of
        [] \<Rightarrow> []
      | r # rest \<Rightarrow> merge_loop [r] rest)"

definition NewFailoverMatcher :: "string \<Rightarrow> failover_error + FailoverMatcher" where
  "NewFailoverMatcher s =
     (if trim_space s = [] then Inr \<lparr>ranges = [], spec = s\<rparr>
      else (case parseFailoverSpec s of
              Inl e \<Rightarrow> Inl e
            | Inr rs \<Rightarrow> Inr \<lparr>ranges = mergeRanges rs, spec = s\<rparr>))"

definition IsEmpty :: "FailoverMatcher \<Rightarrow> bool" where
  "IsEmpty m \<longleftrightarrow> ranges m = []"

definition Match :: "FailoverMatcher \<Rightarrow> int \<Rightarrow> bool" where
  "Match m status =
     (if status \<le> 0 \<or> ranges m = [] then False
      else
        let index = sort_search (length (ranges m)) (\<lambda>i. high (ranges m ! i) \<ge> status)
        in if index \<ge> length (ranges m) then False
           else low (ranges m ! index) \<le> status \<and> status \<le> high (ranges m ! index))"

subsection \<open>The merged list\<close>

definition covers :: "inclusiveRange list \<Rightarrow> int \<Rightarrow> bool" where
  "covers rs s \<longleftrightarrow> (\<exists>r\<in>set rs. low r \<le> s \<and> s \<le> high r)"

definition gapped :: "inclusiveRange list \<Rightarrow> bool" where
  "gapped rs \<longleftrightarrow> sorted_wrt (\<lambda>a b. high a + 1 < low b) rs \<and> (\<forall>r\<in>set rs. low r \<le> high r)"

lemma covers_simps [simp]:
  "covers [] s = False"
  "covers (r # rs) s = ((low r \<le> s \<and> s \<le> high r) \<or> covers rs s)"
  "covers (rs @ ts) s = (covers rs s \<or> covers ts s)"
  "covers (rev rs) s = covers rs s"
  by (auto simp: covers_def)

lemma covers_set_eq: "set rs = set ts \<Longrightarrow> covers rs = covers ts"
  by (auto simp: covers_def fun_eq_iff)

lemma merge_loop_covers:
  "sorted (map low (prev # rest)) \<Longrightarrow>
   covers (merge_loop (prev # merged) rest) s = (covers (prev # merged) s \<or> covers rest s)"
proof (induction rest arbitrary: prev merged)
  case Nil
  then show ?case by auto
next
  case (Cons c rest)
  then show ?case by (cases "low c \<le> high prev + 1") auto
qed

lemma merge_loop_gapped:
  "sorted (map low (prev # rest)) \<Longrightarrow> sorted_wrt (\<lambda>a b. high b + 1 < low a) (prev # merged) \<Longrightarrow>
   \<forall>r\<in>set (prev # merged) \<union> set rest. low r \<le> high r \<Longrightarrow>
   gapped (merge_loop (prev # merged) rest)"
proof (induction rest arbitrary: prev merged)
  case Nil
  then show ?case by (auto simp: gapped_def sorted_wrt_append sorted_wrt_rev)
next
  case (Cons c rest)
  show ?case
  proof (cases "low c \<le> high prev + 1")
    case True
    let ?p = "if high c > high prev then prev\<lparr>high := high c\<rparr> else prev"
    have "gapped (merge_loop (?p # merged) rest)"
      by (rule Cons.IH) (use Cons.prems in auto)
    then show ?thesis using True by simp
  next
    case False
    have "\<forall>r\<in>set merged. high r + 1 < low c"
      using Cons.prems False by fastforce
    then have "gapped (merge_loop (c # prev # merged) rest)"
      by (intro Cons.IH) (use Cons.prems False in auto)
    then show ?thesis using False by simp
  qed
qed

lemma sorted_low_sort_key: "sorted (map low (sort_key (\<lambda>r. (low r, high r)) rs))"
proof -
  have "sorted (map (\<lambda>r. (low r, high r)) (sort_key (\<lambda>r. (low r, high r)) rs))"
    by (rule sorted_sort_key)
  then show ?thesis
    by (simp add: sorted_wrt_map less_eq_prod_def) (erule sorted_wrt_mono_rel [rotated], auto)
qed

lemma mergeRanges_cases:
  obtains (Nil) "rs = []" "mergeRanges rs = []"
  | (Cons) r rest where "sort_key (\<lambda>r. (low r, high r)) rs = r # rest"
      "mergeRanges rs = merge_loop [r] rest" "set (r # rest) = set rs" "sorted (map low (r # rest))"
proof (cases "sort_key (\<lambda>r. (low r, high r)) rs")
  case Nil
  then have "set rs = {}" by (metis set_sort set_empty)
  then show thesis using that(1) Nil by (simp add: mergeRanges_def)
next
  case (Cons r rest)
  show thesis
  proof (rule that(2) [OF Cons])
    show "mergeRanges rs = merge_loop [r] rest" using Cons by (simp add: mergeRanges_def)
    show "set (r # rest) = set rs" using Cons by (metis set_sort)
    show "sorted (map low (r # rest))" using sorted_low_sort_key [of rs] Cons by simp
  qed
qed

lemma mergeRanges_covers: "covers (mergeRanges rs) s = covers rs s"
proof (cases rs rule: mergeRanges_cases)
  case Nil
  then show ?thesis by simp
next
  case (Cons r rest)
  have "covers (merge_loop [r] rest) s = covers (r # rest) s"
    using merge_loop_covers [OF Cons(4), of "[]" s] by simp
  then show ?thesis using Cons(2) covers_set_eq [OF Cons(3)] by simp
qed

lemma mergeRanges_gapped: "\<forall>r\<in>set rs. low r \<le> high r \<Longrightarrow> gapped (mergeRanges rs)"
proof (cases rs rule: mergeRanges_cases)
  case Nil
  then show ?thesis by (simp add: gapped_def)
next
  case (Cons r rest)
  assume "\<forall>r\<in>set rs. low r \<le> high r"
  then show ?thesis using merge_loop_gapped [OF Cons(4), of "[]"] Cons(2,3) by auto
qed

subsection \<open>Bisection over the merged list\<close>

lemma Match_covers:
  assumes g: "gapped (ranges m)" and s: "0 < s"
  shows "Match m s = covers (ranges m) s"
proof (cases "ranges m = []")
  case True
  then show ?thesis by (simp add: Match_def)
next
  case False
  let ?rs = "ranges m" and ?f = "\<lambda>i. high (ranges m ! i) \<ge> s"
  let ?i = "sort_search (length ?rs) ?f"
  have step: "a < b \<Longrightarrow> b < length ?rs \<Longrightarrow> high (?rs ! a) + 1 < low (?rs ! b)" for a b
    using g by (simp add: gapped_def sorted_wrt_iff_nth_less)
  have wf: "b < length ?rs \<Longrightarrow> low (?rs ! b) \<le> high (?rs ! b)" for b
    using g by (simp add: gapped_def)
  have mono: "a \<le> b \<Longrightarrow> b < length ?rs \<Longrightarrow> ?f a \<Longrightarrow> ?f b" for a b
    using step [of a b] wf [of b] by (cases "a = b") auto
  have below: "k < ?i \<Longrightarrow> \<not> ?f k" for k
    using mono by (rule sort_search_spec(1))
  have above: "?i \<le> k \<Longrightarrow> k < length ?rs \<Longrightarrow> ?f k" for k
    using mono by (rule sort_search_spec(2))
  have "covers ?rs s \<longleftrightarrow> ?i < length ?rs \<and> low (?rs ! ?i) \<le> s \<and> s \<le> high (?rs ! ?i)"
  proof
    assume "covers ?rs s"
    then obtain j where j: "j < length ?rs" "low (?rs ! j) \<le> s" "s \<le> high (?rs ! j)"
      by (auto simp: covers_def in_set_conv_nth)
    then have le: "?i \<le> j" using below [of j] by (meson not_le)
    then have hi: "s \<le> high (?rs ! ?i)" using above [of ?i] j(1) by simp
    have "\<not> ?i < j" using step [of ?i j] j hi by auto
    then show "?i < length ?rs \<and> low (?rs ! ?i) \<le> s \<and> s \<le> high (?rs ! ?i)"
      using le j by (metis le_less)
  next
    assume "?i < length ?rs \<and> low (?rs ! ?i) \<le> s \<and> s \<le> high (?rs ! ?i)"
    then show "covers ?rs s" by (auto simp: covers_def)
  qed
  then show ?thesis using False s by (auto simp: Match_def Let_def)
qed

lemma Match_pos: "Match m s \<Longrightarrow> 0 < s \<and> ranges m \<noteq> []"
  by (auto simp: Match_def Let_def split: if_splits)

subsection \<open>Parsing\<close>

lemma parseRangeToken_ordered: "parseRangeToken t = Inr (lo, hi) \<Longrightarrow> lo \<le> hi"
  by (auto simp: parseRangeToken_def split: prod.splits option.splits if_splits)

lemma parseTokens_bounds:
  "parseTokens ts = Inr rs \<Longrightarrow> r \<in> set rs \<Longrightarrow> 400 \<le> low r \<and> low r \<le> high r \<and> high r \<le> 599"
proof (induction ts arbitrary: rs)
  case Nil
  then show ?case by simp
next
  case (Cons raw ts)
  then show ?case
    by (auto simp: Let_def split: if_splits sum.splits dest!: parseRangeToken_ordered)
qed

lemma parseFailoverSpec_bounds:
  "parseFailoverSpec s = Inr rs \<Longrightarrow> r \<in> set rs \<Longrightarrow> 400 \<le> low r \<and> low r \<le> high r \<and> high r \<le> 599"
  by (auto simp: parseFailoverSpec_def split: sum.splits if_splits dest: parseTokens_bounds)

lemma NewFailoverMatcher_cases:
  assumes "NewFailoverMatcher s = Inr m"
  obtains (Empty) "ranges m = []"
  | (Parsed) rs where "parseFailoverSpec s = Inr rs" "ranges m = mergeRanges rs"
  using assms that by (auto simp: NewFailoverMatcher_def split: if_splits sum.splits)

subsection \<open>Properties\<close>

text \<open>C6: a matcher built from an operator's list accepts a status code exactly when one of the
  parsed codes or ranges contains it: sorting, merging adjacent ranges and bisection lose and add
  nothing.\<close>

theorem failover_match_iff_parsed:
  assumes "NewFailoverMatcher s = Inr m" and "trim_space s \<noteq> []"
  shows "\<exists>rs. parseFailoverSpec s = Inr rs
    \<and> (\<forall>status. Match m status \<longleftrightarrow> (\<exists>r\<in>set rs. low r \<le> status \<and> status \<le> high r))"
proof -
  obtain rs where rs: "parseFailoverSpec s = Inr rs" "ranges m = mergeRanges rs"
    using assms by (auto simp: NewFailoverMatcher_def split: sum.splits)
  note b = parseFailoverSpec_bounds [OF rs(1)]
  have "gapped (ranges m)" using b rs(2) by (auto intro: mergeRanges_gapped)
  then have "0 < status \<Longrightarrow> Match m status = covers rs status" for status
    by (simp add: Match_covers rs(2) mergeRanges_covers)
  moreover have "covers rs status \<Longrightarrow> 0 < status" for status
    using b by (fastforce simp: covers_def)
  ultimately have "Match m status = covers rs status" for status
    using Match_pos by blast
  then show ?thesis using rs(1) by (auto simp: covers_def)
qed

theorem failover_match_iff_parsed_witness:
  "\<exists>rs. parseFailoverSpec ''429,500-503'' = Inr rs
    \<and> (\<forall>status. Match \<lparr>ranges = [\<lparr>low = 429, high = 429\<rparr>, \<lparr>low = 500, high = 503\<rparr>],
                        spec = ''429,500-503''\<rparr> status
         \<longleftrightarrow> (\<exists>r\<in>set rs. low r \<le> status \<and> status \<le> high r))"
  by (rule failover_match_iff_parsed) code_simp+

end
