(* ===== verification/Runtime_Config.thy ===== *)
theory Runtime_Config
  imports Failover_Matcher
begin

text \<open>
  \<open>internal/runtimeconfig/snapshot.go\<close>: the settings a request reads once at its start, the
  per-model timeout hints, and the range check that guards the stored settings.
\<close>

record runtimeSnapshot =
  QueueCapacity :: int
  QueueWaitTimeoutMS :: int
  ConnectTimeoutMS :: int
  FirstByteTimeoutMS :: int
  NonstreamTotalTimeoutMS :: int
  ShutdownGraceMS :: int
  FailoverStatusCodes :: string
  RequestLogRetentionDays :: int
  MaxAttemptsPerRequest :: int
  RetryBudgetMS :: int
  MaxStreamingPerKey :: int
  StreamFirstTokenTimeoutMS :: int
  StreamIdleTimeoutMS :: int
  LatencyRoutingEnabled :: bool
  EmbeddingCacheEnabled :: bool
  EmbeddingCacheMaxEntries :: int
  AutoReasoningEnabled :: bool
  CapabilityProbeEnabled :: bool
  CapabilityProbeIntervalHours :: int
  FirstByteDeadline :: time

definition zero_snapshot :: runtimeSnapshot where
  "zero_snapshot =
     \<lparr>QueueCapacity = 0, QueueWaitTimeoutMS = 0, ConnectTimeoutMS = 0, FirstByteTimeoutMS = 0,
      NonstreamTotalTimeoutMS = 0, ShutdownGraceMS = 0, FailoverStatusCodes = [],
      RequestLogRetentionDays = 0, MaxAttemptsPerRequest = 0, RetryBudgetMS = 0,
      MaxStreamingPerKey = 0, StreamFirstTokenTimeoutMS = 0, StreamIdleTimeoutMS = 0,
      LatencyRoutingEnabled = False, EmbeddingCacheEnabled = False, EmbeddingCacheMaxEntries = 0,
      AutoReasoningEnabled = False, CapabilityProbeEnabled = False,
      CapabilityProbeIntervalHours = 0, FirstByteDeadline = 0\<rparr>"

record modelTimeouts =
  hintFirstTokenTimeoutMS :: int
  hintIdleTimeoutMS :: int

datatype validationError =
    OutOfRange string int int int
  | BadFailoverCodes string failover_error

fun first_violation :: "(string \<times> int \<times> int \<times> int) list \<Rightarrow> validationError option" where
  "first_violation [] = None"
| "first_violation ((field, val, lo, hi) # rest) =
     (if val < lo \<or> val > hi then Some (OutOfRange field lo hi val) else first_violation rest)"

definition Validate_checks :: "runtimeSnapshot \<Rightarrow> (string \<times> int \<times> int \<times> int) list" where
  "Validate_checks s =
     [(''queue_capacity'', QueueCapacity s, 1, 10000),
      (''queue_wait_timeout_ms'', QueueWaitTimeoutMS s, 1000, 600000),
      (''connect_timeout_ms'', ConnectTimeoutMS s, 1000, 120000),
      (''first_byte_timeout_ms'', FirstByteTimeoutMS s, 1000, 600000),
      (''nonstream_total_timeout_ms'', NonstreamTotalTimeoutMS s, 1000, 1800000),
      (''shutdown_grace_ms'', ShutdownGraceMS s, 1000, 600000),
      (''request_log_retention_days'', RequestLogRetentionDays s, 30, 365),
      (''max_attempts_per_request'', MaxAttemptsPerRequest s, 1, 50),
      (''retry_budget_ms'', RetryBudgetMS s, 1000, 600000)]
     @ (if MaxStreamingPerKey s \<noteq> 0
        then [(''max_streaming_per_key'', MaxStreamingPerKey s, 1, 10)] else [])
     @ (if StreamFirstTokenTimeoutMS s \<noteq> 0
        then [(''stream_first_token_timeout_ms'', StreamFirstTokenTimeoutMS s, 1000, 1800000)] else [])
     @ (if StreamIdleTimeoutMS s \<noteq> 0
        then [(''stream_idle_timeout_ms'', StreamIdleTimeoutMS s, 1000, 1800000)] else [])
     @ (if EmbeddingCacheMaxEntries s \<noteq> 0
        then [(''embedding_cache_max_entries'', EmbeddingCacheMaxEntries s, 1, 10000)] else [])
     @ (if CapabilityProbeIntervalHours s \<noteq> 0
        then [(''capability_probe_interval_hours'', CapabilityProbeIntervalHours s, 6, 168)] else [])"

text \<open>The nil error is \<^const>\<open>None\<close>.\<close>

definition Validate :: "runtimeSnapshot \<Rightarrow> validationError option" where
  "Validate s =
     (case first_violation (Validate_checks s) of
        Some e \<Rightarrow> Some e
      | None \<Rightarrow>
          if trim_space (FailoverStatusCodes s) \<noteq> [] then
            (case NewFailoverMatcher (FailoverStatusCodes s) of
               Inl e \<Rightarrow> Some (BadFailoverCodes (FailoverStatusCodes s) e)
             | Inr _ \<Rightarrow> None)
          else None)"

subsection \<open>Facts\<close>

lemma first_violation_None_iff:
  "first_violation cs = None \<longleftrightarrow> (\<forall>(field, val, lo, hi)\<in>set cs. lo \<le> val \<and> val \<le> hi)"
  by (induction cs rule: first_violation.induct) auto

lemma Validate_None:
  "Validate s = None \<Longrightarrow> \<forall>(field, val, lo, hi)\<in>set (Validate_checks s). lo \<le> val \<and> val \<le> hi"
  by (auto simp: Validate_def first_violation_None_iff split: option.splits)

lemma Validate_None_ranges:
  assumes "Validate s = None"
  shows "1 \<le> QueueCapacity s" "1000 \<le> QueueWaitTimeoutMS s" "QueueWaitTimeoutMS s \<le> 600000"
    "1 \<le> MaxAttemptsPerRequest s" "MaxAttemptsPerRequest s \<le> 50"
    "1000 \<le> RetryBudgetMS s" "RetryBudgetMS s \<le> 600000"
    "1000 \<le> NonstreamTotalTimeoutMS s" "NonstreamTotalTimeoutMS s \<le> 1800000"
    "1000 \<le> FirstByteTimeoutMS s" "FirstByteTimeoutMS s \<le> 600000"
    "1000 \<le> ConnectTimeoutMS s" "ConnectTimeoutMS s \<le> 120000"
    "MaxStreamingPerKey s = 0 \<or> (1 \<le> MaxStreamingPerKey s \<and> MaxStreamingPerKey s \<le> 10)"
    "StreamFirstTokenTimeoutMS s = 0 \<or>
       (1000 \<le> StreamFirstTokenTimeoutMS s \<and> StreamFirstTokenTimeoutMS s \<le> 1800000)"
    "StreamIdleTimeoutMS s = 0 \<or> (1000 \<le> StreamIdleTimeoutMS s \<and> StreamIdleTimeoutMS s \<le> 1800000)"
  using Validate_None [OF assms] by (auto simp: Validate_checks_def split: if_splits)

end
