(* ===== verification/Fault.thy ===== *)
theory Fault
  imports Prelude
begin

text \<open>
  \<open>internal/fault/fault.go\<close> and the Go error values the routing core inspects.

  A Go error is the chain its \<open>Unwrap\<close> methods spell out, outermost value first; the nil error
  is the empty chain. \<open>errors.Is\<close> is membership in the chain and \<open>errors.As\<close> finds the first
  node of a type. A \<open>Fault\<close> used as an error is its own node followed by the chain of its \<open>Cause\<close>.
\<close>

datatype scope =
    ScopeRequest
  | ScopeCredential
  | ScopeModelCredential
  | ScopeTransientCredential
  | ScopeUpstreamGlobal

record faultCore =
  HTTPStatus :: int
  Scope :: scope
  Retryable :: bool
  RetryAfter :: duration
  DisableKey :: bool
  BlockModel :: bool
  PublicType :: string
  PublicCode :: string
  PublicMessage :: string
  retryAfterValid :: bool

record apiError =
  apiStatus :: int
  apiType :: string
  apiCode :: string
  apiMessage :: string
  apiRetryAfter :: duration

datatype errorReason =
    ReasonTransportFailed
  | ReasonProxyRejected
  | ReasonManagerClosed
  | ReasonNoHealthyProxy

datatype errNode =
    Canceled
  | DeadlineExceeded
  | ErrFirstByteTimeout
  | EOF
  | ErrUnexpectedEOF
  | ECONNRESET
  | ECONNREFUSED
  | EPIPE
  | NetError bool
  | FaultNode faultCore
  | APIError apiError
  | ProxyError errorReason
  | Wrapped string
  | OtherError string

type_synonym goError = "errNode list"

record fault = faultCore +
  Cause :: goError

abbreviation nil_error :: goError where "nil_error \<equiv> []"

definition errors_is :: "goError \<Rightarrow> errNode \<Rightarrow> bool" where
  "errors_is err target \<longleftrightarrow> target \<in> set err"

text \<open>The chain of a \<open>Fault\<close> (\<open>Fault.Unwrap\<close> returns its cause).\<close>

definition fault_error :: "fault \<Rightarrow> goError" where
  "fault_error f = FaultNode (faultCore.truncate f) # Cause f"

text \<open>\<open>errors.As\<close> with a \<open>Fault\<close> target: the first fault of the chain, with what follows it as
  its cause.\<close>

fun errors_as_fault :: "goError \<Rightarrow> fault option" where
  "errors_as_fault [] = None"
| "errors_as_fault (FaultNode c # rest) = Some (faultCore.extend c \<lparr>Cause = rest\<rparr>)"
| "errors_as_fault (_ # rest) = errors_as_fault rest"

fun errors_as_api :: "goError \<Rightarrow> apiError option" where
  "errors_as_api [] = None"
| "errors_as_api (APIError e # rest) = Some e"
| "errors_as_api (_ # rest) = errors_as_api rest"

fun errors_as_proxy :: "goError \<Rightarrow> errorReason option" where
  "errors_as_proxy [] = None"
| "errors_as_proxy (ProxyError r # rest) = Some r"
| "errors_as_proxy (_ # rest) = errors_as_proxy rest"

text \<open>The nodes that implement \<open>net.Error\<close>, with what their \<open>Timeout\<close> method returns:
  \<open>context.DeadlineExceeded\<close> and the system error numbers do.\<close>

fun net_error :: "errNode \<Rightarrow> bool option" where
  "net_error DeadlineExceeded = Some True"
| "net_error ECONNRESET = Some False"
| "net_error ECONNREFUSED = Some False"
| "net_error EPIPE = Some False"
| "net_error (NetError t) = Some t"
| "net_error _ = None"

fun errors_as_net :: "goError \<Rightarrow> bool option" where
  "errors_as_net [] = None"
| "errors_as_net (e # rest) = (case net_error e of Some t \<Rightarrow> Some t | None \<Rightarrow> errors_as_net rest)"

definition New_fault :: "int \<Rightarrow> scope \<Rightarrow> string \<Rightarrow> string \<Rightarrow> string \<Rightarrow> goError \<Rightarrow> fault" where
  "New_fault httpStatus scp publicType publicCode publicMessage cause =
     \<lparr>HTTPStatus = httpStatus, Scope = scp, Retryable = False, RetryAfter = 0, DisableKey = False,
      BlockModel = False, PublicType = publicType, PublicCode = publicCode,
      PublicMessage = publicMessage, retryAfterValid = False, Cause = cause\<rparr>"

definition Protocol :: "goError \<Rightarrow> fault" where
  "Protocol cause =
     (New_fault 502 ScopeUpstreamGlobal ''server_error'' ''upstream_protocol_error''
        ''The upstream response was malformed.'' cause)\<lparr>Retryable := True\<rparr>"

definition EmptyResponse :: "goError \<Rightarrow> fault" where
  "EmptyResponse cause =
     (New_fault 429 ScopeTransientCredential ''rate_limit_error'' ''upstream_empty_response''
        ''The upstream service returned no usable output. Please retry.'' cause)
        \<lparr>Retryable := True, RetryAfter := second\<rparr>"

subsection \<open>Facts\<close>

lemma errors_as_fault_error [simp]: "errors_as_fault (fault_error f) = Some f"
  by (simp add: fault_error_def faultCore.truncate_def faultCore.extend_def)

lemma errors_is_fault_error [simp]:
  "errors_is (fault_error f) target \<longleftrightarrow> target = FaultNode (faultCore.truncate f) \<or> errors_is (Cause f) target"
  by (simp add: fault_error_def errors_is_def)

end
