(* ===== verification/Cooldown.thy ===== *)
theory Cooldown
  imports Fault
begin

text \<open>
  \<open>internal/fault/cooldown.go\<close>: how long a key rests after a fault, and the backoff level it
  moves to. The random source is the value it returns. Floating-point products are modelled by
  real arithmetic followed by Go's truncation; the rounding error of a \<open>float64\<close> product is not
  modelled.
\<close>

definition initialRateLimitCooldown :: duration where
  "initialRateLimitCooldown = 5 * second"

definition maximumRateLimitCooldown :: duration where
  "maximumRateLimitCooldown = 5 * minute"

definition transientCooldown :: duration where
  "transientCooldown = 15 * second"

definition maximumCooldownLevel :: int where
  "maximumCooldownLevel = 6"

text \<open>Conversion of a \<open>float64\<close> to \<open>time.Duration\<close> drops the fraction.\<close>

definition go_trunc :: "real \<Rightarrow> int" where
  "go_trunc x = (if 0 \<le> x then \<lfloor>x\<rfloor> else \<lceil>x\<rceil>)"

definition rateLimitCooldown :: "int \<Rightarrow> duration" where
  "rateLimitCooldown level0 =
     (let level = (if level0 < 0 then 0 else level0)
      in if level \<ge> maximumCooldownLevel then maximumRateLimitCooldown
         else initialRateLimitCooldown * 2 ^ nat level)"

definition nextCooldownLevel :: "int \<Rightarrow> int" where
  "nextCooldownLevel level =
     (if level < 0 then 1 else if level < maximumCooldownLevel then level + 1 else level)"

definition applyJitter :: "duration \<Rightarrow> real \<Rightarrow> duration" where
  "applyJitter base random =
     (let v1 = (if random < 0 then 0 else random);
          v = (if v1 > 1 then 1 else v1);
          d = go_trunc (real_of_int base * (8 / 10 + 4 / 10 * v))
      in if d > maximumRateLimitCooldown then maximumRateLimitCooldown else d)"

definition CalculateCooldown :: "fault \<Rightarrow> int \<Rightarrow> real \<Rightarrow> duration \<times> int" where
  "CalculateCooldown f level random =
     (if HTTPStatus f = 429 then
        (let nextLevel = nextCooldownLevel level
         in if retryAfterValid f \<or> RetryAfter f > 0 then
              (if RetryAfter f > maximumRateLimitCooldown then (maximumRateLimitCooldown, nextLevel)
               else (RetryAfter f, nextLevel))
            else (applyJitter (rateLimitCooldown level) random, nextLevel))
      else if Retryable f \<and> HTTPStatus f \<ge> 500 \<and> HTTPStatus f \<le> 599 then
        (if RetryAfter f > 0 then
           (if RetryAfter f > maximumRateLimitCooldown then (maximumRateLimitCooldown, level)
            else (RetryAfter f, level))
         else (transientCooldown, level))
      else (0, level))"

subsection \<open>Facts\<close>

lemmas cooldown_consts =
  initialRateLimitCooldown_def maximumRateLimitCooldown_def transientCooldown_def maximumCooldownLevel_def

lemma rateLimitCooldown_bounds:
  "initialRateLimitCooldown \<le> rateLimitCooldown level \<and> rateLimitCooldown level \<le> maximumRateLimitCooldown"
proof (cases "level \<ge> 6")
  case True
  then show ?thesis by (simp add: rateLimitCooldown_def cooldown_consts)
next
  case False
  then have "nat (max 0 level) \<le> 5" by simp
  then have "(2::int) ^ nat (max 0 level) \<le> 2 ^ 5" by (intro power_increasing) simp_all
  moreover have "(1::int) \<le> 2 ^ nat (max 0 level)" by simp
  ultimately show ?thesis using False
    by (auto simp: rateLimitCooldown_def cooldown_consts Let_def max_def split: if_splits)
qed

text \<open>Below the ceiling each further rate limit doubles the base cooldown.\<close>

lemma rateLimitCooldown_doubles:
  "0 \<le> level \<Longrightarrow> level < 5 \<Longrightarrow> rateLimitCooldown (level + 1) = 2 * rateLimitCooldown level"
  by (simp add: rateLimitCooldown_def cooldown_consts nat_add_distrib)

lemma applyJitter_bounds:
  assumes "0 \<le> base"
  shows "min maximumRateLimitCooldown \<lfloor>real_of_int base * (8 / 10)\<rfloor> \<le> applyJitter base random"
    and "applyJitter base random \<le> maximumRateLimitCooldown"
    and "applyJitter base random \<le> \<lfloor>real_of_int base * (12 / 10)\<rfloor>"
proof -
  define v where "v = (if (if random < 0 then 0 else random) > 1 then 1 else (if random < 0 then 0 else random))"
  have v: "0 \<le> v" "v \<le> 1" by (auto simp: v_def)
  have lo: "real_of_int base * (8 / 10) \<le> real_of_int base * (8 / 10 + 4 / 10 * v)"
    using assms v by (intro mult_left_mono) auto
  have hi: "real_of_int base * (8 / 10 + 4 / 10 * v) \<le> real_of_int base * (12 / 10)"
    using assms v by (intro mult_left_mono) auto
  have nonneg: "0 \<le> real_of_int base * (8 / 10 + 4 / 10 * v)" using assms v by simp
  have eq: "applyJitter base random =
     (if \<lfloor>real_of_int base * (8 / 10 + 4 / 10 * v)\<rfloor> > maximumRateLimitCooldown then maximumRateLimitCooldown
      else \<lfloor>real_of_int base * (8 / 10 + 4 / 10 * v)\<rfloor>)"
    using nonneg by (simp add: applyJitter_def Let_def go_trunc_def v_def)
  show "min maximumRateLimitCooldown \<lfloor>real_of_int base * (8 / 10)\<rfloor> \<le> applyJitter base random"
    unfolding eq using floor_mono [OF lo] by auto
  show "applyJitter base random \<le> maximumRateLimitCooldown" unfolding eq by auto
  show "applyJitter base random \<le> \<lfloor>real_of_int base * (12 / 10)\<rfloor>"
    unfolding eq using floor_mono [OF hi] by auto
qed

lemma applyJitter_rateLimit_ge: "4 * second \<le> applyJitter (rateLimitCooldown level) random"
proof -
  have "initialRateLimitCooldown \<le> rateLimitCooldown level" using rateLimitCooldown_bounds by simp
  then have "real_of_int (4 * second) \<le> real_of_int (rateLimitCooldown level) * (8 / 10)"
    by (simp add: cooldown_consts)
  then have floor: "4 * second \<le> \<lfloor>real_of_int (rateLimitCooldown level) * (8 / 10)\<rfloor>"
    using le_floor_iff by blast
  have "0 \<le> rateLimitCooldown level"
    using rateLimitCooldown_bounds [of level] by (simp add: cooldown_consts)
  then have "min maximumRateLimitCooldown \<lfloor>real_of_int (rateLimitCooldown level) * (8 / 10)\<rfloor>
      \<le> applyJitter (rateLimitCooldown level) random"
    by (rule applyJitter_bounds(1))
  then show ?thesis using floor unfolding maximumRateLimitCooldown_def by linarith
qed

subsection \<open>Properties\<close>

text \<open>Whatever fault, level and random draw, the cooldown of a key is never longer than five
  minutes and never negative for a non-negative Retry-After; a 429 without Retry-After rests the key
  at least four seconds and moves the level up by one until the ceiling of six, every other fault
  leaves the level alone.\<close>

theorem cooldown_bounded:
  assumes "0 \<le> RetryAfter f" and "0 \<le> level" "level \<le> 6"
  shows "0 \<le> fst (CalculateCooldown f level random)
    \<and> fst (CalculateCooldown f level random) \<le> 5 * minute
    \<and> (HTTPStatus f = 429 \<and> RetryAfter f = 0 \<and> \<not> retryAfterValid f \<longrightarrow>
           4 * second \<le> fst (CalculateCooldown f level random))
    \<and> snd (CalculateCooldown f level random) = (if HTTPStatus f = 429 then min 6 (level + 1) else level)"
proof (intro conjI)
  note j = applyJitter_rateLimit_ge [of level random]
  have "0 \<le> rateLimitCooldown level"
    using rateLimitCooldown_bounds [of level] by (simp add: cooldown_consts)
  note m = applyJitter_bounds(2) [OF this, of random]
  show "0 \<le> fst (CalculateCooldown f level random)"
    using assms j by (auto simp: CalculateCooldown_def Let_def cooldown_consts)
  show "fst (CalculateCooldown f level random) \<le> 5 * minute"
    using assms m by (auto simp: CalculateCooldown_def Let_def cooldown_consts)
  show "HTTPStatus f = 429 \<and> RetryAfter f = 0 \<and> \<not> retryAfterValid f \<longrightarrow>
      4 * second \<le> fst (CalculateCooldown f level random)"
    using j by (auto simp: CalculateCooldown_def Let_def)
  show "snd (CalculateCooldown f level random) = (if HTTPStatus f = 429 then min 6 (level + 1) else level)"
    using assms by (auto simp: CalculateCooldown_def nextCooldownLevel_def Let_def cooldown_consts)
qed

theorem cooldown_bounded_witness:
  "4 * second \<le> fst (CalculateCooldown (New_fault 429 ScopeTransientCredential [] [] [] nil_error) 2 (1 / 2))
   \<and> fst (CalculateCooldown (New_fault 429 ScopeTransientCredential [] [] [] nil_error) 2 (1 / 2)) \<le> 5 * minute
   \<and> snd (CalculateCooldown (New_fault 429 ScopeTransientCredential [] [] [] nil_error) 2 (1 / 2)) = 3"
  using cooldown_bounded [of "New_fault 429 ScopeTransientCredential [] [] [] nil_error" 2 "1 / 2"]
  by (simp add: New_fault_def)

end
