(* ===== verification/Key_Pool.thy ===== *)
theory Key_Pool
  imports Key_State Runtime_Config Fault Cooldown "HOL-Library.Monad_Syntax"
begin

text \<open>
  \<open>internal/pool/pool.go\<close> and \<open>internal/pool/lease.go\<close>: the pool of NVIDIA keys, the scan that
  hands out a lease, and the bookkeeping operations as they run under the pool's lock (the
  dispatch of waiting requests that follows each of them is in \<open>Wait_Queue\<close>).

  The Go pool holds pointers to key states, and a lease keeps the pointer it was made from even
  after the key is removed or reloaded. The model therefore has a heap: a key state lives at a
  reference (\<^typ>\<open>nat\<close>), \<open>keys\<close> maps a key id to the reference, a lease stores the reference. A
  lease handle is an index into \<open>leases\<close>; its flag \<open>released\<close> is the \<open>sync.Once\<close>.

  A read of the clock is a parameter \<open>now\<close>: one instant per critical section. The random source
  is the sequence \<open>latencyRNG\<close> of the values it returns, read at position \<open>rngPos\<close>. An operation
  that would dereference a missing key or index out of range panics: it returns \<^const>\<open>None\<close>.
\<close>

subsection \<open>Data\<close>

record lease =
  leaseKeyID :: key_id
  leaseRef :: nat
  leaseStream :: bool
  released :: bool

record ctx =
  ctxID :: nat
  noAttemptedRelaxation :: bool

record waiter =
  waiterID :: nat
  waiterCtx :: ctx
  waiterModelID :: model_id
  waiterAttempted :: "key_id set"
  waiterStream :: bool
  waiterMaxStreaming :: int
  waiterLatencyEnabled :: bool

datatype unavailableReason =
    UnavailableBusy
  | UnavailableCooling
  | UnavailableDisabled
  | UnavailableModelBlocked
  | UnavailableRateLimited

record unavailableState =
  reason :: unavailableReason
  unavailableRetryAfter :: duration

record pool =
  settings :: "runtimeSnapshot option"
  heap :: "nat \<Rightarrow> keyState"
  nextRef :: nat
  keys :: "key_id \<rightharpoonup> nat"
  models :: "model_id \<rightharpoonup> bool"
  order :: "key_id list"
  cursor :: nat
  waiters :: "waiter list"
  closed :: bool
  latencyRNG :: "nat \<Rightarrow> real"
  rngPos :: nat
  leases :: "lease list"
  results :: "nat \<rightharpoonup> (goError + nat)"
  pending :: "nat set"
  nextWaiter :: nat

definition New_pool :: "runtimeSnapshot option \<Rightarrow> (nat \<Rightarrow> real) \<Rightarrow> pool" where
  "New_pool provider rng =
     \<lparr>settings = provider,
      heap = (\<lambda>_. newKeyState \<lparr>ksID = 0, Enabled = False, AuthInvalid = False, CooldownUntil = None,
                               CooldownLevel = 0, ConsecutiveFailures = 0\<rparr>),
      nextRef = 0, keys = Map.empty, models = Map.empty, order = [], cursor = 0, waiters = [],
      closed = False, latencyRNG = rng, rngPos = 0, leases = [], results = Map.empty,
      pending = {}, nextWaiter = 0\<rparr>"

definition currentSnapshot :: "pool \<Rightarrow> runtimeSnapshot" where
  "currentSnapshot p = (case settings p of None \<Rightarrow> zero_snapshot | Some s \<Rightarrow> s)"

definition isCoolingDown :: "time option \<Rightarrow> time \<Rightarrow> bool" where
  "isCoolingDown until now = (case until of None \<Rightarrow> False | Some t \<Rightarrow> now < t)"

definition set_state :: "nat \<Rightarrow> keyState \<Rightarrow> pool \<Rightarrow> pool" where
  "set_state r s p = p\<lparr>heap := (heap p)(r := s)\<rparr>"

definition with_key :: "key_id \<Rightarrow> (keyState \<Rightarrow> keyState) \<Rightarrow> pool \<Rightarrow> pool" where
  "with_key keyID f p =
     (case keys p keyID of None \<Rightarrow> p | Some r \<Rightarrow> set_state r (f (heap p r)) p)"

subsection \<open>Bookkeeping\<close>

definition setModelEnabledLocked :: "model_id \<Rightarrow> bool \<Rightarrow> pool \<Rightarrow> pool" where
  "setModelEnabledLocked modelID enabled p = p\<lparr>models := (models p)(modelID \<mapsto> enabled)\<rparr>"

definition clearModelBlocksLocked :: "model_id \<Rightarrow> pool \<Rightarrow> pool" where
  "clearModelBlocksLocked modelID p =
     p\<lparr>heap := (\<lambda>r. if r \<in> ran (keys p) then (heap p r)\<lparr>blocks := blocks (heap p r) - {modelID}\<rparr>
                    else heap p r)\<rparr>"

text \<open>The two loops of \<open>LoadSnapshot\<close>: one fresh key state per key, then the model blocks.\<close>

fun load_keys :: "keySnapshot list \<Rightarrow> pool \<Rightarrow> pool" where
  "load_keys [] p = p"
| "load_keys (key # rest) p =
     load_keys rest
       (p\<lparr>heap := (heap p)(nextRef p := newKeyState key),
          keys := (keys p)(ksID key \<mapsto> nextRef p),
          nextRef := Suc (nextRef p),
          order := order p @ [ksID key]\<rparr>)"

fun load_blocks :: "modelBlock list \<Rightarrow> pool \<Rightarrow> pool" where
  "load_blocks [] p = p"
| "load_blocks (b # rest) p =
     load_blocks rest
       (with_key (blockKeyID b) (\<lambda>s. s\<lparr>blocks := insert (blockModelID b) (blocks s)\<rparr>) p)"

definition loadSnapshotLocked :: "keySnapshot list \<Rightarrow> modelBlock list \<Rightarrow> pool \<Rightarrow> pool" where
  "loadSnapshotLocked ks bs p =
     (let p1 = load_keys ks (p\<lparr>keys := Map.empty, order := []\<rparr>)
      in load_blocks bs (p1\<lparr>order := sort (order p1), cursor := 0\<rparr>))"

definition nextKeyID :: "pool \<Rightarrow> key_id option option" where
  "nextKeyID p =
     (if order p = [] then Some None
      else if cursor p < length (order p) then Some (Some (order p ! cursor p)) else None)"

text \<open>\<open>append\<close> grows the slice by one, \<open>copy\<close> shifts the tail, the slot takes the new value.\<close>

definition insertSorted :: "key_id list \<Rightarrow> key_id \<Rightarrow> key_id list" where
  "insertSorted ids v =
     (let index = sort_search (length ids) (\<lambda>i. ids ! i \<ge> v)
      in take index ids @ v # drop index ids)"

fun index_of :: "key_id \<Rightarrow> key_id list \<Rightarrow> nat option" where
  "index_of k [] = None"
| "index_of k (x # xs) = (if x = k then Some 0 else map_option Suc (index_of k xs))"

definition upsertKeyLocked :: "keySnapshot \<Rightarrow> pool \<Rightarrow> pool option" where
  "upsertKeyLocked key p =
     (case keys p (ksID key) of
        Some r \<Rightarrow> Some (set_state r ((heap p r)\<lparr>snapshot := cloneSnapshot key\<rparr>) p)
      | None \<Rightarrow> do {
          nk \<leftarrow> nextKeyID p;
          let p1 = p\<lparr>heap := (heap p)(nextRef p := newKeyState key),
                     keys := (keys p)(ksID key \<mapsto> nextRef p),
                     nextRef := Suc (nextRef p),
                     order := insertSorted (order p) (ksID key)\<rparr>;
          Some (case nk of
                  None \<Rightarrow> p1\<lparr>cursor := 0\<rparr>
                | Some k \<Rightarrow> (case index_of k (order p1) of None \<Rightarrow> p1 | Some i \<Rightarrow> p1\<lparr>cursor := i\<rparr>))
        })"

definition setKeyEnabledLocked :: "key_id \<Rightarrow> bool \<Rightarrow> pool \<Rightarrow> pool" where
  "setKeyEnabledLocked keyID enabled =
     with_key keyID (\<lambda>s. s\<lparr>snapshot := (snapshot s)\<lparr>Enabled := enabled\<rparr>\<rparr>)"

definition removeKeyLocked :: "key_id \<Rightarrow> pool \<Rightarrow> pool" where
  "removeKeyLocked keyID p =
     (case keys p keyID of
        None \<Rightarrow> p
      | Some _ \<Rightarrow>
          let p1 = p\<lparr>keys := (keys p)(keyID := None)\<rparr>;
              p2 = (case index_of keyID (order p1) of
                      None \<Rightarrow> p1
                    | Some index \<Rightarrow>
                        p1\<lparr>order := take index (order p1) @ drop (Suc index) (order p1),
                           cursor := (if index < cursor p1 then cursor p1 - 1 else cursor p1)\<rparr>)
          in if order p2 = [] then p2\<lparr>cursor := 0\<rparr>
             else if cursor p2 \<ge> length (order p2) then p2\<lparr>cursor := 0\<rparr> else p2)"

definition applySuccessLocked :: "key_id \<Rightarrow> pool \<Rightarrow> pool" where
  "applySuccessLocked keyID =
     with_key keyID (\<lambda>s. s\<lparr>snapshot := (snapshot s)
       \<lparr>AuthInvalid := False, CooldownUntil := None, CooldownLevel := 0, ConsecutiveFailures := 0\<rparr>\<rparr>)"

definition recordLatencyLocked :: "key_id \<Rightarrow> int \<Rightarrow> pool \<Rightarrow> pool" where
  "recordLatencyLocked keyID durationMS = with_key keyID (recordLatency (real_of_int durationMS))"

definition applyFailureLocked :: "key_id \<Rightarrow> model_id \<Rightarrow> fault \<Rightarrow> keySnapshot \<Rightarrow> pool \<Rightarrow> pool" where
  "applyFailureLocked keyID modelID f persisted =
     with_key keyID
       (\<lambda>s. let s1 = s\<lparr>snapshot := (snapshot s)
              \<lparr>AuthInvalid := AuthInvalid persisted, CooldownUntil := CooldownUntil persisted,
               CooldownLevel := CooldownLevel persisted,
               ConsecutiveFailures := ConsecutiveFailures persisted\<rparr>\<rparr>
            in if BlockModel f then s1\<lparr>blocks := insert modelID (blocks s1)\<rparr> else s1)"

definition setModelBlockLocked :: "key_id \<Rightarrow> model_id \<Rightarrow> bool \<Rightarrow> pool \<Rightarrow> pool" where
  "setModelBlockLocked keyID modelID blocked =
     with_key keyID
       (\<lambda>s. if blocked then s\<lparr>blocks := insert modelID (blocks s)\<rparr>
            else s\<lparr>blocks := blocks s - {modelID}\<rparr>)"

subsection \<open>Handing out a lease\<close>

record scanAcc =
  hasEnabled :: bool
  hasUnblocked :: bool
  hasReady :: bool
  hasBusy :: bool
  hasRateLimited :: bool
  earliestCooldown :: time
  earliestRateLimit :: duration
  latencyCandidates :: "nat list"
  measuredLatency :: nat

definition empty_acc :: scanAcc where
  "empty_acc =
     \<lparr>hasEnabled = False, hasUnblocked = False, hasReady = False, hasBusy = False,
      hasRateLimited = False, earliestCooldown = 0, earliestRateLimit = 0,
      latencyCandidates = [], measuredLatency = 0\<rparr>"

text \<open>The body of the scan for one key: whether the key can be used, and the updated flags. The
  check of the request window prunes the key's request times in place.\<close>

definition scan_key ::
  "time \<Rightarrow> model_id \<Rightarrow> key_id set \<Rightarrow> bool \<Rightarrow> int \<Rightarrow> bool \<Rightarrow> keyState \<Rightarrow> scanAcc
    \<Rightarrow> bool \<times> scanAcc \<times> keyState" where
  "scan_key now modelID attempted stream maxStreamingPerKey retryAttempted s acc =
     (if \<not> Enabled (snapshot s) \<or> AuthInvalid (snapshot s) then (False, acc, s)
      else let acc1 = acc\<lparr>hasEnabled := True\<rparr>
      in if modelID \<in> blocks s then (False, acc1, s)
      else let acc2 = acc1\<lparr>hasUnblocked := True\<rparr>
      in case (case CooldownUntil (snapshot s) of Some t \<Rightarrow> if now < t then Some t else None | None \<Rightarrow> None) of
        Some t \<Rightarrow>
          (False,
           if earliestCooldown acc2 = 0 \<or> t < earliestCooldown acc2 then acc2\<lparr>earliestCooldown := t\<rparr> else acc2,
           s)
      | None \<Rightarrow>
          let acc3 = acc2\<lparr>hasReady := True\<rparr>
          in if \<not> retryAttempted \<and> ksID (snapshot s) \<in> attempted then (False, acc3, s)
          else case requestRetryAfter now s of
            (retryAfter, s1) \<Rightarrow>
              if retryAfter > 0 then
                (False,
                 (if earliestRateLimit acc3 \<le> 0 \<or> retryAfter < earliestRateLimit acc3
                  then acc3\<lparr>hasRateLimited := True, earliestRateLimit := retryAfter\<rparr>
                  else acc3\<lparr>hasRateLimited := True\<rparr>),
                 s1)
              else if stream then
                (if streamingBusy s1 \<ge> maxStreamingPerKey then (False, acc3\<lparr>hasBusy := True\<rparr>, s1)
                 else (True, acc3, s1))
              else (if busy s1 then (False, acc3\<lparr>hasBusy := True\<rparr>, s1) else (True, acc3, s1)))"

text \<open>The scan over the positions of the round-robin order. It stops at the first usable key when
  latency routing is off, and collects every usable key when it is on.\<close>

fun scan ::
  "time \<Rightarrow> model_id \<Rightarrow> key_id set \<Rightarrow> bool \<Rightarrow> int \<Rightarrow> bool \<Rightarrow> bool \<Rightarrow> nat list \<Rightarrow> scanAcc \<Rightarrow> pool
    \<Rightarrow> ((nat \<times> nat) option \<times> scanAcc \<times> pool) option" where
  "scan now modelID attempted stream maxS latencyEnabled retryAttempted [] acc p = Some (None, acc, p)"
| "scan now modelID attempted stream maxS latencyEnabled retryAttempted (index # rest) acc p =
     (case keys p (order p ! index) of
        None \<Rightarrow> None
      | Some r \<Rightarrow>
          (case scan_key now modelID attempted stream maxS retryAttempted (heap p r) acc of
             (usable, acc', s') \<Rightarrow>
               if \<not> usable then
                 scan now modelID attempted stream maxS latencyEnabled retryAttempted rest acc' (set_state r s' p)
               else if \<not> latencyEnabled then Some (Some (index, r), acc', set_state r s' p)
               else
                 scan now modelID attempted stream maxS latencyEnabled retryAttempted rest
                   (acc'\<lparr>latencyCandidates := latencyCandidates acc' @ [r],
                         measuredLatency := measuredLatency acc' + (if snd (latencyScore s') then 1 else 0)\<rparr>)
                   (set_state r s' p)))"

definition visit_order :: "pool \<Rightarrow> nat list" where
  "visit_order p = map (\<lambda>offset. (cursor p + offset) mod length (order p)) [0..<length (order p)]"

fun draw_candidate :: "(nat \<Rightarrow> keyState) \<Rightarrow> real \<Rightarrow> nat list \<Rightarrow> nat option" where
  "draw_candidate h draw [] = None"
| "draw_candidate h draw (r # rest) =
     (let draw' = draw - latencyWeight unmeasuredLatencyWeight (h r)
      in if draw' < 0 then Some r else draw_candidate h draw' rest)"

text \<open>One value of the random source is used whichever branch runs.\<close>

definition weightedSelect :: "pool \<Rightarrow> nat list \<Rightarrow> nat \<Rightarrow> nat option" where
  "weightedSelect p candidates measured =
     (let rng = latencyRNG p (rngPos p)
      in if measured < 2 then
           (let index0 = go_trunc (rng * real (length candidates));
                index = (if index0 \<ge> int (length candidates) then int (length candidates) - 1 else index0)
            in if 0 \<le> index then Some (candidates ! nat index) else None)
         else
           (let total = sum_list (map (\<lambda>r. latencyWeight unmeasuredLatencyWeight (heap p r)) candidates)
            in case draw_candidate (heap p) (rng * total) candidates of
                 Some r \<Rightarrow> Some r
               | None \<Rightarrow> if candidates = [] then None else Some (last candidates)))"

definition take_slot :: "bool \<Rightarrow> keyState \<Rightarrow> keyState" where
  "take_slot stream s =
     (if stream then s\<lparr>streamingBusy := streamingBusy s + 1\<rparr> else s\<lparr>busy := True\<rparr>)"

definition new_lease :: "nat \<Rightarrow> bool \<Rightarrow> pool \<Rightarrow> nat \<times> pool" where
  "new_lease r stream p =
     (length (leases p),
      p\<lparr>leases := leases p @ [\<lparr>leaseKeyID = ksID (snapshot (heap p r)), leaseRef = r,
                               leaseStream = stream, released = False\<rparr>]\<rparr>)"

datatype tryResult = Leased nat | Unavailable unavailableState

definition tryAcquireLocked ::
  "time \<Rightarrow> model_id \<Rightarrow> key_id set \<Rightarrow> bool \<Rightarrow> int \<Rightarrow> bool \<Rightarrow> bool \<Rightarrow> pool \<Rightarrow> (tryResult \<times> pool) option" where
  "tryAcquireLocked now modelID attempted stream maxStreamingPerKey latencyEnabled retryAttempted p =
     (if models p modelID = Some False then
        Some (Unavailable \<lparr>reason = UnavailableModelBlocked, unavailableRetryAfter = 0\<rparr>, p)
      else do {
        (found, acc, p1) \<leftarrow> scan now modelID attempted stream maxStreamingPerKey latencyEnabled
                              retryAttempted (visit_order p) empty_acc p;
        case found of
          Some (index, r) \<Rightarrow>
            (let p2 = set_state r (take_slot stream (snd (reserveRequest now (heap p1 r)))) p1;
                 p3 = p2\<lparr>cursor := (index + 1) mod length (order p2)\<rparr>;
                 (l, p4) = new_lease r stream p3
             in Some (Leased l, p4))
        | None \<Rightarrow>
            if \<not> hasEnabled acc then
              Some (Unavailable \<lparr>reason = UnavailableDisabled, unavailableRetryAfter = 0\<rparr>, p1)
            else if \<not> hasUnblocked acc then
              Some (Unavailable \<lparr>reason = UnavailableModelBlocked, unavailableRetryAfter = 0\<rparr>, p1)
            else if \<not> hasReady acc then
              Some (Unavailable \<lparr>reason = UnavailableCooling,
                                 unavailableRetryAfter = time_sub (earliestCooldown acc) now\<rparr>, p1)
            else if latencyCandidates acc = [] then
              (if hasRateLimited acc \<and> \<not> hasBusy acc then
                 Some (Unavailable \<lparr>reason = UnavailableRateLimited,
                                    unavailableRetryAfter = earliestRateLimit acc\<rparr>, p1)
               else Some (Unavailable \<lparr>reason = UnavailableBusy, unavailableRetryAfter = 0\<rparr>, p1))
            else do {
              selected \<leftarrow> weightedSelect p1 (latencyCandidates acc) (measuredLatency acc);
              let p2 = p1\<lparr>rngPos := Suc (rngPos p1)\<rparr>;
              let p3 = (case index_of (ksID (snapshot (heap p2 selected))) (order p2) of
                          None \<Rightarrow> p2
                        | Some index \<Rightarrow> p2\<lparr>cursor := (index + 1) mod length (order p2)\<rparr>);
              let p4 = set_state selected (snd (reserveRequest now (take_slot stream (heap p3 selected)))) p3;
              let (l, p5) = new_lease selected stream p4;
              Some (Leased l, p5)
            }
      })"

subsection \<open>Giving a lease back\<close>

text \<open>\<open>Pool.release\<close> before it dispatches, and \<open>lease.Release\<close> guarded by its \<open>sync.Once\<close>:
  the second call finds the lease released and does nothing.\<close>

definition free_slot :: "bool \<Rightarrow> keyState \<Rightarrow> keyState" where
  "free_slot stream s =
     (if stream then s\<lparr>streamingBusy := streamingBusy s - 1\<rparr> else s\<lparr>busy := False\<rparr>)"

definition releaseLocked :: "nat \<Rightarrow> pool \<Rightarrow> pool" where
  "releaseLocked l p =
     (let le = leases p ! l
      in set_state (leaseRef le) (free_slot (leaseStream le) (heap p (leaseRef le)))
           (p\<lparr>leases := (leases p)[l := le\<lparr>released := True\<rparr>]\<rparr>))"

end
