(* ===== verification/Wait_Queue.thy ===== *)
theory Wait_Queue
  imports Key_Pool
begin

text \<open>
  \<open>internal/pool/queue.go\<close>: requests that find every key busy wait in a bounded queue; each
  change of the pool dispatches the queue. The result channel of a waiter (capacity one) is its
  entry in \<open>results\<close>; \<open>pending\<close> holds the waiters whose goroutine still sits in \<open>waitForResult\<close>.
  What \<open>ctx.Err()\<close> returns for a context is the parameter \<open>ce\<close>, by the context's identity.
\<close>

type_synonym ctx_errors = "nat \<Rightarrow> goError"

definition queueRetryAfter :: duration where "queueRetryAfter = second"

subsection \<open>Errors\<close>

definition api_error :: "int \<Rightarrow> string \<Rightarrow> string \<Rightarrow> string \<Rightarrow> duration \<Rightarrow> goError" where
  "api_error status typ code message retryAfter =
     [APIError \<lparr>apiStatus = status, apiType = typ, apiCode = code, apiMessage = message,
                apiRetryAfter = retryAfter\<rparr>]"

definition unavailableError :: "unavailableState \<Rightarrow> goError" where
  "unavailableError u =
     (case reason u of
        UnavailableCooling \<Rightarrow>
          api_error 429 ''rate_limit_error'' ''all_keys_cooling_down''
            ''All available upstream credentials are cooling down.'' (unavailableRetryAfter u)
      | UnavailableModelBlocked \<Rightarrow>
          api_error 404 ''invalid_request_error'' ''model_not_available''
            ''The model is not available for any upstream credential.'' 0
      | UnavailableRateLimited \<Rightarrow>
          api_error 429 ''rate_limit_error'' ''nvidia_key_rate_limited''
            ''All available NVIDIA credentials are rate limited.'' (unavailableRetryAfter u)
      | _ \<Rightarrow>
          api_error 503 ''server_error'' ''no_available_keys''
            ''No upstream credentials are currently available.'' 0)"

definition queueFullError :: "duration \<Rightarrow> goError" where
  "queueFullError retryAfter =
     api_error 429 ''rate_limit_error'' ''queue_full'' ''The request queue is full.''
       (if retryAfter \<le> 0 then queueRetryAfter else retryAfter)"

definition queueTimeoutError :: "duration \<Rightarrow> goError" where
  "queueTimeoutError retryAfter =
     api_error 429 ''rate_limit_error'' ''queue_timeout''
       ''The request timed out while waiting for an upstream credential.''
       (if retryAfter \<le> 0 then queueRetryAfter else retryAfter)"

definition shuttingDownError :: goError where
  "shuttingDownError =
     api_error 503 ''server_error'' ''server_shutting_down'' ''The server is shutting down.'' 0"

subsection \<open>Settings\<close>

record resolvedQueueSettings =
  capacity :: int
  wait :: duration
  maxStreamingPerKey :: int
  latencyEnabled :: bool

definition resolveQueueSettings :: "runtimeSnapshot \<Rightarrow> resolvedQueueSettings" where
  "resolveQueueSettings s =
     (let cap = (if QueueCapacity s \<le> 0 then 100 else QueueCapacity s);
          w0 = ms_duration (QueueWaitTimeoutMS s);
          w = (if w0 \<le> 0 then 60 * second else w0);
          ms = (if MaxStreamingPerKey s \<le> 0 then 2 else MaxStreamingPerKey s)
      in \<lparr>capacity = cap, wait = w, maxStreamingPerKey = ms,
          latencyEnabled = LatencyRoutingEnabled s\<rparr>)"

definition queueSettings :: "pool \<Rightarrow> resolvedQueueSettings" where
  "queueSettings p = resolveQueueSettings (currentSnapshot p)"

subsection \<open>The queue\<close>

definition queue_push :: "waiter \<Rightarrow> pool \<Rightarrow> pool" where
  "queue_push w p = p\<lparr>waiters := waiters p @ [w]\<rparr>"

definition queue_remove :: "nat \<Rightarrow> pool \<Rightarrow> pool" where
  "queue_remove i p = p\<lparr>waiters := filter (\<lambda>w. waiterID w \<noteq> i) (waiters p)\<rparr>"

definition queued :: "nat \<Rightarrow> pool \<Rightarrow> bool" where
  "queued i p \<longleftrightarrow> i \<in> waiterID ` set (waiters p)"

definition deliver :: "nat \<Rightarrow> goError + nat \<Rightarrow> pool \<Rightarrow> pool" where
  "deliver i res p = p\<lparr>results := (results p)(i \<mapsto> res)\<rparr>"

definition cloneAttempted :: "key_id set \<Rightarrow> key_id set" where
  "cloneAttempted attempted = attempted"

subsection \<open>Which keys remain\<close>

definition unusable :: "time \<Rightarrow> model_id \<Rightarrow> keyState \<Rightarrow> bool" where
  "unusable now modelID s \<longleftrightarrow>
     \<not> Enabled (snapshot s) \<or> AuthInvalid (snapshot s) \<or> modelID \<in> blocks s
     \<or> isCoolingDown (CooldownUntil (snapshot s)) now"

fun hasNonAttemptedReady_scan ::
  "time \<Rightarrow> model_id \<Rightarrow> key_id set \<Rightarrow> bool \<Rightarrow> int \<Rightarrow> nat list \<Rightarrow> pool \<Rightarrow> (bool \<times> pool) option" where
  "hasNonAttemptedReady_scan now modelID attempted stream maxS [] p = Some (False, p)"
| "hasNonAttemptedReady_scan now modelID attempted stream maxS (index # rest) p =
     (case keys p (order p ! index) of
        None \<Rightarrow> None
      | Some r \<Rightarrow>
          if unusable now modelID (heap p r) then
            hasNonAttemptedReady_scan now modelID attempted stream maxS rest p
          else (case requestRetryAfter now (heap p r) of
            (retryAfter, s1) \<Rightarrow>
              let p1 = set_state r s1 p
              in if retryAfter > 0 \<or> ksID (snapshot s1) \<in> attempted
                    \<or> (if stream then streamingBusy s1 \<ge> maxS else busy s1)
                 then hasNonAttemptedReady_scan now modelID attempted stream maxS rest p1
                 else Some (True, p1)))"

definition hasNonAttemptedReadyLocked ::
  "time \<Rightarrow> model_id \<Rightarrow> key_id set \<Rightarrow> bool \<Rightarrow> int \<Rightarrow> pool \<Rightarrow> (bool \<times> pool) option" where
  "hasNonAttemptedReadyLocked now modelID attempted stream maxS p =
     hasNonAttemptedReady_scan now modelID attempted stream maxS (visit_order p) p"

fun hasUnattemptedEligible_scan ::
  "time \<Rightarrow> model_id \<Rightarrow> key_id set \<Rightarrow> key_id list \<Rightarrow> pool \<Rightarrow> bool option" where
  "hasUnattemptedEligible_scan now modelID attempted [] p = Some False"
| "hasUnattemptedEligible_scan now modelID attempted (k # rest) p =
     (case keys p k of
        None \<Rightarrow> None
      | Some r \<Rightarrow>
          if unusable now modelID (heap p r) \<or> ksID (snapshot (heap p r)) \<in> attempted
          then hasUnattemptedEligible_scan now modelID attempted rest p
          else Some True)"

definition hasUnattemptedEligibleLocked :: "time \<Rightarrow> model_id \<Rightarrow> key_id set \<Rightarrow> pool \<Rightarrow> bool option" where
  "hasUnattemptedEligibleLocked now modelID attempted p =
     hasUnattemptedEligible_scan now modelID attempted (order p) p"

fun hasBusyAttemptedEligible_scan ::
  "time \<Rightarrow> model_id \<Rightarrow> key_id set \<Rightarrow> bool \<Rightarrow> int \<Rightarrow> key_id list \<Rightarrow> pool \<Rightarrow> bool option" where
  "hasBusyAttemptedEligible_scan now modelID attempted stream maxS [] p = Some False"
| "hasBusyAttemptedEligible_scan now modelID attempted stream maxS (k # rest) p =
     (case keys p k of
        None \<Rightarrow> None
      | Some r \<Rightarrow>
          if unusable now modelID (heap p r) \<or> ksID (snapshot (heap p r)) \<notin> attempted
          then hasBusyAttemptedEligible_scan now modelID attempted stream maxS rest p
          else if (if stream then streamingBusy (heap p r) \<ge> maxS else busy (heap p r))
          then Some True
          else hasBusyAttemptedEligible_scan now modelID attempted stream maxS rest p)"

definition hasBusyAttemptedEligibleLocked ::
  "time \<Rightarrow> model_id \<Rightarrow> key_id set \<Rightarrow> bool \<Rightarrow> int \<Rightarrow> pool \<Rightarrow> bool option" where
  "hasBusyAttemptedEligibleLocked now modelID attempted stream maxS p =
     hasBusyAttemptedEligible_scan now modelID attempted stream maxS (order p) p"

subsection \<open>Dispatch\<close>

definition try_waiter :: "time \<Rightarrow> bool \<Rightarrow> waiter \<Rightarrow> pool \<Rightarrow> (tryResult \<times> pool) option" where
  "try_waiter now retryAttempted w p =
     tryAcquireLocked now (waiterModelID w) (waiterAttempted w) (waiterStream w)
       (waiterMaxStreaming w) (waiterLatencyEnabled w) retryAttempted p"

text \<open>The first pass: \<open>remaining\<close> bounds it, a waiter that finds every key busy goes to the tail.\<close>

fun dispatch_pass :: "ctx_errors \<Rightarrow> time \<Rightarrow> nat \<Rightarrow> pool \<Rightarrow> pool option" where
  "dispatch_pass ce now 0 p = Some p"
| "dispatch_pass ce now (Suc remaining) p =
     (case waiters p of
        [] \<Rightarrow> Some p
      | w # _ \<Rightarrow>
          if ce (ctxID (waiterCtx w)) \<noteq> nil_error then
            dispatch_pass ce now remaining
              (deliver (waiterID w) (Inl (ce (ctxID (waiterCtx w)))) (queue_remove (waiterID w) p))
          else do {
            (res, p1) \<leftarrow> try_waiter now False w p;
            case res of
              Leased l \<Rightarrow>
                dispatch_pass ce now remaining
                  (deliver (waiterID w) (Inr l) (queue_remove (waiterID w) p1))
            | Unavailable u \<Rightarrow>
                if reason u = UnavailableBusy then
                  dispatch_pass ce now remaining (queue_push w (queue_remove (waiterID w) p1))
                else
                  dispatch_pass ce now remaining
                    (deliver (waiterID w) (Inl (unavailableError u)) (queue_remove (waiterID w) p1))
          })"

text \<open>The relaxed pass for the head waiter: an idle key it has already tried may serve it again,
  unless its context forbids that or another key could serve it now.\<close>

definition dispatch_relaxed :: "time \<Rightarrow> pool \<Rightarrow> pool option" where
  "dispatch_relaxed now p =
     (case waiters p of
        [] \<Rightarrow> Some p
      | w # _ \<Rightarrow>
          if noAttemptedRelaxation (waiterCtx w) then Some p
          else do {
            (ready, p1) \<leftarrow> hasNonAttemptedReadyLocked now (waiterModelID w) (waiterAttempted w)
                             (waiterStream w) (waiterMaxStreaming w) p;
            if ready then Some p1
            else do {
              (res, p2) \<leftarrow> try_waiter now True w p1;
              Some (case res of
                Leased l \<Rightarrow> deliver (waiterID w) (Inr l) (queue_remove (waiterID w) p2)
              | Unavailable u \<Rightarrow>
                  if reason u \<noteq> UnavailableBusy then
                    deliver (waiterID w) (Inl (unavailableError u)) (queue_remove (waiterID w) p2)
                  else p2)
            }
          })"

text \<open>After the first pass either the queue is empty or \<open>remaining\<close> is zero, so the test on
  \<open>remaining\<close> in front of the relaxed pass never fails.\<close>

definition dispatchWaitersLocked :: "ctx_errors \<Rightarrow> time \<Rightarrow> pool \<Rightarrow> pool option" where
  "dispatchWaitersLocked ce now p =
     (if closed p then Some p
      else do {
        p1 \<leftarrow> dispatch_pass ce now (length (waiters p)) p;
        dispatch_relaxed now p1
      })"

subsection \<open>Acquire\<close>

datatype acquireOutcome = Returned "goError + nat" | Waiting nat

definition enqueue ::
  "ctx_errors \<Rightarrow> time \<Rightarrow> ctx \<Rightarrow> model_id \<Rightarrow> key_id set \<Rightarrow> bool \<Rightarrow> resolvedQueueSettings \<Rightarrow> pool
    \<Rightarrow> (acquireOutcome \<times> pool) option" where
  "enqueue ce now c modelID attempted stream st p =
     (if int (length (waiters p)) \<ge> capacity st then Some (Returned (Inl (queueFullError (wait st))), p)
      else do {
        let w = \<lparr>waiterID = nextWaiter p, waiterCtx = c, waiterModelID = modelID,
                 waiterAttempted = cloneAttempted attempted, waiterStream = stream,
                 waiterMaxStreaming = maxStreamingPerKey st,
                 waiterLatencyEnabled = latencyEnabled st\<rparr>;
        p1 \<leftarrow> dispatchWaitersLocked ce now
               (queue_push w (p\<lparr>nextWaiter := Suc (nextWaiter p), pending := insert (nextWaiter p) (pending p)\<rparr>));
        Some (Waiting (nextWaiter p), p1)
      })"

definition acquire ::
  "ctx_errors \<Rightarrow> time \<Rightarrow> ctx \<Rightarrow> model_id \<Rightarrow> key_id set \<Rightarrow> bool \<Rightarrow> resolvedQueueSettings \<Rightarrow> pool
    \<Rightarrow> (acquireOutcome \<times> pool) option" where
  "acquire ce now c modelID attempted stream st p =
     (if ce (ctxID c) \<noteq> nil_error then Some (Returned (Inl (ce (ctxID c))), p)
      else if closed p then Some (Returned (Inl shuttingDownError), p)
      else do {
        p1 \<leftarrow> dispatchWaitersLocked ce now p;
        if waiters p1 = [] then do {
          (res, p2) \<leftarrow> tryAcquireLocked now modelID attempted stream (maxStreamingPerKey st)
                         (latencyEnabled st) False p1;
          case res of
            Leased l \<Rightarrow> Some (Returned (Inr l), p2)
          | Unavailable u \<Rightarrow>
              if reason u \<noteq> UnavailableBusy then Some (Returned (Inl (unavailableError u)), p2)
              else do {
                fresh \<leftarrow> hasUnattemptedEligibleLocked now modelID attempted p2;
                again \<leftarrow> (if fresh then Some True
                  else hasBusyAttemptedEligibleLocked now modelID attempted stream (maxStreamingPerKey st) p2);
                if \<not> again then
                  Some (Returned (Inl (unavailableError
                    \<lparr>reason = UnavailableDisabled, unavailableRetryAfter = 0\<rparr>)), p2)
                else enqueue ce now c modelID attempted stream st p2
              }
        }
        else enqueue ce now c modelID attempted stream st p1
      })"

definition AcquireWithSnapshot ::
  "ctx_errors \<Rightarrow> time \<Rightarrow> ctx \<Rightarrow> model_id \<Rightarrow> key_id set \<Rightarrow> runtimeSnapshot \<Rightarrow> bool \<Rightarrow> pool
    \<Rightarrow> (acquireOutcome \<times> pool) option" where
  "AcquireWithSnapshot ce now c modelID attempted snap stream p =
     acquire ce now c modelID attempted stream (resolveQueueSettings snap) p"

definition Acquire ::
  "ctx_errors \<Rightarrow> time \<Rightarrow> ctx \<Rightarrow> model_id \<Rightarrow> key_id set \<Rightarrow> bool \<Rightarrow> pool
    \<Rightarrow> (acquireOutcome \<times> pool) option" where
  "Acquire ce now c modelID attempted stream p =
     acquire ce now c modelID attempted stream (queueSettings p) p"

subsection \<open>Leaving the queue\<close>

text \<open>\<open>lease.Release\<close>: once per lease, then the queue is dispatched.\<close>

definition Release :: "ctx_errors \<Rightarrow> time \<Rightarrow> nat \<Rightarrow> pool \<Rightarrow> pool option" where
  "Release ce now l p =
     (if released (leases p ! l) then Some p
      else dispatchWaitersLocked ce now (releaseLocked l p))"

text \<open>The three cases of the \<open>select\<close> in \<open>waitForResult\<close>: the result has arrived, the context is
  done, the wait is over. \<open>receive\<close> blocks (\<^const>\<open>None\<close>) while there is no result.\<close>

definition receive :: "nat \<Rightarrow> pool \<Rightarrow> ((goError + nat) \<times> pool) option" where
  "receive i p =
     (case results p i of
        None \<Rightarrow> None
      | Some res \<Rightarrow> Some (res, p\<lparr>results := (results p)(i := None), pending := pending p - {i}\<rparr>))"

definition abandonWaiter :: "ctx_errors \<Rightarrow> time \<Rightarrow> nat \<Rightarrow> pool \<Rightarrow> pool option" where
  "abandonWaiter ce now i p =
     (if queued i p then
        dispatchWaitersLocked ce now ((queue_remove i p)\<lparr>pending := pending p - {i}\<rparr>)
      else do {
        (res, p1) \<leftarrow> receive i p;
        case res of Inr l \<Rightarrow> Release ce now l p1 | Inl _ \<Rightarrow> Some p1
      })"

datatype waitEvent = ResultArrived | ContextDone | TimerFired

definition waitForResult ::
  "ctx_errors \<Rightarrow> time \<Rightarrow> waitEvent \<Rightarrow> ctx \<Rightarrow> nat \<Rightarrow> duration \<Rightarrow> pool \<Rightarrow> ((goError + nat) \<times> pool) option" where
  "waitForResult ce now ev c i w p =
     (case ev of
        ResultArrived \<Rightarrow> receive i p
      | ContextDone \<Rightarrow> do { p1 \<leftarrow> abandonWaiter ce now i p; Some (Inl (ce (ctxID c)), p1) }
      | TimerFired \<Rightarrow> do { p1 \<leftarrow> abandonWaiter ce now i p; Some (Inl (queueTimeoutError w), p1) })"

subsection \<open>Shutdown\<close>

fun fail_waiters :: "waiter list \<Rightarrow> pool \<Rightarrow> pool" where
  "fail_waiters [] p = p"
| "fail_waiters (w # ws) p =
     fail_waiters ws (deliver (waiterID w) (Inl shuttingDownError) (queue_remove (waiterID w) p))"

definition Shutdown :: "pool \<Rightarrow> pool" where
  "Shutdown p = (if closed p then p else fail_waiters (waiters p) (p\<lparr>closed := True\<rparr>))"

subsection \<open>The public operations of the pool\<close>

definition SetModelEnabled :: "ctx_errors \<Rightarrow> time \<Rightarrow> model_id \<Rightarrow> bool \<Rightarrow> pool \<Rightarrow> pool option" where
  "SetModelEnabled ce now m e p = dispatchWaitersLocked ce now (setModelEnabledLocked m e p)"

definition ClearModelBlocks :: "ctx_errors \<Rightarrow> time \<Rightarrow> model_id \<Rightarrow> pool \<Rightarrow> pool option" where
  "ClearModelBlocks ce now m p = dispatchWaitersLocked ce now (clearModelBlocksLocked m p)"

definition LoadSnapshot ::
  "ctx_errors \<Rightarrow> time \<Rightarrow> keySnapshot list \<Rightarrow> modelBlock list \<Rightarrow> pool \<Rightarrow> pool option" where
  "LoadSnapshot ce now ks bs p = dispatchWaitersLocked ce now (loadSnapshotLocked ks bs p)"

definition UpsertKey :: "ctx_errors \<Rightarrow> time \<Rightarrow> keySnapshot \<Rightarrow> pool \<Rightarrow> pool option" where
  "UpsertKey ce now key p = do { p1 \<leftarrow> upsertKeyLocked key p; dispatchWaitersLocked ce now p1 }"

definition SetKeyEnabled :: "ctx_errors \<Rightarrow> time \<Rightarrow> key_id \<Rightarrow> bool \<Rightarrow> pool \<Rightarrow> pool option" where
  "SetKeyEnabled ce now k e p = dispatchWaitersLocked ce now (setKeyEnabledLocked k e p)"

definition RemoveKey :: "ctx_errors \<Rightarrow> time \<Rightarrow> key_id \<Rightarrow> pool \<Rightarrow> pool option" where
  "RemoveKey ce now k p = dispatchWaitersLocked ce now (removeKeyLocked k p)"

definition ApplySuccess :: "ctx_errors \<Rightarrow> time \<Rightarrow> key_id \<Rightarrow> pool \<Rightarrow> pool option" where
  "ApplySuccess ce now k p = dispatchWaitersLocked ce now (applySuccessLocked k p)"

definition RecordLatency :: "key_id \<Rightarrow> int \<Rightarrow> pool \<Rightarrow> pool" where
  "RecordLatency k durationMS p = recordLatencyLocked k durationMS p"

definition ApplyFailure ::
  "ctx_errors \<Rightarrow> time \<Rightarrow> key_id \<Rightarrow> model_id \<Rightarrow> fault \<Rightarrow> keySnapshot \<Rightarrow> pool \<Rightarrow> pool option" where
  "ApplyFailure ce now k m f persisted p =
     dispatchWaitersLocked ce now (applyFailureLocked k m f persisted p)"

definition SetModelBlock :: "ctx_errors \<Rightarrow> time \<Rightarrow> key_id \<Rightarrow> model_id \<Rightarrow> bool \<Rightarrow> pool \<Rightarrow> pool option" where
  "SetModelBlock ce now k m b p = dispatchWaitersLocked ce now (setModelBlockLocked k m b p)"

end
