(* ===== verification/Pool_Scan.thy ===== *)
theory Pool_Scan
  imports Wait_Queue
begin

text \<open>
  What the scan of the key pool decides. \<open>grantable\<close> is the condition a key must meet to serve a
  request; the scan hands out a key exactly when one meets it, and changes nothing but the pruned
  request times.
\<close>

subsection \<open>When a key can serve a request\<close>

definition ready :: "time \<Rightarrow> model_id \<Rightarrow> keyState \<Rightarrow> bool" where
  "ready now modelID s \<longleftrightarrow>
     Enabled (snapshot s) \<and> \<not> AuthInvalid (snapshot s) \<and> modelID \<notin> blocks s
     \<and> \<not> isCoolingDown (CooldownUntil (snapshot s)) now"

definition slot_free :: "bool \<Rightarrow> int \<Rightarrow> keyState \<Rightarrow> bool" where
  "slot_free stream maxS s \<longleftrightarrow> (if stream then streamingBusy s < maxS else \<not> busy s)"

definition grantable ::
  "time \<Rightarrow> model_id \<Rightarrow> key_id set \<Rightarrow> bool \<Rightarrow> int \<Rightarrow> bool \<Rightarrow> keyState \<Rightarrow> bool" where
  "grantable now modelID attempted stream maxS retryAttempted s \<longleftrightarrow>
     ready now modelID s \<and> (retryAttempted \<or> ksID (snapshot s) \<notin> attempted)
     \<and> length (recent now s) < keyRequestLimit \<and> slot_free stream maxS s"

definition pruned :: "time \<Rightarrow> keyState \<Rightarrow> keyState" where
  "pruned now s = s\<lparr>requestTimes := recent now s\<rparr>"

lemma recent_pruned [simp]: "recent now (pruned now s) = recent now s"
  by (simp add: recent_def pruned_def)

lemma pruned_simps [simp]:
  "snapshot (pruned now s) = snapshot s" "busy (pruned now s) = busy s"
  "streamingBusy (pruned now s) = streamingBusy s" "blocks (pruned now s) = blocks s"
  "latencyEWMA (pruned now s) = latencyEWMA s" "latencySamples (pruned now s) = latencySamples s"
  "requestTimes (pruned now s) = recent now s" "pruned now (pruned now s) = pruned now s"
  by (simp_all add: pruned_def) (simp add: recent_def)

lemma latencyScore_pruned [simp]: "latencyScore (pruned now s) = latencyScore s"
  by (simp add: latencyScore_def)

lemma ready_pruned [simp]: "ready now modelID (pruned now' s) = ready now modelID s"
  by (simp add: ready_def)

lemma grantable_pruned [simp]:
  "grantable now m a stream maxS rt (pruned now s) = grantable now m a stream maxS rt s"
  by (simp add: grantable_def slot_free_def)

text \<open>Pruning request times is the only effect of looking at the pool.\<close>

definition prune_rel :: "time \<Rightarrow> pool \<Rightarrow> pool \<Rightarrow> bool" where
  "prune_rel now p p' \<longleftrightarrow>
     (\<exists>h. p' = p\<lparr>heap := h\<rparr> \<and> (\<forall>r. h r = heap p r \<or> h r = pruned now (heap p r)))"

lemma prune_rel_refl [simp, intro!]: "prune_rel now p p"
  by (auto simp: prune_rel_def intro!: exI [of _ "heap p"])

lemma prune_rel_set_state:
  "s = heap p r \<or> s = pruned now (heap p r) \<Longrightarrow> prune_rel now p (set_state r s p)"
  unfolding prune_rel_def set_state_def by (intro exI [of _ "(heap p)(r := s)"]) auto

lemma prune_rel_trans: "prune_rel now p q \<Longrightarrow> prune_rel now q q' \<Longrightarrow> prune_rel now p q'"
proof -
  assume "prune_rel now p q" "prune_rel now q q'"
  then obtain h h' where h: "q = p\<lparr>heap := h\<rparr>" "\<And>r. h r = heap p r \<or> h r = pruned now (heap p r)"
    and h': "q' = q\<lparr>heap := h'\<rparr>" "\<And>r. h' r = heap q r \<or> h' r = pruned now (heap q r)"
    unfolding prune_rel_def by blast
  have "h' r = heap p r \<or> h' r = pruned now (heap p r)" for r
    using h(2) [of r] h'(2) [of r] h(1) by auto
  then show ?thesis unfolding prune_rel_def using h(1) h'(1) by (intro exI [of _ h']) simp
qed

lemma prune_rel_fields [frame_simps]:
  assumes "prune_rel now p p'"
  shows "settings p' = settings p" "nextRef p' = nextRef p" "keys p' = keys p" "models p' = models p"
    "order p' = order p" "cursor p' = cursor p" "waiters p' = waiters p" "closed p' = closed p"
    "latencyRNG p' = latencyRNG p" "rngPos p' = rngPos p" "leases p' = leases p"
    "results p' = results p" "pending p' = pending p" "nextWaiter p' = nextWaiter p"
    "visit_order p' = visit_order p"
  using assms by (auto simp: prune_rel_def visit_order_def)

lemma prune_rel_heap:
  assumes "prune_rel now p p'"
  obtains "heap p' r = heap p r" | "heap p' r = pruned now (heap p r)"
proof -
  obtain h where "p' = p\<lparr>heap := h\<rparr>" "h r = heap p r \<or> h r = pruned now (heap p r)"
    using assms unfolding prune_rel_def by blast
  then show thesis using that by auto
qed

lemma prune_rel_grantable:
  "prune_rel now p p' \<Longrightarrow>
     grantable now m a stream maxS rt (heap p' r) = grantable now m a stream maxS rt (heap p r)"
  by (erule prune_rel_heap [where r = r]) simp_all

lemma prune_rel_ready: "prune_rel now p p' \<Longrightarrow> ready t m (heap p' r) = ready t m (heap p r)"
  by (erule prune_rel_heap [where r = r]) simp_all

lemma prune_rel_snapshot: "prune_rel now p p' \<Longrightarrow> snapshot (heap p' r) = snapshot (heap p r)"
  by (erule prune_rel_heap [where r = r]) simp_all

lemma prune_rel_blocks: "prune_rel now p p' \<Longrightarrow> blocks (heap p' r) = blocks (heap p r)"
  by (erule prune_rel_heap [where r = r]) simp_all

subsection \<open>One key\<close>

lemma set_state_simps [simp]:
  "keys (set_state r s p) = keys p" "order (set_state r s p) = order p"
  "heap (set_state r s p) = (heap p)(r := s)" "nextRef (set_state r s p) = nextRef p"
  "models (set_state r s p) = models p" "cursor (set_state r s p) = cursor p"
  "waiters (set_state r s p) = waiters p" "closed (set_state r s p) = closed p"
  "leases (set_state r s p) = leases p" "results (set_state r s p) = results p"
  "pending (set_state r s p) = pending p" "nextWaiter (set_state r s p) = nextWaiter p"
  "settings (set_state r s p) = settings p" "latencyRNG (set_state r s p) = latencyRNG p"
  "rngPos (set_state r s p) = rngPos p"
  by (simp_all add: set_state_def)

text \<open>The flags after looking at one key.\<close>

definition lives :: "keyState \<Rightarrow> bool" where
  "lives s \<longleftrightarrow> Enabled (snapshot s) \<and> \<not> AuthInvalid (snapshot s)"

definition rate_full :: "time \<Rightarrow> key_id set \<Rightarrow> bool \<Rightarrow> model_id \<Rightarrow> keyState \<Rightarrow> bool" where
  "rate_full now a rt m s \<longleftrightarrow>
     ready now m s \<and> (rt \<or> ksID (snapshot s) \<notin> a) \<and> keyRequestLimit \<le> length (recent now s)"

definition slot_taken ::
  "time \<Rightarrow> key_id set \<Rightarrow> bool \<Rightarrow> model_id \<Rightarrow> bool \<Rightarrow> int \<Rightarrow> keyState \<Rightarrow> bool" where
  "slot_taken now a rt m stream maxS s \<longleftrightarrow>
     ready now m s \<and> (rt \<or> ksID (snapshot s) \<notin> a) \<and> length (recent now s) < keyRequestLimit
     \<and> \<not> slot_free stream maxS s"

definition cooling_until :: "time \<Rightarrow> model_id \<Rightarrow> keyState \<Rightarrow> time \<Rightarrow> bool" where
  "cooling_until now m s t \<longleftrightarrow>
     lives s \<and> m \<notin> blocks s \<and> CooldownUntil (snapshot s) = Some t \<and> now < t"

lemma rate_slot_pruned [simp]:
  "rate_full now a rt m (pruned now s) = rate_full now a rt m s"
  "slot_taken now a rt m stream maxS (pruned now s) = slot_taken now a rt m stream maxS s"
  "cooling_until now m (pruned now s) t = cooling_until now m s t"
  by (simp_all add: rate_full_def slot_taken_def slot_free_def cooling_until_def lives_def)

lemma ready_or_cooling:
  "lives s \<Longrightarrow> m \<notin> blocks s \<Longrightarrow> ready now m s \<or> (\<exists>t. cooling_until now m s t)"
  by (cases "CooldownUntil (snapshot s)") (auto simp: ready_def lives_def cooling_until_def isCoolingDown_def)

text \<open>The seven ways one iteration of the scan can end.\<close>

lemma scan_key_cases:
  fixes now m a stream maxS rt s acc
  obtains (dead) "\<not> lives s" "scan_key now m a stream maxS rt s acc = (False, acc, s)"
  | (blocked) "lives s" "m \<in> blocks s"
      "scan_key now m a stream maxS rt s acc = (False, acc\<lparr>hasEnabled := True\<rparr>, s)"
  | (cooling) t where "cooling_until now m s t" "lives s" "m \<notin> blocks s"
      "scan_key now m a stream maxS rt s acc =
         (False, acc\<lparr>hasEnabled := True, hasUnblocked := True,
            earliestCooldown := (if earliestCooldown acc = 0 \<or> t < earliestCooldown acc then t
                                 else earliestCooldown acc)\<rparr>, s)"
  | (attempted) "ready now m s" "\<not> rt" "ksID (snapshot s) \<in> a"
      "scan_key now m a stream maxS rt s acc =
         (False, acc\<lparr>hasEnabled := True, hasUnblocked := True, hasReady := True\<rparr>, s)"
  | (full) ra where "rate_full now a rt m s" "ready now m s"
      "scan_key now m a stream maxS rt s acc =
         (False, acc\<lparr>hasEnabled := True, hasUnblocked := True, hasReady := True, hasRateLimited := True,
            earliestRateLimit := ra\<rparr>, pruned now s)"
  | (taken) "slot_taken now a rt m stream maxS s" "ready now m s"
      "scan_key now m a stream maxS rt s acc =
         (False, acc\<lparr>hasEnabled := True, hasUnblocked := True, hasReady := True, hasBusy := True\<rparr>, pruned now s)"
  | (free) "grantable now m a stream maxS rt s" "ready now m s"
      "scan_key now m a stream maxS rt s acc =
         (True, acc\<lparr>hasEnabled := True, hasUnblocked := True, hasReady := True\<rparr>, pruned now s)"
proof -
  obtain ra where ra: "requestRetryAfter now s = (ra, pruned now s)"
    "0 < ra \<longleftrightarrow> keyRequestLimit \<le> length (recent now s)" "0 \<le> ra"
    by (rule requestRetryAfter_cases [of now s]) (auto simp: pruned_def)
  consider "\<not> lives s" | "lives s" "m \<in> blocks s"
    | t where "lives s" "m \<notin> blocks s" "cooling_until now m s t"
    | "ready now m s" "\<not> rt" "ksID (snapshot s) \<in> a"
    | "ready now m s" "rt \<or> ksID (snapshot s) \<notin> a" "0 < ra"
    | "ready now m s" "rt \<or> ksID (snapshot s) \<notin> a" "\<not> 0 < ra" "\<not> slot_free stream maxS s"
    | "ready now m s" "rt \<or> ksID (snapshot s) \<notin> a" "\<not> 0 < ra" "slot_free stream maxS s"
    using ready_or_cooling by blast
  then show thesis
  proof cases
    case 1
    then show thesis by (intro dead) (auto simp: scan_key_def lives_def)
  next
    case 2
    then show thesis by (intro blocked) (auto simp: scan_key_def lives_def)
  next
    case (3 t)
    then show thesis
      by (intro cooling [of t]) (auto simp: scan_key_def lives_def cooling_until_def)
  next
    case 4
    then show thesis
      by (intro attempted) (auto simp: scan_key_def ready_def isCoolingDown_def split: option.splits)
  next
    case 5
    show thesis
    proof (rule full)
      show "rate_full now a rt m s" "ready now m s" using 5 ra by (auto simp: rate_full_def)
      show "scan_key now m a stream maxS rt s acc =
         (False, acc\<lparr>hasEnabled := True, hasUnblocked := True, hasReady := True, hasRateLimited := True,
            earliestRateLimit := (if earliestRateLimit acc \<le> 0 \<or> ra < earliestRateLimit acc then ra
                                  else earliestRateLimit acc)\<rparr>, pruned now s)"
        using 5 ra(1) by (auto simp: scan_key_def ready_def isCoolingDown_def split: option.splits)
    qed
  next
    case 6
    then show thesis using ra
      by (intro taken)
        (auto simp: scan_key_def ready_def isCoolingDown_def slot_taken_def slot_free_def
          split: option.splits if_splits)
  next
    case 7
    then show thesis using ra
      by (intro free)
        (auto simp: scan_key_def ready_def isCoolingDown_def grantable_def slot_free_def
          split: option.splits if_splits)
  qed
qed

lemma lives_ready: "ready now m s \<Longrightarrow> lives s \<and> m \<notin> blocks s"
  by (simp add: ready_def lives_def)

lemma cooling_not_ready: "cooling_until now m s t \<Longrightarrow> \<not> ready now m s"
  by (simp add: ready_def cooling_until_def isCoolingDown_def)

lemma not_lives_cooling: "\<not> lives s \<Longrightarrow> \<not> cooling_until now m s t"
  by (simp add: cooling_until_def)

lemma blocked_not_cooling: "m \<in> blocks s \<Longrightarrow> \<not> cooling_until now m s t"
  by (simp add: cooling_until_def)

lemma grantable_ready: "grantable now m a stream maxS rt s \<Longrightarrow> ready now m s"
  by (simp add: grantable_def)

text \<open>A ready key is excluded, rate limited, occupied or grantable.\<close>

lemma ready_split:
  "rate_full now a rt m s \<longleftrightarrow>
     ready now m s \<and> (rt \<or> ksID (snapshot s) \<notin> a) \<and> keyRequestLimit \<le> length (recent now s)"
  "slot_taken now a rt m stream maxS s \<longleftrightarrow>
     ready now m s \<and> (rt \<or> ksID (snapshot s) \<notin> a) \<and> length (recent now s) < keyRequestLimit
     \<and> \<not> slot_free stream maxS s"
  "grantable now m a stream maxS rt s \<longleftrightarrow>
     ready now m s \<and> (rt \<or> ksID (snapshot s) \<notin> a) \<and> length (recent now s) < keyRequestLimit
     \<and> slot_free stream maxS s"
  by (auto simp: rate_full_def slot_taken_def grantable_def)

lemma scan_key_usable:
  "fst (scan_key now m a stream maxS rt s acc) \<longleftrightarrow> grantable now m a stream maxS rt s"
  by (rule scan_key_cases [of s now m a stream maxS rt acc])
    (auto dest: lives_ready cooling_not_ready simp: ready_split)

lemma scan_key_state:
  "snd (snd (scan_key now m a stream maxS rt s acc)) \<in> {s, pruned now s}"
  by (rule scan_key_cases [of s now m a stream maxS rt acc]) auto

lemma scan_key_flags:
  fixes now m a stream maxS rt s acc
  defines "acc' \<equiv> fst (snd (scan_key now m a stream maxS rt s acc))"
  shows "hasEnabled acc' \<longleftrightarrow> hasEnabled acc \<or> lives s"
    and "hasUnblocked acc' \<longleftrightarrow> hasUnblocked acc \<or> lives s \<and> m \<notin> blocks s"
    and "hasReady acc' \<longleftrightarrow> hasReady acc \<or> ready now m s"
    and "hasRateLimited acc' \<longleftrightarrow> hasRateLimited acc \<or> rate_full now a rt m s"
    and "hasBusy acc' \<longleftrightarrow> hasBusy acc \<or> slot_taken now a rt m stream maxS s"
    and "latencyCandidates acc' = latencyCandidates acc"
    and "measuredLatency acc' = measuredLatency acc"
  unfolding acc'_def
  subgoal by (rule scan_key_cases [of s now m a stream maxS rt acc]) (simp_all add: lives_ready)
  subgoal by (rule scan_key_cases [of s now m a stream maxS rt acc]) (simp_all add: lives_ready)
  subgoal by (rule scan_key_cases [of s now m a stream maxS rt acc])
      (auto dest: lives_ready cooling_not_ready)
  subgoal by (rule scan_key_cases [of s now m a stream maxS rt acc])
      (auto dest: lives_ready cooling_not_ready simp: ready_split)
  subgoal by (rule scan_key_cases [of s now m a stream maxS rt acc])
      (auto dest: lives_ready cooling_not_ready simp: ready_split)
  subgoal by (rule scan_key_cases [of s now m a stream maxS rt acc]) simp_all
  subgoal by (rule scan_key_cases [of s now m a stream maxS rt acc]) simp_all
  done

lemma cooling_until_unique: "cooling_until now m s t \<Longrightarrow> cooling_until now m s u \<Longrightarrow> t = u"
  by (simp add: cooling_until_def)

lemma scan_key_cooldown:
  fixes now m a stream maxS rt s acc
  defines "acc' \<equiv> fst (snd (scan_key now m a stream maxS rt s acc))"
  shows "cooling_until now m s t \<Longrightarrow> earliestCooldown acc' =
      (if earliestCooldown acc = 0 \<or> t < earliestCooldown acc then t else earliestCooldown acc)"
    and "\<forall>t. \<not> cooling_until now m s t \<Longrightarrow> earliestCooldown acc' = earliestCooldown acc"
  unfolding acc'_def
  subgoal by (rule scan_key_cases [of s now m a stream maxS rt acc])
      (auto dest: cooling_not_ready not_lives_cooling blocked_not_cooling cooling_until_unique
        simp: ready_split)
  subgoal by (rule scan_key_cases [of s now m a stream maxS rt acc]) simp_all
  done

subsection \<open>The whole scan\<close>

text \<open>The key states at the given positions of the order.\<close>

definition ref_at :: "pool \<Rightarrow> nat \<Rightarrow> nat option" where
  "ref_at p index = keys p (order p ! index)"

definition state_at :: "pool \<Rightarrow> nat \<Rightarrow> keyState" where
  "state_at p index = heap p (the (ref_at p index))"

lemma prune_rel_ref_at: "prune_rel now p p' \<Longrightarrow> ref_at p' = ref_at p"
  by (simp add: ref_at_def fun_eq_iff frame_simps)

lemma prune_rel_state_at:
  assumes "prune_rel now p p'"
  shows "grantable now m a stream maxS rt (state_at p' i) = grantable now m a stream maxS rt (state_at p i)"
    and "ready t m (state_at p' i) = ready t m (state_at p i)"
    and "lives (state_at p' i) = lives (state_at p i)"
    and "blocks (state_at p' i) = blocks (state_at p i)"
    and "rate_full now a rt m (state_at p' i) = rate_full now a rt m (state_at p i)"
    and "slot_taken now a rt m stream maxS (state_at p' i) = slot_taken now a rt m stream maxS (state_at p i)"
    and "cooling_until now m (state_at p' i) u = cooling_until now m (state_at p i) u"
proof -
  have "state_at p' i \<in> {state_at p i, pruned now (state_at p i)}"
    using prune_rel_ref_at [OF assms]
    by (auto simp: state_at_def intro: prune_rel_heap [OF assms, of "the (ref_at p i)"])
  then show "grantable now m a stream maxS rt (state_at p' i) = grantable now m a stream maxS rt (state_at p i)"
    and "ready t m (state_at p' i) = ready t m (state_at p i)"
    and "lives (state_at p' i) = lives (state_at p i)"
    and "blocks (state_at p' i) = blocks (state_at p i)"
    and "rate_full now a rt m (state_at p' i) = rate_full now a rt m (state_at p i)"
    and "slot_taken now a rt m stream maxS (state_at p' i) = slot_taken now a rt m stream maxS (state_at p i)"
    and "cooling_until now m (state_at p' i) u = cooling_until now m (state_at p i) u"
    by (auto simp: lives_def)
qed

lemma scan_total:
  "\<forall>i\<in>set is. ref_at p i \<noteq> None \<Longrightarrow> \<exists>x. scan now m a stream maxS le rt is acc p = Some x"
proof (induction "is" arbitrary: acc p)
  case Nil
  then show ?case by simp
next
  case (Cons i "is")
  then obtain r where r: "keys p (order p ! i) = Some r" by (auto simp: ref_at_def)
  obtain u acc' s' where k: "scan_key now m a stream maxS rt (heap p r) acc = (u, acc', s')"
    by (cases "scan_key now m a stream maxS rt (heap p r) acc")
  have "\<forall>j\<in>set is. ref_at (set_state r s' p) j \<noteq> None" using Cons.prems by (simp add: ref_at_def)
  then show ?case using Cons.IH r k by auto
qed

text \<open>The outcome of a scan over the positions \<open>is\<close>.\<close>

lemma scan_outcome:
  assumes "scan now m a stream maxS le rt is acc p = Some (found, acc', p')"
  shows "prune_rel now p p' \<and>
    (case found of
       Some (i, r) \<Rightarrow> \<not> le \<and> ref_at p i = Some r \<and> grantable now m a stream maxS rt (heap p r)
         \<and> (\<exists>pre post. is = pre @ i # post \<and> (\<forall>j\<in>set pre. \<not> grantable now m a stream maxS rt (state_at p j)))
     | None \<Rightarrow>
         (hasEnabled acc' \<longleftrightarrow> hasEnabled acc \<or> (\<exists>i\<in>set is. lives (state_at p i)))
         \<and> (hasUnblocked acc' \<longleftrightarrow>
              hasUnblocked acc \<or> (\<exists>i\<in>set is. lives (state_at p i) \<and> m \<notin> blocks (state_at p i)))
         \<and> (hasReady acc' \<longleftrightarrow> hasReady acc \<or> (\<exists>i\<in>set is. ready now m (state_at p i)))
         \<and> (hasRateLimited acc' \<longleftrightarrow> hasRateLimited acc \<or> (\<exists>i\<in>set is. rate_full now a rt m (state_at p i)))
         \<and> (hasBusy acc' \<longleftrightarrow> hasBusy acc \<or> (\<exists>i\<in>set is. slot_taken now a rt m stream maxS (state_at p i)))
         \<and> (\<not> le \<longrightarrow> (\<forall>i\<in>set is. \<not> grantable now m a stream maxS rt (state_at p i)))
         \<and> latencyCandidates acc' = latencyCandidates acc @
              (if le then map (\<lambda>i. the (ref_at p i))
                            (filter (\<lambda>i. grantable now m a stream maxS rt (state_at p i)) is) else []))"
  using assms
proof (induction "is" arbitrary: acc p)
  case Nil
  then show ?case by simp
next
  case (Cons i "is")
  obtain r where r: "keys p (order p ! i) = Some r" using Cons.prems by (auto split: option.splits)
  then have ref: "ref_at p i = Some r" by (simp add: ref_at_def)
  obtain u acc1 s1 where k: "scan_key now m a stream maxS rt (heap p r) acc = (u, acc1, s1)"
    by (cases "scan_key now m a stream maxS rt (heap p r) acc")
  have u: "u \<longleftrightarrow> grantable now m a stream maxS rt (heap p r)"
    using scan_key_usable [of now m a stream maxS rt "heap p r" acc] k by simp
  let ?p1 = "set_state r s1 p"
  have pr: "prune_rel now p ?p1"
    using scan_key_state [of now m a stream maxS rt "heap p r" acc] k by (auto intro: prune_rel_set_state)
  note fl = scan_key_flags [of now m a stream maxS rt "heap p r" acc, unfolded k, simplified]
  have st: "state_at p i = heap p r" using ref by (simp add: state_at_def)
  note bk = prune_rel_state_at [OF pr] prune_rel_ref_at [OF pr]
  consider (skip) "\<not> u" | (stop) "u" "\<not> le" | (collect) "u" "le" by blast
  then show ?case
  proof cases
    case skip
    then have sc: "scan now m a stream maxS le rt is acc1 ?p1 = Some (found, acc', p')"
      using Cons.prems r k by simp
    note IH = Cons.IH [OF sc, unfolded bk]
    have pp': "prune_rel now p p'" using IH pr prune_rel_trans by blast
    show ?thesis
    proof (cases found)
      case None
      then show ?thesis using IH fl skip u st pp' by auto
    next
      case (Some ir)
      obtain i' r' where ir: "ir = (i', r')" by (cases ir)
      obtain pre post where pp: "is = pre @ i' # post"
        "\<forall>j\<in>set pre. \<not> grantable now m a stream maxS rt (state_at p j)"
        using IH Some ir by auto
      have "i # is = (i # pre) @ i' # post" using pp(1) by simp
      moreover have "\<forall>j\<in>set (i # pre). \<not> grantable now m a stream maxS rt (state_at p j)"
        using pp(2) skip u st by simp
      ultimately have "\<exists>pre post. i # is = pre @ i' # post
          \<and> (\<forall>j\<in>set pre. \<not> grantable now m a stream maxS rt (state_at p j))" by blast
      then show ?thesis
        using IH Some ir pp' prune_rel_grantable [OF pr] by auto
    qed
  next
    case stop
    then have "found = Some (i, r)" "p' = ?p1" using Cons.prems r k by simp_all
    moreover have "\<exists>pre post. i # is = pre @ i # post
        \<and> (\<forall>j\<in>set pre. \<not> grantable now m a stream maxS rt (state_at p j))"
      by (intro exI [of _ "[]"] exI [of _ "is"]) simp
    ultimately show ?thesis using stop u ref pr by simp
  next
    case collect
    then have sc: "scan now m a stream maxS le rt is
        (acc1\<lparr>latencyCandidates := latencyCandidates acc1 @ [r],
              measuredLatency := measuredLatency acc1 + (if snd (latencyScore s1) then 1 else 0)\<rparr>) ?p1
        = Some (found, acc', p')"
      using Cons.prems r k by simp
    note IH = Cons.IH [OF sc, unfolded bk]
    have "prune_rel now p p'" using IH pr prune_rel_trans by blast
    moreover have "found = None" using IH collect by (auto split: option.splits)
    ultimately show ?thesis using IH fl collect u st ref by auto
  qed
qed

text \<open>The earliest cooldown the scan reports, for a clock past the zero time.\<close>

lemma scan_earliestCooldown:
  assumes "scan now m a stream maxS le rt is acc p = Some (None, acc', p')" and "0 \<le> now"
    and "earliestCooldown acc = 0 \<or> now < earliestCooldown acc"
  shows "(earliestCooldown acc' = earliestCooldown acc
           \<or> (\<exists>i\<in>set is. cooling_until now m (state_at p i) (earliestCooldown acc')))
    \<and> (\<forall>i\<in>set is. \<forall>t. cooling_until now m (state_at p i) t \<longrightarrow>
           now < earliestCooldown acc' \<and> earliestCooldown acc' \<le> t)
    \<and> (earliestCooldown acc \<noteq> 0 \<longrightarrow> now < earliestCooldown acc' \<and> earliestCooldown acc' \<le> earliestCooldown acc)"
  using assms
proof (induction "is" arbitrary: acc p)
  case Nil
  then show ?case by auto
next
  case (Cons i "is")
  obtain r where r: "keys p (order p ! i) = Some r" using Cons.prems(1) by (auto split: option.splits)
  obtain u acc1 s1 where k: "scan_key now m a stream maxS rt (heap p r) acc = (u, acc1, s1)"
    by (cases "scan_key now m a stream maxS rt (heap p r) acc")
  let ?p1 = "set_state r s1 p"
  have pr: "prune_rel now p ?p1"
    using scan_key_state [of now m a stream maxS rt "heap p r" acc] k by (auto intro: prune_rel_set_state)
  have e1: "cooling_until now m (heap p r) t \<Longrightarrow> earliestCooldown acc1 =
      (if earliestCooldown acc = 0 \<or> t < earliestCooldown acc then t else earliestCooldown acc)"
    "\<forall>t. \<not> cooling_until now m (heap p r) t \<Longrightarrow> earliestCooldown acc1 = earliestCooldown acc" for t
    using scan_key_cooldown [where a = a and stream = stream and maxS = maxS and rt = rt and acc = acc
        and now = now and m = m and s = "heap p r"] k by simp_all
  have pos1: "earliestCooldown acc1 = 0 \<or> now < earliestCooldown acc1"
  proof (cases "\<exists>t. cooling_until now m (heap p r) t")
    case True
    then obtain t where t: "cooling_until now m (heap p r) t" by blast
    then have "now < t" by (simp add: cooling_until_def)
    then show ?thesis using e1(1) [OF t] Cons.prems(3) by auto
  next
    case False
    then show ?thesis using e1(2) Cons.prems(3) by simp
  qed
  have st: "state_at p i = heap p r" using r by (simp add: state_at_def ref_at_def)
  obtain acc2 where sc: "scan now m a stream maxS le rt is acc2 ?p1 = Some (None, acc', p')"
    and e2: "earliestCooldown acc2 = earliestCooldown acc1"
    using Cons.prems(1) r k by (cases u; cases le) auto
  have pos: "earliestCooldown acc2 = 0 \<or> now < earliestCooldown acc2" using pos1 e2 by simp
  note IH = Cons.IH [OF sc \<open>0 \<le> now\<close> pos, unfolded prune_rel_state_at [OF pr] e2]
  show ?case
  proof (cases "\<exists>t. cooling_until now m (heap p r) t")
    case True
    then obtain t where t: "cooling_until now m (heap p r) t" by blast
    have u: "u = t" if "cooling_until now m (heap p r) u" for u using that t cooling_until_unique by blast
    have c1: "now < earliestCooldown acc1" "earliestCooldown acc1 \<le> t" "earliestCooldown acc1 \<noteq> 0"
      "earliestCooldown acc \<noteq> 0 \<Longrightarrow> earliestCooldown acc1 \<le> earliestCooldown acc"
      "earliestCooldown acc1 = earliestCooldown acc \<or> earliestCooldown acc1 = t"
      using t e1(1) [OF t] pos1 Cons.prems(2) by (auto simp: cooling_until_def)
    have e': "now < earliestCooldown acc'" "earliestCooldown acc' \<le> earliestCooldown acc1"
      using IH c1(3) by simp_all
    have "earliestCooldown acc' = earliestCooldown acc
        \<or> (\<exists>i\<in>set (i # is). cooling_until now m (state_at p i) (earliestCooldown acc'))"
      using IH c1(5) t st by auto
    moreover have "now < earliestCooldown acc' \<and> earliestCooldown acc' \<le> v"
      if "cooling_until now m (state_at p j) v" "j \<in> set (i # is)" for j v
      using that IH u [of v] st e' c1(2) by auto
    moreover have "earliestCooldown acc \<noteq> 0 \<Longrightarrow> earliestCooldown acc' \<le> earliestCooldown acc"
      using e' c1(4) by simp
    ultimately show ?thesis using e' by blast
  next
    case False
    then show ?thesis using IH e1(2) st by simp
  qed
qed

end
