(* ===== verification/Pool_Acquire.thy ===== *)
theory Pool_Acquire
  imports Pool_Scan
begin

text \<open>
  What \<open>tryAcquireLocked\<close> decides: on a pool whose order and key map agree it never panics, it
  hands out a lease exactly when some key is grantable, the lease takes the slot of a grantable
  key, and a refusal names the reason the key states give.
\<close>

subsection \<open>The shape of the pool\<close>

definition order_inv :: "pool \<Rightarrow> bool" where
  "order_inv p \<longleftrightarrow>
     sorted (order p) \<and> distinct (order p) \<and> set (order p) = dom (keys p)
     \<and> (order p = [] \<and> cursor p = 0 \<or> cursor p < length (order p))"

definition refs_inv :: "pool \<Rightarrow> bool" where
  "refs_inv p \<longleftrightarrow>
     (\<forall>k r. keys p k = Some r \<longrightarrow> r < nextRef p \<and> ksID (snapshot (heap p r)) = k)"

definition rng_inv :: "pool \<Rightarrow> bool" where
  "rng_inv p \<longleftrightarrow> (\<forall>n. 0 \<le> latencyRNG p n)"

definition shape_inv :: "pool \<Rightarrow> bool" where
  "shape_inv p \<longleftrightarrow> order_inv p \<and> refs_inv p \<and> rng_inv p"

definition key_states :: "pool \<Rightarrow> keyState set" where
  "key_states p = heap p ` ran (keys p)"

lemma refs_inv_inj: "refs_inv p \<Longrightarrow> keys p k = Some r \<Longrightarrow> keys p k' = Some r \<Longrightarrow> k = k'"
  unfolding refs_inv_def by metis

lemma visit_order_set: "set (visit_order p) = {0..<length (order p)}"
proof (cases "order p = []")
  case True
  then show ?thesis by (simp add: visit_order_def)
next
  case False
  then have n: "0 < length (order p)" by simp
  have "i \<in> (\<lambda>o'. (cursor p + o') mod length (order p)) ` {0..<length (order p)}"
    if "i < length (order p)" for i
  proof -
    let ?n = "length (order p)" and ?c = "cursor p mod length (order p)"
    have c: "?c < ?n" using n by simp
    let ?o = "(i + (?n - ?c)) mod ?n"
    have "(cursor p + ?o) mod ?n = (?c + (i + (?n - ?c))) mod ?n"
      by (metis mod_add_left_eq mod_add_right_eq)
    also have "\<dots> = i" using c that by simp
    finally have "i = (cursor p + ?o) mod ?n" by simp
    moreover have "?o \<in> {0..<?n}" using n by simp
    ultimately show ?thesis by (rule image_eqI)
  qed
  then show ?thesis using n by (auto simp: visit_order_def)
qed

lemma order_ref_at:
  "order_inv p \<Longrightarrow> i \<in> set (visit_order p) \<Longrightarrow> \<exists>r. ref_at p i = Some r"
  unfolding visit_order_set order_inv_def ref_at_def
  by (metis atLeastLessThan_iff domD nth_mem)

lemma order_refs: "order_inv p \<Longrightarrow> (\<exists>i\<in>set (visit_order p). ref_at p i = Some r) \<longleftrightarrow> r \<in> ran (keys p)"
proof
  assume inv: "order_inv p" and "r \<in> ran (keys p)"
  then obtain k where k: "keys p k = Some r" by (auto simp: ran_def)
  then have "k \<in> set (order p)" using inv by (auto simp: order_inv_def)
  then show "\<exists>i\<in>set (visit_order p). ref_at p i = Some r"
    using k by (auto simp: visit_order_set ref_at_def in_set_conv_nth)
qed (auto simp: ref_at_def ran_def)

lemma states_at: "order_inv p \<Longrightarrow> state_at p ` set (visit_order p) = key_states p"
proof -
  assume inv: "order_inv p"
  have "state_at p i \<in> key_states p" if "i \<in> set (visit_order p)" for i
    using order_ref_at [OF inv that] order_refs [OF inv] that
    by (force simp: state_at_def key_states_def)
  moreover have "s \<in> state_at p ` set (visit_order p)" if "s \<in> key_states p" for s
  proof -
    obtain r where r: "r \<in> ran (keys p)" "s = heap p r" using \<open>s \<in> key_states p\<close> by (auto simp: key_states_def)
    then obtain i where "i \<in> set (visit_order p)" "ref_at p i = Some r" using order_refs [OF inv] by blast
    then show ?thesis using r by (force simp: state_at_def)
  qed
  ultimately show ?thesis by blast
qed

lemma ex_state_at:
  "order_inv p \<Longrightarrow> (\<exists>i\<in>set (visit_order p). P (state_at p i)) \<longleftrightarrow> (\<exists>s\<in>key_states p. P s)"
  using states_at [of p] by (metis (no_types, lifting) image_iff)

lemma prune_rel_shape: "prune_rel now p p' \<Longrightarrow> shape_inv p' \<longleftrightarrow> shape_inv p"
  by (auto simp: shape_inv_def order_inv_def refs_inv_def rng_inv_def frame_simps prune_rel_snapshot)

subsection \<open>A grant\<close>

text \<open>\<open>granted now stream r p p'\<close>: the slot of the key at \<open>r\<close> is taken, the request is counted in
  its window, a lease is made, and only request times, the cursor and the position in the random
  source change besides.\<close>

definition grant_state :: "time \<Rightarrow> bool \<Rightarrow> keyState \<Rightarrow> keyState" where
  "grant_state now stream s = (take_slot stream s)\<lparr>requestTimes := recent now s @ [now]\<rparr>"

definition granted :: "time \<Rightarrow> bool \<Rightarrow> nat \<Rightarrow> pool \<Rightarrow> pool \<Rightarrow> bool" where
  "granted now stream r p p' \<longleftrightarrow>
     (\<exists>q cur pos. prune_rel now p q \<and> (cur < length (order p) \<or> cur = cursor p) \<and>
        p' = (set_state r (grant_state now stream (heap p r)) q)
               \<lparr>cursor := cur, rngPos := pos,
                leases := leases p @ [\<lparr>leaseKeyID = ksID (snapshot (heap p r)), leaseRef = r,
                                       leaseStream = stream, released = False\<rparr>]\<rparr>)"

lemma take_slot_simps [simp]:
  "snapshot (take_slot stream s) = snapshot s" "blocks (take_slot stream s) = blocks s"
  "requestTimes (take_slot stream s) = requestTimes s"
  "busy (take_slot stream s) = (busy s \<or> \<not> stream)"
  "streamingBusy (take_slot stream s) = (if stream then streamingBusy s + 1 else streamingBusy s)"
  "recent now (take_slot stream s) = recent now s"
  by (simp_all add: take_slot_def recent_def)

lemma grant_state_simps [simp]:
  "snapshot (grant_state now stream s) = snapshot s" "blocks (grant_state now stream s) = blocks s"
  "busy (grant_state now stream s) = (busy s \<or> \<not> stream)"
  "streamingBusy (grant_state now stream s) = (if stream then streamingBusy s + 1 else streamingBusy s)"
  "requestTimes (grant_state now stream s) = recent now s @ [now]"
  by (simp_all add: grant_state_def)

lemma reserve_take_slot:
  assumes "length (recent now s) < keyRequestLimit" and "s' = s \<or> s' = pruned now s"
  shows "take_slot stream (snd (reserveRequest now s')) = grant_state now stream s"
    and "snd (reserveRequest now (take_slot stream s')) = grant_state now stream s"
  using assms by (auto simp: reserveRequest_eq grant_state_def take_slot_def pruned_def recent_def)

lemma grantedI:
  assumes q: "prune_rel now p q" and g: "grantable now m a stream maxS rt (heap p r)"
    and cur: "cur < length (order p) \<or> cur = cursor p"
    and p': "p' = snd (new_lease r stream ((set_state r s q)\<lparr>cursor := cur, rngPos := pos\<rparr>))"
    and s: "s = grant_state now stream (heap p r)"
  shows "granted now stream r p p'"
  using q cur unfolding granted_def p' new_lease_def s
  by (intro exI [of _ q] exI [of _ cur] exI [of _ pos])
    (simp add: set_state_def frame_simps)

lemma keep_rngPos: "rngPos p = n \<Longrightarrow> p\<lparr>cursor := c, rngPos := n\<rparr> = p\<lparr>cursor := c\<rparr>"
  by (cases p) simp

lemma commit_updates:
  "p\<lparr>rngPos := x, cursor := c, heap := h\<rparr> = p\<lparr>heap := h, cursor := c, rngPos := x\<rparr>"
  "p\<lparr>rngPos := x, heap := h\<rparr> = p\<lparr>heap := h, cursor := cursor p, rngPos := x\<rparr>"
  by (cases p; simp)+

lemma granted_fields:
  assumes "granted now stream r p p'"
  shows "settings p' = settings p" "nextRef p' = nextRef p" "keys p' = keys p" "models p' = models p"
    "order p' = order p" "waiters p' = waiters p" "closed p' = closed p"
    "latencyRNG p' = latencyRNG p" "results p' = results p" "pending p' = pending p"
    "nextWaiter p' = nextWaiter p"
    "leases p' = leases p @ [\<lparr>leaseKeyID = ksID (snapshot (heap p r)), leaseRef = r,
                              leaseStream = stream, released = False\<rparr>]"
    "heap p' r = grant_state now stream (heap p r)"
  using assms by (auto simp: granted_def frame_simps)

lemma granted_heap:
  assumes "granted now stream r p p'" "x \<noteq> r"
  obtains "heap p' x = heap p x" | "heap p' x = pruned now (heap p x)"
proof -
  obtain q where q: "prune_rel now p q" "heap p' x = heap q x"
    using assms by (auto simp: granted_def)
  show thesis using q(2) by (cases rule: prune_rel_heap [OF q(1), of x]) (use that in auto)
qed

lemma granted_snapshot: "granted now stream r p p' \<Longrightarrow> snapshot (heap p' x) = snapshot (heap p x)"
  by (cases "x = r") (auto simp: granted_fields elim: granted_heap)

lemma granted_shape: "granted now stream r p p' \<Longrightarrow> shape_inv p \<Longrightarrow> shape_inv p'"
proof -
  assume g: "granted now stream r p p'" and inv: "shape_inv p"
  have "cursor p' < length (order p) \<or> cursor p' = cursor p" using g by (auto simp: granted_def)
  then show ?thesis using inv granted_fields [OF g] granted_snapshot [OF g]
    by (auto simp: shape_inv_def order_inv_def refs_inv_def rng_inv_def)
qed

subsection \<open>Choosing among the candidates\<close>

lemma draw_candidate_mem: "draw_candidate h d rs = Some r \<Longrightarrow> r \<in> set rs"
  by (induction h d rs rule: draw_candidate.induct) (auto simp: Let_def split: if_splits)

lemma weightedSelect_mem:
  assumes "rng_inv p" and "candidates \<noteq> []"
  obtains r where "weightedSelect p candidates n = Some r" "r \<in> set candidates"
proof (cases "n < 2")
  case True
  let ?x = "latencyRNG p (rngPos p) * real (length candidates)"
  let ?i = "if go_trunc ?x \<ge> int (length candidates) then int (length candidates) - 1 else go_trunc ?x"
  have "0 \<le> ?x" using assms(1) by (simp add: rng_inv_def)
  then have "0 \<le> go_trunc ?x" by (simp add: go_trunc_def)
  then have i: "0 \<le> ?i" "nat ?i < length candidates" using assms(2) by (cases candidates; auto)+
  have "weightedSelect p candidates n = Some (candidates ! nat ?i)"
    using True i(1) by (simp add: weightedSelect_def Let_def)
  then show thesis using that i(2) by simp
next
  case False
  show thesis
  proof (cases "draw_candidate (heap p) (latencyRNG p (rngPos p) * sum_list (map (\<lambda>r.
      latencyWeight unmeasuredLatencyWeight (heap p r)) candidates)) candidates")
    case None
    then show thesis using that [of "last candidates"] False assms(2) by (simp add: weightedSelect_def Let_def)
  next
    case (Some r)
    then show thesis using that [of r] False draw_candidate_mem [OF Some] by (simp add: weightedSelect_def Let_def)
  qed
qed

lemma index_of_less: "index_of k xs = Some i \<Longrightarrow> i < length xs \<and> xs ! i = k"
  by (induction xs arbitrary: i) (auto split: if_splits)

lemma index_of_None: "index_of k xs = None \<longleftrightarrow> k \<notin> set xs"
  by (induction xs) auto

subsection \<open>The outcome of an attempt\<close>

text \<open>The reason a refusal must name, from the states of the keys alone.\<close>

definition refusal ::
  "time \<Rightarrow> model_id \<Rightarrow> key_id set \<Rightarrow> bool \<Rightarrow> int \<Rightarrow> bool \<Rightarrow> keyState set \<Rightarrow> unavailableReason" where
  "refusal now m a stream maxS rt S =
     (if \<forall>s\<in>S. \<not> lives s then UnavailableDisabled
      else if \<forall>s\<in>S. lives s \<longrightarrow> m \<in> blocks s then UnavailableModelBlocked
      else if \<forall>s\<in>S. \<not> ready now m s then UnavailableCooling
      else if (\<exists>s\<in>S. rate_full now a rt m s) \<and> (\<forall>s\<in>S. \<not> slot_taken now a rt m stream maxS s)
      then UnavailableRateLimited else UnavailableBusy)"

definition attempt_ok ::
  "time \<Rightarrow> model_id \<Rightarrow> key_id set \<Rightarrow> bool \<Rightarrow> int \<Rightarrow> bool \<Rightarrow> pool \<Rightarrow> tryResult \<Rightarrow> pool \<Rightarrow> bool" where
  "attempt_ok now m a stream maxS rt p res p' \<longleftrightarrow>
     (case res of
        Leased l \<Rightarrow> l = length (leases p) \<and> models p m \<noteq> Some False
          \<and> (\<exists>r\<in>ran (keys p). grantable now m a stream maxS rt (heap p r) \<and> granted now stream r p p')
      | Unavailable u \<Rightarrow> prune_rel now p p'
          \<and> (if models p m = Some False then reason u = UnavailableModelBlocked
             else (\<forall>s\<in>key_states p. \<not> grantable now m a stream maxS rt s)
               \<and> reason u = refusal now m a stream maxS rt (key_states p)))"

lemma refusal_flags:
  assumes "order_inv p"
    and "hasEnabled acc \<longleftrightarrow> (\<exists>i\<in>set (visit_order p). lives (state_at p i))"
    and "hasUnblocked acc \<longleftrightarrow> (\<exists>i\<in>set (visit_order p). lives (state_at p i) \<and> m \<notin> blocks (state_at p i))"
    and "hasReady acc \<longleftrightarrow> (\<exists>i\<in>set (visit_order p). ready now m (state_at p i))"
    and "hasRateLimited acc \<longleftrightarrow> (\<exists>i\<in>set (visit_order p). rate_full now a rt m (state_at p i))"
    and "hasBusy acc \<longleftrightarrow> (\<exists>i\<in>set (visit_order p). slot_taken now a rt m stream maxS (state_at p i))"
  shows "refusal now m a stream maxS rt (key_states p) =
    (if \<not> hasEnabled acc then UnavailableDisabled
     else if \<not> hasUnblocked acc then UnavailableModelBlocked
     else if \<not> hasReady acc then UnavailableCooling
     else if hasRateLimited acc \<and> \<not> hasBusy acc then UnavailableRateLimited else UnavailableBusy)"
  unfolding refusal_def assms(2-6) states_at [OF assms(1), symmetric] by simp

lemma tryAcquire_outcome:
  assumes inv: "shape_inv p"
  shows "\<exists>res p'. tryAcquireLocked now m a stream maxS le rt p = Some (res, p')
    \<and> attempt_ok now m a stream maxS rt p res p'"
proof (cases "models p m = Some False")
  case True
  then show ?thesis by (simp add: tryAcquireLocked_def attempt_ok_def)
next
  case False
  have o: "order_inv p" and ri: "refs_inv p" and rg: "rng_inv p" using inv by (simp_all add: shape_inv_def)
  have "\<forall>i\<in>set (visit_order p). ref_at p i \<noteq> None" using order_ref_at [OF o] by force
  from scan_total [OF this, of now m a stream maxS le rt empty_acc]
  obtain found acc p1 where sc:
    "scan now m a stream maxS le rt (visit_order p) empty_acc p = Some (found, acc, p1)"
    by (metis prod_cases3)
  note oc = scan_outcome [OF sc]
  have pr: "prune_rel now p p1" using oc by simp
  show ?thesis
  proof (cases found)
    case (Some ir)
    obtain i r where ir: "ir = (i, r)" by (cases ir)
    then have r: "ref_at p i = Some r" "grantable now m a stream maxS rt (heap p r)"
      "i \<in> set (visit_order p)"
      using oc Some by auto
    then have rk: "r \<in> ran (keys p)" using order_refs [OF o] by blast
    have n: "0 < length (order p)" using r(3) by (auto simp: visit_order_set)
    let ?p3 = "(set_state r (take_slot stream (snd (reserveRequest now (heap p1 r)))) p1)
      \<lparr>cursor := (i + 1) mod length (order p1)\<rparr>"
    have eq: "tryAcquireLocked now m a stream maxS le rt p
        = Some (Leased (fst (new_lease r stream ?p3)), snd (new_lease r stream ?p3))"
      using False sc Some ir by (simp add: tryAcquireLocked_def Let_def case_prod_beta)
    have "take_slot stream (snd (reserveRequest now (heap p1 r))) = grant_state now stream (heap p r)"
      using r(2) prune_rel_heap [OF pr, of r] by (intro reserve_take_slot) (auto simp: grantable_def)
    then have "granted now stream r p (snd (new_lease r stream ?p3))"
      using pr r(2) n
      by (intro grantedI [where q = p1 and pos = "rngPos p1" and cur = "(i + 1) mod length (order p1)"])
        (auto simp: frame_simps keep_rngPos)
    moreover have "fst (new_lease r stream ?p3) = length (leases p)"
      using pr by (simp add: new_lease_def frame_simps)
    ultimately show ?thesis using eq r(2) rk False by (auto simp: attempt_ok_def)
  next
    case None
    have fl: "refusal now m a stream maxS rt (key_states p) =
      (if \<not> hasEnabled acc then UnavailableDisabled
       else if \<not> hasUnblocked acc then UnavailableModelBlocked
       else if \<not> hasReady acc then UnavailableCooling
       else if hasRateLimited acc \<and> \<not> hasBusy acc then UnavailableRateLimited else UnavailableBusy)"
      by (rule refusal_flags [OF o]) (use oc None in \<open>auto simp: empty_acc_def\<close>)
    have cand: "latencyCandidates acc = (if le then map (\<lambda>i. the (ref_at p i))
        (filter (\<lambda>i. grantable now m a stream maxS rt (state_at p i)) (visit_order p)) else [])"
      using oc None by (simp add: empty_acc_def)
    have rdy: "hasReady acc \<longleftrightarrow> (\<exists>s\<in>key_states p. ready now m s)"
      using oc None ex_state_at [OF o] by (simp add: empty_acc_def)
    have no: "\<forall>s\<in>key_states p. \<not> grantable now m a stream maxS rt s"
      if "latencyCandidates acc = []"
    proof -
      have "\<forall>i\<in>set (visit_order p). \<not> grantable now m a stream maxS rt (state_at p i)"
      proof (cases le)
        case True
        then show ?thesis using cand that by (auto simp: filter_empty_conv)
      next
        case nle: False
        then show ?thesis using oc None by simp
      qed
      then show ?thesis using ex_state_at [OF o, of "grantable now m a stream maxS rt"] by blast
    qed
    have no': "latencyCandidates acc = []" if "\<not> hasReady acc"
      using that cand states_at [OF o] rdy grantable_ready by (fastforce simp: filter_empty_conv)
    have chain: "hasReady acc \<Longrightarrow> hasUnblocked acc" "hasUnblocked acc \<Longrightarrow> hasEnabled acc"
      using oc None by (auto simp: empty_acc_def dest: lives_ready)
    show ?thesis
    proof (cases "latencyCandidates acc = []")
      case True
      obtain u where u: "tryAcquireLocked now m a stream maxS le rt p = Some (Unavailable u, p1)"
        "reason u = refusal now m a stream maxS rt (key_states p)"
        using False sc None True fl by (simp add: tryAcquireLocked_def Let_def split: if_splits)
      then show ?thesis using pr no [OF True] False by (auto simp: attempt_ok_def)
    next
      case cs: False
      then have flags: "hasReady acc" "hasUnblocked acc" "hasEnabled acc" using no' chain by blast+
      have rg1: "rng_inv p1" using rg pr by (simp add: rng_inv_def frame_simps)
      obtain r where sel: "weightedSelect p1 (latencyCandidates acc) (measuredLatency acc) = Some r"
        and rc: "r \<in> set (latencyCandidates acc)"
        by (rule weightedSelect_mem [OF rg1 cs])
      from rc obtain i where i: "i \<in> set (visit_order p)" "r = the (ref_at p i)"
        "grantable now m a stream maxS rt (state_at p i)"
        using cand by (auto split: if_splits)
      have ref: "ref_at p i = Some r" using order_ref_at [OF o i(1)] i(2) by auto
      then have g: "grantable now m a stream maxS rt (heap p r)" and rk: "r \<in> ran (keys p)"
        using i(3) order_refs [OF o] i(1) by (auto simp: state_at_def)
      define cur where "cur = (case index_of (ksID (snapshot (heap p1 r))) (order p1) of
          None \<Rightarrow> cursor p1 | Some j \<Rightarrow> (j + 1) mod length (order p1))"
      let ?p4 = "(set_state r (snd (reserveRequest now (take_slot stream (heap p1 r)))) p1)
        \<lparr>cursor := cur, rngPos := Suc (rngPos p1)\<rparr>"
      have eq: "tryAcquireLocked now m a stream maxS le rt p
          = Some (Leased (fst (new_lease r stream ?p4)), snd (new_lease r stream ?p4))"
        using False sc None cs flags sel
        by (simp add: tryAcquireLocked_def Let_def case_prod_beta cur_def set_state_def commit_updates
            split: option.splits)
      have "snd (reserveRequest now (take_slot stream (heap p1 r))) = grant_state now stream (heap p r)"
        using g prune_rel_heap [OF pr, of r] by (intro reserve_take_slot) (auto simp: grantable_def)
      moreover have "cur < length (order p) \<or> cur = cursor p"
        using pr i(1) by (auto simp: cur_def frame_simps visit_order_set split: option.splits
            intro!: mod_less_divisor)
      ultimately have "granted now stream r p (snd (new_lease r stream ?p4))"
        using pr g by (intro grantedI [where q = p1 and cur = cur and pos = "Suc (rngPos p1)"]) auto
      moreover have "fst (new_lease r stream ?p4) = length (leases p)"
        using pr by (simp add: new_lease_def frame_simps)
      ultimately show ?thesis using eq g rk False by (auto simp: attempt_ok_def)
    qed
  qed
qed

end
