(* ===== verification/Pool_Dispatch.thy ===== *)
theory Pool_Dispatch
  imports Pool_Acquire
begin

text \<open>
  The dispatch of the wait queue as a sequence of small steps. Each step looks at the head of the
  queue and prunes request times, moves the head to the tail, fails it, or grants it a key;
  \<open>dispatchWaitersLocked\<close> never panics and is a finite sequence of such steps, so an invariant of
  the pool has to be checked for four steps only.
\<close>

subsection \<open>Steps\<close>

inductive dispatch_step :: "ctx_errors \<Rightarrow> time \<Rightarrow> pool \<Rightarrow> pool \<Rightarrow> bool" for ce now where
  prune: "prune_rel now p p' \<Longrightarrow> dispatch_step ce now p p'"
| rotate: "waiters p = w # ws \<Longrightarrow> dispatch_step ce now p (queue_push w (queue_remove (waiterID w) p))"
| fail: "waiters p = w # ws \<Longrightarrow>
    (e = ce (ctxID (waiterCtx w)) \<and> e \<noteq> nil_error) \<or> (\<exists>u. e = unavailableError u \<and> reason u \<noteq> UnavailableBusy) \<Longrightarrow>
    dispatch_step ce now p (deliver (waiterID w) (Inl e) (queue_remove (waiterID w) p))"
| grant: "waiters p = w # ws \<Longrightarrow> models p (waiterModelID w) \<noteq> Some False \<Longrightarrow> r \<in> ran (keys p) \<Longrightarrow>
    grantable now (waiterModelID w) (waiterAttempted w) (waiterStream w) (waiterMaxStreaming w) rt (heap p r) \<Longrightarrow>
    (rt \<Longrightarrow> \<not> noAttemptedRelaxation (waiterCtx w)) \<Longrightarrow>
    granted now (waiterStream w) r p q \<Longrightarrow>
    dispatch_step ce now p (deliver (waiterID w) (Inr (length (leases p))) (queue_remove (waiterID w) q))"

inductive_cases dispatch_stepE: "dispatch_step ce now p p'"

abbreviation dispatch_steps :: "ctx_errors \<Rightarrow> time \<Rightarrow> pool \<Rightarrow> pool \<Rightarrow> bool" where
  "dispatch_steps ce now \<equiv> (dispatch_step ce now)\<^sup>*\<^sup>*"

lemma queue_ops_fields [simp]:
  "waiters (queue_push w p) = waiters p @ [w]" "waiters (deliver i res p) = waiters p"
  "waiters (queue_remove i p) = filter (\<lambda>w. waiterID w \<noteq> i) (waiters p)"
  "results (deliver i res p) = (results p)(i \<mapsto> res)"
  "results (queue_push w p) = results p" "results (queue_remove i p) = results p"
  "heap (deliver i res p) = heap p" "heap (queue_push w p) = heap p" "heap (queue_remove i p) = heap p"
  "keys (deliver i res p) = keys p" "keys (queue_push w p) = keys p" "keys (queue_remove i p) = keys p"
  "order (deliver i res p) = order p" "order (queue_push w p) = order p" "order (queue_remove i p) = order p"
  "cursor (deliver i res p) = cursor p" "cursor (queue_push w p) = cursor p" "cursor (queue_remove i p) = cursor p"
  "leases (deliver i res p) = leases p" "leases (queue_push w p) = leases p" "leases (queue_remove i p) = leases p"
  "nextRef (deliver i res p) = nextRef p" "nextRef (queue_push w p) = nextRef p" "nextRef (queue_remove i p) = nextRef p"
  "models (deliver i res p) = models p" "models (queue_push w p) = models p" "models (queue_remove i p) = models p"
  "closed (deliver i res p) = closed p" "closed (queue_push w p) = closed p" "closed (queue_remove i p) = closed p"
  "pending (deliver i res p) = pending p" "pending (queue_push w p) = pending p" "pending (queue_remove i p) = pending p"
  "settings (deliver i res p) = settings p" "settings (queue_push w p) = settings p" "settings (queue_remove i p) = settings p"
  "latencyRNG (deliver i res p) = latencyRNG p" "latencyRNG (queue_push w p) = latencyRNG p"
  "latencyRNG (queue_remove i p) = latencyRNG p"
  "nextWaiter (deliver i res p) = nextWaiter p" "nextWaiter (queue_push w p) = nextWaiter p"
  "nextWaiter (queue_remove i p) = nextWaiter p"
  by (simp_all add: queue_push_def queue_remove_def deliver_def)

lemma shape_inv_cong:
  "order p' = order p \<Longrightarrow> keys p' = keys p \<Longrightarrow> cursor p' = cursor p \<Longrightarrow> nextRef p' = nextRef p \<Longrightarrow>
   latencyRNG p' = latencyRNG p \<Longrightarrow> (\<And>r. ksID (snapshot (heap p' r)) = ksID (snapshot (heap p r))) \<Longrightarrow>
   shape_inv p' = shape_inv p"
  by (simp add: shape_inv_def order_inv_def refs_inv_def rng_inv_def)

lemma shape_inv_queue [simp]:
  "shape_inv (deliver i res p) = shape_inv p" "shape_inv (queue_push w p) = shape_inv p"
  "shape_inv (queue_remove i p) = shape_inv p"
  by (rule shape_inv_cong; simp)+

lemma dispatch_step_shape: "dispatch_step ce now p p' \<Longrightarrow> shape_inv p \<Longrightarrow> shape_inv p'"
  by (erule dispatch_stepE) (simp_all add: prune_rel_shape granted_shape)

lemma dispatch_steps_shape: "dispatch_steps ce now p p' \<Longrightarrow> shape_inv p \<Longrightarrow> shape_inv p'"
  by (induction rule: rtranclp_induct) (auto intro: dispatch_step_shape)

subsection \<open>The dispatch is such a sequence\<close>

lemma not_False: "\<not> False" by simp

lemma granted_try_waiter:
  assumes "shape_inv p" "waiters p = w # ws" "\<not> rt \<or> \<not> noAttemptedRelaxation (waiterCtx w)"
  obtains (leased) p1 where "try_waiter now rt w p = Some (Leased (length (leases p)), p1)"
      "dispatch_step ce now p (deliver (waiterID w) (Inr (length (leases p))) (queue_remove (waiterID w) p1))"
  | (unavailable) u p1 where "try_waiter now rt w p = Some (Unavailable u, p1)" "prune_rel now p p1"
proof -
  obtain res p1 where t: "try_waiter now rt w p = Some (res, p1)"
    and ok: "attempt_ok now (waiterModelID w) (waiterAttempted w) (waiterStream w) (waiterMaxStreaming w) rt p res p1"
    using tryAcquire_outcome [OF assms(1)] unfolding try_waiter_def by blast
  show thesis
  proof (cases res)
    case (Leased l)
    then have l: "l = length (leases p)" using ok by (simp add: attempt_ok_def)
    obtain r where "r \<in> ran (keys p)" "models p (waiterModelID w) \<noteq> Some False"
      "grantable now (waiterModelID w) (waiterAttempted w) (waiterStream w) (waiterMaxStreaming w) rt (heap p r)"
      "granted now (waiterStream w) r p p1"
      using ok Leased by (auto simp: attempt_ok_def)
    then have "dispatch_step ce now p (deliver (waiterID w) (Inr (length (leases p))) (queue_remove (waiterID w) p1))"
      using assms(2,3) by (intro dispatch_step.grant [where r = r and rt = rt]) auto
    then show thesis using leased t Leased l by blast
  next
    case (Unavailable u)
    then show thesis using unavailable t ok by (auto simp: attempt_ok_def)
  qed
qed

lemma prune_waiters: "prune_rel now p p' \<Longrightarrow> waiters p' = waiters p"
  by (simp add: frame_simps)

lemma steps_prune_then:
  "prune_rel now p p1 \<Longrightarrow> dispatch_step ce now p1 p2 \<Longrightarrow> dispatch_steps ce now p p2"
  by (meson converse_rtranclp_into_rtranclp dispatch_step.prune r_into_rtranclp)

lemma dispatch_pass_steps:
  "shape_inv p \<Longrightarrow> \<exists>p'. dispatch_pass ce now n p = Some p' \<and> dispatch_steps ce now p p'"
proof (induction n arbitrary: p)
  case 0
  then show ?case by simp
next
  case (Suc n)
  have go: "\<exists>p'. dispatch_pass ce now n q = Some p' \<and> dispatch_steps ce now p p'"
    if "dispatch_steps ce now p q" for q
    using Suc.IH [of q] dispatch_steps_shape [OF that Suc.prems] that by (meson rtranclp_trans)
  show ?case
  proof (cases "waiters p")
    case Nil
    then show ?thesis by simp
  next
    case (Cons w ws)
    show ?thesis
    proof (cases "ce (ctxID (waiterCtx w)) = nil_error")
      case False
      then have "dispatch_steps ce now p
          (deliver (waiterID w) (Inl (ce (ctxID (waiterCtx w)))) (queue_remove (waiterID w) p))"
        using Cons by (intro r_into_rtranclp dispatch_step.fail) auto
      from go [OF this] show ?thesis using Cons False by simp
    next
      case True
      show ?thesis
      proof (rule granted_try_waiter [OF Suc.prems Cons disjI1 [OF not_False], of now ce], goal_cases)
        case leased: (1 p1)
        from go [OF r_into_rtranclp [where r = "dispatch_step ce now", OF leased(2)]] show ?thesis using Cons True leased(1) by simp
      next
        case unavailable: (2 u p1)
        have w1: "waiters p1 = w # ws" using unavailable(2) Cons by (simp add: prune_waiters)
        have "dispatch_steps ce now p (queue_push w (queue_remove (waiterID w) p1))"
          using unavailable(2) dispatch_step.rotate [OF w1] by (rule steps_prune_then)
        moreover have "dispatch_steps ce now p
            (deliver (waiterID w) (Inl (unavailableError u)) (queue_remove (waiterID w) p1))"
          if "reason u \<noteq> UnavailableBusy"
          using unavailable(2) dispatch_step.fail [OF w1, of "unavailableError u"] that
          by (blast intro: steps_prune_then)
        ultimately show ?thesis using Cons True unavailable(1) go
          by (cases "reason u = UnavailableBusy") auto
      qed
    qed
  qed
qed

lemma hasNonAttemptedReady_prune:
  assumes "\<forall>i\<in>set is. ref_at p i \<noteq> None"
  shows "\<exists>b p'. hasNonAttemptedReady_scan now m a stream maxS is p = Some (b, p') \<and> prune_rel now p p'"
  using assms
proof (induction "is" arbitrary: p)
  case Nil
  then show ?case by (simp add: exI [of _ False])
next
  case (Cons i "is")
  then obtain r where r: "keys p (order p ! i) = Some r" by (auto simp: ref_at_def)
  obtain ra where ra: "requestRetryAfter now (heap p r) = (ra, pruned now (heap p r))"
    by (rule requestRetryAfter_cases [of now "heap p r"]) (auto simp: pruned_def)
  let ?p1 = "set_state r (pruned now (heap p r)) p"
  have pr: "prune_rel now p ?p1" by (rule prune_rel_set_state) (rule disjI2, rule refl)
  have "\<exists>b p'. hasNonAttemptedReady_scan now m a stream maxS is q = Some (b, p') \<and> prune_rel now p p'"
    if "q = p \<or> q = ?p1" for q
  proof -
    have q: "prune_rel now p q" using that pr by auto
    then have "\<forall>i\<in>set is. ref_at q i \<noteq> None" using Cons.prems by (simp add: prune_rel_ref_at)
    from Cons.IH [OF this] q show ?thesis using prune_rel_trans by blast
  qed
  from this [of p] this [of ?p1] show ?case using r ra pr by (auto simp: Let_def)
qed

lemma dispatch_relaxed_steps:
  assumes inv: "shape_inv p"
  shows "\<exists>p'. dispatch_relaxed now p = Some p' \<and> dispatch_steps ce now p p'"
proof (cases "waiters p")
  case Nil
  then show ?thesis by (simp add: dispatch_relaxed_def)
next
  case (Cons w ws)
  show ?thesis
  proof (cases "noAttemptedRelaxation (waiterCtx w)")
    case True
    then show ?thesis using Cons by (simp add: dispatch_relaxed_def)
  next
    case False
    have "\<forall>i\<in>set (visit_order p). ref_at p i \<noteq> None"
      using order_ref_at inv by (force simp: shape_inv_def)
    from hasNonAttemptedReady_prune [OF this]
    obtain b p1 where h: "hasNonAttemptedReadyLocked now (waiterModelID w) (waiterAttempted w)
        (waiterStream w) (waiterMaxStreaming w) p = Some (b, p1)" and pr: "prune_rel now p p1"
      unfolding hasNonAttemptedReadyLocked_def by metis
    have steps1: "dispatch_steps ce now p p1" using pr by (intro r_into_rtranclp dispatch_step.prune)
    have w1: "waiters p1 = w # ws" using pr Cons by (simp add: prune_waiters)
    have inv1: "shape_inv p1" using prune_rel_shape [OF pr] inv by simp
    show ?thesis
    proof (cases b)
      case True
      then show ?thesis using Cons False h steps1 by (simp add: dispatch_relaxed_def)
    next
      case nb: False
      show ?thesis
      proof (rule granted_try_waiter [OF inv1 w1 disjI2 [OF False], of now True ce], goal_cases)
        case leased: (1 p2)
        then show ?thesis using Cons False h nb rtranclp.rtrancl_into_rtrancl [OF steps1]
          by (simp add: dispatch_relaxed_def)
      next
        case unavailable: (2 u p2)
        have pr2: "prune_rel now p p2" using pr unavailable(2) by (rule prune_rel_trans)
        have w2: "waiters p2 = w # ws" using pr2 Cons by (simp add: prune_waiters)
        have "dispatch_steps ce now p
            (deliver (waiterID w) (Inl (unavailableError u)) (queue_remove (waiterID w) p2))"
          if "reason u \<noteq> UnavailableBusy"
          using pr2 dispatch_step.fail [OF w2, of "unavailableError u"] that by (blast intro: steps_prune_then)
        moreover have "dispatch_steps ce now p p2" using pr2 by (intro r_into_rtranclp dispatch_step.prune)
        ultimately show ?thesis using Cons False h nb unavailable(1)
          by (simp add: dispatch_relaxed_def)
      qed
    qed
  qed
qed

lemma dispatchWaiters_steps:
  assumes "shape_inv p"
  shows "\<exists>p'. dispatchWaitersLocked ce now p = Some p' \<and> dispatch_steps ce now p p' \<and> (closed p \<longrightarrow> p' = p)"
proof (cases "closed p")
  case True
  then show ?thesis by (simp add: dispatchWaitersLocked_def)
next
  case False
  obtain p1 where p1: "dispatch_pass ce now (length (waiters p)) p = Some p1" "dispatch_steps ce now p p1"
    using dispatch_pass_steps [OF assms] by blast
  obtain p2 where "dispatch_relaxed now p1 = Some p2" "dispatch_steps ce now p1 p2"
    using dispatch_relaxed_steps [OF dispatch_steps_shape [OF p1(2) assms]] by blast
  then show ?thesis using False p1 rtranclp_trans [OF p1(2)] by (simp add: dispatchWaitersLocked_def)
qed

lemma dispatchWaiters_induct:
  assumes "shape_inv p" "dispatchWaitersLocked ce now p = Some p'" "P p"
    and "\<And>q q'. dispatch_step ce now q q' \<Longrightarrow> shape_inv q \<Longrightarrow> P q \<Longrightarrow> P q'"
  shows "shape_inv p' \<and> P p'"
proof -
  have "dispatch_steps ce now p p'" using dispatchWaiters_steps [OF assms(1), of ce now] assms(2) by auto
  then show ?thesis
    by (induction rule: rtranclp_induct) (use assms dispatch_step_shape in blast)+
qed

end
