(* ===== verification/Pool_Invariant.thy ===== *)
theory Pool_Invariant
  imports Pool_Dispatch
begin

text \<open>
  The invariant of the key pool. Besides the shape of the order it counts leases: the flag \<open>busy\<close>
  and the counter \<open>streamingBusy\<close> of a key state are exactly the leases on it that have not been
  released. The queue invariant says who owns what: a queued request has an empty result channel,
  a request that left the queue has its result in the channel until it is received, and a lease in
  a channel is unreleased and in no other channel.
\<close>

subsection \<open>Definitions\<close>

definition held :: "lease list \<Rightarrow> nat \<Rightarrow> bool \<Rightarrow> nat" where
  "held ls r stream = length (filter (\<lambda>l. leaseRef l = r \<and> leaseStream l = stream \<and> \<not> released l) ls)"

definition lease_inv :: "pool \<Rightarrow> bool" where
  "lease_inv p \<longleftrightarrow>
     (\<forall>l\<in>set (leases p). leaseRef l < nextRef p)
     \<and> (\<forall>r<nextRef p. streamingBusy (heap p r) = int (held (leases p) r True)
          \<and> held (leases p) r False = (if busy (heap p r) then 1 else 0))"

definition rate_inv :: "pool \<Rightarrow> bool" where
  "rate_inv p \<longleftrightarrow> (\<forall>r. length (requestTimes (heap p r)) \<le> keyRequestLimit)"

definition queue_inv :: "pool \<Rightarrow> bool" where
  "queue_inv p \<longleftrightarrow>
     distinct (map waiterID (waiters p))
     \<and> (\<forall>w\<in>set (waiters p). waiterID w \<in> pending p \<and> results p (waiterID w) = None)
     \<and> (\<forall>i\<in>pending p. i < nextWaiter p \<and> (queued i p \<or> results p i \<noteq> None))
     \<and> dom (results p) \<subseteq> pending p
     \<and> (closed p \<longrightarrow> waiters p = [])"

definition mailbox_inv :: "pool \<Rightarrow> bool" where
  "mailbox_inv p \<longleftrightarrow>
     (\<forall>i l. results p i = Some (Inr l) \<longrightarrow> l < length (leases p) \<and> \<not> released (leases p ! l))
     \<and> (\<forall>i j l. results p i = Some (Inr l) \<and> results p j = Some (Inr l) \<longrightarrow> i = j)"

definition pool_inv :: "pool \<Rightarrow> bool" where
  "pool_inv p \<longleftrightarrow> shape_inv p \<and> lease_inv p \<and> rate_inv p \<and> queue_inv p \<and> mailbox_inv p"

subsection \<open>Counting leases\<close>

lemma held_append [simp]: "held (ls @ ls') r stream = held ls r stream + held ls' r stream"
  by (simp add: held_def)

lemma held_Cons [simp]:
  "held (l # ls) r stream =
     (if leaseRef l = r \<and> leaseStream l = stream \<and> \<not> released l then 1 else 0) + held ls r stream"
  by (simp add: held_def)

lemma held_Nil [simp]: "held [] r stream = 0"
  by (simp add: held_def)

lemma held_fresh: "\<forall>l\<in>set ls. leaseRef l < r \<Longrightarrow> held ls r stream = 0"
  by (auto simp: held_def filter_empty_conv)

lemma held_release:
  assumes "l < length ls" "\<not> released (ls ! l)"
  shows "held ls r stream =
    held (ls[l := (ls ! l)\<lparr>released := True\<rparr>]) r stream
    + (if leaseRef (ls ! l) = r \<and> leaseStream (ls ! l) = stream then 1 else 0)"
proof -
  have ls: "ls = take l ls @ [ls ! l] @ drop (Suc l) ls" using assms(1) by (simp add: id_take_nth_drop)
  have "ls[l := (ls ! l)\<lparr>released := True\<rparr>] = take l ls @ [(ls ! l)\<lparr>released := True\<rparr>] @ drop (Suc l) ls"
    using assms(1) by (simp add: upd_conv_take_nth_drop)
  moreover have "held ls r stream = held (take l ls @ [ls ! l] @ drop (Suc l) ls) r stream" using ls by simp
  ultimately show ?thesis using assms(2) by simp
qed

lemma held_two:
  assumes "i < length ls" "j < length ls" "i \<noteq> j"
    and "leaseRef (ls ! i) = r" "leaseStream (ls ! i) = stream" "\<not> released (ls ! i)"
    and "leaseRef (ls ! j) = r" "leaseStream (ls ! j) = stream" "\<not> released (ls ! j)"
  shows "2 \<le> held ls r stream"
proof -
  let ?ls = "ls[i := (ls ! i)\<lparr>released := True\<rparr>]"
  have "held ls r stream = held ?ls r stream + 1" using held_release [of i ls r stream] assms by simp
  moreover have "held ?ls r stream = held (?ls[j := (?ls ! j)\<lparr>released := True\<rparr>]) r stream + 1"
    using held_release [of j ?ls r stream] assms by simp
  ultimately show ?thesis by simp
qed

subsection \<open>The dispatch keeps the invariant\<close>

lemma lease_inv_cong:
  assumes "leases p' = leases p" "nextRef p' = nextRef p"
    and "\<And>r. streamingBusy (heap p' r) = streamingBusy (heap p r)" "\<And>r. busy (heap p' r) = busy (heap p r)"
  shows "lease_inv p' = lease_inv p"
  using assms by (simp add: lease_inv_def)

lemma rate_inv_cong: "heap p' = heap p \<Longrightarrow> rate_inv p' = rate_inv p"
  by (simp add: rate_inv_def)

lemma queue_inv_cong:
  "waiters p' = waiters p \<Longrightarrow> pending p' = pending p \<Longrightarrow> results p' = results p \<Longrightarrow>
   nextWaiter p' = nextWaiter p \<Longrightarrow> closed p' = closed p \<Longrightarrow> queue_inv p' = queue_inv p"
  by (simp add: queue_inv_def queued_def)

lemma mailbox_inv_cong: "leases p' = leases p \<Longrightarrow> results p' = results p \<Longrightarrow> mailbox_inv p' = mailbox_inv p"
  by (simp add: mailbox_inv_def)

lemma prune_rel_busy:
  assumes "prune_rel now p p'"
  shows "busy (heap p' r) = busy (heap p r)" "streamingBusy (heap p' r) = streamingBusy (heap p r)"
    "length (requestTimes (heap p' r)) \<le> length (requestTimes (heap p r))"
  by (rule prune_rel_heap [OF assms, of r]; simp add: length_recent_le)+

lemma prune_rel_pool_inv: "prune_rel now p p' \<Longrightarrow> pool_inv p \<Longrightarrow> pool_inv p'"
proof -
  assume pr: "prune_rel now p p'" and inv: "pool_inv p"
  have "rate_inv p'" using inv prune_rel_busy(3) [OF pr]
    by (simp add: pool_inv_def rate_inv_def) (meson le_trans)
  moreover have "lease_inv p' = lease_inv p"
    by (rule lease_inv_cong) (use pr in \<open>simp_all add: frame_simps prune_rel_busy\<close>)
  moreover have "queue_inv p' = queue_inv p"
    by (rule queue_inv_cong) (use pr in \<open>simp_all add: frame_simps\<close>)
  moreover have "mailbox_inv p' = mailbox_inv p"
    by (rule mailbox_inv_cong) (use pr in \<open>simp_all add: frame_simps\<close>)
  ultimately show ?thesis using inv prune_rel_shape [OF pr] by (simp add: pool_inv_def)
qed

text \<open>A grant, before the lease is delivered.\<close>

lemma granted_lease_inv:
  assumes g: "granted now stream r p p'" and f: "grantable now m a stream maxS rt (heap p r)"
    and r: "r < nextRef p" and inv: "lease_inv p"
  shows "lease_inv p'"
proof -
  have "streamingBusy (heap p' x) = int (held (leases p') x True)
      \<and> held (leases p') x False = (if busy (heap p' x) then 1 else 0)" if "x < nextRef p" for x
  proof (cases "x = r")
    case True
    then show ?thesis using inv r f granted_fields [OF g]
      by (auto simp: lease_inv_def grantable_def slot_free_def)
  next
    case False
    have "busy (heap p' x) = busy (heap p x) \<and> streamingBusy (heap p' x) = streamingBusy (heap p x)"
      by (rule granted_heap [OF g False]) simp_all
    then show ?thesis using False that inv granted_fields [OF g] by (simp add: lease_inv_def)
  qed
  then show ?thesis using inv r granted_fields [OF g] by (auto simp: lease_inv_def)
qed

lemma granted_rate_inv:
  assumes g: "granted now stream r p p'" and f: "grantable now m a stream maxS rt (heap p r)"
    and inv: "rate_inv p"
  shows "rate_inv p'"
  unfolding rate_inv_def
proof
  fix x
  have le: "length (requestTimes (heap p x)) \<le> keyRequestLimit" using inv by (simp add: rate_inv_def)
  show "length (requestTimes (heap p' x)) \<le> keyRequestLimit"
  proof (cases "x = r")
    case True
    then show ?thesis using granted_fields [OF g] f by (simp add: grantable_def)
  next
    case False
    then show ?thesis
      by (rule granted_heap [OF g]) (use le length_recent_le [of now "heap p x"] in simp_all)
  qed
qed

lemma granted_mailbox_inv: "granted now stream r p p' \<Longrightarrow> mailbox_inv p \<Longrightarrow> mailbox_inv p'"
  by (auto simp: mailbox_inv_def granted_fields nth_append less_Suc_eq)

lemma granted_queue_inv: "granted now stream r p p' \<Longrightarrow> queue_inv p \<Longrightarrow> queue_inv p'"
  by (subst queue_inv_cong [of p' p]) (simp_all add: granted_fields)

text \<open>Taking the head off the queue with a result.\<close>

lemma queued_remove: "queued i (queue_remove j p) \<longleftrightarrow> queued i p \<and> i \<noteq> j"
  by (auto simp: queued_def)

lemma queued_cong [simp]: "queued i (deliver j res p) = queued i p"
  by (simp add: queued_def)

lemma distinct_map_filter': "distinct (map f xs) \<Longrightarrow> distinct (map f (filter P xs))"
  by (induction xs) auto

lemma deliver_queue_inv:
  assumes "queue_inv p" "w \<in> set (waiters p)"
  shows "queue_inv (deliver (waiterID w) res (queue_remove (waiterID w) p))"
  using assms by (auto simp: queue_inv_def queued_remove distinct_map_filter')

lemma deliver_error_mailbox: "mailbox_inv p \<Longrightarrow> mailbox_inv (deliver i (Inl e) (queue_remove j p))"
  by (auto simp: mailbox_inv_def split: if_splits)

lemma deliver_lease_mailbox:
  assumes "mailbox_inv p" "l < length (leases p)" "\<not> released (leases p ! l)"
    and "\<And>i. results p i \<noteq> Some (Inr l)"
  shows "mailbox_inv (deliver i (Inr l) (queue_remove j p))"
  using assms by (auto simp: mailbox_inv_def split: if_splits)

lemma queue_ops_lease [simp]:
  "lease_inv (deliver i res p) = lease_inv p" "lease_inv (queue_remove i p) = lease_inv p"
  "lease_inv (queue_push w p) = lease_inv p"
  by (rule lease_inv_cong; simp)+

lemma queue_ops_rate [simp]:
  "rate_inv (deliver i res p) = rate_inv p" "rate_inv (queue_remove i p) = rate_inv p"
  "rate_inv (queue_push w p) = rate_inv p"
  by (rule rate_inv_cong; simp)+

lemma rotate_queue_inv:
  assumes "queue_inv p" "waiters p = w # ws"
  shows "queue_inv (queue_push w (queue_remove (waiterID w) p))"
  using assms by (auto simp: queue_inv_def queued_def distinct_map_filter')

lemma dispatch_step_pool_inv: "dispatch_step ce now p p' \<Longrightarrow> pool_inv p \<Longrightarrow> pool_inv p'"
proof (induction rule: dispatch_step.induct)
  case (prune p p')
  then show ?case by (rule prune_rel_pool_inv)
next
  case (rotate p w ws)
  then have "mailbox_inv (queue_push w (queue_remove (waiterID w) p)) = mailbox_inv p"
    by (intro mailbox_inv_cong) simp_all
  then show ?case using rotate rotate_queue_inv by (simp add: pool_inv_def)
next
  case (fail p w ws e)
  then show ?case by (simp add: pool_inv_def deliver_queue_inv deliver_error_mailbox)
next
  case (grant p w ws r rt q)
  have inv: "shape_inv p" "lease_inv p" "rate_inv p" "queue_inv p" "mailbox_inv p"
    using grant.prems by (simp_all add: pool_inv_def)
  have r: "r < nextRef p" using grant.hyps inv(1) by (auto simp: shape_inv_def refs_inv_def ran_def)
  note g = grant.hyps(6) and f = grant.hyps(4)
  have ls: "leases q = leases p @ [\<lparr>leaseKeyID = ksID (snapshot (heap p r)), leaseRef = r,
      leaseStream = waiterStream w, released = False\<rparr>]" using granted_fields [OF g] by simp
  have "results q i \<noteq> Some (Inr (length (leases p)))" for i
    using inv(5) granted_fields [OF g] by (auto simp: mailbox_inv_def)
  then have "mailbox_inv (deliver (waiterID w) (Inr (length (leases p))) (queue_remove (waiterID w) q))"
    using granted_mailbox_inv [OF g inv(5)] ls by (intro deliver_lease_mailbox) auto
  moreover have "queue_inv (deliver (waiterID w) (Inr (length (leases p))) (queue_remove (waiterID w) q))"
    using granted_queue_inv [OF g inv(4)] granted_fields [OF g] grant.hyps(1) by (intro deliver_queue_inv) auto
  ultimately show ?case
    using granted_shape [OF g inv(1)] granted_lease_inv [OF g f r inv(2)] granted_rate_inv [OF g f inv(3)]
    by (simp add: pool_inv_def)
qed

lemma dispatchWaiters_inv:
  assumes "pool_inv p"
  shows "\<exists>p'. dispatchWaitersLocked ce now p = Some p' \<and> pool_inv p'"
proof -
  obtain p' where "dispatchWaitersLocked ce now p = Some p'" "dispatch_steps ce now p p'"
    using dispatchWaiters_steps assms by (metis pool_inv_def)
  moreover have "pool_inv p'" using calculation(2) assms
    by (induction rule: rtranclp_induct) (auto intro: dispatch_step_pool_inv)
  ultimately show ?thesis by blast
qed

end
