(* ===== verification/Pool_Operations.thy ===== *)
theory Pool_Operations
  imports Pool_Invariant
begin

text \<open>
  The bookkeeping operations keep the invariant of the pool: changes of one key, loading a whole
  set of keys, inserting and removing a key (the cursor stays on the key it pointed at), releasing
  a lease, entering and leaving the queue, shutting down.
\<close>

subsection \<open>Changes of one key\<close>

lemma with_key_fields [simp]:
  "keys (with_key k f p) = keys p" "order (with_key k f p) = order p" "cursor (with_key k f p) = cursor p"
  "nextRef (with_key k f p) = nextRef p" "leases (with_key k f p) = leases p"
  "results (with_key k f p) = results p" "waiters (with_key k f p) = waiters p"
  "pending (with_key k f p) = pending p" "nextWaiter (with_key k f p) = nextWaiter p"
  "closed (with_key k f p) = closed p" "latencyRNG (with_key k f p) = latencyRNG p"
  "models (with_key k f p) = models p" "settings (with_key k f p) = settings p"
  by (simp_all add: with_key_def split: option.splits)

lemma with_key_heap:
  "heap (with_key k f p) r = (if keys p k = Some r then f (heap p r) else heap p r)"
  by (auto simp: with_key_def split: option.splits)

text \<open>A change that keeps the id, the occupancy and the request times of every key keeps the
  invariant.\<close>

definition neutral :: "pool \<Rightarrow> pool \<Rightarrow> bool" where
  "neutral p p' \<longleftrightarrow>
     order p' = order p \<and> keys p' = keys p \<and> cursor p' = cursor p \<and> nextRef p' = nextRef p
     \<and> latencyRNG p' = latencyRNG p \<and> leases p' = leases p \<and> results p' = results p
     \<and> waiters p' = waiters p \<and> pending p' = pending p \<and> nextWaiter p' = nextWaiter p
     \<and> closed p' = closed p
     \<and> (\<forall>r. ksID (snapshot (heap p' r)) = ksID (snapshot (heap p r))
          \<and> busy (heap p' r) = busy (heap p r) \<and> streamingBusy (heap p' r) = streamingBusy (heap p r)
          \<and> requestTimes (heap p' r) = requestTimes (heap p r))"

lemma neutral_pool_inv:
  assumes "neutral p p'"
  shows "pool_inv p' = pool_inv p"
proof -
  have "shape_inv p' = shape_inv p" by (rule shape_inv_cong) (use assms in \<open>simp_all add: neutral_def\<close>)
  moreover have "lease_inv p' = lease_inv p"
    by (rule lease_inv_cong) (use assms in \<open>simp_all add: neutral_def\<close>)
  moreover have "queue_inv p' = queue_inv p"
    by (rule queue_inv_cong) (use assms in \<open>simp_all add: neutral_def\<close>)
  moreover have "mailbox_inv p' = mailbox_inv p"
    by (rule mailbox_inv_cong) (use assms in \<open>simp_all add: neutral_def\<close>)
  moreover have "rate_inv p' = rate_inv p" using assms by (simp add: neutral_def rate_inv_def)
  ultimately show ?thesis by (simp add: pool_inv_def)
qed

lemma neutral_with_key:
  assumes "\<And>s. ksID (snapshot (f s)) = ksID (snapshot s)" "\<And>s. busy (f s) = busy s"
    "\<And>s. streamingBusy (f s) = streamingBusy s" "\<And>s. requestTimes (f s) = requestTimes s"
  shows "neutral p (with_key k f p)"
  using assms by (simp add: neutral_def with_key_heap)

lemma recordLatency_neutral:
  "snapshot (recordLatency d s) = snapshot s" "busy (recordLatency d s) = busy s"
  "streamingBusy (recordLatency d s) = streamingBusy s" "requestTimes (recordLatency d s) = requestTimes s"
  "blocks (recordLatency d s) = blocks s"
  by (simp_all add: recordLatency_def Let_def)

lemma neutral_ops [intro!, simp]:
  "neutral p (setModelEnabledLocked m e p)" "neutral p (clearModelBlocksLocked m p)"
  "neutral p (setKeyEnabledLocked k e p)" "neutral p (applySuccessLocked k p)"
  "neutral p (recordLatencyLocked k d p)" "neutral p (applyFailureLocked k m f ks p)"
  "neutral p (setModelBlockLocked k m b p)"
  subgoal by (simp add: neutral_def setModelEnabledLocked_def)
  subgoal by (simp add: neutral_def clearModelBlocksLocked_def)
  subgoal unfolding setKeyEnabledLocked_def by (rule neutral_with_key) simp_all
  subgoal unfolding applySuccessLocked_def by (rule neutral_with_key) simp_all
  subgoal unfolding recordLatencyLocked_def by (rule neutral_with_key) (simp_all add: recordLatency_neutral)
  subgoal unfolding applyFailureLocked_def by (rule neutral_with_key) (simp_all add: Let_def)
  subgoal unfolding setModelBlockLocked_def by (rule neutral_with_key) simp_all
  done

subsection \<open>Adding a key state\<close>

definition add_state :: "keySnapshot \<Rightarrow> pool \<Rightarrow> pool" where
  "add_state key p =
     p\<lparr>heap := (heap p)(nextRef p := newKeyState key), keys := (keys p)(ksID key \<mapsto> nextRef p),
       nextRef := Suc (nextRef p)\<rparr>"

lemma add_state_lease_inv: "lease_inv p \<Longrightarrow> lease_inv (add_state key p)"
  by (auto simp: lease_inv_def add_state_def less_Suc_eq held_fresh)

lemma add_state_refs_inv: "refs_inv p \<Longrightarrow> refs_inv (add_state key p)"
  by (auto simp: refs_inv_def add_state_def less_Suc_eq)

lemma add_state_rate_inv: "rate_inv p \<Longrightarrow> rate_inv (add_state key p)"
  by (simp add: rate_inv_def add_state_def)

lemma order_cursor_upd:
  "lease_inv (p\<lparr>order := ids, cursor := c\<rparr>) = lease_inv p" "refs_inv (p\<lparr>order := ids, cursor := c\<rparr>) = refs_inv p"
  "rate_inv (p\<lparr>order := ids, cursor := c\<rparr>) = rate_inv p"
  "lease_inv (p\<lparr>order := ids\<rparr>) = lease_inv p" "refs_inv (p\<lparr>order := ids\<rparr>) = refs_inv p"
  "rate_inv (p\<lparr>order := ids\<rparr>) = rate_inv p"
  by (simp_all add: lease_inv_def refs_inv_def rate_inv_def)

text \<open>The queue and the result channels are untouched.\<close>

definition queue_same :: "pool \<Rightarrow> pool \<Rightarrow> bool" where
  "queue_same p p' \<longleftrightarrow>
     waiters p' = waiters p \<and> pending p' = pending p \<and> results p' = results p \<and> leases p' = leases p
     \<and> nextWaiter p' = nextWaiter p \<and> closed p' = closed p \<and> latencyRNG p' = latencyRNG p"

lemma queue_same_inv:
  assumes "queue_same p p'" "pool_inv p" "order_inv p'" "refs_inv p'" "lease_inv p'" "rate_inv p'"
  shows "pool_inv p'"
proof -
  have "queue_inv p' = queue_inv p"
    by (rule queue_inv_cong) (use assms(1) in \<open>simp_all add: queue_same_def\<close>)
  moreover have "mailbox_inv p' = mailbox_inv p"
    by (rule mailbox_inv_cong) (use assms(1) in \<open>simp_all add: queue_same_def\<close>)
  moreover have "rng_inv p' = rng_inv p" using assms(1) by (simp add: queue_same_def rng_inv_def)
  ultimately show ?thesis using assms by (simp add: pool_inv_def shape_inv_def)
qed

subsection \<open>Loading a set of keys\<close>

lemma load_keys_Cons:
  "load_keys (key # rest) p = load_keys rest ((add_state key p)\<lparr>order := order p @ [ksID key]\<rparr>)"
  by (simp add: add_state_def)

lemma load_keys_inv:
  assumes "refs_inv p" "lease_inv p" "rate_inv p" "set (order p) = dom (keys p)"
    "distinct (order p @ map ksID ks)"
  shows "refs_inv (load_keys ks p)" "lease_inv (load_keys ks p)" "rate_inv (load_keys ks p)"
    "dom (keys (load_keys ks p)) = dom (keys p) \<union> ksID ` set ks"
    "order (load_keys ks p) = order p @ map ksID ks" "queue_same p (load_keys ks p)"
proof -
  have "refs_inv (load_keys ks p) \<and> lease_inv (load_keys ks p) \<and> rate_inv (load_keys ks p)
    \<and> dom (keys (load_keys ks p)) = dom (keys p) \<union> ksID ` set ks
    \<and> order (load_keys ks p) = order p @ map ksID ks \<and> queue_same p (load_keys ks p)"
    using assms
  proof (induction ks arbitrary: p)
    case Nil
    then show ?case by (simp add: queue_same_def)
  next
    case (Cons key ks)
    let ?q = "(add_state key p)\<lparr>order := order p @ [ksID key]\<rparr>"
    have "refs_inv ?q" "lease_inv ?q" "rate_inv ?q"
      using Cons.prems by (simp_all add: order_cursor_upd add_state_refs_inv add_state_lease_inv add_state_rate_inv)
    moreover have "set (order ?q) = dom (keys ?q)" using Cons.prems by (simp add: add_state_def)
    moreover have "distinct (order ?q @ map ksID ks)" using Cons.prems by simp
    ultimately have "refs_inv (load_keys ks ?q) \<and> lease_inv (load_keys ks ?q) \<and> rate_inv (load_keys ks ?q)
      \<and> dom (keys (load_keys ks ?q)) = dom (keys ?q) \<union> ksID ` set ks
      \<and> order (load_keys ks ?q) = order ?q @ map ksID ks \<and> queue_same ?q (load_keys ks ?q)"
      by (rule Cons.IH)
    then show ?case unfolding load_keys_Cons by (simp add: queue_same_def add_state_def)
  qed
  then show "refs_inv (load_keys ks p)" "lease_inv (load_keys ks p)" "rate_inv (load_keys ks p)"
    "dom (keys (load_keys ks p)) = dom (keys p) \<union> ksID ` set ks"
    "order (load_keys ks p) = order p @ map ksID ks" "queue_same p (load_keys ks p)" by blast+
qed

lemma neutral_refl: "neutral p p"
  by (simp add: neutral_def)

lemma neutral_trans: "neutral p q \<Longrightarrow> neutral q q' \<Longrightarrow> neutral p q'"
  by (simp add: neutral_def)

lemma load_blocks_neutral: "neutral p (load_blocks bs p)"
proof (induction bs arbitrary: p)
  case Nil
  then show ?case by (simp add: neutral_refl)
next
  case (Cons b bs)
  have "neutral p (with_key (blockKeyID b) (\<lambda>s. s\<lparr>blocks := insert (blockModelID b) (blocks s)\<rparr>) p)"
    by (rule neutral_with_key) simp_all
  then show ?case using Cons.IH neutral_trans by simp
qed

lemma loadSnapshot_inv:
  assumes inv: "pool_inv p" and d: "distinct (map ksID ks)"
  shows "pool_inv (loadSnapshotLocked ks bs p)"
proof -
  let ?p0 = "p\<lparr>keys := Map.empty, order := []\<rparr>"
  have "lease_inv ?p0" "rate_inv ?p0" "refs_inv ?p0" "set (order ?p0) = dom (keys ?p0)"
    "distinct (order ?p0 @ map ksID ks)"
    using inv d by (simp_all add: pool_inv_def lease_inv_def rate_inv_def refs_inv_def)
  note lk = load_keys_inv [OF this(3,1,2,4,5)]
  let ?p1 = "load_keys ks ?p0"
  let ?p2 = "?p1\<lparr>order := sort (order ?p1), cursor := 0\<rparr>"
  have "distinct (order ?p1)" using lk(5) d by simp
  then have o: "order_inv ?p2" using lk(4,5) by (auto simp: order_inv_def)
  have q: "queue_same p ?p2" using lk(6) by (simp add: queue_same_def)
  have "refs_inv ?p2" "lease_inv ?p2" "rate_inv ?p2" using lk(1-3) by (simp_all only: order_cursor_upd)
  from queue_same_inv [OF q inv o this] have "pool_inv ?p2" .
  then show ?thesis unfolding loadSnapshotLocked_def Let_def
    using neutral_pool_inv [OF load_blocks_neutral] by blast
qed

subsection \<open>Inserting a key\<close>

lemma insertSorted_props:
  assumes "sorted ids" "v \<notin> set ids" "distinct ids"
  shows "sorted (insertSorted ids v)" "distinct (insertSorted ids v)"
    "set (insertSorted ids v) = insert v (set ids)"
proof -
  define i where "i = sort_search (length ids) (\<lambda>i. ids ! i \<ge> v)"
  have eq: "insertSorted ids v = take i ids @ v # drop i ids" by (simp add: insertSorted_def i_def Let_def)
  have le: "i \<le> length ids" unfolding i_def by (rule sort_search_le)
  have mono: "ids ! a \<ge> v \<Longrightarrow> ids ! b \<ge> v" if "a \<le> b" "b < length ids" for a b
    using sorted_nth_mono [OF assms(1) that] by linarith
  have lo: "x < v" if x: "x \<in> set (take i ids)" for x
  proof -
    obtain k where "k < i" "k < length ids" "x = ids ! k" using x le unfolding in_set_conv_nth by auto
    then show ?thesis
      using sort_search_spec(1) [of "length ids" "\<lambda>i. ids ! i \<ge> v" k, OF mono] by (simp add: i_def not_le)
  qed
  have hi: "v \<le> x" if x: "x \<in> set (drop i ids)" for x
  proof -
    obtain n where n: "n < length (drop i ids)" "x = drop i ids ! n"
      using x unfolding in_set_conv_nth by blast
    then have k: "i \<le> i + n" "i + n < length ids" "x = ids ! (i + n)" by auto
    then show ?thesis
      using sort_search_spec(2) [of "length ids" "\<lambda>i. ids ! i \<ge> v" "i + n", OF mono] by (simp add: i_def)
  qed
  have ids: "ids = take i ids @ drop i ids" by simp
  have "sorted (take i ids @ drop i ids)" "distinct (take i ids @ drop i ids)" using assms by simp_all
  then show "sorted (insertSorted ids v)" "distinct (insertSorted ids v)"
    using lo hi assms(2) unfolding eq sorted_append distinct_append
    by (auto dest: in_set_takeD in_set_dropD intro: order.trans less_imp_le)
  show "set (insertSorted ids v) = insert v (set ids)"
    unfolding eq using set_append [of "take i ids" "drop i ids"] by simp
qed

text \<open>The round-robin position survives the insertion: the key next in turn stays next.\<close>

lemma upsert_new:
  assumes o: "order_inv p" and new: "keys p (ksID key) = None"
  obtains p' where "upsertKeyLocked key p = Some p'" "order_inv p'"
    "p' = (add_state key p)\<lparr>order := insertSorted (order p) (ksID key), cursor := cursor p'\<rparr>"
    "order p \<noteq> [] \<Longrightarrow> order p' ! cursor p' = order p ! cursor p"
proof -
  let ?ids = "insertSorted (order p) (ksID key)"
  let ?p1 = "(add_state key p)\<lparr>order := ?ids\<rparr>"
  have notin: "ksID key \<notin> set (order p)" using o new by (auto simp: order_inv_def)
  note ins = insertSorted_props [OF _ notin]
  have ids: "sorted ?ids" "distinct ?ids" "set ?ids = insert (ksID key) (dom (keys p))"
    using ins o by (simp_all add: order_inv_def)
  show thesis
  proof (cases "order p = []")
    case True
    then have "upsertKeyLocked key p = Some (?p1\<lparr>cursor := 0\<rparr>)"
      using new by (simp add: upsertKeyLocked_def nextKeyID_def add_state_def)
    moreover have "order_inv (?p1\<lparr>cursor := 0\<rparr>)"
      using ids by (auto simp: order_inv_def add_state_def)
    ultimately show thesis using that True by simp
  next
    case False
    then have c: "cursor p < length (order p)" using o by (simp add: order_inv_def)
    then have "order p ! cursor p \<in> set ?ids" using ids(3) o nth_mem [OF c] by (auto simp: order_inv_def)
    then obtain i where i: "index_of (order p ! cursor p) ?ids = Some i"
      using index_of_None by (metis option.exhaust)
    then have "upsertKeyLocked key p = Some (?p1\<lparr>cursor := i\<rparr>)"
      using new c False by (simp add: upsertKeyLocked_def nextKeyID_def add_state_def)
    moreover have "order_inv (?p1\<lparr>cursor := i\<rparr>)"
      using ids index_of_less [OF i] by (auto simp: order_inv_def add_state_def)
    ultimately show thesis using that index_of_less [OF i] by simp
  qed
qed

lemma upsert_inv:
  assumes inv: "pool_inv p"
  shows "\<exists>p'. upsertKeyLocked key p = Some p' \<and> pool_inv p'"
proof (cases "keys p (ksID key)")
  case (Some r)
  let ?p' = "set_state r ((heap p r)\<lparr>snapshot := cloneSnapshot key\<rparr>) p"
  have "ksID (snapshot (heap p r)) = ksID key"
    using inv Some by (auto simp: pool_inv_def shape_inv_def refs_inv_def)
  then have "neutral p ?p'" by (simp add: neutral_def)
  then show ?thesis using Some inv neutral_pool_inv by (simp add: upsertKeyLocked_def)
next
  case None
  have o: "order_inv p" using inv by (simp add: pool_inv_def shape_inv_def)
  show ?thesis
  proof (rule upsert_new [OF o None])
    fix p' assume p': "upsertKeyLocked key p = Some p'" "order_inv p'"
      and eq: "p' = (add_state key p)\<lparr>order := insertSorted (order p) (ksID key), cursor := cursor p'\<rparr>"
    have "queue_same p p'" by (subst eq) (simp add: queue_same_def add_state_def)
    moreover have "refs_inv p'" "lease_inv p'" "rate_inv p'"
      using inv by (subst eq, simp add: order_cursor_upd pool_inv_def shape_inv_def
          add_state_refs_inv add_state_lease_inv add_state_rate_inv)+
    ultimately have "pool_inv p'" using inv p'(2) by (intro queue_same_inv [of p p'])
    then show ?thesis using p'(1) by blast
  qed
qed

subsection \<open>Removing a key\<close>

lemma remove_at_props:
  assumes "index_of k ids = Some i" "distinct ids" "sorted ids"
  defines "ids' \<equiv> take i ids @ drop (Suc i) ids"
  shows "sorted ids'" "distinct ids'" "set ids' = set ids - {k}" "length ids' = length ids - 1"
proof -
  have i: "i < length ids" "ids ! i = k" using index_of_less [OF assms(1)] by simp_all
  then have ids: "ids = take i ids @ k # drop (Suc i) ids" using id_take_nth_drop by blast
  have "sorted (take i ids @ k # drop (Suc i) ids)" "distinct (take i ids @ k # drop (Suc i) ids)"
    using assms(2,3) ids by simp_all
  then show "sorted ids'" "distinct ids'" by (auto simp: ids'_def sorted_append)
  have "set ids = set (take i ids @ k # drop (Suc i) ids)" using ids by simp
  then show "set ids' = set ids - {k}"
    using \<open>distinct (take i ids @ k # drop (Suc i) ids)\<close> by (auto simp: ids'_def)
  show "length ids' = length ids - 1" using i by (simp add: ids'_def)
qed

lemma clamp_cursor:
  "length xs = n \<Longrightarrow> (let c = c0 in if c < n then c else 0) < length xs
     \<or> xs = [] \<and> (let c = c0 in if c < n then c else (0::nat)) = 0"
  by (cases xs) (auto simp: Let_def)

lemma remove_known:
  assumes o: "order_inv p" and k: "keys p k \<noteq> None"
  obtains i where "index_of k (order p) = Some i"
    "removeKeyLocked k p =
       p\<lparr>keys := (keys p)(k := None), order := take i (order p) @ drop (Suc i) (order p),
         cursor := (let c = if i < cursor p then cursor p - 1 else cursor p
                    in if c < length (order p) - 1 then c else 0)\<rparr>"
proof -
  have "k \<in> set (order p)" using o k by (auto simp: order_inv_def)
  then obtain i where i: "index_of k (order p) = Some i" using index_of_None by (metis option.exhaust)
  have len: "length (take i (order p) @ drop (Suc i) (order p)) = length (order p) - 1"
    using index_of_less [OF i] by simp
  obtain r where r: "keys p k = Some r" using k by blast
  define ids where "ids = take i (order p) @ drop (Suc i) (order p)"
  show thesis
  proof (rule that [OF i])
    show "removeKeyLocked k p =
       p\<lparr>keys := (keys p)(k := None), order := take i (order p) @ drop (Suc i) (order p),
         cursor := (let c = if i < cursor p then cursor p - 1 else cursor p
                    in if c < length (order p) - 1 then c else 0)\<rparr>"
      unfolding len [symmetric] ids_def [symmetric]
      by (simp add: removeKeyLocked_def r i Let_def ids_def [symmetric] not_less)
  qed
qed

lemma remove_inv:
  assumes inv: "pool_inv p"
  shows "pool_inv (removeKeyLocked k p)"
proof (cases "keys p k")
  case None
  then show ?thesis using inv by (simp add: removeKeyLocked_def)
next
  case (Some r)
  have o: "order_inv p" using inv by (simp add: pool_inv_def shape_inv_def)
  have kn: "keys p k \<noteq> None" using Some by simp
  show ?thesis
  proof (rule remove_known [OF o kn])
    fix i assume i: "index_of k (order p) = Some i" and eq: "removeKeyLocked k p =
       p\<lparr>keys := (keys p)(k := None), order := take i (order p) @ drop (Suc i) (order p),
         cursor := (let c = if i < cursor p then cursor p - 1 else cursor p
                    in if c < length (order p) - 1 then c else 0)\<rparr>"
    note rp = remove_at_props [OF i]
    have ids: "sorted (take i (order p) @ drop (Suc i) (order p))"
      "distinct (take i (order p) @ drop (Suc i) (order p))"
      "set (take i (order p) @ drop (Suc i) (order p)) = dom (keys p) - {k}"
      "length (take i (order p) @ drop (Suc i) (order p)) = length (order p) - 1"
      using rp o by (simp_all add: order_inv_def)
    let ?c = "let c = if i < cursor p then cursor p - 1 else cursor p
                    in if c < length (order p) - 1 then c else 0"
    have c: "?c < length (take i (order p) @ drop (Suc i) (order p))
        \<or> take i (order p) @ drop (Suc i) (order p) = [] \<and> ?c = 0"
      by (rule clamp_cursor [OF ids(4)])
    have "order_inv (removeKeyLocked k p)"
      unfolding order_inv_def eq using ids c by auto
    moreover have "queue_same p (removeKeyLocked k p)" unfolding eq by (simp add: queue_same_def)
    moreover have "refs_inv (removeKeyLocked k p)" "lease_inv (removeKeyLocked k p)"
      "rate_inv (removeKeyLocked k p)"
      unfolding eq using inv
      by (auto simp: refs_inv_def lease_inv_def rate_inv_def pool_inv_def shape_inv_def)
    ultimately show ?thesis using inv queue_same_inv by blast
  qed
qed

subsection \<open>Releasing a lease\<close>

lemma free_slot_simps [simp]:
  "snapshot (free_slot stream s) = snapshot s" "blocks (free_slot stream s) = blocks s"
  "requestTimes (free_slot stream s) = requestTimes s"
  "busy (free_slot stream s) = (busy s \<and> stream)"
  "streamingBusy (free_slot stream s) = (if stream then streamingBusy s - 1 else streamingBusy s)"
  by (auto simp: free_slot_def)

lemma releaseLocked_fields:
  "keys (releaseLocked l p) = keys p" "order (releaseLocked l p) = order p"
  "cursor (releaseLocked l p) = cursor p" "nextRef (releaseLocked l p) = nextRef p"
  "results (releaseLocked l p) = results p" "waiters (releaseLocked l p) = waiters p"
  "pending (releaseLocked l p) = pending p" "nextWaiter (releaseLocked l p) = nextWaiter p"
  "closed (releaseLocked l p) = closed p" "latencyRNG (releaseLocked l p) = latencyRNG p"
  "leases (releaseLocked l p) = (leases p)[l := (leases p ! l)\<lparr>released := True\<rparr>]"
  "heap (releaseLocked l p) =
     (heap p)(leaseRef (leases p ! l) :=
        free_slot (leaseStream (leases p ! l)) (heap p (leaseRef (leases p ! l))))"
  by (simp_all add: releaseLocked_def Let_def)

lemma release_lease_inv:
  assumes inv: "lease_inv p" and l: "l < length (leases p)" "\<not> released (leases p ! l)"
  shows "lease_inv (releaseLocked l p)"
proof -
  let ?r = "leaseRef (leases p ! l)" and ?s = "leaseStream (leases p ! l)"
  let ?ls = "leases (releaseLocked l p)"
  have rel: "held (leases p) r b = held ?ls r b + (if ?r = r \<and> ?s = b then 1 else 0)" for r b
    using held_release [OF l] by (simp add: releaseLocked_fields)
  have "streamingBusy (heap (releaseLocked l p) r) = int (held ?ls r True)
      \<and> held ?ls r False = (if busy (heap (releaseLocked l p) r) then 1 else 0)" if "r < nextRef p" for r
  proof -
    have "streamingBusy (heap p r) = int (held (leases p) r True)"
      "held (leases p) r False = (if busy (heap p r) then 1 else 0)"
      using inv that by (simp_all add: lease_inv_def)
    then show ?thesis using rel [of r True] rel [of r False]
      by (cases "?r = r"; cases ?s) (auto simp: releaseLocked_fields split: if_splits)
  qed
  moreover have "\<forall>x\<in>set ?ls. leaseRef x < nextRef p"
  proof
    fix x assume "x \<in> set ?ls"
    then have "x \<in> set (leases p) \<or> x = (leases p ! l)\<lparr>released := True\<rparr>"
      using set_update_subset_insert by (fastforce simp: releaseLocked_fields)
    then show "leaseRef x < nextRef p" using inv nth_mem [OF l(1)] by (auto simp: lease_inv_def)
  qed
  ultimately show ?thesis by (simp add: lease_inv_def releaseLocked_fields)
qed

lemma release_inv:
  assumes inv: "pool_inv p" and l: "l < length (leases p)" "\<not> released (leases p ! l)"
    and own: "\<And>i. results p i \<noteq> Some (Inr l)"
  shows "pool_inv (releaseLocked l p)"
proof -
  have "shape_inv (releaseLocked l p) = shape_inv p"
    by (rule shape_inv_cong) (simp_all add: releaseLocked_fields)
  moreover have "lease_inv (releaseLocked l p)" using inv l by (simp add: pool_inv_def release_lease_inv)
  moreover have "rate_inv (releaseLocked l p) = rate_inv p" by (auto simp add: rate_inv_def releaseLocked_fields)
  moreover have "queue_inv (releaseLocked l p) = queue_inv p"
    by (rule queue_inv_cong) (simp_all add: releaseLocked_fields)
  moreover have "mailbox_inv (releaseLocked l p)"
    using inv own l(1) unfolding pool_inv_def mailbox_inv_def releaseLocked_fields
    by (auto simp: nth_list_update split: if_splits)
  ultimately show ?thesis using inv by (simp add: pool_inv_def)
qed

subsection \<open>Entering and leaving the queue\<close>

lemma pool_inv_queue_upd:
  assumes "pool_inv p" "queue_inv p'" "mailbox_inv p'"
    and "heap p' = heap p" "keys p' = keys p" "order p' = order p" "cursor p' = cursor p"
    "nextRef p' = nextRef p" "latencyRNG p' = latencyRNG p" "leases p' = leases p"
  shows "pool_inv p'"
proof -
  have "shape_inv p' = shape_inv p" by (rule shape_inv_cong) (simp_all add: assms)
  moreover have "lease_inv p' = lease_inv p" by (rule lease_inv_cong) (simp_all add: assms)
  moreover have "rate_inv p' = rate_inv p" by (rule rate_inv_cong) (simp add: assms)
  ultimately show ?thesis using assms(1-3) by (simp add: pool_inv_def)
qed

lemma push_inv:
  assumes inv: "pool_inv p" and w: "waiterID w = nextWaiter p" and "\<not> closed p"
  shows "pool_inv (queue_push w (p\<lparr>nextWaiter := Suc (nextWaiter p), pending := insert (nextWaiter p) (pending p)\<rparr>))"
proof (rule pool_inv_queue_upd [OF inv])
  have q: "queue_inv p" using inv by (simp add: pool_inv_def)
  have new: "nextWaiter p \<notin> pending p" using q by (auto simp: queue_inv_def)
  then have "results p (nextWaiter p) = None" "nextWaiter p \<notin> waiterID ` set (waiters p)"
    using q by (auto simp: queue_inv_def)
  then show "queue_inv (queue_push w (p\<lparr>nextWaiter := Suc (nextWaiter p), pending := insert (nextWaiter p) (pending p)\<rparr>))"
    using q w assms(3) by (auto simp: queue_inv_def queued_def less_Suc_eq)
  show "mailbox_inv (queue_push w (p\<lparr>nextWaiter := Suc (nextWaiter p), pending := insert (nextWaiter p) (pending p)\<rparr>))"
    using inv by (simp add: pool_inv_def mailbox_inv_def)
qed simp_all

lemma receive_inv:
  assumes inv: "pool_inv p" and r: "receive i p = Some (res, p')"
  shows "pool_inv p'" and "results p i = Some res" and "leases p' = leases p"
    and "res = Inr l \<Longrightarrow> l < length (leases p) \<and> \<not> released (leases p ! l) \<and> (\<forall>j. results p' j \<noteq> Some (Inr l))"
proof -
  show res: "results p i = Some res" using r by (auto simp: receive_def split: option.splits)
  then have p': "p' = p\<lparr>results := (results p)(i := None), pending := pending p - {i}\<rparr>"
    using r by (simp add: receive_def)
  then show "leases p' = leases p" by simp
  have q: "queue_inv p" and m: "mailbox_inv p" using inv by (simp_all add: pool_inv_def)
  have "\<not> queued i p" using q res by (auto simp: queue_inv_def queued_def)
  then have "queue_inv p'" using q unfolding p' by (auto simp: queue_inv_def queued_def)
  moreover have "mailbox_inv p'" using m unfolding p' by (auto simp: mailbox_inv_def)
  ultimately show "pool_inv p'" by (rule pool_inv_queue_upd [OF inv]) (simp_all add: p')
  show "res = Inr l \<Longrightarrow> l < length (leases p) \<and> \<not> released (leases p ! l) \<and> (\<forall>j. results p' j \<noteq> Some (Inr l))"
    using m res unfolding p' by (auto simp: mailbox_inv_def)
qed

lemma leave_inv:
  assumes inv: "pool_inv p" and "queued i p"
  shows "pool_inv ((queue_remove i p)\<lparr>pending := pending p - {i}\<rparr>)"
proof (rule pool_inv_queue_upd [OF inv])
  have q: "queue_inv p" and m: "mailbox_inv p" using inv by (simp_all add: pool_inv_def)
  have "results p i = None" using assms q by (auto simp: queue_inv_def queued_def)
  then have "i \<notin> dom (results p)" by auto
  then show "queue_inv ((queue_remove i p)\<lparr>pending := pending p - {i}\<rparr>)"
    using q by (auto simp: queue_inv_def queued_def distinct_map_filter')
  show "mailbox_inv ((queue_remove i p)\<lparr>pending := pending p - {i}\<rparr>)"
    using m by (simp add: mailbox_inv_def)
qed simp_all

end
