(* ===== verification/Pool_Machine.thy ===== *)
theory Pool_Machine
  imports Pool_Operations
begin

text \<open>
  The key pool as a state machine: one step per public operation, at any time, with any outcome of
  the contexts. Every reachable pool satisfies the invariant, and no operation can panic.
\<close>

subsection \<open>Operations keep the invariant\<close>

text \<open>A lease the caller of an operation now owns.\<close>

definition owned :: "nat \<Rightarrow> pool \<Rightarrow> bool" where
  "owned l p \<longleftrightarrow>
     l < length (leases p) \<and> \<not> released (leases p ! l) \<and> (\<forall>i. results p i \<noteq> Some (Inr l))"

lemma attempt_pool_inv:
  assumes inv: "pool_inv p" and ok: "attempt_ok now m a stream maxS rt p res p'"
  shows "pool_inv p'" and "res = Leased l \<Longrightarrow> owned l p'"
    and "waiters p' = waiters p" "nextWaiter p' = nextWaiter p" "closed p' = closed p"
proof -
  have r: "r < nextRef p" if "r \<in> ran (keys p)" for r
    using that inv by (auto simp: pool_inv_def shape_inv_def refs_inv_def ran_def)
  consider (leased) r where "r \<in> ran (keys p)" "grantable now m a stream maxS rt (heap p r)"
      "granted now stream r p p'" "res = Leased (length (leases p))"
    | (unavailable) u where "res = Unavailable u" "prune_rel now p p'"
    using ok by (cases res) (auto simp: attempt_ok_def)
  then have "pool_inv p' \<and> (res = Leased l \<longrightarrow> owned l p') \<and> waiters p' = waiters p
    \<and> nextWaiter p' = nextWaiter p \<and> closed p' = closed p"
  proof cases
    case leased
    have "results p i \<noteq> Some (Inr (length (leases p)))" for i
      using inv by (auto simp: pool_inv_def mailbox_inv_def)
    then have "owned (length (leases p)) p'" using granted_fields [OF leased(3)] by (simp add: owned_def)
    moreover have "pool_inv p'" using inv r leased(1) granted_shape [OF leased(3)]
        granted_lease_inv [OF leased(3,2)] granted_rate_inv [OF leased(3,2)]
        granted_queue_inv [OF leased(3)] granted_mailbox_inv [OF leased(3)]
      by (simp add: pool_inv_def)
    ultimately show ?thesis using leased granted_fields [OF leased(3)] by auto
  next
    case unavailable
    then show ?thesis using prune_rel_pool_inv [OF unavailable(2) inv] by (simp add: frame_simps)
  qed
  then show "pool_inv p'" "res = Leased l \<Longrightarrow> owned l p'"
    "waiters p' = waiters p" "nextWaiter p' = nextWaiter p" "closed p' = closed p" by blast+
qed

lemma dispatch_step_fixed:
  "dispatch_step ce now p p' \<Longrightarrow>
     closed p' = closed p \<and> nextWaiter p' = nextWaiter p \<and> pending p' = pending p"
  by (erule dispatch_stepE) (simp_all add: frame_simps granted_fields)

lemma dispatchWaiters_ok:
  assumes "pool_inv p"
  obtains p' where "dispatchWaitersLocked ce now p = Some p'" "pool_inv p'" "dispatch_steps ce now p p'"
    "closed p' = closed p" "nextWaiter p' = nextWaiter p" "pending p' = pending p"
proof -
  obtain p' where p': "dispatchWaitersLocked ce now p = Some p'" "dispatch_steps ce now p p'"
    using dispatchWaiters_steps assms by (metis pool_inv_def)
  have "pool_inv p' \<and> closed p' = closed p \<and> nextWaiter p' = nextWaiter p \<and> pending p' = pending p"
    using p'(2) assms
    by (induction rule: rtranclp_induct) (use dispatch_step_pool_inv dispatch_step_fixed in fastforce)+
  then show thesis using that p' by blast
qed

lemma unattempted_scan_total:
  "\<forall>k\<in>set ids. keys p k \<noteq> None \<Longrightarrow> \<exists>b. hasUnattemptedEligible_scan now m a ids p = Some b"
  by (induction ids) auto

lemma busyAttempted_scan_total:
  "\<forall>k\<in>set ids. keys p k \<noteq> None \<Longrightarrow> \<exists>b. hasBusyAttemptedEligible_scan now m a stream maxS ids p = Some b"
  by (induction ids) auto

lemma eligible_total:
  assumes "shape_inv p"
  shows "\<exists>b. hasUnattemptedEligibleLocked now m a p = Some b"
    and "\<exists>b. hasBusyAttemptedEligibleLocked now m a stream maxS p = Some b"
proof -
  have "\<forall>k\<in>set (order p). keys p k \<noteq> None" using assms by (auto simp: shape_inv_def order_inv_def)
  then show "\<exists>b. hasUnattemptedEligibleLocked now m a p = Some b"
    and "\<exists>b. hasBusyAttemptedEligibleLocked now m a stream maxS p = Some b"
    unfolding hasUnattemptedEligibleLocked_def hasBusyAttemptedEligibleLocked_def
    using unattempted_scan_total busyAttempted_scan_total by blast+
qed

text \<open>What \<open>acquire\<close> gives its caller: an error, an owned lease, or a place in the queue (or in its
  result channel).\<close>

definition outcome_ok :: "acquireOutcome \<Rightarrow> pool \<Rightarrow> bool" where
  "outcome_ok out p =
     (case out of Returned (Inl e) \<Rightarrow> True | Returned (Inr l) \<Rightarrow> owned l p | Waiting i \<Rightarrow> i \<in> pending p)"

lemma enqueue_ok:
  assumes "pool_inv p" "\<not> closed p"
  shows "\<exists>out p'. enqueue ce now c m a stream st p = Some (out, p') \<and> pool_inv p' \<and> outcome_ok out p'"
proof (cases "int (length (waiters p)) \<ge> capacity st")
  case True
  then show ?thesis using assms by (simp add: enqueue_def outcome_ok_def)
next
  case False
  let ?w = "\<lparr>waiterID = nextWaiter p, waiterCtx = c, waiterModelID = m,
                 waiterAttempted = cloneAttempted a, waiterStream = stream,
                 waiterMaxStreaming = maxStreamingPerKey st,
                 waiterLatencyEnabled = latencyEnabled st\<rparr>"
  let ?p = "queue_push ?w (p\<lparr>nextWaiter := Suc (nextWaiter p), pending := insert (nextWaiter p) (pending p)\<rparr>)"
  have "pool_inv ?p" using assms by (intro push_inv) simp_all
  then obtain p' where "dispatchWaitersLocked ce now ?p = Some p'" "pool_inv p'" "pending p' = pending ?p"
    by (rule dispatchWaiters_ok)
  then show ?thesis using False by (simp add: enqueue_def outcome_ok_def)
qed

lemma acquire_ok:
  assumes inv: "pool_inv p"
  shows "\<exists>out p'. acquire ce now c m a stream st p = Some (out, p') \<and> pool_inv p' \<and> outcome_ok out p'"
proof (cases "ce (ctxID c) \<noteq> nil_error \<or> closed p")
  case True
  then show ?thesis using inv by (auto simp: acquire_def outcome_ok_def)
next
  case False
  obtain p1 where p1: "dispatchWaitersLocked ce now p = Some p1" "pool_inv p1" "closed p1 = closed p"
    using inv by (rule dispatchWaiters_ok)
  show ?thesis
  proof (cases "waiters p1 = []")
    case w: True
    obtain res p2 where t: "tryAcquireLocked now m a stream (maxStreamingPerKey st) (latencyEnabled st) False p1
        = Some (res, p2)" and ok: "attempt_ok now m a stream (maxStreamingPerKey st) False p1 res p2"
      using tryAcquire_outcome p1(2) unfolding pool_inv_def by blast
    note at = attempt_pool_inv [OF p1(2) ok]
    have sh: "shape_inv p2" using at(1) by (simp add: pool_inv_def)
    obtain b1 b2 where b: "hasUnattemptedEligibleLocked now m a p2 = Some b1"
      "hasBusyAttemptedEligibleLocked now m a stream (maxStreamingPerKey st) p2 = Some b2"
      using eligible_total [OF sh] by blast
    have enq: "\<exists>out p'. enqueue ce now c m a stream st p2 = Some (out, p') \<and> pool_inv p' \<and> outcome_ok out p'"
      using at(1,5) p1(3) False by (intro enqueue_ok) simp_all
    show ?thesis
    proof (cases res)
      case (Leased l)
      then show ?thesis using False p1(1) w t at(1,2) by (simp add: acquire_def outcome_ok_def)
    next
      case (Unavailable u)
      then show ?thesis using False p1(1) w t at(1) b enq
        by (auto simp: acquire_def outcome_ok_def)
    qed
  next
    case w: False
    have "\<exists>out p'. enqueue ce now c m a stream st p1 = Some (out, p') \<and> pool_inv p' \<and> outcome_ok out p'"
      using p1(2,3) False by (intro enqueue_ok) simp_all
    then show ?thesis using False p1(1) w by (simp add: acquire_def)
  qed
qed

lemma Release_ok:
  assumes inv: "pool_inv p" and "released (leases p ! l) \<or> owned l p"
  shows "\<exists>p'. Release ce now l p = Some p' \<and> pool_inv p'"
proof (cases "released (leases p ! l)")
  case True
  then show ?thesis using inv by (simp add: Release_def)
next
  case False
  then have "pool_inv (releaseLocked l p)" using assms by (intro release_inv) (auto simp: owned_def)
  then show ?thesis using False by (auto simp: Release_def elim: dispatchWaiters_ok)
qed

lemma abandonWaiter_ok:
  assumes inv: "pool_inv p" and i: "i \<in> pending p"
  shows "\<exists>p'. abandonWaiter ce now i p = Some p' \<and> pool_inv p'"
proof (cases "queued i p")
  case True
  then show ?thesis using leave_inv [OF inv True] by (auto simp: abandonWaiter_def elim: dispatchWaiters_ok)
next
  case False
  then have "results p i \<noteq> None" using inv i by (auto simp: pool_inv_def queue_inv_def)
  then obtain res p1 where r: "receive i p = Some (res, p1)" by (auto simp: receive_def)
  note rc = receive_inv [OF inv r]
  show ?thesis
  proof (cases res)
    case (Inl e)
    then show ?thesis using False r rc(1) by (simp add: abandonWaiter_def)
  next
    case (Inr l)
    then have "owned l p1" using rc(3,4) by (simp add: owned_def)
    then show ?thesis using False r Inr Release_ok [OF rc(1)] by (simp add: abandonWaiter_def)
  qed
qed

lemma fail_waiters_inv:
  "pool_inv p \<Longrightarrow> set ws \<subseteq> set (waiters p) \<Longrightarrow> distinct (map waiterID ws) \<Longrightarrow> pool_inv (fail_waiters ws p)"
proof (induction ws arbitrary: p)
  case Nil
  then show ?case by simp
next
  case (Cons w ws)
  let ?p = "deliver (waiterID w) (Inl shuttingDownError) (queue_remove (waiterID w) p)"
  have "pool_inv ?p" using Cons.prems by (simp add: pool_inv_def deliver_queue_inv deliver_error_mailbox)
  moreover have "set ws \<subseteq> set (waiters ?p)" "distinct (map waiterID ws)"
    using Cons.prems by (auto simp: image_iff)
  ultimately show ?case using Cons.IH by simp
qed

lemma fail_waiters_fields:
  "waiters (fail_waiters ws p) = filter (\<lambda>w. waiterID w \<notin> waiterID ` set ws) (waiters p)"
  "closed (fail_waiters ws p) = closed p" "pending (fail_waiters ws p) = pending p"
  "results (fail_waiters ws p) i =
     (if i \<in> waiterID ` set ws then Some (Inl shuttingDownError) else results p i)"
  "leases (fail_waiters ws p) = leases p"
  by (induction ws arbitrary: p) (auto simp: intro: filter_cong)

lemma fail_waiters_closed: "fail_waiters ws (p\<lparr>closed := b\<rparr>) = (fail_waiters ws p)\<lparr>closed := b\<rparr>"
proof (induction ws arbitrary: p)
  case (Cons w ws)
  have "deliver i res (queue_remove j (p\<lparr>closed := b\<rparr>)) = (deliver i res (queue_remove j p))\<lparr>closed := b\<rparr>" for i j res
    by (cases p) (simp add: deliver_def queue_remove_def)
  then show ?case using Cons.IH by simp
qed simp

lemma Shutdown_ok:
  assumes inv: "pool_inv p"
  shows "pool_inv (Shutdown p)" "waiters (Shutdown p) = []" "closed (Shutdown p)"
proof -
  have q: "distinct (map waiterID (waiters p))" using inv by (simp add: pool_inv_def queue_inv_def)
  let ?p = "fail_waiters (waiters p) p"
  have i: "pool_inv ?p" using inv q by (intro fail_waiters_inv) simp_all
  have w: "waiters ?p = []" by (simp add: fail_waiters_fields filter_empty_conv)
  have "queue_inv (?p\<lparr>closed := True\<rparr>)" using i w by (simp add: pool_inv_def queue_inv_def queued_def)
  moreover have "mailbox_inv (?p\<lparr>closed := True\<rparr>)" using i by (simp add: pool_inv_def mailbox_inv_def)
  ultimately have "pool_inv (?p\<lparr>closed := True\<rparr>)" by (rule pool_inv_queue_upd [OF i]) simp_all
  moreover have "closed p \<Longrightarrow> waiters p = []" using inv by (simp add: pool_inv_def queue_inv_def)
  ultimately show "pool_inv (Shutdown p)" "waiters (Shutdown p) = []" "closed (Shutdown p)"
    using inv w by (auto simp: Shutdown_def fail_waiters_closed)
qed

subsection \<open>The machine\<close>

text \<open>One constructor per operation. \<open>configure\<close> is a new configuration snapshot published by the
  settings provider. A caller releases only leases it holds (a second release does nothing);
  \<open>LoadSnapshot\<close> is given the rows of a table whose primary key is the key id.\<close>

inductive pool_step :: "pool \<Rightarrow> pool \<Rightarrow> bool" where
  acquire_step: "Acquire ce now c m a stream p = Some (out, p') \<Longrightarrow> pool_step p p'"
| acquire_snapshot_step: "AcquireWithSnapshot ce now c m a snap stream p = Some (out, p') \<Longrightarrow> pool_step p p'"
| release_step: "released (leases p ! l) \<or> owned l p \<Longrightarrow> Release ce now l p = Some p' \<Longrightarrow> pool_step p p'"
| wait_step: "i \<in> pending p \<Longrightarrow> waitForResult ce now ev c i w p = Some (res, p') \<Longrightarrow> pool_step p p'"
| shutdown_step: "pool_step p (Shutdown p)"
| configure_step: "pool_step p (p\<lparr>settings := s\<rparr>)"
| model_step: "SetModelEnabled ce now m e p = Some p' \<Longrightarrow> pool_step p p'"
| clear_step: "ClearModelBlocks ce now m p = Some p' \<Longrightarrow> pool_step p p'"
| load_step: "distinct (map ksID ks) \<Longrightarrow> LoadSnapshot ce now ks bs p = Some p' \<Longrightarrow> pool_step p p'"
| upsert_step: "UpsertKey ce now key p = Some p' \<Longrightarrow> pool_step p p'"
| enable_step: "SetKeyEnabled ce now k e p = Some p' \<Longrightarrow> pool_step p p'"
| remove_step: "RemoveKey ce now k p = Some p' \<Longrightarrow> pool_step p p'"
| success_step: "ApplySuccess ce now k p = Some p' \<Longrightarrow> pool_step p p'"
| latency_step: "pool_step p (RecordLatency k d p)"
| failure_step: "ApplyFailure ce now k m f ks p = Some p' \<Longrightarrow> pool_step p p'"
| block_step: "SetModelBlock ce now k m b p = Some p' \<Longrightarrow> pool_step p p'"

inductive reachable :: "pool \<Rightarrow> bool" where
  initial: "(\<And>n. 0 \<le> rng n) \<Longrightarrow> reachable (New_pool provider rng)"
| step: "reachable p \<Longrightarrow> pool_step p p' \<Longrightarrow> reachable p'"

lemma New_pool_inv: "(\<And>n. 0 \<le> rng n) \<Longrightarrow> pool_inv (New_pool provider rng)"
  by (simp add: pool_inv_def shape_inv_def order_inv_def refs_inv_def rng_inv_def lease_inv_def
      rate_inv_def queue_inv_def mailbox_inv_def New_pool_def)

lemma dispatched_inv:
  assumes "pool_inv p" "dispatchWaitersLocked ce now p = Some p'"
  shows "pool_inv p'"
  using dispatchWaiters_inv [OF assms(1), of ce now] assms(2) by auto

lemma neutral_dispatched:
  assumes "pool_inv p" "neutral p q" "dispatchWaitersLocked ce now q = Some p'"
  shows "pool_inv p'"
  using dispatched_inv [OF _ assms(3)] neutral_pool_inv [OF assms(2)] assms(1) by simp

lemma receive_pending: "receive i p = Some (res, p') \<Longrightarrow> pool_inv p \<Longrightarrow> pool_inv p'"
  using receive_inv by blast

lemma waitForResult_inv:
  assumes "pool_inv p" "i \<in> pending p" "waitForResult ce now ev c i w p = Some (res, p')"
  shows "pool_inv p'"
proof -
  obtain q where "abandonWaiter ce now i p = Some q" "pool_inv q" using abandonWaiter_ok [OF assms(1,2)] by blast
  then show ?thesis using assms by (cases ev) (auto simp: waitForResult_def receive_pending)
qed

lemmas dispatching_ops = SetModelEnabled_def ClearModelBlocks_def SetKeyEnabled_def ApplySuccess_def
  ApplyFailure_def SetModelBlock_def LoadSnapshot_def RemoveKey_def UpsertKey_def

lemma pool_step_inv: "pool_step p p' \<Longrightarrow> pool_inv p \<Longrightarrow> pool_inv p'"
proof (induction rule: pool_step.induct)
  case (acquire_step ce now c m a stream p out p')
  then show ?case using acquire_ok [of p ce now c m a stream "queueSettings p"] by (auto simp: Acquire_def)
next
  case (acquire_snapshot_step ce now c m a snap stream p out p')
  then show ?case using acquire_ok [of p ce now c m a stream "resolveQueueSettings snap"]
    by (auto simp: AcquireWithSnapshot_def)
next
  case (release_step p l ce now p')
  then show ?case using Release_ok [of p l ce now] by auto
next
  case (wait_step i p ce now ev c w res p')
  then show ?case by (blast intro: waitForResult_inv)
next
  case (configure_step p s)
  then show ?case by (subst neutral_pool_inv [of p]) (simp_all add: neutral_def)
next
  case (upsert_step ce now key p p')
  then show ?case using upsert_inv [of p key] dispatched_inv by (auto simp: UpsertKey_def)
next
  case (load_step ks ce now bs p p')
  then show ?case unfolding LoadSnapshot_def by (blast intro: loadSnapshot_inv dispatched_inv)
next
  case (remove_step ce now k p p')
  then show ?case unfolding RemoveKey_def by (blast intro: remove_inv dispatched_inv)
next
  case (latency_step p k d)
  then show ?case unfolding RecordLatency_def by (subst neutral_pool_inv [of p]) simp_all
qed (auto simp: dispatching_ops Shutdown_ok intro: neutral_dispatched)

lemma reachable_inv: "reachable p \<Longrightarrow> pool_inv p"
  by (induction rule: reachable.induct) (auto intro: New_pool_inv pool_step_inv)

subsection \<open>A pool with one key and one lease\<close>

definition sample_key :: keySnapshot where
  "sample_key = \<lparr>ksID = 7, Enabled = True, AuthInvalid = False, CooldownUntil = None,
                 CooldownLevel = 0, ConsecutiveFailures = 0\<rparr>"

definition sample_ctx :: ctx where "sample_ctx = \<lparr>ctxID = 0, noAttemptedRelaxation = False\<rparr>"

definition sample_loaded :: pool where
  "sample_loaded = the (UpsertKey (\<lambda>_. nil_error) 5 sample_key (New_pool None (\<lambda>_. 0)))"

definition sample_leased :: pool where
  "sample_leased = snd (the (Acquire (\<lambda>_. nil_error) 6 sample_ctx 1 {} False sample_loaded))"

definition sample_waiting :: pool where
  "sample_waiting = snd (the (Acquire (\<lambda>_. nil_error) 7 sample_ctx 1 {} False sample_leased))"

lemma upsert_reachable: "reachable p \<Longrightarrow> reachable (the (UpsertKey ce now key p))"
proof -
  assume r: "reachable p"
  obtain p1 where p1: "upsertKeyLocked key p = Some p1" "pool_inv p1"
    using upsert_inv [OF reachable_inv [OF r], of key] by blast
  obtain p' where "UpsertKey ce now key p = Some p'"
    using dispatchWaiters_inv [OF p1(2), of ce now] p1(1) by (auto simp: UpsertKey_def)
  then show ?thesis using reachable.step [OF r upsert_step] by simp
qed

lemma acquire_reachable: "reachable p \<Longrightarrow> reachable (snd (the (Acquire ce now c m a stream p)))"
proof -
  assume r: "reachable p"
  obtain out q where "Acquire ce now c m a stream p = Some (out, q)"
    using acquire_ok [OF reachable_inv [OF r]] unfolding Acquire_def by blast
  then show ?thesis using reachable.step [OF r acquire_step] by simp
qed

lemma sample_reachable: "reachable sample_loaded" "reachable sample_leased" "reachable sample_waiting"
proof -
  have "reachable (New_pool None (\<lambda>_. 0))" by (rule reachable.initial) simp
  then show "reachable sample_loaded" unfolding sample_loaded_def by (rule upsert_reachable)
  then show "reachable sample_leased" unfolding sample_leased_def by (rule acquire_reachable)
  then show "reachable sample_waiting" unfolding sample_waiting_def by (rule acquire_reachable)
qed

lemma sample_facts:
  "map leaseRef (leases sample_leased) = [0]" "map released (leases sample_leased) = [False]"
  "keys sample_leased 7 = Some 0"
  "map waiterID (waiters sample_waiting) = [0]" "closed sample_waiting = False"
  by code_simp+

subsection \<open>Properties\<close>

text \<open>C3: no operation of the pool can panic. In every reachable pool each public operation returns
  a pool, \<open>acquire\<close> gives its caller an error, a lease nobody else holds, or a place among the
  pending requests, and a pending request can always leave (its result is there or it is still
  queued), so abandoning one never blocks.\<close>

theorem pool_total:
  assumes "reachable p"
  shows "(\<exists>out p'. Acquire ce now c m a stream p = Some (out, p') \<and> outcome_ok out p')
    \<and> (\<exists>out p'. AcquireWithSnapshot ce now c m a snap stream p = Some (out, p') \<and> outcome_ok out p')
    \<and> (owned l p \<longrightarrow> (\<exists>p'. Release ce now l p = Some p'))
    \<and> (i \<in> pending p \<longrightarrow> (\<exists>p'. abandonWaiter ce now i p = Some p'))
    \<and> (\<exists>p'. UpsertKey ce now key p = Some p') \<and> (\<exists>p'. RemoveKey ce now k p = Some p')
    \<and> (\<exists>p'. SetModelEnabled ce now m e p = Some p') \<and> (\<exists>p'. ClearModelBlocks ce now m p = Some p')
    \<and> (\<exists>p'. SetKeyEnabled ce now k e p = Some p') \<and> (\<exists>p'. ApplySuccess ce now k p = Some p')
    \<and> (\<exists>p'. ApplyFailure ce now k m f ks p = Some p') \<and> (\<exists>p'. SetModelBlock ce now k m b p = Some p')
    \<and> (distinct (map ksID kss) \<longrightarrow> (\<exists>p'. LoadSnapshot ce now kss bs p = Some p'))"
proof -
  have inv: "pool_inv p" using assms by (rule reachable_inv)
  have d: "\<exists>p'. dispatchWaitersLocked ce now q = Some p'" if "pool_inv q" for q
    using dispatchWaiters_inv [OF that] by blast
  have n: "\<exists>p'. dispatchWaitersLocked ce now q = Some p'" if "neutral p q" for q
    using d neutral_pool_inv [OF that] inv by simp
  have "\<exists>p'. UpsertKey ce now key p = Some p'" using upsert_inv [OF inv, of key] d by (auto simp: UpsertKey_def)
  moreover have "\<exists>p'. RemoveKey ce now k p = Some p'" unfolding RemoveKey_def by (rule d) (rule remove_inv [OF inv])
  moreover have "distinct (map ksID kss) \<longrightarrow> (\<exists>p'. LoadSnapshot ce now kss bs p = Some p')"
    unfolding LoadSnapshot_def using loadSnapshot_inv [OF inv] d by blast
  moreover have "(\<exists>p'. SetModelEnabled ce now m e p = Some p') \<and> (\<exists>p'. ClearModelBlocks ce now m p = Some p')
    \<and> (\<exists>p'. SetKeyEnabled ce now k e p = Some p') \<and> (\<exists>p'. ApplySuccess ce now k p = Some p')
    \<and> (\<exists>p'. ApplyFailure ce now k m f ks p = Some p') \<and> (\<exists>p'. SetModelBlock ce now k m b p = Some p')"
    unfolding dispatching_ops by (intro conjI n neutral_ops)
  ultimately show ?thesis
    using acquire_ok [OF inv] Release_ok [OF inv] abandonWaiter_ok [OF inv]
    unfolding Acquire_def AcquireWithSnapshot_def by blast
qed

theorem pool_total_witness:
  "(\<exists>out p'. Acquire (\<lambda>_. nil_error) 7 sample_ctx 1 {} True sample_leased = Some (out, p') \<and> outcome_ok out p')
    \<and> (\<exists>p'. RemoveKey (\<lambda>_. nil_error) 7 7 sample_leased = Some p')"
  using pool_total [OF sample_reachable(2)] by blast

text \<open>C1: mutual exclusion. Two unreleased non-streaming leases never share a key state, a key is
  busy exactly while such a lease is out, and its streaming counter is the number of unreleased
  streaming leases on it (never negative).\<close>

theorem lease_accounting:
  assumes "reachable p"
  shows "(\<forall>i j. i < length (leases p) \<and> j < length (leases p) \<and> i \<noteq> j
      \<and> \<not> leaseStream (leases p ! i) \<and> \<not> leaseStream (leases p ! j)
      \<and> \<not> released (leases p ! i) \<and> \<not> released (leases p ! j) \<longrightarrow> leaseRef (leases p ! i) \<noteq> leaseRef (leases p ! j))
    \<and> (\<forall>k r. keys p k = Some r \<longrightarrow>
        (busy (heap p r) \<longleftrightarrow> (\<exists>le\<in>set (leases p). leaseRef le = r \<and> \<not> leaseStream le \<and> \<not> released le))
        \<and> streamingBusy (heap p r) =
            int (length (filter (\<lambda>le. leaseRef le = r \<and> leaseStream le \<and> \<not> released le) (leases p))))"
proof -
  have inv: "lease_inv p" "refs_inv p" using reachable_inv [OF assms] by (simp_all add: pool_inv_def shape_inv_def)
  have "leaseRef (leases p ! i) \<noteq> leaseRef (leases p ! j)"
    if "i < length (leases p)" "j < length (leases p)" "i \<noteq> j" "\<not> leaseStream (leases p ! i)"
      "\<not> leaseStream (leases p ! j)" "\<not> released (leases p ! i)" "\<not> released (leases p ! j)" for i j
  proof
    assume eq: "leaseRef (leases p ! i) = leaseRef (leases p ! j)"
    have "leaseRef (leases p ! i) < nextRef p" using inv(1) nth_mem [OF that(1)] by (simp add: lease_inv_def)
    then have "held (leases p) (leaseRef (leases p ! i)) False \<le> 1" using inv(1) by (simp add: lease_inv_def)
    moreover have "2 \<le> held (leases p) (leaseRef (leases p ! i)) False" using that eq by (intro held_two [of i _ j]) auto
    ultimately show False by simp
  qed
  moreover have "(busy (heap p r) \<longleftrightarrow> (\<exists>le\<in>set (leases p). leaseRef le = r \<and> \<not> leaseStream le \<and> \<not> released le))
        \<and> streamingBusy (heap p r) =
            int (length (filter (\<lambda>le. leaseRef le = r \<and> leaseStream le \<and> \<not> released le) (leases p)))"
    if "keys p k = Some r" for k r
  proof -
    have r: "r < nextRef p" using inv(2) that by (auto simp: refs_inv_def)
    then have "busy (heap p r) \<longleftrightarrow> held (leases p) r False \<noteq> 0" using inv(1) by (auto simp: lease_inv_def)
    moreover have "streamingBusy (heap p r) = int (held (leases p) r True)" using inv(1) r by (simp add: lease_inv_def)
    ultimately show ?thesis by (simp add: held_def filter_empty_conv)
  qed
  ultimately show ?thesis by blast
qed

theorem lease_accounting_witness:
  "keys sample_leased 7 = Some 0 \<and> map leaseRef (leases sample_leased) = [0]
    \<and> streamingBusy (heap sample_leased 0) =
        int (length (filter (\<lambda>le. leaseRef le = 0 \<and> leaseStream le \<and> \<not> released le) (leases sample_leased)))
    \<and> (busy (heap sample_leased 0) \<longleftrightarrow>
        (\<exists>le\<in>set (leases sample_leased). leaseRef le = 0 \<and> \<not> leaseStream le \<and> \<not> released le))"
  using lease_accounting [OF sample_reachable(2)] sample_facts(1,3) by blast

text \<open>The ownership of results. A queued request has an empty result channel, a pending request
  that is not queued has its result, no lease sits in two channels or in a channel after its
  release, and a closed pool queues nobody.\<close>

theorem queue_ownership:
  assumes "reachable p"
  shows "(\<forall>w\<in>set (waiters p). waiterID w \<in> pending p \<and> results p (waiterID w) = None)
    \<and> (\<forall>i\<in>pending p. queued i p \<longleftrightarrow> results p i = None)
    \<and> (\<forall>i j l. results p i = Some (Inr l) \<and> results p j = Some (Inr l) \<longrightarrow> i = j)
    \<and> (\<forall>i l. results p i = Some (Inr l) \<longrightarrow> l < length (leases p) \<and> \<not> released (leases p ! l))
    \<and> (closed p \<longrightarrow> waiters p = [])"
proof -
  have q: "queue_inv p" and m: "mailbox_inv p" using reachable_inv [OF assms] by (simp_all add: pool_inv_def)
  have "queued i p \<longleftrightarrow> results p i = None" if "i \<in> pending p" for i
    using q that by (auto simp: queue_inv_def queued_def)
  then show ?thesis using q m unfolding queue_inv_def mailbox_inv_def by blast
qed

theorem queue_ownership_witness:
  "map waiterID (waiters sample_waiting) = [0] \<and> results sample_waiting 0 = None \<and> 0 \<in> pending sample_waiting"
proof -
  obtain w where "w \<in> set (waiters sample_waiting)" "waiterID w = 0"
    using sample_facts(4) by (cases "waiters sample_waiting") auto
  then show ?thesis using queue_ownership [OF sample_reachable(3)] sample_facts(4) by auto
qed

text \<open>Shutting down drains the queue: every queued request gets the shutting-down error, leases
  and results already delivered stay, and the pool accepts no request afterwards.\<close>

theorem shutdown_drains:
  assumes "reachable p" and "\<not> closed p"
  shows "waiters (Shutdown p) = []
    \<and> (\<forall>w\<in>set (waiters p). results (Shutdown p) (waiterID w) = Some (Inl shuttingDownError))
    \<and> (\<forall>i. \<not> queued i p \<longrightarrow> results (Shutdown p) i = results p i) \<and> leases (Shutdown p) = leases p
    \<and> Acquire (\<lambda>_. nil_error) now c m a stream (Shutdown p) = Some (Returned (Inl shuttingDownError), Shutdown p)"
proof -
  have sd: "waiters (Shutdown p) = []" "closed (Shutdown p)" using Shutdown_ok reachable_inv [OF assms(1)] by blast+
  then have "Acquire (\<lambda>_. nil_error) now c m a stream (Shutdown p) = Some (Returned (Inl shuttingDownError), Shutdown p)"
    by (simp add: Acquire_def acquire_def)
  then show ?thesis using sd assms(2)
    by (auto simp: Shutdown_def fail_waiters_fields queued_def)
qed

theorem shutdown_drains_witness:
  "waiters (Shutdown sample_waiting) = [] \<and> map waiterID (waiters sample_waiting) = [0]
    \<and> results (Shutdown sample_waiting) 0 = Some (Inl shuttingDownError)"
proof -
  note sd = shutdown_drains [OF sample_reachable(3), of 8 sample_ctx 1 "{}" False]
  obtain w where "w \<in> set (waiters sample_waiting)" "waiterID w = 0"
    using sample_facts(4) by (cases "waiters sample_waiting") auto
  then show ?thesis using sd sample_facts(4,5) by auto
qed

end
