(* ===== verification/Pool_Service.thy ===== *)
theory Pool_Service
  imports Pool_Machine
begin

text \<open>
  What the pool does for its clients: an attempt succeeds exactly when a key can serve it and the
  key is the next one in turn; a dispatch serves every waiting request that can be served, keeps the
  order of the others, and never hands a request a key it may not use; changes of the key set keep
  the turn of the keys.
\<close>

subsection \<open>Serving can only use keys up\<close>

lemma recent_grant_state:
  "length (recent now s) \<le> length (recent now (grant_state now stream s))"
  by (simp add: recent_def)

lemma grant_state_grantable:
  "grantable now m a stream maxS rt (grant_state now stream' s) \<Longrightarrow> grantable now m a stream maxS rt s"
  using recent_grant_state [of now s stream']
  by (auto simp: grantable_def ready_def slot_free_def split: if_splits)

text \<open>No key can serve the waiter, even though its model is enabled.\<close>

definition stuck :: "time \<Rightarrow> pool \<Rightarrow> waiter \<Rightarrow> bool" where
  "stuck now p w \<longleftrightarrow> (\<forall>r\<in>ran (keys p). \<not> grantable now (waiterModelID w) (waiterAttempted w) (waiterStream w)
      (waiterMaxStreaming w) False (heap p r))"

lemma granted_stuck: "granted now stream r p p' \<Longrightarrow> stuck now p w \<Longrightarrow> stuck now p' w"
  unfolding stuck_def
proof
  fix x assume g: "granted now stream r p p'" and x: "x \<in> ran (keys p')"
    and st: "\<forall>r\<in>ran (keys p). \<not> grantable now (waiterModelID w) (waiterAttempted w) (waiterStream w)
      (waiterMaxStreaming w) False (heap p r)"
  have xp: "x \<in> ran (keys p)" using x granted_fields [OF g] by simp
  show "\<not> grantable now (waiterModelID w) (waiterAttempted w) (waiterStream w) (waiterMaxStreaming w) False (heap p' x)"
  proof (cases "x = r")
    case True
    then show ?thesis using st xp granted_fields [OF g] grant_state_grantable by fastforce
  next
    case False
    show ?thesis by (rule granted_heap [OF g False]) (use st xp in auto)
  qed
qed

lemma prune_stuck: "prune_rel now p p' \<Longrightarrow> stuck now p' w = stuck now p w"
  by (simp add: stuck_def frame_simps prune_rel_grantable)

lemma queue_stuck [simp]:
  "stuck now (deliver i res p) w = stuck now p w" "stuck now (queue_push x p) w = stuck now p w"
  "stuck now (queue_remove i p) w = stuck now p w"
  by (simp_all add: stuck_def)

lemma dispatch_step_stuck: "dispatch_step ce now p p' \<Longrightarrow> stuck now p w \<Longrightarrow> stuck now p' w"
  by (erule dispatch_stepE) (simp_all add: prune_stuck granted_stuck)

lemma dispatch_steps_stuck: "dispatch_steps ce now p p' \<Longrightarrow> stuck now p w \<Longrightarrow> stuck now p' w"
  by (induction rule: rtranclp_induct) (auto intro: dispatch_step_stuck)

subsection \<open>The first pass looks at every waiter once\<close>

lemma remove_head:
  "distinct (map waiterID (w # ws)) \<Longrightarrow> filter (\<lambda>x. waiterID x \<noteq> waiterID w) (w # ws) = ws"
  by (auto simp: filter_id_conv image_iff)

lemma try_waiter_ok:
  assumes "pool_inv p"
  obtains res p1 where "try_waiter now rt w p = Some (res, p1)" "pool_inv p1" "waiters p1 = waiters p"
    "(\<exists>l. res = Leased l \<and> (\<forall>w'. stuck now p w' \<longrightarrow> stuck now p1 w')) \<or>
     (\<exists>u. res = Unavailable u \<and> prune_rel now p p1
        \<and> (reason u = UnavailableBusy \<and> \<not> rt \<longrightarrow> stuck now p1 w \<and> models p (waiterModelID w) \<noteq> Some False))"
proof -
  obtain res p1 where t: "try_waiter now rt w p = Some (res, p1)"
    and ok: "attempt_ok now (waiterModelID w) (waiterAttempted w) (waiterStream w) (waiterMaxStreaming w) rt p res p1"
    using tryAcquire_outcome assms unfolding try_waiter_def pool_inv_def by blast
  note at = attempt_pool_inv [OF assms ok]
  show thesis
  proof (rule that [OF t at(1,3)], cases res)
    case (Leased l)
    then show "(\<exists>l. res = Leased l \<and> (\<forall>w'. stuck now p w' \<longrightarrow> stuck now p1 w')) \<or>
     (\<exists>u. res = Unavailable u \<and> prune_rel now p p1
        \<and> (reason u = UnavailableBusy \<and> \<not> rt \<longrightarrow> stuck now p1 w \<and> models p (waiterModelID w) \<noteq> Some False))"
      using ok granted_stuck by (fastforce simp: attempt_ok_def)
  next
    case (Unavailable u)
    then have pr: "prune_rel now p p1" using ok by (simp add: attempt_ok_def)
    have "stuck now p w \<and> models p (waiterModelID w) \<noteq> Some False" if "reason u = UnavailableBusy" "\<not> rt"
      using ok Unavailable that by (auto simp: attempt_ok_def stuck_def key_states_def split: if_splits)
    then show "(\<exists>l. res = Leased l \<and> (\<forall>w'. stuck now p w' \<longrightarrow> stuck now p1 w')) \<or>
     (\<exists>u. res = Unavailable u \<and> prune_rel now p p1
        \<and> (reason u = UnavailableBusy \<and> \<not> rt \<longrightarrow> stuck now p1 w \<and> models p (waiterModelID w) \<noteq> Some False))"
      using pr Unavailable prune_stuck [OF pr] by auto
  qed
qed

lemma dispatch_pass_serves:
  assumes "pool_inv p" "waiters p = todo @ done'" "\<forall>w\<in>set done'. stuck now p w"
    "dispatch_pass ce now (length todo) p = Some p'"
  shows "(\<forall>w\<in>set (waiters p'). stuck now p' w)
    \<and> (\<exists>left. subseq left todo \<and> waiters p' = done' @ left)"
  using assms
proof (induction todo arbitrary: p done')
  case Nil
  then show ?case by simp
next
  case (Cons w todo)
  have ws: "waiters p = w # (todo @ done')" using Cons.prems(2) by simp
  have d: "distinct (map waiterID (w # (todo @ done')))" using Cons.prems(1) ws by (simp add: pool_inv_def queue_inv_def)
  note rm = remove_head [OF d]
  have drop: ?case if "pool_inv q" "waiters q = todo @ done'" "\<forall>w\<in>set done'. stuck now q w"
      "dispatch_pass ce now (length todo) q = Some p'" for q
    using Cons.IH [OF that] by (blast intro: list_emb_Cons)
  show ?case
  proof (cases "ce (ctxID (waiterCtx w)) = nil_error")
    case False
    let ?q = "deliver (waiterID w) (Inl (ce (ctxID (waiterCtx w)))) (queue_remove (waiterID w) p)"
    have "dispatch_step ce now p ?q" using ws False by (intro dispatch_step.fail) auto
    then show ?thesis using Cons.prems ws rm False dispatch_step_pool_inv
      by (intro drop [of ?q]) auto
  next
    case True
    obtain res p1 where t: "try_waiter now False w p = Some (res, p1)" "pool_inv p1" "waiters p1 = waiters p"
      and oc: "(\<exists>l. res = Leased l \<and> (\<forall>w'. stuck now p w' \<longrightarrow> stuck now p1 w')) \<or>
        (\<exists>u. res = Unavailable u \<and> prune_rel now p p1
          \<and> (reason u = UnavailableBusy \<and> \<not> False \<longrightarrow> stuck now p1 w \<and> models p (waiterModelID w) \<noteq> Some False))"
      by (rule try_waiter_ok [OF Cons.prems(1), of now False w])
    show ?thesis
    proof (cases res)
      case (Leased l)
      let ?q = "deliver (waiterID w) (Inr l) (queue_remove (waiterID w) p1)"
      have "pool_inv ?q"
      proof (rule granted_try_waiter [OF _ ws disjI1 [OF not_False], of now ce])
        show "shape_inv p" using Cons.prems(1) by (simp add: pool_inv_def)
      next
        fix p2 assume "try_waiter now False w p = Some (Leased (length (leases p)), p2)"
          "dispatch_step ce now p (deliver (waiterID w) (Inr (length (leases p))) (queue_remove (waiterID w) p2))"
        then show "pool_inv ?q" using t(1) Leased dispatch_step_pool_inv Cons.prems(1) by auto
      qed (use t(1) Leased in simp)
      then show ?thesis using Cons.prems ws rm True t oc Leased by (intro drop [of ?q]) auto
    next
      case (Unavailable u)
      then have pr: "prune_rel now p p1" using oc by simp
      have w1: "waiters p1 = w # (todo @ done')" using t(3) ws by simp
      show ?thesis
      proof (cases "reason u = UnavailableBusy")
        case busy: True
        let ?q = "queue_push w (queue_remove (waiterID w) p1)"
        have "pool_inv ?q" using dispatch_step.rotate [OF w1] t(2) by (rule dispatch_step_pool_inv)
        moreover have "waiters ?q = todo @ (done' @ [w])" using w1 rm by simp
        moreover have "\<forall>x\<in>set (done' @ [w]). stuck now ?q x"
          using Cons.prems(3) prune_stuck [OF pr] oc Unavailable busy by auto
        moreover have "dispatch_pass ce now (length todo) ?q = Some p'"
          using Cons.prems(4) ws True t(1) Unavailable busy by simp
        ultimately have "(\<forall>w\<in>set (waiters p'). stuck now p' w)
          \<and> (\<exists>left. subseq left todo \<and> waiters p' = (done' @ [w]) @ left)" by (rule Cons.IH)
        then show ?thesis by (metis append.assoc append_Cons append_Nil subseq_Cons2)
      next
        case False
        let ?q = "deliver (waiterID w) (Inl (unavailableError u)) (queue_remove (waiterID w) p1)"
        have "dispatch_step ce now p1 ?q" using w1 False by (intro dispatch_step.fail) auto
        then have "pool_inv ?q" using t(2) by (rule dispatch_step_pool_inv)
        then show ?thesis using Cons.prems ws rm True t Unavailable False prune_stuck [OF pr]
          by (intro drop [of ?q]) auto
      qed
    qed
  qed
qed

subsection \<open>The relaxed pass\<close>

lemma dispatch_relaxed_waiters:
  assumes inv: "pool_inv p" and d: "dispatch_relaxed now p = Some p'"
  shows "waiters p' = waiters p \<or> waiters p' = tl (waiters p)"
proof (cases "waiters p")
  case Nil
  then show ?thesis using d by (simp add: dispatch_relaxed_def)
next
  case (Cons w ws)
  have rm: "filter (\<lambda>x. waiterID x \<noteq> waiterID w) (w # ws) = ws"
    using inv Cons by (intro remove_head) (simp add: pool_inv_def queue_inv_def)
  have "\<forall>i\<in>set (visit_order p). ref_at p i \<noteq> None"
    using order_ref_at inv by (force simp: pool_inv_def shape_inv_def)
  from hasNonAttemptedReady_prune [OF this]
  obtain b p1 where h: "hasNonAttemptedReadyLocked now (waiterModelID w) (waiterAttempted w)
      (waiterStream w) (waiterMaxStreaming w) p = Some (b, p1)" and pr: "prune_rel now p p1"
    unfolding hasNonAttemptedReadyLocked_def by metis
  obtain res p2 where t: "try_waiter now True w p1 = Some (res, p2)" "waiters p2 = waiters p1"
    by (rule try_waiter_ok [OF prune_rel_pool_inv [OF pr inv], of now True w])
  have "waiters p1 = w # ws" using pr Cons by (simp add: prune_waiters)
  then show ?thesis using d Cons h t rm prune_waiters [OF pr]
    by (cases res) (auto simp: dispatch_relaxed_def split: if_splits)
qed

lemma dispatch_serves_all:
  assumes inv: "pool_inv p" and "\<not> closed p" and d: "dispatchWaitersLocked ce now p = Some p'"
  shows "(\<forall>w\<in>set (waiters p'). stuck now p' w) \<and> subseq (waiters p') (waiters p)"
proof -
  obtain p1 where p1: "dispatch_pass ce now (length (waiters p)) p = Some p1" "dispatch_relaxed now p1 = Some p'"
    using assms by (auto simp: dispatchWaitersLocked_def split: Option.bind_splits)
  have sh: "shape_inv p" using inv by (simp add: pool_inv_def)
  have st1: "dispatch_steps ce now p p1" using dispatch_pass_steps [OF sh] p1(1) by (metis option.inject)
  have inv1: "pool_inv p1" using st1 inv
    by (induction rule: rtranclp_induct) (auto intro: dispatch_step_pool_inv)
  have s1: "\<forall>w\<in>set (waiters p1). stuck now p1 w" "subseq (waiters p1) (waiters p)"
    using dispatch_pass_serves [OF inv _ _ p1(1), of "[]"] by auto
  have "dispatch_steps ce now p1 p'"
    using dispatch_relaxed_steps [of p1] inv1 p1(2) unfolding pool_inv_def by (metis option.inject)
  then have st: "stuck now p1 w \<Longrightarrow> stuck now p' w" for w by (rule dispatch_steps_stuck)
  have "subseq (waiters p') (waiters p1)" "set (waiters p') \<subseteq> set (waiters p1)"
    using dispatch_relaxed_waiters [OF inv1 p1(2)]
    by (cases "waiters p1"; auto)+
  then show ?thesis using s1 st by (blast intro: subseq_order.order_trans)
qed

subsection \<open>What a waiting request is given\<close>

text \<open>The lease is of the kind the request asked for, on a key that is ready for its model now, and
  not one it already tried unless its context allows that.\<close>

definition grant_fits :: "time \<Rightarrow> pool \<Rightarrow> waiter \<Rightarrow> nat \<Rightarrow> bool" where
  "grant_fits now p w l \<longleftrightarrow>
     l < length (leases p) \<and> leaseStream (leases p ! l) = waiterStream w
     \<and> keys p (leaseKeyID (leases p ! l)) = Some (leaseRef (leases p ! l))
     \<and> ready now (waiterModelID w) (heap p (leaseRef (leases p ! l)))
     \<and> (noAttemptedRelaxation (waiterCtx w) \<longrightarrow> leaseKeyID (leases p ! l) \<notin> waiterAttempted w)"

lemma ready_granted: "granted now stream r p p' \<Longrightarrow> ready t m (heap p' x) = ready t m (heap p x)"
proof (cases "x = r")
  case True
  then show "granted now stream r p p' \<Longrightarrow> ?thesis" by (simp add: granted_fields ready_def)
next
  case False
  then show "granted now stream r p p' \<Longrightarrow> ?thesis" by (auto elim: granted_heap)
qed

lemma grant_fits_mono: "grant_fits now p w l \<Longrightarrow> dispatch_step ce now p p' \<Longrightarrow> grant_fits now p' w l"
  by (erule dispatch_stepE)
    (auto simp: grant_fits_def frame_simps prune_rel_ready granted_fields ready_granted nth_append)

lemma grant_fits_new:
  assumes "shape_inv p" "r \<in> ran (keys p)"
    "grantable now (waiterModelID w) (waiterAttempted w) (waiterStream w) (waiterMaxStreaming w) rt (heap p r)"
    "rt \<Longrightarrow> \<not> noAttemptedRelaxation (waiterCtx w)" "granted now (waiterStream w) r p q"
  shows "grant_fits now (deliver i res (queue_remove j q)) w (length (leases p))"
proof -
  obtain k where k: "keys p k = Some r" using assms(2) by (auto simp: ran_def)
  then have "ksID (snapshot (heap p r)) = k" using assms(1) by (auto simp: shape_inv_def refs_inv_def)
  then show ?thesis
    using k assms(3,4) granted_fields(3,12) [OF assms(5)] ready_granted [OF assms(5)]
    by (auto simp: grant_fits_def grantable_def)
qed

lemma dispatch_steps_fit:
  assumes "dispatch_steps ce now p p'" "pool_inv p"
  shows "pool_inv p' \<and> set (waiters p') \<subseteq> set (waiters p)
    \<and> (\<forall>w\<in>set (waiters p). \<forall>l. results p' (waiterID w) = Some (Inr l) \<longrightarrow> grant_fits now p' w l)"
  using assms
proof (induction rule: rtranclp_induct)
  case base
  then have "results p (waiterID w) = None" if "w \<in> set (waiters p)" for w
    using that by (simp add: pool_inv_def queue_inv_def)
  then show ?case using base by auto
next
  case (step q q')
  then have inv: "pool_inv q" and sub: "set (waiters q) \<subseteq> set (waiters p)"
    and fit: "\<forall>w\<in>set (waiters p). \<forall>l. results q (waiterID w) = Some (Inr l) \<longrightarrow> grant_fits now q w l" by auto
  have d: "inj_on waiterID (set (waiters p))" using step.prems by (simp add: pool_inv_def queue_inv_def distinct_map)
  have old: "grant_fits now q' w l" if "w \<in> set (waiters p)" "results q (waiterID w) = Some (Inr l)" for w l
    using fit that grant_fits_mono [OF _ step.hyps(2)] by blast
  have "set (waiters q') \<subseteq> set (waiters p) \<and>
    (\<forall>w\<in>set (waiters p). \<forall>l. results q' (waiterID w) = Some (Inr l) \<longrightarrow> grant_fits now q' w l)"
    using step.hyps(2)
  proof cases
    case prune
    then show ?thesis using sub old by (simp add: frame_simps)
  next
    case (rotate w ws)
    then show ?thesis using sub old by auto
  next
    case (fail w ws e)
    then show ?thesis using sub old by (auto split: if_splits)
  next
    case (grant w ws r rt q1)
    have new: "grant_fits now q' w (length (leases q))"
      unfolding grant(1) using grant inv by (intro grant_fits_new [where rt = rt and r = r]) (auto simp: pool_inv_def)
    have wq: "w \<in> set (waiters p)" using grant(2) sub by auto
    have "grant_fits now q' x l" if "x \<in> set (waiters p)" "results q' (waiterID x) = Some (Inr l)" for x l
    proof (cases "x = w")
      case True
      then show ?thesis using new that(2) grant(1) by simp
    next
      case False
      then have "waiterID x \<noteq> waiterID w" using d that(1) wq by (auto dest: inj_onD)
      then show ?thesis using old that grant(1) granted_fields [OF grant(7)] by simp
    qed
    then show ?thesis using sub grant(1) granted_fields [OF grant(7)] by auto
  qed
  then show ?case using dispatch_step_pool_inv [OF step.hyps(2) inv] by blast
qed

subsection \<open>Taking turns\<close>

lemma round_robin_found:
  assumes inv: "shape_inv p"
    and t: "tryAcquireLocked now m a stream maxS False rt p = Some (Leased l, p')"
  obtains i r acc p1 where "scan now m a stream maxS False rt (visit_order p) empty_acc p = Some (Some (i, r), acc, p1)"
    "p' = snd (new_lease r stream ((set_state r (take_slot stream (snd (reserveRequest now (heap p1 r)))) p1)
            \<lparr>cursor := (i + 1) mod length (order p1)\<rparr>))" "l = length (leases p1)"
proof -
  have md: "models p m \<noteq> Some False" using t by (auto simp: tryAcquireLocked_def)
  obtain found acc p1 where sc:
    "scan now m a stream maxS False rt (visit_order p) empty_acc p = Some (found, acc, p1)"
    using t md by (auto simp: tryAcquireLocked_def split: Option.bind_splits)
  show thesis
  proof (cases found)
    case (Some ir)
    then show thesis using that sc t md
      by (cases ir) (auto simp: tryAcquireLocked_def Let_def case_prod_beta new_lease_def)
  next
    case None
    then have "latencyCandidates acc = []" using scan_outcome [OF sc] by (simp add: empty_acc_def)
    then show thesis using t md sc None by (auto simp: tryAcquireLocked_def Let_def split: if_splits)
  qed
qed

subsection \<open>Properties\<close>

text \<open>C4: an attempt is complete and its refusal exact. In every reachable pool \<open>tryAcquireLocked\<close>
  returns; it hands out a lease exactly when the model is enabled and some key is grantable
  (enabled, not invalid, not blocked for the model, not cooling, not tried before unless retries are
  allowed, below its request rate, with a free slot); otherwise the reason is the one the key states
  determine.\<close>

theorem tryAcquire_complete:
  assumes "reachable p"
  shows "\<exists>res p'. tryAcquireLocked now m a stream maxS le rt p = Some (res, p')
    \<and> ((\<exists>l. res = Leased l) \<longleftrightarrow>
         models p m \<noteq> Some False \<and> (\<exists>s\<in>key_states p. grantable now m a stream maxS rt s))
    \<and> (\<forall>u. res = Unavailable u \<longrightarrow>
         reason u = (if models p m = Some False then UnavailableModelBlocked
                     else refusal now m a stream maxS rt (key_states p)))"
proof -
  have "shape_inv p" using reachable_inv [OF assms] by (simp add: pool_inv_def)
  from tryAcquire_outcome [OF this] obtain res p' where
    t: "tryAcquireLocked now m a stream maxS le rt p = Some (res, p')"
    and ok: "attempt_ok now m a stream maxS rt p res p'" by blast
  then show ?thesis by (cases res) (force simp: attempt_ok_def key_states_def)+
qed

theorem tryAcquire_complete_witness:
  "\<exists>res p'. tryAcquireLocked 7 1 {} False 2 False False sample_leased = Some (res, p')
    \<and> ((\<exists>l. res = Leased l) \<longleftrightarrow>
         models sample_leased 1 \<noteq> Some False \<and> (\<exists>s\<in>key_states sample_leased. grantable 7 1 {} False 2 False s))"
  using tryAcquire_complete [OF sample_reachable(2), of 7 1 "{}" False 2 False False] by blast

text \<open>round robin. Without latency routing the lease goes to the first grantable key at or after
  the cursor in cyclic order, and the cursor moves just past that key.\<close>

theorem round_robin:
  assumes "reachable p" and t: "tryAcquireLocked now m a stream maxS False rt p = Some (Leased l, p')"
  shows "\<exists>pre i post. visit_order p = pre @ i # post
    \<and> (\<forall>j\<in>set pre. \<not> grantable now m a stream maxS rt (state_at p j))
    \<and> grantable now m a stream maxS rt (state_at p i)
    \<and> leaseKeyID (leases p' ! l) = order p ! i \<and> cursor p' = (i + 1) mod length (order p)"
proof -
  have inv: "shape_inv p" using reachable_inv [OF assms(1)] by (simp add: pool_inv_def)
  show ?thesis
  proof (rule round_robin_found [OF inv t])
    fix i r acc p1 assume sc: "scan now m a stream maxS False rt (visit_order p) empty_acc p = Some (Some (i, r), acc, p1)"
      and p': "p' = snd (new_lease r stream ((set_state r (take_slot stream (snd (reserveRequest now (heap p1 r)))) p1)
            \<lparr>cursor := (i + 1) mod length (order p1)\<rparr>))" and l: "l = length (leases p1)"
    note oc = scan_outcome [OF sc, simplified]
    have pr: "prune_rel now p p1" and ref: "keys p (order p ! i) = Some r" using oc by (simp_all add: ref_at_def)
    have "ksID (snapshot (heap p r)) = order p ! i" using inv ref by (auto simp: shape_inv_def refs_inv_def)
    then have "leaseKeyID (leases p' ! l) = order p ! i"
      using prune_rel_snapshot [OF pr] unfolding p' l by (simp add: new_lease_def reserveRequest_eq)
    moreover have "cursor p' = (i + 1) mod length (order p)" using pr by (simp add: p' new_lease_def frame_simps)
    moreover obtain pre post where "visit_order p = pre @ i # post"
      "\<forall>j\<in>set pre. \<not> grantable now m a stream maxS rt (state_at p j)" using oc by auto
    moreover have "grantable now m a stream maxS rt (state_at p i)" using oc by (auto simp: state_at_def)
    ultimately show ?thesis by blast
  qed
qed

theorem round_robin_witness:
  "\<exists>pre i post. visit_order sample_loaded = pre @ i # post
    \<and> (\<forall>j\<in>set pre. \<not> grantable 6 1 {} False 2 False (state_at sample_loaded j))
    \<and> grantable 6 1 {} False 2 False (state_at sample_loaded i)"
proof -
  have "map_option fst (tryAcquireLocked 6 1 {} False 2 False False sample_loaded) = Some (Leased 0)" by code_simp
  then have "\<exists>p'. tryAcquireLocked 6 1 {} False 2 False False sample_loaded = Some (Leased 0, p')" by auto
  then show ?thesis using round_robin [OF sample_reachable(1)] by blast
qed

text \<open>When every usable key is cooling down, the refusal tells the client to retry at the
  earliest end of those cooldowns.\<close>

theorem cooling_retry_after:
  assumes "reachable p" "0 \<le> now" "models p m \<noteq> Some False"
    and t: "tryAcquireLocked now m a stream maxS le rt p = Some (Unavailable u, p')"
    and r: "reason u = UnavailableCooling"
  shows "\<exists>s\<in>key_states p. \<exists>until. cooling_until now m s until \<and> unavailableRetryAfter u = time_sub until now
    \<and> (\<forall>s'\<in>key_states p. \<forall>until'. cooling_until now m s' until' \<longrightarrow> until \<le> until')"
proof -
  have o: "order_inv p" using reachable_inv [OF assms(1)] by (simp add: pool_inv_def shape_inv_def)
  obtain found acc p1 where sc:
    "scan now m a stream maxS le rt (visit_order p) empty_acc p = Some (found, acc, p1)"
    using t assms(3) by (auto simp: tryAcquireLocked_def split: Option.bind_splits)
  have None: "found = None" using t assms(3) sc
    by (cases found) (auto simp: tryAcquireLocked_def Let_def case_prod_beta)
  have fl: "hasUnblocked acc" "\<not> hasReady acc" "unavailableRetryAfter u = time_sub (earliestCooldown acc) now"
    using t assms(3) sc None r
    by (auto simp: tryAcquireLocked_def Let_def case_prod_beta split: if_splits Option.bind_splits)
  note oc = scan_outcome [OF sc]
  from oc fl(1,2) None obtain i where i: "i \<in> set (visit_order p)" "lives (state_at p i)"
    "m \<notin> blocks (state_at p i)" "\<not> ready now m (state_at p i)" by (auto simp: empty_acc_def)
  then obtain c where c: "cooling_until now m (state_at p i) c" using ready_or_cooling by blast
  have ec: "(earliestCooldown acc = 0
      \<or> (\<exists>i\<in>set (visit_order p). cooling_until now m (state_at p i) (earliestCooldown acc)))
    \<and> (\<forall>i\<in>set (visit_order p). \<forall>t. cooling_until now m (state_at p i) t \<longrightarrow>
         now < earliestCooldown acc \<and> earliestCooldown acc \<le> t)"
    using scan_earliestCooldown [OF sc [unfolded None] assms(2)] by (simp add: empty_acc_def)
  then have "earliestCooldown acc \<noteq> 0" using c i(1) assms(2) by force
  then show ?thesis using ec fl(3) unfolding states_at [OF o, symmetric] by auto
qed

definition sample_cooling :: pool where
  "sample_cooling =
     the (UpsertKey (\<lambda>_. nil_error) 5 (sample_key\<lparr>CooldownUntil := Some 90\<rparr>) (New_pool None (\<lambda>_. 0)))"

lemma sample_cooling_reachable: "reachable sample_cooling"
  unfolding sample_cooling_def by (intro upsert_reachable reachable.initial) simp

theorem cooling_retry_after_witness:
  "\<exists>s\<in>key_states sample_cooling. \<exists>until. cooling_until 6 1 s until \<and> 84 = time_sub until 6"
proof -
  have c: "map_option fst (tryAcquireLocked 6 1 {} False 2 False False sample_cooling)
      = Some (Unavailable \<lparr>reason = UnavailableCooling, unavailableRetryAfter = 84\<rparr>)"
    and m: "models sample_cooling 1 = None" by code_simp+
  obtain p' where t: "tryAcquireLocked 6 1 {} False 2 False False sample_cooling
      = Some (Unavailable \<lparr>reason = UnavailableCooling, unavailableRetryAfter = 84\<rparr>, p')" using c by auto
  show ?thesis using cooling_retry_after [OF sample_cooling_reachable _ _ t] m by auto
qed

text \<open>C2: a dispatch leaves no request waiting that a key could serve: afterwards no key is
  grantable for any request still queued, and the requests still queued keep their order.\<close>

theorem dispatch_serves:
  assumes "pool_inv p" and "\<not> closed p" and "dispatchWaitersLocked ce now p = Some p'"
  shows "(\<forall>w\<in>set (waiters p'). \<forall>s\<in>key_states p'.
      \<not> grantable now (waiterModelID w) (waiterAttempted w) (waiterStream w) (waiterMaxStreaming w) False s)
    \<and> subseq (waiters p') (waiters p)"
  using dispatch_serves_all [OF assms] by (auto simp: stuck_def key_states_def)

theorem dispatch_serves_witness:
  "\<exists>p'. dispatchWaitersLocked (\<lambda>_. nil_error) 8 sample_waiting = Some p'
    \<and> subseq (waiters p') (waiters sample_waiting)"
proof -
  have inv: "pool_inv sample_waiting" by (rule reachable_inv [OF sample_reachable(3)])
  then obtain p' where d: "dispatchWaitersLocked (\<lambda>_. nil_error) 8 sample_waiting = Some p'"
    using dispatchWaiters_inv by blast
  then show ?thesis using dispatch_serves [OF inv _ d] sample_facts(5) by blast
qed

text \<open>A dispatch hands a waiting request only what it asked for: a lease of the requested kind on
  a key of the pool that is ready for its model, and never a key it has tried when its context forbids
  that.\<close>

theorem dispatch_grants_fit:
  assumes "pool_inv p" and "dispatchWaitersLocked ce now p = Some p'"
    and "w \<in> set (waiters p)" and "results p' (waiterID w) = Some (Inr l)"
  shows "leaseStream (leases p' ! l) = waiterStream w
    \<and> keys p' (leaseKeyID (leases p' ! l)) = Some (leaseRef (leases p' ! l))
    \<and> ready now (waiterModelID w) (heap p' (leaseRef (leases p' ! l)))
    \<and> (noAttemptedRelaxation (waiterCtx w) \<longrightarrow> leaseKeyID (leases p' ! l) \<notin> waiterAttempted w)"
proof -
  have "dispatch_steps ce now p p'"
    using dispatchWaiters_steps [of p ce now] assms(1,2) by (auto simp: pool_inv_def)
  then show ?thesis using dispatch_steps_fit assms by (auto simp: grant_fits_def)
qed

definition sample_freed :: pool where
  "sample_freed = releaseLocked 0 sample_waiting"

theorem dispatch_grants_fit_witness:
  "\<exists>p' w. dispatchWaitersLocked (\<lambda>_. nil_error) 8 sample_freed = Some p' \<and> waiters sample_freed = [w]
    \<and> leaseStream (leases p' ! 1) = waiterStream w \<and> ready 8 (waiterModelID w) (heap p' (leaseRef (leases p' ! 1)))"
proof -
  have ls: "length (leases sample_waiting) = 1" "released (leases sample_waiting ! 0) = False"
    "results sample_waiting 0 = None" "pending sample_waiting = {0}" by code_simp+
  have inv0: "pool_inv sample_waiting" by (rule reachable_inv [OF sample_reachable(3)])
  then have "results sample_waiting i = None" for i
    using ls(3,4) by (cases "i = 0") (auto simp: pool_inv_def queue_inv_def)
  then have inv: "pool_inv sample_freed"
    unfolding sample_freed_def using inv0 ls by (intro release_inv) auto
  have r: "map_option (\<lambda>p. results p 0) (dispatchWaitersLocked (\<lambda>_. nil_error) 8 sample_freed) = Some (Some (Inr 1))"
    and ws: "map waiterID (waiters sample_freed) = [0]" by code_simp+
  obtain p' where p': "dispatchWaitersLocked (\<lambda>_. nil_error) 8 sample_freed = Some p'"
    "results p' 0 = Some (Inr 1)" using r by auto
  obtain w where w: "waiters sample_freed = [w]" "waiterID w = 0" using ws by auto
  then show ?thesis using dispatch_grants_fit [OF inv p'(1), of w 1] p' by auto
qed

end
