(* ===== verification/Pool_Summary.thy ===== *)
theory Pool_Summary
  imports Pool_Machine
begin

text \<open>
  \<open>Pool.Summary\<close> and the turn of the keys. The loop of \<open>Summary\<close> runs over a Go map, whose order
  is not specified: the order is a parameter, and the counts hold for every order.
\<close>

subsection \<open>The summary\<close>

record keyStatusCounts =
  Total :: nat
  EnabledCount :: nat
  DisabledCount :: nat
  Ready :: nat
  CoolingDown :: nat
  AuthInvalidCount :: nat

record queueSummary =
  Length :: nat
  Capacity :: int

record poolSummary =
  Keys :: keyStatusCounts
  Queue :: queueSummary
  Active :: int
  EarliestCooldown :: "time option"
  ShuttingDown :: bool

definition summary_key :: "time \<Rightarrow> keyState \<Rightarrow> poolSummary \<Rightarrow> poolSummary" where
  "summary_key now s sm =
     (let k0 = Keys sm;
          k1 = k0\<lparr>Total := Total k0 + 1\<rparr>;
          k2 = (if Enabled (snapshot s) then k1\<lparr>EnabledCount := EnabledCount k1 + 1\<rparr>
                else k1\<lparr>DisabledCount := DisabledCount k1 + 1\<rparr>);
          k3 = (if AuthInvalid (snapshot s) then k2\<lparr>AuthInvalidCount := AuthInvalidCount k2 + 1\<rparr> else k2);
          a1 = (if busy s then Active sm + 1 else Active sm);
          a2 = a1 + streamingBusy s;
          (k4, e) =
            (case CooldownUntil (snapshot s) of
               None \<Rightarrow> (k3, EarliestCooldown sm)
             | Some t \<Rightarrow>
                 if now < t then
                   (k3\<lparr>CoolingDown := CoolingDown k3 + 1\<rparr>,
                    (case EarliestCooldown sm of
                       None \<Rightarrow> Some t
                     | Some e0 \<Rightarrow> if t < e0 then Some t else Some e0))
                 else (k3, EarliestCooldown sm));
          k5 = (if Enabled (snapshot s) \<and> \<not> AuthInvalid (snapshot s) \<and> \<not> busy s
                   \<and> \<not> isCoolingDown (CooldownUntil (snapshot s)) now
                then k4\<lparr>Ready := Ready k4 + 1\<rparr> else k4)
      in sm\<lparr>Keys := k5, Active := a2, EarliestCooldown := e\<rparr>)"

definition Summary :: "time \<Rightarrow> key_id list \<Rightarrow> pool \<Rightarrow> poolSummary" where
  "Summary now ids p =
     fold (\<lambda>k. summary_key now (heap p (the (keys p k)))) ids
       \<lparr>Keys = \<lparr>Total = 0, EnabledCount = 0, DisabledCount = 0, Ready = 0, CoolingDown = 0, AuthInvalidCount = 0\<rparr>,
        Queue = \<lparr>Length = length (waiters p), Capacity = capacity (resolveQueueSettings (currentSnapshot p))\<rparr>,
        Active = 0, EarliestCooldown = None, ShuttingDown = closed p\<rparr>"

subsection \<open>What the loop counts\<close>

definition occupancy :: "keyState \<Rightarrow> int" where
  "occupancy s = (if busy s then 1 else 0) + streamingBusy s"

definition cooling_key :: "time \<Rightarrow> keyState \<Rightarrow> bool" where
  "cooling_key now s \<longleftrightarrow> isCoolingDown (CooldownUntil (snapshot s)) now"

lemma summary_key_fields:
  "Total (Keys (summary_key now s sm)) = Total (Keys sm) + 1"
  "EnabledCount (Keys (summary_key now s sm)) = EnabledCount (Keys sm) + (if Enabled (snapshot s) then 1 else 0)"
  "DisabledCount (Keys (summary_key now s sm)) = DisabledCount (Keys sm) + (if Enabled (snapshot s) then 0 else 1)"
  "CoolingDown (Keys (summary_key now s sm)) = CoolingDown (Keys sm) + (if cooling_key now s then 1 else 0)"
  "Active (summary_key now s sm) = Active sm + occupancy s"
  "EarliestCooldown (summary_key now s sm) =
     (if cooling_key now s then
        (case EarliestCooldown sm of None \<Rightarrow> CooldownUntil (snapshot s)
         | Some e \<Rightarrow> Some (min (the (CooldownUntil (snapshot s))) e))
      else EarliestCooldown sm)"
  by (auto simp: summary_key_def Let_def cooling_key_def isCoolingDown_def occupancy_def min_def
      split: option.splits)

lemma fold_counts:
  fixes f :: "'a \<Rightarrow> 's \<Rightarrow> 's" and v :: "'s \<Rightarrow> 'b::comm_monoid_add"
  assumes "\<And>x s. v (f x s) = v s + g x"
  shows "v (fold f xs s) = v s + sum_list (map g xs)"
  by (induction xs arbitrary: s) (simp_all add: assms ac_simps)

lemma sum_list_indicator: "sum_list (map (\<lambda>x. if P x then 1 else 0) xs) = length (filter P xs)"
  by (induction xs) simp_all

lemma fold_earliest:
  "EarliestCooldown (fold (\<lambda>k. summary_key now (h k)) ids sm) =
     (let cs = map (\<lambda>k. the (CooldownUntil (snapshot (h k)))) (filter (\<lambda>k. cooling_key now (h k)) ids);
          e = EarliestCooldown sm
      in if cs = [] then e else Some (fold min cs (case e of None \<Rightarrow> hd cs | Some t \<Rightarrow> t)))"
proof (induction ids arbitrary: sm)
  case Nil
  then show ?case by simp
next
  case (Cons k ids)
  show ?case
  proof (cases "cooling_key now (h k)")
    case False
    then show ?thesis using Cons.IH by (simp add: summary_key_fields)
  next
    case True
    then obtain t where "CooldownUntil (snapshot (h k)) = Some t"
      by (auto simp: cooling_key_def isCoolingDown_def split: option.splits)
    then show ?thesis using Cons.IH True
      by (cases "EarliestCooldown sm") (auto simp: summary_key_fields Let_def)
  qed
qed

lemma fold_min_least: "(fold min xs a :: 'a::linorder) \<le> a \<and> (\<forall>x\<in>set xs. fold min xs a \<le> x) \<and> (fold min xs a = a \<or> fold min xs a \<in> set xs)"
proof (induction xs arbitrary: a)
  case (Cons x xs)
  show ?case using Cons.IH [of "min x a"] by (auto simp: min_def split: if_splits)
qed simp

text \<open>Unreleased leases, counted per key state and altogether.\<close>

lemma sum_list_add: "sum_list (map (\<lambda>x. f x + g x) xs) = sum_list (map f xs) + sum_list (map g xs :: 'b::comm_monoid_add list)"
  by (induction xs) (simp_all add: ac_simps)

lemma held_both:
  "held ls r True + held ls r False = length (filter (\<lambda>l. leaseRef l = r \<and> \<not> released l) ls)"
  by (induction ls) (auto simp: held_def)

lemma sum_one: "distinct rs \<Longrightarrow> sum_list (map (\<lambda>r. if x = r then 1 else 0) rs) = (if x \<in> set rs then 1 else (0::nat))"
  by (induction rs) auto

lemma held_partition:
  "distinct rs \<Longrightarrow> sum_list (map (\<lambda>r. held ls r True + held ls r False) rs)
     = length (filter (\<lambda>l. leaseRef l \<in> set rs \<and> \<not> released l) ls)"
proof (induction ls)
  case Nil
  then show ?case by (induction rs) simp_all
next
  case (Cons l ls)
  have "held (l # ls) r True + held (l # ls) r False
      = (if leaseRef l = r then if released l then 0 else 1 else 0) + (held ls r True + held ls r False)" for r
    by simp
  then have "sum_list (map (\<lambda>r. held (l # ls) r True + held (l # ls) r False) rs)
      = sum_list (map (\<lambda>r. if leaseRef l = r then if released l then 0 else 1 else 0) rs)
        + sum_list (map (\<lambda>r. held ls r True + held ls r False) rs)"
    by (simp only: sum_list_add)
  moreover have "sum_list (map (\<lambda>r. if leaseRef l = r then if released l then 0 else 1 else 0) rs)
      = (if leaseRef l \<in> set rs \<and> \<not> released l then 1 else (0::nat))"
    using sum_one [OF Cons.prems, of "leaseRef l"] by (cases "released l") auto
  ultimately show ?case using Cons by simp
qed

lemma of_nat_sum_list: "int (sum_list (map f xs)) = sum_list (map (\<lambda>x. int (f x)) xs)"
  by (induction xs) simp_all

lemma occupancy_sum:
  assumes inv: "pool_inv p" and ids: "distinct ids" "set ids = dom (keys p)"
  shows "sum_list (map (\<lambda>k. occupancy (heap p (the (keys p k)))) ids)
    = int (length (filter (\<lambda>l. leaseRef l \<in> ran (keys p) \<and> \<not> released l) (leases p)))"
proof -
  have ri: "refs_inv p" and li: "lease_inv p" using inv by (simp_all add: pool_inv_def shape_inv_def)
  let ?r = "\<lambda>k. the (keys p k)"
  have some: "keys p k = Some (?r k)" if "k \<in> set ids" for k using that ids(2) by auto
  have d: "distinct (map ?r ids)"
    using ids(1) some refs_inv_inj [OF ri] by (auto simp: distinct_map intro!: inj_onI) metis
  have "set (map ?r ids) = ran (keys p)" using ids(2) by (force simp: ran_def dom_def image_iff)
  moreover have "occupancy (heap p (?r k)) = int (held (leases p) (?r k) True + held (leases p) (?r k) False)"
    if "k \<in> set ids" for k
    using li ri some [OF that] by (auto simp: lease_inv_def refs_inv_def occupancy_def)
  then have "sum_list (map (\<lambda>k. occupancy (heap p (?r k))) ids)
      = int (sum_list (map (\<lambda>r. held (leases p) r True + held (leases p) r False) (map ?r ids)))"
    by (simp add: of_nat_sum_list comp_def cong: map_cong)
  ultimately show ?thesis using held_partition [OF d] by simp
qed

subsection \<open>Properties\<close>

text \<open>The admin summary tells the truth in whatever order the key map is walked: each key is
  counted once as enabled or disabled, \<open>Active\<close> is the number of unreleased leases on the keys of the
  pool, and the earliest cooldown is the least end of a running cooldown.\<close>

theorem summary_counts:
  assumes "reachable p" and ids: "distinct ids" "set ids = dom (keys p)"
  shows "Total (Keys (Summary now ids p)) = card (dom (keys p))
    \<and> EnabledCount (Keys (Summary now ids p)) + DisabledCount (Keys (Summary now ids p)) = card (dom (keys p))
    \<and> Active (Summary now ids p)
        = int (length (filter (\<lambda>l. leaseRef l \<in> ran (keys p) \<and> \<not> released l) (leases p)))
    \<and> (EarliestCooldown (Summary now ids p) = None \<longleftrightarrow> (\<forall>s\<in>key_states p. \<not> cooling_key now s))
    \<and> (\<forall>t. EarliestCooldown (Summary now ids p) = Some t \<longrightarrow>
         (\<exists>s\<in>key_states p. cooling_key now s \<and> CooldownUntil (snapshot s) = Some t)
         \<and> (\<forall>s\<in>key_states p. cooling_key now s \<longrightarrow> t \<le> the (CooldownUntil (snapshot s))))"
proof -
  have inv: "pool_inv p" using assms(1) by (rule reachable_inv)
  let ?h = "\<lambda>k. heap p (the (keys p k))" and ?S = "Summary now ids p"
  have states: "key_states p = ?h ` set ids" using ids(2) by (force simp: key_states_def ran_def dom_def)
  have len: "length ids = card (dom (keys p))" using ids distinct_card by metis
  have tot: "Total (Keys ?S) = length ids"
    unfolding Summary_def by (subst fold_counts [where v = "\<lambda>s. Total (Keys s)" and g = "\<lambda>_. 1"])
      (simp_all add: summary_key_fields sum_list_triv)
  have "EnabledCount (Keys ?S) + DisabledCount (Keys ?S) = length ids"
    unfolding Summary_def
    by (subst fold_counts [where v = "\<lambda>s. EnabledCount (Keys s) + DisabledCount (Keys s)" and g = "\<lambda>_. 1"])
      (simp_all add: summary_key_fields sum_list_triv)
  moreover have "Active ?S = sum_list (map (\<lambda>k. occupancy (?h k)) ids)"
    unfolding Summary_def by (subst fold_counts [where v = Active and g = "\<lambda>k. occupancy (?h k)"])
      (simp_all add: summary_key_fields)
  moreover define cs where "cs = map (\<lambda>k. the (CooldownUntil (snapshot (?h k)))) (filter (\<lambda>k. cooling_key now (?h k)) ids)"
  have e: "EarliestCooldown ?S = (if cs = [] then None else Some (fold min cs (hd cs)))"
    unfolding Summary_def fold_earliest cs_def by (simp add: Let_def)
  have csn: "cs = [] \<longleftrightarrow> (\<forall>s\<in>key_states p. \<not> cooling_key now s)"
    unfolding states cs_def by (auto simp: filter_empty_conv)
  have cool: "(\<exists>s\<in>key_states p. cooling_key now s \<and> CooldownUntil (snapshot s) = Some t) \<longleftrightarrow> t \<in> set cs" for t
    unfolding states cs_def by (force simp: cooling_key_def isCoolingDown_def split: option.splits)
  have "(\<exists>s\<in>key_states p. cooling_key now s \<and> CooldownUntil (snapshot s) = Some t)
      \<and> (\<forall>s\<in>key_states p. cooling_key now s \<longrightarrow> t \<le> the (CooldownUntil (snapshot s)))"
    if "EarliestCooldown ?S = Some t" for t
  proof -
    have ne: "cs \<noteq> []" and t: "t = fold min cs (hd cs)" using that e by (auto split: if_splits)
    have "t \<in> set cs" "\<forall>x\<in>set cs. t \<le> x"
      using fold_min_least [of cs "hd cs"] ne t by auto
    then show ?thesis unfolding cool unfolding states cs_def by auto
  qed
  ultimately show ?thesis using tot len occupancy_sum [OF inv ids] e csn by auto
qed

theorem summary_counts_witness:
  "Active (Summary 8 [7] sample_leased)
    = int (length (filter (\<lambda>l. leaseRef l \<in> ran (keys sample_leased) \<and> \<not> released l) (leases sample_leased)))
    \<and> set [7] = dom (keys sample_leased)"
proof -
  have o: "order sample_leased = [7]" by code_simp
  have "order_inv sample_leased"
    using reachable_inv [OF sample_reachable(2)] by (simp add: pool_inv_def shape_inv_def)
  then have "set [7] = dom (keys sample_leased)" unfolding order_inv_def o by simp
  then show ?thesis using summary_counts [OF sample_reachable(2), of "[7]" 8] by simp
qed

text \<open>A change of the key set does not disturb the turn. A key inserted anywhere leaves the key
  that is next in turn next; removing another key does too; removing the key that is next makes its
  successor in cyclic order the next.\<close>

theorem turn_kept:
  assumes "reachable p" and ne: "order p \<noteq> []"
  shows "(keys p (ksID key) = None \<longrightarrow> (\<exists>p'. upsertKeyLocked key p = Some p'
        \<and> set (order p') = insert (ksID key) (set (order p)) \<and> order p' ! cursor p' = order p ! cursor p))
    \<and> (k \<in> set (order p) \<and> length (order p) > 1 \<longrightarrow>
        order (removeKeyLocked k p) ! cursor (removeKeyLocked k p) =
          (if k = order p ! cursor p then order p ! ((cursor p + 1) mod length (order p)) else order p ! cursor p))"
proof -
  have o: "order_inv p" using reachable_inv [OF assms(1)] by (simp add: pool_inv_def shape_inv_def)
  have "\<exists>p'. upsertKeyLocked key p = Some p' \<and> set (order p') = insert (ksID key) (set (order p))
      \<and> order p' ! cursor p' = order p ! cursor p" if "keys p (ksID key) = None"
  proof (rule upsert_new [OF o that])
    fix p' assume p': "upsertKeyLocked key p = Some p'" "order p \<noteq> [] \<Longrightarrow> order p' ! cursor p' = order p ! cursor p"
      and eq: "p' = (add_state key p)\<lparr>order := insertSorted (order p) (ksID key), cursor := cursor p'\<rparr>"
    have "order p' = insertSorted (order p) (ksID key)" by (subst eq) simp
    then have "set (order p') = insert (ksID key) (set (order p))"
      using o that by (subst insertSorted_props(3) [symmetric]) (auto simp: order_inv_def)
    then show ?thesis using p' ne by blast
  qed
  moreover have "order (removeKeyLocked k p) ! cursor (removeKeyLocked k p) =
      (if k = order p ! cursor p then order p ! ((cursor p + 1) mod length (order p)) else order p ! cursor p)"
    if k: "k \<in> set (order p)" "length (order p) > 1"
  proof -
    have kn: "keys p k \<noteq> None" using o k by (auto simp: order_inv_def)
    obtain i where i: "index_of k (order p) = Some i" and eq: "removeKeyLocked k p =
       p\<lparr>keys := (keys p)(k := None), order := take i (order p) @ drop (Suc i) (order p),
         cursor := (let c = if i < cursor p then cursor p - 1 else cursor p
                    in if c < length (order p) - 1 then c else 0)\<rparr>"
      by (rule remove_known [OF o kn])
    have il: "i < length (order p)" "order p ! i = k" using index_of_less [OF i] by simp_all
    have c: "cursor p < length (order p)" using o ne by (simp add: order_inv_def)
    have kc: "k = order p ! cursor p \<longleftrightarrow> i = cursor p"
      using il c o nth_eq_iff_index_eq [of "order p" i "cursor p"] by (auto simp: order_inv_def)
    consider "i < cursor p" | "cursor p < i" | "i = cursor p" "Suc i < length (order p)"
      | "i = cursor p" "Suc i = length (order p)" using il by linarith
    then show ?thesis
      by cases (use eq il c kc k in \<open>auto simp: nth_append Let_def\<close>)
  qed
  ultimately show ?thesis by blast
qed

theorem turn_kept_witness:
  "\<exists>p'. upsertKeyLocked (sample_key\<lparr>ksID := 3\<rparr>) sample_leased = Some p'
    \<and> order p' ! cursor p' = order sample_leased ! cursor sample_leased"
proof -
  have "order sample_leased = [7]" "keys sample_leased 3 = None" by code_simp+
  then show ?thesis using turn_kept [OF sample_reachable(2), of "sample_key\<lparr>ksID := 3\<rparr>"] by fastforce
qed

end
