(* ===== verification/Json.thy ===== *)
theory Json
  imports Go_Strings
begin

text \<open>
  What the program uses of \<open>encoding/json\<close>. A text is parsed to the syntax it spells, up to white space
  (\<open>raw\<close>, which is what a \<open>json.RawMessage\<close> holds: literals keep their spelling, members their order and
  duplicates); \<open>spell\<close> (in \<open>Json_Text\<close>) prints it as \<open>json.Compact\<close> does, and \<open>decode\<close> gives its value, with string literals
  decoded (escapes, surrogate pairs, invalid UTF-8 replaced by U+FFFD). Printing and parsing invert each
  other (\<open>raw_parse_spell\<close>). Object keys are matched with struct fields ignoring case. The recursive
  parser carries fuel; a nested value consumes a byte every two steps, so twice the length of the text is
  enough (\<open>json_fuel\<close>). Values nested deeper than the decoder's limit are refused.
\<close>

datatype raw =
    RNull
  | RBool bool
  | RNumber string
  | RString string
  | RArray "raw list"
  | RObject "(string \<times> raw) list"

datatype json =
    JNull
  | JBool bool
  | JNumber string
  | JString string
  | JArray "json list"
  | JObject "(string \<times> json) list"

abbreviation code_of :: "char \<Rightarrow> nat" where "code_of \<equiv> of_char"

subsection \<open>Tokens\<close>

definition is_json_space :: "char \<Rightarrow> bool" where
  "is_json_space c \<longleftrightarrow> c = CHR 0x20 \<or> c = CHR 0x09 \<or> c = CHR 0x0A \<or> c = CHR 0x0D"

definition skip_ws :: "string \<Rightarrow> string" where
  "skip_ws s = dropWhile is_json_space s"

definition hex_value :: "char \<Rightarrow> nat option" where
  "hex_value c =
     (if 48 \<le> code_of c \<and> code_of c \<le> 57 then Some (code_of c - 48)
      else if 97 \<le> code_of c \<and> code_of c \<le> 102 then Some (code_of c - 87)
      else if 65 \<le> code_of c \<and> code_of c \<le> 70 then Some (code_of c - 55)
      else None)"

fun hex4 :: "string \<Rightarrow> (nat \<times> string) option" where
  "hex4 (a # b # c # d # rest) =
     (case (hex_value a, hex_value b, hex_value c, hex_value d) of
        (Some x, Some y, Some z, Some w) \<Rightarrow> Some (((x * 16 + y) * 16 + z) * 16 + w, rest)
      | _ \<Rightarrow> None)"
| "hex4 _ = None"

text \<open>The UTF-8 encoding of a code point; a surrogate or an out-of-range value gives U+FFFD.\<close>

definition utf8_encode :: "nat \<Rightarrow> string" where
  "utf8_encode n =
     map (\<lambda>b. char_of (b :: nat))
       (if n < 0x80 then [n]
        else if n < 0x800 then [0xC0 + n div 64, 0x80 + n mod 64]
        else if 0xD800 \<le> n \<and> n < 0xE000 \<or> 0x110000 \<le> n then [0xEF, 0xBF, 0xBD]
        else if n < 0x10000 then [0xE0 + n div 4096, 0x80 + n div 64 mod 64, 0x80 + n mod 64]
        else [0xF0 + n div 262144, 0x80 + n div 4096 mod 64, 0x80 + n div 64 mod 64, 0x80 + n mod 64])"

definition simple_escape :: "char \<Rightarrow> char option" where
  "simple_escape c =
     (if c = CHR 0x22 \<or> c = CHR 0x5C \<or> c = CHR ''/'' then Some c
      else if c = CHR ''b'' then Some (CHR 0x08) else if c = CHR ''f'' then Some (CHR 0x0C)
      else if c = CHR ''n'' then Some (CHR 0x0A) else if c = CHR ''r'' then Some (CHR 0x0D)
      else if c = CHR ''t'' then Some (CHR 0x09) else None)"

text \<open>A \<open>\u\<close> escape: a high surrogate takes the following low surrogate escape with it.\<close>

definition unicode_escape :: "string \<Rightarrow> (string \<times> string) option" where
  "unicode_escape s =
     (case hex4 s of
        None \<Rightarrow> None
      | Some (hi, rest) \<Rightarrow>
          if 0xD800 \<le> hi \<and> hi < 0xDC00 then
            (case rest of
               b # u # rest1 \<Rightarrow>
                 if b = CHR 0x5C \<and> u = CHR ''u'' then
                   (case hex4 rest1 of
                      Some (lo, rest2) \<Rightarrow>
                        if 0xDC00 \<le> lo \<and> lo < 0xE000
                        then Some (utf8_encode (0x10000 + (hi - 0xD800) * 1024 + (lo - 0xDC00)), rest2)
                        else Some (utf8_encode hi, rest)
                    | None \<Rightarrow> Some (utf8_encode hi, rest))
                 else Some (utf8_encode hi, rest)
             | _ \<Rightarrow> Some (utf8_encode hi, rest))
          else Some (utf8_encode hi, rest))"

text \<open>The bytes of a string literal after its opening quote, up to and including the closing one.\<close>

fun string_body :: "nat \<Rightarrow> string \<Rightarrow> (string \<times> string) option" where
  "string_body n [] = None"
| "string_body 0 s = None"
| "string_body (Suc n) (c # cs) =
     (if c = CHR 0x22 then Some ([], cs)
      else if c = CHR 0x5C then
        (case cs of
           [] \<Rightarrow> None
         | e # rest \<Rightarrow>
             if e = CHR ''u'' then
               (case unicode_escape rest of
                  None \<Rightarrow> None
                | Some (bytes, rest1) \<Rightarrow> map_option (apfst ((@) bytes)) (string_body n rest1))
             else (case simple_escape e of
                     None \<Rightarrow> None
                   | Some d \<Rightarrow> map_option (apfst ((#) d)) (string_body n rest)))
      else if code_of c < 0x20 then None
      else map_option (apfst ((#) c)) (string_body n cs))"

text \<open>The length of the well-formed UTF-8 sequence at the front, if there is one.\<close>

definition is_cont :: "char \<Rightarrow> bool" where
  "is_cont c \<longleftrightarrow> 0x80 \<le> code_of c \<and> code_of c < 0xC0"

definition utf8_len :: "string \<Rightarrow> nat option" where
  "utf8_len s =
     (case s of
        [] \<Rightarrow> None
      | a # as \<Rightarrow>
          let x = code_of a
          in if x < 0x80 then Some 1
             else case as of
               [] \<Rightarrow> None
             | b # bs \<Rightarrow>
                 let y = code_of b
                 in if 0xC2 \<le> x \<and> x < 0xE0 then (if is_cont b then Some 2 else None)
                    else case bs of
                      [] \<Rightarrow> None
                    | c # cs \<Rightarrow>
                        if 0xE0 \<le> x \<and> x < 0xF0 then
                          (if is_cont b \<and> is_cont c \<and> (x = 0xE0 \<longrightarrow> 0xA0 \<le> y) \<and> (x = 0xED \<longrightarrow> y < 0xA0)
                           then Some 3 else None)
                        else case cs of
                          [] \<Rightarrow> None
                        | d # _ \<Rightarrow>
                            if 0xF0 \<le> x \<and> x < 0xF5 \<and> is_cont b \<and> is_cont c \<and> is_cont d
                               \<and> (x = 0xF0 \<longrightarrow> 0x90 \<le> y) \<and> (x = 0xF4 \<longrightarrow> y < 0x90)
                            then Some 4 else None)"

fun utf8_sanitize :: "nat \<Rightarrow> string \<Rightarrow> string" where
  "utf8_sanitize 0 s = []"
| "utf8_sanitize (Suc n) s =
     (case s of
        [] \<Rightarrow> []
      | c # cs \<Rightarrow>
          (case utf8_len s of
             Some k \<Rightarrow> take k s @ utf8_sanitize n (drop k s)
           | None \<Rightarrow> utf8_encode 0xFFFD @ utf8_sanitize n cs))"

text \<open>A literal as it is spelled, without its quotes, and what it spells.\<close>

definition string_lit :: "string \<Rightarrow> (string \<times> string) option" where
  "string_lit s =
     (case string_body (length s) s of
        None \<Rightarrow> None
      | Some (t, rest) \<Rightarrow> Some (take (length s - Suc (length rest)) s, rest))"

definition unquote :: "string \<Rightarrow> string" where
  "unquote u =
     (case string_body (Suc (length u)) (u @ [CHR 0x22]) of
        None \<Rightarrow> []
      | Some (t, _) \<Rightarrow> utf8_sanitize (length t) t)"

subsection \<open>Numbers\<close>

definition digits1 :: "string \<Rightarrow> (string \<times> string) option" where
  "digits1 s =
     (let ds = takeWhile is_digit s
      in if ds = [] then None else Some (ds, dropWhile is_digit s))"

definition int_part :: "string \<Rightarrow> (string \<times> string) option" where
  "int_part s =
     (case s of
        [] \<Rightarrow> None
      | c # cs \<Rightarrow> if c = CHR ''0'' then Some ([c], cs) else digits1 s)"

definition frac_part :: "string \<Rightarrow> (string \<times> string) option" where
  "frac_part s =
     (case s of
        [] \<Rightarrow> Some ([], s)
      | c # cs \<Rightarrow> if c = CHR ''.'' then map_option (apfst ((#) c)) (digits1 cs) else Some ([], s))"

definition exp_part :: "string \<Rightarrow> (string \<times> string) option" where
  "exp_part s =
     (case s of
        [] \<Rightarrow> Some ([], s)
      | c # cs \<Rightarrow>
          if c = CHR ''e'' \<or> c = CHR ''E'' then
            (case cs of
               [] \<Rightarrow> None
             | sg # ds \<Rightarrow>
                 if sg = CHR ''+'' \<or> sg = CHR ''-''
                 then map_option (apfst (\<lambda>t. c # sg # t)) (digits1 ds)
                 else map_option (apfst ((#) c)) (digits1 cs))
          else Some ([], s))"

definition json_number :: "string \<Rightarrow> (string \<times> string) option" where
  "json_number s =
     (let (sign, body) = (case s of c # cs \<Rightarrow> if c = CHR ''-'' then ([c], cs) else ([], s) | [] \<Rightarrow> ([], s))
      in case int_part body of
           None \<Rightarrow> None
         | Some (i, r1) \<Rightarrow>
             (case frac_part r1 of
                None \<Rightarrow> None
              | Some (f, r2) \<Rightarrow>
                  (case exp_part r2 of
                     None \<Rightarrow> None
                   | Some (e, r3) \<Rightarrow> Some (sign @ i @ f @ e, r3))))"

subsection \<open>Values\<close>

definition literal :: "string \<Rightarrow> raw \<Rightarrow> string \<Rightarrow> (raw \<times> string) option" where
  "literal w v s = (if prefix w s then Some (v, drop (length w) s) else None)"

fun raw_value :: "nat \<Rightarrow> string \<Rightarrow> (raw \<times> string) option"
  and raw_elems :: "nat \<Rightarrow> string \<Rightarrow> (raw list \<times> string) option"
  and raw_members :: "nat \<Rightarrow> string \<Rightarrow> ((string \<times> raw) list \<times> string) option" where
  "raw_value 0 s = None"
| "raw_value (Suc n) s =
     (case skip_ws s of
        [] \<Rightarrow> None
      | c # cs \<Rightarrow>
          if c = CHR 0x22 then map_option (apfst RString) (string_lit cs)
          else if c = CHR ''['' then
            (case skip_ws cs of
               [] \<Rightarrow> None
             | d # ds \<Rightarrow> if d = CHR '']'' then Some (RArray [], ds)
                          else map_option (apfst RArray) (raw_elems n cs))
          else if c = CHR ''{'' then
            (case skip_ws cs of
               [] \<Rightarrow> None
             | d # ds \<Rightarrow> if d = CHR ''}'' then Some (RObject [], ds)
                          else map_option (apfst RObject) (raw_members n cs))
          else if c = CHR ''n'' then literal ''null'' RNull (c # cs)
          else if c = CHR ''t'' then literal ''true'' (RBool True) (c # cs)
          else if c = CHR ''f'' then literal ''false'' (RBool False) (c # cs)
          else map_option (apfst RNumber) (json_number (c # cs)))"
| "raw_elems 0 s = None"
| "raw_elems (Suc n) s =
     (case raw_value n s of
        None \<Rightarrow> None
      | Some (v, rest) \<Rightarrow>
          (case skip_ws rest of
             [] \<Rightarrow> None
           | d # ds \<Rightarrow>
               if d = CHR '']'' then Some ([v], ds)
               else if d = CHR '','' then map_option (apfst ((#) v)) (raw_elems n ds)
               else None))"
| "raw_members 0 s = None"
| "raw_members (Suc n) s =
     (case skip_ws s of
        [] \<Rightarrow> None
      | q # qs \<Rightarrow>
          if q \<noteq> CHR 0x22 then None
          else (case string_lit qs of
            None \<Rightarrow> None
          | Some (k, rest) \<Rightarrow>
              (case skip_ws rest of
                 [] \<Rightarrow> None
               | col # rest1 \<Rightarrow>
                   if col \<noteq> CHR '':'' then None
                   else (case raw_value n rest1 of
                     None \<Rightarrow> None
                   | Some (v, rest2) \<Rightarrow>
                       (case skip_ws rest2 of
                          [] \<Rightarrow> None
                        | d # ds \<Rightarrow>
                            if d = CHR ''}'' then Some ([(k, v)], ds)
                            else if d = CHR '','' then map_option (apfst ((#) (k, v))) (raw_members n ds)
                            else None)))))"

definition maxNestingDepth :: nat where "maxNestingDepth = 10000"

fun raw_depth :: "raw \<Rightarrow> nat" where
  "raw_depth (RArray vs) = Suc (fold max (map raw_depth vs) 0)"
| "raw_depth (RObject ms) = Suc (fold max (map (\<lambda>(k, v). raw_depth v) ms) 0)"
| "raw_depth _ = 0"

definition raw_parse :: "string \<Rightarrow> raw option" where
  "raw_parse s =
     (case raw_value (2 * length s + 2) s of
        None \<Rightarrow> None
      | Some (v, rest) \<Rightarrow> if skip_ws rest = [] \<and> raw_depth v \<le> maxNestingDepth then Some v else None)"

fun decode :: "raw \<Rightarrow> json" where
  "decode RNull = JNull"
| "decode (RBool b) = JBool b"
| "decode (RNumber n) = JNumber n"
| "decode (RString u) = JString (unquote u)"
| "decode (RArray vs) = JArray (map decode vs)"
| "decode (RObject ms) = JObject (map (\<lambda>(k, v). (unquote k, decode v)) ms)"

definition json_parse :: "string \<Rightarrow> json option" where
  "json_parse s = map_option decode (raw_parse s)"

subsection \<open>Object keys and struct fields\<close>

text \<open>\<open>encoding/json\<close> matches a key with a field name up to simple case folding: ASCII letters,
  and the two code points that fold to ASCII letters (U+017F to s, U+212A to k).\<close>

definition lower_char :: "char \<Rightarrow> char" where
  "lower_char c = (if 65 \<le> code_of c \<and> code_of c \<le> 90 then char_of (code_of c + 32) else c)"

fun fold_name :: "string \<Rightarrow> string" where
  "fold_name [] = []"
| "fold_name (c # cs) =
     (if c = CHR 0xC5 then
        (case cs of d # ds \<Rightarrow> if d = CHR 0xBF then CHR ''s'' # fold_name ds else c # fold_name cs | [] \<Rightarrow> [c])
      else if c = CHR 0xE2 then
        (case cs of
           d # e # es \<Rightarrow> if d = CHR 0x84 \<and> e = CHR 0xAA then CHR ''k'' # fold_name es else c # fold_name cs
         | _ \<Rightarrow> c # fold_name cs)
      else lower_char c # fold_name cs)"

definition field_is :: "string \<Rightarrow> string \<Rightarrow> bool" where
  "field_is field k \<longleftrightarrow> fold_name k = field"

subsection \<open>The fuel is enough\<close>

lemma skip_ws_le: "length (skip_ws s) \<le> length s"
  by (simp add: skip_ws_def length_dropWhile_le)

lemma skip_ws_Cons: "skip_ws s = c # cs \<Longrightarrow> length cs < length s"
  using skip_ws_le [of s] by simp

lemma hex4_shorter: "hex4 s = Some (n, rest) \<Longrightarrow> length rest < length s"
  by (cases s rule: hex4.cases) (auto split: option.splits)

lemma unicode_escape_shorter: "unicode_escape s = Some (t, rest) \<Longrightarrow> length rest < length s"
  unfolding unicode_escape_def
  by (auto dest!: hex4_shorter split: option.splits if_splits list.splits prod.splits)

lemma string_body_shorter: "string_body n s = Some (t, rest) \<Longrightarrow> length rest < length s"
proof (induction n s arbitrary: t rest rule: string_body.induct)
  case (3 n c cs)
  then show ?case
    by (auto split: if_splits list.splits option.splits prod.splits dest!: unicode_escape_shorter)
      fastforce+
qed simp_all

lemma string_lit_shorter: "string_lit s = Some (t, rest) \<Longrightarrow> length rest < length s"
  by (auto simp: string_lit_def dest: string_body_shorter split: option.splits)

lemma digits1_shorter: "digits1 s = Some (t, rest) \<Longrightarrow> length rest < length s"
proof -
  assume a: "digits1 s = Some (t, rest)"
  then have "takeWhile is_digit s \<noteq> []" "rest = dropWhile is_digit s"
    by (auto simp: digits1_def Let_def split: if_splits)
  then show ?thesis
    using takeWhile_dropWhile_id [of is_digit s] by (metis length_append length_greater_0_conv less_add_same_cancel2)
qed

lemma int_part_shorter: "int_part s = Some (t, rest) \<Longrightarrow> length rest < length s"
  by (auto simp: int_part_def dest: digits1_shorter split: list.splits if_splits)

lemma frac_part_le: "frac_part s = Some (t, rest) \<Longrightarrow> length rest \<le> length s"
  by (auto simp: frac_part_def dest!: digits1_shorter split: list.splits if_splits)

lemma exp_part_le: "exp_part s = Some (t, rest) \<Longrightarrow> length rest \<le> length s"
  by (auto simp: exp_part_def dest!: digits1_shorter split: list.splits if_splits)

lemma json_number_shorter: "json_number s = Some (t, rest) \<Longrightarrow> length rest < length s"
  by (auto simp: json_number_def Let_def dest!: int_part_shorter frac_part_le exp_part_le
      split: list.splits if_splits option.splits prod.splits)

lemma literal_shorter: "literal w v s = Some (x, rest) \<Longrightarrow> w \<noteq> [] \<Longrightarrow> length rest < length s"
  by (auto simp: literal_def split: if_splits dest!: prefix_length_le intro!: diff_less)

lemma map_apfst_Some: "map_option (apfst f) x = Some (v, rest) \<longleftrightarrow> (\<exists>u. x = Some (u, rest) \<and> v = f u)"
  by (cases x) auto

lemma skip_ws_tail: "skip_ws s = c # cs \<Longrightarrow> length s \<le> n \<Longrightarrow> length cs < n"
  using skip_ws_le [of s] by simp

lemma json_shorter:
  "raw_value n s = Some (v, rest) \<Longrightarrow> length rest < length s"
  "raw_elems n s = Some (vs, rest) \<Longrightarrow> length rest < length s"
  "raw_members n s = Some (ms, rest) \<Longrightarrow> length rest < length s"
proof (induction n arbitrary: s v rest vs ms)
  case 0
  { case 1 then show ?case by simp }
  { case 2 then show ?case by simp }
  { case 3 then show ?case by simp }
next
  case (Suc n)
  { case 1
    obtain c cs where c: "skip_ws s = c # cs" using 1 by (auto split: list.splits)
    then have l: "length (c # cs) \<le> length s" using skip_ws_le [of s] by simp
    have "length rest < length (c # cs)"
      using 1 c Suc.IH(2,3) [of cs] string_lit_shorter [of cs] json_number_shorter [of "c # cs"]
        literal_shorter [of _ _ "c # cs"] skip_ws_Cons [of cs]
      by (auto simp: map_apfst_Some split: if_splits list.splits)
    then show ?case using l by linarith
  next
    case 2
    obtain u r where u: "raw_value n s = Some (u, r)" using 2 by (auto split: option.splits)
    obtain d ds where d: "skip_ws r = d # ds" using 2 u by (auto split: list.splits)
    have "length ds < length s" using Suc.IH(1) [OF u] skip_ws_Cons [OF d] by simp
    then show ?case using 2 u d Suc.IH(2) [of ds] by (auto simp: map_apfst_Some split: if_splits) 
  next
    case 3
    obtain q qs where q: "skip_ws s = q # qs" using 3 by (auto split: list.splits)
    obtain k r where k: "string_lit qs = Some (k, r)" using 3 q by (auto split: option.splits if_splits)
    obtain e es where e: "skip_ws r = e # es" using 3 q k by (auto split: list.splits if_splits)
    obtain u r2 where u: "raw_value n es = Some (u, r2)" using 3 q k e by (auto split: option.splits if_splits)
    obtain d ds where d: "skip_ws r2 = d # ds" using 3 q k e u by (auto split: list.splits if_splits)
    have "length ds < length s"
      using skip_ws_Cons [OF q] string_lit_shorter [OF k] skip_ws_Cons [OF e] Suc.IH(1) [OF u] skip_ws_Cons [OF d]
      by linarith
    then show ?case using 3 q k e u d Suc.IH(3) [of ds] by (auto simp: map_apfst_Some split: if_splits)
  }
qed

text \<open>More fuel than twice the length changes nothing.\<close>

lemma json_fuel:
  "2 * length s < n \<Longrightarrow> raw_value (Suc n) s = raw_value n s"
  "2 * length s + 1 < n \<Longrightarrow> raw_elems (Suc n) s = raw_elems n s"
  "2 * length s < n \<Longrightarrow> raw_members (Suc n) s = raw_members n s"
proof (induction n arbitrary: s)
  case 0
  { case 1 then show ?case by simp }
  { case 2 then show ?case by simp }
  { case 3 then show ?case by simp }
next
  case (Suc n)
  { case 1
    show ?case
    proof (cases "skip_ws s")
      case (Cons c cs)
      have "length cs < length s" using skip_ws_Cons [OF Cons] .
      then have "raw_elems (Suc n) cs = raw_elems n cs" "raw_members (Suc n) cs = raw_members n cs"
        using 1 by (intro Suc.IH(2,3); linarith)+
      then show ?thesis
        by (simp only: raw_value.simps(2) [of "Suc n" s] raw_value.simps(2) [of n s] Cons list.case)
    qed simp
  next
    case 2
    have v: "raw_value (Suc n) s = raw_value n s" using 2 by (intro Suc.IH(1)) linarith
    have t: "raw_elems (Suc n) ds = raw_elems n ds"
      if "raw_value n s = Some (u, r)" "skip_ws r = d # ds" for u r d ds
      using 2 json_shorter(1) [OF that(1)] skip_ws_Cons [OF that(2)] by (intro Suc.IH(2)) linarith
    show ?case
      unfolding raw_elems.simps(2) [of "Suc n" s] raw_elems.simps(2) [of n s] v
      by (auto split: option.splits prod.splits list.splits simp: t simp del: raw_elems.simps raw_value.simps)
  next
    case 3
    have v: "raw_value (Suc n) es = raw_value n es"
      if "skip_ws s = q # qs" "string_lit qs = Some (k, r)" "skip_ws r = e # es" for q qs k r e es
      using 3 skip_ws_Cons [OF that(1)] string_lit_shorter [OF that(2)] skip_ws_Cons [OF that(3)]
      by (intro Suc.IH(1)) linarith
    have t: "raw_members (Suc n) ds = raw_members n ds"
      if "skip_ws s = q # qs" "string_lit qs = Some (k, r)" "skip_ws r = e # es"
        "raw_value n es = Some (u, r2)" "skip_ws r2 = d # ds" for q qs k r e es u r2 d ds
      using 3 skip_ws_Cons [OF that(1)] string_lit_shorter [OF that(2)] skip_ws_Cons [OF that(3)]
        json_shorter(1) [OF that(4)] skip_ws_Cons [OF that(5)] by (intro Suc.IH(3)) linarith
    show ?case
      unfolding raw_members.simps(2) [of "Suc n" s] raw_members.simps(2) [of n s]
      by (auto split: option.splits prod.splits list.splits simp: v t simp del: raw_members.simps raw_value.simps)
  }
qed

lemma raw_value_enough: "2 * length s < n \<Longrightarrow> raw_value (n + k) s = raw_value n s"
proof (induction k)
  case (Suc k)
  then show ?case using json_fuel(1) [of s "n + k"] by simp
qed simp

end
