(* ===== verification/Classifier.thy ===== *)
theory Classifier
  imports Fault Json
begin

text \<open>
  \<open>internal/fault/classifier.go\<close> and \<open>internal/fault/retry_after.go\<close>: what an upstream answer or
  a transport error means for the request, the key and the model. \<open>pt\<close> stands for
  \<open>http.ParseTime\<close> (the instant an HTTP date names, if it is one).
\<close>

subsection \<open>Responses\<close>

text \<open>The body of a response is what a reader of it gets: the bytes, and whether reading ends with
  an error instead of the end of the file.\<close>

record httpBody =
  bodyBytes :: string
  bodyFails :: bool

record httpResponse =
  StatusCode :: int
  retryAfterHeader :: string
  requestIDHeader :: string
  Body :: "httpBody option"

definition maximumErrorSummaryBytes :: nat where "maximumErrorSummaryBytes = 8192"
definition maximumPublicMessageBytes :: nat where "maximumPublicMessageBytes = 1024"

definition credentialErrorValues :: "string set" where
  "credentialErrorValues = {''invalid_api_key'', ''authentication_error'', ''account_deactivated''}"

definition ParseRetryAfter :: "(string \<Rightarrow> time option) \<Rightarrow> string \<Rightarrow> time \<Rightarrow> duration \<times> bool" where
  "ParseRetryAfter pt s now =
     (let v = trim_space s
      in if v = [] then (0, False)
         else (case parse_int v of
           Some seconds \<Rightarrow>
             if seconds < 0 \<or> seconds > 9223372036854775807 div second then (0, False)
             else (wrap64 (seconds * second), True)
         | None \<Rightarrow>
             (case pt v of
                None \<Rightarrow> (0, False)
              | Some deadline \<Rightarrow>
                  (let d = time_sub deadline now in (if d < 0 then 0 else d, True)))))"

subsection \<open>The summary of an error body\<close>

record errorSummary =
  summaryCode :: string
  summaryTypeName :: string
  summaryMessage :: string

definition empty_summary :: errorSummary where
  "empty_summary = \<lparr>summaryCode = [], summaryTypeName = [], summaryMessage = []\<rparr>"

definition invalidCredential :: "errorSummary \<Rightarrow> bool" where
  "invalidCredential s \<longleftrightarrow>
     list_ex (\<lambda>v. v \<in> credentialErrorValues) [summaryCode s, summaryTypeName s]"

definition safeMessageValue :: "string \<Rightarrow> string" where
  "safeMessageValue message =
     (let trimmed = trim_space message
      in if length trimmed > maximumPublicMessageBytes then take maximumPublicMessageBytes trimmed
         else trimmed)"

definition safe_char :: "char \<Rightarrow> bool" where
  "safe_char c \<longleftrightarrow>
     (let d = lower_char c
      in 97 \<le> code_of d \<and> code_of d \<le> 122 \<or> 48 \<le> code_of d \<and> code_of d \<le> 57
         \<or> d = CHR ''_'' \<or> d = CHR ''-'' \<or> d = CHR ''.'')"

definition lowerASCII :: "string \<Rightarrow> string" where
  "lowerASCII s = map lower_char s"

text \<open>A raw message that is missing or not a JSON string gives the empty string.\<close>

definition safeSummaryValue :: "json option \<Rightarrow> string" where
  "safeSummaryValue raw =
     (case raw of
        Some (JString v) \<Rightarrow>
          if v = [] \<or> length v > 128 then []
          else if list_all safe_char v then lowerASCII v else []
      | _ \<Rightarrow> [])"

text \<open>Decoding into the anonymous struct of \<open>readErrorSummary\<close>: a later key overwrites an earlier
  one, null leaves a field as it is, a value of another type is an error.\<close>

record envelope =
  envCode :: "json option"
  envType :: "json option"
  envMessage :: string

fun decode_error_fields :: "(string \<times> json) list \<Rightarrow> envelope \<Rightarrow> envelope option" where
  "decode_error_fields [] e = Some e"
| "decode_error_fields ((k, v) # rest) e =
     (if field_is ''code'' k then decode_error_fields rest (e\<lparr>envCode := Some v\<rparr>)
      else if field_is ''type'' k then decode_error_fields rest (e\<lparr>envType := Some v\<rparr>)
      else if field_is ''message'' k then
        (case v of
           JString m \<Rightarrow> decode_error_fields rest (e\<lparr>envMessage := m\<rparr>)
         | JNull \<Rightarrow> decode_error_fields rest e
         | _ \<Rightarrow> None)
      else decode_error_fields rest e)"

fun decode_envelope :: "(string \<times> json) list \<Rightarrow> envelope \<Rightarrow> envelope option" where
  "decode_envelope [] e = Some e"
| "decode_envelope ((k, v) # rest) e =
     (if field_is ''error'' k then
        (case v of
           JObject ms \<Rightarrow> Option.bind (decode_error_fields ms e) (decode_envelope rest)
         | JNull \<Rightarrow> decode_envelope rest e
         | _ \<Rightarrow> None)
      else decode_envelope rest e)"

definition unmarshal_envelope :: "string \<Rightarrow> envelope option" where
  "unmarshal_envelope payload =
     (let zero = \<lparr>envCode = None, envType = None, envMessage = []\<rparr>
      in case json_parse payload of
           Some (JObject ms) \<Rightarrow> decode_envelope ms zero
         | Some JNull \<Rightarrow> Some zero
         | _ \<Rightarrow> None)"

definition readErrorSummary :: "httpBody option \<Rightarrow> errorSummary" where
  "readErrorSummary body =
     (case body of
        None \<Rightarrow> empty_summary
      | Some b \<Rightarrow>
          if bodyFails b \<and> length (bodyBytes b) < maximumErrorSummaryBytes then empty_summary
          else (case unmarshal_envelope (take maximumErrorSummaryBytes (bodyBytes b)) of
            None \<Rightarrow> empty_summary
          | Some e \<Rightarrow>
              \<lparr>summaryCode = safeSummaryValue (envCode e), summaryTypeName = safeSummaryValue (envType e),
               summaryMessage = safeMessageValue (envMessage e)\<rparr>))"

subsection \<open>Faults\<close>

definition credentialFault :: "int \<Rightarrow> bool \<Rightarrow> fault" where
  "credentialFault status disableKey =
     (let f = (New_fault status ScopeCredential ''authentication_error'' ''invalid_api_key''
                 ''The upstream credential is invalid.'' nil_error)\<lparr>DisableKey := disableKey\<rparr>
      in if \<not> disableKey then
           f\<lparr>Scope := ScopeRequest, PublicCode := ''upstream_request_rejected'',
             PublicMessage := ''The upstream service rejected the request.''\<rparr>
         else f)"

definition requestFault :: "int \<Rightarrow> string \<Rightarrow> fault" where
  "requestFault status upstreamMessage =
     New_fault status ScopeRequest ''invalid_request_error'' ''upstream_request_rejected''
       (if upstreamMessage = [] then ''The upstream service rejected the request.'' else upstreamMessage)
       nil_error"

definition upstreamFault :: "int \<Rightarrow> bool \<Rightarrow> string \<Rightarrow> string \<Rightarrow> goError \<Rightarrow> fault" where
  "upstreamFault status retryable code message cause =
     (New_fault status ScopeUpstreamGlobal ''server_error'' code message cause)\<lparr>Retryable := retryable\<rparr>"

definition isTimeout :: "goError \<Rightarrow> bool" where
  "isTimeout err \<longleftrightarrow> errors_as_net err = Some True"

definition isConnectionError :: "goError \<Rightarrow> bool" where
  "isConnectionError err \<longleftrightarrow>
     errors_as_net err \<noteq> None \<or> errors_is err EOF \<or> errors_is err ErrUnexpectedEOF
     \<or> errors_is err ECONNRESET \<or> errors_is err ECONNREFUSED \<or> errors_is err EPIPE"

definition classifyRequestError :: "goError \<Rightarrow> fault" where
  "classifyRequestError err =
     (case errors_as_fault err of
        Some f \<Rightarrow> f
      | None \<Rightarrow>
          if errors_is err Canceled then
            New_fault 499 ScopeRequest ''invalid_request_error'' ''request_canceled''
              ''The request was canceled.'' err
          else if errors_is err ErrFirstByteTimeout then
            upstreamFault 504 False ''upstream_timeout''
              ''The upstream request timed out before returning a client-visible response.'' err
          else if errors_is err DeadlineExceeded \<or> isTimeout err then
            upstreamFault 504 True ''upstream_timeout'' ''The upstream request timed out.'' err
          else if isConnectionError err then
            upstreamFault 502 True ''upstream_connection_error'' ''The upstream connection failed.'' err
          else upstreamFault 502 False ''upstream_error'' ''The upstream request failed.'' err)"

definition Classify ::
  "(string \<Rightarrow> time option) \<Rightarrow> httpResponse option \<Rightarrow> goError \<Rightarrow> bool \<Rightarrow> time \<Rightarrow> fault" where
  "Classify pt response requestErr modelsRequest now =
     (if requestErr \<noteq> nil_error then classifyRequestError requestErr
      else case response of
        None \<Rightarrow> upstreamFault 502 False ''upstream_error'' ''The upstream request failed.'' nil_error
      | Some r \<Rightarrow>
          let status = StatusCode r;
              summary = readErrorSummary (Body r);
              (retryAfter, valid) = ParseRetryAfter pt (retryAfterHeader r) now
          in if status = 401 then credentialFault status True
             else if status = 403 \<and> invalidCredential summary then credentialFault status True
             else if status = 403 \<and> modelsRequest then credentialFault status True
             else if status = 403 then
               (New_fault status ScopeModelCredential ''invalid_request_error'' ''model_not_available''
                  ''The upstream credential cannot access this model.'' nil_error)
                 \<lparr>Retryable := True, BlockModel := True\<rparr>
             else if 400 \<le> status \<and> status \<le> 499 \<and> invalidCredential summary then
               credentialFault status False
             else if status = 429 then
               (New_fault status ScopeTransientCredential ''rate_limit_error'' ''rate_limit_exceeded''
                  ''The upstream service rate limited the request.'' nil_error)
                 \<lparr>Retryable := True, RetryAfter := retryAfter, retryAfterValid := valid\<rparr>
             else if status = 400 \<or> status = 404 \<or> status = 409 \<or> status = 422 then
               requestFault status (summaryMessage summary)
             else if status = 500 \<or> status = 502 \<or> status = 503 \<or> status = 504 \<or> status = 529 then
               (let f = upstreamFault status True ''upstream_error''
                          ''The upstream service is temporarily unavailable.'' nil_error
                in if retryAfter > 0 then f\<lparr>RetryAfter := retryAfter, retryAfterValid := valid\<rparr> else f)
             else if 500 \<le> status \<and> status \<le> 599 then
               upstreamFault status False ''upstream_error'' ''The upstream service rejected the request.'' nil_error
             else if 400 \<le> status \<and> status \<le> 499 then requestFault status (summaryMessage summary)
             else upstreamFault 502 False ''upstream_protocol_error''
                    ''The upstream response was unexpected.'' nil_error)"

subsection \<open>Facts\<close>

lemma ParseRetryAfter_nonneg: "0 \<le> fst (ParseRetryAfter pt s now)"
proof -
  have "wrap64 (n * second) = n * second" if "0 \<le> n" "n \<le> 9223372036854775807 div second" for n
    using that by (intro wrap64_id) (auto simp: in_int64_def)
  then show ?thesis by (auto simp: ParseRetryAfter_def Let_def split: option.splits)
qed

lemma ParseRetryAfter_invalid: "\<not> snd (ParseRetryAfter pt s now) \<Longrightarrow> fst (ParseRetryAfter pt s now) = 0"
  by (auto simp: ParseRetryAfter_def Let_def split: option.splits if_splits)

lemma safeMessageValue_le: "length (safeMessageValue m) \<le> maximumPublicMessageBytes"
  by (simp add: safeMessageValue_def Let_def)

lemma summaryMessage_le: "length (summaryMessage (readErrorSummary b)) \<le> maximumPublicMessageBytes"
  by (auto simp: readErrorSummary_def empty_summary_def safeMessageValue_le split: option.splits)

lemma fault_simps [simp]:
  "HTTPStatus (credentialFault st d) = st" "Retryable (credentialFault st d) = False"
  "DisableKey (credentialFault st d) = d" "BlockModel (credentialFault st d) = False"
  "RetryAfter (credentialFault st d) = 0" "Cause (credentialFault st d) = nil_error"
  "HTTPStatus (requestFault st m) = st" "Retryable (requestFault st m) = False"
  "DisableKey (requestFault st m) = False" "BlockModel (requestFault st m) = False"
  "RetryAfter (requestFault st m) = 0" "Scope (requestFault st m) = ScopeRequest"
  "HTTPStatus (upstreamFault st r c m e) = st" "Retryable (upstreamFault st r c m e) = r"
  "DisableKey (upstreamFault st r c m e) = False" "BlockModel (upstreamFault st r c m e) = False"
  "RetryAfter (upstreamFault st r c m e) = 0" "Scope (upstreamFault st r c m e) = ScopeUpstreamGlobal"
  "Cause (upstreamFault st r c m e) = e"
  by (simp_all add: credentialFault_def requestFault_def upstreamFault_def New_fault_def Let_def)

lemma fault_messages [simp]:
  "PublicMessage (upstreamFault st r c m e) = m"
  "PublicMessage (requestFault st m) = (if m = [] then ''The upstream service rejected the request.'' else m)"
  "PublicMessage (credentialFault st d) =
     (if d then ''The upstream credential is invalid.'' else ''The upstream service rejected the request.'')"
  by (simp_all add: credentialFault_def requestFault_def upstreamFault_def New_fault_def Let_def)

lemma New_fault_simps [simp]:
  "HTTPStatus (New_fault st sc t c m e) = st" "Scope (New_fault st sc t c m e) = sc"
  "Retryable (New_fault st sc t c m e) = False" "RetryAfter (New_fault st sc t c m e) = 0"
  "DisableKey (New_fault st sc t c m e) = False" "BlockModel (New_fault st sc t c m e) = False"
  "PublicMessage (New_fault st sc t c m e) = m" "Cause (New_fault st sc t c m e) = e"
  by (simp_all add: New_fault_def)

lemma status_chain:
  fixes s :: int
  shows "(if s = 401 then A else if s = 403 \<and> b then A else if s = 403 \<and> m then A else if s = 403 then B
     else if 400 \<le> s \<and> s \<le> 499 \<and> b then C else if s = 429 then D
     else if s = 400 \<or> s = 404 \<or> s = 409 \<or> s = 422 then E
     else if s = 500 \<or> s = 502 \<or> s = 503 \<or> s = 504 \<or> s = 529 then F
     else if 500 \<le> s \<and> s \<le> 599 then G else if 400 \<le> s \<and> s \<le> 499 then E else H) =
    (if s = 401 \<or> s = 403 \<and> (b \<or> m) then A else if s = 403 then B
     else if 400 \<le> s \<and> s \<le> 499 \<and> b then C else if s = 429 then D
     else if 400 \<le> s \<and> s \<le> 499 then E else if s \<in> {500, 502, 503, 504, 529} then F
     else if 500 \<le> s \<and> s \<le> 599 then G else H)"
  by simp

text \<open>The answer of an upstream response, by its status and what its body names.\<close>

lemma Classify_response:
  "Classify pt (Some r) nil_error mr now =
     (let status = StatusCode r; summary = readErrorSummary (Body r);
          retryAfter = fst (ParseRetryAfter pt (retryAfterHeader r) now);
          valid = snd (ParseRetryAfter pt (retryAfterHeader r) now)
      in if status = 401 \<or> status = 403 \<and> (invalidCredential summary \<or> mr) then credentialFault status True
         else if status = 403 then
           (New_fault status ScopeModelCredential ''invalid_request_error'' ''model_not_available''
              ''The upstream credential cannot access this model.'' nil_error)
             \<lparr>Retryable := True, BlockModel := True\<rparr>
         else if 400 \<le> status \<and> status \<le> 499 \<and> invalidCredential summary then credentialFault status False
         else if status = 429 then
           (New_fault status ScopeTransientCredential ''rate_limit_error'' ''rate_limit_exceeded''
              ''The upstream service rate limited the request.'' nil_error)
             \<lparr>Retryable := True, RetryAfter := retryAfter, retryAfterValid := valid\<rparr>
         else if 400 \<le> status \<and> status \<le> 499 then requestFault status (summaryMessage summary)
         else if status \<in> {500, 502, 503, 504, 529} then
           (let f = upstreamFault status True ''upstream_error''
                      ''The upstream service is temporarily unavailable.'' nil_error
            in if retryAfter > 0 then f\<lparr>RetryAfter := retryAfter, retryAfterValid := valid\<rparr> else f)
         else if 500 \<le> status \<and> status \<le> 599 then
           upstreamFault status False ''upstream_error'' ''The upstream service rejected the request.'' nil_error
         else upstreamFault 502 False ''upstream_protocol_error''
                ''The upstream response was unexpected.'' nil_error)"
  unfolding Classify_def Let_def case_prod_beta option.case simp_thms if_False
  by (rule status_chain)

subsection \<open>Properties\<close>

text \<open>what a response does to its key. A key is disabled only by a 401, or by a 403 that names a
  credential error or answers the model list; any other 403 blocks the model for the key; the
  request is retried exactly for that block, for a 429 whose body does not name a credential error,
  and for 500, 502, 503, 504 and 529; a disabling answer is never retried; the status is passed on
  and Retry-After is never negative.\<close>

theorem classify_policy:
  "let f = Classify pt (Some r) nil_error mr now; st = StatusCode r;
       bad = invalidCredential (readErrorSummary (Body r))
   in (DisableKey f \<longleftrightarrow> st = 401 \<or> st = 403 \<and> (bad \<or> mr))
    \<and> (BlockModel f \<longleftrightarrow> st = 403 \<and> \<not> bad \<and> \<not> mr)
    \<and> (Retryable f \<longleftrightarrow> BlockModel f \<or> st = 429 \<and> \<not> bad \<or> st \<in> {500, 502, 503, 504, 529})
    \<and> 0 \<le> RetryAfter f
    \<and> (RetryAfter f = 0 \<or> st \<in> {429, 500, 502, 503, 504, 529})
    \<and> HTTPStatus f = (if 400 \<le> st \<and> st \<le> 599 then st else 502)"
  using ParseRetryAfter_nonneg [of pt "retryAfterHeader r" now]
  unfolding Classify_response Let_def by auto

text \<open>What a client may read of an upstream error body. The text of the body reaches the client
  only as the message of a rejected request (4xx, not 401, 403 or 429, no credential error named), cut
  to 1024 bytes; in every other case the message is one of the router's own.\<close>

theorem classify_message:
  "let f = Classify pt (Some r) nil_error mr now; st = StatusCode r; summary = readErrorSummary (Body r)
   in length (PublicMessage f) \<le> 1024
    \<and> (PublicMessage f \<in> {''The upstream credential is invalid.'', ''The upstream credential cannot access this model.'',
         ''The upstream service rejected the request.'', ''The upstream service rate limited the request.'',
         ''The upstream service is temporarily unavailable.'', ''The upstream response was unexpected.''}
       \<or> PublicMessage f = summaryMessage summary \<and> Scope f = ScopeRequest
         \<and> 400 \<le> st \<and> st \<le> 499 \<and> st \<notin> {401, 403, 429} \<and> \<not> invalidCredential summary)"
  using summaryMessage_le [of "Body r"]
  unfolding Classify_response Let_def maximumPublicMessageBytes_def by auto

end
