(* ===== verification/Budget.thy ===== *)
theory Budget
  imports Runtime_Config
begin

text \<open>
  \<open>internal/router/budget.go\<close>: the deadlines and the attempt cap of one request. A zero deadline is
  Go's zero time and means none.
\<close>

record budget =
  connectTimeout :: duration
  firstByteTimeout :: duration
  firstByteDeadline :: time
  firstTokenDeadline :: time
  totalDeadline :: time
  retryDeadline :: time
  maxAttempts :: int
  streamFirstTokenTimeout :: duration
  streamIdleTimeout :: duration

definition defaultRetryBudgetMS :: int where "defaultRetryBudgetMS = 120000"
definition defaultMaxAttemptsPerRequest :: int where "defaultMaxAttemptsPerRequest = 5"
definition defaultStreamFirstTokenTimeoutMS :: int where "defaultStreamFirstTokenTimeoutMS = 60000"
definition defaultStreamIdleTimeoutMS :: int where "defaultStreamIdleTimeoutMS = 180000"

text \<open>A value that is unset (zero or negative) is replaced by its default.\<close>

definition or_default :: "int \<Rightarrow> int \<Rightarrow> int" where
  "or_default v d = (if v \<le> 0 then d else v)"

definition newBudget :: "runtimeSnapshot \<Rightarrow> time \<Rightarrow> bool \<Rightarrow> budget" where
  "newBudget s now stream =
     (let b0 = \<lparr>connectTimeout = ms_duration (or_default (ConnectTimeoutMS s) 1000),
                firstByteTimeout = ms_duration (or_default (FirstByteTimeoutMS s) 1000),
                firstByteDeadline = 0, firstTokenDeadline = 0, totalDeadline = 0, retryDeadline = 0,
                maxAttempts = 0, streamFirstTokenTimeout = 0, streamIdleTimeout = 0\<rparr>;
          b1 = b0\<lparr>streamIdleTimeout := ms_duration (or_default (StreamIdleTimeoutMS s) defaultStreamIdleTimeoutMS)\<rparr>;
          b2 = (if stream then
                  b1\<lparr>streamFirstTokenTimeout :=
                       ms_duration (or_default (StreamFirstTokenTimeoutMS s) defaultStreamFirstTokenTimeoutMS)\<rparr>
                else b1);
          b3 = (if \<not> stream then
                  b2\<lparr>totalDeadline := now + ms_duration (or_default (NonstreamTotalTimeoutMS s) 1000)\<rparr>
                else b2);
          b4 = b3\<lparr>retryDeadline := now + ms_duration (or_default (RetryBudgetMS s) defaultRetryBudgetMS)\<rparr>;
          b5 = (if totalDeadline b4 \<noteq> 0 \<and> retryDeadline b4 > totalDeadline b4
                then b4\<lparr>retryDeadline := totalDeadline b4\<rparr> else b4);
          b6 = b5\<lparr>maxAttempts := or_default (MaxAttemptsPerRequest s) defaultMaxAttemptsPerRequest\<rparr>
      in b6)"

definition preCommitDeadline :: "budget \<Rightarrow> time" where
  "preCommitDeadline b =
     (if totalDeadline b \<noteq> 0 \<and> (retryDeadline b = 0 \<or> totalDeadline b < retryDeadline b)
      then totalDeadline b else retryDeadline b)"

definition FirstTokenDeadline :: "budget \<Rightarrow> time" where
  "FirstTokenDeadline b = (if firstTokenDeadline b \<noteq> 0 then firstTokenDeadline b else firstByteDeadline b)"

definition forAttempt :: "time \<Rightarrow> budget \<Rightarrow> budget" where
  "forAttempt now b =
     (let b1 = b\<lparr>firstByteDeadline := now + firstByteTimeout b\<rparr>;
          b2 = (if preCommitDeadline b1 \<noteq> 0 \<and> preCommitDeadline b1 < firstByteDeadline b1
                then b1\<lparr>firstByteDeadline := preCommitDeadline b1\<rparr> else b1)
      in if streamFirstTokenTimeout b2 > 0 then
           (let b3 = b2\<lparr>firstTokenDeadline := now + streamFirstTokenTimeout b2\<rparr>
            in if preCommitDeadline b3 \<noteq> 0 \<and> preCommitDeadline b3 < firstTokenDeadline b3
               then b3\<lparr>firstTokenDeadline := preCommitDeadline b3\<rparr> else b3)
         else b2)"

subsection \<open>Facts\<close>

lemma or_default_pos: "0 < d \<Longrightarrow> 0 < or_default v d"
  by (simp add: or_default_def)

lemma newBudget_fields:
  "connectTimeout (newBudget s now stream) = ms_duration (or_default (ConnectTimeoutMS s) 1000)"
  "firstByteTimeout (newBudget s now stream) = ms_duration (or_default (FirstByteTimeoutMS s) 1000)"
  "streamIdleTimeout (newBudget s now stream)
     = ms_duration (or_default (StreamIdleTimeoutMS s) defaultStreamIdleTimeoutMS)"
  "streamFirstTokenTimeout (newBudget s now stream)
     = (if stream then ms_duration (or_default (StreamFirstTokenTimeoutMS s) defaultStreamFirstTokenTimeoutMS) else 0)"
  "totalDeadline (newBudget s now stream)
     = (if stream then 0 else now + ms_duration (or_default (NonstreamTotalTimeoutMS s) 1000))"
  "maxAttempts (newBudget s now stream) = or_default (MaxAttemptsPerRequest s) defaultMaxAttemptsPerRequest"
  "firstTokenDeadline (newBudget s now stream) = 0"
  by (simp_all add: newBudget_def Let_def)

lemma newBudget_retryDeadline:
  "retryDeadline (newBudget s now stream) =
     (let r = now + ms_duration (or_default (RetryBudgetMS s) defaultRetryBudgetMS);
          t = totalDeadline (newBudget s now stream)
      in if t \<noteq> 0 \<and> r > t then t else r)"
  by (simp add: newBudget_def Let_def)

lemma newBudget_maxAttempts: "1 \<le> maxAttempts (newBudget s now stream)"
  by (simp add: newBudget_fields or_default_def defaultMaxAttemptsPerRequest_def)

lemma preCommitDeadline_upd [simp]:
  "preCommitDeadline (b\<lparr>firstByteDeadline := x\<rparr>) = preCommitDeadline b"
  "preCommitDeadline (b\<lparr>firstTokenDeadline := x\<rparr>) = preCommitDeadline b"
  by (simp_all add: preCommitDeadline_def)

lemma forAttempt_fields [simp]:
  "totalDeadline (forAttempt t b) = totalDeadline b" "retryDeadline (forAttempt t b) = retryDeadline b"
  "maxAttempts (forAttempt t b) = maxAttempts b"
  "streamFirstTokenTimeout (forAttempt t b) = streamFirstTokenTimeout b"
  by (simp_all add: forAttempt_def Let_def)

lemma forAttempt_deadlines:
  "firstByteDeadline (forAttempt t b) =
     (if preCommitDeadline b \<noteq> 0 \<and> preCommitDeadline b < t + firstByteTimeout b
      then preCommitDeadline b else t + firstByteTimeout b)"
  "firstTokenDeadline (forAttempt t b) =
     (if streamFirstTokenTimeout b > 0 then
        (if preCommitDeadline b \<noteq> 0 \<and> preCommitDeadline b < t + streamFirstTokenTimeout b
         then preCommitDeadline b else t + streamFirstTokenTimeout b)
      else firstTokenDeadline b)"
  by (simp_all add: forAttempt_def Let_def)

text \<open>The settings whose milliseconds fit into a duration; every validated snapshot has them.\<close>

definition small_settings :: "runtimeSnapshot \<Rightarrow> bool" where
  "small_settings s \<longleftrightarrow>
     list_all (\<lambda>v. v \<le> 9223372036854)
       [ConnectTimeoutMS s, FirstByteTimeoutMS s, NonstreamTotalTimeoutMS s, RetryBudgetMS s,
        StreamFirstTokenTimeoutMS s, StreamIdleTimeoutMS s]"

lemma ms_or_default:
  "v \<le> 9223372036854 \<Longrightarrow> 0 < d \<Longrightarrow> d \<le> 9223372036854 \<Longrightarrow>
     0 < ms_duration (or_default v d) \<and> ms_duration (or_default v d) = or_default v d * millisecond"
  by (simp add: ms_duration_small or_default_def)

lemma Validate_small: "Validate s = None \<Longrightarrow> small_settings s"
  using Validate_None_ranges [of s] by (auto simp: small_settings_def)

lemmas budget_consts = defaultRetryBudgetMS_def defaultMaxAttemptsPerRequest_def
  defaultStreamFirstTokenTimeoutMS_def defaultStreamIdleTimeoutMS_def

definition sample_settings :: runtimeSnapshot where
  "sample_settings = zero_snapshot
     \<lparr>QueueCapacity := 100, QueueWaitTimeoutMS := 60000, ConnectTimeoutMS := 10000, FirstByteTimeoutMS := 120000,
      NonstreamTotalTimeoutMS := 300000, ShutdownGraceMS := 30000, RequestLogRetentionDays := 30,
      MaxAttemptsPerRequest := 5, RetryBudgetMS := 120000\<rparr>"

subsection \<open>Properties\<close>

text \<open>The deadlines of a request are ordered. With validated settings every timeout is positive,
  the retry window ends no later than the total deadline of a non-streaming request and a stream has
  no total deadline, the attempt cap is between one and fifty, and whenever an attempt starts its
  first-byte and first-token deadlines never lie past the retry window.\<close>

theorem budget_ordered:
  assumes "Validate s = None" and "0 < now" and "b = newBudget s now stream" and "b' = forAttempt t' b"
  shows "0 < connectTimeout b \<and> 0 < firstByteTimeout b \<and> 0 < streamIdleTimeout b
    \<and> now < retryDeadline b
    \<and> (if stream then totalDeadline b = 0 \<and> 0 < streamFirstTokenTimeout b
       else retryDeadline b \<le> totalDeadline b \<and> streamFirstTokenTimeout b = 0)
    \<and> preCommitDeadline b = retryDeadline b
    \<and> 1 \<le> maxAttempts b \<and> maxAttempts b \<le> 50
    \<and> firstByteDeadline b' \<le> retryDeadline b \<and> firstByteDeadline b' \<le> t' + firstByteTimeout b
    \<and> FirstTokenDeadline b' \<le> retryDeadline b"
proof -
  note sm = Validate_small [OF assms(1), unfolded small_settings_def, simplified]
  note ma = Validate_None_ranges(4,5) [OF assms(1)]
  have t: "0 < ms_duration (or_default (ConnectTimeoutMS s) 1000)"
    "0 < ms_duration (or_default (FirstByteTimeoutMS s) 1000)"
    "0 < ms_duration (or_default (StreamIdleTimeoutMS s) defaultStreamIdleTimeoutMS)"
    "0 < ms_duration (or_default (RetryBudgetMS s) defaultRetryBudgetMS)"
    "0 < ms_duration (or_default (NonstreamTotalTimeoutMS s) 1000)"
    "0 < ms_duration (or_default (StreamFirstTokenTimeoutMS s) defaultStreamFirstTokenTimeoutMS)"
    using sm by (simp_all add: ms_or_default budget_consts or_default_pos)
  have pos: "0 < connectTimeout b" "0 < firstByteTimeout b" "0 < streamIdleTimeout b"
    using t by (simp_all add: assms(3) newBudget_fields)
  have r: "now < retryDeadline b"
    using t assms(2) by (simp add: assms(3) newBudget_retryDeadline newBudget_fields Let_def)
  have tot: "if stream then totalDeadline b = 0 \<and> 0 < streamFirstTokenTimeout b
       else retryDeadline b \<le> totalDeadline b \<and> streamFirstTokenTimeout b = 0"
    using t assms(2) by (simp add: assms(3) newBudget_retryDeadline newBudget_fields Let_def)
  have pc: "preCommitDeadline b = retryDeadline b"
    using r tot assms(2) by (auto simp: preCommitDeadline_def split: if_splits)
  have m: "1 \<le> maxAttempts b" "maxAttempts b \<le> 50"
    using ma by (simp_all add: assms(3) newBudget_fields or_default_def)
  have fb: "firstByteDeadline b' \<le> retryDeadline b" "firstByteDeadline b' \<le> t' + firstByteTimeout b"
    using pc r assms(2) by (auto simp: assms(4) forAttempt_deadlines)
  have "FirstTokenDeadline b' \<le> retryDeadline b"
    using pc r assms(2) fb(1) tot unfolding FirstTokenDeadline_def
    by (auto simp: assms(4) forAttempt_deadlines split: if_splits) (simp add: assms(3) newBudget_fields)+
  then show ?thesis using pos r tot pc m fb by blast
qed

theorem budget_ordered_witness:
  "Validate sample_settings = None
    \<and> firstByteDeadline (forAttempt 7 (newBudget sample_settings 5 True)) \<le> retryDeadline (newBudget sample_settings 5 True)"
proof -
  have v: "Validate sample_settings = None" by code_simp
  have "(0::int) < 5" by simp
  from budget_ordered [OF v this refl refl, of True 7] v show ?thesis by blast
qed

end
