(* ===== verification/Router.thy ===== *)
theory Router
  imports Wait_Queue Classifier Budget
begin

text \<open>
  \<open>internal/router/attempt.go\<close>: one client request tries keys until a response arrives or nothing is
  left to try. Everything outside (the clock, the key pool, the upstream call, the key-state writer,
  the random source, the timer and the contexts) answers through an environment whose functions see
  the log of all calls made so far, so an environment may behave in any way that depends on the
  history. The log, newest first, is also what the properties talk about.
\<close>

subsection \<open>Environment\<close>

datatype event =
    ClockRead time
  | AcquireCall "key_id set" bool time
  | Acquired key_id
  | ExecuteCall key_id budget time
  | CloseBody
  | MarkSuccessCall key_id
  | ApplySuccessCall key_id
  | MarkFailureCall key_id model_id fault
  | ApplyFailureCall key_id model_id fault keySnapshot
  | ReleaseLease key_id
  | RecordLatencyCall key_id int
  | RandomRead real
  | SleepCall duration

type_synonym log = "event list"

record executeAnswer =
  secretErr :: goError
  answerResponse :: "httpResponse option"
  executeErr :: goError
  committed :: bool

record env =
  envClock :: "log \<Rightarrow> time"
  envCtxErr :: "log \<Rightarrow> goError"
  envAcquire :: "log \<Rightarrow> model_id \<Rightarrow> key_id set \<Rightarrow> bool \<Rightarrow> runtimeSnapshot \<Rightarrow> bool \<Rightarrow> goError + key_id"
  envExecute :: "log \<Rightarrow> key_id \<Rightarrow> executeAnswer"
  envMarkSuccess :: "log \<Rightarrow> key_id \<Rightarrow> goError"
  envMarkFailure :: "log \<Rightarrow> key_id \<Rightarrow> model_id \<Rightarrow> fault \<Rightarrow> goError + keySnapshot"
  envRandom :: "log \<Rightarrow> real"
  envSleep :: "log \<Rightarrow> duration \<Rightarrow> goError"
  envParseTime :: "string \<Rightarrow> time option"
  envLatency :: bool

definition clock_now :: "env \<Rightarrow> log \<Rightarrow> time \<times> log" where
  "clock_now E lg = (envClock E lg, ClockRead (envClock E lg) # lg)"

text \<open>\<open>Duration.Milliseconds\<close> truncates towards zero.\<close>

definition duration_ms :: "duration \<Rightarrow> int" where
  "duration_ms d = (if d < 0 then - ((- d) div millisecond) else d div millisecond)"

definition closeResponse :: "httpResponse option \<Rightarrow> log \<Rightarrow> log" where
  "closeResponse r lg =
     (case r of Some resp \<Rightarrow> if Body resp \<noteq> None then CloseBody # lg else lg | None \<Rightarrow> lg)"

definition budgetExpired :: "env \<Rightarrow> log \<Rightarrow> bool" where
  "budgetExpired E lg \<longleftrightarrow> envCtxErr E lg \<noteq> nil_error"

subsection \<open>The failover decision\<close>

text \<open>\<open>MustFailoverMatcher\<close> panics (\<^const>\<open>None\<close>) on a specification that does not parse.\<close>

definition MustFailoverMatcher :: "string \<Rightarrow> FailoverMatcher option" where
  "MustFailoverMatcher s = (case NewFailoverMatcher s of Inl _ \<Rightarrow> None | Inr m \<Rightarrow> Some m)"

definition buildFailoverMatcher :: "string \<Rightarrow> FailoverMatcher option" where
  "buildFailoverMatcher s =
     (if trim_space s = [] then MustFailoverMatcher DefaultFailoverStatusCodes
      else case NewFailoverMatcher s of
        Inl _ \<Rightarrow> MustFailoverMatcher DefaultFailoverStatusCodes
      | Inr m \<Rightarrow> Some m)"

type_synonym failover_cache = "string \<rightharpoonup> FailoverMatcher"

definition failoverMatcher :: "string \<Rightarrow> failover_cache \<Rightarrow> (FailoverMatcher \<times> failover_cache) option" where
  "failoverMatcher s cache =
     (case cache s of
        Some m \<Rightarrow> Some (m, cache)
      | None \<Rightarrow> (case buildFailoverMatcher s of
          None \<Rightarrow> None
        | Some m \<Rightarrow> Some (m, cache(s \<mapsto> m))))"

definition shouldRetry :: "fault \<Rightarrow> FailoverMatcher \<Rightarrow> bool" where
  "shouldRetry f matcher =
     (if errors_is (fault_error f) ErrFirstByteTimeout then False
      else if Retryable f then True
      else if IsEmpty matcher then False
      else Match matcher (HTTPStatus f))"

subsection \<open>Acquiring a key\<close>

definition attempt_queueRetryAfter :: "runtimeSnapshot \<Rightarrow> duration" where
  "attempt_queueRetryAfter s =
     (if ms_duration (QueueWaitTimeoutMS s) > 0 then ms_duration (QueueWaitTimeoutMS s) else second)"

definition isQueueLimitError :: "goError \<Rightarrow> bool" where
  "isQueueLimitError err =
     (case errors_as_api err of
        None \<Rightarrow> False
      | Some e \<Rightarrow> apiStatus e = 429 \<and> (apiCode e = ''queue_timeout'' \<or> apiCode e = ''queue_full''))"

definition attempt_acquire ::
  "env \<Rightarrow> runtimeSnapshot \<Rightarrow> model_id \<Rightarrow> key_id set \<Rightarrow> bool \<Rightarrow> budget \<Rightarrow> log \<Rightarrow> (goError + key_id) \<times> log" where
  "attempt_acquire E st modelID attempted stream b lg =
     (let relaxOff = (attempted \<noteq> {});
          lg1 = AcquireCall attempted relaxOff (preCommitDeadline b) # lg
      in case envAcquire E lg modelID attempted relaxOff st stream of
           Inr k \<Rightarrow> (Inr k, Acquired k # lg1)
         | Inl err \<Rightarrow>
             if errors_is err DeadlineExceeded then
               (Inl (api_error 429 ''rate_limit_error'' ''queue_timeout''
                  ''The request timed out while waiting for an upstream credential.''
                  (attempt_queueRetryAfter st)), lg1)
             else (Inl err, lg1))"

definition chooseAcquireError :: "env \<Rightarrow> goError \<Rightarrow> fault option \<Rightarrow> goError" where
  "chooseAcquireError E err lastFault =
     (if errors_is err Canceled then fault_error (Classify (envParseTime E) None err False 0)
      else case lastFault of
        None \<Rightarrow> Wrapped ''acquire NVIDIA key'' # err
      | Some f \<Rightarrow>
          (case errors_as_api err of
             Some e \<Rightarrow>
               if apiCode e = ''no_available_keys'' \<or> apiCode e = ''all_keys_cooling_down''
               then fault_error f else Wrapped ''acquire NVIDIA key'' # err
           | None \<Rightarrow> Wrapped ''acquire NVIDIA key'' # err))"

subsection \<open>One upstream call\<close>

text \<open>The fault of a proxy that failed before the upstream answered; its cause is the proxy error.\<close>

definition proxy_fault :: "int \<Rightarrow> string \<Rightarrow> goError \<Rightarrow> fault" where
  "proxy_fault status message err =
     (New_fault status ScopeUpstreamGlobal ''server_error'' ''upstream_proxy_unavailable'' message
        (dropWhile (\<lambda>n. errors_as_proxy [n] = None) err))\<lparr>Retryable := True\<rparr>"

record leaseOutcome =
  outResponse :: "httpResponse option"
  outCommitted :: bool
  outFault :: "fault option"
  outErr :: goError

text \<open>The deferred \<open>lease.Release\<close> runs last, unless the lease is kept for the response.\<close>

definition executeLease :: "env \<Rightarrow> model_id \<Rightarrow> key_id \<Rightarrow> budget \<Rightarrow> time \<Rightarrow> log \<Rightarrow> leaseOutcome \<times> log" where
  "executeLease E modelID k b deadline lg =
     (let ans = envExecute E lg k;
          lg1 = ExecuteCall k b deadline # lg;
          failed = (\<lambda>f e l. (\<lparr>outResponse = None, outCommitted = committed ans, outFault = f, outErr = e\<rparr>,
                             ReleaseLease k # l));
          kept = (\<lambda>l. (\<lparr>outResponse = answerResponse ans, outCommitted = committed ans, outFault = None,
                        outErr = nil_error\<rparr>, l))
      in if secretErr ans \<noteq> nil_error then
           failed None (Wrapped ''use NVIDIA key secret'' # secretErr ans) (closeResponse (answerResponse ans) lg1)
         else case errors_as_proxy (executeErr ans) of
           Some ReasonNoHealthyProxy \<Rightarrow>
             failed (Some (proxy_fault 503 ''The upstream proxy pool is temporarily unavailable.'' (executeErr ans)))
               nil_error (closeResponse (answerResponse ans) lg1)
         | Some ReasonTransportFailed \<Rightarrow>
             failed (Some (proxy_fault 502 ''The upstream proxy is temporarily unavailable.'' (executeErr ans)))
               nil_error (closeResponse (answerResponse ans) lg1)
         | Some _ \<Rightarrow> failed None (executeErr ans) (closeResponse (answerResponse ans) lg1)
         | None \<Rightarrow>
             if executeErr ans = nil_error
                \<and> (case answerResponse ans of None \<Rightarrow> False | Some r \<Rightarrow> 200 \<le> StatusCode r \<and> StatusCode r < 300) then
               (let err = envMarkSuccess E lg1 k; lg2 = MarkSuccessCall k # lg1
                in if err \<noteq> nil_error then
                     (let stateErr = envCtxErr E lg2
                      in if stateErr \<noteq> nil_error \<and> errors_is err (hd stateErr) then
                           (let lg3 = closeResponse (answerResponse ans) lg2; (now, lg4) = clock_now E lg3
                            in failed (Some (Classify (envParseTime E) None stateErr False now)) nil_error lg4)
                         else kept lg2)
                   else kept (ApplySuccessCall k # lg2))
             else
               (let (now, lg2) = clock_now E lg1;
                    f = Classify (envParseTime E) (answerResponse ans) (executeErr ans) False now;
                    lg3 = closeResponse (answerResponse ans) lg2
                in case envMarkFailure E lg3 k modelID f of
                     Inl err \<Rightarrow>
                       (let lg4 = MarkFailureCall k modelID f # lg3; stateErr = envCtxErr E lg4
                        in if stateErr \<noteq> nil_error \<and> errors_is err (hd stateErr) then failed (Some f) nil_error lg4
                           else failed None (Wrapped ''persist failed NVIDIA key state'' # err) lg4)
                   | Inr persisted \<Rightarrow>
                       failed (Some f) nil_error
                         (ApplyFailureCall k modelID f persisted # MarkFailureCall k modelID f # lg3)))"

subsection \<open>Waiting before the next key\<close>

definition retryBackoffBase :: duration where "retryBackoffBase = 100 * millisecond"
definition retryBackoffMax :: duration where "retryBackoffMax = 2 * second"
definition retryAfterMaxDelay :: duration where "retryAfterMaxDelay = 5 * minute"

text \<open>The delay before it is cut to the retry window, from the random draw.\<close>

definition backoff_delay :: "nat \<Rightarrow> fault \<Rightarrow> real \<Rightarrow> duration" where
  "backoff_delay attempts f rnd =
     (let d0 = (if attempts > 1 then wrap64 (retryBackoffBase * 2 ^ (attempts - 2)) else retryBackoffBase);
          d1 = (if d0 > retryBackoffMax \<or> d0 \<le> 0 then retryBackoffMax else d0);
          d2 = go_trunc (real_of_int d1 * (8 / 10 + 4 / 10 * rnd))
      in if RetryAfter f > 0 then
           (let suggested = (if RetryAfter f > retryAfterMaxDelay then retryAfterMaxDelay else RetryAfter f)
            in if suggested > d2 then suggested else d2)
         else d2)"

definition backoff :: "env \<Rightarrow> nat \<Rightarrow> budget \<Rightarrow> fault \<Rightarrow> log \<Rightarrow> goError \<times> log" where
  "backoff E attempts b f lg =
     (if attempts \<le> 1 \<and> RetryAfter f \<le> 0 then (nil_error, lg)
      else
        let rnd = envRandom E lg;
            lg1 = RandomRead rnd # lg;
            d = backoff_delay attempts f rnd;
            (d', lg2) =
              (if retryDeadline b \<noteq> 0 then
                 (let (now, lg2) = clock_now E lg1;
                      remaining = time_sub (retryDeadline b) now
                  in (if remaining < d then remaining else d, lg2))
               else (d, lg1))
        in if d' \<le> 0 then (nil_error, lg2)
           else (envSleep E lg2 d', SleepCall d' # lg2))"

subsection \<open>The loop\<close>

record attemptResult =
  resultResponse :: "httpResponse option"
  resultLease :: key_id
  resultCommitted :: bool
  resultAttempts :: nat

datatype loopOutcome =
    Done "goError + attemptResult" log
  | Continue "key_id set" fault log

text \<open>One iteration of the loop in \<open>Run\<close>. A streaming attempt runs without a deadline of its own.\<close>

definition run_round ::
  "env \<Rightarrow> model_id \<Rightarrow> bool \<Rightarrow> runtimeSnapshot \<Rightarrow> budget \<Rightarrow> FailoverMatcher \<Rightarrow> key_id set \<Rightarrow> fault option \<Rightarrow> log
    \<Rightarrow> loopOutcome" where
  "run_round E modelID stream st b failover attempted lastFault lg =
     (let (_, lg1) = clock_now E lg;
          (acq, lg2) = attempt_acquire E st modelID attempted stream b lg1;
          (_, lg3) = clock_now E lg2
      in case acq of
           Inl err \<Rightarrow>
             if isQueueLimitError err then Done (Inl err) lg3
             else (case lastFault of
               Some f \<Rightarrow> if budgetExpired E lg3 then Done (Inl (fault_error f)) lg3
                          else Done (Inl (chooseAcquireError E err lastFault)) lg3
             | None \<Rightarrow> Done (Inl (chooseAcquireError E err lastFault)) lg3)
         | Inr k \<Rightarrow>
             let attempted' = insert k attempted;
                 (started, lg4) = clock_now E lg3;
                 (now, lg5) = clock_now E lg4;
                 b' = forAttempt now b;
                 (out, lg6) = executeLease E modelID k b' (if stream then 0 else preCommitDeadline b') lg5
             in if outErr out \<noteq> nil_error then Done (Inl (outErr out)) lg6
                else (case outFault out of
                  None \<Rightarrow>
                    let lg7 = (if envLatency E then
                                 (let (t, l) = clock_now E lg6
                                  in RecordLatencyCall k (duration_ms (time_sub t started)) # l)
                               else lg6)
                    in Done (Inr \<lparr>resultResponse = outResponse out, resultLease = k,
                                  resultCommitted = outCommitted out, resultAttempts = card attempted'\<rparr>) lg7
                | Some f \<Rightarrow>
                    if \<not> shouldRetry f failover \<or> outCommitted out \<or> budgetExpired E lg6 then
                      Done (Inl (fault_error f)) lg6
                    else if int (card attempted') \<ge> maxAttempts b then Done (Inl (fault_error f)) lg6
                    else
                      (let (late, lg7) = (if retryDeadline b \<noteq> 0 then
                                            (let (t, l) = clock_now E lg6 in (\<not> t < retryDeadline b, l))
                                          else (False, lg6))
                       in if late then Done (Inl (fault_error f)) lg7
                          else
                            (let (err, lg8) = backoff E (card attempted') b f lg7
                             in if err \<noteq> nil_error then Done (Inl (fault_error f)) lg8
                                else Continue attempted' f lg8))))"

text \<open>The loop itself: \<^const>\<open>None\<close> is a loop that never ends.\<close>

partial_function (option) run_loop ::
  "env \<Rightarrow> model_id \<Rightarrow> bool \<Rightarrow> runtimeSnapshot \<Rightarrow> budget \<Rightarrow> FailoverMatcher \<Rightarrow> key_id set \<Rightarrow> fault option \<Rightarrow> log
    \<Rightarrow> ((goError + attemptResult) \<times> log) option" where
  "run_loop E modelID stream st b failover attempted lastFault lg =
     (case run_round E modelID stream st b failover attempted lastFault lg of
        Done res lg' \<Rightarrow> Some (res, lg')
      | Continue attempted' f lg' \<Rightarrow> run_loop E modelID stream st b failover attempted' (Some f) lg')"

definition apply_hints :: "modelTimeouts option \<Rightarrow> runtimeSnapshot \<Rightarrow> runtimeSnapshot" where
  "apply_hints hints s =
     (case hints of
        None \<Rightarrow> s
      | Some h \<Rightarrow>
          let s1 = (if hintFirstTokenTimeoutMS h > 0
                    then s\<lparr>StreamFirstTokenTimeoutMS := hintFirstTokenTimeoutMS h\<rparr> else s)
          in if hintIdleTimeoutMS h > 0 then s1\<lparr>StreamIdleTimeoutMS := hintIdleTimeoutMS h\<rparr> else s1)"

definition Run ::
  "env \<Rightarrow> runtimeSnapshot \<Rightarrow> modelTimeouts option \<Rightarrow> model_id \<Rightarrow> bool \<Rightarrow> failover_cache \<Rightarrow> log
    \<Rightarrow> ((goError + attemptResult) \<times> failover_cache \<times> log) option" where
  "Run E settings0 hints modelID stream cache lg =
     (let (now, lg1) = clock_now E lg;
          st = apply_hints hints settings0;
          b = newBudget st now stream
      in case failoverMatcher (FailoverStatusCodes st) cache of
           None \<Rightarrow> None
         | Some (failover, cache') \<Rightarrow>
             map_option (\<lambda>(res, lg'). (res, cache', lg'))
               (run_loop E modelID stream st b failover {} None lg1))"

end
