(* ===== verification/Router_Properties.thy ===== *)
theory Router_Properties
  imports Router Pool_Service
begin

text \<open>
  What a request does. The attempt loop relies on one law of the key pool, stated as the locale
  \<open>fresh_keys\<close> and proved for the pool: a key handed out for a retry is not one of the keys already
  tried. From it the loop ends, with at most the configured number of upstream calls, each on another
  key, and every lease it takes it gives back, except the one that carries the response.
\<close>

subsection \<open>Reading the log\<close>

definition acquired :: "log \<Rightarrow> key_id list" where
  "acquired lg = List.map_filter (\<lambda>e. case e of Acquired k \<Rightarrow> Some k | _ \<Rightarrow> None) lg"

definition released_keys :: "log \<Rightarrow> key_id list" where
  "released_keys lg = List.map_filter (\<lambda>e. case e of ReleaseLease k \<Rightarrow> Some k | _ \<Rightarrow> None) lg"

definition executed :: "log \<Rightarrow> key_id list" where
  "executed lg = List.map_filter (\<lambda>e. case e of ExecuteCall k b d \<Rightarrow> Some k | _ \<Rightarrow> None) lg"

definition blamed :: "log \<Rightarrow> key_id list" where
  "blamed lg = List.map_filter (\<lambda>e. case e of MarkFailureCall k m f \<Rightarrow> Some k | ApplyFailureCall k m f s \<Rightarrow> Some k | _ \<Rightarrow> None) lg"

lemmas log_defs = acquired_def released_keys_def executed_def blamed_def

lemma log_simps [simp]:
  "acquired (e # lg) = (case e of Acquired k \<Rightarrow> k # acquired lg | _ \<Rightarrow> acquired lg)"
  "released_keys (e # lg) = (case e of ReleaseLease k \<Rightarrow> k # released_keys lg | _ \<Rightarrow> released_keys lg)"
  "executed (e # lg) = (case e of ExecuteCall k b d \<Rightarrow> k # executed lg | _ \<Rightarrow> executed lg)"
  "blamed (e # lg) = (case e of MarkFailureCall k m f \<Rightarrow> k # blamed lg
     | ApplyFailureCall k m f s \<Rightarrow> k # blamed lg | _ \<Rightarrow> blamed lg)"
  "acquired [] = []" "released_keys [] = []" "executed [] = []" "blamed [] = []"
  by (simp_all add: log_defs List.map_filter_def split: event.splits)

text \<open>Calls that take, use or give back no lease.\<close>

definition quiet :: "log \<Rightarrow> log \<Rightarrow> bool" where
  "quiet lg lg' \<longleftrightarrow> acquired lg' = acquired lg \<and> released_keys lg' = released_keys lg
     \<and> executed lg' = executed lg \<and> blamed lg' = blamed lg"

lemma quiet_refl [simp]: "quiet lg lg"
  by (simp add: quiet_def)

lemma quiet_close [simp]:
  "acquired (closeResponse r lg) = acquired lg" "released_keys (closeResponse r lg) = released_keys lg"
  "executed (closeResponse r lg) = executed lg" "blamed (closeResponse r lg) = blamed lg"
  by (simp_all add: closeResponse_def split: option.splits)

lemma clock_now_simps [simp]:
  "fst (clock_now E lg) = envClock E lg" "acquired (snd (clock_now E lg)) = acquired lg"
  "released_keys (snd (clock_now E lg)) = released_keys lg" "executed (snd (clock_now E lg)) = executed lg"
  "blamed (snd (clock_now E lg)) = blamed lg"
  by (simp_all add: clock_now_def)

lemma backoff_quiet [simp]:
  "acquired (snd (backoff E n b f lg)) = acquired lg"
  "released_keys (snd (backoff E n b f lg)) = released_keys lg"
  "executed (snd (backoff E n b f lg)) = executed lg" "blamed (snd (backoff E n b f lg)) = blamed lg"
  by (simp_all add: backoff_def Let_def case_prod_beta)

subsection \<open>One upstream call\<close>

lemma errors_as_proxy_nonempty: "errors_as_proxy err = Some r \<Longrightarrow> err \<noteq> nil_error"
  by auto

lemma executeLease_log:
  assumes "executeLease E m k b d lg = (out, lg')"
  shows "acquired lg' = acquired lg" "executed lg' = k # executed lg"
    and "released_keys lg' = (if outErr out = nil_error \<and> outFault out = None then [] else [k]) @ released_keys lg"
proof -
  let ?ans = "envExecute E lg k"
  have "acquired lg' = acquired lg \<and> executed lg' = k # executed lg \<and>
    released_keys lg' = (if outErr out = nil_error \<and> outFault out = None then [] else [k]) @ released_keys lg"
  proof (cases "secretErr ?ans = nil_error")
    case False
    then show ?thesis using assms by (auto simp: executeLease_def Let_def)
  next
    case True
    show ?thesis
    proof (cases "errors_as_proxy (executeErr ?ans)")
      case (Some r)
      then show ?thesis using assms True errors_as_proxy_nonempty [OF Some]
        by (cases r) (auto simp: executeLease_def Let_def)
    next
      case None
      then show ?thesis using assms True
        by (auto simp: executeLease_def Let_def case_prod_beta split: if_splits sum.splits)
    qed
  qed
  then show "acquired lg' = acquired lg" "executed lg' = k # executed lg"
    "released_keys lg' = (if outErr out = nil_error \<and> outFault out = None then [] else [k]) @ released_keys lg"
    by blast+
qed

lemma executeLease_proxy:
  assumes "executeLease E m k b d lg = (out, lg')" "errors_as_proxy (executeErr (envExecute E lg k)) \<noteq> None"
  shows "blamed lg' = blamed lg"
  using assms by (auto simp: executeLease_def Let_def split: if_splits option.splits errorReason.splits)

subsection \<open>One round\<close>

lemma attempt_acquire_log:
  assumes "attempt_acquire E st m a stream b lg = (acq, lg')"
  shows "acquired lg' = (case acq of Inr k \<Rightarrow> [k] | Inl _ \<Rightarrow> []) @ acquired lg"
    and "released_keys lg' = released_keys lg" "executed lg' = executed lg"
    and "acq = Inr k \<Longrightarrow> envAcquire E lg m a (a \<noteq> {}) st stream = Inr k"
  using assms by (auto simp: attempt_acquire_def Let_def split: sum.splits if_splits)

text \<open>How a round can end: no key, a response, a final fault, or another round.\<close>

lemma run_round_cases:
  obtains (no_key) e lg' where "run_round E m stream st b fo a lf lg = Done (Inl e) lg'"
      "acquired lg' = acquired lg" "released_keys lg' = released_keys lg" "executed lg' = executed lg"
  | (response) k r lg' where "run_round E m stream st b fo a lf lg = Done (Inr r) lg'"
      "\<exists>lg0. envAcquire E lg0 m a (a \<noteq> {}) st stream = Inr k"
      "resultLease r = k" "resultAttempts r = card (insert k a)"
      "acquired lg' = k # acquired lg" "released_keys lg' = released_keys lg" "executed lg' = k # executed lg"
  | (failed) k e lg' where "run_round E m stream st b fo a lf lg = Done (Inl e) lg'"
      "\<exists>lg0. envAcquire E lg0 m a (a \<noteq> {}) st stream = Inr k"
      "acquired lg' = k # acquired lg" "released_keys lg' = k # released_keys lg" "executed lg' = k # executed lg"
  | (again) k f lg' where "run_round E m stream st b fo a lf lg = Continue (insert k a) f lg'"
      "\<exists>lg0. envAcquire E lg0 m a (a \<noteq> {}) st stream = Inr k"
      "acquired lg' = k # acquired lg" "released_keys lg' = k # released_keys lg" "executed lg' = k # executed lg"
      "int (card (insert k a)) < maxAttempts b" "shouldRetry f fo"
proof -
  define lg1 where "lg1 = snd (clock_now E lg)"
  obtain acq lg2 where acq: "attempt_acquire E st m a stream b lg1 = (acq, lg2)"
    by (cases "attempt_acquire E st m a stream b lg1")
  define lg3 where "lg3 = snd (clock_now E lg2)"
  note al = attempt_acquire_log [OF acq]
  have base: "acquired lg1 = acquired lg" "released_keys lg1 = released_keys lg" "executed lg1 = executed lg"
    by (simp_all add: lg1_def)
  show thesis
  proof (cases acq)
    case (Inl err)
    have "\<exists>e. run_round E m stream st b fo a lf lg = Done (Inl e) lg3"
      using acq Inl by (simp add: run_round_def Let_def case_prod_beta lg1_def lg3_def split: option.splits)
    then show thesis using no_key al base Inl by (auto simp: lg3_def)
  next
    case (Inr k)
    define lg5 where "lg5 = snd (clock_now E (snd (clock_now E lg3)))"
    define b' where "b' = forAttempt (envClock E (snd (clock_now E lg3))) b"
    obtain out lg6 where ex: "executeLease E m k b' (if stream then 0 else preCommitDeadline b') lg5 = (out, lg6)"
      by (cases "executeLease E m k b' (if stream then 0 else preCommitDeadline b') lg5")
    note xl = executeLease_log [OF ex]
    have ok: "\<exists>lg0. envAcquire E lg0 m a (a \<noteq> {}) st stream = Inr k" using al(4) Inr by blast
    have l6: "acquired lg6 = k # acquired lg" "executed lg6 = k # executed lg"
      "released_keys lg6 = (if outErr out = nil_error \<and> outFault out = None then [] else [k]) @ released_keys lg"
      using xl al base Inr by (simp_all add: lg3_def lg5_def)
    have rr: "run_round E m stream st b fo a lf lg =
      (if outErr out \<noteq> nil_error then Done (Inl (outErr out)) lg6
       else case outFault out of
         None \<Rightarrow>
           let lg7 = (if envLatency E then RecordLatencyCall k
                 (duration_ms (time_sub (envClock E lg6) (envClock E lg3))) # snd (clock_now E lg6) else lg6)
           in Done (Inr \<lparr>resultResponse = outResponse out, resultLease = k,
                resultCommitted = outCommitted out, resultAttempts = card (insert k a)\<rparr>) lg7
       | Some f \<Rightarrow>
           if \<not> shouldRetry f fo \<or> outCommitted out \<or> budgetExpired E lg6 then Done (Inl (fault_error f)) lg6
           else if int (card (insert k a)) \<ge> maxAttempts b then Done (Inl (fault_error f)) lg6
           else let lg7 = (if retryDeadline b \<noteq> 0 then snd (clock_now E lg6) else lg6);
                    late = (retryDeadline b \<noteq> 0 \<and> \<not> envClock E lg6 < retryDeadline b)
             in if late then Done (Inl (fault_error f)) lg7
                else if fst (backoff E (card (insert k a)) b f lg7) \<noteq> nil_error
                then Done (Inl (fault_error f)) (snd (backoff E (card (insert k a)) b f lg7))
                else Continue (insert k a) f (snd (backoff E (card (insert k a)) b f lg7)))"
      unfolding run_round_def Let_def case_prod_beta lg1_def [symmetric] acq fst_conv snd_conv Inr sum.case
        lg3_def [symmetric] clock_now_simps lg5_def [symmetric] b'_def [symmetric] ex
      by (cases "retryDeadline b = 0"; cases "envLatency E"; cases "outFault out") simp_all
    show thesis
    proof (cases "outErr out = nil_error")
      case False
      then show thesis using failed [OF _ ok] rr l6 by simp
    next
      case True
      show thesis
      proof (cases "outFault out")
        case None
        then show thesis using response [OF _ ok] rr l6 True by (simp add: Let_def)
      next
        case (Some f)
        have l7: "acquired lg7 = k # acquired lg" "executed lg7 = k # executed lg" "released_keys lg7 = k # released_keys lg"
          if "lg7 = lg6 \<or> lg7 = snd (clock_now E lg6)" for lg7 using that l6 Some by auto
        show thesis
        proof (cases "\<exists>lg'. run_round E m stream st b fo a lf lg = Done (Inl (fault_error f)) lg'
            \<and> acquired lg' = k # acquired lg \<and> executed lg' = k # executed lg \<and> released_keys lg' = k # released_keys lg")
          case True
          then show thesis using failed [OF _ ok] by blast
        next
          case False
          define lg7 where "lg7 = (if retryDeadline b \<noteq> 0 then snd (clock_now E lg6) else lg6)"
          have "run_round E m stream st b fo a lf lg = Continue (insert k a) f (snd (backoff E (card (insert k a)) b f lg7))
              \<and> shouldRetry f fo \<and> int (card (insert k a)) < maxAttempts b"
            using rr True Some False l7 [of lg6] l7 [of lg7] unfolding lg7_def [symmetric]
            by (auto simp: Let_def lg7_def [symmetric] split: if_splits) (simp_all add: lg7_def split: if_splits)
          then show thesis using again [OF _ ok] l7 [of lg7] by (simp add: lg7_def)
        qed
      qed
    qed
  qed
qed

subsection \<open>The law of the key source\<close>

text \<open>The environment takes its keys from a source: whatever it returns, the source may return.\<close>

definition draws_from :: "env \<Rightarrow> (bool \<Rightarrow> key_id set \<Rightarrow> key_id \<Rightarrow> bool) \<Rightarrow> bool" where
  "draws_from E src \<longleftrightarrow>
     (\<forall>lg m a relaxOff st stream k. envAcquire E lg m a relaxOff st stream = Inr k \<longrightarrow> src relaxOff a k)"

text \<open>What a run did, from the keys it had tried and the log before it.\<close>

definition run_ok ::
  "int \<Rightarrow> key_id set \<Rightarrow> log \<Rightarrow> goError + attemptResult \<Rightarrow> log \<Rightarrow> bool" where
  "run_ok cap a lg res lg' \<longleftrightarrow>
     (\<exists>ks. executed lg' = ks @ executed lg \<and> acquired lg' = ks @ acquired lg
        \<and> distinct ks \<and> set ks \<inter> a = {} \<and> int (card a + length ks) \<le> cap
        \<and> (case res of
             Inl _ \<Rightarrow> released_keys lg' = ks @ released_keys lg
           | Inr r \<Rightarrow> ks \<noteq> [] \<and> resultLease r = hd ks \<and> resultAttempts r = card a + length ks
               \<and> released_keys lg' = tl ks @ released_keys lg))"

locale fresh_keys =
  fixes src :: "bool \<Rightarrow> key_id set \<Rightarrow> key_id \<Rightarrow> bool"
  assumes fresh: "src relaxOff a k \<Longrightarrow> relaxOff \<or> a = {} \<Longrightarrow> k \<notin> a"
begin

lemma round_fresh:
  "draws_from E src \<Longrightarrow> \<exists>lg0. envAcquire E lg0 m a (a \<noteq> {}) st stream = Inr k \<Longrightarrow> k \<notin> a"
  using fresh [of "a \<noteq> {}" a k] unfolding draws_from_def by blast

lemma loop_ok:
  assumes "draws_from E src" "finite a" "int (card a) < maxAttempts b"
  shows "\<exists>res lg'. run_loop E m stream st b fo a lf lg = Some (res, lg') \<and> run_ok (maxAttempts b) a lg res lg'"
  using assms(2,3)
proof (induction "nat (maxAttempts b) - card a" arbitrary: a lf lg rule: less_induct)
  case less
  show ?case
  proof (rule run_round_cases [of E m stream st b fo a lf lg])
    fix e lg' assume "run_round E m stream st b fo a lf lg = Done (Inl e) lg'"
      "acquired lg' = acquired lg" "released_keys lg' = released_keys lg" "executed lg' = executed lg"
    then show ?thesis using less.prems by (simp add: run_loop.simps [of E m stream st b fo a lf lg] run_ok_def)
  next
    fix k r lg' assume "run_round E m stream st b fo a lf lg = Done (Inr r) lg'"
      and k: "\<exists>lg0. envAcquire E lg0 m a (a \<noteq> {}) st stream = Inr k"
      and l: "resultLease r = k" "resultAttempts r = card (insert k a)"
      "acquired lg' = k # acquired lg" "released_keys lg' = released_keys lg" "executed lg' = k # executed lg"
    have "run_ok (maxAttempts b) a lg (Inr r) lg'"
      unfolding run_ok_def by (rule exI [of _ "[k]"]) (use round_fresh [OF assms(1) k] less.prems l in simp)
    then show ?thesis using \<open>run_round E m stream st b fo a lf lg = Done (Inr r) lg'\<close>
      by (simp add: run_loop.simps [of E m stream st b fo a lf lg])
  next
    fix k e lg' assume rr: "run_round E m stream st b fo a lf lg = Done (Inl e) lg'"
      and k: "\<exists>lg0. envAcquire E lg0 m a (a \<noteq> {}) st stream = Inr k"
      and l: "acquired lg' = k # acquired lg" "released_keys lg' = k # released_keys lg" "executed lg' = k # executed lg"
    have "run_ok (maxAttempts b) a lg (Inl e) lg'"
      unfolding run_ok_def by (rule exI [of _ "[k]"]) (use round_fresh [OF assms(1) k] less.prems l in simp)
    then show ?thesis using rr by (simp add: run_loop.simps [of E m stream st b fo a lf lg])
  next
    fix k f lg' assume rr: "run_round E m stream st b fo a lf lg = Continue (insert k a) f lg'"
      and k: "\<exists>lg0. envAcquire E lg0 m a (a \<noteq> {}) st stream = Inr k"
      and l: "acquired lg' = k # acquired lg" "released_keys lg' = k # released_keys lg" "executed lg' = k # executed lg"
      and cap: "int (card (insert k a)) < maxAttempts b"
    have ka: "k \<notin> a" by (rule round_fresh [OF assms(1) k])
    then have c: "card (insert k a) = Suc (card a)" using less.prems(1) by simp
    have "\<exists>res lg''. run_loop E m stream st b fo (insert k a) (Some f) lg' = Some (res, lg'')
        \<and> run_ok (maxAttempts b) (insert k a) lg' res lg''"
      using less.hyps [of "insert k a" "Some f" lg'] less.prems cap c by simp
    then obtain res lg'' where rl: "run_loop E m stream st b fo (insert k a) (Some f) lg' = Some (res, lg'')"
      and ok: "run_ok (maxAttempts b) (insert k a) lg' res lg''" by blast
    from ok obtain ks where ks: "executed lg'' = ks @ executed lg'" "acquired lg'' = ks @ acquired lg'"
      "distinct ks" "set ks \<inter> insert k a = {}" "int (card (insert k a) + length ks) \<le> maxAttempts b"
      "case res of Inl _ \<Rightarrow> released_keys lg'' = ks @ released_keys lg'
       | Inr r \<Rightarrow> ks \<noteq> [] \<and> resultLease r = hd ks \<and> resultAttempts r = card (insert k a) + length ks
           \<and> released_keys lg'' = tl ks @ released_keys lg'"
      unfolding run_ok_def by blast
    have "run_ok (maxAttempts b) a lg res lg''"
      unfolding run_ok_def
      by (rule exI [of _ "ks @ [k]"]) (use ks l c ka in \<open>auto split: sum.splits simp: hd_append tl_append split: list.splits\<close>)
    then show ?thesis using rr rl by (simp add: run_loop.simps [of E m stream st b fo a lf lg])
  qed
qed

end

subsection \<open>The pool keeps the law\<close>

text \<open>The keys the pool can return to a request with attempted set \<open>a\<close>: at once from
  \<open>AcquireWithSnapshot\<close>, or later through the result channel a dispatch fills.\<close>

definition pool_returns :: "bool \<Rightarrow> key_id set \<Rightarrow> key_id \<Rightarrow> bool" where
  "pool_returns relaxOff a k \<longleftrightarrow>
     (\<exists>p ce now c m snap stream l p'. reachable p \<and> noAttemptedRelaxation c = relaxOff
        \<and> AcquireWithSnapshot ce now c m a snap stream p = Some (Returned (Inr l), p')
        \<and> leaseKeyID (leases p' ! l) = k)
     \<or> (\<exists>p ce now w l p'. pool_inv p \<and> w \<in> set (waiters p) \<and> noAttemptedRelaxation (waiterCtx w) = relaxOff
        \<and> waiterAttempted w = a \<and> dispatchWaitersLocked ce now p = Some p'
        \<and> results p' (waiterID w) = Some (Inr l) \<and> leaseKeyID (leases p' ! l) = k)"

lemma attempt_fresh_key:
  assumes "shape_inv p" "attempt_ok now m a stream maxS False p (Leased l) p'"
  shows "leaseKeyID (leases p' ! l) \<notin> a"
  using assms by (auto simp: attempt_ok_def grantable_def granted_fields)

lemma acquire_returned_key:
  assumes "pool_inv p" "acquire ce now c m a stream st p = Some (Returned (Inr l), p')"
  shows "leaseKeyID (leases p' ! l) \<notin> a"
proof -
  have open': "ce (ctxID c) = nil_error" "\<not> closed p" using assms(2) by (auto simp: acquire_def split: if_splits)
  obtain p1 where p1: "dispatchWaitersLocked ce now p = Some p1" "pool_inv p1"
    using dispatchWaiters_inv [OF assms(1)] by blast
  have sh: "shape_inv p1" using p1(2) by (simp add: pool_inv_def)
  obtain res p2 where t: "tryAcquireLocked now m a stream (maxStreamingPerKey st) (latencyEnabled st) False p1
      = Some (res, p2)" and ok: "attempt_ok now m a stream (maxStreamingPerKey st) False p1 res p2"
    using tryAcquire_outcome [OF sh] by blast
  have "res = Leased l \<and> p' = p2"
    using assms(2) open' p1(1) t
    by (auto simp: acquire_def enqueue_def Let_def split: if_splits tryResult.splits Option.bind_splits)
  then show ?thesis using attempt_fresh_key [OF sh] ok by blast
qed

interpretation pool_keys: fresh_keys pool_returns
proof
  fix relaxOff a k assume r: "pool_returns relaxOff a k" and f: "relaxOff \<or> a = {}"
  from r [unfolded pool_returns_def] show "k \<notin> a"
  proof (elim disjE exE conjE)
    fix p ce now c m snap stream l p'
    assume "reachable p" "AcquireWithSnapshot ce now c m a snap stream p = Some (Returned (Inr l), p')"
      "leaseKeyID (leases p' ! l) = k"
    then show ?thesis using acquire_returned_key reachable_inv unfolding AcquireWithSnapshot_def by blast
  next
    fix p ce now w l p'
    assume inv: "pool_inv p" and w: "w \<in> set (waiters p)" "noAttemptedRelaxation (waiterCtx w) = relaxOff"
      "waiterAttempted w = a" and d: "dispatchWaitersLocked ce now p = Some p'"
      and res: "results p' (waiterID w) = Some (Inr l)" "leaseKeyID (leases p' ! l) = k"
    have "dispatch_steps ce now p p'"
      using dispatchWaiters_steps [of p ce now] inv d by (auto simp: pool_inv_def)
    then have "grant_fits now p' w l" using dispatch_steps_fit inv w(1) res(1) by blast
    then show ?thesis using w res(2) f by (auto simp: grant_fits_def)
  qed
qed

subsection \<open>The failover matcher\<close>

lemma default_matcher: "\<exists>mt. MustFailoverMatcher DefaultFailoverStatusCodes = Some mt \<and> \<not> Match mt 401"
proof -
  have "map_option (\<lambda>mt. Match mt 401) (MustFailoverMatcher DefaultFailoverStatusCodes) = Some False" by code_simp
  then show ?thesis by auto
qed

lemma buildFailoverMatcher_total: "\<exists>mt. buildFailoverMatcher s = Some mt"
  using default_matcher by (auto simp: buildFailoverMatcher_def split: sum.splits)

lemma failoverMatcher_total: "\<exists>mt cache'. failoverMatcher s cache = Some (mt, cache')"
  using buildFailoverMatcher_total [of s] by (auto simp: failoverMatcher_def split: option.splits)

definition cache_ok :: "failover_cache \<Rightarrow> bool" where
  "cache_ok cache \<longleftrightarrow> (\<forall>s mt. cache s = Some mt \<longrightarrow> buildFailoverMatcher s = Some mt)"

subsection \<open>The shape of a round's log\<close>

lemma suffix_close: "suffix l lg \<Longrightarrow> suffix l (closeResponse r lg)"
  by (auto simp: closeResponse_def suffix_ConsI split: option.splits)

lemma suffix_clock: "suffix l lg \<Longrightarrow> suffix l (snd (clock_now E lg))"
  by (simp add: clock_now_def suffix_ConsI)

lemma executeLease_shape:
  assumes "executeLease E m k b d lg = (out, lg')"
  shows "suffix (ExecuteCall k b d # lg) lg' \<and> outCommitted out = committed (envExecute E lg k)"
  using assms
  by (auto simp: executeLease_def Let_def case_prod_beta intro!: suffix_ConsI suffix_close suffix_clock
      split: if_splits sum.splits option.splits errorReason.splits)

lemma backoff_suffix: "suffix l lg \<Longrightarrow> suffix l (snd (backoff E n b f lg))"
  by (simp add: backoff_def Let_def case_prod_beta suffix_ConsI suffix_clock)

lemma run_round_continue:
  assumes "run_round E m stream st b fo a lf lg = Continue a' f lg'"
  shows "\<exists>k b' d lg0 lg6. suffix (ExecuteCall k b' d # lg0) lg6 \<and> suffix lg6 lg'
    \<and> a' = insert k a \<and> \<not> committed (envExecute E lg0 k) \<and> shouldRetry f fo
    \<and> \<not> budgetExpired E lg6 \<and> int (card a') < maxAttempts b
    \<and> (retryDeadline b = 0 \<or> envClock E lg6 < retryDeadline b)"
proof -
  define lg1 where "lg1 = snd (clock_now E lg)"
  obtain acq lg2 where acq: "attempt_acquire E st m a stream b lg1 = (acq, lg2)"
    by (cases "attempt_acquire E st m a stream b lg1")
  define lg3 where "lg3 = snd (clock_now E lg2)"
  obtain k where k: "acq = Inr k"
    using assms acq by (cases acq) (auto simp: run_round_def Let_def case_prod_beta lg1_def split: if_splits option.splits)
  define lg5 where "lg5 = snd (clock_now E (snd (clock_now E lg3)))"
  define b' where "b' = forAttempt (envClock E (snd (clock_now E lg3))) b"
  define d where "d = (if stream then 0 else preCommitDeadline b')"
  obtain out lg6 where ex: "executeLease E m k b' d lg5 = (out, lg6)" by (cases "executeLease E m k b' d lg5")
  note sh = executeLease_shape [OF ex]
  note eq = assms [unfolded run_round_def Let_def case_prod_beta lg1_def [symmetric] acq fst_conv snd_conv k sum.case
      lg3_def [symmetric] clock_now_simps lg5_def [symmetric] b'_def [symmetric] d_def [symmetric] ex]
  have oe: "outErr out = nil_error" using eq by (auto split: if_splits)
  obtain f' where of': "outFault out = Some f'" using eq oe by (auto split: option.splits)
  have "suffix lg6 lg' \<and> a' = insert k a \<and> f = f' \<and> shouldRetry f' fo \<and> \<not> outCommitted out
      \<and> \<not> budgetExpired E lg6 \<and> int (card (insert k a)) < maxAttempts b
      \<and> (retryDeadline b = 0 \<or> envClock E lg6 < retryDeadline b)"
    using eq oe of' by (cases "retryDeadline b = 0") (auto split: if_splits intro: backoff_suffix suffix_clock)
  then show ?thesis using sh by blast
qed

subsection \<open>The length of a wait\<close>

lemma jitter_le:
  assumes "0 \<le> r" "r \<le> 1" "0 \<le> d" "d \<le> retryBackoffMax"
  shows "go_trunc (real_of_int d * (8 / 10 + 4 / 10 * r)) \<le> 5 * minute"
proof -
  have "real_of_int d * (8 / 10 + 4 / 10 * r) \<le> real_of_int d * 2"
    using assms by (intro mult_left_mono) auto
  also have "\<dots> \<le> 4000000000" using assms(4) by (simp add: retryBackoffMax_def)
  finally have le: "real_of_int d * (8 / 10 + 4 / 10 * r) \<le> 4000000000" .
  have "0 \<le> real_of_int d * (8 / 10 + 4 / 10 * r)" using assms by simp
  then have "go_trunc (real_of_int d * (8 / 10 + 4 / 10 * r)) = \<lfloor>real_of_int d * (8 / 10 + 4 / 10 * r)\<rfloor>"
    by (simp add: go_trunc_def)
  also have "\<dots> \<le> 4000000000" using floor_mono [OF le] by simp
  finally show ?thesis by simp
qed

lemma backoff_delay_le:
  assumes "0 \<le> r" "r \<le> 1"
  shows "backoff_delay n f r \<le> 5 * minute"
proof -
  define d0 where "d0 = (if n > 1 then wrap64 (retryBackoffBase * 2 ^ (n - 2)) else retryBackoffBase)"
  define d1 where "d1 = (if d0 > retryBackoffMax \<or> d0 \<le> 0 then retryBackoffMax else d0)"
  have "0 \<le> d1" "d1 \<le> retryBackoffMax" by (simp_all add: d1_def retryBackoffMax_def)
  then have "go_trunc (real_of_int d1 * (8 / 10 + 4 / 10 * r)) \<le> 5 * minute" by (rule jitter_le [OF assms])
  then show ?thesis
    unfolding backoff_delay_def d0_def [symmetric] Let_def d1_def [symmetric] by (simp add: retryAfterMaxDelay_def)
qed

definition sample_matcher :: FailoverMatcher where
  "sample_matcher = the (buildFailoverMatcher [])"

subsection \<open>Properties\<close>

text \<open>C7: a request ends. With keys from the pool, \<open>Run\<close> returns for every behaviour of the upstream,
  the clock, the contexts and the key-state writer; it makes at most the configured number of upstream
  calls (five when unset), all on different keys; and of the leases it took it has released every one
  exactly once, except, when it returns a response, the lease that response holds.\<close>

theorem run_bounded:
  assumes "draws_from E pool_returns"
  shows "\<exists>res cache' lg'. Run E settings0 hints m stream cache [] = Some (res, cache', lg')
    \<and> int (length (executed lg')) \<le> or_default (MaxAttemptsPerRequest settings0) 5
    \<and> distinct (executed lg') \<and> acquired lg' = executed lg'
    \<and> (case res of Inl _ \<Rightarrow> released_keys lg' = acquired lg'
       | Inr r \<Rightarrow> acquired lg' = resultLease r # released_keys lg'
           \<and> resultAttempts r = length (executed lg'))"
proof -
  let ?lg1 = "snd (clock_now E [])"
  let ?st = "apply_hints hints settings0"
  let ?b = "newBudget ?st (envClock E []) stream"
  obtain fo cache' where fo: "failoverMatcher (FailoverStatusCodes ?st) cache = Some (fo, cache')"
    using failoverMatcher_total by blast
  have ma: "maxAttempts ?b = or_default (MaxAttemptsPerRequest settings0) 5"
    by (auto simp: newBudget_fields apply_hints_def defaultMaxAttemptsPerRequest_def Let_def split: option.splits)
  have "int (card {}) < maxAttempts ?b" using newBudget_maxAttempts [of ?st "envClock E []" stream] by simp
  from pool_keys.loop_ok [OF assms finite.emptyI this, of m stream ?st fo None ?lg1]
  obtain res lg' where rl: "run_loop E m stream ?st ?b fo {} None ?lg1 = Some (res, lg')"
    and ok: "run_ok (maxAttempts ?b) {} ?lg1 res lg'" by blast
  have "Run E settings0 hints m stream cache [] = Some (res, cache', lg')"
    using fo rl by (simp add: Run_def Let_def case_prod_beta)
  moreover obtain ks where "executed lg' = ks" "acquired lg' = ks" "distinct ks" "int (length ks) \<le> maxAttempts ?b"
    "case res of Inl _ \<Rightarrow> released_keys lg' = ks
     | Inr r \<Rightarrow> ks \<noteq> [] \<and> resultLease r = hd ks \<and> resultAttempts r = length ks \<and> released_keys lg' = tl ks"
    using ok by (auto simp: run_ok_def split: sum.splits)
  ultimately show ?thesis using ma by (auto split: sum.splits)
qed

definition sample_env :: env where
  "sample_env = \<lparr>envClock = (\<lambda>lg. 10), envCtxErr = (\<lambda>lg. nil_error),
     envAcquire = (\<lambda>lg m a relaxOff st stream. if a = {} \<and> \<not> relaxOff then Inr 7 else Inl shuttingDownError),
     envExecute = (\<lambda>lg k. \<lparr>secretErr = nil_error, answerResponse = None, executeErr = [EOF], committed = False\<rparr>),
     envMarkSuccess = (\<lambda>lg k. nil_error), envMarkFailure = (\<lambda>lg k m f. Inr sample_key),
     envRandom = (\<lambda>lg. 0), envSleep = (\<lambda>lg d. nil_error), envParseTime = (\<lambda>s. None), envLatency = True\<rparr>"

theorem run_bounded_witness:
  "draws_from sample_env pool_returns
    \<and> (\<exists>res cache' lg'. Run sample_env sample_settings None 1 False Map.empty [] = Some (res, cache', lg')
         \<and> int (length (executed lg')) \<le> 5 \<and> distinct (executed lg'))"
proof -
  have "map_option (\<lambda>(out, p). (out, leaseKeyID (leases p ! 0)))
      (AcquireWithSnapshot (\<lambda>_. nil_error) 6 sample_ctx 1 {} sample_settings False sample_loaded)
      = Some (Returned (Inr 0), 7)"
    by code_simp
  then obtain p' where "AcquireWithSnapshot (\<lambda>_. nil_error) 6 sample_ctx 1 {} sample_settings False sample_loaded
      = Some (Returned (Inr 0), p')" "leaseKeyID (leases p' ! 0) = 7"
    by auto
  moreover have "noAttemptedRelaxation sample_ctx = False" by (simp add: sample_ctx_def)
  ultimately have "pool_returns False {} 7" unfolding pool_returns_def using sample_reachable(1) by blast
  then have d: "draws_from sample_env pool_returns" by (auto simp: draws_from_def sample_env_def split: if_splits)
  have "or_default (MaxAttemptsPerRequest sample_settings) 5 = 5" by code_simp
  then show ?thesis
    using d run_bounded [OF d, of sample_settings None 1 False Map.empty] by auto
qed

text \<open>C8: when the loop goes on to another key, the upstream had not committed a response to the
  client, the fault is one the policy retries, the request's context is still live, the attempt cap is
  not reached and the retry window is still open.\<close>

theorem retry_guarded:
  assumes "run_round E m stream st b fo a lf lg = Continue a' f lg'"
  shows "\<exists>k b' d lg0 lg6. suffix (ExecuteCall k b' d # lg0) lg6 \<and> suffix lg6 lg'
    \<and> \<not> committed (envExecute E lg0 k) \<and> shouldRetry f fo \<and> \<not> budgetExpired E lg6
    \<and> int (card a') < maxAttempts b \<and> (retryDeadline b = 0 \<or> envClock E lg6 < retryDeadline b)"
  using run_round_continue [OF assms] by blast

theorem retry_guarded_witness:
  "\<exists>a' f lg'. run_round sample_env 1 False sample_settings (newBudget sample_settings 5 False) sample_matcher {} None []
      = Continue a' f lg' \<and> shouldRetry f sample_matcher \<and> int (card a') < 5"
proof -
  have "case run_round sample_env 1 False sample_settings (newBudget sample_settings 5 False) sample_matcher {} None []
      of Continue a' f lg' \<Rightarrow> True | Done res lg' \<Rightarrow> False" by code_simp
  then obtain a' f lg' where c: "run_round sample_env 1 False sample_settings (newBudget sample_settings 5 False)
      sample_matcher {} None [] = Continue a' f lg'" by (auto split: loopOutcome.splits)
  have "maxAttempts (newBudget sample_settings 5 False) = 5" by code_simp
  then show ?thesis using c retry_guarded [OF c] by auto
qed

text \<open>The memoised failover matcher is the one built from the specification, building it never
  panics, and the cache stays correct.\<close>

theorem failover_memo:
  assumes "cache_ok cache"
  shows "\<exists>mt cache'. failoverMatcher s cache = Some (mt, cache') \<and> buildFailoverMatcher s = Some mt \<and> cache_ok cache'"
  using assms buildFailoverMatcher_total [of s]
  by (auto simp: failoverMatcher_def cache_ok_def split: option.splits)

theorem failover_memo_witness:
  "\<exists>mt cache'. failoverMatcher ''429'' Map.empty = Some (mt, cache') \<and> buildFailoverMatcher ''429'' = Some mt \<and> cache_ok cache'"
  by (rule failover_memo) (simp add: cache_ok_def)

text \<open>A call that failed in the egress proxy does not count against the key: no failure is written
  for it, its lease is released, and when the proxy pool is empty or its connection broke the fault is
  retryable.\<close>

theorem proxy_failure_spares_key:
  assumes "executeLease E m k b d lg = (out, lg')" and "secretErr (envExecute E lg k) = nil_error"
    and "errors_as_proxy (executeErr (envExecute E lg k)) = Some reason'"
  shows "blamed lg' = blamed lg \<and> released_keys lg' = k # released_keys lg
    \<and> (case reason' of ReasonNoHealthyProxy \<Rightarrow> \<exists>f. outFault out = Some f \<and> Retryable f \<and> HTTPStatus f = 503
       | ReasonTransportFailed \<Rightarrow> \<exists>f. outFault out = Some f \<and> Retryable f \<and> HTTPStatus f = 502
       | _ \<Rightarrow> outFault out = None \<and> outErr out = executeErr (envExecute E lg k))"
  using assms by (cases reason') (auto simp: executeLease_def Let_def proxy_fault_def)

definition proxy_env :: env where
  "proxy_env = sample_env\<lparr>envExecute := (\<lambda>lg k. \<lparr>secretErr = nil_error, answerResponse = None,
     executeErr = [Wrapped ''dial'', ProxyError ReasonNoHealthyProxy], committed = False\<rparr>)\<rparr>"

theorem proxy_failure_spares_key_witness:
  "\<exists>out lg'. executeLease proxy_env 1 7 (newBudget sample_settings 5 False) 0 [] = (out, lg')
    \<and> blamed lg' = [] \<and> released_keys lg' = [7]"
proof -
  have a: "secretErr (envExecute proxy_env [] 7) = nil_error"
    "errors_as_proxy (executeErr (envExecute proxy_env [] 7)) = Some ReasonNoHealthyProxy"
    by (simp_all add: proxy_env_def)
  obtain out lg' where e: "executeLease proxy_env 1 7 (newBudget sample_settings 5 False) 0 [] = (out, lg')"
    by (cases "executeLease proxy_env 1 7 (newBudget sample_settings 5 False) 0 []")
  show ?thesis using proxy_failure_spares_key [OF e a] e by auto
qed

text \<open>An answer of 401 is not retried on another key under the default failover set, so it ends
  the request.\<close>

theorem unauthorized_not_retried:
  assumes "StatusCode r = 401" and "trim_space spec' = []" and "buildFailoverMatcher spec' = Some mt"
  shows "\<not> shouldRetry (Classify pt (Some r) nil_error False now) mt"
proof -
  have "\<not> Match mt 401" using default_matcher assms(2,3) by (auto simp: buildFailoverMatcher_def)
  moreover have "Classify pt (Some r) nil_error False now = credentialFault 401 True"
    using assms(1) by (simp add: Classify_def Let_def case_prod_beta)
  ultimately show ?thesis by (simp add: shouldRetry_def fault_error_def errors_is_def credentialFault_def New_fault_def)
qed

theorem unauthorized_not_retried_witness:
  "\<not> shouldRetry (Classify (\<lambda>s. None)
      (Some \<lparr>StatusCode = 401, retryAfterHeader = [], requestIDHeader = [], Body = None\<rparr>) nil_error False 5) sample_matcher"
proof -
  have t: "trim_space [] = []" by code_simp
  have "Option.is_none (buildFailoverMatcher []) = False" by code_simp
  then have "buildFailoverMatcher [] = Some sample_matcher"
    unfolding sample_matcher_def by (cases "buildFailoverMatcher []") simp_all
  from unauthorized_not_retried [OF _ t this] show ?thesis by simp
qed

text \<open>The wait before the next key is never longer than five minutes and never ends after the
  retry window, whatever Retry-After the upstream named.\<close>

theorem backoff_within_window:
  assumes "0 \<le> r" "r \<le> 1" and "backoff E n b f lg = (e, SleepCall d # ClockRead t # RandomRead r # lg)"
  shows "0 < d \<and> d \<le> 5 * minute \<and> (retryDeadline b \<noteq> 0 \<and> d \<le> retryDeadline b - t)"
proof -
  have r: "r = envRandom E lg" and nz: "retryDeadline b \<noteq> 0"
    using assms(3) by (auto simp: backoff_def Let_def case_prod_beta clock_now_def split: if_splits)
  then have t: "t = envClock E (RandomRead r # lg)"
    using assms(3) by (auto simp: backoff_def Let_def case_prod_beta clock_now_def split: if_splits)
  let ?rem = "time_sub (retryDeadline b) t"
  have d: "d = (if ?rem < backoff_delay n f r then ?rem else backoff_delay n f r)" "0 < d"
    using assms(3) r t nz by (auto simp: backoff_def Let_def case_prod_beta clock_now_def split: if_splits)
  have "d \<le> ?rem" using d(1) by (simp split: if_splits)
  then have "0 < ?rem" using d(2) by linarith
  then have "t < retryDeadline b" by simp
  then have "?rem \<le> retryDeadline b - t" by (intro time_sub_le) simp
  then have "d \<le> retryDeadline b - t" using \<open>d \<le> ?rem\<close> by linarith
  then show ?thesis using d nz backoff_delay_le [OF assms(1,2), of n f] by (auto split: if_splits)
qed

theorem backoff_within_window_witness:
  "\<exists>d. snd (backoff sample_env 2 (newBudget sample_settings 5 False) (Protocol nil_error) [])
      = [SleepCall d, ClockRead 10, RandomRead 0] \<and> d \<le> 5 * minute"
proof -
  let ?b = "newBudget sample_settings 5 False"
  have nz: "retryDeadline ?b = 120000000005" "retryBackoffBase = 100000000" by code_simp+
  have bd: "backoff_delay 2 (Protocol nil_error) 0 = 80000000"
    by (simp add: backoff_delay_def retryBackoffBase_def retryBackoffMax_def Protocol_def New_fault_def go_trunc_def wrap64_def)
  have "backoff sample_env 2 ?b (Protocol nil_error) []
      = (nil_error, SleepCall 80000000 # ClockRead 10 # RandomRead 0 # [])"
    by (simp add: backoff_def Let_def case_prod_beta clock_now_def sample_env_def bd nz time_sub_def)
  from backoff_within_window [OF _ _ this] this show ?thesis by simp
qed

end
