(* ===== verification/Login_Limiter.thy ===== *)
theory Login_Limiter
  imports Sliding_Window
begin

text \<open>
  \<open>internal/adminauth/ratelimit.go\<close>: login attempts per client address (or account) in a sliding
  minute, with a bounded number of remembered clients. The doubly linked list \<open>expirationOrder\<close> holds
  exactly the states of the map, so it is the list of their keys, front first. Taking the front of an
  empty list is a nil dereference in Go; the invariant shows that it cannot happen.
\<close>

definition loginWindow :: duration where "loginWindow = minute"
definition loginAttemptLimit :: nat where "loginAttemptLimit = 5"
definition loginStateLifetime :: duration where "loginStateLifetime = 24 * 60 * minute"
definition maxLoginStates :: nat where "maxLoginStates = 10000"

record loginState =
  attempts :: "time list"
  failures :: int
  lastUsed :: time

record loginLimiter =
  loginStates :: "(string \<times> loginState) list"
  expirationOrder :: "string list"

definition NewLoginLimiter :: loginLimiter where
  "NewLoginLimiter = \<lparr>loginStates = [], expirationOrder = []\<rparr>"

text \<open>The Go map as an association list with one entry per key.\<close>

definition login_put :: "string \<Rightarrow> loginState \<Rightarrow> loginLimiter \<Rightarrow> loginLimiter" where
  "login_put ip s l = l\<lparr>loginStates := (ip, s) # filter (\<lambda>e. fst e \<noteq> ip) (loginStates l)\<rparr>"

definition login_remove :: "string \<Rightarrow> loginLimiter \<Rightarrow> loginLimiter" where
  "login_remove ip l =
     l\<lparr>loginStates := filter (\<lambda>e. fst e \<noteq> ip) (loginStates l),
       expirationOrder := filter (\<lambda>x. x \<noteq> ip) (expirationOrder l)\<rparr>"

definition touch :: "string \<Rightarrow> time \<Rightarrow> loginState \<Rightarrow> loginLimiter \<Rightarrow> loginLimiter" where
  "touch ip now s l =
     (login_put ip (s\<lparr>lastUsed := now\<rparr>) l)
       \<lparr>expirationOrder := filter (\<lambda>x. x \<noteq> ip) (expirationOrder l) @ [ip]\<rparr>"

definition login_state :: "string \<Rightarrow> time \<Rightarrow> loginLimiter \<Rightarrow> loginState \<times> loginLimiter" where
  "login_state ip now l =
     (case map_of (loginStates l) ip of
        Some s \<Rightarrow> (s, l)
      | None \<Rightarrow>
          let l1 = (if length (loginStates l) \<ge> maxLoginStates then login_remove (hd (expirationOrder l)) l else l);
              s = \<lparr>attempts = [], failures = 0, lastUsed = now\<rparr>
          in (s, (login_put ip s l1)\<lparr>expirationOrder := expirationOrder l1 @ [ip]\<rparr>))"

definition keepWindowAttempts :: "time list \<Rightarrow> time \<Rightarrow> time list" where
  "keepWindowAttempts ts now = filter (\<lambda>t. t > now - loginWindow) ts"

definition startAttempt :: "string \<Rightarrow> time \<Rightarrow> loginLimiter \<Rightarrow> bool \<times> loginLimiter" where
  "startAttempt ip now l =
     (case login_state ip now l of
        (s, l1) \<Rightarrow>
          let s1 = s\<lparr>attempts := keepWindowAttempts (attempts s) now\<rparr>;
              l2 = touch ip now s1 l1
          in if length (attempts s1) \<ge> loginAttemptLimit then (False, l2)
             else (True, login_put ip (s1\<lparr>lastUsed := now, attempts := attempts s1 @ [now]\<rparr>) l2))"

function cleanInactive :: "time \<Rightarrow> loginLimiter \<Rightarrow> loginLimiter" where
  "cleanInactive now l =
     (case expirationOrder l of
        [] \<Rightarrow> l
      | ip # _ \<Rightarrow>
          (case map_of (loginStates l) ip of
             None \<Rightarrow> l
           | Some s \<Rightarrow>
               if time_sub now (lastUsed s) < loginStateLifetime then l
               else cleanInactive now (login_remove ip l)))"
  by pat_completeness auto
termination
proof (relation "measure (\<lambda>(now, l). length (expirationOrder l))")
  fix now :: time and l :: loginLimiter and ip rest s
  assume "expirationOrder l = ip # rest"
  then show "((now, login_remove ip l), now, l) \<in> measure (\<lambda>(now, l). length (expirationOrder l))"
    by (simp add: login_remove_def le_imp_less_Suc)
qed simp

declare cleanInactive.simps [simp del]

fun start_accounts :: "string \<Rightarrow> time \<Rightarrow> string list \<Rightarrow> loginLimiter \<Rightarrow> bool \<times> loginLimiter" where
  "start_accounts ip now [] l = (True, l)"
| "start_accounts ip now (k # ks) l =
     (if k = [] \<or> k = ip then start_accounts ip now ks l
      else (case startAttempt k now l of
        (ok, l1) \<Rightarrow> if ok then start_accounts ip now ks l1 else (False, l1)))"

definition StartAttempt :: "string \<Rightarrow> string list \<Rightarrow> time \<Rightarrow> loginLimiter \<Rightarrow> bool \<times> loginLimiter" where
  "StartAttempt ip accountKeys now l =
     (case startAttempt ip now (cleanInactive now l) of
        (ok, l1) \<Rightarrow> if ok then start_accounts ip now accountKeys l1 else (False, l1))"

definition loginFailureDelay :: "int \<Rightarrow> duration" where
  "loginFailureDelay n = second * 2 ^ nat (min (n - 1) 3)"

definition RecordFailure :: "string \<Rightarrow> time \<Rightarrow> loginLimiter \<Rightarrow> duration \<times> loginLimiter" where
  "RecordFailure ip now l =
     (case login_state ip now (cleanInactive now l) of
        (s, l1) \<Rightarrow>
          let s1 = s\<lparr>failures := failures s + 1\<rparr>
          in (loginFailureDelay (failures s1), touch ip now s1 l1))"

definition RecordSuccess :: "string \<Rightarrow> time \<Rightarrow> loginLimiter \<Rightarrow> loginLimiter" where
  "RecordSuccess ip now l =
     (let l1 = cleanInactive now l
      in case map_of (loginStates l1) ip of None \<Rightarrow> l1 | Some _ \<Rightarrow> login_remove ip l1)"

subsection \<open>Invariant\<close>

definition login_inv :: "loginLimiter \<Rightarrow> bool" where
  "login_inv l \<longleftrightarrow>
     distinct (map fst (loginStates l)) \<and> distinct (expirationOrder l)
     \<and> set (expirationOrder l) = fst ` set (loginStates l)
     \<and> length (loginStates l) \<le> maxLoginStates
     \<and> (\<forall>(ip, s)\<in>set (loginStates l). 0 \<le> failures s \<and> (\<forall>t\<in>set (attempts s). t \<le> lastUsed s))"

definition client_log :: "string \<Rightarrow> loginLimiter \<Rightarrow> time list" where
  "client_log ip l = (case map_of (loginStates l) ip of None \<Rightarrow> [] | Some s \<Rightarrow> attempts s)"

lemma filter_fst_set: "fst ` set (filter (\<lambda>e. fst e \<noteq> k) xs) = fst ` set xs - {k}"
  by auto

lemma distinct_fst_filter: "distinct (map fst xs) \<Longrightarrow> distinct (map fst (filter P xs))"
  by (induction xs) auto

lemma length_filter_fst:
  "distinct (map fst xs) \<Longrightarrow> k \<in> fst ` set xs \<Longrightarrow> Suc (length (filter (\<lambda>e. fst e \<noteq> k) xs)) = length xs"
proof (induction xs)
  case (Cons x xs)
  show ?case
  proof (cases "fst x = k")
    case True
    then have "filter (\<lambda>e. fst e \<noteq> k) xs = xs" using Cons.prems by (auto simp: filter_id_conv image_iff)
    then show ?thesis using True by simp
  next
    case False
    then show ?thesis using Cons by simp
  qed
qed simp

lemma map_of_filter_ne: "map_of (filter (\<lambda>e. fst e \<noteq> k) xs) i = (if i = k then None else map_of xs i)"
  by (induction xs) auto

lemma login_put_inv:
  assumes "login_inv l" "ip \<in> set (expirationOrder l)" "0 \<le> failures s" "\<forall>t\<in>set (attempts s). t \<le> lastUsed s"
  shows "login_inv (login_put ip s l)"
proof -
  have "Suc (length (filter (\<lambda>e. fst e \<noteq> ip) (loginStates l))) = length (loginStates l)"
    using assms by (intro length_filter_fst) (auto simp: login_inv_def)
  then show ?thesis using assms
    by (auto simp: login_inv_def login_put_def distinct_fst_filter)
qed

lemma login_remove_inv: "login_inv l \<Longrightarrow> login_inv (login_remove ip l)"
  by (auto simp: login_inv_def login_remove_def distinct_fst_filter intro: order_trans [OF length_filter_le])

lemma login_remove_shrinks:
  assumes "login_inv l" "ip \<in> set (expirationOrder l)"
  shows "Suc (length (loginStates (login_remove ip l))) = length (loginStates l)"
  using assms by (simp add: login_remove_def) (rule length_filter_fst, auto simp: login_inv_def)

lemma touch_inv:
  assumes "login_inv l" "ip \<in> set (expirationOrder l)" "0 \<le> failures s" "\<forall>t\<in>set (attempts s). t \<le> now"
  shows "login_inv (touch ip now s l)"
proof -
  have "login_inv (login_put ip (s\<lparr>lastUsed := now\<rparr>) l)" using assms by (intro login_put_inv) auto
  moreover have "expirationOrder (login_put ip (s\<lparr>lastUsed := now\<rparr>) l) = expirationOrder l"
    by (simp add: login_put_def)
  ultimately show ?thesis using assms(2) by (auto simp: login_inv_def touch_def)
qed

lemma login_state_inv:
  assumes inv: "login_inv l" and r: "login_state ip now l = (s, l')"
  shows "login_inv l'" "ip \<in> set (expirationOrder l')" "0 \<le> failures s" "map_of (loginStates l') ip = Some s"
    and "client_log ip l' = client_log ip l"
proof -
  have "login_inv l' \<and> ip \<in> set (expirationOrder l') \<and> 0 \<le> failures s \<and> map_of (loginStates l') ip = Some s
    \<and> client_log ip l' = client_log ip l"
  proof (cases "map_of (loginStates l) ip")
    case (Some s0)
    then have "(ip, s0) \<in> set (loginStates l)" by (rule map_of_SomeD)
    then show ?thesis using Some inv r by (force simp: login_state_def login_inv_def)
  next
    case None
    define l1 where "l1 = (if length (loginStates l) \<ge> maxLoginStates then login_remove (hd (expirationOrder l)) l else l)"
    have new: "ip \<notin> fst ` set (loginStates l)" using None by (simp add: map_of_eq_None_iff)
    have "hd (expirationOrder l) \<in> set (expirationOrder l)" if "length (loginStates l) \<ge> maxLoginStates"
      using that inv by (cases "expirationOrder l") (auto simp: login_inv_def maxLoginStates_def)
    then have l1: "login_inv l1" "Suc (length (loginStates l1)) \<le> maxLoginStates"
      using inv login_remove_inv [OF inv] login_remove_shrinks [OF inv, of "hd (expirationOrder l)"]
      by (auto simp: l1_def login_inv_def)
    have new1: "ip \<notin> fst ` set (loginStates l1)" using new by (auto simp: l1_def login_remove_def)
    then have f: "filter (\<lambda>e. fst e \<noteq> ip) (loginStates l1) = loginStates l1" by (force simp: filter_id_conv)
    let ?s = "\<lparr>attempts = [], failures = 0, lastUsed = now\<rparr>"
    have eq: "s = ?s" "l' = (login_put ip ?s l1)\<lparr>expirationOrder := expirationOrder l1 @ [ip]\<rparr>"
      using r None by (auto simp: login_state_def Let_def l1_def)
    have "login_inv l'" using l1 new1 f unfolding eq by (auto simp: login_inv_def login_put_def)
    then show ?thesis unfolding eq using None by (simp add: login_put_def client_log_def)
  qed
  then show "login_inv l'" "ip \<in> set (expirationOrder l')" "0 \<le> failures s" "map_of (loginStates l') ip = Some s"
    "client_log ip l' = client_log ip l" by blast+
qed

lemma cleanInactive_inv:
  assumes "login_inv l"
  shows "login_inv (cleanInactive now l)"
  using assms
proof (induction now l rule: cleanInactive.induct)
  case (1 now l)
  then show ?case
    by (subst cleanInactive.simps) (auto split: list.splits option.splits intro: login_remove_inv)
qed

text \<open>Cleaning forgets only clients whose last use, and so every attempt, lies a day back.\<close>

lemma cleanInactive_log:
  assumes "login_inv l" "\<forall>t\<in>set (client_log ip l). t \<le> now"
  shows "filter (\<lambda>t. now - loginWindow < t) (client_log ip (cleanInactive now l))
    = filter (\<lambda>t. now - loginWindow < t) (client_log ip l)
    \<and> (\<forall>t\<in>set (client_log ip (cleanInactive now l)). t \<le> now)"
  using assms
proof (induction now l rule: cleanInactive.induct)
  case (1 now l)
  show ?case
  proof (cases "expirationOrder l")
    case Nil
    then show ?thesis using 1 by (simp add: cleanInactive.simps [of now l])
  next
    case (Cons x xs)
    then have "x \<in> fst ` set (loginStates l)"
      using "1.prems"(1) unfolding login_inv_def by (metis list.set_intros(1))
    then obtain s where s: "map_of (loginStates l) x = Some s"
      using map_of_eq_None_iff [of "loginStates l" x] by blast
    show ?thesis
    proof (cases "time_sub now (lastUsed s) < loginStateLifetime")
      case True
      then show ?thesis using 1 Cons s by (simp add: cleanInactive.simps [of now l])
    next
      case False
      have old: "now - lastUsed s \<ge> loginStateLifetime"
        using False time_sub_ge_iff [of loginStateLifetime now "lastUsed s"] by (simp add: loginStateLifetime_def)
      have "(x, s) \<in> set (loginStates l)" using s by (rule map_of_SomeD)
      then have "\<forall>t\<in>set (attempts s). t \<le> lastUsed s" using "1.prems"(1) unfolding login_inv_def by blast
      moreover have "lastUsed s \<le> now - loginWindow" using old by (simp add: loginStateLifetime_def loginWindow_def)
      ultimately have none: "filter (\<lambda>t. now - loginWindow < t) (attempts s) = []"
        unfolding filter_empty_conv by (meson dual_order.trans not_less)
      have cl: "client_log ip (login_remove x l) = (if ip = x then [] else client_log ip l)"
        by (simp add: client_log_def login_remove_def map_of_filter_ne)
      have "filter (\<lambda>t. now - loginWindow < t) (client_log ip (login_remove x l))
          = filter (\<lambda>t. now - loginWindow < t) (client_log ip l)"
        unfolding cl using none s by (simp add: client_log_def)
      moreover have "\<forall>t\<in>set (client_log ip (login_remove x l)). t \<le> now" using "1.prems"(2) by (auto simp: cl)
      ultimately show ?thesis
        using "1.IH" [OF Cons s False] "1.prems"(1) login_remove_inv Cons s False
        by (simp add: cleanInactive.simps [of now l])
    qed
  qed
qed

subsection \<open>The attempt\<close>

lemma startAttempt_ok:
  assumes inv: "login_inv l" and old: "\<forall>t\<in>set (client_log ip l). t \<le> now"
    and r: "startAttempt ip now l = (ok, l')"
  shows "login_inv l'"
    and "ok \<longleftrightarrow> length (filter (\<lambda>t. now - loginWindow < t) (client_log ip l)) < loginAttemptLimit"
    and "client_log ip l' = filter (\<lambda>t. now - loginWindow < t) (client_log ip l) @ (if ok then [now] else [])"
proof -
  obtain s l1 where s: "login_state ip now l = (s, l1)" by (cases "login_state ip now l")
  note ls = login_state_inv [OF inv s]
  have at: "attempts s = client_log ip l" using ls(4,5) by (simp add: client_log_def)
  let ?ts = "filter (\<lambda>t. now - loginWindow < t) (client_log ip l)"
  define s1 where "s1 = s\<lparr>attempts := keepWindowAttempts (attempts s) now\<rparr>"
  have s1: "attempts s1 = ?ts" "failures s1 = failures s" by (simp_all add: s1_def keepWindowAttempts_def at)
  have t: "login_inv (touch ip now s1 l1)" using ls s1 old by (intro touch_inv) auto
  have ip: "ip \<in> set (expirationOrder (touch ip now s1 l1))" by (simp add: touch_def)
  have eq: "startAttempt ip now l = (if length ?ts \<ge> loginAttemptLimit then (False, touch ip now s1 l1)
      else (True, login_put ip (s1\<lparr>lastUsed := now, attempts := ?ts @ [now]\<rparr>) (touch ip now s1 l1)))"
    unfolding startAttempt_def s prod.case Let_def s1_def [symmetric] s1(1) by (rule refl)
  have p: "login_inv (login_put ip (s1\<lparr>lastUsed := now, attempts := ?ts @ [now]\<rparr>) (touch ip now s1 l1))"
    using t ip ls(3) s1(2) old by (intro login_put_inv) auto
  show "login_inv l'" using r eq t p by (auto split: if_splits)
  show "ok \<longleftrightarrow> length ?ts < loginAttemptLimit" using r eq by (auto split: if_splits)
  show "client_log ip l' = ?ts @ (if ok then [now] else [])"
    using r eq s1(1) by (auto simp: client_log_def login_put_def touch_def split: if_splits)
qed

lemma StartAttempt_ok:
  assumes inv: "login_inv l" and old: "\<forall>t\<in>set (client_log ip l). t \<le> now"
    and r: "StartAttempt ip [] now l = (ok, l')"
  shows "login_inv l'"
    and "ok \<longleftrightarrow> length (filter (\<lambda>t. now - loginWindow < t) (client_log ip l)) < loginAttemptLimit"
    and "client_log ip l' = filter (\<lambda>t. now - loginWindow < t) (client_log ip l) @ (if ok then [now] else [])"
proof -
  note c = cleanInactive_log [OF inv old] and ci = cleanInactive_inv [OF inv, of now]
  have st: "startAttempt ip now (cleanInactive now l) = (ok, l')"
    using r by (auto simp: StartAttempt_def split: prod.splits if_splits)
  note sa = startAttempt_ok [OF ci conjunct2 [OF c] st]
  show "login_inv l'" by (rule sa(1))
  show "ok \<longleftrightarrow> length (filter (\<lambda>t. now - loginWindow < t) (client_log ip l)) < loginAttemptLimit" using sa(2) c by simp
  show "client_log ip l' = filter (\<lambda>t. now - loginWindow < t) (client_log ip l) @ (if ok then [now] else [])"
    using sa(3) c by simp
qed

interpretation login_rate: sliding_window loginAttemptLimit loginWindow
  "\<lambda>l now. StartAttempt ip [] now l" "client_log ip" login_inv
proof (unfold_locales, goal_cases)
  case 1
  show ?case by (simp add: loginWindow_def)
next
  case (2 l now ok l')
  then show ?case by (rule StartAttempt_ok(2))
next
  case (3 l now ok l')
  then show ?case by (rule StartAttempt_ok(3))
next
  case (4 l now ok l')
  then show ?case by (rule StartAttempt_ok(1))
qed

lemma NewLoginLimiter_inv: "login_inv NewLoginLimiter"
  by (simp add: login_inv_def NewLoginLimiter_def)

subsection \<open>Properties\<close>

text \<open>Brute force is bounded. However often one client asks, in any minute at most five of its
  login attempts are let through.\<close>

theorem login_rate_limit:
  assumes "sorted nows"
  shows "length (filter (\<lambda>x. t - minute < x \<and> x \<le> t)
           (admitted (\<lambda>l now. StartAttempt ip [] now l) NewLoginLimiter nows)) \<le> 5"
  using login_rate.admitted_window [OF NewLoginLimiter_inv assms, of ip t]
  by (simp add: loginAttemptLimit_def loginWindow_def client_log_def NewLoginLimiter_def)

theorem login_rate_limit_witness:
  "length (filter (\<lambda>x. 8 - minute < x \<and> x \<le> 8)
     (admitted (\<lambda>l now. StartAttempt ''10.0.0.1'' [] now l) NewLoginLimiter [1, 2, 3, 4, 5, 6, 7, 8])) \<le> 5"
  by (rule login_rate_limit) simp

text \<open>The memory of the limiter is bounded and consistent: recording a failure keeps the map and
  the expiration list in step with at most ten thousand clients, and the delay it imposes is one, two,
  four or eight seconds.\<close>

theorem login_memory_bounded:
  assumes "login_inv l" and "\<forall>t\<in>set (client_log ip l). t \<le> now"
  shows "login_inv (snd (RecordFailure ip now l)) \<and> login_inv (RecordSuccess ip now l)
    \<and> length (loginStates (snd (RecordFailure ip now l))) \<le> 10000
    \<and> fst (RecordFailure ip now l) \<in> {second, 2 * second, 4 * second, 8 * second}"
proof -
  note ci = cleanInactive_inv [OF assms(1), of now] and cl = cleanInactive_log [OF assms]
  obtain s l1 where s: "login_state ip now (cleanInactive now l) = (s, l1)"
    by (cases "login_state ip now (cleanInactive now l)")
  note ls = login_state_inv [OF ci s]
  have at: "attempts s = client_log ip (cleanInactive now l)" using ls(4,5) by (simp add: client_log_def)
  have rf: "login_inv (snd (RecordFailure ip now l))"
    using ls at cl unfolding RecordFailure_def s by (auto simp: Let_def intro!: touch_inv)
  have "login_inv (RecordSuccess ip now l)"
    using ci login_remove_inv by (auto simp: RecordSuccess_def Let_def split: option.splits)
  moreover have "loginFailureDelay (failures s + 1) \<in> {second, 2 * second, 4 * second, 8 * second}"
  proof -
    have "min (failures s) 3 \<in> {0, 1, 2, 3}" using ls(3) by auto
    then show ?thesis by (auto simp: loginFailureDelay_def)
  qed
  ultimately show ?thesis using rf unfolding login_inv_def maxLoginStates_def
    by (simp add: RecordFailure_def s Let_def)
qed

theorem login_memory_bounded_witness:
  "login_inv (snd (RecordFailure ''10.0.0.1'' 5 NewLoginLimiter))
    \<and> fst (RecordFailure ''10.0.0.1'' 5 NewLoginLimiter) \<in> {second, 2 * second, 4 * second, 8 * second}"
  using login_memory_bounded [OF NewLoginLimiter_inv, of "''10.0.0.1''" 5]
  by (simp add: client_log_def NewLoginLimiter_def)

end
