(* ===== verification/Access_Limiter.thy ===== *)
theory Access_Limiter
  imports Prelude
begin

text \<open>
  \<open>internal/accesskey/limiter.go\<close>: per-access-key limits on requests and tokens per minute (fixed
  windows), on concurrent requests and on the cumulative token budget. Buckets live in 256 shards
  chosen by the key id as an unsigned integer.
\<close>

datatype limitError = ErrRateLimited | ErrBudgetExceeded

record limitBucket =
  windowStart :: time
  rpmCount :: int
  tokens :: int
  concurrent :: int
  consumed :: int
  seeded :: bool

type_synonym limiter = "nat \<Rightarrow> int \<rightharpoonup> limitBucket"

definition numShards :: nat where "numShards = 256"

definition newLimiter :: limiter where "newLimiter = (\<lambda>i. Map.empty)"

definition shardFor :: "int \<Rightarrow> nat" where
  "shardFor i = nat (i mod 18446744073709551616) mod numShards"

definition bucket_of :: "limiter \<Rightarrow> int \<Rightarrow> limitBucket option" where
  "bucket_of l i = l (shardFor i) i"

definition put_bucket :: "int \<Rightarrow> limitBucket \<Rightarrow> limiter \<Rightarrow> limiter" where
  "put_bucket i b l = l(shardFor i := (l (shardFor i))(i \<mapsto> b))"

definition maxInt64 :: "int \<Rightarrow> int \<Rightarrow> int" where
  "maxInt64 v lo = (if v < lo then lo else v)"

text \<open>The bucket a request sees: fresh, rotated to a new window, or as it is.\<close>

definition bucketLocked :: "int \<Rightarrow> time \<Rightarrow> limiter \<Rightarrow> limitBucket" where
  "bucketLocked i now l =
     (case bucket_of l i of
        None \<Rightarrow> \<lparr>windowStart = now, rpmCount = 0, tokens = 0, concurrent = 0, consumed = 0, seeded = False\<rparr>
      | Some b \<Rightarrow>
          if now < windowStart b \<or> time_sub now (windowStart b) \<ge> minute
          then b\<lparr>windowStart := now, rpmCount := 0, tokens := 0\<rparr> else b)"

record limitPolicy =
  polRPM :: int
  polTPM :: int
  polConcurrent :: int
  polBudget :: int

definition limiter_begin :: "int \<Rightarrow> limitPolicy \<Rightarrow> int \<Rightarrow> time \<Rightarrow> limiter \<Rightarrow> limitError option \<times> limiter" where
  "limiter_begin i pol persisted now l =
     (if polRPM pol \<le> 0 \<and> polTPM pol \<le> 0 \<and> polConcurrent pol \<le> 0 \<and> polBudget pol \<le> 0 then (None, l)
      else
        let b0 = bucketLocked i now l;
            b = (if \<not> seeded b0 then b0\<lparr>consumed := maxInt64 persisted 0, seeded := True\<rparr> else b0)
        in if polConcurrent pol > 0 \<and> concurrent b \<ge> polConcurrent pol then (Some ErrRateLimited, put_bucket i b l)
           else if polRPM pol > 0 \<and> rpmCount b \<ge> polRPM pol then (Some ErrRateLimited, put_bucket i b l)
           else if polTPM pol > 0 \<and> tokens b \<ge> polTPM pol then (Some ErrRateLimited, put_bucket i b l)
           else if polBudget pol > 0 \<and> consumed b \<ge> polBudget pol then (Some ErrBudgetExceeded, put_bucket i b l)
           else (None, put_bucket i (b\<lparr>rpmCount := rpmCount b + 1, concurrent := concurrent b + 1\<rparr>) l))"

definition limiter_charge :: "int \<Rightarrow> int \<Rightarrow> int \<Rightarrow> int \<Rightarrow> time \<Rightarrow> limiter \<Rightarrow> limiter" where
  "limiter_charge i tpm prompt completion now l =
     (let added = wrap64 (maxInt64 prompt 0 + maxInt64 completion 0);
          b = bucketLocked i now l;
          b1 = (if tpm > 0 then b\<lparr>tokens := wrap64 (tokens b + added)\<rparr> else b)
      in put_bucket i (b1\<lparr>consumed := wrap64 (consumed b1 + added)\<rparr>) l)"

definition consumedTotal :: "int \<Rightarrow> limiter \<Rightarrow> int" where
  "consumedTotal i l = (case bucket_of l i of None \<Rightarrow> 0 | Some b \<Rightarrow> consumed b)"

definition limiter_release :: "int \<Rightarrow> limiter \<Rightarrow> limiter" where
  "limiter_release i l =
     (case bucket_of l i of
        None \<Rightarrow> l
      | Some b \<Rightarrow> if concurrent b > 0 then put_bucket i (b\<lparr>concurrent := concurrent b - 1\<rparr>) l else l)"

definition limiter_remove :: "int \<Rightarrow> limiter \<Rightarrow> limiter" where
  "limiter_remove i l = l(shardFor i := (l (shardFor i))(i := None))"

subsection \<open>Facts\<close>

lemma bucket_of_put [simp]: "bucket_of (put_bucket i b l) j = (if i = j then Some b else bucket_of l j)"
  by (auto simp: bucket_of_def put_bucket_def)

lemma bucket_of_remove [simp]: "bucket_of (limiter_remove i l) j = (if i = j then None else bucket_of l j)"
  by (auto simp: bucket_of_def limiter_remove_def)

definition in_flight :: "limiter \<Rightarrow> int \<Rightarrow> int" where
  "in_flight l i = (case bucket_of l i of None \<Rightarrow> 0 | Some b \<Rightarrow> concurrent b)"

lemma bucketLocked_concurrent: "concurrent (bucketLocked i now l) = in_flight l i"
  by (auto simp: bucketLocked_def in_flight_def split: option.splits)

subsection \<open>Runs\<close>

text \<open>A run of one access key whose policy does not change, with other keys interleaved in any way;
  \<open>n\<close> is the number of its requests that have begun and not ended. \<open>c\<close> is what its requests have consumed in all:
  the persisted count that its first request brings, and everything that is charged from then on. A charge is reported when its
  request has ended, so the two are separate steps.\<close>

definition tokens_of :: "int \<Rightarrow> int \<Rightarrow> int" where
  "tokens_of prompt completion = max prompt 0 + max completion 0"

definition first_seen :: "int option \<Rightarrow> int \<Rightarrow> int option" where
  "first_seen c persisted = (case c of None \<Rightarrow> Some (max persisted 0) | Some x \<Rightarrow> Some x)"

inductive limit_run :: "int \<Rightarrow> limitPolicy \<Rightarrow> limiter \<Rightarrow> nat \<Rightarrow> int option \<Rightarrow> bool" for i pol where
  start: "limit_run i pol newLimiter 0 None"
| begin_ok: "limit_run i pol l n c \<Longrightarrow> limiter_begin i pol persisted now l = (None, l') \<Longrightarrow> limit_run i pol l' (Suc n) (first_seen c persisted)"
| begin_refused: "limit_run i pol l n c \<Longrightarrow> limiter_begin i pol persisted now l = (Some e, l') \<Longrightarrow> limit_run i pol l' n (first_seen c persisted)"
| charge: "limit_run i pol l n c \<Longrightarrow>
    limit_run i pol (limiter_charge i tpm prompt completion now l) n (map_option (\<lambda>x. x + tokens_of prompt completion) c)"
| release: "limit_run i pol l (Suc n) c \<Longrightarrow> limit_run i pol (limiter_release i l) n c"
| other_begin: "limit_run i pol l n c \<Longrightarrow> j \<noteq> i \<Longrightarrow> limiter_begin j pol' persisted now l = (r, l') \<Longrightarrow> limit_run i pol l' n c"
| other_charge: "limit_run i pol l n c \<Longrightarrow> j \<noteq> i \<Longrightarrow> limit_run i pol (limiter_charge j tpm prompt completion now l) n c"
| other_release: "limit_run i pol l n c \<Longrightarrow> j \<noteq> i \<Longrightarrow> limit_run i pol (limiter_release j l) n c"
| other_remove: "limit_run i pol l n c \<Longrightarrow> j \<noteq> i \<Longrightarrow> limit_run i pol (limiter_remove j l) n c"

definition limited :: "limitPolicy \<Rightarrow> bool" where
  "limited pol \<longleftrightarrow> 0 < polRPM pol \<or> 0 < polTPM pol \<or> 0 < polConcurrent pol \<or> 0 < polBudget pol"

lemma begin_other: "j \<noteq> i \<Longrightarrow> limiter_begin j pol persisted now l = (r, l') \<Longrightarrow> bucket_of l' i = bucket_of l i"
  by (auto simp: limiter_begin_def Let_def split: if_splits)

lemma charge_other: "j \<noteq> i \<Longrightarrow> bucket_of (limiter_charge j tpm p c now l) i = bucket_of l i"
  by (simp add: limiter_charge_def Let_def)

lemma release_other: "j \<noteq> i \<Longrightarrow> bucket_of (limiter_release j l) i = bucket_of l i"
  by (auto simp: limiter_release_def split: option.splits)

lemma charge_bucket:
  "bucket_of (limiter_charge i tpm p c now l) i =
     Some ((let b = bucketLocked i now l; added = wrap64 (maxInt64 p 0 + maxInt64 c 0);
                b1 = (if tpm > 0 then b\<lparr>tokens := wrap64 (tokens b + added)\<rparr> else b)
            in b1\<lparr>consumed := wrap64 (consumed b1 + added)\<rparr>))"
  by (simp add: limiter_charge_def Let_def)

text \<open>The counters of a run.\<close>

definition counts_ok :: "int \<Rightarrow> limitPolicy \<Rightarrow> limiter \<Rightarrow> nat \<Rightarrow> bool" where
  "counts_ok i pol l n \<longleftrightarrow>
     in_flight l i = int n \<and> (0 < polConcurrent pol \<longrightarrow> int n \<le> polConcurrent pol)
     \<and> (case bucket_of l i of None \<Rightarrow> True
        | Some b \<Rightarrow> 0 \<le> rpmCount b \<and> (0 < polRPM pol \<longrightarrow> rpmCount b \<le> polRPM pol))"

lemma counts_ok_cong: "bucket_of l' i = bucket_of l i \<Longrightarrow> counts_ok i pol l' n = counts_ok i pol l n"
  by (simp add: counts_ok_def in_flight_def)

lemma bucketLocked_rpm:
  "counts_ok i pol l n \<Longrightarrow> 0 \<le> rpmCount (bucketLocked i now l)
     \<and> (0 < polRPM pol \<longrightarrow> rpmCount (bucketLocked i now l) \<le> polRPM pol)"
  by (auto simp: counts_ok_def bucketLocked_def split: option.splits)

text \<open>What a successful or refused \<open>begin\<close> leaves in the bucket.\<close>

definition seeded_bucket :: "int \<Rightarrow> int \<Rightarrow> time \<Rightarrow> limiter \<Rightarrow> limitBucket" where
  "seeded_bucket i persisted now l =
     (let b0 = bucketLocked i now l in if \<not> seeded b0 then b0\<lparr>consumed := maxInt64 persisted 0, seeded := True\<rparr> else b0)"

lemma begin_eq:
  assumes "limited pol"
  shows "limiter_begin i pol persisted now l =
    (let b = seeded_bucket i persisted now l
     in if polConcurrent pol > 0 \<and> concurrent b \<ge> polConcurrent pol then (Some ErrRateLimited, put_bucket i b l)
        else if polRPM pol > 0 \<and> rpmCount b \<ge> polRPM pol then (Some ErrRateLimited, put_bucket i b l)
        else if polTPM pol > 0 \<and> tokens b \<ge> polTPM pol then (Some ErrRateLimited, put_bucket i b l)
        else if polBudget pol > 0 \<and> consumed b \<ge> polBudget pol then (Some ErrBudgetExceeded, put_bucket i b l)
        else (None, put_bucket i (b\<lparr>rpmCount := rpmCount b + 1, concurrent := concurrent b + 1\<rparr>) l))"
  using assms unfolding limiter_begin_def limited_def seeded_bucket_def Let_def by auto

lemma begin_cases:
  assumes "limited pol" "limiter_begin i pol persisted now l = (r, l')"
  obtains b where "bucket_of l' i = Some b"
    "concurrent b = in_flight l i + (if r = None then 1 else 0)"
    "rpmCount b = rpmCount (bucketLocked i now l) + (if r = None then 1 else 0)"
    "r = None \<Longrightarrow> 0 < polConcurrent pol \<Longrightarrow> in_flight l i < polConcurrent pol"
    "r = None \<Longrightarrow> 0 < polRPM pol \<Longrightarrow> rpmCount (bucketLocked i now l) < polRPM pol"
    "r = None \<Longrightarrow> 0 < polBudget pol \<Longrightarrow> consumed b < polBudget pol"
    "0 < polBudget pol \<Longrightarrow> polBudget pol \<le> consumed b \<Longrightarrow> r \<noteq> None"
proof -
  define b where "b = seeded_bucket i persisted now l"
  have c: "concurrent b = in_flight l i" "rpmCount b = rpmCount (bucketLocked i now l)"
    by (simp_all add: b_def seeded_bucket_def bucketLocked_concurrent Let_def)
  note eq = begin_eq [OF assms(1), of i persisted now l, unfolded Let_def, folded b_def]
  show thesis
  proof (cases r)
    case None
    then have "l' = put_bucket i (b\<lparr>rpmCount := rpmCount b + 1, concurrent := concurrent b + 1\<rparr>) l"
      "\<not> (polConcurrent pol > 0 \<and> concurrent b \<ge> polConcurrent pol)" "\<not> (polRPM pol > 0 \<and> rpmCount b \<ge> polRPM pol)"
      "\<not> (polBudget pol > 0 \<and> consumed b \<ge> polBudget pol)"
      using assms(2) eq by (auto split: if_splits)
    then show thesis using that [of "b\<lparr>rpmCount := rpmCount b + 1, concurrent := concurrent b + 1\<rparr>"] None c
      by (auto simp: not_le)
  next
    case (Some e)
    then have "l' = put_bucket i b l" using assms(2) eq by (auto split: if_splits)
    then show thesis using that [of b] Some c by simp
  qed
qed

lemma limit_run_counts:
  assumes "limited pol" "limit_run i pol l n c"
  shows "counts_ok i pol l n"
  using assms(2)
proof (induction rule: limit_run.induct)
  case start
  then show ?case by (simp add: counts_ok_def in_flight_def newLimiter_def bucket_of_def)
next
  case (begin_ok l n c persisted now l')
  show ?case
    by (rule begin_cases [OF assms(1) begin_ok.hyps(2)])
      (use begin_ok.IH bucketLocked_rpm [OF begin_ok.IH, of now] in \<open>auto simp: counts_ok_def in_flight_def\<close>)
next
  case (begin_refused l n c persisted now e l')
  show ?case
    by (rule begin_cases [OF assms(1) begin_refused.hyps(2)])
      (use begin_refused.IH bucketLocked_rpm [OF begin_refused.IH, of now] in \<open>auto simp: counts_ok_def in_flight_def\<close>)
next
  case (charge l n c tpm prompt completion now)
  then show ?case
    using bucketLocked_rpm [OF charge.IH, of now] bucketLocked_concurrent [of i now l]
    by (simp add: counts_ok_def in_flight_def charge_bucket Let_def)
next
  case (release l n c)
  then show ?case by (auto simp: counts_ok_def in_flight_def limiter_release_def split: option.splits if_splits)
next
  case (other_begin l n c j pol' persisted now r l')
  then show ?case using counts_ok_cong [OF begin_other] by blast
next
  case (other_charge l n c j tpm prompt completion now)
  then show ?case using counts_ok_cong [OF charge_other] by blast
next
  case (other_release l n c j)
  then show ?case using counts_ok_cong [OF release_other] by blast
next
  case (other_remove l n c j)
  then show ?case using counts_ok_cong [of "limiter_remove j l" i l] by simp
qed

subsection \<open>The budget\<close>

text \<open>The bucket is seeded with the first request and counts exactly, as long as the sum fits an int64.\<close>

definition budget_ok :: "int \<Rightarrow> limiter \<Rightarrow> int option \<Rightarrow> bool" where
  "budget_ok i l c \<longleftrightarrow>
     (case c of
        None \<Rightarrow> (case bucket_of l i of None \<Rightarrow> True | Some b \<Rightarrow> \<not> seeded b)
      | Some x \<Rightarrow> 0 \<le> x \<and> (x \<le> 9223372036854775807 \<longrightarrow> (\<exists>b. bucket_of l i = Some b \<and> seeded b \<and> consumed b = x)))"

lemma budget_ok_cong: "bucket_of l' i = bucket_of l i \<Longrightarrow> budget_ok i l' c = budget_ok i l c"
  by (auto simp: budget_ok_def split: option.splits)

lemma seed_consumed:
  assumes "budget_ok i l c" "case first_seen c persisted of None \<Rightarrow> True | Some x \<Rightarrow> x \<le> 9223372036854775807"
  shows "consumed (seeded_bucket i persisted now l) = the (first_seen c persisted)"
  using assms by (auto simp: seeded_bucket_def budget_ok_def bucketLocked_def first_seen_def maxInt64_def Let_def split: option.splits)

lemma begin_budget:
  assumes "limited pol" "budget_ok i l c" "limiter_begin i pol persisted now l = (r, l')"
  shows "budget_ok i l' (first_seen c persisted)"
    "the (first_seen c persisted) \<le> 9223372036854775807 \<Longrightarrow> 0 < polBudget pol \<Longrightarrow> polBudget pol \<le> the (first_seen c persisted) \<Longrightarrow> r \<noteq> None"
proof -
  define b where "b = seeded_bucket i persisted now l"
  note eq = begin_eq [OF assms(1), of i persisted now l, unfolded Let_def, folded b_def]
  have s: "seeded b" by (simp add: b_def seeded_bucket_def Let_def)
  obtain x where x: "first_seen c persisted = Some x" by (cases c) (simp_all add: first_seen_def)
  then have pos: "0 \<le> x" using assms(2) by (auto simp: first_seen_def budget_ok_def split: option.splits)
  have v: "consumed b = x" if "x \<le> 9223372036854775807"
    using seed_consumed [OF assms(2), of persisted now] that x by (simp add: b_def)
  obtain b' where "bucket_of l' i = Some b'" "seeded b'" "consumed b' = consumed b"
    using eq assms(3) s by (auto split: if_splits)
  then show "budget_ok i l' (first_seen c persisted)" using v x pos by (simp add: budget_ok_def)
  show "the (first_seen c persisted) \<le> 9223372036854775807 \<Longrightarrow> 0 < polBudget pol \<Longrightarrow> polBudget pol \<le> the (first_seen c persisted) \<Longrightarrow> r \<noteq> None"
    using v x eq assms(3) by (auto split: if_splits)
qed

lemma bucketLocked_seeded:
  "bucket_of l i = Some b \<Longrightarrow> seeded (bucketLocked i now l) = seeded b \<and> consumed (bucketLocked i now l) = consumed b"
  by (simp add: bucketLocked_def)

lemma charge_budget:
  assumes "budget_ok i l c"
  shows "budget_ok i (limiter_charge i tpm prompt completion now l) (map_option (\<lambda>x. x + tokens_of prompt completion) c)"
proof (cases c)
  case None
  then show ?thesis using assms by (auto simp: budget_ok_def charge_bucket bucketLocked_def Let_def split: option.splits)
next
  case (Some x)
  have t: "0 \<le> tokens_of prompt completion" "maxInt64 prompt 0 + maxInt64 completion 0 = tokens_of prompt completion"
    by (simp_all add: tokens_of_def maxInt64_def)
  have x: "0 \<le> x" using assms Some by (simp add: budget_ok_def)
  have "\<exists>b. bucket_of (limiter_charge i tpm prompt completion now l) i = Some b \<and> seeded b \<and> consumed b = x + tokens_of prompt completion"
    if m: "x + tokens_of prompt completion \<le> 9223372036854775807"
  proof -
    obtain b where b: "bucket_of l i = Some b" "seeded b" "consumed b = x" using assms Some m t(1) by (auto simp: budget_ok_def)
    have w: "wrap64 (tokens_of prompt completion) = tokens_of prompt completion"
      "wrap64 (x + tokens_of prompt completion) = x + tokens_of prompt completion"
      using m t(1) x by (auto intro!: wrap64_id simp: in_int64_def)
    show ?thesis using bucketLocked_seeded [OF b(1), of now] b w by (simp add: charge_bucket t(2) Let_def)
  qed
  then show ?thesis using Some x t(1) by (simp add: budget_ok_def)
qed

lemma release_budget: "budget_ok i l c \<Longrightarrow> budget_ok i (limiter_release i l) c"
  by (auto simp: budget_ok_def limiter_release_def split: option.splits)

lemma limit_run_budget:
  assumes "limited pol" "limit_run i pol l n c"
  shows "budget_ok i l c"
  using assms(2)
proof (induction rule: limit_run.induct)
  case start
  then show ?case by (simp add: budget_ok_def newLimiter_def bucket_of_def)
next
  case (begin_ok l n c persisted now l')
  then show ?case using begin_budget(1) [OF assms(1)] by blast
next
  case (begin_refused l n c persisted now e l')
  then show ?case using begin_budget(1) [OF assms(1)] by blast
next
  case (other_begin l n c j pol' persisted now r l')
  then show ?case using budget_ok_cong [OF begin_other] by blast
next
  case (other_charge l n c j tpm prompt completion now)
  then show ?case using budget_ok_cong [OF charge_other] by blast
next
  case (other_release l n c j)
  then show ?case using budget_ok_cong [OF release_other] by blast
next
  case (other_remove l n c j)
  then show ?case using budget_ok_cong [of "limiter_remove j l" i l] by simp
qed (auto intro: charge_budget release_budget)

subsection \<open>Properties\<close>

text \<open>C29: The limits of an access key on concurrent requests, on requests per window and on the token budget, in every run of a key
  that is not revoked, from the start of the program and under a fixed policy with at least one limit, with the other keys interleaved in
  any way. Never more than its concurrency limit of requests are in flight
  and the bucket counts them exactly. The request count of its window never exceeds its limit. As long as it fits an
  int64, the bucket counts exactly what the key has consumed: the persisted count of its first request and everything charged since;
  and once this has reached the budget no request is let in.\<close>

theorem access_limits_hold:
  assumes "limit_run i pol l n c" and "limited pol"
  shows "in_flight l i = int n \<and> (0 < polConcurrent pol \<longrightarrow> int n \<le> polConcurrent pol)
    \<and> (0 < polRPM pol \<longrightarrow> (case bucket_of l i of None \<Rightarrow> True | Some b \<Rightarrow> rpmCount b \<le> polRPM pol))
    \<and> (\<forall>x. c = Some x \<and> x \<le> 9223372036854775807 \<longrightarrow> consumedTotal i l = x)
    \<and> (\<forall>persisted now x. first_seen c persisted = Some x \<and> x \<le> 9223372036854775807 \<and> 0 < polBudget pol \<and> polBudget pol \<le> x \<longrightarrow>
         fst (limiter_begin i pol persisted now l) \<noteq> None)"
proof -
  note run = limit_run_counts [OF assms(2,1)] limit_run_budget [OF assms(2,1)]
  have "fst (limiter_begin i pol persisted now l) \<noteq> None"
    if "first_seen c persisted = Some x \<and> x \<le> 9223372036854775807 \<and> 0 < polBudget pol \<and> polBudget pol \<le> x" for persisted now x
    using begin_budget(2) [OF assms(2) run(2), of persisted now] that by (cases "limiter_begin i pol persisted now l") auto
  moreover have "\<forall>x. c = Some x \<and> x \<le> 9223372036854775807 \<longrightarrow> consumedTotal i l = x"
    using run(2) by (auto simp: budget_ok_def consumedTotal_def)
  ultimately show ?thesis using run(1) by (auto simp: counts_ok_def split: option.splits)
qed

definition sample_policy :: limitPolicy where
  "sample_policy = \<lparr>polRPM = 2, polTPM = 0, polConcurrent = 1, polBudget = 10\<rparr>"

text \<open>One request is let in and charged the whole budget.\<close>

theorem access_limits_hold_witness:
  "let l = limiter_charge 3 0 4 6 7 (snd (limiter_begin 3 sample_policy 0 5 newLimiter))
   in in_flight l 3 = 1 \<and> consumedTotal 3 l = 10 \<and> fst (limiter_begin 3 sample_policy 0 8 l) \<noteq> None"
proof -
  have "fst (limiter_begin 3 sample_policy 0 5 newLimiter) = None"
    by (simp add: limiter_begin_def sample_policy_def bucketLocked_def bucket_of_def newLimiter_def maxInt64_def Let_def)
  then have "limiter_begin 3 sample_policy 0 5 newLimiter = (None, snd (limiter_begin 3 sample_policy 0 5 newLimiter))"
    by (cases "limiter_begin 3 sample_policy 0 5 newLimiter") simp
  from charge [OF begin_ok [OF start this], of 0 4 6 7]
  have "limit_run 3 sample_policy (limiter_charge 3 0 4 6 7 (snd (limiter_begin 3 sample_policy 0 5 newLimiter))) (Suc 0) (Some 10)"
    by (simp add: first_seen_def tokens_of_def)
  from access_limits_hold [OF this] show ?thesis by (simp add: limited_def sample_policy_def first_seen_def Let_def)
qed

text \<open>The concurrency limit can be exceeded after a change of policy. A request that began while
  its key had no limits is not counted, but its end frees a slot all the same: with a limit of one set
  meanwhile, two counted requests run at once.\<close>

theorem uncounted_release_frees_slot:
  "\<exists>l1 l2 l3 l4. limiter_begin 3 \<lparr>polRPM = 0, polTPM = 0, polConcurrent = 0, polBudget = 0\<rparr> 0 5 newLimiter = (None, l1)
    \<and> limiter_begin 3 \<lparr>polRPM = 0, polTPM = 0, polConcurrent = 1, polBudget = 0\<rparr> 0 6 l1 = (None, l2)
    \<and> limiter_release 3 l2 = l3
    \<and> limiter_begin 3 \<lparr>polRPM = 0, polTPM = 0, polConcurrent = 1, polBudget = 0\<rparr> 0 7 l3 = (None, l4)"
  by (simp add: limiter_begin_def limiter_release_def bucketLocked_def newLimiter_def bucket_of_def [of "\<lambda>i. Map.empty"]
      Let_def time_sub_def)

end
