(* ===== verification/Access_Cache.thy ===== *)
theory Access_Cache
  imports Prelude
begin

text \<open>
  \<open>internal/accesskey/cache.go\<close>: the cache of successful access-key lookups, by digest, with a time
  to live and a bound on its entries. The Go map is an association list with one entry per digest; a
  \<open>range\<close> over it visits the digests in an arbitrary order, which is the argument \<open>order\<close> of the
  operations that range.
\<close>

record accessIdentity =
  ID :: int
  Prefix :: string
  ExpiresAt :: "time option"
  RPMLimit :: int
  TPMLimit :: int
  MaxConcurrent :: int
  TokenBudget :: int
  ConsumedTokens :: int

definition defaultCacheTTL :: duration where "defaultCacheTTL = 30 * second"
definition defaultCacheEntries :: int where "defaultCacheEntries = 4096"

record cacheEntry =
  entryIdentity :: accessIdentity
  entryExpires :: time

record accessCache =
  ttl :: duration
  maxEntries :: int
  entries :: "(string \<times> cacheEntry) list"

definition newCache :: "duration \<Rightarrow> int \<Rightarrow> accessCache" where
  "newCache t n =
     \<lparr>ttl = (if t \<le> 0 then defaultCacheTTL else t),
      maxEntries = (if n \<le> 0 then defaultCacheEntries else n), entries = []\<rparr>"

definition cache_lookup :: "string \<Rightarrow> time \<Rightarrow> accessCache \<Rightarrow> accessIdentity option" where
  "cache_lookup digest now c =
     (case map_of (entries c) digest of
        None \<Rightarrow> None
      | Some e \<Rightarrow> if \<not> now < entryExpires e then None else Some (entryIdentity e))"

text \<open>Deleting \<open>n\<close> entries in the order the second loop visits them.\<close>

fun drop_some :: "nat \<Rightarrow> string list \<Rightarrow> (string \<times> cacheEntry) list \<Rightarrow> (string \<times> cacheEntry) list" where
  "drop_some n [] es = es"
| "drop_some 0 ds es = es"
| "drop_some (Suc n) (d # ds) es = drop_some n ds (filter (\<lambda>e. fst e \<noteq> d) es)"

definition cache_evict :: "string list \<Rightarrow> time \<Rightarrow> accessCache \<Rightarrow> accessCache" where
  "cache_evict order now c =
     (let es = filter (\<lambda>e. now < entryExpires (snd e)) (entries c)
      in if int (length es) < maxEntries c then c\<lparr>entries := es\<rparr>
         else c\<lparr>entries := drop_some (nat (int (length es) - maxEntries c + 1)) order es\<rparr>)"

definition cache_store :: "string list \<Rightarrow> string \<Rightarrow> accessIdentity \<Rightarrow> time \<Rightarrow> accessCache \<Rightarrow> accessCache" where
  "cache_store order digest identity now c =
     (let c1 = (if int (length (entries c)) \<ge> maxEntries c then cache_evict order now c else c)
      in c1\<lparr>entries := (digest, \<lparr>entryIdentity = identity, entryExpires = now + ttl c\<rparr>)
             # filter (\<lambda>e. fst e \<noteq> digest) (entries c1)\<rparr>)"

definition cache_invalidate :: "accessCache \<Rightarrow> accessCache" where
  "cache_invalidate c = c\<lparr>entries := []\<rparr>"

definition cache_drop :: "string \<Rightarrow> accessCache \<Rightarrow> accessCache" where
  "cache_drop digest c = c\<lparr>entries := filter (\<lambda>e. fst e \<noteq> digest) (entries c)\<rparr>"

definition cache_size :: "accessCache \<Rightarrow> nat" where
  "cache_size c = length (entries c)"

subsection \<open>Facts\<close>

text \<open>The order of a \<open>range\<close> over the entries that are live at \<open>now\<close>: each of them once.\<close>

definition range_order :: "string list \<Rightarrow> time \<Rightarrow> accessCache \<Rightarrow> bool" where
  "range_order order now c \<longleftrightarrow> distinct order
     \<and> set order = fst ` set (filter (\<lambda>e. now < entryExpires (snd e)) (entries c))"

definition bounded_cache :: "accessCache \<Rightarrow> bool" where
  "bounded_cache c \<longleftrightarrow> distinct (map fst (entries c)) \<and> int (length (entries c)) \<le> maxEntries c \<and> 0 < maxEntries c"

lemma length_remove_key:
  "distinct (map fst es) \<Longrightarrow> d \<in> fst ` set es \<Longrightarrow> Suc (length (filter (\<lambda>e. fst e \<noteq> d) es)) = length es"
proof (induction es)
  case (Cons e es)
  show ?case
  proof (cases "fst e = d")
    case True
    then have "filter (\<lambda>e. fst e \<noteq> d) es = es" using Cons.prems(1) by (auto simp: filter_id_conv image_iff)
    then show ?thesis using True by simp
  next
    case False
    then show ?thesis using Cons by auto
  qed
qed simp

lemma drop_some_subset: "set (drop_some n ds es) \<subseteq> set es"
  by (induction n ds es rule: drop_some.induct) auto

lemma drop_some_length:
  assumes "distinct (map fst es)" "distinct ds" "set ds \<subseteq> fst ` set es" "n \<le> length ds"
  shows "length (drop_some n ds es) + n = length es \<and> distinct (map fst (drop_some n ds es))"
  using assms
proof (induction n ds es rule: drop_some.induct)
  case (3 n d ds es)
  let ?es = "filter (\<lambda>e. fst e \<noteq> d) es"
  have "distinct (map fst ?es)" using "3.prems"(1) by (simp add: distinct_map_filter)
  moreover have "set ds \<subseteq> fst ` set ?es" using "3.prems"(2,3) by force
  ultimately have "length (drop_some n ds ?es) + n = length ?es \<and> distinct (map fst (drop_some n ds ?es))"
    using "3.IH" "3.prems"(2,4) by simp
  moreover have "Suc (length ?es) = length es" using length_remove_key [OF "3.prems"(1)] "3.prems"(3) by auto
  ultimately show ?case by simp
qed simp_all

lemma evict_subset: "set (entries (cache_evict order now c)) \<subseteq> set (entries c)"
proof -
  have "set (drop_some n order (filter (\<lambda>e. now < entryExpires (snd e)) (entries c))) \<subseteq> set (entries c)" for n
    using drop_some_subset [of n order "filter (\<lambda>e. now < entryExpires (snd e)) (entries c)"] by auto
  then show ?thesis by (simp add: cache_evict_def Let_def)
qed

lemma evict_room:
  assumes ok: "bounded_cache c" and order: "range_order order now c"
  shows "int (length (entries (cache_evict order now c))) < maxEntries c"
    and "distinct (map fst (entries (cache_evict order now c)))"
    and "maxEntries (cache_evict order now c) = maxEntries c" "ttl (cache_evict order now c) = ttl c"
proof -
  let ?es = "filter (\<lambda>e. now < entryExpires (snd e)) (entries c)"
  let ?n = "nat (int (length ?es) - maxEntries c + 1)"
  have d: "distinct (map fst ?es)" using ok by (simp add: bounded_cache_def distinct_map_filter)
  have "length order = length ?es"
    using distinct_card [OF d] distinct_card [of order] order by (simp add: range_order_def)
  moreover have pos: "0 < maxEntries c" using ok by (simp add: bounded_cache_def)
  ultimately have n: "?n \<le> length order" by simp
  have len: "length (drop_some ?n order ?es) + ?n = length ?es" "distinct (map fst (drop_some ?n order ?es))"
    using drop_some_length [OF d _ _ n] order by (auto simp: range_order_def)
  show "int (length (entries (cache_evict order now c))) < maxEntries c"
    using len(1) pos by (auto simp: cache_evict_def Let_def)
  show "distinct (map fst (entries (cache_evict order now c)))"
    using len(2) d by (simp add: cache_evict_def Let_def)
qed (simp_all add: cache_evict_def Let_def)

lemma store_ok:
  assumes ok: "bounded_cache c" and order: "range_order order now c"
  shows "bounded_cache (cache_store order digest identity now c)"
proof -
  let ?c1 = "if int (length (entries c)) \<ge> maxEntries c then cache_evict order now c else c"
  have c1: "int (length (entries ?c1)) < maxEntries c" "distinct (map fst (entries ?c1))"
    "maxEntries ?c1 = maxEntries c"
    using evict_room [OF ok order] ok by (auto simp: bounded_cache_def)
  then have "int (length (filter (\<lambda>e. fst e \<noteq> digest) (entries ?c1))) < maxEntries c"
    using length_filter_le [of "\<lambda>e. fst e \<noteq> digest" "entries ?c1"] by linarith
  then show ?thesis
    using c1(2,3) ok unfolding cache_store_def Let_def
    by (auto simp: bounded_cache_def distinct_map_filter)
qed

lemma store_entries:
  "set (entries (cache_store order digest identity now c)) \<subseteq>
    insert (digest, \<lparr>entryIdentity = identity, entryExpires = now + ttl c\<rparr>) (set (entries c))"
  using evict_subset [of order now c] by (auto simp: cache_store_def Let_def)

lemma store_lookup:
  "cache_lookup d now (cache_store order d i u c) = (if now < u + ttl c then Some i else None)"
  by (simp add: cache_store_def Let_def cache_lookup_def)

lemma lookup_entry:
  "cache_lookup d now c = Some i \<Longrightarrow> \<exists>e. (d, e) \<in> set (entries c) \<and> entryIdentity e = i \<and> now < entryExpires e"
  by (auto simp: cache_lookup_def split: option.splits if_splits dest: map_of_SomeD)

text \<open>Runs of the cache, with the history of stores since the last invalidation, newest first.\<close>

inductive access_cache_run :: "duration \<Rightarrow> int \<Rightarrow> (string \<times> accessIdentity \<times> time) list \<Rightarrow> accessCache \<Rightarrow> bool"
  for t n where
  new: "access_cache_run t n [] (newCache t n)"
| store: "access_cache_run t n h c \<Longrightarrow> range_order order now c \<Longrightarrow>
    access_cache_run t n ((d, i, now) # h) (cache_store order d i now c)"
| invalidate: "access_cache_run t n h c \<Longrightarrow> access_cache_run t n [] (cache_invalidate c)"
| drop: "access_cache_run t n h c \<Longrightarrow> access_cache_run t n (filter (\<lambda>x. fst x \<noteq> d) h) (cache_drop d c)"

definition served :: "(string \<times> accessIdentity \<times> time) list \<Rightarrow> accessCache \<Rightarrow> bool" where
  "served h c \<longleftrightarrow> (\<forall>(d, e) \<in> set (entries c).
     \<exists>now. map_of h d = Some (entryIdentity e, now) \<and> entryExpires e = now + ttl c)"

lemma map_of_filter_neq: "d \<noteq> d' \<Longrightarrow> map_of (filter (\<lambda>x. fst x \<noteq> d') h) d = map_of h d"
  by (induction h) auto

lemma access_cache_run_ok:
  "access_cache_run t n h c \<Longrightarrow> bounded_cache c \<and> served h c \<and> ttl c = ttl (newCache t n) \<and> maxEntries c = maxEntries (newCache t n)"
proof (induction rule: access_cache_run.induct)
  case new
  then show ?case by (simp add: bounded_cache_def served_def newCache_def defaultCacheEntries_def)
next
  case (store h c order now d i)
  let ?c' = "cache_store order d i now c"
  have "served ((d, i, now) # h) ?c'"
    unfolding served_def
  proof (rule ballI, clarify)
    fix d' e assume mem: "(d', e) \<in> set (entries ?c')"
    show "\<exists>na. map_of ((d, i, now) # h) d' = Some (entryIdentity e, na) \<and> entryExpires e = na + ttl ?c'"
    proof (cases "d' = d")
      case True
      then have "e = \<lparr>entryIdentity = i, entryExpires = now + ttl c\<rparr>"
        using mem by (auto simp: cache_store_def Let_def)
      then show ?thesis using True by (simp add: cache_store_def Let_def cache_evict_def)
    next
      case False
      then have "(d', e) \<in> set (entries c)"
        using mem store_entries [of order d i now c] by auto
      then show ?thesis
        using store.IH False by (force simp: served_def cache_store_def Let_def cache_evict_def)
    qed
  qed
  then show ?case
    using store store_ok [of c order now d i] by (simp add: cache_store_def Let_def cache_evict_def)
next
  case invalidate
  then show ?case by (simp add: bounded_cache_def served_def cache_invalidate_def)
next
  case (drop h c d)
  have "length (filter (\<lambda>e. fst e \<noteq> d) (entries c)) \<le> length (entries c)" by simp
  then have "bounded_cache (cache_drop d c)"
    using drop.IH by (auto simp: bounded_cache_def cache_drop_def distinct_map_filter simp del: length_filter_le)
  moreover have "served (filter (\<lambda>x. fst x \<noteq> d) h) (cache_drop d c)"
    using drop.IH by (fastforce simp: served_def cache_drop_def map_of_filter_neq)
  ultimately show ?case using drop.IH by (simp add: cache_drop_def)
qed

text \<open>The access-key cache never grows past its bound and never serves anything stale. After any
  sequence of stores, removals and invalidations, in whatever order the map is ranged over, it holds
  at most \<open>maxEntries\<close> digests; a lookup that hits returns the identity of the latest store of that
  digest since the last invalidation or removal of it, made less than the time to live ago; and a
  store is visible to the next lookup within its time to live.\<close>

theorem access_cache_serves_latest:
  assumes "access_cache_run t n h c"
  shows "int (cache_size c) \<le> maxEntries (newCache t n)
    \<and> (\<forall>i. cache_lookup d now c = Some i \<longrightarrow> (\<exists>u. map_of h d = Some (i, u) \<and> now < u + ttl (newCache t n)))
    \<and> (\<forall>order u i. range_order order u c \<and> now < u + ttl (newCache t n) \<longrightarrow>
          cache_lookup d now (cache_store order d i u c) = Some i)"
proof -
  have ok: "bounded_cache c" "served h c" "ttl c = ttl (newCache t n)" "maxEntries c = maxEntries (newCache t n)"
    using access_cache_run_ok [OF assms] by simp_all
  have "\<exists>u. map_of h d = Some (i, u) \<and> now < u + ttl (newCache t n)" if "cache_lookup d now c = Some i" for i
    using lookup_entry [OF that] ok(2,3) by (fastforce simp: served_def)
  then show ?thesis
    using ok by (simp add: bounded_cache_def cache_size_def cache_lookup_def cache_store_def Let_def)
qed

definition sample_identity :: accessIdentity where
  "sample_identity = \<lparr>ID = 1, Prefix = ''nvr_'', ExpiresAt = None, RPMLimit = 0, TPMLimit = 0,
     MaxConcurrent = 0, TokenBudget = 0, ConsumedTokens = 0\<rparr>"

theorem access_cache_serves_latest_witness:
  "int (cache_size (newCache 0 2)) \<le> 2
    \<and> cache_lookup ''d'' 5 (cache_store [] ''d'' sample_identity 0 (newCache 0 2)) = Some sample_identity"
  using access_cache_serves_latest [OF access_cache_run.new [of 0 2], of "''d''" 5]
  by (simp add: range_order_def newCache_def defaultCacheTTL_def)

end
