(* ===== verification/Go_Base64.thy ===== *)
theory Go_Base64
  imports Prelude
begin

text \<open>
  The unpadded URL-safe base64 encoding of Go's \<open>encoding/base64\<close> (\<open>RawURLEncoding\<close>) and its strict
  decoder, on byte strings. The decoder skips carriage returns and line feeds; in strict mode the
  unused bits of the last symbol must be zero.
\<close>

definition b64_alphabet :: string where
  "b64_alphabet = ''ABCDEFGHIJKLMNOPQRSTUVWXYZabcdefghijklmnopqrstuvwxyz0123456789-_''"

definition b64_char :: "nat \<Rightarrow> char" where
  "b64_char n = b64_alphabet ! n"

fun index_from :: "nat \<Rightarrow> char \<Rightarrow> string \<Rightarrow> nat option" where
  "index_from i c [] = None"
| "index_from i c (x # xs) = (if x = c then Some i else index_from (Suc i) c xs)"

definition b64_value :: "char \<Rightarrow> nat option" where
  "b64_value c = index_from 0 c b64_alphabet"

fun b64_symbols :: "nat list \<Rightarrow> nat list" where
  "b64_symbols (a # b # c # rest) =
     [a div 4, (a mod 4) * 16 + b div 16, (b mod 16) * 4 + c div 64, c mod 64] @ b64_symbols rest"
| "b64_symbols [a, b] = [a div 4, (a mod 4) * 16 + b div 16, (b mod 16) * 4]"
| "b64_symbols [a] = [a div 4, (a mod 4) * 16]"
| "b64_symbols [] = []"

definition raw_encode :: "string \<Rightarrow> string" where
  "raw_encode s = map b64_char (b64_symbols (map of_char s))"

fun b64_bytes :: "nat list \<Rightarrow> nat list option" where
  "b64_bytes (p # q # r # s # rest) =
     map_option (\<lambda>bs. [p * 4 + q div 16, (q mod 16) * 16 + r div 4, (r mod 4) * 64 + s] @ bs) (b64_bytes rest)"
| "b64_bytes [p, q, r] = (if r mod 4 = 0 then Some [p * 4 + q div 16, (q mod 16) * 16 + r div 4] else None)"
| "b64_bytes [p, q] = (if q mod 16 = 0 then Some [p * 4 + q div 16] else None)"
| "b64_bytes [p] = None"
| "b64_bytes [] = Some []"

fun b64_values :: "string \<Rightarrow> nat list option" where
  "b64_values [] = Some []"
| "b64_values (c # cs) =
     (case b64_value c of None \<Rightarrow> None | Some v \<Rightarrow> map_option ((#) v) (b64_values cs))"

definition raw_decode_strict :: "string \<Rightarrow> string option" where
  "raw_decode_strict s =
     (case b64_values (filter (\<lambda>c. c \<noteq> CHR 0x0A \<and> c \<noteq> CHR 0x0D) s) of
        None \<Rightarrow> None
      | Some vs \<Rightarrow> map_option (map char_of) (b64_bytes vs))"

subsection \<open>Facts\<close>

lemma b64_table:
  "\<forall>n \<in> set [0..<64]. b64_value (b64_char n) = Some n \<and> b64_char n \<noteq> CHR 0x0A \<and> b64_char n \<noteq> CHR 0x0D"
  by code_simp

lemma b64_char_value: "n < 64 \<Longrightarrow> b64_value (b64_char n) = Some n"
  and b64_char_visible: "n < 64 \<Longrightarrow> b64_char n \<noteq> CHR 0x0A \<and> b64_char n \<noteq> CHR 0x0D"
  using b64_table by simp_all

text \<open>Two digits packed into one number and taken apart again.\<close>

lemma pack_div: "(y::nat) < n \<Longrightarrow> (x * n + y) div n = x"
  by simp

lemma pack_mod: "(y::nat) < n \<Longrightarrow> (x * n + y) mod n = y"
  by simp

lemma pack_less: "(y::nat) < n \<Longrightarrow> x < m \<Longrightarrow> x * n + y < m * n"
proof -
  assume "y < n" "x < m"
  then have "x * n + y < (x + 1) * n" by simp
  also have "\<dots> \<le> m * n" using \<open>x < m\<close> by (intro mult_le_mono1) simp
  finally show ?thesis .
qed

lemma byte_div:
  "(b::nat) < 256 \<Longrightarrow> b div 4 < 64" "b < 256 \<Longrightarrow> b div 16 < 16" "b < 256 \<Longrightarrow> b div 64 < 4"
  by (simp_all add: less_mult_imp_div_less)

lemma symbols_less:
  assumes "(b::nat) < 256" "(c::nat) < 256"
  shows "(a mod 4) * 16 + b div 16 < 64" "(b mod 16) * 4 + c div 64 < 64" "(a mod 4) * 16 < (64::nat)"
    "(b mod 16) * 4 < 64" "c mod 64 < 64"
  using pack_less [of "b div 16" 16 "a mod 4" 4] pack_less [of "c div 64" 4 "b mod 16" 16]
    pack_less [of 0 16 "a mod 4" 4] pack_less [of 0 4 "b mod 16" 16] byte_div assms
  by simp_all

lemma bytes_back:
  assumes "(b::nat) < 256" "(c::nat) < 256"
  shows "a div 4 * 4 + ((a mod 4) * 16 + b div 16) div 16 = (a::nat)"
    "((a mod 4) * 16 + b div 16) mod 16 * 16 + ((b mod 16) * 4 + c div 64) div 4 = b"
    "((a mod 4) * 16 + b div 16) mod 16 * 16 + b mod 16 = b"
    "((b mod 16) * 4 + c div 64) mod 4 * 64 + c mod 64 = c"
  using pack_div [of "b div 16" 16 "a mod 4"] pack_mod [of "b div 16" 16 "a mod 4"]
    pack_div [of "c div 64" 4 "b mod 16"] pack_mod [of "c div 64" 4 "b mod 16"] byte_div assms
  by simp_all

lemma b64_symbols_small: "\<forall>b \<in> set bs. b < 256 \<Longrightarrow> \<forall>n \<in> set (b64_symbols bs). n < 64"
proof (induction bs rule: b64_symbols.induct)
  case (1 a b c rest)
  then have small: "a < 256" "b < 256" "c < 256" by simp_all
  show ?case using 1 byte_div(1) [OF small(1)] symbols_less [OF small(2,3)] by simp
next
  case (2 a b)
  then have small: "a < 256" "b < 256" by simp_all
  show ?case using byte_div(1) [OF small(1)] symbols_less [OF small(2) small(2)] by simp
next
  case (3 a)
  then have small: "a < 256" by simp
  show ?case using byte_div(1) [OF small] symbols_less [OF small small] by simp
qed simp

lemma b64_bytes_symbols: "\<forall>b \<in> set bs. b < 256 \<Longrightarrow> b64_bytes (b64_symbols bs) = Some bs"
proof (induction bs rule: b64_symbols.induct)
  case (1 a b c rest)
  then have small: "b < 256" "c < 256" by simp_all
  show ?case using 1 bytes_back(1,2) [OF small, of a] bytes_back(4) [OF small] by simp
next
  case (2 a b)
  then have small: "b < 256" by simp
  show ?case using bytes_back(1,3) [OF small small, of a] by simp
next
  case (3 a)
  show ?case using bytes_back(1) [where a = a and b = 0] by simp
qed simp

lemma b64_values_map: "\<forall>n \<in> set ns. n < 64 \<Longrightarrow> b64_values (map b64_char ns) = Some ns"
  by (induction ns) (simp_all add: b64_char_value)

theorem raw_decode_encode: "raw_decode_strict (raw_encode s) = Some s"
proof -
  let ?bs = "map of_char s :: nat list"
  have bytes: "\<forall>b \<in> set ?bs. b < 256" by simp
  have small: "\<forall>n \<in> set (b64_symbols ?bs). n < 64" using b64_symbols_small [OF bytes] .
  have "filter (\<lambda>c. c \<noteq> CHR 0x0A \<and> c \<noteq> CHR 0x0D) (raw_encode s) = raw_encode s"
    using small b64_char_visible by (auto simp: raw_encode_def filter_id_conv)
  then show ?thesis
    using b64_values_map [OF small] b64_bytes_symbols [OF bytes]
    by (simp add: raw_decode_strict_def raw_encode_def comp_def)
qed

lemma length_b64_symbols: "length (b64_symbols bs) = (length bs * 4 + 2) div 3"
  by (induction bs rule: b64_symbols.induct) auto

lemma length_raw_encode: "length (raw_encode s) = (length s * 4 + 2) div 3"
  by (simp add: raw_encode_def length_b64_symbols)

end
