(* ===== verification/Access_Service.thy ===== *)
theory Access_Service
  imports Access_Limiter Access_Cache Go_Base64 Fault
begin

text \<open>
  \<open>internal/accesskey/service.go\<close> and \<open>repository.go\<close>: creation, authentication, policy changes and
  revocation of access keys over the \<open>access_keys\<close> table, with the cache and the limiter.

  The table is the list of its rows; each repository method is the effect of its SQL statement, and
  the error the database may answer with is an argument (empty when it succeeds). The keyed digest of
  \<open>internal/crypto\<close> (HMAC-SHA-256 under the key of a version) is the field \<open>accessDigest\<close>. The writes
  that run in a goroutine of their own are separate operations (\<open>persist_job\<close>, \<open>recordUse\<close>), and
  \<open>Authenticate\<close> is split at its database read so that other operations can come in between.
\<close>

datatype accessError =
    ErrInvalidAccessKey
  | ErrAccessKeyNotFound
  | PolicyRejected string
  | RepositoryError goError

record accessRow =
  rowID :: int
  rowName :: string
  keyDigest :: string
  keyPrefix :: string
  digestKeyVersion :: int
  createdAt :: time
  lastUsedAt :: "time option"
  revokedAt :: "time option"
  expiresAt :: "time option"
  rpmLimit :: int
  tpmLimit :: int
  maxConcurrent :: int
  tokenBudget :: int
  consumedTokens :: int

record repository =
  accessKeys :: "accessRow list"
  lastRowID :: int

record keySet =
  keyVersions :: "int list"
  activeVersion :: int
  accessDigest :: "int \<Rightarrow> string \<Rightarrow> string"

definition AccessKeyDigests :: "keySet \<Rightarrow> string \<Rightarrow> (int \<times> string) list" where
  "AccessKeyDigests ks value = map (\<lambda>v. (v, accessDigest ks v value)) (keyVersions ks)"

text \<open>A time as it comes back from its text column: whole seconds.\<close>

definition formatTime :: "time \<Rightarrow> time" where
  "formatTime t = t - t mod second"

subsection \<open>The repository\<close>

definition repo_Create ::
  "string \<Rightarrow> string \<Rightarrow> string \<Rightarrow> time \<Rightarrow> int \<Rightarrow> goError \<Rightarrow> repository \<Rightarrow> (accessError + accessRow) \<times> repository" where
  "repo_Create name digest keyPfx now version err r =
     (if err \<noteq> nil_error then (Inl (RepositoryError err), r)
      else if digest \<in> keyDigest ` set (accessKeys r)
      then (Inl (RepositoryError [OtherError ''UNIQUE constraint failed: access_keys.key_digest'']), r)
      else
        let row = \<lparr>rowID = lastRowID r + 1, rowName = name, keyDigest = digest, keyPrefix = keyPfx,
              digestKeyVersion = (if version > 0 then version else 1), createdAt = formatTime now,
              lastUsedAt = None, revokedAt = None, expiresAt = None, rpmLimit = 0, tpmLimit = 0,
              maxConcurrent = 0, tokenBudget = 0, consumedTokens = 0\<rparr>
        in (Inr row, r\<lparr>accessKeys := accessKeys r @ [row], lastRowID := lastRowID r + 1\<rparr>))"

definition row_identity :: "accessRow \<Rightarrow> accessIdentity" where
  "row_identity row =
     \<lparr>ID = rowID row, Prefix = keyPrefix row, ExpiresAt = expiresAt row, RPMLimit = rpmLimit row,
      TPMLimit = tpmLimit row, MaxConcurrent = maxConcurrent row, TokenBudget = tokenBudget row,
      ConsumedTokens = consumedTokens row\<rparr>"

text \<open>The query of one digest; \<open>err v\<close> is what the database answers for the digest of version \<open>v\<close>.\<close>

fun repo_Authenticate ::
  "(int \<times> string) list \<Rightarrow> (int \<Rightarrow> goError) \<Rightarrow> repository \<Rightarrow> accessError + accessIdentity \<times> int" where
  "repo_Authenticate [] err r = Inl ErrInvalidAccessKey"
| "repo_Authenticate ((version, digest) # rest) err r =
     (if err version \<noteq> nil_error then Inl (RepositoryError (err version))
      else case find (\<lambda>row. keyDigest row = digest \<and> revokedAt row = None) (accessKeys r) of
        None \<Rightarrow> repo_Authenticate rest err r
      | Some row \<Rightarrow> Inr (row_identity row, version))"

text \<open>An update of the row with an id, unless it is revoked, and whether a row was affected.\<close>

definition update_live :: "int \<Rightarrow> (accessRow \<Rightarrow> accessRow) \<Rightarrow> repository \<Rightarrow> bool \<times> repository" where
  "update_live i f r =
     (list_ex (\<lambda>row. rowID row = i \<and> revokedAt row = None) (accessKeys r),
      r\<lparr>accessKeys := map (\<lambda>row. if rowID row = i \<and> revokedAt row = None then f row else row) (accessKeys r)\<rparr>)"

definition repo_UpdateDigest ::
  "int \<Rightarrow> string \<Rightarrow> int \<Rightarrow> goError \<Rightarrow> repository \<Rightarrow> accessError option \<times> repository" where
  "repo_UpdateDigest i digest version err r =
     (if err \<noteq> nil_error then (Some (RepositoryError err), r)
      else if list_ex (\<lambda>row. rowID row = i \<and> revokedAt row = None) (accessKeys r)
         \<and> list_ex (\<lambda>row. rowID row \<noteq> i \<and> keyDigest row = digest) (accessKeys r)
      then (Some (RepositoryError [OtherError ''UNIQUE constraint failed: access_keys.key_digest'']), r)
      else case update_live i (\<lambda>row. row\<lparr>keyDigest := digest, digestKeyVersion := version\<rparr>) r of
        (changed, r') \<Rightarrow> (if changed then None else Some ErrAccessKeyNotFound, r'))"

definition repo_Revoke :: "int \<Rightarrow> time \<Rightarrow> goError \<Rightarrow> repository \<Rightarrow> accessError option \<times> repository" where
  "repo_Revoke i now err r =
     (if err \<noteq> nil_error then (Some (RepositoryError err), r)
      else (None, snd (update_live i (\<lambda>row. row\<lparr>revokedAt := Some (formatTime now)\<rparr>) r)))"

definition repo_Delete :: "int \<Rightarrow> goError \<Rightarrow> repository \<Rightarrow> accessError option \<times> repository" where
  "repo_Delete i err r =
     (if err \<noteq> nil_error then (Some (RepositoryError err), r)
      else (if list_ex (\<lambda>row. rowID row = i) (accessKeys r) then None else Some ErrAccessKeyNotFound,
            r\<lparr>accessKeys := filter (\<lambda>row. rowID row \<noteq> i) (accessKeys r)\<rparr>))"

definition repo_UpdateLastUsed ::
  "int \<Rightarrow> time \<Rightarrow> duration \<Rightarrow> goError \<Rightarrow> repository \<Rightarrow> accessError option \<times> repository" where
  "repo_UpdateLastUsed i usedAt minimumInterval err r =
     (if err \<noteq> nil_error then (Some (RepositoryError err), r)
      else (None, snd (update_live i (\<lambda>row.
              if lastUsedAt row = None \<or> the (lastUsedAt row) \<le> formatTime (usedAt - minimumInterval)
              then row\<lparr>lastUsedAt := Some (formatTime usedAt)\<rparr> else row) r)))"

definition repo_UpdatePolicy ::
  "int \<Rightarrow> time option \<Rightarrow> int \<Rightarrow> int \<Rightarrow> int \<Rightarrow> int option \<Rightarrow> goError \<Rightarrow> repository \<Rightarrow> accessError option \<times> repository" where
  "repo_UpdatePolicy i expires rpm tpm concurrency budget err r =
     (if err \<noteq> nil_error then (Some (RepositoryError err), r)
      else case update_live i (\<lambda>row. row\<lparr>expiresAt := map_option formatTime expires, rpmLimit := rpm,
              tpmLimit := tpm, maxConcurrent := concurrency,
              tokenBudget := (case budget of None \<Rightarrow> tokenBudget row | Some b \<Rightarrow> b)\<rparr>) r of
        (changed, r') \<Rightarrow> (if changed then None else Some ErrAccessKeyNotFound, r'))"

definition repo_UpdateConsumedTokens :: "int \<Rightarrow> int \<Rightarrow> goError \<Rightarrow> repository \<Rightarrow> accessError option \<times> repository" where
  "repo_UpdateConsumedTokens i n err r =
     (if err \<noteq> nil_error then (Some (RepositoryError err), r)
      else (None, snd (update_live i (\<lambda>row. row\<lparr>consumedTokens := n\<rparr>) r)))"

subsection \<open>The service\<close>

definition accessKeyPrefix :: string where "accessKeyPrefix = ''nvr_''"
definition accessKeyBytes :: nat where "accessKeyBytes = 32"
definition displayPrefixLength :: nat where "displayPrefixLength = 12"
definition lastUsedWriteMinimum :: duration where "lastUsedWriteMinimum = minute"

record accessService =
  svcRepository :: repository
  svcCache :: accessCache
  svcLimiter :: limiter
  lastRecorded :: "int \<rightharpoonup> time"
  pendingUse :: "int set"
  lastConsumed :: "int \<rightharpoonup> time"
  pendingConsumed :: "int set"

definition NewService :: "repository \<Rightarrow> accessService" where
  "NewService r =
     \<lparr>svcRepository = r, svcCache = newCache defaultCacheTTL defaultCacheEntries, svcLimiter = newLimiter,
      lastRecorded = Map.empty, pendingUse = {}, lastConsumed = Map.empty, pendingConsumed = {}\<rparr>"

definition validAccessKey :: "string \<Rightarrow> bool" where
  "validAccessKey value \<longleftrightarrow>
     length value = length accessKeyPrefix + (accessKeyBytes * 8 + 5) div 6 \<and> prefix accessKeyPrefix value
     \<and> (case raw_decode_strict (drop (length accessKeyPrefix) value) of
          None \<Rightarrow> False
        | Some decoded \<Rightarrow> length decoded = accessKeyBytes)"

text \<open>\<open>random\<close> are the bytes the system's generator fills the buffer with.\<close>

definition svc_Create ::
  "keySet \<Rightarrow> string \<Rightarrow> string \<Rightarrow> time \<Rightarrow> goError \<Rightarrow> accessService \<Rightarrow> (accessError + accessRow \<times> string) \<times> accessService" where
  "svc_Create ks name random now err s =
     (let plaintext = accessKeyPrefix @ raw_encode random;
          digest = accessDigest ks (activeVersion ks) plaintext
      in case repo_Create name digest (take displayPrefixLength plaintext) now (activeVersion ks) err (svcRepository s) of
           (Inl e, r) \<Rightarrow> (Inl e, s\<lparr>svcRepository := r\<rparr>)
         | (Inr row, r) \<Rightarrow> (Inr (row, plaintext), s\<lparr>svcRepository := r\<rparr>))"

definition expired_at :: "time \<Rightarrow> accessIdentity \<Rightarrow> bool" where
  "expired_at now identity \<longleftrightarrow> (case ExpiresAt identity of None \<Rightarrow> False | Some t \<Rightarrow> \<not> now < t)"

text \<open>What follows the database read: the expiry check, the migration of the digest to the active
  version (whose failure is only logged) and the store into the cache.\<close>

definition auth_finish ::
  "keySet \<Rightarrow> string \<Rightarrow> string list \<Rightarrow> accessIdentity \<times> int \<Rightarrow> time \<Rightarrow> goError \<Rightarrow> accessService
    \<Rightarrow> (accessError + accessIdentity) \<times> accessService" where
  "auth_finish ks plaintext order found now err s =
     (case found of (identity, matchedVersion) \<Rightarrow>
        if expired_at now identity then (Inl ErrInvalidAccessKey, s)
        else
          let activeDigest = map_of (AccessKeyDigests ks plaintext) (activeVersion ks);
              s1 = (if matchedVersion \<noteq> activeVersion ks \<and> activeDigest \<noteq> None
                    then s\<lparr>svcRepository := snd (repo_UpdateDigest (ID identity) (the activeDigest) (activeVersion ks) err (svcRepository s))\<rparr>
                    else s);
              digest = (case activeDigest of None \<Rightarrow> [] | Some d \<Rightarrow> d)
          in (Inr identity, s1\<lparr>svcCache := cache_store order digest identity now (svcCache s1)\<rparr>))"

definition Authenticate ::
  "keySet \<Rightarrow> string \<Rightarrow> string list \<Rightarrow> time \<Rightarrow> (int \<Rightarrow> goError) \<Rightarrow> goError \<Rightarrow> accessService
    \<Rightarrow> (accessError + accessIdentity) \<times> accessService" where
  "Authenticate ks plaintext order now readErr writeErr s =
     (if \<not> validAccessKey plaintext then (Inl ErrInvalidAccessKey, s)
      else
        let digests = AccessKeyDigests ks plaintext;
            digest = (case map_of digests (activeVersion ks) of None \<Rightarrow> [] | Some d \<Rightarrow> d)
        in case cache_lookup digest now (svcCache s) of
             Some identity \<Rightarrow>
               if expired_at now identity
               then (Inl ErrInvalidAccessKey, s\<lparr>svcCache := cache_drop digest (svcCache s)\<rparr>)
               else (Inr identity, s)
           | None \<Rightarrow>
               (case repo_Authenticate digests readErr (svcRepository s) of
                  Inl e \<Rightarrow> (Inl e, s)
                | Inr found \<Rightarrow> auth_finish ks plaintext order found now writeErr s))"

definition BeginRequest :: "accessIdentity \<Rightarrow> time \<Rightarrow> accessService \<Rightarrow> limitError option \<times> accessService" where
  "BeginRequest identity now s =
     (case limiter_begin (ID identity)
             \<lparr>polRPM = RPMLimit identity, polTPM = TPMLimit identity, polConcurrent = MaxConcurrent identity,
              polBudget = TokenBudget identity\<rparr> (ConsumedTokens identity) now (svcLimiter s) of
        (e, l) \<Rightarrow> (e, s\<lparr>svcLimiter := l\<rparr>))"

definition EndRequest :: "accessIdentity \<Rightarrow> accessService \<Rightarrow> accessService" where
  "EndRequest identity s = s\<lparr>svcLimiter := limiter_release (ID identity) (svcLimiter s)\<rparr>"

text \<open>Whether a goroutine is started, and the service with its write marked as pending.\<close>

definition persistConsumed :: "int \<Rightarrow> time \<Rightarrow> accessService \<Rightarrow> bool \<times> accessService" where
  "persistConsumed i clock s =
     (let now = formatTime clock
      in if i \<in> pendingConsumed s
            \<or> (case lastConsumed s i of None \<Rightarrow> False | Some u \<Rightarrow> time_sub now u < lastUsedWriteMinimum)
         then (False, s) else (True, s\<lparr>pendingConsumed := insert i (pendingConsumed s)\<rparr>))"

definition persist_job :: "int \<Rightarrow> time \<Rightarrow> goError \<Rightarrow> accessService \<Rightarrow> accessService" where
  "persist_job i clock err s =
     (case repo_UpdateConsumedTokens i (consumedTotal i (svcLimiter s)) err (svcRepository s) of
        (e, r) \<Rightarrow>
          s\<lparr>svcRepository := r, pendingConsumed := pendingConsumed s - {i},
            lastConsumed := (if e = None then (lastConsumed s)(i \<mapsto> formatTime clock) else lastConsumed s)\<rparr>)"

definition valueOrZero :: "int option \<Rightarrow> int" where
  "valueOrZero v = (case v of None \<Rightarrow> 0 | Some x \<Rightarrow> x)"

definition ChargeUsage ::
  "accessIdentity \<Rightarrow> int option \<Rightarrow> int option \<Rightarrow> time \<Rightarrow> accessService \<Rightarrow> bool \<times> accessService" where
  "ChargeUsage identity prompt completion now s =
     (if prompt = None \<and> completion = None then (False, s)
      else
        let s1 = s\<lparr>svcLimiter := limiter_charge (ID identity) (TPMLimit identity) (valueOrZero prompt)
                     (valueOrZero completion) now (svcLimiter s)\<rparr>
        in if TokenBudget identity > 0 then persistConsumed (ID identity) now s1 else (False, s1))"

definition svc_UpdatePolicy ::
  "int \<Rightarrow> time option \<Rightarrow> int \<Rightarrow> int \<Rightarrow> int \<Rightarrow> int option \<Rightarrow> time \<Rightarrow> goError \<Rightarrow> accessService
    \<Rightarrow> accessError option \<times> accessService" where
  "svc_UpdatePolicy i expires rpm tpm concurrency budget now err s =
     (if i \<le> 0 then (Some (PolicyRejected ''invalid id''), s)
      else if rpm < 0 \<or> rpm > 100000 \<or> tpm < 0 \<or> tpm > 1000000000 \<or> concurrency < 0 \<or> concurrency > 10000
      then (Some (PolicyRejected ''limit is out of range''), s)
      else if (case budget of None \<Rightarrow> False | Some b \<Rightarrow> b < 0 \<or> b > 1000000000000)
      then (Some (PolicyRejected ''token budget is out of range''), s)
      else if (case expires of None \<Rightarrow> False | Some t \<Rightarrow> \<not> t > now)
      then (Some (PolicyRejected ''expiration must be in the future''), s)
      else case repo_UpdatePolicy i expires rpm tpm concurrency budget err (svcRepository s) of
        (Some e, r) \<Rightarrow> (Some e, s\<lparr>svcRepository := r\<rparr>)
      | (None, r) \<Rightarrow> (None, s\<lparr>svcRepository := r, svcCache := cache_invalidate (svcCache s)\<rparr>))"

text \<open>What revoking and deleting do once the database has answered.\<close>

definition forget_key :: "int \<Rightarrow> accessService \<Rightarrow> accessService" where
  "forget_key i s =
     s\<lparr>svcCache := cache_invalidate (svcCache s), lastRecorded := (lastRecorded s)(i := None),
       pendingUse := pendingUse s - {i}, lastConsumed := (lastConsumed s)(i := None),
       pendingConsumed := pendingConsumed s - {i}, svcLimiter := limiter_remove i (svcLimiter s)\<rparr>"

definition svc_Revoke :: "int \<Rightarrow> time \<Rightarrow> goError \<Rightarrow> accessService \<Rightarrow> accessError option \<times> accessService" where
  "svc_Revoke i now err s =
     (case repo_Revoke i now err (svcRepository s) of
        (Some e, r) \<Rightarrow> (Some e, s\<lparr>svcRepository := r\<rparr>)
      | (None, r) \<Rightarrow> (None, forget_key i (s\<lparr>svcRepository := r\<rparr>)))"

definition svc_Delete :: "int \<Rightarrow> goError \<Rightarrow> accessService \<Rightarrow> accessError option \<times> accessService" where
  "svc_Delete i err s =
     (case repo_Delete i err (svcRepository s) of
        (Some e, r) \<Rightarrow> (Some e, s\<lparr>svcRepository := r\<rparr>)
      | (None, r) \<Rightarrow> (None, forget_key i (s\<lparr>svcRepository := r\<rparr>)))"

definition RecordUse :: "int \<Rightarrow> time \<Rightarrow> accessService \<Rightarrow> bool \<times> accessService" where
  "RecordUse i clock s =
     (let now = formatTime clock
      in if i \<in> pendingUse s
            \<or> (case lastRecorded s i of None \<Rightarrow> False | Some u \<Rightarrow> time_sub now u < lastUsedWriteMinimum)
         then (False, s) else (True, s\<lparr>pendingUse := insert i (pendingUse s)\<rparr>))"

definition recordUse :: "int \<Rightarrow> time \<Rightarrow> goError \<Rightarrow> accessService \<Rightarrow> accessService" where
  "recordUse i usedAt err s =
     (case repo_UpdateLastUsed i usedAt lastUsedWriteMinimum err (svcRepository s) of
        (e, r) \<Rightarrow>
          s\<lparr>svcRepository := r, pendingUse := pendingUse s - {i},
            lastRecorded := (if e = None then (lastRecorded s)(i \<mapsto> usedAt) else lastRecorded s)\<rparr>)"

subsection \<open>Coherence of the cache with the table\<close>

text \<open>Two identities that differ at most in the persisted token count, which the cache does not
  follow.\<close>

definition same_policy :: "accessIdentity \<Rightarrow> accessIdentity \<Rightarrow> bool" where
  "same_policy a b \<longleftrightarrow> a\<lparr>ConsumedTokens := 0\<rparr> = b\<lparr>ConsumedTokens := 0\<rparr>"

text \<open>The row of an unrevoked key whose text has the active digest \<open>d\<close>.\<close>

definition backs :: "keySet \<Rightarrow> string \<Rightarrow> accessIdentity \<Rightarrow> accessRow \<Rightarrow> bool" where
  "backs ks d identity row \<longleftrightarrow> revokedAt row = None \<and> same_policy identity (row_identity row)
     \<and> (\<exists>p v. validAccessKey p \<and> v \<in> set (keyVersions ks) \<and> keyDigest row = accessDigest ks v p
            \<and> d = accessDigest ks (activeVersion ks) p)"

definition service_inv :: "keySet \<Rightarrow> accessService \<Rightarrow> bool" where
  "service_inv ks s \<longleftrightarrow>
     (\<forall>(d, e) \<in> set (entries (svcCache s)). \<exists>row \<in> set (accessKeys (svcRepository s)). backs ks d (entryIdentity e) row)
     \<and> distinct (map rowID (accessKeys (svcRepository s)))
     \<and> (\<forall>row \<in> set (accessKeys (svcRepository s)). rowID row \<le> lastRowID (svcRepository s))"

lemma service_invD:
  assumes "service_inv ks s"
  shows "(d, e) \<in> set (entries (svcCache s)) \<Longrightarrow> \<exists>row \<in> set (accessKeys (svcRepository s)). backs ks d (entryIdentity e) row"
    "distinct (map rowID (accessKeys (svcRepository s)))"
    "row \<in> set (accessKeys (svcRepository s)) \<Longrightarrow> rowID row \<le> lastRowID (svcRepository s)"
  using assms by (auto simp: service_inv_def)

text \<open>What is relied on of the keys: the active version is one of the versions, and the keyed digest
  does not collide on well-formed access keys (collision resistance of HMAC-SHA-256).\<close>

definition keyset_ok :: "keySet \<Rightarrow> bool" where
  "keyset_ok ks \<longleftrightarrow> activeVersion ks \<in> set (keyVersions ks)
     \<and> (\<forall>v w p q. validAccessKey p \<and> validAccessKey q \<and> accessDigest ks v p = accessDigest ks w q \<longrightarrow> p = q)"

lemma keyset_inj:
  "keyset_ok ks \<Longrightarrow> validAccessKey p \<Longrightarrow> validAccessKey q \<Longrightarrow> accessDigest ks v p = accessDigest ks w q \<Longrightarrow> p = q"
  unfolding keyset_ok_def by blast

lemma map_of_digests:
  "map_of (AccessKeyDigests ks p) v = (if v \<in> set (keyVersions ks) then Some (accessDigest ks v p) else None)"
proof -
  have "map_of (map (\<lambda>v. (v, f v)) vs) v = (if v \<in> set vs then Some (f v) else None)" for f :: "int \<Rightarrow> string" and vs
    by (induction vs) auto
  then show ?thesis by (simp add: AccessKeyDigests_def)
qed

lemma repo_Authenticate_sound:
  assumes "repo_Authenticate ds err r = Inr (identity, v)"
  shows "\<exists>row \<in> set (accessKeys r). (v, keyDigest row) \<in> set ds \<and> revokedAt row = None \<and> identity = row_identity row"
  using assms
proof (induction ds err r rule: repo_Authenticate.induct)
  case (2 version digest rest err r)
  then show ?case
    by (cases "find (\<lambda>row. keyDigest row = digest \<and> revokedAt row = None) (accessKeys r)")
      (auto split: if_splits dest: find_Some_iff')
qed simp

text \<open>The invariant depends on the table and the cache alone; dropping cached entries keeps it, and so
  does a change of the table under which every row keeps its id and goes on backing what it backs.\<close>

lemma inv_cong:
  "svcRepository s' = svcRepository s \<Longrightarrow> set (entries (svcCache s')) \<subseteq> set (entries (svcCache s)) \<Longrightarrow>
   service_inv ks s \<Longrightarrow> service_inv ks s'"
  unfolding service_inv_def by fastforce

definition row_ids_ok :: "repository \<Rightarrow> bool" where
  "row_ids_ok r \<longleftrightarrow> distinct (map rowID (accessKeys r)) \<and> (\<forall>row \<in> set (accessKeys r). rowID row \<le> lastRowID r)"

lemma inv_empty_cache: "entries (svcCache s) = [] \<Longrightarrow> service_inv ks s \<longleftrightarrow> row_ids_ok (svcRepository s)"
  by (simp add: service_inv_def row_ids_ok_def)

lemma inv_row_ids: "service_inv ks s \<Longrightarrow> row_ids_ok (svcRepository s)"
  by (simp add: service_inv_def row_ids_ok_def)

lemma row_ids_map:
  assumes "row_ids_ok r" "\<And>row. row \<in> set (accessKeys r) \<Longrightarrow> rowID (f row) = rowID row"
  shows "row_ids_ok (r\<lparr>accessKeys := map f (accessKeys r)\<rparr>)"
proof -
  have "map rowID (map f (accessKeys r)) = map rowID (accessKeys r)" using assms(2) by simp
  then have "distinct (map rowID (map f (accessKeys r)))" using assms(1) by (simp only: row_ids_ok_def)
  then show ?thesis using assms unfolding row_ids_ok_def by simp
qed

lemma inv_table:
  assumes inv: "service_inv ks s"
    and f: "\<And>row. row \<in> set (accessKeys (svcRepository s)) \<Longrightarrow> rowID (f row) = rowID row"
    and g: "\<And>row d i. row \<in> set (accessKeys (svcRepository s)) \<Longrightarrow> backs ks d i row \<Longrightarrow> backs ks d i (f row)"
    and s': "svcRepository s' = (svcRepository s)\<lparr>accessKeys := map f (accessKeys (svcRepository s))\<rparr>"
      "svcCache s' = svcCache s"
  shows "service_inv ks s'"
proof -
  let ?r' = "(svcRepository s)\<lparr>accessKeys := map f (accessKeys (svcRepository s))\<rparr>"
  have "row_ids_ok ?r'" using row_ids_map [OF inv_row_ids [OF inv] f] .
  moreover have "\<exists>row \<in> set (accessKeys ?r'). backs ks d (entryIdentity e) row"
    if "(d, e) \<in> set (entries (svcCache s))" for d e
    using service_invD(1) [OF inv that] g by auto
  ultimately show ?thesis
    unfolding service_inv_def row_ids_ok_def s' by blast
qed

lemma update_live_map:
  "snd (update_live i f r) = r\<lparr>accessKeys := map (\<lambda>row. if rowID row = i \<and> revokedAt row = None then f row else row) (accessKeys r)\<rparr>"
  by (simp add: update_live_def)

lemma update_live_none: "\<not> fst (update_live i f r) \<Longrightarrow> snd (update_live i f r) = r"
proof -
  assume "\<not> fst (update_live i f r)"
  then have "map (\<lambda>row. if rowID row = i \<and> revokedAt row = None then f row else row) (accessKeys r) = accessKeys r"
    by (intro map_idI) (auto simp: update_live_def list_ex_iff)
  then show ?thesis by (simp add: update_live_map)
qed

lemma row_ids_update:
  "row_ids_ok r \<Longrightarrow> (\<And>row. rowID (f row) = rowID row) \<Longrightarrow> row_ids_ok (snd (update_live i f r))"
  unfolding update_live_map by (rule row_ids_map) simp_all

lemma inv_update_live:
  assumes inv: "service_inv ks s" and s': "svcRepository s' = snd (update_live i f (svcRepository s))" "svcCache s' = svcCache s"
    and f: "\<And>row. rowID (f row) = rowID row" "\<And>row d j. backs ks d j row \<Longrightarrow> backs ks d j (f row)"
  shows "service_inv ks s'"
  by (rule inv_table [OF inv _ _ s'(1) [unfolded update_live_map] s'(2)]) (use f in auto)

lemma repo_Create_cases:
  assumes "repo_Create name digest keyPfx now version err r = (res, r')"
  obtains e where "res = Inl e" "r' = r"
  | row where "res = Inr row" "rowID row = lastRowID r + 1" "keyDigest row = digest" "revokedAt row = None"
      "expiresAt row = None" "digest \<notin> keyDigest ` set (accessKeys r)"
      "r' = r\<lparr>accessKeys := accessKeys r @ [row], lastRowID := lastRowID r + 1\<rparr>"
proof (cases "err \<noteq> nil_error \<or> digest \<in> keyDigest ` set (accessKeys r)")
  case True
  then show ?thesis using assms that(1) by (auto simp: repo_Create_def split: if_splits)
next
  case False
  then show ?thesis using assms that(2) by (auto simp: repo_Create_def Let_def simp del: not_None_eq)
qed

lemma inv_new_row:
  assumes inv: "service_inv ks s" and row: "rowID row = lastRowID (svcRepository s) + 1"
  shows "service_inv ks (s\<lparr>svcRepository := (svcRepository s)\<lparr>accessKeys := accessKeys (svcRepository s) @ [row],
    lastRowID := lastRowID (svcRepository s) + 1\<rparr>\<rparr>)" (is "service_inv ks ?s")
proof -
  have "row_ids_ok (svcRepository ?s)"
    using service_invD(2,3) [OF inv] row by (fastforce simp: row_ids_ok_def)
  moreover have "\<exists>r \<in> set (accessKeys (svcRepository ?s)). backs ks d (entryIdentity e) r"
    if "(d, e) \<in> set (entries (svcCache ?s))" for d e
    using service_invD(1) [OF inv, of d e] that by auto
  ultimately show ?thesis unfolding service_inv_def row_ids_ok_def by blast
qed

lemma inv_create:
  assumes inv: "service_inv ks s" and c: "svc_Create ks name random now err s = (res, s')"
  shows "service_inv ks s'"
proof -
  let ?p = "accessKeyPrefix @ raw_encode random"
  obtain x r where x: "repo_Create name (accessDigest ks (activeVersion ks) ?p) (take displayPrefixLength ?p) now
      (activeVersion ks) err (svcRepository s) = (x, r)" by (meson surj_pair)
  then have s': "s' = s\<lparr>svcRepository := r\<rparr>"
    using c by (cases x) (auto simp: svc_Create_def Let_def simp del: take_append)
  show ?thesis using x
    by (rule repo_Create_cases) (use inv inv_new_row [OF inv] s' in auto)
qed

lemma inv_update_digest:
  assumes inv: "service_inv ks s" and ks: "keyset_ok ks" and p: "validAccessKey p"
    and row: "row \<in> set (accessKeys (svcRepository s))" "rowID row = i" "v \<in> set (keyVersions ks)"
      "keyDigest row = accessDigest ks v p"
    and s': "svcRepository s' = snd (repo_UpdateDigest i (accessDigest ks (activeVersion ks) p) (activeVersion ks) err (svcRepository s))"
      "svcCache s' = svcCache s"
  shows "service_inv ks s'"
proof -
  let ?f = "\<lambda>row. row\<lparr>keyDigest := accessDigest ks (activeVersion ks) p, digestKeyVersion := activeVersion ks\<rparr>"
  let ?g = "\<lambda>row. if rowID row = i \<and> revokedAt row = None then ?f row else row"
  have only: "r = row" if "r \<in> set (accessKeys (svcRepository s))" "rowID r = i" for r
    using that row(1,2) service_invD(2) [OF inv] by (auto simp: distinct_map inj_on_def)
  have keeps: "backs ks d j (?g r)" if r: "r \<in> set (accessKeys (svcRepository s))" "backs ks d j r" for r d j
  proof (cases "rowID r = i")
    case True
    then have "r = row" using only r(1) by blast
    obtain q w where q: "validAccessKey q" "keyDigest r = accessDigest ks w q" "d = accessDigest ks (activeVersion ks) q"
      using r(2) by (auto simp: backs_def)
    then have "q = p" using ks p row(4) \<open>r = row\<close> by (auto simp: keyset_ok_def)
    then show ?thesis
      using r(2) p q(3) ks by (auto simp: backs_def row_identity_def keyset_ok_def)
  qed (use r in simp)
  have "svcRepository s' = svcRepository s
      \<or> svcRepository s' = (svcRepository s)\<lparr>accessKeys := map ?g (accessKeys (svcRepository s))\<rparr>"
    using s'(1) by (auto simp: repo_UpdateDigest_def update_live_def split: if_splits)
  then show ?thesis
  proof
    assume "svcRepository s' = svcRepository s"
    then show ?thesis using inv s'(2) by (auto simp: service_inv_def)
  next
    assume upd: "svcRepository s' = (svcRepository s)\<lparr>accessKeys := map ?g (accessKeys (svcRepository s))\<rparr>"
    show ?thesis by (rule inv_table [where f = ?g, OF inv _ keeps upd s'(2)]) auto
  qed
qed

lemma inv_store:
  assumes inv: "service_inv ks s" and row: "row \<in> set (accessKeys (svcRepository s))" "backs ks d identity row"
  shows "service_inv ks (s\<lparr>svcCache := cache_store order d identity now (svcCache s)\<rparr>)"
  using inv row store_entries [of order d identity now "svcCache s"] unfolding service_inv_def by fastforce

text \<open>The row of an identity that was read from the table is still there when the digest has been
  moved to the active version.\<close>

lemma row_after_digest:
  assumes "row \<in> set (accessKeys r)" "backs ks (accessDigest ks (activeVersion ks) p) identity row"
    and p: "validAccessKey p" "keyset_ok ks"
  shows "\<exists>row' \<in> set (accessKeys (snd (repo_UpdateDigest i (accessDigest ks (activeVersion ks) p) (activeVersion ks) err r))).
     backs ks (accessDigest ks (activeVersion ks) p) identity row'"
proof -
  let ?d = "accessDigest ks (activeVersion ks) p"
  let ?f = "\<lambda>row. row\<lparr>keyDigest := ?d, digestKeyVersion := activeVersion ks\<rparr>"
  have "backs ks ?d identity (?f row)"
    using assms(2) p by (auto simp: backs_def row_identity_def keyset_ok_def)
  then have moved: "backs ks ?d identity (if rowID row = i \<and> revokedAt row = None then ?f row else row)"
    using assms(2) by simp
  have "accessKeys (snd (repo_UpdateDigest i ?d (activeVersion ks) err r)) = accessKeys r
      \<or> accessKeys (snd (repo_UpdateDigest i ?d (activeVersion ks) err r))
        = map (\<lambda>row. if rowID row = i \<and> revokedAt row = None then ?f row else row) (accessKeys r)"
    by (simp add: repo_UpdateDigest_def update_live_def)
  then show ?thesis
  proof
    assume "accessKeys (snd (repo_UpdateDigest i ?d (activeVersion ks) err r))
        = map (\<lambda>row. if rowID row = i \<and> revokedAt row = None then ?f row else row) (accessKeys r)"
    then show ?thesis using moved assms(1) by (simp only: set_map) blast
  qed (use assms(1,2) in auto)
qed

lemma inv_auth_finish:
  assumes inv: "service_inv ks s" and ks: "keyset_ok ks" and p: "validAccessKey p"
    and row: "row \<in> set (accessKeys (svcRepository s))" "revokedAt row = None" "v \<in> set (keyVersions ks)"
      "keyDigest row = accessDigest ks v p"
    and f: "auth_finish ks p order (row_identity row, v) now err s = (res, s')"
  shows "service_inv ks s'"
proof -
  let ?d = "accessDigest ks (activeVersion ks) p"
  have dig: "map_of (AccessKeyDigests ks p) (activeVersion ks) = Some ?d"
    using ks by (simp add: map_of_digests keyset_ok_def)
  have backs: "backs ks ?d (row_identity row) row"
    using row p by (auto simp: backs_def same_policy_def)
  let ?s1 = "s\<lparr>svcRepository := snd (repo_UpdateDigest (rowID row) ?d (activeVersion ks) err (svcRepository s))\<rparr>"
  have inv1: "service_inv ks ?s1"
    by (rule inv_update_digest [OF inv ks p row(1) refl row(3,4)]) simp_all
  consider "s' = s"
    | "s' = s\<lparr>svcCache := cache_store order ?d (row_identity row) now (svcCache s)\<rparr>"
    | "s' = ?s1\<lparr>svcCache := cache_store order ?d (row_identity row) now (svcCache ?s1)\<rparr>"
    using f dig by (auto simp: auth_finish_def Let_def row_identity_def split: if_splits)
  then show ?thesis
  proof cases
    case 1
    then show ?thesis using inv by simp
  next
    case 2
    then show ?thesis using inv_store [OF inv row(1) backs] by simp
  next
    case 3
    obtain row' where "row' \<in> set (accessKeys (svcRepository ?s1))" "backs ks ?d (row_identity row) row'"
      using row_after_digest [OF row(1) backs p ks] by auto
    then show ?thesis using inv_store [OF inv1] 3 by simp
  qed
qed

text \<open>The three ways an authentication of a well-formed key can go.\<close>

lemma Authenticate_cases:
  assumes ks: "keyset_ok ks" and a: "Authenticate ks p order now readErr writeErr s = (res, s')"
  obtains (invalid) "\<not> validAccessKey p" "res = Inl ErrInvalidAccessKey" "s' = s"
  | (hit) identity where "validAccessKey p" "cache_lookup (accessDigest ks (activeVersion ks) p) now (svcCache s) = Some identity"
      "res = (if expired_at now identity then Inl ErrInvalidAccessKey else Inr identity)"
      "s' = (if expired_at now identity then s\<lparr>svcCache := cache_drop (accessDigest ks (activeVersion ks) p) (svcCache s)\<rparr> else s)"
  | (refused) e where "validAccessKey p" "res = Inl e" "s' = s"
  | (row) row v where "validAccessKey p" "row \<in> set (accessKeys (svcRepository s))" "revokedAt row = None" "v \<in> set (keyVersions ks)"
      "keyDigest row = accessDigest ks v p" "auth_finish ks p order (row_identity row, v) now writeErr s = (res, s')"
proof -
  have dig: "map_of (AccessKeyDigests ks p) (activeVersion ks) = Some (accessDigest ks (activeVersion ks) p)"
    using ks by (simp add: map_of_digests keyset_ok_def)
  show ?thesis
  proof (cases "validAccessKey p")
    case False
    then show ?thesis using a invalid by (simp add: Authenticate_def)
  next
    case valid: True
    show ?thesis
    proof (cases "cache_lookup (accessDigest ks (activeVersion ks) p) now (svcCache s)")
      case (Some identity)
      then show ?thesis using a valid dig hit [OF valid Some]
        by (cases "expired_at now identity") (auto simp: Authenticate_def Let_def)
    next
      case None
      show ?thesis
      proof (cases "repo_Authenticate (AccessKeyDigests ks p) readErr (svcRepository s)")
        case (Inl e)
        then show ?thesis using a valid dig None refused [OF valid] by (auto simp: Authenticate_def Let_def)
      next
        case (Inr found)
        obtain identity v where found: "found = (identity, v)" by (cases found)
        obtain r where r: "r \<in> set (accessKeys (svcRepository s))" "(v, keyDigest r) \<in> set (AccessKeyDigests ks p)"
          "revokedAt r = None" "identity = row_identity r"
          using repo_Authenticate_sound Inr found by blast
        have "auth_finish ks p order (row_identity r, v) now writeErr s = (res, s')"
          using a valid dig None Inr found r(4) by (simp add: Authenticate_def Let_def)
        then show ?thesis using row [OF valid r(1,3)] r(2) by (auto simp: AccessKeyDigests_def)
      qed
    qed
  qed
qed

lemma inv_authenticate:
  assumes inv: "service_inv ks s" and ks: "keyset_ok ks"
    and a: "Authenticate ks p order now readErr writeErr s = (res, s')"
  shows "service_inv ks s'"
  using ks a
proof (cases rule: Authenticate_cases)
  case (hit identity)
  have "service_inv ks (s\<lparr>svcCache := cache_drop d (svcCache s)\<rparr>)" for d
    by (rule inv_cong [OF _ _ inv]) (auto simp: cache_drop_def)
  then show ?thesis using hit(4) inv by simp
next
  case (row row v)
  then show ?thesis using inv_auth_finish [OF inv ks] by blast
qed (use inv in simp_all)

lemma same_policy_consumed: "same_policy i (row_identity (row\<lparr>consumedTokens := n\<rparr>)) = same_policy i (row_identity row)"
  by (simp add: same_policy_def row_identity_def)

lemma inv_jobs:
  assumes inv: "service_inv ks s"
  shows "service_inv ks (persist_job i clock err s)" "service_inv ks (recordUse i usedAt err s)"
proof -
  show "service_inv ks (persist_job i clock err s)"
  proof (cases "err = nil_error")
    case True
    show ?thesis
      by (rule inv_update_live [OF inv, where i = i and f = "\<lambda>row. row\<lparr>consumedTokens := consumedTotal i (svcLimiter s)\<rparr>"])
        (use True in \<open>auto simp: persist_job_def repo_UpdateConsumedTokens_def backs_def same_policy_consumed\<close>)
  qed (auto simp: persist_job_def repo_UpdateConsumedTokens_def intro: inv_cong [OF _ _ inv])
  show "service_inv ks (recordUse i usedAt err s)"
  proof (cases "err = nil_error")
    case True
    let ?f = "\<lambda>row. if lastUsedAt row = None \<or> the (lastUsedAt row) \<le> formatTime (usedAt - lastUsedWriteMinimum)
      then row\<lparr>lastUsedAt := Some (formatTime usedAt)\<rparr> else row"
    show ?thesis
      by (rule inv_update_live [OF inv, where i = i and f = ?f])
        (use True in \<open>auto simp: recordUse_def repo_UpdateLastUsed_def backs_def row_identity_def\<close>)
  qed (auto simp: recordUse_def repo_UpdateLastUsed_def intro: inv_cong [OF _ _ inv])
qed

lemma inv_admin:
  assumes inv: "service_inv ks s"
  shows "service_inv ks (snd (svc_UpdatePolicy i expires rpm tpm concurrency budget now err s))"
    "service_inv ks (snd (svc_Revoke i now err s))" "service_inv ks (snd (svc_Delete i err s))"
proof -
  have ids: "row_ids_ok (svcRepository s)" using inv_row_ids [OF inv] .
  have kept: "service_inv ks (s\<lparr>svcRepository := svcRepository s\<rparr>)" using inv by (rule inv_cong [rotated 2]) auto
  have emptied: "service_inv ks s'" if "row_ids_ok (svcRepository s')" "entries (svcCache s') = []" for s'
    using that inv_empty_cache by blast
  show "service_inv ks (snd (svc_Revoke i now err s))"
  proof (cases "err = nil_error")
    case True
    show ?thesis
      by (rule emptied)
        (use True row_ids_update [OF ids] in \<open>auto simp: svc_Revoke_def repo_Revoke_def forget_key_def cache_invalidate_def\<close>)
  qed (use kept in \<open>simp add: svc_Revoke_def repo_Revoke_def\<close>)
  show "service_inv ks (snd (svc_Delete i err s))"
  proof (cases "err = nil_error \<and> list_ex (\<lambda>row. rowID row = i) (accessKeys (svcRepository s))")
    case True
    have "row_ids_ok ((svcRepository s)\<lparr>accessKeys := filter (\<lambda>row. rowID row \<noteq> i) (accessKeys (svcRepository s))\<rparr>)"
      using ids by (auto simp: row_ids_ok_def distinct_map_filter)
    then show ?thesis
      using True by (intro emptied) (auto simp: svc_Delete_def repo_Delete_def forget_key_def cache_invalidate_def)
  next
    case False
    then have "svcRepository (snd (svc_Delete i err s)) = svcRepository s \<and> svcCache (snd (svc_Delete i err s)) = svcCache s"
      by (auto simp: svc_Delete_def repo_Delete_def list_ex_iff filter_id_conv)
    then show ?thesis using inv inv_cong by (metis subset_refl)
  qed
  show "service_inv ks (snd (svc_UpdatePolicy i expires rpm tpm concurrency budget now err s))"
  proof -
    obtain e r where up: "repo_UpdatePolicy i expires rpm tpm concurrency budget err (svcRepository s) = (e, r)"
      by (meson surj_pair)
    define f :: "accessRow \<Rightarrow> accessRow" where "f = (\<lambda>row. row\<lparr>expiresAt := map_option formatTime expires, rpmLimit := rpm,
      tpmLimit := tpm, maxConcurrent := concurrency,
      tokenBudget := (case budget of None \<Rightarrow> tokenBudget row | Some b \<Rightarrow> b)\<rparr>)"
    have f: "\<And>row. rowID (f row) = rowID row"
      "repo_UpdatePolicy i expires rpm tpm concurrency budget err (svcRepository s) =
        (if err \<noteq> nil_error then (Some (RepositoryError err), svcRepository s)
         else case update_live i f (svcRepository s) of
           (changed, r') \<Rightarrow> (if changed then None else Some ErrAccessKeyNotFound, r'))"
      by (simp_all add: f_def repo_UpdatePolicy_def)
    have r: "row_ids_ok r \<and> (e \<noteq> None \<longrightarrow> r = svcRepository s)"
      using up ids row_ids_update [OF ids f(1), of i] update_live_none [of i f "svcRepository s"] unfolding f(2)
      by (cases "update_live i f (svcRepository s)") (auto split: if_splits)
    show ?thesis
    proof (cases e)
      case None
      then show ?thesis
        using up r inv by (auto simp: svc_UpdatePolicy_def cache_invalidate_def intro: emptied)
    next
      case (Some x)
      then show ?thesis using up r kept inv by (auto simp: svc_UpdatePolicy_def)
    qed
  qed
qed

subsection \<open>Runs of the service\<close>

text \<open>Any sequence of whole operations, with whatever the database, the clock and the map order do.\<close>

inductive service_run :: "keySet \<Rightarrow> accessService \<Rightarrow> bool" for ks where
  new: "service_run ks (NewService \<lparr>accessKeys = [], lastRowID = 0\<rparr>)"
| create: "service_run ks s \<Longrightarrow> service_run ks (snd (svc_Create ks name random now err s))"
| authenticate: "service_run ks s \<Longrightarrow> service_run ks (snd (Authenticate ks p order now readErr writeErr s))"
| begin_request: "service_run ks s \<Longrightarrow> service_run ks (snd (BeginRequest identity now s))"
| charge: "service_run ks s \<Longrightarrow> service_run ks (snd (ChargeUsage identity prompt completion now s))"
| end_request: "service_run ks s \<Longrightarrow> service_run ks (EndRequest identity s)"
| policy: "service_run ks s \<Longrightarrow> service_run ks (snd (svc_UpdatePolicy i expires rpm tpm concurrency budget now err s))"
| revoke: "service_run ks s \<Longrightarrow> service_run ks (snd (svc_Revoke i now err s))"
| delete: "service_run ks s \<Longrightarrow> service_run ks (snd (svc_Delete i err s))"
| record_use: "service_run ks s \<Longrightarrow> service_run ks (snd (RecordUse i now s))"
| record_job: "service_run ks s \<Longrightarrow> service_run ks (recordUse i usedAt err s)"
| persist: "service_run ks s \<Longrightarrow> service_run ks (persist_job i now err s)"

lemma limiter_frames:
  "svcRepository (snd (BeginRequest identity now s)) = svcRepository s" "svcCache (snd (BeginRequest identity now s)) = svcCache s"
  "svcRepository (snd (ChargeUsage identity prompt completion now s)) = svcRepository s"
  "svcCache (snd (ChargeUsage identity prompt completion now s)) = svcCache s"
  "svcRepository (EndRequest identity s) = svcRepository s" "svcCache (EndRequest identity s) = svcCache s"
  "svcRepository (snd (RecordUse i now s)) = svcRepository s" "svcCache (snd (RecordUse i now s)) = svcCache s"
  by (simp_all add: BeginRequest_def ChargeUsage_def persistConsumed_def EndRequest_def RecordUse_def Let_def split: prod.splits)

lemma service_run_inv:
  assumes ks: "keyset_ok ks"
  shows "service_run ks s \<Longrightarrow> service_inv ks s"
proof (induction rule: service_run.induct)
  case new
  then show ?case by (simp add: service_inv_def NewService_def newCache_def)
next
  case (create s name random now err)
  then show ?case using inv_create [OF create.IH] by (metis prod.collapse)
next
  case (authenticate s p order now readErr writeErr)
  then show ?case using inv_authenticate [OF authenticate.IH ks] by (metis prod.collapse)
next
  case policy
  then show ?case using inv_admin by blast
next
  case revoke
  then show ?case using inv_admin by blast
next
  case delete
  then show ?case using inv_admin by blast
next
  case record_job
  then show ?case using inv_jobs by blast
next
  case persist
  then show ?case using inv_jobs by blast
qed (rule inv_cong, simp_all add: limiter_frames)+

text \<open>C30: An access key is accepted only while it is in force. In every state that whole operations
  lead to, a successful authentication returns the identity of exactly one row of the table, whose
  stored digest is a digest of the presented key under one of the key versions; that row is not
  revoked, its expiry and limits are the ones of the identity even when it came from the cache, and
  it has not expired. In particular a revoked, deleted or changed key is never served from the
  cache.\<close>

theorem authenticated_key_live:
  assumes "keyset_ok ks" "service_run ks s"
    and "Authenticate ks p order now readErr writeErr s = (Inr identity, s')"
  shows "\<exists>row \<in> set (accessKeys (svcRepository s)). ID identity = rowID row \<and> revokedAt row = None
    \<and> (\<exists>v \<in> set (keyVersions ks). keyDigest row = accessDigest ks v p)
    \<and> same_policy identity (row_identity row) \<and> (\<forall>t. expiresAt row = Some t \<longrightarrow> now < t)
    \<and> (\<forall>other \<in> set (accessKeys (svcRepository s)). rowID other = ID identity \<longrightarrow> other = row)"
proof -
  have inv: "service_inv ks s" using service_run_inv [OF assms(1,2)] .
  obtain row v where row: "row \<in> set (accessKeys (svcRepository s))" "revokedAt row = None"
      "v \<in> set (keyVersions ks)" "keyDigest row = accessDigest ks v p" "same_policy identity (row_identity row)"
      and fresh: "\<not> expired_at now identity"
    using assms(1,3)
  proof (cases rule: Authenticate_cases)
    case (hit i)
    then have i: "i = identity" "\<not> expired_at now identity" by (simp_all split: if_splits)
    obtain e where e: "(accessDigest ks (activeVersion ks) p, e) \<in> set (entries (svcCache s))" "entryIdentity e = identity"
      using lookup_entry [OF hit(2)] i by auto
    then obtain r where r: "r \<in> set (accessKeys (svcRepository s))" "backs ks (accessDigest ks (activeVersion ks) p) identity r"
      using service_invD(1) [OF inv] by fastforce
    obtain q w where q: "validAccessKey q" "w \<in> set (keyVersions ks)" "keyDigest r = accessDigest ks w q"
        "accessDigest ks (activeVersion ks) p = accessDigest ks (activeVersion ks) q"
      using r(2) by (auto simp: backs_def)
    have "q = p" using keyset_inj [OF assms(1) hit(1) q(1,4)] by simp
    then show thesis
      using that [OF r(1) _ q(2)] r(2) q(3) i(2) by (simp add: backs_def)
  next
    case (row r v)
    then have "identity = row_identity r" "\<not> expired_at now (row_identity r)"
      by (simp_all add: auth_finish_def Let_def split: if_splits)
    then show thesis using that [OF row(2-5)] by (simp add: same_policy_def)
  qed simp_all
  have eq: "ID identity = rowID row" "ExpiresAt identity = expiresAt row"
    using row(5) by (cases identity; simp add: same_policy_def row_identity_def)+
  have "other = row" if "other \<in> set (accessKeys (svcRepository s))" "rowID other = ID identity" for other
    using that row(1) eq(1) service_invD(2) [OF inv] by (auto simp: distinct_map inj_on_def)
  moreover have "\<forall>t. expiresAt row = Some t \<longrightarrow> now < t"
    using fresh eq(2) by (auto simp: expired_at_def)
  ultimately show ?thesis using row eq by blast
qed

subsection \<open>Creation\<close>

lemma created_key_valid:
  assumes "length random = accessKeyBytes"
  shows "validAccessKey (accessKeyPrefix @ raw_encode random)"
  using assms raw_decode_encode [of random] length_raw_encode [of random]
  by (simp add: validAccessKey_def accessKeyPrefix_def accessKeyBytes_def)

lemma find_append: "find P (xs @ ys) = (case find P xs of None \<Rightarrow> find P ys | Some z \<Rightarrow> Some z)"
  by (induction xs) auto

lemma repo_Authenticate_only:
  assumes rows: "accessKeys r = rows @ [row]" "keyDigest row \<notin> keyDigest ` set rows" "revokedAt row = None"
    and "\<forall>x \<in> set ds. x = (v, keyDigest row) \<or> snd x \<notin> insert (keyDigest row) (keyDigest ` set rows)"
    and "(v, keyDigest row) \<in> set ds"
  shows "repo_Authenticate ds (\<lambda>_. nil_error) r = Inr (row_identity row, v)"
  using assms(4,5)
proof (induction ds)
  case (Cons x ds)
  have none: "find (\<lambda>row. keyDigest row = d \<and> revokedAt row = None) rows = None" if "d \<notin> keyDigest ` set rows" for d
    using that by (force simp: find_None_iff)
  show ?case
  proof (cases "x = (v, keyDigest row)")
    case True
    then show ?thesis using none rows by (simp add: find_append)
  next
    case False
    then have x: "snd x \<notin> insert (keyDigest row) (keyDigest ` set rows)" "(v, keyDigest row) \<in> set ds"
      using Cons.prems by auto
    have "find (\<lambda>row. keyDigest row = snd x \<and> revokedAt row = None) (accessKeys r) = None"
      using none [of "snd x"] x(1) rows(1) by (auto simp: find_append)
    then show ?thesis using Cons.IH Cons.prems(1) x(2) by (cases x) simp
  qed
qed simp

text \<open>A key that was just created works. The plaintext handed to the administrator has the shape
  the authentication accepts (the prefix and 32 random bytes in base64), and authenticating with it
  returns the identity of the new row, provided the database answers and no other row carries one of
  its digests.\<close>

theorem created_key_authenticates:
  assumes "keyset_ok ks" "distinct (keyVersions ks)" "service_run ks s" "length random = 32"
    and "svc_Create ks name random now err s = (Inr (row, p), s')"
    and "\<And>v. v \<in> set (keyVersions ks) \<Longrightarrow> v \<noteq> activeVersion ks \<Longrightarrow>
      accessDigest ks v p \<notin> insert (accessDigest ks (activeVersion ks) p) (keyDigest ` set (accessKeys (svcRepository s)))"
  shows "fst (Authenticate ks p order later (\<lambda>_. nil_error) writeErr s') = Inr (row_identity row)"
proof -
  let ?d = "accessDigest ks (activeVersion ks) p"
  let ?r = "svcRepository s"
  have inv: "service_inv ks s" using service_run_inv [OF assms(1,3)] .
  obtain x r where x: "repo_Create name (accessDigest ks (activeVersion ks) (accessKeyPrefix @ raw_encode random))
      (take displayPrefixLength (accessKeyPrefix @ raw_encode random)) now (activeVersion ks) err ?r = (x, r)"
    by (meson surj_pair)
  have s': "x = Inr row" "p = accessKeyPrefix @ raw_encode random" "s' = s\<lparr>svcRepository := r\<rparr>"
    using assms(5) x by (cases x; auto simp: svc_Create_def Let_def simp del: take_append)+
  have valid: "validAccessKey p"
    using created_key_valid [of random] assms(4) s'(2) by (simp add: accessKeyBytes_def)
  have row: "keyDigest row = ?d" "revokedAt row = None" "expiresAt row = None" "?d \<notin> keyDigest ` set (accessKeys ?r)"
      "accessKeys r = accessKeys ?r @ [row]"
    using x s'(1,2) by (auto elim!: repo_Create_cases)
  have dig: "map_of (AccessKeyDigests ks p) (activeVersion ks) = Some ?d"
    using assms(1) by (simp add: map_of_digests keyset_ok_def)
  have uncached: "?d \<notin> fst ` set (entries (svcCache s))"
  proof
    assume "?d \<in> fst ` set (entries (svcCache s))"
    then obtain e where "(?d, e) \<in> set (entries (svcCache s))" by auto
    then obtain old where old: "old \<in> set (accessKeys ?r)" "backs ks ?d (entryIdentity e) old"
      using service_invD(1) [OF inv] by blast
    then obtain q w where q: "validAccessKey q" "w \<in> set (keyVersions ks)" "keyDigest old = accessDigest ks w q"
        "?d = accessDigest ks (activeVersion ks) q" by (auto simp: backs_def)
    have "q = p" using keyset_inj [OF assms(1) valid q(1,4)] by simp
    then have "accessDigest ks w p \<in> keyDigest ` set (accessKeys ?r)" using q(3) old(1) by force
    then show False using assms(6) [OF q(2)] row(4) by (cases "w = activeVersion ks") auto
  qed
  have "cache_lookup ?d later (svcCache s') = None"
    using uncached s'(3) map_of_eq_None_iff [of "entries (svcCache s)" ?d] by (simp add: cache_lookup_def)
  moreover have "repo_Authenticate (AccessKeyDigests ks p) (\<lambda>_. nil_error) (svcRepository s')
      = Inr (row_identity row, activeVersion ks)"
  proof (rule repo_Authenticate_only)
    show "accessKeys (svcRepository s') = accessKeys ?r @ [row]" using row(5) s'(3) by simp
    show "\<forall>x \<in> set (AccessKeyDigests ks p). x = (activeVersion ks, keyDigest row)
        \<or> snd x \<notin> insert (keyDigest row) (keyDigest ` set (accessKeys ?r))"
    proof
      fix x assume "x \<in> set (AccessKeyDigests ks p)"
      then obtain w where w: "w \<in> set (keyVersions ks)" "x = (w, accessDigest ks w p)" by (auto simp: AccessKeyDigests_def)
      show "x = (activeVersion ks, keyDigest row) \<or> snd x \<notin> insert (keyDigest row) (keyDigest ` set (accessKeys ?r))"
        using assms(6) [OF w(1)] w(2) row(1) by (cases "w = activeVersion ks") simp_all
    qed
    show "(activeVersion ks, keyDigest row) \<in> set (AccessKeyDigests ks p)"
      using map_of_SomeD [OF dig] row(1) by simp
  qed (use row in simp_all)
  ultimately show ?thesis
    using valid dig row(3) by (simp add: Authenticate_def auth_finish_def Let_def expired_at_def row_identity_def)
qed

subsection \<open>Interleaving with a revocation\<close>

text \<open>C31: Revocation is not immediate under concurrency. When an authentication has read the row, the
  key is then revoked (which clears the cache), and the authentication finishes by storing what it
  read, every authentication with the key succeeds for the rest of the time to live of the cache,
  although the row is revoked.\<close>

theorem revocation_race:
  assumes "keyset_ok ks" "validAccessKey p"
    and read: "repo_Authenticate (AccessKeyDigests ks p) readErr (svcRepository s) = Inr (identity, v)"
    and revoke: "svc_Revoke (ID identity) revokeTime nil_error s = (None, s1)"
    and finish: "auth_finish ks p order (identity, v) now writeErr s1 = (res, s2)"
    and later: "now \<le> later" "later < now + ttl (svcCache s)" "\<not> expired_at later identity"
  shows "fst (Authenticate ks p order' later readErr' writeErr' s2) = Inr identity
    \<and> (\<forall>row \<in> set (accessKeys (svcRepository s2)). rowID row = ID identity \<longrightarrow> revokedAt row \<noteq> None)"
proof
  let ?d = "accessDigest ks (activeVersion ks) p"
  have dig: "map_of (AccessKeyDigests ks p) (activeVersion ks) = Some ?d"
    using assms(1) by (simp add: map_of_digests keyset_ok_def)
  have fresh: "\<not> expired_at now identity"
    using later(1,3) by (auto simp: expired_at_def split: option.splits)
  have s1: "svcRepository s1 = snd (update_live (ID identity) (\<lambda>row. row\<lparr>revokedAt := Some (formatTime revokeTime)\<rparr>) (svcRepository s))"
      "ttl (svcCache s1) = ttl (svcCache s)"
    using revoke by (auto simp: svc_Revoke_def repo_Revoke_def forget_key_def cache_invalidate_def)
  have dead: "\<forall>row \<in> set (accessKeys (svcRepository s1)). rowID row = ID identity \<longrightarrow> revokedAt row \<noteq> None"
    unfolding s1(1) update_live_map by auto
  then have same: "snd (update_live (ID identity) f (svcRepository s1)) = svcRepository s1" for f
    by (intro update_live_none) (auto simp: update_live_def list_ex_iff)
  then have repo: "svcRepository s2 = svcRepository s1"
    using finish fresh by (auto simp: auth_finish_def Let_def repo_UpdateDigest_def split: if_splits prod.splits)
      (metis snd_conv)+
  have cache: "svcCache s2 = cache_store order ?d identity now (svcCache s1)"
    using finish fresh dig by (auto simp: auth_finish_def Let_def)
  have "cache_lookup ?d later (svcCache s2) = Some identity"
    using cache later(2) s1(2) by (simp add: store_lookup)
  then show "fst (Authenticate ks p order' later readErr' writeErr' s2) = Inr identity"
    using assms(2) dig later(3) by (simp add: Authenticate_def Let_def)
  show "\<forall>row \<in> set (accessKeys (svcRepository s2)). rowID row = ID identity \<longrightarrow> revokedAt row \<noteq> None"
    using dead repo by simp
qed

subsection \<open>Witnesses\<close>

definition sample_keys :: keySet where
  "sample_keys = \<lparr>keyVersions = [1], activeVersion = 1, accessDigest = (\<lambda>v p. p)\<rparr>"

definition sample_random :: string where
  "sample_random = replicate 32 (CHR ''k'')"

definition sample_key :: string where
  "sample_key = accessKeyPrefix @ raw_encode sample_random"

definition empty_service :: accessService where
  "empty_service = NewService \<lparr>accessKeys = [], lastRowID = 0\<rparr>"

definition sample_service :: accessService where
  "sample_service = snd (svc_Create sample_keys ''ci'' sample_random 0 nil_error empty_service)"

definition sample_row :: accessRow where
  "sample_row = \<lparr>rowID = 1, rowName = ''ci'', keyDigest = sample_key, keyPrefix = take 12 sample_key,
     digestKeyVersion = 1, createdAt = 0, lastUsedAt = None, revokedAt = None, expiresAt = None,
     rpmLimit = 0, tpmLimit = 0, maxConcurrent = 0, tokenBudget = 0, consumedTokens = 0\<rparr>"

lemma sample_keys_ok: "keyset_ok sample_keys" "distinct (keyVersions sample_keys)"
  by (simp_all add: keyset_ok_def sample_keys_def)

lemma sample_create:
  "svc_Create sample_keys ''ci'' sample_random 0 nil_error empty_service = (Inr (sample_row, sample_key), sample_service)"
proof -
  have "svc_Create sample_keys ''ci'' sample_random 0 nil_error empty_service = (Inr (sample_row, sample_key),
      empty_service\<lparr>svcRepository := \<lparr>accessKeys = [sample_row], lastRowID = 1\<rparr>\<rparr>)"
    by (simp add: svc_Create_def repo_Create_def Let_def empty_service_def NewService_def sample_keys_def
        sample_key_def sample_row_def formatTime_def displayPrefixLength_def del: take_append)
  then show ?thesis by (simp add: sample_service_def)
qed

lemma sample_run: "service_run sample_keys empty_service" "service_run sample_keys sample_service"
  unfolding sample_service_def empty_service_def by (intro service_run.intros)+

lemma sample_valid: "validAccessKey sample_key"
  unfolding sample_key_def by (rule created_key_valid) (simp add: sample_random_def accessKeyBytes_def)

lemma sample_rows: "svcRepository sample_service = \<lparr>accessKeys = [sample_row], lastRowID = 1\<rparr>"
    "svcCache sample_service = newCache defaultCacheTTL defaultCacheEntries"
proof -
  have eq: "sample_service = empty_service\<lparr>svcRepository := \<lparr>accessKeys = [sample_row], lastRowID = 1\<rparr>\<rparr>"
    by (simp add: sample_service_def svc_Create_def repo_Create_def Let_def empty_service_def NewService_def sample_keys_def
        sample_key_def sample_row_def formatTime_def displayPrefixLength_def del: take_append)
  show "svcRepository sample_service = \<lparr>accessKeys = [sample_row], lastRowID = 1\<rparr>"
      "svcCache sample_service = newCache defaultCacheTTL defaultCacheEntries"
    unfolding eq by (simp_all add: empty_service_def NewService_def)
qed

lemma sample_auth:
  "Authenticate sample_keys sample_key [] 5 (\<lambda>_. nil_error) nil_error sample_service
    = (Inr (row_identity sample_row), sample_service\<lparr>svcCache :=
        cache_store [] sample_key (row_identity sample_row) 5 (svcCache sample_service)\<rparr>)"
  using sample_valid
  by (simp add: Authenticate_def auth_finish_def Let_def sample_rows newCache_def cache_lookup_def AccessKeyDigests_def
      sample_keys_def expired_at_def row_identity_def) (simp add: sample_row_def)

theorem authenticated_key_live_witness:
  "\<exists>row \<in> set (accessKeys (svcRepository sample_service)). ID (row_identity sample_row) = rowID row
    \<and> revokedAt row = None"
  using authenticated_key_live [OF sample_keys_ok(1) sample_run(2) sample_auth] by blast

theorem created_key_authenticates_witness:
  "fst (Authenticate sample_keys sample_key [] 7 (\<lambda>_. nil_error) nil_error sample_service) = Inr (row_identity sample_row)"
  by (rule created_key_authenticates [OF sample_keys_ok sample_run(1) _ sample_create])
    (simp_all add: sample_random_def sample_keys_def)

definition revoked_service :: accessService where
  "revoked_service = snd (svc_Revoke 1 6 nil_error sample_service)"

theorem revocation_race_witness:
  "fst (Authenticate sample_keys sample_key [] 8 (\<lambda>_. nil_error) nil_error
      (snd (auth_finish sample_keys sample_key [] (row_identity sample_row, 1) 5 nil_error revoked_service)))
    = Inr (row_identity sample_row)"
proof -
  have read: "repo_Authenticate (AccessKeyDigests sample_keys sample_key) (\<lambda>_. nil_error) (svcRepository sample_service)
      = Inr (row_identity sample_row, 1)"
    by (simp add: sample_rows AccessKeyDigests_def sample_keys_def) (simp add: sample_row_def)
  have revoke: "svc_Revoke (ID (row_identity sample_row)) 6 nil_error sample_service = (None, revoked_service)"
    by (simp add: revoked_service_def svc_Revoke_def repo_Revoke_def row_identity_def sample_row_def)
  show ?thesis
    by (rule revocation_race [THEN conjunct1, OF sample_keys_ok(1) sample_valid read revoke prod.collapse [symmetric]])
      (simp_all add: sample_rows newCache_def defaultCacheTTL_def expired_at_def row_identity_def sample_row_def)
qed

end
