(* ===== verification/Event_Hub.thy ===== *)
theory Event_Hub
  imports Prelude
begin

text \<open>
  \<open>internal/eventhub/hub.go\<close>: the broadcast hub of the admin live view. Published events go into a
  circular buffer of the last \<open>maxEvents\<close> events and, without blocking, into the channel of every
  subscriber; a new subscriber's channel is first filled from the buffer.

  A subscriber is named by a number that stands for its pointer and \<open>channels\<close> gives the buffered
  contents of its channel. Indexing the slice \<open>ring\<close> out of range panics in Go: the operations
  return \<open>None\<close> then.
\<close>

record hubEvent =
  evType :: string
  evPayload :: string
  evSerialized :: string

record hub =
  ring :: "hubEvent list"
  head :: nat
  ringSize :: nat
  subscribers :: "nat set"
  channels :: "nat \<Rightarrow> hubEvent list"
  nextSubscriber :: nat
  maxEvents :: nat

definition channelCapacity :: nat where "channelCapacity = 64"

definition New_hub :: "int \<Rightarrow> hub" where
  "New_hub n =
     \<lparr>ring = [], head = 0, ringSize = 0, subscribers = {}, channels = (\<lambda>_. []), nextSubscriber = 0,
      maxEvents = (if n \<le> 0 then 500 else nat n)\<rparr>"

text \<open>A send in a \<open>select\<close> with a default branch: dropped when the channel is full.\<close>

definition offer :: "hubEvent list \<Rightarrow> hubEvent \<Rightarrow> hubEvent list" where
  "offer ch e = (if length ch < channelCapacity then ch @ [e] else ch)"

definition fan_out :: "hubEvent \<Rightarrow> hub \<Rightarrow> hub" where
  "fan_out e h = h\<lparr>channels := (\<lambda>s. if s \<in> subscribers h then offer (channels h s) e else channels h s)\<rparr>"

definition Publish :: "hubEvent \<Rightarrow> hub \<Rightarrow> hub option" where
  "Publish e h =
     (if ringSize h < maxEvents h then
        let h1 = h\<lparr>ring := ring h @ [e], ringSize := ringSize h + 1\<rparr>;
            h2 = (if ringSize h1 = maxEvents h1 then h1\<lparr>head := 0\<rparr> else h1)
        in Some (fan_out e h2)
      else if head h < length (ring h) then
        Some (fan_out e (h\<lparr>ring := (ring h)[head h := e], head := (head h + 1) mod maxEvents h\<rparr>))
      else None)"

text \<open>The replay loop over the full ring; a read outside the slice panics.\<close>

fun replay :: "hub \<Rightarrow> nat list \<Rightarrow> hubEvent list \<Rightarrow> hubEvent list option" where
  "replay h [] ch = Some ch"
| "replay h (i # is) ch =
     (let k = (head h + i) mod maxEvents h
      in if k < length (ring h) then replay h is (offer ch (ring h ! k)) else None)"

definition Subscribe :: "hub \<Rightarrow> (nat \<times> hub) option" where
  "Subscribe h =
     (let s = nextSubscriber h;
          h1 = h\<lparr>subscribers := insert s (subscribers h), nextSubscriber := s + 1\<rparr>
      in map_option (\<lambda>ch. (s, h1\<lparr>channels := (channels h1)(s := ch)\<rparr>))
           (if ringSize h < maxEvents h then Some (fold (\<lambda>e ch. offer ch e) (ring h) [])
            else replay h [0..<ringSize h] []))"

definition unsubscribe :: "nat \<Rightarrow> hub \<Rightarrow> hub" where
  "unsubscribe s h = h\<lparr>subscribers := subscribers h - {s}\<rparr>"

text \<open>The subscriber's side of its channel: a receive from a non-empty channel.\<close>

definition take_event :: "nat \<Rightarrow> hub \<Rightarrow> (hubEvent \<times> hub) option" where
  "take_event s h =
     (case channels h s of [] \<Rightarrow> None | e # es \<Rightarrow> Some (e, h\<lparr>channels := (channels h)(s := es)\<rparr>))"

definition hub_Len :: "hub \<Rightarrow> nat" where "hub_Len h = ringSize h"

subsection \<open>The abstract hub: the published history\<close>

text \<open>What the hub promises of its buffer, on the list of all events ever published.\<close>

definition recent :: "nat \<Rightarrow> 'a list \<Rightarrow> 'a list" where
  "recent m hist = drop (length hist - m) hist"

text \<open>The buffer in chronological order: from the head on when it is full.\<close>

definition contents :: "hub \<Rightarrow> hubEvent list" where
  "contents h = (if ringSize h < maxEvents h then ring h else rotate (head h) (ring h))"

definition ring_inv :: "hub \<Rightarrow> bool" where
  "ring_inv h \<longleftrightarrow> length (ring h) = ringSize h \<and> ringSize h \<le> maxEvents h \<and> 0 < maxEvents h
     \<and> head h < maxEvents h"

text \<open>A run of the hub, with the history of published events and what each subscriber has received.\<close>

inductive hub_run :: "int \<Rightarrow> hubEvent list \<Rightarrow> (nat \<Rightarrow> hubEvent list) \<Rightarrow> hub \<Rightarrow> bool" for n where
  start: "hub_run n [] (\<lambda>_. []) (New_hub n)"
| publish: "hub_run n hist got h \<Longrightarrow> Publish e h = Some h' \<Longrightarrow> hub_run n (hist @ [e]) got h'"
| subscribe: "hub_run n hist got h \<Longrightarrow> Subscribe h = Some (s, h') \<Longrightarrow> hub_run n hist got h'"
| leave: "hub_run n hist got h \<Longrightarrow> hub_run n hist got (unsubscribe s h)"
| receive: "hub_run n hist got h \<Longrightarrow> take_event s h = Some (e, h') \<Longrightarrow>
    hub_run n hist (got(s := got s @ [e])) h'"

subsection \<open>Facts\<close>

lemma recent_snoc_full: "m \<le> length hist \<Longrightarrow> 0 < m \<Longrightarrow> recent m (hist @ [e]) = tl (recent m hist) @ [e]"
  by (simp add: recent_def Suc_diff_le drop_Suc tl_drop)

lemma recent_snoc_room: "length hist < m \<Longrightarrow> recent m (hist @ [e]) = hist @ [e]"
  by (simp add: recent_def)

lemma recent_suffix: "suffix (recent m hist) hist"
  by (simp add: recent_def suffix_drop)

lemma fan_out_frame [frame_simps]:
  "ring (fan_out e h) = ring h" "head (fan_out e h) = head h" "ringSize (fan_out e h) = ringSize h"
  "maxEvents (fan_out e h) = maxEvents h" "subscribers (fan_out e h) = subscribers h"
  "nextSubscriber (fan_out e h) = nextSubscriber h"
  by (simp_all add: fan_out_def)

lemma rotate_overwrite:
  assumes "k < length xs"
  shows "rotate (Suc k mod length xs) (xs[k := e]) = tl (rotate k xs) @ [e]"
proof -
  have split: "rotate k xs = drop k xs @ take k xs"
    using assms by (simp add: rotate_drop_take)
  have "rotate (Suc k mod length xs) (xs[k := e]) = rotate (Suc k) (xs[k := e])"
    by (metis length_list_update rotate_conv_mod)
  also have "\<dots> = rotate1 (rotate k (xs[k := e]))" by simp
  also have "rotate k (xs[k := e]) = e # drop (Suc k) xs @ take k xs"
    using assms by (simp add: rotate_drop_take drop_update_swap Cons_nth_drop_Suc [symmetric])
  also have "rotate1 \<dots> = tl (rotate k xs) @ [e]"
    using assms unfolding split by (simp add: Cons_nth_drop_Suc [symmetric])
  finally show ?thesis .
qed

lemma Publish_contents:
  assumes inv: "ring_inv h" and cont: "contents h = recent (maxEvents h) hist"
    and len: "ringSize h = min (length hist) (maxEvents h)"
  obtains h' where "Publish e h = Some h'" "ring_inv h'" "maxEvents h' = maxEvents h"
    "contents h' = recent (maxEvents h) (hist @ [e])"
    "ringSize h' = min (length (hist @ [e])) (maxEvents h)"
    "subscribers h' = subscribers h" "nextSubscriber h' = nextSubscriber h"
    "channels h' = (\<lambda>s. if s \<in> subscribers h then offer (channels h s) e else channels h s)"
proof (cases "ringSize h < maxEvents h")
  case True
  let ?h1 = "h\<lparr>ring := ring h @ [e], ringSize := ringSize h + 1\<rparr>"
  let ?h2 = "if ringSize ?h1 = maxEvents ?h1 then ?h1\<lparr>head := 0\<rparr> else ?h1"
  have short: "length hist < maxEvents h" using True len by simp
  have eq: "ring h = hist" using cont True short by (simp add: contents_def recent_def)
  have pub: "Publish e h = Some (fan_out e ?h2)" using True by (simp add: Publish_def Let_def)
  show thesis
  proof (rule that [OF pub])
    show "ring_inv (fan_out e ?h2)" using inv True by (auto simp: ring_inv_def frame_simps)
    show "contents (fan_out e ?h2) = recent (maxEvents h) (hist @ [e])"
      using eq inv True short by (auto simp: contents_def frame_simps recent_snoc_room ring_inv_def)
    show "ringSize (fan_out e ?h2) = min (length (hist @ [e])) (maxEvents h)"
      using short len by (auto simp: frame_simps)
  qed (auto simp: frame_simps fan_out_def)
next
  case False
  let ?h1 = "h\<lparr>ring := (ring h)[head h := e], head := (head h + 1) mod maxEvents h\<rparr>"
  have full: "length (ring h) = maxEvents h" "ringSize h = maxEvents h" "head h < length (ring h)"
    and long: "maxEvents h \<le> length hist" "0 < maxEvents h"
    using inv False len by (auto simp: ring_inv_def)
  have pub: "Publish e h = Some (fan_out e ?h1)" using False full by (simp add: Publish_def)
  have rot: "rotate (Suc (head h) mod maxEvents h) ((ring h)[head h := e]) = tl (rotate (head h) (ring h)) @ [e]"
    using rotate_overwrite [OF full(3), of e] full(1) by simp
  have old: "rotate (head h) (ring h) = recent (maxEvents h) hist"
    using cont full(2) by (simp add: contents_def)
  show thesis
  proof (rule that [OF pub])
    show "ring_inv (fan_out e ?h1)" using inv by (auto simp: ring_inv_def frame_simps)
    show "contents (fan_out e ?h1) = recent (maxEvents h) (hist @ [e])"
      using full(2) rot old recent_snoc_full [OF long] by (simp add: contents_def frame_simps)
    show "ringSize (fan_out e ?h1) = min (length (hist @ [e])) (maxEvents h)"
      using full(2) long by (simp add: frame_simps)
  qed (auto simp: frame_simps fan_out_def)
qed

lemma fold_offer: "fold (\<lambda>e ch. offer ch e) es ch = (if length ch \<le> channelCapacity
    then take channelCapacity (ch @ es) else ch)"
proof (induction es arbitrary: ch)
  case Nil
  then show ?case by simp
next
  case (Cons e es)
  show ?case
  proof (cases "length ch < channelCapacity")
    case True
    then show ?thesis using Cons.IH [of "ch @ [e]"] by (simp add: offer_def)
  next
    case False
    then show ?thesis using Cons.IH [of ch] by (auto simp: offer_def)
  qed
qed

lemma replay_fold:
  assumes "0 < maxEvents h" "length (ring h) = maxEvents h"
  shows "replay h is ch = Some (fold (\<lambda>e ch. offer ch e) (map (\<lambda>i. ring h ! ((head h + i) mod maxEvents h)) is) ch)"
  using assms by (induction "is" arbitrary: ch) (simp_all add: Let_def)

lemma map_rotate: "map (\<lambda>i. xs ! ((k + i) mod length xs)) [0..<length xs] = rotate k xs"
  by (rule nth_equalityI) (simp_all add: nth_rotate)

lemma Subscribe_replays:
  assumes "ring_inv h"
  shows "Subscribe h = Some (nextSubscriber h,
    h\<lparr>subscribers := insert (nextSubscriber h) (subscribers h), nextSubscriber := nextSubscriber h + 1,
      channels := (channels h)(nextSubscriber h := take channelCapacity (contents h))\<rparr>)"
proof (cases "ringSize h < maxEvents h")
  case True
  then show ?thesis by (simp add: Subscribe_def Let_def fold_offer contents_def)
next
  case False
  then have full: "0 < maxEvents h" "length (ring h) = maxEvents h" "ringSize h = length (ring h)"
    using assms by (auto simp: ring_inv_def)
  have "replay h [0..<ringSize h] [] = Some (take channelCapacity (rotate (head h) (ring h)))"
    using replay_fold [OF full(1,2), of "[0..<ringSize h]" "[]"] map_rotate [of "ring h" "head h"] full(2,3)
    by (simp add: fold_offer)
  then show ?thesis using False by (simp add: Subscribe_def Let_def contents_def)
qed

subsection \<open>The hub refines the history\<close>

definition hub_ok :: "int \<Rightarrow> hubEvent list \<Rightarrow> (nat \<Rightarrow> hubEvent list) \<Rightarrow> hub \<Rightarrow> bool" where
  "hub_ok n hist got h \<longleftrightarrow> ring_inv h \<and> maxEvents h = maxEvents (New_hub n)
     \<and> contents h = recent (maxEvents h) hist \<and> ringSize h = min (length hist) (maxEvents h)
     \<and> (\<forall>s. subseq (got s @ channels h s) hist \<and> length (channels h s) \<le> channelCapacity)
     \<and> (\<forall>s \<ge> nextSubscriber h. got s = [] \<and> channels h s = [] \<and> s \<notin> subscribers h)"

lemma hub_okD:
  assumes "hub_ok n hist got h"
  shows "ring_inv h" "maxEvents h = maxEvents (New_hub n)" "contents h = recent (maxEvents h) hist"
    "ringSize h = min (length hist) (maxEvents h)" "subseq (got s @ channels h s) hist"
    "length (channels h s) \<le> channelCapacity"
    "nextSubscriber h \<le> s \<Longrightarrow> got s = [] \<and> channels h s = [] \<and> s \<notin> subscribers h"
  using assms by (simp_all add: hub_ok_def)

lemma hub_okI:
  assumes "ring_inv h" "maxEvents h = maxEvents (New_hub n)" "contents h = recent (maxEvents h) hist"
    "ringSize h = min (length hist) (maxEvents h)" "\<And>s. subseq (got s @ channels h s) hist"
    "\<And>s. length (channels h s) \<le> channelCapacity"
    "\<And>s. nextSubscriber h \<le> s \<Longrightarrow> got s = [] \<and> channels h s = [] \<and> s \<notin> subscribers h"
  shows "hub_ok n hist got h"
  using assms by (simp add: hub_ok_def)

lemma same_buffer:
  assumes "ring h' = ring h" "head h' = head h" "ringSize h' = ringSize h" "maxEvents h' = maxEvents h"
  shows "ring_inv h' = ring_inv h" "contents h' = contents h"
  using assms by (simp_all add: ring_inv_def contents_def)

text \<open>Operations that touch only the subscribers and their channels keep what is said of the buffer.\<close>

lemma hub_ok_channels:
  assumes ok: "hub_ok n hist got h"
    and same: "ring h' = ring h" "head h' = head h" "ringSize h' = ringSize h" "maxEvents h' = maxEvents h"
    and chans: "\<And>s. subseq (got' s @ channels h' s) hist" "\<And>s. length (channels h' s) \<le> channelCapacity"
      "\<And>s. nextSubscriber h' \<le> s \<Longrightarrow> got' s = [] \<and> channels h' s = [] \<and> s \<notin> subscribers h'"
  shows "hub_ok n hist got' h'"
  by (rule hub_okI)
    (use hub_okD(1-4) [OF ok] same_buffer [OF same] same chans in simp_all)

lemma subseq_offer: "subseq (xs @ ch) hist \<Longrightarrow> subseq (xs @ offer ch e) (hist @ [e])"
  using list_emb_append_mono [of "(=)" "xs @ ch" hist "[e]" "[e]"] by (auto simp: offer_def)

lemma length_offer: "length ch \<le> channelCapacity \<Longrightarrow> length (offer ch e) \<le> channelCapacity"
  by (simp add: offer_def)

lemma hub_ok_publish:
  assumes ok: "hub_ok n hist got h" and pub: "Publish e h = Some h'"
  shows "hub_ok n (hist @ [e]) got h'"
proof -
  obtain h2 where h2: "Publish e h = Some h2" "ring_inv h2" "maxEvents h2 = maxEvents h"
    "contents h2 = recent (maxEvents h) (hist @ [e])" "ringSize h2 = min (length (hist @ [e])) (maxEvents h)"
    "subscribers h2 = subscribers h" "nextSubscriber h2 = nextSubscriber h"
    "channels h2 = (\<lambda>s. if s \<in> subscribers h then offer (channels h s) e else channels h s)"
    by (rule Publish_contents [OF hub_okD(1,3,4) [OF ok]])
  have eq: "h2 = h'" using h2(1) pub by simp
  show ?thesis
  proof (rule hub_okI)
    fix s
    have old: "subseq (got s @ channels h s) hist" by (rule hub_okD(5) [OF ok])
    then have "subseq (got s @ channels h s) (hist @ [e])" by (rule subseq_rev_drop_many)
    then show "subseq (got s @ channels h' s) (hist @ [e])"
      using subseq_offer [OF old, of e] h2(8) eq by simp
    show "length (channels h' s) \<le> channelCapacity"
      using h2(8) eq length_offer [OF hub_okD(6) [OF ok]] hub_okD(6) [OF ok] by simp
    show "got s = [] \<and> channels h' s = [] \<and> s \<notin> subscribers h'" if "nextSubscriber h' \<le> s"
      using that h2(6-8) eq hub_okD(7) [OF ok, of s] by simp
  qed (use h2 eq hub_okD(2) [OF ok] in simp_all)
qed

lemma hub_ok_subscribe:
  assumes ok: "hub_ok n hist got h" and sub: "Subscribe h = Some (s, h')"
  shows "hub_ok n hist got h'"
proof -
  have h': "s = nextSubscriber h" "h' = h\<lparr>subscribers := insert (nextSubscriber h) (subscribers h),
      nextSubscriber := nextSubscriber h + 1,
      channels := (channels h)(nextSubscriber h := take channelCapacity (contents h))\<rparr>"
    using sub Subscribe_replays [OF hub_okD(1) [OF ok]] by auto
  have part: "subseq (take channelCapacity (contents h)) hist"
    using prefix_imp_subseq [OF take_is_prefix] suffix_imp_subseq [OF recent_suffix] hub_okD(3) [OF ok]
    by (metis subseq_order.order_trans)
  show ?thesis unfolding h'(2)
  proof (rule hub_ok_channels [OF ok])
    fix t
    show "subseq (got t @ channels (h\<lparr>subscribers := insert (nextSubscriber h) (subscribers h),
      nextSubscriber := nextSubscriber h + 1,
      channels := (channels h)(nextSubscriber h := take channelCapacity (contents h))\<rparr>) t) hist"
      using part hub_okD(5,7) [OF ok, of t] by (cases "t = nextSubscriber h") simp_all
  qed (use hub_okD(6,7) [OF ok] in auto)
qed

lemma hub_ok_receive:
  assumes ok: "hub_ok n hist got h" and rcv: "take_event s h = Some (e, h')"
  shows "hub_ok n hist (got(s := got s @ [e])) h'"
proof -
  obtain es where ch: "channels h s = e # es" and h': "h' = h\<lparr>channels := (channels h)(s := es)\<rparr>"
    using rcv by (auto simp: take_event_def split: list.splits)
  have "\<not> nextSubscriber h \<le> s" using hub_okD(7) [OF ok, of s] ch by auto
  then show ?thesis unfolding h'
    by (intro hub_ok_channels [OF ok])
      (use hub_okD(5,6) [OF ok, of s] hub_okD(5-7) [OF ok] ch in auto)
qed

lemma hub_run_ok: "hub_run n hist got h \<Longrightarrow> hub_ok n hist got h"
proof (induction rule: hub_run.induct)
  case start
  then show ?case by (auto simp: hub_ok_def ring_inv_def New_hub_def contents_def recent_def)
next
  case publish
  then show ?case using hub_ok_publish by blast
next
  case subscribe
  then show ?case using hub_ok_subscribe by blast
next
  case (leave hist got h s)
  show ?case unfolding unsubscribe_def
    by (rule hub_ok_channels [OF leave.IH]) (use hub_okD(5-7) [OF leave.IH] in simp_all)
next
  case receive
  then show ?case using hub_ok_receive by blast
qed

text \<open>C33: The circular buffer refines the history of the hub. After any sequence of publishes,
  subscriptions, departures and receives, the buffer in chronological order is exactly the last
  \<open>maxEvents\<close> events published, \<open>Len\<close> counts them, and neither publishing nor subscribing ever
  indexes outside the slice.\<close>

theorem hub_refines_history:
  assumes "hub_run n hist got h"
  shows "contents h = recent (maxEvents (New_hub n)) hist
    \<and> hub_Len h = min (length hist) (maxEvents (New_hub n))
    \<and> Publish e h \<noteq> None \<and> Subscribe h \<noteq> None"
proof -
  have ok: "hub_ok n hist got h" using hub_run_ok [OF assms] .
  obtain h' where "Publish e h = Some h'" by (rule Publish_contents [OF hub_okD(1,3,4) [OF ok]])
  then show ?thesis using hub_okD(1-4) [OF ok] Subscribe_replays [OF hub_okD(1) [OF ok]] by (simp add: hub_Len_def)
qed

text \<open>What a subscriber sees. The events it has received, followed by those waiting in its
  channel, form a subsequence of the published history: never reordered, duplicated or invented. A
  channel never holds more than 64 events, and a new subscriber's channel starts with the oldest 64
  events of the buffer, so of a buffer of up to 500 events the newest are not replayed.\<close>

theorem hub_delivery:
  assumes "hub_run n hist got h"
  shows "subseq (got s @ channels h s) hist \<and> length (channels h s) \<le> 64
    \<and> (\<exists>h'. Subscribe h = Some (nextSubscriber h, h')
        \<and> channels h' (nextSubscriber h) = take 64 (recent (maxEvents h) hist))"
proof -
  have ok: "hub_ok n hist got h" using hub_run_ok [OF assms] .
  show ?thesis
    using hub_okD(3,5,6) [OF ok] Subscribe_replays [OF hub_okD(1) [OF ok]]
    by (simp add: channelCapacity_def)
qed

subsection \<open>Witnesses\<close>

definition sample_event :: "string \<Rightarrow> hubEvent" where
  "sample_event t = \<lparr>evType = t, evPayload = ''{}'', evSerialized = ''data: {}''\<rparr>"

definition sample_hub :: hub where
  "sample_hub = the (Publish (sample_event ''b'') (the (Publish (sample_event ''a'') (New_hub 1))))"

lemma sample_hub_run:
  "hub_run 1 [sample_event ''a'', sample_event ''b''] (\<lambda>_. []) sample_hub"
proof -
  have "hub_run 1 [sample_event ''a''] (\<lambda>_. []) (the (Publish (sample_event ''a'') (New_hub 1)))"
    using hub_run.publish [OF hub_run.start [of 1], of "sample_event ''a''"]
    by (simp add: Publish_def New_hub_def Let_def)
  then show ?thesis
    using hub_run.publish [of 1 "[sample_event ''a'']" "\<lambda>_. []"
        "the (Publish (sample_event ''a'') (New_hub 1))" "sample_event ''b''" sample_hub]
    by (simp add: sample_hub_def Publish_def New_hub_def Let_def fan_out_def)
qed

theorem hub_refines_history_witness:
  "contents sample_hub = [sample_event ''b''] \<and> Publish (sample_event ''c'') sample_hub \<noteq> None"
  using hub_refines_history [OF sample_hub_run, of "sample_event ''c''"]
  by (simp add: recent_def New_hub_def)

theorem hub_delivery_witness:
  "subseq ([] @ channels sample_hub 0) [sample_event ''a'', sample_event ''b'']
    \<and> (\<exists>h'. Subscribe sample_hub = Some (nextSubscriber sample_hub, h')
        \<and> channels h' (nextSubscriber sample_hub)
          = take 64 (recent (maxEvents sample_hub) [sample_event ''a'', sample_event ''b'']))"
  using hub_delivery [OF sample_hub_run, of 0] by simp

end
