(* ===== verification/Embed_Cache.thy ===== *)
theory Embed_Cache
  imports Prelude
begin

text \<open>
  \<open>internal/embedcache/cache.go\<close>: the least-recently-used cache of embedding responses, bounded in
  entries and in bytes. An element of the doubly linked list is a pair of a key and a response body;
  \<open>cacheKeys\<close> is the key set of the map from keys to list elements, and following such a pointer is
  finding the element that carries the key.
\<close>

definition defaultMaxEntries :: int where "defaultMaxEntries = 256"
definition maxCacheBytes :: int where "maxCacheBytes = 67108864"

definition wrap32 :: "int \<Rightarrow> int" where
  "wrap32 x = (x + 2147483648) mod 4294967296 - 2147483648"

type_synonym cacheElement = "string \<times> string"

record embedCache =
  cacheMax :: int
  cacheMaxBytes :: int
  cacheBytes :: int
  cacheKeys :: "string set"
  lru :: "cacheElement list"

definition New_cache :: "int \<Rightarrow> embedCache" where
  "New_cache n =
     \<lparr>cacheMax = wrap32 (if n \<le> 0 then defaultMaxEntries else n), cacheMaxBytes = maxCacheBytes,
      cacheBytes = 0, cacheKeys = {}, lru = []\<rparr>"

text \<open>\<open>list.MoveToFront\<close> of the element with the given key.\<close>

definition move_to_front :: "string \<Rightarrow> cacheElement list \<Rightarrow> cacheElement list" where
  "move_to_front k es = filter (\<lambda>e. fst e = k) es @ filter (\<lambda>e. fst e \<noteq> k) es"

definition Get :: "string \<Rightarrow> embedCache \<Rightarrow> string option \<times> embedCache" where
  "Get k c =
     (if k \<in> cacheKeys c then (map_of (lru c) k, c\<lparr>lru := move_to_front k (lru c)\<rparr>)
      else (None, c))"

function evictLocked :: "embedCache \<Rightarrow> embedCache" where
  "evictLocked c =
     (if int (card (cacheKeys c)) > cacheMax c \<or> cacheBytes c > cacheMaxBytes c then
        if lru c = [] then c
        else let (k, response) = last (lru c)
             in evictLocked (c\<lparr>cacheBytes := cacheBytes c - int (length response),
                               lru := butlast (lru c), cacheKeys := cacheKeys c - {k}\<rparr>)
      else c)"
  by pat_completeness auto
termination
  by (relation "measure (\<lambda>c. length (lru c))") auto

declare evictLocked.simps [simp del]

definition Put :: "string \<Rightarrow> string \<Rightarrow> embedCache \<Rightarrow> embedCache" where
  "Put k response c =
     (if int (length response) > cacheMaxBytes c then c
      else if k \<in> cacheKeys c then
        let cached = the (map_of (lru c) k)
        in evictLocked (c\<lparr>cacheBytes := cacheBytes c + int (length response) - int (length cached),
             lru := move_to_front k (map (\<lambda>e. if fst e = k then (k, response) else e) (lru c))\<rparr>)
      else evictLocked (c\<lparr>lru := (k, response) # lru c, cacheKeys := insert k (cacheKeys c),
             cacheBytes := cacheBytes c + int (length response)\<rparr>))"

definition Resize :: "int \<Rightarrow> embedCache \<Rightarrow> embedCache" where
  "Resize n c =
     (let m = (if n \<le> 0 then defaultMaxEntries else n)
      in if cacheMax c = m then c
         else if cacheMax c = wrap32 m then c
         else evictLocked (c\<lparr>cacheMax := wrap32 m\<rparr>))"

definition cache_Len :: "embedCache \<Rightarrow> nat" where "cache_Len c = card (cacheKeys c)"
definition cache_Bytes :: "embedCache \<Rightarrow> int" where "cache_Bytes c = cacheBytes c"

subsection \<open>Specification\<close>

text \<open>What the cache promises: of the entries from the most recently used on, the longest initial
  part within both bounds.\<close>

fun fitting :: "int \<Rightarrow> int \<Rightarrow> cacheElement list \<Rightarrow> cacheElement list" where
  "fitting n b [] = []"
| "fitting n b (e # es) =
     (if n \<le> 0 \<or> b < int (length (snd e)) then []
      else e # fitting (n - 1) (b - int (length (snd e))) es)"

definition total_bytes :: "cacheElement list \<Rightarrow> int" where
  "total_bytes es = (\<Sum>e\<leftarrow>es. int (length (snd e)))"

definition linked :: "embedCache \<Rightarrow> bool" where
  "linked c \<longleftrightarrow> distinct (map fst (lru c)) \<and> cacheKeys c = fst ` set (lru c)
     \<and> cacheBytes c = total_bytes (lru c) \<and> cacheMaxBytes c = maxCacheBytes"

definition fits :: "embedCache \<Rightarrow> bool" where
  "fits c \<longleftrightarrow> int (length (lru c)) \<le> max 0 (cacheMax c) \<and> total_bytes (lru c) \<le> cacheMaxBytes c"

inductive cache_run :: "int \<Rightarrow> embedCache \<Rightarrow> bool" for n where
  new: "cache_run n (New_cache n)"
| get: "cache_run n c \<Longrightarrow> cache_run n (snd (Get k c))"
| put: "cache_run n c \<Longrightarrow> cache_run n (Put k v c)"
| resize: "cache_run n c \<Longrightarrow> cache_run n (Resize m c)"

subsection \<open>Facts\<close>

lemma total_bytes_simps [simp]:
  "total_bytes [] = 0" "total_bytes (e # es) = int (length (snd e)) + total_bytes es"
  "total_bytes (xs @ ys) = total_bytes xs + total_bytes ys"
  by (simp_all add: total_bytes_def)

lemma total_bytes_nonneg [simp]: "0 \<le> total_bytes es"
  by (induction es) auto

lemma total_bytes_filter: "total_bytes es = total_bytes (filter P es) + total_bytes (filter (\<lambda>e. \<not> P e) es)"
  by (induction es) auto

lemma move_to_front_entry:
  "distinct (map fst es) \<Longrightarrow> (k, v) \<in> set es \<Longrightarrow> move_to_front k es = (k, v) # filter (\<lambda>e. fst e \<noteq> k) es"
proof (induction es)
  case Nil
  then show ?case by simp
next
  case (Cons e es)
  show ?case
  proof (cases "fst e = k")
    case True
    then have rest: "filter (\<lambda>e. fst e = k) es = []" and "e = (k, v)"
      using Cons.prems by (auto simp: filter_empty_conv image_iff rev_image_eqI)
    then show ?thesis using True by (simp add: move_to_front_def)
  next
    case False
    then show ?thesis using Cons by (auto simp: move_to_front_def)
  qed
qed

lemma fitting_all:
  "int (length es) \<le> n \<Longrightarrow> total_bytes es \<le> b \<Longrightarrow> fitting n b es = es"
proof (induction es arbitrary: n b)
  case (Cons e es)
  then show ?case using total_bytes_nonneg [of es] by (simp del: total_bytes_nonneg)
qed simp

text \<open>An entry at the end that does not fit does not change what fits.\<close>

lemma fitting_snoc:
  "n < int (length es) + 1 \<or> b < total_bytes es + int (length (snd e)) \<Longrightarrow>
   fitting n b (es @ [e]) = fitting n b es"
  by (induction es arbitrary: n b) auto

lemma fitting_bounds:
  "int (length (fitting n b es)) \<le> max 0 n \<and> (0 \<le> b \<longrightarrow> total_bytes (fitting n b es) \<le> b)"
proof (induction es arbitrary: n b)
  case (Cons e es)
  show ?case
    using Cons.IH [of "n - 1" "b - int (length (snd e))"] by auto
qed simp

lemma linked_card: "linked c \<Longrightarrow> card (cacheKeys c) = length (lru c)"
  unfolding linked_def using distinct_card [of "map fst (lru c)"] by simp

lemma linked_butlast:
  assumes link: "linked c" and es: "lru c = es @ [(k, r)]"
  shows "linked (c\<lparr>cacheBytes := cacheBytes c - int (length r), lru := es, cacheKeys := cacheKeys c - {k}\<rparr>)"
  using assms by (auto simp: linked_def)

text \<open>The eviction loop, which removes entries from the end, leaves exactly the longest initial part
  that fits.\<close>

lemma evict_fitting:
  "linked c \<Longrightarrow>
   evictLocked c = c\<lparr>lru := fitting (cacheMax c) (cacheMaxBytes c) (lru c),
     cacheKeys := fst ` set (fitting (cacheMax c) (cacheMaxBytes c) (lru c)),
     cacheBytes := total_bytes (fitting (cacheMax c) (cacheMaxBytes c) (lru c))\<rparr>"
proof (induction c rule: evictLocked.induct)
  case (1 c)
  let ?over = "int (card (cacheKeys c)) > cacheMax c \<or> cacheBytes c > cacheMaxBytes c"
  have card: "card (cacheKeys c) = length (lru c)" using linked_card [OF "1.prems"] .
  have keys: "cacheKeys c = fst ` set (lru c)" "cacheBytes c = total_bytes (lru c)"
    using "1.prems" by (simp_all add: linked_def)
  show ?case
  proof (cases ?over)
    case False
    then have "fitting (cacheMax c) (cacheMaxBytes c) (lru c) = lru c"
      using card keys by (intro fitting_all) simp_all
    then show ?thesis using False keys by (simp add: evictLocked.simps [of c])
  next
    case over: True
    show ?thesis
    proof (cases "lru c" rule: rev_cases)
      case Nil
      then show ?thesis using keys by (simp add: evictLocked.simps [of c])
    next
      case (snoc es e)
      obtain k r where e: "e = (k, r)" by (cases e)
      let ?c = "c\<lparr>cacheBytes := cacheBytes c - int (length r), lru := es, cacheKeys := cacheKeys c - {k}\<rparr>"
      have es: "lru c = es @ [(k, r)]" using snoc e by simp
      have step: "evictLocked c = evictLocked ?c"
        using over es by (simp add: evictLocked.simps [of c])
      have "linked ?c" using linked_butlast [OF "1.prems" es] .
      then have "evictLocked ?c = ?c\<lparr>lru := fitting (cacheMax c) (cacheMaxBytes c) es,
          cacheKeys := fst ` set (fitting (cacheMax c) (cacheMaxBytes c) es),
          cacheBytes := total_bytes (fitting (cacheMax c) (cacheMaxBytes c) es)\<rparr>"
        using "1.IH" [OF over _ _ refl] es by simp
      moreover have "fitting (cacheMax c) (cacheMaxBytes c) (lru c) = fitting (cacheMax c) (cacheMaxBytes c) es"
        using over card keys es fitting_snoc [of "cacheMax c" es "cacheMaxBytes c" "(k, r)"] by auto
      ultimately show ?thesis using step by simp
    qed
  qed
qed

lemma fitting_prefix: "prefix (fitting n b es) es"
  by (induction es arbitrary: n b) auto

lemma linked_evict:
  assumes "linked c"
  shows "linked (evictLocked c)" "fits (evictLocked c)"
proof -
  let ?fit = "fitting (cacheMax c) (cacheMaxBytes c) (lru c)"
  have "distinct (map fst ?fit)"
    using assms map_mono_prefix [OF fitting_prefix [of "cacheMax c" "cacheMaxBytes c" "lru c"], of fst]
    by (metis distinct_append linked_def prefix_def)
  then show "linked (evictLocked c)"
    using assms by (simp add: evict_fitting linked_def)
  have "0 \<le> cacheMaxBytes c" using assms by (simp add: linked_def maxCacheBytes_def)
  then show "fits (evictLocked c)"
    using fitting_bounds [of "cacheMax c" "cacheMaxBytes c" "lru c"] assms
    by (simp add: evict_fitting fits_def)
qed

text \<open>Both branches of \<open>Put\<close> evict from the same list: the new entry in front of the others.\<close>

definition fronted :: "string \<Rightarrow> string \<Rightarrow> embedCache \<Rightarrow> embedCache" where
  "fronted k v c =
     c\<lparr>lru := (k, v) # filter (\<lambda>e. fst e \<noteq> k) (lru c), cacheKeys := insert k (cacheKeys c),
       cacheBytes := int (length v) + total_bytes (filter (\<lambda>e. fst e \<noteq> k) (lru c))\<rparr>"

lemma replace_front:
  assumes "distinct (map fst es)" "k \<in> fst ` set es"
  shows "move_to_front k (map (\<lambda>e. if fst e = k then (k, v) else e) es) = (k, v) # filter (\<lambda>e. fst e \<noteq> k) es"
proof -
  let ?f = "\<lambda>e. if fst e = k then (k, v) else e"
  have fst: "map fst (map ?f es) = map fst es" by (induction es) auto
  have mem: "(k, v) \<in> set (map ?f es)" using assms(2) by force
  have "filter (\<lambda>e. fst e \<noteq> k) (map ?f es) = filter (\<lambda>e. fst e \<noteq> k) es" by (induction es) auto
  then show ?thesis
    using move_to_front_entry [OF _ mem] assms(1) fst by (simp del: map_map)
qed

lemma filter_key_total:
  "distinct (map fst es) \<Longrightarrow> (k, v) \<in> set es \<Longrightarrow> total_bytes es = int (length v) + total_bytes (filter (\<lambda>e. fst e \<noteq> k) es)"
  using arg_cong [OF move_to_front_entry [of es k v], of total_bytes]
    total_bytes_filter [of es "\<lambda>e. fst e = k"]
  by (simp add: move_to_front_def)

lemma Put_fronted:
  assumes link: "linked c" and small: "int (length v) \<le> cacheMaxBytes c"
  shows "Put k v c = evictLocked (fronted k v c)"
proof (cases "k \<in> cacheKeys c")
  case True
  have d: "distinct (map fst (lru c))" and mem: "k \<in> fst ` set (lru c)"
    and bytes: "cacheBytes c = total_bytes (lru c)"
    using link True by (simp_all add: linked_def)
  obtain r where r: "map_of (lru c) k = Some r"
    using mem map_of_eq_None_iff [of "lru c" k] by (cases "map_of (lru c) k") auto
  have "total_bytes (lru c) = int (length r) + total_bytes (filter (\<lambda>e. fst e \<noteq> k) (lru c))"
    using filter_key_total [OF d map_of_SomeD [OF r]] .
  then have "cacheBytes c + int (length v) - int (length r)
      = int (length v) + total_bytes (filter (\<lambda>e. fst e \<noteq> k) (lru c))"
    using bytes by simp
  then have eq: "c\<lparr>cacheBytes := cacheBytes c + int (length v) - int (length r),
      lru := (k, v) # filter (\<lambda>e. fst e \<noteq> k) (lru c)\<rparr> = fronted k v c"
    using True by (simp only: fronted_def insert_absorb) simp
  have "Put k v c = evictLocked (c\<lparr>cacheBytes := cacheBytes c + int (length v) - int (length r),
      lru := (k, v) # filter (\<lambda>e. fst e \<noteq> k) (lru c)\<rparr>)"
    using True small r replace_front [OF d mem, of v] by (simp add: Put_def)
  then show ?thesis by (simp only: eq)
next
  case False
  then have "filter (\<lambda>e. fst e \<noteq> k) (lru c) = lru c"
    using link by (auto simp: linked_def filter_id_conv image_iff)
  then show ?thesis
    using False small link by (simp add: Put_def fronted_def linked_def add.commute)
qed

lemma linked_fronted: "linked c \<Longrightarrow> linked (fronted k v c)"
  by (auto simp: linked_def fronted_def distinct_map inj_on_def)

lemma linked_Get: "linked c \<Longrightarrow> linked (snd (Get k c)) \<and> (fits (snd (Get k c)) \<longleftrightarrow> fits c)"
proof (cases "k \<in> cacheKeys c")
  case True
  assume link: "linked c"
  then obtain v where v: "(k, v) \<in> set (lru c)" using True by (auto simp: linked_def)
  have d: "distinct (map fst (lru c))" using link by (simp add: linked_def)
  let ?rest = "filter (\<lambda>e. fst e \<noteq> k) (lru c)"
  have front: "move_to_front k (lru c) = (k, v) # ?rest" using move_to_front_entry [OF d v] .
  have bytes: "total_bytes ((k, v) # ?rest) = total_bytes (lru c)" using filter_key_total [OF d v] by simp
  have set: "fst ` set ((k, v) # ?rest) = fst ` set (lru c)" using v by force
  have dist: "distinct (map fst ((k, v) # ?rest))" using d by (auto simp: distinct_map inj_on_def)
  have "length ((k, v) # ?rest) = length (lru c)"
    using distinct_card [OF dist] distinct_card [OF d] set by (metis length_map list.set_map)
  then show ?thesis
    using True link bytes set dist unfolding Get_def by (simp add: front linked_def fits_def)
qed (simp add: Get_def)

lemma wrap32_bounds: "- 2147483648 \<le> wrap32 x \<and> wrap32 x \<le> 2147483647"
proof -
  have "0 \<le> (x + 2147483648) mod 4294967296" "(x + 2147483648) mod 4294967296 < 4294967296" by simp_all
  then show ?thesis unfolding wrap32_def by linarith
qed

lemma cache_run_ok: "cache_run n c \<Longrightarrow> linked c \<and> fits c"
proof (induction rule: cache_run.induct)
  case new
  then show ?case by (simp add: New_cache_def linked_def fits_def maxCacheBytes_def)
next
  case get
  then show ?case using linked_Get by blast
next
  case (put c k v)
  then show ?case
    using Put_fronted [of c v k] linked_evict [OF linked_fronted [of c k v]]
    by (cases "int (length v) \<le> cacheMaxBytes c") (simp_all add: Put_def)
next
  case (resize c m)
  have "linked (c\<lparr>cacheMax := x\<rparr>)" for x using resize.IH by (simp add: linked_def)
  then show ?case using resize.IH linked_evict by (simp add: Resize_def Let_def)
qed

text \<open>After any sequence of lookups, stores and resizes the cache is within both of its bounds:
  it holds at most \<open>max\<close> responses (none when the 32-bit conversion of the setting is not positive)
  and at most 64 MiB, its byte counter is the size of what it holds, and the map and the list agree.\<close>

theorem embed_cache_bounded:
  assumes "cache_run n c"
  shows "int (cache_Len c) \<le> max 0 (cacheMax c) \<and> cache_Bytes c = total_bytes (lru c)
    \<and> cache_Bytes c \<le> 67108864 \<and> cacheKeys c = fst ` set (lru c) \<and> distinct (map fst (lru c))"
  using cache_run_ok [OF assms] linked_card [of c]
  by (simp add: linked_def fits_def cache_Len_def cache_Bytes_def maxCacheBytes_def)

text \<open>C32: The cache is least-recently-used. A store of a response no larger than the byte bound puts
  it in front of the entries of the other keys and keeps exactly the longest initial part of that
  list that is within the bounds, so that an entry is only ever dropped together with all less
  recently used ones; with room for one entry, the next lookup of the key returns the response, and
  a lookup moves its entry to the front without changing any other order.\<close>

theorem embed_cache_lru:
  assumes "cache_run n c" "length v \<le> 67108864"
  shows "lru (Put k v c) = fitting (cacheMax c) 67108864 ((k, v) # filter (\<lambda>e. fst e \<noteq> k) (lru c))
    \<and> (0 < cacheMax c \<longrightarrow> fst (Get k (Put k v c)) = Some v)
    \<and> (\<forall>j r. fst (Get j c) = Some r \<longrightarrow> lru (snd (Get j c)) = (j, r) # filter (\<lambda>e. fst e \<noteq> j) (lru c))"
proof (intro conjI impI allI)
  have link: "linked c" using cache_run_ok [OF assms(1)] by simp
  have small: "int (length v) \<le> cacheMaxBytes c" using link assms(2) by (simp add: linked_def maxCacheBytes_def)
  have mb: "cacheMaxBytes c = 67108864" using link by (simp add: linked_def maxCacheBytes_def)
  have put: "Put k v c = evictLocked (fronted k v c)" using Put_fronted [OF link small] .
  show lru: "lru (Put k v c) = fitting (cacheMax c) 67108864 ((k, v) # filter (\<lambda>e. fst e \<noteq> k) (lru c))"
    using put evict_fitting [OF linked_fronted [OF link, of k v]] mb by (simp add: fronted_def)
  show "fst (Get k (Put k v c)) = Some v" if "0 < cacheMax c"
  proof -
    have "k \<in> cacheKeys (Put k v c)"
      using that put evict_fitting [OF linked_fronted [OF link, of k v]] mb assms(2) by (simp add: fronted_def)
    then show ?thesis using lru that assms(2) by (simp add: Get_def)
  qed
  show "lru (snd (Get j c)) = (j, r) # filter (\<lambda>e. fst e \<noteq> j) (lru c)" if hit: "fst (Get j c) = Some r" for j r
  proof -
    have "j \<in> cacheKeys c" "map_of (lru c) j = Some r" using hit by (auto simp: Get_def split: if_splits)
    moreover have "distinct (map fst (lru c))" using link by (simp add: linked_def)
    ultimately have "move_to_front j (lru c) = (j, r) # filter (\<lambda>e. fst e \<noteq> j) (lru c)"
      using move_to_front_entry [OF _ map_of_SomeD] by blast
    then show ?thesis using \<open>j \<in> cacheKeys c\<close> by (simp add: Get_def)
  qed
qed

subsection \<open>Witnesses\<close>

definition sample_cache :: embedCache where
  "sample_cache = Put ''a'' ''one'' (New_cache 1)"

lemma sample_cache_run: "cache_run 1 sample_cache"
  unfolding sample_cache_def by (intro cache_run.intros)

theorem embed_cache_bounded_witness:
  "int (cache_Len sample_cache) \<le> max 0 (cacheMax sample_cache) \<and> cache_Bytes sample_cache \<le> 67108864"
  using embed_cache_bounded [OF sample_cache_run] by simp

theorem embed_cache_lru_witness:
  "lru (Put ''b'' ''two'' (New_cache 1)) = [(''b'', ''two'')]
    \<and> fst (Get ''b'' (Put ''b'' ''two'' (New_cache 1))) = Some ''two''"
  using embed_cache_lru [OF cache_run.new [of 1], of "''two''" "''b''"]
  by (simp add: New_cache_def wrap32_def)

end
