(* ===== verification/Go_Bufio.thy ===== *)
theory Go_Bufio
  imports Fault
begin

text \<open>
  Byte streams: the contract of \<open>io.Reader\<close> and the part of \<open>bufio.Reader\<close> the program uses
  (\<open>ReadSlice\<close> with its buffer of 4096 bytes).

  A reader is a function that is asked for at most \<open>n\<close> bytes and answers with bytes, an error (empty
  for nil) and its next state. The locale \<open>byte_source\<close> states the contract: what the answers spell
  out is \<open>pending\<close>, and once that is used up every read answers with \<open>ending\<close>.
\<close>

type_synonym 's reader = "nat \<Rightarrow> 's \<Rightarrow> (string \<times> goError) \<times> 's"

definition bufSize :: nat where "bufSize = 4096"
definition maxConsecutiveEmptyReads :: nat where "maxConsecutiveEmptyReads = 100"

definition ErrNoProgress :: goError where
  "ErrNoProgress = [OtherError ''multiple Read calls return no data or error'']"

record 's bufReader =
  rbuf :: string
  rerr :: goError
  rsrc :: 's

definition NewReader :: "'s \<Rightarrow> 's bufReader" where
  "NewReader s = \<lparr>rbuf = [], rerr = nil_error, rsrc = s\<rparr>"

fun fill :: "'s reader \<Rightarrow> nat \<Rightarrow> 's bufReader \<Rightarrow> 's bufReader" where
  "fill rd 0 r = r\<lparr>rerr := ErrNoProgress\<rparr>"
| "fill rd (Suc k) r =
     (case rd (bufSize - length (rbuf r)) (rsrc r) of
        ((c, e), s) \<Rightarrow>
          let r1 = r\<lparr>rbuf := rbuf r @ c, rsrc := s\<rparr>
          in if e \<noteq> nil_error then r1\<lparr>rerr := e\<rparr> else if c \<noteq> [] then r1 else fill rd k r1)"

datatype sliceEnd = SliceFound | SliceFull | SliceErr goError

lemma fill_progress: "rerr (fill rd k r) \<noteq> nil_error \<or> length (rbuf r) < length (rbuf (fill rd k r))"
proof (induction rd k r rule: fill.induct)
  case (1 rd r)
  then show ?case by (simp add: ErrNoProgress_def)
next
  case (2 rd k r)
  obtain c e s where rd: "rd (bufSize - length (rbuf r)) (rsrc r) = ((c, e), s)" by (metis surj_pair)
  show ?case using "2.IH" [OF rd [symmetric] refl refl] rd by (cases "c = []") (auto simp: Let_def)
qed

definition room :: "'s bufReader \<Rightarrow> nat" where
  "room r = (if rerr r \<noteq> nil_error then 0 else Suc (bufSize - length (rbuf r)))"

lemma fill_room: "rerr r = nil_error \<Longrightarrow> length (rbuf r) < bufSize \<Longrightarrow> room (fill rd k r) < room r"
  using fill_progress [of rd k r] by (auto simp: room_def)

text \<open>The split of a string after the first occurrence of a byte.\<close>

definition upto_byte :: "char \<Rightarrow> string \<Rightarrow> (string \<times> string) option" where
  "upto_byte c s =
     (if c \<in> set s then Some (takeWhile (\<lambda>x. x \<noteq> c) s @ [c], tl (dropWhile (\<lambda>x. x \<noteq> c) s)) else None)"

function ReadSlice :: "'s reader \<Rightarrow> char \<Rightarrow> 's bufReader \<Rightarrow> (string \<times> sliceEnd) \<times> 's bufReader" where
  "ReadSlice rd delim r =
     (case upto_byte delim (rbuf r) of
        Some (line, rest) \<Rightarrow> ((line, SliceFound), r\<lparr>rbuf := rest\<rparr>)
      | None \<Rightarrow>
          if rerr r \<noteq> nil_error then ((rbuf r, SliceErr (rerr r)), r\<lparr>rbuf := [], rerr := nil_error\<rparr>)
          else if length (rbuf r) \<ge> bufSize then ((rbuf r, SliceFull), r\<lparr>rbuf := []\<rparr>)
          else ReadSlice rd delim (fill rd maxConsecutiveEmptyReads r))"
  by pat_completeness auto
termination
  by (relation "measure (\<lambda>(rd, delim, r). room r)") (auto simp: fill_room)

declare ReadSlice.simps [simp del]

subsection \<open>Facts\<close>

lemma upto_byte_append: "upto_byte c s = Some (a, b) \<Longrightarrow> s = a @ b"
proof -
  assume a: "upto_byte c s = Some (a, b)"
  then have c: "c \<in> set s" by (auto simp: upto_byte_def split: if_splits)
  then obtain x y where s: "s = x @ c # y" "c \<notin> set x" using split_list_first by fastforce
  have tw: "takeWhile (\<lambda>z. z \<noteq> c) s = x" using s by (auto simp: takeWhile_append takeWhile_eq_all_conv)
  have dw: "dropWhile (\<lambda>z. z \<noteq> c) s = c # y" using s by (auto simp: dropWhile_append dropWhile_eq_Nil_conv)
  show ?thesis using a c s(1) tw dw by (simp add: upto_byte_def)
qed

lemma upto_byte_first: "c \<notin> set x \<Longrightarrow> upto_byte c (x @ c # y) = Some (x @ [c], y)"
  by (auto simp: upto_byte_def takeWhile_append dropWhile_append takeWhile_eq_all_conv dropWhile_eq_Nil_conv)

lemma upto_byte_None: "upto_byte c s = None \<longleftrightarrow> c \<notin> set s"
  by (simp add: upto_byte_def)

lemma upto_byte_Some: "upto_byte c s = Some (a, b) \<Longrightarrow> \<exists>x. a = x @ [c] \<and> c \<notin> set x"
  by (auto simp: upto_byte_def dest: set_takeWhileD split: if_splits)

lemma upto_byte_grow: "upto_byte c s = Some (a, b) \<Longrightarrow> upto_byte c (s @ t) = Some (a, b @ t)"
  using upto_byte_Some [of c s a b] upto_byte_append [of c s a b] upto_byte_first by force

text \<open>A property of the source that every read keeps is kept by the buffered reads.\<close>

lemma fill_source:
  assumes read: "\<And>n s. I s \<Longrightarrow> I (snd (rd n s))"
  shows "I (rsrc r) \<Longrightarrow> I (rsrc (fill rd k r))"
proof (induction k arbitrary: r)
  case (Suc k)
  obtain c e s where rd: "rd (bufSize - length (rbuf r)) (rsrc r) = ((c, e), s)" by (metis surj_pair)
  have s: "I s" using read [OF Suc.prems, of "bufSize - length (rbuf r)"] rd by simp
  show ?case using Suc.IH [of "r\<lparr>rbuf := rbuf r @ c, rsrc := s\<rparr>"] s rd by (cases "c = []") (simp_all add: Let_def)
qed simp

lemma ReadSlice_source:
  assumes read: "\<And>n s. I s \<Longrightarrow> I (snd (rd n s))"
  shows "I (rsrc r) \<Longrightarrow> I (rsrc (snd (ReadSlice rd delim r)))"
proof (induction "room r" arbitrary: r rule: less_induct)
  case less
  let ?r = "fill rd maxConsecutiveEmptyReads r"
  show ?case
  proof (cases "upto_byte delim (rbuf r)")
    case (Some x)
    then show ?thesis using less.prems by (cases x) (simp add: ReadSlice.simps [of rd delim r])
  next
    case None
    have "I (rsrc ?r)" using fill_source [OF read less.prems] .
    then show ?thesis
      using None less.hyps [OF fill_room] less.prems by (simp add: ReadSlice.simps [of rd delim r])
  qed
qed

subsection \<open>The contract of a byte source\<close>

definition unread :: "('s \<Rightarrow> string) \<Rightarrow> 's bufReader \<Rightarrow> string" where
  "unread pending r = rbuf r @ pending (rsrc r)"

definition reader_ok :: "('s \<Rightarrow> bool) \<Rightarrow> ('s \<Rightarrow> string) \<Rightarrow> ('s \<Rightarrow> goError) \<Rightarrow> 's bufReader \<Rightarrow> bool" where
  "reader_ok ok pending ending r \<longleftrightarrow> ok (rsrc r) \<and> length (rbuf r) \<le> bufSize
     \<and> (rerr r \<noteq> nil_error \<longrightarrow> rerr r = ending (rsrc r) \<and> pending (rsrc r) = [])"

locale byte_source =
  fixes rd :: "'s reader" and ok :: "'s \<Rightarrow> bool" and pending :: "'s \<Rightarrow> string" and ending :: "'s \<Rightarrow> goError"
  assumes read_step: "ok s \<Longrightarrow> 0 < n \<Longrightarrow> rd n s = ((c, e), s') \<Longrightarrow>
      ok s' \<and> length c \<le> n \<and> pending s = c @ pending s' \<and> ending s' = ending s"
    and read_error: "ok s \<Longrightarrow> 0 < n \<Longrightarrow> rd n s = ((c, e), s') \<Longrightarrow> e \<noteq> nil_error \<Longrightarrow> e = ending s \<and> pending s' = []"
    and read_progress: "ok s \<Longrightarrow> 0 < n \<Longrightarrow> rd n s = ((c, e), s') \<Longrightarrow> e = nil_error \<Longrightarrow> c \<noteq> []"
    and ending_error: "ok s \<Longrightarrow> ending s \<noteq> nil_error"
begin

lemma fill_step:
  assumes ok: "reader_ok ok pending ending r" and free: "rerr r = nil_error" "length (rbuf r) < bufSize"
  shows "reader_ok ok pending ending (fill rd (Suc k) r) \<and> unread pending (fill rd (Suc k) r) = unread pending r
    \<and> ending (rsrc (fill rd (Suc k) r)) = ending (rsrc r)"
proof -
  let ?n = "bufSize - length (rbuf r)"
  obtain c e s where rd: "rd ?n (rsrc r) = ((c, e), s)" by (metis surj_pair)
  have n: "0 < ?n" "ok (rsrc r)" using ok free(2) by (simp_all add: reader_ok_def)
  note step = read_step [OF n(2,1) rd]
  show ?thesis
  proof (cases "e = nil_error")
    case True
    then have "c \<noteq> []" using read_progress [OF n(2,1) rd] by simp
    then show ?thesis using True step rd free by (auto simp: reader_ok_def unread_def Let_def)
  next
    case False
    then show ?thesis
      using step read_error [OF n(2,1) rd] rd free by (auto simp: reader_ok_def unread_def Let_def)
  qed
qed

lemma ReadSlice_step:
  assumes "reader_ok ok pending ending r" "ReadSlice rd d r = ((frag, fin), r')"
  shows "reader_ok ok pending ending r' \<and> ending (rsrc r') = ending (rsrc r) \<and> unread pending r = frag @ unread pending r'
    \<and> (case fin of
        SliceFound \<Rightarrow> upto_byte d (unread pending r) = Some (frag, unread pending r')
      | SliceFull \<Rightarrow> d \<notin> set frag \<and> frag \<noteq> []
      | SliceErr e \<Rightarrow> d \<notin> set frag \<and> unread pending r' = [] \<and> e = ending (rsrc r))"
  using assms
proof (induction "room r" arbitrary: r rule: less_induct)
  case less
  note ok = less.prems(1)
  show ?case
  proof (cases "upto_byte d (rbuf r)")
    case (Some x)
    obtain a b where x: "x = (a, b)" by (cases x)
    then have eq: "frag = a" "fin = SliceFound" "r' = r\<lparr>rbuf := b\<rparr>"
      using less.prems(2) Some by (simp_all add: ReadSlice.simps [of rd d r])
    have split: "rbuf r = a @ b" using upto_byte_append Some x by blast
    then have "length b \<le> bufSize" using ok by (simp add: reader_ok_def)
    then show ?thesis
      using eq ok split upto_byte_grow [of d "rbuf r" a b "pending (rsrc r)"] Some x
      by (auto simp: reader_ok_def unread_def)
  next
    case None
    then have absent: "d \<notin> set (rbuf r)" by (simp add: upto_byte_None)
    show ?thesis
    proof (cases "rerr r = nil_error")
      case False
      then have "frag = rbuf r" "fin = SliceErr (rerr r)" "r' = r\<lparr>rbuf := [], rerr := nil_error\<rparr>"
        using less.prems(2) None by (simp_all add: ReadSlice.simps [of rd d r])
      then show ?thesis using False ok absent by (auto simp: reader_ok_def unread_def)
    next
      case True
      show ?thesis
      proof (cases "length (rbuf r) \<ge> bufSize")
        case full: True
        then have "frag = rbuf r" "fin = SliceFull" "r' = r\<lparr>rbuf := []\<rparr>"
          using less.prems(2) None True by (simp_all add: ReadSlice.simps [of rd d r])
        then show ?thesis using full True ok absent by (auto simp: reader_ok_def unread_def bufSize_def)
      next
        case False
        let ?r = "fill rd maxConsecutiveEmptyReads r"
        have step: "reader_ok ok pending ending ?r" "unread pending ?r = unread pending r" "ending (rsrc ?r) = ending (rsrc r)"
          using fill_step [OF ok True, of 99] False by (simp_all add: maxConsecutiveEmptyReads_def eval_nat_numeral)
        have slice: "ReadSlice rd d ?r = ((frag, fin), r')"
          using less.prems(2) None True False by (simp add: ReadSlice.simps [of rd d r])
        have small: "room ?r < room r" using True False by (simp add: fill_room)
        show ?thesis using less.hyps [OF small step(1) slice] unfolding step(2,3) .
      qed
    qed
  qed
qed

end

subsection \<open>A body that arrives in chunks\<close>

text \<open>The body of an HTTP response as the chunks its reads deliver, with the error that ends it: the
  end of the stream, or a failure of the connection.\<close>

record chunkSource =
  chunks :: "string list"
  chunkEnd :: goError

definition read_chunk :: "chunkSource reader" where
  "read_chunk n s =
     (case chunks s of
        [] \<Rightarrow> (([], chunkEnd s), s)
      | c # cs \<Rightarrow>
          if length c \<le> n then ((c, nil_error), s\<lparr>chunks := cs\<rparr>)
          else ((take n c, nil_error), s\<lparr>chunks := drop n c # cs\<rparr>))"

definition chunk_ok :: "chunkSource \<Rightarrow> bool" where
  "chunk_ok s \<longleftrightarrow> [] \<notin> set (chunks s) \<and> chunkEnd s \<noteq> nil_error"

definition chunk_text :: "chunkSource \<Rightarrow> string" where
  "chunk_text s = concat (chunks s)"

interpretation body: byte_source read_chunk chunk_ok chunk_text chunkEnd
proof
  fix s s' :: chunkSource and n :: nat and c e
  assume s: "chunk_ok s" "0 < n" and r: "read_chunk n s = ((c, e), s')"
  show "chunk_ok s' \<and> length c \<le> n \<and> chunk_text s = c @ chunk_text s' \<and> chunkEnd s' = chunkEnd s"
    using s r by (auto simp: read_chunk_def chunk_ok_def chunk_text_def split: list.splits if_splits)
  show "e = chunkEnd s \<and> chunk_text s' = []" if "e \<noteq> nil_error"
    using that r by (auto simp: read_chunk_def chunk_text_def split: list.splits if_splits)
  show "c \<noteq> []" if "e = nil_error"
    using that s r by (auto simp: read_chunk_def chunk_ok_def split: list.splits if_splits)
qed (simp add: chunk_ok_def)

end
