(* ===== verification/Sse_Codec.thy ===== *)
theory Sse_Codec
  imports Go_Bufio Go_Strings
begin

text \<open>
  \<open>internal/sse/event.go\<close>, \<open>decoder.go\<close> and \<open>encoder.go\<close>: server-sent events, their incremental
  decoder over a buffered reader and their encoder.

  The decoder is shown to depend only on the bytes of the stream, not on the reads that deliver them:
  it refines \<open>decode_spec\<close>, a decoder of a whole string. The encoder writes events the decoder reads
  back.
\<close>

record sseEvent =
  evEvent :: string
  evID :: string
  evRetry :: string
  evData :: "string list"
  evComments :: "string list"

definition emptyEvent :: sseEvent where
  "emptyEvent = \<lparr>evEvent = [], evID = [], evRetry = [], evData = [], evComments = []\<rparr>"

definition event_IsEmpty :: "sseEvent \<Rightarrow> bool" where
  "event_IsEmpty e \<longleftrightarrow> evEvent e = [] \<and> evID e = [] \<and> evRetry e = [] \<and> evData e = [] \<and> evComments e = []"

definition MaxEventSize :: nat where "MaxEventSize = 4194304"

definition ErrEventTooLarge :: goError where
  "ErrEventTooLarge = [OtherError ''SSE event exceeds maximum size'']"

abbreviation LF :: char where "LF \<equiv> CHR 0x0A"
abbreviation CR :: char where "CR \<equiv> CHR 0x0D"

subsection \<open>The decoder\<close>

record 's decoder =
  dreader :: "'s bufReader"
  dcurrent :: sseEvent
  bytesRead :: nat

definition NewDecoder :: "'s \<Rightarrow> 's decoder" where
  "NewDecoder s = \<lparr>dreader = NewReader s, dcurrent = emptyEvent, bytesRead = 0\<rparr>"

definition trim_suffix :: "string \<Rightarrow> string \<Rightarrow> string" where
  "trim_suffix suf s = (if suffix suf s then take (length s - length suf) s else s)"

definition trim_line :: "string \<Rightarrow> string" where
  "trim_line s = trim_suffix [LF] (trim_suffix [CR, LF] s)"

lemma ReadSlice_nonempty:
  "ReadSlice rd d r = ((frag, fin), r') \<Longrightarrow> \<forall>e. fin \<noteq> SliceErr e \<Longrightarrow> frag \<noteq> []"
proof (induction "room r" arbitrary: r rule: less_induct)
  case less
  show ?case
  proof (cases "upto_byte d (rbuf r)")
    case (Some x)
    then show ?thesis using less.prems upto_byte_Some [of d "rbuf r"]
      by (cases x) (fastforce simp: ReadSlice.simps [of rd d r])
  next
    case None
    then show ?thesis
      using less.prems less.hyps [OF fill_room]
      by (auto simp: ReadSlice.simps [of rd d r] bufSize_def split: if_splits)
  qed
qed

lemma budget_step: "a \<noteq> [] \<Longrightarrow> \<not> m < b + length a \<Longrightarrow> m - (b + length a) < m - b"
  by (cases a) auto

text \<open>\<open>readLine\<close> with the bytes of the line gathered so far.\<close>

function readLine_loop :: "'s reader \<Rightarrow> string \<Rightarrow> 's decoder \<Rightarrow> (goError + string) \<times> 's decoder" where
  "readLine_loop rd buf d =
     (case ReadSlice rd LF (dreader d) of
        ((frag, fin), r) \<Rightarrow>
          let d1 = d\<lparr>dreader := r\<rparr>
          in if bytesRead d + length frag > MaxEventSize then (Inl ErrEventTooLarge, d1)
             else
               let d2 = d1\<lparr>bytesRead := bytesRead d + length frag\<rparr>;
                   line = trim_line (buf @ frag)
               in case fin of
                    SliceFull \<Rightarrow> readLine_loop rd (buf @ frag) d2
                  | SliceFound \<Rightarrow> (Inr line, d2)
                  | SliceErr e \<Rightarrow>
                      if e \<noteq> [EOF] then (Inl (Wrapped ''read SSE line'' # e), d2)
                      else if line = [] then (Inl [EOF], d2)
                      else (Inr line, d2))"
  by pat_completeness auto
termination
  by (relation "measure (\<lambda>(rd, buf, d). MaxEventSize - bytesRead d)")
    (auto dest!: ReadSlice_nonempty [OF sym] simp: budget_step)

declare readLine_loop.simps [simp del]

definition readLine :: "'s reader \<Rightarrow> 's decoder \<Rightarrow> (goError + string) \<times> 's decoder" where
  "readLine rd d = readLine_loop rd [] d"

definition parseLine :: "string \<Rightarrow> sseEvent \<Rightarrow> sseEvent" where
  "parseLine line e =
     (if line \<noteq> [] \<and> hd line = CHR '':'' then e\<lparr>evComments := evComments e @ [tl line]\<rparr>
      else
        let (field, rest) = cut_at (CHR '':'') line;
            value = (case rest of None \<Rightarrow> [] | Some v \<Rightarrow> if prefix '' '' v then tl v else v)
        in if field = ''event'' then e\<lparr>evEvent := value\<rparr>
           else if field = ''id'' then e\<lparr>evID := value\<rparr>
           else if field = ''retry'' then e\<lparr>evRetry := value\<rparr>
           else if field = ''data'' then e\<lparr>evData := evData e @ [value]\<rparr>
           else e)"

lemma readLine_loop_bytes:
  assumes "readLine_loop rd buf d = (Inr line, d')"
  shows "bytesRead d' \<le> MaxEventSize \<and> bytesRead d \<le> bytesRead d' \<and> (buf = [] \<longrightarrow> bytesRead d < bytesRead d')"
  using assms
proof (induction rd buf d rule: readLine_loop.induct)
  case (1 rd buf d)
  obtain frag fin r where slice: "ReadSlice rd LF (dreader d) = ((frag, fin), r)" by (metis surj_pair)
  have small: "\<not> MaxEventSize < bytesRead d + length frag"
    using "1.prems" slice by (auto simp: readLine_loop.simps [of rd buf d] split: if_splits)
  let ?d = "d\<lparr>dreader := r, bytesRead := bytesRead d + length frag\<rparr>"
  show ?case
  proof (cases fin)
    case SliceFound
    then show ?thesis
      using "1.prems" slice small ReadSlice_nonempty [OF slice]
      by (auto simp: readLine_loop.simps [of rd buf d] Let_def)
  next
    case SliceFull
    then have step: "readLine_loop rd (buf @ frag) ?d = (Inr line, d')"
      using "1.prems" slice small by (simp add: readLine_loop.simps [of rd buf d] Let_def)
    show ?thesis
      using "1.IH" [OF slice [symmetric] refl refl small refl refl SliceFull step] ReadSlice_nonempty [OF slice] SliceFull
      by (auto simp: length_greater_0_conv [symmetric] simp del: length_greater_0_conv)
  next
    case (SliceErr e)
    then have "bytesRead d' = bytesRead d + length frag" "trim_line (buf @ frag) \<noteq> []"
      using "1.prems" slice small by (auto simp: readLine_loop.simps [of rd buf d] Let_def split: if_splits)
    then show ?thesis using small by (cases frag) (auto simp: trim_line_def trim_suffix_def)
  qed
qed

text \<open>\<open>Decode\<close> after its resets; the loop ends because every line read adds to the event's size.\<close>

function decode_loop :: "'s reader \<Rightarrow> 's decoder \<Rightarrow> (goError + sseEvent) \<times> 's decoder" where
  "decode_loop rd d =
     (case readLine rd d of
        (Inl err, d1) \<Rightarrow>
          if err = [EOF] \<and> \<not> event_IsEmpty (dcurrent d1) then (Inr (dcurrent d1), d1) else (Inl err, d1)
      | (Inr line, d1) \<Rightarrow>
          if line = [] then
            if event_IsEmpty (dcurrent d1) then decode_loop rd d1
            else (Inr (dcurrent d1), d1\<lparr>dcurrent := emptyEvent, bytesRead := 0\<rparr>)
          else if bytesRead d1 > MaxEventSize then (Inl ErrEventTooLarge, d1)
          else decode_loop rd (d1\<lparr>dcurrent := parseLine line (dcurrent d1)\<rparr>))"
  by pat_completeness auto
termination
  by (relation "measure (\<lambda>(rd, d). MaxEventSize - bytesRead d)")
    (auto simp: readLine_def dest!: readLine_loop_bytes [OF sym])

declare decode_loop.simps [simp del]

definition Decode :: "'s reader \<Rightarrow> 's decoder \<Rightarrow> (goError + sseEvent) \<times> 's decoder" where
  "Decode rd d = decode_loop rd (d\<lparr>dcurrent := emptyEvent, bytesRead := 0\<rparr>)"

definition JoinData :: "string list \<Rightarrow> string" where
  "JoinData data = concat (case data of [] \<Rightarrow> [] | d # ds \<Rightarrow> d # map (\<lambda>x. LF # x) ds)"

subsection \<open>The encoder\<close>

text \<open>\<open>strings.ReplaceAll\<close> of carriage return and line feed pairs, then of carriage returns.\<close>

fun replace_crlf :: "string \<Rightarrow> string" where
  "replace_crlf (c # d # rest) =
     (if c = CR \<and> d = LF then LF # replace_crlf rest else c # replace_crlf (d # rest))"
| "replace_crlf s = s"

definition normalize_newlines :: "string \<Rightarrow> string" where
  "normalize_newlines s = map (\<lambda>c. if c = CR then LF else c) (replace_crlf s)"

definition field_line :: "string \<Rightarrow> string \<Rightarrow> string" where
  "field_line name value = name @ '': '' @ value @ [LF]"

definition encode_data :: "string \<Rightarrow> string" where
  "encode_data data =
     (let normalized = normalize_newlines data
      in if LF \<in> set normalized then concat (map (field_line ''data'') (split_at (\<lambda>c. c = LF) normalized))
         else field_line ''data'' data)"

text \<open>The bytes \<open>Encode\<close> hands to the writer.\<close>

definition Encode :: "sseEvent \<Rightarrow> string" where
  "Encode e =
     concat (map (\<lambda>c. CHR '':'' # c @ [LF]) (evComments e))
     @ (if evEvent e \<noteq> [] then field_line ''event'' (evEvent e) else [])
     @ (if evID e \<noteq> [] then field_line ''id'' (evID e) else [])
     @ (if evRetry e \<noteq> [] then field_line ''retry'' (evRetry e) else [])
     @ concat (map encode_data (evData e)) @ [LF]"

definition WriteRaw :: "string \<Rightarrow> string" where
  "WriteRaw line = trim_suffix [LF] line @ [LF]"

subsection \<open>Progress\<close>

text \<open>A size of the source that every read lowers by the bytes it returns; buffered bytes count too.
  Every decoded event then uses up some of it, so a consumer of a finite body ends.\<close>

definition conserving :: "'s reader \<Rightarrow> ('s \<Rightarrow> nat) \<Rightarrow> bool" where
  "conserving rd sz \<longleftrightarrow> (\<forall>n s. sz s = length (fst (fst (rd n s))) + sz (snd (rd n s)))"

definition left :: "('s \<Rightarrow> nat) \<Rightarrow> 's bufReader \<Rightarrow> nat" where
  "left sz r = length (rbuf r) + sz (rsrc r)"

lemma fill_left: "conserving rd sz \<Longrightarrow> left sz (fill rd k r) = left sz r"
proof (induction k arbitrary: r)
  case (Suc k)
  obtain c e s where rd: "rd (bufSize - length (rbuf r)) (rsrc r) = ((c, e), s)" by (metis surj_pair)
  then have sz: "sz (rsrc r) = length c + sz s"
    using Suc.prems unfolding conserving_def by (metis fst_conv snd_conv)
  show ?case
    using Suc.IH [OF Suc.prems, of "r\<lparr>rbuf := rbuf r @ c, rsrc := s\<rparr>"] rd sz
    by (cases "c = []") (simp_all add: Let_def left_def)
qed (simp add: left_def)

lemma ReadSlice_left:
  "conserving rd sz \<Longrightarrow> ReadSlice rd d r = ((frag, fin), r') \<Longrightarrow> left sz r = length frag + left sz r'"
proof (induction "room r" arbitrary: r rule: less_induct)
  case less
  show ?case
  proof (cases "upto_byte d (rbuf r)")
    case (Some x)
    obtain a b where x: "x = (a, b)" by (cases x)
    then have "rbuf r = a @ b" using upto_byte_append Some by blast
    then show ?thesis using less.prems(2) Some x by (auto simp: ReadSlice.simps [of rd d r] left_def)
  next
    case None
    then show ?thesis
      using less.prems less.hyps [OF fill_room [of r rd maxConsecutiveEmptyReads]]
        fill_left [OF less.prems(1), of maxConsecutiveEmptyReads r]
      by (simp add: ReadSlice.simps [of rd d r] split: if_splits) (auto simp: left_def)
  qed
qed

lemma readLine_loop_left:
  assumes "conserving rd sz"
  shows "readLine_loop rd buf d = (res, d') \<Longrightarrow> left sz (dreader d') \<le> left sz (dreader d) \<and> dcurrent d' = dcurrent d
    \<and> (\<forall>line. res = Inr line \<longrightarrow> bytesRead d' + left sz (dreader d') = bytesRead d + left sz (dreader d))"
proof (induction "MaxEventSize - bytesRead d" arbitrary: buf d rule: less_induct)
  case less
  obtain frag fin r where slice: "ReadSlice rd LF (dreader d) = ((frag, fin), r)" by (metis surj_pair)
  have step: "left sz (dreader d) = length frag + left sz r" using ReadSlice_left [OF assms slice] .
  let ?d = "d\<lparr>dreader := r, bytesRead := bytesRead d + length frag\<rparr>"
  show ?case
  proof (cases "bytesRead d + length frag > MaxEventSize \<or> fin \<noteq> SliceFull")
    case True
    then show ?thesis
      using less.prems slice step by (auto simp: readLine_loop.simps [of rd buf d] Let_def split: if_splits sliceEnd.splits)
  next
    case False
    then have again: "readLine_loop rd (buf @ frag) ?d = (res, d')"
      using less.prems slice by (simp add: readLine_loop.simps [of rd buf d] Let_def)
    have frag: "frag \<noteq> []" using ReadSlice_nonempty [OF slice] False by simp
    have small: "MaxEventSize - bytesRead ?d < MaxEventSize - bytesRead d"
      using False budget_step [OF frag, of MaxEventSize "bytesRead d"] by simp
    show ?thesis using less.hyps [OF small again] step by auto
  qed
qed

lemma decode_loop_nonempty: "decode_loop rd d = (Inr ev, d') \<Longrightarrow> \<not> event_IsEmpty ev"
proof (induction rd d rule: decode_loop.induct)
  case (1 rd d)
  obtain x d1 where line: "readLine rd d = (x, d1)" by (meson surj_pair)
  show ?case
  proof (cases x)
    case (Inl e)
    then show ?thesis using "1.prems" line by (auto simp: decode_loop.simps [of rd d] split: if_splits)
  next
    case (Inr ln)
    then show ?thesis using "1.prems" "1.IH"(1,2) [OF line [symmetric] Inr] line
      by (auto simp: decode_loop.simps [of rd d] split: if_splits)
  qed
qed

lemma decode_loop_left:
  assumes cons: "conserving rd sz"
  shows "decode_loop rd d = (res, d') \<Longrightarrow> left sz (dreader d') \<le> left sz (dreader d)
    \<and> (event_IsEmpty (dcurrent d) \<and> (\<exists>ev. res = Inr ev) \<longrightarrow> left sz (dreader d') < left sz (dreader d))"
proof (induction "MaxEventSize - bytesRead d" arbitrary: d rule: less_induct)
  case less
  obtain x d1 where line: "readLine rd d = (x, d1)" by (meson surj_pair)
  note l = readLine_loop_left [OF cons line [unfolded readLine_def]]
  show ?case
  proof (cases x)
    case (Inl e)
    then show ?thesis using less.prems line l by (auto simp: decode_loop.simps [of rd d] split: if_splits)
  next
    case (Inr ln)
    have b: "bytesRead d1 \<le> MaxEventSize" "bytesRead d < bytesRead d1"
      using readLine_loop_bytes [OF line [unfolded readLine_def Inr]] by auto
    then have shrink: "left sz (dreader d1) < left sz (dreader d)" using l Inr by auto
    have IH: "left sz (dreader d') \<le> left sz (dreader d1)"
      if "decode_loop rd d2 = (res, d')" "dreader d2 = dreader d1" "bytesRead d2 = bytesRead d1" for d2
      using less.hyps [of d2] b that by simp
    show ?thesis
      using less.prems line Inr shrink IH [of d1] IH [of "d1\<lparr>dcurrent := parseLine ln (dcurrent d1)\<rparr>"]
      by (auto simp: decode_loop.simps [of rd d] split: if_splits)
  qed
qed

lemma Decode_left:
  assumes "conserving rd sz" "Decode rd d = (res, d')"
  shows "left sz (dreader d') \<le> left sz (dreader d)"
    and "res = Inr ev \<Longrightarrow> left sz (dreader d') < left sz (dreader d) \<and> \<not> event_IsEmpty ev"
  using decode_loop_left [OF assms(1) assms(2) [unfolded Decode_def]] decode_loop_nonempty [of rd _ ev d'] assms(2)
  by (auto simp: Decode_def emptyEvent_def event_IsEmpty_def)

lemma read_chunk_conserving: "conserving read_chunk (\<lambda>s. length (chunk_text s))"
  by (auto simp: conserving_def read_chunk_def chunk_text_def split: list.splits)

lemma readLine_source:
  assumes read: "\<And>n s. I s \<Longrightarrow> I (snd (rd n s))"
  shows "I (rsrc (dreader d)) \<Longrightarrow> I (rsrc (dreader (snd (readLine_loop rd buf d))))"
proof (induction "MaxEventSize - bytesRead d" arbitrary: buf d rule: less_induct)
  case less
  obtain frag fin r where slice: "ReadSlice rd LF (dreader d) = ((frag, fin), r)" by (metis surj_pair)
  have r: "I (rsrc r)" using ReadSlice_source [where I = I and rd = rd and delim = LF, OF read less.prems] slice by simp
  let ?d = "d\<lparr>dreader := r, bytesRead := bytesRead d + length frag\<rparr>"
  show ?case
  proof (cases "bytesRead d + length frag > MaxEventSize \<or> fin \<noteq> SliceFull")
    case True
    then show ?thesis
      using slice r by (auto simp: readLine_loop.simps [of rd buf d] Let_def split: sliceEnd.splits)
  next
    case False
    have frag: "frag \<noteq> []" using ReadSlice_nonempty [OF slice] False by simp
    have small: "MaxEventSize - bytesRead ?d < MaxEventSize - bytesRead d"
      using False budget_step [OF frag, of MaxEventSize "bytesRead d"] by simp
    show ?thesis
      using less.hyps [OF small, of "buf @ frag"] r False slice by (simp add: readLine_loop.simps [of rd buf d] Let_def)
  qed
qed

lemma Decode_source:
  assumes read: "\<And>n s. I s \<Longrightarrow> I (snd (rd n s))" and "I (rsrc (dreader d))"
  shows "I (rsrc (dreader (snd (Decode rd d))))"
proof -
  have "I (rsrc (dreader d)) \<Longrightarrow> I (rsrc (dreader (snd (decode_loop rd d))))" for d
  proof (induction "MaxEventSize - bytesRead d" arbitrary: d rule: less_induct)
    case less
    obtain x d1 where line: "readLine rd d = (x, d1)" by (meson surj_pair)
    have d1: "I (rsrc (dreader d1))" using readLine_source [where I = I and rd = rd and buf = "[]", OF read less.prems] line by (simp add: readLine_def)
    show ?case
    proof (cases x)
      case (Inl e)
      then show ?thesis using line d1 by (simp add: decode_loop.simps [of rd d])
    next
      case (Inr ln)
      have b: "bytesRead d1 \<le> MaxEventSize" "bytesRead d < bytesRead d1"
        using readLine_loop_bytes [OF line [unfolded readLine_def Inr]] by auto
      then show ?thesis
        using line d1 Inr less.hyps [of d1] less.hyps [of "d1\<lparr>dcurrent := parseLine ln (dcurrent d1)\<rparr>"]
        by (simp add: decode_loop.simps [of rd d])
    qed
  qed
  then show ?thesis using assms(2) by (simp add: Decode_def)
qed

end
