(* ===== verification/Sse_Stream.thy ===== *)
theory Sse_Stream
  imports Sse_Codec
begin

text \<open>
  The decoder of server-sent events against its specification on whole strings: the buffered,
  incremental decoder returns the event \<open>decode_spec\<close> finds in the bytes of the stream, whatever
  reads deliver them, and an encoded event is decoded back.
\<close>

subsection \<open>Specification\<close>

text \<open>The next line of a text that ends with the error \<open>fin\<close>, with the size of the event so far.\<close>

definition line_spec :: "nat \<Rightarrow> string \<Rightarrow> goError \<Rightarrow> goError + string \<times> nat \<times> string" where
  "line_spec b u fin =
     (case upto_byte LF u of
        Some (l, rest) \<Rightarrow>
          if b + length l > MaxEventSize then Inl ErrEventTooLarge else Inr (trim_line l, b + length l, rest)
      | None \<Rightarrow>
          if b + length u > MaxEventSize then Inl ErrEventTooLarge
          else if fin \<noteq> [EOF] then Inl (Wrapped ''read SSE line'' # fin)
          else if u = [] then Inl [EOF] else Inr (u, b + length u, []))"

lemma line_spec_shorter: "line_spec b u fin = Inr (line, b', rest) \<Longrightarrow> length rest < length u \<and> b < b' \<and> b' \<le> MaxEventSize"
  using upto_byte_Some [of LF u] upto_byte_append [of LF u]
  by (fastforce simp: line_spec_def split: option.splits if_splits)

function decode_spec :: "sseEvent \<Rightarrow> nat \<Rightarrow> string \<Rightarrow> goError \<Rightarrow> goError + sseEvent \<times> string" where
  "decode_spec cur b u fin =
     (case line_spec b u fin of
        Inl e \<Rightarrow> if e = [EOF] \<and> \<not> event_IsEmpty cur then Inr (cur, []) else Inl e
      | Inr (line, b', rest) \<Rightarrow>
          if line = [] then (if event_IsEmpty cur then decode_spec cur b' rest fin else Inr (cur, rest))
          else decode_spec (parseLine line cur) b' rest fin)"
  by pat_completeness auto
termination
  by (relation "measure (\<lambda>(cur, b, u, fin). length u)") (auto simp: line_spec_shorter)

declare decode_spec.simps [simp del]

text \<open>The next event of a text.\<close>

definition next_event :: "string \<Rightarrow> goError \<Rightarrow> goError + sseEvent \<times> string" where
  "next_event u fin = decode_spec emptyEvent 0 u fin"

subsection \<open>The decoder refines the specification\<close>

lemma upto_byte_skip: "c \<notin> set x \<Longrightarrow> upto_byte c (x @ y) = map_option (\<lambda>(a, b). (x @ a, b)) (upto_byte c y)"
  by (auto simp: upto_byte_def takeWhile_append dropWhile_append takeWhile_eq_all_conv dropWhile_eq_Nil_conv)

lemma trim_line_no_LF: "LF \<notin> set s \<Longrightarrow> trim_line s = s"
  by (auto simp: trim_line_def trim_suffix_def suffix_def)

lemma line_spec_found:
  "upto_byte LF u = Some (l, rest) \<Longrightarrow> line_spec b u fin =
     (if b + length l > MaxEventSize then Inl ErrEventTooLarge else Inr (trim_line l, b + length l, rest))"
  by (simp add: line_spec_def)

lemma line_spec_last:
  "LF \<notin> set u \<Longrightarrow> line_spec b u fin =
     (if b + length u > MaxEventSize then Inl ErrEventTooLarge
      else if fin \<noteq> [EOF] then Inl (Wrapped ''read SSE line'' # fin)
      else if u = [] then Inl [EOF] else Inr (u, b + length u, []))"
  by (simp add: line_spec_def upto_byte_def)

lemma line_spec_large:
  "LF \<notin> set x \<Longrightarrow> b + length x > MaxEventSize \<Longrightarrow> line_spec b (x @ y) fin = Inl ErrEventTooLarge"
  by (cases "upto_byte LF y") (auto simp: line_spec_def upto_byte_skip)

definition decoder_ok :: "('s \<Rightarrow> bool) \<Rightarrow> ('s \<Rightarrow> string) \<Rightarrow> ('s \<Rightarrow> goError) \<Rightarrow> 's decoder \<Rightarrow> bool" where
  "decoder_ok ok pending ending d \<longleftrightarrow> reader_ok ok pending ending (dreader d)"

definition text_left :: "('s \<Rightarrow> string) \<Rightarrow> 's decoder \<Rightarrow> string" where
  "text_left pending d = unread pending (dreader d)"

context byte_source
begin

lemma readLine_loop_refines:
  assumes "decoder_ok ok pending ending d" "readLine_loop rd buf d = (res, d')"
    and "LF \<notin> set buf" "length buf \<le> bytesRead d" "bytesRead d \<le> MaxEventSize"
  shows "decoder_ok ok pending ending d' \<and> ending (rsrc (dreader d')) = ending (rsrc (dreader d)) \<and> dcurrent d' = dcurrent d
    \<and> (case line_spec (bytesRead d - length buf) (buf @ text_left pending d) (ending (rsrc (dreader d))) of
         Inl e \<Rightarrow> res = Inl e \<and> (e = [EOF] \<longrightarrow> text_left pending d' = [])
       | Inr (line, b, rest) \<Rightarrow> res = Inr line \<and> bytesRead d' = b \<and> text_left pending d' = rest)"
  using assms
proof (induction "MaxEventSize - bytesRead d" arbitrary: buf d rule: less_induct)
  case less
  obtain frag fin r where slice: "ReadSlice rd LF (dreader d) = ((frag, fin), r)" by (metis surj_pair)
  let ?u = "unread pending (dreader d)" and ?stop = "ending (rsrc (dreader d))"
  have step: "reader_ok ok pending ending r" "ending (rsrc r) = ?stop" "?u = frag @ unread pending r"
    using ReadSlice_step [OF less.prems(1) [unfolded decoder_ok_def] slice] by auto
  note fin_step = ReadSlice_step [OF less.prems(1) [unfolded decoder_ok_def] slice, THEN conjunct2, THEN conjunct2, THEN conjunct2]
  let ?b = "bytesRead d - length buf"
  let ?d = "d\<lparr>dreader := r, bytesRead := bytesRead d + length frag\<rparr>"
  note buf = less.prems(3-5)
  have txt_eq: "buf @ text_left pending d = (buf @ frag) @ unread pending r" using step(3) by (simp add: text_left_def)
  have loop: "readLine_loop rd buf d = (if bytesRead d + length frag > MaxEventSize then (Inl ErrEventTooLarge, d\<lparr>dreader := r\<rparr>)
      else case fin of
          SliceFull \<Rightarrow> readLine_loop rd (buf @ frag) ?d
        | SliceFound \<Rightarrow> (Inr (trim_line (buf @ frag)), ?d)
        | SliceErr e \<Rightarrow> if e \<noteq> [EOF] then (Inl (Wrapped ''read SSE line'' # e), ?d)
            else if trim_line (buf @ frag) = [] then (Inl [EOF], ?d) else (Inr (trim_line (buf @ frag)), ?d))"
    using slice by (simp add: readLine_loop.simps [of rd buf d] Let_def)
  show ?case
  proof (cases "bytesRead d + length frag > MaxEventSize")
    case big: True
    then have res: "res = Inl ErrEventTooLarge" "d' = d\<lparr>dreader := r\<rparr>" using loop less.prems(2) by simp_all
    have "line_spec ?b (buf @ text_left pending d) ?stop = Inl ErrEventTooLarge"
    proof (cases fin)
      case SliceFound
      then have "upto_byte LF (buf @ ?u) = Some (buf @ frag, unread pending r)"
        using fin_step upto_byte_skip [OF buf(1)] by simp
      then show ?thesis using big buf(2) by (simp add: line_spec_found text_left_def)
    next
      case SliceFull
      then show ?thesis unfolding txt_eq using fin_step big buf by (intro line_spec_large) auto
    next
      case (SliceErr e)
      then show ?thesis unfolding txt_eq using fin_step big buf by (intro line_spec_large) auto
    qed
    then show ?thesis using res step by (simp add: decoder_ok_def ErrEventTooLarge_def)
  next
    case fits: False
    show ?thesis
    proof (cases fin)
      case SliceFound
      then have found: "upto_byte LF (buf @ ?u) = Some (buf @ frag, unread pending r)"
        using fin_step upto_byte_skip [OF buf(1)] by simp
      have res: "res = Inr (trim_line (buf @ frag))" "d' = ?d" using loop less.prems(2) fits SliceFound by simp_all
      show ?thesis using found res fits buf(2) step by (simp add: line_spec_found text_left_def decoder_ok_def)
    next
      case SliceFull
      have again: "readLine_loop rd (buf @ frag) ?d = (res, d')" using loop less.prems(2) fits SliceFull by simp
      have frag: "LF \<notin> set frag" "frag \<noteq> []" using fin_step SliceFull by simp_all
      have small: "MaxEventSize - bytesRead ?d < MaxEventSize - bytesRead d"
        using budget_step [OF frag(2) fits] by simp
      have "decoder_ok ok pending ending ?d" using step by (simp add: decoder_ok_def)
      from less.hyps [OF small this again] show ?thesis
        using frag(1) buf fits step by (simp add: text_left_def add.commute)
    next
      case (SliceErr e)
      then have e: "LF \<notin> set (buf @ frag)" "unread pending r = []" "e = ?stop" using fin_step buf(1) by simp_all
      have same: "trim_line (buf @ frag) = buf @ frag" using e(1) by (rule trim_line_no_LF)
      have res: "(res, d') = (if e \<noteq> [EOF] then (Inl (Wrapped ''read SSE line'' # e), ?d)
            else if buf @ frag = [] then (Inl [EOF], ?d) else (Inr (buf @ frag), ?d))"
        using loop less.prems(2) fits SliceErr same by simp
      have spec: "line_spec ?b (buf @ text_left pending d) ?stop = line_spec ?b (buf @ frag) e" using txt_eq e by simp
      show ?thesis unfolding spec line_spec_last [OF e(1)]
        using res e step fits buf(2) by (auto simp: decoder_ok_def text_left_def split: if_splits)
    qed
  qed
qed

lemmas readLine_refines = readLine_loop_refines [where buf = "[]", folded readLine_def, simplified]

lemma decode_loop_refines:
  assumes "decoder_ok ok pending ending d" "decode_loop rd d = (res, d')" "bytesRead d \<le> MaxEventSize"
  shows "decoder_ok ok pending ending d' \<and> ending (rsrc (dreader d')) = ending (rsrc (dreader d))
    \<and> (case decode_spec (dcurrent d) (bytesRead d) (text_left pending d) (ending (rsrc (dreader d))) of
         Inl e \<Rightarrow> res = Inl e
       | Inr (ev, rest) \<Rightarrow> res = Inr ev \<and> text_left pending d' = rest)"
  using assms
proof (induction "MaxEventSize - bytesRead d" arbitrary: d rule: less_induct)
  case less
  let ?fin = "ending (rsrc (dreader d))"
  obtain x d1 where line: "readLine rd d = (x, d1)" by (meson surj_pair)
  have step: "decoder_ok ok pending ending d1" "ending (rsrc (dreader d1)) = ?fin" "dcurrent d1 = dcurrent d"
    "case line_spec (bytesRead d) (text_left pending d) ?fin of
         Inl e \<Rightarrow> x = Inl e \<and> (e = [EOF] \<longrightarrow> text_left pending d1 = [])
       | Inr (line, b, rest) \<Rightarrow> x = Inr line \<and> bytesRead d1 = b \<and> text_left pending d1 = rest"
    using readLine_refines [OF less.prems(1) line less.prems(3)] by simp_all
  show ?case
  proof (cases "line_spec (bytesRead d) (text_left pending d) ?fin")
    case (Inl e)
    then show ?thesis
      using step line less.prems(2)
      by (auto simp: decode_loop.simps [of rd d] decode_spec.simps [of "dcurrent d"] split: if_splits)
  next
    case (Inr y)
    obtain l b rest where y: "y = (l, b, rest)" by (cases y)
    have bounds: "bytesRead d < b" "b \<le> MaxEventSize" using line_spec_shorter Inr y by blast+
    have d1: "x = Inr l" "bytesRead d1 = b" "text_left pending d1 = rest" using step(4) Inr y by simp_all
    have IH: "decode_loop rd d2 = (res, d') \<Longrightarrow> bytesRead d2 = b \<Longrightarrow> dreader d2 = dreader d1 \<Longrightarrow>
        decoder_ok ok pending ending d' \<and> ending (rsrc (dreader d')) = ?fin
        \<and> (case decode_spec (dcurrent d2) b rest ?fin of
             Inl e \<Rightarrow> res = Inl e
           | Inr (ev, rest) \<Rightarrow> res = Inr ev \<and> text_left pending d' = rest)" for d2
      using less.hyps [of d2] bounds step(1,2) d1(3) by (simp add: decoder_ok_def text_left_def)
    show ?thesis
    proof (cases "l = []")
      case True
      then show ?thesis
        using IH [of d1] line d1 step bounds less.prems(2) Inr y
        by (auto simp: decode_loop.simps [of rd d] decode_spec.simps [of "dcurrent d"] decoder_ok_def text_left_def split: if_splits)
    next
      case False
      then show ?thesis
        using IH [of "d1\<lparr>dcurrent := parseLine l (dcurrent d1)\<rparr>"] line d1 step bounds less.prems(2) Inr y
        by (auto simp: decode_loop.simps [of rd d] decode_spec.simps [of "dcurrent d"])
    qed
  qed
qed

lemma Decode_refines:
  assumes "decoder_ok ok pending ending d" "Decode rd d = (res, d')"
  shows "decoder_ok ok pending ending d' \<and> ending (rsrc (dreader d')) = ending (rsrc (dreader d))
    \<and> (case next_event (text_left pending d) (ending (rsrc (dreader d))) of
         Inl e \<Rightarrow> res = Inl e
       | Inr (ev, rest) \<Rightarrow> res = Inr ev \<and> text_left pending d' = rest)"
  using decode_loop_refines [of "d\<lparr>dcurrent := emptyEvent, bytesRead := 0\<rparr>" res d'] assms
  by (simp add: Decode_def next_event_def decoder_ok_def text_left_def)

end

subsection \<open>Whole streams\<close>

text \<open>Decoding up to \<open>k\<close> events, as a consumer that stops at the first error does; and the same on a
  text.\<close>

fun decode_many :: "nat \<Rightarrow> chunkSource decoder \<Rightarrow> (goError + sseEvent) list" where
  "decode_many 0 d = []"
| "decode_many (Suc k) d =
     (case Decode read_chunk d of (Inl e, d') \<Rightarrow> [Inl e] | (Inr ev, d') \<Rightarrow> Inr ev # decode_many k d')"

fun events_of :: "nat \<Rightarrow> string \<Rightarrow> goError \<Rightarrow> (goError + sseEvent) list" where
  "events_of 0 u fin = []"
| "events_of (Suc k) u fin =
     (case next_event u fin of Inl e \<Rightarrow> [Inl e] | Inr (ev, rest) \<Rightarrow> Inr ev # events_of k rest fin)"

lemma decode_many_events:
  "decoder_ok chunk_ok chunk_text chunkEnd d \<Longrightarrow>
   decode_many k d = events_of k (text_left chunk_text d) (chunkEnd (rsrc (dreader d)))"
proof (induction k arbitrary: d)
  case (Suc k)
  obtain res d' where dec: "Decode read_chunk d = (res, d')" by (meson surj_pair)
  note step = body.Decode_refines [OF Suc.prems dec]
  show ?case
    using step dec Suc.IH [of d']
    by (cases "next_event (text_left chunk_text d) (chunkEnd (rsrc (dreader d)))") (auto split: prod.splits)
qed simp

lemma new_decoder:
  "chunk_ok s \<Longrightarrow> decoder_ok chunk_ok chunk_text chunkEnd (NewDecoder s)"
  "text_left chunk_text (NewDecoder s) = chunk_text s" "chunkEnd (rsrc (dreader (NewDecoder s))) = chunkEnd s"
  by (simp_all add: decoder_ok_def NewDecoder_def reader_ok_def NewReader_def text_left_def unread_def)

subsection \<open>Reading back what was encoded\<close>

text \<open>The lines of an encoded event, and the event a decoder makes of them: a data value becomes one
  value per line of it.\<close>

definition data_lines :: "string \<Rightarrow> string list" where
  "data_lines d = split_at (\<lambda>c. c = LF) (normalize_newlines d)"

definition encode_lines :: "sseEvent \<Rightarrow> string list" where
  "encode_lines e =
     map (\<lambda>c. CHR '':'' # c) (evComments e)
     @ (if evEvent e \<noteq> [] then [''event: '' @ evEvent e] else [])
     @ (if evID e \<noteq> [] then [''id: '' @ evID e] else [])
     @ (if evRetry e \<noteq> [] then [''retry: '' @ evRetry e] else [])
     @ map (\<lambda>p. ''data: '' @ p) (concat (map data_lines (evData e)))"

definition sent :: "sseEvent \<Rightarrow> sseEvent" where
  "sent e = e\<lparr>evData := concat (map data_lines (evData e))\<rparr>"

text \<open>A value that fits on one line: no line feed, and no carriage return at its end.\<close>

definition one_line :: "string \<Rightarrow> bool" where
  "one_line s \<longleftrightarrow> LF \<notin> set s \<and> (s = [] \<or> last s \<noteq> CR)"

definition clean_event :: "sseEvent \<Rightarrow> bool" where
  "clean_event e \<longleftrightarrow> \<not> event_IsEmpty e \<and> one_line (evEvent e) \<and> one_line (evID e) \<and> one_line (evRetry e)
     \<and> (\<forall>c \<in> set (evComments e). one_line c) \<and> length (Encode e) \<le> MaxEventSize"

lemma split_at_id: "\<forall>c \<in> set s. \<not> p c \<Longrightarrow> split_at p s = [s]"
  by (induction s) auto

lemma set_replace_crlf: "set (replace_crlf s) \<subseteq> insert LF (set s)"
  by (induction s rule: replace_crlf.induct) auto

lemma replace_crlf_id: "CR \<notin> set s \<Longrightarrow> replace_crlf s = s"
  by (induction s rule: replace_crlf.induct) auto

lemma set_normalize: "CR \<notin> set (normalize_newlines s)"
  by (auto simp: normalize_newlines_def)

lemma CR_in_replace: "CR \<in> set s \<Longrightarrow> CR \<in> set (replace_crlf s) \<or> LF \<in> set (replace_crlf s)"
  by (induction s rule: replace_crlf.induct) auto

lemma LF_in_replace: "LF \<in> set s \<Longrightarrow> LF \<in> set (replace_crlf s)"
  by (induction s rule: replace_crlf.induct) auto

lemma normalize_single: "LF \<notin> set (normalize_newlines s) \<Longrightarrow> normalize_newlines s = s"
proof -
  assume a: "LF \<notin> set (normalize_newlines s)"
  then have none: "CR \<notin> set (replace_crlf s)" "LF \<notin> set (replace_crlf s)"
    by (auto simp: normalize_newlines_def image_iff)
  then have "CR \<notin> set s" using CR_in_replace by blast
  then show ?thesis using none(1) by (auto simp: normalize_newlines_def replace_crlf_id intro!: map_idI)
qed

lemma data_line_clean: "l \<in> set (data_lines d) \<Longrightarrow> LF \<notin> set l \<and> CR \<notin> set l"
  using set_split_at [of l "\<lambda>c. c = LF" "normalize_newlines d"] set_normalize [of d] by (auto simp: data_lines_def)

lemma encode_data_lines: "encode_data d = concat (map (\<lambda>p. (''data: '' @ p) @ [LF]) (data_lines d))"
proof (cases "LF \<in> set (normalize_newlines d)")
  case True
  then show ?thesis by (simp add: encode_data_def data_lines_def field_line_def [abs_def])
next
  case False
  then have "data_lines d = [d]" using normalize_single [OF False] split_at_id [of "normalize_newlines d" "\<lambda>c. c = LF"]
    by (auto simp: data_lines_def)
  then show ?thesis using False by (simp add: encode_data_def field_line_def)
qed

lemma Encode_lines: "Encode e = concat (map (\<lambda>l. l @ [LF]) (encode_lines e)) @ [LF]"
proof -
  have "concat (map encode_data ds) = concat (map (\<lambda>l. l @ [LF]) (map (\<lambda>p. ''data: '' @ p) (concat (map data_lines ds))))" for ds
    by (induction ds) (simp_all add: encode_data_lines comp_def)
  then show ?thesis
    by (simp add: Encode_def encode_lines_def field_line_def comp_def)
qed

lemma decode_spec_line:
  assumes "l \<noteq> []" "one_line l" "b + length l + 1 \<le> MaxEventSize"
  shows "decode_spec cur b (l @ LF # u) fin = decode_spec (parseLine l cur) (b + length l + 1) u fin"
proof -
  have "\<not> suffix [CR, LF] (l @ [LF])" using assms(1,2) by (auto simp: one_line_def suffix_def)
  then have trim: "trim_line (l @ [LF]) = l" by (simp add: trim_line_def trim_suffix_def)
  have "upto_byte LF (l @ LF # u) = Some (l @ [LF], u)" using assms(2) upto_byte_first by (simp add: one_line_def)
  then have "line_spec b (l @ LF # u) fin = Inr (l, b + length l + 1, u)" using assms(3) trim by (simp add: line_spec_found)
  then show ?thesis using assms(1) by (simp add: decode_spec.simps [of cur b])
qed

lemma decode_spec_blank:
  assumes "\<not> event_IsEmpty cur" "b + 1 \<le> MaxEventSize"
  shows "decode_spec cur b (LF # u) fin = Inr (cur, u)"
proof -
  have "upto_byte LF (LF # u) = Some ([LF], u)" using upto_byte_first [of LF "[]" u] by simp
  then have "line_spec b (LF # u) fin = Inr ([], b + 1, u)"
    using assms(2) by (simp add: line_spec_found trim_line_def trim_suffix_def suffix_def)
  then show ?thesis using assms(1) by (simp add: decode_spec.simps [of cur b])
qed

lemma decode_spec_lines:
  assumes "\<forall>l \<in> set ls. l \<noteq> [] \<and> one_line l" "\<not> event_IsEmpty (fold parseLine ls cur)"
    and "b + length (concat (map (\<lambda>l. l @ [LF]) ls)) + 1 \<le> MaxEventSize"
  shows "decode_spec cur b (concat (map (\<lambda>l. l @ [LF]) ls) @ LF # rest) fin = Inr (fold parseLine ls cur, rest)"
  using assms
proof (induction ls arbitrary: cur b)
  case Nil
  then show ?case by (simp add: decode_spec_blank)
next
  case (Cons l ls)
  let ?tail = "concat (map (\<lambda>l. l @ [LF]) ls) @ LF # rest"
  have "decode_spec cur b (l @ LF # ?tail) fin = decode_spec (parseLine l cur) (b + length l + 1) ?tail fin"
    using Cons.prems by (intro decode_spec_line) simp_all
  then show ?case using Cons.IH [of "parseLine l cur" "b + length l + 1"] Cons.prems by simp
qed

lemma parse_fields:
  "parseLine (CHR '':'' # c) e = e\<lparr>evComments := evComments e @ [c]\<rparr>"
  "parseLine (''event: '' @ v) e = e\<lparr>evEvent := v\<rparr>"
  "parseLine (''id: '' @ v) e = e\<lparr>evID := v\<rparr>"
  "parseLine (''retry: '' @ v) e = e\<lparr>evRetry := v\<rparr>"
  "parseLine (''data: '' @ v) e = e\<lparr>evData := evData e @ [v]\<rparr>"
  by (simp_all add: parseLine_def cut_at_def)

lemma parse_comments:
  "fold parseLine (map (\<lambda>c. CHR '':'' # c) cs) e = e\<lparr>evComments := evComments e @ cs\<rparr>"
  by (induction cs arbitrary: e) (simp_all add: parse_fields)

lemma parse_data: "fold parseLine (map (\<lambda>p. ''data: '' @ p) ps) e = e\<lparr>evData := evData e @ ps\<rparr>"
proof (induction ps arbitrary: e)
  case (Cons p ps)
  have "fold parseLine (map (\<lambda>p. ''data: '' @ p) (p # ps)) e
      = fold parseLine (map (\<lambda>p. ''data: '' @ p) ps) (parseLine (''data: '' @ p) e)" by (simp only: list.map fold_simps)
  then show ?case using Cons.IH [of "e\<lparr>evData := evData e @ [p]\<rparr>"] unfolding parse_fields by simp
qed simp

lemma parse_optional:
  "fold parseLine (if v \<noteq> [] then [''event: '' @ v] else []) e = (if v \<noteq> [] then e\<lparr>evEvent := v\<rparr> else e)"
  "fold parseLine (if v \<noteq> [] then [''id: '' @ v] else []) e = (if v \<noteq> [] then e\<lparr>evID := v\<rparr> else e)"
  "fold parseLine (if v \<noteq> [] then [''retry: '' @ v] else []) e = (if v \<noteq> [] then e\<lparr>evRetry := v\<rparr> else e)"
  using parse_fields by simp_all

lemma parse_encoded: "fold parseLine (encode_lines e) emptyEvent = sent e"
  unfolding encode_lines_def fold_append comp_def parse_comments parse_optional parse_data
  by (cases e) (simp add: sent_def emptyEvent_def)

lemma data_lines_nonempty: "data_lines d \<noteq> []"
  by (simp add: data_lines_def)

lemma sent_nonempty: "\<not> event_IsEmpty e \<Longrightarrow> \<not> event_IsEmpty (sent e)"
  using data_lines_nonempty by (auto simp: event_IsEmpty_def sent_def)

lemma encode_lines_clean:
  assumes "clean_event e" "l \<in> set (encode_lines e)"
  shows "l \<noteq> [] \<and> one_line l"
proof -
  have part: "one_line (''data: '' @ p)" if "p \<in> set (data_lines d)" for p d
  proof -
    have "p = [] \<or> last p \<noteq> CR" using data_line_clean [OF that] last_in_set by metis
    then show ?thesis using data_line_clean [OF that] by (auto simp: one_line_def)
  qed
  have pre: "one_line v \<Longrightarrow> one_line (''event: '' @ v)" "one_line v \<Longrightarrow> one_line (''id: '' @ v)"
    "one_line v \<Longrightarrow> one_line (''retry: '' @ v)" "one_line v \<Longrightarrow> one_line (CHR '':'' # v)" for v
    by (auto simp: one_line_def)
  show ?thesis
    using assms part pre by (fastforce simp: encode_lines_def clean_event_def split: if_splits)
qed

text \<open>One encoded event at the front of a text is decoded back, and the rest of the text is left.\<close>

lemma next_event_encoded:
  assumes "clean_event e"
  shows "next_event (Encode e @ rest) fin = Inr (sent e, rest)"
proof -
  have "decode_spec emptyEvent 0 (concat (map (\<lambda>l. l @ [LF]) (encode_lines e)) @ LF # rest) fin
      = Inr (fold parseLine (encode_lines e) emptyEvent, rest)"
    using encode_lines_clean [OF assms] assms sent_nonempty parse_encoded
    by (intro decode_spec_lines) (auto simp: clean_event_def Encode_lines)
  then show ?thesis by (simp add: next_event_def Encode_lines parse_encoded)
qed

lemma next_event_end: "next_event [] [EOF] = Inl [EOF]"
proof -
  have "event_IsEmpty emptyEvent" by (simp add: emptyEvent_def event_IsEmpty_def)
  then show ?thesis by (simp add: next_event_def decode_spec.simps [of emptyEvent 0] line_spec_last)
qed

lemma events_of_encoded:
  "\<forall>e \<in> set es. clean_event e \<Longrightarrow>
   events_of (Suc (length es)) (concat (map Encode es)) [EOF] = map (\<lambda>e. Inr (sent e)) es @ [Inl [EOF]]"
proof (induction es)
  case Nil
  then show ?case by (simp add: next_event_end)
next
  case (Cons e es)
  then show ?case using next_event_encoded [of e "concat (map Encode es)" "[EOF]"] by simp
qed

text \<open>C11: Decoding depends on the bytes of a stream, not on how the network cuts them. Two bodies with
  the same text and the same end give the same sequence of events and errors, for any chunks of any
  size, although the decoder reads through a 4096-byte buffer line by line; and that sequence is the
  one the specification reads off the text.\<close>

theorem sse_chunking_irrelevant:
  assumes "chunk_ok s" "chunk_ok t" "chunk_text s = chunk_text t" "chunkEnd s = chunkEnd t"
  shows "decode_many k (NewDecoder s) = decode_many k (NewDecoder t)
    \<and> decode_many k (NewDecoder s) = events_of k (chunk_text s) (chunkEnd s)"
  using decode_many_events [OF new_decoder(1) [OF assms(1)], of k] decode_many_events [OF new_decoder(1) [OF assms(2)], of k]
    assms by (simp add: new_decoder)

text \<open>C12: Encoding and decoding of streams. The encodings of any events, delivered in any chunks, are
  decoded to those events in order, then the end of the stream, where a data value is split at its
  line breaks into several: no data value can inject a field or end its event early. It is required
  that the other fields and the comments are single lines and that no event is empty or larger than
  4 MiB when encoded.\<close>

theorem sse_roundtrip:
  assumes "\<forall>e \<in> set es. clean_event e" "chunk_ok s" "chunk_text s = concat (map Encode es)" "chunkEnd s = [EOF]"
  shows "decode_many (Suc (length es)) (NewDecoder s)
    = map (\<lambda>e. Inr (e\<lparr>evData := concat (map data_lines (evData e))\<rparr>)) es @ [Inl [EOF]]"
  using decode_many_events [OF new_decoder(1) [OF assms(2)], of "Suc (length es)"] events_of_encoded [OF assms(1)]
    assms(3,4) by (simp only: new_decoder sent_def)

subsection \<open>Witnesses\<close>

definition sample_sse :: sseEvent where
  "sample_sse = emptyEvent\<lparr>evData := [''a'' @ [CR, LF] @ ''event: b'']\<rparr>"

lemma sample_sse_clean: "clean_event sample_sse"
  by (simp add: clean_event_def sample_sse_def emptyEvent_def event_IsEmpty_def one_line_def Encode_def encode_data_def
      normalize_newlines_def field_line_def MaxEventSize_def)

theorem sse_chunking_irrelevant_witness:
  "decode_many 2 (NewDecoder \<lparr>chunks = [''data: x'', [LF, LF]], chunkEnd = [EOF]\<rparr>)
    = decode_many 2 (NewDecoder \<lparr>chunks = [''data: '', ''x'' @ [LF, LF]], chunkEnd = [EOF]\<rparr>)"
  by (rule sse_chunking_irrelevant [THEN conjunct1]) (simp_all add: chunk_ok_def chunk_text_def)

theorem sse_roundtrip_witness:
  "decode_many 2 (NewDecoder \<lparr>chunks = [Encode sample_sse], chunkEnd = [EOF]\<rparr>)
    = [Inr (emptyEvent\<lparr>evData := [''a'', ''event: b'']\<rparr>), Inl [EOF]]"
proof -
  have "decode_many (Suc (length [sample_sse])) (NewDecoder \<lparr>chunks = [Encode sample_sse], chunkEnd = [EOF]\<rparr>)
    = map (\<lambda>e. Inr (e\<lparr>evData := concat (map data_lines (evData e))\<rparr>)) [sample_sse] @ [Inl [EOF]]"
    by (rule sse_roundtrip) (use sample_sse_clean in \<open>simp_all add: chunk_ok_def chunk_text_def Encode_def\<close>)
  then show ?thesis
    by (simp add: sample_sse_def data_lines_def normalize_newlines_def numeral_2_eq_2)
qed

end
