(* ===== verification/Sse_Prime.thy ===== *)
theory Sse_Prime
  imports Sse_Stream
begin

text \<open>
  \<open>internal/sse/prime.go\<close>: waiting for the first acceptable event of a streaming response before the
  attempt counts as accepted, and replaying the bytes read meanwhile. A body is a chunk source; the
  cancellation that closes it is one of the ways it can end, and \<open>ctxErr\<close> is what the context reports
  when the decoder fails. The decision function may keep a state of its own.
\<close>

definition MaxCaptureBytes :: nat where "MaxCaptureBytes = MaxEventSize"

record captureReader =
  capBody :: chunkSource
  captured :: string

definition read_capture :: "captureReader reader" where
  "read_capture n s =
     (case read_chunk n (capBody s) of
        ((c, e), b) \<Rightarrow>
          if c \<noteq> [] then
            if length (captured s) + length c > MaxCaptureBytes then ((c, ErrEventTooLarge), s\<lparr>capBody := b\<rparr>)
            else ((c, e), s\<lparr>capBody := b, captured := captured s @ c\<rparr>)
          else ((c, e), s\<lparr>capBody := b\<rparr>))"

definition capture_size :: "captureReader \<Rightarrow> nat" where
  "capture_size s = length (chunk_text (capBody s))"

lemma read_chunk_text:
  "read_chunk n b = ((c, e), b') \<Longrightarrow> chunk_text b = c @ chunk_text b' \<and> chunkEnd b' = chunkEnd b"
  by (auto simp: read_chunk_def chunk_text_def split: list.splits if_splits)

lemma read_capture_conserving: "conserving read_capture capture_size"
  unfolding conserving_def
proof (intro allI)
  fix n and s :: captureReader
  obtain c e b where rd: "read_chunk n (capBody s) = ((c, e), b)" by (metis surj_pair)
  show "capture_size s = length (fst (fst (read_capture n s))) + capture_size (snd (read_capture n s))"
    using read_chunk_text [OF rd] rd by (simp add: read_capture_def capture_size_def)
qed

lemma capture_shrinks:
  "Decode read_capture d = (Inr ev, d1) \<Longrightarrow> left capture_size (dreader d1) < left capture_size (dreader d)"
  using Decode_left(2) [OF read_capture_conserving, of d "Inr ev" d1 ev] by simp

record streamResponse =
  respBody :: "chunkSource option"
  respMarker :: bool
  semanticRequired :: bool

function prime_loop ::
  "('a \<Rightarrow> sseEvent \<Rightarrow> (bool \<times> goError) \<times> 'a) \<Rightarrow> goError \<Rightarrow> 'a \<Rightarrow> captureReader decoder
    \<Rightarrow> goError \<times> captureReader" where
  "prime_loop accept ctxErr a d =
     (case Decode read_capture d of
        (Inl err, d1) \<Rightarrow>
          (if errors_is err (hd ErrEventTooLarge) then ErrEventTooLarge
           else if ctxErr \<noteq> nil_error then ctxErr
           else if err = [EOF] then [ErrUnexpectedEOF] else err, rsrc (dreader d1))
      | (Inr event, d1) \<Rightarrow>
          (case accept a event of
             ((accepted, acceptErr), a') \<Rightarrow>
               if acceptErr \<noteq> nil_error then (acceptErr, rsrc (dreader d1))
               else if accepted then (nil_error, rsrc (dreader d1))
               else prime_loop accept ctxErr a' d1))"
  by pat_completeness auto
termination
  by (relation "measure (\<lambda>(accept, ctxErr, a, d). left capture_size (dreader d))")
    (auto dest!: capture_shrinks [OF sym])

declare prime_loop.simps [simp del]

text \<open>The decoder may already have read beyond the accepted event: the bytes captured so far go in
  front of what the body still holds.\<close>

definition PrimeUntil ::
  "('a \<Rightarrow> sseEvent \<Rightarrow> (bool \<times> goError) \<times> 'a) \<Rightarrow> goError \<Rightarrow> 'a \<Rightarrow> streamResponse option
    \<Rightarrow> goError \<times> streamResponse option" where
  "PrimeUntil accept ctxErr a response =
     (case response of
        None \<Rightarrow> ([ErrUnexpectedEOF], None)
      | Some r \<Rightarrow>
          (case respBody r of
             None \<Rightarrow> ([ErrUnexpectedEOF], Some r)
           | Some body \<Rightarrow>
               let r1 = (if respMarker r then r\<lparr>semanticRequired := True\<rparr> else r)
               in case prime_loop accept ctxErr a (NewDecoder \<lparr>capBody = body, captured = []\<rparr>) of
                    (err, s) \<Rightarrow>
                      if err = nil_error then
                        (nil_error, Some (r1\<lparr>respBody :=
                           Some \<lparr>chunks = captured s # chunks (capBody s), chunkEnd = chunkEnd (capBody s)\<rparr>\<rparr>))
                      else (err, Some (r1\<lparr>respBody := Some (capBody s)\<rparr>))))"

definition Prime :: "goError \<Rightarrow> streamResponse option \<Rightarrow> goError \<times> streamResponse option" where
  "Prime ctxErr response = PrimeUntil (\<lambda>_ event. ((evData event \<noteq> [], nil_error), ())) ctxErr () response"

subsection \<open>What is captured\<close>

text \<open>The bytes consumed from the body so far; they are all captured unless they are too many.\<close>

definition capture_inv :: "chunkSource \<Rightarrow> captureReader \<Rightarrow> bool" where
  "capture_inv b0 s \<longleftrightarrow> chunkEnd (capBody s) = chunkEnd b0
     \<and> (\<exists>consumed. chunk_text b0 = consumed @ chunk_text (capBody s) \<and> length (captured s) \<le> MaxCaptureBytes
          \<and> (length consumed \<le> MaxCaptureBytes \<longrightarrow> captured s = consumed))"

lemma capture_inv_read: "capture_inv b0 s \<Longrightarrow> capture_inv b0 (snd (read_capture n s))"
proof -
  assume "capture_inv b0 s"
  then obtain consumed where s: "chunk_text b0 = consumed @ chunk_text (capBody s)" "chunkEnd (capBody s) = chunkEnd b0"
      "length (captured s) \<le> MaxCaptureBytes" "length consumed \<le> MaxCaptureBytes \<longrightarrow> captured s = consumed"
    by (auto simp: capture_inv_def)
  obtain c e b where rd: "read_chunk n (capBody s) = ((c, e), b)" by (metis surj_pair)
  have b: "chunk_text (capBody s) = c @ chunk_text b" "chunkEnd b = chunkEnd (capBody s)" using read_chunk_text [OF rd] by auto
  have "chunk_text b0 = (consumed @ c) @ chunk_text b" using s(1) b(1) by simp
  then show ?thesis
    using s b(2) rd unfolding capture_inv_def read_capture_def
    by (intro conjI exI [of _ "consumed @ c"]) (auto split: if_splits)
qed

lemma prime_loop_captures:
  assumes "capture_inv b0 (rsrc (dreader d))" "prime_loop accept ctxErr a d = (err, s)"
  shows "capture_inv b0 s"
  using assms
proof (induction "left capture_size (dreader d)" arbitrary: a d rule: less_induct)
  case less
  obtain x d1 where dec: "Decode read_capture d = (x, d1)" by (meson surj_pair)
  have inv: "capture_inv b0 (rsrc (dreader d1))"
    using Decode_source [where I = "capture_inv b0" and rd = read_capture, OF capture_inv_read less.prems(1)] dec by simp
  show ?case
  proof (cases x)
    case (Inl e)
    then show ?thesis using less.prems(2) dec inv by (auto simp: prime_loop.simps [of accept ctxErr a d])
  next
    case (Inr ev)
    have small: "left capture_size (dreader d1) < left capture_size (dreader d)"
      using capture_shrinks dec Inr by blast
    obtain acc ae a' where "accept a ev = ((acc, ae), a')" by (metis surj_pair)
    then show ?thesis using less.prems(2) less.hyps [OF small inv, of a'] dec Inr inv
      by (auto simp: prime_loop.simps [of accept ctxErr a d] split: if_splits)
  qed
qed

subsection \<open>The outcome on bodies within the bound\<close>

text \<open>On a body that fits into the capture buffer the capturing reader is a byte source with the same
  text, so that the decoder sees exactly the events of the body.\<close>

definition capture_ok :: "captureReader \<Rightarrow> bool" where
  "capture_ok s \<longleftrightarrow> chunk_ok (capBody s) \<and> length (captured s) + length (chunk_text (capBody s)) \<le> MaxCaptureBytes"

interpretation captured: byte_source read_capture capture_ok "\<lambda>s. chunk_text (capBody s)" "\<lambda>s. chunkEnd (capBody s)"
proof
  fix s s' :: captureReader and n :: nat and c e
  assume s: "capture_ok s" "0 < n" and r: "read_capture n s = ((c, e), s')"
  obtain c0 e0 b where rd: "read_chunk n (capBody s) = ((c0, e0), b)" by (metis surj_pair)
  have ok: "chunk_ok (capBody s)" using s(1) by (simp add: capture_ok_def)
  have b: "chunk_ok b" "length c0 \<le> n" "chunk_text (capBody s) = c0 @ chunk_text b" "chunkEnd b = chunkEnd (capBody s)"
    using body.read_step [OF ok s(2) rd] by auto
  have fits: "\<not> length (captured s) + length c0 > MaxCaptureBytes" using s(1) b(3) by (simp add: capture_ok_def)
  have s': "c = c0" "e = e0" "capBody s' = b" "captured s' = captured s @ c0"
    using r rd fits by (auto simp: read_capture_def split: if_splits)
  show "capture_ok s' \<and> length c \<le> n \<and> chunk_text (capBody s) = c @ chunk_text (capBody s') \<and> chunkEnd (capBody s') = chunkEnd (capBody s)"
    using s' b s(1) by (simp add: capture_ok_def)
  show "e = chunkEnd (capBody s) \<and> chunk_text (capBody s') = []" if "e \<noteq> nil_error"
    using body.read_error [OF ok s(2) rd] that s' by simp
  show "c \<noteq> []" if "e = nil_error" using body.read_progress [OF ok s(2) rd] that s' by simp
next
  show "capture_ok s \<Longrightarrow> chunkEnd (capBody s) \<noteq> nil_error" for s by (simp add: capture_ok_def chunk_ok_def)
qed

lemma decode_spec_shorter:
  "decode_spec cur b u fin = Inr (ev, rest) \<Longrightarrow> length rest \<le> length u \<and> (event_IsEmpty cur \<longrightarrow> length rest < length u)"
proof (induction cur b u fin rule: decode_spec.induct)
  case (1 cur b u fin)
  show ?case
  proof (cases "line_spec b u fin")
    case (Inl e)
    then show ?thesis using "1.prems" by (auto simp: decode_spec.simps [of cur b u fin] split: if_splits)
  next
    case (Inr y)
    obtain l b' r where y: "y = (l, b', r)" by (cases y)
    have "length r < length u" using line_spec_shorter Inr y by blast
    then show ?thesis
      using "1.prems" "1.IH"(1) [OF Inr y [symmetric] refl] "1.IH"(2) [OF Inr y [symmetric] refl] Inr y
      by (fastforce simp: decode_spec.simps [of cur b u fin] split: if_splits)
  qed
qed

lemma next_event_shorter: "next_event u fin = Inr (ev, rest) \<Longrightarrow> length rest < length u"
  using decode_spec_shorter [of emptyEvent 0 u fin ev rest] by (simp add: next_event_def emptyEvent_def event_IsEmpty_def)

text \<open>The error that comes before the first event with data, if any does.\<close>

function error_before_data :: "string \<Rightarrow> goError \<Rightarrow> goError option" where
  "error_before_data u fin =
     (case next_event u fin of
        Inl e \<Rightarrow> Some e
      | Inr (ev, rest) \<Rightarrow> if evData ev \<noteq> [] then None else error_before_data rest fin)"
  by pat_completeness auto
termination
  by (relation "measure (\<lambda>(u, fin). length u)") (auto simp: next_event_shorter)

declare error_before_data.simps [simp del]

abbreviation prime_accept :: "unit \<Rightarrow> sseEvent \<Rightarrow> (bool \<times> goError) \<times> unit" where
  "prime_accept \<equiv> \<lambda>_ event. ((evData event \<noteq> [], nil_error), ())"

definition prime_error :: "goError \<Rightarrow> goError" where
  "prime_error e = (if errors_is e (hd ErrEventTooLarge) then ErrEventTooLarge else if e = [EOF] then [ErrUnexpectedEOF] else e)"

lemma prime_loop_outcome:
  assumes "decoder_ok capture_ok (\<lambda>s. chunk_text (capBody s)) (\<lambda>s. chunkEnd (capBody s)) d"
  shows "fst (prime_loop prime_accept nil_error () d)
    = (case error_before_data (text_left (\<lambda>s. chunk_text (capBody s)) d) (chunkEnd (capBody (rsrc (dreader d)))) of
         None \<Rightarrow> nil_error | Some e \<Rightarrow> prime_error e)"
  using assms
proof (induction "left capture_size (dreader d)" arbitrary: d rule: less_induct)
  case less
  obtain x d1 where dec: "Decode read_capture d = (x, d1)" by (meson surj_pair)
  note step = captured.Decode_refines [OF less.prems dec]
  let ?next = "next_event (text_left (\<lambda>s. chunk_text (capBody s)) d) (chunkEnd (capBody (rsrc (dreader d))))"
  show ?case
  proof (cases ?next)
    case (Inl e)
    then show ?thesis
      using step dec by (simp add: prime_loop.simps [of _ _ _ d] error_before_data.simps [of "text_left (\<lambda>s. chunk_text (capBody s)) d"] prime_error_def)
  next
    case (Inr y)
    obtain ev rest where y: "y = (ev, rest)" by (cases y)
    have x: "x = Inr ev" "text_left (\<lambda>s. chunk_text (capBody s)) d1 = rest" using step Inr y by simp_all
    have small: "left capture_size (dreader d1) < left capture_size (dreader d)" using capture_shrinks dec x by blast
    show ?thesis
      using less.hyps [OF small] step dec x Inr y
      by (simp add: prime_loop.simps [of _ _ _ d] error_before_data.simps [of "text_left (\<lambda>s. chunk_text (capBody s)) d"])
  qed
qed

subsection \<open>Properties\<close>

lemma primed_body:
  assumes "respBody r = Some b" "PrimeUntil accept ctxErr a (Some r) = (nil_error, Some r')"
  shows "\<exists>capd rest consumed. respBody r' = Some \<lparr>chunks = capd # rest, chunkEnd = chunkEnd b\<rparr>
    \<and> chunk_text b = consumed @ concat rest \<and> (length consumed \<le> MaxCaptureBytes \<longrightarrow> capd = consumed)"
proof -
  obtain err s where loop: "prime_loop accept ctxErr a (NewDecoder \<lparr>capBody = b, captured = []\<rparr>) = (err, s)"
    by (meson surj_pair)
  have "capture_inv b (rsrc (dreader (NewDecoder \<lparr>capBody = b, captured = []\<rparr>)))"
    by (simp add: capture_inv_def NewDecoder_def NewReader_def)
  then have inv: "capture_inv b s" by (rule prime_loop_captures) (rule loop)
  have "respBody r' = Some \<lparr>chunks = captured s # chunks (capBody s), chunkEnd = chunkEnd (capBody s)\<rparr>"
    using assms loop by (auto simp: PrimeUntil_def Let_def split: if_splits)
  then show ?thesis using inv by (auto simp: capture_inv_def chunk_text_def)
qed

lemma prime_result:
  assumes "respBody r = Some b" "chunk_ok b" "length (chunk_text b) \<le> MaxCaptureBytes"
  shows "fst (Prime nil_error (Some r)) = (case error_before_data (chunk_text b) (chunkEnd b) of None \<Rightarrow> nil_error | Some e \<Rightarrow> prime_error e)"
proof -
  let ?d = "NewDecoder \<lparr>capBody = b, captured = []\<rparr>"
  have "decoder_ok capture_ok (\<lambda>s. chunk_text (capBody s)) (\<lambda>s. chunkEnd (capBody s)) ?d"
    using assms(2,3) by (simp add: decoder_ok_def NewDecoder_def reader_ok_def NewReader_def capture_ok_def)
  from prime_loop_outcome [OF this]
  have "fst (prime_loop prime_accept nil_error () ?d)
      = (case error_before_data (chunk_text b) (chunkEnd b) of None \<Rightarrow> nil_error | Some e \<Rightarrow> prime_error e)"
    by (simp add: NewDecoder_def NewReader_def text_left_def unread_def)
  moreover have "fst (Prime nil_error (Some r)) = fst (prime_loop prime_accept nil_error () ?d)"
    using assms(1) by (simp add: Prime_def PrimeUntil_def Let_def split: prod.splits)
  ultimately show ?thesis by simp
qed

lemma prime_accepted:
  "respBody r = Some b \<Longrightarrow> fst (Prime nil_error (Some r)) = nil_error \<Longrightarrow> \<exists>r'. Prime nil_error (Some r) = (nil_error, Some r')"
  by (auto simp: Prime_def PrimeUntil_def Let_def split: prod.splits if_splits)

text \<open>C13: What priming decides. For a body of at most 4 MiB and a context that is not cancelled,
  \<open>Prime\<close> accepts exactly when the stream has an event with data before any error; otherwise it fails
  with that error, where the end of the stream counts as an unexpected end and an oversized event is
  reported as such. An accepted body has the text and the end of the original.\<close>

theorem prime_outcome:
  assumes "respBody r = Some b" "chunk_ok b" "length (chunk_text b) \<le> MaxCaptureBytes"
  shows "fst (Prime nil_error (Some r)) = (case error_before_data (chunk_text b) (chunkEnd b) of None \<Rightarrow> nil_error | Some e \<Rightarrow> prime_error e)
    \<and> (fst (Prime nil_error (Some r)) = nil_error \<longrightarrow>
        (\<exists>r' b'. snd (Prime nil_error (Some r)) = Some r' \<and> respBody r' = Some b' \<and> chunk_text b' = chunk_text b \<and> chunkEnd b' = chunkEnd b))"
proof
  show "fst (Prime nil_error (Some r)) = (case error_before_data (chunk_text b) (chunkEnd b) of None \<Rightarrow> nil_error | Some e \<Rightarrow> prime_error e)"
    by (rule prime_result [OF assms])
  show "fst (Prime nil_error (Some r)) = nil_error \<longrightarrow>
        (\<exists>r' b'. snd (Prime nil_error (Some r)) = Some r' \<and> respBody r' = Some b' \<and> chunk_text b' = chunk_text b \<and> chunkEnd b' = chunkEnd b)"
  proof
    assume ok: "fst (Prime nil_error (Some r)) = nil_error"
    then obtain r' where r': "Prime nil_error (Some r) = (nil_error, Some r')"
      using prime_accepted [OF assms(1)] by blast
    have "\<exists>capd rest consumed. respBody r' = Some \<lparr>chunks = capd # rest, chunkEnd = chunkEnd b\<rparr>
        \<and> chunk_text b = consumed @ concat rest \<and> (length consumed \<le> MaxCaptureBytes \<longrightarrow> capd = consumed)"
      by (rule primed_body [OF assms(1) r' [unfolded Prime_def]])
    then show "\<exists>r' b'. snd (Prime nil_error (Some r)) = Some r' \<and> respBody r' = Some b' \<and> chunk_text b' = chunk_text b \<and> chunkEnd b' = chunkEnd b"
      using r' assms(3) by (auto simp: chunk_text_def)
  qed
qed

subsection \<open>Witnesses\<close>

definition sample_body :: chunkSource where
  "sample_body = \<lparr>chunks = [Encode sample_sse], chunkEnd = [EOF]\<rparr>"

definition sample_response :: streamResponse where
  "sample_response = \<lparr>respBody = Some sample_body, respMarker = True, semanticRequired = False\<rparr>"

lemma sample_body_ok:
  "chunk_ok sample_body" "length (chunk_text sample_body) \<le> MaxCaptureBytes" "respBody sample_response = Some sample_body"
  using sample_sse_clean
  by (simp_all add: sample_body_def chunk_ok_def chunk_text_def clean_event_def MaxCaptureBytes_def sample_response_def)
    (simp add: Encode_def)

lemma sample_has_data: "error_before_data (chunk_text sample_body) (chunkEnd sample_body) = None"
proof -
  have "next_event (chunk_text sample_body) (chunkEnd sample_body) = Inr (sent sample_sse, [])"
    using next_event_encoded [OF sample_sse_clean, of "[]"] by (simp add: sample_body_def chunk_text_def)
  then show ?thesis
    by (simp add: error_before_data.simps [of "chunk_text sample_body"] sent_def sample_sse_def data_lines_nonempty)
qed

theorem prime_outcome_witness:
  "fst (Prime nil_error (Some sample_response)) = nil_error"
  using prime_outcome [OF sample_body_ok(3,1,2)] sample_has_data by simp

end
