(* ===== verification/Sse_Proxy.thy ===== *)
theory Sse_Proxy
  imports Sse_Prime
begin

text \<open>
  \<open>internal/sse/proxy.go\<close> (with the writers of \<open>internal/router/commit.go\<close>): relaying an upstream
  stream to the client. What happens at the client's side is a log, newest first; how the client's
  connection, the context, the clock and the caller's hooks answer is a function of the log so far.
  Closing the upstream body (when the context ends or the watchdog fires) is one of the ways the body
  can end.
\<close>

datatype proxyAct =
    PHeader string string
  | PCommit
  | PWriteHeader int
  | PWrite string
  | PWriteFailed
  | PDeadline duration
  | PClearDeadline
  | PFlush
  | PArm
  | PDisarm
  | PBeforeComplete
  | POnFirstData
  | POnData string
  | POnComplete

type_synonym plog = "proxyAct list"

record proxyEnv =
  canFlush :: bool
  ctxError :: "plog \<Rightarrow> goError"
  writeError :: "plog \<Rightarrow> goError"
  deadlineError :: "plog \<Rightarrow> goError"
  flushStalled :: "plog \<Rightarrow> bool"
  watchdogFired :: "plog \<Rightarrow> bool"
  BeforeComplete :: "(plog \<Rightarrow> goError) option"
  hasOnFirstData :: bool
  hasOnData :: bool
  hasOnComplete :: bool
  hasCommitState :: bool

definition ErrStreamInterrupted :: goError where
  "ErrStreamInterrupted = [OtherError ''upstream stream interrupted before [DONE]'']"
definition ErrWriteDeadlineUnsupported :: errNode where
  "ErrWriteDeadlineUnsupported = OtherError ''response writer does not support write deadlines''"
definition ErrStreamWriteStalled :: goError where
  "ErrStreamWriteStalled = [OtherError ''upstream stream write stalled for too long'']"
definition ErrNoFlusher :: goError where
  "ErrNoFlusher = [OtherError ''response writer does not support flushing'']"

definition SetWriteDeadline :: "proxyEnv \<Rightarrow> duration \<Rightarrow> plog \<Rightarrow> goError \<times> plog" where
  "SetWriteDeadline E timeout lg =
     (if timeout \<le> 0 then (nil_error, lg)
      else if deadlineError E lg \<noteq> nil_error then ([Wrapped ''set write deadline'', ErrWriteDeadlineUnsupported], lg)
      else (nil_error, PDeadline timeout # lg))"

definition FlushWithDeadline :: "proxyEnv \<Rightarrow> duration \<Rightarrow> plog \<Rightarrow> goError \<times> plog" where
  "FlushWithDeadline E timeout lg =
     (if timeout \<le> 0 then (nil_error, PFlush # lg)
      else case SetWriteDeadline E timeout lg of
        (err, lg1) \<Rightarrow>
          if err \<noteq> nil_error then (err, lg1)
          else let lg2 = PFlush # lg1; lg3 = PClearDeadline # lg2
               in if flushStalled E lg2 then (ErrStreamWriteStalled, lg3) else (nil_error, lg3))"

text \<open>A write of the response body: all of it, or an error.\<close>

definition write_body :: "proxyEnv \<Rightarrow> string \<Rightarrow> plog \<Rightarrow> goError \<times> plog" where
  "write_body E s lg = (if writeError E lg \<noteq> nil_error then (writeError E lg, PWriteFailed # lg) else (nil_error, PWrite s # lg))"

record proxyState =
  seenDone :: bool
  firstDataWritten :: bool
  firstDataNotified :: bool
  pendingBytes :: string
  idleTimeout :: duration

definition done_marker :: string where "done_marker = ''[DONE]''"

text \<open>The data up to and including the terminal marker, and whether there is one.\<close>

fun cut_done :: "string list \<Rightarrow> bool \<times> string list" where
  "cut_done [] = (False, [])"
| "cut_done (d # ds) =
     (if trim_space d = done_marker then (True, [d])
      else case cut_done ds of (found, rest) \<Rightarrow> (found, d # rest))"

text \<open>The header and the held-back events, before the first event with data.\<close>

definition start_stream :: "proxyEnv \<Rightarrow> proxyState \<Rightarrow> plog \<Rightarrow> goError \<times> proxyState \<times> plog" where
  "start_stream E st lg =
     (if firstDataWritten st then (nil_error, st, lg)
      else
        let lg1 = PWriteHeader 200 # (if hasCommitState E then PCommit # lg else lg);
            st1 = st\<lparr>firstDataWritten := True\<rparr>
        in if pendingBytes st = [] then (nil_error, st1, lg1)
           else case write_body E (pendingBytes st) (if hasCommitState E then PCommit # lg1 else lg1) of
             (err, lg2) \<Rightarrow>
               if err \<noteq> nil_error then (Wrapped ''write pending SSE events'' # err, st1, lg2)
               else (nil_error, st1\<lparr>pendingBytes := []\<rparr>, lg2))"

definition before_complete :: "proxyEnv \<Rightarrow> proxyState \<Rightarrow> plog \<Rightarrow> goError \<times> plog" where
  "before_complete E st lg =
     (case BeforeComplete E of
        Some f \<Rightarrow> if seenDone st then (f lg, PBeforeComplete # lg) else (nil_error, lg)
      | None \<Rightarrow> (nil_error, lg))"

definition flush_event :: "proxyEnv \<Rightarrow> bool \<Rightarrow> proxyState \<Rightarrow> plog \<Rightarrow> goError \<times> plog" where
  "flush_event E watchdog st lg =
     (let disarm = (\<lambda>l. if watchdog then PDisarm # l else l)
      in case FlushWithDeadline E (idleTimeout st) (if watchdog then PArm # lg else lg) of
           (err, lg1) \<Rightarrow>
             if err \<noteq> nil_error \<and> \<not> errors_is err ErrWriteDeadlineUnsupported then (err, disarm lg1)
             else
               let lg2 = disarm (if err \<noteq> nil_error then PFlush # disarm lg1 else lg1)
               in if watchdog \<and> watchdogFired E lg2 then (ErrStreamWriteStalled, lg2) else (nil_error, lg2))"

definition notify :: "proxyEnv \<Rightarrow> sseEvent \<Rightarrow> proxyState \<Rightarrow> plog \<Rightarrow> proxyState \<times> plog" where
  "notify E event st lg =
     (let (st1, lg1) =
            (if \<not> firstDataNotified st \<and> firstDataWritten st
             then (st\<lparr>firstDataNotified := True\<rparr>, if hasOnFirstData E then POnFirstData # lg else lg)
             else (st, lg))
      in (st1, if hasOnData E \<and> \<not> seenDone st \<and> evData event \<noteq> [] then POnData (JoinData (evData event)) # lg1 else lg1))"

text \<open>One event that is sent: \<open>None\<close> when the loop goes on, the result of \<open>Proxy\<close> otherwise.\<close>

definition relay_event ::
  "proxyEnv \<Rightarrow> bool \<Rightarrow> sseEvent \<Rightarrow> proxyState \<Rightarrow> plog \<Rightarrow> goError option \<times> proxyState \<times> plog" where
  "relay_event E watchdog event st lg =
     (case SetWriteDeadline E (idleTimeout st) lg of
        (derr, lg1) \<Rightarrow>
          if derr \<noteq> nil_error \<and> \<not> errors_is derr ErrWriteDeadlineUnsupported then (Some derr, st, lg1)
          else case start_stream E (if derr \<noteq> nil_error then st\<lparr>idleTimeout := 0\<rparr> else st) lg1 of
            (serr, st2, lg2) \<Rightarrow>
              if serr \<noteq> nil_error then (Some serr, st2, lg2)
              else case before_complete E st2 lg2 of
                (berr, lg3) \<Rightarrow>
                  if berr \<noteq> nil_error then (Some berr, st2, lg3)
                  else case write_body E (Encode event) lg3 of
                    (werr, lg4) \<Rightarrow>
                      if werr \<noteq> nil_error
                      then (Some (Wrapped ''encode SSE event'' # Wrapped ''write SSE event'' # werr), st2, lg4)
                      else case flush_event E watchdog st2 lg4 of
                        (ferr, lg5) \<Rightarrow>
                          if ferr \<noteq> nil_error then (Some ferr, st2, lg5)
                          else case notify E event st2 lg5 of
                            (st6, lg6) \<Rightarrow>
                              if seenDone st6
                              then (Some nil_error, st6, if hasOnComplete E then POnComplete # lg6 else lg6)
                              else (None, st6, lg6))"

definition proxy_event ::
  "proxyEnv \<Rightarrow> bool \<Rightarrow> sseEvent \<Rightarrow> proxyState \<Rightarrow> plog \<Rightarrow> goError option \<times> proxyState \<times> plog" where
  "proxy_event E watchdog event st lg =
     (if \<not> firstDataWritten st \<and> evData event = [] then
        if int (length (Encode event)) > int MaxEventSize - int (length (pendingBytes st)) then (Some ErrEventTooLarge, st, lg)
        else (None, st\<lparr>pendingBytes := pendingBytes st @ Encode event\<rparr>, lg)
      else case cut_done (evData event) of
        (isDone, data) \<Rightarrow>
          if isDone \<and> seenDone st then (None, st, lg)
          else relay_event E watchdog (if isDone then event\<lparr>evData := data\<rparr> else event)
                 (if isDone then st\<lparr>seenDone := True\<rparr> else st) lg)"

lemma chunk_shrinks:
  "Decode read_chunk d = (Inr ev, d1) \<Longrightarrow>
   left (\<lambda>s. length (chunk_text s)) (dreader d1) < left (\<lambda>s. length (chunk_text s)) (dreader d)"
  using Decode_left(2) [OF read_chunk_conserving, of d "Inr ev" d1 ev] by simp

function proxy_loop ::
  "proxyEnv \<Rightarrow> bool \<Rightarrow> chunkSource decoder \<Rightarrow> proxyState \<Rightarrow> plog \<Rightarrow> goError \<times> plog" where
  "proxy_loop E watchdog d st lg =
     (case Decode read_chunk d of
        (Inl err, d1) \<Rightarrow>
          (if err = [EOF] then (if \<not> seenDone st then ErrStreamInterrupted else nil_error)
           else if ctxError E lg \<noteq> nil_error then ctxError E lg
           else Wrapped ''decode SSE event'' # err, lg)
      | (Inr event, d1) \<Rightarrow>
          (case proxy_event E watchdog event st lg of
             (Some err, st1, lg1) \<Rightarrow> (err, lg1)
           | (None, st1, lg1) \<Rightarrow> proxy_loop E watchdog d1 st1 lg1))"
  by pat_completeness auto
termination
  by (relation "measure (\<lambda>(E, watchdog, d, st, lg). left (\<lambda>s. length (chunk_text s)) (dreader d))")
    (auto dest!: chunk_shrinks [OF sym])

declare proxy_loop.simps [simp del]

definition stream_headers :: plog where
  "stream_headers =
     [PHeader ''X-Accel-Buffering'' ''no'', PHeader ''Connection'' ''keep-alive'',
      PHeader ''Cache-Control'' ''no-cache'', PHeader ''Content-Type'' ''text/event-stream'']"

definition Proxy :: "proxyEnv \<Rightarrow> duration \<Rightarrow> chunkSource \<Rightarrow> goError \<times> plog" where
  "Proxy E writeIdleTimeout upstream =
     (if \<not> canFlush E then (ErrNoFlusher, [])
      else proxy_loop E (writeIdleTimeout > 0) (NewDecoder upstream)
             \<lparr>seenDone = False, firstDataWritten = False, firstDataNotified = False, pendingBytes = [],
              idleTimeout = writeIdleTimeout\<rparr> stream_headers)"

subsection \<open>What reaches the client\<close>

primrec written :: "plog \<Rightarrow> string" where
  "written [] = []"
| "written (a # lg) = written lg @ (case a of PWrite s \<Rightarrow> s | _ \<Rightarrow> [])"

definition has_done :: "sseEvent \<Rightarrow> bool" where
  "has_done e \<longleftrightarrow> fst (cut_done (evData e))"

definition done_event :: "sseEvent \<Rightarrow> sseEvent" where
  "done_event e = e\<lparr>evData := snd (cut_done (evData e))\<rparr>"

lemma has_done_iff: "has_done e \<longleftrightarrow> (\<exists>d \<in> set (evData e). trim_space d = done_marker)"
proof -
  have "fst (cut_done ds) \<longleftrightarrow> (\<exists>d \<in> set ds. trim_space d = done_marker)" for ds
    by (induction ds) (auto split: prod.splits)
  then show ?thesis by (simp add: has_done_def)
qed

text \<open>The invariant between events: bytes are only held back before the first write.\<close>

definition held_ok :: "proxyState \<Rightarrow> bool" where
  "held_ok st \<longleftrightarrow> (firstDataWritten st \<longrightarrow> pendingBytes st = [])"

lemma deadline_written [simp]: "written (snd (SetWriteDeadline E t lg)) = written lg"
  by (simp add: SetWriteDeadline_def)

lemma flush_written [simp]: "written (snd (flush_event E w st lg)) = written lg"
  by (auto simp: flush_event_def FlushWithDeadline_def SetWriteDeadline_def Let_def)

lemma before_written [simp]: "written (snd (before_complete E st lg)) = written lg"
  by (auto simp: before_complete_def split: option.splits)

lemma notify_frame [simp]:
  "written (snd (notify E ev st lg)) = written lg" "seenDone (fst (notify E ev st lg)) = seenDone st"
  "firstDataWritten (fst (notify E ev st lg)) = firstDataWritten st" "pendingBytes (fst (notify E ev st lg)) = pendingBytes st"
  by (auto simp: notify_def Let_def)

lemma start_stream_ok:
  assumes "start_stream E st lg = (nil_error, st', lg')" "held_ok st"
  shows "written lg' = written lg @ pendingBytes st \<and> firstDataWritten st' \<and> pendingBytes st' = [] \<and> seenDone st' = seenDone st"
  using assms
  by (auto simp: start_stream_def write_body_def held_ok_def Let_def split: if_splits)

text \<open>An event that is relayed without an error.\<close>

lemma relay_ok:
  assumes relay: "relay_event E w ev st lg = (r, st', lg')" and r: "r = None \<or> r = Some nil_error" and held: "held_ok st"
  shows "written lg' = written lg @ pendingBytes st @ Encode ev \<and> firstDataWritten st' \<and> pendingBytes st' = []
    \<and> seenDone st' = seenDone st \<and> (r = None \<longleftrightarrow> \<not> seenDone st)"
proof -
  obtain derr lg1 where d: "SetWriteDeadline E (idleTimeout st) lg = (derr, lg1)" by (meson surj_pair)
  let ?st1 = "if derr \<noteq> nil_error then st\<lparr>idleTimeout := 0\<rparr> else st"
  obtain serr st2 lg2 where s: "start_stream E ?st1 lg1 = (serr, st2, lg2)" by (metis surj_pair)
  obtain berr lg3 where b: "before_complete E st2 lg2 = (berr, lg3)" by (meson surj_pair)
  obtain werr lg4 where wr: "write_body E (Encode ev) lg3 = (werr, lg4)" by (meson surj_pair)
  obtain ferr lg5 where f: "flush_event E w st2 lg4 = (ferr, lg5)" by (meson surj_pair)
  obtain st6 lg6 where n: "notify E ev st2 lg5 = (st6, lg6)" by (meson surj_pair)
  have no_err: "serr = nil_error" "berr = nil_error" "werr = nil_error" "ferr = nil_error"
    and fin: "st' = st6" "r = (if seenDone st6 then Some nil_error else None)"
      "lg' = lg6 \<or> lg' = POnComplete # lg6"
    using relay r d s b wr f n by (auto simp: relay_event_def split: if_splits)
  have st1: "held_ok ?st1" "pendingBytes ?st1 = pendingBytes st" "seenDone ?st1 = seenDone st"
    using held by (simp_all add: held_ok_def)
  have st2: "written lg2 = written lg1 @ pendingBytes st" "firstDataWritten st2" "pendingBytes st2 = []" "seenDone st2 = seenDone st"
    using start_stream_ok [OF s [unfolded no_err(1)] st1(1)] st1(2,3) by simp_all
  have w1: "written lg1 = written lg" using deadline_written [of E "idleTimeout st" lg] d by simp
  have w3: "written lg3 = written lg2" using before_written [of E st2 lg2] b by simp
  have w4: "written lg4 = written lg3 @ Encode ev" using wr no_err(3) by (auto simp: write_body_def split: if_splits)
  have w5: "written lg5 = written lg4" using flush_written [of E w st2 lg4] f by simp
  have w6: "written lg6 = written lg5" "seenDone st6 = seenDone st2" "firstDataWritten st6 = firstDataWritten st2"
    "pendingBytes st6 = pendingBytes st2" using notify_frame [of E ev st2 lg5] n by simp_all
  show ?thesis using w1 w3 w4 w5 w6 st2 fin by auto
qed

lemma event_held:
  assumes "proxy_event E w ev st lg = (None, st', lg')" "held_ok st" "\<not> seenDone st"
  shows "held_ok st' \<and> \<not> seenDone st' \<and> \<not> has_done ev
    \<and> written lg' @ pendingBytes st' = written lg @ pendingBytes st @ Encode ev"
proof (cases "\<not> firstDataWritten st \<and> evData ev = []")
  case True
  then show ?thesis using assms by (auto simp: proxy_event_def held_ok_def has_done_iff split: if_splits)
next
  case False
  show ?thesis
  proof (cases "has_done ev")
    case True
    let ?st = "st\<lparr>seenDone := True\<rparr>"
    have "relay_event E w (done_event ev) ?st lg = (None, st', lg')"
      using assms(1,3) False True by (auto simp: proxy_event_def has_done_def done_event_def split: prod.splits)
    then show ?thesis using relay_ok [of E w "done_event ev" ?st lg None st' lg'] assms(2) by (simp add: held_ok_def)
  next
    case not_done: False
    have "relay_event E w ev st lg = (None, st', lg')"
      using assms(1,3) False not_done by (auto simp: proxy_event_def has_done_def split: prod.splits)
    then show ?thesis
      using relay_ok [of E w ev st lg None st' lg'] assms(2,3) not_done by (simp add: held_ok_def)
  qed
qed

lemma event_done:
  assumes "proxy_event E w ev st lg = (Some nil_error, st', lg')" "held_ok st" "\<not> seenDone st"
  shows "has_done ev \<and> written lg' = written lg @ pendingBytes st @ Encode (done_event ev)"
proof (cases "\<not> firstDataWritten st \<and> evData ev = []")
  case True
  then show ?thesis using assms by (auto simp: proxy_event_def ErrEventTooLarge_def split: if_splits)
next
  case False
  show ?thesis
  proof (cases "has_done ev")
    case True
    let ?st = "st\<lparr>seenDone := True\<rparr>"
    have "relay_event E w (done_event ev) ?st lg = (Some nil_error, st', lg')"
      using assms(1,3) False True by (auto simp: proxy_event_def has_done_def done_event_def split: prod.splits)
    then show ?thesis
      using relay_ok [of E w "done_event ev" ?st lg "Some nil_error" st' lg'] assms(2) True by (simp add: held_ok_def)
  next
    case not_done: False
    have "relay_event E w ev st lg = (Some nil_error, st', lg')"
      using assms(1,3) False not_done by (auto simp: proxy_event_def has_done_def split: prod.splits)
    then show ?thesis
      using relay_ok [of E w ev st lg "Some nil_error" st' lg'] assms(2,3) by (simp add: held_ok_def)
  qed
qed

lemma proxy_loop_relays:
  assumes "decoder_ok chunk_ok chunk_text chunkEnd d" "proxy_loop E w d st lg = (nil_error, lg')" "held_ok st" "\<not> seenDone st"
  shows "\<exists>es e. events_of (Suc (length es)) (text_left chunk_text d) (chunkEnd (rsrc (dreader d))) = map Inr (es @ [e])
    \<and> (\<forall>x \<in> set es. \<not> has_done x) \<and> has_done e
    \<and> written lg' = written lg @ pendingBytes st @ concat (map Encode es) @ Encode (done_event e)"
  using assms
proof (induction "left (\<lambda>s. length (chunk_text s)) (dreader d)" arbitrary: d st lg rule: less_induct)
  case less
  obtain x d1 where dec: "Decode read_chunk d = (x, d1)" by (meson surj_pair)
  note step = body.Decode_refines [OF less.prems(1) dec]
  let ?u = "text_left chunk_text d" and ?fin = "chunkEnd (rsrc (dreader d))"
  show ?case
  proof (cases x)
    case (Inl e)
    then show ?thesis
      using less.prems(2,4) dec by (auto simp: proxy_loop.simps [of E w d] ErrStreamInterrupted_def split: if_splits)
  next
    case (Inr ev)
    then obtain rest where nxt: "next_event ?u ?fin = Inr (ev, rest)" and d1: "text_left chunk_text d1 = rest"
        "decoder_ok chunk_ok chunk_text chunkEnd d1" "chunkEnd (rsrc (dreader d1)) = ?fin"
      using step by (auto split: sum.splits)
    obtain r st1 lg1 where ev: "proxy_event E w ev st lg = (r, st1, lg1)" by (metis surj_pair)
    show ?thesis
    proof (cases r)
      case (Some err)
      then have "err = nil_error" "lg1 = lg'" using less.prems(2) dec Inr ev by (simp_all add: proxy_loop.simps [of E w d])
      then show ?thesis
        using event_done [of E w ev st lg st1 lg'] ev Some less.prems(3,4) nxt by (intro exI [of _ "[]"] exI [of _ ev]) simp
    next
      case None
      have small: "left (\<lambda>s. length (chunk_text s)) (dreader d1) < left (\<lambda>s. length (chunk_text s)) (dreader d)"
        using chunk_shrinks dec Inr by blast
      have again: "proxy_loop E w d1 st1 lg1 = (nil_error, lg')"
        using less.prems(2) dec Inr ev None by (simp add: proxy_loop.simps [of E w d])
      have held: "held_ok st1" "\<not> seenDone st1" "\<not> has_done ev" "written lg1 @ pendingBytes st1 = written lg @ pendingBytes st @ Encode ev"
        using event_held [of E w ev st lg st1 lg1] ev None less.prems(3,4) by simp_all
      obtain es e where IH: "events_of (Suc (length es)) rest ?fin = map Inr (es @ [e])" "\<forall>x \<in> set es. \<not> has_done x" "has_done e"
          "written lg' = written lg1 @ pendingBytes st1 @ concat (map Encode es) @ Encode (done_event e)"
        using less.hyps [OF small d1(2) again held(1,2)] d1 by auto
      have "events_of (Suc (length (ev # es))) ?u ?fin = map Inr ((ev # es) @ [e])" using nxt IH(1) by simp
      moreover have "written lg' = written lg @ pendingBytes st @ concat (map Encode (ev # es)) @ Encode (done_event e)"
        using IH(4) held(4) by (simp del: append_assoc add: append_assoc [symmetric])
      ultimately show ?thesis using IH(2,3) held(3) by (intro exI [of _ "ev # es"] exI [of _ e]) simp
    qed
  qed
qed

subsection \<open>A client that keeps up\<close>

text \<open>Every write succeeds, no flush stalls and the caller does not object to completing; deadlines
  may or may not be supported.\<close>

definition benign :: "proxyEnv \<Rightarrow> bool" where
  "benign E \<longleftrightarrow> canFlush E \<and> (\<forall>l. writeError E l = nil_error \<and> \<not> flushStalled E l \<and> \<not> watchdogFired E l)
     \<and> (\<forall>f. BeforeComplete E = Some f \<longrightarrow> (\<forall>l. f l = nil_error))"

lemma benign_stages:
  assumes "benign E"
  shows "fst (start_stream E st lg) = nil_error" "seenDone (fst (snd (start_stream E st lg))) = seenDone st"
    "fst (before_complete E st lg) = nil_error" "fst (write_body E s lg) = nil_error" "fst (flush_event E w st lg) = nil_error"
    "errors_is (fst (SetWriteDeadline E t lg)) ErrWriteDeadlineUnsupported \<or> fst (SetWriteDeadline E t lg) = nil_error"
proof -
  show "fst (start_stream E st lg) = nil_error" "seenDone (fst (snd (start_stream E st lg))) = seenDone st"
    using assms by (simp_all add: start_stream_def write_body_def benign_def Let_def)
  show "fst (before_complete E st lg) = nil_error"
    using assms by (auto simp: before_complete_def benign_def split: option.splits)
  show "fst (write_body E s lg) = nil_error" using assms by (simp add: write_body_def benign_def)
  show "fst (flush_event E w st lg) = nil_error"
    using assms by (auto simp: flush_event_def FlushWithDeadline_def SetWriteDeadline_def benign_def Let_def errors_is_def)
  show "errors_is (fst (SetWriteDeadline E t lg)) ErrWriteDeadlineUnsupported \<or> fst (SetWriteDeadline E t lg) = nil_error"
    by (simp add: SetWriteDeadline_def errors_is_def)
qed

lemma benign_relay:
  assumes "benign E"
  shows "fst (relay_event E w ev st lg) = (if seenDone st then Some nil_error else None)"
proof -
  obtain derr lg1 where d: "SetWriteDeadline E (idleTimeout st) lg = (derr, lg1)" by (meson surj_pair)
  let ?st1 = "if derr \<noteq> nil_error then st\<lparr>idleTimeout := 0\<rparr> else st"
  obtain serr st2 lg2 where s: "start_stream E ?st1 lg1 = (serr, st2, lg2)" by (metis surj_pair)
  obtain berr lg3 where b: "before_complete E st2 lg2 = (berr, lg3)" by (meson surj_pair)
  obtain werr lg4 where wr: "write_body E (Encode ev) lg3 = (werr, lg4)" by (meson surj_pair)
  obtain ferr lg5 where f: "flush_event E w st2 lg4 = (ferr, lg5)" by (meson surj_pair)
  obtain st6 lg6 where n: "notify E ev st2 lg5 = (st6, lg6)" by (meson surj_pair)
  have "serr = nil_error" "seenDone st2 = seenDone ?st1" "berr = nil_error" "werr = nil_error" "ferr = nil_error"
    "errors_is derr ErrWriteDeadlineUnsupported \<or> derr = nil_error"
    using benign_stages(1,2) [OF assms, of ?st1 lg1] benign_stages(3) [OF assms, of st2 lg2] benign_stages(4) [OF assms, of "Encode ev" lg3]
      benign_stages(5) [OF assms, of w st2 lg4] benign_stages(6) [OF assms, of "idleTimeout st" lg] d s b wr f by simp_all
  moreover have "seenDone st6 = seenDone st2" using notify_frame(2) [of E ev st2 lg5] n by simp
  ultimately show ?thesis using d s b wr f n by (auto simp: relay_event_def)
qed

lemma benign_event:
  assumes "benign E" "\<not> seenDone st"
    and "\<not> firstDataWritten st \<Longrightarrow> length (pendingBytes st) + length (Encode ev) \<le> MaxEventSize"
  shows "fst (proxy_event E w ev st lg) = (if has_done ev then Some nil_error else None)"
  using assms benign_relay [OF assms(1)]
  by (auto simp: proxy_event_def has_done_def split: prod.splits)

lemma benign_loop:
  assumes "decoder_ok chunk_ok chunk_text chunkEnd d" "benign E" "held_ok st" "\<not> seenDone st"
    and "events_of (Suc (length es)) (text_left chunk_text d) (chunkEnd (rsrc (dreader d))) = map Inr (es @ [e])"
    and "\<forall>x \<in> set es. \<not> has_done x" "has_done e"
    and "length (pendingBytes st) + length (concat (map Encode (es @ [e]))) \<le> MaxEventSize \<or> firstDataWritten st"
  shows "fst (proxy_loop E w d st lg) = nil_error"
  using assms
proof (induction es arbitrary: d st lg)
  case Nil
  obtain x d1 where dec: "Decode read_chunk d = (x, d1)" by (meson surj_pair)
  note step = body.Decode_refines [OF Nil.prems(1) dec]
  have "x = Inr e" using step Nil.prems(5) by (auto split: sum.splits)
  moreover have "fst (proxy_event E w e st lg) = Some nil_error"
    using benign_event [of E st e w lg] Nil.prems by auto
  ultimately show ?case using dec by (auto simp: proxy_loop.simps [of E w d] split: prod.splits)
next
  case (Cons ev es)
  obtain x d1 where dec: "Decode read_chunk d = (x, d1)" by (meson surj_pair)
  note step = body.Decode_refines [OF Cons.prems(1) dec]
  obtain rest where nxt: "next_event (text_left chunk_text d) (chunkEnd (rsrc (dreader d))) = Inr (ev, rest)"
      "events_of (Suc (length es)) rest (chunkEnd (rsrc (dreader d))) = map Inr (es @ [e])"
    using Cons.prems(5) by (auto split: sum.splits)
  have d1: "x = Inr ev" "text_left chunk_text d1 = rest" "decoder_ok chunk_ok chunk_text chunkEnd d1"
      "chunkEnd (rsrc (dreader d1)) = chunkEnd (rsrc (dreader d))"
    using step nxt(1) by simp_all
  obtain r st1 lg1 where ev: "proxy_event E w ev st lg = (r, st1, lg1)" by (metis surj_pair)
  have r: "r = None" using benign_event [of E st ev w lg] Cons.prems ev by auto
  note held = event_held [OF ev [unfolded r] Cons.prems(3,4)]
  have room: "length (pendingBytes st1) + length (concat (map Encode (es @ [e]))) \<le> MaxEventSize \<or> firstDataWritten st1"
  proof (cases "\<not> firstDataWritten st \<and> evData ev = []")
    case True
    then have "st1 = st\<lparr>pendingBytes := pendingBytes st @ Encode ev\<rparr>" using ev r by (auto simp: proxy_event_def split: if_splits)
    then show ?thesis using Cons.prems(8) True by auto
  next
    case False
    then have "relay_event E w ev st lg = (None, st1, lg1)"
      using ev r held Cons.prems(4) by (auto simp: proxy_event_def has_done_def split: prod.splits)
    then show ?thesis using relay_ok [of E w ev st lg None st1 lg1] Cons.prems(3) by simp
  qed
  have "fst (proxy_loop E w d1 st1 lg1) = nil_error"
    using Cons.IH [of d1 st1 lg1] d1 nxt(2) held room Cons.prems by simp
  then show ?case using dec d1(1) ev r by (simp add: proxy_loop.simps [of E w d])
qed

subsection \<open>A stream without data\<close>

lemma no_data_loop:
  assumes "decoder_ok chunk_ok chunk_text chunkEnd d" "\<not> seenDone st" "\<not> firstDataWritten st"
    and "error_before_data (text_left chunk_text d) (chunkEnd (rsrc (dreader d))) = Some err"
  shows "snd (proxy_loop E w d st lg) = lg \<and> fst (proxy_loop E w d st lg) \<noteq> nil_error"
  using assms
proof (induction "left (\<lambda>s. length (chunk_text s)) (dreader d)" arbitrary: d st rule: less_induct)
  case less
  obtain x d1 where dec: "Decode read_chunk d = (x, d1)" by (meson surj_pair)
  note step = body.Decode_refines [OF less.prems(1) dec]
  show ?case
  proof (cases x)
    case (Inl e)
    then show ?thesis using dec less.prems(2) by (simp add: proxy_loop.simps [of E w d] ErrStreamInterrupted_def)
  next
    case (Inr ev)
    then obtain rest where nxt: "next_event (text_left chunk_text d) (chunkEnd (rsrc (dreader d))) = Inr (ev, rest)"
      and d1: "text_left chunk_text d1 = rest" "decoder_ok chunk_ok chunk_text chunkEnd d1"
        "chunkEnd (rsrc (dreader d1)) = chunkEnd (rsrc (dreader d))"
      using step by (auto split: sum.splits)
    have data: "evData ev = []" "error_before_data rest (chunkEnd (rsrc (dreader d))) = Some err"
      using less.prems(4) nxt by (simp_all add: error_before_data.simps [of "text_left chunk_text d"] split: if_splits)
    have small: "left (\<lambda>s. length (chunk_text s)) (dreader d1) < left (\<lambda>s. length (chunk_text s)) (dreader d)"
      using chunk_shrinks dec Inr by blast
    show ?thesis
      using less.hyps [OF small d1(2), of "st\<lparr>pendingBytes := pendingBytes st @ Encode ev\<rparr>"] less.prems(2,3) data d1 dec Inr
      by (simp add: proxy_loop.simps [of E w d] proxy_event_def ErrEventTooLarge_def)
  qed
qed

subsection \<open>Properties\<close>

lemma proxy_start:
  assumes "canFlush E"
  obtains w st where "Proxy E idle b = proxy_loop E w (NewDecoder b) st stream_headers"
    "held_ok st" "\<not> seenDone st" "\<not> firstDataWritten st" "pendingBytes st = []"
  by (rule that [of "idle > 0" "\<lparr>seenDone = False, firstDataWritten = False, firstDataNotified = False, pendingBytes = [], idleTimeout = idle\<rparr>"])
    (simp_all add: Proxy_def held_ok_def assms)

lemma written_headers [simp]: "written stream_headers = []"
  by (simp add: stream_headers_def)

lemma complete_stream:
  assumes "chunk_ok b" "benign E" "events_of (Suc (length es)) (chunk_text b) (chunkEnd b) = map Inr (es @ [e])"
    and "\<forall>x \<in> set es. \<not> has_done x" "has_done e" "length (concat (map Encode (es @ [e]))) \<le> MaxEventSize"
  shows "fst (Proxy E idle b) = nil_error"
proof -
  have "canFlush E" using assms(2) by (simp add: benign_def)
  then obtain w st where st: "Proxy E idle b = proxy_loop E w (NewDecoder b) st stream_headers"
    "held_ok st" "\<not> seenDone st" "pendingBytes st = []" by (rule proxy_start)
  then show ?thesis
    using benign_loop [OF new_decoder(1) [OF assms(1)] assms(2), of st es e w stream_headers] assms(3-6) new_decoder
    by simp
qed

text \<open>C14: A relayed stream is complete and ends with its terminal marker. When \<open>Proxy\<close> returns without
  an error, whatever the client and the clock did meanwhile, the upstream stream begins with events of
  which the last is the first to carry a [DONE] value, and the client has received exactly the
  encodings of these events in order, the last one cut after the marker, and nothing else.\<close>

theorem proxy_relays:
  assumes "chunk_ok b" "Proxy E idle b = (nil_error, lg)"
  shows "\<exists>es e. events_of (Suc (length es)) (chunk_text b) (chunkEnd b) = map Inr (es @ [e])
    \<and> (\<forall>x \<in> set es. \<not> has_done x) \<and> has_done e
    \<and> written lg = concat (map Encode es) @ Encode (e\<lparr>evData := snd (cut_done (evData e))\<rparr>)"
proof -
  have "canFlush E" using assms(2) by (auto simp: Proxy_def ErrNoFlusher_def split: if_splits)
  then obtain w st where st: "Proxy E idle b = proxy_loop E w (NewDecoder b) st stream_headers"
    "held_ok st" "\<not> seenDone st" "pendingBytes st = []" by (rule proxy_start)
  then show ?thesis
    using proxy_loop_relays [OF new_decoder(1) [OF assms(1)], of E w st stream_headers lg] assms(2)
    by (simp add: new_decoder done_event_def)
qed

text \<open>C15: A complete stream is relayed to a client that keeps up. When the stream reaches an event with
  a [DONE] value without an error, its encoding up to there is at most 4 MiB, every write succeeds, no
  flush stalls and the caller's completion hook agrees, \<open>Proxy\<close> returns without an error, whether or
  not the connection supports write deadlines.\<close>

theorem proxy_completes:
  assumes "chunk_ok b" "benign E" "events_of (Suc (length es)) (chunk_text b) (chunkEnd b) = map Inr (es @ [e])"
    and "\<forall>x \<in> set es. \<not> has_done x" "has_done e" "length (concat (map Encode (es @ [e]))) \<le> MaxEventSize"
  shows "fst (Proxy E idle b) = nil_error"
  by (rule complete_stream [OF assms])

text \<open>A stream that fails before its first event with data leaves the response untouched. \<open>Proxy\<close>
  then returns an error and has neither marked the response as committed nor written a status, a
  byte or a flush: it has only set the headers, and the caller may still answer or retry.\<close>

theorem proxy_uncommitted:
  assumes "chunk_ok b" "canFlush E" "error_before_data (chunk_text b) (chunkEnd b) = Some err"
  shows "snd (Proxy E idle b) = stream_headers \<and> fst (Proxy E idle b) \<noteq> nil_error"
proof -
  obtain w st where "Proxy E idle b = proxy_loop E w (NewDecoder b) st stream_headers"
    "\<not> seenDone st" "\<not> firstDataWritten st" using assms(2) by (rule proxy_start)
  then show ?thesis
    using no_data_loop [OF new_decoder(1) [OF assms(1)], of st err E w stream_headers] assms(3) by (simp add: new_decoder)
qed

subsection \<open>Witnesses\<close>

definition sample_client :: proxyEnv where
  "sample_client = \<lparr>canFlush = True, ctxError = (\<lambda>l. nil_error), writeError = (\<lambda>l. nil_error), deadlineError = (\<lambda>l. nil_error),
     flushStalled = (\<lambda>l. False), watchdogFired = (\<lambda>l. False), BeforeComplete = Some (\<lambda>l. nil_error), hasOnFirstData = True,
     hasOnData = True, hasOnComplete = True, hasCommitState = True\<rparr>"

definition final_event :: sseEvent where
  "final_event = emptyEvent\<lparr>evData := [done_marker]\<rparr>"

definition sample_stream :: chunkSource where
  "sample_stream = \<lparr>chunks = [Encode sample_sse, Encode final_event], chunkEnd = [EOF]\<rparr>"

lemma final_event_clean: "clean_event final_event"
  by (simp add: clean_event_def final_event_def done_marker_def emptyEvent_def event_IsEmpty_def one_line_def Encode_def
      encode_data_def normalize_newlines_def field_line_def MaxEventSize_def)

lemma sample_client_benign: "benign sample_client"
  by (simp add: benign_def sample_client_def)

lemma sample_stream_ok: "chunk_ok sample_stream"
  by (simp add: sample_stream_def chunk_ok_def Encode_def)

lemma sample_sent:
  "sent sample_sse = emptyEvent\<lparr>evData := [''a'', ''event: b'']\<rparr>" "sent final_event = final_event"
  by (simp_all add: sent_def sample_sse_def final_event_def data_lines_def normalize_newlines_def done_marker_def)

lemma sample_stream_events:
  "events_of (Suc (length [sent sample_sse])) (chunk_text sample_stream) (chunkEnd sample_stream)
    = map Inr ([sent sample_sse] @ [final_event])"
  using next_event_encoded [OF sample_sse_clean, of "Encode final_event"] next_event_encoded [OF final_event_clean, of "[]"]
  by (simp add: sample_stream_def chunk_text_def sample_sent)

lemma sample_trimmed:
  "trim_space ''a'' = ''a''" "trim_space ''event: b'' = ''event: b''" "trim_space ''[DONE]'' = ''[DONE]''"
  by code_simp+

lemma sample_stream_done:
  "\<forall>x \<in> set [sent sample_sse]. \<not> has_done x" "has_done final_event"
  "length (concat (map Encode ([sent sample_sse] @ [final_event]))) \<le> MaxEventSize"
  unfolding sample_sent
  by (simp_all add: sample_trimmed has_done_iff final_event_def done_marker_def emptyEvent_def Encode_def encode_data_def
      normalize_newlines_def field_line_def MaxEventSize_def)

theorem proxy_completes_witness: "fst (Proxy sample_client 5 sample_stream) = nil_error"
  by (rule proxy_completes [OF sample_stream_ok sample_client_benign sample_stream_events sample_stream_done])

theorem proxy_relays_witness:
  "\<exists>es e. events_of (Suc (length es)) (chunk_text sample_stream) [EOF] = map Inr (es @ [e])
    \<and> written (snd (Proxy sample_client 5 sample_stream))
      = concat (map Encode es) @ Encode (e\<lparr>evData := snd (cut_done (evData e))\<rparr>)"
proof -
  have "Proxy sample_client 5 sample_stream = (nil_error, snd (Proxy sample_client 5 sample_stream))"
    using complete_stream [OF sample_stream_ok sample_client_benign sample_stream_events sample_stream_done, of 5]
    by (simp add: prod_eq_iff)
  from proxy_relays [OF sample_stream_ok this] show ?thesis by (auto simp: sample_stream_def)
qed

theorem proxy_uncommitted_witness:
  "snd (Proxy sample_client 5 \<lparr>chunks = [], chunkEnd = [EOF]\<rparr>) = stream_headers"
proof -
  let ?b = "\<lparr>chunks = [], chunkEnd = [EOF]\<rparr>"
  have "error_before_data (chunk_text ?b) (chunkEnd ?b) = Some [EOF]"
    by (simp add: chunk_text_def error_before_data.simps [of "[]"] next_event_end)
  from proxy_uncommitted [OF _ _ this] show ?thesis by (simp add: chunk_ok_def sample_client_def)
qed

end
