(* ===== verification/Go_Sort.thy ===== *)
theory Go_Sort
  imports Prelude "HOL-Library.Multiset"
begin

text \<open>
  \<open>sort.SliceStable\<close> of Go: insertion of each element from the right into the sorted part before it, which
  is kept reversed here. Under a comparison that a key describes it is the stable sort by that key.
\<close>

fun insert_left :: "('a \<Rightarrow> 'a \<Rightarrow> bool) \<Rightarrow> 'a \<Rightarrow> 'a list \<Rightarrow> 'a list" where
  "insert_left lt x [] = [x]"
| "insert_left lt x (y # ys) = (if lt x y then y # insert_left lt x ys else x # y # ys)"

definition slice_stable :: "('a \<Rightarrow> 'a \<Rightarrow> bool) \<Rightarrow> 'a list \<Rightarrow> 'a list" where
  "slice_stable lt xs = rev (fold (insert_left lt) xs [])"

lemma insert_left_mset [simp]: "mset (insert_left lt x ys) = add_mset x (mset ys)"
  by (induction ys) auto

lemma insert_left_set [simp]: "set (insert_left lt x ys) = insert x (set ys)"
  by (induction ys) auto

lemma insert_left_sorted:
  assumes "\<And>x y. lt x y \<longleftrightarrow> f x < f y" "sorted_wrt (\<lambda>a b. f b \<le> f a) ys"
  shows "sorted_wrt (\<lambda>a b. f b \<le> (f a :: 'b :: linorder)) (insert_left lt x ys)"
  using assms(2)
proof (induction ys)
  case (Cons y ys)
  show ?case
  proof (cases "lt x y")
    case True
    then show ?thesis using Cons assms(1) by auto
  next
    case False
    then have "f y \<le> f x" using assms(1) by simp
    moreover have "\<And>z. z \<in> set ys \<Longrightarrow> f z \<le> f y" using Cons.prems by simp
    ultimately show ?thesis using Cons.prems False by (auto intro: order_trans)
  qed
qed simp

lemma insert_left_stable:
  assumes "\<And>x y. lt x y \<longleftrightarrow> f x < (f y :: 'b :: linorder)" "sorted_wrt (\<lambda>a b. f b \<le> f a) ys"
  shows "filter (\<lambda>z. f k = f z) (insert_left lt x ys) = (if f k = f x then [x] else []) @ filter (\<lambda>z. f k = f z) ys"
  using assms(2)
proof (induction ys)
  case (Cons y ys)
  then show ?case using assms(1) by auto
qed simp

text \<open>A stable sort by a comparison that a key describes is the library's stable sort by that key.\<close>

lemma slice_stable_sort_key:
  assumes lt: "\<And>x y. lt x y \<longleftrightarrow> f x < (f y :: 'b :: linorder)"
  shows "slice_stable lt xs = sort_key f xs"
proof -
  have fold: "sorted_wrt (\<lambda>a b. f b \<le> f a) (fold (insert_left lt) xs acc) \<and> mset (fold (insert_left lt) xs acc) = mset acc + mset xs
      \<and> filter (\<lambda>z. f k = f z) (fold (insert_left lt) xs acc) = rev (filter (\<lambda>z. f k = f z) xs) @ filter (\<lambda>z. f k = f z) acc"
    if "sorted_wrt (\<lambda>a b. f b \<le> f a) acc" for k acc
    using that
  proof (induction xs arbitrary: acc)
    case (Cons x xs)
    show ?case
      using Cons.IH [OF insert_left_sorted [of lt f, OF lt Cons.prems]] insert_left_stable [of lt f, OF lt Cons.prems] by simp
  qed simp
  have "sorted (map f (slice_stable lt xs))"
    using fold [of "[]"] by (simp add: slice_stable_def sorted_map sorted_wrt_rev)
  moreover have "filter (\<lambda>z. f k = f z) (slice_stable lt xs) = filter (\<lambda>z. f k = f z) xs" for k
    using fold [of "[]" k] by (simp add: slice_stable_def flip: rev_filter)
  moreover have "mset (slice_stable lt xs) = mset xs" using fold [of "[]"] by (simp add: slice_stable_def)
  ultimately show ?thesis by (intro properties_for_sort_key [symmetric]) auto
qed

end
