(* ===== verification/Exit_Proxy.thy ===== *)
theory Exit_Proxy
  imports Go_Sort "HOL-Library.Word"
begin

text \<open>
  \<open>internal/xkproxy/model.go\<close> and the scoring part of \<open>pool.go\<close>: an exit of the proxy pool with its
  lifecycle and its quality, and the two orders in which exits are tried. Counters of type \<open>uint64\<close> are
  64-bit words; floating-point intermediate values are reals, rounded where the code rounds.
\<close>

record exitProxy =
  Scheme :: string
  Address :: string
  Username :: string
  Password :: string
  FetchedAt :: time
  ValidatedAt :: time
  exitExpiresAt :: time
  HealthFails :: int
  EjectedUntil :: time
  EjectionCount :: int
  LatencyEWMA :: duration
  SuccessCount :: "64 word"
  FailureCount :: "64 word"
  LastSuccessAt :: time
  RequestSuccessCount :: "64 word"
  RequestFailureCount :: "64 word"
  RequestFailureStreak :: int
  RequestLatencyEWMA :: duration
  RequestLatencySamples :: int
  HTTPFailCount :: int
  LastRequestSuccessAt :: time
  LastFailureAt :: time
  LastHTTPFailureAt :: time
  LastHTTPFailureStatus :: int
  LatencySamples :: int

definition NUL :: char where "NUL = CHR 0x00"

definition exit_Key :: "exitProxy \<Rightarrow> string" where
  "exit_Key p = Scheme p @ NUL # Address p @ NUL # Username p @ NUL # Password p"

definition LiveAt :: "exitProxy \<Rightarrow> time \<Rightarrow> bool" where
  "LiveAt p now \<longleftrightarrow> Address p \<noteq> [] \<and> now < exitExpiresAt p"

definition EjectedAt :: "exitProxy \<Rightarrow> time \<Rightarrow> bool" where
  "EjectedAt p now \<longleftrightarrow> now < EjectedUntil p"

definition AvailableAt :: "exitProxy \<Rightarrow> time \<Rightarrow> bool" where
  "AvailableAt p now \<longleftrightarrow> LiveAt p now \<and> \<not> EjectedAt p now"

definition RemainingLife :: "exitProxy \<Rightarrow> time \<Rightarrow> duration" where
  "RemainingLife p now = (let remaining = time_sub (exitExpiresAt p) now in if remaining > 0 then remaining else 0)"

definition matches :: "exitProxy \<Rightarrow> string \<Rightarrow> bool" where
  "matches p identity \<longleftrightarrow> Address p = identity \<or> exit_Key p = identity"

subsection \<open>Policy\<close>

record ejectionPolicy =
  FailureLimit :: int
  BaseDuration :: duration
  MaxDuration :: duration
  MaxEjections :: int
  LatencyAlpha :: real
  HTTPFailureLimit :: int

definition normalized :: "ejectionPolicy \<Rightarrow> ejectionPolicy" where
  "normalized e =
     (let base = if BaseDuration e \<le> 0 then 10 * second else BaseDuration e
      in \<lparr>FailureLimit = if FailureLimit e \<le> 0 then 3 else FailureLimit e,
          BaseDuration = base,
          MaxDuration = if MaxDuration e < base then base else MaxDuration e,
          MaxEjections = if MaxEjections e \<le> 0 then 3 else MaxEjections e,
          LatencyAlpha = if LatencyAlpha e \<le> 0 \<or> LatencyAlpha e > 1 then 3 / 10 else LatencyAlpha e,
          HTTPFailureLimit = if HTTPFailureLimit e \<le> 0 then 6 else HTTPFailureLimit e\<rparr>)"

definition ejectionWindow :: "ejectionPolicy \<Rightarrow> int \<Rightarrow> duration" where
  "ejectionWindow policy ejections =
     (let window = wrap64 (BaseDuration policy * ejections)
      in if window > MaxDuration policy then MaxDuration policy else window)"

text \<open>The conversion of a floating-point number to an integer drops its fraction.\<close>

definition trunc :: "real \<Rightarrow> int" where
  "trunc x = (if x < 0 then \<lceil>x\<rceil> else \<lfloor>x\<rfloor>)"

definition blendLatency :: "duration \<Rightarrow> duration \<Rightarrow> real \<Rightarrow> duration" where
  "blendLatency previous sample alpha =
     (if previous \<le> 0 then sample else trunc (alpha * of_int sample + (1 - alpha) * of_int previous))"

subsection \<open>Quality\<close>

definition slowLatencyFactor :: int where "slowLatencyFactor = 3"
definition qualityExploreEvery :: nat where "qualityExploreEvery = 8"
definition qualityMinRequestSamples :: "64 word" where "qualityMinRequestSamples = 3"

definition RequestSamples :: "exitProxy \<Rightarrow> 64 word" where
  "RequestSamples p = RequestSuccessCount p + RequestFailureCount p"

definition EffectiveRequestLatency :: "exitProxy \<Rightarrow> duration" where
  "EffectiveRequestLatency p = (if RequestLatencyEWMA p > 0 then RequestLatencyEWMA p else LatencyEWMA p)"

definition minInt :: "int \<Rightarrow> int \<Rightarrow> int" where
  "minInt value limit = (if value < limit then value else limit)"

text \<open>\<open>math.Round\<close>: the nearest integer, halves away from zero.\<close>

definition math_round :: "real \<Rightarrow> int" where
  "math_round x = (if x < 0 then - \<lfloor>1 / 2 - x\<rfloor> else \<lfloor>x + 1 / 2\<rfloor>)"

definition success_score :: "exitProxy \<Rightarrow> int" where
  "success_score p =
     (let samples = RequestSamples p
      in if samples > 0 then
           let successRate = real (unat (RequestSuccessCount p)) / real (unat samples);
               confidence = min (real (unat samples)) 10 / 10
           in math_round ((successRate - 1 / 2) * 60 * confidence)
         else 0)"

definition latency_penalty :: "exitProxy \<Rightarrow> int" where
  "latency_penalty p =
     (if RequestLatencyEWMA p > 0 then
        if RequestLatencyEWMA p > 800 * millisecond then 15
        else if RequestLatencyEWMA p > 300 * millisecond then 8
        else if RequestLatencyEWMA p > 100 * millisecond then 3 else 0
      else if LatencyEWMA p > 0 then
        if LatencyEWMA p > 3 * second then 15
        else if LatencyEWMA p > 2 * second then 8
        else if LatencyEWMA p > second then 3 else 0
      else 0)"

definition QualityScore :: "exitProxy \<Rightarrow> int" where
  "QualityScore p =
     (let score = 50 + success_score p - minInt (wrap64 (HTTPFailCount p * 10)) 30 - minInt (wrap64 (HealthFails p * 10)) 30
                  - minInt (wrap64 (RequestFailureStreak p * 8)) 30 - latency_penalty p
      in if score < 0 then 0 else if score > 100 then 100 else score)"

subsection \<open>Orders of candidates\<close>

text \<open>The smallest positive latency, as both loops over the candidates compute it.\<close>

definition fastest_of :: "duration list \<Rightarrow> duration" where
  "fastest_of ls = fold (\<lambda>l fastest. if l \<le> 0 then fastest else if fastest = 0 \<or> l < fastest then l else fastest) ls 0"

definition relativeSlowThreshold :: "exitProxy list \<Rightarrow> duration" where
  "relativeSlowThreshold candidates =
     (let fastest = fastest_of (map RequestLatencyEWMA candidates)
      in if fastest = 0 then 0 else wrap64 (fastest * slowLatencyFactor))"

definition latency_less :: "duration \<Rightarrow> duration \<Rightarrow> bool" where
  "latency_less a b = (if a \<le> 0 then False else if b \<le> 0 then True else a < b)"

definition is_slow :: "duration \<Rightarrow> exitProxy \<Rightarrow> bool" where
  "is_slow threshold p \<longleftrightarrow> threshold > 0 \<and> RequestLatencyEWMA p > threshold"

definition quality_less :: "duration \<Rightarrow> exitProxy \<Rightarrow> exitProxy \<Rightarrow> bool" where
  "quality_less threshold a b =
     (if is_slow threshold a \<noteq> is_slow threshold b then \<not> is_slow threshold a
      else if QualityScore a \<noteq> QualityScore b then QualityScore a > QualityScore b
      else latency_less (EffectiveRequestLatency a) (EffectiveRequestLatency b))"

definition orderByQuality :: "exitProxy list \<Rightarrow> exitProxy list" where
  "orderByQuality candidates = slice_stable (quality_less (relativeSlowThreshold candidates)) candidates"

definition demoteSlow :: "exitProxy list \<Rightarrow> exitProxy list" where
  "demoteSlow candidates =
     (let fastest = fastest_of (map LatencyEWMA candidates)
      in if fastest = 0 then candidates
         else let threshold = wrap64 (fastest * slowLatencyFactor);
                  fast = filter (\<lambda>p. \<not> LatencyEWMA p > threshold) candidates;
                  slow = filter (\<lambda>p. LatencyEWMA p > threshold) candidates
              in if slow = [] then candidates else fast @ slow)"

definition rotate_start :: "64 word \<Rightarrow> nat \<Rightarrow> nat" where
  "rotate_start cursor n = unat cursor mod n"

definition exit_rotate :: "64 word \<Rightarrow> exitProxy list \<Rightarrow> exitProxy list" where
  "exit_rotate cursor source =
     (let n = length source; start = n - 1 - rotate_start cursor n
      in demoteSlow (map (\<lambda>offset. source ! ((start + n - offset) mod n)) [0 ..< n]))"

definition rotateLatency :: "64 word \<Rightarrow> exitProxy list \<Rightarrow> exitProxy list" where
  "rotateLatency cursor source =
     (let ordered = slice_stable (\<lambda>a b. latency_less (LatencyEWMA a) (LatencyEWMA b)) source;
          start = rotate_start cursor (length source)
      in drop start ordered @ take start ordered)"

definition rotateFor :: "64 word \<Rightarrow> exitProxy list \<Rightarrow> bool \<Rightarrow> exitProxy list" where
  "rotateFor cursor source preferLatency =
     (if preferLatency then rotateLatency cursor source else exit_rotate cursor source)"

subsection \<open>Facts on exits\<close>

lemma AvailableAt_LiveAt [simp]: "AvailableAt p now \<Longrightarrow> LiveAt p now"
  by (simp add: AvailableAt_def)

lemma LiveAt_antimono: "LiveAt p t \<Longrightarrow> s \<le> t \<Longrightarrow> LiveAt p s"
  by (simp add: LiveAt_def)

lemma RemainingLife_nonneg: "0 \<le> RemainingLife p now"
  by (auto simp: RemainingLife_def Let_def time_sub_def)

text \<open>The key names an exit: without NUL bytes in its parts, equal keys have equal parts.\<close>

definition no_NUL :: "exitProxy \<Rightarrow> bool" where
  "no_NUL p \<longleftrightarrow> NUL \<notin> set (Scheme p) \<and> NUL \<notin> set (Address p) \<and> NUL \<notin> set (Username p) \<and> NUL \<notin> set (Password p)"

lemma first_separator:
  "x \<notin> set a \<Longrightarrow> x \<notin> set b \<Longrightarrow> a @ x # c = b @ x # d \<Longrightarrow> a = b \<and> c = d"
proof (induction a arbitrary: b)
  case Nil
  then show ?case by (cases b) auto
next
  case (Cons y ys)
  then show ?case by (cases b) auto
qed

lemma exit_Key_inj:
  assumes "no_NUL p" "no_NUL q" "exit_Key p = exit_Key q"
  shows "Scheme p = Scheme q" "Address p = Address q" "Username p = Username q" "Password p = Password q"
proof -
  have 1: "Scheme p = Scheme q" "Address p @ NUL # Username p @ NUL # Password p = Address q @ NUL # Username q @ NUL # Password q"
    using first_separator [of NUL "Scheme p" "Scheme q"] assms unfolding exit_Key_def no_NUL_def by auto
  then have 2: "Address p = Address q" "Username p @ NUL # Password p = Username q @ NUL # Password q"
    using first_separator [of NUL "Address p" "Address q"] assms unfolding no_NUL_def by auto
  have "Username p = Username q \<and> Password p = Password q"
    using first_separator [OF _ _ 2(2)] assms unfolding no_NUL_def by blast
  with 1 2 show "Scheme p = Scheme q" "Address p = Address q" "Username p = Username q" "Password p = Password q" by simp_all
qed

lemma normalized_bounds:
  "0 < FailureLimit (normalized e)" "0 < BaseDuration (normalized e)" "BaseDuration (normalized e) \<le> MaxDuration (normalized e)"
  "0 < MaxEjections (normalized e)" "0 < LatencyAlpha (normalized e)" "LatencyAlpha (normalized e) \<le> 1"
  "0 < HTTPFailureLimit (normalized e)"
  by (simp_all add: normalized_def Let_def)

lemma normalized_idem: "normalized (normalized e) = normalized e"
  by (simp add: normalized_def Let_def)

lemma ejectionWindow_bounds:
  assumes "0 < n" "BaseDuration e * n \<le> 9223372036854775807" "0 < BaseDuration e" "BaseDuration e \<le> MaxDuration e"
  shows "0 < ejectionWindow e n" "ejectionWindow e n \<le> MaxDuration e" "BaseDuration e \<le> ejectionWindow e n"
proof -
  have "BaseDuration e * 1 \<le> BaseDuration e * n" using assms(1,3) by (intro mult_left_mono) auto
  then have base: "BaseDuration e \<le> BaseDuration e * n" by simp
  then have "wrap64 (BaseDuration e * n) = BaseDuration e * n"
    using assms(2,3) base by (intro wrap64_id) (auto simp only: in_int64_def)
  with base show "0 < ejectionWindow e n" "ejectionWindow e n \<le> MaxDuration e" "BaseDuration e \<le> ejectionWindow e n"
    using assms(3,4) by (simp_all add: ejectionWindow_def Let_def)
qed

text \<open>The smoothed latency stays between its old value and the sample.\<close>

lemma blendLatency_between:
  assumes "0 < sample" "0 < alpha" "alpha \<le> 1"
  shows "0 < previous \<Longrightarrow> min previous sample \<le> blendLatency previous sample alpha
      \<and> blendLatency previous sample alpha \<le> max previous sample"
    and "0 < blendLatency previous sample alpha"
proof -
  show between: "min previous sample \<le> blendLatency previous sample alpha \<and> blendLatency previous sample alpha \<le> max previous sample"
    if "0 < previous"
  proof -
    let ?x = "alpha * of_int sample + (1 - alpha) * of_int previous :: real"
    have lo: "of_int (min previous sample) \<le> ?x"
    proof -
      have "alpha * of_int (min previous sample) + (1 - alpha) * of_int (min previous sample) \<le> ?x"
        using assms by (intro add_mono mult_left_mono) auto
      then show ?thesis by (simp add: algebra_simps)
    qed
    have hi: "?x \<le> of_int (max previous sample)"
    proof -
      have "?x \<le> alpha * of_int (max previous sample) + (1 - alpha) * of_int (max previous sample)"
        using assms by (intro add_mono mult_left_mono) auto
      then show ?thesis by (simp add: algebra_simps)
    qed
    have "0 < min previous sample" using that assms(1) by simp
    then have "0 \<le> ?x" using lo by (meson of_int_0_le_iff order.strict_implies_order order_trans)
    then have "blendLatency previous sample alpha = \<lfloor>?x\<rfloor>" using that by (simp add: blendLatency_def trunc_def)
    then show ?thesis using lo hi by (simp add: le_floor_iff floor_le_iff)
  qed
  show "0 < blendLatency previous sample alpha"
  proof (cases "0 < previous")
    case True
    then show ?thesis using between assms(1) by linarith
  next
    case False
    then show ?thesis using assms(1) by (simp add: blendLatency_def)
  qed
qed

lemma QualityScore_bounds: "0 \<le> QualityScore p" "QualityScore p \<le> 100"
  by (simp_all add: QualityScore_def Let_def)

subsection \<open>Facts on the orders\<close>

definition latency_key :: "duration \<Rightarrow> int \<times> int" where
  "latency_key l = (if l \<le> 0 then (1, 0) else (0, l))"

lemma latency_less_key: "latency_less a b \<longleftrightarrow> latency_key a < latency_key b"
  by (auto simp: latency_less_def latency_key_def less_prod_def)

definition quality_key :: "duration \<Rightarrow> exitProxy \<Rightarrow> int \<times> int \<times> int \<times> int" where
  "quality_key threshold p = (if is_slow threshold p then 1 else 0, - QualityScore p, latency_key (EffectiveRequestLatency p))"

lemma quality_less_key: "quality_less threshold a b \<longleftrightarrow> quality_key threshold a < quality_key threshold b"
  by (auto simp: quality_less_def quality_key_def less_prod_def latency_less_key)

lemma orderByQuality_sort:
  "orderByQuality ps = sort_key (quality_key (relativeSlowThreshold ps)) ps"
  unfolding orderByQuality_def by (rule slice_stable_sort_key) (rule quality_less_key)

lemma rotateLatency_sort:
  "rotateLatency cursor ps = rotate (unat cursor mod length ps) (sort_key (\<lambda>p. latency_key (LatencyEWMA p)) ps)"
proof -
  have "slice_stable (\<lambda>a b. latency_less (LatencyEWMA a) (LatencyEWMA b)) ps = sort_key (\<lambda>p. latency_key (LatencyEWMA p)) ps"
    by (rule slice_stable_sort_key) (rule latency_less_key)
  then show ?thesis by (cases "ps = []") (simp_all add: rotateLatency_def rotate_start_def Let_def rotate_drop_take)
qed

lemma demoteSlow_mset [simp]: "mset (demoteSlow ps) = mset ps"
proof -
  have "mset (filter (\<lambda>p. \<not> Q p) ps) + mset (filter Q ps) = mset ps" for Q
    by (induction ps) auto
  then show ?thesis by (simp add: demoteSlow_def Let_def)
qed

lemma rotation_index:
  assumes "k < n" "i < n"
  shows "(n - 1 - k + n - i) mod n = n - 1 - (k + i) mod (n :: nat)"
proof (cases "k + i < n")
  case True
  then have "n - 1 - k + n - i = (n - 1 - (k + i)) + n" using assms by simp
  then have "(n - 1 - k + n - i) mod n = (n - 1 - (k + i)) mod n" by (simp only: mod_add_self2)
  then show ?thesis using True assms by simp
next
  case False
  then have "(k + i) mod n = k + i - n" using assms by (simp add: mod_if)
  moreover have "n - 1 - k + n - i = n - 1 - (k + i - n)" "n - 1 - (k + i - n) < n" using False assms by simp_all
  ultimately show ?thesis by simp
qed

lemma exit_rotate_eq: "exit_rotate cursor ps = demoteSlow (rotate (unat cursor mod length ps) (rev ps))"
proof (cases "ps = []")
  case False
  let ?n = "length ps" and ?k = "unat cursor mod length ps"
  have k: "?k < ?n" using False by simp
  have "map (\<lambda>i. ps ! ((?n - 1 - ?k + ?n - i) mod ?n)) [0 ..< ?n] = rotate ?k (rev ps)"
  proof (rule nth_equalityI)
    fix i assume "i < length (map (\<lambda>i. ps ! ((?n - 1 - ?k + ?n - i) mod ?n)) [0 ..< ?n])"
    then have i: "i < ?n" by simp
    have "(?k + i) mod ?n < ?n" using k by (intro mod_less_divisor) linarith
    then show "map (\<lambda>i. ps ! ((?n - 1 - ?k + ?n - i) mod ?n)) [0 ..< ?n] ! i = rotate ?k (rev ps) ! i"
      using i rotation_index [OF k i] by (simp add: nth_rotate rev_nth)
  qed simp
  then show ?thesis by (simp add: exit_rotate_def rotate_start_def Let_def)
qed (simp add: exit_rotate_def Let_def)

lemma mset_rotate [simp]: "mset (rotate n xs) = mset xs"
proof -
  have "mset (drop k xs @ take k xs) = mset (take k xs @ drop k xs)" for k by (simp only: mset_append add.commute)
  then show ?thesis by (simp only: rotate_drop_take append_take_drop_id)
qed

lemma rotateFor_mset [simp]: "mset (rotateFor cursor ps prefer) = mset ps"
  by (simp add: rotateFor_def rotateLatency_sort exit_rotate_eq)

lemma rotateFor_set [simp]: "set (rotateFor cursor ps prefer) = set ps"
  by (metis rotateFor_mset set_mset_mset)

lemma rotateFor_Nil [simp]: "rotateFor cursor ps prefer = [] \<longleftrightarrow> ps = []"
  by (metis rotateFor_mset mset_zero_iff)

lemma orderByQuality_mset [simp]: "mset (orderByQuality ps) = mset ps"
  by (simp add: orderByQuality_sort)

end
