(* ===== verification/Exit_Pool.thy ===== *)
theory Exit_Pool
  imports Exit_Proxy
begin

text \<open>
  \<open>internal/xkproxy/pool.go\<close>: the pool of upstream exits. Each method under its lock is one function;
  the random-looking rotation is the counter \<open>selectionCursor\<close>, a 64-bit word that wraps around. The
  slices that methods filter in place are lists.
\<close>

datatype exitOutcome = OutcomeCounted | OutcomeEjected | OutcomeRemoved

record stickyEntry =
  stickyKey :: string
  stickyUntil :: time

record exitPool =
  proxies :: "exitProxy list"
  selectionCursor :: "64 word"
  lastUpstreamOverloadAt :: time
  removedUntil :: "string \<rightharpoonup> time"
  stickyBindings :: "string \<rightharpoonup> stickyEntry"

definition httpEjectSuccessWindow :: duration where "httpEjectSuccessWindow = 60 * second"
definition httpFailureWindow :: duration where "httpFailureWindow = 60 * second"
definition httpStatusOverloaded :: int where "httpStatusOverloaded = 529"
definition upstreamOverloadWindow :: duration where "upstreamOverloadWindow = 60 * second"
definition removalCooldown :: duration where "removalCooldown = 5 * minute"

definition NewPool :: exitPool where
  "NewPool = \<lparr>proxies = [], selectionCursor = 0, lastUpstreamOverloadAt = 0, removedUntil = Map.empty, stickyBindings = Map.empty\<rparr>"

definition Replace :: "exitProxy list \<Rightarrow> exitPool \<Rightarrow> exitPool" where
  "Replace ps P = P\<lparr>proxies := ps, removedUntil := Map.empty\<rparr>"

definition exit_Clear :: "exitPool \<Rightarrow> exitPool" where
  "exit_Clear P = Replace [] P"

subsection \<open>Selection\<close>

definition orderedLocked :: "time \<Rightarrow> duration \<Rightarrow> bool \<Rightarrow> exitPool \<Rightarrow> exitProxy list \<times> bool" where
  "orderedLocked now minRemainingLife preferLatency P =
     (let live = filter (\<lambda>p. LiveAt p now) (proxies P);
          available = filter (\<lambda>p. AvailableAt p now) live;
          pick = (\<lambda>ps. rotateFor (selectionCursor P) ps preferLatency)
      in if minRemainingLife \<le> 0 then
           if available \<noteq> [] then (pick available, False)
           else if live \<noteq> [] then (pick live, True)
           else ([], False)
         else
           let preferred = filter (\<lambda>p. RemainingLife p now \<ge> minRemainingLife) available;
               sufficientLive = filter (\<lambda>p. RemainingLife p now \<ge> minRemainingLife) live
           in if preferred \<noteq> [] then (pick preferred, False)
              else if sufficientLive \<noteq> [] then (pick sufficientLive, True)
              else ([], False))"

definition advance :: "exitPool \<Rightarrow> exitPool" where
  "advance P = P\<lparr>selectionCursor := selectionCursor P + 1\<rparr>"

definition CandidatesWithLatency :: "time \<Rightarrow> duration \<Rightarrow> bool \<Rightarrow> exitPool \<Rightarrow> (exitProxy list \<times> bool) \<times> exitPool" where
  "CandidatesWithLatency now minRemainingLife preferLatency P =
     (case orderedLocked now minRemainingLife preferLatency P of
        (ordered, panicMode) \<Rightarrow> if ordered = [] then (([], False), P) else ((ordered, panicMode), advance P))"

definition Candidates :: "time \<Rightarrow> duration \<Rightarrow> exitPool \<Rightarrow> (exitProxy list \<times> bool) \<times> exitPool" where
  "Candidates now minRemainingLife P = CandidatesWithLatency now minRemainingLife False P"

definition first_of :: "exitProxy list \<Rightarrow> exitProxy option" where
  "first_of ps = (case ps of [] \<Rightarrow> None | p # _ \<Rightarrow> Some p)"

definition Peek :: "time \<Rightarrow> exitPool \<Rightarrow> exitProxy option" where
  "Peek now P = first_of (fst (orderedLocked now 0 False P))"

definition exit_Get :: "time \<Rightarrow> exitPool \<Rightarrow> exitProxy option \<times> exitPool" where
  "exit_Get now P = (case Candidates now 0 P of ((candidates, _), P') \<Rightarrow> (first_of candidates, P'))"

definition GetWithLatency :: "time \<Rightarrow> exitPool \<Rightarrow> exitProxy option \<times> exitPool" where
  "GetWithLatency now P = (case CandidatesWithLatency now 0 True P of ((candidates, _), P') \<Rightarrow> (first_of candidates, P'))"

definition explorable :: "exitProxy \<Rightarrow> bool" where
  "explorable p \<longleftrightarrow> RequestSamples p < qualityMinRequestSamples \<and> HTTPFailCount p = 0 \<and> HealthFails p = 0 \<and> RequestFailureStreak p = 0"

definition GetWithQuality :: "time \<Rightarrow> exitPool \<Rightarrow> exitProxy option \<times> exitPool" where
  "GetWithQuality now P =
     (case orderedLocked now 0 False P of
        (candidates, _) \<Rightarrow>
          if candidates = [] then (None, P)
          else
            let ordered = orderByQuality candidates;
                selection = unat (selectionCursor P)
            in (if selection mod qualityExploreEvery = qualityExploreEvery - 1 then
                  case find explorable (tl ordered) of
                    Some candidate \<Rightarrow> Some candidate
                  | None \<Rightarrow> first_of ordered
                else first_of ordered,
                advance P))"

subsection \<open>Expiry\<close>

definition pruneRemovedLocked :: "time \<Rightarrow> (string \<rightharpoonup> time) \<Rightarrow> (string \<rightharpoonup> time)" where
  "pruneRemovedLocked now m = (\<lambda>k. case m k of Some until \<Rightarrow> if now < until then Some until else None | None \<Rightarrow> None)"

definition pruneLocked :: "time \<Rightarrow> exitPool \<Rightarrow> exitPool" where
  "pruneLocked now P =
     P\<lparr>proxies := filter (\<lambda>p. LiveAt p now) (proxies P), removedUntil := pruneRemovedLocked now (removedUntil P)\<rparr>"

definition exit_Prune :: "time \<Rightarrow> exitPool \<Rightarrow> int \<times> exitPool" where
  "exit_Prune now P = (int (length (proxies P)) - int (length (proxies (pruneLocked now P))), pruneLocked now P)"

definition grace_one :: "time \<Rightarrow> duration \<Rightarrow> duration \<Rightarrow> exitProxy \<Rightarrow> exitProxy \<times> bool" where
  "grace_one now grace maxLifetime p =
     (if \<not> LiveAt p now \<or> ValidatedAt p = 0 then (p, False)
      else
        let cap = ValidatedAt p + maxLifetime;
            candidate = exitExpiresAt p + grace;
            capped = (if candidate > cap then cap else candidate)
        in if capped > exitExpiresAt p then (p\<lparr>exitExpiresAt := capped\<rparr>, True) else (p, False))"

definition Grace :: "time \<Rightarrow> duration \<Rightarrow> duration \<Rightarrow> exitPool \<Rightarrow> int \<times> exitPool" where
  "Grace now grace maxLifetime P =
     (if grace \<le> 0 \<or> maxLifetime \<le> 0 then (0, P)
      else let rs = map (grace_one now grace maxLifetime) (proxies P)
           in (int (length (filter snd rs)), P\<lparr>proxies := map fst rs\<rparr>))"

subsection \<open>Merging a fetch\<close>

definition refresh :: "ejectionPolicy \<Rightarrow> exitProxy \<Rightarrow> exitProxy \<Rightarrow> exitProxy" where
  "refresh policy candidate current0 =
     (let c1 = current0\<lparr>ValidatedAt := ValidatedAt candidate, Scheme := Scheme candidate,
                 Username := Username candidate, Password := Password candidate\<rparr>;
          c2 = (if LatencyEWMA candidate > 0
                then c1\<lparr>LatencyEWMA := blendLatency (LatencyEWMA c1) (LatencyEWMA candidate) (LatencyAlpha policy),
                        LatencySamples := LatencySamples c1 + 1\<rparr>
                else c1);
          c3 = (if FetchedAt candidate \<noteq> 0 \<and> (FetchedAt c2 = 0 \<or> FetchedAt candidate < FetchedAt c2)
                then c2\<lparr>FetchedAt := FetchedAt candidate\<rparr> else c2);
          c4 = (if exitExpiresAt candidate \<noteq> 0 then c3\<lparr>exitExpiresAt := exitExpiresAt candidate\<rparr> else c3);
          c5 = c4\<lparr>SuccessCount := SuccessCount c4 + 1, LastSuccessAt := ValidatedAt candidate\<rparr>
      in if HealthFails c5 > 0 then c5\<lparr>HealthFails := HealthFails c5 - 1\<rparr> else c5)"

definition key_index :: "exitProxy list \<Rightarrow> string \<rightharpoonup> nat" where
  "key_index ps = fold (\<lambda>i m. m(exit_Key (ps ! i) \<mapsto> i)) [0 ..< length ps] Map.empty"

definition merge_one ::
  "ejectionPolicy \<Rightarrow> time \<Rightarrow> (string \<rightharpoonup> time) \<Rightarrow> exitProxy \<Rightarrow> exitProxy list \<times> (string \<rightharpoonup> nat) \<Rightarrow> exitProxy list \<times> (string \<rightharpoonup> nat)" where
  "merge_one policy now gone candidate = (\<lambda>(ps, index).
     if \<not> LiveAt candidate now then (ps, index)
     else if (case gone (exit_Key candidate) of Some until \<Rightarrow> now < until | None \<Rightarrow> False) then (ps, index)
     else case index (exit_Key candidate) of
       None \<Rightarrow> (ps @ [candidate], index(exit_Key candidate \<mapsto> length ps))
     | Some position \<Rightarrow>
         let current = refresh policy candidate (ps ! position)
         in if EjectionCount current > MaxEjections policy then (ps, index)
            else (ps[position := current], index))"

definition Merge :: "time \<Rightarrow> exitProxy list \<Rightarrow> ejectionPolicy \<Rightarrow> exitPool \<Rightarrow> exitPool" where
  "Merge now incoming policies P =
     (let policy = normalized policies;
          P1 = pruneLocked now P
      in P1\<lparr>proxies := fst (fold (merge_one policy now (removedUntil P1)) incoming (proxies P1, key_index (proxies P1)))\<rparr>)"

definition exit_Remove :: "string \<Rightarrow> exitPool \<Rightarrow> exitPool" where
  "exit_Remove identity P = P\<lparr>proxies := filter (\<lambda>p. \<not> matches p identity) (proxies P)\<rparr>"

subsection \<open>Reports\<close>

text \<open>A reported exit survives with its new state, or is dropped and remembered as removed; the outcome
  of the report accumulates over the exits it matches.\<close>

type_synonym reportAcc = "exitProxy list \<times> (string \<rightharpoonup> time) \<times> exitOutcome"

definition isolate :: "ejectionPolicy \<Rightarrow> time \<Rightarrow> (exitProxy \<Rightarrow> exitProxy) \<Rightarrow> exitProxy \<Rightarrow> reportAcc \<Rightarrow> reportAcc" where
  "isolate policy now reset p0 = (\<lambda>(survivors, gone, outcome).
     let p = p0\<lparr>EjectionCount := EjectionCount p0 + 1\<rparr>
     in if EjectionCount p > MaxEjections policy
        then (survivors, gone(exit_Key p \<mapsto> now + removalCooldown), OutcomeRemoved)
        else (survivors @ [(reset p)\<lparr>EjectedUntil := now + ejectionWindow policy (EjectionCount p)\<rparr>], gone,
              if outcome \<noteq> OutcomeRemoved then OutcomeEjected else outcome))"

definition count_failure :: "time \<Rightarrow> exitProxy \<Rightarrow> exitProxy" where
  "count_failure now p =
     p\<lparr>FailureCount := FailureCount p + 1, RequestFailureCount := RequestFailureCount p + 1,
       RequestFailureStreak := RequestFailureStreak p + 1, HealthFails := HealthFails p + 1, LastFailureAt := now\<rparr>"

definition report_failure_one :: "ejectionPolicy \<Rightarrow> time \<Rightarrow> string \<Rightarrow> exitProxy \<Rightarrow> reportAcc \<Rightarrow> reportAcc" where
  "report_failure_one policy now identity p0 acc =
     (if \<not> matches p0 identity then (fst acc @ [p0], snd acc)
      else let p = count_failure now p0
           in if HealthFails p < FailureLimit policy then (fst acc @ [p], snd acc)
              else isolate policy now (\<lambda>q. q\<lparr>HealthFails := 0\<rparr>) p acc)"

definition apply_report :: "(exitProxy \<Rightarrow> reportAcc \<Rightarrow> reportAcc) \<Rightarrow> exitPool \<Rightarrow> exitOutcome \<times> exitPool" where
  "apply_report f P =
     (case fold f (proxies P) ([], removedUntil P, OutcomeCounted) of
        (survivors, gone, outcome) \<Rightarrow> (outcome, P\<lparr>proxies := survivors, removedUntil := gone\<rparr>))"

definition ReportFailure :: "string \<Rightarrow> time \<Rightarrow> ejectionPolicy \<Rightarrow> exitPool \<Rightarrow> exitOutcome \<times> exitPool" where
  "ReportFailure identity now policies P =
     apply_report (report_failure_one (normalized policies) now identity) (pruneLocked now P)"

definition hasRecentRequestSuccessLocked :: "time \<Rightarrow> exitPool \<Rightarrow> bool" where
  "hasRecentRequestSuccessLocked now P \<longleftrightarrow>
     list_ex (\<lambda>p. LastRequestSuccessAt p \<noteq> 0 \<and> time_sub now (LastRequestSuccessAt p) \<le> httpEjectSuccessWindow) (proxies P)"

definition count_http_failure :: "ejectionPolicy \<Rightarrow> time \<Rightarrow> int \<Rightarrow> exitProxy \<Rightarrow> exitProxy" where
  "count_http_failure policy now status p0 =
     (let prevFailureAt = LastHTTPFailureAt p0;
          p = p0\<lparr>FailureCount := FailureCount p0 + 1, LastFailureAt := now, LastHTTPFailureAt := now,
                 LastHTTPFailureStatus := status, RequestFailureCount := RequestFailureCount p0 + 1,
                 HTTPFailCount := if HTTPFailCount p0 < HTTPFailureLimit policy then HTTPFailCount p0 + 1 else HTTPFailCount p0\<rparr>
      in if prevFailureAt \<noteq> 0 \<and> time_sub now prevFailureAt > httpFailureWindow then p\<lparr>HTTPFailCount := 1\<rparr> else p)"

definition report_http_one :: "ejectionPolicy \<Rightarrow> bool \<Rightarrow> time \<Rightarrow> int \<Rightarrow> string \<Rightarrow> exitProxy \<Rightarrow> reportAcc \<Rightarrow> reportAcc" where
  "report_http_one policy canEject now status identity p0 acc =
     (if \<not> matches p0 identity then (fst acc @ [p0], snd acc)
      else let p = count_http_failure policy now status p0
           in if \<not> canEject \<or> HTTPFailCount p < HTTPFailureLimit policy then (fst acc @ [p], snd acc)
              else isolate policy now (\<lambda>q. q\<lparr>HTTPFailCount := 0\<rparr>) p acc)"

definition exit_ReportHTTPFailure :: "string \<Rightarrow> time \<Rightarrow> int \<Rightarrow> ejectionPolicy \<Rightarrow> exitPool \<Rightarrow> exitOutcome \<times> exitPool" where
  "exit_ReportHTTPFailure identity now status policies P =
     (let policy = normalized policies; P1 = pruneLocked now P
      in if status = httpStatusOverloaded then (OutcomeCounted, P1\<lparr>lastUpstreamOverloadAt := now\<rparr>)
         else apply_report (report_http_one policy (hasRecentRequestSuccessLocked now P1) now status identity) P1)"

definition recentUpstreamOverload :: "time \<Rightarrow> time \<Rightarrow> bool" where
  "recentUpstreamOverload lastAt now \<longleftrightarrow> lastAt \<noteq> 0 \<and> \<not> now < lastAt \<and> time_sub now lastAt \<le> upstreamOverloadWindow"

definition UpstreamOverloadStatus :: "time \<Rightarrow> exitPool \<Rightarrow> bool \<times> time" where
  "UpstreamOverloadStatus now P = (recentUpstreamOverload (lastUpstreamOverloadAt P) now, lastUpstreamOverloadAt P)"

definition update_matching :: "string \<Rightarrow> (exitProxy \<Rightarrow> exitProxy) \<Rightarrow> exitPool \<Rightarrow> exitPool" where
  "update_matching identity f P = P\<lparr>proxies := map (\<lambda>p. if matches p identity then f p else p) (proxies P)\<rparr>"

definition exit_ReportRequestFailure :: "string \<Rightarrow> time \<Rightarrow> exitPool \<Rightarrow> exitPool" where
  "exit_ReportRequestFailure identity now P =
     update_matching identity
       (\<lambda>p. p\<lparr>RequestFailureCount := RequestFailureCount p + 1, RequestFailureStreak := RequestFailureStreak p + 1, LastFailureAt := now\<rparr>)
       (pruneLocked now P)"

definition add_request_latency :: "ejectionPolicy \<Rightarrow> duration \<Rightarrow> exitProxy \<Rightarrow> exitProxy" where
  "add_request_latency policy latency p =
     p\<lparr>RequestLatencyEWMA := blendLatency (RequestLatencyEWMA p) latency (LatencyAlpha policy),
       RequestLatencySamples := RequestLatencySamples p + 1\<rparr>"

definition record_success :: "ejectionPolicy \<Rightarrow> time \<Rightarrow> duration \<Rightarrow> exitProxy \<Rightarrow> exitProxy" where
  "record_success policy now latency p0 =
     (let p = p0\<lparr>SuccessCount := SuccessCount p0 + 1, RequestSuccessCount := RequestSuccessCount p0 + 1,
                 RequestFailureStreak := 0, LastSuccessAt := now, HTTPFailCount := 0, LastRequestSuccessAt := now,
                 HealthFails := if HealthFails p0 > 0 then HealthFails p0 - 1 else HealthFails p0,
                 EjectionCount := if EjectionCount p0 > 0 then EjectionCount p0 - 1 else EjectionCount p0,
                 EjectedUntil := 0\<rparr>
      in if latency > 0
         then add_request_latency policy latency
                (p\<lparr>LatencyEWMA := blendLatency (LatencyEWMA p) latency (LatencyAlpha policy), LatencySamples := LatencySamples p + 1\<rparr>)
         else p)"

definition ReportSuccess :: "string \<Rightarrow> time \<Rightarrow> duration \<Rightarrow> ejectionPolicy \<Rightarrow> exitPool \<Rightarrow> exitPool" where
  "ReportSuccess identity now latency policies P =
     update_matching identity (record_success (normalized policies) now latency) (pruneLocked now P)"

definition exit_ReportRequestLatency :: "string \<Rightarrow> time \<Rightarrow> duration \<Rightarrow> ejectionPolicy \<Rightarrow> exitPool \<Rightarrow> exitPool" where
  "exit_ReportRequestLatency identity now latency policies P =
     (if latency \<le> 0 then P
      else update_matching identity (add_request_latency (normalized policies) latency) (pruneLocked now P))"

subsection \<open>Views\<close>

definition exit_Size :: "time \<Rightarrow> exitPool \<Rightarrow> int" where
  "exit_Size now P = int (length (filter (\<lambda>p. AvailableAt p now) (proxies P)))"

definition HasHealthy :: "string \<Rightarrow> time \<Rightarrow> exitPool \<Rightarrow> bool" where
  "HasHealthy proxyKey now P \<longleftrightarrow> proxyKey \<noteq> [] \<and> list_ex (\<lambda>p. exit_Key p = proxyKey \<and> AvailableAt p now) (proxies P)"

definition LiveSize :: "time \<Rightarrow> exitPool \<Rightarrow> int" where
  "LiveSize now P = int (length (filter (\<lambda>p. LiveAt p now) (proxies P)))"

definition exit_List :: "time \<Rightarrow> exitPool \<Rightarrow> exitProxy list" where
  "exit_List now P = filter (\<lambda>p. LiveAt p now) (proxies P)"

subsection \<open>Sessions\<close>

definition select_any :: "time \<Rightarrow> duration \<Rightarrow> exitPool \<Rightarrow> (exitProxy list \<times> bool \<times> bool) \<times> exitPool" where
  "select_any now minRemainingLife P =
     (case orderedLocked now minRemainingLife False P of
        (candidates, panicMode) \<Rightarrow>
          if candidates = [] then (([], False, False), P) else ((candidates, panicMode, False), advance P))"

definition forget_session :: "string \<Rightarrow> exitPool \<Rightarrow> exitPool" where
  "forget_session sessionKey P = P\<lparr>stickyBindings := (stickyBindings P)(sessionKey := None)\<rparr>"

definition StickyGet :: "string \<Rightarrow> time \<Rightarrow> duration \<Rightarrow> exitPool \<Rightarrow> (exitProxy list \<times> bool \<times> bool) \<times> exitPool" where
  "StickyGet sessionKey now minRemainingLife P =
     (case stickyBindings P sessionKey of
        Some binding \<Rightarrow>
          if now < stickyUntil binding then
            case find (\<lambda>p. exit_Key p = stickyKey binding \<and> AvailableAt p now \<and> RemainingLife p now \<ge> minRemainingLife) (proxies P) of
              Some bound \<Rightarrow>
                (case orderedLocked now minRemainingLife False P of
                   (allCandidates, panicMode) \<Rightarrow>
                     if allCandidates = [] then (([], False, False), P)
                     else ((bound # filter (\<lambda>c. exit_Key c \<noteq> exit_Key bound) allCandidates, panicMode, True), advance P))
            | None \<Rightarrow> select_any now minRemainingLife (forget_session sessionKey P)
          else select_any now minRemainingLife (forget_session sessionKey P)
      | None \<Rightarrow> select_any now minRemainingLife P)"

definition StickyRebind :: "string \<Rightarrow> string \<Rightarrow> time \<Rightarrow> duration \<Rightarrow> exitPool \<Rightarrow> exitPool" where
  "StickyRebind sessionKey proxyKey now stickyTTL P =
     P\<lparr>stickyBindings := (stickyBindings P)(sessionKey \<mapsto> \<lparr>stickyKey = proxyKey, stickyUntil = now + stickyTTL\<rparr>)\<rparr>"

subsection \<open>Selection, as a filter\<close>

text \<open>The exits whose remaining life is long enough, and of these the ones a selection serves: those not
  isolated, or all of them when every one is isolated.\<close>

definition fitting_exits :: "time \<Rightarrow> duration \<Rightarrow> exitPool \<Rightarrow> exitProxy list" where
  "fitting_exits now life P = filter (\<lambda>p. LiveAt p now \<and> life \<le> RemainingLife p now) (proxies P)"

definition served_exits :: "time \<Rightarrow> duration \<Rightarrow> exitPool \<Rightarrow> exitProxy list" where
  "served_exits now life P =
     (let avail = filter (\<lambda>p. \<not> EjectedAt p now) (fitting_exits now life P)
      in if avail = [] then fitting_exits now life P else avail)"

definition panics :: "time \<Rightarrow> duration \<Rightarrow> exitPool \<Rightarrow> bool" where
  "panics now life P \<longleftrightarrow> fitting_exits now life P \<noteq> [] \<and> (\<forall>p \<in> set (fitting_exits now life P). EjectedAt p now)"

lemma rotateFor_empty [simp]: "rotateFor c [] prefer = []"
  by simp

lemma panics_served:
  "panics now life P \<longleftrightarrow> filter (\<lambda>p. \<not> EjectedAt p now) (fitting_exits now life P) = [] \<and> fitting_exits now life P \<noteq> []"
  by (auto simp: panics_def filter_empty_conv)

lemma orderedLocked_eq:
  "orderedLocked now life prefer P = (rotateFor (selectionCursor P) (served_exits now life P) prefer, panics now life P)"
proof -
  let ?live = "filter (\<lambda>p. LiveAt p now) (proxies P)"
  let ?fit = "fitting_exits now life P"
  have fit: "filter (\<lambda>p. life \<le> RemainingLife p now) ?live = ?fit"
    by (simp add: fitting_exits_def conj_commute)
  have avail: "filter (\<lambda>p. life \<le> RemainingLife p now) (filter (\<lambda>p. AvailableAt p now) ?live) = filter (\<lambda>p. \<not> EjectedAt p now) ?fit"
    unfolding fitting_exits_def filter_filter by (rule filter_cong) (auto simp: AvailableAt_def)
  show ?thesis
  proof (cases "life \<le> 0")
    case True
    then have all: "filter (\<lambda>p. life \<le> RemainingLife p now) ps = ps" for ps
      using RemainingLife_nonneg order_trans by (intro filter_True) blast
    note live = fit [unfolded all] and available = avail [unfolded all]
    show ?thesis using True available [unfolded live]
      by (simp add: orderedLocked_def served_exits_def panics_served Let_def live del: filter_filter)
  next
    case False
    then show ?thesis
      by (simp add: orderedLocked_def served_exits_def panics_served Let_def fit avail del: filter_filter)
  qed
qed

lemma served_exits_Nil: "served_exits now life P = [] \<longleftrightarrow> fitting_exits now life P = []"
  by (auto simp: served_exits_def Let_def)

lemma served_subset: "set (served_exits now life P) \<subseteq> set (fitting_exits now life P)"
  by (auto simp: served_exits_def Let_def)

lemma served_live: "p \<in> set (served_exits now life P) \<Longrightarrow> p \<in> set (proxies P) \<and> LiveAt p now"
  using served_subset [of now life P] by (auto simp: fitting_exits_def)

lemma panics_Nil: "served_exits now life P = [] \<Longrightarrow> \<not> panics now life P"
  by (simp add: served_exits_Nil panics_def)

lemma CandidatesWithLatency_eq:
  "CandidatesWithLatency now life prefer P =
     ((rotateFor (selectionCursor P) (served_exits now life P) prefer, panics now life P),
      if served_exits now life P = [] then P else advance P)"
  by (simp add: CandidatesWithLatency_def orderedLocked_eq panics_Nil)

lemma select_any_eq:
  "select_any now life P =
     ((rotateFor (selectionCursor P) (served_exits now life P) False, panics now life P, False),
      if served_exits now life P = [] then P else advance P)"
  by (simp add: select_any_def orderedLocked_eq panics_Nil)

subsection \<open>Reports, exit by exit\<close>

text \<open>What a report makes of one exit it matches, and which exits it removes.\<close>

definition isolated :: "ejectionPolicy \<Rightarrow> time \<Rightarrow> (exitProxy \<Rightarrow> exitProxy) \<Rightarrow> exitProxy \<Rightarrow> exitProxy option" where
  "isolated policy now reset p =
     (if EjectionCount p + 1 > MaxEjections policy then None
      else Some ((reset (p\<lparr>EjectionCount := EjectionCount p + 1\<rparr>))\<lparr>EjectedUntil := now + ejectionWindow policy (EjectionCount p + 1)\<rparr>))"

definition after_failure :: "ejectionPolicy \<Rightarrow> time \<Rightarrow> string \<Rightarrow> exitProxy \<Rightarrow> exitProxy option" where
  "after_failure policy now identity p =
     (if \<not> matches p identity then Some p
      else if HealthFails p + 1 < FailureLimit policy then Some (count_failure now p)
      else isolated policy now (\<lambda>q. q\<lparr>HealthFails := 0\<rparr>) (count_failure now p))"

definition after_http_failure :: "ejectionPolicy \<Rightarrow> bool \<Rightarrow> time \<Rightarrow> int \<Rightarrow> string \<Rightarrow> exitProxy \<Rightarrow> exitProxy option" where
  "after_http_failure policy canEject now status identity p =
     (if \<not> matches p identity then Some p
      else if \<not> canEject \<or> HTTPFailCount (count_http_failure policy now status p) < HTTPFailureLimit policy
      then Some (count_http_failure policy now status p)
      else isolated policy now (\<lambda>q. q\<lparr>HTTPFailCount := 0\<rparr>) (count_http_failure policy now status p))"

definition mark_removed :: "time \<Rightarrow> (exitProxy \<Rightarrow> exitProxy option) \<Rightarrow> exitProxy list \<Rightarrow> (string \<rightharpoonup> time) \<Rightarrow> (string \<rightharpoonup> time)" where
  "mark_removed now f ps m = (\<lambda>k. if \<exists>p \<in> set ps. exit_Key p = k \<and> f p = None then Some (now + removalCooldown) else m k)"

lemma count_failure_key [simp]:
  "exit_Key (count_failure now p) = exit_Key p" "exit_Key (count_http_failure policy now status p) = exit_Key p"
  "EjectionCount (count_failure now p) = EjectionCount p" "EjectionCount (count_http_failure policy now status p) = EjectionCount p"
  "HealthFails (count_failure now p) = HealthFails p + 1"
  by (simp_all add: count_failure_def count_http_failure_def exit_Key_def Let_def)

lemma exit_Key_counts [simp]: "exit_Key (p\<lparr>EjectionCount := n\<rparr>) = exit_Key p"
  by (simp add: exit_Key_def)

lemma report_fold:
  assumes "\<And>p acc. f p acc = (case g p of Some q \<Rightarrow> (fst acc @ [q], fst (snd acc), h p (snd (snd acc)))
      | None \<Rightarrow> (fst acc, (fst (snd acc))(exit_Key p \<mapsto> now + removalCooldown), h p (snd (snd acc))))"
  shows "fold f ps (s, m, o1) = (s @ List.map_filter g ps, mark_removed now g ps m, fold h ps o1)"
proof (induction ps arbitrary: s m o1)
  case Nil
  then show ?case by (simp add: map_filter_simps mark_removed_def)
next
  case (Cons p ps)
  then show ?case
    by (cases "g p") (auto simp: assms map_filter_simps mark_removed_def fun_eq_iff)
qed

definition failure_outcome :: "(exitProxy \<Rightarrow> bool) \<Rightarrow> (exitProxy \<Rightarrow> exitProxy option) \<Rightarrow> exitProxy \<Rightarrow> exitOutcome \<Rightarrow> exitOutcome" where
  "failure_outcome hit g p outcome =
     (if \<not> hit p then outcome
      else if g p = None then OutcomeRemoved else if outcome \<noteq> OutcomeRemoved then OutcomeEjected else outcome)"

lemma ReportFailure_eq:
  "ReportFailure identity now pol P =
     (let policy = normalized pol; P1 = pruneLocked now P; g = after_failure policy now identity
      in (fold (failure_outcome (\<lambda>p. matches p identity \<and> HealthFails p + 1 \<ge> FailureLimit policy) g) (proxies P1) OutcomeCounted,
          P1\<lparr>proxies := List.map_filter g (proxies P1), removedUntil := mark_removed now g (proxies P1) (removedUntil P1)\<rparr>))"
proof -
  let ?policy = "normalized pol"
  let ?g = "after_failure ?policy now identity"
  let ?hit = "\<lambda>p. matches p identity \<and> HealthFails p + 1 \<ge> FailureLimit ?policy"
  have "report_failure_one ?policy now identity p acc = (case ?g p of
      Some q \<Rightarrow> (fst acc @ [q], fst (snd acc), failure_outcome ?hit ?g p (snd (snd acc)))
    | None \<Rightarrow> (fst acc, (fst (snd acc))(exit_Key p \<mapsto> now + removalCooldown), failure_outcome ?hit ?g p (snd (snd acc))))" for p acc
    by (cases acc)
      (auto simp: report_failure_one_def after_failure_def isolate_def isolated_def failure_outcome_def Let_def)
  from report_fold [OF this] show ?thesis by (simp add: ReportFailure_def apply_report_def Let_def)
qed

lemma exit_ReportHTTPFailure_eq:
  assumes "status \<noteq> httpStatusOverloaded"
  shows "exit_ReportHTTPFailure identity now status pol P =
     (let policy = normalized pol; P1 = pruneLocked now P; ok = hasRecentRequestSuccessLocked now P1;
          g = after_http_failure policy ok now status identity
      in (fold (failure_outcome (\<lambda>p. matches p identity \<and> ok
                 \<and> HTTPFailCount (count_http_failure policy now status p) \<ge> HTTPFailureLimit policy) g) (proxies P1) OutcomeCounted,
          P1\<lparr>proxies := List.map_filter g (proxies P1), removedUntil := mark_removed now g (proxies P1) (removedUntil P1)\<rparr>))"
proof -
  let ?policy = "normalized pol" and ?ok = "hasRecentRequestSuccessLocked now (pruneLocked now P)"
  let ?g = "after_http_failure ?policy ?ok now status identity"
  let ?hit = "\<lambda>p. matches p identity \<and> ?ok \<and> HTTPFailCount (count_http_failure ?policy now status p) \<ge> HTTPFailureLimit ?policy"
  have "report_http_one ?policy ?ok now status identity p acc = (case ?g p of
      Some q \<Rightarrow> (fst acc @ [q], fst (snd acc), failure_outcome ?hit ?g p (snd (snd acc)))
    | None \<Rightarrow> (fst acc, (fst (snd acc))(exit_Key p \<mapsto> now + removalCooldown), failure_outcome ?hit ?g p (snd (snd acc))))" for p acc
    by (cases acc) (auto simp: report_http_one_def after_http_failure_def isolate_def isolated_def failure_outcome_def Let_def)
  from report_fold [OF this] assms show ?thesis by (simp add: exit_ReportHTTPFailure_def apply_report_def Let_def)
qed

end
