(* ===== verification/Exit_Pool_Machine.thy ===== *)
theory Exit_Pool_Machine
  imports Exit_Pool
begin

text \<open>
  The machine of the pool of exits and its invariant: keys are distinct, and no exit whose removal
  cooldown is running is in the pool. Every operation keeps it, the merge of a fetch included, and a
  removed exit stays in quarantine.
\<close>

subsection \<open>The machine of the pool\<close>

text \<open>The operations at non-decreasing instants. Exits that enter the pool have no NUL byte in their
  parts, and a replacement by hand (\<open>Replace\<close>, \<open>Clear\<close>) lists no key twice.\<close>

inductive exit_step :: "time \<Rightarrow> exitPool \<Rightarrow> exitPool \<Rightarrow> bool" where
  step_merge: "\<forall>p \<in> set ps. no_NUL p \<Longrightarrow> exit_step now P (Merge now ps pol P)"
| step_remove: "exit_step now P (exit_Remove identity P)"
| step_failure: "exit_step now P (snd (ReportFailure identity now pol P))"
| step_http: "exit_step now P (snd (exit_ReportHTTPFailure identity now status pol P))"
| step_request: "exit_step now P (exit_ReportRequestFailure identity now P)"
| step_success: "exit_step now P (ReportSuccess identity now latency pol P)"
| step_latency: "exit_step now P (exit_ReportRequestLatency identity now latency pol P)"
| step_prune: "exit_step now P (snd (exit_Prune now P))"
| step_grace: "exit_step now P (snd (Grace now grace maxLifetime P))"
| step_select: "exit_step now P (snd (CandidatesWithLatency now life prefer P))"
| step_quality: "exit_step now P (snd (GetWithQuality now P))"
| step_sticky: "exit_step now P (snd (StickyGet session now life P))"
| step_rebind: "exit_step now P (StickyRebind session k now ttl P)"

inductive exit_run :: "time \<Rightarrow> exitPool \<Rightarrow> bool" where
  run_start: "exit_run now NewPool"
| run_step: "exit_run t P \<Longrightarrow> t \<le> now \<Longrightarrow> exit_step now P P' \<Longrightarrow> exit_run now P'"
| run_replace: "exit_run t P \<Longrightarrow> t \<le> now \<Longrightarrow> \<forall>p \<in> set ps. no_NUL p \<Longrightarrow> distinct (map exit_Key ps) \<Longrightarrow> exit_run now (Replace ps P)"

text \<open>What happens from one state on, without a replacement by hand.\<close>

inductive exit_path :: "time \<Rightarrow> exitPool \<Rightarrow> time \<Rightarrow> exitPool \<Rightarrow> bool" for t P where
  path_refl: "exit_path t P t P"
| path_step: "exit_path t P s Q \<Longrightarrow> s \<le> now \<Longrightarrow> exit_step now Q R \<Longrightarrow> exit_path t P now R"

definition exits_ok :: "exitProxy list \<Rightarrow> bool" where
  "exits_ok ps \<longleftrightarrow> distinct (map exit_Key ps) \<and> (\<forall>p \<in> set ps. no_NUL p)"

definition blacklisted :: "time \<Rightarrow> exitPool \<Rightarrow> string \<Rightarrow> bool" where
  "blacklisted now P k \<longleftrightarrow> (\<exists>until. removedUntil P k = Some until \<and> now < until)"

definition pool_ok :: "time \<Rightarrow> exitPool \<Rightarrow> bool" where
  "pool_ok now P \<longleftrightarrow> exits_ok (proxies P) \<and> (\<forall>p \<in> set (proxies P). \<not> blacklisted now P (exit_Key p))"

lemma pool_ok_later: "pool_ok t P \<Longrightarrow> t \<le> now \<Longrightarrow> pool_ok now P"
  by (fastforce simp: pool_ok_def blacklisted_def)

lemma exits_ok_filter: "exits_ok ps \<Longrightarrow> exits_ok (filter Q ps)"
  by (simp add: exits_ok_def distinct_map_filter)

text \<open>Changes of an exit that keep what its key is made of.\<close>

definition same_parts :: "exitProxy \<Rightarrow> exitProxy \<Rightarrow> bool" where
  "same_parts p q \<longleftrightarrow> Scheme p = Scheme q \<and> Address p = Address q \<and> Username p = Username q \<and> Password p = Password q"

lemma same_parts_key: "same_parts p q \<Longrightarrow> exit_Key p = exit_Key q \<and> no_NUL p = no_NUL q"
  by (simp add: same_parts_def exit_Key_def no_NUL_def)

lemma same_parts_refl [simp]: "same_parts p p"
  by (simp add: same_parts_def)

lemma exits_ok_map:
  assumes "exits_ok ps" "\<And>p. same_parts (f p) p"
  shows "exits_ok (map f ps)" "map exit_Key (map f ps) = map exit_Key ps"
proof -
  show keys: "map exit_Key (map f ps) = map exit_Key ps" using same_parts_key [OF assms(2)] by simp
  show "exits_ok (map f ps)" unfolding exits_ok_def keys using assms(1) same_parts_key [OF assms(2)] by (auto simp: exits_ok_def)
qed

lemma map_filter_set: "set (List.map_filter f ps) = {q. \<exists>p \<in> set ps. f p = Some q}"
  by (induction ps) (auto simp: map_filter_simps split: option.splits)

lemma map_filter_keys:
  assumes "\<And>p q. f p = Some q \<Longrightarrow> same_parts q p"
  shows "map exit_Key (List.map_filter f ps) = map exit_Key (filter (\<lambda>p. f p \<noteq> None) ps)"
proof -
  have "exit_Key q = exit_Key p" if "f p = Some q" for p q using assms [OF that] same_parts_key by blast
  then show ?thesis by (induction ps) (auto simp: map_filter_simps split: option.splits)
qed

lemma pool_ok_report:
  assumes ok: "pool_ok now P" and parts: "\<And>p q. f p = Some q \<Longrightarrow> same_parts q p"
  shows "pool_ok now (P\<lparr>proxies := List.map_filter f (proxies P), removedUntil := mark_removed now f (proxies P) (removedUntil P)\<rparr>)"
proof -
  have distinct: "distinct (map exit_Key (proxies P))" using ok by (simp add: pool_ok_def exits_ok_def)
  have "no_NUL q \<and> \<not> blacklisted now (P\<lparr>proxies := List.map_filter f (proxies P),
      removedUntil := mark_removed now f (proxies P) (removedUntil P)\<rparr>) (exit_Key q)"
    if q: "q \<in> set (List.map_filter f (proxies P))" for q
  proof -
    obtain p where p: "p \<in> set (proxies P)" "f p = Some q" using q by (auto simp: map_filter_set)
    have key: "exit_Key q = exit_Key p" "no_NUL q" using same_parts_key [OF parts [OF p(2)]] p(1) ok by (auto simp: pool_ok_def exits_ok_def)
    have "\<not> (\<exists>p' \<in> set (proxies P). exit_Key p' = exit_Key p \<and> f p' = None)"
      using p distinct by (auto simp: distinct_map dest: inj_onD)
    then have "mark_removed now f (proxies P) (removedUntil P) (exit_Key q) = removedUntil P (exit_Key p)"
      using key(1) by (auto simp: mark_removed_def)
    then show ?thesis using key ok p(1) by (auto simp: blacklisted_def pool_ok_def)
  qed
  moreover have "distinct (map exit_Key (List.map_filter f (proxies P)))"
    using map_filter_keys [of f, OF parts] distinct by (simp add: distinct_map_filter)
  ultimately show ?thesis by (simp add: pool_ok_def exits_ok_def)
qed

lemma pool_ok_map:
  assumes "pool_ok now P" "\<And>p. same_parts (f p) p"
  shows "pool_ok now (P\<lparr>proxies := map f (proxies P)\<rparr>)"
  using assms exits_ok_map(1) [of "proxies P" f] same_parts_key [OF assms(2)] by (auto simp: pool_ok_def blacklisted_def)

lemma pool_ok_filter: "pool_ok now P \<Longrightarrow> pool_ok now (P\<lparr>proxies := filter Q (proxies P)\<rparr>)"
  by (auto simp: pool_ok_def blacklisted_def exits_ok_filter)

lemma prune_blacklist [simp]: "blacklisted now (pruneLocked now P) k \<longleftrightarrow> blacklisted now P k"
  by (auto simp: blacklisted_def pruneLocked_def pruneRemovedLocked_def split: option.splits)

lemma prune_proxies: "proxies (pruneLocked now P) = filter (\<lambda>p. LiveAt p now) (proxies P)"
  by (simp add: pruneLocked_def)

lemma pool_ok_prune [inv_intros]: "pool_ok now P \<Longrightarrow> pool_ok now (pruneLocked now P)"
  using pool_ok_filter [of now P "\<lambda>p. LiveAt p now"] prune_blacklist [of now P]
  by (auto simp: pool_ok_def pruneLocked_def exits_ok_filter)

lemma pool_ok_cong:
  "proxies P' = proxies P \<Longrightarrow> removedUntil P' = removedUntil P \<Longrightarrow> pool_ok now P' = pool_ok now P"
  by (simp add: pool_ok_def blacklisted_def)

lemma pool_ok_selection [simp]:
  "pool_ok now (advance P) = pool_ok now P" "pool_ok now (forget_session s P) = pool_ok now P"
  "pool_ok now (StickyRebind s k t ttl P) = pool_ok now P" "pool_ok now (P\<lparr>lastUpstreamOverloadAt := t\<rparr>) = pool_ok now P"
  by (rule pool_ok_cong; simp add: advance_def forget_session_def StickyRebind_def)+

lemma report_parts:
  "after_failure policy now identity p = Some q \<Longrightarrow> same_parts q p"
  "after_http_failure policy ok now status identity p = Some q \<Longrightarrow> same_parts q p"
  by (auto simp: after_failure_def after_http_failure_def isolated_def count_failure_def count_http_failure_def same_parts_def Let_def
      split: if_splits)

lemma pool_ok_failure [inv_intros]: "pool_ok now P \<Longrightarrow> pool_ok now (snd (ReportFailure identity now pol P))"
  using pool_ok_report [OF pool_ok_prune report_parts(1)] by (simp add: ReportFailure_eq Let_def)

lemma pool_ok_http [inv_intros]: "pool_ok now P \<Longrightarrow> pool_ok now (snd (exit_ReportHTTPFailure identity now status pol P))"
proof (cases "status = httpStatusOverloaded")
  case True
  then show "pool_ok now P \<Longrightarrow> ?thesis" by (simp add: exit_ReportHTTPFailure_def pool_ok_prune)
next
  case False
  then show "pool_ok now P \<Longrightarrow> ?thesis"
    using pool_ok_report [OF pool_ok_prune report_parts(2)] by (simp add: exit_ReportHTTPFailure_eq Let_def)
qed

lemma pool_ok_update [inv_intros]:
  assumes "pool_ok now P" "\<And>p. same_parts (f p) p"
  shows "pool_ok now (update_matching identity f P)"
  unfolding update_matching_def using assms by (intro pool_ok_map) auto

lemma latency_parts: "same_parts (add_request_latency policy latency p) p"
  by (simp add: add_request_latency_def same_parts_def)

lemma success_parts: "same_parts (record_success policy now latency p) p"
  by (simp add: record_success_def add_request_latency_def same_parts_def Let_def)

lemma grace_parts: "same_parts (fst (grace_one now grace maxLifetime p)) p"
  by (simp add: grace_one_def same_parts_def Let_def)

lemma pool_ok_grace [inv_intros]:
  assumes "pool_ok now P"
  shows "pool_ok now (snd (Grace now grace maxLifetime P))"
  using assms pool_ok_map [OF assms, of "\<lambda>p. fst (grace_one now grace maxLifetime p)"] grace_parts
  by (auto simp: Grace_def Let_def comp_def)

subsection \<open>Merging\<close>

text \<open>The index of the merge loop locates the keys of the list.\<close>

definition index_ok :: "exitProxy list \<Rightarrow> (string \<rightharpoonup> nat) \<Rightarrow> bool" where
  "index_ok ps index \<longleftrightarrow>
     (\<forall>k. case index k of None \<Rightarrow> k \<notin> exit_Key ` set ps | Some i \<Rightarrow> i < length ps \<and> exit_Key (ps ! i) = k)"

lemma index_okD:
  assumes "index_ok ps index"
  shows "index k = None \<Longrightarrow> k \<notin> exit_Key ` set ps" "index k = Some i \<Longrightarrow> i < length ps \<and> exit_Key (ps ! i) = k"
  using assms [unfolded index_ok_def, rule_format, of k] by simp_all

lemma index_ok_snoc:
  assumes "index_ok ps index" "n = length ps"
  shows "index_ok (ps @ [p]) (index(exit_Key p \<mapsto> n))"
  unfolding index_ok_def
proof
  fix k
  have "case index k of None \<Rightarrow> k \<notin> exit_Key ` set ps | Some i \<Rightarrow> i < length ps \<and> exit_Key (ps ! i) = k"
    using assms(1) by (simp add: index_ok_def)
  then show "case (index(exit_Key p \<mapsto> n)) k of None \<Rightarrow> k \<notin> exit_Key ` set (ps @ [p])
      | Some i \<Rightarrow> i < length (ps @ [p]) \<and> exit_Key ((ps @ [p]) ! i) = k"
    using assms(2) by (auto simp: nth_append split: option.splits)
qed

lemma index_ok_update:
  assumes "index_ok ps index" "i < length ps" "exit_Key q = exit_Key (ps ! i)"
  shows "index_ok (ps[i := q]) index"
proof -
  have keys: "map exit_Key (ps[i := q]) = map exit_Key ps"
    by (metis assms(2,3) list_update_id map_update nth_map length_map)
  have "exit_Key ` set (ps[i := q]) = exit_Key ` set ps" by (metis keys set_map)
  moreover have "exit_Key (ps[i := q] ! j) = exit_Key (ps ! j)" if "j < length ps" for j
    by (metis keys length_list_update nth_map that)
  ultimately have "(case index k of None \<Rightarrow> k \<notin> exit_Key ` set (ps[i := q]) | Some j \<Rightarrow> j < length (ps[i := q]) \<and> exit_Key (ps[i := q] ! j) = k)
      \<longleftrightarrow> (case index k of None \<Rightarrow> k \<notin> exit_Key ` set ps | Some j \<Rightarrow> j < length ps \<and> exit_Key (ps ! j) = k)" for k
    by (cases "index k") (simp_all cong: conj_cong)
  then show ?thesis using assms(1) by (simp add: index_ok_def)
qed

lemma key_index_ok: "index_ok ps (key_index ps)"
proof -
  have "index_ok (take n ps) (fold (\<lambda>i m. m(exit_Key (ps ! i) \<mapsto> i)) [0 ..< n] Map.empty)" if "n \<le> length ps" for n
    using that
  proof (induction n)
    case 0
    then show ?case by (simp add: index_ok_def)
  next
    case (Suc n)
    then show ?case using index_ok_snoc [of "take n ps" _ n "ps ! n"] by (simp add: take_Suc_conv_app_nth del: fun_upd_apply)
  qed
  from this [of "length ps"] show ?thesis by (simp add: key_index_def)
qed

lemma refresh_parts:
  assumes "no_NUL c" "no_NUL p" "exit_Key c = exit_Key p"
  shows "same_parts (refresh policy c p) p"
  using exit_Key_inj [OF assms] by (simp add: refresh_def same_parts_def Let_def)

definition readmitted :: "time \<Rightarrow> (string \<rightharpoonup> time) \<Rightarrow> exitProxy \<Rightarrow> bool" where
  "readmitted now gone c \<longleftrightarrow> LiveAt c now \<and> \<not> (case gone (exit_Key c) of Some until \<Rightarrow> now < until | None \<Rightarrow> False)"

lemma merge_one_cases:
  assumes "exits_ok ps" "index_ok ps index" "no_NUL c" "merge_one policy now gone c (ps, index) = (ps', index')"
  obtains "ps' = ps" "index' = index" "readmitted now gone c \<longrightarrow> exit_Key c \<in> exit_Key ` set ps"
  | "ps' = ps @ [c]" "exit_Key c \<notin> exit_Key ` set ps" "index' = index(exit_Key c \<mapsto> length ps)" "readmitted now gone c"
  | i where "i < length ps" "exit_Key (ps ! i) = exit_Key c" "ps' = ps[i := refresh policy c (ps ! i)]" "index' = index" "readmitted now gone c"
proof (cases "readmitted now gone c")
  case False
  then have "merge_one policy now gone c (ps, index) = (ps, index)" unfolding merge_one_def readmitted_def by simp
  then show ?thesis using that(1) assms(4) False by simp
next
  case True
  then have step: "(case index (exit_Key c) of
      None \<Rightarrow> (ps @ [c], index(exit_Key c \<mapsto> length ps))
    | Some i \<Rightarrow> if EjectionCount (refresh policy c (ps ! i)) > MaxEjections policy then (ps, index)
        else (ps[i := refresh policy c (ps ! i)], index)) = (ps', index')"
    using assms(4) unfolding merge_one_def readmitted_def Let_def by simp
  show ?thesis
  proof (cases "index (exit_Key c)")
    case None
    then have "exit_Key c \<notin> exit_Key ` set ps" by (rule index_okD(1) [OF assms(2)])
    then show ?thesis using that(2) step None True by simp
  next
    case (Some i)
    then have i: "i < length ps" "exit_Key (ps ! i) = exit_Key c" using index_okD(2) [OF assms(2)] by simp_all
    then have "exit_Key c \<in> exit_Key ` set ps" by (metis image_eqI nth_mem)
    then show ?thesis using that(1) that(3) [OF i] step Some True by (auto split: if_splits)
  qed
qed

text \<open>One fetched exit: the keys grow by an admitted one, and an exit that stays keeps its isolation.\<close>

definition kept :: "exitProxy \<Rightarrow> exitProxy \<Rightarrow> bool" where
  "kept p q \<longleftrightarrow> exit_Key q = exit_Key p \<and> EjectedUntil q = EjectedUntil p \<and> EjectionCount q = EjectionCount p \<and> HTTPFailCount q = HTTPFailCount p"

definition merged :: "exitProxy list \<Rightarrow> exitProxy list \<Rightarrow> exitProxy list \<Rightarrow> bool" where
  "merged old new ps \<longleftrightarrow> exits_ok ps \<and> exit_Key ` set ps = exit_Key ` set old \<union> exit_Key ` set new
     \<and> (\<forall>q \<in> set ps. (\<exists>p \<in> set old. kept p q) \<or> exit_Key q \<notin> exit_Key ` set old \<and> (\<exists>c \<in> set new. kept c q))"

lemma kept_refl: "kept p p"
  by (simp add: kept_def)

lemma kept_trans: "kept p q \<Longrightarrow> kept q r \<Longrightarrow> kept p r"
  by (simp add: kept_def)

lemma refresh_kept:
  assumes "no_NUL c" "no_NUL p" "exit_Key c = exit_Key p"
  shows "kept p (refresh policy c p)"
  using same_parts_key [OF refresh_parts [OF assms]] by (simp add: kept_def) (simp add: refresh_def Let_def)

lemma merged_snoc:
  assumes "merged old new ps" "no_NUL c" "exit_Key c \<notin> exit_Key ` set ps"
  shows "merged old (new @ [c]) (ps @ [c])"
proof -
  have "exit_Key c \<notin> exit_Key ` set old" using assms(1,3) by (auto simp: merged_def)
  moreover have "kept c c" by (simp add: kept_def)
  ultimately show ?thesis using assms unfolding merged_def exits_ok_def by auto
qed

lemma merged_update:
  assumes m: "merged old new ps" and i: "i < length ps" "kept (ps ! i) q" "no_NUL q" and c: "exit_Key c \<in> exit_Key ` set ps"
  shows "merged old (new @ [c]) (ps[i := q])"
proof -
  have keys: "map exit_Key (ps[i := q]) = map exit_Key ps"
    using i by (metis kept_def list_update_id map_update nth_map length_map)
  have set: "exit_Key ` set (ps[i := q]) = exit_Key ` set ps" by (metis keys set_map)
  have sub: "set (ps[i := q]) \<subseteq> insert q (set ps)" by (rule set_update_subset_insert)
  have "exits_ok (ps[i := q])" using m sub i(3) unfolding merged_def exits_ok_def keys by auto
  moreover have "(\<exists>p \<in> set old. kept p r) \<or> exit_Key r \<notin> exit_Key ` set old \<and> (\<exists>d \<in> set (new @ [c]). kept d r)"
    if r: "r \<in> set (ps[i := q])" for r
  proof -
    have "r = q \<or> r \<in> set ps" using sub r by auto
    then obtain r' where r': "r' \<in> set ps" "kept r' r" using i(1,2) nth_mem kept_refl by blast
    then have "(\<exists>p \<in> set old. kept p r') \<or> exit_Key r' \<notin> exit_Key ` set old \<and> (\<exists>d \<in> set new. kept d r')"
      using m by (auto simp: merged_def)
    then show ?thesis using r'(2) kept_trans by (metis UnCI kept_def set_append)
  qed
  ultimately show ?thesis using m c set by (auto simp: merged_def)
qed

lemma merge_one_merged:
  assumes "merged old new ps" "index_ok ps index" "no_NUL c" "merge_one policy now gone c (ps, index) = (ps', index')"
  shows "merged old (new @ filter (readmitted now gone) [c]) ps' \<and> index_ok ps' index'"
proof -
  have ok: "exits_ok ps" using assms(1) by (simp add: merged_def)
  show ?thesis
  proof (rule merge_one_cases [OF ok assms(2-4)])
    assume "ps' = ps" "index' = index" and c: "readmitted now gone c \<longrightarrow> exit_Key c \<in> exit_Key ` set ps"
    then show ?thesis using assms(1,2) c by (auto simp: merged_def)
  next
    assume "ps' = ps @ [c]" "exit_Key c \<notin> exit_Key ` set ps" "index' = index(exit_Key c \<mapsto> length ps)" "readmitted now gone c"
    then show ?thesis using merged_snoc [OF assms(1,3)] index_ok_snoc [OF assms(2) refl] by simp
  next
    fix i assume i: "i < length ps" "exit_Key (ps ! i) = exit_Key c" "ps' = ps[i := refresh policy c (ps ! i)]" "index' = index" "readmitted now gone c"
    have "no_NUL (ps ! i)" using ok i(1) by (auto simp: exits_ok_def)
    then have "kept (ps ! i) (refresh policy c (ps ! i))" "no_NUL (refresh policy c (ps ! i))"
      using refresh_kept [of c "ps ! i"] same_parts_key [OF refresh_parts [of c "ps ! i"]] assms(3) i(2) by auto
    moreover have "exit_Key c \<in> exit_Key ` set ps" using i(1,2) by (metis image_eqI nth_mem)
    ultimately show ?thesis
      using merged_update [OF assms(1) i(1)] index_ok_update [OF assms(2) i(1)] i(3-5) by (auto simp: kept_def)
  qed
qed

lemma merge_fold_merged:
  assumes "merged old new ps" "index_ok ps index" "\<forall>c \<in> set cs. no_NUL c"
  shows "merged old (new @ filter (readmitted now gone) cs) (fst (fold (merge_one policy now gone) cs (ps, index)))"
  using assms
proof (induction cs arbitrary: new ps index)
  case (Cons c cs)
  obtain ps' index' where step: "merge_one policy now gone c (ps, index) = (ps', index')" by (meson surj_pair)
  have "merged old (new @ filter (readmitted now gone) [c]) ps' \<and> index_ok ps' index'"
    using merge_one_merged [OF Cons.prems(1,2) _ step] Cons.prems(3) by simp
  then have "merged old ((new @ filter (readmitted now gone) [c]) @ filter (readmitted now gone) cs)
      (fst (fold (merge_one policy now gone) cs (ps', index')))"
    using Cons.prems(3) by (intro Cons.IH) auto
  then show ?case using step by (simp split: if_splits)
qed simp

lemma Merge_merged:
  assumes "exits_ok (proxies P)" "\<forall>c \<in> set cs. no_NUL c"
  shows "merged (filter (\<lambda>p. LiveAt p now) (proxies P)) (filter (\<lambda>c. LiveAt c now \<and> \<not> blacklisted now P (exit_Key c)) cs)
    (proxies (Merge now cs pol P))"
proof -
  let ?P = "pruneLocked now P"
  have ok: "exits_ok (proxies ?P)" using assms(1) by (simp add: pruneLocked_def exits_ok_filter)
  have "merged (proxies ?P) [] (proxies ?P)" using ok by (auto simp: merged_def kept_def)
  from merge_fold_merged [OF this key_index_ok assms(2), of now "removedUntil ?P" "normalized pol"]
  have "merged (proxies ?P) (filter (readmitted now (removedUntil ?P)) cs) (proxies (Merge now cs pol P))"
    by (simp add: Merge_def Let_def)
  moreover have "readmitted now (removedUntil ?P) = (\<lambda>c. LiveAt c now \<and> \<not> blacklisted now ?P (exit_Key c))"
    by (auto simp: readmitted_def blacklisted_def fun_eq_iff split: option.splits)
  ultimately show ?thesis by (simp only: prune_blacklist prune_proxies)
qed

subsection \<open>The invariant\<close>

lemma pool_ok_merge [inv_intros]:
  assumes "pool_ok now P" "\<forall>c \<in> set cs. no_NUL c"
  shows "pool_ok now (Merge now cs pol P)"
proof -
  have m: "merged (filter (\<lambda>p. LiveAt p now) (proxies P)) (filter (\<lambda>c. LiveAt c now \<and> \<not> blacklisted now P (exit_Key c)) cs)
      (proxies (Merge now cs pol P))"
    using assms by (intro Merge_merged) (simp_all add: pool_ok_def)
  have "blacklisted now (Merge now cs pol P) k = blacklisted now P k" for k
    using prune_blacklist [of now P k] by (simp add: Merge_def Let_def blacklisted_def)
  moreover have "exit_Key ` set (proxies (Merge now cs pol P)) = exit_Key ` set (filter (\<lambda>p. LiveAt p now) (proxies P))
      \<union> exit_Key ` set (filter (\<lambda>c. LiveAt c now \<and> \<not> blacklisted now P (exit_Key c)) cs)" "exits_ok (proxies (Merge now cs pol P))"
    using m by (simp_all add: merged_def)
  moreover have "\<not> blacklisted now P k" if "k \<in> exit_Key ` set (filter (\<lambda>p. LiveAt p now) (proxies P))
      \<union> exit_Key ` set (filter (\<lambda>c. LiveAt c now \<and> \<not> blacklisted now P (exit_Key c)) cs)" for k
    using assms(1) that by (auto simp: pool_ok_def)
  ultimately show ?thesis by (metis imageI pool_ok_def)
qed

lemma select_frames:
  "snd (select_any now life P) = P \<or> snd (select_any now life P) = advance P"
  "snd (CandidatesWithLatency now life prefer P) = P \<or> snd (CandidatesWithLatency now life prefer P) = advance P"
  "snd (GetWithQuality now P) = P \<or> snd (GetWithQuality now P) = advance P"
  by (simp_all add: select_any_eq CandidatesWithLatency_eq GetWithQuality_def orderedLocked_eq Let_def)

lemma sticky_frame:
  "snd (StickyGet session now life P) \<in> {P, advance P, forget_session session P, advance (forget_session session P)}"
proof -
  have any: "snd (select_any now life Q) \<in> {Q, advance Q}" for Q using select_frames(1) [of now life Q] by auto
  show ?thesis
  proof (cases "stickyBindings P session")
    case None
    then show ?thesis using any [of P] by (auto simp: StickyGet_def)
  next
    case (Some binding)
    let ?bound = "find (\<lambda>p. exit_Key p = stickyKey binding \<and> AvailableAt p now \<and> RemainingLife p now \<ge> life) (proxies P)"
    show ?thesis
    proof (cases "now < stickyUntil binding \<and> ?bound \<noteq> None")
      case True
      then show ?thesis using Some by (auto simp: StickyGet_def orderedLocked_eq)
    next
      case False
      then have "StickyGet session now life P = select_any now life (forget_session session P)"
        using Some by (auto simp: StickyGet_def)
      then show ?thesis using any [of "forget_session session P"] by auto
    qed
  qed
qed

lemma pool_ok_step:
  assumes "exit_step now P P'" "pool_ok now P"
  shows "pool_ok now P'"
  using assms
proof cases
  case (step_select life byLatency)
  then show ?thesis using assms(2) select_frames(2) [of now life byLatency P] by auto
next
  case step_quality
  then show ?thesis using assms(2) select_frames(3) [of now P] by auto
next
  case (step_sticky session life)
  then show ?thesis using assms(2) sticky_frame [of session now life P] by auto
next
  case (step_request identity)
  then show ?thesis
    using assms(2) by (auto simp: exit_ReportRequestFailure_def same_parts_def intro!: inv_intros)
qed (auto simp: exit_Remove_def pool_ok_filter ReportSuccess_def success_parts exit_ReportRequestLatency_def latency_parts
    exit_Prune_def intro!: inv_intros)

lemma exit_run_ok: "exit_run now P \<Longrightarrow> pool_ok now P"
proof (induction rule: exit_run.induct)
  case (run_start now)
  then show ?case by (simp add: pool_ok_def NewPool_def exits_ok_def)
next
  case (run_step t P now P')
  then show ?case using pool_ok_step pool_ok_later by blast
next
  case (run_replace t P now ps)
  then show ?case by (simp add: pool_ok_def exits_ok_def Replace_def blacklisted_def)
qed

subsection \<open>Quarantine\<close>

text \<open>A removed exit: out of the pool, and remembered at least until the end of its cooldown.\<close>

definition quarantined :: "time \<Rightarrow> time \<Rightarrow> string \<Rightarrow> exitPool \<Rightarrow> bool" where
  "quarantined now until k P \<longleftrightarrow> (now < until \<longrightarrow> k \<notin> exit_Key ` set (proxies P) \<and> (\<exists>u \<ge> until. removedUntil P k = Some u))"

lemma quarantined_mono:
  assumes "quarantined now until k P" "exit_Key ` set (proxies P') \<subseteq> exit_Key ` set (proxies P)"
    and "\<And>u. now < u \<Longrightarrow> removedUntil P k = Some u \<Longrightarrow> k \<notin> exit_Key ` set (proxies P) \<Longrightarrow> removedUntil P' k = Some u"
  shows "quarantined now until k P'"
  using assms unfolding quarantined_def by (meson order_less_le_trans subsetD)

lemma quarantined_prune: "quarantined now until k P \<Longrightarrow> quarantined now until k (pruneLocked now P)"
  by (erule quarantined_mono) (auto simp: pruneLocked_def pruneRemovedLocked_def)

lemma quarantined_report:
  assumes "quarantined now until k P" "\<And>p q. f p = Some q \<Longrightarrow> same_parts q p"
  shows "quarantined now until k (P\<lparr>proxies := List.map_filter f (proxies P), removedUntil := mark_removed now f (proxies P) (removedUntil P)\<rparr>)"
proof (rule quarantined_mono [OF assms(1)])
  have "exit_Key q \<in> exit_Key ` set (proxies P)" if q: "q \<in> set (List.map_filter f (proxies P))" for q
  proof -
    obtain p where "p \<in> set (proxies P)" "f p = Some q" using q by (auto simp: map_filter_set)
    then show ?thesis using same_parts_key [OF assms(2)] by auto
  qed
  then show "exit_Key ` set (proxies (P\<lparr>proxies := List.map_filter f (proxies P), removedUntil := mark_removed now f (proxies P) (removedUntil P)\<rparr>))
      \<subseteq> exit_Key ` set (proxies P)" by auto
qed (auto simp: mark_removed_def)

lemma quarantined_map:
  assumes "quarantined now until k P" "\<And>p. same_parts (f p) p"
  shows "quarantined now until k (P\<lparr>proxies := map f (proxies P)\<rparr>)"
  using quarantined_mono [OF assms(1), of "P\<lparr>proxies := map f (proxies P)\<rparr>"] same_parts_key [OF assms(2)] by auto

lemma quarantined_update:
  "quarantined now until k P \<Longrightarrow> (\<And>p. same_parts (f p) p) \<Longrightarrow> quarantined now until k (update_matching identity f P)"
  unfolding update_matching_def by (rule quarantined_map) auto

lemma quarantined_selection [simp]:
  "quarantined now until k (advance P) = quarantined now until k P"
  "quarantined now until k (forget_session s P) = quarantined now until k P"
  "quarantined now until k (StickyRebind s l t ttl P) = quarantined now until k P"
  "quarantined now until k (P\<lparr>lastUpstreamOverloadAt := t\<rparr>) = quarantined now until k P"
  by (simp_all add: quarantined_def advance_def forget_session_def StickyRebind_def)

lemma quarantined_merge:
  assumes "pool_ok now P" "\<forall>c \<in> set cs. no_NUL c" "quarantined now until k P"
  shows "quarantined now until k (Merge now cs pol P)"
  unfolding quarantined_def
proof (intro impI conjI)
  assume "now < until"
  then obtain u where u: "k \<notin> exit_Key ` set (proxies P)" "u \<ge> until" "removedUntil P k = Some u" "now < u"
    using assms(3) by (auto simp: quarantined_def)
  have m: "merged (filter (\<lambda>p. LiveAt p now) (proxies P)) (filter (\<lambda>c. LiveAt c now \<and> \<not> blacklisted now P (exit_Key c)) cs)
      (proxies (Merge now cs pol P))"
    using assms by (intro Merge_merged) (simp_all add: pool_ok_def)
  have "blacklisted now P k" using u by (auto simp: blacklisted_def)
  then show "k \<notin> exit_Key ` set (proxies (Merge now cs pol P))" using m u(1) by (auto simp: merged_def)
  show "\<exists>u \<ge> until. removedUntil (Merge now cs pol P) k = Some u"
    using u by (auto simp: Merge_def Let_def pruneLocked_def pruneRemovedLocked_def)
qed

lemma quarantined_step:
  assumes "exit_step now P P'" "pool_ok now P" "quarantined now until k P"
  shows "quarantined now until k P'"
  using assms
proof cases
  case (step_merge cs pol)
  then show ?thesis using quarantined_merge assms by simp
next
  case (step_remove identity)
  then show ?thesis using assms(3) by (auto simp: exit_Remove_def quarantined_def)
next
  case (step_failure identity pol)
  then show ?thesis
    using quarantined_report [OF quarantined_prune [OF assms(3)] report_parts(1)] by (simp add: ReportFailure_eq Let_def)
next
  case (step_http identity status pol)
  then show ?thesis
    using quarantined_report [OF quarantined_prune [OF assms(3)] report_parts(2)] quarantined_prune [OF assms(3)]
    by (cases "status = httpStatusOverloaded") (simp_all add: exit_ReportHTTPFailure_eq exit_ReportHTTPFailure_def [of identity now httpStatusOverloaded] Let_def)
next
  case (step_request identity)
  then show ?thesis using quarantined_prune [OF assms(3)]
    by (auto simp: exit_ReportRequestFailure_def same_parts_def intro!: quarantined_update)
next
  case (step_success identity latency pol)
  then show ?thesis using quarantined_prune [OF assms(3)]
    by (auto simp: ReportSuccess_def success_parts intro!: quarantined_update)
next
  case (step_latency identity latency pol)
  then show ?thesis using quarantined_prune [OF assms(3)] assms(3)
    by (auto simp: exit_ReportRequestLatency_def latency_parts intro!: quarantined_update)
next
  case step_prune
  then show ?thesis using quarantined_prune [OF assms(3)] by (simp add: exit_Prune_def)
next
  case (step_grace grace maxLifetime)
  then show ?thesis
    using assms(3) quarantined_map [OF assms(3), of "\<lambda>p. fst (grace_one now grace maxLifetime p)"] grace_parts
    by (auto simp: Grace_def Let_def comp_def)
next
  case (step_select life byLatency)
  then show ?thesis using assms(3) select_frames(2) [of now life byLatency P] by auto
next
  case step_quality
  then show ?thesis using assms(3) select_frames(3) [of now P] by auto
next
  case (step_sticky session life)
  then show ?thesis using assms(3) sticky_frame [of session now life P] by auto
next
  case (step_rebind session l ttl)
  then show ?thesis using assms(3) by simp
qed

lemma quarantined_path:
  assumes "exit_path t P now R" "pool_ok t P" "quarantined t until k P"
  shows "pool_ok now R \<and> quarantined now until k R"
  using assms
proof (induction rule: exit_path.induct)
  case (path_step s Q now R)
  then have "pool_ok s Q" "quarantined s until k Q" by simp_all
  then have "pool_ok now Q" "quarantined now until k Q"
    using pool_ok_later [OF _ path_step.hyps(2)] path_step.hyps(2) by (auto simp: quarantined_def)
  then show ?case using pool_ok_step quarantined_step path_step.hyps(3) by blast
qed simp

lemma failure_quarantines:
  assumes "LiveAt p t" "p \<in> set (proxies P)" "exit_Key p \<notin> exit_Key ` set (proxies (snd (ReportFailure identity t pol P)))"
  shows "quarantined t (t + removalCooldown) (exit_Key p) (snd (ReportFailure identity t pol P))"
proof -
  let ?g = "after_failure (normalized pol) t identity" and ?ps = "proxies (pruneLocked t P)"
  have p: "p \<in> set ?ps" using assms(1,2) by (simp add: pruneLocked_def)
  have "?g p = None"
  proof (rule ccontr)
    assume "?g p \<noteq> None"
    then obtain q where q: "?g p = Some q" by blast
    then have "q \<in> set (List.map_filter ?g ?ps)" using p by (auto simp: map_filter_set)
    moreover have "exit_Key q = exit_Key p" using same_parts_key [OF report_parts(1) [OF q]] by simp
    ultimately have "exit_Key p \<in> exit_Key ` set (List.map_filter ?g ?ps)" by (metis imageI)
    then show False using assms(3) by (simp add: ReportFailure_eq Let_def)
  qed
  then have "removedUntil (snd (ReportFailure identity t pol P)) (exit_Key p) = Some (t + removalCooldown)"
    using p by (auto simp: ReportFailure_eq Let_def mark_removed_def)
  then show ?thesis using assms(3) by (simp add: quarantined_def)
qed

end
