(* ===== verification/Exit_Pool_Properties.thy ===== *)
theory Exit_Pool_Properties
  imports Exit_Pool_Machine
begin

text \<open>
  Properties of the pool of exits: what a selection serves, fair rotation, quality order, removal of
  failing exits and their stay outside the pool, the protection against blaming exits for a failure of
  the upstream, the bound on how long an exit outlives its last validation, and sessions.
\<close>

subsection \<open>An exit that keeps failing\<close>

definition failures :: "ejectionPolicy \<Rightarrow> string \<Rightarrow> time list \<Rightarrow> exitPool \<Rightarrow> exitPool" where
  "failures pol identity ts P = fold (\<lambda>t Q. snd (ReportFailure identity t pol Q)) ts P"

definition matched :: "string \<Rightarrow> exitPool \<Rightarrow> exitProxy list" where
  "matched identity P = filter (\<lambda>p. matches p identity) (proxies P)"

lemma map_filter_matched:
  assumes "\<And>p q. f p = Some q \<Longrightarrow> matches q i = matches p i"
  shows "filter (\<lambda>p. matches p i) (List.map_filter f ps) = List.map_filter f (filter (\<lambda>p. matches p i) ps)"
  using assms by (induction ps) (auto simp: map_filter_simps split: option.splits)

lemma failure_matched:
  "matched identity (snd (ReportFailure identity t pol P))
    = List.map_filter (after_failure (normalized pol) t identity) (filter (\<lambda>p. LiveAt p t) (matched identity P))"
proof -
  have parts: "matches q identity = matches p identity" if "after_failure (normalized pol) t identity p = Some q" for p q
    using report_parts(1) [OF that] by (simp add: same_parts_def matches_def exit_Key_def)
  have "filter (\<lambda>p. matches p identity) (filter (\<lambda>p. LiveAt p t) (proxies P)) = filter (\<lambda>p. LiveAt p t) (matched identity P)"
    by (auto simp: matched_def intro: filter_cong)
  with map_filter_matched [of "after_failure (normalized pol) t identity" identity, OF parts]
  show ?thesis by (simp add: matched_def ReportFailure_eq Let_def prune_proxies)
qed

lemma less_mult_iff_div:
  assumes "0 < (L :: int)"
  shows "n < L * k \<longleftrightarrow> n div L < k"
proof -
  have n: "n = L * (n div L) + n mod L" "0 \<le> n mod L" "n mod L < L" using assms by simp_all
  show ?thesis
  proof
    assume "n < L * k"
    then have "L * (n div L) < L * k" using n(1,2) by linarith
    then show "n div L < k" using assms by (simp add: mult_less_cancel_left_pos)
  next
    assume "n div L < k"
    then have "L * (n div L + 1) \<le> L * k" using assms by (intro mult_left_mono) auto
    then show "n < L * k" using n unfolding distrib_left by linarith
  qed
qed

lemma successor_divmod:
  assumes "0 < (L :: int)"
  shows "(1 + n) mod L = (if n mod L + 1 < L then n mod L + 1 else 0) \<and> (1 + n) div L = (if n mod L + 1 < L then n div L else n div L + 1)"
proof -
  have m: "0 \<le> n mod L" "n mod L < L" "1 + n = L * (n div L) + (n mod L + 1)" using assms by simp_all
  show ?thesis
  proof (cases "n mod L + 1 < L")
    case True
    then show ?thesis using int_mod_pos_eq [OF m(3)] int_div_pos_eq [OF m(3)] m(1) by simp
  next
    case False
    then have "1 + n = L * (n div L + 1) + 0" using m unfolding distrib_left by linarith
    from int_mod_pos_eq [OF this] int_div_pos_eq [OF this] False assms show ?thesis by simp
  qed
qed

lemmas successor_div = successor_divmod [THEN conjunct1] successor_divmod [THEN conjunct2]

lemma failures_track:
  assumes one: "matched identity P = [p]" and fresh: "HealthFails p = 0" "EjectionCount p = 0"
    and live: "\<forall>t \<in> set ts. LiveAt p t"
    and L: "L = FailureLimit (normalized pol)" and M: "M = MaxEjections (normalized pol)"
  shows "if int (length ts) < L * (M + 1)
    then \<exists>q. matched identity (failures pol identity ts P) = [q] \<and> same_parts q p \<and> exitExpiresAt q = exitExpiresAt p
      \<and> HealthFails q = int (length ts) mod L \<and> EjectionCount q = int (length ts) div L
    else matched identity (failures pol identity ts P) = []"
  using live
proof (induction ts rule: rev_induct)
  case Nil
  have "0 < L * (M + 1)" using normalized_bounds(1,4) [of pol] by (simp add: L M)
  then show ?case using one fresh by (simp add: failures_def)
next
  case (snoc t ts)
  let ?n = "int (length ts)" and ?Q = "failures pol identity ts P"
  have pos: "0 < L" "0 < M" using normalized_bounds(1,4) [of pol] by (simp_all add: L M)
  have next_state: "matched identity (failures pol identity (ts @ [t]) P)
      = List.map_filter (after_failure (normalized pol) t identity) (filter (\<lambda>p. LiveAt p t) (matched identity ?Q))"
    using failure_matched [of identity t pol ?Q] by (simp add: failures_def)
  show ?case
  proof (cases "?n < L * (M + 1)")
    case False
    then show ?thesis using snoc next_state by (simp add: map_filter_simps)
  next
    case True
    then obtain q where q: "matched identity ?Q = [q]" "same_parts q p" "exitExpiresAt q = exitExpiresAt p"
        "HealthFails q = ?n mod L" "EjectionCount q = ?n div L"
      using snoc by auto
    have lq: "LiveAt q t" using q(2,3) snoc.prems by (auto simp: LiveAt_def same_parts_def)
    have mq: "matches q identity" using q(1) by (auto simp: matched_def filter_eq_Cons_iff)
    have res: "matched identity (failures pol identity (ts @ [t]) P) = List.map_filter (after_failure (normalized pol) t identity) [q]"
      using next_state q(1) lq by simp
    show ?thesis
    proof (cases "?n mod L + 1 < L")
      case wrap: True
      have "after_failure (normalized pol) t identity q = Some (count_failure t q)" using mq wrap q(4) L by (simp add: after_failure_def)
      moreover have "1 + ?n < L * (M + 1)" using wrap True pos(1) by (simp add: less_mult_iff_div successor_div)
      ultimately show ?thesis
        using res q wrap pos(1) by (simp add: map_filter_simps count_failure_def same_parts_def successor_div)
    next
      case full: False
      show ?thesis
      proof (cases "?n div L + 1 > M")
        case True
        then have "after_failure (normalized pol) t identity q = None"
          using mq full q(4,5) L M by (simp add: after_failure_def isolated_def)
        then show ?thesis using res True full pos(1) by (simp add: map_filter_simps less_mult_iff_div successor_div)
      next
        case False
        then obtain q' where "after_failure (normalized pol) t identity q = Some q'" "same_parts q' q" "HealthFails q' = 0"
            "EjectionCount q' = EjectionCount q + 1" "exitExpiresAt q' = exitExpiresAt q"
          using mq full q(4,5) L M by (simp add: after_failure_def isolated_def count_failure_def same_parts_def)
        then show ?thesis
          using res q False full pos(1) by (auto simp: map_filter_simps same_parts_def less_mult_iff_div successor_div)
      qed
    qed
  qed
qed

subsection \<open>Fair rotation\<close>

lemma fastest_of_fold:
  assumes "0 \<le> (f :: int)"
  shows "fold (\<lambda>l fastest. if l \<le> 0 then fastest else if fastest = 0 \<or> l < fastest then l else fastest) ls f = g \<Longrightarrow>
    0 \<le> g \<and> (g = 0 \<longleftrightarrow> f = 0 \<and> (\<forall>l \<in> set ls. l \<le> 0)) \<and> (0 < f \<longrightarrow> g \<le> f) \<and> (\<forall>l \<in> set ls. 0 < l \<longrightarrow> g \<le> l) \<and> (g = f \<or> g \<in> set ls)"
  using assms
proof (induction ls arbitrary: f)
  case (Cons l ls)
  let ?f = "if l \<le> 0 then f else if f = 0 \<or> l < f then l else f"
  have "0 \<le> ?f" using Cons.prems(2) by auto
  from Cons.IH [OF _ this] Cons.prems show ?case by (auto split: if_splits)
qed auto

lemma fastest_of_spec:
  "0 \<le> fastest_of ls \<and> (fastest_of ls = 0 \<longleftrightarrow> (\<forall>l \<in> set ls. l \<le> 0)) \<and> (\<forall>l \<in> set ls. 0 < l \<longrightarrow> fastest_of ls \<le> l)
    \<and> (fastest_of ls \<noteq> 0 \<longrightarrow> fastest_of ls \<in> set ls)"
  using fastest_of_fold [of 0 ls "fastest_of ls"] by (auto simp: fastest_of_def)

text \<open>No exit is more than three times slower than another.\<close>

definition even_latency :: "exitProxy list \<Rightarrow> bool" where
  "even_latency ps \<longleftrightarrow> (\<forall>p \<in> set ps. LatencyEWMA p < 2 ^ 60 \<and> (\<forall>q \<in> set ps. 0 < LatencyEWMA q \<longrightarrow> LatencyEWMA p \<le> 3 * LatencyEWMA q))"

lemma demoteSlow_even: "even_latency ps \<Longrightarrow> demoteSlow ps = ps"
proof -
  assume even: "even_latency ps"
  let ?f = "fastest_of (map LatencyEWMA ps)"
  show ?thesis
  proof (cases "?f = 0")
    case False
    then obtain q where q: "q \<in> set ps" "LatencyEWMA q = ?f" "0 < ?f"
      using fastest_of_spec [of "map LatencyEWMA ps"] by force
    then have "wrap64 (?f * slowLatencyFactor) = 3 * ?f"
      using even by (auto simp: even_latency_def slowLatencyFactor_def wrap64_def)
    then have "filter (\<lambda>p. wrap64 (?f * slowLatencyFactor) < LatencyEWMA p) ps = []"
      using even q by (auto simp: even_latency_def filter_empty_conv) (metis linorder_not_less)
    then show ?thesis by (simp add: demoteSlow_def Let_def)
  qed (simp add: demoteSlow_def Let_def)
qed

lemma even_latency_set: "set ps = set qs \<Longrightarrow> even_latency ps = even_latency qs"
  by (simp add: even_latency_def)

primrec successive :: "nat \<Rightarrow> time \<Rightarrow> exitPool \<Rightarrow> exitProxy option list" where
  "successive 0 now P = []"
| "successive (Suc n) now P = (case exit_Get now P of (r, P') \<Rightarrow> r # successive n now P')"

lemma served_advance [simp]: "served_exits now life (advance P) = served_exits now life P"
proof -
  have "fitting_exits now life (advance P) = fitting_exits now life P" by (simp add: fitting_exits_def advance_def)
  then show ?thesis by (simp add: served_exits_def Let_def)
qed

lemma exit_Get_eq:
  assumes "even_latency (served_exits now 0 P)" "served_exits now 0 P \<noteq> []"
  shows "exit_Get now P = (Some (rev (served_exits now 0 P) ! (unat (selectionCursor P) mod length (served_exits now 0 P))), advance P)"
proof -
  let ?ps = "served_exits now 0 P" and ?k = "unat (selectionCursor P) mod length (served_exits now 0 P)"
  have "rotateFor (selectionCursor P) ?ps False = rotate ?k (rev ?ps)"
    using demoteSlow_even [of "rotate ?k (rev ?ps)"] assms(1) even_latency_set [of "rotate ?k (rev ?ps)" ?ps]
    by (simp add: rotateFor_def exit_rotate_eq)
  moreover have "rotate ?k (rev ?ps) = (rev ?ps ! ?k) # tl (rotate ?k (rev ?ps))"
    using assms(2) hd_rotate_conv_nth [of "rev ?ps" ?k] by (metis hd_Cons_tl length_rev mod_mod_trivial rev_is_Nil_conv rotate_is_Nil_conv)
  ultimately have "first_of (rotateFor (selectionCursor P) ?ps False) = Some (rev ?ps ! ?k)" by (metis first_of_def list.simps(5))
  then show ?thesis using assms(2) by (simp add: exit_Get_def Candidates_def CandidatesWithLatency_eq)
qed

lemma successive_eq:
  assumes "even_latency (served_exits now 0 P)" "served_exits now 0 P \<noteq> []" "unat (selectionCursor P) + n < 2 ^ 64"
  shows "successive n now P = map (\<lambda>i. Some (rev (served_exits now 0 P) ! (i mod length (served_exits now 0 P))))
    [unat (selectionCursor P) ..< unat (selectionCursor P) + n]"
  using assms
proof (induction n arbitrary: P)
  case (Suc n)
  have "unat (selectionCursor (advance P)) = Suc (unat (selectionCursor P))"
    using Suc.prems(3) by (simp add: advance_def unat_word_ariths)
  moreover have "[unat (selectionCursor P) ..< unat (selectionCursor P) + Suc n]
      = unat (selectionCursor P) # [Suc (unat (selectionCursor P)) ..< Suc (unat (selectionCursor P)) + n]"
    by (simp add: upt_conv_Cons del: upt_Suc)
  ultimately show ?case using Suc.IH [of "advance P"] Suc.prems by (simp add: exit_Get_eq del: upt_Suc)
qed simp

lemma residues:
  assumes "0 < n"
  shows "mset (map (\<lambda>i. i mod n) [c ..< c + n]) = mset [0 ..< (n :: nat)]"
proof (induction c)
  case 0
  have "map (\<lambda>i. i mod n) [0 ..< n] = map (\<lambda>i. i) [0 ..< n]" by (rule map_cong) auto
  then show ?case by simp
next
  case (Suc c)
  have "[c ..< Suc c + n] = c # [Suc c ..< Suc c + n]" by (simp add: upt_conv_Cons del: upt_Suc)
  moreover have "[c ..< Suc c + n] = [c ..< c + n] @ [c + n]" by simp
  ultimately have "mset (map (\<lambda>i. i mod n) (c # [Suc c ..< Suc c + n])) = mset (map (\<lambda>i. i mod n) ([c ..< c + n] @ [c + n]))" by simp
  then have "mset (map (\<lambda>i. i mod n) [Suc c ..< Suc c + n]) = mset (map (\<lambda>i. i mod n) [c ..< c + n])" by simp
  then show ?case using Suc by simp
qed

lemma successive_fair:
  assumes "even_latency (served_exits now 0 P)" "served_exits now 0 P \<noteq> []" "n = length (served_exits now 0 P)"
    "unat (selectionCursor P) + n < 2 ^ 64"
  shows "mset (successive n now P) = mset (map Some (served_exits now 0 P))"
proof -
  let ?ps = "served_exits now 0 P" and ?c = "unat (selectionCursor P)"
  have "successive n now P = map (\<lambda>i. Some (rev ?ps ! i)) (map (\<lambda>i. i mod n) [?c ..< ?c + n])"
    using successive_eq [OF assms(1,2,4)] assms(3) by simp
  then have "mset (successive n now P) = image_mset (\<lambda>i. Some (rev ?ps ! i)) (mset [0 ..< n])"
    using residues [of n ?c] assms(2,3) by (metis length_greater_0_conv mset_map)
  also have "\<dots> = mset (map Some (map (nth (rev ?ps)) [0 ..< length (rev ?ps)]))" using assms(3) by (simp add: multiset.map_comp comp_def)
  also have "\<dots> = mset (map Some ?ps)" by (simp only: map_nth mset_map mset_rev)
  finally show ?thesis .
qed

subsection \<open>Quality\<close>

lemma orderByQuality_head:
  assumes "orderByQuality ps = p # rest"
  shows "p \<in> set ps" "\<forall>q \<in> set ps. \<not> quality_less (relativeSlowThreshold ps) q p"
proof -
  let ?key = "quality_key (relativeSlowThreshold ps)"
  have "sorted (map ?key (p # rest))" using assms by (metis orderByQuality_sort sorted_sort_key)
  moreover have set: "set ps = insert p (set rest)" using assms by (metis list.simps(15) orderByQuality_mset set_mset_mset)
  ultimately show "p \<in> set ps" "\<forall>q \<in> set ps. \<not> quality_less (relativeSlowThreshold ps) q p"
    by (auto simp: quality_less_key)
qed

lemma GetWithQuality_cases:
  assumes "GetWithQuality now P = (Some p, P')"
  shows "p \<in> set (served_exits now 0 P) \<and>
    ((\<forall>q \<in> set (served_exits now 0 P). \<not> quality_less (relativeSlowThreshold (rotateFor (selectionCursor P) (served_exits now 0 P) False)) q p)
     \<or> unat (selectionCursor P) mod 8 = 7 \<and> explorable p)"
proof -
  let ?cs = "rotateFor (selectionCursor P) (served_exits now 0 P) False"
  let ?explore = "unat (selectionCursor P) mod 8 = 7"
  have ne: "?cs \<noteq> []" using assms by (auto simp: GetWithQuality_def orderedLocked_eq split: if_splits)
  then obtain h rest where ord: "orderByQuality ?cs = h # rest" by (metis list.exhaust mset_zero_iff orderByQuality_mset)
  have rest: "set rest \<subseteq> set ?cs" using ord by (metis orderByQuality_mset set_mset_mset set_subset_Cons)
  have "Some p = (if ?explore then case find explorable rest of Some c \<Rightarrow> Some c | None \<Rightarrow> Some h else Some h)"
    using assms ne ord
    by (auto simp: GetWithQuality_def orderedLocked_eq Let_def first_of_def qualityExploreEvery_def split: if_splits option.splits)
  then consider "p = h" | "?explore" "find explorable rest = Some p" by (auto split: if_splits option.splits)
  then show ?thesis
  proof cases
    case 1
    then show ?thesis using orderByQuality_head [OF ord] by auto
  next
    case 2
    then show ?thesis using find_Some_iff' [of explorable rest p] rest by auto
  qed
qed

lemma GetWithQuality_none: "fst (GetWithQuality now P) = None \<longleftrightarrow> \<not> (\<exists>p \<in> set (proxies P). LiveAt p now)"
proof -
  have "served_exits now 0 P = [] \<longleftrightarrow> \<not> (\<exists>p \<in> set (proxies P). LiveAt p now)"
    using RemainingLife_nonneg by (auto simp: served_exits_Nil fitting_exits_def filter_empty_conv)
  moreover have "orderByQuality ps = [] \<longleftrightarrow> ps = []" for ps by (metis mset_zero_iff orderByQuality_mset)
  ultimately show ?thesis
    by (auto simp: GetWithQuality_def orderedLocked_eq Let_def first_of_def split: option.splits list.splits)
qed

subsection \<open>Grace\<close>

definition graces :: "duration \<Rightarrow> (time \<times> duration) list \<Rightarrow> exitPool \<Rightarrow> exitPool" where
  "graces maxLifetime calls P = fold (\<lambda>(t, g) Q. snd (Grace t g maxLifetime Q)) calls P"

definition graced :: "duration \<Rightarrow> exitProxy \<Rightarrow> exitProxy \<Rightarrow> bool" where
  "graced maxLifetime p q \<longleftrightarrow>
     (\<exists>e. q = p\<lparr>exitExpiresAt := e\<rparr> \<and> exitExpiresAt p \<le> e \<and> (e = exitExpiresAt p \<or> e \<le> ValidatedAt p + maxLifetime))"

lemma graced_refl: "graced l p p"
  unfolding graced_def by (rule exI [of _ "exitExpiresAt p"]) simp

lemma graced_trans:
  assumes "graced l p q" "graced l q r"
  shows "graced l p r"
proof -
  obtain d where d: "q = p\<lparr>exitExpiresAt := d\<rparr>" "exitExpiresAt p \<le> d" "d = exitExpiresAt p \<or> d \<le> ValidatedAt p + l"
    using assms(1) by (auto simp: graced_def)
  obtain e where e: "r = q\<lparr>exitExpiresAt := e\<rparr>" "exitExpiresAt q \<le> e" "e = exitExpiresAt q \<or> e \<le> ValidatedAt q + l"
    using assms(2) by (auto simp: graced_def)
  show ?thesis unfolding graced_def by (rule exI [of _ e]) (use d e in auto)
qed

lemma grace_one_graced: "graced l p (fst (grace_one t g l p))"
  using graced_refl [of l p] by (auto simp: grace_one_def Let_def) (auto simp: graced_def)

text \<open>However often and with whatever extension \<open>Grace\<close> is called, it only moves expiries, only later, and
  never past the last validation plus the maximal lifetime.\<close>

lemma grace_bounded: "list_all2 (graced l) (proxies P) (proxies (graces l calls P))"
proof (induction calls arbitrary: P)
  case Nil
  then show ?case by (simp add: graces_def graced_refl list_all2_same)
next
  case (Cons c calls)
  obtain t g where c: "c = (t, g)" by (cases c)
  have "list_all2 (graced l) (proxies P) (proxies (snd (Grace t g l P)))"
    by (simp add: Grace_def Let_def list_all2_same list_all2_map2 comp_def grace_one_graced graced_refl)
  moreover have "list_all2 (graced l) (proxies (snd (Grace t g l P))) (proxies (graces l (c # calls) P))"
    using Cons.IH [of "snd (Grace t g l P)"] by (simp add: graces_def c)
  ultimately show ?case using list_all2_trans [of "graced l" "graced l" "graced l"] graced_trans by blast
qed

subsection \<open>Sessions\<close>

lemma filter_key_single: "distinct (map f xs) \<Longrightarrow> p \<in> set xs \<Longrightarrow> filter (\<lambda>c. f c = f p) xs = [p]"
proof (induction xs)
  case (Cons x xs)
  show ?case
  proof (cases "x = p")
    case True
    then have "f p \<notin> f ` set xs" using Cons.prems(1) by simp
    then have "\<forall>c \<in> set xs. f c \<noteq> f p" by (metis imageI)
    then show ?thesis using True by (simp add: filter_empty_conv)
  next
    case False
    then have "p \<in> set xs" "f x \<noteq> f p" using Cons.prems by auto
    then show ?thesis using Cons by simp
  qed
qed simp

lemma StickyGet_bound:
  assumes "stickyBindings P session = Some b" "now < stickyUntil b" "p \<in> set (proxies P)" "exit_Key p = stickyKey b"
    "AvailableAt p now" "life \<le> RemainingLife p now" "distinct (map exit_Key (proxies P))"
  shows "\<exists>rest P'. StickyGet session now life P = ((p # rest, False, True), P')
    \<and> mset (p # rest) = mset (filter (\<lambda>q. AvailableAt q now \<and> life \<le> RemainingLife q now) (proxies P))"
proof -
  let ?Q = "\<lambda>q. exit_Key q = stickyKey b \<and> AvailableAt q now \<and> RemainingLife q now \<ge> life"
  let ?cs = "rotateFor (selectionCursor P) (served_exits now life P) False"
  have same: "q = p" if "q \<in> set (proxies P)" "exit_Key q = exit_Key p" for q
    using that assms(3,7) by (auto simp: distinct_map dest: inj_onD)
  have bound: "find ?Q (proxies P) = Some p"
  proof (cases "find ?Q (proxies P)")
    case None
    then show ?thesis using assms(3-6) by (auto simp: find_None_iff)
  next
    case (Some q)
    then show ?thesis using find_Some_iff' [of ?Q "proxies P" q] same assms(4) by auto
  qed
  have avail: "filter (\<lambda>q. \<not> EjectedAt q now) (fitting_exits now life P) = filter (\<lambda>q. AvailableAt q now \<and> life \<le> RemainingLife q now) (proxies P)"
    by (auto simp: fitting_exits_def AvailableAt_def intro: filter_cong)
  moreover have pin: "p \<in> set (filter (\<lambda>q. AvailableAt q now \<and> life \<le> RemainingLife q now) (proxies P))" using assms(3,5,6) by simp
  ultimately have "filter (\<lambda>q. \<not> EjectedAt q now) (fitting_exits now life P) \<noteq> []" by (metis empty_iff empty_set)
  then have served: "served_exits now life P = filter (\<lambda>q. AvailableAt q now \<and> life \<le> RemainingLife q now) (proxies P)"
    and calm: "\<not> panics now life P"
    using avail by (simp_all add: served_exits_def panics_served Let_def del: filter_filter)
  let ?others = "filter (\<lambda>c. exit_Key c \<noteq> exit_Key p) ?cs"
  have "distinct (map exit_Key (served_exits now life P))" "p \<in> set (served_exits now life P)"
    using assms(7) pin served by (simp_all add: distinct_map_filter)
  then have "filter (\<lambda>c. exit_Key c = exit_Key p) (served_exits now life P) = [p]" by (rule filter_key_single)
  then have "mset (filter (\<lambda>c. exit_Key c = exit_Key p) ?cs) = {#p#}" by (metis mset_filter mset_single_iff rotateFor_mset)
  moreover have "mset (filter (\<lambda>c. exit_Key c = exit_Key p) ?cs) + mset ?others = mset ?cs"
    by (simp flip: multiset_partition)
  ultimately have "mset (p # ?others) = mset (filter (\<lambda>q. AvailableAt q now \<and> life \<le> RemainingLife q now) (proxies P))"
    by (simp add: served)
  moreover have "StickyGet session now life P = ((p # ?others, False, True), advance P)"
    using assms(1,2) bound calm \<open>p \<in> set (served_exits now life P)\<close> by (auto simp: StickyGet_def orderedLocked_eq)
  ultimately show ?thesis by blast
qed

subsection \<open>Properties\<close>

text \<open>What a selection serves. \<open>Candidates\<close>, with or without latency preference, returns a permutation
  of the exits that are live, have at least the requested remaining life and are not isolated; when all
  live exits with enough life are isolated it returns these instead and says so (panic mode), and it
  returns nothing exactly when no live exit has enough life.\<close>

theorem exit_selection:
  "\<exists>cands panicMode P'. CandidatesWithLatency now life prefer P = ((cands, panicMode), P') \<and>
    mset cands = (let fit = filter (\<lambda>p. LiveAt p now \<and> life \<le> RemainingLife p now) (proxies P);
                      avail = filter (\<lambda>p. \<not> EjectedAt p now) fit
                  in if avail = [] then mset fit else mset avail)
    \<and> panicMode = (cands \<noteq> [] \<and> (\<forall>p \<in> set cands. EjectedAt p now))"
proof -
  have "panics now life P = (served_exits now life P \<noteq> [] \<and> (\<forall>p \<in> set (served_exits now life P). EjectedAt p now))"
    by (auto simp: panics_served served_exits_def Let_def filter_empty_conv)
  then show ?thesis
    by (simp add: CandidatesWithLatency_eq) (simp add: served_exits_def fitting_exits_def Let_def)
qed

text \<open>Rotation is fair. While no exit is more than three times slower than another, as many successive
  calls of \<open>Get\<close> as there are exits to serve return each of them exactly once, up to the wrap-around of
  the 64-bit cursor.\<close>

theorem exit_rotation_fair:
  assumes "even_latency (served_exits now 0 P)" "served_exits now 0 P \<noteq> []"
    and "unat (selectionCursor P) + length (served_exits now 0 P) < 2 ^ 64"
  shows "mset (successive (length (served_exits now 0 P)) now P) = mset (map Some (served_exits now 0 P))"
  by (rule successive_fair [OF assms(1,2) refl assms(3)])

text \<open>Selection by quality. \<open>GetWithQuality\<close> finds an exit whenever one is live. It serves one that no
  other exit to serve beats in the order slow-last, score, latency; only on every eighth selection it
  may serve instead an exit with fewer than three requests and no recent failure. Scores lie between 0
  and 100.\<close>

theorem exit_quality:
  "(fst (GetWithQuality now P) = None \<longleftrightarrow> \<not> (\<exists>p \<in> set (proxies P). LiveAt p now))
   \<and> (\<forall>p. fst (GetWithQuality now P) = Some p \<longrightarrow> p \<in> set (served_exits now 0 P) \<and>
      ((\<forall>q \<in> set (served_exits now 0 P).
          \<not> quality_less (relativeSlowThreshold (rotateFor (selectionCursor P) (served_exits now 0 P) False)) q p)
       \<or> unat (selectionCursor P) mod 8 = 7 \<and> explorable p))
   \<and> (\<forall>p. 0 \<le> QualityScore p \<and> QualityScore p \<le> 100)"
proof (intro conjI allI impI)
  show "fst (GetWithQuality now P) = None \<longleftrightarrow> \<not> (\<exists>p \<in> set (proxies P). LiveAt p now)" by (rule GetWithQuality_none)
qed (use GetWithQuality_cases [of now P] QualityScore_bounds in \<open>(metis prod.collapse)+\<close>)

text \<open>C27: A removed exit stays out. After any operations of the pool, when a failure report at instant t drops
  an exit that is still live, then no fetch and no other operation but a replacement by hand brings its
  key back into the pool before t plus five minutes.\<close>

theorem exit_removed_stays_out:
  assumes "exit_run s P" "s \<le> t" "p \<in> set (proxies P)" "LiveAt p t" "ReportFailure identity t pol P = (outcome, Q)"
    and "exit_Key p \<notin> exit_Key ` set (proxies Q)" "exit_path t Q now R" "now < t + 5 * minute"
  shows "exit_Key p \<notin> exit_Key ` set (proxies R) \<and> distinct (map exit_Key (proxies R))"
proof -
  have Q: "Q = snd (ReportFailure identity t pol P)" using assms(5) by simp
  have "pool_ok t P" using exit_run_ok [OF assms(1)] assms(2) by (rule pool_ok_later)
  then have "pool_ok t Q" unfolding Q by (rule pool_ok_failure)
  moreover have "quarantined t (t + removalCooldown) (exit_Key p) Q"
    unfolding Q by (rule failure_quarantines) (use assms(3,4,6) Q in auto)
  ultimately have "pool_ok now R" "quarantined now (t + removalCooldown) (exit_Key p) R"
    using quarantined_path [OF assms(7)] by blast+
  then show ?thesis using assms(8) by (auto simp: quarantined_def removalCooldown_def pool_ok_def exits_ok_def)
qed

text \<open>An exit that keeps failing is isolated in growing steps and then removed. When every report on
  an exit without a record of failures is a transport failure, then after n of them, while n is below
  L times (M + 1), the exit is in the pool with n mod L failures and n div L isolations; from then on
  it is gone, where L is the failure limit and M the limit of isolations.\<close>

theorem exit_failing_removed:
  assumes "matched identity P = [p]" "HealthFails p = 0" "EjectionCount p = 0" "\<forall>t \<in> set ts. LiveAt p t"
    and "L = FailureLimit (normalized pol)" "M = MaxEjections (normalized pol)" "n = int (length ts)"
  shows "if n < L * (M + 1)
    then \<exists>q. matched identity (failures pol identity ts P) = [q] \<and> exit_Key q = exit_Key p
      \<and> HealthFails q = n mod L \<and> EjectionCount q = n div L
    else matched identity (failures pol identity ts P) = []"
  using failures_track [OF assms(1-6)] assms(7) same_parts_key by (auto split: if_splits)

text \<open>Failures of the upstream are not blamed on exits. When no live exit has served a request within
  the last minute, or the status is 529, a report of an HTTP failure removes and isolates no exit and
  changes no count of isolations.\<close>

theorem http_storm_harmless:
  assumes "status = 529 \<or> (\<forall>p \<in> set (proxies P). LiveAt p now \<and> LastRequestSuccessAt p \<noteq> 0 \<longrightarrow> 60 * second < time_sub now (LastRequestSuccessAt p))"
  shows "case exit_ReportHTTPFailure identity now status pol P of (outcome, Q) \<Rightarrow>
    outcome = OutcomeCounted \<and> (\<forall>k until. removedUntil Q k = Some until \<longrightarrow> removedUntil P k = Some until)
    \<and> map (\<lambda>p. (exit_Key p, EjectedUntil p, EjectionCount p)) (proxies Q)
      = map (\<lambda>p. (exit_Key p, EjectedUntil p, EjectionCount p)) (filter (\<lambda>p. LiveAt p now) (proxies P))"
proof (cases "status = httpStatusOverloaded")
  case True
  then show ?thesis
    by (auto simp: exit_ReportHTTPFailure_def Let_def pruneLocked_def pruneRemovedLocked_def split: option.splits if_splits)
next
  case False
  then have "\<not> hasRecentRequestSuccessLocked now (pruneLocked now P)"
    using assms by (auto simp: hasRecentRequestSuccessLocked_def httpStatusOverloaded_def httpEjectSuccessWindow_def prune_proxies list_ex_iff)
  moreover define g where "g = after_http_failure (normalized pol) False now status identity"
  moreover have g: "g p = Some (if matches p identity then count_http_failure (normalized pol) now status p else p)" for p
    by (simp add: g_def after_http_failure_def)
  moreover have "mark_removed now g ps m = m" for ps m by (simp add: mark_removed_def g)
  moreover have "fold (failure_outcome (\<lambda>p. False) g) ps OutcomeCounted = OutcomeCounted" for ps
    by (induction ps) (simp_all add: failure_outcome_def)
  moreover have "map (\<lambda>p. (exit_Key p, EjectedUntil p, EjectionCount p)) (List.map_filter g ps)
      = map (\<lambda>p. (exit_Key p, EjectedUntil p, EjectionCount p)) ps" for ps
    by (induction ps) (auto simp: map_filter_simps g count_http_failure_def exit_Key_def Let_def)
  ultimately show ?thesis
    using False by (auto simp: exit_ReportHTTPFailure_eq Let_def prune_proxies) (auto simp: pruneLocked_def pruneRemovedLocked_def split: option.splits if_splits)
qed

text \<open>A session keeps its exit. After a session is bound to an exit for a time ttl, a request of the
  session within that time gets the exit first, without panic mode, as long as the exit is available
  and has the requested life left; the other available exits follow, each once.\<close>

theorem sticky_session:
  assumes "exit_run s P" "p \<in> set (proxies P)" "AvailableAt p now" "life \<le> RemainingLife p now" "now < t + ttl"
  shows "\<exists>rest P'. StickyGet session now life (StickyRebind session (exit_Key p) t ttl P) = ((p # rest, False, True), P')
    \<and> mset (p # rest) = mset (filter (\<lambda>q. AvailableAt q now \<and> life \<le> RemainingLife q now) (proxies P))"
  using StickyGet_bound [of "StickyRebind session (exit_Key p) t ttl P" session _ now p life] exit_run_ok [OF assms(1)] assms(2-5)
  by (simp add: StickyRebind_def pool_ok_def exits_ok_def)

subsection \<open>Witnesses\<close>

definition sample_exit :: "string \<Rightarrow> exitProxy" where
  "sample_exit a = \<lparr>Scheme = ''http'', Address = a, Username = [], Password = [], FetchedAt = 1, ValidatedAt = 1, exitExpiresAt = 100 * second,
     HealthFails = 0, EjectedUntil = 0, EjectionCount = 0, LatencyEWMA = 5, SuccessCount = 0, FailureCount = 0, LastSuccessAt = 0,
     RequestSuccessCount = 0, RequestFailureCount = 0, RequestFailureStreak = 0, RequestLatencyEWMA = 0, RequestLatencySamples = 0,
     HTTPFailCount = 0, LastRequestSuccessAt = 0, LastFailureAt = 0, LastHTTPFailureAt = 0, LastHTTPFailureStatus = 0, LatencySamples = 1\<rparr>"

definition sample_exits :: exitPool where
  "sample_exits = Replace [sample_exit ''a'', sample_exit ''b''] NewPool"

definition strict_policy :: ejectionPolicy where
  "strict_policy = \<lparr>FailureLimit = 1, BaseDuration = second, MaxDuration = second, MaxEjections = 1, LatencyAlpha = 1 / 2, HTTPFailureLimit = 1\<rparr>"

lemma sample_exits_run: "exit_run 1 sample_exits"
  unfolding sample_exits_def
  by (rule run_replace [OF run_start [of 1]]) (simp_all add: sample_exit_def no_NUL_def exit_Key_def NUL_def)

lemma sample_exit_fields:
  "LatencyEWMA (sample_exit a) = 5" "Address (sample_exit a) = a" "HealthFails (sample_exit a) = 0" "EjectionCount (sample_exit a) = 0"
  "LastRequestSuccessAt (sample_exit a) = 0" "LiveAt (sample_exit a) t \<longleftrightarrow> a \<noteq> [] \<and> t < 100 * second"
  "AvailableAt (sample_exit a) 1 \<longleftrightarrow> a \<noteq> []" "exit_Key (sample_exit a) = ''http'' @ NUL # a @ [NUL, NUL]"
  by (simp_all add: sample_exit_def LiveAt_def AvailableAt_def EjectedAt_def exit_Key_def)

lemma sample_exits_fields:
  "proxies sample_exits = [sample_exit ''a'', sample_exit ''b'']" "selectionCursor sample_exits = 0"
  by (simp_all add: sample_exits_def Replace_def NewPool_def)

lemma sample_served: "served_exits 1 0 sample_exits = [sample_exit ''a'', sample_exit ''b'']"
  by (simp add: served_exits_def fitting_exits_def sample_exits_def Replace_def sample_exit_def LiveAt_def EjectedAt_def RemainingLife_nonneg)

theorem exit_selection_witness:
  "\<exists>cands panicMode P'. Candidates 1 0 sample_exits = ((cands, panicMode), P') \<and> length cands = 2"
proof -
  obtain cands panicMode P' where "CandidatesWithLatency 1 0 False sample_exits = ((cands, panicMode), P')"
    "mset cands = (let fit = filter (\<lambda>p. LiveAt p 1 \<and> 0 \<le> RemainingLife p 1) (proxies sample_exits);
                      avail = filter (\<lambda>p. \<not> EjectedAt p 1) fit
                  in if avail = [] then mset fit else mset avail)"
    using exit_selection [of 1 0 False sample_exits] by blast
  moreover have "\<dots> = mset (served_exits 1 0 sample_exits)" by (simp add: served_exits_def fitting_exits_def Let_def)
  ultimately show ?thesis using mset_eq_length [of cands "served_exits 1 0 sample_exits"] by (auto simp: Candidates_def sample_served)
qed

theorem exit_rotation_fair_witness:
  "mset (successive 2 1 sample_exits) = {#Some (sample_exit ''a''), Some (sample_exit ''b'')#}"
proof -
  have "mset (successive (length (served_exits 1 0 sample_exits)) 1 sample_exits) = mset (map Some (served_exits 1 0 sample_exits))"
    by (rule exit_rotation_fair) (simp_all add: sample_served even_latency_def sample_exit_fields sample_exits_fields)
  then show ?thesis by (simp add: sample_served numeral_2_eq_2)
qed

theorem exit_quality_witness:
  "\<exists>p. fst (GetWithQuality 1 sample_exits) = Some p \<and> p \<in> {sample_exit ''a'', sample_exit ''b''}"
proof -
  have "LiveAt (sample_exit ''a'') 1" "sample_exit ''a'' \<in> set (proxies sample_exits)"
    by (simp_all add: sample_exit_def LiveAt_def sample_exits_def Replace_def)
  then obtain p where p: "fst (GetWithQuality 1 sample_exits) = Some p"
    using exit_quality [of 1 sample_exits] by (metis not_None_eq)
  then have "p \<in> set (served_exits 1 0 sample_exits)" using exit_quality [of 1 sample_exits] by blast
  then show ?thesis using p by (auto simp: sample_served)
qed

lemma sample_matched: "matched ''a'' sample_exits = [sample_exit ''a'']"
  by (simp add: matched_def sample_exits_fields matches_def sample_exit_fields)

lemma strict_policy_normal: "FailureLimit (normalized strict_policy) = 1" "MaxEjections (normalized strict_policy) = 1"
  by (simp_all add: normalized_def strict_policy_def Let_def)

theorem exit_failing_removed_witness:
  "(\<exists>q. matched ''a'' (failures strict_policy ''a'' [2] sample_exits) = [q] \<and> EjectionCount q = 1)
    \<and> matched ''a'' (failures strict_policy ''a'' [2, 3] sample_exits) = []"
  using exit_failing_removed [OF sample_matched, of "[2]" 1 strict_policy 1 1]
    exit_failing_removed [OF sample_matched, of "[2, 3]" 1 strict_policy 1 2]
  by (auto simp: sample_exit_fields strict_policy_normal)

theorem http_storm_harmless_witness:
  "fst (exit_ReportHTTPFailure ''a'' 1 429 strict_policy sample_exits) = OutcomeCounted"
  using http_storm_harmless [of 429 sample_exits 1 "''a''" strict_policy]
  by (auto simp: sample_exits_fields sample_exit_fields split: prod.splits)

theorem sticky_session_witness:
  "\<exists>rest. fst (StickyGet ''s'' 1 0 (StickyRebind ''s'' (exit_Key (sample_exit ''b'')) 0 5 sample_exits)) = (sample_exit ''b'' # rest, False, True)"
proof -
  have "\<exists>rest P'. StickyGet ''s'' 1 0 (StickyRebind ''s'' (exit_Key (sample_exit ''b'')) 0 5 sample_exits) = ((sample_exit ''b'' # rest, False, True), P')
    \<and> mset (sample_exit ''b'' # rest) = mset (filter (\<lambda>q. AvailableAt q 1 \<and> 0 \<le> RemainingLife q 1) (proxies sample_exits))"
    by (rule sticky_session [OF sample_exits_run]) (simp_all add: sample_exits_fields sample_exit_fields RemainingLife_nonneg)
  then show ?thesis by auto
qed

text \<open>The pool after one failure report on its first exit, and after a second one.\<close>

lemma sample_failures:
  "exit_run 2 (failures strict_policy ''a'' [2] sample_exits)"
  "\<exists>p \<in> set (proxies (failures strict_policy ''a'' [2] sample_exits)). exit_Key p = exit_Key (sample_exit ''a'') \<and> LiveAt p 3
    \<and> exit_Key p \<notin> exit_Key ` set (proxies (snd (ReportFailure ''a'' 3 strict_policy (failures strict_policy ''a'' [2] sample_exits))))"
proof -
  show "exit_run 2 (failures strict_policy ''a'' [2] sample_exits)"
    by (simp add: failures_def) (rule run_step [OF sample_exits_run], simp, rule step_failure)
  let ?P = "failures strict_policy ''a'' [2] sample_exits"
  obtain q where q: "matched ''a'' ?P = [q]" "same_parts q (sample_exit ''a'')" "exitExpiresAt q = exitExpiresAt (sample_exit ''a'')"
    using failures_track [OF sample_matched, of "[2]" 1 strict_policy 1] by (auto simp: sample_exit_fields strict_policy_normal)
  have none: "matched ''a'' (failures strict_policy ''a'' [2, 3] sample_exits) = []"
    using failures_track [OF sample_matched, of "[2, 3]" 1 strict_policy 1] by (simp add: sample_exit_fields strict_policy_normal)
  have "q \<in> set (proxies ?P)" using q(1) by (auto simp: matched_def filter_eq_Cons_iff)
  moreover have "LiveAt q 3" using q(2,3) by (simp add: LiveAt_def same_parts_def sample_exit_def)
  moreover have "exit_Key q = exit_Key (sample_exit ''a'')" using same_parts_key [OF q(2)] by simp
  moreover have "exit_Key q \<notin> exit_Key ` set (proxies (snd (ReportFailure ''a'' 3 strict_policy ?P)))"
  proof
    assume "exit_Key q \<in> exit_Key ` set (proxies (snd (ReportFailure ''a'' 3 strict_policy ?P)))"
    then obtain r where r: "r \<in> set (proxies (snd (ReportFailure ''a'' 3 strict_policy ?P)))" "exit_Key r = exit_Key (sample_exit ''a'')"
      using \<open>exit_Key q = exit_Key (sample_exit ''a'')\<close> by auto
    have "pool_ok 3 (snd (ReportFailure ''a'' 3 strict_policy ?P))"
      by (rule pool_ok_failure [OF pool_ok_later [OF exit_run_ok [OF \<open>exit_run 2 ?P\<close>]]]) simp
    then have "no_NUL r" using r(1) by (simp add: pool_ok_def exits_ok_def)
    then have "Address r = ''a''"
      using exit_Key_inj(2) [of r "sample_exit ''a''"] r(2) by (simp add: sample_exit_def no_NUL_def NUL_def)
    then show False using none r(1) by (auto simp: failures_def matched_def matches_def filter_empty_conv)
  qed
  ultimately show "\<exists>p \<in> set (proxies ?P). exit_Key p = exit_Key (sample_exit ''a'') \<and> LiveAt p 3
    \<and> exit_Key p \<notin> exit_Key ` set (proxies (snd (ReportFailure ''a'' 3 strict_policy ?P)))" by metis
qed

theorem exit_removed_stays_out_witness:
  "exit_Key (sample_exit ''a'') \<notin> exit_Key `
    set (proxies (Merge 5 [sample_exit ''a''] strict_policy (snd (ReportFailure ''a'' 3 strict_policy (failures strict_policy ''a'' [2] sample_exits)))))"
proof -
  let ?P = "failures strict_policy ''a'' [2] sample_exits"
  let ?Q = "snd (ReportFailure ''a'' 3 strict_policy ?P)"
  obtain p where p: "p \<in> set (proxies ?P)" "exit_Key p = exit_Key (sample_exit ''a'')" "LiveAt p 3" "exit_Key p \<notin> exit_Key ` set (proxies ?Q)"
    using sample_failures(2) by blast
  have path: "exit_path 3 ?Q 5 (Merge 5 [sample_exit ''a''] strict_policy ?Q)"
    by (rule path_step [OF path_refl]) (simp_all add: step_merge sample_exit_def no_NUL_def NUL_def)
  have "ReportFailure ''a'' 3 strict_policy ?P = (fst (ReportFailure ''a'' 3 strict_policy ?P), ?Q)" by simp
  from exit_removed_stays_out [OF sample_failures(1) _ p(1,3) this p(4) path] p(2) show ?thesis by simp
qed

end
