(* ===== verification/Exit_Manager.thy ===== *)
theory Exit_Manager
  imports Exit_Pool_Machine Fault Json "HOL-Library.Sublist"
begin

text \<open>
  \<open>internal/xkproxy/manager.go\<close>: the manager that binds sessions to exits through cached transports.
  A transport is an index into a heap that only grows; it holds the proxy URL it dials and the settings that
  depend on its key. \<open>Acquire\<close> releases its lock several times, so it is a sequence of atomic sections with the
  local variables kept in between (\<open>acqState\<close>); other goroutines run between any two of them. A map is
  an association list, a nil map is \<open>None\<close>, a write to it or a nil dereference is the value \<open>None\<close> of a
  section.
\<close>

record transportKey =
  tkConnectTimeoutMS :: int
  tkFirstByteTimeoutMS :: int
  tkSession :: string

text \<open>A URL of a proxy: its scheme, its host and its credentials.\<close>

record proxyURL =
  urlScheme :: string
  urlHost :: string
  urlUser :: "(string \<times> string) option"

text \<open>What \<open>newTransport\<close> sets. Where nothing is set the clone of the base transport keeps the base's own value, which is \<open>None\<close>.\<close>

record exitTransport =
  dials :: "proxyURL option"
  sessionHeader :: "string option"
  tlsHandshakeTimeout :: "duration option"
  dialTimeout :: duration
  dialKeepAlive :: duration
  responseHeaderTimeout :: duration
  maxIdleConns :: int
  maxIdleConnsPerHost :: int
  idleConnTimeout :: duration
  forceAttemptHTTP2 :: bool

record cachedTransport =
  ctTransport :: nat
  ctProxyKey :: string
  ctLastUsed :: "64 word"
  ctCreatedAt :: time

record handle =
  hKey :: transportKey
  hTransport :: nat
  hProxyKey :: string

record exitManager =
  mgrProxyURL :: "proxyURL option"
  mgrPool :: "exitPool option"
  mgrHeap :: "exitTransport list"
  mgrTransports :: "(transportKey \<times> cachedTransport) list option"
  mgrClock :: "64 word"
  mgrClosed :: bool
  mgrPolicy :: ejectionPolicy

definition maxCachedTransports :: nat where "maxCachedTransports = 64"
definition stickyRebindInterval :: duration where "stickyRebindInterval = 60 * second"

definition zero_proxy :: exitProxy where
  "zero_proxy = \<lparr>Scheme = [], Address = [], Username = [], Password = [], FetchedAt = 0, ValidatedAt = 0, exitExpiresAt = 0,
     HealthFails = 0, EjectedUntil = 0, EjectionCount = 0, LatencyEWMA = 0, SuccessCount = 0, FailureCount = 0, LastSuccessAt = 0,
     RequestSuccessCount = 0, RequestFailureCount = 0, RequestFailureStreak = 0, RequestLatencyEWMA = 0, RequestLatencySamples = 0,
     HTTPFailCount = 0, LastRequestSuccessAt = 0, LastFailureAt = 0, LastHTTPFailureAt = 0, LastHTTPFailureStatus = 0, LatencySamples = 0\<rparr>"

definition exit_URL :: "exitProxy \<Rightarrow> goError + proxyURL" where
  "exit_URL p =
     (let scheme = if Scheme p = [] then ''http'' else Scheme p
      in if scheme \<noteq> ''http'' \<and> scheme \<noteq> ''https'' then Inl [OtherError ''unsupported proxy scheme'']
         else if Address p = [] then Inl [OtherError ''proxy address is empty'']
         else Inr \<lparr>urlScheme = scheme, urlHost = Address p,
                   urlUser = if Username p \<noteq> [] then Some (Username p, Password p) else None\<rparr>)"

text \<open>The transport for a key: the clone of the base with the proxy it dials.\<close>

definition transport_for :: "transportKey \<Rightarrow> proxyURL option \<Rightarrow> exitTransport" where
  "transport_for key target =
     (let connectTimeout = ms_duration (tkConnectTimeoutMS key)
      in \<lparr>dials = target,
          sessionHeader = (if tkSession key \<noteq> [] then Some (tkSession key) else None),
          tlsHandshakeTimeout = (if connectTimeout > 0 then Some connectTimeout else None),
          dialTimeout = connectTimeout, dialKeepAlive = 30 * second,
          responseHeaderTimeout = ms_duration (tkFirstByteTimeoutMS key),
          maxIdleConns = 128, maxIdleConnsPerHost = 64, idleConnTimeout = 90 * second, forceAttemptHTTP2 = True\<rparr>)"

text \<open>The exit that was selected, or else the static proxy of the manager.\<close>

definition newTransport :: "transportKey \<Rightarrow> exitProxy \<Rightarrow> exitManager \<Rightarrow> goError + nat \<times> exitManager" where
  "newTransport key p m =
     (let build = (\<lambda>target. (length (mgrHeap m), m\<lparr>mgrHeap := mgrHeap m @ [transport_for key target]\<rparr>))
      in if Address p \<noteq> [] then
           case exit_URL p of
             Inl err \<Rightarrow> Inl (Wrapped ''configure selected proxy'' # err)
           | Inr u \<Rightarrow> Inr (build (Some u))
         else Inr (build (mgrProxyURL m)))"

subsection \<open>The cache\<close>

definition put_transport :: "transportKey \<Rightarrow> cachedTransport \<Rightarrow> (transportKey \<times> cachedTransport) list \<Rightarrow> (transportKey \<times> cachedTransport) list" where
  "put_transport key e es = (key, e) # filter (\<lambda>x. fst x \<noteq> key) es"

definition drop_transport :: "transportKey \<Rightarrow> (transportKey \<times> cachedTransport) list \<Rightarrow> (transportKey \<times> cachedTransport) list" where
  "drop_transport key es = filter (\<lambda>x. fst x \<noteq> key) es"

text \<open>The scan for the entry with the oldest stamp, over the entries in the order of the range loop.\<close>

definition oldest_key :: "(transportKey \<times> cachedTransport) list \<Rightarrow> transportKey option" where
  "oldest_key order =
     fst (fold (\<lambda>(key, e) (oldestKey, oldest). if oldest = 0 \<or> ctLastUsed e < oldest then (Some key, ctLastUsed e) else (oldestKey, oldest))
            order (None, 0))"

definition evictLeastRecentlyUsed ::
  "((transportKey \<times> cachedTransport) list \<Rightarrow> (transportKey \<times> cachedTransport) list) \<Rightarrow>
   (transportKey \<times> cachedTransport) list \<Rightarrow> (transportKey \<times> cachedTransport) list option" where
  "evictLeastRecentlyUsed ord es =
     (case oldest_key (ord es) of None \<Rightarrow> None | Some key \<Rightarrow> Some (drop_transport key es))"

definition evict_if_full where
  "evict_if_full ord es = (if length es > maxCachedTransports then evictLeastRecentlyUsed ord es else Some es)"

subsection \<open>Acquire\<close>

datatype acqState =
    AcqTouch transportKey nat bool
  | AcqReselect transportKey nat string bool time
  | AcqInstall transportKey nat nat string time
  | AcqMiss transportKey
  | AcqMissInstall transportKey nat string
  | AcqDone "goError + handle"

definition manager_closed :: goError where "manager_closed = [ProxyError ReasonManagerClosed]"

definition cached :: "transportKey \<Rightarrow> exitManager \<Rightarrow> cachedTransport option" where
  "cached key m = (case mgrTransports m of None \<Rightarrow> None | Some es \<Rightarrow> map_of es key)"

text \<open>The first section: the context, the closed flag and the cached entry under the read lock.\<close>

definition acq_begin :: "goError \<Rightarrow> transportKey \<Rightarrow> time \<Rightarrow> exitManager \<Rightarrow> acqState" where
  "acq_begin ctxErr key now m =
     (if ctxErr \<noteq> nil_error then AcqDone (Inl ctxErr)
      else if mgrClosed m then AcqDone (Inl manager_closed)
      else case cached key m of
        None \<Rightarrow> AcqMiss key
      | Some e \<Rightarrow>
          (case mgrPool m of
             None \<Rightarrow> AcqTouch key (ctTransport e) True
           | Some pool \<Rightarrow>
               if ctProxyKey e = [] then AcqTouch key (ctTransport e) True
               else
                 let stale = time_sub now (ctCreatedAt e) \<ge> stickyRebindInterval;
                     needsRebuild = stale \<or> \<not> HasHealthy (ctProxyKey e) now pool
                 in if \<not> needsRebuild then AcqTouch key (ctTransport e) True
                    else AcqReselect key (ctTransport e) (ctProxyKey e) stale now))"

definition handle_of :: "transportKey \<Rightarrow> cachedTransport \<Rightarrow> handle" where
  "handle_of key e = \<lparr>hKey = key, hTransport = ctTransport e, hProxyKey = ctProxyKey e\<rparr>"

text \<open>Stamping an entry as used now, and evicting when there are too many.\<close>

definition use_entry where
  "use_entry ord evicts key e m =
     (case mgrTransports m of
        None \<Rightarrow> None
      | Some es \<Rightarrow>
          let clock = mgrClock m + 1; es1 = put_transport key (e\<lparr>ctLastUsed := clock\<rparr>) es
          in (case (if evicts then evict_if_full ord es1 else Some es1) of
                None \<Rightarrow> None
              | Some es2 \<Rightarrow> Some (AcqDone (Inr (handle_of key e)), m\<lparr>mgrClock := clock, mgrTransports := Some es2\<rparr>)))"

text \<open>A cache hit: the entry must still hold the transport that was read.\<close>

definition acq_touch where
  "acq_touch ord key transport evicts m =
     (case cached key m of
        Some e \<Rightarrow> if ctTransport e = transport then use_entry ord evicts key e m else Some (AcqMiss key, m)
      | None \<Rightarrow> Some (AcqMiss key, m))"

definition select_exit :: "bool \<Rightarrow> time \<Rightarrow> exitPool \<Rightarrow> exitProxy option \<times> exitPool" where
  "select_exit latencyRouting now pool = (if latencyRouting then GetWithQuality now pool else exit_Get now pool)"

definition transport_error :: "goError \<Rightarrow> goError" where
  "transport_error cause = ProxyError ReasonTransportFailed # cause"

text \<open>The entry needs a fresh exit: keep the old one when the pool is empty or picks the same exit again.\<close>

definition acq_reselect where
  "acq_reselect latencyRouting key transport proxyKey stale now m =
     (case mgrPool m of
        None \<Rightarrow> None
      | Some pool \<Rightarrow>
          (case select_exit latencyRouting now pool of
             (None, pool1) \<Rightarrow> Some (AcqTouch key transport False, m\<lparr>mgrPool := Some pool1\<rparr>)
           | (Some p, pool1) \<Rightarrow>
               let m1 = m\<lparr>mgrPool := Some pool1\<rparr>
               in if stale \<and> exit_Key p = proxyKey then Some (AcqTouch key transport False, m1)
                  else (case newTransport key p m1 of
                          Inl err \<Rightarrow> Some (AcqDone (Inl (transport_error err)), m1)
                        | Inr (transport2, m2) \<Rightarrow> Some (AcqInstall key transport transport2 (exit_Key p) now, m2))))"

definition acq_install where
  "acq_install ord key transport2 proxyKey now m =
     (if mgrClosed m then Some (AcqDone (Inl manager_closed), m)
      else use_entry ord True key \<lparr>ctTransport = transport2, ctProxyKey = proxyKey, ctLastUsed = 0, ctCreatedAt = now\<rparr> m)"

definition no_healthy_proxy :: goError where
  "no_healthy_proxy = [ProxyError ReasonNoHealthyProxy, OtherError ''no healthy proxy available'']"

text \<open>A cache miss: select an exit, if there is a pool, and build its transport outside the lock.\<close>

definition acq_miss where
  "acq_miss latencyRouting key now m =
     (let build = (\<lambda>p m1. case newTransport key p m1 of
                      Inl err \<Rightarrow> Some (AcqDone (Inl (transport_error err)), m1)
                    | Inr (transport, m2) \<Rightarrow> Some (AcqMissInstall key transport (exit_Key p), m2))
      in case mgrPool m of
           None \<Rightarrow> build zero_proxy m
         | Some pool \<Rightarrow>
             (case select_exit latencyRouting now pool of
                (None, pool1) \<Rightarrow> Some (AcqDone (Inl no_healthy_proxy), m\<lparr>mgrPool := Some pool1\<rparr>)
              | (Some p, pool1) \<Rightarrow> build p (m\<lparr>mgrPool := Some pool1\<rparr>)))"

definition acq_miss_install where
  "acq_miss_install ord key transport proxyKey now m =
     (if mgrClosed m then Some (AcqDone (Inl manager_closed), m)
      else case cached key m of
        Some existing \<Rightarrow> use_entry ord True key existing m
      | None \<Rightarrow> use_entry ord True key \<lparr>ctTransport = transport, ctProxyKey = proxyKey, ctLastUsed = 0, ctCreatedAt = now\<rparr> m)"

definition acq_section ::
  "((transportKey \<times> cachedTransport) list \<Rightarrow> (transportKey \<times> cachedTransport) list) \<Rightarrow> bool \<Rightarrow> time \<Rightarrow> acqState \<Rightarrow> exitManager \<Rightarrow>
   (acqState \<times> exitManager) option" where
  "acq_section ord latencyRouting now s m =
     (case s of
        AcqTouch key transport evicts \<Rightarrow> acq_touch ord key transport evicts m
      | AcqReselect key transport proxyKey stale started \<Rightarrow> acq_reselect latencyRouting key transport proxyKey stale started m
      | AcqInstall key transport transport2 proxyKey started \<Rightarrow> acq_install ord key transport2 proxyKey started m
      | AcqMiss key \<Rightarrow> acq_miss latencyRouting key now m
      | AcqMissInstall key transport proxyKey \<Rightarrow> acq_miss_install ord key transport proxyKey now m
      | AcqDone r \<Rightarrow> Some (s, m))"

text \<open>How many sections are left at most; the whole of \<open>Acquire\<close> when no other goroutine runs.\<close>

fun acq_rank :: "acqState \<Rightarrow> nat" where
  "acq_rank (AcqReselect _ _ _ _ _) = 4"
| "acq_rank (AcqTouch _ _ _) = 3"
| "acq_rank (AcqMiss _) = 2"
| "acq_rank (AcqInstall _ _ _ _ _) = 1"
| "acq_rank (AcqMissInstall _ _ _) = 1"
| "acq_rank (AcqDone _) = 0"

primrec acq_run where
  "acq_run 0 ord latencyRouting now s m = Some (s, m)"
| "acq_run (Suc n) ord latencyRouting now s m =
     (case acq_section ord latencyRouting now s m of None \<Rightarrow> None | Some (s', m') \<Rightarrow> acq_run n ord latencyRouting now s' m')"

definition exit_Acquire where
  "exit_Acquire ord ctxErr latencyRouting key now m = acq_run 4 ord latencyRouting now (acq_begin ctxErr key now m) m"

subsection \<open>The other operations\<close>

definition drop_handle :: "transportKey \<Rightarrow> nat \<Rightarrow> exitManager \<Rightarrow> exitManager" where
  "drop_handle key transport m =
     (case cached key m of
        Some e \<Rightarrow> if ctTransport e = transport then m\<lparr>mgrTransports := map_option (drop_transport key) (mgrTransports m)\<rparr> else m
      | None \<Rightarrow> m)"

definition invalidate :: "transportKey \<Rightarrow> nat \<Rightarrow> exitManager \<Rightarrow> exitManager" where
  "invalidate key transport m = drop_handle key transport m"

definition with_pool :: "handle \<Rightarrow> (exitPool \<Rightarrow> exitPool) \<Rightarrow> exitManager \<Rightarrow> exitManager" where
  "with_pool h f m = (case mgrPool m of Some pool \<Rightarrow> if hProxyKey h \<noteq> [] then m\<lparr>mgrPool := Some (f pool)\<rparr> else m | None \<Rightarrow> m)"

definition retire :: "handle \<Rightarrow> time \<Rightarrow> exitManager \<Rightarrow> exitManager" where
  "retire h now m =
     with_pool h (\<lambda>pool. snd (ReportFailure (hProxyKey h) now (mgrPolicy m) pool)) (drop_handle (hKey h) (hTransport h) m)"

definition handle_ReportLatency :: "handle \<Rightarrow> time \<Rightarrow> duration \<Rightarrow> exitManager \<Rightarrow> exitManager" where
  "handle_ReportLatency h now latency m =
     (if latency < 0 then m else with_pool h (ReportSuccess (hProxyKey h) now latency (mgrPolicy m)) m)"

definition handle_ReportRequestLatency :: "handle \<Rightarrow> time \<Rightarrow> duration \<Rightarrow> exitManager \<Rightarrow> exitManager" where
  "handle_ReportRequestLatency h now latency m =
     (if latency \<le> 0 then m else with_pool h (exit_ReportRequestLatency (hProxyKey h) now latency (mgrPolicy m)) m)"

definition handle_ReportHTTPFailure :: "handle \<Rightarrow> time \<Rightarrow> int \<Rightarrow> exitManager \<Rightarrow> exitManager" where
  "handle_ReportHTTPFailure h now status m =
     with_pool h (\<lambda>pool. snd (exit_ReportHTTPFailure (hProxyKey h) now status (mgrPolicy m) pool)) m"

definition handle_ReportRequestFailure :: "handle \<Rightarrow> time \<Rightarrow> exitManager \<Rightarrow> exitManager" where
  "handle_ReportRequestFailure h now m = with_pool h (exit_ReportRequestFailure (hProxyKey h) now) m"

definition exit_Close :: "exitManager \<Rightarrow> exitManager" where
  "exit_Close m = (if mgrClosed m then m else m\<lparr>mgrClosed := True, mgrTransports := None\<rparr>)"

definition exit_Enabled :: "exitManager \<Rightarrow> bool" where
  "exit_Enabled m \<longleftrightarrow> \<not> mgrClosed m"

definition defaultEjectionPolicy :: ejectionPolicy where
  "defaultEjectionPolicy = \<lparr>FailureLimit = 3, BaseDuration = 10 * second, MaxDuration = 60 * second, MaxEjections = 3,
     LatencyAlpha = 3 / 10, HTTPFailureLimit = 0\<rparr>"

text \<open>A URL as it is configured: absolute when it has a scheme.\<close>

record configuredURL = proxyURL +
  urlPath :: string
  urlRawQuery :: string
  urlForceQuery :: bool
  urlFragment :: string

definition validateProxyURL :: "configuredURL option \<Rightarrow> goError" where
  "validateProxyURL v =
     (let invalid = [OtherError ''initialize proxy manager: proxy URL is invalid'']
      in case v of
           None \<Rightarrow> invalid
         | Some u \<Rightarrow>
             if urlScheme u = [] \<or> urlHost u = [] \<or> urlUser u \<noteq> None \<or> urlRawQuery u \<noteq> [] \<or> urlForceQuery u \<or> urlFragment u \<noteq> []
                \<or> (urlPath u \<noteq> [] \<and> urlPath u \<noteq> ''/'')
             then invalid
             else let scheme = map lower_char (urlScheme u)
                  in if scheme \<noteq> ''http'' \<and> scheme \<noteq> ''https'' then invalid else nil_error)"

text \<open>A manager with a static proxy, which gets the credentials, and one with a pool. \<open>hasBase\<close>: the base transport is given.\<close>

definition New_manager :: "configuredURL option \<Rightarrow> string \<Rightarrow> bool \<Rightarrow> goError + exitManager" where
  "New_manager v authKey hasBase =
     (if validateProxyURL v \<noteq> nil_error then Inl (validateProxyURL v)
      else if trim_space authKey = [] then Inl [OtherError ''initialize proxy manager: proxy authentication key is required'']
      else if \<not> hasBase then Inl [OtherError ''initialize proxy manager: HTTP transport is required'']
      else Inr \<lparr>mgrProxyURL = Some \<lparr>urlScheme = urlScheme (the v), urlHost = urlHost (the v), urlUser = Some (''proxy'', authKey)\<rparr>,
                mgrPool = None, mgrHeap = [], mgrTransports = Some [], mgrClock = 0, mgrClosed = False, mgrPolicy = defaultEjectionPolicy\<rparr>)"

definition NewWithPool :: "ejectionPolicy \<Rightarrow> bool \<Rightarrow> goError + exitManager" where
  "NewWithPool policy hasBase =
     (if \<not> hasBase then Inl [OtherError ''initialize proxy manager: HTTP transport is required'']
      else Inr \<lparr>mgrProxyURL = None, mgrPool = Some NewPool, mgrHeap = [], mgrTransports = Some [], mgrClock = 0, mgrClosed = False,
                mgrPolicy = normalized policy\<rparr>)"

subsection \<open>The machine\<close>

text \<open>Goroutines between sections of \<open>Acquire\<close>, with the other operations in between: the handle reports,
  retirement, invalidation and closing, and whatever happens to the pool.\<close>

type_synonym mgrState = "exitManager \<times> (nat \<rightharpoonup> acqState)"

inductive mgr_step :: "mgrState \<Rightarrow> mgrState \<Rightarrow> bool" where
  mgr_begin: "g i = None \<Longrightarrow> mgr_step (m, g) (m, g(i \<mapsto> acq_begin ctxErr key now m))"
| mgr_section: "g i = Some s \<Longrightarrow> \<forall>es. mset (ord es) = mset es \<Longrightarrow> acq_section ord latencyRouting now s m = Some (s', m') \<Longrightarrow>
    mgr_step (m, g) (m', g(i \<mapsto> s'))"
| mgr_finish: "g i = Some (AcqDone r) \<Longrightarrow> mgr_step (m, g) (m, g(i := None))"
| mgr_retire: "mgr_step (m, g) (retire h now m, g)"
| mgr_invalidate: "mgr_step (m, g) (invalidate key transport m, g)"
| mgr_latency: "mgr_step (m, g) (handle_ReportLatency h now latency m, g)"
| mgr_request_latency: "mgr_step (m, g) (handle_ReportRequestLatency h now latency m, g)"
| mgr_http: "mgr_step (m, g) (handle_ReportHTTPFailure h now status m, g)"
| mgr_request_failure: "mgr_step (m, g) (handle_ReportRequestFailure h now m, g)"
| mgr_collect: "mgrPool m = Some P \<Longrightarrow> mgr_step (m, g) (m\<lparr>mgrPool := Some P'\<rparr>, g)"
| mgr_close: "mgr_step (m, g) (exit_Close m, g)"

inductive mgr_reach :: "exitManager \<Rightarrow> mgrState \<Rightarrow> bool" for m0 where
  mgr_start: "mgr_reach m0 (m0, Map.empty)"
| mgr_next: "mgr_reach m0 s \<Longrightarrow> mgr_step s s' \<Longrightarrow> mgr_reach m0 s'"

text \<open>A handle names the exit its transport dials: with a pool the key it names is that of an exit whose URL is dialled,
  without one the configured proxy is dialled and the key is that of the zero exit.\<close>

definition names_exit :: "exitManager \<Rightarrow> string \<Rightarrow> proxyURL option \<Rightarrow> bool" where
  "names_exit m proxyKey target \<longleftrightarrow>
     (if mgrPool m = None then target = mgrProxyURL m \<and> proxyKey = exit_Key zero_proxy
      else \<exists>p u. Address p \<noteq> [] \<and> proxyKey = exit_Key p \<and> exit_URL p = Inr u \<and> target = Some u)"

definition built :: "exitManager \<Rightarrow> transportKey \<Rightarrow> nat \<Rightarrow> string \<Rightarrow> bool" where
  "built m key transport proxyKey \<longleftrightarrow>
     transport < length (mgrHeap m) \<and> (\<exists>target. names_exit m proxyKey target \<and> mgrHeap m ! transport = transport_for key target)"

definition cache_ok :: "exitManager \<Rightarrow> (transportKey \<times> cachedTransport) list \<Rightarrow> bool" where
  "cache_ok m es \<longleftrightarrow> distinct (map fst es) \<and> length es \<le> maxCachedTransports
     \<and> (\<forall>(key, e) \<in> set es. built m key (ctTransport e) (ctProxyKey e))"

definition mgr_ok :: "exitManager \<Rightarrow> bool" where
  "mgr_ok m \<longleftrightarrow> (case mgrTransports m of None \<Rightarrow> mgrClosed m | Some es \<Rightarrow> \<not> mgrClosed m \<and> cache_ok m es)"

fun acq_ok :: "exitManager \<Rightarrow> acqState \<Rightarrow> bool" where
  "acq_ok m (AcqReselect key transport proxyKey stale now) \<longleftrightarrow> mgrPool m \<noteq> None"
| "acq_ok m (AcqInstall key transport transport2 proxyKey now) \<longleftrightarrow> built m key transport2 proxyKey"
| "acq_ok m (AcqMissInstall key transport proxyKey) \<longleftrightarrow> built m key transport proxyKey"
| "acq_ok m (AcqDone (Inr h)) \<longleftrightarrow> built m (hKey h) (hTransport h) (hProxyKey h)"
| "acq_ok m _ \<longleftrightarrow> True"

text \<open>What later states keep of the heap and of the pool.\<close>

definition grows :: "exitManager \<Rightarrow> exitManager \<Rightarrow> bool" where
  "grows m m' \<longleftrightarrow> prefix (mgrHeap m) (mgrHeap m') \<and> (mgrPool m = None) = (mgrPool m' = None) \<and> mgrProxyURL m = mgrProxyURL m'"

definition mgr_inv :: "exitManager \<Rightarrow> mgrState \<Rightarrow> bool" where
  "mgr_inv m0 s \<longleftrightarrow> grows m0 (fst s) \<and> mgr_ok (fst s) \<and> (\<forall>i st. snd s i = Some st \<longrightarrow> acq_ok (fst s) st)"

lemma grows_refl [simp]: "grows m m"
  by (simp add: grows_def)

lemma grows_trans: "grows a b \<Longrightarrow> grows b c \<Longrightarrow> grows a c"
  by (auto simp: grows_def)

lemma names_exit_grows: "grows m m' \<Longrightarrow> names_exit m' = names_exit m"
  by (intro ext) (simp add: grows_def names_exit_def)

lemma built_grows: "built m key t pk \<Longrightarrow> grows m m' \<Longrightarrow> built m' key t pk"
  using names_exit_grows [of m m'] by (auto simp: built_def grows_def prefix_def nth_append)

lemma cache_ok_grows: "cache_ok m es \<Longrightarrow> grows m m' \<Longrightarrow> cache_ok m' es"
  by (auto simp: cache_ok_def intro: built_grows)

lemma acq_ok_grows: "grows m m' \<Longrightarrow> acq_ok m s \<Longrightarrow> acq_ok m' s"
  by (cases "(m, s)" rule: acq_ok.cases) (auto simp: grows_def intro: built_grows [unfolded grows_def])

text \<open>A manager whose heap, pool and proxy did not change keeps its transports.\<close>

lemma mgr_ok_grows: "mgr_ok m \<Longrightarrow> grows m m' \<Longrightarrow> mgrTransports m' = mgrTransports m \<Longrightarrow> mgrClosed m' = mgrClosed m \<Longrightarrow> mgr_ok m'"
  by (auto simp: mgr_ok_def intro: cache_ok_grows split: option.splits)

lemma cache_ok_drop: "cache_ok m es \<Longrightarrow> cache_ok m (drop_transport key es)"
  unfolding cache_ok_def drop_transport_def
  by (auto simp: distinct_map_filter intro: le_trans [OF length_filter_le])

lemma oldest_key_mem:
  assumes "order \<noteq> []"
  obtains key e where "oldest_key order = Some key" "(key, e) \<in> set order"
proof -
  let ?f = "\<lambda>(key, e) (oldestKey, oldest). if oldest = 0 \<or> ctLastUsed e < oldest then (Some key, ctLastUsed e) else (oldestKey, oldest)"
  have step: "\<exists>k \<in> insert k0 (fst ` set xs). fst (fold ?f xs (Some k0, o0)) = Some k" for xs k0 o0
  proof (induction xs arbitrary: k0 o0)
    case (Cons x xs)
    obtain key e where x: "x = (key, e)" by (cases x)
    show ?case using Cons.IH [of key "ctLastUsed e"] Cons.IH [of k0 o0] by (auto simp: x)
  qed simp
  obtain x xs where order: "order = x # xs" using assms by (cases order) auto
  obtain key e where x: "x = (key, e)" by (cases x)
  have "\<exists>k \<in> insert key (fst ` set xs). oldest_key order = Some k"
    using step [of key xs "ctLastUsed e"] by (simp add: oldest_key_def order x)
  then have "\<exists>k d. oldest_key order = Some k \<and> (k, d) \<in> set order" by (auto simp: order x)
  then show ?thesis using that by blast
qed

text \<open>Evicting from any non-empty cache succeeds and removes one entry.\<close>

lemma evict_one:
  assumes "mset (ord es) = mset es" "es \<noteq> []" "distinct (map fst es)"
  obtains key where "evictLeastRecentlyUsed ord es = Some (drop_transport key es)" "length (drop_transport key es) = length es - 1"
    "oldest_key (ord es) = Some key"
proof -
  have "ord es \<noteq> []" "set (ord es) = set es" using assms(1,2) by (metis mset_zero_iff, metis set_mset_mset)
  then obtain key e where key: "oldest_key (ord es) = Some key" "(key, e) \<in> set es" by (metis oldest_key_mem)
  have "length (filter (\<lambda>x. fst x \<noteq> key) es) = length es - 1"
    using key(2) assms(3)
  proof (induction es)
    case (Cons x xs)
    show ?case
    proof (cases "fst x = key")
      case True
      then have "key \<notin> fst ` set xs" using Cons.prems(2) by simp
      then have "\<forall>y \<in> set xs. fst y \<noteq> key" by (metis imageI)
      then have "filter (\<lambda>x. fst x \<noteq> key) xs = xs" by (simp add: filter_id_conv)
      then show ?thesis using True by simp
    next
      case False
      then have "(key, e) \<in> set xs" using Cons.prems(1) by auto
      then show ?thesis using False Cons by (cases xs) auto
    qed
  qed simp
  then show ?thesis using that key(1) by (simp add: evictLeastRecentlyUsed_def drop_transport_def)
qed

lemma length_put: "length (put_transport key e es) \<le> Suc (length es)"
  by (simp add: put_transport_def)

lemma use_entry_ok:
  assumes m: "mgr_ok m" "\<not> mgrClosed m" and b: "built m key (ctTransport e) (ctProxyKey e)"
    and ord: "\<forall>es. mset (ord es) = mset es" and fits: "evicts \<or> cached key m \<noteq> None"
  obtains m' where "use_entry ord evicts key e m = Some (AcqDone (Inr (handle_of key e)), m')" "mgr_ok m'" "grows m m'"
proof -
  obtain es where es: "mgrTransports m = Some es" "cache_ok m es" using m by (auto simp: mgr_ok_def split: option.splits)
  let ?es1 = "put_transport key (e\<lparr>ctLastUsed := mgrClock m + 1\<rparr>) es"
  have d: "distinct (map fst ?es1)" "\<forall>(k, x) \<in> set ?es1. built m k (ctTransport x) (ctProxyKey x)"
    using es(2) b by (auto simp: put_transport_def cache_ok_def distinct_map_filter)
  have len: "length ?es1 \<le> Suc maxCachedTransports" using length_put [of key _ es] es(2) by (auto simp: cache_ok_def intro: le_trans)
  obtain es2 where es2: "(if evicts then evict_if_full ord ?es1 else Some ?es1) = Some es2" "cache_ok m es2"
  proof (cases "length ?es1 \<le> maxCachedTransports")
    case True
    then show thesis using d that [of ?es1] by (auto simp: evict_if_full_def cache_ok_def)
  next
    case False
    have "evicts"
    proof (rule ccontr)
      assume "\<not> evicts"
      then have "key \<in> fst ` set es" using fits es(1) by (auto simp: cached_def dest: map_of_SomeD split: option.splits intro: rev_image_eqI)
      then have "length (filter (\<lambda>x. fst x \<noteq> key) es) < length es" by (auto intro: length_filter_less)
      then show False using False es(2) by (simp add: put_transport_def cache_ok_def)
    qed
    moreover have "?es1 \<noteq> []" by (simp add: put_transport_def)
    ultimately obtain k where "evictLeastRecentlyUsed ord ?es1 = Some (drop_transport k ?es1)" "length (drop_transport k ?es1) = length ?es1 - 1"
      using evict_one [of ord ?es1] ord d(1) by metis
    moreover have "cache_ok m (drop_transport k ?es1)" if "length (drop_transport k ?es1) \<le> maxCachedTransports"
      using that d unfolding cache_ok_def by (auto simp: drop_transport_def distinct_map_filter)
    ultimately show thesis using that False len \<open>evicts\<close> by (auto simp: evict_if_full_def)
  qed
  show ?thesis
    by (rule that [of "m\<lparr>mgrClock := mgrClock m + 1, mgrTransports := Some es2\<rparr>"])
      (use es es2 m in \<open>auto simp: use_entry_def Let_def mgr_ok_def grows_def intro: cache_ok_grows\<close>)
qed

lemma cached_built: "mgr_ok m \<Longrightarrow> cached key m = Some e \<Longrightarrow> \<not> mgrClosed m \<and> built m key (ctTransport e) (ctProxyKey e)"
  by (auto simp: mgr_ok_def cached_def cache_ok_def dest!: map_of_SomeD split: option.splits)

text \<open>The exit that may be built for: any with an address when there is a pool, the zero exit otherwise.\<close>

definition selectable :: "exitManager \<Rightarrow> exitProxy \<Rightarrow> bool" where
  "selectable m p \<longleftrightarrow> (if mgrPool m = None then p = zero_proxy else Address p \<noteq> [])"

lemma newTransport_ok:
  assumes "mgr_ok m" "newTransport key p m = Inr (t, m')" "selectable m p"
  shows "mgr_ok m' \<and> grows m m' \<and> built m' key t (exit_Key p)"
proof -
  obtain target where m': "t = length (mgrHeap m)" "m' = m\<lparr>mgrHeap := mgrHeap m @ [transport_for key target]\<rparr>"
    and n: "names_exit m (exit_Key p) target"
    using assms(2,3)
    by (auto simp: newTransport_def Let_def selectable_def names_exit_def zero_proxy_def split: if_splits sum.splits)
  have g: "grows m m'" by (simp add: m' grows_def)
  then have "mgr_ok m'" using mgr_ok_grows [OF assms(1)] m'(2) by simp
  moreover have "built m' key t (exit_Key p)"
    using n names_exit_grows [OF g] by (auto simp: built_def m')
  ultimately show ?thesis using g by blast
qed

lemma pool_change:
  assumes "mgr_ok m" "mgrPool m \<noteq> None"
  shows "mgr_ok (m\<lparr>mgrPool := Some P\<rparr>) \<and> grows m (m\<lparr>mgrPool := Some P\<rparr>)"
proof -
  have "grows m (m\<lparr>mgrPool := Some P\<rparr>)" using assms(2) by (simp add: grows_def)
  then show ?thesis using mgr_ok_grows [OF assms(1)] by simp
qed

text \<open>What a selection returns is live, so it has an address.\<close>

lemma selected_address:
  assumes "select_exit lr now pool = (Some p, pool')"
  shows "Address p \<noteq> []"
proof -
  have rot: "set (rotateFor c ps b) = set ps" for c ps b
    by (metis rotateFor_mset set_mset_mset)
  have first: "first_of ps = Some q \<Longrightarrow> q \<in> set ps" for ps q by (auto simp: first_of_def split: list.splits)
  have ordered: "set (orderByQuality ps) = set ps" for ps by (metis orderByQuality_mset set_mset_mset)
  let ?cs = "rotateFor (selectionCursor pool) (served_exits now 0 pool) False"
  have found: "q \<in> set (orderByQuality ?cs)" if "find explorable (tl (orderByQuality ?cs)) = Some q" for q
    using that by (cases "orderByQuality ?cs") (auto simp: find_Some_iff)
  have "p \<in> set (orderByQuality ?cs) \<or> p \<in> set (served_exits now 0 pool)"
  proof (cases lr)
    case True
    then show ?thesis
      using assms first [of "orderByQuality ?cs" p] found [of p]
      by (auto simp: select_exit_def GetWithQuality_def orderedLocked_eq Let_def split: if_splits option.splits)
  next
    case False
    then show ?thesis
      using assms first [of ?cs p] by (auto simp: select_exit_def exit_Get_def Candidates_def CandidatesWithLatency_eq rot)
  qed
  then have "p \<in> set (served_exits now 0 pool)" by (simp add: ordered rot)
  then show ?thesis using served_live by (auto simp: LiveAt_def)
qed

text \<open>Every section of a goroutine in a consistent state returns, and keeps it consistent.\<close>

lemma acq_touch_ok:
  assumes "mgr_ok m" "\<forall>es. mset (ord es) = mset es"
  shows "\<exists>s' m'. acq_touch ord key transport evicts m = Some (s', m') \<and> mgr_ok m' \<and> grows m m' \<and> acq_ok m' s' \<and> acq_rank s' < 3"
proof (cases "\<exists>e. cached key m = Some e \<and> ctTransport e = transport")
  case True
  then obtain e where e: "cached key m = Some e" "ctTransport e = transport" by blast
  then obtain m' where m': "use_entry ord evicts key e m = Some (AcqDone (Inr (handle_of key e)), m')" "mgr_ok m'" "grows m m'"
    using use_entry_ok [of m key e ord evicts] cached_built [OF assms(1) e(1)] assms by auto
  have "acq_ok m' (AcqDone (Inr (handle_of key e)))"
    using acq_ok_grows [OF m'(3), of "AcqDone (Inr (handle_of key e))"] cached_built [OF assms(1) e(1)] by (simp add: handle_of_def)
  then show ?thesis using m' e by (simp add: acq_touch_def)
next
  case False
  then show ?thesis using assms(1) by (auto simp: acq_touch_def split: option.splits)
qed

lemma install_ok:
  assumes "mgr_ok m" "\<forall>es. mset (ord es) = mset es" "\<not> mgrClosed m" "built m key (ctTransport e) (ctProxyKey e)"
  shows "\<exists>s' m'. use_entry ord True key e m = Some (s', m') \<and> mgr_ok m' \<and> grows m m' \<and> acq_ok m' s' \<and> acq_rank s' = 0"
proof -
  obtain m' where m': "use_entry ord True key e m = Some (AcqDone (Inr (handle_of key e)), m')" "mgr_ok m'" "grows m m'"
    using use_entry_ok [OF assms(1,3,4,2)] by auto
  then have "acq_ok m' (AcqDone (Inr (handle_of key e)))"
    using acq_ok_grows [OF m'(3), of "AcqDone (Inr (handle_of key e))"] assms(4) by (simp add: handle_of_def)
  then show ?thesis using m' by simp
qed

lemma build_ok:
  assumes "mgr_ok m1" "grows m m1" "selectable m1 p"
  shows "case newTransport key p m1 of Inl err \<Rightarrow> True
    | Inr (t, m2) \<Rightarrow> mgr_ok m2 \<and> grows m m2 \<and> built m2 key t (exit_Key p)"
  using newTransport_ok [OF assms(1) _ assms(3)] grows_trans [OF assms(2)] by (auto split: sum.splits)

lemma acq_reselect_ok:
  assumes "mgr_ok m" "mgrPool m \<noteq> None"
  shows "\<exists>s' m'. acq_reselect lr key transport proxyKey stale now m = Some (s', m') \<and> mgr_ok m' \<and> grows m m' \<and> acq_ok m' s' \<and> acq_rank s' < 4"
proof -
  obtain pool where pool: "mgrPool m = Some pool" using assms(2) by blast
  obtain r pool1 where sel: "select_exit lr now pool = (r, pool1)" by (meson surj_pair)
  note ch = pool_change [OF assms, of pool1]
  show ?thesis
  proof (cases r)
    case None
    then show ?thesis using pool sel ch by (simp add: acq_reselect_def)
  next
    case (Some p)
    have "selectable (m\<lparr>mgrPool := Some pool1\<rparr>) p" using selected_address sel Some by (auto simp: selectable_def)
    note b = build_ok [OF ch [THEN conjunct1] ch [THEN conjunct2] this, of key]
    show ?thesis using Some pool sel ch b
      by (cases "newTransport key p (m\<lparr>mgrPool := Some pool1\<rparr>)") (auto simp: acq_reselect_def Let_def)
  qed
qed

lemma acq_miss_ok:
  assumes "mgr_ok m"
  shows "\<exists>s' m'. acq_miss lr key now m = Some (s', m') \<and> mgr_ok m' \<and> grows m m' \<and> acq_ok m' s' \<and> acq_rank s' < 2"
proof (cases "mgrPool m")
  case None
  have "selectable m zero_proxy" using None by (simp add: selectable_def)
  then show ?thesis using None assms build_ok [OF assms grows_refl, of zero_proxy key]
    by (cases "newTransport key zero_proxy m") (auto simp: acq_miss_def Let_def)
next
  case (Some pool)
  obtain r pool1 where sel: "select_exit lr now pool = (r, pool1)" by (meson surj_pair)
  note ch = pool_change [OF assms, of pool1]
  show ?thesis
  proof (cases r)
    case None
    then show ?thesis using Some sel ch by (simp add: acq_miss_def)
  next
    case p: (Some p)
    have pool: "mgrPool m \<noteq> None" using Some by simp
    have "selectable (m\<lparr>mgrPool := Some pool1\<rparr>) p" using selected_address sel p by (auto simp: selectable_def)
    note b = build_ok [OF ch [OF pool, THEN conjunct1] ch [OF pool, THEN conjunct2] this, of key]
    show ?thesis using Some p sel ch b
      by (cases "newTransport key p (m\<lparr>mgrPool := Some pool1\<rparr>)") (auto simp: acq_miss_def Let_def)
  qed
qed

lemma acq_section_ok:
  assumes "mgr_ok m" "acq_ok m s" "\<forall>es. mset (ord es) = mset es"
  shows "\<exists>s' m'. acq_section ord lr now s m = Some (s', m') \<and> mgr_ok m' \<and> grows m m' \<and> acq_ok m' s' \<and> (acq_rank s' < acq_rank s \<or> acq_rank s = 0)"
proof (cases s)
  case (AcqTouch key transport evicts)
  then show ?thesis using acq_touch_ok [OF assms(1,3), of key transport evicts] by (auto simp: acq_section_def)
next
  case (AcqReselect key transport proxyKey stale started)
  then show ?thesis using acq_reselect_ok [OF assms(1), of lr key transport proxyKey stale started] assms(2) by (auto simp: acq_section_def)
next
  case (AcqInstall key transport transport2 proxyKey started)
  then show ?thesis
    using install_ok [OF assms(1,3), of key "\<lparr>ctTransport = transport2, ctProxyKey = proxyKey, ctLastUsed = 0, ctCreatedAt = started\<rparr>"] assms(1,2)
    by (cases "mgrClosed m") (auto simp: acq_section_def acq_install_def)
next
  case (AcqMiss key)
  then show ?thesis using acq_miss_ok [OF assms(1), of lr key now] by (auto simp: acq_section_def)
next
  case (AcqMissInstall key transport proxyKey)
  show ?thesis
  proof (cases "cached key m")
    case None
    then show ?thesis
      using AcqMissInstall install_ok [OF assms(1,3), of key "\<lparr>ctTransport = transport, ctProxyKey = proxyKey, ctLastUsed = 0, ctCreatedAt = now\<rparr>"] assms(1,2)
      by (cases "mgrClosed m") (auto simp: acq_section_def acq_miss_install_def)
  next
    case (Some e)
    then show ?thesis
      using AcqMissInstall install_ok [OF assms(1,3), of key e] cached_built [OF assms(1) Some] assms(1)
      by (auto simp: acq_section_def acq_miss_install_def)
  qed
next
  case (AcqDone r)
  then show ?thesis using assms by (simp add: acq_section_def)
qed

lemma acq_begin_ok: "mgr_ok m \<Longrightarrow> acq_ok m (acq_begin ctxErr key now m)"
  by (auto simp: acq_begin_def Let_def split: option.splits)

lemma drop_handle_ok: "mgr_ok m \<Longrightarrow> mgr_ok (drop_handle key t m) \<and> grows m (drop_handle key t m)"
proof -
  assume ok: "mgr_ok m"
  have g: "grows m (drop_handle key t m)" by (simp add: drop_handle_def grows_def split: option.splits)
  have "mgr_ok (drop_handle key t m)"
    using ok cache_ok_grows [OF cache_ok_drop g] by (auto simp: drop_handle_def mgr_ok_def cached_def split: option.splits if_splits)
  then show ?thesis using g by blast
qed

lemma with_pool_ok: "mgr_ok m \<Longrightarrow> mgr_ok (with_pool h f m) \<and> grows m (with_pool h f m)"
  using pool_change [of m] by (auto simp: with_pool_def split: option.splits)

lemma close_ok: "mgr_ok m \<Longrightarrow> mgr_ok (exit_Close m) \<and> grows m (exit_Close m)"
  by (simp add: exit_Close_def mgr_ok_def grows_def)

lemmas operation_ok = drop_handle_ok with_pool_ok close_ok

lemma shared_step:
  assumes "mgr_inv m0 (m, g)" "mgr_ok m' \<and> grows m m'"
  shows "mgr_inv m0 (m', g)"
  using assms acq_ok_grows grows_trans [of m0 m m'] by (auto simp: mgr_inv_def)

lemma local_step:
  assumes "mgr_inv m0 (m, g)" "mgr_ok m' \<and> grows m m'" "acq_ok m' s'"
  shows "mgr_inv m0 (m', g(i \<mapsto> s'))"
  using shared_step [OF assms(1,2)] assms(3) by (auto simp: mgr_inv_def)

lemma with_pool_step: "mgr_inv m0 (m, g) \<Longrightarrow> mgr_inv m0 (with_pool h f m, g)"
  by (rule shared_step, assumption, rule with_pool_ok) (simp add: mgr_inv_def)

lemma mgr_step_inv:
  assumes "mgr_step s s'" "mgr_inv m0 s"
  shows "mgr_inv m0 s'"
  using assms
proof cases
  case (mgr_begin g i m ctxErr key now)
  then have "mgr_ok m" using assms(2) by (simp add: mgr_inv_def)
  then show ?thesis
    using local_step [OF assms(2) [unfolded mgr_begin(1)], of m "acq_begin ctxErr key now m" i] acq_begin_ok mgr_begin(2) by simp
next
  case (mgr_section g i st ord lr now m st' m')
  then have inv: "mgr_inv m0 (m, g)" "mgr_ok m" "acq_ok m st" using assms(2) by (auto simp: mgr_inv_def)
  have "mgr_ok m' \<and> grows m m' \<and> acq_ok m' st'"
    using acq_section_ok [OF inv(2,3) mgr_section(4), of lr now] mgr_section(5) by auto
  then show ?thesis using local_step [OF inv(1)] mgr_section(2) by simp
next
  case (mgr_finish g i r m)
  then show ?thesis using assms(2) by (auto simp: mgr_inv_def)
next
  case (mgr_retire m g h now)
  have "mgr_ok m" using assms(2) mgr_retire by (simp add: mgr_inv_def)
  then have "mgr_ok (retire h now m) \<and> grows m (retire h now m)"
    unfolding retire_def using drop_handle_ok with_pool_ok grows_trans by meson
  then show ?thesis using shared_step assms(2) mgr_retire by blast
next
  case (mgr_collect m P g P')
  then have inv: "mgr_inv m0 (m, g)" "mgr_ok m" using assms(2) by (simp_all add: mgr_inv_def)
  then show ?thesis using shared_step [OF inv(1) pool_change [OF inv(2), of P']] mgr_collect by simp
next
  case (mgr_invalidate m g key transport)
  then have inv: "mgr_inv m0 (m, g)" "mgr_ok m" using assms(2) by (simp_all add: mgr_inv_def)
  then show ?thesis using shared_step [OF inv(1) drop_handle_ok [OF inv(2)]] mgr_invalidate by (simp add: invalidate_def)
next
  case (mgr_latency m g h now latency)
  then show ?thesis using with_pool_step assms(2) by (simp add: handle_ReportLatency_def)
next
  case (mgr_request_latency m g h now latency)
  then show ?thesis using with_pool_step assms(2) by (simp add: handle_ReportRequestLatency_def)
next
  case (mgr_http m g h now status)
  then show ?thesis using with_pool_step assms(2) by (simp add: handle_ReportHTTPFailure_def)
next
  case (mgr_request_failure m g h now)
  then show ?thesis using with_pool_step assms(2) by (simp add: handle_ReportRequestFailure_def)
next
  case (mgr_close m g)
  then have inv: "mgr_inv m0 (m, g)" "mgr_ok m" using assms(2) by (simp_all add: mgr_inv_def)
  then show ?thesis using shared_step [OF inv(1) close_ok [OF inv(2)]] mgr_close by simp
qed

text \<open>A manager as the program starts it.\<close>

definition started :: "exitManager \<Rightarrow> bool" where
  "started m \<longleftrightarrow> (\<exists>v authKey. New_manager v authKey True = Inr m) \<or> (\<exists>policy. NewWithPool policy True = Inr m)"

lemma started_fields: "started m \<Longrightarrow> mgrTransports m = Some [] \<and> \<not> mgrClosed m"
  by (auto simp: started_def New_manager_def NewWithPool_def split: if_splits)

lemma fresh_manager_inv: "started m \<Longrightarrow> mgr_inv m (m, Map.empty)"
  using started_fields [of m] by (simp add: mgr_inv_def mgr_ok_def cache_ok_def)

lemma mgr_reach_inv:
  assumes "mgr_reach m0 s" "started m0"
  shows "mgr_inv m0 s"
  using assms(1)
proof (induction rule: mgr_reach.induct)
  case mgr_start
  then show ?case using fresh_manager_inv [OF assms(2)] by simp
next
  case (mgr_next s s')
  then show ?case using mgr_step_inv by blast
qed

lemma acq_run_done:
  assumes "mgr_ok m" "acq_ok m s" "\<forall>es. mset (ord es) = mset es" "acq_rank s \<le> n"
  shows "\<exists>r m'. acq_run n ord lr now s m = Some (AcqDone r, m') \<and> mgr_ok m' \<and> acq_ok m' (AcqDone r)"
  using assms
proof (induction n arbitrary: s m)
  case 0
  then obtain r where "s = AcqDone r" by (cases s) auto
  then show ?case using 0 by simp
next
  case (Suc n)
  obtain s' m' where step: "acq_section ord lr now s m = Some (s', m')" "mgr_ok m'" "acq_ok m' s'" "acq_rank s' < acq_rank s \<or> acq_rank s = 0"
    using acq_section_ok [OF Suc.prems(1-3), of lr now] by blast
  have "acq_rank s' \<le> n"
  proof (cases "acq_rank s = 0")
    case True
    then obtain r where "s = AcqDone r" by (cases s) auto
    then show ?thesis using step(1) by (auto simp: acq_section_def)
  next
    case False
    then show ?thesis using step(4) Suc.prems(4) by linarith
  qed
  then show ?case using Suc.IH [OF step(2,3) Suc.prems(3)] step(1) by simp
qed

lemma acq_begin_rank: "acq_rank (acq_begin ctxErr key now m) \<le> 4"
  by (auto simp: acq_begin_def Let_def split: option.splits)

text \<open>The entry that is evicted has the oldest stamp, in whatever order the map is traversed.\<close>

lemma oldest_key_least:
  assumes "\<forall>x \<in> set order. ctLastUsed (snd x) \<noteq> 0" "oldest_key order = Some key"
  shows "\<exists>e. (key, e) \<in> set order \<and> (\<forall>x \<in> set order. ctLastUsed e \<le> ctLastUsed (snd x))"
proof -
  let ?f = "\<lambda>(key, e) (oldestKey, oldest). if oldest = 0 \<or> ctLastUsed e < oldest then (Some key, ctLastUsed e) else (oldestKey, oldest)"
  have step: "\<exists>e. (key, e) \<in> set (seen @ xs) \<and> (\<forall>x \<in> set (seen @ xs). ctLastUsed e \<le> ctLastUsed (snd x))"
    if "fst (fold ?f xs (Some k0, ctLastUsed e0)) = Some key" "(k0, e0) \<in> set seen" "\<forall>x \<in> set seen. ctLastUsed e0 \<le> ctLastUsed (snd x)"
      "\<forall>x \<in> set (seen @ xs). ctLastUsed (snd x) \<noteq> 0" for seen xs k0 e0
    using that
  proof (induction xs arbitrary: seen k0 e0)
    case Nil
    then show ?case by auto
  next
    case (Cons x xs)
    obtain k e where x: "x = (k, e)" by (cases x)
    have nz: "\<forall>y \<in> set ((seen @ [x]) @ xs). ctLastUsed (snd y) \<noteq> 0" "ctLastUsed e0 \<noteq> 0" using Cons.prems(4) bspec [OF Cons.prems(4), of "(k0, e0)"] Cons.prems(2) by simp_all
    show ?case
    proof (cases "ctLastUsed e < ctLastUsed e0")
      case True
      have "\<forall>y \<in> set (seen @ [x]). ctLastUsed e \<le> ctLastUsed (snd y)"
        using Cons.prems(3) True by (auto simp: x intro: less_imp_le order_trans)
      then show ?thesis using Cons.IH [of k e "seen @ [x]"] nz(1) Cons.prems(1) True by (simp add: x)
    next
      case False
      have "\<forall>y \<in> set (seen @ [x]). ctLastUsed e0 \<le> ctLastUsed (snd y)" using Cons.prems(3) False by (auto simp: x)
      then show ?thesis using Cons.IH [of k0 e0 "seen @ [x]"] nz Cons.prems(1,2) False by (simp add: x)
    qed
  qed
  obtain x xs where order: "order = x # xs" using assms(2) by (cases order) (auto simp: oldest_key_def)
  obtain k e where x: "x = (k, e)" by (cases x)
  show ?thesis using step [of xs k e "[x]"] assms by (simp add: oldest_key_def order x)
qed

subsection \<open>Properties\<close>

text \<open>C28: Handles name the exit they dial. However many goroutines acquire, retire, invalidate, report and
  close, and whatever the pool does in between: the manager caches at most 64 transports, none after it
  is closed; no section of a running acquisition panics; and every handle an acquisition returns has a transport
  with the timeouts and the session header of its key. With a pool the transport dials the URL of an exit with the key the handle
  names; with a static proxy it dials that proxy, with its credentials, and the handle names the zero exit.\<close>

theorem manager_concurrent:
  assumes "mgr_reach m0 (m, g)" "started m0"
  shows "(\<forall>es. mgrTransports m = Some es \<longrightarrow> length es \<le> 64) \<and> (mgrClosed m \<longleftrightarrow> mgrTransports m = None)
    \<and> (\<forall>i h. g i = Some (AcqDone (Inr h)) \<longrightarrow>
        hTransport h < length (mgrHeap m)
        \<and> (\<exists>target. names_exit m0 (hProxyKey h) target \<and> mgrHeap m ! hTransport h = transport_for (hKey h) target))
    \<and> (\<forall>i s ord lr now. g i = Some s \<and> (\<forall>es. mset (ord es) = mset es) \<longrightarrow> acq_section ord lr now s m \<noteq> None)"
proof -
  have inv: "grows m0 m" "mgr_ok m" "\<And>i s. g i = Some s \<Longrightarrow> acq_ok m s" using mgr_reach_inv [OF assms] by (auto simp: mgr_inv_def)
  have "\<forall>i s ord lr now. g i = Some s \<and> (\<forall>es. mset (ord es) = mset es) \<longrightarrow> acq_section ord lr now s m \<noteq> None"
    using acq_section_ok [OF inv(2) inv(3)] by (metis option.distinct(1))
  moreover have "\<forall>i h. g i = Some (AcqDone (Inr h)) \<longrightarrow> built m (hKey h) (hTransport h) (hProxyKey h)" using inv(3) by fastforce
  ultimately show ?thesis
    using inv(2) names_exit_grows [OF inv(1)] by (auto simp: mgr_ok_def cache_ok_def built_def maxCachedTransports_def split: option.splits)
qed

text \<open>\<open>Acquire\<close> ends. In every reachable state an acquisition that is not interrupted ends after at most
  four sections, with an error or with a handle on the exit its transport dials; on a closed manager it
  is refused.\<close>

theorem acquire_returns:
  assumes "mgr_reach m0 (m, g)" "started m0" "\<forall>es. mset (ord es) = mset es"
  shows "\<exists>r m'. exit_Acquire ord ctxErr lr key now m = Some (AcqDone r, m')
    \<and> (\<forall>h. r = Inr h \<longrightarrow> hTransport h < length (mgrHeap m') \<and> names_exit m' (hProxyKey h) (dials (mgrHeap m' ! hTransport h)))
    \<and> (ctxErr = nil_error \<and> mgrClosed m \<longrightarrow> r = Inl [ProxyError ReasonManagerClosed])"
proof -
  have ok: "mgr_ok m" using mgr_reach_inv [OF assms(1,2)] by (simp add: mgr_inv_def)
  obtain r m' where r: "exit_Acquire ord ctxErr lr key now m = Some (AcqDone r, m')" "acq_ok m' (AcqDone r)"
    using acq_run_done [OF ok acq_begin_ok [OF ok] assms(3) acq_begin_rank] unfolding exit_Acquire_def by blast
  moreover have "r = Inl [ProxyError ReasonManagerClosed]" if "ctxErr = nil_error \<and> mgrClosed m"
    using r(1) that by (simp add: exit_Acquire_def acq_begin_def acq_section_def manager_closed_def eval_nat_numeral)
  ultimately show ?thesis by (cases r) (auto simp: built_def transport_for_def Let_def)
qed

subsection \<open>Witnesses\<close>

definition sample_key :: transportKey where
  "sample_key = \<lparr>tkConnectTimeoutMS = 5, tkFirstByteTimeoutMS = 5, tkSession = ''k''\<rparr>"

definition sample_url :: configuredURL where
  "sample_url = \<lparr>urlScheme = ''http'', urlHost = ''proxy:80'', urlUser = None, urlPath = [], urlRawQuery = [], urlForceQuery = False, urlFragment = []\<rparr>"

definition static_manager :: exitManager where
  "static_manager =
     \<lparr>mgrProxyURL = Some \<lparr>urlScheme = ''http'', urlHost = ''proxy:80'', urlUser = Some (''proxy'', ''secret'')\<rparr>,
      mgrPool = None, mgrHeap = [], mgrTransports = Some [], mgrClock = 0, mgrClosed = False, mgrPolicy = defaultEjectionPolicy\<rparr>"

lemma static_started: "started static_manager"
proof -
  have "validateProxyURL (Some sample_url) = nil_error" by code_simp
  moreover have "trim_space ''secret'' \<noteq> []" by code_simp
  ultimately have "New_manager (Some sample_url) ''secret'' True = Inr static_manager"
    by (simp add: New_manager_def static_manager_def sample_url_def)
  then show ?thesis unfolding started_def by blast
qed

text \<open>With a static proxy a handle names the key of the zero exit, three NUL bytes, although it is documented to
  be empty then.\<close>

lemma static_proxy_key:
  "\<exists>h m'. exit_Acquire (\<lambda>es. es) nil_error lr key now static_manager = Some (AcqDone (Inr h), m') \<and> hProxyKey h = [NUL, NUL, NUL]
     \<and> dials (mgrHeap m' ! hTransport h) = mgrProxyURL static_manager"
  by (simp add: exit_Acquire_def acq_begin_def acq_section_def acq_miss_def acq_miss_install_def newTransport_def static_manager_def cached_def
      use_entry_def evict_if_full_def handle_of_def zero_proxy_def exit_Key_def put_transport_def maxCachedTransports_def transport_for_def
      eval_nat_numeral Let_def)

text \<open>An acquisition in three sections: the miss, the installation, and a handle that dials the static proxy.\<close>

theorem manager_concurrent_witness:
  "\<exists>(m :: exitManager) (h :: handle). hTransport h < length (mgrHeap m)
     \<and> (\<exists>target. names_exit static_manager (hProxyKey h) target \<and> mgrHeap m ! hTransport h = transport_for (hKey h) target)"
proof -
  obtain m1 where a: "acq_section (\<lambda>es. es) False 5 (AcqMiss sample_key) static_manager = Some (AcqMissInstall sample_key 0 (exit_Key zero_proxy), m1)"
    and m1: "m1 = static_manager\<lparr>mgrHeap := [transport_for sample_key (mgrProxyURL static_manager)]\<rparr>"
    by (simp add: acq_section_def acq_miss_def newTransport_def static_manager_def zero_proxy_def Let_def)
  obtain h m2 where b: "acq_section (\<lambda>es. es) False 5 (AcqMissInstall sample_key 0 (exit_Key zero_proxy)) m1 = Some (AcqDone (Inr h), m2)"
    by (simp add: m1 acq_section_def acq_miss_install_def static_manager_def cached_def use_entry_def evict_if_full_def put_transport_def
        maxCachedTransports_def Let_def)
  have "acq_begin nil_error sample_key 5 static_manager = AcqMiss sample_key" by (simp add: acq_begin_def static_manager_def cached_def)
  then have "mgr_reach static_manager (static_manager, [0 \<mapsto> AcqMiss sample_key])"
    using mgr_next [OF mgr_start mgr_begin [of Map.empty 0 static_manager nil_error sample_key 5]] by simp
  from mgr_next [OF this mgr_section [of _ 0, OF _ _ a]]
  have "mgr_reach static_manager (m1, [0 \<mapsto> AcqMissInstall sample_key 0 (exit_Key zero_proxy)])" by simp
  from mgr_next [OF this mgr_section [of _ 0, OF _ _ b]]
  have "mgr_reach static_manager (m2, [0 \<mapsto> AcqDone (Inr h)])" by simp
  from manager_concurrent [OF this static_started, THEN conjunct2, THEN conjunct2, THEN conjunct1, rule_format, of 0 h]
  have "hTransport h < length (mgrHeap m2)
     \<and> (\<exists>target. names_exit static_manager (hProxyKey h) target \<and> mgrHeap m2 ! hTransport h = transport_for (hKey h) target)"
    by simp
  then show ?thesis by blast
qed

theorem acquire_returns_witness:
  "\<exists>m'. exit_Acquire (\<lambda>es. es) nil_error False sample_key 5 (exit_Close static_manager) = Some (AcqDone (Inl [ProxyError ReasonManagerClosed]), m')"
proof -
  have "mgr_reach static_manager (exit_Close static_manager, Map.empty)" by (rule mgr_next [OF mgr_start mgr_close])
  from acquire_returns [OF this static_started, of "\<lambda>es. es" nil_error False sample_key 5] show ?thesis
    by (auto simp: exit_Close_def static_manager_def)
qed

end
