(* ===== verification/Responses_Stream.thy ===== *)
theory Responses_Stream
  imports Json Fault
begin

text \<open>
  \<open>internal/protocol/responses\<close>: the state machine that turns the chunks of a Chat Completions stream
  into the events of the Responses API (\<open>stream.go\<close>, \<open>state.go\<close>, \<open>config.go\<close>, \<open>id.go\<close>). An action takes the
  state and the events emitted so far and returns an error, the nil error to go on; how the emitter
  answers is a function of the events so far. An event is a value of a datatype, and \<open>emitted\<close> gives the
  name and the JSON object the code builds for it.
\<close>

subsection \<open>Bounded text\<close>

record stringsBuilder =
  parts :: "string list"
  total :: int
  limit :: int
  builderErr :: goError

definition newBoundedBuilder :: "int \<Rightarrow> goError \<Rightarrow> stringsBuilder" where
  "newBoundedBuilder bound err = \<lparr>parts = [], total = 0, limit = bound, builderErr = err\<rparr>"

definition builder_write :: "string \<Rightarrow> stringsBuilder \<Rightarrow> goError \<times> stringsBuilder" where
  "builder_write fragment b =
     (if total b + int (length fragment) > limit b then (builderErr b, b)
      else (nil_error, b\<lparr>parts := parts b @ [fragment], total := total b + int (length fragment)\<rparr>))"

definition builder_string :: "stringsBuilder \<Rightarrow> string" where
  "builder_string b = concat (parts b)"

definition maxToolArgumentsBytes :: int where "maxToolArgumentsBytes = 16 * 1024 * 1024"
definition maxStreamTextBytes :: int where "maxStreamTextBytes = 16 * 1024 * 1024"

definition ErrToolArgumentsTooLarge :: goError where
  "ErrToolArgumentsTooLarge = [OtherError ''tool call arguments exceed maximum size'']"
definition ErrStreamTextTooLarge :: goError where
  "ErrStreamTextTooLarge = [OtherError ''streamed response text exceeds maximum size'']"

subsection \<open>Chunks\<close>

record chatUsage =
  PromptTokens :: "int option"
  CompletionTokens :: "int option"
  TotalTokens :: "int option"

record chatToolCallDelta =
  callIndex :: int
  callId :: string
  callName :: string
  callArguments :: string

record chatDelta =
  deltaContent :: string
  deltaReasoning :: string
  deltaFinishReason :: string
  deltaToolCalls :: "chatToolCallDelta list"
  deltaUsage :: "chatUsage option"

text \<open>A source of chunks: the chunks, then the end of the stream.\<close>

datatype sourceEnd = SrcCompleted | SrcInterrupted | SrcError goError

subsection \<open>Configuration of the response\<close>

record responseConfig =
  cfgInstructions :: string
  cfgMaxOutputTokens :: string
  cfgParallelToolCalls :: string
  cfgReasoning :: string
  cfgTemperature :: string
  cfgText :: string
  cfgToolChoice :: string
  cfgTools :: string
  cfgTopP :: string
  cfgUser :: string

definition rawValue :: "string \<Rightarrow> json" where
  "rawValue raw = (if raw = [] \<or> raw = ''null'' then JNull else case json_parse raw of None \<Rightarrow> JNull | Some v \<Rightarrow> v)"

definition set_field :: "string \<Rightarrow> json \<Rightarrow> (string \<times> json) list \<Rightarrow> (string \<times> json) list" where
  "set_field k v fs = (k, v) # filter (\<lambda>x. fst x \<noteq> k) fs"

definition config_apply :: "responseConfig \<Rightarrow> (string \<times> json) list \<Rightarrow> (string \<times> json) list" where
  "config_apply c response =
     fold (\<lambda>(k, v). set_field k v)
       [(''error'', JNull), (''incomplete_details'', JNull), (''instructions'', rawValue (cfgInstructions c)),
        (''max_output_tokens'', rawValue (cfgMaxOutputTokens c)), (''metadata'', JNull),
        (''parallel_tool_calls'',
          if cfgParallelToolCalls c = [] \<or> cfgParallelToolCalls c = ''null'' then JBool True else rawValue (cfgParallelToolCalls c)),
        (''temperature'', rawValue (cfgTemperature c)), (''reasoning'', rawValue (cfgReasoning c)), (''text'', rawValue (cfgText c)),
        (''tool_choice'', rawValue (cfgToolChoice c)), (''tools'', rawValue (cfgTools c)), (''top_p'', rawValue (cfgTopP c)),
        (''user'', rawValue (cfgUser c))] response"

subsection \<open>Items and events\<close>

text \<open>Output items: the texts of a message and of a reasoning summary are lists of parts.\<close>

datatype outItem =
    MessageItem string string "string list"
  | ReasoningItem string string "string list"
  | FunctionItem string string string string

record responseObj =
  roId :: string
  roModel :: string
  roStatus :: string
  roOutput :: "outItem list"
  roOutputText :: string
  roUsage :: "chatUsage option"
  roIncomplete :: "string option"
  roCreatedAt :: int
  roConfig :: responseConfig

datatype streamEvent =
    EvLifecycle string int responseObj
  | EvItemAdded int int outItem
  | EvPartAdded int string int
  | EvTextDelta int string int string
  | EvReasoningDelta int string int string
  | EvArgsDelta int string int string
  | EvTextDone int string int string
  | EvPartDone int string int string
  | EvReasoningDone int string int string
  | EvArgsDone int string int string string
  | EvItemDone int string int outItem
  | EvDone int

definition convertUsage :: "chatUsage option \<Rightarrow> json option" where
  "convertUsage usage =
     (case usage of
        None \<Rightarrow> None
      | Some u \<Rightarrow>
          let put = (\<lambda>k v. case v of None \<Rightarrow> [] | Some n \<Rightarrow> [(k, JNumber (itoa n))]);
              result = put ''input_tokens'' (PromptTokens u) @ put ''output_tokens'' (CompletionTokens u) @ put ''total_tokens'' (TotalTokens u)
          in if result = [] then None else Some (JObject result))"

definition text_part :: "string \<Rightarrow> json" where
  "text_part s = JObject [(''type'', JString ''output_text''), (''text'', JString s), (''annotations'', JArray []), (''logprobs'', JArray [])]"

definition summary_part :: "string \<Rightarrow> json" where
  "summary_part s = JObject [(''type'', JString ''summary_text''), (''text'', JString s)]"

fun item_json :: "outItem \<Rightarrow> json" where
  "item_json (MessageItem i status content) =
     JObject [(''id'', JString i), (''type'', JString ''message''), (''status'', JString status), (''role'', JString ''assistant''),
       (''content'', JArray (map text_part content))]"
| "item_json (ReasoningItem i status summary) =
     JObject [(''id'', JString i), (''type'', JString ''reasoning''), (''status'', JString status), (''summary'', JArray (map summary_part summary))]"
| "item_json (FunctionItem i status name arguments) =
     JObject [(''type'', JString ''function_call''), (''status'', JString status), (''id'', JString i), (''call_id'', JString i),
       (''name'', JString name), (''arguments'', JString arguments)]"

definition response_json :: "responseObj \<Rightarrow> json" where
  "response_json r =
     (let base = config_apply (roConfig r)
            ([(''object'', JString ''response''), (''created_at'', JNumber (itoa (roCreatedAt r))), (''status'', JString (roStatus r)),
              (''output'', JArray (map item_json (roOutput r))), (''output_text'', JString (roOutputText r)), (''usage'', JNull)]
             @ (if roId r \<noteq> [] then [(''id'', JString (roId r))] else [])
             @ (if roModel r \<noteq> [] then [(''model'', JString (roModel r))] else []));
          incomplete = (case roIncomplete r of None \<Rightarrow> base
            | Some reason \<Rightarrow> set_field ''incomplete_details'' (JObject [(''reason'', JString reason)]) base)
      in JObject (case convertUsage (roUsage r) of None \<Rightarrow> incomplete | Some u \<Rightarrow> set_field ''usage'' u incomplete))"

abbreviation jint :: "int \<Rightarrow> json" where "jint n \<equiv> JNumber (itoa n)"

fun emitted :: "streamEvent \<Rightarrow> string \<times> (string \<times> json) list" where
  "emitted (EvLifecycle name n r) = (name, [(''sequence_number'', jint n), (''response'', response_json r)])"
| "emitted (EvItemAdded n idx item) =
     (''response.output_item.added'', [(''sequence_number'', jint n), (''output_index'', jint idx), (''item'', item_json item)])"
| "emitted (EvPartAdded n i idx) =
     (''response.content_part.added'', [(''sequence_number'', jint n), (''item_id'', JString i), (''output_index'', jint idx),
       (''content_index'', jint 0), (''part'', text_part [])])"
| "emitted (EvTextDelta n i idx d) =
     (''response.output_text.delta'', [(''sequence_number'', jint n), (''item_id'', JString i), (''output_index'', jint idx),
       (''content_index'', jint 0), (''delta'', JString d)])"
| "emitted (EvReasoningDelta n i idx d) =
     (''response.reasoning_summary_text.delta'', [(''sequence_number'', jint n), (''item_id'', JString i), (''output_index'', jint idx),
       (''summary_index'', jint 0), (''delta'', JString d)])"
| "emitted (EvArgsDelta n i idx d) =
     (''response.function_call_arguments.delta'', [(''sequence_number'', jint n), (''output_index'', jint idx), (''item_id'', JString i),
       (''delta'', JString d)])"
| "emitted (EvTextDone n i idx s) =
     (''response.output_text.done'', [(''sequence_number'', jint n), (''item_id'', JString i), (''output_index'', jint idx),
       (''content_index'', jint 0), (''text'', JString s)])"
| "emitted (EvPartDone n i idx s) =
     (''response.content_part.done'', [(''sequence_number'', jint n), (''item_id'', JString i), (''output_index'', jint idx),
       (''content_index'', jint 0), (''part'', text_part s)])"
| "emitted (EvReasoningDone n i idx s) =
     (''response.reasoning_summary_text.done'', [(''sequence_number'', jint n), (''item_id'', JString i), (''output_index'', jint idx),
       (''summary_index'', jint 0), (''text'', JString s)])"
| "emitted (EvArgsDone n i idx name s) =
     (''response.function_call_arguments.done'', [(''sequence_number'', jint n), (''output_index'', jint idx), (''item_id'', JString i),
       (''name'', JString name), (''arguments'', JString s)])"
| "emitted (EvItemDone n i idx item) =
     (''response.output_item.done'', [(''sequence_number'', jint n), (''item_id'', JString i), (''output_index'', jint idx), (''item'', item_json item)])"
| "emitted (EvDone n) = (''done'', [(''sequence_number'', jint n), (''done'', JBool True)])"

definition event_Payload :: "streamEvent \<Rightarrow> (string \<times> json) list" where
  "event_Payload e = (case emitted e of (name, data) \<Rightarrow> set_field ''type'' (JString name) data)"

subsection \<open>State\<close>

record toolItem =
  outputIndex :: int
  toolIndex :: int
  toolId :: string
  toolName :: string
  toolArguments :: stringsBuilder
  toolClosed :: bool
  toolAdded :: bool

record streamState =
  sequence :: int
  config :: responseConfig
  createdAt :: int
  itemIndex :: int
  messageIndex :: int
  messageID :: string
  messageStarted :: bool
  textPartOpen :: bool
  textBuilder :: stringsBuilder
  reasoningIndex :: int
  reasoningID :: string
  reasoningOpen :: bool
  reasoningBuilder :: stringsBuilder
  openTools :: "int \<rightharpoonup> toolItem"
  toolOrder :: "int list"
  finishReason :: string
  usage :: "chatUsage option"
  finalized :: bool

definition newStreamStateWithConfig :: "responseConfig \<Rightarrow> int \<Rightarrow> streamState" where
  "newStreamStateWithConfig cfg now =
     \<lparr>sequence = 0, config = cfg, createdAt = now, itemIndex = 0, messageIndex = 0, messageID = [], messageStarted = False, textPartOpen = False,
      textBuilder = newBoundedBuilder maxStreamTextBytes ErrStreamTextTooLarge, reasoningIndex = 0, reasoningID = [], reasoningOpen = False,
      reasoningBuilder = newBoundedBuilder maxStreamTextBytes ErrStreamTextTooLarge, openTools = Map.empty, toolOrder = [], finishReason = [],
      usage = None, finalized = False\<rparr>"

definition callID :: "toolItem \<Rightarrow> string" where
  "callID t = (if toolId t \<noteq> [] then toolId t else ''call_'' @ itoa (toolIndex t))"

definition trim_prefix :: "string \<Rightarrow> string \<Rightarrow> string" where
  "trim_prefix p s = (if take (length p) s = p then drop (length p) s else s)"

definition responsesIDPrefix :: string where "responsesIDPrefix = ''resp_''"

definition messageItemID :: "string \<Rightarrow> string" where
  "messageItemID responseID = ''msg_'' @ trim_prefix responsesIDPrefix responseID"

definition reasoningItemID :: "string \<Rightarrow> string" where
  "reasoningItemID responseID = ''rs_'' @ trim_prefix responsesIDPrefix responseID"

definition responseObject :: "streamState \<Rightarrow> string \<Rightarrow> string \<Rightarrow> string \<Rightarrow> responseObj" where
  "responseObject st responseID model status =
     \<lparr>roId = responseID, roModel = model, roStatus = status, roOutput = [], roOutputText = [], roUsage = None, roIncomplete = None,
      roCreatedAt = createdAt st, roConfig = config st\<rparr>"

definition optional_part :: "string \<Rightarrow> string list" where
  "optional_part s = (if s \<noteq> [] then [s] else [])"

definition put_slot :: "int \<Rightarrow> outItem \<Rightarrow> outItem option list \<Rightarrow> outItem option list" where
  "put_slot i item slots = (if i < int (length slots) then slots[nat i := Some item] else slots)"

definition outputItems :: "streamState \<Rightarrow> outItem list" where
  "outputItems st =
     (let slots0 = replicate (nat (itemIndex st)) None;
          slots1 = (if reasoningID st \<noteq> []
                    then put_slot (reasoningIndex st) (ReasoningItem (reasoningID st) ''completed'' (optional_part (builder_string (reasoningBuilder st)))) slots0
                    else slots0);
          slots2 = (if messageStarted st
                    then put_slot (messageIndex st) (MessageItem (messageID st) ''completed'' (optional_part (builder_string (textBuilder st)))) slots1
                    else slots1);
          slots3 = fold (\<lambda>index slots. case openTools st index of
                      None \<Rightarrow> slots
                    | Some tool \<Rightarrow> put_slot (outputIndex tool)
                        (FunctionItem (callID tool) ''completed'' (toolName tool) (builder_string (toolArguments tool))) slots)
                     (toolOrder st) slots2
      in List.map_filter (\<lambda>x. x) slots3)"

subsection \<open>Actions\<close>

type_synonym machine = "streamState \<times> streamEvent list"
type_synonym action = "machine \<Rightarrow> goError \<times> machine"
type_synonym emitter = "streamEvent list \<Rightarrow> goError"

definition skip :: action where "skip s = (nil_error, s)"

definition modify :: "(streamState \<Rightarrow> streamState) \<Rightarrow> action" where
  "modify f s = (nil_error, f (fst s), snd s)"

text \<open>Actions in sequence, up to the first error.\<close>

primrec run_all :: "action list \<Rightarrow> action" where
  "run_all [] s = (nil_error, s)"
| "run_all (a # as) s = (case a s of (err, s') \<Rightarrow> if err \<noteq> nil_error then (err, s') else run_all as s')"

definition wrapped :: "string \<Rightarrow> action \<Rightarrow> action" where
  "wrapped msg a s = (case a s of (err, s') \<Rightarrow> (if err \<noteq> nil_error then Wrapped msg # err else nil_error, s'))"

definition when_do :: "(streamState \<Rightarrow> bool) \<Rightarrow> action \<Rightarrow> action" where
  "when_do c a s = (if c (fst s) then a s else skip s)"

text \<open>Emitting one event: it takes the next sequence number and is built from the state.\<close>

definition emit :: "emitter \<Rightarrow> (streamState \<Rightarrow> int \<Rightarrow> streamEvent) \<Rightarrow> action" where
  "emit E mk s =
     (let e = mk (fst s) (sequence (fst s))
      in (E (snd s @ [e]), (fst s)\<lparr>sequence := sequence (fst s) + 1\<rparr>, snd s @ [e]))"

definition lifecycle :: "emitter \<Rightarrow> string \<Rightarrow> string \<Rightarrow> string \<Rightarrow> action" where
  "lifecycle E name responseID model = emit E (\<lambda>st n. EvLifecycle name n (responseObject st responseID model ''in_progress''))"

definition write_text :: "string \<Rightarrow> action" where
  "write_text s m = (case builder_write s (textBuilder (fst m)) of (err, b) \<Rightarrow> (err, (fst m)\<lparr>textBuilder := b\<rparr>, snd m))"

definition write_reasoning :: "string \<Rightarrow> action" where
  "write_reasoning s m = (case builder_write s (reasoningBuilder (fst m)) of (err, b) \<Rightarrow> (err, (fst m)\<lparr>reasoningBuilder := b\<rparr>, snd m))"

definition openMessage :: "emitter \<Rightarrow> string \<Rightarrow> action" where
  "openMessage E responseID = run_all
     [modify (\<lambda>st. st\<lparr>messageIndex := itemIndex st, messageID := messageItemID responseID\<rparr>),
      wrapped ''emit output_item.added'' (emit E (\<lambda>st n. EvItemAdded n (messageIndex st) (MessageItem (messageID st) ''in_progress'' []))),
      wrapped ''emit content_part.added'' (emit E (\<lambda>st n. EvPartAdded n (messageID st) (messageIndex st))),
      modify (\<lambda>st. st\<lparr>itemIndex := itemIndex st + 1, messageStarted := True, textPartOpen := True\<rparr>)]"

definition emitTextDelta :: "emitter \<Rightarrow> string \<Rightarrow> string \<Rightarrow> action" where
  "emitTextDelta E s responseID = run_all
     [when_do (\<lambda>st. \<not> messageStarted st) (openMessage E responseID),
      when_do (\<lambda>st. s \<noteq> []) (run_all
        [wrapped ''accumulate assistant text'' (write_text s),
         emit E (\<lambda>st n. EvTextDelta n (messageID st) (messageIndex st) s)])]"

definition emitReasoningDelta :: "emitter \<Rightarrow> string \<Rightarrow> string \<Rightarrow> action" where
  "emitReasoningDelta E s responseID = run_all
     [when_do (\<lambda>st. \<not> reasoningOpen st) (run_all
        [modify (\<lambda>st. st\<lparr>reasoningOpen := True, reasoningIndex := itemIndex st, reasoningID := reasoningItemID responseID\<rparr>),
         wrapped ''emit reasoning output_item.added''
           (emit E (\<lambda>st n. EvItemAdded n (reasoningIndex st) (ReasoningItem (reasoningID st) ''in_progress'' []))),
         modify (\<lambda>st. st\<lparr>itemIndex := itemIndex st + 1\<rparr>)]),
      wrapped ''accumulate reasoning summary'' (write_reasoning s),
      emit E (\<lambda>st n. EvReasoningDelta n (reasoningID st) (reasoningIndex st) s)]"

definition the_tool :: "streamState \<Rightarrow> int \<Rightarrow> toolItem" where
  "the_tool st k = (case openTools st k of Some t \<Rightarrow> t
     | None \<Rightarrow> \<lparr>outputIndex = 0, toolIndex = k, toolId = [], toolName = [],
         toolArguments = newBoundedBuilder maxToolArgumentsBytes ErrToolArgumentsTooLarge, toolClosed = False, toolAdded = False\<rparr>)"

definition update_tool :: "int \<Rightarrow> (toolItem \<Rightarrow> toolItem) \<Rightarrow> streamState \<Rightarrow> streamState" where
  "update_tool k f st = st\<lparr>openTools := (openTools st)(k := map_option f (openTools st k))\<rparr>"

definition ensureToolAdded :: "emitter \<Rightarrow> int \<Rightarrow> action" where
  "ensureToolAdded E k =
     when_do (\<lambda>st. \<not> toolAdded (the_tool st k)) (run_all
       [modify (update_tool k (\<lambda>t. t\<lparr>toolAdded := True, toolId := callID t\<rparr>)),
        wrapped ''emit tool output_item.added''
          (emit E (\<lambda>st n. EvItemAdded n (outputIndex (the_tool st k))
             (FunctionItem (toolId (the_tool st k)) ''in_progress'' (toolName (the_tool st k)) [])))])"

definition open_tool :: "chatToolCallDelta \<Rightarrow> streamState \<Rightarrow> streamState" where
  "open_tool call st =
     (if openTools st (callIndex call) \<noteq> None then st
      else st\<lparr>openTools := (openTools st)(callIndex call \<mapsto>
                \<lparr>outputIndex = itemIndex st, toolIndex = callIndex call, toolId = callId call, toolName = callName call,
                 toolArguments = newBoundedBuilder maxToolArgumentsBytes ErrToolArgumentsTooLarge, toolClosed = False, toolAdded = False\<rparr>),
              toolOrder := toolOrder st @ [callIndex call], itemIndex := itemIndex st + 1\<rparr>)"

definition correct_tool :: "chatToolCallDelta \<Rightarrow> toolItem \<Rightarrow> toolItem" where
  "correct_tool call t =
     t\<lparr>toolId := if callId call \<noteq> [] \<and> toolId t = [] then callId call else toolId t,
       toolName := if callName call \<noteq> [] \<and> toolName t = [] then callName call else toolName t\<rparr>"

definition write_arguments :: "int \<Rightarrow> string \<Rightarrow> action" where
  "write_arguments k s m =
     (case builder_write s (toolArguments (the_tool (fst m) k)) of
        (err, b) \<Rightarrow> (err, update_tool k (\<lambda>t. t\<lparr>toolArguments := b\<rparr>) (fst m), snd m))"

definition applyToolCall :: "emitter \<Rightarrow> chatToolCallDelta \<Rightarrow> action" where
  "applyToolCall E call = (let k = callIndex call in run_all
     [modify (open_tool call),
      modify (update_tool k (correct_tool call)),
      when_do (\<lambda>st. toolId (the_tool st k) \<noteq> []) (ensureToolAdded E k),
      when_do (\<lambda>st. callArguments call \<noteq> []) (run_all
        [ensureToolAdded E k,
         wrapped (''accumulate tool call '' @ itoa k @ '' arguments'') (write_arguments k (callArguments call)),
         wrapped ''emit arguments delta''
           (emit E (\<lambda>st n. EvArgsDelta n (callID (the_tool st k)) (outputIndex (the_tool st k)) (callArguments call)))])])"

definition applyDelta :: "emitter \<Rightarrow> string \<Rightarrow> chatDelta \<Rightarrow> action" where
  "applyDelta E responseID delta = run_all
     ([modify (\<lambda>st. if deltaUsage delta \<noteq> None then st\<lparr>usage := deltaUsage delta\<rparr> else st),
       when_do (\<lambda>st. deltaReasoning delta \<noteq> []) (emitReasoningDelta E (deltaReasoning delta) responseID),
       when_do (\<lambda>st. deltaContent delta \<noteq> [] \<or> deltaFinishReason delta \<noteq> [] \<and> messageStarted st \<and> textPartOpen st)
         (emitTextDelta E (deltaContent delta) responseID)]
      @ map (applyToolCall E) (deltaToolCalls delta)
      @ [modify (\<lambda>st. if deltaFinishReason delta \<noteq> [] then st\<lparr>finishReason := deltaFinishReason delta\<rparr> else st)])"

subsection \<open>Closing\<close>

definition closeOpenMessage :: "emitter \<Rightarrow> action" where
  "closeOpenMessage E =
     when_do (\<lambda>st. messageStarted st \<and> textPartOpen st) (run_all
       [wrapped ''emit output_text.done'' (emit E (\<lambda>st n. EvTextDone n (messageID st) (messageIndex st) (builder_string (textBuilder st)))),
        wrapped ''emit content_part.done'' (emit E (\<lambda>st n. EvPartDone n (messageID st) (messageIndex st) (builder_string (textBuilder st)))),
        wrapped ''emit output_item.done'' (emit E (\<lambda>st n. EvItemDone n (messageID st) (messageIndex st)
          (MessageItem (messageID st) ''completed'' (optional_part (builder_string (textBuilder st)))))),
        modify (\<lambda>st. st\<lparr>textPartOpen := False\<rparr>)])"

definition closeReasoningItem :: "emitter \<Rightarrow> action" where
  "closeReasoningItem E =
     when_do reasoningOpen (run_all
       [modify (\<lambda>st. st\<lparr>reasoningOpen := False\<rparr>),
        wrapped ''emit reasoning_summary_text.done''
          (emit E (\<lambda>st n. EvReasoningDone n (reasoningID st) (reasoningIndex st) (builder_string (reasoningBuilder st)))),
        wrapped ''emit reasoning output_item.done''
          (emit E (\<lambda>st n. EvItemDone n (reasoningID st) (reasoningIndex st)
             (ReasoningItem (reasoningID st) ''completed'' [builder_string (reasoningBuilder st)])))])"

definition closeTool :: "emitter \<Rightarrow> int \<Rightarrow> action" where
  "closeTool E k = run_all
     [ensureToolAdded E k,
      wrapped ''emit arguments done''
        (emit E (\<lambda>st n. let t = the_tool st k in EvArgsDone n (callID t) (outputIndex t) (toolName t) (builder_string (toolArguments t)))),
      wrapped ''emit tool output_item.done''
        (emit E (\<lambda>st n. let t = the_tool st k in EvItemDone n (callID t) (outputIndex t)
           (FunctionItem (callID t) ''completed'' (toolName t) (builder_string (toolArguments t))))),
      modify (update_tool k (\<lambda>t. t\<lparr>toolClosed := True\<rparr>))]"

definition close_unclosed_tool :: "emitter \<Rightarrow> int \<Rightarrow> action" where
  "close_unclosed_tool E k = when_do (\<lambda>st. openTools st k \<noteq> None \<and> \<not> toolClosed (the_tool st k)) (closeTool E k)"

definition incompleteReason :: "string \<Rightarrow> string option" where
  "incompleteReason reason =
     (if reason = ''length'' then Some ''max_output_tokens''
      else if reason = ''content_filter'' then Some ''content_filter'' else None)"

definition terminal_object :: "streamState \<Rightarrow> string \<Rightarrow> string \<Rightarrow> bool \<Rightarrow> string \<times> responseObj" where
  "terminal_object st responseID model failed =
     (if failed then
        (''response.failed'', (responseObject st responseID model ''failed'')
           \<lparr>roOutput := outputItems st, roOutputText := builder_string (textBuilder st)\<rparr>)
      else case incompleteReason (finishReason st) of
        Some reason \<Rightarrow>
          (''response.incomplete'', (responseObject st responseID model ''incomplete'')
             \<lparr>roIncomplete := Some reason, roOutput := outputItems st, roOutputText := builder_string (textBuilder st), roUsage := usage st\<rparr>)
      | None \<Rightarrow>
          (''response.completed'', (responseObject st responseID model ''completed'')
             \<lparr>roOutput := outputItems st, roOutputText := builder_string (textBuilder st), roUsage := usage st\<rparr>))"

definition reasoning_first :: "streamState \<Rightarrow> bool" where
  "reasoning_first st \<longleftrightarrow> reasoningOpen st \<and> (\<not> messageStarted st \<or> reasoningIndex st < messageIndex st)"

definition finalize :: "emitter \<Rightarrow> string \<Rightarrow> string \<Rightarrow> bool \<Rightarrow> action" where
  "finalize E responseID model failed =
     when_do (\<lambda>st. \<not> finalized st) (run_all
       [modify (\<lambda>st. st\<lparr>finalized := True\<rparr>),
        (\<lambda>m. if reasoning_first (fst m) then run_all [closeReasoningItem E, closeOpenMessage E] m
             else run_all [closeOpenMessage E, closeReasoningItem E] m),
        (\<lambda>m. run_all (map (close_unclosed_tool E) (toolOrder (fst m))) m),
        (\<lambda>m. wrapped (''emit '' @ fst (terminal_object (fst m) responseID model failed))
               (emit E (\<lambda>st n. case terminal_object st responseID model failed of (name, r) \<Rightarrow> EvLifecycle name n r)) m),
        wrapped ''emit done'' (emit E (\<lambda>st n. EvDone n))])"

subsection \<open>The loop\<close>

text \<open>The error wraps the cause; a failure to finalize is named in its text only.\<close>

definition final_error :: "string \<Rightarrow> goError \<Rightarrow> goError \<Rightarrow> goError" where
  "final_error what finalErr err = Wrapped (if finalErr \<noteq> nil_error then what @ ''; finalize stream'' else what) # err"

text \<open>The result says whether the stream was interrupted, and the error.\<close>

fun convert_loop :: "emitter \<Rightarrow> string \<Rightarrow> string \<Rightarrow> chatDelta list \<Rightarrow> sourceEnd \<Rightarrow> machine \<Rightarrow> (bool \<times> goError) \<times> machine" where
  "convert_loop E responseID model [] fin m =
     (case fin of
        SrcCompleted \<Rightarrow> (case finalize E responseID model False m of (err, m') \<Rightarrow> ((False, err), m'))
      | SrcInterrupted \<Rightarrow> (case finalize E responseID model True m of (err, m') \<Rightarrow> ((True, err), m'))
      | SrcError srcErr \<Rightarrow> (case finalize E responseID model True m of (err, m') \<Rightarrow> ((False, final_error ''read chat delta'' err srcErr), m')))"
| "convert_loop E responseID model (d # ds) fin m =
     (case applyDelta E responseID d m of
        (err, m1) \<Rightarrow>
          if err \<noteq> nil_error
          then (case finalize E responseID model True m1 of (ferr, m2) \<Rightarrow> ((False, final_error ''apply chat delta'' ferr err), m2))
          else convert_loop E responseID model ds fin m1)"

definition Convert :: "emitter \<Rightarrow> string \<Rightarrow> string \<Rightarrow> chatDelta list \<Rightarrow> sourceEnd \<Rightarrow> streamState \<Rightarrow> (bool \<times> goError) \<times> machine" where
  "Convert E responseID model ds fin st =
     (case run_all [wrapped ''emit response.created'' (lifecycle E ''response.created'' responseID model),
                    wrapped ''emit response.in_progress'' (lifecycle E ''response.in_progress'' responseID model)] (st, []) of
        (err, m) \<Rightarrow> if err \<noteq> nil_error then ((False, err), m) else convert_loop E responseID model ds fin m)"

definition StreamWithConfig :: "emitter \<Rightarrow> string \<Rightarrow> string \<Rightarrow> responseConfig \<Rightarrow> int \<Rightarrow> chatDelta list \<Rightarrow> sourceEnd \<Rightarrow> (bool \<times> goError) \<times> machine" where
  "StreamWithConfig E responseID model cfg now ds fin = Convert E responseID model ds fin (newStreamStateWithConfig cfg now)"

end
