(* ===== verification/Responses_Client.thy ===== *)
theory Responses_Client
  imports Responses_Stream
begin

text \<open>
  What a client of the Responses API may rely on, as an automaton that reads the events one by one: the
  sequence numbers count up from 0, an item is announced before its deltas and closed after them, the
  closing events carry the text the deltas add up to, and the one terminal event comes when every item
  is closed and lists them in the order of their indices. The simulation shows that the stream machine
  only emits what the automaton accepts.
\<close>

subsection \<open>The client\<close>

datatype itemKind = KMessage | KReasoning | KFunction
datatype itemStage = Announced | Streaming | TextClosed | PartClosed | ItemClosed
datatype clientPhase = AwaitCreated | AwaitProgress | Receiving | Terminated | Finished

record clientItem =
  ciKind :: itemKind
  ciId :: string
  ciStage :: itemStage
  ciText :: string
  ciName :: string

record client =
  cNext :: int
  cPhase :: clientPhase
  cItems :: "int \<rightharpoonup> clientItem"
  cCount :: nat

definition client0 :: client where
  "client0 = \<lparr>cNext = 0, cPhase = AwaitCreated, cItems = Map.empty, cCount = 0\<rparr>"

fun event_seq :: "streamEvent \<Rightarrow> int" where
  "event_seq (EvLifecycle _ n _) = n"
| "event_seq (EvItemAdded n _ _) = n"
| "event_seq (EvPartAdded n _ _) = n"
| "event_seq (EvTextDelta n _ _ _) = n"
| "event_seq (EvReasoningDelta n _ _ _) = n"
| "event_seq (EvArgsDelta n _ _ _) = n"
| "event_seq (EvTextDone n _ _ _) = n"
| "event_seq (EvPartDone n _ _ _) = n"
| "event_seq (EvReasoningDone n _ _ _) = n"
| "event_seq (EvArgsDone n _ _ _ _) = n"
| "event_seq (EvItemDone n _ _ _) = n"
| "event_seq (EvDone n) = n"

fun opened_item :: "outItem \<Rightarrow> clientItem" where
  "opened_item (MessageItem i _ _) = \<lparr>ciKind = KMessage, ciId = i, ciStage = Announced, ciText = [], ciName = []\<rparr>"
| "opened_item (ReasoningItem i _ _) = \<lparr>ciKind = KReasoning, ciId = i, ciStage = Streaming, ciText = [], ciName = []\<rparr>"
| "opened_item (FunctionItem i _ _ _) = \<lparr>ciKind = KFunction, ciId = i, ciStage = Streaming, ciText = [], ciName = []\<rparr>"

text \<open>A finished item agrees with what the client assembled.\<close>

fun item_matches :: "clientItem \<Rightarrow> outItem \<Rightarrow> bool" where
  "item_matches ci (MessageItem i status content) \<longleftrightarrow>
     ciKind ci = KMessage \<and> ciId ci = i \<and> status = ''completed'' \<and> concat content = ciText ci"
| "item_matches ci (ReasoningItem i status summary) \<longleftrightarrow>
     ciKind ci = KReasoning \<and> ciId ci = i \<and> status = ''completed'' \<and> concat summary = ciText ci"
| "item_matches ci (FunctionItem i status name arguments) \<longleftrightarrow>
     ciKind ci = KFunction \<and> ciId ci = i \<and> status = ''completed'' \<and> name = ciName ci \<and> arguments = ciText ci"

fun message_text :: "outItem \<Rightarrow> string" where
  "message_text (MessageItem _ _ content) = concat content"
| "message_text _ = []"

definition on_item :: "int \<Rightarrow> string \<Rightarrow> itemKind \<Rightarrow> itemStage \<Rightarrow> (clientItem \<Rightarrow> bool) \<Rightarrow> (clientItem \<Rightarrow> clientItem) \<Rightarrow> client \<Rightarrow> client option" where
  "on_item idx i kind stage ok f c =
     (case cItems c idx of
        None \<Rightarrow> None
      | Some ci \<Rightarrow>
          if cPhase c = Receiving \<and> ciId ci = i \<and> ciKind ci = kind \<and> ciStage ci = stage \<and> ok ci
          then Some (c\<lparr>cItems := (cItems c)(idx \<mapsto> f ci)\<rparr>) else None)"

definition closed_match :: "client \<Rightarrow> outItem list \<Rightarrow> bool" where
  "closed_match c out \<longleftrightarrow> length out = cCount c \<and>
     list_all (\<lambda>j. case cItems c (int j) of None \<Rightarrow> False
        | Some ci \<Rightarrow> ciStage ci = ItemClosed \<and> item_matches ci (out ! j)) [0..<length out]"

definition terminal_name :: "string \<Rightarrow> string" where
  "terminal_name status = ''response.'' @ status"

definition terminal_ok :: "client \<Rightarrow> string \<Rightarrow> responseObj \<Rightarrow> bool" where
  "terminal_ok c name r \<longleftrightarrow> List.member [''completed'', ''incomplete'', ''failed''] (roStatus r) \<and> name = terminal_name (roStatus r)
     \<and> closed_match c (roOutput r) \<and> roOutputText r = concat (map message_text (roOutput r))"

fun client_event :: "streamEvent \<Rightarrow> client \<Rightarrow> client option" where
  "client_event (EvLifecycle name n r) c =
     (case cPhase c of
        AwaitCreated \<Rightarrow> if name = ''response.created'' then Some (c\<lparr>cPhase := AwaitProgress\<rparr>) else None
      | AwaitProgress \<Rightarrow> if name = ''response.in_progress'' then Some (c\<lparr>cPhase := Receiving\<rparr>) else None
      | Receiving \<Rightarrow> if terminal_ok c name r then Some (c\<lparr>cPhase := Terminated\<rparr>) else None
      | _ \<Rightarrow> None)"
| "client_event (EvItemAdded n idx item) c =
     (if cPhase c = Receiving \<and> cItems c idx = None
      then Some (c\<lparr>cItems := (cItems c)(idx \<mapsto> opened_item item), cCount := cCount c + 1\<rparr>) else None)"
| "client_event (EvPartAdded n i idx) c =
     on_item idx i KMessage Announced (\<lambda>ci. True) (\<lambda>ci. ci\<lparr>ciStage := Streaming\<rparr>) c"
| "client_event (EvTextDelta n i idx d) c =
     on_item idx i KMessage Streaming (\<lambda>ci. True) (\<lambda>ci. ci\<lparr>ciText := ciText ci @ d\<rparr>) c"
| "client_event (EvReasoningDelta n i idx d) c =
     on_item idx i KReasoning Streaming (\<lambda>ci. True) (\<lambda>ci. ci\<lparr>ciText := ciText ci @ d\<rparr>) c"
| "client_event (EvArgsDelta n i idx d) c =
     on_item idx i KFunction Streaming (\<lambda>ci. True) (\<lambda>ci. ci\<lparr>ciText := ciText ci @ d\<rparr>) c"
| "client_event (EvTextDone n i idx s) c =
     on_item idx i KMessage Streaming (\<lambda>ci. ciText ci = s) (\<lambda>ci. ci\<lparr>ciStage := TextClosed\<rparr>) c"
| "client_event (EvPartDone n i idx s) c =
     on_item idx i KMessage TextClosed (\<lambda>ci. ciText ci = s) (\<lambda>ci. ci\<lparr>ciStage := PartClosed\<rparr>) c"
| "client_event (EvReasoningDone n i idx s) c =
     on_item idx i KReasoning Streaming (\<lambda>ci. ciText ci = s) (\<lambda>ci. ci\<lparr>ciStage := TextClosed\<rparr>) c"
| "client_event (EvArgsDone n i idx name s) c =
     on_item idx i KFunction Streaming (\<lambda>ci. ciText ci = s) (\<lambda>ci. ci\<lparr>ciStage := TextClosed, ciName := name\<rparr>) c"
| "client_event (EvItemDone n i idx item) c =
     (case item of
        MessageItem _ _ _ \<Rightarrow> on_item idx i KMessage PartClosed (\<lambda>ci. item_matches ci item) (\<lambda>ci. ci\<lparr>ciStage := ItemClosed\<rparr>) c
      | ReasoningItem _ _ _ \<Rightarrow> on_item idx i KReasoning TextClosed (\<lambda>ci. item_matches ci item) (\<lambda>ci. ci\<lparr>ciStage := ItemClosed\<rparr>) c
      | FunctionItem _ _ _ _ \<Rightarrow> on_item idx i KFunction TextClosed (\<lambda>ci. item_matches ci item) (\<lambda>ci. ci\<lparr>ciStage := ItemClosed\<rparr>) c)"
| "client_event (EvDone n) c = (if cPhase c = Terminated then Some (c\<lparr>cPhase := Finished\<rparr>) else None)"

definition client_step :: "streamEvent \<Rightarrow> client \<Rightarrow> client option" where
  "client_step e c = (if event_seq e = cNext c then map_option (\<lambda>c'. c'\<lparr>cNext := cNext c + 1\<rparr>) (client_event e c) else None)"

primrec client_run :: "streamEvent list \<Rightarrow> client \<Rightarrow> client option" where
  "client_run [] c = Some c"
| "client_run (e # es) c = (case client_step e c of None \<Rightarrow> None | Some c' \<Rightarrow> client_run es c')"

lemma client_run_append: "client_run (es @ es') c = (case client_run es c of None \<Rightarrow> None | Some c' \<Rightarrow> client_run es' c')"
  by (induction es arbitrary: c) (auto split: option.split)

subsection \<open>Invariants of actions\<close>

definition keeps :: "(machine \<Rightarrow> bool) \<Rightarrow> action \<Rightarrow> bool" where
  "keeps I a \<longleftrightarrow> (\<forall>m. I m \<longrightarrow> I (snd (a m)))"

named_theorems keeps_intros \<open>how the combinators of actions keep an invariant\<close>

lemma keepsI: "(\<And>m. I m \<Longrightarrow> I (snd (a m))) \<Longrightarrow> keeps I a"
  by (simp add: keeps_def)

lemma keepsD: "keeps I a \<Longrightarrow> I m \<Longrightarrow> I (snd (a m))"
  by (cases m) (simp add: keeps_def)

lemma keeps_run_list [keeps_intros]: "keeps I (run_all [])" "keeps I a \<Longrightarrow> keeps I (run_all as) \<Longrightarrow> keeps I (run_all (a # as))"
proof -
  show "keeps I (run_all [])"
    by (simp add: keeps_def)
  show "keeps I (run_all (a # as))" if "keeps I a" "keeps I (run_all as)"
  proof (rule keepsI)
    fix m
    assume "I m"
    then show "I (snd (run_all (a # as) m))"
      using keepsD [OF that(1), of m] keepsD [OF that(2), of "snd (a m)"] by (simp add: case_prod_beta)
  qed
qed

lemma keeps_run_all: "(\<And>a. a \<in> set as \<Longrightarrow> keeps I a) \<Longrightarrow> keeps I (run_all as)"
  by (induction as) (auto intro: keeps_run_list)

lemma keeps_when_do [keeps_intros]: "keeps I a \<Longrightarrow> keeps I (when_do c a)"
  by (auto simp: keeps_def when_do_def skip_def)

lemma keeps_wrapped [keeps_intros]: "keeps I a \<Longrightarrow> keeps I (wrapped msg a)"
  by (fastforce simp: keeps_def wrapped_def split: prod.split)

lemma keeps_choice: "keeps I a \<Longrightarrow> keeps I b \<Longrightarrow> keeps I (\<lambda>m. if c m then a m else b m)"
  by (simp add: keeps_def)

lemma keeps_dynamic: "(\<And>x. keeps I (a x)) \<Longrightarrow> keeps I (\<lambda>m. a (f m) m)"
  by (simp add: keeps_def)

text \<open>
  An invariant that each block of a chunk keeps is kept by the chunk, and holds where the loop starts
  to finalize.
\<close>

locale delta_invariant =
  fixes E :: emitter and I :: "machine \<Rightarrow> bool" and responseID :: string
  assumes keeps_usage: "keeps I (modify (\<lambda>st. if u \<noteq> None then st\<lparr>usage := u\<rparr> else st))"
    and keeps_finish: "keeps I (modify (\<lambda>st. if r \<noteq> [] then st\<lparr>finishReason := r\<rparr> else st))"
    and keeps_text: "keeps I (emitTextDelta E s responseID)"
    and keeps_reasoning: "s \<noteq> [] \<Longrightarrow> keeps I (emitReasoningDelta E s responseID)"
    and keeps_tool: "keeps I (applyToolCall E call)"
begin

lemma keeps_delta: "keeps I (applyDelta E responseID d)"
  unfolding applyDelta_def
proof (rule keeps_run_all)
  have gate: "keeps I (when_do (\<lambda>st. deltaReasoning d \<noteq> []) (emitReasoningDelta E (deltaReasoning d) responseID))"
    by (cases "deltaReasoning d = []") (auto simp: keeps_when_do keeps_reasoning, auto simp: keeps_def when_do_def skip_def)
  fix a
  assume "a \<in> set ([modify (\<lambda>st. if deltaUsage d \<noteq> None then st\<lparr>usage := deltaUsage d\<rparr> else st),
       when_do (\<lambda>st. deltaReasoning d \<noteq> []) (emitReasoningDelta E (deltaReasoning d) responseID),
       when_do (\<lambda>st. deltaContent d \<noteq> [] \<or> deltaFinishReason d \<noteq> [] \<and> messageStarted st \<and> textPartOpen st)
         (emitTextDelta E (deltaContent d) responseID)]
      @ map (applyToolCall E) (deltaToolCalls d)
      @ [modify (\<lambda>st. if deltaFinishReason d \<noteq> [] then st\<lparr>finishReason := deltaFinishReason d\<rparr> else st)])"
  then show "keeps I a"
    using gate keeps_usage [of "deltaUsage d"] keeps_finish [of "deltaFinishReason d"] keeps_text keeps_tool by (auto intro: keeps_when_do)
qed

lemma loop_finalizes:
  "I m \<Longrightarrow> \<exists>m' failed. I m' \<and> snd (convert_loop E responseID model ds fin m) = snd (finalize E responseID model failed m')
     \<and> (if failed then fst (convert_loop E responseID model ds fin m) \<noteq> (False, nil_error)
        else fst (convert_loop E responseID model ds fin m) = (False, fst (finalize E responseID model False m')))"
proof (induction ds arbitrary: m)
  case Nil
  show ?case
  proof (cases fin)
    case SrcCompleted
    then show ?thesis
      using Nil by (intro exI [of _ m] exI [of _ False]) (simp add: case_prod_beta)
  next
    case SrcInterrupted
    then show ?thesis
      using Nil by (intro exI [of _ m] exI [of _ True]) (simp add: case_prod_beta)
  next
    case (SrcError e)
    then show ?thesis
      using Nil by (intro exI [of _ m] exI [of _ True]) (simp add: case_prod_beta final_error_def)
  qed
next
  case (Cons d ds)
  let ?m1 = "snd (applyDelta E responseID d m)"
  have I1: "I ?m1"
    by (rule keepsD [OF keeps_delta Cons.prems])
  show ?case
  proof (cases "fst (applyDelta E responseID d m) = nil_error")
    case True
    then show ?thesis
      using Cons.IH [OF I1] by (simp only: convert_loop.simps case_prod_beta if_False not_not HOL.simp_thms)
  next
    case False
    then show ?thesis
      using I1 by (intro exI [of _ ?m1] exI [of _ True]) (simp add: case_prod_beta final_error_def)
  qed
qed

end

text \<open>An invariant that closing and emitting keep too holds after the whole stream.\<close>

locale stream_invariant = delta_invariant +
  assumes keeps_mark: "keeps I (modify (\<lambda>st. st\<lparr>finalized := True\<rparr>))"
    and keeps_close_message: "keeps I (closeOpenMessage E)"
    and keeps_close_reasoning: "keeps I (closeReasoningItem E)"
    and keeps_close_tool: "keeps I (close_unclosed_tool E k)"
    and keeps_emit: "(\<And>st n. event_seq (mk st n) = n) \<Longrightarrow> keeps I (emit E mk)"
begin

lemma keeps_finalize: "keeps I (finalize E responseID model failed)"
proof -
  have orders: "keeps I (\<lambda>m. if reasoning_first (fst m) then run_all [closeReasoningItem E, closeOpenMessage E] m
             else run_all [closeOpenMessage E, closeReasoningItem E] m)"
    by (intro keeps_choice keeps_run_list keeps_close_message keeps_close_reasoning)
  have tools: "keeps I (\<lambda>m. run_all (map (close_unclosed_tool E) (toolOrder (fst m))) m)"
    by (rule keeps_dynamic, rule keeps_run_all) (auto simp: keeps_close_tool)
  have emits: "keeps I (\<lambda>m. wrapped (''emit '' @ fst (terminal_object (fst m) responseID model failed))
               (emit E (\<lambda>st n. case terminal_object st responseID model failed of (name, r) \<Rightarrow> EvLifecycle name n r)) m)"
    by (rule keeps_dynamic, rule keeps_wrapped, rule keeps_emit) (simp add: case_prod_beta)
  show ?thesis
    unfolding finalize_def by (intro keeps_when_do keeps_run_list keeps_mark keeps_wrapped keeps_emit orders tools emits) simp
qed

lemma keeps_convert:
  assumes "I (st, [])"
  shows "I (snd (Convert E responseID model ds fin st))"
proof -
  let ?start = "run_all [wrapped ''emit response.created'' (lifecycle E ''response.created'' responseID model),
                    wrapped ''emit response.in_progress'' (lifecycle E ''response.in_progress'' responseID model)]"
  have "keeps I ?start"
    unfolding lifecycle_def by (intro keeps_run_list keeps_wrapped keeps_emit) simp_all
  then have start: "I (snd (?start (st, [])))"
    using assms by (rule keepsD)
  have "I (snd (convert_loop E responseID model ds fin (snd (?start (st, [])))))"
    using loop_finalizes [OF start, of model ds fin] keepsD [OF keeps_finalize] by auto
  then show ?thesis
    using start unfolding Convert_def case_prod_beta by (simp del: run_all.simps)
qed

end

subsection \<open>Sequence numbers\<close>

definition numbered :: "machine \<Rightarrow> bool" where
  "numbered m \<longleftrightarrow> map event_seq (snd m) = map int [0..<length (snd m)] \<and> sequence (fst m) = int (length (snd m))"

lemma numbered_emit [keeps_intros]: "(\<And>st n. event_seq (mk st n) = n) \<Longrightarrow> keeps numbered (emit E mk)"
  by (auto simp: keeps_def numbered_def emit_def Let_def)

lemma numbered_modify [keeps_intros]: "(\<And>st. sequence (f st) = sequence st) \<Longrightarrow> keeps numbered (modify f)"
  by (simp add: keeps_def numbered_def modify_def)

lemma numbered_writes [keeps_intros]:
  "keeps numbered (write_text s)" "keeps numbered (write_reasoning s)" "keeps numbered (write_arguments k s)"
  by (simp_all add: keeps_def numbered_def write_text_def write_reasoning_def write_arguments_def update_tool_def case_prod_beta)

lemma numbered_ensureToolAdded: "keeps numbered (ensureToolAdded E k)"
  unfolding ensureToolAdded_def by (intro keeps_intros) (simp_all add: update_tool_def)

interpretation numbered_deltas: delta_invariant E numbered responseID for E responseID
proof
  show "keeps numbered (modify (\<lambda>st. if u \<noteq> None then st\<lparr>usage := u\<rparr> else st))" for u
    by (rule numbered_modify) simp
  show "keeps numbered (modify (\<lambda>st. if r \<noteq> [] then st\<lparr>finishReason := r\<rparr> else st))" for r
    by (rule numbered_modify) simp
  show "keeps numbered (emitTextDelta E s responseID)" for s
    unfolding emitTextDelta_def openMessage_def by (intro keeps_intros) simp_all
  show "keeps numbered (emitReasoningDelta E s responseID)" for s
    unfolding emitReasoningDelta_def by (intro keeps_intros) simp_all
  show "keeps numbered (applyToolCall E call)" for call
    unfolding applyToolCall_def Let_def by (intro keeps_intros numbered_ensureToolAdded) (simp_all add: open_tool_def update_tool_def)
qed

interpretation numbering: stream_invariant E numbered responseID for E responseID
proof
  show "keeps numbered (modify (\<lambda>st. st\<lparr>finalized := True\<rparr>))"
    by (rule numbered_modify) simp
  show "keeps numbered (closeOpenMessage E)" "keeps numbered (closeReasoningItem E)" "keeps numbered (close_unclosed_tool E k)" for k
    unfolding closeOpenMessage_def closeReasoningItem_def close_unclosed_tool_def closeTool_def Let_def
    by (intro keeps_intros numbered_ensureToolAdded; simp add: update_tool_def)+
qed (rule numbered_emit)

subsection \<open>Budgets\<close>

definition builder_ok :: "int \<Rightarrow> stringsBuilder \<Rightarrow> bool" where
  "builder_ok bound b \<longleftrightarrow> limit b = bound \<and> total b = int (length (builder_string b)) \<and> total b \<le> bound"

definition in_budget :: "machine \<Rightarrow> bool" where
  "in_budget m \<longleftrightarrow> builder_ok maxStreamTextBytes (textBuilder (fst m)) \<and> builder_ok maxStreamTextBytes (reasoningBuilder (fst m))
     \<and> (\<forall>t \<in> ran (openTools (fst m)). builder_ok maxToolArgumentsBytes (toolArguments t))"

lemma builder_ok_new: "0 \<le> bound \<Longrightarrow> builder_ok bound (newBoundedBuilder bound err)"
  by (simp add: builder_ok_def newBoundedBuilder_def builder_string_def)

lemma builder_ok_write: "builder_ok bound b \<Longrightarrow> builder_ok bound (snd (builder_write s b))"
  by (auto simp: builder_ok_def builder_write_def builder_string_def)

lemma in_budget_emit [keeps_intros]: "keeps in_budget (emit E mk)"
  by (simp add: keeps_def in_budget_def emit_def Let_def)

lemma in_budget_modify [keeps_intros]:
  "(\<And>st. textBuilder (f st) = textBuilder st \<and> reasoningBuilder (f st) = reasoningBuilder st \<and> openTools (f st) = openTools st) \<Longrightarrow>
   keeps in_budget (modify f)"
  by (simp add: keeps_def in_budget_def modify_def)

lemma ran_update_tool: "t \<in> ran (openTools (update_tool k f st)) \<Longrightarrow> \<exists>t' \<in> ran (openTools st). t = t' \<or> t = f t'"
  by (fastforce simp: update_tool_def ran_def split: if_splits)

lemma in_budget_update_tool:
  "in_budget (st, tr) \<Longrightarrow> (\<And>t. builder_ok maxToolArgumentsBytes (toolArguments t) \<Longrightarrow> builder_ok maxToolArgumentsBytes (toolArguments (f t)))
   \<Longrightarrow> in_budget (update_tool k f st, tr)"
  using ran_update_tool [of _ k f st] by (fastforce simp: in_budget_def update_tool_def)

lemma in_budget_update [keeps_intros]: "(\<And>t. toolArguments (f t) = toolArguments t) \<Longrightarrow> keeps in_budget (modify (update_tool k f))"
  by (auto simp: keeps_def modify_def intro!: in_budget_update_tool)

lemma the_tool_ok: "in_budget (st, tr) \<Longrightarrow> builder_ok maxToolArgumentsBytes (toolArguments (the_tool st k))"
  by (auto simp: in_budget_def the_tool_def maxToolArgumentsBytes_def ran_def intro: builder_ok_new split: option.split)

lemma in_budget_writes [keeps_intros]:
  "keeps in_budget (write_text s)" "keeps in_budget (write_reasoning s)" "keeps in_budget (write_arguments k s)"
proof -
  show "keeps in_budget (write_text s)" "keeps in_budget (write_reasoning s)"
    by (simp_all add: keeps_def in_budget_def write_text_def write_reasoning_def case_prod_beta builder_ok_write)
  show "keeps in_budget (write_arguments k s)"
  proof (rule keepsI)
    fix m
    assume I: "in_budget m"
    obtain st tr where m: "m = (st, tr)"
      by (cases m)
    have "in_budget (update_tool k (\<lambda>t. t\<lparr>toolArguments := snd (builder_write s (toolArguments (the_tool st k)))\<rparr>) st, tr)"
      using I by (intro in_budget_update_tool) (auto simp: m intro: builder_ok_write the_tool_ok)
    then show "in_budget (snd (write_arguments k s m))"
      by (simp add: write_arguments_def m case_prod_beta)
  qed
qed

lemma in_budget_ensureToolAdded [keeps_intros]: "keeps in_budget (ensureToolAdded E k)"
  unfolding ensureToolAdded_def by (intro keeps_when_do keeps_run_list keeps_wrapped in_budget_emit in_budget_update) simp_all

lemma in_budget_open_tool: "keeps in_budget (modify (open_tool call))"
  by (auto simp: keeps_def modify_def open_tool_def in_budget_def ran_def maxToolArgumentsBytes_def builder_ok_new)

lemmas in_budget_intros = keeps_when_do keeps_run_list keeps_wrapped in_budget_emit in_budget_writes in_budget_ensureToolAdded

interpretation budget_deltas: delta_invariant E in_budget responseID for E responseID
proof
  show "keeps in_budget (modify (\<lambda>st. if u \<noteq> None then st\<lparr>usage := u\<rparr> else st))" for u
    by (rule in_budget_modify) simp
  show "keeps in_budget (modify (\<lambda>st. if r \<noteq> [] then st\<lparr>finishReason := r\<rparr> else st))" for r
    by (rule in_budget_modify) simp
  show "keeps in_budget (emitTextDelta E s responseID)" for s
    unfolding emitTextDelta_def openMessage_def by (intro in_budget_intros in_budget_modify) simp_all
  show "keeps in_budget (emitReasoningDelta E s responseID)" for s
    unfolding emitReasoningDelta_def by (intro in_budget_intros in_budget_modify) simp_all
  show "keeps in_budget (applyToolCall E call)" for call
    unfolding applyToolCall_def Let_def
    by (intro in_budget_intros in_budget_open_tool in_budget_update) (simp add: correct_tool_def)
qed

interpretation budget: stream_invariant E in_budget responseID for E responseID
proof
  show "keeps in_budget (modify (\<lambda>st. st\<lparr>finalized := True\<rparr>))"
    by (rule in_budget_modify) simp
  show "keeps in_budget (closeOpenMessage E)" "keeps in_budget (closeReasoningItem E)"
    unfolding closeOpenMessage_def closeReasoningItem_def by (intro in_budget_intros in_budget_modify; simp)+
  show "keeps in_budget (close_unclosed_tool E k)" for k
    unfolding close_unclosed_tool_def closeTool_def by (intro in_budget_intros in_budget_update) simp
qed (rule in_budget_emit)

end
