(* ===== verification/Responses_Simulation.thy ===== *)
theory Responses_Simulation
  imports Responses_Client
begin

text \<open>
  The simulation between the stream machine and the client: every item has an owner in the machine's
  state, its slot is the output index the owner reserved, its view is what the client has assembled
  of it. With an emitter that takes every event the client accepts all the machine emits.
\<close>

subsection \<open>Slots and views\<close>

datatype owner = OMessage | OReasoning | OTool int

fun slot :: "streamState \<Rightarrow> owner \<Rightarrow> int option" where
  "slot st OMessage = (if messageStarted st then Some (messageIndex st) else None)"
| "slot st OReasoning = (if reasoningID st \<noteq> [] then Some (reasoningIndex st) else None)"
| "slot st (OTool k) = map_option outputIndex (openTools st k)"

definition tool_view :: "toolItem \<Rightarrow> clientItem option" where
  "tool_view t = (if toolAdded t
     then Some \<lparr>ciKind = KFunction, ciId = callID t, ciStage = if toolClosed t then ItemClosed else Streaming,
                ciText = builder_string (toolArguments t), ciName = if toolClosed t then toolName t else []\<rparr>
     else None)"

fun view :: "streamState \<Rightarrow> owner \<Rightarrow> clientItem option" where
  "view st OMessage = (if messageStarted st
     then Some \<lparr>ciKind = KMessage, ciId = messageID st, ciStage = if textPartOpen st then Streaming else ItemClosed,
                ciText = builder_string (textBuilder st), ciName = []\<rparr>
     else None)"
| "view st OReasoning = (if reasoningID st \<noteq> []
     then Some \<lparr>ciKind = KReasoning, ciId = reasoningID st, ciStage = if reasoningOpen st then Streaming else ItemClosed,
                ciText = builder_string (reasoningBuilder st), ciName = []\<rparr>
     else None)"
| "view st (OTool k) = Option.bind (openTools st k) tool_view"

text \<open>The slots are the indices below \<open>n\<close>, each with one owner.\<close>

definition layout :: "(owner \<Rightarrow> int option) \<Rightarrow> int \<Rightarrow> bool" where
  "layout sl n \<longleftrightarrow> 0 \<le> n \<and> (\<forall>p q i. sl p = Some i \<longrightarrow> sl q = Some i \<longrightarrow> p = q) \<and> ran sl = {0..<n}"

definition shows_views :: "(owner \<Rightarrow> int option) \<Rightarrow> (owner \<Rightarrow> clientItem option) \<Rightarrow> (int \<rightharpoonup> clientItem) \<Rightarrow> bool" where
  "shows_views sl vw items \<longleftrightarrow> (\<forall>p i. sl p = Some i \<longrightarrow> items i = vw p) \<and> dom items \<subseteq> ran sl"

lemma layout_new: "layout sl n \<Longrightarrow> sl p = None \<Longrightarrow> layout (sl(p \<mapsto> n)) (n + 1)"
proof -
  assume L: "layout sl n" and fresh: "sl p = None"
  have low: "i < n" if "sl q = Some i" for q i
    using L that ranI [of sl q i] by (auto simp: layout_def)
  have "ran (sl(p \<mapsto> n)) = insert n {0..<n}"
    using L fresh by (simp add: layout_def)
  also have "\<dots> = {0..<n + 1}"
    using L by (auto simp: layout_def)
  finally show ?thesis
    using L low by (auto simp: layout_def split: if_splits dest: low)
qed

lemma layout_fresh: "layout sl n \<Longrightarrow> shows_views sl vw items \<Longrightarrow> items n = None"
  by (auto simp: layout_def shows_views_def)

lemma shows_new: "layout sl n \<Longrightarrow> shows_views sl vw items \<Longrightarrow> sl p = None \<Longrightarrow> shows_views (sl(p \<mapsto> n)) (vw(p := v)) (items(n := v))"
proof -
  assume L: "layout sl n" and S: "shows_views sl vw items" and fresh: "sl p = None"
  have "i \<noteq> n" if "sl q = Some i" for q i
    using L that ranI [of sl q i] by (auto simp: layout_def)
  moreover have "dom (items(n := v)) \<subseteq> insert n (dom items)"
    by auto
  ultimately show ?thesis
    using S fresh by (auto simp: shows_views_def ran_map_upd)
qed

lemma shows_update: "layout sl n \<Longrightarrow> shows_views sl vw items \<Longrightarrow> sl p = Some i \<Longrightarrow> shows_views sl (vw(p := v)) (items(i := v))"
  by (auto simp: layout_def shows_views_def dom_def ran_def)

subsection \<open>The relation\<close>

definition tidy :: "streamState \<Rightarrow> bool" where
  "tidy st \<longleftrightarrow> set (toolOrder st) = dom (openTools st)
     \<and> builderErr (textBuilder st) \<noteq> nil_error \<and> builderErr (reasoningBuilder st) \<noteq> nil_error
     \<and> (\<forall>t \<in> ran (openTools st). builderErr (toolArguments t) \<noteq> nil_error)
     \<and> (\<not> messageStarted st \<longrightarrow> builder_string (textBuilder st) = [])
     \<and> (reasoningID st = [] \<longrightarrow> builder_string (reasoningBuilder st) = [])
     \<and> (\<forall>t \<in> ran (openTools st). (toolAdded t \<longrightarrow> toolId t \<noteq> []) \<and> (\<not> toolAdded t \<longrightarrow> builder_string (toolArguments t) = [] \<and> \<not> toolClosed t))"

definition simulates :: "streamState \<Rightarrow> client \<Rightarrow> bool" where
  "simulates st c \<longleftrightarrow> cNext c = sequence st \<and> cPhase c = Receiving \<and> cCount c = card (dom (cItems c))
     \<and> layout (slot st) (itemIndex st) \<and> shows_views (slot st) (view st) (cItems c) \<and> tidy st"

definition streaming :: "streamState \<Rightarrow> bool" where
  "streaming st \<longleftrightarrow> \<not> finalized st \<and> (messageStarted st \<longrightarrow> textPartOpen st) \<and> (reasoningID st \<noteq> [] \<longleftrightarrow> reasoningOpen st)
     \<and> (\<forall>t \<in> ran (openTools st). \<not> toolClosed t)"

lemma simulates_view: "simulates st c \<Longrightarrow> slot st p = Some i \<Longrightarrow> cItems c i = view st p"
  by (simp add: simulates_def shows_views_def)

lemma simulates_finite: "simulates st c \<Longrightarrow> finite (dom (cItems c))"
  using finite_subset [of "dom (cItems c)" "{0..<itemIndex st}"] by (auto simp: simulates_def layout_def shows_views_def)

text \<open>Events that change the view of an item the client has.\<close>

lemma simulates_updates:
  assumes S: "simulates st c" and p: "slot st p = Some i" "view st p = Some ci"
    and run: "client_run es c = Some (c\<lparr>cItems := (cItems c)(i \<mapsto> ci'), cNext := cNext c + int (length es)\<rparr>)"
    and st': "slot st' = slot st" "view st' = (view st)(p \<mapsto> ci')" "itemIndex st' = itemIndex st" "sequence st' = sequence st + int (length es)" "tidy st'"
  shows "\<exists>c'. client_run es c = Some c' \<and> simulates st' c'"
proof -
  let ?c = "c\<lparr>cItems := (cItems c)(i \<mapsto> ci'), cNext := cNext c + int (length es)\<rparr>"
  have "cItems c i = Some ci"
    using simulates_view [OF S p(1)] p(2) by simp
  then have "dom (cItems ?c) = dom (cItems c)"
    by auto
  then have "simulates st' ?c"
    using S st' shows_update [where n = "itemIndex st" and p = p and i = i and sl = "slot st" and vw = "view st" and items = "cItems c" and v = "Some ci'"] p(1)
    by (simp add: simulates_def)
  then show ?thesis
    using run by blast
qed

lemma simulates_update:
  assumes S: "simulates st c" and p: "slot st p = Some i" "view st p = Some ci"
    and ev: "event_seq e = sequence st" "client_event e c = Some (c\<lparr>cItems := (cItems c)(i \<mapsto> ci')\<rparr>)"
    and st': "slot st' = slot st" "view st' = (view st)(p \<mapsto> ci')" "itemIndex st' = itemIndex st" "sequence st' = sequence st + 1" "tidy st'"
  shows "\<exists>c'. client_step e c = Some c' \<and> simulates st' c'"
  using simulates_updates [OF S p, of "[e]" ci' st'] assms by (auto simp: client_step_def simulates_def)

text \<open>One event that announces the item of a slot.\<close>

lemma simulates_announce:
  assumes S: "simulates st c" and fresh: "cItems c i = None"
    and st': "layout (slot st') (itemIndex st')" "shows_views (slot st') (view st') ((cItems c)(i \<mapsto> opened_item item))"
      "sequence st' = sequence st + 1" "tidy st'"
  shows "\<exists>c'. client_step (EvItemAdded (sequence st) i item) c = Some c' \<and> simulates st' c'"
proof -
  let ?c = "c\<lparr>cItems := (cItems c)(i \<mapsto> opened_item item), cCount := cCount c + 1, cNext := cNext c + 1\<rparr>"
  have "dom (cItems ?c) = insert i (dom (cItems c))"
    by auto
  then have "card (dom (cItems ?c)) = cCount c + 1"
    using S fresh simulates_finite [OF S] by (simp add: simulates_def domIff)
  then have "simulates st' ?c"
    using S st' by (simp add: simulates_def)
  moreover have "client_step (EvItemAdded (sequence st) i item) c = Some ?c"
    using S fresh by (simp add: client_step_def simulates_def)
  ultimately show ?thesis
    by blast
qed

subsection \<open>An emitter that takes every event\<close>

definition quiet :: emitter where "quiet tr = nil_error"

definition accepted :: "machine \<Rightarrow> bool" where
  "accepted m \<longleftrightarrow> (\<exists>c. client_run (snd m) client0 = Some c \<and> simulates (fst m) c)"

definition accepting :: "machine \<Rightarrow> bool" where
  "accepting m \<longleftrightarrow> accepted m \<and> streaming (fst m)"

lemma quiet_emit [simp]: "emit quiet mk (st, tr) = (nil_error, st\<lparr>sequence := sequence st + 1\<rparr>, tr @ [mk st (sequence st)])"
  by (simp add: emit_def quiet_def Let_def)

lemma quiet_wrapped [simp]: "wrapped msg (emit quiet mk) (st, tr) = (nil_error, st\<lparr>sequence := sequence st + 1\<rparr>, tr @ [mk st (sequence st)])"
  by (simp add: wrapped_def)

lemma modify_pair [simp]: "modify f (st, tr) = (nil_error, f st, tr)"
  by (simp add: modify_def)

lemma run_all_one: "run_all [a] m = a m"
  by (simp split: prod.split)

lemma run_all_ok: "a m = (nil_error, m') \<Longrightarrow> run_all (a # as) m = run_all as m'"
  by simp

lemma run_all_modify: "run_all (modify f # as) (st, tr) = run_all as (f st, tr)"
  by simp

definition is_streaming :: "machine \<Rightarrow> bool" where "is_streaming m \<longleftrightarrow> streaming (fst m)"

lemma is_streaming_emit: "keeps is_streaming (emit E mk)"
  by (simp add: keeps_def is_streaming_def emit_def Let_def streaming_def)

lemma is_streaming_modify: "(\<And>st. streaming st \<Longrightarrow> streaming (f st)) \<Longrightarrow> keeps is_streaming (modify f)"
  by (simp add: keeps_def is_streaming_def modify_def)

lemma streaming_update_tool: "streaming st \<Longrightarrow> (\<And>t. toolClosed (f t) = toolClosed t) \<Longrightarrow> streaming (update_tool k f st)"
  using ran_update_tool [of _ k f st] by (fastforce simp: streaming_def update_tool_def)

lemma is_streaming_writes:
  "keeps is_streaming (write_text s)" "keeps is_streaming (write_reasoning s)" "keeps is_streaming (write_arguments k s)"
proof -
  show "keeps is_streaming (write_text s)" "keeps is_streaming (write_reasoning s)"
    by (simp_all add: keeps_def is_streaming_def write_text_def write_reasoning_def case_prod_beta streaming_def)
  show "keeps is_streaming (write_arguments k s)"
    by (simp add: keeps_def is_streaming_def write_arguments_def case_prod_beta streaming_update_tool)
qed

lemma accepted_event:
  "client_run tr client0 = Some c \<Longrightarrow> \<exists>c'. client_step e c = Some c' \<and> simulates st' c' \<Longrightarrow> accepted (st', tr @ [e])"
  by (auto simp: accepted_def client_run_append)

lemma accepted_silent:
  assumes "accepted (st, tr)" "slot st' = slot st" "view st' = view st" "itemIndex st' = itemIndex st" "sequence st' = sequence st" "tidy st'"
  shows "accepted (st', tr)"
  using assms by (auto simp: accepted_def simulates_def)

lemma owner_fun_eqI: "f OMessage = g OMessage \<Longrightarrow> f OReasoning = g OReasoning \<Longrightarrow> (\<And>k. f (OTool k) = g (OTool k)) \<Longrightarrow> f = g"
  by (rule ext, case_tac x) auto

subsection \<open>Text\<close>

lemma accept_openMessage:
  assumes A: "accepted (st, tr)" and closed: "\<not> messageStarted st"
  shows "accepted (snd (openMessage quiet responseID (st, tr)))"
proof -
  obtain c where c: "client_run tr client0 = Some c" "simulates st c"
    using A by (auto simp: accepted_def)
  then have empty: "builder_string (textBuilder st) = []"
    using closed by (simp add: simulates_def tidy_def)
  let ?i = "itemIndex st" and ?id = "messageItemID responseID" and ?n = "sequence st"
  let ?st = "st\<lparr>messageIndex := ?i, messageID := ?id, sequence := ?n + 2, itemIndex := ?i + 1, messageStarted := True, textPartOpen := True\<rparr>"
  let ?item = "MessageItem ?id ''in_progress'' []"
  let ?e1 = "EvItemAdded ?n ?i ?item" and ?e2 = "EvPartAdded (?n + 1) ?id ?i"
  have run: "snd (openMessage quiet responseID (st, tr)) = (?st, (tr @ [?e1]) @ [?e2])"
    by (simp add: openMessage_def)
  have fresh: "cItems c ?i = None"
    using c(2) layout_fresh [of "slot st" ?i] by (auto simp: simulates_def)
  let ?c1 = "c\<lparr>cItems := (cItems c)(?i \<mapsto> opened_item ?item), cCount := cCount c + 1, cNext := cNext c + 1\<rparr>"
  let ?ci = "(opened_item ?item)\<lparr>ciStage := Streaming\<rparr>"
  let ?c2 = "?c1\<lparr>cItems := (cItems c)(?i \<mapsto> ?ci), cNext := cNext c + 2\<rparr>"
  have steps: "client_step ?e1 c = Some ?c1" "client_step ?e2 ?c1 = Some ?c2"
    using c(2) fresh by (simp_all add: client_step_def simulates_def on_item_def)
  have sl: "slot ?st = (slot st)(OMessage \<mapsto> ?i)" and vw: "view ?st = (view st)(OMessage \<mapsto> ?ci)"
    using empty by (auto intro!: owner_fun_eqI)
  have "card (dom (cItems ?c2)) = cCount c + 1"
    using c(2) fresh simulates_finite [OF c(2)] by (simp add: simulates_def domIff)
  then have "simulates ?st ?c2"
    using c(2) closed layout_new [of "slot st" ?i OMessage] shows_new [of "slot st" ?i "view st" "cItems c" OMessage "Some ?ci"]
    unfolding simulates_def sl vw by (simp add: tidy_def)
  then show ?thesis
    using c(1) steps unfolding run by (simp add: accepted_def client_run_append)
qed

lemma builder_write_cases:
  assumes "builderErr b \<noteq> nil_error"
  obtains (full) err where "builder_write s b = (err, b)" "err \<noteq> nil_error"
  | (fits) b' where "builder_write s b = (nil_error, b')" "builder_string b' = builder_string b @ s" "builderErr b' = builderErr b"
proof (cases "total b + int (length s) > limit b")
  case True
  then show ?thesis
    using full [of "builderErr b"] assms by (simp add: builder_write_def)
next
  case False
  then show ?thesis
    using fits by (simp add: builder_write_def builder_string_def)
qed

lemma accept_text_write:
  assumes A: "accepted (st, tr)" and opened: "messageStarted st" "textPartOpen st"
  shows "accepted (snd (run_all [wrapped ''accumulate assistant text'' (write_text s),
           emit quiet (\<lambda>st n. EvTextDelta n (messageID st) (messageIndex st) s)] (st, tr)))"
proof -
  obtain c where c: "client_run tr client0 = Some c" "simulates st c"
    using A by (auto simp: accepted_def)
  then have "builderErr (textBuilder st) \<noteq> nil_error"
    by (simp add: simulates_def tidy_def)
  then show ?thesis
  proof (cases rule: builder_write_cases [where s = s])
    case (full err)
    then show ?thesis
      using A by (simp add: wrapped_def write_text_def)
  next
    case (fits b)
    let ?st = "st\<lparr>textBuilder := b, sequence := sequence st + 1\<rparr>"
    let ?e = "EvTextDelta (sequence st) (messageID st) (messageIndex st) s"
    let ?ci = "\<lparr>ciKind = KMessage, ciId = messageID st, ciStage = Streaming, ciText = builder_string (textBuilder st) @ s, ciName = []\<rparr>"
    have item: "cItems c (messageIndex st) = view st OMessage"
      using simulates_view [OF c(2), of OMessage] opened by simp
    have "\<exists>c'. client_step ?e c = Some c' \<and> simulates ?st c'"
    proof (rule simulates_update [OF c(2), of OMessage "messageIndex st"])
      show "client_event ?e c = Some (c\<lparr>cItems := (cItems c)(messageIndex st \<mapsto> ?ci)\<rparr>)"
        using c(2) item opened by (simp add: on_item_def simulates_def)
      show "slot ?st = slot st" "view ?st = (view st)(OMessage \<mapsto> ?ci)"
        using opened fits by (auto intro!: owner_fun_eqI)
      show "tidy ?st"
        using c(2) fits opened by (simp add: simulates_def tidy_def)
    qed (use opened in auto)
    then show ?thesis
      using accepted_event [OF c(1)] fits by (simp add: wrapped_def write_text_def)
  qed
qed

lemma openMessage_opens: "messageStarted (fst (snd (openMessage quiet r (st, tr))))" "textPartOpen (fst (snd (openMessage quiet r (st, tr))))"
  "fst (openMessage quiet r (st, tr)) = nil_error"
  by (simp_all add: openMessage_def)

lemma keeps_streaming_text: "keeps is_streaming (emitTextDelta quiet s responseID)"
  unfolding emitTextDelta_def openMessage_def
  by (intro keeps_when_do keeps_run_list keeps_wrapped is_streaming_emit is_streaming_modify is_streaming_writes) (simp_all add: streaming_def)

lemma accepting_text: "keeps accepting (emitTextDelta quiet s responseID)"
proof (rule keepsI)
  fix m :: machine
  obtain st tr where m: "m = (st, tr)"
    by (cases m)
  let ?open = "when_do (\<lambda>st. \<not> messageStarted st) (openMessage quiet responseID)"
  assume "accepting m"
  then have A: "accepted (st, tr)" "streaming st"
    by (simp_all add: accepting_def m)
  obtain st1 tr1 where o: "?open (st, tr) = (nil_error, st1, tr1)" "accepted (st1, tr1)" "messageStarted st1" "textPartOpen st1"
  proof (cases "messageStarted st")
    case True
    then show ?thesis
      using that [of st tr] A by (simp add: when_do_def skip_def streaming_def)
  next
    case False
    then show ?thesis
      using that accept_openMessage [OF A(1) False, of responseID] openMessage_opens [of responseID st tr]
      by (cases "openMessage quiet responseID (st, tr)") (auto simp: when_do_def)
  qed
  have "accepted (snd (emitTextDelta quiet s responseID (st, tr)))"
    using o accept_text_write [OF o(2-4), of s] by (simp add: emitTextDelta_def when_do_def skip_def run_all_one case_prod_beta del: quiet_emit)
  then show "accepting (snd (emitTextDelta quiet s responseID m))"
    using keepsD [OF keeps_streaming_text, of m] A(2) by (simp add: accepting_def m is_streaming_def)
qed

subsection \<open>Reasoning\<close>

definition open_reasoning :: "string \<Rightarrow> action" where
  "open_reasoning responseID = run_all
     [modify (\<lambda>st. st\<lparr>reasoningOpen := True, reasoningIndex := itemIndex st, reasoningID := reasoningItemID responseID\<rparr>),
      wrapped ''emit reasoning output_item.added''
        (emit quiet (\<lambda>st n. EvItemAdded n (reasoningIndex st) (ReasoningItem (reasoningID st) ''in_progress'' []))),
      modify (\<lambda>st. st\<lparr>itemIndex := itemIndex st + 1\<rparr>)]"

lemma accept_open_reasoning:
  assumes A: "accepted (st, tr)" and closed: "reasoningID st = []"
  shows "accepted (snd (open_reasoning responseID (st, tr)))"
proof -
  obtain c where c: "client_run tr client0 = Some c" "simulates st c"
    using A by (auto simp: accepted_def)
  then have empty: "builder_string (reasoningBuilder st) = []"
    using closed by (simp add: simulates_def tidy_def)
  let ?i = "itemIndex st" and ?id = "reasoningItemID responseID"
  let ?st = "st\<lparr>reasoningOpen := True, reasoningIndex := ?i, reasoningID := ?id, sequence := sequence st + 1, itemIndex := ?i + 1\<rparr>"
  let ?item = "ReasoningItem ?id ''in_progress'' []"
  have run: "snd (open_reasoning responseID (st, tr)) = (?st, tr @ [EvItemAdded (sequence st) ?i ?item])"
    by (simp add: open_reasoning_def)
  have sl: "slot ?st = (slot st)(OReasoning \<mapsto> ?i)" and vw: "view ?st = (view st)(OReasoning \<mapsto> opened_item ?item)"
    using empty by (auto intro!: owner_fun_eqI simp: reasoningItemID_def)
  have L: "layout (slot st) ?i" and V: "shows_views (slot st) (view st) (cItems c)"
    using c(2) by (simp_all add: simulates_def)
  have "\<exists>c'. client_step (EvItemAdded (sequence st) ?i ?item) c = Some c' \<and> simulates ?st c'"
  proof (rule simulates_announce [OF c(2)])
    show "cItems c ?i = None"
      by (rule layout_fresh [OF L V])
    show "layout (slot ?st) (itemIndex ?st)"
      unfolding sl using layout_new [OF L, of OReasoning] closed by simp
    show "shows_views (slot ?st) (view ?st) ((cItems c)(?i \<mapsto> opened_item ?item))"
      unfolding sl vw using shows_new [OF L V, of OReasoning "Some (opened_item ?item)"] closed by simp
    show "tidy ?st"
      using c(2) empty by (simp add: simulates_def tidy_def)
  qed simp
  then show ?thesis
    unfolding run by (rule accepted_event [OF c(1)])
qed

lemma accept_reasoning_write:
  assumes A: "accepted (st, tr)" and opened: "reasoningID st \<noteq> []" "reasoningOpen st"
  shows "accepted (snd (run_all [wrapped ''accumulate reasoning summary'' (write_reasoning s),
           emit quiet (\<lambda>st n. EvReasoningDelta n (reasoningID st) (reasoningIndex st) s)] (st, tr)))"
proof -
  obtain c where c: "client_run tr client0 = Some c" "simulates st c"
    using A by (auto simp: accepted_def)
  then have "builderErr (reasoningBuilder st) \<noteq> nil_error"
    by (simp add: simulates_def tidy_def)
  then show ?thesis
  proof (cases rule: builder_write_cases [where s = s])
    case (full err)
    then show ?thesis
      using A by (simp add: wrapped_def write_reasoning_def)
  next
    case (fits b)
    let ?st = "st\<lparr>reasoningBuilder := b, sequence := sequence st + 1\<rparr>"
    let ?e = "EvReasoningDelta (sequence st) (reasoningID st) (reasoningIndex st) s"
    let ?ci = "\<lparr>ciKind = KReasoning, ciId = reasoningID st, ciStage = Streaming, ciText = builder_string (reasoningBuilder st) @ s, ciName = []\<rparr>"
    have item: "cItems c (reasoningIndex st) = view st OReasoning"
      using simulates_view [OF c(2), of OReasoning] opened by simp
    have "\<exists>c'. client_step ?e c = Some c' \<and> simulates ?st c'"
    proof (rule simulates_update [OF c(2), of OReasoning "reasoningIndex st"])
      show "client_event ?e c = Some (c\<lparr>cItems := (cItems c)(reasoningIndex st \<mapsto> ?ci)\<rparr>)"
        using c(2) item opened by (simp add: on_item_def simulates_def)
      show "slot ?st = slot st" "view ?st = (view st)(OReasoning \<mapsto> ?ci)"
        using opened fits by (auto intro!: owner_fun_eqI)
      show "tidy ?st"
        using c(2) fits opened by (simp add: simulates_def tidy_def)
    qed (use opened in auto)
    then show ?thesis
      using accepted_event [OF c(1)] fits by (simp add: wrapped_def write_reasoning_def)
  qed
qed

lemma keeps_streaming_reasoning: "keeps is_streaming (emitReasoningDelta quiet s responseID)"
  unfolding emitReasoningDelta_def
proof (intro keeps_when_do keeps_run_list keeps_wrapped is_streaming_emit is_streaming_writes is_streaming_modify)
qed (simp_all add: streaming_def reasoningItemID_def)

lemma accepting_reasoning: "keeps accepting (emitReasoningDelta quiet s responseID)"
proof (rule keepsI)
  fix m :: machine
  obtain st tr where m: "m = (st, tr)"
    by (cases m)
  let ?open = "when_do (\<lambda>st. \<not> reasoningOpen st) (open_reasoning responseID)"
  assume "accepting m"
  then have A: "accepted (st, tr)" "streaming st"
    by (simp_all add: accepting_def m)
  obtain st1 tr1 where o: "?open (st, tr) = (nil_error, st1, tr1)" "accepted (st1, tr1)" "reasoningID st1 \<noteq> []" "reasoningOpen st1"
  proof (cases "reasoningOpen st")
    case True
    then show ?thesis
      using that [of st tr] A by (simp add: when_do_def skip_def streaming_def)
  next
    case False
    then show ?thesis
      using that accept_open_reasoning [OF A(1), of responseID] A(2)
      by (simp add: when_do_def open_reasoning_def streaming_def reasoningItemID_def)
  qed
  have "emitReasoningDelta quiet s responseID (st, tr)
      = run_all [wrapped ''accumulate reasoning summary'' (write_reasoning s),
           emit quiet (\<lambda>st n. EvReasoningDelta n (reasoningID st) (reasoningIndex st) s)] (st1, tr1)"
    using o(1) unfolding emitReasoningDelta_def open_reasoning_def [symmetric] run_all.simps(2) [of ?open] by simp
  then have "accepted (snd (emitReasoningDelta quiet s responseID (st, tr)))"
    using accept_reasoning_write [OF o(2-4), of s] by simp
  then show "accepting (snd (emitReasoningDelta quiet s responseID m))"
    using keepsD [OF keeps_streaming_reasoning, of m] A(2) by (simp add: accepting_def m is_streaming_def)
qed

subsection \<open>Tool calls\<close>

definition tool_tidy :: "toolItem \<Rightarrow> bool" where
  "tool_tidy t \<longleftrightarrow> builderErr (toolArguments t) \<noteq> nil_error \<and> (toolAdded t \<longrightarrow> toolId t \<noteq> [])
     \<and> (\<not> toolAdded t \<longrightarrow> builder_string (toolArguments t) = [] \<and> \<not> toolClosed t)"

lemma tidy_tool: "tidy st \<Longrightarrow> openTools st k = Some t \<Longrightarrow> tool_tidy t"
  by (auto simp: tidy_def tool_tidy_def ran_def)

lemma tidy_update_tool: "tidy st \<Longrightarrow> openTools st k = Some t \<Longrightarrow> tool_tidy (f t) \<Longrightarrow> tidy (update_tool k f st)"
  by (auto simp: tidy_def update_tool_def tool_tidy_def ran_def)

lemma the_tool_open [simp]: "openTools st k = Some t \<Longrightarrow> the_tool st k = t"
  by (simp add: the_tool_def)

lemma openTools_update [simp]: "openTools (update_tool k f st) = (openTools st)(k := map_option f (openTools st k))"
  by (simp add: update_tool_def)

lemma update_tool_other [simp]:
  "sequence (update_tool k f st) = sequence st" "itemIndex (update_tool k f st) = itemIndex st"
  by (simp_all add: update_tool_def)

lemma view_update_tool:
  "openTools st k = Some t \<Longrightarrow> view (update_tool k f st) = (view st)(OTool k := tool_view (f t))"
  by (rule owner_fun_eqI) (simp_all add: update_tool_def)

lemma slot_update_tool:
  "openTools st k = Some t \<Longrightarrow> outputIndex (f t) = outputIndex t \<Longrightarrow> slot (update_tool k f st) = slot st"
  by (rule owner_fun_eqI) (simp_all add: update_tool_def)

lemma slot_sequence [simp]: "slot (st\<lparr>sequence := n\<rparr>) = slot st" "view (st\<lparr>sequence := n\<rparr>) = view st" "tidy (st\<lparr>sequence := n\<rparr>) = tidy st"
  by (auto intro!: owner_fun_eqI simp: tidy_def)

lemma accept_ensureToolAdded:
  assumes A: "accepted (st, tr)" and k: "openTools st k = Some t"
  shows "accepted (snd (ensureToolAdded quiet k (st, tr)))"
    and "fst (ensureToolAdded quiet k (st, tr)) = nil_error"
    and "\<exists>t'. openTools (fst (snd (ensureToolAdded quiet k (st, tr)))) k = Some t' \<and> toolAdded t' \<and> toolClosed t' = toolClosed t"
proof -
  let ?f = "\<lambda>t. t\<lparr>toolAdded := True, toolId := callID t\<rparr>"
  let ?st = "(update_tool k ?f st)\<lparr>sequence := sequence st + 1\<rparr>"
  let ?item = "FunctionItem (callID t) ''in_progress'' (toolName t) []"
  show "fst (ensureToolAdded quiet k (st, tr)) = nil_error"
    by (simp add: ensureToolAdded_def when_do_def skip_def)
  show "\<exists>t'. openTools (fst (snd (ensureToolAdded quiet k (st, tr)))) k = Some t' \<and> toolAdded t' \<and> toolClosed t' = toolClosed t"
    using k by (simp add: ensureToolAdded_def when_do_def skip_def)
  show "accepted (snd (ensureToolAdded quiet k (st, tr)))"
  proof (cases "toolAdded t")
    case True
    then show ?thesis
      using A k by (simp add: ensureToolAdded_def when_do_def skip_def)
  next
    case False
    obtain c where c: "client_run tr client0 = Some c" "simulates st c"
      using A by (auto simp: accepted_def)
    have tt: "tool_tidy t" and L: "layout (slot st) (itemIndex st)" and V: "shows_views (slot st) (view st) (cItems c)"
      using c(2) tidy_tool [OF _ k] by (simp_all add: simulates_def)
    have s: "slot st (OTool k) = Some (outputIndex t)"
      using k by simp
    have "\<exists>c'. client_step (EvItemAdded (sequence st) (outputIndex t) ?item) c = Some c' \<and> simulates ?st c'"
    proof (rule simulates_announce [OF c(2)])
      show "cItems c (outputIndex t) = None"
        using simulates_view [OF c(2) s] k False by (simp add: tool_view_def)
      show "layout (slot ?st) (itemIndex ?st)"
        using L k by (simp add: slot_update_tool)
      have "tool_view (?f t) = Some (opened_item ?item)"
        using tt False by (simp add: tool_view_def tool_tidy_def callID_def)
      then show "shows_views (slot ?st) (view ?st) ((cItems c)(outputIndex t \<mapsto> opened_item ?item))"
        using shows_update [OF L V s, of "Some (opened_item ?item)"] k by (simp add: slot_update_tool view_update_tool)
      show "tidy ?st"
        using c(2) tt k by (simp add: simulates_def tidy_update_tool tool_tidy_def callID_def)
    qed simp
    moreover have "snd (ensureToolAdded quiet k (st, tr)) = (?st, tr @ [EvItemAdded (sequence st) (outputIndex t) ?item])"
      using k False by (simp add: ensureToolAdded_def when_do_def)
    ultimately show ?thesis
      using accepted_event [OF c(1)] by simp
  qed
qed

lemma accept_arguments:
  assumes A: "accepted (st, tr)" and k: "openTools st k = Some t" "toolAdded t" "\<not> toolClosed t"
  shows "accepted (snd (run_all [wrapped msg (write_arguments k s),
           wrapped ''emit arguments delta''
             (emit quiet (\<lambda>st n. EvArgsDelta n (callID (the_tool st k)) (outputIndex (the_tool st k)) s))] (st, tr)))"
proof -
  obtain c where c: "client_run tr client0 = Some c" "simulates st c"
    using A by (auto simp: accepted_def)
  have tt: "tool_tidy t"
    using c(2) tidy_tool [OF _ k(1)] by (simp add: simulates_def)
  then have "builderErr (toolArguments t) \<noteq> nil_error"
    by (simp add: tool_tidy_def)
  then show ?thesis
  proof (cases rule: builder_write_cases [where s = s])
    case (full err)
    have "update_tool k (\<lambda>t'. t'\<lparr>toolArguments := toolArguments t\<rparr>) st = st"
      using k(1) by (simp add: update_tool_def fun_upd_idem)
    then show ?thesis
      using A full k by (simp add: wrapped_def write_arguments_def)
  next
    case (fits b)
    let ?f = "\<lambda>t. t\<lparr>toolArguments := b\<rparr>"
    let ?st = "(update_tool k ?f st)\<lparr>sequence := sequence st + 1\<rparr>"
    let ?e = "EvArgsDelta (sequence st) (callID t) (outputIndex t) s"
    let ?ci = "\<lparr>ciKind = KFunction, ciId = callID t, ciStage = Streaming, ciText = builder_string (toolArguments t) @ s, ciName = []\<rparr>"
    have s: "slot st (OTool k) = Some (outputIndex t)"
      using k by simp
    have "\<exists>c'. client_step ?e c = Some c' \<and> simulates ?st c'"
    proof (rule simulates_update [OF c(2) s])
      show "view st (OTool k) = Some (\<lparr>ciKind = KFunction, ciId = callID t, ciStage = Streaming, ciText = builder_string (toolArguments t), ciName = []\<rparr>)"
        using k by (simp add: tool_view_def)
      then show "client_event ?e c = Some (c\<lparr>cItems := (cItems c)(outputIndex t \<mapsto> ?ci)\<rparr>)"
        using c(2) simulates_view [OF c(2) s] by (simp add: on_item_def simulates_def)
      show "slot ?st = slot st"
        using k by (simp add: slot_update_tool)
      show "view ?st = (view st)(OTool k \<mapsto> ?ci)"
        using k fits by (simp add: view_update_tool tool_view_def callID_def)
      show "tidy ?st"
        using c(2) k tt fits by (simp add: simulates_def tidy_update_tool tool_tidy_def)
    qed simp_all
    moreover have "callID (t\<lparr>toolArguments := b\<rparr>) = callID t"
      by (simp add: callID_def)
    ultimately show ?thesis
      using accepted_event [OF c(1)] fits k by (simp add: wrapped_def write_arguments_def)
  qed
qed

lemma accept_open_tool: "accepted (st, tr) \<Longrightarrow> accepted (open_tool call st, tr)"
proof (cases "openTools st (callIndex call) = None")
  case True
  assume "accepted (st, tr)"
  then obtain c where c: "client_run tr client0 = Some c" "simulates st c"
    by (auto simp: accepted_def)
  let ?k = "callIndex call"
  let ?st = "open_tool call st"
  have L: "layout (slot st) (itemIndex st)" and V: "shows_views (slot st) (view st) (cItems c)"
    using c(2) by (simp_all add: simulates_def)
  have sl: "slot ?st = (slot st)(OTool ?k \<mapsto> itemIndex st)" and vw: "view ?st = (view st)(OTool ?k := None)"
    using True by (auto intro!: owner_fun_eqI simp: open_tool_def tool_view_def)
  have free: "slot st (OTool ?k) = None"
    using True by simp
  have same: "(cItems c)(itemIndex st := None) = cItems c"
    using layout_fresh [OF L V] by (rule fun_upd_idem)
  have "tidy ?st"
    using c(2) True by (auto simp: simulates_def tidy_def open_tool_def ran_def newBoundedBuilder_def builder_string_def ErrToolArgumentsTooLarge_def)
  moreover have "layout (slot ?st) (itemIndex ?st)"
    unfolding sl using layout_new [OF L free] True by (simp add: open_tool_def)
  moreover have "shows_views (slot ?st) (view ?st) (cItems c)"
    unfolding sl vw using shows_new [OF L V free, of None] same by simp
  ultimately have "simulates ?st c"
    using c(2) True by (simp add: simulates_def open_tool_def)
  then show ?thesis
    using c(1) by (auto simp: accepted_def)
qed (simp add: open_tool_def)

lemma open_tool_opens: "\<exists>t. openTools (open_tool call st) (callIndex call) = Some t"
  by (auto simp: open_tool_def)

lemma streaming_open_tool: "streaming st \<Longrightarrow> streaming (open_tool call st)"
  by (auto simp: streaming_def open_tool_def ran_def)

lemma accept_correct_tool:
  assumes A: "accepted (st, tr)" and k: "openTools st k = Some t" "\<not> toolClosed t"
  shows "accepted (update_tool k (correct_tool call) st, tr)"
proof (rule accepted_silent [OF A])
  obtain c where c: "simulates st c"
    using A by (auto simp: accepted_def)
  then have tt: "tool_tidy t"
    using tidy_tool [OF _ k(1)] by (simp add: simulates_def)
  show "slot (update_tool k (correct_tool call) st) = slot st"
    using k by (simp add: slot_update_tool correct_tool_def)
  have "tool_view (correct_tool call t) = tool_view t"
    using tt k by (auto simp: tool_view_def correct_tool_def tool_tidy_def callID_def)
  then show "view (update_tool k (correct_tool call) st) = view st"
    using k by (simp add: view_update_tool fun_upd_idem)
  show "tidy (update_tool k (correct_tool call) st)"
    using c k tt by (auto simp: simulates_def tidy_update_tool tool_tidy_def correct_tool_def)
qed simp_all

lemma keeps_streaming_ensure: "keeps is_streaming (ensureToolAdded quiet k)"
  unfolding ensureToolAdded_def
  by (intro keeps_when_do keeps_run_list keeps_wrapped is_streaming_emit is_streaming_modify streaming_update_tool) simp_all

lemma keeps_streaming_tool: "keeps is_streaming (applyToolCall quiet call)"
  unfolding applyToolCall_def Let_def
  by (intro keeps_when_do keeps_run_list keeps_wrapped is_streaming_emit is_streaming_writes is_streaming_modify
      keeps_streaming_ensure streaming_open_tool streaming_update_tool) (simp_all add: correct_tool_def)

lemma accepting_tool: "keeps accepting (applyToolCall quiet call)"
proof (rule keepsI)
  fix m :: machine
  obtain st tr where m: "m = (st, tr)"
    by (cases m)
  let ?k = "callIndex call"
  let ?st1 = "open_tool call st"
  let ?st2 = "update_tool ?k (correct_tool call) ?st1"
  assume "accepting m"
  then have A: "accepted (st, tr)" "streaming st"
    by (simp_all add: accepting_def m)
  obtain t1 where t1: "openTools ?st1 ?k = Some t1"
    using open_tool_opens [of call st] by auto
  have "\<not> toolClosed t1"
    using streaming_open_tool [OF A(2)] ranI [where m = "openTools ?st1" and a = ?k and b = t1] t1 by (simp add: streaming_def)
  then have A2: "accepted (?st2, tr)" and t2: "openTools ?st2 ?k = Some (correct_tool call t1)" "\<not> toolClosed (correct_tool call t1)"
    using accept_correct_tool [OF accept_open_tool [OF A(1)] t1] t1 by (simp_all add: correct_tool_def)
  let ?opt = "when_do (\<lambda>st. toolId (the_tool st ?k) \<noteq> []) (ensureToolAdded quiet ?k)"
  obtain st3 tr3 t3 where s3: "?opt (?st2, tr) = (nil_error, st3, tr3)" "accepted (st3, tr3)" "openTools st3 ?k = Some t3" "\<not> toolClosed t3"
  proof (cases "toolId (the_tool ?st2 ?k) = []")
    case True
    then show ?thesis
      using that [of ?st2 tr] A2 t2 by (simp add: when_do_def skip_def)
  next
    case False
    then show ?thesis
      using that accept_ensureToolAdded [OF A2 t2(1)] t2(2)
      by (cases "ensureToolAdded quiet ?k (?st2, tr)") (auto simp: when_do_def simp del: openTools_update)
  qed
  obtain st4 tr4 t4 where s4: "ensureToolAdded quiet ?k (st3, tr3) = (nil_error, st4, tr4)" "accepted (st4, tr4)" "openTools st4 ?k = Some t4"
      "toolAdded t4" "\<not> toolClosed t4"
    using accept_ensureToolAdded [OF s3(2,3)] s3(4) that by (cases "ensureToolAdded quiet ?k (st3, tr3)") auto
  let ?msg = "''accumulate tool call '' @ itoa ?k @ '' arguments''"
  let ?args = "[wrapped ?msg (write_arguments ?k (callArguments call)), wrapped ''emit arguments delta''
      (emit quiet (\<lambda>st n. EvArgsDelta n (callID (the_tool st ?k)) (outputIndex (the_tool st ?k)) (callArguments call)))]"
  have "applyToolCall quiet call (st, tr) = when_do (\<lambda>st. callArguments call \<noteq> []) (run_all (ensureToolAdded quiet ?k # ?args)) (st3, tr3)"
    unfolding applyToolCall_def Let_def
    by (simp only: run_all_modify run_all_ok [where a = ?opt, OF s3(1)] run_all_one)
  then have "accepted (snd (applyToolCall quiet call (st, tr)))"
    using s3(2) accept_arguments [OF s4(2-5), of ?msg "callArguments call"]
    by (simp only: when_do_def run_all_ok [where a = "ensureToolAdded quiet ?k", OF s4(1)] skip_def snd_conv HOL.simp_thms split: if_splits)
  then show "accepting (snd (applyToolCall quiet call m))"
    using keepsD [OF keeps_streaming_tool, of m] A(2) by (simp add: accepting_def m is_streaming_def)
qed

lemma accepting_modify:
  assumes "\<And>st. slot (f st) = slot st" "\<And>st. view (f st) = view st" "\<And>st. itemIndex (f st) = itemIndex st"
    "\<And>st. sequence (f st) = sequence st" "\<And>st. tidy (f st) = tidy st" "\<And>st. streaming (f st) = streaming st"
  shows "keeps accepting (modify f)"
  by (rule keepsI) (auto simp: accepting_def accepted_def simulates_def modify_def assms)

interpretation accepting_deltas: delta_invariant quiet accepting responseID for responseID
proof
  show "keeps accepting (modify (\<lambda>st. if u \<noteq> None then st\<lparr>usage := u\<rparr> else st))" for u
    by (rule accepting_modify; (rule owner_fun_eqI)?; simp add: tidy_def streaming_def)
  show "keeps accepting (modify (\<lambda>st. if r \<noteq> [] then st\<lparr>finishReason := r\<rparr> else st))" for r
    by (rule accepting_modify; (rule owner_fun_eqI)?; simp add: tidy_def streaming_def)
qed (rule accepting_text accepting_reasoning accepting_tool)+

subsection \<open>Closing\<close>

lemma accepted_events:
  "client_run tr client0 = Some c \<Longrightarrow> \<exists>c'. client_run es c = Some c' \<and> simulates st' c' \<Longrightarrow> accepted (st', tr @ es)"
  by (auto simp: accepted_def client_run_append)

lemma accept_closeOpenMessage:
  assumes A: "accepted (st, tr)"
  shows "accepted (snd (closeOpenMessage quiet (st, tr)))"
proof (cases "messageStarted st \<and> textPartOpen st")
  case False
  then show ?thesis
    using A by (auto simp: closeOpenMessage_def when_do_def skip_def)
next
  case True
  obtain c where c: "client_run tr client0 = Some c" "simulates st c"
    using A by (auto simp: accepted_def)
  let ?s = "builder_string (textBuilder st)" and ?id = "messageID st" and ?i = "messageIndex st" and ?n = "sequence st"
  let ?es = "[EvTextDone ?n ?id ?i ?s, EvPartDone (?n + 1) ?id ?i ?s, EvItemDone (?n + 2) ?id ?i (MessageItem ?id ''completed'' (optional_part ?s))]"
  let ?st = "st\<lparr>sequence := ?n + 3, textPartOpen := False\<rparr>"
  have run: "snd (closeOpenMessage quiet (st, tr)) = (?st, tr @ ?es)"
    using True by (simp add: closeOpenMessage_def when_do_def)
  have item: "cItems c ?i = view st OMessage"
    using simulates_view [OF c(2), of OMessage] True by simp
  have "\<exists>c'. client_run ?es c = Some c' \<and> simulates ?st c'"
  proof (rule simulates_updates [OF c(2), of OMessage ?i])
    show "client_run ?es c = Some (c\<lparr>cItems := (cItems c)(?i \<mapsto> \<lparr>ciKind = KMessage, ciId = ?id, ciStage = ItemClosed, ciText = ?s, ciName = []\<rparr>),
        cNext := cNext c + int (length ?es)\<rparr>)"
      using c(2) True item by (simp add: client_step_def on_item_def simulates_def optional_part_def)
    show "slot ?st = slot st" "view ?st = (view st)(OMessage \<mapsto> \<lparr>ciKind = KMessage, ciId = ?id, ciStage = ItemClosed, ciText = ?s, ciName = []\<rparr>)"
      using True by (auto intro!: owner_fun_eqI)
    show "tidy ?st"
      using c(2) by (simp add: simulates_def tidy_def)
  qed (use True in auto)
  then show ?thesis
    unfolding run by (rule accepted_events [OF c(1)])
qed

lemma accept_closeReasoningItem:
  assumes A: "accepted (st, tr)" and opened: "reasoningOpen st \<Longrightarrow> reasoningID st \<noteq> []"
  shows "accepted (snd (closeReasoningItem quiet (st, tr)))"
proof (cases "reasoningOpen st")
  case False
  then show ?thesis
    using A by (simp add: closeReasoningItem_def when_do_def skip_def)
next
  case True
  obtain c where c: "client_run tr client0 = Some c" "simulates st c"
    using A by (auto simp: accepted_def)
  let ?s = "builder_string (reasoningBuilder st)" and ?id = "reasoningID st" and ?i = "reasoningIndex st" and ?n = "sequence st"
  let ?es = "[EvReasoningDone ?n ?id ?i ?s, EvItemDone (?n + 1) ?id ?i (ReasoningItem ?id ''completed'' [?s])]"
  let ?st = "st\<lparr>reasoningOpen := False, sequence := ?n + 2\<rparr>"
  have run: "snd (closeReasoningItem quiet (st, tr)) = (?st, tr @ ?es)"
    using True by (simp add: closeReasoningItem_def when_do_def)
  have item: "cItems c ?i = view st OReasoning"
    using simulates_view [OF c(2), of OReasoning] True opened by simp
  have "\<exists>c'. client_run ?es c = Some c' \<and> simulates ?st c'"
  proof (rule simulates_updates [OF c(2), of OReasoning ?i])
    show "client_run ?es c = Some (c\<lparr>cItems := (cItems c)(?i \<mapsto> \<lparr>ciKind = KReasoning, ciId = ?id, ciStage = ItemClosed, ciText = ?s, ciName = []\<rparr>),
        cNext := cNext c + int (length ?es)\<rparr>)"
      using c(2) True item opened by (simp add: client_step_def on_item_def simulates_def)
    show "slot ?st = slot st" "view ?st = (view st)(OReasoning \<mapsto> \<lparr>ciKind = KReasoning, ciId = ?id, ciStage = ItemClosed, ciText = ?s, ciName = []\<rparr>)"
      using True opened by (auto intro!: owner_fun_eqI)
    show "tidy ?st"
      using c(2) by (simp add: simulates_def tidy_def)
  qed (use True opened in auto)
  then show ?thesis
    unfolding run by (rule accepted_events [OF c(1)])
qed

end
