(* ===== verification/Responses_Properties.thy ===== *)
theory Responses_Properties
  imports Responses_Simulation
begin

text \<open>
  The end of a Responses stream: the tool items are closed, the output array of the terminal event is
  the client's items in the order of their indices, and the properties of a whole stream.
\<close>

subsection \<open>Closing the tool items\<close>

lemma accept_closeTool:
  assumes A: "accepted (st, tr)" and k: "openTools st k = Some t" "\<not> toolClosed t"
  shows "accepted (snd (closeTool quiet k (st, tr)))"
proof -
  obtain st1 tr1 t1 where s1: "ensureToolAdded quiet k (st, tr) = (nil_error, st1, tr1)" "accepted (st1, tr1)" "openTools st1 k = Some t1"
      "toolAdded t1" "\<not> toolClosed t1"
    using accept_ensureToolAdded [OF A k(1)] k(2) that by (cases "ensureToolAdded quiet k (st, tr)") auto
  obtain c where c: "client_run tr1 client0 = Some c" "simulates st1 c"
    using s1(2) by (auto simp: accepted_def)
  let ?s = "builder_string (toolArguments t1)" and ?id = "callID t1" and ?i = "outputIndex t1" and ?n = "sequence st1"
  let ?es = "[EvArgsDone ?n ?id ?i (toolName t1) ?s, EvItemDone (?n + 1) ?id ?i (FunctionItem ?id ''completed'' (toolName t1) ?s)]"
  let ?f = "\<lambda>t. t\<lparr>toolClosed := True\<rparr>"
  let ?st = "(update_tool k ?f st1)\<lparr>sequence := ?n + 2\<rparr>"
  have run: "snd (closeTool quiet k (st, tr)) = (?st, tr1 @ ?es)"
    unfolding closeTool_def run_all_ok [where a = "ensureToolAdded quiet k", OF s1(1)] using s1(3) by (simp add: Let_def update_tool_def)
  have s: "slot st1 (OTool k) = Some ?i"
    using s1(3) by simp
  have v: "view st1 (OTool k) = Some \<lparr>ciKind = KFunction, ciId = ?id, ciStage = Streaming, ciText = ?s, ciName = []\<rparr>"
    using s1 by (simp add: tool_view_def)
  have tt: "tool_tidy t1"
    using c(2) tidy_tool [OF _ s1(3)] by (simp add: simulates_def)
  let ?ci = "\<lparr>ciKind = KFunction, ciId = ?id, ciStage = ItemClosed, ciText = ?s, ciName = toolName t1\<rparr>"
  have "\<exists>c'. client_run ?es c = Some c' \<and> simulates ?st c'"
  proof (rule simulates_updates [OF c(2) s v])
    show "client_run ?es c = Some (c\<lparr>cItems := (cItems c)(?i \<mapsto> ?ci), cNext := cNext c + int (length ?es)\<rparr>)"
      using c(2) simulates_view [OF c(2) s] v by (simp add: client_step_def on_item_def simulates_def)
    show "slot ?st = slot st1" "view ?st = (view st1)(OTool k \<mapsto> ?ci)"
      using s1 by (simp_all add: slot_update_tool view_update_tool tool_view_def callID_def)
    show "tidy ?st"
      using c(2) s1 tt by (simp add: simulates_def tidy_update_tool tool_tidy_def)
  qed simp_all
  then show ?thesis
    unfolding run by (rule accepted_events [OF c(1)])
qed

lemma closeTool_quiet: "fst (close_unclosed_tool quiet k m) = nil_error"
  by (cases m) (simp add: close_unclosed_tool_def when_do_def skip_def closeTool_def ensureToolAdded_def)

lemma close_unclosed_closes: "openTools (fst (snd (close_unclosed_tool quiet k (st, tr)))) k = Some t \<Longrightarrow> toolClosed t"
  by (auto simp: close_unclosed_tool_def when_do_def skip_def closeTool_def ensureToolAdded_def split: if_splits)

lemma close_unclosed_others:
  "j \<noteq> k \<Longrightarrow> openTools (fst (snd (close_unclosed_tool quiet k (st, tr)))) j = openTools st j"
  "dom (openTools (fst (snd (close_unclosed_tool quiet k (st, tr))))) = dom (openTools st)"
  by (auto simp: close_unclosed_tool_def when_do_def skip_def closeTool_def ensureToolAdded_def split: if_splits)

text \<open>What closing a tool leaves of the rest of the state.\<close>

definition frame :: "streamState \<Rightarrow> bool \<times> bool \<times> bool \<times> string \<times> string" where
  "frame st = (messageStarted st, textPartOpen st, reasoningOpen st, builder_string (textBuilder st), finishReason st)"

lemma frame_update_tool [simp]: "frame (update_tool k f st) = frame st"
  by (simp add: frame_def update_tool_def)

lemma close_unclosed_frame: "frame (fst (snd (close_unclosed_tool quiet k (st, tr)))) = frame st"
  by (simp add: close_unclosed_tool_def when_do_def skip_def closeTool_def ensureToolAdded_def) (simp add: frame_def update_tool_def)

lemma accept_close_unclosed: "accepted m \<Longrightarrow> accepted (snd (close_unclosed_tool quiet k m))"
proof (cases m)
  case (Pair st tr)
  assume "accepted m"
  then show ?thesis
    using accept_closeTool [of st tr k] by (auto simp: Pair close_unclosed_tool_def when_do_def skip_def the_tool_def split: option.splits)
qed

definition closed_upto :: "int set \<Rightarrow> streamState \<Rightarrow> bool" where
  "closed_upto K st \<longleftrightarrow> (\<forall>k \<in> K. \<forall>t. openTools st k = Some t \<longrightarrow> toolClosed t)"

lemma close_tools_loop:
  "accepted (st, tr) \<Longrightarrow> closed_upto K st \<Longrightarrow>
   \<exists>st' tr'. run_all (map (close_unclosed_tool quiet) ks) (st, tr) = (nil_error, st', tr') \<and> accepted (st', tr')
     \<and> closed_upto (K \<union> set ks) st' \<and> dom (openTools st') = dom (openTools st) \<and> frame st' = frame st"
proof (induction ks arbitrary: st tr K)
  case Nil
  then show ?case
    by simp
next
  case (Cons k ks)
  obtain st1 tr1 where s1: "close_unclosed_tool quiet k (st, tr) = (nil_error, st1, tr1)"
    using closeTool_quiet [of k "(st, tr)"] by (cases "close_unclosed_tool quiet k (st, tr)") auto
  have "accepted (st1, tr1)"
    using accept_close_unclosed [OF Cons.prems(1), of k] s1 by simp
  moreover have "closed_upto (insert k K) st1"
    using Cons.prems(2) close_unclosed_closes [of k st tr] close_unclosed_others(1) [of _ k st tr] s1 unfolding closed_upto_def
    by (metis fst_conv insert_iff snd_conv)
  ultimately obtain st' tr' where loop: "run_all (map (close_unclosed_tool quiet) ks) (st1, tr1) = (nil_error, st', tr')" "accepted (st', tr')"
      "closed_upto (insert k K \<union> set ks) st'" "dom (openTools st') = dom (openTools st1)" "frame st' = frame st1"
    using Cons.IH by blast
  then show ?case
    using s1 close_unclosed_others(2) [of k st tr] close_unclosed_frame [of k st tr] by simp
qed

subsection \<open>The output array\<close>

fun item_of :: "streamState \<Rightarrow> owner \<Rightarrow> outItem" where
  "item_of st OMessage = MessageItem (messageID st) ''completed'' (optional_part (builder_string (textBuilder st)))"
| "item_of st OReasoning = ReasoningItem (reasoningID st) ''completed'' (optional_part (builder_string (reasoningBuilder st)))"
| "item_of st (OTool k) = (case openTools st k of Some t \<Rightarrow> FunctionItem (callID t) ''completed'' (toolName t) (builder_string (toolArguments t)))"

definition filled :: "streamState \<Rightarrow> owner set \<Rightarrow> outItem option list \<Rightarrow> bool" where
  "filled st P slots \<longleftrightarrow> length slots = nat (itemIndex st) \<and> (\<forall>p i. p \<in> P \<longrightarrow> slot st p = Some i \<longrightarrow> slots ! nat i = Some (item_of st p))"

lemma layout_bounds: "layout (slot st) n \<Longrightarrow> slot st p = Some i \<Longrightarrow> 0 \<le> i \<and> i < n"
  using ranI [of "slot st" p i] by (auto simp: layout_def)

lemma filled_put:
  assumes L: "layout (slot st) (itemIndex st)" and F: "filled st P slots" and p: "slot st p = Some i"
  shows "filled st (insert p P) (put_slot i (item_of st p) slots)"
proof -
  have i: "0 \<le> i" "i < int (length slots)"
    using layout_bounds [OF L p] F by (auto simp: filled_def)
  have "nat j \<noteq> nat i" if "slot st q = Some j" "q \<noteq> p" for q j
    using that L p layout_bounds [OF L that(1)] i by (auto simp: layout_def nat_eq_iff)
  moreover have "nat i < length slots" "put_slot i (item_of st p) slots = slots[nat i := Some (item_of st p)]"
    using i by (simp_all add: put_slot_def nat_less_iff)
  ultimately show ?thesis
    using F p unfolding filled_def by (metis insert_iff length_list_update nth_list_update_eq nth_list_update_neq option.inject)
qed

lemma filled_skip: "filled st P slots \<Longrightarrow> slot st p = None \<Longrightarrow> filled st (insert p P) slots"
  by (auto simp: filled_def)

lemma filled_tools:
  assumes L: "layout (slot st) (itemIndex st)"
  shows "filled st P slots \<Longrightarrow> filled st (P \<union> OTool ` set ks)
     (fold (\<lambda>index slots. case openTools st index of None \<Rightarrow> slots
        | Some tool \<Rightarrow> put_slot (outputIndex tool) (FunctionItem (callID tool) ''completed'' (toolName tool) (builder_string (toolArguments tool))) slots) ks slots)"
proof (induction ks arbitrary: P slots)
  case (Cons k ks)
  have "filled st (insert (OTool k) P) (case openTools st k of None \<Rightarrow> slots
        | Some tool \<Rightarrow> put_slot (outputIndex tool) (FunctionItem (callID tool) ''completed'' (toolName tool) (builder_string (toolArguments tool))) slots)"
    using filled_put [OF L Cons.prems, of "OTool k"] filled_skip [OF Cons.prems, of "OTool k"] by (cases "openTools st k") simp_all
  from Cons.IH [OF this] show ?case
    by simp
qed simp

lemma map_filter_all: "list_all (\<lambda>x. x \<noteq> None) xs \<Longrightarrow> List.map_filter (\<lambda>x. x) xs = map the xs"
  by (induction xs) (auto simp: List.map_filter_simps)

lemma outputItems_slots:
  assumes L: "layout (slot st) (itemIndex st)" and T: "tidy st"
  shows "length (outputItems st) = nat (itemIndex st)"
    and "slot st p = Some i \<Longrightarrow> outputItems st ! nat i = item_of st p"
proof -
  let ?s0 = "replicate (nat (itemIndex st)) None"
  let ?s1 = "if reasoningID st \<noteq> [] then put_slot (reasoningIndex st) (item_of st OReasoning) ?s0 else ?s0"
  let ?s2 = "if messageStarted st then put_slot (messageIndex st) (item_of st OMessage) ?s1 else ?s1"
  define slots where "slots = fold (\<lambda>index slots. case openTools st index of None \<Rightarrow> slots
        | Some tool \<Rightarrow> put_slot (outputIndex tool) (FunctionItem (callID tool) ''completed'' (toolName tool) (builder_string (toolArguments tool))) slots)
      (toolOrder st) ?s2"
  have "filled st {} ?s0"
    by (simp add: filled_def)
  then have "filled st {OReasoning} ?s1"
    using filled_put [OF L, of "{}" ?s0 OReasoning] filled_skip [of st "{}" ?s0 OReasoning] by simp
  then have "filled st {OMessage, OReasoning} ?s2"
    using filled_put [OF L, of "{OReasoning}" ?s1 OMessage] filled_skip [of st "{OReasoning}" ?s1 OMessage] by (cases "messageStarted st") simp_all
  then have F: "filled st ({OMessage, OReasoning} \<union> OTool ` set (toolOrder st)) slots"
    unfolding slots_def by (rule filled_tools [OF L])
  have at_slot: "slots ! nat i = Some (item_of st p)" if "slot st p = Some i" for p i
  proof -
    have "p \<in> {OMessage, OReasoning} \<union> OTool ` set (toolOrder st)"
      using that T by (cases p) (auto simp: tidy_def)
    then show ?thesis
      using F that unfolding filled_def by blast
  qed
  have "\<exists>x. slots ! j = Some x" if "j < length slots" for j
  proof -
    have "int j \<in> ran (slot st)"
      using that F L by (simp add: filled_def layout_def)
    then obtain p where "slot st p = Some (int j)"
      by (auto simp: ran_def)
    then show ?thesis
      using at_slot [of p "int j"] by simp
  qed
  then have "list_all (\<lambda>x. x \<noteq> None) slots"
    by (auto simp: list_all_length)
  moreover have "outputItems st = List.map_filter (\<lambda>x. x) slots"
    unfolding outputItems_def Let_def slots_def by simp
  ultimately have out: "outputItems st = map the slots"
    by (simp add: map_filter_all)
  then show "length (outputItems st) = nat (itemIndex st)"
    using F by (simp add: filled_def)
  show "outputItems st ! nat i = item_of st p" if "slot st p = Some i"
    using at_slot [OF that] layout_bounds [OF L that] F by (simp add: out filled_def)
qed

subsection \<open>The terminal event\<close>

definition all_closed :: "streamState \<Rightarrow> bool" where
  "all_closed st \<longleftrightarrow> (messageStarted st \<longrightarrow> \<not> textPartOpen st) \<and> \<not> reasoningOpen st \<and> (\<forall>t \<in> ran (openTools st). toolClosed t)"

lemma closed_view:
  assumes "all_closed st" "tidy st" "slot st p = Some i"
  shows "\<exists>ci. view st p = Some ci \<and> ciStage ci = ItemClosed \<and> item_matches ci (item_of st p)"
proof (cases p)
  case (OTool k)
  then obtain t where t: "openTools st k = Some t"
    using assms(3) by auto
  then have "tool_tidy t" "toolClosed t"
    using assms(1) tidy_tool [OF assms(2) t] by (auto simp: all_closed_def ran_def)
  then show ?thesis
    using t OTool by (auto simp: tool_view_def tool_tidy_def)
qed (use assms in \<open>auto simp: all_closed_def optional_part_def split: if_splits\<close>)

lemma simulates_closed_match:
  assumes S: "simulates st c" and closed: "all_closed st"
  shows "closed_match c (outputItems st)"
proof -
  have L: "layout (slot st) (itemIndex st)" and T: "tidy st"
    using S by (simp_all add: simulates_def)
  have item: "\<exists>ci. cItems c i = Some ci \<and> ciStage ci = ItemClosed \<and> item_matches ci (outputItems st ! nat i)" if i: "0 \<le> i" "i < itemIndex st" for i
  proof -
    have "i \<in> ran (slot st)"
      using i L by (simp add: layout_def)
    then obtain p where p: "slot st p = Some i"
      by (auto simp: ran_def)
    show ?thesis
      using closed_view [OF closed T p] simulates_view [OF S p] outputItems_slots(2) [OF L T p] by metis
  qed
  have "dom (cItems c) = {0..<itemIndex st}"
    using item S by (fastforce simp: simulates_def shows_views_def layout_def dom_def)
  then have "cCount c = nat (itemIndex st)"
    using S by (simp add: simulates_def)
  moreover have "case cItems c (int j) of None \<Rightarrow> False | Some ci \<Rightarrow> ciStage ci = ItemClosed \<and> item_matches ci (outputItems st ! j)"
    if "j < length (outputItems st)" for j
    using item [of "int j"] that outputItems_slots(1) [OF L T] by (auto simp: zless_nat_eq_int_zless)
  ultimately show ?thesis
    using outputItems_slots(1) [OF L T] by (simp add: closed_match_def list_all_iff)
qed

lemma concat_single:
  assumes "\<And>j. j < length xs \<Longrightarrow> j \<noteq> k \<Longrightarrow> f (xs ! j) = []" "k < length xs"
  shows "concat (map f xs) = f (xs ! k)"
  using assms
proof (induction xs arbitrary: k)
  case (Cons x xs)
  show ?case
  proof (cases k)
    case 0
    have "concat (map f xs) = []"
      using Cons.prems(1) [of "Suc _"] 0 by (auto simp: in_set_conv_nth)
    then show ?thesis
      by (simp add: 0)
  next
    case (Suc k')
    have "concat (map f xs) = f (xs ! k')"
      using Cons.IH [of k'] Cons.prems(1) [of "Suc _"] Cons.prems(2) by (auto simp: Suc)
    then show ?thesis
      using Cons.prems(1) [of 0] by (simp add: Suc)
  qed
qed simp

lemma outputItems_text:
  assumes L: "layout (slot st) (itemIndex st)" and T: "tidy st"
  shows "concat (map message_text (outputItems st)) = builder_string (textBuilder st)"
proof -
  have other: "message_text (outputItems st ! j) = []" if j: "j < length (outputItems st)" "slot st OMessage \<noteq> Some (int j)" for j
  proof -
    have "int j \<in> ran (slot st)"
      using j L outputItems_slots(1) [OF L T] by (simp add: layout_def)
    then obtain p where p: "slot st p = Some (int j)"
      by (auto simp: ran_def)
    then have "message_text (item_of st p) = []"
      using j(2) by (cases p) (auto split: option.split)
    then show ?thesis
      using outputItems_slots(2) [OF L T p] by simp
  qed
  show ?thesis
  proof (cases "messageStarted st")
    case True
    then have m: "slot st OMessage = Some (messageIndex st)"
      by simp
    have "concat (map message_text (outputItems st)) = message_text (outputItems st ! nat (messageIndex st))"
      using layout_bounds [OF L m] outputItems_slots(1) [OF L T] other m by (intro concat_single) (auto simp: nat_less_iff)
    then show ?thesis
      using outputItems_slots(2) [OF L T m] by (simp add: optional_part_def)
  next
    case False
    have "concat (map message_text (outputItems st)) = []"
      using other False by (auto simp: in_set_conv_nth)
    then show ?thesis
      using False T by (simp add: tidy_def)
  qed
qed

lemma terminal_accepted:
  assumes S: "simulates st c" and closed: "all_closed st" and t: "terminal_object st responseID model failed = (name, r)"
  shows "terminal_ok c name r" "roStatus r = ''failed'' \<longleftrightarrow> failed"
proof -
  have "roOutput r = outputItems st" "roOutputText r = builder_string (textBuilder st)"
    "List.member [''completed'', ''incomplete'', ''failed''] (roStatus r)" "name = terminal_name (roStatus r)"
    using t by (auto simp: terminal_object_def responseObject_def terminal_name_def split: if_splits option.splits)
  then show "terminal_ok c name r"
    using simulates_closed_match [OF S closed] outputItems_text [of st] S by (simp add: terminal_ok_def simulates_def)
  show "roStatus r = ''failed'' \<longleftrightarrow> failed"
    using t by (auto simp: terminal_object_def responseObject_def split: if_splits option.splits)
qed

subsection \<open>Finalizing\<close>

lemma close_quiet: "fst (closeOpenMessage quiet m) = nil_error" "fst (closeReasoningItem quiet m) = nil_error"
  by (cases m; simp add: closeOpenMessage_def closeReasoningItem_def when_do_def skip_def)+

lemma close_message_state:
  "fst (snd (closeOpenMessage quiet (st, tr))) = (let st' = fst (snd (closeOpenMessage quiet (st, tr))) in st\<lparr>sequence := sequence st', textPartOpen := textPartOpen st'\<rparr>)"
  "messageStarted st \<Longrightarrow> \<not> textPartOpen (fst (snd (closeOpenMessage quiet (st, tr))))"
  by (simp_all add: closeOpenMessage_def when_do_def skip_def)

lemma close_reasoning_state:
  "fst (snd (closeReasoningItem quiet (st, tr))) = (let st' = fst (snd (closeReasoningItem quiet (st, tr))) in st\<lparr>sequence := sequence st', reasoningOpen := False\<rparr>)"
  by (simp add: closeReasoningItem_def when_do_def skip_def)

text \<open>Both orders of closing the message and the reasoning item.\<close>

lemma close_both:
  assumes A: "accepted (st, tr)" and opened: "reasoningOpen st \<Longrightarrow> reasoningID st \<noteq> []"
  shows "\<exists>st' tr'. (\<lambda>m. if reasoning_first (fst m) then run_all [closeReasoningItem quiet, closeOpenMessage quiet] m
             else run_all [closeOpenMessage quiet, closeReasoningItem quiet] m) (st, tr) = (nil_error, st', tr')
     \<and> accepted (st', tr') \<and> (messageStarted st' \<longrightarrow> \<not> textPartOpen st') \<and> \<not> reasoningOpen st' \<and> toolOrder st' = toolOrder st
     \<and> openTools st' = openTools st \<and> textBuilder st' = textBuilder st"
proof (cases "reasoning_first st")
  case True
  obtain st1 tr1 where s1: "closeReasoningItem quiet (st, tr) = (nil_error, st1, tr1)"
    using close_quiet(2) [of "(st, tr)"] by (cases "closeReasoningItem quiet (st, tr)") auto
  obtain st2 tr2 where s2: "closeOpenMessage quiet (st1, tr1) = (nil_error, st2, tr2)"
    using close_quiet(1) [of "(st1, tr1)"] by (cases "closeOpenMessage quiet (st1, tr1)") auto
  have st1: "st1 = st\<lparr>sequence := sequence st1, reasoningOpen := False\<rparr>"
    using close_reasoning_state [of st tr] s1 by (simp add: Let_def)
  have st2: "st2 = st1\<lparr>sequence := sequence st2, textPartOpen := textPartOpen st2\<rparr>" "messageStarted st1 \<Longrightarrow> \<not> textPartOpen st2"
    using close_message_state [of st1 tr1] s2 by (simp_all add: Let_def)
  have "accepted (st2, tr2)"
    using accept_closeReasoningItem [OF A opened] accept_closeOpenMessage [of st1 tr1] s1 s2 by simp
  moreover have "messageStarted st2 = messageStarted st1" "reasoningOpen st2 = reasoningOpen st1" "toolOrder st2 = toolOrder st1" "openTools st2 = openTools st1"
      "textBuilder st2 = textBuilder st1" "\<not> reasoningOpen st1" "toolOrder st1 = toolOrder st" "openTools st1 = openTools st" "textBuilder st1 = textBuilder st"
    by (subst st2(1), simp)+ (subst st1, simp)+
  ultimately show ?thesis
    using True s1 s2 st2(2) by simp
next
  case False
  obtain st1 tr1 where s1: "closeOpenMessage quiet (st, tr) = (nil_error, st1, tr1)"
    using close_quiet(1) [of "(st, tr)"] by (cases "closeOpenMessage quiet (st, tr)") auto
  obtain st2 tr2 where s2: "closeReasoningItem quiet (st1, tr1) = (nil_error, st2, tr2)"
    using close_quiet(2) [of "(st1, tr1)"] by (cases "closeReasoningItem quiet (st1, tr1)") auto
  have st1: "st1 = st\<lparr>sequence := sequence st1, textPartOpen := textPartOpen st1\<rparr>" "messageStarted st \<Longrightarrow> \<not> textPartOpen st1"
    using close_message_state [of st tr] s1 by (simp_all add: Let_def)
  have st2: "st2 = st1\<lparr>sequence := sequence st2, reasoningOpen := False\<rparr>"
    using close_reasoning_state [of st1 tr1] s2 by (simp add: Let_def)
  have same: "reasoningOpen st1 = reasoningOpen st" "reasoningID st1 = reasoningID st" "toolOrder st1 = toolOrder st" "openTools st1 = openTools st"
      "messageStarted st1 = messageStarted st" "textBuilder st1 = textBuilder st"
    by (subst st1(1), simp)+
  have "accepted (st2, tr2)"
    using accept_closeOpenMessage [OF A] accept_closeReasoningItem [of st1 tr1] opened same s1 s2 by simp
  moreover have "messageStarted st2 = messageStarted st1" "textPartOpen st2 = textPartOpen st1" "toolOrder st2 = toolOrder st1" "openTools st2 = openTools st1"
      "textBuilder st2 = textBuilder st1" "\<not> reasoningOpen st2"
    by (subst st2, simp)+
  ultimately show ?thesis
    using False s1 s2 st1(2) same by simp
qed

lemma finalize_accepted:
  assumes A: "accepting (st, tr)"
  shows "\<exists>st' name r tr'. finalize quiet responseID model failed (st, tr)
       = (nil_error, st', tr' @ [EvLifecycle name (sequence st' - 2) r, EvDone (sequence st' - 1)])
     \<and> (roStatus r = ''failed'' \<longleftrightarrow> failed) \<and> roOutputText r = builder_string (textBuilder st)
     \<and> (\<exists>c. client_run (tr' @ [EvLifecycle name (sequence st' - 2) r, EvDone (sequence st' - 1)]) client0 = Some c \<and> cPhase c = Finished)"
proof -
  let ?st0 = "st\<lparr>finalized := True\<rparr>"
  have S: "streaming st"
    using A by (simp add: accepting_def)
  have "slot ?st0 = slot st" "view ?st0 = view st" "tidy ?st0 = tidy st"
    by (rule owner_fun_eqI, simp_all)+ (simp add: tidy_def)
  then have A0: "accepted (?st0, tr)"
    using A accepted_silent [of st tr ?st0] by (auto simp: accepting_def accepted_def simulates_def)
  have opened: "reasoningOpen ?st0 \<Longrightarrow> reasoningID ?st0 \<noteq> []"
    using S by (simp add: streaming_def)
  let ?both = "\<lambda>m. if reasoning_first (fst m) then run_all [closeReasoningItem quiet, closeOpenMessage quiet] m
             else run_all [closeOpenMessage quiet, closeReasoningItem quiet] m"
  obtain st1 tr1 where s1: "?both (?st0, tr) = (nil_error, st1, tr1)" "accepted (st1, tr1)" "messageStarted st1 \<Longrightarrow> \<not> textPartOpen st1"
      "\<not> reasoningOpen st1" "toolOrder st1 = toolOrder st" "openTools st1 = openTools st" "textBuilder st1 = textBuilder st"
    using close_both [OF A0 opened] by auto
  let ?tools = "\<lambda>m. run_all (map (close_unclosed_tool quiet) (toolOrder (fst m))) m"
  obtain st2 tr2 where s2: "?tools (st1, tr1) = (nil_error, st2, tr2)" "accepted (st2, tr2)" "closed_upto (set (toolOrder st1)) st2"
      "dom (openTools st2) = dom (openTools st1)" "frame st2 = frame st1"
    using close_tools_loop [OF s1(2), of "{}" "toolOrder st1"] by (auto simp: closed_upto_def)
  obtain c where c: "client_run tr2 client0 = Some c" "simulates st2 c"
    using s2(2) by (auto simp: accepted_def)
  have "set (toolOrder st1) = dom (openTools st2)"
    using s1(2) s2(4) by (auto simp: accepted_def simulates_def tidy_def)
  then have closed: "all_closed st2"
    using s1(3,4) s2(3,5) by (auto simp: all_closed_def frame_def closed_upto_def ran_def)
  obtain name r where t: "terminal_object st2 responseID model failed = (name, r)"
    by (cases "terminal_object st2 responseID model failed")
  let ?n = "sequence st2"
  let ?es = "[EvLifecycle name ?n r, EvDone (?n + 1)]" and ?st3 = "st2\<lparr>sequence := ?n + 2\<rparr>"
  have steps: "run_all (modify f # as) (a, b) = run_all as (f a, b)" "fst (st1, tr1) = st1" for f as a b
    by (simp_all add: run_all_modify)
  have "finalize quiet responseID model failed (st, tr) = (nil_error, ?st3, tr2 @ ?es)"
    using S unfolding finalize_def when_do_def streaming_def
    by (simp only: steps run_all_ok [where a = ?both, OF s1(1)] run_all_ok [where a = ?tools, OF s2(1)] fst_conv if_True HOL.simp_thms) (simp add: t)
  moreover have "\<exists>c'. client_run (tr2 @ ?es) client0 = Some c' \<and> cPhase c' = Finished"
    using c terminal_accepted(1) [OF c(2) closed t] by (simp add: client_run_append client_step_def simulates_def)
  moreover have "roOutputText r = builder_string (textBuilder st2)"
    using t by (auto simp: terminal_object_def split: if_splits option.splits)
  then have "roOutputText r = builder_string (textBuilder st)"
    using s1(7) s2(5) by (simp add: frame_def)
  ultimately show ?thesis
    using terminal_accepted(2) [OF c(2) closed t] by (intro exI [of _ ?st3] exI [of _ name] exI [of _ r] exI [of _ tr2]) (simp add: add.commute)
qed

subsection \<open>The whole stream\<close>

lemma newStreamState_accepting:
  "accepting (snd (run_all [wrapped ''emit response.created'' (lifecycle quiet ''response.created'' responseID model),
     wrapped ''emit response.in_progress'' (lifecycle quiet ''response.in_progress'' responseID model)] (newStreamStateWithConfig cfg now, [])))"
proof -
  let ?st = "(newStreamStateWithConfig cfg now)\<lparr>sequence := 2\<rparr>"
  have none: "slot ?st = Map.empty" "view ?st = Map.empty"
    by (rule owner_fun_eqI; simp add: newStreamStateWithConfig_def)+
  have "tidy ?st" "streaming ?st"
    by (simp_all add: tidy_def streaming_def newStreamStateWithConfig_def newBoundedBuilder_def builder_string_def ErrStreamTextTooLarge_def)
  moreover have "simulates ?st \<lparr>cNext = 2, cPhase = Receiving, cItems = Map.empty, cCount = 0\<rparr>" if "tidy ?st"
    using that unfolding simulates_def none by (simp add: layout_def shows_views_def newStreamStateWithConfig_def)
  ultimately show ?thesis
    by (simp add: lifecycle_def accepting_def accepted_def client0_def client_step_def newStreamStateWithConfig_def)
qed

text \<open>C16: the Responses stream refines its client contract. Whatever chunks arrive and however the upstream
  ends, with an emitter that takes the events the client automaton accepts the whole sequence: consecutive
  sequence numbers, items announced, streamed and closed in order with the text their deltas add up to, one
  terminal event whose output array is the assembled items in index order, then \<open>done\<close>. The terminal says
  \<open>failed\<close> exactly when the conversion reports an interruption or an error.\<close>

theorem responses_stream_refines_client:
  "\<exists>st pre name n r c. snd (StreamWithConfig quiet responseID model cfg now ds fin) = (st, pre @ [EvLifecycle name n r, EvDone (n + 1)])
     \<and> client_run (pre @ [EvLifecycle name n r, EvDone (n + 1)]) client0 = Some c \<and> cPhase c = Finished
     \<and> (roStatus r = ''failed'' \<longleftrightarrow> fst (StreamWithConfig quiet responseID model cfg now ds fin) \<noteq> (False, nil_error))"
proof -
  let ?start = "run_all [wrapped ''emit response.created'' (lifecycle quiet ''response.created'' responseID model),
     wrapped ''emit response.in_progress'' (lifecycle quiet ''response.in_progress'' responseID model)]"
  let ?m = "snd (?start (newStreamStateWithConfig cfg now, []))"
  have stream: "StreamWithConfig quiet responseID model cfg now ds fin = convert_loop quiet responseID model ds fin ?m"
    by (simp add: StreamWithConfig_def Convert_def lifecycle_def)
  obtain m' failed where m': "accepting m'" "snd (convert_loop quiet responseID model ds fin ?m) = snd (finalize quiet responseID model failed m')"
      "if failed then fst (convert_loop quiet responseID model ds fin ?m) \<noteq> (False, nil_error)
       else fst (convert_loop quiet responseID model ds fin ?m) = (False, fst (finalize quiet responseID model False m'))"
    using accepting_deltas.loop_finalizes [OF newStreamState_accepting [of responseID model cfg now], of responseID model ds fin] by blast
  obtain st tr where "m' = (st, tr)"
    by (cases m')
  with m'(1) obtain st' name r tr' where fin: "finalize quiet responseID model failed m'
       = (nil_error, st', tr' @ [EvLifecycle name (sequence st' - 2) r, EvDone (sequence st' - 1)])"
     "roStatus r = ''failed'' \<longleftrightarrow> failed"
     "\<exists>c. client_run (tr' @ [EvLifecycle name (sequence st' - 2) r, EvDone (sequence st' - 1)]) client0 = Some c \<and> cPhase c = Finished"
    using finalize_accepted [of st tr responseID model failed] by auto
  have pred: "sequence st' - 1 = sequence st' - 2 + 1"
    by simp
  have "failed \<longleftrightarrow> fst (StreamWithConfig quiet responseID model cfg now ds fin) \<noteq> (False, nil_error)"
    using m'(3) fin(1) unfolding stream by (cases failed) simp_all
  then show ?thesis
    using fin m'(2) unfolding stream pred by (metis snd_conv)
qed

subsection \<open>The text that arrives is the text that is reported\<close>

definition text_is :: "string \<Rightarrow> machine \<Rightarrow> bool" where
  "text_is T m \<longleftrightarrow> builder_string (textBuilder (fst m)) = T \<and> builderErr (textBuilder (fst m)) \<noteq> nil_error"

definition appends :: "string \<Rightarrow> action \<Rightarrow> bool" where
  "appends s a \<longleftrightarrow> (\<forall>T m. text_is T m \<longrightarrow> fst (a m) = nil_error \<longrightarrow> text_is (T @ s) (snd (a m)))"

lemma appendsD: "appends s a \<Longrightarrow> text_is T m \<Longrightarrow> fst (a m) = nil_error \<Longrightarrow> text_is (T @ s) (snd (a m))"
  unfolding appends_def by blast

lemma appends_none: "(\<And>T. keeps (text_is T) a) \<Longrightarrow> appends [] a"
  unfolding appends_def keeps_def by auto

lemma appends_run: "appends [] (run_all [])" "appends s a \<Longrightarrow> appends s' (run_all as) \<Longrightarrow> appends (s @ s') (run_all (a # as))"
proof -
  show "appends [] (run_all [])"
    by (simp add: appends_def)
  show "appends (s @ s') (run_all (a # as))" if "appends s a" "appends s' (run_all as)"
    unfolding appends_def
  proof (intro allI impI)
    fix T m
    assume T: "text_is T m" and ok: "fst (run_all (a # as) m) = nil_error"
    have a: "fst (a m) = nil_error" "fst (run_all as (snd (a m))) = nil_error"
      using ok by (auto simp: case_prod_beta split: if_splits)
    then have "text_is ((T @ s) @ s') (snd (run_all as (snd (a m))))"
      using appendsD [OF that(2)] appendsD [OF that(1) T] by blast
    then show "text_is (T @ s @ s') (snd (run_all (a # as) m))"
      using a by (simp add: case_prod_beta)
  qed
qed

lemma appends_skip: "(\<And>T. keeps (text_is T) a) \<Longrightarrow> appends s (run_all as) \<Longrightarrow> appends s (run_all (a # as))"
  using appends_run(2) [OF appends_none] by fastforce

lemma appends_wrapped: "appends s a \<Longrightarrow> appends s (wrapped msg a)"
  unfolding appends_def wrapped_def by (simp add: case_prod_beta)

lemma appends_write_text: "appends s (write_text s)"
  unfolding appends_def
proof (intro allI impI)
  fix T m
  assume T: "text_is T m" and ok: "fst (write_text s m) = nil_error"
  have "builderErr (textBuilder (fst m)) \<noteq> nil_error"
    using T by (simp add: text_is_def)
  then show "text_is (T @ s) (snd (write_text s m))"
    by (cases rule: builder_write_cases [where s = s]) (use T ok in \<open>simp_all add: write_text_def text_is_def\<close>)
qed

lemma text_is_emit: "keeps (text_is T) (emit E mk)"
  by (simp add: keeps_def text_is_def emit_def Let_def)

lemma text_is_modify: "(\<And>st. textBuilder (f st) = textBuilder st) \<Longrightarrow> keeps (text_is T) (modify f)"
  by (simp add: keeps_def text_is_def modify_def)

lemma text_is_writes: "keeps (text_is T) (write_reasoning s)" "keeps (text_is T) (write_arguments k s)"
  by (simp_all add: keeps_def text_is_def write_reasoning_def write_arguments_def update_tool_def case_prod_beta)

lemmas text_is_intros = keeps_when_do keeps_run_list keeps_wrapped text_is_emit text_is_writes text_is_modify

lemma text_is_tool: "keeps (text_is T) (ensureToolAdded E k)" "keeps (text_is T) (applyToolCall E call)"
  unfolding applyToolCall_def ensureToolAdded_def Let_def by (intro text_is_intros; simp add: update_tool_def open_tool_def)+

lemma text_is_reasoning: "keeps (text_is T) (emitReasoningDelta E s responseID)"
  unfolding emitReasoningDelta_def by (intro text_is_intros) simp_all

lemma text_is_closing:
  "keeps (text_is T) (closeOpenMessage E)" "keeps (text_is T) (closeReasoningItem E)" "keeps (text_is T) (close_unclosed_tool E k)"
  unfolding closeOpenMessage_def closeReasoningItem_def close_unclosed_tool_def closeTool_def
  by (intro text_is_intros text_is_tool; simp add: update_tool_def)+

lemma appends_text: "appends s (emitTextDelta E s responseID)"
proof -
  have pre: "appends [] (when_do (\<lambda>st. \<not> messageStarted st) (openMessage E responseID))"
    unfolding openMessage_def by (rule appends_none) (intro text_is_intros; simp)
  have "appends (s @ [] @ []) (run_all [wrapped ''accumulate assistant text'' (write_text s), emit E (\<lambda>st n. EvTextDelta n (messageID st) (messageIndex st) s)])"
    by (intro appends_run appends_wrapped appends_write_text appends_none text_is_emit)
  then have "appends s (when_do (\<lambda>st. s \<noteq> []) (run_all [wrapped ''accumulate assistant text'' (write_text s),
      emit E (\<lambda>st n. EvTextDelta n (messageID st) (messageIndex st) s)]))"
    unfolding appends_def when_do_def skip_def by simp
  then show ?thesis
    unfolding emitTextDelta_def using appends_run(2) [OF pre appends_run(2) [OF _ appends_run(1)]] by simp
qed

lemma appends_tools: "appends [] (run_all (map (applyToolCall E) calls @ [modify f]))" if "\<And>st. textBuilder (f st) = textBuilder st"
proof (induction calls)
  case Nil
  show ?case
    using that by (intro appends_none) (simp only: list.map append_Nil, intro text_is_intros)
next
  case (Cons call calls)
  show ?case
    unfolding list.map append_Cons by (rule appends_skip [OF text_is_tool(2) Cons.IH])
qed

lemma appends_delta: "appends (deltaContent d) (applyDelta E responseID d)"
proof -
  let ?text = "when_do (\<lambda>st. deltaContent d \<noteq> [] \<or> deltaFinishReason d \<noteq> [] \<and> messageStarted st \<and> textPartOpen st)
         (emitTextDelta E (deltaContent d) responseID)"
  have "appends (deltaContent d) ?text"
    using appends_text [of "deltaContent d" E responseID] unfolding appends_def when_do_def skip_def by auto
  then have "appends (deltaContent d @ []) (run_all (?text # (map (applyToolCall E) (deltaToolCalls d)
      @ [modify (\<lambda>st. if deltaFinishReason d \<noteq> [] then st\<lparr>finishReason := deltaFinishReason d\<rparr> else st)])))"
    by (rule appends_run(2)) (rule appends_tools, simp)
  then show ?thesis
    unfolding applyDelta_def append_Cons append_Nil append_Nil2
    by (intro appends_skip [OF text_is_modify] appends_skip [OF keeps_when_do [OF text_is_reasoning]]) simp
qed

lemma text_is_loop:
  assumes "text_is T m" "accepting m" "fst (convert_loop quiet responseID model ds SrcCompleted m) = (False, nil_error)"
  shows "\<exists>m'. text_is (T @ concat (map deltaContent ds)) m' \<and> accepting m'
     \<and> snd (convert_loop quiet responseID model ds SrcCompleted m) = snd (finalize quiet responseID model False m')"
  using assms
proof (induction ds arbitrary: T m)
  case Nil
  then show ?case
    by (intro exI [of _ m]) (auto simp: case_prod_beta)
next
  case (Cons d ds)
  have ok: "fst (applyDelta quiet responseID d m) = nil_error"
    using Cons.prems(3) by (auto simp: case_prod_beta final_error_def split: if_splits)
  then have step: "convert_loop quiet responseID model (d # ds) SrcCompleted m = convert_loop quiet responseID model ds SrcCompleted (snd (applyDelta quiet responseID d m))"
    by (simp add: case_prod_beta)
  show ?case
    using Cons.IH [OF appendsD [OF appends_delta Cons.prems(1) ok] keepsD [OF accepting_deltas.keeps_delta Cons.prems(2)]] Cons.prems(3) unfolding step by simp
qed

definition sample_config :: responseConfig where
  "sample_config = \<lparr>cfgInstructions = [], cfgMaxOutputTokens = [], cfgParallelToolCalls = [], cfgReasoning = [], cfgTemperature = [], cfgText = [],
     cfgToolChoice = [], cfgTools = [], cfgTopP = [], cfgUser = []\<rparr>"

definition sample_delta :: chatDelta where
  "sample_delta = \<lparr>deltaContent = [], deltaReasoning = [], deltaFinishReason = ''stop'',
     deltaToolCalls = [\<lparr>callIndex = 0, callId = ''c'', callName = ''f'', callArguments = ''{}''\<rparr>], deltaUsage = None\<rparr>"

definition sample_text :: "string \<Rightarrow> chatDelta" where
  "sample_text s = \<lparr>deltaContent = s, deltaReasoning = [], deltaFinishReason = [], deltaToolCalls = [], deltaUsage = None\<rparr>"

text \<open>The definitions that evaluate a small stream.\<close>

lemmas stream_eval = StreamWithConfig_def Convert_def lifecycle_def applyDelta_def sample_delta_def sample_text_def emitTextDelta_def openMessage_def
  applyToolCall_def ensureToolAdded_def when_do_def skip_def write_text_def write_arguments_def builder_write_def newBoundedBuilder_def
  newStreamStateWithConfig_def open_tool_def correct_tool_def update_tool_def the_tool_def finalize_def reasoning_first_def closeOpenMessage_def
  closeReasoningItem_def close_unclosed_tool_def closeTool_def Let_def callID_def maxToolArgumentsBytes_def maxStreamTextBytes_def builder_string_def

text \<open>C17: the text that arrived is the text that is reported. When a stream completes without an error, the
  terminal event's \<open>output_text\<close> is the concatenation of the contents of all chunks, in order.\<close>

theorem responses_text_delivered:
  assumes "fst (StreamWithConfig quiet responseID model cfg now ds SrcCompleted) = (False, nil_error)"
  shows "\<exists>st pre name n r. snd (StreamWithConfig quiet responseID model cfg now ds SrcCompleted) = (st, pre @ [EvLifecycle name n r, EvDone (n + 1)])
     \<and> roOutputText r = concat (map deltaContent ds)"
proof -
  let ?start = "run_all [wrapped ''emit response.created'' (lifecycle quiet ''response.created'' responseID model),
     wrapped ''emit response.in_progress'' (lifecycle quiet ''response.in_progress'' responseID model)]"
  let ?m = "snd (?start (newStreamStateWithConfig cfg now, []))"
  have stream: "StreamWithConfig quiet responseID model cfg now ds SrcCompleted = convert_loop quiet responseID model ds SrcCompleted ?m"
    by (simp add: StreamWithConfig_def Convert_def lifecycle_def)
  have "text_is [] ?m"
    by (simp add: lifecycle_def text_is_def newStreamStateWithConfig_def newBoundedBuilder_def builder_string_def ErrStreamTextTooLarge_def)
  then obtain st tr where m': "text_is (concat (map deltaContent ds)) (st, tr)" "accepting (st, tr)"
     "snd (convert_loop quiet responseID model ds SrcCompleted ?m) = snd (finalize quiet responseID model False (st, tr))"
    using text_is_loop [OF _ newStreamState_accepting, of "[]" responseID model cfg now responseID model ds] assms unfolding stream by auto
  obtain st' name r tr' where fin: "finalize quiet responseID model False (st, tr)
       = (nil_error, st', tr' @ [EvLifecycle name (sequence st' - 2) r, EvDone (sequence st' - 1)])" "roOutputText r = builder_string (textBuilder st)"
    using finalize_accepted [OF m'(2), of responseID model False] by blast
  have pred: "sequence st' - 1 = sequence st' - 2 + 1"
    by simp
  show ?thesis
    using fin m'(1,3) unfolding stream pred text_is_def by (metis fst_conv snd_conv)
qed

theorem responses_text_delivered_witness:
  "\<exists>st pre name n r. snd (StreamWithConfig quiet ''resp_1'' ''m'' sample_config 0 [sample_text ''he'', sample_text ''y''] SrcCompleted)
     = (st, pre @ [EvLifecycle name n r, EvDone (n + 1)]) \<and> roOutputText r = ''hey''"
proof -
  have "fst (StreamWithConfig quiet ''resp_1'' ''m'' sample_config 0 [sample_text ''he'', sample_text ''y''] SrcCompleted) = (False, nil_error)"
    by (simp add: stream_eval wrapped_def [of _ "write_text _"])
  from responses_text_delivered [OF this] show ?thesis
    by (simp add: sample_text_def)
qed

text \<open>Whatever the emitter answers, the events carry the sequence numbers 0, 1, 2 and so on without a gap,
  the failed emissions and the closing events after an error included.\<close>

theorem responses_events_numbered:
  "map event_seq (snd (snd (StreamWithConfig E responseID model cfg now ds fin)))
     = map int [0..<length (snd (snd (StreamWithConfig E responseID model cfg now ds fin)))]"
proof -
  have "numbered (newStreamStateWithConfig cfg now, [])"
    by (simp add: numbered_def newStreamStateWithConfig_def)
  then show ?thesis
    using numbering.keeps_convert [of "newStreamStateWithConfig cfg now" E responseID model ds fin] by (simp add: StreamWithConfig_def numbered_def)
qed

text \<open>a stream retains at most 16 MiB of text, 16 MiB of reasoning and 16 MiB of arguments per tool call,
  whatever the upstream sends and the emitter answers.\<close>

theorem responses_memory_bounded:
  "(case fst (snd (StreamWithConfig E responseID model cfg now ds fin)) of st \<Rightarrow>
      int (length (builder_string (textBuilder st))) \<le> maxStreamTextBytes
    \<and> int (length (builder_string (reasoningBuilder st))) \<le> maxStreamTextBytes
    \<and> (\<forall>t \<in> ran (openTools st). int (length (builder_string (toolArguments t))) \<le> maxToolArgumentsBytes))"
proof -
  have "in_budget (newStreamStateWithConfig cfg now, [])"
    by (simp add: in_budget_def newStreamStateWithConfig_def builder_ok_new maxStreamTextBytes_def)
  then have "in_budget (snd (StreamWithConfig E responseID model cfg now ds fin))"
    unfolding StreamWithConfig_def by (rule budget.keeps_convert)
  then show ?thesis
    by (auto simp: in_budget_def builder_ok_def)
qed

theorem responses_memory_bounded_witness:
  "\<exists>t. openTools (fst (snd (StreamWithConfig quiet ''resp_1'' ''m'' sample_config 0 [sample_delta] SrcCompleted))) 0 = Some t
     \<and> builder_string (toolArguments t) = ''{}'' \<and> int (length (builder_string (toolArguments t))) \<le> maxToolArgumentsBytes"
proof -
  let ?st = "fst (snd (StreamWithConfig quiet ''resp_1'' ''m'' sample_config 0 [sample_delta] SrcCompleted))"
  have run: "map_option (\<lambda>t. builder_string (toolArguments t)) (openTools ?st 0) = Some ''{}''"
    by (simp add: stream_eval wrapped_def [of _ "write_arguments _ _"])
  then obtain t where t: "openTools ?st 0 = Some t" "builder_string (toolArguments t) = ''{}''"
    by blast
  then show ?thesis
    using responses_memory_bounded [of quiet "''resp_1''" "''m''" sample_config 0 "[sample_delta]" SrcCompleted] by (auto simp: ran_def)
qed

end
