(* ===== verification/Log_Buffer.thy ===== *)
theory Log_Buffer
  imports Fault "HOL-Library.Sublist"
begin

text \<open>
  \<open>internal/observability/buffer.go\<close>: request records pass through a bounded channel to one flusher
  goroutine that writes them in batches. The state holds the channel, the flags, the counters, where
  the flusher is in its code with the records it holds, and what the database has stored. A step is one
  atomic action of some goroutine: a send, a receive, one \<open>RecordBatch\<close> call with its outcome, a timer.
\<close>

subsection \<open>Configuration\<close>

definition DefaultBufferCapacity :: int where "DefaultBufferCapacity = 4096"
definition DefaultFlushBatchSize :: int where "DefaultFlushBatchSize = 512"
definition DefaultFlushRetryCount :: int where "DefaultFlushRetryCount = 3"
definition ErrBufferStopped :: goError where "ErrBufferStopped = [OtherError ''observability buffer is stopped'']"

record bufferConfig =
  bufCapacity :: nat
  bufBatchSize :: nat
  bufFlushRetries :: nat

definition NewBufferRecorder :: "int \<Rightarrow> int \<Rightarrow> int \<Rightarrow> bufferConfig" where
  "NewBufferRecorder capacity batchSize retries =
     \<lparr>bufCapacity = nat (if capacity \<le> 0 then DefaultBufferCapacity else capacity),
      bufBatchSize = nat (if batchSize \<le> 0 then DefaultFlushBatchSize else batchSize),
      bufFlushRetries = nat (if retries \<le> 0 then DefaultFlushRetryCount else retries)\<rparr>"

subsection \<open>State\<close>

text \<open>For whom a flush runs: the loop, a \<open>ForceFlush\<close> request, the final drain.\<close>

datatype flushFor = ForLoop | ForForce nat | ForDrain

text \<open>
  Where the flusher is: before \<open>Run\<close>; in the select of \<open>loop\<close>; in \<open>slurp\<close>; in \<open>drainChannel\<close> (pending and
  drained records); before a \<open>RecordBatch\<close> call (records not yet stored, attempt number); waiting to
  retry; back from the loop before \<open>markStopping\<close>; collecting a batch in \<open>drain\<close>; after a failed batch
  of \<open>drain\<close>; returned.
\<close>

datatype 'r flusher =
    Idle
  | Selecting "'r list"
  | Slurping "'r list"
  | ForceDraining "'r list" "'r list" nat
  | Flushing flushFor "'r list" nat
  | RetryWait flushFor "'r list" nat goError
  | Leaving "'r list"
  | Collecting "'r list"
  | DrainFailed "'r list"
  | Exited "'r list"

record 'r buffer =
  bufChan :: "'r list"
  bufStopping :: bool
  bufDropped :: nat
  bufFlushFailed :: nat
  bufFlusher :: "'r flusher"
  bufReplies :: "(nat \<times> goError) list"
  bufStored :: "'r list"

definition new_buffer :: "'r buffer" where
  "new_buffer = \<lparr>bufChan = [], bufStopping = False, bufDropped = 0, bufFlushFailed = 0, bufFlusher = Idle, bufReplies = [], bufStored = []\<rparr>"

subsection \<open>Operations of the other goroutines\<close>

definition buf_Record :: "bufferConfig \<Rightarrow> 'r \<Rightarrow> 'r buffer \<Rightarrow> goError \<times> 'r buffer" where
  "buf_Record cfg r b =
     (if bufStopping b then (ErrBufferStopped, b)
      else if length (bufChan b) < bufCapacity cfg then (nil_error, b\<lparr>bufChan := bufChan b @ [r]\<rparr>)
      else (nil_error, b\<lparr>bufDropped := bufDropped b + 1\<rparr>))"

definition markStopping :: "'r buffer \<Rightarrow> 'r buffer" where
  "markStopping b = b\<lparr>bufStopping := True\<rparr>"

definition buf_Stop :: "'r buffer \<Rightarrow> 'r buffer" where
  "buf_Stop b = markStopping b"

definition buf_Run :: "'r buffer \<Rightarrow> 'r buffer" where
  "buf_Run b = (case bufFlusher b of Idle \<Rightarrow> b\<lparr>bufFlusher := Selecting []\<rparr> | _ \<Rightarrow> b)"

text \<open>
  \<open>ForceFlush\<close> as its caller sees it: what each of its loads and selects returns. The first component
  tells whether the request reached the flusher.
\<close>

datatype flushWait = WaitStarted | WaitStopped | WaitCancelled goError
datatype sendEvent = SendTaken | SendStopped | SendCancelled goError
datatype answerEvent = AnswerResult goError | AnswerCancelled goError

definition ForceFlush :: "bool \<Rightarrow> bool \<Rightarrow> flushWait \<Rightarrow> bool \<Rightarrow> sendEvent \<Rightarrow> answerEvent \<Rightarrow> bool \<times> goError" where
  "ForceFlush startRequested running waited runningNow sent answer =
     (let request = (case sent of
            SendTaken \<Rightarrow> (True, case answer of AnswerResult err \<Rightarrow> err | AnswerCancelled err \<Rightarrow> err)
          | SendStopped \<Rightarrow> (False, nil_error)
          | SendCancelled err \<Rightarrow> (False, err))
      in if \<not> startRequested then (False, nil_error)
         else if running then request
         else case waited of
            WaitStopped \<Rightarrow> (False, nil_error)
          | WaitCancelled err \<Rightarrow> (False, err)
          | WaitStarted \<Rightarrow> if runningNow then request else (False, nil_error))"

subsection \<open>The flusher\<close>

text \<open>What happens next to the flusher: a case of a select, a step of its own, an outcome.\<close>

datatype bufInput =
    CtxDone
  | StopSeen
  | ReceiveRecord
  | TimerFired
  | ForceRequest nat
  | Proceed
  | BatchOutcome goError
  | RetryTimer
  | RetryCancelled goError
  | DrainExpired bool

definition flush_done :: "flushFor \<Rightarrow> 'r list \<Rightarrow> goError \<Rightarrow> 'r buffer \<Rightarrow> 'r buffer" where
  "flush_done kind remaining err b =
     (case kind of
        ForLoop \<Rightarrow> b\<lparr>bufFlusher := Selecting remaining\<rparr>
      | ForForce request \<Rightarrow> b\<lparr>bufFlusher := Selecting remaining, bufReplies := bufReplies b @ [(request, err)]\<rparr>
      | ForDrain \<Rightarrow> b\<lparr>bufFlusher := if err = nil_error then Collecting remaining else DrainFailed remaining\<rparr>)"

definition flushRecords :: "flushFor \<Rightarrow> 'r list \<Rightarrow> 'r buffer \<Rightarrow> 'r buffer" where
  "flushRecords kind records b = (if records = [] then flush_done kind [] nil_error b else b\<lparr>bufFlusher := Flushing kind records 0\<rparr>)"

definition select_step :: "bufferConfig \<Rightarrow> bufInput \<Rightarrow> 'r list \<Rightarrow> 'r buffer \<Rightarrow> 'r buffer option" where
  "select_step cfg input pending b =
     (case input of
        CtxDone \<Rightarrow> Some (b\<lparr>bufFlusher := Leaving pending\<rparr>)
      | StopSeen \<Rightarrow> if bufStopping b then Some (b\<lparr>bufFlusher := Leaving pending\<rparr>) else None
      | ReceiveRecord \<Rightarrow>
          (case bufChan b of
             [] \<Rightarrow> None
           | r # rs \<Rightarrow>
               if length pending < bufBatchSize cfg
               then Some (b\<lparr>bufChan := rs, bufFlusher := if length pending + 1 \<ge> bufBatchSize cfg then Slurping (pending @ [r]) else Selecting (pending @ [r])\<rparr>)
               else None)
      | TimerFired \<Rightarrow> Some (b\<lparr>bufFlusher := if pending \<noteq> [] then Slurping pending else Selecting pending\<rparr>)
      | ForceRequest request \<Rightarrow> Some (b\<lparr>bufFlusher := ForceDraining pending [] request\<rparr>)
      | _ \<Rightarrow> None)"

definition slurp_step :: "bufferConfig \<Rightarrow> 'r list \<Rightarrow> 'r buffer \<Rightarrow> 'r buffer" where
  "slurp_step cfg pending b =
     (case bufChan b of
        r # rs \<Rightarrow> if length pending < bufBatchSize cfg then b\<lparr>bufChan := rs, bufFlusher := Slurping (pending @ [r])\<rparr>
                  else flushRecords ForLoop pending b
      | [] \<Rightarrow> flushRecords ForLoop pending b)"

definition drainChannel_step :: "'r list \<Rightarrow> 'r list \<Rightarrow> nat \<Rightarrow> 'r buffer \<Rightarrow> 'r buffer" where
  "drainChannel_step pending channelled request b =
     (case bufChan b of
        r # rs \<Rightarrow> b\<lparr>bufChan := rs, bufFlusher := ForceDraining pending (channelled @ [r]) request\<rparr>
      | [] \<Rightarrow> flushRecords (ForForce request) (pending @ channelled) b)"

definition drain_step :: "bufferConfig \<Rightarrow> 'r list \<Rightarrow> 'r buffer \<Rightarrow> 'r buffer" where
  "drain_step cfg pending b =
     (case bufChan b of
        r # rs \<Rightarrow> if length pending < bufBatchSize cfg then b\<lparr>bufChan := rs, bufFlusher := Collecting (pending @ [r])\<rparr>
                  else flushRecords ForDrain pending b
      | [] \<Rightarrow> if pending = [] then b\<lparr>bufFlusher := Exited []\<rparr> else flushRecords ForDrain pending b)"

text \<open>One call of \<open>RecordBatch\<close> on the next batch: \<open>flushPending\<close> and \<open>recordBatchWithRetry\<close>.\<close>

definition batch_step :: "bufferConfig \<Rightarrow> flushFor \<Rightarrow> 'r list \<Rightarrow> nat \<Rightarrow> goError \<Rightarrow> 'r buffer \<Rightarrow> 'r buffer" where
  "batch_step cfg kind records attempt err b =
     (if err = nil_error then
        let b1 = b\<lparr>bufStored := bufStored b @ take (bufBatchSize cfg) records\<rparr>; rest = drop (bufBatchSize cfg) records
        in if rest = [] then flush_done kind [] nil_error b1 else b1\<lparr>bufFlusher := Flushing kind rest 0\<rparr>
      else
        let b1 = b\<lparr>bufFlushFailed := bufFlushFailed b + 1\<rparr>
        in if attempt = bufFlushRetries cfg then flush_done kind records err b1
           else b1\<lparr>bufFlusher := RetryWait kind records attempt err\<rparr>)"

definition flusher_step :: "bufferConfig \<Rightarrow> bufInput \<Rightarrow> 'r buffer \<Rightarrow> 'r buffer option" where
  "flusher_step cfg input b =
     (case bufFlusher b of
        Selecting pending \<Rightarrow> select_step cfg input pending b
      | Slurping pending \<Rightarrow> if input = Proceed then Some (slurp_step cfg pending b) else None
      | ForceDraining pending channelled request \<Rightarrow> if input = Proceed then Some (drainChannel_step pending channelled request b) else None
      | Flushing kind records attempt \<Rightarrow>
          (case input of BatchOutcome err \<Rightarrow> Some (batch_step cfg kind records attempt err b) | _ \<Rightarrow> None)
      | RetryWait kind records attempt err \<Rightarrow>
          (case input of
             RetryTimer \<Rightarrow> Some (b\<lparr>bufFlusher := Flushing kind records (attempt + 1)\<rparr>)
           | RetryCancelled ctxErr \<Rightarrow>
               if ctxErr = nil_error then None
               else if kind = ForDrain then Some (b\<lparr>bufFlusher := Exited records\<rparr>) else Some (flush_done kind records ctxErr b)
           | _ \<Rightarrow> None)
      | Leaving pending \<Rightarrow> if input = Proceed then Some ((markStopping b)\<lparr>bufFlusher := Collecting pending\<rparr>) else None
      | Collecting pending \<Rightarrow> if input = Proceed then Some (drain_step cfg pending b) else None
      | DrainFailed pending \<Rightarrow>
          (case input of DrainExpired True \<Rightarrow> Some (b\<lparr>bufFlusher := Exited pending\<rparr>)
           | DrainExpired False \<Rightarrow> Some (b\<lparr>bufFlusher := Collecting pending\<rparr>) | _ \<Rightarrow> None)
      | _ \<Rightarrow> None)"

subsection \<open>The machine\<close>

datatype 'r bufAction = ActRecord 'r | ActStop | ActRun | ActFlusher bufInput

fun buffer_step :: "bufferConfig \<Rightarrow> 'r bufAction \<Rightarrow> 'r buffer \<Rightarrow> 'r buffer option" where
  "buffer_step cfg (ActRecord r) b = Some (snd (buf_Record cfg r b))"
| "buffer_step cfg ActStop b = Some (buf_Stop b)"
| "buffer_step cfg ActRun b = Some (buf_Run b)"
| "buffer_step cfg (ActFlusher input) b = flusher_step cfg input b"

primrec buffer_run :: "bufferConfig \<Rightarrow> 'r bufAction list \<Rightarrow> 'r buffer \<Rightarrow> 'r buffer option" where
  "buffer_run cfg [] b = Some b"
| "buffer_run cfg (a # as) b = (case buffer_step cfg a b of None \<Rightarrow> None | Some b' \<Rightarrow> buffer_run cfg as b')"

text \<open>The records that \<open>Record\<close> put into the channel, in order, and how many it dropped.\<close>

definition takes :: "bufferConfig \<Rightarrow> 'r buffer \<Rightarrow> bool" where
  "takes cfg b \<longleftrightarrow> \<not> bufStopping b \<and> length (bufChan b) < bufCapacity cfg"

fun enqueued :: "bufferConfig \<Rightarrow> 'r bufAction list \<Rightarrow> 'r buffer \<Rightarrow> 'r list" where
  "enqueued cfg [] b = []"
| "enqueued cfg (a # as) b =
     (case a of ActRecord r \<Rightarrow> if takes cfg b then [r] else [] | _ \<Rightarrow> [])
     @ (case buffer_step cfg a b of None \<Rightarrow> [] | Some b' \<Rightarrow> enqueued cfg as b')"

fun held :: "'r flusher \<Rightarrow> 'r list" where
  "held Idle = []"
| "held (Selecting pending) = pending"
| "held (Slurping pending) = pending"
| "held (ForceDraining pending channelled request) = pending @ channelled"
| "held (Flushing kind records attempt) = records"
| "held (RetryWait kind records attempt err) = records"
| "held (Leaving pending) = pending"
| "held (Collecting pending) = pending"
| "held (DrainFailed pending) = pending"
| "held (Exited pending) = pending"

definition in_transit :: "'r buffer \<Rightarrow> 'r list" where
  "in_transit b = bufStored b @ held (bufFlusher b) @ bufChan b"

lemmas flusher_defs = flusher_step_def select_step_def slurp_step_def drainChannel_step_def drain_step_def batch_step_def
  flushRecords_def flush_done_def markStopping_def

text \<open>No step of the flusher loses, repeats or reorders a record.\<close>

lemma flusher_in_transit: "flusher_step cfg input b = Some b' \<Longrightarrow> in_transit b' = in_transit b"
  by (auto simp: flusher_defs in_transit_def Let_def split: flusher.splits bufInput.splits list.splits if_splits flushFor.splits bool.splits)

subsection \<open>Conservation\<close>

lemma step_in_transit:
  assumes "buffer_step cfg a b = Some b'"
  shows "in_transit b' = in_transit b @ (case a of ActRecord r \<Rightarrow> if takes cfg b then [r] else [] | _ \<Rightarrow> [])"
proof (cases a)
  case (ActFlusher input)
  then show ?thesis
    using assms flusher_in_transit by simp
next
  case ActRun
  then show ?thesis
    using assms by (auto simp: buf_Run_def in_transit_def split: flusher.splits)
qed (use assms in \<open>auto simp: buf_Record_def buf_Stop_def markStopping_def in_transit_def takes_def\<close>)

lemma run_in_transit: "buffer_run cfg as b = Some b' \<Longrightarrow> in_transit b' = in_transit b @ enqueued cfg as b"
proof (induction as arbitrary: b)
  case (Cons a as)
  then obtain b1 where b1: "buffer_step cfg a b = Some b1" "buffer_run cfg as b1 = Some b'"
    by (auto split: option.splits)
  then show ?case
    using Cons.IH [OF b1(2)] step_in_transit [OF b1(1)] by simp
qed simp

fun flusher_fine :: "bool \<Rightarrow> 'r list \<Rightarrow> 'r flusher \<Rightarrow> bool" where
  "flusher_fine stopping ch (Flushing kind records attempt) \<longleftrightarrow> records \<noteq> [] \<and> (kind = ForDrain \<longrightarrow> stopping)"
| "flusher_fine stopping ch (RetryWait kind records attempt err) \<longleftrightarrow> records \<noteq> [] \<and> (kind = ForDrain \<longrightarrow> stopping)"
| "flusher_fine stopping ch (DrainFailed pending) \<longleftrightarrow> pending \<noteq> [] \<and> stopping"
| "flusher_fine stopping ch (Collecting pending) \<longleftrightarrow> stopping"
| "flusher_fine stopping ch (Exited pending) \<longleftrightarrow> stopping \<and> (pending = [] \<longrightarrow> ch = [])"
| "flusher_fine stopping ch _ \<longleftrightarrow> True"

definition buffer_ok :: "bufferConfig \<Rightarrow> 'r buffer \<Rightarrow> bool" where
  "buffer_ok cfg b \<longleftrightarrow> length (bufChan b) \<le> bufCapacity cfg \<and> flusher_fine (bufStopping b) (bufChan b) (bufFlusher b)"

lemma flush_done_ok:
  "length (bufChan b) \<le> bufCapacity cfg \<Longrightarrow> kind = ForDrain \<longrightarrow> bufStopping b \<Longrightarrow> err \<noteq> nil_error \<longrightarrow> remaining \<noteq> [] \<Longrightarrow>
   buffer_ok cfg (flush_done kind remaining err b)"
  by (cases kind) (simp_all add: flush_done_def buffer_ok_def)

lemma flushRecords_ok:
  "length (bufChan b) \<le> bufCapacity cfg \<Longrightarrow> kind = ForDrain \<longrightarrow> bufStopping b \<Longrightarrow> buffer_ok cfg (flushRecords kind records b)"
  by (simp add: flushRecords_def flush_done_ok) (simp add: buffer_ok_def)

lemmas flush_oks = flushRecords_ok [unfolded buffer_ok_def] flush_done_ok [unfolded buffer_ok_def]

lemma flusher_ok:
  assumes ok: "buffer_ok cfg b" and step: "flusher_step cfg input b = Some b'"
  shows "buffer_ok cfg b'"
proof (cases "bufFlusher b")
  case (Selecting pending)
  then show ?thesis
    using ok step by (auto simp: flusher_step_def select_step_def buffer_ok_def split: bufInput.splits list.splits if_splits)
next
  case (Slurping pending)
  then show ?thesis
    using ok step by (auto simp: flusher_step_def slurp_step_def flush_oks buffer_ok_def split: list.splits if_splits)
next
  case (ForceDraining pending channelled request)
  then show ?thesis
    using ok step by (auto simp: flusher_step_def drainChannel_step_def flush_oks buffer_ok_def split: list.splits if_splits)
next
  case (Flushing kind records attempt)
  then show ?thesis
    using ok step
    by (auto simp: flusher_step_def batch_step_def Let_def flush_oks buffer_ok_def split: bufInput.splits if_splits)
next
  case (RetryWait kind records attempt err)
  then show ?thesis
    using ok step by (auto simp: flusher_step_def flush_oks buffer_ok_def split: bufInput.splits if_splits)
next
  case (Collecting pending)
  then show ?thesis
    using ok step by (auto simp: flusher_step_def drain_step_def flush_oks buffer_ok_def split: list.splits if_splits)
qed (use ok step in \<open>auto simp: flusher_step_def buffer_ok_def markStopping_def split: bufInput.splits if_splits bool.splits\<close>)

lemma flusher_fine_stop: "flusher_fine stopping ch fl \<Longrightarrow> flusher_fine True ch fl"
  by (cases fl) auto

lemma flusher_fine_chan: "\<not> stopping \<Longrightarrow> flusher_fine stopping ch fl \<Longrightarrow> flusher_fine stopping ch' fl"
  by (cases fl) auto

lemma step_ok: "buffer_ok cfg b \<Longrightarrow> buffer_step cfg a b = Some b' \<Longrightarrow> buffer_ok cfg b'"
proof (cases a)
  case (ActRecord r)
  assume "buffer_ok cfg b" "buffer_step cfg a b = Some b'"
  then show ?thesis
    using flusher_fine_chan [of "bufStopping b" "bufChan b" "bufFlusher b"] by (auto simp: ActRecord buf_Record_def buffer_ok_def split: if_splits)
next
  case ActStop
  assume "buffer_ok cfg b" "buffer_step cfg a b = Some b'"
  then show ?thesis
    using flusher_fine_stop [of "bufStopping b" "bufChan b" "bufFlusher b"] by (auto simp: ActStop buf_Stop_def markStopping_def buffer_ok_def)
next
  case ActRun
  assume "buffer_ok cfg b" "buffer_step cfg a b = Some b'"
  then show ?thesis
    by (cases "bufFlusher b") (auto simp: ActRun buf_Run_def buffer_ok_def)
next
  case (ActFlusher input)
  assume "buffer_ok cfg b" "buffer_step cfg a b = Some b'"
  then show ?thesis
    using flusher_ok by (auto simp: ActFlusher)
qed

lemma run_ok: "buffer_ok cfg b \<Longrightarrow> buffer_run cfg as b = Some b' \<Longrightarrow> buffer_ok cfg b'"
  by (induction as arbitrary: b) (auto split: option.splits dest: step_ok)

lemma new_buffer_ok: "buffer_ok cfg new_buffer"
  by (simp add: buffer_ok_def new_buffer_def)

text \<open>C24: the request log loses nothing on its way. In every interleaving of the recording goroutines, the
  stop signal and the flusher, with any outcomes of the database writes, the records stored, then those
  the flusher holds, then those in the channel are exactly the records that entered the channel, in
  order; the channel never exceeds its capacity; and once the flusher has returned without giving up,
  everything is stored.\<close>

theorem buffer_conserves:
  assumes "buffer_run cfg as new_buffer = Some b"
  shows "bufStored b @ held (bufFlusher b) @ bufChan b = enqueued cfg as new_buffer
    \<and> length (bufChan b) \<le> bufCapacity cfg
    \<and> (bufFlusher b = Exited [] \<longrightarrow> bufStored b = enqueued cfg as new_buffer)"
proof -
  have "bufStored b @ held (bufFlusher b) @ bufChan b = enqueued cfg as new_buffer"
    using run_in_transit [OF assms] by (simp add: in_transit_def new_buffer_def)
  moreover have "buffer_ok cfg b"
    using run_ok [OF new_buffer_ok assms] .
  ultimately show ?thesis
    by (auto simp: buffer_ok_def)
qed

definition sample_buffer :: bufferConfig where "sample_buffer = NewBufferRecorder 2 1 1"

definition sample_actions :: "nat bufAction list" where
  "sample_actions = [ActRecord 1, ActRecord 2, ActRecord 3, ActRun, ActFlusher ReceiveRecord, ActFlusher Proceed, ActFlusher (BatchOutcome ErrBufferStopped),
     ActRecord 4, ActFlusher RetryTimer, ActFlusher (BatchOutcome nil_error), ActStop, ActRecord 5, ActFlusher StopSeen, ActFlusher Proceed,
     ActFlusher Proceed, ActFlusher Proceed, ActFlusher (BatchOutcome nil_error), ActFlusher Proceed, ActFlusher Proceed,
     ActFlusher (BatchOutcome nil_error), ActFlusher Proceed]"

theorem buffer_conserves_witness:
  "\<exists>b. buffer_run sample_buffer sample_actions new_buffer = Some b \<and> bufStored b = [1, 2, 4] \<and> bufDropped b = 1"
proof -
  have run: "map_option (\<lambda>b. (bufFlusher b, bufDropped b)) (buffer_run sample_buffer sample_actions new_buffer) = Some (Exited [], 1)"
    by code_simp
  then obtain b where b: "buffer_run sample_buffer sample_actions new_buffer = Some b" "bufFlusher b = Exited []" "bufDropped b = 1"
    by blast
  have "enqueued sample_buffer sample_actions new_buffer = [1, 2, 4]"
    by code_simp
  then show ?thesis
    using buffer_conserves [OF b(1)] b by simp
qed

subsection \<open>Shutting down\<close>

text \<open>The flusher after it has left the loop, when every write succeeds.\<close>

definition drain_input :: "'r buffer \<Rightarrow> bufInput" where
  "drain_input b = (case bufFlusher b of Flushing _ _ _ \<Rightarrow> BatchOutcome nil_error | _ \<Rightarrow> Proceed)"

primrec drain_run :: "bufferConfig \<Rightarrow> nat \<Rightarrow> 'r buffer \<Rightarrow> 'r buffer option" where
  "drain_run cfg 0 b = Some b"
| "drain_run cfg (Suc n) b = (case flusher_step cfg (drain_input b) b of None \<Rightarrow> None | Some b' \<Rightarrow> drain_run cfg n b')"

fun draining :: "'r flusher \<Rightarrow> bool" where
  "draining (Leaving _) = True"
| "draining (Collecting _) = True"
| "draining (Flushing ForDrain records _) = (records \<noteq> [])"
| "draining (Exited pending) = (pending = [])"
| "draining _ = False"

fun drain_phase :: "'r flusher \<Rightarrow> nat" where
  "drain_phase (Leaving _) = 2"
| "drain_phase (Collecting _) = 1"
| "drain_phase _ = 0"

definition drain_work :: "'r buffer \<Rightarrow> nat" where
  "drain_work b = 3 * length (bufChan b) + 2 * length (held (bufFlusher b)) + drain_phase (bufFlusher b)"

lemma drain_progress:
  assumes "0 < bufBatchSize cfg" "draining (bufFlusher b)" "\<forall>pending. bufFlusher b \<noteq> Exited pending"
  shows "\<exists>b'. flusher_step cfg (drain_input b) b = Some b' \<and> draining (bufFlusher b') \<and> drain_work b' < drain_work b"
proof (cases "bufFlusher b")
  case (Flushing kind records attempt)
  then obtain r rs where "kind = ForDrain" "records = r # rs"
    using assms(2) by (cases kind; cases records; simp)
  then show ?thesis
    using assms(1) Flushing by (auto simp: flusher_step_def drain_input_def batch_step_def flush_done_def drain_work_def Let_def)
next
  case (Collecting pending)
  then show ?thesis
    using assms(1) by (cases "bufChan b")
      (auto simp: flusher_step_def drain_input_def drain_step_def flushRecords_def drain_work_def)
qed (use assms in \<open>auto simp: flusher_step_def drain_input_def markStopping_def drain_work_def\<close>)

lemma drain_terminates:
  assumes "0 < bufBatchSize cfg"
  shows "draining (bufFlusher b) \<Longrightarrow> \<exists>n b'. n \<le> drain_work b \<and> drain_run cfg n b = Some b' \<and> bufFlusher b' = Exited []"
proof (induction "drain_work b" arbitrary: b rule: less_induct)
  case less
  show ?case
  proof (cases "\<exists>pending. bufFlusher b = Exited pending")
    case True
    then show ?thesis
      using less.prems by (intro exI [of _ 0]) auto
  next
    case False
    then obtain b1 where b1: "flusher_step cfg (drain_input b) b = Some b1" "draining (bufFlusher b1)" "drain_work b1 < drain_work b"
      using drain_progress [OF assms less.prems] by auto
    then obtain n b' where "n \<le> drain_work b1" "drain_run cfg n b1 = Some b'" "bufFlusher b' = Exited []"
      using less.hyps by blast
    then show ?thesis
      using b1 by (intro exI [of _ "Suc n"] exI [of _ b']) simp
  qed
qed

lemma drain_run_keeps: "drain_run cfg n b = Some b' \<Longrightarrow> in_transit b' = in_transit b"
  by (induction n arbitrary: b) (auto split: option.splits dest: flusher_in_transit)

lemma drain_run_ok: "buffer_ok cfg b \<Longrightarrow> drain_run cfg n b = Some b' \<Longrightarrow> buffer_ok cfg b'"
  by (induction n arbitrary: b) (auto split: option.splits dest: flusher_ok)

text \<open>C25: shutting down stores everything. Once the flusher has left its loop, in any reachable state, and the
  database accepts the writes, it returns after a number of steps bounded by the records at hand, and
  every record that ever entered the channel is stored, in order.\<close>

theorem buffer_shutdown_stores_all:
  assumes "buffer_run cfg as new_buffer = Some b" "bufFlusher b = Leaving pending" "0 < bufBatchSize cfg"
  shows "\<exists>n b'. n \<le> 3 * length (bufChan b) + 2 * length pending + 2 \<and> drain_run cfg n b = Some b' \<and> bufFlusher b' = Exited []
     \<and> bufStored b' = enqueued cfg as new_buffer"
proof -
  obtain n b' where run: "n \<le> drain_work b" "drain_run cfg n b = Some b'" "bufFlusher b' = Exited []"
    using drain_terminates [OF assms(3), of b] assms(2) by auto
  have "buffer_ok cfg b'"
    using drain_run_ok [OF run_ok [OF new_buffer_ok assms(1)] run(2)] .
  then have "bufStored b' = in_transit b'"
    using run(3) by (simp add: buffer_ok_def in_transit_def)
  also have "\<dots> = enqueued cfg as new_buffer"
    using drain_run_keeps [OF run(2)] run_in_transit [OF assms(1)] by (simp add: in_transit_def new_buffer_def)
  finally show ?thesis
    using run assms(2) by (auto simp: drain_work_def)
qed

theorem buffer_shutdown_stores_all_witness:
  "\<exists>n b'. n \<le> 5 \<and> drain_run sample_buffer n (the (buffer_run sample_buffer [ActRecord 1, ActRecord 2, ActRun, ActFlusher ReceiveRecord,
        ActFlusher Proceed, ActFlusher (BatchOutcome nil_error), ActFlusher CtxDone] new_buffer)) = Some b' \<and> bufStored b' = [1, 2 :: nat]"
proof -
  let ?as = "[ActRecord (1 :: nat), ActRecord 2, ActRun, ActFlusher ReceiveRecord, ActFlusher Proceed, ActFlusher (BatchOutcome nil_error), ActFlusher CtxDone]"
  have "map_option (\<lambda>b. (bufFlusher b, bufChan b)) (buffer_run sample_buffer ?as new_buffer) = Some (Leaving [], [2])"
    by code_simp
  then obtain b where b: "buffer_run sample_buffer ?as new_buffer = Some b" "bufFlusher b = Leaving []" "bufChan b = [2]"
    by blast
  have "enqueued sample_buffer ?as new_buffer = [1, 2]" "0 < bufBatchSize sample_buffer"
    by code_simp+
  then show ?thesis
    using buffer_shutdown_stores_all [OF b(1,2)] unfolding b(1) option.sel by (auto simp: b(3) simp del: buffer_run.simps enqueued.simps)
qed

subsection \<open>Forced flushes\<close>

text \<open>A forced flush on its way: what it has to store is still in its hands or stored.\<close>

fun on_its_way :: "'r list \<Rightarrow> nat \<Rightarrow> 'r list \<Rightarrow> 'r list \<Rightarrow> 'r flusher \<Rightarrow> bool" where
  "on_its_way X request stored ch (ForceDraining pending channelled request') \<longleftrightarrow> request' = request \<and> prefix X (stored @ pending @ channelled @ ch)"
| "on_its_way X request stored ch (Flushing kind rs attempt) \<longleftrightarrow> kind = ForForce request \<and> prefix X (stored @ rs)"
| "on_its_way X request stored ch (RetryWait kind rs attempt err) \<longleftrightarrow> kind = ForForce request \<and> err \<noteq> nil_error \<and> prefix X (stored @ rs)"
| "on_its_way X request stored ch _ \<longleftrightarrow> False"

definition answering :: "'r list \<Rightarrow> nat \<Rightarrow> nat \<Rightarrow> 'r buffer \<Rightarrow> bool" where
  "answering X request n b \<longleftrightarrow> length (bufReplies b) = n \<and> on_its_way X request (bufStored b) (bufChan b) (bufFlusher b)"

definition answered :: "'r list \<Rightarrow> nat \<Rightarrow> nat \<Rightarrow> 'r buffer \<Rightarrow> bool" where
  "answered X request n b \<longleftrightarrow> n < length (bufReplies b) \<and> fst (bufReplies b ! n) = request \<and> (snd (bufReplies b ! n) = nil_error \<longrightarrow> prefix X (bufStored b))"

lemma flusher_answering:
  assumes "answering X request n b" "flusher_step cfg input b = Some b'"
  shows "answering X request n b' \<or> answered X request n b'"
proof (cases "bufFlusher b")
  case (ForceDraining pending channelled request')
  then show ?thesis
    using assms by (cases "bufChan b")
      (auto simp: answering_def answered_def flusher_step_def drainChannel_step_def flushRecords_def flush_done_def split: if_splits)
next
  case (Flushing kind rs attempt)
  then show ?thesis
    using assms by (auto simp: answering_def answered_def flusher_step_def batch_step_def flush_done_def Let_def split: bufInput.splits if_splits)
next
  case (RetryWait kind rs attempt err)
  then show ?thesis
    using assms by (auto simp: answering_def answered_def flusher_step_def flush_done_def split: bufInput.splits if_splits)
qed (use assms in \<open>auto simp: answering_def\<close>)

lemma flusher_stored: "flusher_step cfg input b = Some b' \<Longrightarrow> prefix (bufStored b) (bufStored b') \<and> prefix (bufReplies b) (bufReplies b')"
  by (auto simp: flusher_defs Let_def split: flusher.splits bufInput.splits list.splits if_splits flushFor.splits bool.splits)

lemma answered_mono: "answered X request n b \<Longrightarrow> prefix (bufStored b) (bufStored b') \<Longrightarrow> prefix (bufReplies b) (bufReplies b') \<Longrightarrow> answered X request n b'"
  by (auto simp: answered_def prefix_def nth_append)

lemma step_answering:
  assumes "answering X request n b \<or> answered X request n b" "buffer_step cfg a b = Some b'"
  shows "answering X request n b' \<or> answered X request n b'"
proof (cases a)
  case (ActFlusher input)
  then show ?thesis
    using assms flusher_answering flusher_stored answered_mono by fastforce
next
  case (ActRecord r)
  have "on_its_way X request st ch fl \<Longrightarrow> on_its_way X request st (ch @ [r]) fl" for st ch fl
    using prefix_append [of X "st @ held fl @ ch" "[r]"] by (cases fl) auto
  then show ?thesis
    using assms ActRecord by (auto simp: answering_def answered_def buf_Record_def split: if_splits)
next
  case ActRun
  then show ?thesis
    using assms by (cases "bufFlusher b") (auto simp: answering_def answered_def buf_Run_def)
qed (use assms in \<open>auto simp: answering_def answered_def buf_Stop_def markStopping_def\<close>)

lemma run_answering:
  "answering X request n b \<or> answered X request n b \<Longrightarrow> buffer_run cfg as b = Some b' \<Longrightarrow> answering X request n b' \<or> answered X request n b'"
proof (induction as arbitrary: b)
  case (Cons a as)
  then obtain b1 where "buffer_step cfg a b = Some b1" "buffer_run cfg as b1 = Some b'"
    by (auto split: option.splits)
  then show ?case
    using Cons.IH [of b1] step_answering [OF Cons.prems(1)] by blast
qed simp

text \<open>A successful forced flush is complete. When the flusher takes a request and later answers it without
  an error, whatever happens in between, every record that had entered the channel before the request
  is stored, and the answer is the answer to that request.\<close>

theorem force_flush_stores:
  assumes "buffer_run cfg as new_buffer = Some b" "bufFlusher b = Selecting pending"
    "buffer_run cfg (ActFlusher (ForceRequest request) # bs) b = Some b'"
    "length (bufReplies b) < length (bufReplies b')"
  shows "fst (bufReplies b' ! length (bufReplies b)) = request \<and>
    (snd (bufReplies b' ! length (bufReplies b)) = nil_error \<longrightarrow> prefix (enqueued cfg as new_buffer) (bufStored b'))"
proof -
  let ?b1 = "b\<lparr>bufFlusher := ForceDraining pending [] request\<rparr>" and ?X = "enqueued cfg as new_buffer" and ?n = "length (bufReplies b)"
  have "?X = bufStored b @ pending @ bufChan b"
    using run_in_transit [OF assms(1)] assms(2) by (simp add: in_transit_def new_buffer_def)
  then have "answering ?X request ?n ?b1"
    by (simp add: answering_def)
  moreover have "buffer_run cfg bs ?b1 = Some b'"
    using assms(2,3) by (simp add: flusher_step_def select_step_def)
  ultimately have "answering ?X request ?n b' \<or> answered ?X request ?n b'"
    using run_answering by blast
  then show ?thesis
    using assms(4) by (auto simp: answering_def answered_def)
qed

theorem force_flush_stores_witness:
  "\<exists>b'. buffer_run sample_buffer [ActFlusher (ForceRequest 7), ActFlusher Proceed, ActFlusher Proceed, ActFlusher (BatchOutcome nil_error)]
       (the (buffer_run sample_buffer [ActRun, ActRecord (1 :: nat)] new_buffer)) = Some b'
     \<and> bufReplies b' = [(7, nil_error)] \<and> prefix [1] (bufStored b')"
proof -
  let ?as = "[ActRun, ActRecord (1 :: nat)]"
  let ?bs = "[ActFlusher Proceed, ActFlusher Proceed, ActFlusher (BatchOutcome nil_error)]"
  have "map_option (\<lambda>b. (bufFlusher b, bufReplies b)) (buffer_run sample_buffer ?as new_buffer) = Some (Selecting [], [])"
    by code_simp
  then obtain b where b: "buffer_run sample_buffer ?as new_buffer = Some b" "bufFlusher b = Selecting []" "bufReplies b = []"
    by blast
  have "map_option bufReplies (buffer_run sample_buffer (ActFlusher (ForceRequest 7) # ?bs) (the (buffer_run sample_buffer ?as new_buffer)))
     = Some [(7, nil_error)]"
    by code_simp
  then obtain b' where b': "buffer_run sample_buffer (ActFlusher (ForceRequest 7) # ?bs) b = Some b'" "bufReplies b' = [(7, nil_error)]"
    unfolding b(1) option.sel by blast
  have "enqueued sample_buffer ?as new_buffer = [1]"
    by code_simp
  then have "prefix [1] (bufStored b')"
    using force_flush_stores [OF b(1,2) b'(1)] b(3) b'(2) by simp
  then show ?thesis
    using b' unfolding b(1) option.sel by blast
qed

text \<open>A cancelled caller gets the error of its context.\<close>

lemma ForceFlush_cancelled: "ForceFlush True True w r (SendCancelled err) a = (False, err)" "ForceFlush True True w r SendTaken (AnswerCancelled err) = (True, err)"
  by (simp_all add: ForceFlush_def)

end
