(* ===== verification/Body_Budget.thy ===== *)
theory Body_Budget
  imports Prelude
begin

text \<open>
  \<open>internal/httpapi/v1/bodybudget.go\<close>: request bodies share 16 read slots (a buffered channel) and a budget
  of 64 MiB (an atomic counter). A request's goroutine is a thread that runs \<open>readBodyWithLease\<close> and then
  its handler; a step is one atomic action on the slots or the counter, or one return of a read. A
  compare-and-swap loop is one step: it changes the counter at the swap that succeeds, and a refusal
  takes effect at the load that precedes it.
\<close>

definition maxConcurrentBodyReads :: nat where "maxConcurrentBodyReads = 16"
definition maxInFlightBodyBytes :: int where "maxInFlightBodyBytes = 64 * 1024 * 1024"
definition chunkedReserveBytes :: int where "chunkedReserveBytes = 64 * 1024"
definition bodyBudgetChunkSize :: int where "bodyBudgetChunkSize = 256 * 1024"

text \<open>The answers of the API; \<open>BodyPanicked\<close> is a panic on its way to the recovering middleware.\<close>

datatype bodyError = BodyRequired | BodyTooLarge | BodyBusy | BodyTimeout | BodyUnreadable | BodyPanicked

text \<open>How a read ends: no error, the end of the body, another error.\<close>

datatype readEnd = ReadMore | ReadEOF | ReadFailed

definition classifyBodyReadError :: "bool \<Rightarrow> bool \<Rightarrow> bodyError" where
  "classifyBodyReadError deadlineExceeded maxBytes =
     (if deadlineExceeded then BodyTimeout else if maxBytes then BodyTooLarge else BodyUnreadable)"

record bodyRequest =
  hasBody :: bool
  contentLength :: int
  bodyLimit :: int

record bodyLease =
  leaseBytes :: int
  slotDone :: bool
  bytesDone :: bool

type_synonym bodyResult = "bodyError + string"

text \<open>Where a thread is in \<open>acquireBodyLease\<close>, \<open>readChunkedBody\<close>, \<open>readBoundedBody\<close>, \<open>readBodyWithLease\<close> and its handler.\<close>

datatype bodyThread =
    Arrived bodyRequest
  | SlotTaken bodyRequest
  | SlotRefund
  | ChunkLoop bodyRequest string bodyLease
  | ChunkRead bodyRequest string int bodyLease
  | ChunkGot bodyRequest string int string readEnd bool bodyLease
  | BoundedRead bodyRequest bodyLease
  | ReadDone bodyResult bodyLease
  | Reconciled bodyResult bodyLease
  | SlotFreed bodyResult bodyLease
  | Owned string bodyLease
  | Releasing bodyResult bodyLease
  | BodyFinished bodyResult

record bodyBudget =
  inFlightBodyBytes :: int
  bodyReadSlots :: nat
  bodyThreads :: "bodyThread list"

text \<open>
  What a step is given: nothing; what a read returned, and whether the upload deadline has passed; what
  reading a body of declared length returned, the deadline, and whether the error is the size limit; a
  panic.
\<close>

datatype bodyInput = BodyGo | BodyRead string readEnd bool | BodyAll "string option" bool bool | BodyPanic

text \<open>A step of one thread, on the counter, the slots and its own state.\<close>

type_synonym shared = "int \<times> nat"

definition acquire_slot :: "bodyRequest \<Rightarrow> shared \<Rightarrow> shared \<times> bodyThread" where
  "acquire_slot req sh =
     (if \<not> hasBody req then (sh, BodyFinished (Inl BodyRequired))
      else if contentLength req > bodyLimit req then (sh, BodyFinished (Inl BodyTooLarge))
      else if snd sh < maxConcurrentBodyReads then ((fst sh, snd sh + 1), SlotTaken req)
      else (sh, BodyFinished (Inl BodyBusy)))"

definition initial_reserve :: "bodyRequest \<Rightarrow> int" where
  "initial_reserve req =
     (let reserved = (if contentLength req < 0 then chunkedReserveBytes else contentLength req) in if reserved = 0 then 1 else reserved)"

definition acquire_bytes :: "bodyRequest \<Rightarrow> shared \<Rightarrow> shared \<times> bodyThread" where
  "acquire_bytes req sh =
     (let reserved = initial_reserve req
      in if fst sh + reserved > maxInFlightBodyBytes then (sh, SlotRefund)
         else ((fst sh + reserved, snd sh),
               let lease = \<lparr>leaseBytes = reserved, slotDone = False, bytesDone = False\<rparr>
               in if contentLength req < 0 then ChunkLoop req [] lease else BoundedRead req lease))"

definition tryReserve :: "int \<Rightarrow> bodyLease \<Rightarrow> int \<Rightarrow> (bodyLease \<times> int) option" where
  "tryReserve bytes lease inFlight =
     (if bytes \<le> 0 then Some (lease, inFlight)
      else if inFlight + bytes > maxInFlightBodyBytes then None
      else Some (lease\<lparr>leaseBytes := leaseBytes lease + bytes\<rparr>, inFlight + bytes))"

definition releaseReserved :: "int \<Rightarrow> bodyLease \<Rightarrow> int \<Rightarrow> bodyLease \<times> int" where
  "releaseReserved bytes lease inFlight =
     (if bytes \<le> 0 then (lease, inFlight) else (lease\<lparr>leaseBytes := leaseBytes lease - bytes\<rparr>, inFlight - bytes))"

definition reconcile :: "int \<Rightarrow> bodyLease \<Rightarrow> int \<Rightarrow> bodyLease \<times> int" where
  "reconcile actual lease inFlight = (lease\<lparr>leaseBytes := actual\<rparr>, inFlight + (actual - leaseBytes lease))"

definition releaseSlot :: "bodyLease \<Rightarrow> nat \<Rightarrow> bodyLease \<times> nat" where
  "releaseSlot lease slots = (if slotDone lease then (lease, slots) else (lease\<lparr>slotDone := True\<rparr>, slots - 1))"

definition release_bytes :: "bodyLease \<Rightarrow> int \<Rightarrow> bodyLease \<times> int" where
  "release_bytes lease inFlight = (if bytesDone lease then (lease, inFlight) else (lease\<lparr>bytesDone := True\<rparr>, inFlight - leaseBytes lease))"

definition chunk_window :: "bodyRequest \<Rightarrow> string \<Rightarrow> int" where
  "chunk_window req out = min (bodyLimit req + 1 - int (length out)) bodyBudgetChunkSize"

definition chunk_head :: "bodyRequest \<Rightarrow> string \<Rightarrow> bodyLease \<Rightarrow> shared \<Rightarrow> shared \<times> bodyThread" where
  "chunk_head req out lease sh =
     (if bodyLimit req + 1 - int (length out) \<le> 0 then (sh, ReadDone (Inr out) lease)
      else case tryReserve (chunk_window req out) lease (fst sh) of
        None \<Rightarrow> (sh, ReadDone (Inl BodyBusy) lease)
      | Some (lease', inFlight) \<Rightarrow> ((inFlight, snd sh), ChunkRead req out (chunk_window req out) lease'))"

definition chunk_next :: "bodyRequest \<Rightarrow> string \<Rightarrow> string \<Rightarrow> readEnd \<Rightarrow> bool \<Rightarrow> bodyLease \<Rightarrow> bodyThread" where
  "chunk_next req out data ending late lease =
     (let out' = out @ data
      in if int (length out') > bodyLimit req then ReadDone (Inl (classifyBodyReadError late True)) lease
         else case ending of
           ReadEOF \<Rightarrow> ReadDone (Inr out') lease
         | ReadFailed \<Rightarrow> ReadDone (Inl (classifyBodyReadError late False)) lease
         | ReadMore \<Rightarrow> if data = [] then ReadDone (Inr out') lease else ChunkLoop req out' lease)"

definition result_size :: "bodyResult \<Rightarrow> int" where
  "result_size res = (case res of Inl _ \<Rightarrow> 0 | Inr payload \<Rightarrow> int (length payload))"

fun body_step :: "bodyInput \<Rightarrow> bodyThread \<Rightarrow> shared \<Rightarrow> (shared \<times> bodyThread) option" where
  "body_step BodyGo (Arrived req) sh = Some (acquire_slot req sh)"
| "body_step BodyGo (SlotTaken req) sh = Some (acquire_bytes req sh)"
| "body_step BodyGo SlotRefund sh = Some ((fst sh, snd sh - 1), BodyFinished (Inl BodyBusy))"
| "body_step BodyGo (ChunkLoop req out lease) sh = Some (chunk_head req out lease sh)"
| "body_step (BodyRead data ending late) (ChunkRead req out readLen lease) sh =
     (if int (length data) \<le> readLen then Some (sh, ChunkGot req out readLen data ending late lease) else None)"
| "body_step BodyGo (ChunkGot req out readLen data ending late lease) sh =
     (case releaseReserved (readLen - int (length data)) lease (fst sh) of
        (lease', inFlight) \<Rightarrow> Some ((inFlight, snd sh), chunk_next req out data ending late lease'))"
| "body_step (BodyAll payload late maxBytes) (BoundedRead req lease) sh =
     (case payload of
        None \<Rightarrow> Some (sh, ReadDone (Inl (classifyBodyReadError late maxBytes)) lease)
      | Some data \<Rightarrow> if int (length data) \<le> contentLength req then Some (sh, ReadDone (Inr data) lease) else None)"
| "body_step BodyGo (ReadDone res lease) sh =
     (case reconcile (result_size res) lease (fst sh) of (lease', inFlight) \<Rightarrow> Some ((inFlight, snd sh), Reconciled res lease'))"
| "body_step BodyGo (Reconciled res lease) sh =
     (case releaseSlot lease (snd sh) of (lease', slots) \<Rightarrow> Some ((fst sh, slots), SlotFreed res lease'))"
| "body_step BodyGo (SlotFreed res lease) sh =
     (case res of
        Inr payload \<Rightarrow> Some (sh, Owned payload lease)
      | Inl err \<Rightarrow> (case release_bytes lease (fst sh) of (lease', inFlight) \<Rightarrow> Some ((inFlight, snd sh), Releasing res lease')))"
| "body_step BodyGo (Owned payload lease) sh =
     (case release_bytes lease (fst sh) of (lease', inFlight) \<Rightarrow> Some ((inFlight, snd sh), Releasing (Inr payload) lease'))"
| "body_step BodyGo (Releasing res lease) sh =
     (case releaseSlot lease (snd sh) of (lease', slots) \<Rightarrow> Some ((fst sh, slots), BodyFinished res))"
| "body_step BodyPanic (ChunkRead req out readLen lease) sh =
     (case release_bytes lease (fst sh) of (lease', inFlight) \<Rightarrow> Some ((inFlight, snd sh), Releasing (Inl BodyPanicked) lease'))"
| "body_step BodyPanic (BoundedRead req lease) sh =
     (case release_bytes lease (fst sh) of (lease', inFlight) \<Rightarrow> Some ((inFlight, snd sh), Releasing (Inl BodyPanicked) lease'))"
| "body_step _ _ _ = None"

definition budget_step :: "nat \<Rightarrow> bodyInput \<Rightarrow> bodyBudget \<Rightarrow> bodyBudget option" where
  "budget_step i input s =
     (if i < length (bodyThreads s) then
        map_option (\<lambda>((inFlight, slots), t). \<lparr>inFlightBodyBytes = inFlight, bodyReadSlots = slots, bodyThreads = (bodyThreads s)[i := t]\<rparr>)
          (body_step input (bodyThreads s ! i) (inFlightBodyBytes s, bodyReadSlots s))
      else None)"

primrec budget_run :: "(nat \<times> bodyInput) list \<Rightarrow> bodyBudget \<Rightarrow> bodyBudget option" where
  "budget_run [] s = Some s"
| "budget_run (x # xs) s = (case budget_step (fst x) (snd x) s of None \<Rightarrow> None | Some s' \<Rightarrow> budget_run xs s')"

definition new_budget :: "bodyRequest list \<Rightarrow> bodyBudget" where
  "new_budget reqs = \<lparr>inFlightBodyBytes = 0, bodyReadSlots = 0, bodyThreads = map Arrived reqs\<rparr>"

subsection \<open>Accounting\<close>

fun lease_of :: "bodyThread \<Rightarrow> bodyLease option" where
  "lease_of (ChunkLoop req out lease) = Some lease"
| "lease_of (ChunkRead req out readLen lease) = Some lease"
| "lease_of (ChunkGot req out readLen data ending late lease) = Some lease"
| "lease_of (BoundedRead req lease) = Some lease"
| "lease_of (ReadDone res lease) = Some lease"
| "lease_of (Reconciled res lease) = Some lease"
| "lease_of (SlotFreed res lease) = Some lease"
| "lease_of (Owned payload lease) = Some lease"
| "lease_of (Releasing res lease) = Some lease"
| "lease_of _ = None"

definition charged :: "bodyThread \<Rightarrow> int" where
  "charged t = (case lease_of t of None \<Rightarrow> 0 | Some lease \<Rightarrow> if bytesDone lease then 0 else leaseBytes lease)"

definition slots_held :: "bodyThread \<Rightarrow> int" where
  "slots_held t = (case t of SlotTaken _ \<Rightarrow> 1 | SlotRefund \<Rightarrow> 1
     | _ \<Rightarrow> case lease_of t of None \<Rightarrow> 0 | Some lease \<Rightarrow> if slotDone lease then 0 else 1)"

text \<open>The bytes of its body a thread has in memory.\<close>

fun in_memory :: "bodyThread \<Rightarrow> int" where
  "in_memory (ChunkLoop req out lease) = int (length out)"
| "in_memory (ChunkRead req out readLen lease) = int (length out)"
| "in_memory (ChunkGot req out readLen data ending late lease) = int (length out) + int (length data)"
| "in_memory (BoundedRead req lease) = contentLength req"
| "in_memory (ReadDone res lease) = result_size res"
| "in_memory (Reconciled res lease) = result_size res"
| "in_memory (SlotFreed res lease) = result_size res"
| "in_memory (Owned payload lease) = int (length payload)"
| "in_memory _ = 0"

definition fresh_lease :: "bodyLease \<Rightarrow> bool" where
  "fresh_lease lease \<longleftrightarrow> \<not> slotDone lease \<and> \<not> bytesDone lease"

fun thread_ok :: "bodyThread \<Rightarrow> bool" where
  "thread_ok (ChunkLoop req out lease) \<longleftrightarrow> fresh_lease lease \<and> leaseBytes lease = chunkedReserveBytes + int (length out)"
| "thread_ok (ChunkRead req out readLen lease) \<longleftrightarrow> fresh_lease lease \<and> 0 < readLen \<and> leaseBytes lease = chunkedReserveBytes + int (length out) + readLen"
| "thread_ok (ChunkGot req out readLen data ending late lease) \<longleftrightarrow> fresh_lease lease \<and> int (length data) \<le> readLen
     \<and> leaseBytes lease = chunkedReserveBytes + int (length out) + readLen"
| "thread_ok (BoundedRead req lease) \<longleftrightarrow> fresh_lease lease \<and> 0 \<le> contentLength req \<and> contentLength req \<le> leaseBytes lease"
| "thread_ok (ReadDone res lease) \<longleftrightarrow> fresh_lease lease \<and> result_size res \<le> leaseBytes lease"
| "thread_ok (Reconciled res lease) \<longleftrightarrow> fresh_lease lease \<and> leaseBytes lease = result_size res"
| "thread_ok (SlotFreed res lease) \<longleftrightarrow> slotDone lease \<and> \<not> bytesDone lease \<and> leaseBytes lease = result_size res"
| "thread_ok (Owned payload lease) \<longleftrightarrow> slotDone lease \<and> \<not> bytesDone lease \<and> leaseBytes lease = int (length payload)"
| "thread_ok (Releasing res lease) \<longleftrightarrow> bytesDone lease"
| "thread_ok _ \<longleftrightarrow> True"

lemmas budget_defs = acquire_slot_def acquire_bytes_def initial_reserve_def chunk_head_def tryReserve_def chunk_window_def releaseReserved_def chunk_next_def
  reconcile_def releaseSlot_def release_bytes_def charged_def slots_held_def fresh_lease_def maxConcurrentBodyReads_def maxInFlightBodyBytes_def
  chunkedReserveBytes_def bodyBudgetChunkSize_def Let_def

text \<open>One step changes the counter and the slots by what it changes in the thread's share.\<close>

lemma body_step_accounts:
  assumes "body_step input t (inFlight, slots) = Some ((inFlight', slots'), t')" "thread_ok t" "slots_held t \<le> int slots"
    "inFlight \<le> maxInFlightBodyBytes" "slots \<le> maxConcurrentBodyReads"
  shows "thread_ok t'" "inFlight' - inFlight = charged t' - charged t" "int slots' - int slots = slots_held t' - slots_held t"
    "inFlight' \<le> maxInFlightBodyBytes" "slots' \<le> maxConcurrentBodyReads"
  using assms
  by (cases "(input, t, (inFlight, slots))" rule: body_step.cases;
      auto simp: budget_defs result_size_def split: if_splits option.splits sum.splits readEnd.splits)+

definition total_of :: "(bodyThread \<Rightarrow> int) \<Rightarrow> bodyBudget \<Rightarrow> int" where
  "total_of f s = (\<Sum>t\<leftarrow>bodyThreads s. f t)"

lemma sum_list_update_int: "i < length xs \<Longrightarrow> (\<Sum>x\<leftarrow>xs[i := y]. f x) = (\<Sum>x\<leftarrow>xs. f x) - f (xs ! i) + (f y :: int)"
  by (induction xs arbitrary: i) (auto split: nat.split)

lemma sum_list_member: "(\<And>x. x \<in> set xs \<Longrightarrow> 0 \<le> f x) \<Longrightarrow> i < length xs \<Longrightarrow> (f (xs ! i) :: int) \<le> (\<Sum>x\<leftarrow>xs. f x)"
proof (induction xs arbitrary: i)
  case (Cons x xs)
  have "0 \<le> (\<Sum>x\<leftarrow>xs. f x)" "0 \<le> f x"
    using Cons.prems(1) by (auto intro!: sum_list_nonneg)
  moreover have "f (xs ! (i - 1)) \<le> (\<Sum>x\<leftarrow>xs. f x)" if "0 < i"
    using Cons that by simp
  ultimately show ?case
    by (cases i) simp_all
qed simp

definition budget_ok :: "bodyBudget \<Rightarrow> bool" where
  "budget_ok s \<longleftrightarrow> (\<forall>t \<in> set (bodyThreads s). thread_ok t) \<and> inFlightBodyBytes s = total_of charged s \<and> int (bodyReadSlots s) = total_of slots_held s
     \<and> inFlightBodyBytes s \<le> maxInFlightBodyBytes \<and> bodyReadSlots s \<le> maxConcurrentBodyReads"

lemma slots_held_nonneg: "0 \<le> slots_held t"
  by (auto simp: slots_held_def split: bodyThread.split option.split)

lemma budget_step_ok:
  assumes ok: "budget_ok s" and step: "budget_step i input s = Some s'"
  shows "budget_ok s'"
proof -
  let ?t = "bodyThreads s ! i"
  obtain inFlight slots t where i: "i < length (bodyThreads s)" and
      t: "body_step input ?t (inFlightBodyBytes s, bodyReadSlots s) = Some ((inFlight, slots), t)" and
      s': "s' = \<lparr>inFlightBodyBytes = inFlight, bodyReadSlots = slots, bodyThreads = (bodyThreads s)[i := t]\<rparr>"
    using step by (auto simp: budget_step_def split: if_splits)
  have "slots_held ?t \<le> int (bodyReadSlots s)"
    using sum_list_member [OF slots_held_nonneg i] ok by (simp add: budget_ok_def total_of_def)
  moreover have "thread_ok ?t"
    using ok i by (simp add: budget_ok_def)
  ultimately have step: "thread_ok t" "inFlight - inFlightBodyBytes s = charged t - charged ?t"
      "int slots - int (bodyReadSlots s) = slots_held t - slots_held ?t" "inFlight \<le> maxInFlightBodyBytes" "slots \<le> maxConcurrentBodyReads"
    using body_step_accounts [OF t] ok by (auto simp: budget_ok_def)
  have "\<forall>u \<in> set ((bodyThreads s)[i := t]). thread_ok u"
    using ok step(1) set_update_subset_insert [of "bodyThreads s" i t] by (auto simp: budget_ok_def)
  then show ?thesis
    using ok step i by (simp add: budget_ok_def s' total_of_def sum_list_update_int)
qed

lemma budget_run_ok: "budget_ok s \<Longrightarrow> budget_run xs s = Some s' \<Longrightarrow> budget_ok s'"
  by (induction xs arbitrary: s) (auto split: option.splits dest: budget_step_ok)

lemma new_budget_ok: "budget_ok (new_budget reqs)"
proof -
  have "charged (Arrived r) = 0" "slots_held (Arrived r) = 0" for r
    by (simp_all add: charged_def slots_held_def)
  then show ?thesis
    by (simp add: budget_ok_def new_budget_def total_of_def o_def maxInFlightBodyBytes_def)
qed

lemma memory_charged: "thread_ok t \<Longrightarrow> in_memory t \<le> charged t"
  by (cases t) (auto simp: charged_def fresh_lease_def chunkedReserveBytes_def split: sum.split)

text \<open>C26: request bodies fit the budget. However many requests read their bodies at the same time, in every
  interleaving, with any sizes of reads, failures and panics: the counter is the sum of the leases not yet
  released, the bodies in memory never exceed 64 MiB together, at most 16 bodies are read at a time, and
  when every request has finished both the counter and the slots are back at zero.\<close>

theorem body_budget_holds:
  assumes "budget_run xs (new_budget reqs) = Some s"
  shows "inFlightBodyBytes s = total_of charged s
    \<and> total_of in_memory s \<le> maxInFlightBodyBytes
    \<and> total_of slots_held s \<le> int maxConcurrentBodyReads
    \<and> ((\<forall>t \<in> set (bodyThreads s). \<exists>res. t = BodyFinished res) \<longrightarrow> inFlightBodyBytes s = 0 \<and> bodyReadSlots s = 0)"
proof (intro conjI impI)
  have ok: "budget_ok s"
    using budget_run_ok [OF new_budget_ok assms] .
  then show "inFlightBodyBytes s = total_of charged s" "total_of slots_held s \<le> int maxConcurrentBodyReads"
    by (simp_all add: budget_ok_def)
  have "total_of in_memory s \<le> total_of charged s"
    using ok memory_charged unfolding total_of_def budget_ok_def by (intro sum_list_mono) blast
  then show "total_of in_memory s \<le> maxInFlightBodyBytes"
    using ok by (simp add: budget_ok_def)
  assume fin: "\<forall>t \<in> set (bodyThreads s). \<exists>res. t = BodyFinished res"
  have "charged (BodyFinished res) = 0" "slots_held (BodyFinished res) = 0" for res
    by (simp_all add: charged_def slots_held_def)
  then have "\<forall>t \<in> set (bodyThreads s). charged t = 0 \<and> slots_held t = 0"
    using fin by metis
  then have "total_of charged s = 0" "total_of slots_held s = 0"
    unfolding total_of_def by (simp_all add: map_idI cong: map_cong)
  then show "inFlightBodyBytes s = 0" "bodyReadSlots s = 0"
    using ok by (simp_all add: budget_ok_def)
qed

definition sample_requests :: "bodyRequest list" where
  "sample_requests = [\<lparr>hasBody = True, contentLength = - 1, bodyLimit = 100\<rparr>, \<lparr>hasBody = True, contentLength = 2, bodyLimit = 100\<rparr>]"

definition sample_schedule :: "(nat \<times> bodyInput) list" where
  "sample_schedule = [(0, BodyGo), (1, BodyGo), (0, BodyGo), (1, BodyGo), (0, BodyGo), (0, BodyRead ''abc'' ReadEOF False), (1, BodyPanic), (0, BodyGo), (0, BodyGo),
     (1, BodyGo), (0, BodyGo), (0, BodyGo), (0, BodyGo), (0, BodyGo)]"

theorem body_budget_holds_witness:
  "\<exists>s. budget_run sample_schedule (new_budget sample_requests) = Some s \<and> bodyThreads s = [BodyFinished (Inr ''abc''), BodyFinished (Inl BodyPanicked)]
     \<and> inFlightBodyBytes s = 0 \<and> bodyReadSlots s = 0"
proof -
  have "map_option bodyThreads (budget_run sample_schedule (new_budget sample_requests)) = Some [BodyFinished (Inr ''abc''), BodyFinished (Inl BodyPanicked)]"
    by code_simp
  then obtain s where s: "budget_run sample_schedule (new_budget sample_requests) = Some s"
      "bodyThreads s = [BodyFinished (Inr ''abc''), BodyFinished (Inl BodyPanicked)]"
    by blast
  then show ?thesis
    using body_budget_holds [OF s(1)] by simp
qed

end
