(* ===== verification/Key_Store.thy ===== *)
theory Key_Store
  imports Key_Pool Cooldown
begin

text \<open>
  \<open>internal/nvidiakey\<close>: the table of upstream keys with its scheduling columns (\<open>repository.go\<close>), the parts of
  the service around it (\<open>service.go\<close>) and the health checker (\<open>healthchecker.go\<close>). A statement of the
  database is a function on the rows; the error it may fail with is an argument, and a transaction that
  fails changes nothing. Times come back from their text columns as whole seconds.
\<close>

subsection \<open>The table\<close>

record keyRow =
  krID :: key_id
  krFingerprint :: string
  krCiphertext :: string
  krKeyVersion :: int
  krDisplay :: "string \<times> string"
  krEnabled :: bool
  krAuthInvalid :: bool
  krCooldownUntil :: "time option"
  krCooldownReason :: "string option"
  krCooldownLevel :: int
  krConsecutiveFailures :: int
  krLastSuccessAt :: "time option"
  krLastErrorAt :: "time option"
  krLastErrorCode :: "string option"
  krCreatedAt :: time
  krUpdatedAt :: time

record blockRow =
  blkKey :: key_id
  blkModel :: model_id
  blkReason :: string
  blkStatus :: "int option"
  blkFirstSeen :: time
  blkLastSeen :: time

record keyStore =
  keyRows :: "keyRow list"
  keyBlocks :: "blockRow list"
  lastKeyID :: key_id

definition formatTimestamp :: "time \<Rightarrow> time" where
  "formatTimestamp t = t - t mod second"

definition safePersistedCode :: "string \<Rightarrow> string" where
  "safePersistedCode code =
     (if code = [] \<or> length code > 128 then ''upstream_error''
      else if list_all (\<lambda>c. of_char c \<ge> (97 :: nat) \<and> of_char c \<le> (122 :: nat) \<or> of_char c \<ge> (48 :: nat) \<and> of_char c \<le> (57 :: nat)
            \<or> c = CHR ''_'' \<or> c = CHR ''-'' \<or> c = CHR ''.'') code then code
      else ''upstream_error'')"

definition scanSchedulingSnapshot :: "keyRow \<Rightarrow> keySnapshot" where
  "scanSchedulingSnapshot row =
     \<lparr>ksID = krID row, Enabled = krEnabled row, AuthInvalid = krAuthInvalid row, CooldownUntil = krCooldownUntil row,
      CooldownLevel = krCooldownLevel row, ConsecutiveFailures = krConsecutiveFailures row\<rparr>"

definition find_row :: "key_id \<Rightarrow> keyStore \<Rightarrow> keyRow option" where
  "find_row i s = find (\<lambda>row. krID row = i) (keyRows s)"

definition ErrNoRows :: goError where "ErrNoRows = [OtherError ''sql: no rows in result set'']"

definition loadSchedulingSnapshot :: "key_id \<Rightarrow> keyStore \<Rightarrow> goError + keySnapshot" where
  "loadSchedulingSnapshot i s =
     (case find_row i s of
        None \<Rightarrow> Inl (Wrapped ''load NVIDIA key scheduling snapshot'' # ErrNoRows)
      | Some row \<Rightarrow> Inr (scanSchedulingSnapshot row))"

text \<open>An update of the rows with an id; it is refused unless it changed one row.\<close>

definition update_key :: "string \<Rightarrow> key_id \<Rightarrow> (keyRow \<Rightarrow> keyRow) \<Rightarrow> keyStore \<Rightarrow> goError \<times> keyStore" where
  "update_key what i f s =
     (let s' = s\<lparr>keyRows := map (\<lambda>row. if krID row = i then f row else row) (keyRows s)\<rparr>;
          n = length (filter (\<lambda>row. krID row = i) (keyRows s))
      in (if n = 1 then nil_error else [OtherError (what @ '': expected one row'')], s'))"

definition stateTransaction :: "goError \<Rightarrow> (keyStore \<Rightarrow> (goError + keySnapshot) \<times> keyStore) \<Rightarrow> keyStore \<Rightarrow> (goError + keySnapshot) \<times> keyStore" where
  "stateTransaction dbErr operation s =
     (if dbErr \<noteq> nil_error then (Inl dbErr, s)
      else case operation s of
        (Inl err, _) \<Rightarrow> (Inl err, s)
      | (Inr snap, s') \<Rightarrow> (Inr snap, s'))"

subsection \<open>Operations\<close>

definition repo_SetEnabled :: "goError \<Rightarrow> key_id \<Rightarrow> bool \<Rightarrow> time \<Rightarrow> keyStore \<Rightarrow> (goError + keySnapshot) \<times> keyStore" where
  "repo_SetEnabled dbErr i enabled now = stateTransaction dbErr (\<lambda>s.
     case update_key ''set NVIDIA key enabled state'' i (\<lambda>row. row\<lparr>krEnabled := enabled, krUpdatedAt := formatTimestamp now\<rparr>) s of
       (err, s') \<Rightarrow> if err \<noteq> nil_error then (Inl err, s') else (loadSchedulingSnapshot i s', s'))"

definition repo_DeleteKey :: "goError \<Rightarrow> key_id \<Rightarrow> keyStore \<Rightarrow> goError \<times> keyStore" where
  "repo_DeleteKey dbErr i s =
     (if dbErr \<noteq> nil_error then (Wrapped ''delete NVIDIA key'' # dbErr, s)
      else (if length (filter (\<lambda>row. krID row = i) (keyRows s)) = 1 then nil_error else [OtherError ''delete NVIDIA key: expected one row''],
            s\<lparr>keyRows := filter (\<lambda>row. krID row \<noteq> i) (keyRows s), keyBlocks := filter (\<lambda>b. blkKey b \<noteq> i) (keyBlocks s)\<rparr>))"

definition repo_CreateKey :: "goError \<Rightarrow> string \<Rightarrow> string \<Rightarrow> int \<Rightarrow> string \<times> string \<Rightarrow> time \<Rightarrow> keyStore \<Rightarrow> (goError + keyRow option) \<times> keyStore" where
  "repo_CreateKey dbErr ciphertext fingerprint version display now s =
     (if dbErr \<noteq> nil_error then (Inl (Wrapped ''insert NVIDIA key'' # dbErr), s)
      else if list_ex (\<lambda>row. krFingerprint row = fingerprint) (keyRows s) then (Inr None, s)
      else let row = \<lparr>krID = lastKeyID s + 1, krFingerprint = fingerprint, krCiphertext = ciphertext, krKeyVersion = (if version > 0 then version else 1),
                 krDisplay = display, krEnabled = True, krAuthInvalid = False, krCooldownUntil = None, krCooldownReason = None, krCooldownLevel = 0,
                 krConsecutiveFailures = 0, krLastSuccessAt = None, krLastErrorAt = None, krLastErrorCode = None,
                 krCreatedAt = formatTimestamp now, krUpdatedAt = formatTimestamp now\<rparr>
           in (Inr (Some row), s\<lparr>keyRows := keyRows s @ [row], lastKeyID := lastKeyID s + 1\<rparr>))"

definition FingerprintExistsAny :: "string list \<Rightarrow> keyStore \<Rightarrow> bool" where
  "FingerprintExistsAny fingerprints s = list_ex (\<lambda>fp. list_ex (\<lambda>row. krFingerprint row = fp) (keyRows s)) fingerprints"

definition usable_at :: "time \<Rightarrow> keyRow \<Rightarrow> bool" where
  "usable_at now row \<longleftrightarrow> krEnabled row \<and> \<not> krAuthInvalid row
     \<and> (case krCooldownUntil row of None \<Rightarrow> True | Some t \<Rightarrow> t \<le> formatTimestamp now)"

definition AvailableIDs :: "time \<Rightarrow> keyStore \<Rightarrow> key_id list" where
  "AvailableIDs now s = sort (map krID (filter (usable_at now) (keyRows s)))"

definition FirstEnabledID :: "time \<Rightarrow> keyStore \<Rightarrow> goError + key_id" where
  "FirstEnabledID now s =
     (case AvailableIDs now s of [] \<Rightarrow> Inl (Wrapped ''find first enabled NVIDIA key'' # ErrNoRows) | i # _ \<Rightarrow> Inr i)"

definition CountEnabled :: "keyStore \<Rightarrow> nat" where
  "CountEnabled s = length (filter (\<lambda>row. krEnabled row \<and> \<not> krAuthInvalid row) (keyRows s))"

definition ListSnapshots :: "keyStore \<Rightarrow> keySnapshot list" where
  "ListSnapshots s = map scanSchedulingSnapshot (sort_key krID (keyRows s))"

definition ListKeysForHealthCheck :: "keyStore \<Rightarrow> keySnapshot list" where
  "ListKeysForHealthCheck s = map scanSchedulingSnapshot (sort_key krID (filter (\<lambda>row. krEnabled row \<and> \<not> krAuthInvalid row
     \<and> (krCooldownUntil row \<noteq> None \<or> krCooldownLevel row > 0 \<or> krConsecutiveFailures row > 0)) (keyRows s)))"

definition EarliestCooldownExpiry :: "time \<Rightarrow> keyStore \<Rightarrow> time option" where
  "EarliestCooldownExpiry now s =
     (let expiries = List.map_filter (\<lambda>row. if krEnabled row \<and> \<not> krAuthInvalid row then
             (case krCooldownUntil row of Some t \<Rightarrow> if t > formatTimestamp now then Some t else None | None \<Rightarrow> None) else None) (keyRows s)
      in if expiries = [] then None else Some (Min (set expiries)))"

definition healed_row :: "time \<Rightarrow> keyRow \<Rightarrow> keyRow" where
  "healed_row now row = row\<lparr>krAuthInvalid := False, krCooldownUntil := None, krCooldownReason := None, krCooldownLevel := 0, krConsecutiveFailures := 0,
     krLastSuccessAt := Some (formatTimestamp now), krLastErrorCode := None, krUpdatedAt := formatTimestamp now\<rparr>"

definition markSuccess :: "goError \<Rightarrow> key_id \<Rightarrow> time \<Rightarrow> keyStore \<Rightarrow> (goError + keySnapshot) \<times> keyStore" where
  "markSuccess dbErr i now = stateTransaction dbErr (\<lambda>s.
     case update_key ''update successful NVIDIA key state'' i
         (healed_row now) s of
       (err, s') \<Rightarrow> if err \<noteq> nil_error then (Inl err, s') else (loadSchedulingSnapshot i s', s'))"

definition updateFailedKey :: "key_id \<Rightarrow> bool \<Rightarrow> string \<Rightarrow> duration \<Rightarrow> int \<Rightarrow> bool \<Rightarrow> time \<Rightarrow> keyStore \<Rightarrow> goError \<times> keyStore" where
  "updateFailedKey i invalid code d nextLevel recordCooldown now =
     (if recordCooldown then
        update_key ''update failed NVIDIA key cooldown'' i
          (\<lambda>row. row\<lparr>krAuthInvalid := invalid, krCooldownUntil := Some (formatTimestamp (now + d)), krCooldownReason := Some code,
             krCooldownLevel := nextLevel, krConsecutiveFailures := krConsecutiveFailures row + 1,
             krLastErrorAt := Some (formatTimestamp now), krLastErrorCode := Some code, krUpdatedAt := formatTimestamp now\<rparr>)
      else
        update_key ''update failed NVIDIA key state'' i
          (\<lambda>row. row\<lparr>krAuthInvalid := invalid, krLastErrorAt := Some (formatTimestamp now), krLastErrorCode := Some code, krUpdatedAt := formatTimestamp now\<rparr>))"

definition upsertModelBlock :: "key_id \<Rightarrow> model_id \<Rightarrow> string \<Rightarrow> int \<Rightarrow> time \<Rightarrow> keyStore \<Rightarrow> keyStore" where
  "upsertModelBlock i modelID why code now s =
     (let upstream = (if code > 0 then Some code else None); here = (\<lambda>b. blkKey b = i \<and> blkModel b = modelID)
      in s\<lparr>keyBlocks :=
           if list_ex here (keyBlocks s)
           then map (\<lambda>b. if here b then b\<lparr>blkReason := why, blkStatus := upstream, blkLastSeen := formatTimestamp now\<rparr> else b) (keyBlocks s)
           else keyBlocks s @ [\<lparr>blkKey = i, blkModel = modelID, blkReason = why, blkStatus = upstream,
                  blkFirstSeen = formatTimestamp now, blkLastSeen = formatTimestamp now\<rparr>]\<rparr>)"

definition failure_duration :: "fault \<Rightarrow> int \<Rightarrow> real \<Rightarrow> duration" where
  "failure_duration f level random =
     (if HTTPStatus f = 429 \<and> RetryAfter f > 0 \<and> RetryAfter f < 2 * second then 2 * second else fst (CalculateCooldown f level random))"

text \<open>The foreign key of the blocks: the error of an upsert is an argument too.\<close>

definition markFailure :: "goError \<Rightarrow> goError \<Rightarrow> key_id \<Rightarrow> model_id \<Rightarrow> fault \<Rightarrow> time \<Rightarrow> real \<Rightarrow> keyStore \<Rightarrow> (goError + keySnapshot) \<times> keyStore" where
  "markFailure dbErr blockErr i modelID f now random = stateTransaction dbErr (\<lambda>s.
     case loadSchedulingSnapshot i s of
       Inl err \<Rightarrow> (Inl err, s)
     | Inr current \<Rightarrow>
         let code = safePersistedCode (PublicCode f);
             d = failure_duration f (CooldownLevel current) random;
             nextLevel = snd (CalculateCooldown f (CooldownLevel current) random);
             invalid = AuthInvalid current \<or> DisableKey f \<or> HTTPStatus f = 401;
             recordCooldown = HTTPStatus f = 429 \<or> d > 0
         in case updateFailedKey i invalid code d nextLevel recordCooldown now s of
              (err, s1) \<Rightarrow>
                if err \<noteq> nil_error then (Inl err, s1)
                else if BlockModel f \<and> blockErr \<noteq> nil_error then (Inl (Wrapped ''upsert NVIDIA key model block'' # blockErr), s1)
                else let s2 = (if BlockModel f then upsertModelBlock i modelID code (HTTPStatus f) now s1 else s1)
                     in (loadSchedulingSnapshot i s2, s2))"

subsection \<open>The health checker\<close>

definition DefaultHealthCheckInterval :: duration where "DefaultHealthCheckInterval = 10 * minute"

definition nextDelay :: "duration \<Rightarrow> (time \<Rightarrow> goError + time option) option \<Rightarrow> time \<Rightarrow> duration" where
  "nextDelay interval cooldownExpiry now =
     (case cooldownExpiry of
        None \<Rightarrow> interval
      | Some hook \<Rightarrow>
          (case hook now of
             Inl _ \<Rightarrow> interval
           | Inr None \<Rightarrow> interval
           | Inr (Some expiry) \<Rightarrow>
               let remaining = expiry - now
               in if remaining \<le> 0 then 0
                  else if remaining < interval then remaining + 500 * millisecond
                  else interval))"

datatype probeCategory = ProbeValid | ProbeInvalid | ProbeUnavailable | ProbeIndeterminate | ProbeSkipped

definition probe_recovered :: "probeCategory \<Rightarrow> bool" where
  "probe_recovered c \<longleftrightarrow> c = ProbeValid"

datatype validationState = ValidationValid | ValidationInvalidCredential | ValidationTemporarilyUnavailable | ValidationProxyUnavailable | ValidationOther

text \<open>\<open>Test\<close>: the error of reading the secret, what the validator found, the clock; the status and the snapshot it reports.\<close>

definition key_Test ::
  "goError \<Rightarrow> validationState \<Rightarrow> fault option \<Rightarrow> goError \<Rightarrow> goError \<Rightarrow> key_id \<Rightarrow> time \<Rightarrow> real \<Rightarrow> keyStore \<Rightarrow> (goError + string \<times> keySnapshot option) \<times> keyStore" where
  "key_Test secretErr state vf dbErr blockErr i now random s =
     (let failed = (\<lambda>status.
            case vf of
              None \<Rightarrow> (Inl [OtherError ''test NVIDIA key: validator returned a failure without fault metadata''], s)
            | Some f \<Rightarrow>
                (case markFailure dbErr blockErr i 0 f now random s of
                   (Inl err, s') \<Rightarrow> (Inl (Wrapped ''mark NVIDIA key failure'' # err), s')
                 | (Inr snap, s') \<Rightarrow> (Inr (status, Some snap), s')))
      in if secretErr \<noteq> nil_error then (Inl (Wrapped ''test NVIDIA key'' # secretErr), s)
         else case state of
           ValidationValid \<Rightarrow>
             (case markSuccess dbErr i now s of
                (Inl err, s') \<Rightarrow> (Inl (Wrapped ''mark NVIDIA key success'' # err), s')
              | (Inr snap, s') \<Rightarrow> (Inr (''valid'', Some snap), s'))
         | ValidationInvalidCredential \<Rightarrow> failed ''invalid''
         | ValidationTemporarilyUnavailable \<Rightarrow> failed ''temporarily_unavailable''
         | ValidationProxyUnavailable \<Rightarrow> (Inr (''temporarily_unavailable'', None), s)
         | ValidationOther \<Rightarrow> failed ''indeterminate'')"

definition ProbeHealth :: "goError \<Rightarrow> validationState \<Rightarrow> probeCategory" where
  "ProbeHealth secretErr state =
     (if secretErr \<noteq> nil_error then ProbeSkipped
      else case state of
        ValidationValid \<Rightarrow> ProbeValid
      | ValidationInvalidCredential \<Rightarrow> ProbeInvalid
      | ValidationTemporarilyUnavailable \<Rightarrow> ProbeUnavailable
      | ValidationProxyUnavailable \<Rightarrow> ProbeUnavailable
      | ValidationOther \<Rightarrow> ProbeIndeterminate)"

text \<open>One probe: the store and the in-memory pool after it, with the probe's result and the database's answer.\<close>

definition probeOne :: "probeCategory \<Rightarrow> goError \<Rightarrow> time \<Rightarrow> key_id \<Rightarrow> keyStore \<times> pool \<Rightarrow> keyStore \<times> pool" where
  "probeOne result dbErr now i sp =
     (if \<not> probe_recovered result then sp
      else case markSuccess dbErr i now (fst sp) of
        (Inl _, s) \<Rightarrow> (s, snd sp)
      | (Inr _, s) \<Rightarrow> (s, applySuccessLocked i (snd sp)))"

text \<open>A sweep: its candidates in the order in which the workers finish.\<close>

definition Sweep :: "(key_id \<Rightarrow> probeCategory) \<Rightarrow> (key_id \<Rightarrow> goError) \<Rightarrow> time \<Rightarrow> key_id list \<Rightarrow> keyStore \<times> pool \<Rightarrow> keyStore \<times> pool" where
  "Sweep probe dbErr now schedule sp = fold (\<lambda>i. probeOne (probe i) (dbErr i) now i) schedule sp"

subsection \<open>The table stays sound\<close>

definition store_ok :: "keyStore \<Rightarrow> bool" where
  "store_ok s \<longleftrightarrow> distinct (map krID (keyRows s)) \<and> (\<forall>row \<in> set (keyRows s). krID row \<le> lastKeyID s \<and> 0 \<le> krCooldownLevel row \<and> krCooldownLevel row \<le> 6
     \<and> (\<forall>t. krCooldownUntil row = Some t \<longrightarrow> t mod second = 0))"

lemma find_row_in: "find_row i s = Some row \<Longrightarrow> row \<in> set (keyRows s) \<and> krID row = i"
  by (auto simp: find_row_def find_Some_iff in_set_conv_nth)

lemma find_row_iff: "store_ok s \<Longrightarrow> find_row i s = Some row \<longleftrightarrow> row \<in> set (keyRows s) \<and> krID row = i"
proof
  assume ok: "store_ok s" and row: "row \<in> set (keyRows s) \<and> krID row = i"
  then obtain row' where row': "find_row i s = Some row'"
    by (cases "find_row i s") (auto simp: find_row_def find_None_iff)
  then have "row' = row"
    using ok row find_row_in [OF row'] by (auto simp: store_ok_def distinct_map dest: inj_onD)
  then show "find_row i s = Some row"
    using row' by simp
qed (rule find_row_in)

text \<open>An update of one row, seen through \<open>find_row\<close>.\<close>

lemma find_map_row: "(\<And>row. krID (f row) = krID row) \<Longrightarrow>
   find (\<lambda>row. krID row = j) (map (\<lambda>row. if krID row = i then f row else row) rows)
     = map_option (\<lambda>row. if j = i then f row else row) (find (\<lambda>row. krID row = j) rows)"
  by (induction rows) auto

lemma filter_one: "distinct (map krID rows) \<Longrightarrow> row \<in> set rows \<Longrightarrow> krID row = i \<Longrightarrow> length (filter (\<lambda>row. krID row = i) rows) = 1"
  by (induction rows) (auto simp: filter_empty_conv rev_image_eqI)

lemma update_key_found:
  assumes "store_ok s" "find_row i s = Some row" "\<And>row. krID (f row) = krID row"
  shows "fst (update_key what i f s) = nil_error"
    "find_row j (snd (update_key what i f s)) = (if j = i then Some (f row) else find_row j s)"
proof -
  show "fst (update_key what i f s) = nil_error"
    using filter_one [of "keyRows s" row i] find_row_in [OF assms(2)] assms(1) by (simp add: update_key_def store_ok_def)
  show "find_row j (snd (update_key what i f s)) = (if j = i then Some (f row) else find_row j s)"
    using assms(2) find_map_row [OF assms(3), of j i "keyRows s"] by (auto simp: update_key_def Let_def find_row_def option.map_ident)
qed

lemma update_key_ok:
  assumes "store_ok s" "\<And>row. krID (f row) = krID row"
    "\<And>row. row \<in> set (keyRows s) \<Longrightarrow> krID row = i \<Longrightarrow> 0 \<le> krCooldownLevel (f row) \<and> krCooldownLevel (f row) \<le> 6 \<and> (\<forall>t. krCooldownUntil (f row) = Some t \<longrightarrow> t mod second = 0)"
  shows "store_ok (snd (update_key what i f s))"
proof -
  have "krID \<circ> (\<lambda>row. if krID row = i then f row else row) = krID"
    using assms(2) by (simp add: fun_eq_iff)
  then show ?thesis
    using assms by (auto simp: store_ok_def update_key_def Let_def)
qed

lemma update_key_lookup_error:
  assumes "store_ok s" "find_row i s = None"
  shows "fst (update_key what i f s) \<noteq> nil_error"
  using assms by (auto simp: update_key_def find_row_def find_None_iff filter_empty_conv Let_def)

lemma formatTimestamp_mod: "formatTimestamp t mod second = 0"
  unfolding formatTimestamp_def by (simp add: minus_mod_eq_mult_div)

lemma formatTimestamp_bounds: "formatTimestamp t \<le> t" "t - second < formatTimestamp t"
  unfolding formatTimestamp_def by simp_all

lemma whole_second_le: "t mod second = 0 \<Longrightarrow> t \<le> formatTimestamp now \<longleftrightarrow> t \<le> now"
proof
  assume whole: "t mod second = 0" and le: "t \<le> now"
  have "t div second \<le> now div second"
    using le by (rule zdiv_mono1) simp
  then have "second * (t div second) \<le> second * (now div second)"
    by simp
  moreover have "t = second * (t div second)" "formatTimestamp now = second * (now div second)"
    using whole mult_div_mod_eq [of second t] unfolding formatTimestamp_def by (simp_all add: minus_mod_eq_mult_div)
  ultimately show "t \<le> formatTimestamp now"
    by simp
qed (use formatTimestamp_bounds [of now] in simp)

subsection \<open>What a success and a failure write\<close>

lemma markSuccess_found:
  assumes "store_ok s" "find_row i s = Some row"
  shows "\<exists>s'. markSuccess nil_error i now s = (Inr (scanSchedulingSnapshot (healed_row now row)), s') \<and> store_ok s'
     \<and> (\<forall>j. find_row j s' = (if j = i then Some (healed_row now row) else find_row j s))"
proof -
  let ?u = "update_key ''update successful NVIDIA key state'' i (healed_row now) s"
  have u: "fst ?u = nil_error" "\<And>j. find_row j (snd ?u) = (if j = i then Some (healed_row now row) else find_row j s)"
    using update_key_found [OF assms, of "healed_row now"] by (simp_all add: healed_row_def)
  moreover have "store_ok (snd ?u)"
    using assms(1) by (rule update_key_ok) (simp_all add: healed_row_def)
  moreover have "markSuccess nil_error i now s = (Inr (scanSchedulingSnapshot (healed_row now row)), snd ?u)"
    using u unfolding markSuccess_def stateTransaction_def by (simp add: case_prod_beta loadSchedulingSnapshot_def)
  ultimately show ?thesis
    by blast
qed

definition failed_row :: "fault \<Rightarrow> time \<Rightarrow> real \<Rightarrow> keyRow \<Rightarrow> keyRow" where
  "failed_row f now random row =
     (let d = failure_duration f (krCooldownLevel row) random; code = safePersistedCode (PublicCode f);
          noted = row\<lparr>krAuthInvalid := krAuthInvalid row \<or> DisableKey f \<or> HTTPStatus f = 401, krLastErrorAt := Some (formatTimestamp now),
            krLastErrorCode := Some code, krUpdatedAt := formatTimestamp now\<rparr>
      in if HTTPStatus f = 429 \<or> d > 0
         then noted\<lparr>krCooldownUntil := Some (formatTimestamp (now + d)), krCooldownReason := Some code,
                krCooldownLevel := snd (CalculateCooldown f (krCooldownLevel row) random), krConsecutiveFailures := krConsecutiveFailures row + 1\<rparr>
         else noted)"

lemma find_row_upsert [simp]: "find_row j (upsertModelBlock i m why code now s) = find_row j s" "store_ok (upsertModelBlock i m why code now s) = store_ok s"
  by (simp_all add: upsertModelBlock_def find_row_def store_ok_def Let_def)

lemma cooldown_level_bounds:
  "0 \<le> level \<Longrightarrow> level \<le> 6 \<Longrightarrow> 0 \<le> snd (CalculateCooldown f level random) \<and> snd (CalculateCooldown f level random) \<le> 6"
  by (auto simp: CalculateCooldown_def nextCooldownLevel_def Let_def cooldown_consts)

lemma updateFailedKey_found:
  fixes f :: fault and now :: time and random :: real and s :: keyStore and row :: keyRow and i :: key_id
  assumes "store_ok s" "find_row i s = Some row"
  defines "u \<equiv> updateFailedKey i (krAuthInvalid row \<or> DisableKey f \<or> HTTPStatus f = 401) (safePersistedCode (PublicCode f))
     (failure_duration f (krCooldownLevel row) random) (snd (CalculateCooldown f (krCooldownLevel row) random))
     (HTTPStatus f = 429 \<or> failure_duration f (krCooldownLevel row) random > 0) now s"
  shows "fst u = nil_error" "\<And>j. find_row j (snd u) = (if j = i then Some (failed_row f now random row) else find_row j s)" "store_ok (snd u)"
proof -
  let ?d = "failure_duration f (krCooldownLevel row) random"
  have row: "row \<in> set (keyRows s)" "krID row = i"
    using find_row_in [OF assms(2)] by simp_all
  have unique: "r = row" if "r \<in> set (keyRows s)" "krID r = i" for r
    using find_row_iff [OF assms(1), of i r] that assms(2) by simp
  have bounds: "0 \<le> krCooldownLevel row" "krCooldownLevel row \<le> 6" "\<forall>t. krCooldownUntil row = Some t \<longrightarrow> t mod second = 0"
    using assms(1) row by (auto simp: store_ok_def)
  show "fst u = nil_error" "find_row j (snd u) = (if j = i then Some (failed_row f now random row) else find_row j s)" for j
    unfolding u_def updateFailedKey_def
    by (cases "HTTPStatus f = 429 \<or> ?d > 0"; simp add: update_key_found [OF assms(1,2)] failed_row_def Let_def)+
  show "store_ok (snd u)"
  proof (cases "HTTPStatus f = 429 \<or> ?d > 0")
    case True
    show ?thesis
      unfolding u_def updateFailedKey_def if_P [OF True] using assms(1)
      by (rule update_key_ok) (auto dest!: unique simp: cooldown_level_bounds bounds formatTimestamp_mod)
  next
    case False
    show ?thesis
      unfolding u_def updateFailedKey_def if_not_P [OF False] using assms(1)
      by (rule update_key_ok) (auto dest!: unique simp: bounds)
  qed
qed

lemma markFailure_found:
  assumes "store_ok s" "find_row i s = Some row" "BlockModel f \<Longrightarrow> blockErr = nil_error"
  shows "\<exists>s'. markFailure nil_error blockErr i m f now random s = (Inr (scanSchedulingSnapshot (failed_row f now random row)), s') \<and> store_ok s'
     \<and> (\<forall>j. find_row j s' = (if j = i then Some (failed_row f now random row) else find_row j s))"
proof -
  let ?u = "updateFailedKey i (krAuthInvalid row \<or> DisableKey f \<or> HTTPStatus f = 401) (safePersistedCode (PublicCode f))
     (failure_duration f (krCooldownLevel row) random) (snd (CalculateCooldown f (krCooldownLevel row) random))
     (HTTPStatus f = 429 \<or> failure_duration f (krCooldownLevel row) random > 0) now s"
  note u = updateFailedKey_found [OF assms(1,2), where f = f and random = random and now = now]
  let ?s' = "if BlockModel f then upsertModelBlock i m (safePersistedCode (PublicCode f)) (HTTPStatus f) now (snd ?u) else snd ?u"
  have rows: "find_row j ?s' = (if j = i then Some (failed_row f now random row) else find_row j s)" for j
    using u(2) by simp
  have "markFailure nil_error blockErr i m f now random s = (loadSchedulingSnapshot i ?s', ?s')"
    using u(1) assms(2,3) rows [of i] unfolding markFailure_def stateTransaction_def
    by (auto simp: case_prod_beta loadSchedulingSnapshot_def scanSchedulingSnapshot_def Let_def)
  then show ?thesis
    using rows u(3) by (intro exI [of _ ?s']) (simp add: loadSchedulingSnapshot_def)
qed

lemma failure_duration_bounds:
  assumes "0 \<le> RetryAfter f" "0 \<le> level" "level \<le> 6"
  shows "0 \<le> failure_duration f level random" "failure_duration f level random \<le> 5 * minute"
    "HTTPStatus f = 429 \<Longrightarrow> RetryAfter f > 0 \<or> \<not> retryAfterValid f \<Longrightarrow> 2 * second \<le> failure_duration f level random"
    "failure_duration f level random > 0 \<Longrightarrow> HTTPStatus f = 429 \<or> Retryable f \<and> 500 \<le> HTTPStatus f \<and> HTTPStatus f \<le> 599"
    "Retryable f \<Longrightarrow> 500 \<le> HTTPStatus f \<Longrightarrow> HTTPStatus f \<le> 599 \<Longrightarrow> failure_duration f level random > 0"
proof -
  note b = cooldown_bounded [OF assms, of random]
  show "0 \<le> failure_duration f level random" "failure_duration f level random \<le> 5 * minute"
    using b by (auto simp: failure_duration_def)
  show "2 * second \<le> failure_duration f level random" if "HTTPStatus f = 429" "RetryAfter f > 0 \<or> \<not> retryAfterValid f"
  proof (cases "RetryAfter f > 0")
    case True
    then show ?thesis
      using that by (auto simp: failure_duration_def CalculateCooldown_def Let_def cooldown_consts)
  next
    case False
    then have "4 * second \<le> fst (CalculateCooldown f level random)"
      using b that assms(1) by auto
    then show ?thesis
      using False by (simp add: failure_duration_def)
  qed
  show "HTTPStatus f = 429 \<or> Retryable f \<and> 500 \<le> HTTPStatus f \<and> HTTPStatus f \<le> 599" if "failure_duration f level random > 0"
    using that by (auto simp: failure_duration_def CalculateCooldown_def Let_def split: if_splits)
  show "failure_duration f level random > 0" if "Retryable f" "500 \<le> HTTPStatus f" "HTTPStatus f \<le> 599"
    using that by (auto simp: failure_duration_def CalculateCooldown_def Let_def cooldown_consts)
qed

text \<open>what a failure writes. A key that exists gets exactly one updated row: it is marked invalid by a 401 or a
  disabling fault and never made valid again; a rate limit or a retryable server error starts a
  cooldown that ends at most five minutes later (whole seconds, rounded down) and counts the failure,
  after a 429 without \<open>Retry-After: 0\<close> it lasts more than one second and the level rises to at most six;
  every other fault leaves the cooldown alone. The returned snapshot is that of the new row.\<close>

theorem markFailure_effect:
  assumes "store_ok s" "find_row i s = Some row" "BlockModel f \<longrightarrow> blockErr = nil_error" "0 \<le> RetryAfter f"
  shows "\<exists>s' row'. markFailure nil_error blockErr i m f now random s = (Inr (scanSchedulingSnapshot row'), s') \<and> store_ok s'
     \<and> find_row i s' = Some row' \<and> (\<forall>j. j \<noteq> i \<longrightarrow> find_row j s' = find_row j s)
     \<and> krEnabled row' = krEnabled row \<and> krAuthInvalid row' = (krAuthInvalid row \<or> DisableKey f \<or> HTTPStatus f = 401)
     \<and> (if HTTPStatus f = 429 \<or> Retryable f \<and> 500 \<le> HTTPStatus f \<and> HTTPStatus f \<le> 599 then
          (\<exists>t. krCooldownUntil row' = Some t \<and> now - second < t \<and> t \<le> now + 5 * minute
             \<and> (HTTPStatus f = 429 \<and> (RetryAfter f > 0 \<or> \<not> retryAfterValid f) \<longrightarrow> now + second < t))
          \<and> krConsecutiveFailures row' = krConsecutiveFailures row + 1
          \<and> krCooldownLevel row' = (if HTTPStatus f = 429 then min 6 (krCooldownLevel row + 1) else krCooldownLevel row)
        else krCooldownUntil row' = krCooldownUntil row \<and> krConsecutiveFailures row' = krConsecutiveFailures row \<and> krCooldownLevel row' = krCooldownLevel row)"
proof -
  obtain s' where s': "markFailure nil_error blockErr i m f now random s = (Inr (scanSchedulingSnapshot (failed_row f now random row)), s')" "store_ok s'"
      "\<And>j. find_row j s' = (if j = i then Some (failed_row f now random row) else find_row j s)"
    using markFailure_found [OF assms(1,2)] assms(3) by blast
  have level: "0 \<le> krCooldownLevel row" "krCooldownLevel row \<le> 6"
    using assms(1) find_row_in [OF assms(2)] by (auto simp: store_ok_def)
  let ?d = "failure_duration f (krCooldownLevel row) random"
  note d = failure_duration_bounds [OF assms(4) level, of random]
  have until: "now + ?d - second < formatTimestamp (now + ?d)" "formatTimestamp (now + ?d) \<le> now + ?d"
    using formatTimestamp_bounds [of "now + ?d"] by simp_all
  have records: "(HTTPStatus f = 429 \<or> ?d > 0) = (HTTPStatus f = 429 \<or> Retryable f \<and> 500 \<le> HTTPStatus f \<and> HTTPStatus f \<le> 599)"
    using d(4,5) by blast
  have lv: "snd (CalculateCooldown f (krCooldownLevel row) random) = (if HTTPStatus f = 429 then min 6 (krCooldownLevel row + 1) else krCooldownLevel row)"
    using cooldown_bounded [OF assms(4) level, of random] by blast
  let ?row = "failed_row f now random row"
  have fields: "krEnabled ?row = krEnabled row" "krAuthInvalid ?row = (krAuthInvalid row \<or> DisableKey f \<or> HTTPStatus f = 401)"
    by (simp_all add: failed_row_def Let_def)
  have cooled: "krCooldownUntil ?row = Some (formatTimestamp (now + ?d))" "krConsecutiveFailures ?row = krConsecutiveFailures row + 1"
      "krCooldownLevel ?row = snd (CalculateCooldown f (krCooldownLevel row) random)" if "HTTPStatus f = 429 \<or> ?d > 0"
    using that by (simp_all add: failed_row_def Let_def)
  have spared: "krCooldownUntil ?row = krCooldownUntil row" "krConsecutiveFailures ?row = krConsecutiveFailures row"
      "krCooldownLevel ?row = krCooldownLevel row" if "\<not> (HTTPStatus f = 429 \<or> ?d > 0)"
    using that by (simp_all add: failed_row_def Let_def)
  have "now - second < formatTimestamp (now + ?d) \<and> formatTimestamp (now + ?d) \<le> now + 5 * minute
      \<and> (HTTPStatus f = 429 \<and> (RetryAfter f > 0 \<or> \<not> retryAfterValid f) \<longrightarrow> now + second < formatTimestamp (now + ?d))"
    using until d(1-3) by auto
  then show ?thesis
    using s'(1,2) s'(3) [of i] s'(3) fields cooled spared lv unfolding records [symmetric]
    by (intro exI [of _ s'] exI [of _ ?row] conjI) (simp_all split: if_splits)
qed

subsection \<open>The pool mirrors the table\<close>

text \<open>
  A report writes the table first and then, without a common lock, what it read back into the pool
  (\<open>executeLease\<close> of the router, the admin handler, the health checker).
\<close>

text \<open>\<open>UpsertKey\<close> of the pool with a snapshot that was read back.\<close>

definition sync_snapshot :: "keySnapshot \<Rightarrow> pool \<Rightarrow> pool" where
  "sync_snapshot snap p = (case upsertKeyLocked snap p of Some p' \<Rightarrow> p' | None \<Rightarrow> p)"

datatype keyReport =
    ReportSuccess goError key_id time
  | ReportFailure goError goError key_id model_id fault time real
  | ReportEnabled goError key_id bool time
  | ReportProbe probeCategory goError time key_id
  | ReportTest goError validationState "fault option" goError goError key_id time real

fun report :: "keyReport \<Rightarrow> keyStore \<times> pool \<Rightarrow> keyStore \<times> pool" where
  "report (ReportSuccess dbErr i now) sp =
     (case markSuccess dbErr i now (fst sp) of (Inl _, s) \<Rightarrow> (s, snd sp) | (Inr _, s) \<Rightarrow> (s, applySuccessLocked i (snd sp)))"
| "report (ReportFailure dbErr blockErr i m f now random) sp =
     (case markFailure dbErr blockErr i m f now random (fst sp) of
        (Inl _, s) \<Rightarrow> (s, snd sp) | (Inr snap, s) \<Rightarrow> (s, applyFailureLocked i m f snap (snd sp)))"
| "report (ReportEnabled dbErr i enabled now) sp =
     (case repo_SetEnabled dbErr i enabled now (fst sp) of
        (Inl _, s) \<Rightarrow> (s, snd sp) | (Inr snap, s) \<Rightarrow> (s, setKeyEnabledLocked i (Enabled snap) (snd sp)))"
| "report (ReportProbe result dbErr now i) sp = probeOne result dbErr now i sp"
| "report (ReportTest secretErr state vf dbErr blockErr i now random) sp =
     (case key_Test secretErr state vf dbErr blockErr i now random (fst sp) of
        (Inr (_, Some snap), s) \<Rightarrow> (s, sync_snapshot snap (snd sp)) | (_, s) \<Rightarrow> (s, snd sp))"

definition mirrors :: "keyStore \<times> pool \<Rightarrow> bool" where
  "mirrors sp \<longleftrightarrow> store_ok (fst sp) \<and> inj_on (keys (snd sp)) (dom (keys (snd sp))) \<and> (\<forall>i r. keys (snd sp) i = Some r \<longrightarrow> r < nextRef (snd sp))
     \<and> (\<forall>i r. keys (snd sp) i = Some r \<longrightarrow> (\<exists>row. find_row i (fst sp) = Some row \<and> snapshot (heap (snd sp) r) = scanSchedulingSnapshot row))"

lemma mirrors_row: "mirrors (s, p) \<Longrightarrow> keys p i = Some r \<Longrightarrow> \<exists>row. find_row i s = Some row \<and> snapshot (heap p r) = scanSchedulingSnapshot row"
  by (simp add: mirrors_def)

lemma with_key_other: "inj_on (keys p) (dom (keys p)) \<Longrightarrow> keys p j = Some r \<Longrightarrow> j \<noteq> i \<Longrightarrow> heap (with_key i f p) r = heap p r"
  by (auto simp: with_key_def set_state_def inj_on_def dom_def split: option.splits)

lemma mirrors_update:
  assumes M: "mirrors (s, p)" and ok: "store_ok s'" and row: "find_row i s = Some row"
    and rows: "\<And>j. find_row j s' = (if j = i then Some row' else find_row j s)"
    and upd: "\<And>st. snapshot st = scanSchedulingSnapshot row \<Longrightarrow> snapshot (f st) = scanSchedulingSnapshot row'"
  shows "mirrors (s', with_key i f p)"
proof -
  have keys: "keys (with_key i f p) = keys p" "nextRef (with_key i f p) = nextRef p"
    by (simp_all add: with_key_def set_state_def split: option.split)
  have "\<exists>row. find_row j s' = Some row \<and> snapshot (heap (with_key i f p) r) = scanSchedulingSnapshot row" if j: "keys p j = Some r" for j r
  proof (cases "j = i")
    case True
    then have "snapshot (heap p r) = scanSchedulingSnapshot row"
      using mirrors_row [OF M] j row by fastforce
    then show ?thesis
      using upd rows [of j] True j by (simp add: with_key_def set_state_def)
  next
    case False
    then show ?thesis
      using with_key_other [OF _ j False] mirrors_row [OF M j] rows [of j] M by (simp add: mirrors_def)
  qed
  then show ?thesis
    using M ok keys by (simp add: mirrors_def)
qed

lemma mirrors_without_row:
  assumes "mirrors (s, p)" "find_row i s = None"
  shows "with_key i f p = p"
  using assms mirrors_row [OF assms(1), of i] by (auto simp: with_key_def split: option.split)

lemma stateTransaction_error: "fst (stateTransaction dbErr operation s) = Inl err \<Longrightarrow> snd (stateTransaction dbErr operation s) = s"
  by (auto simp: stateTransaction_def split: if_splits prod.splits sum.splits)

lemma mark_missing:
  assumes "store_ok s" "find_row i s = None"
  shows "\<exists>err. markSuccess dbErr i now s = (Inl err, s)" "\<exists>err. markFailure dbErr blockErr i m f now random s = (Inl err, s)"
    "\<exists>err. repo_SetEnabled dbErr i enabled now s = (Inl err, s)"
  using update_key_lookup_error [OF assms] assms(2)
  by (auto simp: markSuccess_def markFailure_def repo_SetEnabled_def stateTransaction_def loadSchedulingSnapshot_def case_prod_beta)

lemma markFailure_refused:
  assumes ok: "store_ok s" and no: "\<not> (dbErr = nil_error \<and> find_row i s \<noteq> None \<and> (BlockModel f \<longrightarrow> blockErr = nil_error))"
  shows "\<exists>err. markFailure dbErr blockErr i m f now random s = (Inl err, s)"
proof (cases "dbErr = nil_error \<and> find_row i s \<noteq> None")
  case True
  then have "BlockModel f" "blockErr \<noteq> nil_error"
    using no by auto
  then show ?thesis
    using True by (auto simp: markFailure_def stateTransaction_def loadSchedulingSnapshot_def Let_def case_prod_beta)
next
  case False
  then show ?thesis
    using mark_missing(2) [OF ok, of i dbErr blockErr m f now random] by (cases "dbErr = nil_error") (auto simp: markFailure_def stateTransaction_def)
qed

lemma mirrors_success:
  assumes M: "mirrors (s, p)"
  shows "mirrors (case markSuccess dbErr i now s of (Inl _, s') \<Rightarrow> (s', p) | (Inr _, s') \<Rightarrow> (s', applySuccessLocked i p))"
proof (cases "dbErr = nil_error \<and> find_row i s \<noteq> None")
  case True
  then obtain row where row: "find_row i s = Some row" "dbErr = nil_error"
    by auto
  have ok: "store_ok s"
    using M by (simp add: mirrors_def)
  obtain s' where s': "markSuccess nil_error i now s = (Inr (scanSchedulingSnapshot (healed_row now row)), s')" "store_ok s'"
      "\<And>j. find_row j s' = (if j = i then Some (healed_row now row) else find_row j s)"
    using markSuccess_found [OF ok row(1)] by blast
  have "mirrors (s', applySuccessLocked i p)"
    unfolding applySuccessLocked_def by (rule mirrors_update [OF M s'(2) row(1) s'(3)]) (simp add: scanSchedulingSnapshot_def healed_row_def)
  then show ?thesis
    using s'(1) row(2) by simp
next
  case False
  have "store_ok s"
    using M by (simp add: mirrors_def)
  then have "\<exists>err. markSuccess dbErr i now s = (Inl err, s)"
    using False mark_missing(1) [of s i dbErr now] by (cases "dbErr = nil_error") (auto simp: markSuccess_def stateTransaction_def)
  then show ?thesis
    using M by auto
qed

lemma mirrors_failure:
  assumes M: "mirrors (s, p)"
  shows "mirrors (case markFailure dbErr blockErr i m f now random s of (Inl _, s') \<Rightarrow> (s', p) | (Inr snap, s') \<Rightarrow> (s', applyFailureLocked i m f snap p))"
proof (cases "dbErr = nil_error \<and> find_row i s \<noteq> None \<and> (BlockModel f \<longrightarrow> blockErr = nil_error)")
  case True
  then obtain row where row: "find_row i s = Some row" "dbErr = nil_error" "BlockModel f \<Longrightarrow> blockErr = nil_error"
    by auto
  have ok: "store_ok s"
    using M by (simp add: mirrors_def)
  let ?row = "failed_row f now random row"
  obtain s' where s': "markFailure nil_error blockErr i m f now random s = (Inr (scanSchedulingSnapshot ?row), s')" "store_ok s'"
      "\<And>j. find_row j s' = (if j = i then Some ?row else find_row j s)"
    using markFailure_found [OF ok row(1,3)] by blast
  have keep: "krID ?row = krID row" "krEnabled ?row = krEnabled row"
    by (simp_all add: failed_row_def Let_def)
  have "mirrors (s', applyFailureLocked i m f (scanSchedulingSnapshot ?row) p)"
    unfolding applyFailureLocked_def
    by (rule mirrors_update [OF M s'(2) row(1) s'(3)]) (simp add: scanSchedulingSnapshot_def keep Let_def)
  then show ?thesis
    using s'(1) row(2) by simp
next
  case False
  have ok: "store_ok s"
    using M by (simp add: mirrors_def)
  then have "\<exists>err. markFailure dbErr blockErr i m f now random s = (Inl err, s)"
    using markFailure_refused [OF ok] False by blast
  then show ?thesis
    using M by auto
qed

lemma mirrors_enabled:
  assumes M: "mirrors (s, p)"
  shows "mirrors (case repo_SetEnabled dbErr i enabled now s of (Inl _, s') \<Rightarrow> (s', p) | (Inr snap, s') \<Rightarrow> (s', setKeyEnabledLocked i (Enabled snap) p))"
proof (cases "dbErr = nil_error \<and> find_row i s \<noteq> None")
  case True
  then obtain row where row: "find_row i s = Some row" "dbErr = nil_error"
    by auto
  have ok: "store_ok s"
    using M by (simp add: mirrors_def)
  let ?f = "\<lambda>row. row\<lparr>krEnabled := enabled, krUpdatedAt := formatTimestamp now\<rparr>"
  let ?u = "update_key ''set NVIDIA key enabled state'' i ?f s"
  have u: "fst ?u = nil_error" "\<And>j. find_row j (snd ?u) = (if j = i then Some (?f row) else find_row j s)"
    using update_key_found [OF ok row(1), of ?f] by simp_all
  have ok': "store_ok (snd ?u)"
    using ok by (rule update_key_ok) (use ok in \<open>auto simp: store_ok_def\<close>)
  have "repo_SetEnabled nil_error i enabled now s = (Inr (scanSchedulingSnapshot (?f row)), snd ?u)"
    using u by (simp add: repo_SetEnabled_def stateTransaction_def case_prod_beta loadSchedulingSnapshot_def)
  moreover have "mirrors (snd ?u, setKeyEnabledLocked i enabled p)"
    unfolding setKeyEnabledLocked_def by (rule mirrors_update [OF M ok' row(1) u(2)]) (simp add: scanSchedulingSnapshot_def)
  ultimately show ?thesis
    using row(2) by (simp add: scanSchedulingSnapshot_def)
next
  case False
  have "store_ok s"
    using M by (simp add: mirrors_def)
  then have "\<exists>err. repo_SetEnabled dbErr i enabled now s = (Inl err, s)"
    using False mark_missing(3) [of s i dbErr enabled now] by (cases "dbErr = nil_error") (auto simp: repo_SetEnabled_def stateTransaction_def)
  then show ?thesis
    using M by auto
qed

lemma mirrors_upsert:
  assumes M: "mirrors (s, p)" and ok: "store_ok s'" and row: "find_row i s = Some row"
    and rows: "\<And>j. find_row j s' = (if j = i then Some row' else find_row j s)"
  shows "mirrors (s', sync_snapshot (scanSchedulingSnapshot row') p)"
proof -
  have i: "ksID (scanSchedulingSnapshot row') = i"
    using find_row_in [of i s' row'] rows [of i] by (simp add: scanSchedulingSnapshot_def)
  have others: "\<exists>row. find_row j s' = Some row \<and> snapshot (heap p r) = scanSchedulingSnapshot row" if "keys p j = Some r" "j \<noteq> i" for j r
    using mirrors_row [OF M that(1)] rows [of j] that(2) by simp
  show ?thesis
  proof (cases "keys p i")
    case (Some r)
    then have "sync_snapshot (scanSchedulingSnapshot row') p = with_key i (\<lambda>st. st\<lparr>snapshot := scanSchedulingSnapshot row'\<rparr>) p"
      using i by (simp add: sync_snapshot_def upsertKeyLocked_def with_key_def cloneSnapshot_def)
    then show ?thesis
      using mirrors_update [OF M ok row rows, of "\<lambda>st. st\<lparr>snapshot := scanSchedulingSnapshot row'\<rparr>"] by simp
  next
    case None
    show ?thesis
    proof (cases "upsertKeyLocked (scanSchedulingSnapshot row') p")
      case None': None
      have "\<exists>row. find_row j s' = Some row \<and> snapshot (heap p r) = scanSchedulingSnapshot row" if "keys p j = Some r" for j r
        using that others [of j r] None by fastforce
      then show ?thesis
        using M ok None' by (simp add: mirrors_def sync_snapshot_def)
    next
      case (Some p')
      then have p': "keys p' = (keys p)(i \<mapsto> nextRef p)" "heap p' = (heap p)(nextRef p := newKeyState (scanSchedulingSnapshot row'))" "nextRef p' = Suc (nextRef p)"
        using i None by (auto simp: upsertKeyLocked_def Let_def split: option.splits Option.bind_splits)
      have low: "r < nextRef p" if "keys p j = Some r" for j r
        using M that by (simp add: mirrors_def)
      have "inj_on (keys p') (dom (keys p'))"
        using M low by (fastforce simp: p'(1) mirrors_def inj_on_def dom_def)
      moreover have "\<exists>row. find_row j s' = Some row \<and> snapshot (heap p' r) = scanSchedulingSnapshot row" if "keys p' j = Some r" for j r
        using that others [of j r] rows [of i] low [of j r] by (auto simp: p' newKeyState_def cloneSnapshot_def split: if_splits)
      moreover have "r < nextRef p'" if "keys p' j = Some r" for j r
        using that low by (auto simp: p' less_Suc_eq split: if_splits)
      ultimately show ?thesis
        using ok Some by (simp add: mirrors_def sync_snapshot_def)
    qed
  qed
qed

lemma mirrors_test:
  assumes M: "mirrors (s, p)"
  shows "mirrors (case key_Test secretErr state vf dbErr blockErr i now random s of (Inr (_, Some snap), s') \<Rightarrow> (s', sync_snapshot snap p) | (_, s') \<Rightarrow> (s', p))"
proof -
  have ok: "store_ok s"
    using M by (simp add: mirrors_def)
  have success: "mirrors (case markSuccess dbErr i now s of (Inl err, s') \<Rightarrow> (s', p) | (Inr snap, s') \<Rightarrow> (s', sync_snapshot snap p))"
  proof (cases "dbErr = nil_error \<and> find_row i s \<noteq> None")
    case True
    then show ?thesis
      using markSuccess_found [OF ok, of i _ now] mirrors_upsert [OF M] by fastforce
  next
    case False
    then show ?thesis
      using M mark_missing(1) [OF ok, of i dbErr now] by (cases "dbErr = nil_error") (auto simp: markSuccess_def stateTransaction_def)
  qed
  have failure: "mirrors (case markFailure dbErr blockErr i 0 f now random s of (Inl err, s') \<Rightarrow> (s', p) | (Inr snap, s') \<Rightarrow> (s', sync_snapshot snap p))" for f
  proof (cases "dbErr = nil_error \<and> find_row i s \<noteq> None \<and> (BlockModel f \<longrightarrow> blockErr = nil_error)")
    case True
    then show ?thesis
      using markFailure_found [OF ok, of i _ f blockErr 0 now random] mirrors_upsert [OF M] by fastforce
  next
    case False
    then have "\<exists>err. markFailure dbErr blockErr i 0 f now random s = (Inl err, s)"
      using markFailure_refused [OF ok] by blast
    then show ?thesis
      using M by auto
  qed
  show ?thesis
  proof (cases vf)
    case None
    then show ?thesis
      using M success by (cases state) (auto simp: key_Test_def split: sum.splits prod.splits)
  next
    case (Some f)
    then show ?thesis
      using M success failure [of f] by (cases state) (auto simp: key_Test_def split: sum.splits prod.splits)
  qed
qed

text \<open>C9: the pool mirrors the table. Starting from a pool whose keys carry the scheduling state of their rows,
  any sequence of reports (successes, failures, probes, manual tests, enabling and disabling), with any database
  errors, keeps every key's state in memory equal to its row, as long as no two reports overlap.\<close>

theorem pool_mirrors_store: "mirrors sp \<Longrightarrow> mirrors (fold report reports sp)"
proof (induction reports arbitrary: sp)
  case (Cons a reports)
  have "mirrors (report a sp)"
    using Cons.prems mirrors_success [of "fst sp" "snd sp"] mirrors_failure [of "fst sp" "snd sp"] mirrors_enabled [of "fst sp" "snd sp"] mirrors_test [of "fst sp" "snd sp"]
    by (cases a) (auto simp: probeOne_def)
  then show ?case
    using Cons.IH by simp
qed simp

definition sample_row :: keyRow where
  "sample_row = \<lparr>krID = 1, krFingerprint = ''fp'', krCiphertext = ''ct'', krKeyVersion = 1, krDisplay = (''nv'', []), krEnabled = True, krAuthInvalid = False,
     krCooldownUntil = None, krCooldownReason = None, krCooldownLevel = 0, krConsecutiveFailures = 0, krLastSuccessAt = None, krLastErrorAt = None,
     krLastErrorCode = None, krCreatedAt = 0, krUpdatedAt = 0\<rparr>"

definition sample_store :: keyStore where
  "sample_store = \<lparr>keyRows = [sample_row], keyBlocks = [], lastKeyID = 1\<rparr>"

definition sample_keys :: pool where
  "sample_keys = (New_pool None (\<lambda>_. 0))\<lparr>heap := (\<lambda>_. newKeyState (scanSchedulingSnapshot sample_row)), keys := [1 \<mapsto> 0], nextRef := 1, order := [1]\<rparr>"

definition sample_fault :: "int \<Rightarrow> fault" where
  "sample_fault code = New_fault code ScopeTransientCredential [] [] [] nil_error"

lemma sample_store_ok: "store_ok sample_store" "find_row 1 sample_store = Some sample_row"
  by (simp_all add: store_ok_def sample_store_def sample_row_def find_row_def)

lemma sample_mirrors: "mirrors (sample_store, sample_keys)"
  using sample_store_ok by (simp add: mirrors_def sample_keys_def newKeyState_def cloneSnapshot_def scanSchedulingSnapshot_def)

theorem pool_mirrors_store_witness:
  "mirrors (fold report [ReportFailure nil_error nil_error 1 7 (sample_fault 401) (5 * second) 0, ReportProbe ProbeValid nil_error (9 * second) 1] (sample_store, sample_keys))"
  using pool_mirrors_store [OF sample_mirrors] .

theorem markFailure_effect_witness:
  "\<exists>s' row'. markFailure nil_error nil_error 1 7 (sample_fault 429) (5 * second) 0 sample_store = (Inr (scanSchedulingSnapshot row'), s')
     \<and> krCooldownLevel row' = 1 \<and> krConsecutiveFailures row' = 1 \<and> (\<exists>t. krCooldownUntil row' = Some t \<and> 6 * second < t)"
  using markFailure_effect [OF sample_store_ok, of "sample_fault 429" nil_error 7 "5 * second" 0]
  by (auto simp: sample_fault_def New_fault_def sample_row_def)

text \<open>C10: overlapping reports leave the pool behind the table. A 401 that reached the table before a recovery (a
  success, a manual test, a probe) but reaches the pool after it leaves the key marked invalid in
  memory while its row is valid again and the table offers the key; nothing schedules it any more.\<close>

theorem stale_failure_outlives_recovery:
  assumes "store_ok s" "find_row i s = Some row" "krEnabled row" "keys p i = Some r" "HTTPStatus f = 401" "\<not> BlockModel f"
    and "markFailure nil_error nil_error i m f now random s = (Inr stale, s1)"
    and "markSuccess nil_error i later s1 = (Inr healed, s2)"
  shows "i \<in> set (AvailableIDs later s2)
    \<and> AuthInvalid (snapshot (heap (applyFailureLocked i m f stale (applySuccessLocked i p)) r))"
proof
  have s1: "stale = scanSchedulingSnapshot (failed_row f now random row)" "store_ok s1" "find_row i s1 = Some (failed_row f now random row)"
    using markFailure_found [OF assms(1,2), of f nil_error m now random] assms(6,7) by auto
  have "find_row i s2 = Some (healed_row later (failed_row f now random row))" "store_ok s2"
    using markSuccess_found [OF s1(2,3), of later] assms(8) by auto
  moreover have "krEnabled (failed_row f now random row)"
    using assms(3) by (simp add: failed_row_def Let_def)
  ultimately have "healed_row later (failed_row f now random row) \<in> set (keyRows s2)" "krID (healed_row later (failed_row f now random row)) = i"
      "usable_at later (healed_row later (failed_row f now random row))"
    using find_row_in [of i s2] by (simp_all add: usable_at_def healed_row_def)
  then show "i \<in> set (AvailableIDs later s2)"
    by (auto simp: AvailableIDs_def)
  have "AuthInvalid stale"
    using assms(5) by (simp add: s1(1) scanSchedulingSnapshot_def failed_row_def Let_def)
  then show "AuthInvalid (snapshot (heap (applyFailureLocked i m f stale (applySuccessLocked i p)) r))"
    using assms(4) by (simp add: applyFailureLocked_def applySuccessLocked_def with_key_def set_state_def Let_def)
qed

theorem stale_failure_outlives_recovery_witness:
  "\<exists>stale s1 healed s2. markFailure nil_error nil_error 1 7 (sample_fault 401) second 0 sample_store = (Inr stale, s1)
     \<and> markSuccess nil_error 1 (2 * second) s1 = (Inr healed, s2) \<and> 1 \<in> set (AvailableIDs (2 * second) s2)
     \<and> AuthInvalid (snapshot (heap (applyFailureLocked 1 7 (sample_fault 401) stale (applySuccessLocked 1 sample_keys)) 0))"
proof -
  have block: "\<not> BlockModel (sample_fault 401)" "HTTPStatus (sample_fault 401) = 401"
    by (simp_all add: sample_fault_def New_fault_def)
  obtain stale s1 where s1: "markFailure nil_error nil_error 1 7 (sample_fault 401) second 0 sample_store = (Inr stale, s1)"
      "store_ok s1" "find_row 1 s1 = Some (failed_row (sample_fault 401) second 0 sample_row)"
    using markFailure_found [OF sample_store_ok, of "sample_fault 401" nil_error 7 second 0] by auto
  obtain healed s2 where s2: "markSuccess nil_error 1 (2 * second) s1 = (Inr healed, s2)"
    using markSuccess_found [OF s1(2,3), of "2 * second"] by auto
  have "krEnabled sample_row" "keys sample_keys 1 = Some 0"
    by (simp_all add: sample_row_def sample_keys_def)
  then show ?thesis
    using stale_failure_outlives_recovery [OF sample_store_ok _ _ block(2,1) s1(1) s2] s1(1) s2 by blast
qed

subsection \<open>Availability and the health checker\<close>

text \<open>the two answers to which keys may serve agree. The table's query at second granularity names exactly the
  keys the pool would not skip for being disabled, invalid or cooling down.\<close>

theorem available_agrees_with_pool:
  assumes "mirrors (s, p)" "keys p i = Some r"
  shows "i \<in> set (AvailableIDs now s) \<longleftrightarrow>
     Enabled (snapshot (heap p r)) \<and> \<not> AuthInvalid (snapshot (heap p r)) \<and> \<not> isCoolingDown (CooldownUntil (snapshot (heap p r))) now"
proof -
  have ok: "store_ok s"
    using assms(1) by (simp add: mirrors_def)
  obtain row where row: "find_row i s = Some row" "snapshot (heap p r) = scanSchedulingSnapshot row"
    using mirrors_row [OF assms] by auto
  have in_row: "row \<in> set (keyRows s)" "krID row = i"
    using find_row_in [OF row(1)] by simp_all
  have "i \<in> set (AvailableIDs now s) \<longleftrightarrow> (\<exists>row' \<in> set (keyRows s). krID row' = i \<and> usable_at now row')"
    by (auto simp: AvailableIDs_def)
  also have "\<dots> \<longleftrightarrow> usable_at now row"
    using find_row_iff [OF ok, of i] row(1) in_row by (metis option.inject)
  also have "\<dots> \<longleftrightarrow> krEnabled row \<and> \<not> krAuthInvalid row \<and> \<not> isCoolingDown (krCooldownUntil row) now"
    using ok in_row whole_second_le [of _ now] by (auto simp: usable_at_def isCoolingDown_def store_ok_def not_less split: option.splits)
  finally show ?thesis
    by (simp add: row(2) scanSchedulingSnapshot_def)
qed

theorem available_agrees_with_pool_witness:
  "1 \<in> set (AvailableIDs second sample_store) \<longleftrightarrow> Enabled (snapshot (heap sample_keys 0)) \<and> \<not> AuthInvalid (snapshot (heap sample_keys 0))
     \<and> \<not> isCoolingDown (CooldownUntil (snapshot (heap sample_keys 0))) second"
  using available_agrees_with_pool [OF sample_mirrors, of 1 0 second] by (simp add: sample_keys_def)

lemma earliest_expiry:
  assumes "store_ok s" "EarliestCooldownExpiry now s = Some e"
  shows "now < e"
proof -
  define expiries where "expiries = List.map_filter (\<lambda>row. if krEnabled row \<and> \<not> krAuthInvalid row then
             (case krCooldownUntil row of Some t \<Rightarrow> if t > formatTimestamp now then Some t else None | None \<Rightarrow> None) else None) (keyRows s)"
  have "expiries \<noteq> []" "e = Min (set expiries)"
    using assms(2) by (auto simp: EarliestCooldownExpiry_def expiries_def Let_def split: if_splits)
  then have "e \<in> set expiries"
    by simp
  then obtain row where "row \<in> set (keyRows s)" "krCooldownUntil row = Some e" "formatTimestamp now < e"
    by (auto simp: expiries_def List.map_filter_def split: if_splits option.splits)
  then show ?thesis
    using assms(1) whole_second_le [of e now] by (auto simp: store_ok_def)
qed

text \<open>the health checker never spins and never sleeps through a recovery. With the table's query the wait before
  the next sweep is positive and at most half a second longer than the interval, and when a cooldown
  ends within the interval the sweep comes half a second after its end.\<close>

theorem health_check_delay:
  assumes "store_ok s" "0 < interval"
  shows "case nextDelay interval (Some (\<lambda>now. Inr (EarliestCooldownExpiry now s))) now of d \<Rightarrow>
     0 < d \<and> (d < interval + 500 * millisecond \<or> d = interval)
     \<and> (\<forall>e. EarliestCooldownExpiry now s = Some e \<longrightarrow> e < now + interval \<longrightarrow> now + d = e + 500 * millisecond)"
proof (cases "EarliestCooldownExpiry now s")
  case None
  then show ?thesis
    using assms(2) by (simp add: nextDelay_def)
next
  case (Some x)
  then show ?thesis
    using assms(2) earliest_expiry [OF assms(1) Some] by (simp add: nextDelay_def Let_def)
qed

theorem health_check_delay_witness:
  "0 < nextDelay DefaultHealthCheckInterval (Some (\<lambda>now. Inr (EarliestCooldownExpiry now sample_store))) second"
  using health_check_delay [OF sample_store_ok(1), of DefaultHealthCheckInterval second] by (simp add: DefaultHealthCheckInterval_def)

text \<open>A key marked invalid after it was listed for a sweep is made valid again by its probe.\<close>

lemma health_check_revives_invalid:
  assumes "store_ok s" "find_row i s = Some row" "HTTPStatus f = 401" "\<not> BlockModel f"
    and "markFailure nil_error nil_error i m f now random s = (Inr snap, s1)"
  shows "\<exists>bad good. find_row i s1 = Some bad \<and> krAuthInvalid bad \<and> find_row i (fst (probeOne ProbeValid nil_error later i (s1, p))) = Some good \<and> \<not> krAuthInvalid good"
proof -
  let ?bad = "failed_row f now random row"
  have s1: "find_row i s1 = Some ?bad" "store_ok s1"
    using markFailure_found [OF assms(1,2), of f nil_error m now random] assms(4,5) by auto
  moreover obtain s2 where "markSuccess nil_error i later s1 = (Inr (scanSchedulingSnapshot (healed_row later ?bad)), s2)"
      "find_row i s2 = Some (healed_row later ?bad)"
    using markSuccess_found [OF s1(2,1), of later] by auto
  moreover have "krAuthInvalid ?bad" "\<not> krAuthInvalid (healed_row later ?bad)"
    using assms(3) by (simp_all add: failed_row_def healed_row_def Let_def)
  ultimately show ?thesis
    by (simp add: probeOne_def probe_recovered_def)
qed

end
