(* ===== verification/Password_Hash.thy ===== *)
theory Password_Hash
  imports Go_Base64 Json Fault "HOL-Library.Multiset"
begin

text \<open>
  \<open>internal/adminauth/password.go\<close> and the password policy of \<open>repository.go\<close>: Argon2id hashes in PHC
  format. The key derivation of \<open>golang.org/x/crypto/argon2\<close> is the parameter \<open>idKey\<close> (password, salt,
  iterations, memory, parallelism, length); the salt is what the system's generator delivers. Passwords
  are byte strings.
\<close>

type_synonym keyDerivation = "string \<Rightarrow> string \<Rightarrow> nat \<Rightarrow> nat \<Rightarrow> nat \<Rightarrow> nat \<Rightarrow> string"

definition argon2Memory :: nat where "argon2Memory = 65536"
definition argon2Iterations :: nat where "argon2Iterations = 3"
definition argon2Parallelism :: nat where "argon2Parallelism = 2"
definition argon2SaltLength :: nat where "argon2SaltLength = 16"
definition argon2KeyLength :: nat where "argon2KeyLength = 32"

record phcParams =
  phcMemory :: nat
  phcIterations :: nat
  phcParallelism :: nat

definition currentArgon2Params :: phcParams where
  "currentArgon2Params = \<lparr>phcMemory = argon2Memory, phcIterations = argon2Iterations, phcParallelism = argon2Parallelism\<rparr>"

definition errInvalidPasswordHash :: goError where
  "errInvalidPasswordHash = [OtherError ''invalid password hash'']"

subsection \<open>The standard alphabet\<close>

text \<open>\<open>RawStdEncoding\<close> differs from \<open>RawURLEncoding\<close> in the symbols of 62 and 63.\<close>

definition to_std :: "char \<Rightarrow> char" where
  "to_std c = (if c = CHR ''-'' then CHR ''+'' else if c = CHR ''_'' then CHR ''/'' else c)"

definition of_std :: "char \<Rightarrow> char" where
  "of_std c = (if c = CHR ''+'' then CHR ''-'' else if c = CHR ''/'' then CHR ''_'' else c)"

definition std_encode :: "string \<Rightarrow> string" where
  "std_encode s = map to_std (raw_encode s)"

definition std_decode_strict :: "string \<Rightarrow> string option" where
  "std_decode_strict s =
     (if CHR ''-'' \<in> set s \<or> CHR ''_'' \<in> set s then None else raw_decode_strict (map of_std s))"

subsection \<open>Hashes\<close>

definition hashWithParams :: "keyDerivation \<Rightarrow> string \<Rightarrow> goError + string \<Rightarrow> nat \<Rightarrow> nat \<Rightarrow> nat \<Rightarrow> goError + string" where
  "hashWithParams idKey password salt iterations memory parallelism =
     (case salt of
        Inl err \<Rightarrow> Inl (Wrapped ''generate password salt'' # err)
      | Inr bytes \<Rightarrow>
          Inr (''$argon2id$v=19$m='' @ nat_digits memory @ '',t='' @ nat_digits iterations @ '',p='' @ nat_digits parallelism
            @ ''$'' @ std_encode bytes @ ''$'' @ std_encode (idKey password bytes iterations memory parallelism argon2KeyLength)))"

definition HashPassword :: "keyDerivation \<Rightarrow> string \<Rightarrow> goError + string \<Rightarrow> goError + string" where
  "HashPassword idKey password salt = hashWithParams idKey password salt argon2Iterations argon2Memory argon2Parallelism"

text \<open>The parameter segment. \<open>seen\<close> has one bit per key (memory, iterations, parallelism).\<close>

definition has_line_break :: "string \<Rightarrow> bool" where
  "has_line_break s \<longleftrightarrow> list_ex (\<lambda>c. c = CHR 0x0A \<or> c = CHR 0x0D) s"

fun phc_fields :: "string list \<Rightarrow> phcParams \<times> bool \<times> bool \<times> bool \<Rightarrow> (phcParams \<times> bool \<times> bool \<times> bool) option" where
  "phc_fields [] acc = Some acc"
| "phc_fields (field # rest) (params, m, t, p) =
     (case cut_at (CHR ''='') field of
        (_, None) \<Rightarrow> None
      | (key, Some value) \<Rightarrow>
          if value = [] then None
          else if key = ''m'' then
            (case parse_uint 32 value of None \<Rightarrow> None | Some v \<Rightarrow> phc_fields rest (params\<lparr>phcMemory := v\<rparr>, True, t, p))
          else if key = ''t'' then
            (case parse_uint 32 value of None \<Rightarrow> None | Some v \<Rightarrow> phc_fields rest (params\<lparr>phcIterations := v\<rparr>, m, True, p))
          else if key = ''p'' then
            (case parse_uint 8 value of None \<Rightarrow> None | Some v \<Rightarrow> phc_fields rest (params\<lparr>phcParallelism := v\<rparr>, m, t, True))
          else None)"

definition parsePHCParams :: "string \<Rightarrow> phcParams option" where
  "parsePHCParams segment =
     (let segments = split_at (\<lambda>c. c = CHR '','') segment
      in if segment = [] \<or> has_line_break segment \<or> length segments \<noteq> 3 then None
         else case phc_fields segments (\<lparr>phcMemory = 0, phcIterations = 0, phcParallelism = 0\<rparr>, False, False, False) of
           None \<Rightarrow> None
         | Some (params, m, t, p) \<Rightarrow>
             if \<not> (m \<and> t \<and> p) \<or> phcMemory params = 0 \<or> phcIterations params = 0 \<or> phcParallelism params = 0 then None
             else Some params)"

definition decodePHCValue :: "string \<Rightarrow> nat \<Rightarrow> string option" where
  "decodePHCValue value expectedLength =
     (if value = [] \<or> has_line_break value then None
      else case std_decode_strict value of
        None \<Rightarrow> None
      | Some decoded \<Rightarrow> if length decoded = expectedLength then Some decoded else None)"

definition parsePasswordHash :: "string \<Rightarrow> goError + phcParams \<times> string \<times> string" where
  "parsePasswordHash encodedHash =
     (case split_at (\<lambda>c. c = CHR ''$'') encodedHash of
        [lead, algorithm, version, segment, salt64, hash64] \<Rightarrow>
          if lead \<noteq> [] \<or> algorithm \<noteq> ''argon2id'' \<or> version \<noteq> ''v=19'' then Inl errInvalidPasswordHash
          else (case parsePHCParams segment of
              None \<Rightarrow> Inl errInvalidPasswordHash
            | Some params \<Rightarrow>
                (case decodePHCValue salt64 argon2SaltLength of
                   None \<Rightarrow> Inl (Wrapped ''decode password salt'' # errInvalidPasswordHash)
                 | Some salt \<Rightarrow>
                     (case decodePHCValue hash64 argon2KeyLength of
                        None \<Rightarrow> Inl (Wrapped ''decode password digest'' # errInvalidPasswordHash)
                      | Some hash \<Rightarrow> Inr (params, salt, hash))))
      | _ \<Rightarrow> Inl errInvalidPasswordHash)"

text \<open>Whether the password matches, and whether the stored hash has other cost parameters than the current ones.\<close>

definition VerifyPasswordWithRehash :: "keyDerivation \<Rightarrow> string \<Rightarrow> string \<Rightarrow> goError + bool \<times> bool" where
  "VerifyPasswordWithRehash idKey password encodedHash =
     (case parsePasswordHash encodedHash of
        Inl err \<Rightarrow> Inl (Wrapped ''parse password hash'' # err)
      | Inr (params, salt, expected) \<Rightarrow>
          if idKey password salt (phcIterations params) (phcMemory params) (phcParallelism params) argon2KeyLength \<noteq> expected
          then Inr (False, False) else Inr (True, params \<noteq> currentArgon2Params))"

definition VerifyPassword :: "keyDerivation \<Rightarrow> string \<Rightarrow> string \<Rightarrow> goError + bool" where
  "VerifyPassword idKey password encodedHash =
     (case VerifyPasswordWithRehash idKey password encodedHash of Inl err \<Rightarrow> Inl err | Inr (matched, _) \<Rightarrow> Inr matched)"

subsection \<open>The policy\<close>

text \<open>\<open>utf8.RuneCountInString\<close>: every byte outside a well-formed sequence counts as one rune.\<close>

fun rune_count_from :: "nat \<Rightarrow> string \<Rightarrow> nat" where
  "rune_count_from 0 s = 0"
| "rune_count_from (Suc n) s =
     (case s of
        [] \<Rightarrow> 0
      | c # cs \<Rightarrow> Suc (rune_count_from n (case utf8_len s of Some k \<Rightarrow> drop k s | None \<Rightarrow> cs)))"

definition rune_count :: "string \<Rightarrow> nat" where
  "rune_count s = rune_count_from (length s) s"

datatype passwordPolicyError = ErrPasswordMissing | ErrPasswordIsDefault | ErrPasswordTooShort

definition defaultAdminUsername :: string where "defaultAdminUsername = ''admin''"

definition validateNewPassword :: "string \<Rightarrow> passwordPolicyError option" where
  "validateNewPassword password =
     (if password = defaultAdminUsername then Some ErrPasswordIsDefault
      else if rune_count password < 12 then Some ErrPasswordTooShort else None)"

definition validateInitialPassword :: "string \<Rightarrow> passwordPolicyError option" where
  "validateInitialPassword password =
     (if password = [] then Some ErrPasswordMissing
      else if password = defaultAdminUsername then Some ErrPasswordIsDefault
      else if rune_count password < 12 then Some ErrPasswordTooShort else None)"

subsection \<open>Facts\<close>

lemma std_alphabet:
  "\<forall>n \<in> set [0..<64]. of_std (to_std (b64_char n)) = b64_char n \<and> to_std (b64_char n) \<notin> set [CHR ''-'', CHR ''_'', CHR ''$'', CHR 0x0A, CHR 0x0D]"
  by code_simp

lemma raw_encode_symbols: "c \<in> set (raw_encode s) \<Longrightarrow> \<exists>n < 64. c = b64_char n"
proof -
  have "\<forall>n \<in> set (b64_symbols (map of_char s)). n < 64"
    by (rule b64_symbols_small) simp
  then show "c \<in> set (raw_encode s) \<Longrightarrow> \<exists>n < 64. c = b64_char n"
    by (auto simp: raw_encode_def)
qed

lemma std_encode_chars:
  assumes "c \<in> set (std_encode s)"
  shows "c \<noteq> CHR ''-'' \<and> c \<noteq> CHR ''_'' \<and> c \<noteq> CHR ''$'' \<and> c \<noteq> CHR 0x0A \<and> c \<noteq> CHR 0x0D"
proof -
  obtain n where "n < 64" "c = to_std (b64_char n)"
    using assms raw_encode_symbols by (auto simp: std_encode_def)
  then show ?thesis
    using std_alphabet by auto
qed

lemma std_decode_encode: "std_decode_strict (std_encode s) = Some s"
proof -
  have "map of_std (std_encode s) = raw_encode s"
    using raw_encode_symbols std_alphabet by (force simp: std_encode_def intro: map_idI)
  then show ?thesis
    using std_encode_chars [of _ s] by (auto simp: std_decode_strict_def raw_decode_encode)
qed

lemma decodePHC_encode:
  assumes "s \<noteq> []"
  shows "decodePHCValue (std_encode s) (length s) = Some s"
proof -
  have "std_encode s \<noteq> []"
    using assms by (cases s rule: list.exhaust) (auto simp: std_encode_def raw_encode_def elim: b64_symbols.elims)
  then show ?thesis
    using std_encode_chars [of _ s] by (auto simp: decodePHCValue_def has_line_break_def list_ex_iff std_decode_encode)
qed

lemma set_join_with: "c \<in> set (join_with sep ws) \<Longrightarrow> c \<in> set sep \<or> (\<exists>w \<in> set ws. c \<in> set w)"
  by (induction ws rule: induct_list012) auto

lemma nat_digits_chars: "c \<in> set (nat_digits n) \<Longrightarrow> is_digit c"
  using nat_digits_value [of n] by (simp add: list_all_iff)

lemma phc_field_value:
  "length k = 1 \<Longrightarrow> k \<noteq> ''='' \<Longrightarrow> cut_at (CHR ''='') (k @ CHR ''='' # nat_digits n) = (k, Some (nat_digits n))"
  by (rule cut_at_sep) (cases k; auto simp: length_Suc_conv)

text \<open>The three canonical fields are accepted in every order.\<close>

definition phc_canonical :: "nat \<Rightarrow> nat \<Rightarrow> nat \<Rightarrow> string list" where
  "phc_canonical m t p = [''m='' @ nat_digits m, ''t='' @ nat_digits t, ''p='' @ nat_digits p]"

lemma phc_field_chars:
  assumes "mset segments = mset (phc_canonical m t p)" "w \<in> set segments" "c \<in> set w"
  shows "is_digit c \<or> c \<in> {CHR ''m'', CHR ''t'', CHR ''p'', CHR ''=''}"
proof -
  have "w \<in> set (phc_canonical m t p)"
    using assms(1,2) mset_eq_setD by blast
  then show ?thesis
    using assms(3) nat_digits_chars by (auto simp: phc_canonical_def)
qed

lemma three_orders:
  assumes "mset xs = {#a, b, c#}"
  shows "xs = [a, b, c] \<or> xs = [a, c, b] \<or> xs = [b, a, c] \<or> xs = [b, c, a] \<or> xs = [c, a, b] \<or> xs = [c, b, a]"
proof -
  have "length xs = 3"
    using assms by (metis size_mset size_add_mset size_empty numeral_3_eq_3)
  then obtain x y z where "xs = [x, y, z]"
    by (auto simp: numeral_3_eq_3 length_Suc_conv)
  then show ?thesis
    using assms by (auto simp: add_eq_conv_ex add_mset_eq_single dest!: multi_member_split)
qed

lemma phc_fields_value:
  assumes "m < 2 ^ 32" "t < 2 ^ 32" "p < 2 ^ 8"
  shows "phc_fields ((''m='' @ nat_digits m) # rest) (params, a, b, c) = phc_fields rest (params\<lparr>phcMemory := m\<rparr>, True, b, c)"
    "phc_fields ((''t='' @ nat_digits t) # rest) (params, a, b, c) = phc_fields rest (params\<lparr>phcIterations := t\<rparr>, a, True, c)"
    "phc_fields ((''p='' @ nat_digits p) # rest) (params, a, b, c) = phc_fields rest (params\<lparr>phcParallelism := p\<rparr>, a, b, True)"
  using phc_field_value [of "''m''" m] phc_field_value [of "''t''" t] phc_field_value [of "''p''" p] nat_digits_value assms
  by (simp_all add: parse_uint_digits)

lemma phc_segment_text:
  assumes "mset segments = mset (phc_canonical m t p)"
  shows "split_at (\<lambda>c. c = CHR '','') (join_with '','' segments) = segments" "\<not> has_line_break (join_with '','' segments)" "join_with '','' segments \<noteq> []"
proof -
  have same: "set segments = set (phc_canonical m t p)"
    using assms by (rule mset_eq_setD)
  have chars: "\<forall>w \<in> set segments. \<forall>c \<in> set w. c \<noteq> CHR '','' \<and> c \<noteq> CHR 0x0A \<and> c \<noteq> CHR 0x0D"
    using phc_field_chars [OF assms] by (force simp: is_digit_def)
  have segments: "segments \<noteq> []"
    using mset_eq_length [OF assms] by (auto simp: phc_canonical_def)
  have filled: "[] \<notin> set segments"
    unfolding same by (simp add: phc_canonical_def)
  show "split_at (\<lambda>c. c = CHR '','') (join_with '','' segments) = segments"
    using segments by (rule split_at_join) (use chars in simp_all)
  show "\<not> has_line_break (join_with '','' segments)"
  proof
    assume "has_line_break (join_with '','' segments)"
    then obtain c where c: "c \<in> set (join_with '','' segments)" "c = CHR 0x0A \<or> c = CHR 0x0D"
      unfolding has_line_break_def list_ex_iff by blast
    from set_join_with [OF c(1)] show False
    proof
      assume "c \<in> set '',''"
      with c(2) show False by auto
    next
      assume "\<exists>w \<in> set segments. c \<in> set w"
      with c(2) chars show False by blast
    qed
  qed
  show "join_with '','' segments \<noteq> []"
    using segments filled by (cases segments; cases "tl segments") auto
qed

text \<open>The cost parameters are read in whatever order the three fields are written.\<close>

lemma phc_any_order:
  assumes "mset segments = mset (phc_canonical m t p)" "0 < m" "m < 2 ^ 32" "0 < t" "t < 2 ^ 32" "0 < p" "p < 2 ^ 8"
  shows "parsePHCParams (join_with '','' segments) = Some \<lparr>phcMemory = m, phcIterations = t, phcParallelism = p\<rparr>"
proof -
  have "phc_fields segments (\<lparr>phcMemory = 0, phcIterations = 0, phcParallelism = 0\<rparr>, False, False, False)
      = Some (\<lparr>phcMemory = m, phcIterations = t, phcParallelism = p\<rparr>, True, True, True)"
    using three_orders [OF assms(1) [unfolded phc_canonical_def mset.simps]] assms(3,5,7)
    by (elim disjE) (simp_all only: phc_fields_value phc_fields.simps(1) phcParams.simps)
  moreover have "length segments = 3"
    using mset_eq_length [OF assms(1)] by (simp add: phc_canonical_def)
  ultimately show ?thesis
    using phc_segment_text [OF assms(1)] assms(2,4,6) by (simp add: parsePHCParams_def)
qed

text \<open>The PHC text around a parameter segment.\<close>

definition phc_text :: "string list \<Rightarrow> string \<Rightarrow> string \<Rightarrow> string" where
  "phc_text segments salt hash = join_with ''$'' [[], ''argon2id'', ''v=19'', join_with '','' segments, std_encode salt, std_encode hash]"

lemma parse_phc_text:
  assumes "mset segments = mset (phc_canonical m t p)" "0 < m" "m < 2 ^ 32" "0 < t" "t < 2 ^ 32" "0 < p" "p < 2 ^ 8"
    and "length salt = argon2SaltLength" "length hash = argon2KeyLength"
  shows "parsePasswordHash (phc_text segments salt hash) = Inr (\<lparr>phcMemory = m, phcIterations = t, phcParallelism = p\<rparr>, salt, hash)"
proof -
  have "c \<noteq> CHR ''$''" if "c \<in> set (join_with '','' segments)" for c
    using set_join_with [OF that] phc_field_chars [OF assms(1)] by (force simp: is_digit_def)
  then have "\<forall>w \<in> set [[], ''argon2id'', ''v=19'', join_with '','' segments, std_encode salt, std_encode hash]. \<forall>c \<in> set w. c \<noteq> CHR ''$''"
    using std_encode_chars by auto
  then have "split_at (\<lambda>c. c = CHR ''$'') (phc_text segments salt hash)
      = [[], ''argon2id'', ''v=19'', join_with '','' segments, std_encode salt, std_encode hash]"
    unfolding phc_text_def by (intro split_at_join) auto
  moreover have "salt \<noteq> []" "hash \<noteq> []"
    using assms(8,9) by (auto simp: argon2SaltLength_def argon2KeyLength_def)
  then have "decodePHCValue (std_encode salt) argon2SaltLength = Some salt" "decodePHCValue (std_encode hash) argon2KeyLength = Some hash"
    using decodePHC_encode [of salt] decodePHC_encode [of hash] assms(8,9) by simp_all
  ultimately show ?thesis
    unfolding parsePasswordHash_def using phc_any_order [OF assms(1-7)] by simp
qed

lemma hash_text: "hashWithParams idKey password (Inr salt) t m p = Inr (phc_text (phc_canonical m t p) salt (idKey password salt t m p argon2KeyLength))"
  by (simp add: hashWithParams_def phc_text_def phc_canonical_def)

text \<open>C37: A password verifies against its own hash under any cost parameters that fit their fields, and a rehash is asked
  for exactly when they are not the current ones; another password verifies only if the derivation gives the same key.\<close>

theorem password_roundtrip:
  assumes "length salt = argon2SaltLength" "length (idKey password salt iterations memory parallelism argon2KeyLength) = argon2KeyLength"
    and "0 < memory" "memory < 2 ^ 32" "0 < iterations" "iterations < 2 ^ 32" "0 < parallelism" "parallelism < 2 ^ 8"
  shows "\<exists>encoded. hashWithParams idKey password (Inr salt) iterations memory parallelism = Inr encoded
    \<and> (\<forall>other. VerifyPasswordWithRehash idKey other encoded =
         Inr (if idKey other salt iterations memory parallelism argon2KeyLength = idKey password salt iterations memory parallelism argon2KeyLength
              then (True, (memory, iterations, parallelism) \<noteq> (argon2Memory, argon2Iterations, argon2Parallelism))
              else (False, False)))"
  using parse_phc_text [OF refl assms(3-6) assms(7,8) assms(1,2)]
  by (auto simp: hash_text VerifyPasswordWithRehash_def currentArgon2Params_def)

text \<open>A derivation for concrete evaluation.\<close>

definition toy_derivation :: keyDerivation where
  "toy_derivation password salt t m p n = replicate n (if password = ''correct horse'' then CHR ''a'' else CHR ''b'')"

theorem password_roundtrip_witness:
  "\<exists>encoded. hashWithParams toy_derivation ''correct horse'' (Inr ''0123456789abcdef'') 3 4096 1 = Inr encoded
    \<and> VerifyPasswordWithRehash toy_derivation ''correct horse'' encoded = Inr (True, True)
    \<and> VerifyPasswordWithRehash toy_derivation ''wrong'' encoded = Inr (False, False)"
  using password_roundtrip [of "''0123456789abcdef''" toy_derivation "''correct horse''" 3 4096 1]
  by (auto simp: toy_derivation_def argon2SaltLength_def argon2KeyLength_def argon2Memory_def replicate_eq_replicate)

text \<open>The three cost fields of a stored hash may stand in any order: verification gives the same answer. The comment of
  \<open>parsePasswordHash\<close> says that a non-canonical order is rejected.\<close>

theorem hash_field_order:
  assumes "mset segments = mset (phc_canonical m t p)" "0 < m" "m < 2 ^ 32" "0 < t" "t < 2 ^ 32" "0 < p" "p < 2 ^ 8"
    and "length salt = argon2SaltLength" "length hash = argon2KeyLength"
  shows "VerifyPassword idKey password (phc_text segments salt hash) = Inr (idKey password salt t m p argon2KeyLength = hash)"
  using parse_phc_text [OF assms] by (auto simp: VerifyPassword_def VerifyPasswordWithRehash_def)

theorem hash_field_order_witness:
  "VerifyPassword toy_derivation ''correct horse''
     (phc_text (rev (phc_canonical 65536 3 2)) ''0123456789abcdef'' (replicate 32 (CHR ''a''))) = Inr True"
  using hash_field_order [of "rev (phc_canonical 65536 3 2)" 65536 3 2 "''0123456789abcdef''" "replicate 32 (CHR ''a'')" toy_derivation "''correct horse''"]
  by (simp add: toy_derivation_def argon2SaltLength_def argon2KeyLength_def)

end
