(* ===== verification/Admin_Sessions.thy ===== *)
theory Admin_Sessions
  imports Access_Service
begin

text \<open>
  \<open>internal/adminauth/session.go\<close>, the session statements of \<open>repository.go\<close> and the schedule of \<open>cleanup.go\<close>:
  the table of administrator sessions. The error a statement answers with is an argument, empty when it
  succeeds. Tokens are stored as their keyed digest under the version active when they were written; the
  digest (HMAC-SHA-256 of \<open>internal/crypto\<close>) is the field \<open>sessionDigest\<close>, and the order in which Go visits
  the map of digests is an argument.
\<close>

record sessionKeySet = keySet +
  sessionDigest :: "int \<Rightarrow> string \<Rightarrow> string"

record sessionRow =
  srID :: string
  srDigest :: string
  srKeyVersion :: int
  srExpires :: time
  srCreated :: time
  srLastSeen :: time
  srRevoked :: "time option"

type_synonym sessionTable = "sessionRow list"

datatype sessionError = ErrInvalidSession | SessionFailure goError

record adminSession =
  asID :: string
  asExpiresAt :: time

definition sessionTokenBytes :: nat where "sessionTokenBytes = 32"
definition sessionIDBytes :: nat where "sessionIDBytes = 16"
definition sessionLifetime :: duration where "sessionLifetime = 24 * 60 * minute"
definition sessionTouchInterval :: duration where "sessionTouchInterval = minute"

subsection \<open>The service\<close>

text \<open>\<open>tokenBytes\<close> and \<open>idBytes\<close> are what the system's generator delivers.\<close>

definition randomRawURL :: "goError + string \<Rightarrow> goError + string" where
  "randomRawURL random = (case random of Inl err \<Rightarrow> Inl err | Inr bytes \<Rightarrow> Inr (raw_encode bytes))"

definition sess_Create ::
  "'a sessionKeySet_scheme \<Rightarrow> goError + string \<Rightarrow> goError + string \<Rightarrow> time \<Rightarrow> goError \<Rightarrow> sessionTable
    \<Rightarrow> (sessionError + adminSession \<times> string) \<times> sessionTable" where
  "sess_Create ks tokenBytes idBytes clock dbErr db =
     (case randomRawURL tokenBytes of
        Inl err \<Rightarrow> (Inl (SessionFailure (Wrapped ''generate admin session token'' # err)), db)
      | Inr token \<Rightarrow>
          (case randomRawURL idBytes of
             Inl err \<Rightarrow> (Inl (SessionFailure (Wrapped ''generate admin session ID'' # err)), db)
           | Inr i \<Rightarrow>
               let now = formatTime clock;
                   expiresAt = now + sessionLifetime;
                   dig = sessionDigest ks (activeVersion ks) token
               in if dbErr \<noteq> nil_error then (Inl (SessionFailure (Wrapped ''insert admin session'' # dbErr)), db)
                  else if list_ex (\<lambda>row. srID row = i \<or> srDigest row = dig) db
                  then (Inl (SessionFailure [Wrapped ''insert admin session'', OtherError ''UNIQUE constraint failed'']), db)
                  else (Inr (\<lparr>asID = i, asExpiresAt = expiresAt\<rparr>, token),
                        db @ [\<lparr>srID = i, srDigest = dig, srKeyVersion = activeVersion ks, srExpires = expiresAt, srCreated = now,
                               srLastSeen = now, srRevoked = None\<rparr>])))"

definition validSessionToken :: "string \<Rightarrow> bool" where
  "validSessionToken token \<longleftrightarrow>
     length token = (sessionTokenBytes * 8 + 5) div 6
     \<and> (case raw_decode_strict token of None \<Rightarrow> False | Some decoded \<Rightarrow> length decoded = sessionTokenBytes)"

definition row_live :: "time \<Rightarrow> sessionRow \<Rightarrow> bool" where
  "row_live now row \<longleftrightarrow> srRevoked row = None \<and> srExpires row > formatTime now"

definition touchable :: "time \<Rightarrow> string \<Rightarrow> sessionRow \<Rightarrow> bool" where
  "touchable now dig row \<longleftrightarrow> srDigest row = dig \<and> row_live now row \<and> srLastSeen row \<le> formatTime (now - sessionTouchInterval)"

text \<open>The two queries of each digest: the throttled write of \<open>last_seen_at\<close>, then the read.\<close>

fun query_digests ::
  "(int \<times> string) list \<Rightarrow> time \<Rightarrow> (int \<Rightarrow> goError) \<Rightarrow> (int \<Rightarrow> goError) \<Rightarrow> sessionTable \<Rightarrow> (goError + (string \<times> sessionRow) option) \<times> sessionTable" where
  "query_digests [] now writeErr readErr db = (Inr None, db)"
| "query_digests ((version, dig) # rest) now writeErr readErr db =
     (if writeErr version \<noteq> nil_error then (Inl (Wrapped ''load admin session'' # writeErr version), db)
      else case find (touchable now dig) db of
        Some row \<Rightarrow> (Inr (Some (dig, row)), map (\<lambda>r. if touchable now dig r then r\<lparr>srLastSeen := formatTime now\<rparr> else r) db)
      | None \<Rightarrow>
          if readErr version \<noteq> nil_error then (Inl (Wrapped ''load admin session'' # readErr version), db)
          else (case find (\<lambda>row. srDigest row = dig \<and> row_live now row) db of
              Some row \<Rightarrow> (Inr (Some (dig, row)), db)
            | None \<Rightarrow> query_digests rest now writeErr readErr db))"

text \<open>The move of a row to the digest of the active version; its error is dropped.\<close>

definition migrate_digest :: "string \<Rightarrow> string \<Rightarrow> int \<Rightarrow> goError \<Rightarrow> sessionTable \<Rightarrow> sessionTable" where
  "migrate_digest old new version dbErr db =
     (if dbErr \<noteq> nil_error
         \<or> list_ex (\<lambda>row. srDigest row = old \<and> srRevoked row = None) db \<and> list_ex (\<lambda>row. srDigest row = new) db then db
      else map (\<lambda>row. if srDigest row = old \<and> srRevoked row = None then row\<lparr>srDigest := new, srKeyVersion := version\<rparr> else row) db)"

definition sess_Authenticate ::
  "'a sessionKeySet_scheme \<Rightarrow> int list \<Rightarrow> string \<Rightarrow> time \<Rightarrow> (int \<Rightarrow> goError) \<Rightarrow> (int \<Rightarrow> goError) \<Rightarrow> goError \<Rightarrow> sessionTable
    \<Rightarrow> (sessionError + adminSession) \<times> sessionTable" where
  "sess_Authenticate ks order token now writeErr readErr migrateErr db =
     (if \<not> validSessionToken token then (Inl ErrInvalidSession, db)
      else case query_digests (map (\<lambda>v. (v, sessionDigest ks v token)) order) now writeErr readErr db of
        (Inl err, db1) \<Rightarrow> (Inl (SessionFailure err), db1)
      | (Inr None, db1) \<Rightarrow> (Inl ErrInvalidSession, db1)
      | (Inr (Some (matched, row)), db1) \<Rightarrow>
          let active = sessionDigest ks (activeVersion ks) token;
              db2 = (if activeVersion ks \<in> set order \<and> matched \<noteq> active then migrate_digest matched active (activeVersion ks) migrateErr db1 else db1)
          in (Inr \<lparr>asID = srID row, asExpiresAt = srExpires row\<rparr>, db2))"

definition revoke_rows :: "(sessionRow \<Rightarrow> bool) \<Rightarrow> time \<Rightarrow> sessionTable \<Rightarrow> sessionTable" where
  "revoke_rows P now db = map (\<lambda>row. if srRevoked row = None \<and> P row then row\<lparr>srRevoked := Some (formatTime now)\<rparr> else row) db"

definition sess_Revoke :: "string \<Rightarrow> time \<Rightarrow> goError \<Rightarrow> sessionTable \<Rightarrow> sessionError option \<times> sessionTable" where
  "sess_Revoke i now dbErr db =
     (if dbErr \<noteq> nil_error then (Some (SessionFailure (Wrapped ''revoke admin session'' # dbErr)), db)
      else (None, revoke_rows (\<lambda>row. srID row = i) now db))"

definition sess_RevokeAll :: "time \<Rightarrow> goError \<Rightarrow> sessionTable \<Rightarrow> sessionError option \<times> sessionTable" where
  "sess_RevokeAll now dbErr db =
     (if dbErr \<noteq> nil_error then (Some (SessionFailure (Wrapped ''revoke all admin sessions'' # dbErr)), db)
      else (None, revoke_rows (\<lambda>row. True) now db))"

definition revokeOtherSessions :: "string \<Rightarrow> time \<Rightarrow> goError \<Rightarrow> sessionTable \<Rightarrow> goError \<times> sessionTable" where
  "revokeOtherSessions current now dbErr db =
     (if current = [] then
        (if dbErr \<noteq> nil_error then (Wrapped ''revoke all admin sessions'' # dbErr, db) else (nil_error, revoke_rows (\<lambda>row. True) now db))
      else
        (if dbErr \<noteq> nil_error then (Wrapped ''revoke other admin sessions'' # dbErr, db)
         else (nil_error, revoke_rows (\<lambda>row. srID row \<noteq> current) now db)))"

definition expired_or_revoked :: "time \<Rightarrow> sessionRow \<Rightarrow> bool" where
  "expired_or_revoked cutoff row \<longleftrightarrow> srExpires row \<le> formatTime cutoff
     \<or> (case srRevoked row of None \<Rightarrow> False | Some t \<Rightarrow> t \<le> formatTime cutoff)"

definition DeleteExpiredOrRevoked :: "time \<Rightarrow> goError \<Rightarrow> sessionTable \<Rightarrow> (goError + nat) \<times> sessionTable" where
  "DeleteExpiredOrRevoked cutoff dbErr db =
     (if dbErr \<noteq> nil_error then (Inl (Wrapped ''delete expired or revoked admin sessions'' # dbErr), db)
      else (Inr (length (filter (expired_or_revoked cutoff) db)), filter (\<lambda>row. \<not> expired_or_revoked cutoff row) db))"

text \<open>The next sweep: half past three (UTC). The zero time is a midnight.\<close>

definition day :: duration where "day = 24 * 60 * minute"

definition nextSessionCleanupAt :: "time \<Rightarrow> time" where
  "nextSessionCleanupAt now =
     (let t = now - now mod day + 210 * minute in if \<not> t > now then t + day else t)"

definition sessionCleanupRetryInterval :: duration where "sessionCleanupRetryInterval = minute"

text \<open>One round of the worker: what it waits for, and the table.\<close>

definition session_cleanup :: "time \<Rightarrow> time \<Rightarrow> goError \<Rightarrow> sessionTable \<Rightarrow> duration \<times> sessionTable" where
  "session_cleanup clock later dbErr db =
     (case DeleteExpiredOrRevoked clock dbErr db of
        (Inl _, db1) \<Rightarrow> (sessionCleanupRetryInterval, db1)
      | (Inr _, db1) \<Rightarrow> (time_sub (nextSessionCleanupAt later) later, db1))"

subsection \<open>What the table promises\<close>

text \<open>The specification: the sessions that are neither revoked nor removed, by token.\<close>

type_synonym sessionSpec = "string \<Rightarrow> (string \<times> time) option"

datatype sessionOp =
    OpCreate "goError + string" "goError + string" time goError
  | OpAuthenticate "int list" string time "int \<Rightarrow> goError" "int \<Rightarrow> goError" goError
  | OpRevoke string time goError
  | OpRevokeAll time goError
  | OpRevokeOthers string time goError
  | OpCleanup time goError

datatype sessionResult =
    ResCreate "sessionError + adminSession \<times> string"
  | ResAuthenticate "sessionError + adminSession"
  | ResStatement "goError"

definition status :: "sessionError option \<Rightarrow> goError" where
  "status r = (case r of Some (SessionFailure err) \<Rightarrow> err | _ \<Rightarrow> nil_error)"

fun session_exec :: "'a sessionKeySet_scheme \<Rightarrow> sessionOp \<Rightarrow> sessionTable \<Rightarrow> sessionResult \<times> sessionTable" where
  "session_exec ks (OpCreate tokenBytes idBytes now dbErr) db = apfst ResCreate (sess_Create ks tokenBytes idBytes now dbErr db)"
| "session_exec ks (OpAuthenticate order token now writeErr readErr migrateErr) db =
     apfst ResAuthenticate (sess_Authenticate ks order token now writeErr readErr migrateErr db)"
| "session_exec ks (OpRevoke i now dbErr) db = apfst (\<lambda>r. ResStatement (status r)) (sess_Revoke i now dbErr db)"
| "session_exec ks (OpRevokeAll now dbErr) db = apfst (\<lambda>r. ResStatement (status r)) (sess_RevokeAll now dbErr db)"
| "session_exec ks (OpRevokeOthers i now dbErr) db = apfst ResStatement (revokeOtherSessions i now dbErr db)"
| "session_exec ks (OpCleanup now dbErr) db =
     apfst (\<lambda>r. ResStatement (case r of Inl err \<Rightarrow> err | Inr _ \<Rightarrow> nil_error)) (DeleteExpiredOrRevoked now dbErr db)"

fun session_run :: "'a sessionKeySet_scheme \<Rightarrow> sessionOp list \<Rightarrow> sessionTable \<Rightarrow> sessionResult list \<times> sessionTable" where
  "session_run ks [] db = ([], db)"
| "session_run ks (op # ops) db =
     (case session_exec ks op db of (r, db1) \<Rightarrow> apfst ((#) r) (session_run ks ops db1))"

definition keep_sessions :: "(string \<times> time \<Rightarrow> bool) \<Rightarrow> sessionSpec \<Rightarrow> sessionSpec" where
  "keep_sessions P A = (\<lambda>token. case A token of None \<Rightarrow> None | Some x \<Rightarrow> if P x then Some x else None)"

text \<open>A session lives for a day from the second it was created in.\<close>

fun session_spec :: "sessionOp \<Rightarrow> sessionSpec \<Rightarrow> sessionResult \<times> sessionSpec" where
  "session_spec (OpCreate (Inl err) idBytes now dbErr) A = (ResCreate (Inl (SessionFailure (Wrapped ''generate admin session token'' # err))), A)"
| "session_spec (OpCreate (Inr tokenBytes) (Inl err) now dbErr) A = (ResCreate (Inl (SessionFailure (Wrapped ''generate admin session ID'' # err))), A)"
| "session_spec (OpCreate (Inr tokenBytes) (Inr idBytes) now dbErr) A =
     (let token = raw_encode tokenBytes; i = raw_encode idBytes; expires = formatTime now + sessionLifetime
      in (ResCreate (Inr (\<lparr>asID = i, asExpiresAt = expires\<rparr>, token)), A(token \<mapsto> (i, expires))))"
| "session_spec (OpAuthenticate order token now writeErr readErr migrateErr) A =
     (ResAuthenticate (case A token of
         None \<Rightarrow> Inl ErrInvalidSession
       | Some (i, expires) \<Rightarrow> if now < expires then Inr \<lparr>asID = i, asExpiresAt = expires\<rparr> else Inl ErrInvalidSession), A)"
| "session_spec (OpRevoke i now dbErr) A = (ResStatement nil_error, keep_sessions (\<lambda>x. fst x \<noteq> i) A)"
| "session_spec (OpRevokeAll now dbErr) A = (ResStatement nil_error, Map.empty)"
| "session_spec (OpRevokeOthers i now dbErr) A = (ResStatement nil_error, keep_sessions (\<lambda>x. i \<noteq> [] \<and> fst x = i) A)"
| "session_spec (OpCleanup now dbErr) A = (ResStatement nil_error, keep_sessions (\<lambda>x. now < snd x) A)"

text \<open>A statement the database refuses may fail instead, without any effect.\<close>

fun op_faulty :: "sessionOp \<Rightarrow> bool" where
  "op_faulty (OpCreate tokenBytes idBytes now dbErr) \<longleftrightarrow> dbErr \<noteq> nil_error"
| "op_faulty (OpAuthenticate order token now writeErr readErr migrateErr) \<longleftrightarrow> list_ex (\<lambda>v. writeErr v \<noteq> nil_error \<or> readErr v \<noteq> nil_error) order"
| "op_faulty (OpRevoke i now dbErr) \<longleftrightarrow> dbErr \<noteq> nil_error"
| "op_faulty (OpRevokeAll now dbErr) \<longleftrightarrow> dbErr \<noteq> nil_error"
| "op_faulty (OpRevokeOthers i now dbErr) \<longleftrightarrow> dbErr \<noteq> nil_error"
| "op_faulty (OpCleanup now dbErr) \<longleftrightarrow> dbErr \<noteq> nil_error"

fun res_failed :: "sessionResult \<Rightarrow> bool" where
  "res_failed (ResCreate r) \<longleftrightarrow> (case r of Inl (SessionFailure _) \<Rightarrow> True | _ \<Rightarrow> False)"
| "res_failed (ResAuthenticate r) \<longleftrightarrow> (case r of Inl (SessionFailure _) \<Rightarrow> True | _ \<Rightarrow> False)"
| "res_failed (ResStatement err) \<longleftrightarrow> err \<noteq> nil_error"

fun session_allowed :: "sessionOp list \<Rightarrow> sessionResult list \<Rightarrow> sessionSpec \<Rightarrow> bool" where
  "session_allowed [] [] A \<longleftrightarrow> True"
| "session_allowed (op # ops) (r # rs) A \<longleftrightarrow>
     r = fst (session_spec op A) \<and> session_allowed ops rs (snd (session_spec op A))
     \<or> op_faulty op \<and> res_failed r \<and> session_allowed ops rs A"
| "session_allowed _ _ A \<longleftrightarrow> False"

text \<open>Randomness does not repeat, every version is visited, and digests tell the tokens \<open>T\<close> apart.\<close>

definition created :: "sessionOp \<Rightarrow> (string \<times> string) list" where
  "created op = (case op of OpCreate (Inr tokenBytes) (Inr idBytes) _ _ \<Rightarrow> [(raw_encode tokenBytes, raw_encode idBytes)] | _ \<Rightarrow> [])"

fun op_ok :: "'a sessionKeySet_scheme \<Rightarrow> string set \<Rightarrow> sessionOp \<Rightarrow> bool" where
  "op_ok ks T (OpCreate (Inr tokenBytes) idBytes now dbErr) \<longleftrightarrow> length tokenBytes = sessionTokenBytes \<and> raw_encode tokenBytes \<in> T"
| "op_ok ks T (OpAuthenticate order token now writeErr readErr migrateErr) \<longleftrightarrow> set order = set (keyVersions ks) \<and> token \<in> T"
| "op_ok ks T _ \<longleftrightarrow> True"

definition owns :: "'a sessionKeySet_scheme \<Rightarrow> string \<Rightarrow> sessionRow \<Rightarrow> bool" where
  "owns ks token row \<longleftrightarrow> list_ex (\<lambda>v. srDigest row = sessionDigest ks v token) (keyVersions ks)"

definition digests_separate :: "'a sessionKeySet_scheme \<Rightarrow> string set \<Rightarrow> bool" where
  "digests_separate ks T \<longleftrightarrow> activeVersion ks \<in> set (keyVersions ks)
     \<and> (\<forall>v \<in> set (keyVersions ks). \<forall>w \<in> set (keyVersions ks). \<forall>t \<in> T. \<forall>u \<in> T. sessionDigest ks v t = sessionDigest ks w u \<longrightarrow> t = u)"

subsection \<open>The invariant of the table\<close>

definition table_ok :: "'a sessionKeySet_scheme \<Rightarrow> string set \<Rightarrow> sessionTable \<Rightarrow> bool" where
  "table_ok ks T db \<longleftrightarrow> distinct (map srID db)
     \<and> (\<forall>row \<in> set db. srExpires row mod second = 0 \<and> (\<exists>t \<in> T. owns ks t row \<and> validSessionToken t))
     \<and> (\<forall>t \<in> T. \<forall>row \<in> set db. \<forall>row' \<in> set db. owns ks t row \<longrightarrow> owns ks t row' \<longrightarrow> row = row')"

definition table_abs :: "'a sessionKeySet_scheme \<Rightarrow> sessionTable \<Rightarrow> sessionSpec" where
  "table_abs ks db token = map_option (\<lambda>row. (srID row, srExpires row)) (find (\<lambda>row. owns ks token row \<and> srRevoked row = None) db)"

lemma formatTime_whole: "formatTime t mod second = 0"
  unfolding formatTime_def by (simp add: minus_mod_eq_mult_div)

lemma whole_second_less:
  assumes "t mod second = 0"
  shows "formatTime now < t \<longleftrightarrow> now < t"
proof
  assume "formatTime now < t"
  then have "second * (now div second) < second * (t div second)"
    using assms mult_div_mod_eq [of second t] unfolding formatTime_def by (simp add: minus_mod_eq_mult_div)
  then have "now div second < t div second" by simp
  then have "now < second * (t div second)"
    by (metis div_less_iff_less_mult mult.commute not_le zdiv_mono1 zero_less_numeral nonzero_mult_div_cancel_left zero_neq_numeral)
  then show "now < t"
    using assms mult_div_mod_eq [of second t] by simp
next
  assume "now < t"
  moreover have "formatTime now \<le> now" unfolding formatTime_def by simp
  ultimately show "formatTime now < t" by simp
qed

lemma option_eqI: "(\<And>x. a = Some x \<longleftrightarrow> b = Some x) \<Longrightarrow> a = b"
  by (cases a; cases b) auto

lemma table_abs_iff:
  assumes "table_ok ks T db" "t \<in> T"
  shows "table_abs ks db t = Some (i, e) \<longleftrightarrow> (\<exists>row \<in> set db. owns ks t row \<and> srRevoked row = None \<and> srID row = i \<and> srExpires row = e)"
proof
  assume "table_abs ks db t = Some (i, e)"
  then show "\<exists>row \<in> set db. owns ks t row \<and> srRevoked row = None \<and> srID row = i \<and> srExpires row = e"
    unfolding table_abs_def using find_Some_iff' by fastforce
next
  assume "\<exists>row \<in> set db. owns ks t row \<and> srRevoked row = None \<and> srID row = i \<and> srExpires row = e"
  then obtain row where row: "row \<in> set db" "owns ks t row" "srRevoked row = None" "srID row = i" "srExpires row = e"
    by blast
  then obtain row' where found: "find (\<lambda>row. owns ks t row \<and> srRevoked row = None) db = Some row'"
    using find_None_iff [of "\<lambda>row. owns ks t row \<and> srRevoked row = None" db] by (metis option.exhaust)
  then have "row' = row"
    using find_Some_iff' [OF found] row assms unfolding table_ok_def by blast
  then show "table_abs ks db t = Some (i, e)"
    using found row(4,5) by (simp add: table_abs_def)
qed

text \<open>A statement that rewrites rows keeps the invariant if it keeps who owns them.\<close>

definition keeps_row :: "'a sessionKeySet_scheme \<Rightarrow> string set \<Rightarrow> sessionRow \<Rightarrow> sessionRow \<Rightarrow> bool" where
  "keeps_row ks T row row' \<longleftrightarrow> srID row' = srID row \<and> srExpires row' = srExpires row \<and> (\<forall>t \<in> T. owns ks t row' = owns ks t row)"

definition rows_from :: "'a sessionKeySet_scheme \<Rightarrow> string set \<Rightarrow> sessionTable \<Rightarrow> sessionTable \<Rightarrow> bool" where
  "rows_from ks T db db1 \<longleftrightarrow> (\<forall>row \<in> set db1. \<exists>row0 \<in> set db. keeps_row ks T row0 row)"

lemma rows_from_map: "(\<And>row. row \<in> set db \<Longrightarrow> keeps_row ks T row (f row)) \<Longrightarrow> rows_from ks T db (map f db)"
  by (auto simp: rows_from_def)

lemma rows_from_trans: "rows_from ks T db db1 \<Longrightarrow> rows_from ks T db1 db2 \<Longrightarrow> rows_from ks T db db2"
  unfolding rows_from_def keeps_row_def by metis

lemma table_ok_map:
  assumes ok: "table_ok ks T db" and f: "\<And>row. row \<in> set db \<Longrightarrow> keeps_row ks T row (f row)"
  shows "table_ok ks T (map f db)"
proof -
  have "map srID (map f db) = map srID db"
    using f by (simp add: keeps_row_def)
  then show ?thesis
    using ok f unfolding table_ok_def keeps_row_def by (fastforce simp del: map_map)
qed

lemma table_abs_map:
  assumes ok: "table_ok ks T db" and t: "t \<in> T" and f: "\<And>row. row \<in> set db \<Longrightarrow> keeps_row ks T row (f row)"
    and live: "\<And>row. row \<in> set db \<Longrightarrow> srRevoked (f row) = None \<longleftrightarrow> srRevoked row = None \<and> P (srID row, srExpires row)"
  shows "table_abs ks (map f db) t = keep_sessions P (table_abs ks db) t"
proof (rule option_eqI)
  fix x :: "string \<times> time"
  obtain i e where x: "x = (i, e)" by (cases x)
  have ok': "table_ok ks T (map f db)"
    using ok f by (rule table_ok_map)
  have "table_abs ks (map f db) t = Some x \<longleftrightarrow> (\<exists>row \<in> set db. owns ks t row \<and> srRevoked row = None \<and> P (srID row, srExpires row) \<and> srID row = i \<and> srExpires row = e)"
    unfolding x table_abs_iff [OF ok' t] using f live t by (fastforce simp: keeps_row_def)
  also have "\<dots> \<longleftrightarrow> table_abs ks db t = Some x \<and> P x"
    unfolding x table_abs_iff [OF ok t] by blast
  also have "\<dots> \<longleftrightarrow> keep_sessions P (table_abs ks db) t = Some x"
    by (auto simp: keep_sessions_def split: option.splits)
  finally show "table_abs ks (map f db) t = Some x \<longleftrightarrow> keep_sessions P (table_abs ks db) t = Some x" .
qed

lemma keep_all [simp]: "keep_sessions (\<lambda>x. True) A = A"
  by (auto simp: keep_sessions_def split: option.splits)

lemma keep_none [simp]: "keep_sessions (\<lambda>x. False) A = Map.empty"
  by (auto simp: keep_sessions_def split: option.splits)

lemma keeps_row_refl [simp]: "keeps_row ks T row row"
  by (simp add: keeps_row_def)

subsection \<open>Every statement keeps it\<close>

lemma abs_none:
  assumes "table_ok ks T db" "t \<in> T" "\<And>row. row \<in> set db \<Longrightarrow> \<not> owns ks t row"
  shows "table_abs ks db t = None"
  using table_abs_iff [OF assms(1,2)] assms(3) by (cases "table_abs ks db t") auto

lemma digest_owned: "v \<in> set (keyVersions ks) \<Longrightarrow> srDigest row = sessionDigest ks v t \<Longrightarrow> owns ks t row"
  by (auto simp: owns_def list_ex_iff)

lemma owner_unique: "digests_separate ks T \<Longrightarrow> t \<in> T \<Longrightarrow> u \<in> T \<Longrightarrow> owns ks t row \<Longrightarrow> owns ks u row \<Longrightarrow> t = u"
  by (auto simp: owns_def list_ex_iff digests_separate_def)

lemma owns_same_digest: "srDigest row = srDigest row' \<Longrightarrow> owns ks t row = owns ks t row'"
  by (simp add: owns_def)

lemma revoke_rows_ok:
  assumes "table_ok ks T db"
  shows "table_ok ks T (revoke_rows (\<lambda>row. P (srID row)) now db)" "rows_from ks T db (revoke_rows (\<lambda>row. P (srID row)) now db)"
    "t \<in> T \<Longrightarrow> table_abs ks (revoke_rows (\<lambda>row. P (srID row)) now db) t = keep_sessions (\<lambda>x. \<not> P (fst x)) (table_abs ks db) t"
proof -
  let ?f = "\<lambda>row. if srRevoked row = None \<and> P (srID row) then row\<lparr>srRevoked := Some (formatTime now)\<rparr> else row"
  have keeps: "\<And>row. row \<in> set db \<Longrightarrow> keeps_row ks T row (?f row)"
    by (auto simp: keeps_row_def intro!: owns_same_digest)
  show "table_ok ks T (revoke_rows (\<lambda>row. P (srID row)) now db)"
    unfolding revoke_rows_def using assms keeps by (rule table_ok_map)
  show "rows_from ks T db (revoke_rows (\<lambda>row. P (srID row)) now db)"
    unfolding revoke_rows_def using keeps by (rule rows_from_map)
  show "table_abs ks (revoke_rows (\<lambda>row. P (srID row)) now db) t = keep_sessions (\<lambda>x. \<not> P (fst x)) (table_abs ks db) t" if "t \<in> T"
    unfolding revoke_rows_def using assms that keeps by (rule table_abs_map) auto
qed

lemma cleanup_ok:
  assumes "table_ok ks T db"
  shows "table_ok ks T (filter (\<lambda>row. \<not> expired_or_revoked now row) db)"
    "t \<in> T \<Longrightarrow> table_abs ks (filter (\<lambda>row. \<not> expired_or_revoked now row) db) t = keep_sessions (\<lambda>x. now < snd x) (table_abs ks db) t"
proof -
  let ?db = "filter (\<lambda>row. \<not> expired_or_revoked now row) db"
  show ok: "table_ok ks T ?db"
    using assms unfolding table_ok_def by (auto intro: distinct_map_filter)
  have gone: "srRevoked row = None \<Longrightarrow> row \<in> set db \<Longrightarrow> \<not> expired_or_revoked now row \<longleftrightarrow> now < srExpires row" for row
    using assms whole_second_less [of "srExpires row" now] by (auto simp: table_ok_def expired_or_revoked_def)
  show "table_abs ks ?db t = keep_sessions (\<lambda>x. now < snd x) (table_abs ks db) t" if t: "t \<in> T"
  proof (rule option_eqI)
    fix x :: "string \<times> time"
    obtain i e where x: "x = (i, e)" by (cases x)
    have "table_abs ks ?db t = Some x \<longleftrightarrow> table_abs ks db t = Some x \<and> now < e"
      unfolding x table_abs_iff [OF ok t] table_abs_iff [OF assms t] using gone by auto
    then show "table_abs ks ?db t = Some x \<longleftrightarrow> keep_sessions (\<lambda>x. now < snd x) (table_abs ks db) t = Some x"
      by (auto simp: keep_sessions_def x split: option.splits)
  qed
qed

lemma create_ok:
  fixes now :: time and ks :: "'a sessionKeySet_scheme"
  assumes keys: "digests_separate ks T" and ok: "table_ok ks T db" and token: "token \<in> T" "validSessionToken token" "\<And>row. row \<in> set db \<Longrightarrow> \<not> owns ks token row"
    and i: "\<And>row. row \<in> set db \<Longrightarrow> srID row \<noteq> i"
  defines "row \<equiv> \<lparr>srID = i, srDigest = sessionDigest ks (activeVersion ks) token, srKeyVersion = activeVersion ks,
      srExpires = formatTime now + sessionLifetime, srCreated = formatTime now, srLastSeen = formatTime now, srRevoked = None\<rparr>"
  shows "\<not> list_ex (\<lambda>row. srID row = i \<or> srDigest row = sessionDigest ks (activeVersion ks) token) db"
    "table_ok ks T (db @ [row])"
    "t \<in> T \<Longrightarrow> table_abs ks (db @ [row]) t = ((table_abs ks db)(token \<mapsto> (i, formatTime now + sessionLifetime))) t"
proof -
  have active: "activeVersion ks \<in> set (keyVersions ks)"
    using keys by (simp add: digests_separate_def)
  show "\<not> list_ex (\<lambda>row. srID row = i \<or> srDigest row = sessionDigest ks (activeVersion ks) token) db"
    using i token(3) digest_owned [OF active] by (auto simp: list_ex_iff)
  have mine: "owns ks token row"
    using active by (rule digest_owned) (simp add: row_def)
  have own: "owns ks t row \<longleftrightarrow> t = token" if "t \<in> T" for t
    using owner_unique [OF keys that token(1)] mine by blast
  have whole: "srExpires row mod second = 0"
    using formatTime_whole [of now] by (simp add: row_def sessionLifetime_def mod_add_eq [symmetric])
  have ids: "srID row \<notin> srID ` set db"
    using i by (auto simp: row_def)
  show ok': "table_ok ks T (db @ [row])"
    using ok ids whole mine token own unfolding table_ok_def by auto
  show "table_abs ks (db @ [row]) t = ((table_abs ks db)(token \<mapsto> (i, formatTime now + sessionLifetime))) t" if t: "t \<in> T"
  proof (rule option_eqI)
    fix x :: "string \<times> time"
    obtain j e where x: "x = (j, e)" by (cases x)
    have parts: "srRevoked row = None" "srID row = i" "srExpires row = formatTime now + sessionLifetime"
      by (simp_all add: row_def)
    have "table_abs ks (db @ [row]) t = Some x \<longleftrightarrow> table_abs ks db t = Some x \<or> t = token \<and> x = (i, formatTime now + sessionLifetime)"
      unfolding x table_abs_iff [OF ok' t] table_abs_iff [OF ok t] using own [OF t] parts by auto
    moreover have "table_abs ks db token = None"
      using abs_none [OF ok token(1)] token(3) by blast
    ultimately show "table_abs ks (db @ [row]) t = Some x \<longleftrightarrow> ((table_abs ks db)(token \<mapsto> (i, formatTime now + sessionLifetime))) t = Some x"
      by auto
  qed
qed

text \<open>What the queries of the digests find.\<close>

definition touch_rows :: "time \<Rightarrow> string \<Rightarrow> sessionTable \<Rightarrow> sessionTable" where
  "touch_rows now dig db = map (\<lambda>r. if touchable now dig r then r\<lparr>srLastSeen := formatTime now\<rparr> else r) db"

lemma query_digests_cases:
  "(\<exists>err. query_digests ds now writeErr readErr db = (Inl err, db) \<and> list_ex (\<lambda>d. writeErr (fst d) \<noteq> nil_error \<or> readErr (fst d) \<noteq> nil_error) ds)
   \<or> (query_digests ds now writeErr readErr db = (Inr None, db) \<and> (\<forall>row \<in> set db. row_live now row \<longrightarrow> srDigest row \<notin> snd ` set ds))
   \<or> (\<exists>dig row db1. query_digests ds now writeErr readErr db = (Inr (Some (dig, row)), db1) \<and> row \<in> set db \<and> srDigest row = dig \<and> row_live now row
        \<and> srDigest row \<in> snd ` set ds \<and> db1 \<in> {db, touch_rows now dig db})"
proof (induction ds)
  case (Cons d ds)
  obtain version dig where d: "d = (version, dig)" by (cases d)
  consider (refused) "writeErr version \<noteq> nil_error" | (touch) row where "writeErr version = nil_error" "find (touchable now dig) db = Some row"
    | (read) "writeErr version = nil_error" "find (touchable now dig) db = None" "readErr version \<noteq> nil_error"
    | (found) row where "writeErr version = nil_error" "find (touchable now dig) db = None" "readErr version = nil_error"
        "find (\<lambda>row. srDigest row = dig \<and> row_live now row) db = Some row"
    | (rest) "writeErr version = nil_error" "find (touchable now dig) db = None" "readErr version = nil_error"
        "find (\<lambda>row. srDigest row = dig \<and> row_live now row) db = None"
    by (cases "find (touchable now dig) db"; cases "find (\<lambda>row. srDigest row = dig \<and> row_live now row) db") auto
  then show ?case
  proof cases
    case touch
    then show ?thesis
      using find_Some_iff' [OF touch(2)] by (auto simp: d touchable_def touch_rows_def)
  next
    case found
    then show ?thesis
      using find_Some_iff' [OF found(4)] by (auto simp: d)
  next
    case rest
    have "\<forall>row \<in> set db. row_live now row \<longrightarrow> srDigest row \<noteq> dig"
      using rest(4) by (auto simp: find_None_iff)
    then show ?thesis
      using Cons.IH rest(1-3) unfolding d by (auto simp: rest(4))
  qed (auto simp: d)
qed simp

lemma touch_rows_ok:
  assumes "table_ok ks T db" "t \<in> T"
  shows "table_ok ks T (touch_rows now dig db)" "rows_from ks T db (touch_rows now dig db)" "table_abs ks (touch_rows now dig db) t = table_abs ks db t"
proof -
  let ?f = "\<lambda>r. if touchable now dig r then r\<lparr>srLastSeen := formatTime now\<rparr> else r"
  have keeps: "\<And>row. row \<in> set db \<Longrightarrow> keeps_row ks T row (?f row)"
    by (auto simp: keeps_row_def intro!: owns_same_digest)
  show "table_ok ks T (touch_rows now dig db)"
    unfolding touch_rows_def using assms(1) keeps by (rule table_ok_map)
  show "rows_from ks T db (touch_rows now dig db)"
    unfolding touch_rows_def using keeps by (rule rows_from_map)
  have "table_abs ks (map ?f db) t = keep_sessions (\<lambda>x. True) (table_abs ks db) t"
    using assms keeps by (rule table_abs_map) auto
  then show "table_abs ks (touch_rows now dig db) t = table_abs ks db t"
    by (simp add: touch_rows_def)
qed

lemma migrate_digest_ok:
  assumes "table_ok ks T db" "t \<in> T" "digests_separate ks T" "token \<in> T" "v \<in> set (keyVersions ks)" "w \<in> set (keyVersions ks)"
  shows "table_ok ks T (migrate_digest (sessionDigest ks v token) (sessionDigest ks w token) w dbErr db)"
    "rows_from ks T db (migrate_digest (sessionDigest ks v token) (sessionDigest ks w token) w dbErr db)"
    "table_abs ks (migrate_digest (sessionDigest ks v token) (sessionDigest ks w token) w dbErr db) t = table_abs ks db t"
proof -
  let ?new = "sessionDigest ks w token"
  let ?f = "\<lambda>row. if srDigest row = sessionDigest ks v token \<and> srRevoked row = None then row\<lparr>srDigest := ?new, srKeyVersion := w\<rparr> else row"
  have moved: "owns ks u row = (u = token)" if "u \<in> T" "owns ks token row" for u and row :: sessionRow
    using owner_unique [OF assms(3) that(1) assms(4)] that(2) by blast
  have keeps: "keeps_row ks T row (?f row)" for row
  proof (cases "srDigest row = sessionDigest ks v token \<and> srRevoked row = None")
    case True
    have "owns ks token row" "owns ks token (?f row)"
      using True digest_owned [OF assms(5), of row token] digest_owned [OF assms(6), of "?f row" token] by simp_all
    then show ?thesis
      using True moved by (simp add: keeps_row_def)
  next
    case False
    then show ?thesis by (simp only: if_False keeps_row_refl)
  qed
  have same: "table_abs ks (map ?f db) t = keep_sessions (\<lambda>x. True) (table_abs ks db) t"
    using assms(1,2) keeps by (rule table_abs_map) simp
  show "table_ok ks T (migrate_digest (sessionDigest ks v token) ?new w dbErr db)"
    using assms(1) table_ok_map [OF assms(1), of ?f] keeps by (simp add: migrate_digest_def)
  show "rows_from ks T db (migrate_digest (sessionDigest ks v token) ?new w dbErr db)"
    using rows_from_map [of db ks T ?f] rows_from_map [of db ks T "\<lambda>row. row"] keeps by (simp add: migrate_digest_def)
  show "table_abs ks (migrate_digest (sessionDigest ks v token) ?new w dbErr db) t = table_abs ks db t"
    using same by (simp add: migrate_digest_def)
qed

lemma authenticate_ok:
  fixes now :: time and ks :: "'a sessionKeySet_scheme" and writeErr readErr :: "int \<Rightarrow> goError" and migrateErr :: goError
  assumes keys: "digests_separate ks T" and ok: "table_ok ks T db" and order: "set order = set (keyVersions ks)" and token: "token \<in> T" and t: "t \<in> T"
  defines "r \<equiv> sess_Authenticate ks order token now writeErr readErr migrateErr db"
  shows "table_ok ks T (snd r) \<and> rows_from ks T db (snd r) \<and> table_abs ks (snd r) t = table_abs ks db t
     \<and> (ResAuthenticate (fst r) = fst (session_spec (OpAuthenticate order token now writeErr readErr migrateErr) (table_abs ks db))
        \<or> op_faulty (OpAuthenticate order token now writeErr readErr migrateErr) \<and> res_failed (ResAuthenticate (fst r)))"
proof -
  let ?ds = "map (\<lambda>v. (v, sessionDigest ks v token)) order"
  have owned: "srDigest row \<in> snd ` set ?ds \<longleftrightarrow> owns ks token row" for row
    using order by (auto simp: owns_def list_ex_iff image_image)
  have self: "rows_from ks T db db"
    by (auto simp: rows_from_def intro: keeps_row_refl)
  have live: "row \<in> set db \<Longrightarrow> row_live now row \<longleftrightarrow> srRevoked row = None \<and> now < srExpires row" for row
    using ok whole_second_less [of "srExpires row" now] by (auto simp: table_ok_def row_live_def)
  consider (invalid) "\<not> validSessionToken token"
    | (failed) err where "validSessionToken token" "query_digests ?ds now writeErr readErr db = (Inl err, db)"
        "list_ex (\<lambda>d. writeErr (fst d) \<noteq> nil_error \<or> readErr (fst d) \<noteq> nil_error) ?ds"
    | (none) "validSessionToken token" "query_digests ?ds now writeErr readErr db = (Inr None, db)"
        "\<forall>row \<in> set db. row_live now row \<longrightarrow> \<not> owns ks token row"
    | (found) dig row db1 where "validSessionToken token" "query_digests ?ds now writeErr readErr db = (Inr (Some (dig, row)), db1)" "row \<in> set db"
        "srDigest row = dig" "row_live now row" "owns ks token row" "db1 \<in> {db, touch_rows now dig db}"
    using query_digests_cases [of ?ds now writeErr readErr db] unfolding owned by blast
  then show ?thesis
  proof cases
    case invalid
    have "\<not> owns ks token row" if row: "row \<in> set db" for row
    proof -
      obtain u where "u \<in> T" "owns ks u row" "validSessionToken u"
        using ok row by (auto simp: table_ok_def)
      then show ?thesis
        using owner_unique [OF keys token, of u row] invalid by blast
    qed
    then have "table_abs ks db token = None"
      by (rule abs_none [OF ok token])
    then show ?thesis
      using invalid ok self by (simp add: r_def sess_Authenticate_def)
  next
    case failed
    then show ?thesis
      using ok self by (auto simp: r_def sess_Authenticate_def list_ex_iff)
  next
    case none
    have "table_abs ks db token = Some (i, e) \<Longrightarrow> \<not> now < e" for i e
      using none(3) live unfolding table_abs_iff [OF ok token] by blast
    then show ?thesis
      using none ok self by (auto simp: r_def sess_Authenticate_def split: option.splits)
  next
    case found
    have abs: "table_abs ks db token = Some (srID row, srExpires row)" "now < srExpires row"
      using found(3,5,6) live [OF found(3)] by (simp_all add: table_abs_iff [OF ok token]) blast
    obtain v where v: "v \<in> set (keyVersions ks)" "dig = sessionDigest ks v token"
      using found(4,6) by (auto simp: owns_def list_ex_iff)
    have db1: "table_ok ks T db1" "rows_from ks T db db1" "table_abs ks db1 t = table_abs ks db t"
      using found(7) ok self touch_rows_ok [OF ok t] by auto
    have active: "activeVersion ks \<in> set (keyVersions ks)"
      using keys by (simp add: digests_separate_def)
    show ?thesis
      using found(1,2) abs db1 migrate_digest_ok [OF db1(1) t keys token v(1) active, of migrateErr] active order rows_from_trans [OF db1(2)]
      by (simp add: r_def sess_Authenticate_def Let_def v(2))
  qed
qed

text \<open>A table and a specification that agree on the tokens, and the randomness still to come.\<close>

definition table_refines :: "'a sessionKeySet_scheme \<Rightarrow> string set \<Rightarrow> sessionTable \<Rightarrow> sessionSpec \<Rightarrow> bool" where
  "table_refines ks T db A \<longleftrightarrow> table_ok ks T db \<and> (\<forall>t \<in> T. table_abs ks db t = A t)"

definition unused :: "'a sessionKeySet_scheme \<Rightarrow> sessionTable \<Rightarrow> string \<times> string \<Rightarrow> bool" where
  "unused ks db x \<longleftrightarrow> (\<forall>row \<in> set db. \<not> owns ks (fst x) row \<and> srID row \<noteq> snd x)"

lemma unused_from: "rows_from ks T db db1 \<Longrightarrow> unused ks db x \<Longrightarrow> fst x \<in> T \<Longrightarrow> unused ks db1 x"
  unfolding rows_from_def unused_def keeps_row_def by metis

lemma rows_from_refl [simp]: "rows_from ks T db db"
  by (auto simp: rows_from_def intro: keeps_row_refl)

lemma rows_from_filter [simp]: "rows_from ks T db (filter P db)"
  by (auto simp: rows_from_def intro: keeps_row_refl)

lemma raw_encode_valid: "length bytes = sessionTokenBytes \<Longrightarrow> validSessionToken (raw_encode bytes)"
  by (simp add: validSessionToken_def raw_decode_encode length_raw_encode sessionTokenBytes_def)

definition step_ok :: "'a sessionKeySet_scheme \<Rightarrow> string set \<Rightarrow> sessionOp \<Rightarrow> sessionTable \<Rightarrow> sessionSpec \<Rightarrow> bool" where
  "step_ok ks T op db A \<longleftrightarrow> (case session_exec ks op db of (r, db1) \<Rightarrow>
     r = fst (session_spec op A) \<and> table_refines ks T db1 (snd (session_spec op A))
     \<or> op_faulty op \<and> res_failed r \<and> table_refines ks T db1 A)"

lemma rows_step: "\<not> (\<exists>a b c d. op = OpCreate a b c d) \<Longrightarrow> digests_separate ks T \<Longrightarrow> table_ok ks T db \<Longrightarrow> op_ok ks T op
    \<Longrightarrow> rows_from ks T db (snd (session_exec ks op db))"
proof (cases op)
  case (OpAuthenticate order token now writeErr readErr migrateErr)
  then show "digests_separate ks T \<Longrightarrow> table_ok ks T db \<Longrightarrow> op_ok ks T op \<Longrightarrow> ?thesis"
    using authenticate_ok [of ks T db order token token now writeErr readErr migrateErr] by simp
next
  case (OpRevoke i now dbErr)
  then show "table_ok ks T db \<Longrightarrow> ?thesis"
    using revoke_rows_ok(2) [of ks T db "\<lambda>j. j = i" now] by (simp add: sess_Revoke_def)
next
  case (OpRevokeAll now dbErr)
  then show "table_ok ks T db \<Longrightarrow> ?thesis"
    using revoke_rows_ok(2) [of ks T db "\<lambda>j. True" now] by (simp add: sess_RevokeAll_def)
next
  case (OpRevokeOthers i now dbErr)
  then show "table_ok ks T db \<Longrightarrow> ?thesis"
    using revoke_rows_ok(2) [of ks T db "\<lambda>j. True" now] revoke_rows_ok(2) [of ks T db "\<lambda>j. j \<noteq> i" now] by (simp add: revokeOtherSessions_def)
qed (auto simp: DeleteExpiredOrRevoked_def)

lemma statement_step:
  assumes ref: "table_refines ks T db A" and keys: "digests_separate ks T" and ok: "op_ok ks T op" and no: "\<not> (\<exists>a b c d. op = OpCreate a b c d)"
  shows "step_ok ks T op db A"
proof -
  have table: "table_ok ks T db" and abs: "\<And>t. t \<in> T \<Longrightarrow> table_abs ks db t = A t"
    using ref by (auto simp: table_refines_def)
  have kept: "keep_sessions P (table_abs ks db) t = keep_sessions P A t" if "t \<in> T" for P t
    using abs [OF that] by (simp add: keep_sessions_def)
  have revoke: "table_refines ks T (revoke_rows (\<lambda>row. P (srID row)) now db) (keep_sessions (\<lambda>x. \<not> P (fst x)) A)" for P now
    using revoke_rows_ok(1,3) [OF table, where P = P and now = now] kept by (simp add: table_refines_def)
  show ?thesis
  proof (cases op)
    case (OpAuthenticate order token now writeErr readErr migrateErr)
    have token: "token \<in> T" "set order = set (keyVersions ks)"
      using ok by (simp_all add: OpAuthenticate)
    note auth = authenticate_ok [OF keys table token(2,1), of _ now writeErr readErr migrateErr]
    show ?thesis
      using auth [OF token(1)] auth abs [OF token(1)] abs
      by (auto simp: OpAuthenticate step_ok_def table_refines_def case_prod_beta)
  next
    case (OpRevoke i now dbErr)
    then show ?thesis
      using revoke [of "\<lambda>j. j = i" now] ref by (simp add: step_ok_def sess_Revoke_def status_def)
  next
    case (OpRevokeAll now dbErr)
    then show ?thesis
      using revoke [of "\<lambda>j. True" now] ref by (simp add: step_ok_def sess_RevokeAll_def status_def)
  next
    case (OpRevokeOthers i now dbErr)
    then show ?thesis
      using revoke [of "\<lambda>j. True" now] revoke [of "\<lambda>j. j \<noteq> i" now] ref
      by (cases "i = []") (simp_all add: step_ok_def revokeOtherSessions_def)
  next
    case (OpCleanup now dbErr)
    have "table_refines ks T (filter (\<lambda>row. \<not> expired_or_revoked now row) db) (keep_sessions (\<lambda>x. now < snd x) A)"
      using cleanup_ok [OF table, where now = now] kept by (simp add: table_refines_def)
    then show ?thesis
      using ref by (simp add: OpCleanup step_ok_def DeleteExpiredOrRevoked_def)
  qed (use no in simp)
qed

lemma create_parts:
  assumes keys: "digests_separate ks T" and ok: "op_ok ks T (OpCreate (Inr t) (Inr i) now e)"
    and fresh: "\<And>x. x \<in> set (created (OpCreate (Inr t) (Inr i) now e)) \<Longrightarrow> unused ks db x"
  shows "raw_encode t \<in> T" "validSessionToken (raw_encode t)"
    "row \<in> set db \<Longrightarrow> \<not> owns ks (raw_encode t) row" "row \<in> set db \<Longrightarrow> srID row \<noteq> raw_encode i"
  using ok fresh by (auto simp: created_def unused_def intro: raw_encode_valid)

lemma create_step:
  assumes ref: "table_refines ks T db A" and keys: "digests_separate ks T" and ok: "op_ok ks T (OpCreate tb ib now e)"
    and fresh: "\<And>x. x \<in> set (created (OpCreate tb ib now e)) \<Longrightarrow> unused ks db x"
  shows "step_ok ks T (OpCreate tb ib now e) db A"
proof (cases "(\<exists>err. tb = Inl err) \<or> (\<exists>err. ib = Inl err)")
  case True
  then show ?thesis
    using ref unfolding step_ok_def by (auto simp: sess_Create_def randomRawURL_def split: sum.splits)
next
  case False
  then obtain t i where b: "tb = Inr t" "ib = Inr i"
    by (cases tb; cases ib) auto
  have table: "table_ok ks T db" and abs: "\<And>t. t \<in> T \<Longrightarrow> table_abs ks db t = A t"
    using ref by (auto simp: table_refines_def)
  note parts = create_parts [OF keys ok [unfolded b] fresh [unfolded b]]
  show ?thesis
    using create_ok(1) [OF keys table parts(1-4)] create_ok(2,3) [OF keys table parts(1-4), where now = now] ref abs
    by (cases "e = nil_error") (auto simp: b step_ok_def table_refines_def sess_Create_def randomRawURL_def Let_def)
qed

lemma create_unused:
  assumes keys: "digests_separate ks T" and ok: "op_ok ks T (OpCreate tb ib now e)"
    and y: "fst y \<in> T" "unused ks db y" "\<And>x. x \<in> set (created (OpCreate tb ib now e)) \<Longrightarrow> fst y \<noteq> fst x \<and> snd y \<noteq> snd x"
  shows "unused ks (snd (session_exec ks (OpCreate tb ib now e) db)) y"
proof (cases "(\<exists>err. tb = Inl err) \<or> (\<exists>err. ib = Inl err)")
  case True
  then show ?thesis
    using y(2) by (auto simp: sess_Create_def randomRawURL_def split: sum.splits)
next
  case False
  then obtain t i where b: "tb = Inr t" "ib = Inr i"
    by (cases tb; cases ib) auto
  have "\<not> owns ks (fst y) row" if "srDigest row = sessionDigest ks (activeVersion ks) (raw_encode t)" for row
  proof
    assume "owns ks (fst y) row"
    moreover have "owns ks (raw_encode t) row"
      using keys that by (intro digest_owned [of "activeVersion ks"]) (simp_all add: digests_separate_def)
    ultimately have "fst y = raw_encode t"
      using owner_unique [OF keys y(1), of "raw_encode t" row] ok by (simp add: b)
    then show False
      using y(3) by (simp add: b created_def)
  qed
  then show ?thesis
    using y(2,3) by (auto simp: b sess_Create_def randomRawURL_def Let_def created_def unused_def)
qed

lemma any_step:
  assumes ref: "table_refines ks T db A" and keys: "digests_separate ks T" and ok: "op_ok ks T op"
    and fresh: "\<And>x. x \<in> set (created op) \<Longrightarrow> unused ks db x"
  shows "step_ok ks T op db A"
  using create_step [OF ref keys] statement_step [OF ref keys ok] ok fresh by blast

lemma any_unused:
  assumes "table_refines ks T db A" "digests_separate ks T" "op_ok ks T op" "fst y \<in> T" "unused ks db y"
    and "\<And>x. x \<in> set (created op) \<Longrightarrow> fst y \<noteq> fst x \<and> snd y \<noteq> snd x"
  shows "unused ks (snd (session_exec ks op db)) y"
proof (cases "\<exists>a b c d. op = OpCreate a b c d")
  case True
  then show ?thesis
    using create_unused [OF assms(2) _ assms(4,5)] assms(3,6) by blast
next
  case False
  then show ?thesis
    using unused_from [OF rows_step [OF False assms(2) _ assms(3)] assms(5,4)] assms(1) by (simp add: table_refines_def)
qed

lemma session_run_allowed:
  assumes "digests_separate ks T" "table_refines ks T db A" "\<forall>op \<in> set ops. op_ok ks T op"
    "distinct (map fst (concat (map created ops)))" "distinct (map snd (concat (map created ops)))"
    "\<forall>x \<in> set (concat (map created ops)). unused ks db x"
  shows "session_allowed ops (fst (session_run ks ops db)) A"
  using assms(2-)
proof (induction ops arbitrary: db A)
  case (Cons op ops)
  obtain r db1 where step: "session_exec ks op db = (r, db1)"
    by (cases "session_exec ks op db")
  have ok: "op_ok ks T op" and fresh: "\<And>x. x \<in> set (created op) \<Longrightarrow> unused ks db x"
    using Cons.prems by simp_all
  have apart: "fst ` set (created op) \<inter> fst ` set (concat (map created ops)) = {}" "snd ` set (created op) \<inter> snd ` set (concat (map created ops)) = {}"
    using Cons.prems(3,4) by (simp_all only: list.map concat.simps map_append distinct_append set_map)
  have "unused ks db1 y" if "y \<in> set (concat (map created ops))" for y
  proof -
    have "fst y \<in> T"
      using that Cons.prems(2) by (auto simp: created_def split: sessionOp.splits sum.splits)
    moreover have "fst y \<noteq> fst x \<and> snd y \<noteq> snd x" if "x \<in> set (created op)" for x
      using imageI [OF that, of fst] imageI [OF that, of snd] imageI [OF \<open>y \<in> _\<close>, of fst] imageI [OF \<open>y \<in> _\<close>, of snd] apart
      by (metis disjoint_iff)
    ultimately show ?thesis
      using any_unused [OF Cons.prems(1) assms(1) ok, of y] that Cons.prems(5) by (simp add: step)
  qed
  then have rest: "table_refines ks T db1 A1 \<Longrightarrow> session_allowed ops (fst (session_run ks ops db1)) A1" for A1
    using Cons.prems by (intro Cons.IH) auto
  show ?case
    using any_step [OF Cons.prems(1) assms(1) ok fresh] rest by (auto simp: step_ok_def step)
qed simp


definition sample_keys :: sessionKeySet where
  "sample_keys = \<lparr>keyVersions = [1, 2], activeVersion = 2, accessDigest = (\<lambda>v s. s), sessionDigest = (\<lambda>v s. char_of (nat v) # s)\<rparr>"

definition sample_ops :: "sessionOp list" where
  "sample_ops = [OpCreate (Inr (replicate 32 (CHR ''k''))) (Inr ''session'') 7 nil_error,
     OpAuthenticate [1, 2] (raw_encode (replicate 32 (CHR ''k''))) (90 * second) (\<lambda>v. nil_error) (\<lambda>v. nil_error) nil_error,
     OpRevokeAll (91 * second) nil_error,
     OpAuthenticate [2, 1] (raw_encode (replicate 32 (CHR ''k''))) (92 * second) (\<lambda>v. nil_error) (\<lambda>v. nil_error) nil_error]"


end
