(* ===== verification/Admin_Auth.thy ===== *)
theory Admin_Auth
  imports Login_Limiter Password_Hash Admin_Sessions
begin

text \<open>
  \<open>internal/httpapi/admin/auth.go\<close> over \<open>internal/adminauth/repository.go\<close>: the administrator's row, the
  cached flag that forces a password change, and the handlers with the login limiter and the session table.
  A handler takes what its environment answers: the readings of the clock, the errors of its database
  statements (those of an authentication by key version) and the random bytes, each numbered in the order the
  handler's code reaches them. Whether
  \<open>ValidateOriginWithPolicy\<close> accepts a request, its client address and its decoded body are arguments.
\<close>

record adminRow =
  admUsername :: string
  admHash :: string
  admMustChange :: bool
  admCreatedAt :: time
  admUpdatedAt :: time

record adminState =
  admRow :: "adminRow option"
  admSessions :: sessionTable
  admLimiter :: loginLimiter
  mustChangeLoaded :: bool
  mustChangeValue :: bool
  mustChangeLoadedAt :: time
  mustChangeTTL :: duration

record adminEnv =
  envClock :: "nat \<Rightarrow> time"
  envErr :: "nat \<Rightarrow> goError"
  envTouchErr :: "int \<Rightarrow> goError"
  envReadErr :: "int \<Rightarrow> goError"
  envRandom :: "nat \<Rightarrow> goError + string"
  envKeys :: sessionKeySet
  envOrder :: "int list"
  envDerive :: keyDerivation

definition mustChangeCacheTTL :: duration where "mustChangeCacheTTL = 30 * second"

definition NewAuth :: "adminRow option \<Rightarrow> sessionTable \<Rightarrow> adminState" where
  "NewAuth row sessions =
     \<lparr>admRow = row, admSessions = sessions, admLimiter = NewLoginLimiter, mustChangeLoaded = False, mustChangeValue = False,
      mustChangeLoadedAt = 0, mustChangeTTL = mustChangeCacheTTL\<rparr>"

subsection \<open>The repository\<close>

datatype adminError = PolicyError passwordPolicyError | ErrCurrentPasswordIncorrect | ErrPasswordUnchanged | AdminFailure goError

definition EnsureAdmin :: "keyDerivation \<Rightarrow> goError + string \<Rightarrow> string \<Rightarrow> time \<Rightarrow> goError \<Rightarrow> goError \<Rightarrow> adminRow option \<Rightarrow> adminError option \<times> adminRow option" where
  "EnsureAdmin idKey salt initialPassword now readErr insertErr row =
     (if readErr \<noteq> nil_error then (Some (AdminFailure (Wrapped ''check existing admin'' # readErr)), row)
      else case row of
        Some _ \<Rightarrow> (None, row)
      | None \<Rightarrow>
          (case validateInitialPassword initialPassword of
             Some e \<Rightarrow> (Some (PolicyError e), row)
           | None \<Rightarrow>
               (case HashPassword idKey initialPassword salt of
                  Inl err \<Rightarrow> (Some (AdminFailure (Wrapped ''hash initial admin password'' # err)), row)
                | Inr hash \<Rightarrow>
                    if insertErr \<noteq> nil_error then (Some (AdminFailure (Wrapped ''insert initial admin'' # insertErr)), row)
                    else (None, Some \<lparr>admUsername = defaultAdminUsername, admHash = hash, admMustChange = True,
                            admCreatedAt = formatTime now, admUpdatedAt = formatTime now\<rparr>))))"

definition load_admin :: "goError \<Rightarrow> adminRow option \<Rightarrow> goError + adminRow" where
  "load_admin err row =
     (if err \<noteq> nil_error then Inl err
      else case row of None \<Rightarrow> Inl [OtherError ''sql: no rows in result set''] | Some r \<Rightarrow> Inr r)"

text \<open>A matching password whose hash has other parameters is hashed anew; a failure of that is dropped.\<close>

definition VerifyCredentials ::
  "keyDerivation \<Rightarrow> goError + string \<Rightarrow> string \<Rightarrow> string \<Rightarrow> time \<Rightarrow> goError \<Rightarrow> goError \<Rightarrow> adminRow option \<Rightarrow> (goError + bool) \<times> adminRow option" where
  "VerifyCredentials idKey salt username password now readErr writeErr row =
     (case load_admin readErr row of
        Inl err \<Rightarrow> (Inl (Wrapped ''load admin credentials'' # err), row)
      | Inr stored \<Rightarrow>
          (case VerifyPasswordWithRehash idKey password (admHash stored) of
             Inl err \<Rightarrow> (Inl (Wrapped ''verify admin password'' # err), row)
           | Inr (matched, needsRehash) \<Rightarrow>
               (Inr (username = admUsername stored \<and> matched),
                if matched \<and> needsRehash then
                  (case HashPassword idKey password salt of
                     Inl _ \<Rightarrow> row
                   | Inr upgraded \<Rightarrow> if writeErr \<noteq> nil_error then row else Some (stored\<lparr>admHash := upgraded, admUpdatedAt := formatTime now\<rparr>))
                else row)))"

definition repo_MustChangePassword :: "goError \<Rightarrow> adminRow option \<Rightarrow> goError + bool" where
  "repo_MustChangePassword err row =
     (case load_admin err row of Inl e \<Rightarrow> Inl (Wrapped ''load admin password state'' # e) | Inr r \<Rightarrow> Inr (admMustChange r))"

text \<open>A transaction: on an error neither the row nor the sessions change. \<open>err\<close> answers its begin, read, update,
  revocation and commit.\<close>

definition ChangePassword ::
  "keyDerivation \<Rightarrow> goError + string \<Rightarrow> string \<Rightarrow> string \<Rightarrow> string \<Rightarrow> time \<Rightarrow> (nat \<Rightarrow> goError) \<Rightarrow> adminRow option \<times> sessionTable
    \<Rightarrow> adminError option \<times> adminRow option \<times> sessionTable" where
  "ChangePassword idKey salt currentPassword newPassword currentSessionID now err db =
     (case db of (row, sessions) \<Rightarrow>
        case validateNewPassword newPassword of
          Some e \<Rightarrow> (Some (PolicyError e), db)
        | None \<Rightarrow>
            if err 0 \<noteq> nil_error then (Some (AdminFailure (Wrapped ''begin password change transaction'' # err 0)), db)
            else (case load_admin (err 1) row of
                Inl e \<Rightarrow> (Some (AdminFailure (Wrapped ''load admin password'' # e)), db)
              | Inr stored \<Rightarrow>
                  (case VerifyPassword idKey currentPassword (admHash stored) of
                     Inl e \<Rightarrow> (Some (AdminFailure (Wrapped ''verify current password'' # e)), db)
                   | Inr matched \<Rightarrow>
                       if \<not> matched then (Some ErrCurrentPasswordIncorrect, db)
                       else (case VerifyPassword idKey newPassword (admHash stored) of
                           Inl e \<Rightarrow> (Some (AdminFailure (Wrapped ''compare new password to current'' # e)), db)
                         | Inr reused \<Rightarrow>
                             if reused then (Some ErrPasswordUnchanged, db)
                             else (case HashPassword idKey newPassword salt of
                                 Inl e \<Rightarrow> (Some (AdminFailure (Wrapped ''hash new password'' # e)), db)
                               | Inr newHash \<Rightarrow>
                                   if err 2 \<noteq> nil_error then (Some (AdminFailure (Wrapped ''update admin password'' # err 2)), db)
                                   else (case revokeOtherSessions currentSessionID now (err 3) sessions of
                                       (e, sessions') \<Rightarrow>
                                         if e \<noteq> nil_error then (Some (AdminFailure e), db)
                                         else if err 4 \<noteq> nil_error then (Some (AdminFailure (Wrapped ''commit password change transaction'' # err 4)), db)
                                         else (None, Some (stored\<lparr>admHash := newHash, admMustChange := False, admUpdatedAt := formatTime now\<rparr>), sessions')))))))"

definition ResetPassword ::
  "keyDerivation \<Rightarrow> goError + string \<Rightarrow> string \<Rightarrow> time \<Rightarrow> (nat \<Rightarrow> goError) \<Rightarrow> adminRow option \<times> sessionTable
    \<Rightarrow> adminError option \<times> adminRow option \<times> sessionTable" where
  "ResetPassword idKey salt newPassword now err db =
     (case db of (row, sessions) \<Rightarrow>
        case validateNewPassword newPassword of
          Some e \<Rightarrow> (Some (PolicyError e), db)
        | None \<Rightarrow>
            (case HashPassword idKey newPassword salt of
               Inl e \<Rightarrow> (Some (AdminFailure (Wrapped ''hash new password'' # e)), db)
             | Inr newHash \<Rightarrow>
                 if err 0 \<noteq> nil_error then (Some (AdminFailure (Wrapped ''begin password reset transaction'' # err 0)), db)
                 else (case load_admin (err 1) row of
                     Inl e \<Rightarrow> (Some (AdminFailure (Wrapped ''update admin password during reset'' # e)), db)
                   | Inr stored \<Rightarrow>
                       (case revokeOtherSessions [] now (err 2) sessions of
                          (e, sessions') \<Rightarrow>
                            if e \<noteq> nil_error then (Some (AdminFailure e), db)
                            else if err 3 \<noteq> nil_error then (Some (AdminFailure (Wrapped ''commit password reset transaction'' # err 3)), db)
                            else (None, Some (stored\<lparr>admHash := newHash, admMustChange := False, admUpdatedAt := formatTime now\<rparr>), sessions')))))"

subsection \<open>The forced change\<close>

definition mustChangePassword :: "time \<Rightarrow> time \<Rightarrow> goError \<Rightarrow> adminState \<Rightarrow> (goError + bool) \<times> adminState" where
  "mustChangePassword now later err st =
     (let ttl = (if mustChangeTTL st \<le> 0 then mustChangeCacheTTL else mustChangeTTL st)
      in if mustChangeLoaded st \<and> time_sub now (mustChangeLoadedAt st) < ttl then (Inr (mustChangeValue st), st)
         else case repo_MustChangePassword err (admRow st) of
           Inl e \<Rightarrow> if mustChangeLoaded st then (Inr (mustChangeValue st), st) else (Inl e, st)
         | Inr v \<Rightarrow> (Inr v, st\<lparr>mustChangeValue := v, mustChangeLoaded := True, mustChangeLoadedAt := later\<rparr>))"

definition clearMustChangePassword :: "time \<Rightarrow> adminState \<Rightarrow> adminState" where
  "clearMustChangePassword now st = st\<lparr>mustChangeValue := False, mustChangeLoaded := True, mustChangeLoadedAt := now\<rparr>"

subsection \<open>Handlers\<close>

datatype adminResponse =
    RespRateLimit
  | RespInvalidRequest
  | RespInternalError
  | RespInvalidCredentials
  | RespInvalidSession
  | RespInvalidOrigin
  | RespPasswordChangeRequired
  | RespSession "string option" bool
  | RespNoContent
  | RespNotFound
  | NextHandler "adminSession option"

definition loginLimiterKey :: "string \<Rightarrow> string \<Rightarrow> string" where
  "loginLimiterKey username ip = (if username = [] then ip else username @ [CHR 0x00] @ ip)"

definition requireSession :: "adminEnv \<Rightarrow> string option \<Rightarrow> bool \<Rightarrow> adminState \<Rightarrow> (adminResponse + adminSession) \<times> adminState" where
  "requireSession env cookie requireChanged st =
     (case cookie of
        None \<Rightarrow> (Inl RespInvalidSession, st)
      | Some value \<Rightarrow>
          if value = [] then (Inl RespInvalidSession, st)
          else (case sess_Authenticate (envKeys env) (envOrder env) value (envClock env 0) (envTouchErr env) (envReadErr env) (envErr env 0) (admSessions st) of
              (Inl ErrInvalidSession, sessions) \<Rightarrow> (Inl RespInvalidSession, st\<lparr>admSessions := sessions\<rparr>)
            | (Inl (SessionFailure _), sessions) \<Rightarrow> (Inl RespInternalError, st\<lparr>admSessions := sessions\<rparr>)
            | (Inr session, sessions) \<Rightarrow>
                let st1 = st\<lparr>admSessions := sessions\<rparr>
                in if \<not> requireChanged then (Inr session, st1)
                   else (case mustChangePassword (envClock env 1) (envClock env 2) (envErr env 1) st1 of
                       (Inl _, st2) \<Rightarrow> (Inl RespInternalError, st2)
                     | (Inr True, st2) \<Rightarrow> (Inl RespPasswordChangeRequired, st2)
                     | (Inr False, st2) \<Rightarrow> (Inr session, st2))))"

definition recordLoginFailure :: "string \<Rightarrow> time \<Rightarrow> adminState \<Rightarrow> adminState" where
  "recordLoginFailure ip now st = st\<lparr>admLimiter := snd (RecordFailure ip now (admLimiter st))\<rparr>"

text \<open>The part of a login after the credentials matched, and the part after the limiter let it through.\<close>

definition login_session :: "adminEnv \<Rightarrow> string \<Rightarrow> string \<Rightarrow> adminState \<Rightarrow> adminResponse \<times> adminState" where
  "login_session env ip key st =
     (case sess_Create (envKeys env) (envRandom env 1) (envRandom env 2) (envClock env 2) (envErr env 2) (admSessions st) of
        (Inl _, sessions) \<Rightarrow> (RespInternalError, st\<lparr>admSessions := sessions\<rparr>)
      | (Inr (session, token), sessions) \<Rightarrow>
          (case mustChangePassword (envClock env 3) (envClock env 4) (envErr env 3) (st\<lparr>admSessions := sessions\<rparr>) of
             (Inl _, st1) \<Rightarrow> (RespInternalError, st1\<lparr>admSessions := snd (sess_Revoke (asID session) (envClock env 5) (envErr env 4) (admSessions st1))\<rparr>)
           | (Inr mustChange, st1) \<Rightarrow>
               (RespSession (Some token) mustChange,
                st1\<lparr>admLimiter := RecordSuccess key (envClock env 6) (RecordSuccess ip (envClock env 5) (admLimiter st1))\<rparr>)))"

definition login_credentials :: "adminEnv \<Rightarrow> string \<Rightarrow> string \<Rightarrow> string \<Rightarrow> string \<Rightarrow> adminState \<Rightarrow> adminResponse \<times> adminState" where
  "login_credentials env ip key username password st =
     (case VerifyCredentials (envDerive env) (envRandom env 0) username password (envClock env 1) (envErr env 0) (envErr env 1) (admRow st) of
        (Inl _, row) \<Rightarrow> (RespInternalError, st\<lparr>admRow := row\<rparr>)
      | (Inr matched, row) \<Rightarrow>
          if \<not> matched then (RespInvalidCredentials, recordLoginFailure key (envClock env 2) (st\<lparr>admRow := row\<rparr>))
          else login_session env ip key (st\<lparr>admRow := row\<rparr>))"

definition login :: "adminEnv \<Rightarrow> string \<Rightarrow> goError + string \<times> string \<Rightarrow> adminState \<Rightarrow> adminResponse \<times> adminState" where
  "login env ip body st =
     (case body of
        Inl _ \<Rightarrow>
          (case StartAttempt ip [] (envClock env 0) (admLimiter st) of
             (ok, l) \<Rightarrow> if \<not> ok then (RespRateLimit, st\<lparr>admLimiter := l\<rparr>)
                        else (RespInvalidRequest, recordLoginFailure ip (envClock env 1) (st\<lparr>admLimiter := l\<rparr>)))
      | Inr (username, password) \<Rightarrow>
          (case StartAttempt ip [loginLimiterKey username ip] (envClock env 0) (admLimiter st) of
             (ok, l) \<Rightarrow> if \<not> ok then (RespRateLimit, st\<lparr>admLimiter := l\<rparr>)
                        else login_credentials env ip (loginLimiterKey username ip) username password (st\<lparr>admLimiter := l\<rparr>)))"

definition session_handler :: "adminEnv \<Rightarrow> string option \<Rightarrow> adminState \<Rightarrow> adminResponse \<times> adminState" where
  "session_handler env cookie st =
     (case requireSession env cookie False st of
        (Inl r, st1) \<Rightarrow> (r, st1)
      | (Inr _, st1) \<Rightarrow>
          (case mustChangePassword (envClock env 3) (envClock env 4) (envErr env 3) st1 of
             (Inl _, st2) \<Rightarrow> (RespInternalError, st2)
           | (Inr v, st2) \<Rightarrow> (RespSession None v, st2)))"

definition password_error_response :: "adminError \<Rightarrow> adminResponse" where
  "password_error_response e =
     (case e of
        ErrCurrentPasswordIncorrect \<Rightarrow> RespInvalidCredentials
      | PolicyError _ \<Rightarrow> RespInvalidRequest
      | ErrPasswordUnchanged \<Rightarrow> RespInvalidRequest
      | AdminFailure _ \<Rightarrow> RespInternalError)"

definition change_with_session :: "adminEnv \<Rightarrow> string \<Rightarrow> string \<Rightarrow> adminState \<Rightarrow> adminResponse \<times> adminState" where
  "change_with_session env currentPassword newPassword st =
     (case sess_Create (envKeys env) (envRandom env 1) (envRandom env 2) (envClock env 3) (envErr env 2) (admSessions st) of
        (Inl _, sessions) \<Rightarrow> (RespInternalError, st\<lparr>admSessions := sessions\<rparr>)
      | (Inr (replacement, token), sessions) \<Rightarrow>
          (case ChangePassword (envDerive env) (envRandom env 0) currentPassword newPassword (asID replacement) (envClock env 4) (\<lambda>k. envErr env (k + 3))
                  (admRow st, sessions) of
             (Some e, row, sessions') \<Rightarrow>
               (password_error_response e,
                st\<lparr>admRow := row, admSessions := snd (sess_Revoke (asID replacement) (envClock env 5) (envErr env 8) sessions')\<rparr>)
           | (None, row, sessions') \<Rightarrow>
               (RespSession (Some token) False,
                clearMustChangePassword (envClock env 5) (st\<lparr>admRow := row, admSessions := sessions'\<rparr>))))"

definition changePassword :: "adminEnv \<Rightarrow> string option \<Rightarrow> goError + string \<times> string \<Rightarrow> adminState \<Rightarrow> adminResponse \<times> adminState" where
  "changePassword env cookie body st =
     (case requireSession env cookie False st of
        (Inl r, st1) \<Rightarrow> (r, st1)
      | (Inr _, st1) \<Rightarrow>
          (case body of
             Inl _ \<Rightarrow> (RespInvalidRequest, st1)
           | Inr (currentPassword, newPassword) \<Rightarrow> change_with_session env currentPassword newPassword st1))"

definition logout :: "adminEnv \<Rightarrow> string option \<Rightarrow> adminState \<Rightarrow> adminResponse \<times> adminState" where
  "logout env cookie st =
     (case requireSession env cookie False st of
        (Inl r, st1) \<Rightarrow> (r, st1)
      | (Inr current, st1) \<Rightarrow>
          (case sess_Revoke (asID current) (envClock env 3) (envErr env 2) (admSessions st1) of
             (Some _, sessions) \<Rightarrow> (RespInternalError, st1\<lparr>admSessions := sessions\<rparr>)
           | (None, sessions) \<Rightarrow> (RespNoContent, st1\<lparr>admSessions := sessions\<rparr>)))"

definition revokeAll :: "adminEnv \<Rightarrow> string option \<Rightarrow> adminState \<Rightarrow> adminResponse \<times> adminState" where
  "revokeAll env cookie st =
     (case requireSession env cookie True st of
        (Inl r, st1) \<Rightarrow> (r, st1)
      | (Inr _, st1) \<Rightarrow>
          (case sess_RevokeAll (envClock env 3) (envErr env 2) (admSessions st1) of
             (Some _, sessions) \<Rightarrow> (RespInternalError, st1\<lparr>admSessions := sessions\<rparr>)
           | (None, sessions) \<Rightarrow> (RespNoContent, st1\<lparr>admSessions := sessions\<rparr>)))"

definition RequirePasswordChanged :: "adminEnv \<Rightarrow> adminState \<Rightarrow> adminResponse \<times> adminState" where
  "RequirePasswordChanged env st =
     (case mustChangePassword (envClock env 1) (envClock env 2) (envErr env 1) st of
        (Inl _, st1) \<Rightarrow> (RespInternalError, st1)
      | (Inr True, st1) \<Rightarrow> (RespPasswordChangeRequired, st1)
      | (Inr False, st1) \<Rightarrow> (NextHandler None, st1))"

definition RequireManagement :: "adminEnv \<Rightarrow> bool \<Rightarrow> string option \<Rightarrow> adminState \<Rightarrow> adminResponse \<times> adminState" where
  "RequireManagement env originOk cookie st =
     (if \<not> originOk then (RespInvalidOrigin, st)
      else case requireSession env cookie True st of
        (Inl r, st1) \<Rightarrow> (r, st1)
      | (Inr session, st1) \<Rightarrow> (NextHandler (Some session), st1))"

record adminRequest =
  reqMethod :: string
  reqPath :: string
  reqIP :: string
  reqOriginOk :: bool
  reqCookie :: "string option"
  reqBody :: "goError + string \<times> string"

definition auth_ServeHTTP :: "adminEnv \<Rightarrow> adminRequest \<Rightarrow> adminState \<Rightarrow> adminResponse \<times> adminState" where
  "auth_ServeHTTP env req st =
     (let post = reqMethod req = ''POST''; path = reqPath req
      in if \<not> reqOriginOk req then (RespInvalidOrigin, st)
         else if post \<and> path = ''/admin/api/auth/login'' then login env (reqIP req) (reqBody req) st
         else if reqMethod req = ''GET'' \<and> path = ''/admin/api/auth/session'' then session_handler env (reqCookie req) st
         else if post \<and> path = ''/admin/api/auth/change-password'' then changePassword env (reqCookie req) (reqBody req) st
         else if post \<and> path = ''/admin/api/auth/logout'' then logout env (reqCookie req) st
         else if post \<and> path = ''/admin/api/auth/revoke-all'' then revokeAll env (reqCookie req) st
         else (RespNotFound, st))"

subsection \<open>The cached flag\<close>

definition flag_clear :: "adminState \<Rightarrow> bool" where
  "flag_clear st \<longleftrightarrow> map_option admMustChange (admRow st) = Some False"

definition cache_sound :: "adminState \<Rightarrow> bool" where
  "cache_sound st \<longleftrightarrow> (mustChangeLoaded st \<and> \<not> mustChangeValue st \<longrightarrow> flag_clear st)"

lemma cache_sound_frame [simp]:
  "cache_sound (st\<lparr>admSessions := x\<rparr>) = cache_sound st" "cache_sound (st\<lparr>admLimiter := l\<rparr>) = cache_sound st"
  "flag_clear (st\<lparr>admSessions := x\<rparr>) = flag_clear st" "flag_clear (st\<lparr>admLimiter := l\<rparr>) = flag_clear st"
  by (simp_all add: cache_sound_def flag_clear_def)

lemma cache_sound_row:
  "map_option admMustChange row = map_option admMustChange (admRow st) \<or> map_option admMustChange row = Some False
    \<Longrightarrow> cache_sound st \<Longrightarrow> cache_sound (st\<lparr>admRow := row\<rparr>)"
  by (auto simp: cache_sound_def flag_clear_def)

lemma mustChange_keeps:
  assumes "mustChangePassword now later err st = (r, st')"
  shows "admRow st' = admRow st" "admSessions st' = admSessions st" "admLimiter st' = admLimiter st"
    "cache_sound st \<Longrightarrow> cache_sound st'" "cache_sound st \<Longrightarrow> r = Inr False \<Longrightarrow> flag_clear st"
  using assms
  by (auto simp: mustChangePassword_def repo_MustChangePassword_def load_admin_def Let_def cache_sound_def flag_clear_def
      split: if_splits sum.splits option.splits)

lemma requireSession_keeps:
  assumes "requireSession env cookie changed st = (r, st')"
  shows "admRow st' = admRow st" "admLimiter st' = admLimiter st" "cache_sound st \<Longrightarrow> cache_sound st'"
    "cache_sound st \<Longrightarrow> r = Inr session \<Longrightarrow> changed \<Longrightarrow> flag_clear st"
  using assms mustChange_keeps
  by (fastforce simp: requireSession_def Let_def flag_clear_def split: option.splits if_splits sum.splits prod.splits sessionError.splits bool.splits)+

lemma VerifyCredentials_flag:
  "VerifyCredentials idKey salt u p now e1 e2 row = (r, row') \<Longrightarrow> map_option admMustChange row' = map_option admMustChange row"
  by (auto simp: VerifyCredentials_def load_admin_def split: sum.splits if_splits option.splits)

lemma ChangePassword_flag:
  "ChangePassword idKey salt c n i now err (row, sessions) = (r, row', sessions')
    \<Longrightarrow> (case r of None \<Rightarrow> map_option admMustChange row' = Some False | Some _ \<Rightarrow> row' = row \<and> sessions' = sessions)"
  by (auto simp: ChangePassword_def split: sum.splits if_splits option.splits prod.splits)

lemma ResetPassword_flag:
  "ResetPassword idKey salt n now err (row, sessions) = (r, row', sessions')
    \<Longrightarrow> (case r of None \<Rightarrow> map_option admMustChange row' = Some False | Some _ \<Rightarrow> row' = row \<and> sessions' = sessions)"
  by (auto simp: ResetPassword_def split: sum.splits if_splits option.splits prod.splits)

lemma login_session_keeps: "cache_sound st \<Longrightarrow> cache_sound (snd (login_session env ip key st))"
  using mustChange_keeps(4) by (fastforce simp: login_session_def split: prod.split sum.split)

lemma login_credentials_keeps: "cache_sound st \<Longrightarrow> cache_sound (snd (login_credentials env ip key u p st))"
proof -
  assume sound: "cache_sound st"
  obtain v row where verify: "VerifyCredentials (envDerive env) (envRandom env 0) u p (envClock env 1) (envErr env 0) (envErr env 1) (admRow st) = (v, row)"
    by (cases "VerifyCredentials (envDerive env) (envRandom env 0) u p (envClock env 1) (envErr env 0) (envErr env 1) (admRow st)")
  have "cache_sound (st\<lparr>admRow := row\<rparr>)"
    using VerifyCredentials_flag [OF verify] sound by (intro cache_sound_row) simp_all
  then show ?thesis
    unfolding login_credentials_def verify using login_session_keeps by (simp add: recordLoginFailure_def split: sum.split)
qed

lemma login_keeps: "cache_sound st \<Longrightarrow> cache_sound (snd (login env ip body st))"
  by (simp add: login_def recordLoginFailure_def login_credentials_keeps split: sum.split prod.split)

lemma change_with_session_keeps: "cache_sound st \<Longrightarrow> cache_sound (snd (change_with_session env old new st))"
proof -
  assume sound: "cache_sound st"
  have "cache_sound (st\<lparr>admRow := row\<rparr>)" if "ChangePassword k salt old new i t err (admRow st, x) = (Some e, row, y)" for k salt i t err x e row y
    using ChangePassword_flag [OF that] sound by (intro cache_sound_row) simp_all
  moreover have "cache_sound (clearMustChangePassword t' (st\<lparr>admRow := row, admSessions := y\<rparr>))"
    if "ChangePassword k salt old new i t err (admRow st, x) = (None, row, y)" for k salt i t err x row y t'
    using ChangePassword_flag [OF that] by (simp add: clearMustChangePassword_def cache_sound_def flag_clear_def)
  ultimately show ?thesis
    using sound by (auto simp: change_with_session_def split: prod.split sum.split option.split)
qed

lemma handlers_keep:
  assumes "cache_sound st"
  shows "cache_sound (snd (changePassword env cookie body st))" "cache_sound (snd (session_handler env cookie st))"
    "cache_sound (snd (logout env cookie st))" "cache_sound (snd (revokeAll env cookie st))"
    "cache_sound (snd (RequireManagement env originOk cookie st))" "cache_sound (snd (RequirePasswordChanged env st))"
proof -
  have req: "requireSession env cookie changed st = (r, st1) \<Longrightarrow> cache_sound st1" for changed r st1
    using requireSession_keeps(3) assms by blast
  show "cache_sound (snd (changePassword env cookie body st))"
    by (auto simp: changePassword_def dest: req intro: change_with_session_keeps split: prod.split sum.split)
  show "cache_sound (snd (session_handler env cookie st))"
    by (auto simp: session_handler_def dest: req mustChange_keeps(4) split: prod.split sum.split)
  show "cache_sound (snd (logout env cookie st))" "cache_sound (snd (revokeAll env cookie st))" "cache_sound (snd (RequireManagement env originOk cookie st))"
    using assms by (auto simp: logout_def revokeAll_def RequireManagement_def dest: req split: prod.split sum.split option.split)
  show "cache_sound (snd (RequirePasswordChanged env st))"
    using assms by (auto simp: RequirePasswordChanged_def dest: mustChange_keeps(4) split: prod.split sum.split bool.split)
qed

subsection \<open>Every state of the service\<close>

text \<open>The service starts over any table; requests, the two guards, the sweep of sessions and the offline reset of the
  password come in any order and with any answers of the environment.\<close>

inductive admin_reach :: "adminState \<Rightarrow> bool" where
  reach_start: "admin_reach (NewAuth row sessions)"
| reach_request: "admin_reach st \<Longrightarrow> admin_reach (snd (auth_ServeHTTP env req st))"
| reach_management: "admin_reach st \<Longrightarrow> admin_reach (snd (RequireManagement env originOk cookie st))"
| reach_client: "admin_reach st \<Longrightarrow> admin_reach (snd (RequirePasswordChanged env st))"
| reach_cleanup: "admin_reach st \<Longrightarrow> admin_reach (st\<lparr>admSessions := snd (DeleteExpiredOrRevoked now err (admSessions st))\<rparr>)"
| reach_reset: "admin_reach st \<Longrightarrow> ResetPassword idKey salt new now errs (admRow st, admSessions st) = (r, row, sessions)
    \<Longrightarrow> admin_reach (st\<lparr>admRow := row, admSessions := sessions\<rparr>)"

lemma reach_sound: "admin_reach st \<Longrightarrow> cache_sound st"
proof (induction rule: admin_reach.induct)
  case (reach_start row sessions)
  show ?case by (simp add: cache_sound_def NewAuth_def)
next
  case (reach_request st env req)
  then show ?case
    by (simp add: auth_ServeHTTP_def Let_def handlers_keep login_keeps)
next
  case (reach_reset st idKey salt new now errs r row sessions)
  have "cache_sound (st\<lparr>admRow := row\<rparr>)"
    using ResetPassword_flag [OF reach_reset.hyps(2)] reach_reset.IH by (intro cache_sound_row) (auto split: option.splits)
  then show ?case by simp
qed (simp_all add: handlers_keep)

lemma authenticate_found:
  assumes "sess_Authenticate ks order token now e1 e2 e3 db = (Inr session, db')"
  shows "validSessionToken token \<and> (\<exists>row \<in> set db. row_live now row \<and> (\<exists>v \<in> set order. srDigest row = sessionDigest ks v token)
    \<and> session = \<lparr>asID = srID row, asExpiresAt = srExpires row\<rparr>)"
  using assms query_digests_cases [of "map (\<lambda>v. (v, sessionDigest ks v token)) order" now e1 e2 db]
  by (auto simp: sess_Authenticate_def Let_def split: if_splits prod.splits sum.splits option.splits) blast+

lemma requireSession_found:
  assumes "requireSession env cookie changed st = (Inr session, st')"
  shows "\<exists>token. cookie = Some token \<and> validSessionToken token \<and> (\<exists>row \<in> set (admSessions st). row_live (envClock env 0) row
    \<and> (\<exists>v \<in> set (envOrder env). srDigest row = sessionDigest (envKeys env) v token) \<and> session = \<lparr>asID = srID row, asExpiresAt = srExpires row\<rparr>)"
  using assms
  by (auto simp: requireSession_def Let_def split: option.splits if_splits prod.splits sum.splits sessionError.splits bool.splits dest!: authenticate_found)

lemma requireSession_refuses: "requireSession env cookie changed st = (Inl r, st') \<Longrightarrow> r \<in> {RespInvalidSession, RespInternalError, RespPasswordChangeRequired}"
  by (auto simp: requireSession_def Let_def split: option.splits if_splits prod.splits sum.splits sessionError.splits bool.splits)

text \<open>C35: An administration handler runs only for a request with an accepted origin whose cookie names a session that is
  neither revoked nor expired, and never while the initial password is in force, whatever the cache of that flag holds.\<close>

theorem management_gate:
  assumes "admin_reach st" "RequireManagement env originOk cookie st = (NextHandler (Some session), st')"
  shows "originOk \<and> flag_clear st \<and> (\<exists>token row. cookie = Some token \<and> row \<in> set (admSessions st) \<and> row_live (envClock env 0) row
    \<and> (\<exists>v \<in> set (envOrder env). srDigest row = sessionDigest (envKeys env) v token) \<and> asID session = srID row)"
proof -
  obtain req where req: "requireSession env cookie True st = (Inr session, req)" and ok: originOk
    using assms(2) by (auto simp: RequireManagement_def dest: requireSession_refuses split: if_splits prod.splits sum.splits)
  show ?thesis
    using requireSession_keeps(4) [OF req reach_sound [OF assms(1)] refl] requireSession_found [OF req] ok by (metis adminSession.select_convs(1))
qed

definition sample_token :: string where "sample_token = raw_encode (replicate 32 (CHR ''k''))"

definition sample_env :: adminEnv where
  "sample_env = \<lparr>envClock = (\<lambda>k. 90 * second), envErr = (\<lambda>k. nil_error), envTouchErr = (\<lambda>v. nil_error), envReadErr = (\<lambda>v. nil_error),
     envRandom = (\<lambda>k. Inr (if k = 0 then ''0123456789abcdef'' else replicate 32 (CHR ''m''))), envKeys = sample_keys, envOrder = [1, 2],
     envDerive = toy_derivation\<rparr>"

definition sample_admin :: "bool \<Rightarrow> adminState" where
  "sample_admin must = NewAuth (Some \<lparr>admUsername = ''admin'', admHash = phc_text (phc_canonical 65536 3 2) ''0123456789abcdef'' (replicate 32 (CHR ''a'')),
       admMustChange = must, admCreatedAt = 0, admUpdatedAt = 0\<rparr>)
     [\<lparr>srID = ''one'', srDigest = sessionDigest sample_keys 2 sample_token, srKeyVersion = 2, srExpires = 100 * second, srCreated = 0, srLastSeen = 80 * second, srRevoked = None\<rparr>]"

lemma sample_token_valid: "validSessionToken sample_token" "sample_token \<noteq> []"
proof -
  show "validSessionToken sample_token"
    unfolding sample_token_def by (rule raw_encode_valid) (simp add: sessionTokenBytes_def)
  then show "sample_token \<noteq> []"
    by (auto simp: validSessionToken_def sessionTokenBytes_def)
qed

lemma sample_authenticates:
  "sess_Authenticate sample_keys [1, 2] sample_token (90 * second) (\<lambda>v. nil_error) (\<lambda>v. nil_error) nil_error (admSessions (sample_admin must))
     = (Inr \<lparr>asID = ''one'', asExpiresAt = 100 * second\<rparr>, admSessions (sample_admin must))"
  by (simp add: sess_Authenticate_def sample_token_valid sample_keys_def sample_admin_def NewAuth_def touchable_def row_live_def formatTime_def sessionTouchInterval_def)

theorem management_gate_witness:
  "\<exists>st'. RequireManagement sample_env True (Some sample_token) (sample_admin False) = (NextHandler (Some \<lparr>asID = ''one'', asExpiresAt = 100 * second\<rparr>), st')
    \<and> flag_clear (sample_admin False)"
proof -
  have "fst (RequireManagement sample_env True (Some sample_token) (sample_admin False)) = NextHandler (Some \<lparr>asID = ''one'', asExpiresAt = 100 * second\<rparr>)"
    using sample_authenticates [of False]
    by (simp add: RequireManagement_def requireSession_def sample_token_valid sample_env_def mustChangePassword_def repo_MustChangePassword_def load_admin_def
        sample_admin_def NewAuth_def)
  then obtain st' where gate: "RequireManagement sample_env True (Some sample_token) (sample_admin False) = (NextHandler (Some \<lparr>asID = ''one'', asExpiresAt = 100 * second\<rparr>), st')"
    by (metis prod.collapse)
  moreover have "admin_reach (sample_admin False)"
    unfolding sample_admin_def by (rule reach_start)
  ultimately show ?thesis
    using management_gate [OF _ gate] by blast
qed

text \<open>Five attempts from an address within a minute refuse every further login from it, whatever account it names and
  however right its password is. The comment of \<open>loginLimiterKey\<close> says that a misbehaving user behind a shared proxy
  cannot lock out the others.\<close>

theorem login_address_locked:
  assumes "login_inv (admLimiter st)" "\<forall>t \<in> set (client_log ip (admLimiter st)). t \<le> envClock env 0"
    and "5 \<le> length (filter (\<lambda>t. envClock env 0 - minute < t) (client_log ip (admLimiter st)))"
  shows "fst (login env ip body st) = RespRateLimit \<and> admRow (snd (login env ip body st)) = admRow st \<and> admSessions (snd (login env ip body st)) = admSessions st"
proof -
  let ?now = "envClock env 0"
  note clean = cleanInactive_log [OF assms(1,2)]
  have refused: "\<exists>l. StartAttempt ip keys ?now (admLimiter st) = (False, l)" for keys
  proof -
    obtain ok l where start: "startAttempt ip ?now (cleanInactive ?now (admLimiter st)) = (ok, l)"
      by (cases "startAttempt ip ?now (cleanInactive ?now (admLimiter st))")
    have "\<not> ok"
      using startAttempt_ok(2) [OF cleanInactive_inv [OF assms(1)] conjunct2 [OF clean] start] clean assms(3)
      by (simp add: loginWindow_def loginAttemptLimit_def)
    then show ?thesis
      using start by (simp add: StartAttempt_def)
  qed
  show ?thesis
  proof (cases body)
    case (Inl e)
    then show ?thesis using refused [of "[]"] by (auto simp: login_def)
  next
    case (Inr up)
    then show ?thesis using refused [of "[loginLimiterKey (fst up) ip]"] by (cases up) (auto simp: login_def)
  qed
qed

theorem login_address_locked_witness:
  "fst (login sample_env ''10.0.0.1'' (Inr (''admin'', ''correct horse''))
     (sample_admin False\<lparr>admLimiter := \<lparr>loginStates = [(''10.0.0.1'', \<lparr>attempts = map (\<lambda>k. 80 * second + k) [1, 2, 3, 4, 5], failures = 5, lastUsed = 80 * second + 5\<rparr>)],
        expirationOrder = [''10.0.0.1'']\<rparr>\<rparr>)) = RespRateLimit"
  by (rule login_address_locked [THEN conjunct1]) (simp_all add: login_inv_def maxLoginStates_def client_log_def sample_env_def)

subsection \<open>Changing the password\<close>

definition open_rows :: "sessionTable \<Rightarrow> sessionRow list" where
  "open_rows db = filter (\<lambda>row. srRevoked row = None) db"

lemma open_rows_map:
  "(\<And>row. srRevoked (f row) = srRevoked row \<and> srID (f row) = srID row) \<Longrightarrow> map srID (open_rows (map f db)) = map srID (open_rows db)"
  by (induction db) (simp_all add: open_rows_def)

lemma query_digests_open:
  "query_digests ds now e1 e2 db = (r, db') \<Longrightarrow> map srID (open_rows db') = map srID (open_rows db)"
  using query_digests_cases [of ds now e1 e2 db] by (auto simp: touch_rows_def intro!: open_rows_map)

lemma authenticate_open: "map srID (open_rows (snd (sess_Authenticate ks order token now e1 e2 e3 db))) = map srID (open_rows db)"
proof -
  obtain r db1 where q: "query_digests (map (\<lambda>v. (v, sessionDigest ks v token)) order) now e1 e2 db = (r, db1)"
    by (cases "query_digests (map (\<lambda>v. (v, sessionDigest ks v token)) order) now e1 e2 db")
  have "map srID (open_rows (migrate_digest old new v err x)) = map srID (open_rows x)" for old new v err x
    unfolding migrate_digest_def by (auto intro!: open_rows_map)
  then show ?thesis
    using query_digests_open [OF q] by (auto simp: sess_Authenticate_def q Let_def split: sum.splits option.splits)
qed

lemma requireSession_open: "requireSession env cookie changed st = (r, st') \<Longrightarrow> map srID (open_rows (admSessions st')) = map srID (open_rows (admSessions st))"
  using authenticate_open [of "envKeys env" "envOrder env" _ "envClock env 0" "envTouchErr env" "envReadErr env" "envErr env 0" "admSessions st"]
  by (auto simp: requireSession_def Let_def mustChange_keeps split: option.splits if_splits prod.splits sum.splits sessionError.splits bool.splits)
    (metis snd_conv mustChange_keeps(2) adminState.select_convs adminState.simps)+

lemma sess_Create_cases:
  assumes "sess_Create ks tb ib now err db = (r, db')"
  shows "(\<exists>e. r = Inl e \<and> db' = db) \<or> (\<exists>t i row. tb = Inr t \<and> ib = Inr i \<and> r = Inr (\<lparr>asID = raw_encode i, asExpiresAt = srExpires row\<rparr>, raw_encode t)
     \<and> db' = db @ [row] \<and> srID row = raw_encode i \<and> srRevoked row = None \<and> srDigest row = sessionDigest ks (activeVersion ks) (raw_encode t)
     \<and> srExpires row = formatTime now + sessionLifetime \<and> (\<forall>old \<in> set db. srID old \<noteq> raw_encode i))"
  using assms
  by (auto simp: sess_Create_def randomRawURL_def Let_def list_ex_iff split: sum.splits if_splits)

lemma revoke_open: "open_rows (revoke_rows P now db) = filter (\<lambda>row. \<not> P row) (open_rows db)"
  by (induction db) (auto simp: revoke_rows_def open_rows_def)

lemma raw_encode_empty: "raw_encode s = [] \<longleftrightarrow> s = []"
  using length_raw_encode [of s] by (cases s) auto

lemma raw_encode_inj: "raw_encode s = raw_encode t \<longleftrightarrow> s = t"
  by (metis option.inject raw_decode_encode)

lemma ChangePassword_success:
  assumes "ChangePassword idKey salt old new i now err (row, sessions) = (None, row', sessions')"
  shows "\<exists>stored hash. row = Some stored \<and> validateNewPassword new = None \<and> VerifyPassword idKey old (admHash stored) = Inr True
    \<and> VerifyPassword idKey new (admHash stored) = Inr False \<and> HashPassword idKey new salt = Inr hash
    \<and> row' = Some (stored\<lparr>admHash := hash, admMustChange := False, admUpdatedAt := formatTime now\<rparr>)
    \<and> open_rows sessions' = filter (\<lambda>r. i \<noteq> [] \<and> srID r = i) (open_rows sessions)"
  using assms
  by (auto simp: ChangePassword_def load_admin_def revokeOtherSessions_def revoke_open split: sum.splits if_splits option.splits prod.splits)

text \<open>C36: When a password change succeeds, the old password was given and the new one is another that meets the policy; the
  stored hash is that of the new password, the forced change is over, and of all sessions only the one just
  handed out is still open. When it is refused, the row is untouched, no token is handed out, and exactly the sessions open before are
  still open; if the database also fails to revoke the replacement session that was prepared, that one stays open beside them. It is
  assumed that the identifier the generator draws for the replacement is not empty.\<close>

theorem password_change_isolates:
  assumes "changePassword env cookie (Inr (old, new)) st = (resp, st')" "envRandom env 2 \<noteq> Inr []"
  shows "(\<exists>token stored r row. resp = RespSession (Some token) False \<and> admRow st = Some stored \<and> admRow st' = Some r
      \<and> VerifyPassword (envDerive env) old (admHash stored) = Inr True \<and> VerifyPassword (envDerive env) new (admHash stored) = Inr False
      \<and> validateNewPassword new = None \<and> HashPassword (envDerive env) new (envRandom env 0) = Inr (admHash r) \<and> \<not> admMustChange r
      \<and> open_rows (admSessions st') = [row] \<and> srDigest row = sessionDigest (envKeys env) (activeVersion (envKeys env)) token)
    \<or> (\<forall>token v. resp \<noteq> RespSession token v) \<and> admRow st' = admRow st
      \<and> (map srID (open_rows (admSessions st')) = map srID (open_rows (admSessions st))
        \<or> envErr env 8 \<noteq> nil_error \<and> (\<exists>i. map srID (open_rows (admSessions st')) = map srID (open_rows (admSessions st)) @ [i]))"
proof -
  obtain r st1 where req: "requireSession env cookie False st = (r, st1)"
    by (cases "requireSession env cookie False st")
  note keeps = requireSession_keeps(1) [OF req] requireSession_open [OF req]
  show ?thesis
  proof (cases r)
    case (Inl x)
    then show ?thesis
      using assms(1) keeps requireSession_refuses [OF req [unfolded Inl]] by (auto simp: changePassword_def req)
  next
    case (Inr s)
    obtain c sessions where create: "sess_Create (envKeys env) (envRandom env 1) (envRandom env 2) (envClock env 3) (envErr env 2) (admSessions st1) = (c, sessions)"
      by (cases "sess_Create (envKeys env) (envRandom env 1) (envRandom env 2) (envClock env 3) (envErr env 2) (admSessions st1)")
    have run: "change_with_session env old new st1 = (resp, st')"
      using assms(1) by (simp add: changePassword_def req Inr)
    show ?thesis
      using sess_Create_cases [OF create]
    proof (elim disjE exE conjE)
      fix e assume "c = Inl e" "sessions = admSessions st1"
      then show ?thesis
        using run create keeps unfolding change_with_session_def create by auto
    next
      fix t i row
      assume random: "envRandom env 2 = Inr i" and c: "c = Inr (\<lparr>asID = raw_encode i, asExpiresAt = srExpires row\<rparr>, raw_encode t)" and db: "sessions = admSessions st1 @ [row]"
        and row: "srID row = raw_encode i" "srRevoked row = None" "srDigest row = sessionDigest (envKeys env) (activeVersion (envKeys env)) (raw_encode t)"
          "\<forall>old \<in> set (admSessions st1). srID old \<noteq> raw_encode i"
      obtain e row' sessions' where change: "ChangePassword (envDerive env) (envRandom env 0) old new (raw_encode i) (envClock env 4) (\<lambda>k. envErr env (k + 3))
          (admRow st1, sessions) = (e, row', sessions')"
        by (cases "ChangePassword (envDerive env) (envRandom env 0) old new (raw_encode i) (envClock env 4) (\<lambda>k. envErr env (k + 3)) (admRow st1, sessions)")
      have only: "filter (\<lambda>r. srID r = raw_encode i) (open_rows sessions) = [row]" "filter (\<lambda>r. srID r \<noteq> raw_encode i) (open_rows sessions) = open_rows (admSessions st1)"
        using row by (auto simp: db open_rows_def filter_empty_conv intro: filter_cong)
      have opened: "open_rows sessions = open_rows (admSessions st1) @ [row]" using row(2) by (simp add: db open_rows_def)
      show ?thesis
      proof (cases e)
        case None
        have st': "resp = RespSession (Some (raw_encode t)) False" "admRow st' = row'" "admSessions st' = sessions'"
          using run unfolding change_with_session_def create c by (auto simp: change None clearMustChangePassword_def)
        have "raw_encode i \<noteq> []"
          using assms(2) random by (simp add: raw_encode_empty)
        then have "open_rows sessions' = [row]"
          using ChangePassword_success [OF change [unfolded None]] only(1) by auto
        then show ?thesis
          using ChangePassword_success [OF change [unfolded None]] st' row(3) keeps(1) by auto
      next
        case (Some err)
        have "row' = admRow st1" "sessions' = sessions"
          using ChangePassword_flag [OF change] Some by simp_all
        then have "resp = password_error_response err" "admRow st' = admRow st1"
          "open_rows (admSessions st') = (if envErr env 8 = nil_error then open_rows (admSessions st1) else open_rows (admSessions st1) @ [row])"
          using run only(2) opened unfolding change_with_session_def create c by (auto simp: change Some sess_Revoke_def revoke_open)
        then show ?thesis
          using keeps by (auto simp: password_error_response_def split: adminError.splits)
      qed
    qed
  qed
qed

text \<open>The witness: the forced change of the initial password.\<close>

theorem password_change_isolates_witness:
  "\<exists>st' token row. changePassword sample_env (Some sample_token) (Inr (''correct horse'', ''battery staple'')) (sample_admin True) = (RespSession (Some token) False, st')
    \<and> flag_clear st' \<and> open_rows (admSessions st') = [row]"
proof -
  let ?new = "''battery staple''"
  obtain resp st' where run: "changePassword sample_env (Some sample_token) (Inr (''correct horse'', ?new)) (sample_admin True) = (resp, st')"
    by (cases "changePassword sample_env (Some sample_token) (Inr (''correct horse'', ?new)) (sample_admin True)")
  have session: "requireSession sample_env (Some sample_token) False (sample_admin True) = (Inr \<lparr>asID = ''one'', asExpiresAt = 100 * second\<rparr>, sample_admin True)"
    using sample_authenticates [of True] by (simp add: requireSession_def sample_token_valid sample_env_def)
  have fresh: "raw_encode (replicate 32 (CHR ''m'')) \<noteq> ''one''"
    using length_raw_encode [of "replicate 32 (CHR ''m'')"] by auto
  have check: "VerifyPassword toy_derivation p (phc_text (phc_canonical 65536 3 2) ''0123456789abcdef'' (replicate 32 (CHR ''a''))) = Inr (p = ''correct horse'')" for p
    using parse_phc_text [of "phc_canonical 65536 3 2" 65536 3 2 "''0123456789abcdef''" "replicate 32 (CHR ''a'')"]
    by (simp add: VerifyPassword_def VerifyPasswordWithRehash_def argon2SaltLength_def argon2KeyLength_def toy_derivation_def replicate_eq_replicate)
  have policy: "validateNewPassword ?new = None"
    by code_simp
  have "fst (change_with_session sample_env ''correct horse'' ?new (sample_admin True)) = RespSession (Some (raw_encode (replicate 32 (CHR ''m'')))) False"
    using fresh by (simp add: change_with_session_def sess_Create_def randomRawURL_def sample_env_def Let_def ChangePassword_def policy
        load_admin_def check HashPassword_def hash_text revokeOtherSessions_def sample_admin_def NewAuth_def sample_token_def sample_keys_def
        raw_encode_empty raw_encode_inj replicate_eq_replicate)
  then have "resp = RespSession (Some (raw_encode (replicate 32 (CHR ''m'')))) False"
    using run by (simp add: changePassword_def session)
  then show ?thesis
    using password_change_isolates [OF run] run by (auto simp: sample_env_def flag_clear_def)
qed

text \<open>What a login answers, when the database and the generator answer and the stored hash is well formed: refused by the
  limiter, or a session exactly when the name and the password are right; the session table grows by the new session or not at all.\<close>

theorem login_outcome:
  assumes "admRow st = Some stored" "VerifyPasswordWithRehash (envDerive env) password (admHash stored) = Inr (matched, rehash)"
    and "\<forall>k. envErr env k = nil_error" "envRandom env 1 = Inr t" "envRandom env 2 = Inr i"
    and "\<forall>row \<in> set (admSessions st). srID row \<noteq> raw_encode i \<and> srDigest row \<noteq> sessionDigest (envKeys env) (activeVersion (envKeys env)) (raw_encode t)"
  shows "case login env ip (Inr (username, password)) st of (resp, st') \<Rightarrow>
    if \<not> fst (StartAttempt ip [loginLimiterKey username ip] (envClock env 0) (admLimiter st)) then resp = RespRateLimit \<and> admSessions st' = admSessions st
    else if username = admUsername stored \<and> matched then
      (\<exists>must row. resp = RespSession (Some (raw_encode t)) must \<and> admSessions st' = admSessions st @ [row] \<and> srID row = raw_encode i \<and> srRevoked row = None
        \<and> srExpires row = formatTime (envClock env 2) + sessionLifetime)
    else resp = RespInvalidCredentials \<and> admSessions st' = admSessions st"
proof -
  obtain ok l where start: "StartAttempt ip [loginLimiterKey username ip] (envClock env 0) (admLimiter st) = (ok, l)"
    by (cases "StartAttempt ip [loginLimiterKey username ip] (envClock env 0) (admLimiter st)")
  obtain row where verify: "VerifyCredentials (envDerive env) (envRandom env 0) username password (envClock env 1) (envErr env 0) (envErr env 1) (admRow st)
      = (Inr (username = admUsername stored \<and> matched), Some row)"
    using assms(1-3) by (cases "HashPassword (envDerive env) password (envRandom env 0)"; cases "matched \<and> rehash")
      (simp_all add: VerifyCredentials_def load_admin_def)
  let ?st = "st\<lparr>admLimiter := l, admRow := Some row\<rparr>"
  obtain new where create: "sess_Create (envKeys env) (envRandom env 1) (envRandom env 2) (envClock env 2) (envErr env 2) (admSessions st)
      = (Inr (\<lparr>asID = raw_encode i, asExpiresAt = formatTime (envClock env 2) + sessionLifetime\<rparr>, raw_encode t), admSessions st @ [new])"
      "srID new = raw_encode i" "srRevoked new = None" "srExpires new = formatTime (envClock env 2) + sessionLifetime"
    using assms(3-6) by (auto simp: sess_Create_def randomRawURL_def Let_def list_ex_iff)
  obtain m st1 where must: "mustChangePassword (envClock env 3) (envClock env 4) (envErr env 3) (?st\<lparr>admSessions := admSessions st @ [new]\<rparr>) = (m, st1)"
    by (cases "mustChangePassword (envClock env 3) (envClock env 4) (envErr env 3) (?st\<lparr>admSessions := admSessions st @ [new]\<rparr>)")
  have m: "\<exists>v. m = Inr v"
    using must assms(3) by (auto simp: mustChangePassword_def repo_MustChangePassword_def load_admin_def Let_def split: if_splits)
  have opened: "\<exists>v. fst (login_session env ip key ?st) = RespSession (Some (raw_encode t)) v \<and> admSessions (snd (login_session env ip key ?st)) = admSessions st @ [new]" for key
    using create(1) must m mustChange_keeps(2) [OF must] unfolding login_session_def by auto
  let ?key = "loginLimiterKey username ip"
  have "login env ip (Inr (username, password)) st = (if \<not> ok then (RespRateLimit, st\<lparr>admLimiter := l\<rparr>)
      else if \<not> (username = admUsername stored \<and> matched) then (RespInvalidCredentials, recordLoginFailure ?key (envClock env 2) ?st)
      else login_session env ip ?key ?st)"
    by (simp add: login_def start login_credentials_def verify [unfolded One_nat_def])
  then show ?thesis
    using opened [of ?key] create(2-4) by (auto simp: start recordLoginFailure_def case_prod_beta)
qed

theorem login_outcome_witness:
  "\<exists>must. fst (login sample_env ''10.0.0.1'' (Inr (''admin'', ''correct horse'')) (sample_admin True)) = RespSession (Some (raw_encode (replicate 32 (CHR ''m'')))) must"
proof -
  let ?st = "sample_admin True"
  let ?stored = "the (admRow ?st)"
  have stored: "admRow ?st = Some ?stored" "admUsername ?stored = ''admin''"
    by (simp_all add: sample_admin_def NewAuth_def)
  have check: "VerifyPasswordWithRehash (envDerive sample_env) ''correct horse'' (admHash ?stored) = Inr (True, False)"
    using parse_phc_text [of "phc_canonical 65536 3 2" 65536 3 2 "''0123456789abcdef''" "replicate 32 (CHR ''a'')"]
    by (simp add: VerifyPasswordWithRehash_def argon2SaltLength_def argon2KeyLength_def toy_derivation_def sample_admin_def NewAuth_def sample_env_def
        currentArgon2Params_def argon2Memory_def argon2Iterations_def argon2Parallelism_def)
  have env: "\<forall>k. envErr sample_env k = nil_error" "envRandom sample_env 1 = Inr (replicate 32 (CHR ''m''))" "envRandom sample_env 2 = Inr (replicate 32 (CHR ''m''))"
    by (simp_all add: sample_env_def)
  have "raw_encode (replicate 32 (CHR ''m'')) \<noteq> ''one''"
    using length_raw_encode [of "replicate 32 (CHR ''m'')"] by auto
  then have fresh: "\<forall>row \<in> set (admSessions ?st). srID row \<noteq> raw_encode (replicate 32 (CHR ''m''))
      \<and> srDigest row \<noteq> sessionDigest (envKeys sample_env) (activeVersion (envKeys sample_env)) (raw_encode (replicate 32 (CHR ''m'')))"
    by (auto simp: sample_env_def sample_admin_def NewAuth_def sample_keys_def sample_token_def raw_encode_inj replicate_eq_replicate)
  have "fst (StartAttempt ''10.0.0.1'' [loginLimiterKey ''admin'' ''10.0.0.1''] (90 * second) NewLoginLimiter)"
    by code_simp
  then have admitted: "fst (StartAttempt ''10.0.0.1'' [loginLimiterKey ''admin'' ''10.0.0.1''] (envClock sample_env 0) (admLimiter ?st))"
    by (simp add: sample_env_def sample_admin_def NewAuth_def)
  show ?thesis
    using login_outcome [OF stored(1) check env fresh, of "''10.0.0.1''" "''admin''"] admitted stored(2) by (auto simp: case_prod_beta)
qed

end
