(* ===== verification/Health_Store.thy ===== *)
theory Health_Store
  imports Go_Sort Fault "HOL-Library.Char_ord" "HOL-Library.List_Lexorder"
begin

text \<open>
  \<open>internal/modelhealth/model.go\<close> and \<open>repository.go\<close>: the tables of model probes, their settings, and what is
  computed from the events of a window. A timestamp is stored as the text of its RFC 3339 format with
  nanoseconds, and the statements compare these texts; \<open>stored_key\<close> is that text with its fixed-width part
  (up to the second, years 1 to 9999) replaced by the second it spells. Parsing gives the time back.
\<close>

subsection \<open>Values\<close>

datatype healthStatus = StatusHealthy | StatusDegraded | StatusUnavailable | StatusUnchecked | StatusStale | StatusUnconfigured

datatype probeOutcome = OutcomeSuccess | OutcomeFailure | OutcomeTimeout | OutcomeSkipped | OutcomeCanceled | OutcomeMixed | OutcomeEmpty

definition DefaultIntervalSeconds :: int where "DefaultIntervalSeconds = 60"
definition MinIntervalSeconds :: int where "MinIntervalSeconds = 10"
definition MaxIntervalSeconds :: int where "MaxIntervalSeconds = 3600"
definition DefaultConcurrency :: int where "DefaultConcurrency = 2"
definition MinConcurrency :: int where "MinConcurrency = 1"
definition MaxConcurrency :: int where "MaxConcurrency = 8"

definition ErrModelDeleted :: errNode where "ErrModelDeleted = OtherError ''model health model was deleted''"
definition ErrInvalidSettings :: errNode where "ErrInvalidSettings = OtherError ''invalid model health settings''"

record healthSettings =
  hsEnabled :: bool
  hsIntervalSeconds :: int
  hsConcurrency :: int
  hsUpdatedAt :: time

record settingsPatch =
  patchEnabled :: "bool option"
  patchIntervalSeconds :: "int option"
  patchConcurrency :: "int option"

definition DefaultSettings :: healthSettings where
  "DefaultSettings = \<lparr>hsEnabled = False, hsIntervalSeconds = DefaultIntervalSeconds, hsConcurrency = DefaultConcurrency, hsUpdatedAt = 0\<rparr>"

definition ValidateSettings :: "healthSettings \<Rightarrow> goError" where
  "ValidateSettings s =
     (if hsIntervalSeconds s < MinIntervalSeconds \<or> hsIntervalSeconds s > MaxIntervalSeconds
      then [Wrapped ''interval_seconds must be between 10 and 3600'', ErrInvalidSettings]
      else if hsConcurrency s < MinConcurrency \<or> hsConcurrency s > MaxConcurrency
      then [Wrapped ''concurrency must be between 1 and 8'', ErrInvalidSettings]
      else nil_error)"

record probeEvent =
  peID :: int
  peModelID :: model_id
  peOutcome :: probeOutcome
  peDurationMS :: int
  peErrorCode :: string
  peCreatedAt :: time

record latestState =
  lsOutcome :: probeOutcome
  lsDurationMS :: int
  lsErrorCode :: string
  lsLastProbeAt :: time
  lsConsecutiveFailures :: int

record windowStats =
  wsProbeCount :: int
  wsSuccessCount :: int
  wsFailureCount :: int
  wsTimeoutCount :: int

record bucket =
  bkStart :: time
  bkEnd :: time
  bkOutcome :: probeOutcome
  bkProbeCount :: int
  bkSuccessCount :: int
  bkFailureCount :: int
  bkTimeoutCount :: int
  bkAverageMS :: rat

definition ClassifyStatus :: "latestState option \<Rightarrow> windowStats \<Rightarrow> time \<Rightarrow> duration \<Rightarrow> healthStatus" where
  "ClassifyStatus latest stats now interval =
     (case latest of
        None \<Rightarrow> StatusUnchecked
      | Some l \<Rightarrow>
          let interval = (if interval \<le> 0 then DefaultIntervalSeconds * second else interval)
          in if lsLastProbeAt l = 0 \<or> wsProbeCount stats = 0 then StatusUnchecked
             else if lsLastProbeAt l + 2 * interval < now then StatusStale
             else if lsOutcome l = OutcomeSkipped then
               (if lsErrorCode l = ''keys_cooling'' then StatusUnavailable else StatusUnconfigured)
             else if lsConsecutiveFailures l \<ge> 3 \<or> wsSuccessCount stats = 0 then StatusUnavailable
             else if wsFailureCount stats > 0 \<or> wsTimeoutCount stats > 0 then StatusDegraded
             else StatusHealthy)"

subsection \<open>Buckets\<close>

definition bucketOutcome :: "bucket \<Rightarrow> probeOutcome" where
  "bucketOutcome b =
     (if bkProbeCount b = 0 then OutcomeEmpty
      else if bkSuccessCount b = bkProbeCount b then OutcomeSuccess
      else if bkSuccessCount b = 0 \<and> bkTimeoutCount b = bkProbeCount b then OutcomeTimeout
      else if bkSuccessCount b = 0 \<and> bkFailureCount b = bkProbeCount b then OutcomeFailure
      else OutcomeMixed)"

definition add_to_bucket :: "probeEvent \<Rightarrow> bucket \<Rightarrow> bucket" where
  "add_to_bucket e b =
     (let b1 = b\<lparr>bkProbeCount := bkProbeCount b + 1, bkAverageMS := bkAverageMS b + of_int (peDurationMS e)\<rparr>
      in case peOutcome e of
           OutcomeSuccess \<Rightarrow> b1\<lparr>bkSuccessCount := bkSuccessCount b + 1\<rparr>
         | OutcomeTimeout \<Rightarrow> b1\<lparr>bkTimeoutCount := bkTimeoutCount b + 1\<rparr>
         | OutcomeFailure \<Rightarrow> b1\<lparr>bkFailureCount := bkFailureCount b + 1\<rparr>
         | _ \<Rightarrow> b1)"

text \<open>\<open>None\<close> is the panic of the division by a step of zero.\<close>

fun fill_buckets :: "time \<Rightarrow> time \<Rightarrow> duration \<Rightarrow> probeEvent list \<Rightarrow> bucket list \<Rightarrow> bucket list option" where
  "fill_buckets start stop step [] bs = Some bs"
| "fill_buckets start stop step (e # es) bs =
     (if peCreatedAt e < start \<or> \<not> peCreatedAt e < stop then fill_buckets start stop step es bs
      else if step = 0 then None
      else let index = time_sub (peCreatedAt e) start div step
           in if index < 0 \<or> index \<ge> int (length bs) then fill_buckets start stop step es bs
              else fill_buckets start stop step es (bs[nat index := add_to_bucket e (bs ! nat index)]))"

definition finish_bucket :: "bucket \<Rightarrow> bucket" where
  "finish_bucket b =
     (if bkProbeCount b = 0 then b
      else b\<lparr>bkAverageMS := bkAverageMS b / of_int (bkProbeCount b), bkOutcome := bucketOutcome b\<rparr>)"

definition empty_bucket :: "time \<Rightarrow> duration \<Rightarrow> nat \<Rightarrow> bucket" where
  "empty_bucket start step index =
     \<lparr>bkStart = start + int index * step, bkEnd = start + int index * step + step, bkOutcome = OutcomeEmpty, bkProbeCount = 0,
      bkSuccessCount = 0, bkFailureCount = 0, bkTimeoutCount = 0, bkAverageMS = 0\<rparr>"

definition BuildBuckets :: "time \<Rightarrow> time \<Rightarrow> int \<Rightarrow> probeEvent list \<Rightarrow> bucket list option" where
  "BuildBuckets start stop n events =
     (if n \<le> 0 \<or> \<not> stop > start then Some []
      else let step = time_sub stop start div n
           in map_option (map finish_bucket) (fill_buckets start stop step events (map (empty_bucket start step) [0..<nat n])))"

definition ClassifyProbeError :: "goError \<Rightarrow> probeOutcome" where
  "ClassifyProbeError err =
     (if err = nil_error then OutcomeSuccess
      else if errors_is err Canceled then OutcomeCanceled
      else if errors_is err DeadlineExceeded then OutcomeTimeout
      else if errors_as_net err = Some True then OutcomeTimeout
      else OutcomeFailure)"

definition SafeErrorCode :: "goError \<Rightarrow> string" where
  "SafeErrorCode err =
     (if err = nil_error then []
      else if errors_is err Canceled then ''canceled''
      else if errors_is err DeadlineExceeded then ''timeout''
      else case errors_as_net err of
        Some True \<Rightarrow> ''timeout''
      | Some False \<Rightarrow> ''network_error''
      | None \<Rightarrow> ''probe_failed'')"

subsection \<open>The order of stored timestamps\<close>

text \<open>What follows the seconds: nothing or the fraction without trailing zeros, then \<open>Z\<close>.\<close>

definition fraction_digits :: "nat \<Rightarrow> string" where
  "fraction_digits n = map (\<lambda>k. char_of (48 + n div 10 ^ (8 - k) mod 10)) [0..<9]"

definition fraction_text :: "nat \<Rightarrow> string" where
  "fraction_text n =
     (if n = 0 then ''Z'' else ''.'' @ rev (dropWhile (\<lambda>c. c = CHR ''0'') (rev (fraction_digits n))) @ ''Z'')"

definition stored_key :: "time \<Rightarrow> int \<times> string" where
  "stored_key t = (t div second, fraction_text (nat (t mod second)))"

subsection \<open>The tables\<close>

record healthDB =
  hdModels :: "model_id list"
  hdProbes :: "probeEvent list"
  hdLastID :: int
  hdLatest :: "model_id \<rightharpoonup> latestState"
  hdSettings :: healthSettings

definition validOutcome :: "probeOutcome \<Rightarrow> bool" where
  "validOutcome out \<longleftrightarrow> out \<in> {OutcomeSuccess, OutcomeFailure, OutcomeTimeout, OutcomeSkipped, OutcomeCanceled}"

text \<open>\<open>err\<close> answers the begin, the insert, the read, the upsert and the commit of the transaction.\<close>

definition nextConsecutiveFailures :: "goError \<Rightarrow> model_id \<Rightarrow> probeOutcome \<Rightarrow> healthDB \<Rightarrow> goError + int" where
  "nextConsecutiveFailures err m out db =
     (if out \<in> {OutcomeSuccess, OutcomeSkipped, OutcomeCanceled} then Inr 0
      else if err \<noteq> nil_error then Inl (Wrapped ''load consecutive model health failures'' # err)
      else case hdLatest db m of None \<Rightarrow> Inr 1 | Some l \<Rightarrow> Inr (lsConsecutiveFailures l + 1))"

definition health_Record :: "(nat \<Rightarrow> goError) \<Rightarrow> probeEvent \<Rightarrow> healthDB \<Rightarrow> goError \<times> healthDB" where
  "health_Record err e db =
     (if peModelID e \<le> 0 then ([OtherError ''model health event model_id must be positive''], db)
      else if \<not> validOutcome (peOutcome e) then ([OtherError ''model health event outcome is invalid''], db)
      else if peDurationMS e < 0 then ([OtherError ''model health event duration_ms must be non-negative''], db)
      else if peCreatedAt e = 0 then ([OtherError ''model health event created_at is required''], db)
      else if err 0 \<noteq> nil_error then (Wrapped ''begin model health event transaction'' # err 0, db)
      else if err 1 \<noteq> nil_error then (Wrapped ''insert model health event'' # err 1, db)
      else if peModelID e \<notin> set (hdModels db) then ([Wrapped ''model health event model was deleted'', ErrModelDeleted], db)
      else case nextConsecutiveFailures (err 2) (peModelID e) (peOutcome e) db of
        Inl er \<Rightarrow> (er, db)
      | Inr n \<Rightarrow>
          if err 3 \<noteq> nil_error then (Wrapped ''update latest model health state'' # err 3, db)
          else if err 4 \<noteq> nil_error then (Wrapped ''commit model health event'' # err 4, db)
          else (nil_error,
                db\<lparr>hdProbes := hdProbes db @ [e\<lparr>peID := hdLastID db + 1\<rparr>], hdLastID := hdLastID db + 1,
                   hdLatest := (hdLatest db)(peModelID e \<mapsto>
                     \<lparr>lsOutcome = peOutcome e, lsDurationMS = peDurationMS e, lsErrorCode = peErrorCode e, lsLastProbeAt = peCreatedAt e,
                      lsConsecutiveFailures = n\<rparr>)\<rparr>))"

definition stored_before :: "time \<Rightarrow> time \<Rightarrow> bool" where
  "stored_before t u \<longleftrightarrow> stored_key t < stored_key u"

definition probeRetention :: duration where "probeRetention = 14 * 24 * 60 * minute"

definition DeleteProbesBefore :: "goError \<Rightarrow> time \<Rightarrow> healthDB \<Rightarrow> (goError + nat) \<times> healthDB" where
  "DeleteProbesBefore err cutoff db =
     (if err \<noteq> nil_error then (Inl (Wrapped ''delete model health probes'' # err), db)
      else (Inr (length (filter (\<lambda>e. stored_before (peCreatedAt e) cutoff) (hdProbes db))),
            db\<lparr>hdProbes := filter (\<lambda>e. \<not> stored_before (peCreatedAt e) cutoff) (hdProbes db)\<rparr>))"

text \<open>The rows are kept in the order of their ids, so a stable sort by the text orders by both columns.\<close>

definition listEvents :: "goError \<Rightarrow> time \<Rightarrow> time \<Rightarrow> healthDB \<Rightarrow> goError + probeEvent list" where
  "listEvents err start stop db =
     (if \<not> stop > start then Inr []
      else if err \<noteq> nil_error then Inl (Wrapped ''list model health events'' # err)
      else Inr (sort_key (\<lambda>e. stored_key (peCreatedAt e))
             (filter (\<lambda>e. \<not> stored_before (peCreatedAt e) start \<and> stored_before (peCreatedAt e) stop) (hdProbes db))))"

definition listLatest :: "goError \<Rightarrow> healthDB \<Rightarrow> goError + (model_id \<rightharpoonup> latestState)" where
  "listLatest err db = (if err \<noteq> nil_error then Inl (Wrapped ''list latest model health states'' # err) else Inr (hdLatest db))"

definition loadSettings :: "goError \<Rightarrow> healthDB \<Rightarrow> goError + healthSettings" where
  "loadSettings err db = (if err \<noteq> nil_error then Inl (Wrapped ''load model health settings'' # err) else Inr (hdSettings db))"

record summarySnapshot =
  snapEvents :: "probeEvent list"
  snapLatest :: "model_id \<rightharpoonup> latestState"
  snapSettings :: healthSettings

definition SummarySnapshot :: "(nat \<Rightarrow> goError) \<Rightarrow> time \<Rightarrow> time \<Rightarrow> healthDB \<Rightarrow> goError + summarySnapshot" where
  "SummarySnapshot err start stop db =
     (if err 0 \<noteq> nil_error then Inl (Wrapped ''begin model health summary snapshot'' # err 0)
      else case listEvents (err 1) start stop db of Inl e \<Rightarrow> Inl e | Inr events \<Rightarrow>
        (case listLatest (err 2) db of Inl e \<Rightarrow> Inl e | Inr latest \<Rightarrow>
          (case loadSettings (err 3) db of Inl e \<Rightarrow> Inl e | Inr settings \<Rightarrow>
             if err 4 \<noteq> nil_error then Inl (Wrapped ''commit model health summary snapshot'' # err 4)
             else Inr \<lparr>snapEvents = events, snapLatest = latest, snapSettings = settings\<rparr>)))"

definition patched :: "settingsPatch \<Rightarrow> healthSettings \<Rightarrow> healthSettings" where
  "patched p s =
     s\<lparr>hsEnabled := (case patchEnabled p of None \<Rightarrow> hsEnabled s | Some v \<Rightarrow> v),
       hsIntervalSeconds := (case patchIntervalSeconds p of None \<Rightarrow> hsIntervalSeconds s | Some v \<Rightarrow> v),
       hsConcurrency := (case patchConcurrency p of None \<Rightarrow> hsConcurrency s | Some v \<Rightarrow> v)\<rparr>"

definition repo_PatchSettings :: "(nat \<Rightarrow> goError) \<Rightarrow> settingsPatch \<Rightarrow> time \<Rightarrow> healthDB \<Rightarrow> (goError + healthSettings) \<times> healthDB" where
  "repo_PatchSettings err p now db =
     (if now = 0 then (Inl [OtherError ''model health settings time is required''], db)
      else if err 0 \<noteq> nil_error then (Inl (Wrapped ''begin model health settings transaction'' # err 0), db)
      else case loadSettings (err 1) db of
        Inl e \<Rightarrow> (Inl e, db)
      | Inr old \<Rightarrow>
          let new = (patched p old)\<lparr>hsUpdatedAt := now\<rparr>
          in if ValidateSettings new \<noteq> nil_error then (Inl (ValidateSettings new), db)
             else if err 2 \<noteq> nil_error then (Inl (Wrapped ''save model health settings'' # err 2), db)
             else if err 3 \<noteq> nil_error then (Inl (Wrapped ''commit model health settings'' # err 3), db)
             else (Inr new, db\<lparr>hdSettings := new\<rparr>))"

definition SaveSettings :: "goError \<Rightarrow> healthSettings \<Rightarrow> time \<Rightarrow> healthDB \<Rightarrow> (goError + healthSettings) \<times> healthDB" where
  "SaveSettings err s now db =
     (if ValidateSettings s \<noteq> nil_error then (Inl (ValidateSettings s), db)
      else if now = 0 then (Inl [OtherError ''model health settings time is required''], db)
      else if err \<noteq> nil_error then (Inl (Wrapped ''save model health settings'' # err), db)
      else (Inr (s\<lparr>hsUpdatedAt := now\<rparr>), db\<lparr>hdSettings := s\<lparr>hsUpdatedAt := now\<rparr>\<rparr>))"

text \<open>What the catalogue does to these tables: a model appears, or is deleted with its probes and its state.\<close>

definition catalog_insert :: "model_id \<Rightarrow> healthDB \<Rightarrow> healthDB" where
  "catalog_insert m db = (if m \<in> set (hdModels db) then db else db\<lparr>hdModels := hdModels db @ [m]\<rparr>)"

definition catalog_delete :: "model_id \<Rightarrow> healthDB \<Rightarrow> healthDB" where
  "catalog_delete m db = db\<lparr>hdModels := filter (\<lambda>k. k \<noteq> m) (hdModels db), hdProbes := filter (\<lambda>e. peModelID e \<noteq> m) (hdProbes db),
     hdLatest := (hdLatest db)(m := None)\<rparr>"

subsection \<open>Buckets by interval\<close>

definition in_bucket :: "time \<Rightarrow> duration \<Rightarrow> nat \<Rightarrow> probeEvent \<Rightarrow> bool" where
  "in_bucket start step i e \<longleftrightarrow> start + int i * step \<le> peCreatedAt e \<and> peCreatedAt e < start + int i * step + step"

lemma in_bucket_index:
  assumes "0 < step" "start \<le> peCreatedAt e"
  shows "in_bucket start step i e \<longleftrightarrow> (peCreatedAt e - start) div step = int i"
proof -
  let ?d = "peCreatedAt e - start"
  have "?d div step = int i \<longleftrightarrow> int i * step \<le> ?d \<and> ?d < int i * step + step"
  proof
    assume "?d div step = int i"
    then have "?d = int i * step + ?d mod step"
      by (metis mult.commute mult_div_mod_eq)
    moreover have "0 \<le> ?d mod step" "?d mod step < step"
      using assms(1) by simp_all
    ultimately show "int i * step \<le> ?d \<and> ?d < int i * step + step" by linarith
  next
    assume a: "int i * step \<le> ?d \<and> ?d < int i * step + step"
    then show "?d div step = int i"
      using assms(1) by (intro int_div_pos_eq [of _ _ _ "?d - int i * step"]) (auto simp: algebra_simps)
  qed
  then show ?thesis
    by (auto simp: in_bucket_def)
qed

text \<open>Filling the buckets sends each event to the bucket whose interval it lies in.\<close>

lemma fill_by_interval:
  assumes step: "0 < step" and span: "int (length bs) * step \<le> stop - start" "stop - start \<le> 9223372036854775807"
  shows "fill_buckets start stop step es bs
    = Some (map (\<lambda>i. fold add_to_bucket (filter (in_bucket start step i) es) (bs ! i)) [0..<length bs])"
  using span
proof (induction es arbitrary: bs)
  case Nil
  then show ?case by (simp add: map_nth)
next
  case (Cons e es)
  let ?c = "peCreatedAt e"
  let ?i = "(?c - start) div step"
  show ?case
  proof (cases "?c < start \<or> \<not> ?c < stop")
    case True
    have "\<not> in_bucket start step i e" if "i < length bs" for i
    proof -
      have "(int i + 1) * step \<le> int (length bs) * step"
        using step that by (intro mult_right_mono) auto
      moreover have "0 \<le> int i * step" using step by simp
      ultimately show ?thesis
        using True Cons.prems(1) unfolding in_bucket_def by (simp add: algebra_simps) linarith
    qed
    then show ?thesis
      using True Cons.IH [OF Cons.prems] by simp
  next
    case False
    then have idx: "in_bucket start step i e \<longleftrightarrow> ?i = int i" for i
      by (intro in_bucket_index step) simp
    have "0 \<le> ?i" using False step by (simp add: pos_imp_zdiv_nonneg_iff)
    have sub: "time_sub ?c start = ?c - start"
      using False Cons.prems(2) by (simp add: time_sub_def)
    show ?thesis
    proof (cases "?i \<ge> int (length bs)")
      case True
      then have "\<not> in_bucket start step i e" if "i < length bs" for i
        using idx that by simp
      then show ?thesis
        using True False step Cons.IH [OF Cons.prems] by (simp add: sub)
    next
      case small: False
      let ?bs = "bs[nat ?i := add_to_bucket e (bs ! nat ?i)]"
      have "fill_buckets start stop step (e # es) bs = fill_buckets start stop step es ?bs"
        using small False step \<open>0 \<le> ?i\<close> by (simp add: sub Let_def)
      also have "\<dots> = Some (map (\<lambda>i. fold add_to_bucket (filter (in_bucket start step i) es) (?bs ! i)) [0..<length ?bs])"
        using Cons.prems by (intro Cons.IH) simp_all
      also have "\<dots> = Some (map (\<lambda>i. fold add_to_bucket (filter (in_bucket start step i) (e # es)) (bs ! i)) [0..<length bs])"
        using \<open>0 \<le> ?i\<close> by (auto simp: idx nth_list_update intro!: map_cong)
      finally show ?thesis .
    qed
  qed
qed

text \<open>A window of at least as many nanoseconds as buckets is cut without a panic, and each bucket summarises exactly the
  events whose time lies in its interval.\<close>

theorem buckets_by_interval:
  assumes "0 < n" "n \<le> stop - start" "stop - start \<le> 9223372036854775807"
  shows "BuildBuckets start stop n events
    = Some (map (\<lambda>i. finish_bucket (fold add_to_bucket (filter (in_bucket start ((stop - start) div n) i) events)
                 (empty_bucket start ((stop - start) div n) i))) [0..<nat n])"
proof -
  let ?step = "(stop - start) div n"
  let ?bs = "map (empty_bucket start ?step) [0..<nat n]"
  have step: "0 < ?step"
    using assms(1,2) by (simp add: pos_imp_zdiv_pos_iff)
  have "n * ?step \<le> stop - start"
    using assms(1) mult_div_mod_eq [of n "stop - start"] pos_mod_sign [of n "stop - start"] by linarith
  then have "fill_buckets start stop ?step events ?bs
      = Some (map (\<lambda>i. fold add_to_bucket (filter (in_bucket start ?step i) events) (?bs ! i)) [0..<length ?bs])"
    using assms(1,3) by (intro fill_by_interval step) simp_all
  moreover have "time_sub stop start = stop - start"
    using assms by (simp add: time_sub_def)
  ultimately show ?thesis
    using assms(1,2) by (simp add: BuildBuckets_def Let_def comp_def)
qed

theorem buckets_by_interval_witness:
  "map_option length (BuildBuckets 1 (1 + 60 * second) 60 []) = Some 60"
  using buckets_by_interval [of 60 "1 + 60 * second" 1 "[]"] by simp

text \<open>A window of fewer nanoseconds than buckets divides by zero at the first event in it.\<close>

lemma buckets_panic:
  assumes "0 < n" "start < stop" "stop - start < n" "start \<le> peCreatedAt e" "peCreatedAt e < stop" "stop - start \<le> 9223372036854775807"
  shows "BuildBuckets start stop n (e # es) = None"
  using assms by (simp add: BuildBuckets_def time_sub_def Let_def div_pos_pos_trivial)

subsection \<open>Stored timestamps\<close>

lemma stored_seconds: "t div second < u div second \<Longrightarrow> stored_before t u"
  by (simp add: stored_before_def stored_key_def less_prod_def)

lemma stored_before_seconds: "stored_before t u \<Longrightarrow> t div second \<le> u div second"
  by (auto simp: stored_before_def stored_key_def less_prod_def)

lemma stored_far: "t + second \<le> u \<Longrightarrow> stored_before t u \<and> \<not> stored_before u t"
proof -
  assume "t + second \<le> u"
  then have "(t + second) div second \<le> u div second"
    by (rule zdiv_mono1) simp
  then have "t div second < u div second" by simp
  then show ?thesis
    using stored_seconds stored_before_seconds by fastforce
qed

lemma fraction_before_whole:
  assumes "0 < f" "f < 1000000000"
  shows "fraction_text f < fraction_text 0"
  using assms by (simp add: fraction_text_def less_char_def)

text \<open>Texts of different layout do not sort as the times they spell: within a second every later instant is stored before
  the whole second. A probe recorded at the whole second is missing from every window that ends within the same second.\<close>

theorem whole_second_hidden:
  assumes "peCreatedAt e = k * second" "0 < f" "f < second" "start < peCreatedAt e"
  shows "stored_before (peCreatedAt e + f) (peCreatedAt e)
    \<and> (\<forall>events. listEvents nil_error start (peCreatedAt e + f) db = Inr events \<longrightarrow> e \<notin> set events)"
proof -
  have key: "stored_key (peCreatedAt e + f) = (k, fraction_text (nat f))" "stored_key (peCreatedAt e) = (k, fraction_text 0)"
    using assms(2,3) by (simp_all add: stored_key_def assms(1) div_add1_eq)
  have "fraction_text (nat f) < fraction_text 0"
    using assms(2,3) by (intro fraction_before_whole) simp_all
  then have "stored_before (peCreatedAt e + f) (peCreatedAt e)" "\<not> stored_before (peCreatedAt e) (peCreatedAt e + f)"
    by (simp_all add: stored_before_def key less_prod_def)
  then show ?thesis
    using assms(2,4) by (auto simp: listEvents_def)
qed

definition sample_event :: "model_id \<Rightarrow> probeOutcome \<Rightarrow> time \<Rightarrow> probeEvent" where
  "sample_event m out t = \<lparr>peID = 0, peModelID = m, peOutcome = out, peDurationMS = 5, peErrorCode = [], peCreatedAt = t\<rparr>"

definition sample_health :: healthDB where
  "sample_health = \<lparr>hdModels = [1], hdProbes = [sample_event 1 OutcomeSuccess (7 * second)], hdLastID = 1, hdLatest = Map.empty,
     hdSettings = \<lparr>hsEnabled = False, hsIntervalSeconds = 60, hsConcurrency = 2, hsUpdatedAt = 1\<rparr>\<rparr>"

theorem whole_second_hidden_witness:
  "listEvents nil_error second (7 * second + 5) sample_health = Inr []"
proof -
  have "sample_event 1 OutcomeSuccess (7 * second) \<notin> set (case listEvents nil_error second (7 * second + 5) sample_health of Inr es \<Rightarrow> es)"
    using whole_second_hidden [of "sample_event 1 OutcomeSuccess (7 * second)" 7 5 second sample_health]
    by (auto simp: sample_event_def listEvents_def)
  then show ?thesis
    by (auto simp: listEvents_def sample_health_def)
qed

text \<open>Pruning is invisible: no window the summary can ask for changes when the rows older than the retention are deleted.\<close>

theorem prune_invisible:
  assumes "now - 7 * 24 * 60 * minute \<le> start"
  shows "listEvents err start stop (snd (DeleteProbesBefore dbErr (now - probeRetention) db)) = listEvents err start stop db"
proof -
  have "\<not> stored_before (peCreatedAt e) (now - probeRetention)" if "\<not> stored_before (peCreatedAt e) start" for e
  proof
    assume "stored_before (peCreatedAt e) (now - probeRetention)"
    then have "peCreatedAt e div second \<le> (now - probeRetention) div second"
      by (rule stored_before_seconds)
    moreover have "(now - probeRetention + second) div second \<le> start div second"
      using assms by (intro zdiv_mono1) (simp_all add: probeRetention_def)
    ultimately have "peCreatedAt e div second < start div second" by simp
    then show False
      using that stored_seconds by blast
  qed
  then show ?thesis
    by (auto simp: listEvents_def DeleteProbesBefore_def intro!: arg_cong [where f = "sort_key _"] filter_cong)
qed

theorem prune_invisible_witness:
  "listEvents nil_error (1000000 * second - 7 * 24 * 60 * minute) (1000000 * second) (snd (DeleteProbesBefore nil_error (1000000 * second - probeRetention) sample_health))
     = listEvents nil_error (1000000 * second - 7 * 24 * 60 * minute) (1000000 * second) sample_health"
  by (rule prune_invisible) simp

subsection \<open>The history behind the latest state\<close>

datatype healthOp =
    HRecord "nat \<Rightarrow> goError" probeEvent
  | HPrune goError time
  | HPatch "nat \<Rightarrow> goError" settingsPatch time
  | HSave goError healthSettings time
  | HInsert model_id
  | HDelete model_id

fun health_exec :: "healthOp \<Rightarrow> healthDB \<Rightarrow> healthDB" where
  "health_exec (HRecord err e) db = snd (health_Record err e db)"
| "health_exec (HPrune err cutoff) db = snd (DeleteProbesBefore err cutoff db)"
| "health_exec (HPatch err p now) db = snd (repo_PatchSettings err p now db)"
| "health_exec (HSave err st now) db = snd (SaveSettings err st now db)"
| "health_exec (HInsert m) db = catalog_insert m db"
| "health_exec (HDelete m) db = catalog_delete m db"

text \<open>The log of a model: the events \<open>Record\<close> accepted since the model was last deleted.\<close>

fun log_step :: "healthOp \<Rightarrow> healthDB \<Rightarrow> (model_id \<Rightarrow> probeEvent list) \<Rightarrow> model_id \<Rightarrow> probeEvent list" where
  "log_step (HRecord err e) db l = (if fst (health_Record err e db) = nil_error then l(peModelID e := l (peModelID e) @ [e]) else l)"
| "log_step (HDelete m) db l = l(m := [])"
| "log_step _ db l = l"

fun health_run :: "healthOp list \<Rightarrow> healthDB \<times> (model_id \<Rightarrow> probeEvent list) \<Rightarrow> healthDB \<times> (model_id \<Rightarrow> probeEvent list)" where
  "health_run [] dl = dl"
| "health_run (op # ops) dl = health_run ops (health_exec op (fst dl), log_step op (fst dl) (snd dl))"

text \<open>The settings row of the migration, stamped with the Unix epoch; instants count nanoseconds from Go's zero time.\<close>

definition unix_epoch :: time where "unix_epoch = 62135596800 * second"

definition initial_health :: healthDB where
  "initial_health = \<lparr>hdModels = [], hdProbes = [], hdLastID = 0, hdLatest = Map.empty,
     hdSettings = \<lparr>hsEnabled = False, hsIntervalSeconds = 60, hsConcurrency = 2, hsUpdatedAt = unix_epoch\<rparr>\<rparr>"

definition failing :: "probeEvent \<Rightarrow> bool" where
  "failing e \<longleftrightarrow> peOutcome e \<in> {OutcomeFailure, OutcomeTimeout}"

definition latest_of :: "probeEvent list \<Rightarrow> latestState option" where
  "latest_of es =
     (if es = [] then None
      else Some \<lparr>lsOutcome = peOutcome (last es), lsDurationMS = peDurationMS (last es), lsErrorCode = peErrorCode (last es),
             lsLastProbeAt = peCreatedAt (last es), lsConsecutiveFailures = int (length (takeWhile failing (rev es)))\<rparr>)"

lemma Record_cases:
  "(fst (health_Record err e db) \<noteq> nil_error \<and> snd (health_Record err e db) = db)
   \<or> (\<exists>n. fst (health_Record err e db) = nil_error \<and> 0 < peModelID e \<and> validOutcome (peOutcome e) \<and> 0 \<le> peDurationMS e \<and> peCreatedAt e \<noteq> 0
       \<and> peModelID e \<in> set (hdModels db)
       \<and> n = (if failing e then (case hdLatest db (peModelID e) of None \<Rightarrow> 1 | Some l \<Rightarrow> lsConsecutiveFailures l + 1) else 0)
       \<and> snd (health_Record err e db) = db\<lparr>hdProbes := hdProbes db @ [e\<lparr>peID := hdLastID db + 1\<rparr>], hdLastID := hdLastID db + 1,
           hdLatest := (hdLatest db)(peModelID e \<mapsto> \<lparr>lsOutcome = peOutcome e, lsDurationMS = peDurationMS e, lsErrorCode = peErrorCode e,
              lsLastProbeAt = peCreatedAt e, lsConsecutiveFailures = n\<rparr>)\<rparr>)"
  by (cases "peOutcome e")
    (auto simp: health_Record_def nextConsecutiveFailures_def failing_def validOutcome_def split: option.splits sum.splits)

lemma latest_of_snoc:
  "latest_of (es @ [e]) = Some \<lparr>lsOutcome = peOutcome e, lsDurationMS = peDurationMS e, lsErrorCode = peErrorCode e, lsLastProbeAt = peCreatedAt e,
     lsConsecutiveFailures = (if failing e then (case latest_of es of None \<Rightarrow> 1 | Some l \<Rightarrow> lsConsecutiveFailures l + 1) else 0)\<rparr>"
  by (simp add: latest_of_def)

lemma settings_frame [simp]:
  "hdLatest (snd (repo_PatchSettings err p now db)) = hdLatest db" "hdLatest (snd (SaveSettings e st now db)) = hdLatest db"
  "hdLatest (snd (DeleteProbesBefore e cutoff db)) = hdLatest db" "hdLatest (catalog_insert m db) = hdLatest db"
  by (auto simp: repo_PatchSettings_def SaveSettings_def DeleteProbesBefore_def catalog_insert_def Let_def split: sum.splits)

lemma latest_step:
  assumes "\<forall>m. hdLatest db m = latest_of (l m)"
  shows "hdLatest (health_exec op db) m = latest_of (log_step op db l m)"
proof (cases op)
  case (HRecord err e)
  then show ?thesis
    using Record_cases [of err e db] assms by (auto simp: latest_of_snoc)
next
  case (HDelete k)
  then show ?thesis
    using assms by (simp add: catalog_delete_def latest_of_def)
qed (use assms in simp_all)

text \<open>C38: However probes, prunings, settings and deletions of models come, and whatever the database refuses, the latest state of a
  model is the summary of all events recorded for it: the last one, and how many failures and timeouts end the sequence.\<close>

theorem latest_refines_history:
  "hdLatest (fst (health_run ops (initial_health, \<lambda>m. []))) m = latest_of (snd (health_run ops (initial_health, \<lambda>m. [])) m)"
proof -
  have "\<forall>m. hdLatest (fst dl) m = latest_of (snd dl m) \<Longrightarrow> hdLatest (fst (health_run ops dl)) m = latest_of (snd (health_run ops dl) m)" for dl
    by (induction ops arbitrary: dl) (simp_all add: latest_step)
  from this [of "(initial_health, \<lambda>m. [])"] show ?thesis
    by (simp add: initial_health_def latest_of_def)
qed

subsection \<open>Types of the rows\<close>

definition event_typed :: "model_id list \<Rightarrow> probeEvent \<Rightarrow> bool" where
  "event_typed models e \<longleftrightarrow> peModelID e \<in> set models \<and> 0 < peModelID e \<and> validOutcome (peOutcome e) \<and> 0 \<le> peDurationMS e \<and> peCreatedAt e \<noteq> 0"

definition health_typed :: "healthDB \<Rightarrow> bool" where
  "health_typed db \<longleftrightarrow> ValidateSettings (hdSettings db) = nil_error
     \<and> (\<forall>e \<in> set (hdProbes db). event_typed (hdModels db) e \<and> peID e \<le> hdLastID db) \<and> sorted_wrt (<) (map peID (hdProbes db))
     \<and> (\<forall>m l. hdLatest db m = Some l \<longrightarrow> m \<in> set (hdModels db) \<and> 0 \<le> lsDurationMS l \<and> 0 \<le> lsConsecutiveFailures l
          \<and> (lsConsecutiveFailures l > 0 \<longleftrightarrow> lsOutcome l \<in> {OutcomeFailure, OutcomeTimeout}))"

lemma ValidateSettings_updated [simp]: "ValidateSettings (s\<lparr>hsUpdatedAt := t\<rparr>) = ValidateSettings s"
  by (simp add: ValidateSettings_def)

lemma record_typed: "health_typed db \<Longrightarrow> health_typed (snd (health_Record err e db))"
proof -
  assume typed: "health_typed db"
  consider "snd (health_Record err e db) = db"
    | n where "event_typed (hdModels db) e"
        "n = (if failing e then (case hdLatest db (peModelID e) of None \<Rightarrow> 1 | Some l \<Rightarrow> lsConsecutiveFailures l + 1) else 0)"
        "snd (health_Record err e db) = db\<lparr>hdProbes := hdProbes db @ [e\<lparr>peID := hdLastID db + 1\<rparr>], hdLastID := hdLastID db + 1,
           hdLatest := (hdLatest db)(peModelID e \<mapsto> \<lparr>lsOutcome = peOutcome e, lsDurationMS = peDurationMS e, lsErrorCode = peErrorCode e,
              lsLastProbeAt = peCreatedAt e, lsConsecutiveFailures = n\<rparr>)\<rparr>"
    using Record_cases [of err e db] by (auto simp: event_typed_def)
  then show ?thesis
  proof cases
    case 1
    then show ?thesis using typed by simp
  next
    case (2 n)
    have "0 \<le> n" "0 < n \<longleftrightarrow> failing e"
      using 2(2) typed by (auto simp: health_typed_def split: option.splits)
    moreover have "\<forall>x \<in> set (hdProbes db). peID x < hdLastID db + 1"
      using typed by (auto simp: health_typed_def)
    ultimately show ?thesis
      using typed 2(1) unfolding 2(3) by (auto simp: health_typed_def event_typed_def failing_def sorted_wrt_append)
  qed
qed

lemma sorted_ids_filter: "sorted_wrt (<) (map peID es) \<Longrightarrow> sorted_wrt (<) (map peID (filter P es))"
  by (induction es) auto

text \<open>C39: Whatever the operations do, every stored row stays well formed: the settings are in their ranges, probes have one of the five
  outcomes, a duration that is not negative and increasing ids, no row refers to a model that is gone, and a count of failures is
  positive exactly when the last outcome is a failure or a timeout.\<close>

theorem health_rows_typed:
  "health_typed (fst (health_run ops (initial_health, l)))"
proof -
  have step: "health_typed (health_exec op db)" if typed: "health_typed db" for op db
  proof (cases op)
    case (HRecord err e)
    then show ?thesis using record_typed [OF typed] by simp
  next
    case (HPrune err cutoff)
    then show ?thesis using typed by (auto simp: DeleteProbesBefore_def health_typed_def sorted_ids_filter)
  next
    case (HPatch err p now)
    then show ?thesis using typed by (auto simp: repo_PatchSettings_def health_typed_def Let_def split: sum.splits)
  next
    case (HSave err st now)
    then show ?thesis using typed by (auto simp: SaveSettings_def health_typed_def)
  next
    case (HInsert m)
    then show ?thesis using typed by (fastforce simp: catalog_insert_def health_typed_def event_typed_def)
  next
    case (HDelete m)
    then show ?thesis using typed by (fastforce simp: catalog_delete_def health_typed_def event_typed_def intro: sorted_ids_filter split: if_splits)
  qed
  have "health_typed (fst dl) \<Longrightarrow> health_typed (fst (health_run ops dl))" for dl
    by (induction ops arbitrary: dl) (simp_all add: step)
  from this [of "(initial_health, l)"] show ?thesis
    by (simp add: health_typed_def initial_health_def ValidateSettings_def MinIntervalSeconds_def MaxIntervalSeconds_def MinConcurrency_def MaxConcurrency_def)
qed

end
