(* ===== verification/Model_Health.thy ===== *)
theory Model_Health
  imports Health_Store Key_Store
begin

text \<open>
  \<open>internal/modelhealth/service.go\<close>: the run that probes every model, and the summary the dashboard shows. The
  keys come from \<open>Key_Store\<close>; the catalogue, the probes themselves and the errors of the database are arguments.
  The workers of a run interleave at their calls of \<open>Record\<close>, so a run takes the order in which these happen.
\<close>

record catalogModel =
  cmID :: model_id
  cmPublicID :: string
  cmDisplayName :: string
  cmKind :: string
  cmProvider :: string
  cmEnabled :: bool

definition ProviderNVIDIA :: string where "ProviderNVIDIA = ''nvidia''"

definition model_provider :: "catalogModel \<Rightarrow> string" where
  "model_provider m = (if cmProvider m = [] then ProviderNVIDIA else cmProvider m)"

definition errAllKeysCooling :: errNode where "errAllKeysCooling = OtherError ''all NVIDIA keys are cooling''"

subsection \<open>The run\<close>

text \<open>\<open>first\<close> and \<open>enabledCount\<close> are what the key source answers to \<open>FirstEnabledID\<close> and \<open>CountEnabled\<close>; without a source it is \<open>None\<close>.\<close>

definition selectNVIDIAKey :: "((goError + key_id) \<times> (goError + int)) option \<Rightarrow> catalogModel list \<Rightarrow> key_id \<times> goError" where
  "selectNVIDIAKey source listed =
     (if \<not> list_ex (\<lambda>m. model_provider m = ProviderNVIDIA) listed then (0, nil_error)
      else case source of
        None \<Rightarrow> (0, [OtherError ''NVIDIA key source is unavailable''])
      | Some (first, enabledCount) \<Rightarrow>
          (case first of
             Inr i \<Rightarrow> (i, nil_error)
           | Inl err \<Rightarrow>
               if errors_is err (hd ErrNoRows) then
                 (case enabledCount of
                    Inl _ \<Rightarrow> (0, err)
                  | Inr n \<Rightarrow> if n > 0 then (0, [errAllKeysCooling]) else (0, err))
               else (0, err)))"

definition ErrProviderNotConfigured :: errNode where "ErrProviderNotConfigured = OtherError ''model provider is not configured''"
definition ErrNVIDIAKeyRequired :: errNode where "ErrNVIDIAKeyRequired = OtherError ''an NVIDIA key is required''"
definition ErrProviderNotRoutable :: errNode where "ErrProviderNotRoutable = OtherError ''model provider is not routable''"
definition ErrModelNotFound :: errNode where "ErrModelNotFound = OtherError ''model not found''"

definition classifyModelProbeError :: "goError \<Rightarrow> probeOutcome \<times> string" where
  "classifyModelProbeError err =
     (if err = nil_error then (OutcomeSuccess, [])
      else if errors_is err ErrProviderNotConfigured then (OutcomeSkipped, ''provider_not_configured'')
      else if errors_is err ErrNVIDIAKeyRequired then (OutcomeSkipped, ''no_credential'')
      else if errors_is err ErrProviderNotRoutable then (OutcomeSkipped, ''provider_not_routable'')
      else if errors_is err ErrModelNotFound then (OutcomeFailure, ''model_not_found'')
      else (ClassifyProbeError err, SafeErrorCode err))"

text \<open>\<open>test\<close> answers the probe for a provider, a key and a model; \<open>ended\<close> is whether the context has ended by then.\<close>

definition probe_outcome :: "(string \<Rightarrow> key_id \<Rightarrow> model_id \<Rightarrow> goError) \<Rightarrow> bool \<Rightarrow> key_id \<Rightarrow> goError \<Rightarrow> catalogModel \<Rightarrow> probeOutcome \<times> string" where
  "probe_outcome test ended keyID keyErr m =
     (if ended then (OutcomeCanceled, ''canceled'')
      else if model_provider m = ProviderNVIDIA \<and> keyID \<le> 0 then
        (OutcomeSkipped,
         if errors_is keyErr errAllKeysCooling then ''keys_cooling''
         else if errors_is keyErr (hd ErrNoRows) \<or> keyErr = nil_error then ''no_credential''
         else ''key_source_unavailable'')
      else classifyModelProbeError (test (model_provider m) (if model_provider m \<noteq> ProviderNVIDIA then 0 else keyID) (cmID m)))"

text \<open>The text of the error of a failed record leaves out the quoted public id of the model; only its causes are looked at.\<close>

definition health_probeOne ::
  "(string \<Rightarrow> key_id \<Rightarrow> model_id \<Rightarrow> goError) \<Rightarrow> bool \<Rightarrow> key_id \<Rightarrow> goError \<Rightarrow> catalogModel \<Rightarrow> int \<Rightarrow> time \<Rightarrow> (nat \<Rightarrow> goError) \<Rightarrow> healthDB \<Rightarrow> goError \<times> healthDB" where
  "health_probeOne test ended keyID keyErr m elapsed now err db =
     (case probe_outcome test ended keyID keyErr m of
        (out, code) \<Rightarrow>
          (case health_Record err \<lparr>peID = 0, peModelID = cmID m, peOutcome = out, peDurationMS = (if elapsed < 0 then 0 else elapsed),
                  peErrorCode = code, peCreatedAt = now\<rparr> db of
             (er, db') \<Rightarrow>
               (if er = nil_error then nil_error
                else if errors_is er ErrModelDeleted then nil_error
                else Wrapped ''record model health probe'' # er, db')))"

text \<open>What the environment answers to the probe of one model: the end of the context, the elapsed milliseconds, the clock and the database.\<close>

record probeAnswer =
  paEnded :: bool
  paElapsed :: int
  paNow :: time
  paErr :: "nat \<Rightarrow> goError"

definition run_probe ::
  "(string \<Rightarrow> key_id \<Rightarrow> model_id \<Rightarrow> goError) \<Rightarrow> key_id \<times> goError \<Rightarrow> catalogModel \<times> probeAnswer \<Rightarrow> goError list \<times> healthDB \<Rightarrow> goError list \<times> healthDB" where
  "run_probe test key ma acc =
     (case health_probeOne test (paEnded (snd ma)) (fst key) (snd key) (fst ma) (paElapsed (snd ma)) (paNow (snd ma)) (paErr (snd ma)) (snd acc) of
        (er, db) \<Rightarrow> (if er = nil_error then fst acc else fst acc @ [er], db))"

text \<open>\<open>schedule\<close> lists the models the workers took, in the order of their records. Unless the context ended while models were
  handed out, the run prunes; \<open>pruneErr\<close> answers that and is only logged.\<close>

definition RunOnce ::
  "goError \<Rightarrow> goError + catalogModel list \<Rightarrow> ((goError + key_id) \<times> (goError + int)) option \<Rightarrow> (string \<Rightarrow> key_id \<Rightarrow> model_id \<Rightarrow> goError)
    \<Rightarrow> (catalogModel \<times> probeAnswer) list \<Rightarrow> goError \<Rightarrow> bool \<Rightarrow> time \<Rightarrow> goError \<Rightarrow> healthDB \<Rightarrow> goError list \<times> healthDB" where
  "RunOnce settingsErr catalog source test schedule cancelled ended now pruneErr db =
     (case loadSettings settingsErr db of
        Inl e \<Rightarrow> ([e], db)
      | Inr _ \<Rightarrow>
          (case catalog of
             Inl e \<Rightarrow> ([Wrapped ''list models for health probe'' # e], db)
           | Inr listed \<Rightarrow>
               (case fold (run_probe test (selectNVIDIAKey source listed)) schedule ([], db) of
                  (errs, db1) \<Rightarrow>
                    if cancelled \<noteq> nil_error then ([cancelled], db1)
                    else (errs, if ended then db1 else snd (DeleteProbesBefore pruneErr (now - probeRetention) db1)))))"

definition nextInterval :: "healthSettings \<Rightarrow> duration" where
  "nextInterval s =
     (if hsIntervalSeconds s < MinIntervalSeconds then DefaultIntervalSeconds * second else hsIntervalSeconds s * second)"

definition run_concurrency :: "healthSettings \<Rightarrow> int" where
  "run_concurrency s =
     (if hsConcurrency s < MinConcurrency \<or> hsConcurrency s > MaxConcurrency then DefaultConcurrency else hsConcurrency s)"

subsection \<open>The summary\<close>

record eventStats = windowStats +
  esSkippedCount :: int
  esSuccessRate :: rat

definition count_event :: "probeEvent \<Rightarrow> eventStats \<Rightarrow> eventStats" where
  "count_event e s =
     (let s1 = s\<lparr>wsProbeCount := wsProbeCount s + 1\<rparr>
      in case peOutcome e of
           OutcomeSuccess \<Rightarrow> s1\<lparr>wsSuccessCount := wsSuccessCount s + 1\<rparr>
         | OutcomeFailure \<Rightarrow> s1\<lparr>wsFailureCount := wsFailureCount s + 1\<rparr>
         | OutcomeTimeout \<Rightarrow> s1\<lparr>wsTimeoutCount := wsTimeoutCount s + 1\<rparr>
         | OutcomeSkipped \<Rightarrow> s1\<lparr>esSkippedCount := esSkippedCount s + 1\<rparr>
         | _ \<Rightarrow> s1)"

definition summarizeEvents :: "probeEvent list \<Rightarrow> eventStats" where
  "summarizeEvents events =
     (let s = fold count_event events \<lparr>wsProbeCount = 0, wsSuccessCount = 0, wsFailureCount = 0, wsTimeoutCount = 0, esSkippedCount = 0, esSuccessRate = 0\<rparr>;
          attempts = wsSuccessCount s + wsFailureCount s + wsTimeoutCount s
      in if attempts > 0 then s\<lparr>esSuccessRate := of_int (wsSuccessCount s) * 100 / of_int attempts\<rparr> else s)"

record modelSummary =
  msModelID :: model_id
  msPublicID :: string
  msDisplayName :: string
  msKind :: string
  msProvider :: string
  msEnabled :: bool
  msStatus :: healthStatus
  msStats :: eventStats
  msLatest :: "latestState option"
  msBuckets :: "bucket list"

definition rangeSpecFor :: "string \<Rightarrow> (duration \<times> int) option" where
  "rangeSpecFor name =
     (if name = ''1h'' then Some (60 * minute, 60)
      else if name = ''6h'' then Some (6 * 60 * minute, 60)
      else if name = ''24h'' then Some (24 * 60 * minute, 60)
      else if name = ''7d'' then Some (7 * 24 * 60 * minute, 60)
      else None)"

definition statusRank :: "healthStatus \<Rightarrow> int" where
  "statusRank s =
     (case s of StatusHealthy \<Rightarrow> 0 | StatusDegraded \<Rightarrow> 1 | StatusStale \<Rightarrow> 2 | StatusUnavailable \<Rightarrow> 3 | StatusUnchecked \<Rightarrow> 4 | StatusUnconfigured \<Rightarrow> 5)"

definition compareTimes :: "time option \<Rightarrow> time option \<Rightarrow> int" where
  "compareTimes left right =
     (case (left, right) of
        (None, None) \<Rightarrow> 0
      | (None, Some _) \<Rightarrow> - 1
      | (Some _, None) \<Rightarrow> 1
      | (Some l, Some r) \<Rightarrow> if l < r then - 1 else if l > r then 1 else 0)"

definition latency_of :: "modelSummary \<Rightarrow> int" where
  "latency_of s = (case msLatest s of None \<Rightarrow> 4611686018427387903 | Some l \<Rightarrow> lsDurationMS l)"

definition summary_less :: "string \<Rightarrow> modelSummary \<Rightarrow> modelSummary \<Rightarrow> bool" where
  "summary_less sortName left right =
     (let rate = (\<lambda>s. esSuccessRate (msStats s)); probes = (\<lambda>s. wsProbeCount (msStats s)); rank = (\<lambda>s. statusRank (msStatus s));
          recent = compareTimes (map_option lsLastProbeAt (msLatest left)) (map_option lsLastProbeAt (msLatest right));
          by_id = (msPublicID left < msPublicID right)
      in if sortName = ''quality'' then
           (if rate left \<noteq> rate right then rate left > rate right
            else if probes left \<noteq> probes right then probes left > probes right else by_id)
         else if sortName = ''availability'' then
           (if rank left \<noteq> rank right then rank left < rank right
            else if rate left \<noteq> rate right then rate left > rate right else by_id)
         else if sortName = ''latency'' then (if latency_of left \<noteq> latency_of right then latency_of left < latency_of right else by_id)
         else if sortName = ''volume'' then (if probes left \<noteq> probes right then probes left > probes right else by_id)
         else if sortName = ''name'' then (if msDisplayName left \<noteq> msDisplayName right then msDisplayName left < msDisplayName right else by_id)
         else if sortName = ''recent'' then (if recent \<noteq> 0 then recent > 0 else by_id)
         else by_id)"

definition sortModelSummaries :: "string \<Rightarrow> modelSummary list \<Rightarrow> modelSummary list" where
  "sortModelSummaries sortName items = slice_stable (summary_less sortName) items"

text \<open>One line of the summary. The buckets of the four ranges never panic (\<open>summary_buckets\<close>), so the panic is not carried along.\<close>

definition summary_item :: "time \<Rightarrow> time \<Rightarrow> int \<Rightarrow> summarySnapshot \<Rightarrow> catalogModel \<Rightarrow> modelSummary option" where
  "summary_item start now n snap m =
     (let events = filter (\<lambda>e. peModelID e = cmID m) (snapEvents snap);
          stats = summarizeEvents events;
          latest = snapLatest snap (cmID m)
      in map_option (\<lambda>buckets.
           \<lparr>msModelID = cmID m, msPublicID = cmPublicID m, msDisplayName = cmDisplayName m, msKind = cmKind m, msProvider = model_provider m,
            msEnabled = cmEnabled m,
            msStatus = ClassifyStatus latest (windowStats.truncate stats) now (wrap64 (hsIntervalSeconds (snapSettings snap) * second)),
            msStats = stats, msLatest = latest, msBuckets = buckets\<rparr>) (BuildBuckets start now n events))"

record healthSummary =
  sumRange :: string
  sumFrom :: time
  sumTo :: time
  sumModels :: "modelSummary list"
  sumTotal :: int
  sumCounts :: "healthStatus \<Rightarrow> int"
  sumSettings :: healthSettings

fun all_some :: "'a option list \<Rightarrow> 'a list option" where
  "all_some [] = Some []"
| "all_some (x # xs) = (case x of None \<Rightarrow> None | Some v \<Rightarrow> map_option ((#) v) (all_some xs))"

datatype summaryResult = SummaryError goError | SummaryPanic | SummaryOk healthSummary

definition health_Summary :: "goError + catalogModel list \<Rightarrow> (nat \<Rightarrow> goError) \<Rightarrow> string \<Rightarrow> string \<Rightarrow> time \<Rightarrow> healthDB \<Rightarrow> summaryResult" where
  "health_Summary catalog err rangeName sortName now db =
     (case rangeSpecFor rangeName of
        None \<Rightarrow> SummaryError [OtherError ''model health range is invalid'']
      | Some (width, n) \<Rightarrow>
          (case catalog of
             Inl e \<Rightarrow> SummaryError (Wrapped ''list models for health summary'' # e)
           | Inr listed \<Rightarrow>
               (case SummarySnapshot err (now - width) now db of
                  Inl e \<Rightarrow> SummaryError e
                | Inr snap \<Rightarrow>
                    (case all_some (map (summary_item (now - width) now n snap) listed) of
                       None \<Rightarrow> SummaryPanic
                     | Some items \<Rightarrow>
                         let sorted = sortModelSummaries sortName items
                         in SummaryOk \<lparr>sumRange = rangeName, sumFrom = now - width, sumTo = now, sumModels = sorted, sumTotal = int (length sorted),
                              sumCounts = (\<lambda>s. int (length (filter (\<lambda>i. msStatus i = s) sorted))), sumSettings = snapSettings snap\<rparr>))))"

subsection \<open>The order of the summary\<close>

text \<open>A key for each sort name, compared lexicographically.\<close>

definition health_summary_key :: "string \<Rightarrow> modelSummary \<Rightarrow> rat \<times> rat \<times> string \<times> string" where
  "health_summary_key sortName s =
     (let rate = esSuccessRate (msStats s); probes = of_int (wsProbeCount (msStats s)); i = msPublicID s
      in if sortName = ''quality'' then (- rate, - probes, [], i)
         else if sortName = ''availability'' then (of_int (statusRank (msStatus s)), - rate, [], i)
         else if sortName = ''latency'' then (of_int (latency_of s), 0, [], i)
         else if sortName = ''volume'' then (- probes, 0, [], i)
         else if sortName = ''name'' then (0, 0, msDisplayName s, i)
         else if sortName = ''recent'' then
           (case msLatest s of None \<Rightarrow> (1, 0, [], i) | Some l \<Rightarrow> (0, - of_int (lsLastProbeAt l), [], i))
         else (0, 0, [], i))"

lemma summary_less_key: "summary_less sortName a b \<longleftrightarrow> health_summary_key sortName a < health_summary_key sortName b"
proof -
  consider "sortName = ''quality''" | "sortName = ''availability''" | "sortName = ''latency''" | "sortName = ''volume''" | "sortName = ''name''"
    | "sortName = ''recent''" | "sortName \<noteq> ''quality''" "sortName \<noteq> ''availability''" "sortName \<noteq> ''latency''" "sortName \<noteq> ''volume''"
        "sortName \<noteq> ''name''" "sortName \<noteq> ''recent''"
    by argo
  then show ?thesis
  proof cases
    case 6
    then show ?thesis
      by (cases "msLatest a"; cases "msLatest b") (auto simp: summary_less_def health_summary_key_def Let_def less_prod_simp compareTimes_def)
  qed (auto simp: summary_less_def health_summary_key_def Let_def less_prod_simp)
qed

lemma sort_summaries: "sortModelSummaries sortName items = sort_key (health_summary_key sortName) items"
  unfolding sortModelSummaries_def by (rule slice_stable_sort_key) (rule summary_less_key)

subsection \<open>The summary is complete\<close>

lemma snapshot_ok:
  assumes "\<forall>k. err k = nil_error"
  shows "SummarySnapshot err start stop db
    = Inr \<lparr>snapEvents = (if stop > start then sort_key (\<lambda>e. stored_key (peCreatedAt e))
               (filter (\<lambda>e. \<not> stored_before (peCreatedAt e) start \<and> stored_before (peCreatedAt e) stop) (hdProbes db)) else []),
        snapLatest = hdLatest db, snapSettings = hdSettings db\<rparr>"
  using assms by (cases "stop > start") (simp_all add: SummarySnapshot_def listEvents_def listLatest_def loadSettings_def)

lemma rangeSpec_cases:
  "rangeSpecFor name = Some (width, n) \<Longrightarrow> n = 60 \<and> 60 * minute \<le> width \<and> width \<le> 7 * 24 * 60 * minute"
  by (auto simp: rangeSpecFor_def split: if_splits)

lemma summary_buckets:
  assumes "rangeSpecFor name = Some (width, n)"
  shows "\<exists>bs. BuildBuckets (now - width) now n events = Some bs \<and> length bs = 60"
  using buckets_by_interval [of n now "now - width" events] rangeSpec_cases [OF assms] by simp

lemma all_some_map: "(\<And>x. x \<in> set xs \<Longrightarrow> f x = Some (g x)) \<Longrightarrow> all_some (map f xs) = Some (map g xs)"
  by (induction xs) auto

lemma counts_partition: "(\<Sum>s \<in> UNIV. int (length (filter (\<lambda>i. msStatus i = s) items))) = int (length items)"
proof -
  have univ: "(UNIV :: healthStatus set) = {StatusHealthy, StatusDegraded, StatusUnavailable, StatusUnchecked, StatusStale, StatusUnconfigured}"
    by (auto intro: healthStatus.exhaust)
  show ?thesis
  proof (induction items)
    case (Cons i items)
    then show ?case
      by (cases "msStatus i") (simp_all add: univ)
  qed simp
qed

text \<open>Unless a query fails, the summary of each of the four ranges is built without a panic; it lists every model of the catalogue
  once, in the requested order, each with sixty buckets, and the counts of the six states add up to the number of models.\<close>

theorem summary_complete:
  assumes "rangeSpecFor rangeName = Some (width, n)" "\<forall>k. err k = nil_error"
  shows "\<exists>r. health_Summary (Inr listed) err rangeName sortName now db = SummaryOk r
    \<and> mset (map msModelID (sumModels r)) = mset (map cmID listed) \<and> sumTotal r = int (length listed)
    \<and> sorted_wrt (\<lambda>a b. \<not> summary_less sortName b a) (sumModels r) \<and> (\<forall>i \<in> set (sumModels r). length (msBuckets i) = 60)
    \<and> (\<Sum>s \<in> UNIV. sumCounts r s) = sumTotal r"
proof -
  obtain snap where snap: "SummarySnapshot err (now - width) now db = Inr snap"
    using snapshot_ok [OF assms(2)] by blast
  have item: "\<exists>i. summary_item (now - width) now n snap m = Some i \<and> msModelID i = cmID m \<and> length (msBuckets i) = 60" for m
    using summary_buckets [OF assms(1)] by (fastforce simp: summary_item_def Let_def)
  define g where "g = (\<lambda>m. the (summary_item (now - width) now n snap m))"
  have g: "summary_item (now - width) now n snap m = Some (g m)" "msModelID (g m) = cmID m" "length (msBuckets (g m)) = 60" for m
    using item [of m] by (auto simp: g_def)
  have all: "all_some (map (summary_item (now - width) now n snap) listed) = Some (map g listed)"
    by (rule all_some_map) (rule g(1))
  let ?sorted = "sortModelSummaries sortName (map g listed)"
  have "sorted_wrt (\<lambda>a b. \<not> summary_less sortName b a) ?sorted"
    using sorted_sort_key [of "health_summary_key sortName" "map g listed"]
    by (simp add: sort_summaries summary_less_key sorted_map not_less)
  moreover have "mset (map msModelID ?sorted) = mset (map cmID listed)"
    by (simp add: sort_summaries multiset.map_comp comp_def g(2))
  ultimately show ?thesis
    using assms(1) g(3) by (auto simp: health_Summary_def snap all Let_def sort_summaries counts_partition)
qed

definition sample_model :: catalogModel where
  "sample_model = \<lparr>cmID = 1, cmPublicID = ''m'', cmDisplayName = ''M'', cmKind = ''chat'', cmProvider = [], cmEnabled = True\<rparr>"

theorem summary_complete_witness:
  "\<exists>r. health_Summary (Inr [sample_model]) (\<lambda>k. nil_error) ''24h'' ''quality'' (1000000 * second) sample_health = SummaryOk r
    \<and> (\<Sum>s \<in> UNIV. sumCounts r s) = 1"
  using summary_complete [of "''24h''" "24 * 60 * minute" 60 "\<lambda>k. nil_error" "[sample_model]" "''quality''" "1000000 * second" sample_health]
  by (auto simp: rangeSpecFor_def)

subsection \<open>Cooling keys and missing keys\<close>

lemma AvailableIDs_none: "FirstEnabledID now s = Inl err \<Longrightarrow> err = Wrapped ''find first enabled NVIDIA key'' # ErrNoRows"
  by (auto simp: FirstEnabledID_def split: list.splits)

lemma select_without_key:
  assumes "AvailableIDs now s = []" "m \<in> set listed" "model_provider m = ProviderNVIDIA"
  shows "selectNVIDIAKey (Some (FirstEnabledID now s, Inr (int (CountEnabled s)))) listed
    = (0, if CountEnabled s > 0 then [errAllKeysCooling] else Wrapped ''find first enabled NVIDIA key'' # ErrNoRows)"
  using assms by (auto simp: selectNVIDIAKey_def list_ex_iff FirstEnabledID_def errors_is_def ErrNoRows_def)

lemma summarize_positive: "e \<in> set events \<Longrightarrow> 0 < wsProbeCount (summarizeEvents events)"
proof -
  have fold: "wsProbeCount (fold count_event es s) = wsProbeCount s + int (length es)" for es and s :: eventStats
  proof (induction es arbitrary: s)
    case (Cons e es)
    then show ?case by (cases "peOutcome e") (simp_all add: count_event_def Let_def)
  qed simp
  assume "e \<in> set events"
  then have "0 < length events" by (cases events) auto
  then show ?thesis
    using fold by (simp add: summarizeEvents_def Let_def)
qed

text \<open>When no key is available, what the dashboard shows for a probed model of the pool tells why: unavailable while enabled keys cool
  down, unconfigured when there is no enabled key; this holds until two intervals after the probe.\<close>

theorem missing_key_shown:
  assumes "AvailableIDs now s = []" "m \<in> set listed" "model_provider m = ProviderNVIDIA"
    and "health_typed db" "cmID m \<in> set (hdModels db)" "0 < cmID m" "0 < now"
    and "rangeSpecFor rangeName = Some (width, n)"
    and "now + second \<le> later" "later - width + second \<le> now" "later \<le> now + 2 * (hsIntervalSeconds (hdSettings db) * second)"
  shows "\<exists>db' snap. health_probeOne test False (fst (selectNVIDIAKey (Some (FirstEnabledID now s, Inr (int (CountEnabled s)))) listed))
        (snd (selectNVIDIAKey (Some (FirstEnabledID now s, Inr (int (CountEnabled s)))) listed)) m elapsed now (\<lambda>k. nil_error) db = (nil_error, db')
    \<and> SummarySnapshot (\<lambda>k. nil_error) (later - width) later db' = Inr snap
    \<and> map_option msStatus (summary_item (later - width) later n snap m)
        = Some (if CountEnabled s > 0 then StatusUnavailable else StatusUnconfigured)"
proof -
  let ?code = "if CountEnabled s > 0 then ''keys_cooling'' else ''no_credential''"
  let ?e = "\<lparr>peID = 0, peModelID = cmID m, peOutcome = OutcomeSkipped, peDurationMS = (if elapsed < 0 then 0 else elapsed), peErrorCode = ?code, peCreatedAt = now\<rparr>"
  let ?key = "selectNVIDIAKey (Some (FirstEnabledID now s, Inr (int (CountEnabled s)))) listed"
  define db' where "db' = snd (health_Record (\<lambda>k. nil_error) ?e db)"
  have "probe_outcome test False (fst ?key) (snd ?key) m = (OutcomeSkipped, ?code)"
    by (simp add: probe_outcome_def select_without_key [OF assms(1-3)] assms(3) errors_is_def errAllKeysCooling_def ErrNoRows_def)
  then have probe: "health_probeOne test False (fst ?key) (snd ?key) m elapsed now (\<lambda>k. nil_error) db = (nil_error, db')"
    using assms(5-7) by (simp add: health_probeOne_def db'_def health_Record_def validOutcome_def nextConsecutiveFailures_def)
  have latest: "hdLatest db' (cmID m) = Some \<lparr>lsOutcome = OutcomeSkipped, lsDurationMS = (if elapsed < 0 then 0 else elapsed), lsErrorCode = ?code,
      lsLastProbeAt = now, lsConsecutiveFailures = 0\<rparr>" and probes: "hdProbes db' = hdProbes db @ [?e\<lparr>peID := hdLastID db + 1\<rparr>]" "hdSettings db' = hdSettings db"
    using assms(5-7) by (simp_all add: db'_def health_Record_def validOutcome_def nextConsecutiveFailures_def)
  obtain snap where snap: "SummarySnapshot (\<lambda>k. nil_error) (later - width) later db' = Inr snap"
    using snapshot_ok [of "\<lambda>k. nil_error"] by blast
  have width: "60 * minute \<le> width" "n = 60"
    using rangeSpec_cases [OF assms(8)] by simp_all
  have "?e\<lparr>peID := hdLastID db + 1\<rparr> \<in> set (snapEvents snap)" and parts: "snapLatest snap = hdLatest db'" "snapSettings snap = hdSettings db"
    using snap stored_far [OF assms(9)] stored_far [OF assms(10)] width probes
    by (auto simp: snapshot_ok)
  then have "?e\<lparr>peID := hdLastID db + 1\<rparr> \<in> set (filter (\<lambda>e. peModelID e = cmID m) (snapEvents snap))"
    by simp
  then have counted: "0 < wsProbeCount (summarizeEvents (filter (\<lambda>e. peModelID e = cmID m) (snapEvents snap)))"
    by (rule summarize_positive)
  have interval: "10 \<le> hsIntervalSeconds (hdSettings db)" "hsIntervalSeconds (hdSettings db) \<le> 3600"
    using assms(4) by (auto simp: health_typed_def ValidateSettings_def MinIntervalSeconds_def MaxIntervalSeconds_def split: if_splits)
  then have "wrap64 (hsIntervalSeconds (hdSettings db) * second) = hsIntervalSeconds (hdSettings db) * second"
    by (simp add: in_int64_def)
  then have status: "ClassifyStatus (hdLatest db' (cmID m)) (windowStats.truncate (summarizeEvents (filter (\<lambda>e. peModelID e = cmID m) (snapEvents snap)))) later
      (wrap64 (hsIntervalSeconds (snapSettings snap) * second)) = (if CountEnabled s > 0 then StatusUnavailable else StatusUnconfigured)"
    using latest counted interval assms(7,11) by (simp add: ClassifyStatus_def parts Let_def windowStats.defs)
  obtain bs where "BuildBuckets (later - width) later n (filter (\<lambda>e. peModelID e = cmID m) (snapEvents snap)) = Some bs"
    using summary_buckets [OF assms(8)] by blast
  then have "map_option msStatus (summary_item (later - width) later n snap m) = Some (if CountEnabled s > 0 then StatusUnavailable else StatusUnconfigured)"
    using status by (simp add: summary_item_def Let_def parts)
  then show ?thesis
    using probe snap by blast
qed

theorem missing_key_shown_witness:
  "let s = \<lparr>keyRows = [], keyBlocks = [], lastKeyID = 0\<rparr>; key = selectNVIDIAKey (Some (FirstEnabledID (7 * second) s, Inr (int (CountEnabled s)))) [sample_model]
   in \<exists>db' snap. health_probeOne (\<lambda>p k m. nil_error) False (fst key) (snd key) sample_model 0 (7 * second) (\<lambda>k. nil_error)
          (catalog_insert 1 initial_health) = (nil_error, db')
     \<and> SummarySnapshot (\<lambda>k. nil_error) (9 * second - 60 * minute) (9 * second) db' = Inr snap
     \<and> map_option msStatus (summary_item (9 * second - 60 * minute) (9 * second) 60 snap sample_model) = Some StatusUnconfigured"
  using missing_key_shown [of "7 * second" "\<lparr>keyRows = [], keyBlocks = [], lastKeyID = 0\<rparr>" sample_model "[sample_model]" "catalog_insert 1 initial_health"
      "''1h''" "60 * minute" 60 "9 * second" "\<lambda>p k m. nil_error" 0]
  by (simp add: AvailableIDs_def CountEnabled_def sample_model_def model_provider_def catalog_insert_def initial_health_def health_typed_def ValidateSettings_def
      MinIntervalSeconds_def MaxIntervalSeconds_def MinConcurrency_def MaxConcurrency_def rangeSpecFor_def)

subsection \<open>The workers of a run\<close>

text \<open>What one probe does, as a function of the models and of the latest state of its own model.\<close>

definition probe_effect ::
  "(string \<Rightarrow> key_id \<Rightarrow> model_id \<Rightarrow> goError) \<Rightarrow> key_id \<times> goError \<Rightarrow> catalogModel \<times> probeAnswer \<Rightarrow> model_id list \<Rightarrow> latestState option
    \<Rightarrow> goError \<times> (probeEvent \<times> latestState) option" where
  "probe_effect test key ma known l =
     (let r = health_probeOne test (paEnded (snd ma)) (fst key) (snd key) (fst ma) (paElapsed (snd ma)) (paNow (snd ma)) (paErr (snd ma))
            \<lparr>hdModels = known, hdProbes = [], hdLastID = - 1, hdLatest = (\<lambda>k. l), hdSettings = DefaultSettings\<rparr>
      in (fst r, if hdProbes (snd r) = [] then None else Some (hd (hdProbes (snd r)), the (hdLatest (snd r) (cmID (fst ma))))))"

definition apply_effect :: "model_id \<Rightarrow> (probeEvent \<times> latestState) option \<Rightarrow> healthDB \<Rightarrow> healthDB" where
  "apply_effect m u db =
     (case u of
        None \<Rightarrow> db
      | Some (e, l) \<Rightarrow> db\<lparr>hdProbes := hdProbes db @ [e\<lparr>peID := hdLastID db + 1\<rparr>], hdLastID := hdLastID db + 1, hdLatest := (hdLatest db)(m \<mapsto> l)\<rparr>)"

lemma record_effect:
  "health_Record err e db = (case health_Record err e \<lparr>hdModels = hdModels db, hdProbes = [], hdLastID = - 1, hdLatest = (\<lambda>k. hdLatest db (peModelID e)), hdSettings = DefaultSettings\<rparr> of
     (er, d) \<Rightarrow> (er, apply_effect (peModelID e) (if hdProbes d = [] then None else Some (hd (hdProbes d), the (hdLatest d (peModelID e)))) db))"
  by (simp add: health_Record_def nextConsecutiveFailures_def apply_effect_def split: sum.split option.split)

lemma run_probe_effect:
  "run_probe test key ma (errs, db) = (case probe_effect test key ma (hdModels db) (hdLatest db (cmID (fst ma))) of
     (er, u) \<Rightarrow> (if er = nil_error then errs else errs @ [er], apply_effect (cmID (fst ma)) u db))"
proof -
  obtain out code where po: "probe_outcome test (paEnded (snd ma)) (fst key) (snd key) (fst ma) = (out, code)"
    by (cases "probe_outcome test (paEnded (snd ma)) (fst key) (snd key) (fst ma)")
  let ?e = "\<lparr>peID = 0, peModelID = cmID (fst ma), peOutcome = out, peDurationMS = (if paElapsed (snd ma) < 0 then 0 else paElapsed (snd ma)),
      peErrorCode = code, peCreatedAt = paNow (snd ma)\<rparr>"
  show ?thesis
    using record_effect [of "paErr (snd ma)" ?e db]
    by (auto simp: run_probe_def probe_effect_def health_probeOne_def po Let_def split: prod.splits)
qed

type_synonym healthView = "goError multiset \<times> model_id list \<times> (model_id \<rightharpoonup> latestState) \<times> probeEvent multiset"

definition clear_id :: "probeEvent \<Rightarrow> probeEvent" where "clear_id e = e\<lparr>peID := 0\<rparr>"

definition view_of :: "goError list \<times> healthDB \<Rightarrow> healthView" where
  "view_of acc = (mset (fst acc), hdModels (snd acc), hdLatest (snd acc), image_mset clear_id (mset (hdProbes (snd acc))))"

definition view_step ::
  "(string \<Rightarrow> key_id \<Rightarrow> model_id \<Rightarrow> goError) \<Rightarrow> key_id \<times> goError \<Rightarrow> catalogModel \<times> probeAnswer \<Rightarrow> healthView \<Rightarrow> healthView" where
  "view_step test key ma v =
     (case v of (errs, known, latest, probes) \<Rightarrow>
        case probe_effect test key ma known (latest (cmID (fst ma))) of
          (er, u) \<Rightarrow> (if er = nil_error then errs else add_mset er errs, known,
             case u of None \<Rightarrow> latest | Some (e, l) \<Rightarrow> latest(cmID (fst ma) \<mapsto> l),
             case u of None \<Rightarrow> probes | Some (e, l) \<Rightarrow> add_mset (clear_id e) probes))"

lemma view_run: "view_of (run_probe test key ma acc) = view_step test key ma (view_of acc)"
proof -
  obtain errs db where acc: "acc = (errs, db)" by (cases acc)
  obtain er u where eff: "probe_effect test key ma (hdModels db) (hdLatest db (cmID (fst ma))) = (er, u)"
    by (cases "probe_effect test key ma (hdModels db) (hdLatest db (cmID (fst ma)))")
  show ?thesis
    by (cases u) (auto simp: acc run_probe_effect eff view_of_def view_step_def apply_effect_def clear_id_def)
qed

lemma view_fold: "view_of (fold (run_probe test key) schedule acc) = fold (view_step test key) schedule (view_of acc)"
  by (induction schedule arbitrary: acc) (simp_all add: view_run)

lemma view_commute:
  assumes "cmID (fst x) \<noteq> cmID (fst y)"
  shows "view_step test key x \<circ> view_step test key y = view_step test key y \<circ> view_step test key x"
proof
  fix v :: healthView
  obtain errs known latest probes where v: "v = (errs, known, latest, probes)" by (cases v)
  obtain ex ux where x: "probe_effect test key x known (latest (cmID (fst x))) = (ex, ux)"
    by (cases "probe_effect test key x known (latest (cmID (fst x)))")
  obtain ey uy where y: "probe_effect test key y known (latest (cmID (fst y))) = (ey, uy)"
    by (cases "probe_effect test key y known (latest (cmID (fst y)))")
  show "(view_step test key x \<circ> view_step test key y) v = (view_step test key y \<circ> view_step test key x) v"
    using assms by (cases ux; cases uy) (auto simp: v view_step_def x y fun_upd_twist add_mset_commute)
qed

lemma filter_clear: "(\<And>e. P (clear_id e) = P e) \<Longrightarrow> image_mset clear_id (filter_mset P A) = filter_mset P (image_mset clear_id A)"
  by (induction A) auto

text \<open>C40: A run over models with distinct ids leaves the same latest states, the same probes up to their ids and the same errors in
  whatever order its workers record the results.\<close>

theorem run_order_irrelevant:
  assumes "distinct (map (\<lambda>ma. cmID (fst ma)) schedule)" "mset schedule' = mset schedule"
  shows "view_of (RunOnce settingsErr catalog source test schedule' cancelled ended now pruneErr db)
    = view_of (RunOnce settingsErr catalog source test schedule cancelled ended now pruneErr db)"
proof (cases "\<exists>listed. catalog = Inr listed \<and> settingsErr = nil_error")
  case False
  then show ?thesis
    by (cases catalog) (auto simp: RunOnce_def loadSettings_def)
next
  case True
  then obtain listed where ok: "catalog = Inr listed" "settingsErr = nil_error" by blast
  let ?key = "selectNVIDIAKey source listed"
  obtain e1 d1 where r1: "fold (run_probe test ?key) schedule' ([], db) = (e1, d1)"
    by (cases "fold (run_probe test ?key) schedule' ([], db)")
  obtain e2 d2 where r2: "fold (run_probe test ?key) schedule ([], db) = (e2, d2)"
    by (cases "fold (run_probe test ?key) schedule ([], db)")
  have "fold (view_step test ?key) schedule' = fold (view_step test ?key) schedule"
  proof (rule fold_multiset_equiv [OF _ assms(2)])
    fix x y assume "x \<in> set schedule'" "y \<in> set schedule'"
    then have "x \<in> set schedule" "y \<in> set schedule"
      using mset_eq_setD [OF assms(2)] by simp_all
    then show "view_step test ?key x \<circ> view_step test ?key y = view_step test ?key y \<circ> view_step test ?key x"
      using assms(1) by (cases "x = y") (auto simp: distinct_map inj_on_def intro!: view_commute)
  qed
  then have same: "view_of (e1, d1) = view_of (e2, d2)"
    using view_fold [of test ?key schedule' "([], db)"] view_fold [of test ?key schedule "([], db)"] by (simp add: r1 r2)
  have prune: "view_of (errs, snd (DeleteProbesBefore er cutoff d))
      = (mset errs, hdModels d, hdLatest d, if er = nil_error then filter_mset (\<lambda>e. \<not> stored_before (peCreatedAt e) cutoff) (image_mset clear_id (mset (hdProbes d)))
           else image_mset clear_id (mset (hdProbes d)))" for errs er cutoff d
    using filter_clear [of "\<lambda>e. \<not> stored_before (peCreatedAt e) cutoff" "mset (hdProbes d)"]
    by (simp add: view_of_def DeleteProbesBefore_def clear_id_def)
  have run: "RunOnce settingsErr catalog source test sch cancelled ended now pruneErr db = (case fold (run_probe test ?key) sch ([], db) of
      (errs, d) \<Rightarrow> if cancelled \<noteq> nil_error then ([cancelled], d)
        else (errs, if ended then d else snd (DeleteProbesBefore pruneErr (now - probeRetention) d)))" for sch
    by (simp add: RunOnce_def loadSettings_def ok)
  show ?thesis
    using same by (simp add: run r1 r2 prune) (simp add: view_of_def)
qed

theorem run_order_irrelevant_witness:
  "view_of (RunOnce nil_error (Inr []) None (\<lambda>p k m. nil_error)
      [(sample_model\<lparr>cmID := 2\<rparr>, \<lparr>paEnded = False, paElapsed = 3, paNow = 9, paErr = \<lambda>k. nil_error\<rparr>), (sample_model, \<lparr>paEnded = True, paElapsed = 4, paNow = 8, paErr = \<lambda>k. nil_error\<rparr>)]
      nil_error False 10 nil_error sample_health)
   = view_of (RunOnce nil_error (Inr []) None (\<lambda>p k m. nil_error)
      [(sample_model, \<lparr>paEnded = True, paElapsed = 4, paNow = 8, paErr = \<lambda>k. nil_error\<rparr>), (sample_model\<lparr>cmID := 2\<rparr>, \<lparr>paEnded = False, paElapsed = 3, paNow = 9, paErr = \<lambda>k. nil_error\<rparr>)]
      nil_error False 10 nil_error sample_health)"
  by (rule run_order_irrelevant) (simp_all add: sample_model_def add_mset_commute)

end
