(* ===== verification/Json_Text.thy ===== *)
theory Json_Text
  imports Json
begin

text \<open>
  Writing JSON: \<open>spell\<close> is what \<open>json.Compact\<close> makes of a text, \<open>quote\<close> how \<open>json.Marshal\<close> spells a string and
  \<open>escape_html\<close> how it re-spells an embedded raw message. Printing a well spelled value and parsing it
  again gives it back, and every parsed value is well spelled.
\<close>

abbreviation dquote :: char where "dquote \<equiv> CHR 0x22"
abbreviation backslash :: char where "backslash \<equiv> CHR 0x5C"

fun spell :: "raw \<Rightarrow> string" where
  "spell RNull = ''null''"
| "spell (RBool b) = (if b then ''true'' else ''false'')"
| "spell (RNumber n) = n"
| "spell (RString u) = dquote # u @ [dquote]"
| "spell (RArray vs) = CHR ''['' # join_with '','' (map spell vs) @ '']''"
| "spell (RObject ms) = CHR ''{'' # join_with '','' (map (\<lambda>(k, v). dquote # k @ [dquote] @ '':'' @ spell v) ms) @ ''}''"

definition lit_ok :: "string \<Rightarrow> bool" where
  "lit_ok u \<longleftrightarrow> string_lit (u @ [dquote]) = Some (u, [])"

fun well_spelled :: "raw \<Rightarrow> bool" where
  "well_spelled (RNumber n) \<longleftrightarrow> json_number n = Some (n, [])"
| "well_spelled (RString u) \<longleftrightarrow> lit_ok u"
| "well_spelled (RArray vs) \<longleftrightarrow> list_all well_spelled vs"
| "well_spelled (RObject ms) \<longleftrightarrow> list_all (\<lambda>(k, v). lit_ok k \<and> well_spelled v) ms"
| "well_spelled _ \<longleftrightarrow> True"

subsection \<open>Literals\<close>

lemma hex4_blocked: "dquote \<in> set (take 4 s) \<Longrightarrow> hex4 s = None"
proof (cases s rule: hex4.cases)
  case (1 a b c d rest)
  assume "dquote \<in> set (take 4 s)"
  then have "a = dquote \<or> b = dquote \<or> c = dquote \<or> d = dquote" using 1 by auto
  moreover have "hex_value dquote = None" by (simp add: hex_value_def)
  ultimately show ?thesis using 1 by (auto split: option.splits)
qed simp_all

lemma hex4_quote: "hex4 (x @ dquote # r) = map_option (apsnd (\<lambda>y. y @ dquote # r)) (hex4 x)"
proof (cases "length x < 4")
  case True
  then have "hex4 x = None" by (cases x rule: hex4.cases) auto
  moreover have "dquote \<in> set (take 4 (x @ dquote # r))"
    using True by (cases "4 - length x") auto
  ultimately show ?thesis by (simp add: hex4_blocked)
next
  case False
  then obtain a b c d y where "x = a # b # c # d # y" by (cases x rule: hex4.cases) auto
  then show ?thesis by (auto split: option.splits)
qed

lemma unicode_escape_quote:
  "unicode_escape (x @ dquote # r) = map_option (apsnd (\<lambda>y. y @ dquote # r)) (unicode_escape x)"
proof (cases "hex4 x")
  case None
  then show ?thesis by (simp add: unicode_escape_def hex4_quote)
next
  case (Some p)
  obtain hi y where p: "p = (hi, y)" by (cases p)
  have y: "hex4 (x @ dquote # r) = Some (hi, y @ dquote # r)" using Some p by (simp add: hex4_quote)
  consider "y = []" | b where "y = [b]" | b u z where "y = b # u # z" by (metis list.exhaust)
  then show ?thesis
  proof cases
    case 1
    then show ?thesis using Some p y by (auto simp: unicode_escape_def split: list.splits)
  next
    case 2
    then show ?thesis using Some p y by (auto simp: unicode_escape_def split: list.splits)
  next
    case 3
    then show ?thesis using Some p y hex4_quote [of z r] by (auto simp: unicode_escape_def split: option.splits)
  qed
qed

lemma hex4_suffix: "hex4 s = Some (n, rest) \<Longrightarrow> \<exists>p. s = p @ rest"
  by (cases s rule: hex4.cases) (auto split: option.splits)

lemma unicode_escape_suffix: "unicode_escape s = Some (t, rest) \<Longrightarrow> \<exists>p. s = p @ rest"
  unfolding unicode_escape_def
  by (auto dest!: hex4_suffix split: option.splits if_splits list.splits prod.splits)

lemma string_body_literal:
  "string_body n s = Some (t, rest) \<Longrightarrow>
   \<exists>u. s = u @ dquote # rest \<and> (\<forall>m r. length u < m \<longrightarrow> string_body m (u @ dquote # r) = Some (t, r))"
proof (induction n s arbitrary: t rest rule: string_body.induct)
  case (3 n c cs)
  consider (stop) "c = dquote"
    | (uni) cs' where "c = backslash" "cs = CHR ''u'' # cs'"
    | (esc) e cs' where "c = backslash" "cs = e # cs'" "e \<noteq> CHR ''u''"
    | (plain) "c \<noteq> dquote" "c \<noteq> backslash"
    using 3(4) by (cases "c = dquote"; cases "c = backslash"; cases cs) auto
  then show ?case
  proof cases
    case stop
    then show ?thesis using 3(4) by (intro exI [of _ "[]"]) (auto simp: gr0_conv_Suc)
  next
    case uni
    obtain bytes rest1 t1 where e: "unicode_escape cs' = Some (bytes, rest1)" "string_body n rest1 = Some (t1, rest)" "t = bytes @ t1"
      using 3(4) uni by (auto split: option.splits simp: map_apfst_Some)
    obtain u where u: "rest1 = u @ dquote # rest" "\<And>m r. length u < m \<Longrightarrow> string_body m (u @ dquote # r) = Some (t1, r)"
      using 3(1) [of "CHR ''u''" cs' _ bytes rest1] uni e by blast
    obtain p where p: "cs' = p @ u @ dquote # rest" using unicode_escape_suffix [OF e(1)] u(1) by auto
    have q: "unicode_escape (p @ u) = Some (bytes, u)"
      using e(1) unicode_escape_quote [of "p @ u" rest] p u(1) by (cases "unicode_escape (p @ u)") auto
    have "string_body m (c # CHR ''u'' # p @ u @ dquote # r) = Some (t, r)" if b: "length u + length p + 2 < m" for m r
    proof -
      obtain k where k: "m = Suc k" "length u < k" using b by (cases m) auto
      show ?thesis using u(2) [OF k(2)] k(1) q unicode_escape_quote [of "p @ u" r] uni e(3) by simp
    qed
    then show ?thesis using uni p by (intro exI [of _ "c # CHR ''u'' # p @ u"]) auto
  next
    case esc
    obtain d t1 where e: "simple_escape e = Some d" "string_body n cs' = Some (t1, rest)" "t = d # t1"
      using 3(4) esc by (auto split: option.splits simp: map_apfst_Some)
    obtain u where u: "cs' = u @ dquote # rest" "\<And>m r. length u < m \<Longrightarrow> string_body m (u @ dquote # r) = Some (t1, r)"
      using 3(2) [of e cs' d] esc e by blast
    have "string_body m (c # e # u @ dquote # r) = Some (t, r)" if b: "length u + 2 < m" for m r
    proof -
      obtain k where k: "m = Suc k" "length u < k" using b by (cases m) auto
      show ?thesis using u(2) [OF k(2)] k(1) esc e by simp
    qed
    then show ?thesis using esc u(1) by (intro exI [of _ "c # e # u"]) auto
  next
    case plain
    obtain t1 where e: "string_body n cs = Some (t1, rest)" "t = c # t1" "\<not> code_of c < 0x20"
      using 3(4) plain by (auto split: if_splits simp: map_apfst_Some)
    obtain u where u: "cs = u @ dquote # rest" "\<And>m r. length u < m \<Longrightarrow> string_body m (u @ dquote # r) = Some (t1, r)"
      using 3(3) plain e by blast
    have "string_body m (c # u @ dquote # r) = Some (t, r)" if b: "length u + 1 < m" for m r
    proof -
      obtain k where k: "m = Suc k" "length u < k" using b by (cases m) auto
      show ?thesis using u(2) [OF k(2)] k(1) plain e by simp
    qed
    then show ?thesis using plain u(1) by (intro exI [of _ "c # u"]) auto
  qed
qed simp_all

lemma string_lit_shape:
  assumes "string_lit s = Some (u, rest)"
  shows "s = u @ dquote # rest" "string_lit (u @ dquote # r) = Some (u, r)"
proof -
  obtain t where t: "string_body (length s) s = Some (t, rest)" "u = take (length s - Suc (length rest)) s"
    using assms by (auto simp: string_lit_def split: option.splits)
  obtain v where v: "s = v @ dquote # rest" "\<And>m r. length v < m \<Longrightarrow> string_body m (v @ dquote # r) = Some (t, r)"
    using string_body_literal [OF t(1)] by blast
  have "u = v" using t(2) v(1) by simp
  then show "s = u @ dquote # rest" "string_lit (u @ dquote # r) = Some (u, r)"
    using v by (simp_all add: string_lit_def)
qed

lemma lit_ok_parsed: "string_lit s = Some (u, rest) \<Longrightarrow> lit_ok u"
  unfolding lit_ok_def by (rule string_lit_shape(2))

lemma lit_ok_read: "lit_ok u \<Longrightarrow> string_lit (u @ dquote # r) = Some (u, r)"
  unfolding lit_ok_def by (rule string_lit_shape(2))

subsection \<open>Numbers\<close>

definition no_digit :: "string \<Rightarrow> bool" where
  "no_digit r \<longleftrightarrow> (case r of [] \<Rightarrow> True | c # _ \<Rightarrow> \<not> is_digit c)"

definition no_fraction :: "string \<Rightarrow> bool" where
  "no_fraction r \<longleftrightarrow> (case r of [] \<Rightarrow> True | c # _ \<Rightarrow> \<not> is_digit c \<and> c \<noteq> CHR ''.'')"

definition no_number :: "string \<Rightarrow> bool" where
  "no_number r \<longleftrightarrow> (case r of [] \<Rightarrow> True | c # _ \<Rightarrow> \<not> is_digit c \<and> c \<noteq> CHR ''.'' \<and> c \<noteq> CHR ''e'' \<and> c \<noteq> CHR ''E'')"

lemma digits1_split:
  assumes "digits1 s = Some (t, rest)"
  shows "s = t @ rest" "t \<noteq> []" "list_all is_digit t"
  using assms by (auto simp: digits1_def Let_def list_all_iff dest: set_takeWhileD split: if_splits)

lemma digits1_read:
  assumes "t \<noteq> []" "list_all is_digit t" "no_digit r"
  shows "digits1 (t @ r) = Some (t, r)"
proof -
  have "takeWhile is_digit r = []" "dropWhile is_digit r = r" using assms(3) by (auto simp: no_digit_def split: list.splits)
  then show ?thesis using assms(1,2) by (simp add: digits1_def Let_def list_all_iff takeWhile_append2 dropWhile_append2)
qed

lemma int_part_split:
  assumes "int_part s = Some (t, rest)"
  shows "s = t @ rest" "t \<noteq> []" "is_digit (hd t)" "no_digit r \<Longrightarrow> int_part (t @ r) = Some (t, r)"
proof -
  have *: "s = t @ rest \<and> t \<noteq> [] \<and> is_digit (hd t) \<and> (no_digit r \<longrightarrow> int_part (t @ r) = Some (t, r))"
  proof (cases "\<exists>cs. s = CHR ''0'' # cs")
    case True
    then show ?thesis using assms by (auto simp: int_part_def is_digit_def)
  next
    case False
    then have d: "digits1 s = Some (t, rest)" using assms by (auto simp: int_part_def split: list.splits if_splits)
    obtain c cs where t: "t = c # cs" "c \<noteq> CHR ''0''" using digits1_split [OF d] False by (cases t) auto
    then show ?thesis using digits1_split [OF d] digits1_read [of t r] by (auto simp: int_part_def)
  qed
  then show "s = t @ rest" "t \<noteq> []" "is_digit (hd t)" "no_digit r \<Longrightarrow> int_part (t @ r) = Some (t, r)" by blast+
qed

lemma frac_part_split:
  assumes "frac_part s = Some (t, rest)"
  shows "s = t @ rest \<and> (no_digit r \<longrightarrow> no_digit (t @ r)) \<and> (no_fraction r \<longrightarrow> frac_part (t @ r) = Some (t, r))"
proof (cases "\<exists>cs. s = CHR ''.'' # cs")
  case True
  then obtain cs ds where d: "s = CHR ''.'' # cs" "digits1 cs = Some (ds, rest)" "t = CHR ''.'' # ds"
    using assms by (auto simp: frac_part_def map_apfst_Some split: option.splits)
  have "no_fraction r \<Longrightarrow> no_digit r" by (auto simp: no_fraction_def no_digit_def split: list.splits)
  then show ?thesis using d digits1_split [OF d(2)] digits1_read [of ds r]
    by (auto simp: frac_part_def no_digit_def is_digit_def)
next
  case False
  then have "t = [] \<and> rest = s" using assms by (auto simp: frac_part_def split: list.splits if_splits)
  then show ?thesis by (auto simp: frac_part_def no_fraction_def split: list.splits)
qed

lemma exp_part_split:
  assumes "exp_part s = Some (t, rest)"
  shows "s = t @ rest \<and> (no_number r \<longrightarrow> no_fraction (t @ r) \<and> exp_part (t @ r) = Some (t, r))"
proof (cases "\<exists>c cs. s = c # cs \<and> (c = CHR ''e'' \<or> c = CHR ''E'')")
  case True
  then obtain c cs where c: "s = c # cs" "c = CHR ''e'' \<or> c = CHR ''E''" by blast
  have nd: "no_number r \<Longrightarrow> no_digit r" by (auto simp: no_number_def no_digit_def split: list.splits)
  have nf: "no_fraction (c # w)" for w using c(2) by (auto simp: no_fraction_def is_digit_def)
  consider sg w ds where "cs = sg # w" "sg = CHR ''+'' \<or> sg = CHR ''-''" "digits1 w = Some (ds, rest)" "t = c # sg # ds"
    | ds where "digits1 cs = Some (ds, rest)" "t = c # ds" "hd cs \<noteq> CHR ''+''" "hd cs \<noteq> CHR ''-''"
    using assms c by (auto simp: exp_part_def map_apfst_Some split: option.splits list.splits if_splits)
  then show ?thesis
  proof cases
    case 1
    then show ?thesis using c nd nf digits1_split [OF 1(3)] digits1_read [of ds r] by (auto simp: exp_part_def)
  next
    case 2
    obtain d w where w: "ds = d # w" using digits1_split(2) [OF 2(1)] by (cases ds) auto
    then have "d \<noteq> CHR ''+''" "d \<noteq> CHR ''-''" using digits1_split [OF 2(1)] by (auto simp: is_digit_def)
    then show ?thesis using 2 w c nd nf digits1_split [OF 2(1)] digits1_read [of ds r] by (auto simp: exp_part_def)
  qed
next
  case False
  then have "t = [] \<and> rest = s" using assms by (auto simp: exp_part_def split: list.splits if_splits)
  then show ?thesis by (auto simp: exp_part_def no_fraction_def no_number_def split: list.splits)
qed

lemma json_number_split:
  assumes "json_number s = Some (n, rest)"
  shows "s = n @ rest" "no_number r \<Longrightarrow> json_number (n @ r) = Some (n, r)" "n \<noteq> []" "is_digit (hd n) \<or> hd n = CHR ''-''"
proof -
  obtain sign body where sb: "(case s of c # cs \<Rightarrow> if c = CHR ''-'' then ([c], cs) else ([], s) | [] \<Rightarrow> ([], s)) = (sign, body)"
    by fastforce
  obtain i r1 f r2 e where p: "int_part body = Some (i, r1)" "frac_part r1 = Some (f, r2)" "exp_part r2 = Some (e, rest)"
    "n = sign @ i @ f @ e"
    using assms sb by (auto simp: json_number_def split: option.splits prod.splits)
  note I = int_part_split [OF p(1)] and F = frac_part_split [OF p(2)] and E = exp_part_split [OF p(3)]
  have s: "s = sign @ body" "sign = [] \<or> sign = ''-''" using sb by (auto split: list.splits if_splits)
  show "s = n @ rest" using s(1) I(1) F E p(4) by simp
  obtain d w where i: "i = d # w" "is_digit d" using I(2,3) by (cases i) auto
  then have d: "d \<noteq> CHR ''-''" by (auto simp: is_digit_def)
  show "n \<noteq> []" "is_digit (hd n) \<or> hd n = CHR ''-''" using p(4) s(2) i by auto
  show "json_number (n @ r) = Some (n, r)" if "no_number r"
  proof -
    have e: "no_fraction (e @ r)" "exp_part (e @ r) = Some (e, r)" using E that by auto
    then have "no_digit (e @ r)" by (auto simp: no_fraction_def no_digit_def split: list.splits)
    then have f: "no_digit (f @ e @ r)" "frac_part (f @ e @ r) = Some (f, e @ r)" using F e(1) frac_part_split [OF p(2), of "e @ r"] by auto
    have "int_part (i @ f @ e @ r) = Some (i, f @ e @ r)" using int_part_split(4) [OF p(1) f(1)] .
    moreover have "(case n @ r of c # cs \<Rightarrow> if c = CHR ''-'' then ([c], cs) else ([], n @ r) | [] \<Rightarrow> ([], n @ r)) = (sign, i @ f @ e @ r)"
      using s(2) i d p(4) by auto
    ultimately have "json_number (n @ r) = Some (sign @ i @ f @ e, r)" using f(2) e(2) by (simp add: json_number_def)
    then show ?thesis using p(4) by simp
  qed
qed

subsection \<open>Printing and parsing\<close>

definition starts_value :: "char \<Rightarrow> bool" where
  "starts_value c \<longleftrightarrow> \<not> is_json_space c \<and> c \<noteq> CHR '']'' \<and> c \<noteq> CHR ''}''"

lemma skip_ws_start: "\<not> is_json_space c \<Longrightarrow> skip_ws (c # cs) = c # cs"
  by (simp add: skip_ws_def)

lemma spell_start:
  assumes "well_spelled v"
  obtains c cs where "spell v = c # cs" "starts_value c"
proof (cases v)
  case (RNumber n)
  then obtain c cs where n: "n = c # cs" "is_digit c \<or> c = CHR ''-''"
    using assms json_number_split(3,4) [of n n "[]"] by (cases n) auto
  then have "starts_value c" by (auto simp: starts_value_def is_json_space_def is_digit_def)
  then show ?thesis using that RNumber n by simp
next
  case (RBool b)
  then show ?thesis using that [of "hd (spell v)" "tl (spell v)"] by (auto simp: starts_value_def is_json_space_def)
qed (use that [of "hd (spell v)" "tl (spell v)"] in \<open>auto simp: starts_value_def is_json_space_def\<close>)

lemma skip_ws_stop: "c = CHR '','' \<or> c = CHR '']'' \<or> c = CHR ''}'' \<or> c = CHR '':'' \<or> c = dquote \<Longrightarrow> skip_ws (c # cs) = c # cs"
  by (rule skip_ws_start) (auto simp: is_json_space_def)

lemma no_number_stop: "c = CHR '','' \<or> c = CHR '']'' \<or> c = CHR ''}'' \<Longrightarrow> no_number (c # cs)"
  by (auto simp: no_number_def is_digit_def)

lemma elems_spell:
  assumes "\<And>v n r. v \<in> set vs \<Longrightarrow> well_spelled v \<Longrightarrow> no_number r \<Longrightarrow> 2 * length (spell v) \<le> n \<Longrightarrow>
      raw_value n (spell v @ r) = Some (v, r)"
    and "list_all well_spelled vs" "vs \<noteq> []" "2 * length (join_with '','' (map spell vs)) < n"
  shows "raw_elems n (join_with '','' (map spell vs) @ CHR '']'' # r) = Some (vs, r)"
  using assms
proof (induction vs arbitrary: n rule: induct_list012)
  case (2 v)
  obtain k where k: "n = Suc k" "2 * length (spell v) \<le> k" using 2 by (cases n) auto
  show ?case using 2(1) [of v "CHR '']'' # r" k] 2(2) k by (simp add: no_number_stop skip_ws_stop)
next
  case (3 v w vs)
  obtain k where k: "n = Suc k" "2 * length (spell v) \<le> k" "2 * length (join_with '','' (map spell (w # vs))) < k"
    using 3(6) by (cases n) auto
  have "raw_elems k (join_with '','' (map spell (w # vs)) @ CHR '']'' # r) = Some (w # vs, r)"
    using 3(4,5) k(3) by (intro 3(2)) (auto intro: 3(3))
  then show ?case
    using 3(3) [of v "CHR '','' # join_with '','' (map spell (w # vs)) @ CHR '']'' # r" k] 3(4) k
    by (simp add: no_number_stop skip_ws_stop)
qed simp

lemma members_spell:
  assumes "\<And>k v n r. (k, v) \<in> set ms \<Longrightarrow> well_spelled v \<Longrightarrow> no_number r \<Longrightarrow> 2 * length (spell v) \<le> n \<Longrightarrow>
      raw_value n (spell v @ r) = Some (v, r)"
    and "list_all (\<lambda>(k, v). lit_ok k \<and> well_spelled v) ms" "ms \<noteq> []"
    and "2 * length (join_with '','' (map (\<lambda>(k, v). dquote # k @ [dquote] @ '':'' @ spell v) ms)) < n"
  shows "raw_members n (join_with '','' (map (\<lambda>(k, v). dquote # k @ [dquote] @ '':'' @ spell v) ms) @ CHR ''}'' # r) = Some (ms, r)"
  using assms
proof (induction ms arbitrary: n rule: induct_list012)
  case (2 m)
  obtain k v where m: "m = (k, v)" by (cases m)
  obtain i where i: "n = Suc i" "2 * length (spell v) \<le> i" using 2 m by (cases n) auto
  show ?case using 2(1) [of k v "CHR ''}'' # r" i] 2(2) i m
    by (simp add: no_number_stop skip_ws_stop lit_ok_read)
next
  case (3 m w ms)
  obtain k v where m: "m = (k, v)" by (cases m)
  let ?rest = "join_with '','' (map (\<lambda>(k, v). dquote # k @ [dquote] @ '':'' @ spell v) (w # ms))"
  obtain i where i: "n = Suc i" "2 * length (spell v) \<le> i" "2 * length ?rest < i"
    using 3(6) m by (cases n) auto
  have "raw_members i (?rest @ CHR ''}'' # r) = Some (w # ms, r)"
    using 3(4,5) i(3) by (intro 3(2)) (auto intro: 3(3))
  then show ?case
    using 3(3) [of k v "CHR '','' # ?rest @ CHR ''}'' # r" i] 3(4) i m
    by (simp add: no_number_stop skip_ws_stop lit_ok_read)
qed simp

lemma value_spell: "well_spelled v \<Longrightarrow> no_number r \<Longrightarrow> 2 * length (spell v) \<le> n \<Longrightarrow> raw_value n (spell v @ r) = Some (v, r)"
proof (induction v arbitrary: n r)
  case (RNumber u)
  obtain c cs where c: "u = c # cs" "is_digit c \<or> c = CHR ''-''"
    using RNumber json_number_split(3,4) [of u u "[]"] by (cases u) auto
  obtain k where k: "n = Suc k" using RNumber c by (cases n) auto
  have "\<not> is_json_space c" "c \<noteq> dquote" "c \<noteq> CHR ''[''" "c \<noteq> CHR ''{''" "c \<noteq> CHR ''n''" "c \<noteq> CHR ''t''" "c \<noteq> CHR ''f''"
    using c(2) by (auto simp: is_json_space_def is_digit_def)
  then show ?case using RNumber(1) json_number_split(2) [of u u "[]" r] RNumber(2) c k by (simp add: skip_ws_start)
next
  case (RString u)
  obtain k where k: "n = Suc k" using RString by (cases n) auto
  then show ?case using RString by (simp add: skip_ws_stop lit_ok_read)
next
  case (RArray vs)
  obtain k where k: "n = Suc k" using RArray by (cases n) auto
  show ?case
  proof (cases vs)
    case Nil
    then show ?thesis using k by (simp add: skip_ws_def is_json_space_def)
  next
    case (Cons v ws)
    then obtain c cs where c: "spell v = c # cs" "starts_value c" using RArray(2) spell_start [of v] by auto
    obtain ds where j: "join_with '','' (map spell vs) = c # ds" using c Cons by (cases ws) auto
    have "raw_elems k (join_with '','' (map spell vs) @ CHR '']'' # r) = Some (vs, r)"
      using RArray Cons k by (intro elems_spell) auto
    then show ?thesis using j c(2) k by (simp add: skip_ws_start is_json_space_def starts_value_def)
  qed
next
  case (RObject ms)
  obtain k where k: "n = Suc k" using RObject by (cases n) auto
  let ?j = "join_with '','' (map (\<lambda>(k, v). dquote # k @ [dquote] @ '':'' @ spell v) ms)"
  show ?case
  proof (cases ms)
    case Nil
    then show ?thesis using k by (simp add: skip_ws_def is_json_space_def)
  next
    case (Cons m ws)
    obtain ds where j: "?j = dquote # ds" using Cons by (cases m; cases ws) auto
    have "raw_members k (?j @ CHR ''}'' # r) = Some (ms, r)"
      using RObject Cons k by (intro members_spell) auto
    then show ?thesis using j k by (simp add: skip_ws_start is_json_space_def)
  qed
next
  case (RBool b)
  then obtain k where k: "n = Suc k" by (cases n; cases b) auto
  then show ?case by (auto simp: skip_ws_start is_json_space_def literal_def)
next
  case RNull
  then obtain k where k: "n = Suc k" by (cases n) auto
  then show ?case by (simp add: skip_ws_start is_json_space_def literal_def)
qed

lemma parsed_well_spelled:
  "raw_value n s = Some (v, rest) \<Longrightarrow> well_spelled v"
  "raw_elems n s = Some (vs, rest) \<Longrightarrow> list_all well_spelled vs"
  "raw_members n s = Some (ms, rest) \<Longrightarrow> list_all (\<lambda>(k, v). lit_ok k \<and> well_spelled v) ms"
proof (induction n arbitrary: s v rest vs ms)
  case 0
  { case 1 then show ?case by simp }
  { case 2 then show ?case by simp }
  { case 3 then show ?case by simp }
next
  case (Suc n)
  { case 1
    have num: "json_number u = Some (m, r) \<Longrightarrow> json_number m = Some (m, [])" for u m r
      using json_number_split(2) [of u m r "[]"] by (simp add: no_number_def)
    show ?case using 1 Suc.IH(2,3)
      by (auto simp: map_apfst_Some literal_def lit_ok_parsed dest: num split: if_splits list.splits)
  next
    case 2
    then show ?case using Suc.IH(1,2)
      by (auto simp: map_apfst_Some split: if_splits list.splits option.splits)
  next
    case 3
    then show ?case using Suc.IH(1,3)
      by (fastforce simp: map_apfst_Some dest: lit_ok_parsed split: if_splits list.splits option.splits)
  }
qed

lemma raw_parse_spell: "well_spelled v \<Longrightarrow> raw_depth v \<le> maxNestingDepth \<Longrightarrow> raw_parse (spell v) = Some v"
  using value_spell [of v "[]" "2 * length (spell v) + 2"]
  by (simp add: raw_parse_def no_number_def skip_ws_def)

lemma raw_parse_ok: "raw_parse s = Some v \<Longrightarrow> well_spelled v \<and> raw_depth v \<le> maxNestingDepth"
  by (auto simp: raw_parse_def simp del: raw_value.simps dest: parsed_well_spelled split: option.splits if_splits)

subsection \<open>Spelling strings\<close>

definition hex_digit :: "nat \<Rightarrow> char" where
  "hex_digit n = char_of (if n < 10 then 48 + n else 87 + n)"

definition u_escape :: "nat \<Rightarrow> string" where
  "u_escape n = backslash # CHR ''u'' # map hex_digit [n div 4096, n div 256 mod 16, n div 16 mod 16, n mod 16]"

text \<open>How \<open>json.Marshal\<close> writes a byte below 128, and then a string.\<close>

definition quote_char :: "char \<Rightarrow> string" where
  "quote_char c =
     (if c = dquote \<or> c = backslash then [backslash, c]
      else if c = CHR 0x08 then [backslash, CHR ''b''] else if c = CHR 0x0C then [backslash, CHR ''f'']
      else if c = CHR 0x0A then [backslash, CHR ''n''] else if c = CHR 0x0D then [backslash, CHR ''r'']
      else if c = CHR 0x09 then [backslash, CHR ''t'']
      else if code_of c < 0x20 \<or> c = CHR ''<'' \<or> c = CHR ''>'' \<or> c = CHR 0x26 then u_escape (code_of c)
      else [c])"

definition separator_code :: "string \<Rightarrow> nat option" where
  "separator_code s =
     (if s = [CHR 0xE2, CHR 0x80, CHR 0xA8] then Some 0x2028
      else if s = [CHR 0xE2, CHR 0x80, CHR 0xA9] then Some 0x2029 else None)"

fun quote_loop :: "nat \<Rightarrow> string \<Rightarrow> string" where
  "quote_loop 0 s = []"
| "quote_loop (Suc n) s =
     (case s of
        [] \<Rightarrow> []
      | c # cs \<Rightarrow>
          if code_of c < 0x80 then quote_char c @ quote_loop n cs
          else case utf8_len s of
            None \<Rightarrow> backslash # ''ufffd'' @ quote_loop n cs
          | Some k \<Rightarrow>
              (case separator_code (take k s) of Some u \<Rightarrow> u_escape u | None \<Rightarrow> take k s) @ quote_loop n (drop k s))"

definition quote :: "string \<Rightarrow> string" where
  "quote s = quote_loop (length s) s"

definition marshal_string :: "string \<Rightarrow> raw" where
  "marshal_string s = RString (quote s)"

text \<open>A raw message inside a marshalled value is compacted, and these characters are escaped.\<close>

fun escape_html :: "string \<Rightarrow> string" where
  "escape_html [] = []"
| "escape_html (c # cs) =
     (if c = CHR ''<'' \<or> c = CHR ''>'' \<or> c = CHR 0x26 then u_escape (code_of c) @ escape_html cs
      else case cs of
        d # e # es \<Rightarrow>
          (case separator_code [c, d, e] of Some u \<Rightarrow> u_escape u @ escape_html es | None \<Rightarrow> c # escape_html cs)
      | _ \<Rightarrow> c # escape_html cs)"

fun marshal_raw :: "raw \<Rightarrow> raw" where
  "marshal_raw (RString u) = RString (escape_html u)"
| "marshal_raw (RArray vs) = RArray (map marshal_raw vs)"
| "marshal_raw (RObject ms) = RObject (map (\<lambda>(k, v). (escape_html k, marshal_raw v)) ms)"
| "marshal_raw v = v"

subsection \<open>A spelled string is read back\<close>

lemma hex_digit_value: "n < 16 \<Longrightarrow> hex_value (hex_digit n) = Some n"
  by (simp add: hex_value_def hex_digit_def)

lemma unicode_escape_u:
  assumes "x < 0xD800 \<or> 0xE000 \<le> x" "x < 0x10000"
  shows "unicode_escape (map hex_digit [x div 4096, x div 256 mod 16, x div 16 mod 16, x mod 16] @ w) = Some (utf8_encode x, w)"
proof -
  have "x div 4096 < 16" using assms(2) by (simp add: less_mult_imp_div_less)
  moreover have "((x div 4096 * 16 + x div 256 mod 16) * 16 + x div 16 mod 16) * 16 + x mod 16 = x"
  proof -
    have "x div 256 = x div 4096 * 16 + x div 256 mod 16" using div_mult_mod_eq [of "x div 256" 16] by (simp add: div_mult2_eq [symmetric])
    moreover have "x div 16 = x div 256 * 16 + x div 16 mod 16" using div_mult_mod_eq [of "x div 16" 16] by (simp add: div_mult2_eq [symmetric])
    ultimately show ?thesis using div_mult_mod_eq [of x 16] by simp
  qed
  moreover have "\<not> (0xD800 \<le> x \<and> x < 0xDC00)" using assms(1) by linarith
  ultimately show ?thesis by (simp only: list.map append.simps unicode_escape_def hex4.simps hex_digit_value option.case prod.case)
      (simp add: hex_digit_value)
qed

lemma body_u_escape:
  "x < 0xD800 \<Longrightarrow> string_body (Suc m) (u_escape x @ w) = map_option (apfst ((@) (utf8_encode x))) (string_body m w)"
  using unicode_escape_u [of x w] by (simp add: u_escape_def)

lemma body_quote_char:
  assumes "code_of c < 0x80"
  shows "string_body (Suc m) (quote_char c @ w) = map_option (apfst ((#) c)) (string_body m w)"
proof -
  have "utf8_encode (code_of c) = [c]" "(@) [c] = (#) c" using assms by (auto simp: utf8_encode_def)
  then show ?thesis using assms body_u_escape [of "code_of c" m w]
    by (auto simp: quote_char_def simple_escape_def)
qed

lemma body_plain: "list_all (\<lambda>c. 0x80 \<le> code_of c) t \<Longrightarrow>
    string_body (length t + m) (t @ w) = map_option (apfst ((@) t)) (string_body m w)"
proof (induction t)
  case Nil
  show ?case by (cases "string_body m w") auto
next
  case (Cons c t)
  have "c \<noteq> dquote" "c \<noteq> backslash" using Cons(2) by auto
  then show ?case using Cons by (simp add: option.map_comp o_def apfst_compose)
qed

lemma utf8_len_bytes:
  assumes "utf8_len (c # cs) = Some k" "0x80 \<le> code_of c"
  shows "list_all (\<lambda>c. 0x80 \<le> code_of c) (take k (c # cs))" "0 < k" "k \<le> length (c # cs)"
proof -
  consider "cs = []" | d where "cs = [d]" | d e where "cs = [d, e]" | d e f es where "cs = d # e # f # es"
    by (metis list.exhaust)
  then have *: "list_all (\<lambda>c. 0x80 \<le> code_of c) (take k (c # cs)) \<and> 0 < k \<and> k \<le> length (c # cs)"
    using assms by cases (auto simp: utf8_len_def is_cont_def Let_def split: if_splits)
  then show "list_all (\<lambda>c. 0x80 \<le> code_of c) (take k (c # cs))" "0 < k" "k \<le> length (c # cs)" by blast+
qed

lemma separator_bytes:
  "utf8_encode 0x2028 = [CHR 0xE2, CHR 0x80, CHR 0xA8]" "utf8_encode 0x2029 = [CHR 0xE2, CHR 0x80, CHR 0xA9]"
  by (simp_all add: utf8_encode_def char_of_def bit_0)

lemma quote_loop_read:
  "length s \<le> n \<Longrightarrow> \<exists>m. string_body m (quote_loop n s @ dquote # r) = Some (utf8_sanitize n s, r)"
proof (induction n arbitrary: s)
  case 0
  then show ?case by (intro exI [of _ 1]) simp
next
  case (Suc n)
  show ?case
  proof (cases s)
    case Nil
    then show ?thesis by (intro exI [of _ 1]) simp
  next
    case (Cons c cs)
    consider (ascii) "code_of c < 0x80" | (bad) "0x80 \<le> code_of c" "utf8_len s = None"
      | (seq) k where "0x80 \<le> code_of c" "utf8_len s = Some k" by fastforce
    then show ?thesis
    proof cases
      case ascii
      obtain m where "string_body m (quote_loop n cs @ dquote # r) = Some (utf8_sanitize n cs, r)" using Suc Cons by fastforce
      moreover have "utf8_len s = Some 1" using ascii Cons by (simp add: utf8_len_def)
      ultimately show ?thesis using Cons ascii body_quote_char [OF ascii, of m] by (intro exI [of _ "Suc m"]) simp
    next
      case bad
      obtain m where m: "string_body m (quote_loop n cs @ dquote # r) = Some (utf8_sanitize n cs, r)" using Suc Cons by fastforce
      have "unicode_escape (''fffd'' @ w) = Some (utf8_encode 0xFFFD, w)" for w
        by (simp add: unicode_escape_def hex_value_def)
      then show ?thesis using Cons bad m by (intro exI [of _ "Suc m"]) simp
    next
      case seq
      note k = utf8_len_bytes [OF seq(2)[unfolded Cons] seq(1)]
      have "length (drop k s) \<le> n" using Suc(2) k Cons by simp
      then obtain m where m: "string_body m (quote_loop n (drop k s) @ dquote # r) = Some (utf8_sanitize n (drop k s), r)"
        using Suc.IH by blast
      show ?thesis
      proof (cases "separator_code (take k s)")
        case None
        then show ?thesis using Cons seq m body_plain [OF k(1), of m] by (intro exI [of _ "length (take k s) + m"]) simp
      next
        case (Some u)
        then have "utf8_encode u = take k s" "u < 0xD800"
          using separator_bytes by (auto simp: separator_code_def split: if_splits)
        then show ?thesis using Cons seq m Some body_u_escape [of u m] by (intro exI [of _ "Suc m"]) simp
      qed
    qed
  qed
qed

definition valid_utf8 :: "string \<Rightarrow> bool" where
  "valid_utf8 s \<longleftrightarrow> utf8_sanitize (length s) s = s"

lemma quote_read:
  assumes "length (quote s) < m"
  shows "string_body m (quote s @ dquote # r) = Some (utf8_sanitize (length s) s, r)"
proof -
  obtain k where k: "string_body k (quote s @ dquote # r) = Some (utf8_sanitize (length s) s, r)"
    using quote_loop_read [of s "length s"] by (auto simp: quote_def)
  from string_body_literal [OF this] show ?thesis using assms by auto
qed

lemma quote_ok: "lit_ok (quote s)"
  by (simp add: lit_ok_def string_lit_def quote_read)

lemma unquote_quote: "valid_utf8 s \<Longrightarrow> unquote (quote s) = s"
  by (simp add: unquote_def quote_read valid_utf8_def)

lemma ascii_valid: "list_all (\<lambda>c. code_of c < 0x80) s \<Longrightarrow> valid_utf8 s"
  unfolding valid_utf8_def by (induction s) (simp_all add: utf8_len_def)

lemma decode_marshal_string: "valid_utf8 s \<Longrightarrow> decode (marshal_string s) = JString s"
  by (simp add: marshal_string_def unquote_quote)

lemma marshal_string_ok: "well_spelled (marshal_string s)"
  by (simp add: marshal_string_def quote_ok)

end
