(* ===== verification/Json_Fields.thy ===== *)
theory Json_Fields
  imports Json_Text "HOL-Library.AList" "HOL-Library.Char_ord" "HOL-Library.List_Lexorder"
begin

text \<open>
  A Go map from field names to raw messages is the list of its bindings, one for each name; the order is
  that of a \<open>range\<close> over it, which Go leaves open. \<open>json.Unmarshal\<close> into the Go types the program uses: a
  JSON null leaves the variable as it was and is no error, and of two members with one name the later wins.
\<close>

type_synonym fields = "(string \<times> raw) list"

definition is_null :: "raw \<Rightarrow> bool" where
  "is_null r \<longleftrightarrow> r = RNull"

definition unmarshal_string :: "raw \<Rightarrow> string option" where
  "unmarshal_string r = (case r of RNull \<Rightarrow> Some [] | RString u \<Rightarrow> Some (unquote u) | _ \<Rightarrow> None)"

definition unmarshal_bool :: "raw \<Rightarrow> bool option" where
  "unmarshal_bool r = (case r of RNull \<Rightarrow> Some False | RBool b \<Rightarrow> Some b | _ \<Rightarrow> None)"

text \<open>Into a pointer: null gives the nil pointer, here \<open>None\<close>.\<close>

definition unmarshal_bool_ptr :: "raw \<Rightarrow> bool option option" where
  "unmarshal_bool_ptr r = (case r of RNull \<Rightarrow> Some None | RBool b \<Rightarrow> Some (Some b) | _ \<Rightarrow> None)"

definition unmarshal_int :: "raw \<Rightarrow> int option" where
  "unmarshal_int r = (case r of RNull \<Rightarrow> Some 0 | RNumber n \<Rightarrow> parse_int n | _ \<Rightarrow> None)"

definition unmarshal_int_ptr :: "raw \<Rightarrow> int option option" where
  "unmarshal_int_ptr r = (case r of RNull \<Rightarrow> Some None | RNumber n \<Rightarrow> map_option Some (parse_int n) | _ \<Rightarrow> None)"

definition collect_members :: "(string \<times> raw) list \<Rightarrow> fields" where
  "collect_members ms = fold (\<lambda>(k, v). AList.update (unquote k) v) ms []"

definition unmarshal_object :: "raw \<Rightarrow> fields option option" where
  "unmarshal_object r = (case r of RNull \<Rightarrow> Some None | RObject ms \<Rightarrow> Some (Some (collect_members ms)) | _ \<Rightarrow> None)"

definition unmarshal_array :: "raw \<Rightarrow> raw list option option" where
  "unmarshal_array r = (case r of RNull \<Rightarrow> Some None | RArray vs \<Rightarrow> Some (Some vs) | _ \<Rightarrow> None)"

text \<open>An array of maps: an element that is null is a nil map, one that is not an object an error.\<close>

fun map_all :: "('a \<Rightarrow> 'b option) \<Rightarrow> 'a list \<Rightarrow> 'b list option" where
  "map_all f [] = Some []"
| "map_all f (x # xs) = (case f x of None \<Rightarrow> None | Some y \<Rightarrow> map_option ((#) y) (map_all f xs))"

definition unmarshal_objects :: "raw \<Rightarrow> fields option list option option" where
  "unmarshal_objects r =
     (case r of RNull \<Rightarrow> Some None | RArray vs \<Rightarrow> map_option Some (map_all unmarshal_object vs) | _ \<Rightarrow> None)"

text \<open>Into a struct: members are matched with the fields ignoring case; null leaves a field, but makes a pointer nil.\<close>

definition unmarshal_struct :: "raw \<Rightarrow> (string \<times> raw) list option" where
  "unmarshal_struct r = (case r of RNull \<Rightarrow> Some [] | RObject ms \<Rightarrow> Some ms | _ \<Rightarrow> None)"

definition struct_values :: "string \<Rightarrow> (string \<times> raw) list \<Rightarrow> raw list" where
  "struct_values name ms = map snd (filter (\<lambda>(k, v). field_is name (unquote k)) ms)"

definition struct_string :: "string \<Rightarrow> (string \<times> raw) list \<Rightarrow> string option" where
  "struct_string name ms =
     fold (\<lambda>v acc. case acc of None \<Rightarrow> None
            | Some s \<Rightarrow> (case v of RNull \<Rightarrow> Some s | RString u \<Rightarrow> Some (unquote u) | _ \<Rightarrow> None)) (struct_values name ms) (Some [])"

definition struct_bool_ptr :: "string \<Rightarrow> (string \<times> raw) list \<Rightarrow> bool option option" where
  "struct_bool_ptr name ms =
     fold (\<lambda>v acc. case acc of None \<Rightarrow> None
            | Some _ \<Rightarrow> (case v of RNull \<Rightarrow> Some None | RBool b \<Rightarrow> Some (Some b) | _ \<Rightarrow> None)) (struct_values name ms) (Some None)"

definition struct_raw :: "string \<Rightarrow> (string \<times> raw) list \<Rightarrow> raw option" where
  "struct_raw name ms = (case struct_values name ms of [] \<Rightarrow> None | vs \<Rightarrow> Some (last vs))"

text \<open>The names of a marshalled map are in order.\<close>

definition marshal_map :: "fields \<Rightarrow> raw" where
  "marshal_map fs = RObject (map (\<lambda>(k, v). (quote k, v)) (sort_key fst fs))"

definition marshal_raw_map :: "fields \<Rightarrow> raw" where
  "marshal_raw_map fs = marshal_map (map (apsnd marshal_raw) fs)"

definition fields_ok :: "fields \<Rightarrow> bool" where
  "fields_ok fs \<longleftrightarrow> distinct (map fst fs)"

text \<open>\<open>strings.ToLower\<close>; what it does to a text that is not ASCII is given.\<close>

definition to_lower :: "(string \<Rightarrow> string) \<Rightarrow> string \<Rightarrow> string" where
  "to_lower other s = (if list_all (\<lambda>c. code_of c < 0x80) s then map lower_char s else other s)"

lemma fields_ok_update [simp]: "fields_ok fs \<Longrightarrow> fields_ok (AList.update k v fs)"
  by (simp add: fields_ok_def distinct_update)

lemma fields_ok_delete [simp]: "fields_ok fs \<Longrightarrow> fields_ok (AList.delete k fs)"
  by (simp add: fields_ok_def distinct_delete)

lemma fields_ok_collect [simp]: "fields_ok (collect_members ms)"
proof -
  have "fields_ok fs \<Longrightarrow> fields_ok (fold (\<lambda>(k, v). AList.update (unquote k) v) ms fs)" for fs
    by (induction ms arbitrary: fs) auto
  then show ?thesis by (simp add: collect_members_def fields_ok_def)
qed

lemma map_of_update [simp]: "map_of (AList.update k v fs) = (map_of fs)(k \<mapsto> v)"
  by (simp add: update_conv')

lemma map_of_delete [simp]: "map_of (AList.delete k fs) = (map_of fs)(k := None)"
  by (simp add: delete_conv')

end
