(* ===== verification/Reasoning.thy ===== *)
theory Reasoning
  imports Json_Fields Go_Sort
begin

text \<open>
  \<open>internal/compat/reasoning.go\<close>: the levels of reasoning, how a request names one (three fields that must
  agree), how a request without one may be given one, how a requested level is resolved against what a
  model offers, and how the decision is written for the upstream. \<open>Model.ReasoningProfile\<close> of
  \<open>internal/modelcatalog/model.go\<close> gives a model's offer. \<open>ul\<close> is what \<open>strings.ToLower\<close> does to a text that
  is not ASCII.
\<close>

subsection \<open>Levels\<close>

type_synonym reasoningLevel = string

abbreviation ReasoningNone :: reasoningLevel where "ReasoningNone \<equiv> ''none''"
abbreviation ReasoningAuto :: reasoningLevel where "ReasoningAuto \<equiv> ''auto''"
abbreviation ReasoningMinimal :: reasoningLevel where "ReasoningMinimal \<equiv> ''minimal''"
abbreviation ReasoningLow :: reasoningLevel where "ReasoningLow \<equiv> ''low''"
abbreviation ReasoningMedium :: reasoningLevel where "ReasoningMedium \<equiv> ''medium''"
abbreviation ReasoningHigh :: reasoningLevel where "ReasoningHigh \<equiv> ''high''"
abbreviation ReasoningXHigh :: reasoningLevel where "ReasoningXHigh \<equiv> ''xhigh''"
abbreviation ReasoningMax :: reasoningLevel where "ReasoningMax \<equiv> ''max''"

definition reasoningBudgets :: "(reasoningLevel \<times> int) list" where
  "reasoningBudgets =
     [(ReasoningNone, 0), (ReasoningAuto, -1), (ReasoningMinimal, 512), (ReasoningLow, 1024),
      (ReasoningMedium, 8192), (ReasoningHigh, 24576), (ReasoningXHigh, 32768), (ReasoningMax, 128000)]"

definition reasoningAliases :: "(string \<times> reasoningLevel) list" where
  "reasoningAliases =
     [(''none'', ReasoningNone), (''off'', ReasoningNone), (''disabled'', ReasoningNone),
      (''no_think'', ReasoningNone), (''no-think'', ReasoningNone),
      (''auto'', ReasoningAuto), (''default'', ReasoningAuto), (''on'', ReasoningAuto),
      (''minimal'', ReasoningMinimal), (''tiny'', ReasoningMinimal), (''low'', ReasoningLow),
      (''medium'', ReasoningMedium), (''med'', ReasoningMedium), (''high'', ReasoningHigh),
      (''xhigh'', ReasoningXHigh), (''very_high'', ReasoningXHigh), (''very-high'', ReasoningXHigh),
      (''max'', ReasoningMax), (''ultra'', ReasoningMax)]"

definition known_level :: "reasoningLevel \<Rightarrow> bool" where
  "known_level level \<longleftrightarrow> map_of reasoningBudgets level \<noteq> None"

definition budgetForLevel :: "reasoningLevel \<Rightarrow> int" where
  "budgetForLevel level = (case map_of reasoningBudgets level of None \<Rightarrow> 0 | Some b \<Rightarrow> b)"

definition budgetOrder :: "reasoningLevel \<Rightarrow> int" where
  "budgetOrder level = (if level = ReasoningAuto then 1 else budgetForLevel level + 1)"

definition absInt :: "int \<Rightarrow> int" where
  "absInt v = (if v < 0 then - v else v)"

definition MaxInt64 :: int where "MaxInt64 = 9223372036854775807"

text \<open>The search ranges over a map, so its order is an argument; \<open>levelForBudget\<close> fixes one.\<close>

definition nearer :: "int \<Rightarrow> reasoningLevel \<times> int \<Rightarrow> reasoningLevel \<times> int \<Rightarrow> reasoningLevel \<times> int" where
  "nearer v entry acc =
     (let (level, budget) = entry; (best, bestDistance) = acc; distance = absInt (v - budget)
      in if level = ReasoningAuto then acc
         else if distance < bestDistance \<or> distance = bestDistance \<and> budget < budgetForLevel best
         then (level, distance) else acc)"

definition level_in_order :: "(reasoningLevel \<times> int) list \<Rightarrow> int \<Rightarrow> reasoningLevel" where
  "level_in_order order v =
     (if v = -1 then ReasoningAuto else fst (fold (nearer v) order (ReasoningNone, MaxInt64)))"

definition levelForBudget :: "int \<Rightarrow> reasoningLevel" where
  "levelForBudget v = level_in_order reasoningBudgets v"

subsection \<open>Requests and profiles\<close>

datatype compatError =
    ValidationError string string string
  | InvalidLevel string reasoningLevel "reasoningLevel list"
  | AmbiguousReasoning
  | ReasoningUnsupported
  | NoWireFormat
  | UnknownWireFormat string

text \<open>\<open>errors.Is (err, ErrReasoningUnsupported)\<close>, which looks through the wrapping.\<close>

definition is_unsupported :: "compatError \<Rightarrow> bool" where
  "is_unsupported e \<longleftrightarrow> e = ReasoningUnsupported \<or> e = NoWireFormat"

definition invalid_parameter :: "string \<Rightarrow> string \<Rightarrow> compatError" where
  "invalid_parameter param message = ValidationError ''invalid_parameter'' param message"

record reasoningSpec =
  specRequested :: bool
  specLevel :: reasoningLevel
  specBudget :: int
  specHasBudget :: bool
  specSource :: string

definition no_spec :: reasoningSpec where
  "no_spec = \<lparr>specRequested = False, specLevel = [], specBudget = 0, specHasBudget = False, specSource = []\<rparr>"

definition RequiresReasoning :: "reasoningSpec \<Rightarrow> bool" where
  "RequiresReasoning s \<longleftrightarrow> specRequested s \<and> specLevel s \<noteq> ReasoningNone"

definition reasoningAliasFields :: "string list" where
  "reasoningAliasFields = [''reasoning_effort'', ''reasoning'', ''thinking'']"

definition StripReasoning :: "fields \<Rightarrow> fields" where
  "StripReasoning fs = fold AList.delete reasoningAliasFields fs"

record reasoningProfile =
  Supported :: bool
  Levels :: "reasoningLevel list"
  MinBudget :: int
  MaxBudget :: int
  ZeroAllowed :: bool
  DynamicAllowed :: bool
  WireFormat :: string
  AdvisoryLevels :: bool

definition advisoryOnLevel :: reasoningLevel where "advisoryOnLevel = ReasoningHigh"

record reasoningDecision =
  decRequested :: bool
  decSource :: string
  decRequestedLevel :: reasoningLevel
  decRequestedBudget :: int
  decEffectiveLevel :: reasoningLevel
  decEffectiveBudget :: int
  decDowngraded :: bool

definition no_decision :: reasoningDecision where
  "no_decision = \<lparr>decRequested = False, decSource = [], decRequestedLevel = [], decRequestedBudget = 0,
     decEffectiveLevel = [], decEffectiveBudget = 0, decDowngraded = False\<rparr>"

subsection \<open>Parsing\<close>

definition parseFlexibleLevel :: "(string \<Rightarrow> string) \<Rightarrow> string \<Rightarrow> string \<Rightarrow> compatError + reasoningLevel" where
  "parseFlexibleLevel ul v param =
     (let trimmed = to_lower ul (trim_space v)
      in case map_of reasoningAliases trimmed of
           Some level \<Rightarrow> Inr level
         | None \<Rightarrow>
             if trimmed = [] \<or> list_ex (\<lambda>c. c \<in> {CHR 0x20, CHR 0x09, CHR 0x0D, CHR 0x0A, CHR 0x00}) trimmed \<or> length trimmed > 64
             then Inl (invalid_parameter param ''The reasoning level must be a non-empty string.'')
             else Inr trimmed)"

definition stringValueOK :: "raw \<Rightarrow> string option" where
  "stringValueOK r = unmarshal_string r"

definition readBudget :: "fields \<Rightarrow> string \<Rightarrow> compatError + (int \<times> bool)" where
  "readBudget object source =
     (let present = (\<lambda>name. case map_of object name of None \<Rightarrow> False | Some r \<Rightarrow> \<not> is_null r)
      in case List.find present [''budget_tokens'', ''budget''] of
           None \<Rightarrow> Inr (0, False)
         | Some name \<Rightarrow>
             (case unmarshal_int (the (map_of object name)) of
                None \<Rightarrow> Inl (invalid_parameter (source @ ''.'' @ name) ''The reasoning budget must be a non-negative integer.'')
              | Some v \<Rightarrow>
                  if v < 0 \<or> v > 2147483647
                  then Inl (invalid_parameter (source @ ''.'' @ name) ''The reasoning budget must be a non-negative integer.'')
                  else Inr (v, True)))"

text \<open>The level a reasoning object names, if any.\<close>

definition named_level :: "(string \<Rightarrow> string) \<Rightarrow> fields \<Rightarrow> string \<Rightarrow> compatError + reasoningLevel" where
  "named_level ul object source =
     (let present = (\<lambda>name. case map_of object name of None \<Rightarrow> False | Some r \<Rightarrow> \<not> is_null r)
      in case List.find present [''effort'', ''level'', ''reasoning_effort''] of
           None \<Rightarrow> Inr []
         | Some name \<Rightarrow>
             (case stringValueOK (the (map_of object name)) of
                None \<Rightarrow> Inl (invalid_parameter (source @ ''.'' @ name) ''The reasoning level must be a string.'')
              | Some v \<Rightarrow> parseFlexibleLevel ul v (source @ ''.'' @ name)))"

text \<open>What the type says: the level it leaves, and whether it turns reasoning on.\<close>

definition typed_level :: "fields \<Rightarrow> string \<Rightarrow> reasoningLevel \<Rightarrow> compatError + (reasoningLevel \<times> bool)" where
  "typed_level object source level =
     (case map_of object ''type'' of
        None \<Rightarrow> Inr (level, False)
      | Some r \<Rightarrow>
          if is_null r then Inr (level, False)
          else case stringValueOK r of
            None \<Rightarrow> Inl (invalid_parameter (source @ ''.type'') ''The reasoning type must be enabled or disabled.'')
          | Some typeName \<Rightarrow>
              if typeName = ''disabled'' then Inr (ReasoningNone, False)
              else if typeName = ''enabled'' then Inr (level, level = [])
              else Inl (invalid_parameter (source @ ''.type'') ''The reasoning type must be enabled or disabled.''))"

definition parseReasoningFields :: "(string \<Rightarrow> string) \<Rightarrow> fields \<Rightarrow> string \<Rightarrow> bool \<Rightarrow> compatError + reasoningSpec" where
  "parseReasoningFields ul object source thinking =
     (case named_level ul object source of
        Inl e \<Rightarrow> Inl e
      | Inr level1 \<Rightarrow>
          (case typed_level object source level1 of
             Inl e \<Rightarrow> Inl e
           | Inr (level2, enabled) \<Rightarrow>
               (case readBudget object source of
                  Inl e \<Rightarrow> Inl e
                | Inr (given, hasBudget) \<Rightarrow>
                    let level3 = (if level2 = [] \<and> hasBudget then levelForBudget given else level2);
                        level = (if level3 = [] \<and> enabled then ReasoningAuto else level3)
                    in if level = [] then
                         (if thinking
                          then Inl (invalid_parameter source ''The thinking parameter must include a type, effort, level, or budget_tokens.'')
                          else Inl (invalid_parameter source ''The reasoning parameter must include an effort or budget_tokens.''))
                       else Inr \<lparr>specRequested = True, specLevel = level,
                                 specBudget = (if hasBudget then given else budgetForLevel level),
                                 specHasBudget = hasBudget, specSource = source\<rparr>)))"

definition level_spec :: "reasoningLevel \<Rightarrow> string \<Rightarrow> reasoningSpec" where
  "level_spec level source =
     \<lparr>specRequested = True, specLevel = level, specBudget = budgetForLevel level, specHasBudget = False, specSource = source\<rparr>"

definition parseReasoningEffort :: "(string \<Rightarrow> string) \<Rightarrow> raw \<Rightarrow> string \<Rightarrow> compatError + reasoningSpec" where
  "parseReasoningEffort ul r source =
     (case unmarshal_string r of
        None \<Rightarrow> Inl (invalid_parameter source ''The reasoning effort must be a string.'')
      | Some v \<Rightarrow>
          (case parseFlexibleLevel ul v source of Inl e \<Rightarrow> Inl e | Inr level \<Rightarrow> Inr (level_spec level source)))"

definition parseReasoningObject :: "(string \<Rightarrow> string) \<Rightarrow> raw \<Rightarrow> string \<Rightarrow> compatError + reasoningSpec" where
  "parseReasoningObject ul r source =
     (case unmarshal_object r of
        Some (Some object) \<Rightarrow> parseReasoningFields ul object source False
      | _ \<Rightarrow> parseReasoningEffort ul r source)"

definition parseThinking :: "(string \<Rightarrow> string) \<Rightarrow> raw \<Rightarrow> string \<Rightarrow> compatError + reasoningSpec" where
  "parseThinking ul r source =
     (case unmarshal_bool r of
        Some v \<Rightarrow> Inr (level_spec (if v then ReasoningAuto else ReasoningNone) source)
      | None \<Rightarrow>
          (case unmarshal_string r of
             Some v \<Rightarrow>
               (case parseFlexibleLevel ul v source of Inl e \<Rightarrow> Inl e | Inr level \<Rightarrow> Inr (level_spec level source))
           | None \<Rightarrow>
               (case unmarshal_object r of
                  Some (Some object) \<Rightarrow> parseReasoningFields ul object source True
                | _ \<Rightarrow> Inl (invalid_parameter source ''The thinking parameter must be an object, boolean, or string.''))))"

definition reasoningSpecsConflict :: "reasoningSpec \<Rightarrow> reasoningSpec \<Rightarrow> bool" where
  "reasoningSpecsConflict left right \<longleftrightarrow>
     specLevel left \<noteq> specLevel right
     \<or> specHasBudget left \<and> specHasBudget right \<and> specBudget left \<noteq> specBudget right"

text \<open>One alias after another; the first names the source, a later one may add the budget.\<close>

definition merge_spec :: "reasoningSpec \<Rightarrow> reasoningSpec \<Rightarrow> compatError + reasoningSpec" where
  "merge_spec result spec =
     (if \<not> specRequested spec then Inr result
      else if \<not> specRequested result then Inr spec
      else if reasoningSpecsConflict result spec then Inl AmbiguousReasoning
      else
        let r1 = (if specSource result = [] then result\<lparr>specSource := specSource spec\<rparr> else result)
        in Inr (if \<not> specHasBudget r1 \<and> specHasBudget spec
                then r1\<lparr>specBudget := specBudget spec, specHasBudget := True\<rparr> else r1))"

fun parse_aliases :: "fields \<Rightarrow> (string \<times> (raw \<Rightarrow> string \<Rightarrow> compatError + reasoningSpec)) list \<Rightarrow> reasoningSpec
    \<Rightarrow> compatError + reasoningSpec" where
  "parse_aliases fs [] result = Inr result"
| "parse_aliases fs ((name, parse) # rest) result =
     (case map_of fs name of
        None \<Rightarrow> parse_aliases fs rest result
      | Some r \<Rightarrow>
          if is_null r then parse_aliases fs rest result
          else case parse r name of
            Inl e \<Rightarrow> Inl e
          | Inr spec \<Rightarrow>
              (case merge_spec result spec of Inl e \<Rightarrow> Inl e | Inr result1 \<Rightarrow> parse_aliases fs rest result1))"

definition ParseReasoning :: "(string \<Rightarrow> string) \<Rightarrow> fields \<Rightarrow> compatError + reasoningSpec" where
  "ParseReasoning ul fs =
     parse_aliases fs
       [(''reasoning_effort'', parseReasoningEffort ul), (''reasoning'', parseReasoningObject ul), (''thinking'', parseThinking ul)]
       no_spec"

subsection \<open>Resolving\<close>

definition allLevels :: "reasoningLevel list" where
  "allLevels = [ReasoningNone, ReasoningAuto, ReasoningMinimal, ReasoningLow, ReasoningMedium, ReasoningHigh, ReasoningXHigh, ReasoningMax]"

text \<open>Usable levels, the first occurrence of each.\<close>

definition keep_level :: "reasoningProfile \<Rightarrow> reasoningLevel \<Rightarrow> reasoningLevel list \<Rightarrow> reasoningLevel list" where
  "keep_level p level result =
     (if \<not> known_level level \<or> level = ReasoningNone \<and> \<not> ZeroAllowed p \<or> level \<in> set result then result
      else result @ [level])"

definition availableLevels :: "reasoningProfile \<Rightarrow> reasoningLevel list" where
  "availableLevels p =
     (let levels = (if Levels p = [] then allLevels else Levels p)
      in slice_stable (\<lambda>a b. budgetOrder a < budgetOrder b) (fold (keep_level p) levels []))"

text \<open>One level against the best so far.\<close>

definition consider_level :: "reasoningLevel \<Rightarrow> int \<Rightarrow> reasoningProfile \<Rightarrow> reasoningLevel \<Rightarrow> reasoningLevel \<times> int \<Rightarrow> reasoningLevel \<times> int" where
  "consider_level requested requestedBudget p level acc =
     (let (best, bestDistance) = acc;
          budget = (if level = ReasoningAuto then (if requestedBudget < 0 then 0 else requestedBudget) else budgetForLevel level)
      in if MaxBudget p > 0 \<and> budget > MaxBudget p then acc
         else if MinBudget p > 0 \<and> level \<noteq> ReasoningNone \<and> level \<noteq> ReasoningAuto \<and> budget < MinBudget p then acc
         else
           let distance = absInt (budget - requestedBudget);
               tie1 = (level = requested \<and> best \<noteq> requested);
               tie2 = (tie1 \<or> best = ReasoningAuto \<and> level \<noteq> ReasoningAuto);
               tie3 = (if \<not> tie2 \<and> level \<noteq> ReasoningAuto \<and> best \<noteq> ReasoningAuto then budget < budgetForLevel best else tie2)
           in if distance < bestDistance \<or> distance = bestDistance \<and> tie3 then (level, distance) else acc)"

definition nearestLevel :: "reasoningLevel \<Rightarrow> int \<Rightarrow> reasoningLevel list \<Rightarrow> reasoningProfile \<Rightarrow> reasoningLevel" where
  "nearestLevel requested requestedBudget levels p =
     (if requested = ReasoningNone \<and> ZeroAllowed p \<and> ReasoningNone \<in> set levels then ReasoningNone
      else if requested = ReasoningAuto \<and> ReasoningAuto \<in> set levels then ReasoningAuto
      else fst (fold (consider_level requested requestedBudget p) levels ([], MaxInt64)))"

definition clampBudget :: "int \<Rightarrow> reasoningProfile \<Rightarrow> int" where
  "clampBudget v p =
     (if v < 0 then -1
      else
        let v1 = (if MinBudget p > 0 \<and> v < MinBudget p then MinBudget p else v)
        in if MaxBudget p > 0 \<and> v1 > MaxBudget p then MaxBudget p else v1)"

definition ResolveReasoning :: "reasoningSpec \<Rightarrow> reasoningProfile \<Rightarrow> compatError + reasoningDecision" where
  "ResolveReasoning spec p =
     (if \<not> specRequested spec then Inr no_decision
      else if \<not> Supported p then Inl ReasoningUnsupported
      else
        let levels = availableLevels p
        in if levels = [] then Inl ReasoningUnsupported
           else
             let requestedLevel = (if specLevel spec = [] then levelForBudget (specBudget spec) else specLevel spec);
                 requestedBudget = (if specHasBudget spec then specBudget spec else budgetForLevel requestedLevel)
             in if \<not> known_level requestedLevel then
                  (if DynamicAllowed p
                   then Inr \<lparr>decRequested = True, decSource = specSource spec, decRequestedLevel = requestedLevel,
                             decRequestedBudget = requestedBudget, decEffectiveLevel = requestedLevel,
                             decEffectiveBudget = -1, decDowngraded = False\<rparr>
                   else Inl (InvalidLevel (specSource spec) requestedLevel levels))
                else
                  let effectiveLevel = nearestLevel requestedLevel requestedBudget levels p
                  in if effectiveLevel = [] then Inl ReasoningUnsupported
                     else
                       let budget1 = (if effectiveLevel = ReasoningAuto \<and> DynamicAllowed p then -1
                                      else if specHasBudget spec \<and> DynamicAllowed p \<and> effectiveLevel \<noteq> ReasoningNone
                                      then clampBudget (specBudget spec) p else budgetForLevel effectiveLevel);
                           effectiveBudget = (if effectiveLevel = ReasoningNone then 0 else budget1)
                       in Inr \<lparr>decRequested = True, decSource = specSource spec, decRequestedLevel = requestedLevel,
                               decRequestedBudget = requestedBudget, decEffectiveLevel = effectiveLevel,
                               decEffectiveBudget = effectiveBudget,
                               decDowngraded = (requestedLevel \<noteq> effectiveLevel \<or> specHasBudget spec \<and> requestedBudget \<noteq> effectiveBudget)\<rparr>)"

subsection \<open>Requests without reasoning\<close>

definition autoReasoningOffCeiling :: int where "autoReasoningOffCeiling = 128"
definition autoReasoningSmallCeiling :: int where "autoReasoningSmallCeiling = 511"

definition injected :: "reasoningLevel \<Rightarrow> reasoningSpec" where
  "injected level = level_spec level ''auto-inject''"

definition positive_level :: "reasoningLevel \<Rightarrow> bool" where
  "positive_level l \<longleftrightarrow> l \<noteq> ReasoningNone \<and> l \<noteq> ReasoningAuto"

definition heaviest_within :: "int \<Rightarrow> reasoningLevel list \<Rightarrow> reasoningLevel" where
  "heaviest_within most levels =
     fold (\<lambda>level best. if positive_level level \<and> budgetForLevel level \<le> most then level else best) levels []"

definition first_positive :: "reasoningLevel list \<Rightarrow> reasoningLevel" where
  "first_positive levels = (case List.find positive_level levels of None \<Rightarrow> [] | Some level \<Rightarrow> level)"

definition AutoReasoningSpec :: "reasoningProfile \<Rightarrow> int \<Rightarrow> reasoningSpec option" where
  "AutoReasoningSpec p outputLimit =
     (if \<not> Supported p then None
      else
        let levels = availableLevels p
        in if outputLimit > 0 \<and> outputLimit \<le> autoReasoningOffCeiling then
             (if ReasoningNone \<in> set levels then Some (injected ReasoningNone) else None)
           else if outputLimit > 0 \<and> outputLimit \<le> autoReasoningSmallCeiling then
             (if first_positive levels = [] then None else Some (injected (first_positive levels)))
           else
             let best1 = heaviest_within (budgetForLevel ReasoningMedium) levels;
                 best = (if best1 = [] then first_positive levels else best1)
             in if best = [] then None else Some (injected best))"

subsection \<open>Writing the decision\<close>

definition thinkingBudgetNumerator :: int where "thinkingBudgetNumerator = 3"
definition thinkingBudgetDenominator :: int where "thinkingBudgetDenominator = 4"
definition thinkingContentReserve :: int where "thinkingContentReserve = 32"

definition OutputTokenLimit :: "fields \<Rightarrow> int" where
  "OutputTokenLimit fs =
     (let positive = (\<lambda>name. case map_of fs name of
            None \<Rightarrow> None
          | Some r \<Rightarrow> (case unmarshal_int_ptr r of Some (Some v) \<Rightarrow> if v \<le> 0 then None else Some v | _ \<Rightarrow> None))
      in case List.find (\<lambda>name. positive name \<noteq> None) [''max_tokens'', ''max_completion_tokens'', ''max_output_tokens''] of
           None \<Rightarrow> 0
         | Some name \<Rightarrow> the (positive name))"

text \<open>The product with the limit wraps; Go's division truncates towards zero.\<close>

definition capThinkingBudget :: "int \<Rightarrow> int \<Rightarrow> int" where
  "capThinkingBudget budget outputLimit =
     (if budget \<le> 0 \<or> outputLimit \<le> 0 then budget
      else
        let product = wrap64 (outputLimit * thinkingBudgetNumerator);
            share = (if product < 0 then - ((- product) div thinkingBudgetDenominator) else product div thinkingBudgetDenominator);
            reserved = outputLimit - thinkingContentReserve;
            allowed = (if reserved > 0 \<and> reserved < share then reserved else share)
        in if allowed \<le> 0 \<or> budget \<le> allowed then budget else allowed)"

definition marshalThinking :: "reasoningDecision \<Rightarrow> int \<Rightarrow> raw" where
  "marshalThinking d budget =
     marshal_map
       (if decEffectiveLevel d = ReasoningNone then [(''type'', marshal_string ''disabled'')]
        else (''type'', marshal_string ''enabled'') # (if budget \<ge> 0 then [(''budget_tokens'', RNumber (itoa budget))] else []))"

definition ApplyReasoning :: "(string \<Rightarrow> string) \<Rightarrow> fields \<Rightarrow> reasoningDecision \<Rightarrow> reasoningProfile \<Rightarrow> compatError option \<times> fields" where
  "ApplyReasoning ul fs d p =
     (if \<not> decRequested d then (None, fs)
      else
        let wireFormat = to_lower ul (WireFormat p);
            preserveNativeThinking = (decSource d = ''thinking'' \<and> wireFormat \<in> {[], ''openai'', ''thinking''});
            budget = capThinkingBudget (decEffectiveBudget d) (OutputTokenLimit fs);
            fs1 = StripReasoning fs
        in if preserveNativeThinking then (None, AList.update ''thinking'' (marshalThinking d budget) fs1)
           else if wireFormat = [] \<or> wireFormat = ''openai'' then
             (let level = (if AdvisoryLevels p \<and> decEffectiveLevel d \<noteq> ReasoningNone then advisoryOnLevel else decEffectiveLevel d)
              in (None, AList.update ''reasoning_effort'' (marshal_string level) fs1))
           else if wireFormat = ''thinking'' then (None, AList.update ''thinking'' (marshalThinking d budget) fs1)
           else if wireFormat = ''none'' then (Some NoWireFormat, fs1)
           else (Some (UnknownWireFormat (WireFormat p)), fs1))"

subsection \<open>The profile of a model\<close>

datatype modelKind = KindChat | KindEmbedding | KindASR | KindTTS

record routedModel =
  cmID :: model_id
  cmPublicID :: string
  cmUpstreamID :: string
  cmKind :: modelKind
  cmProvider :: string
  cmEnabled :: bool
  cmSupportsVision :: bool
  cmSupportsTools :: bool
  cmSupportsReasoning :: bool
  cmReasoningWireFormat :: string
  cmReasoningLevels :: "string list"
  cmReasoningMinBudget :: int
  cmReasoningMaxBudget :: int
  cmReasoningZeroAllowed :: bool
  cmReasoningDynamicAllowed :: bool

text \<open>\<open>strings.EqualFold\<close> with an ASCII word without k and s, whose letters fold to no others.\<close>

definition ReasoningProfile :: "routedModel \<Rightarrow> reasoningProfile" where
  "ReasoningProfile m =
     \<lparr>Supported = cmSupportsReasoning m,
      Levels = (if cmReasoningLevels m = [] then allLevels else cmReasoningLevels m),
      MinBudget = cmReasoningMinBudget m,
      MaxBudget = (if cmReasoningMaxBudget m = 0 then 128000 else cmReasoningMaxBudget m),
      ZeroAllowed = (cmReasoningZeroAllowed m \<or> cmReasoningLevels m = []),
      DynamicAllowed = (cmReasoningDynamicAllowed m \<or> cmReasoningLevels m = []),
      WireFormat = cmReasoningWireFormat m,
      AdvisoryLevels = (cmProvider m = ''nvidia'' \<and> map lower_char (cmReasoningWireFormat m) = ''openai'')\<rparr>"

subsection \<open>The search for a level\<close>

definition nearness :: "int \<Rightarrow> int \<Rightarrow> int \<times> int" where
  "nearness v b = (absInt (v - b), b)"

abbreviation fixed_levels :: "(reasoningLevel \<times> int) set" where
  "fixed_levels \<equiv> {e \<in> set reasoningBudgets. fst e \<noteq> ReasoningAuto}"

lemma known_budget: "(l, b) \<in> set reasoningBudgets \<Longrightarrow> budgetForLevel l = b \<and> known_level l"
  by (auto simp: reasoningBudgets_def budgetForLevel_def known_level_def)

definition nearest_in :: "int \<Rightarrow> (reasoningLevel \<times> int) set \<Rightarrow> reasoningLevel \<times> int \<Rightarrow> bool" where
  "nearest_in v seen acc \<longleftrightarrow>
     (let (best, d) = acc
      in (best, budgetForLevel best) \<in> seen \<and> d = absInt (v - budgetForLevel best)
         \<and> (\<forall>(l, b) \<in> seen. nearness v (budgetForLevel best) \<le> nearness v b))"

lemma nearer_step:
  assumes "nearest_in v seen acc" "budgetForLevel l = b" "l \<noteq> ReasoningAuto"
  shows "nearest_in v (insert (l, b) seen) (nearer v (l, b) acc)"
proof -
  obtain best where acc: "acc = (best, absInt (v - budgetForLevel best))"
    and best: "(best, budgetForLevel best) \<in> seen" "\<And>m c. (m, c) \<in> seen \<Longrightarrow> nearness v (budgetForLevel best) \<le> nearness v c"
    using assms(1) by (auto simp: nearest_in_def split: prod.splits)
  show ?thesis
  proof (cases "nearness v b < nearness v (budgetForLevel best)")
    case True
    then have "nearer v (l, b) acc = (l, absInt (v - b))"
      using assms(3) acc by (auto simp: nearer_def nearness_def less_prod_simp Let_def)
    moreover have "nearness v b \<le> nearness v c" if "(m, c) \<in> seen" for m c
      using best(2) [OF that] True by (meson less_imp_le order_trans)
    ultimately show ?thesis using assms(2) by (auto simp: nearest_in_def)
  next
    case False
    then have "nearer v (l, b) acc = acc"
      using assms(3) acc by (auto simp: nearer_def nearness_def less_prod_simp Let_def not_less)
    then show ?thesis using False best acc by (auto simp: nearest_in_def)
  qed
qed

lemma nearer_fold:
  assumes "set order \<subseteq> set reasoningBudgets" "nearest_in v seen acc"
  shows "nearest_in v (seen \<union> {e \<in> set order. fst e \<noteq> ReasoningAuto}) (fold (nearer v) order acc)"
  using assms
proof (induction order arbitrary: seen acc)
  case Nil
  then show ?case by simp
next
  case (Cons e order)
  obtain l b where e: "e = (l, b)" by (cases e)
  show ?case
  proof (cases "l = ReasoningAuto")
    case True
    then have "nearer v e acc = acc" using e by (simp add: nearer_def Let_def split: prod.splits)
    moreover have "{x. (x = e \<or> x \<in> set order) \<and> fst x \<noteq> ReasoningAuto} = {x \<in> set order. fst x \<noteq> ReasoningAuto}"
      using True e by auto
    ultimately show ?thesis using Cons.IH [of seen acc] Cons.prems by simp
  next
    case False
    have "budgetForLevel l = b" using Cons.prems(1) e known_budget [of l b] by simp
    then have "nearest_in v (insert e seen) (nearer v e acc)" using nearer_step [OF Cons.prems(2) _ False] e by simp
    from Cons.IH [OF _ this] have "nearest_in v (insert e seen \<union> {x \<in> set order. fst x \<noteq> ReasoningAuto}) (fold (nearer v) order (nearer v e acc))"
      using Cons.prems(1) by simp
    moreover have "insert e seen \<union> {x \<in> set order. fst x \<noteq> ReasoningAuto} = seen \<union> {x \<in> set (e # order). fst x \<noteq> ReasoningAuto}"
      using False e by auto
    ultimately show ?thesis by simp
  qed
qed

text \<open>The initial value of the search is beaten by the first level.\<close>

lemma nearer_first:
  assumes "\<bar>v\<bar> \<le> 2147483647" "(l, b) \<in> set reasoningBudgets" "l \<noteq> ReasoningAuto"
  shows "nearest_in v {(l, b)} (nearer v (l, b) (ReasoningNone, MaxInt64))"
proof -
  have b: "budgetForLevel l = b" "0 \<le> b" "b \<le> 128000"
    using assms(2,3) known_budget [OF assms(2)] by (auto simp: reasoningBudgets_def)
  then have "absInt (v - b) < MaxInt64" using assms(1) by (auto simp: absInt_def MaxInt64_def)
  then show ?thesis using assms(3) b by (simp add: nearer_def nearest_in_def)
qed

lemma nearer_all:
  assumes "\<bar>v\<bar> \<le> 2147483647" "set order \<subseteq> set reasoningBudgets" "\<exists>e \<in> set order. fst e \<noteq> ReasoningAuto"
  shows "nearest_in v {e \<in> set order. fst e \<noteq> ReasoningAuto} (fold (nearer v) order (ReasoningNone, MaxInt64))"
  using assms(2,3)
proof (induction order)
  case (Cons e order)
  obtain l b where e: "e = (l, b)" by (cases e)
  show ?case
  proof (cases "l = ReasoningAuto")
    case True
    then have "nearer v e (ReasoningNone, MaxInt64) = (ReasoningNone, MaxInt64)" using e by (simp add: nearer_def Let_def)
    moreover have "{x. (x = e \<or> x \<in> set order) \<and> fst x \<noteq> ReasoningAuto} = {x \<in> set order. fst x \<noteq> ReasoningAuto}"
      using True e by auto
    ultimately show ?thesis using Cons e True by auto
  next
    case False
    have "nearest_in v ({e} \<union> {x \<in> set order. fst x \<noteq> ReasoningAuto}) (fold (nearer v) order (nearer v e (ReasoningNone, MaxInt64)))"
      using nearer_first [OF assms(1) _ False, of b] Cons.prems(1) e by (intro nearer_fold) auto
    moreover have "{e} \<union> {x \<in> set order. fst x \<noteq> ReasoningAuto} = {x \<in> set (e # order). fst x \<noteq> ReasoningAuto}"
      using False e by auto
    ultimately show ?thesis by simp
  qed
qed simp

lemma budget_inj: "(l, b) \<in> set reasoningBudgets \<Longrightarrow> (m, b) \<in> set reasoningBudgets \<Longrightarrow> l = m"
  by (auto simp: reasoningBudgets_def)

text \<open>No two levels are equally near, as their budgets differ.\<close>

lemma nearest_inD:
  assumes "nearest_in v fixed_levels acc"
  shows "(fst acc, budgetForLevel (fst acc)) \<in> fixed_levels" "snd acc = absInt (v - budgetForLevel (fst acc))"
    "\<And>l b. (l, b) \<in> fixed_levels \<Longrightarrow> nearness v (budgetForLevel (fst acc)) \<le> nearness v b"
  using assms by (cases acc; simp add: nearest_in_def; blast)+

lemma nearest_unique:
  assumes "nearest_in v fixed_levels a" "nearest_in v fixed_levels b"
  shows "a = b"
proof -
  note A = nearest_inD [OF assms(1)] and B = nearest_inD [OF assms(2)]
  have "nearness v (budgetForLevel (fst a)) = nearness v (budgetForLevel (fst b))"
    by (rule antisym [OF A(3) [OF B(1)] B(3) [OF A(1)]])
  then have e: "budgetForLevel (fst a) = budgetForLevel (fst b)" by (simp add: nearness_def)
  then have "fst a = fst b" using budget_inj [of "fst a" "budgetForLevel (fst b)" "fst b"] A(1) B(1) by simp
  then show ?thesis using e A(2) B(2) by (simp add: prod_eq_iff)
qed

lemma level_search:
  assumes "0 \<le> v" "v \<le> 2147483647" "mset order = mset reasoningBudgets"
  shows "level_in_order order v = levelForBudget v"
    "levelForBudget v \<noteq> ReasoningAuto" "(levelForBudget v, budgetForLevel (levelForBudget v)) \<in> set reasoningBudgets"
    "\<And>l b. (l, b) \<in> fixed_levels \<Longrightarrow> nearness v (budgetForLevel (levelForBudget v)) \<le> nearness v b"
proof -
  have s: "set order = set reasoningBudgets" using assms(3) by (rule mset_eq_setD)
  have some: "\<exists>e \<in> set reasoningBudgets. fst e \<noteq> ReasoningAuto" by (simp add: reasoningBudgets_def)
  have n: "nearest_in v fixed_levels (fold (nearer v) order (ReasoningNone, MaxInt64))"
    using nearer_all [of v order] s some assms(1,2) by simp
  have m: "nearest_in v fixed_levels (fold (nearer v) reasoningBudgets (ReasoningNone, MaxInt64))"
    using nearer_all [of v reasoningBudgets] some assms(1,2) by simp
  show "level_in_order order v = levelForBudget v"
    using nearest_unique [OF n m] assms(1) by (simp add: levelForBudget_def level_in_order_def)
  have l: "levelForBudget v = fst (fold (nearer v) reasoningBudgets (ReasoningNone, MaxInt64))"
    using assms(1) by (simp add: levelForBudget_def level_in_order_def)
  show "levelForBudget v \<noteq> ReasoningAuto" "(levelForBudget v, budgetForLevel (levelForBudget v)) \<in> set reasoningBudgets"
    "\<And>l b. (l, b) \<in> fixed_levels \<Longrightarrow> nearness v (budgetForLevel (levelForBudget v)) \<le> nearness v b"
    using nearest_inD [OF m] l by simp_all
qed

subsection \<open>Offered levels\<close>

lemma keep_level_fold:
  "set (fold (keep_level p) levels acc) = set acc \<union> {l \<in> set levels. known_level l \<and> (l = ReasoningNone \<longrightarrow> ZeroAllowed p)}"
  by (induction levels arbitrary: acc) (auto simp: keep_level_def)

lemma available_sorted: "availableLevels p = sort_key budgetOrder (fold (keep_level p) (if Levels p = [] then allLevels else Levels p) [])"
  unfolding availableLevels_def Let_def by (rule slice_stable_sort_key) simp

lemma available_set:
  "set (availableLevels p) =
     {l \<in> set (if Levels p = [] then allLevels else Levels p). known_level l \<and> (l = ReasoningNone \<longrightarrow> ZeroAllowed p)}"
  by (simp add: available_sorted keep_level_fold)

lemma available_known: "l \<in> set (availableLevels p) \<Longrightarrow> known_level l \<and> l \<noteq> []"
  by (auto simp: available_set known_level_def reasoningBudgets_def split: if_splits)

lemma available_mono: "sorted_wrt (\<lambda>a b. budgetOrder a \<le> budgetOrder b) (availableLevels p)"
  using sorted_sort_key [of budgetOrder] by (simp add: available_sorted sorted_map)

definition fits_profile :: "reasoningProfile \<Rightarrow> reasoningLevel \<Rightarrow> bool" where
  "fits_profile p l \<longleftrightarrow>
     l = ReasoningNone \<or> l = ReasoningAuto \<or>
     (MaxBudget p > 0 \<longrightarrow> budgetForLevel l \<le> MaxBudget p) \<and> (MinBudget p > 0 \<longrightarrow> MinBudget p \<le> budgetForLevel l)"

lemma three_ifs: "(if P then a else if Q then a else if R then b else a) \<in> {a, b}"
  by simp

lemma consider_cases: "\<exists>x. consider_level rl rb p l acc \<in> {acc, (l, absInt x)}"
  unfolding consider_level_def Let_def case_prod_beta prod.collapse by (rule exI) (rule three_ifs)

lemma absInt_nonneg: "0 \<le> absInt x"
  by (simp add: absInt_def)

lemma consider_in: "fst (consider_level rl rb p l acc) \<in> {fst acc, l}"
  using consider_cases [of rl rb p l acc] by auto

lemma consider_fold_in: "fst (fold (consider_level rl rb p) levels acc) \<in> insert (fst acc) (set levels)"
proof (induction levels arbitrary: acc)
  case (Cons l levels)
  show ?case using Cons.IH [of "consider_level rl rb p l acc"] consider_in [of rl rb p l acc] by auto
qed simp

lemma consider_dist: "0 \<le> snd acc \<Longrightarrow> 0 \<le> snd (fold (consider_level rl rb p) levels acc)"
proof (induction levels arbitrary: acc)
  case (Cons l levels)
  have "0 \<le> snd (consider_level rl rb p l acc)"
    using Cons.prems consider_cases [of rl rb p l acc] absInt_nonneg by auto
  then show ?case using Cons.IH by simp
qed simp

lemma nearestLevel_in: "nearestLevel rl rb levels p \<in> insert [] (set levels)"
  using consider_fold_in [of rl rb p levels "([], MaxInt64)"] by (auto simp: nearestLevel_def)

lemma consider_keeps:
  assumes "rl \<noteq> ReasoningAuto" "rb = budgetForLevel rl"
  shows "consider_level rl rb p l (rl, 0) = (rl, 0)"
  using assms by (auto simp: consider_level_def Let_def absInt_def)

lemma nearest_granted:
  assumes "rl \<in> set levels" "known_level rl" "rl = ReasoningNone \<longrightarrow> ZeroAllowed p" "fits_profile p rl"
  shows "nearestLevel rl (budgetForLevel rl) levels p = rl"
proof (cases "rl = ReasoningNone \<or> rl = ReasoningAuto")
  case True
  then show ?thesis using assms by (auto simp: nearestLevel_def)
next
  case False
  let ?f = "consider_level rl (budgetForLevel rl) p"
  obtain xs ys where l: "levels = xs @ rl # ys" "rl \<notin> set xs" using split_list_first [OF assms(1)] by blast
  obtain b d where a: "fold ?f xs ([], MaxInt64) = (b, d)" by fastforce
  have "b \<noteq> rl" "0 \<le> d"
    using consider_fold_in [of rl "budgetForLevel rl" p xs "([], MaxInt64)"] l(2) a False assms(2)
      consider_dist [of "([], MaxInt64)" rl "budgetForLevel rl" p xs]
    by (auto simp: known_level_def reasoningBudgets_def MaxInt64_def split: if_splits)
  then have "?f rl (b, d) = (rl, 0)"
    using False assms(4) by (auto simp: consider_level_def Let_def absInt_def fits_profile_def)
  moreover have "fold ?f ys (rl, 0) = (rl, 0)" using consider_keeps False by (induction ys) auto
  ultimately show ?thesis using l(1) a False by (auto simp: nearestLevel_def)
qed

subsection \<open>What is resolved\<close>

lemma resolve_cases:
  assumes "ResolveReasoning spec p = Inr d" "specRequested spec"
  obtains (unknown) "Supported p" "\<not> known_level (decRequestedLevel d)" "DynamicAllowed p"
      "decEffectiveLevel d = decRequestedLevel d" "decEffectiveBudget d = -1" "\<not> decDowngraded d"
  | (known) "Supported p" "known_level (decRequestedLevel d)"
      "decEffectiveLevel d = nearestLevel (decRequestedLevel d) (decRequestedBudget d) (availableLevels p) p"
      "decEffectiveLevel d \<in> set (availableLevels p)"
      "decEffectiveBudget d =
         (if decEffectiveLevel d = ReasoningNone then 0 else if decEffectiveLevel d = ReasoningAuto \<and> DynamicAllowed p then -1
          else if specHasBudget spec \<and> DynamicAllowed p then clampBudget (specBudget spec) p else budgetForLevel (decEffectiveLevel d))"
      "decRequestedBudget d = (if specHasBudget spec then specBudget spec else budgetForLevel (decRequestedLevel d))"
      "decDowngraded d \<longleftrightarrow> decRequestedLevel d \<noteq> decEffectiveLevel d
         \<or> specHasBudget spec \<and> decRequestedBudget d \<noteq> decEffectiveBudget d"
proof -
  define rl where "rl = (if specLevel spec = [] then levelForBudget (specBudget spec) else specLevel spec)"
  define rb where "rb = (if specHasBudget spec then specBudget spec else budgetForLevel rl)"
  define el where "el = nearestLevel rl rb (availableLevels p) p"
  have sup: "Supported p" "availableLevels p \<noteq> []" using assms by (auto simp: ResolveReasoning_def Let_def split: if_splits)
  note R = assms(1) [unfolded ResolveReasoning_def Let_def, folded rl_def, folded rb_def, folded el_def]
  show ?thesis
  proof (cases "known_level rl")
    case False
    then have "DynamicAllowed p" "d = \<lparr>decRequested = True, decSource = specSource spec, decRequestedLevel = rl,
        decRequestedBudget = rb, decEffectiveLevel = rl, decEffectiveBudget = -1, decDowngraded = False\<rparr>"
      using R sup assms(2) by (auto split: if_splits)
    then show ?thesis using unknown sup(1) False by simp
  next
    case True
    then have "el \<noteq> []" and d: "decRequestedLevel d = rl" "decRequestedBudget d = rb" "decEffectiveLevel d = el"
      "decEffectiveBudget d = (if el = ReasoningNone then 0 else if el = ReasoningAuto \<and> DynamicAllowed p then -1
         else if specHasBudget spec \<and> DynamicAllowed p \<and> el \<noteq> ReasoningNone then clampBudget (specBudget spec) p else budgetForLevel el)"
      "decDowngraded d \<longleftrightarrow> rl \<noteq> el \<or> specHasBudget spec \<and> rb \<noteq> decEffectiveBudget d"
      using R sup assms(2) by (cases "el = []"; simp; clarsimp; fail)+
    then have "el \<in> set (availableLevels p)" using nearestLevel_in [of rl rb "availableLevels p" p] by (simp add: el_def)
    then show ?thesis using known sup(1) True d by (simp add: el_def rb_def)
  qed
qed

definition in_bounds :: "reasoningProfile \<Rightarrow> int \<Rightarrow> bool" where
  "in_bounds p b \<longleftrightarrow> (0 < MinBudget p \<longrightarrow> MinBudget p \<le> b) \<and> (0 < MaxBudget p \<longrightarrow> b \<le> MaxBudget p)"

lemma clamp_in_bounds:
  "0 \<le> v \<Longrightarrow> in_bounds p v \<Longrightarrow> clampBudget v p = v"
  "0 \<le> v \<Longrightarrow> (0 < MaxBudget p \<longrightarrow> MinBudget p \<le> MaxBudget p) \<Longrightarrow> in_bounds p (clampBudget v p)"
  "v < 0 \<Longrightarrow> clampBudget v p = -1"
  by (auto simp: clampBudget_def in_bounds_def Let_def)

lemma fixed_budgets: "budgetForLevel ReasoningNone = 0" "budgetForLevel ReasoningAuto = -1"
  by (simp_all add: budgetForLevel_def reasoningBudgets_def)

text \<open>C21: A request for reasoning is resolved only for a model that supports it. A known level becomes a level the model offers,
  the requested one whenever the model offers it, it fits the budgets and no budget was named; an unknown one passes unchanged
  only to a model with dynamic budgets. Switching off is granted only where zero is allowed. The budget of \<open>none\<close> is 0 and that
  of \<open>auto\<close> -1, whatever budget was named, and without a named budget it is the one of the level granted. With a named budget and
  any other level granted for a known one: where budgets are dynamic a budget that is not negative is kept when it is inside the bounds of the
  model and moved into them otherwise, if the lower bound is not above the upper one, and a negative one becomes -1; where budgets are
  not dynamic the budget of the level replaces it.\<close>

theorem reasoning_resolved:
  assumes "ResolveReasoning spec p = Inr d" "specRequested spec"
  shows "Supported p
    \<and> (if known_level (decRequestedLevel d) then decEffectiveLevel d \<in> set (availableLevels p)
       else DynamicAllowed p \<and> decEffectiveLevel d = decRequestedLevel d \<and> decEffectiveBudget d = -1)
    \<and> (decRequestedLevel d \<in> set (availableLevels p) \<and> fits_profile p (decRequestedLevel d) \<and> \<not> specHasBudget spec
       \<longrightarrow> decEffectiveLevel d = decRequestedLevel d \<and> \<not> decDowngraded d)
    \<and> (decEffectiveLevel d = ReasoningNone \<longrightarrow> ZeroAllowed p \<and> decEffectiveBudget d = 0)
    \<and> (decEffectiveLevel d = ReasoningAuto \<longrightarrow> decEffectiveBudget d = -1)
    \<and> (known_level (decRequestedLevel d) \<and> \<not> specHasBudget spec \<longrightarrow> decEffectiveBudget d = budgetForLevel (decEffectiveLevel d))
    \<and> (known_level (decRequestedLevel d) \<and> specHasBudget spec \<and> decEffectiveLevel d \<notin> {ReasoningNone, ReasoningAuto} \<longrightarrow>
         (if \<not> DynamicAllowed p then decEffectiveBudget d = budgetForLevel (decEffectiveLevel d)
          else if specBudget spec < 0 then decEffectiveBudget d = -1
          else (in_bounds p (specBudget spec) \<longrightarrow> decEffectiveBudget d = specBudget spec)
            \<and> ((0 < MaxBudget p \<longrightarrow> MinBudget p \<le> MaxBudget p) \<longrightarrow> in_bounds p (decEffectiveBudget d))))"
  using assms
proof (cases rule: resolve_cases)
  case unknown
  then show ?thesis using available_known [of "decRequestedLevel d" p] by (auto simp: known_level_def reasoningBudgets_def)
next
  case known
  have g: "decEffectiveLevel d = decRequestedLevel d \<and> \<not> decDowngraded d"
    if "decRequestedLevel d \<in> set (availableLevels p)" "fits_profile p (decRequestedLevel d)" "\<not> specHasBudget spec"
    using nearest_granted [OF that(1) known(2) _ that(2)] that known by (auto simp: available_set split: if_splits)
  have z: "decEffectiveLevel d = ReasoningNone \<longrightarrow> ZeroAllowed p \<and> decEffectiveBudget d = 0"
    using known(4,5) by (auto simp: available_set)
  have "ReasoningAuto \<noteq> ReasoningNone" by simp
  then have a: "decEffectiveLevel d = ReasoningAuto \<longrightarrow> decEffectiveBudget d = -1"
    and u: "\<not> specHasBudget spec \<longrightarrow> decEffectiveBudget d = budgetForLevel (decEffectiveLevel d)"
    using known(5) fixed_budgets by (auto split: if_splits)
  have b: "if \<not> DynamicAllowed p then decEffectiveBudget d = budgetForLevel (decEffectiveLevel d)
      else if specBudget spec < 0 then decEffectiveBudget d = -1
      else (in_bounds p (specBudget spec) \<longrightarrow> decEffectiveBudget d = specBudget spec)
        \<and> ((0 < MaxBudget p \<longrightarrow> MinBudget p \<le> MaxBudget p) \<longrightarrow> in_bounds p (decEffectiveBudget d))"
    if "specHasBudget spec" "decEffectiveLevel d \<notin> {ReasoningNone, ReasoningAuto}"
    using clamp_in_bounds [of "specBudget spec" p] known(5) that by simp
  show ?thesis unfolding if_P [OF known(2)] using known(1,2,4) g z a u b by blast
qed

subsection \<open>What is injected\<close>

lemma heaviest_filter:
  "heaviest_within most levels =
     (case filter (\<lambda>l. positive_level l \<and> budgetForLevel l \<le> most) levels of [] \<Rightarrow> [] | l # ls \<Rightarrow> last (l # ls))"
proof -
  have "fold (\<lambda>level best. if positive_level level \<and> budgetForLevel level \<le> most then level else best) levels acc =
     (case filter (\<lambda>l. positive_level l \<and> budgetForLevel l \<le> most) levels of [] \<Rightarrow> acc | l # ls \<Rightarrow> last (l # ls))" for acc
    by (induction levels arbitrary: acc) (auto split: list.splits)
  then show ?thesis by (simp add: heaviest_within_def)
qed

abbreviation offered_positive :: "reasoningProfile \<Rightarrow> reasoningLevel \<Rightarrow> bool" where
  "offered_positive p l \<equiv> l \<in> set (availableLevels p) \<and> positive_level l"

lemma positive_order: "positive_level a \<Longrightarrow> positive_level b \<Longrightarrow> budgetOrder a \<le> budgetOrder b \<longleftrightarrow> budgetForLevel a \<le> budgetForLevel b"
  by (simp add: positive_level_def budgetOrder_def)

lemma sorted_budgets:
  "sorted_wrt (\<lambda>a b. budgetForLevel a \<le> budgetForLevel b) (filter (\<lambda>l. positive_level l \<and> Q l) (availableLevels p))"
  using sorted_wrt_filter [OF available_mono, of "\<lambda>l. positive_level l \<and> Q l" p]
  by (rule sorted_wrt_mono_rel [rotated]) (simp add: positive_order)

lemma heaviest_max:
  assumes "heaviest_within most (availableLevels p) = l" "l \<noteq> []"
  shows "offered_positive p l" "budgetForLevel l \<le> most"
    "\<And>m. offered_positive p m \<Longrightarrow> budgetForLevel m \<le> most \<Longrightarrow> budgetForLevel m \<le> budgetForLevel l"
proof -
  let ?xs = "filter (\<lambda>l. positive_level l \<and> budgetForLevel l \<le> most) (availableLevels p)"
  have xs: "?xs \<noteq> []" "l = last ?xs" using assms by (cases ?xs; simp add: heaviest_filter)+
  then obtain ys where ys: "?xs = ys @ [l]" by (metis append_butlast_last_id)
  have "sorted_wrt (\<lambda>a b. budgetForLevel a \<le> budgetForLevel b) (ys @ [l])"
    using sorted_budgets [of "\<lambda>l. budgetForLevel l \<le> most" p] unfolding ys .
  then have m: "\<forall>m \<in> set ?xs. budgetForLevel m \<le> budgetForLevel l" unfolding ys by (auto simp: sorted_wrt_append)
  have "l \<in> set ?xs" unfolding ys by simp
  then show "offered_positive p l" "budgetForLevel l \<le> most" by simp_all
  show "budgetForLevel m \<le> budgetForLevel l" if "offered_positive p m" "budgetForLevel m \<le> most" for m
    using m that by simp
qed

lemma heaviest_none:
  assumes "heaviest_within most (availableLevels p) = []" "offered_positive p m"
  shows "most < budgetForLevel m"
proof (rule ccontr)
  let ?xs = "filter (\<lambda>l. positive_level l \<and> budgetForLevel l \<le> most) (availableLevels p)"
  assume "\<not> most < budgetForLevel m"
  then have "m \<in> set ?xs" using assms(2) by simp
  then have ne: "?xs \<noteq> []" by (metis list.set(1) empty_iff)
  then have "last ?xs = []" using assms(1) by (cases ?xs) (simp_all add: heaviest_filter)
  then have "[] \<in> set ?xs" using last_in_set [OF ne] by simp
  then show False using available_known [of "[]" p] by simp
qed

lemma find_filter: "List.find P xs = (case filter P xs of [] \<Rightarrow> None | x # _ \<Rightarrow> Some x)"
  by (induction xs) auto

lemma first_positive_min:
  assumes "first_positive (availableLevels p) = l" "l \<noteq> []"
  shows "offered_positive p l" "\<And>m. offered_positive p m \<Longrightarrow> budgetForLevel l \<le> budgetForLevel m"
proof -
  let ?xs = "filter positive_level (availableLevels p)"
  obtain xs where xs: "?xs = l # xs" using assms by (cases ?xs) (simp_all add: first_positive_def find_filter)
  have "sorted_wrt (\<lambda>a b. budgetForLevel a \<le> budgetForLevel b) (l # xs)"
    using sorted_budgets [of "\<lambda>_. True" p] xs by simp
  then have m: "\<forall>m \<in> set ?xs. budgetForLevel l \<le> budgetForLevel m" unfolding xs by simp
  have "l \<in> set ?xs" unfolding xs by simp
  then show "offered_positive p l" by simp
  show "budgetForLevel l \<le> budgetForLevel m" if "offered_positive p m" for m using m that by simp
qed

lemma resolve_granted:
  assumes "Supported p" "l \<in> set (availableLevels p)" "fits_profile p l"
  obtains d where "ResolveReasoning (level_spec l source) p = Inr d" "decEffectiveLevel d = l"
proof -
  have k: "known_level l" "l \<noteq> []" using available_known [OF assms(2)] by auto
  have n: "nearestLevel l (budgetForLevel l) (availableLevels p) p = l"
    using assms k by (intro nearest_granted) (auto simp: available_set)
  have "availableLevels p \<noteq> []" using assms(2) by auto
  then show ?thesis using that assms(1) k n by (simp add: ResolveReasoning_def level_spec_def Let_def)
qed

text \<open>What is injected into a request that did not ask for reasoning is a level the model offers, so that resolving it
  succeeds and grants it; a request with a tiny token limit is told not to think at all.\<close>

theorem injected_reasoning_safe:
  assumes "AutoReasoningSpec p outputLimit = Some spec" "\<forall>l \<in> set (availableLevels p). fits_profile p l"
  shows "(\<exists>d. ResolveReasoning spec p = Inr d \<and> decEffectiveLevel d = specLevel spec)
    \<and> (if 0 < outputLimit \<and> outputLimit \<le> 128 then specLevel spec = ReasoningNone
       else offered_positive p (specLevel spec)
         \<and> (outputLimit \<le> 0 \<or> 511 < outputLimit \<longrightarrow>
              (\<forall>l. offered_positive p l \<and> budgetForLevel l \<le> 8192 \<longrightarrow>
                 budgetForLevel l \<le> budgetForLevel (specLevel spec) \<and> budgetForLevel (specLevel spec) \<le> 8192))
         \<and> (0 < outputLimit \<and> outputLimit \<le> 511 \<or> 8192 < budgetForLevel (specLevel spec) \<longrightarrow>
              (\<forall>l. offered_positive p l \<longrightarrow> budgetForLevel (specLevel spec) \<le> budgetForLevel l)))"
proof -
  let ?first = "first_positive (availableLevels p)" and ?heavy = "heaviest_within 8192 (availableLevels p)"
  have medium: "budgetForLevel ReasoningMedium = 8192" by (simp add: budgetForLevel_def reasoningBudgets_def)
  have sup: "Supported p" using assms(1) by (simp add: AutoReasoningSpec_def split: if_splits)
  have ok: "\<exists>d. ResolveReasoning (injected l) p = Inr d \<and> decEffectiveLevel d = l" if "l \<in> set (availableLevels p)" for l
    using resolve_granted [OF sup that, of "''auto-inject''"] assms(2) that unfolding injected_def by metis
  have level: "specLevel (injected l) = l" for l by (simp add: injected_def level_spec_def)
  consider (off) "0 < outputLimit" "outputLimit \<le> 128" "spec = injected ReasoningNone" "ReasoningNone \<in> set (availableLevels p)"
    | (small) "128 < outputLimit" "outputLimit \<le> 511" "?first \<noteq> []" "spec = injected ?first"
    | (heavy) "outputLimit \<le> 0 \<or> 511 < outputLimit" "?heavy \<noteq> []" "spec = injected ?heavy"
    | (cheap) "outputLimit \<le> 0 \<or> 511 < outputLimit" "?heavy = []" "?first \<noteq> []" "spec = injected ?first"
    using assms(1) sup unfolding AutoReasoningSpec_def Let_def autoReasoningOffCeiling_def autoReasoningSmallCeiling_def medium
    by (smt (verit) option.distinct(1) option.inject)
  then show ?thesis
  proof cases
    case off
    then show ?thesis using ok [OF off(4)] level by simp
  next
    case small
    note m = first_positive_min [OF refl small(3)]
    then show ?thesis using small ok [of ?first] level by simp
  next
    case heavy
    note m = heaviest_max [OF refl heavy(2)]
    then have "\<not> 8192 < budgetForLevel ?heavy" by simp
    then show ?thesis using heavy ok [of ?heavy] level m by auto
  next
    case cheap
    note m = first_positive_min [OF refl cheap(3)]
    have "8192 < budgetForLevel l" if "offered_positive p l" for l by (rule heaviest_none [OF cheap(2) that])
    then show ?thesis using cheap ok [of ?first] level m by fastforce
  qed
qed

end
