(* ===== verification/Tool_Calls.thy ===== *)
theory Tool_Calls
  imports Reasoning
begin

text \<open>
  \<open>internal/compat/tools.go\<close>, \<open>tool_output.go\<close> and \<open>tool_stream.go\<close>: function tools and the choice among them,
  read from either API and written for either, the arguments and results of tool calls as texts, and the
  accumulation of streamed tool calls. A raw message that may be missing is an option; the order of a
  \<open>range\<close> over a map is that of its bindings.
\<close>

datatype toolFormat = ToolFormatChat | ToolFormatResponses

record toolDefinition =
  toolName :: string
  toolDescription :: string
  toolParameters :: "raw option"
  toolStrict :: "bool option"

record toolChoice =
  choiceMode :: string
  choiceName :: string

definition no_choice :: toolChoice where "no_choice = \<lparr>choiceMode = [], choiceName = []\<rparr>"

definition indexed :: "string \<Rightarrow> nat \<Rightarrow> string" where
  "indexed param i = param @ ''['' @ itoa (int i) @ '']''"

definition isNull :: "raw option \<Rightarrow> bool" where
  "isNull r \<longleftrightarrow> r = Some RNull"

definition stringValue :: "raw option \<Rightarrow> string" where
  "stringValue r = (case r of None \<Rightarrow> [] | Some v \<Rightarrow> (case unmarshal_string v of None \<Rightarrow> [] | Some s \<Rightarrow> s))"

subsection \<open>Definitions\<close>

definition hasFlatDefinitionFields :: "fields \<Rightarrow> bool" where
  "hasFlatDefinitionFields item \<longleftrightarrow> list_ex (\<lambda>name. map_of item name \<noteq> None) [''name'', ''description'', ''parameters'', ''strict'']"

definition unsupportedToolExtensionMessage :: "string \<Rightarrow> string" where
  "unsupportedToolExtensionMessage name =
     (if name = ''allowed_callers'' then ''Allowed callers are not supported.''
      else if name = ''defer_loading'' then ''Deferred tool loading is not supported.''
      else ''Output schemas are not supported.'')"

definition field_problem :: "string \<Rightarrow> toolFormat \<Rightarrow> string \<times> raw \<Rightarrow> compatError option" where
  "field_problem param fmt field =
     (let (name, r) = field
      in if name \<in> {''name'', ''description'', ''parameters'', ''strict''} then None
         else if name \<in> {''allowed_callers'', ''defer_loading'', ''output_schema''} \<and> fmt = ToolFormatResponses then
           (if is_null r then None
            else Some (ValidationError ''unsupported_responses_feature'' (param @ ''.'' @ name) (unsupportedToolExtensionMessage name)))
         else Some (invalid_parameter (param @ ''.function.'' @ name) ''Unknown function tool field.''))"

definition rejectUnknownDefinitionFields :: "fields \<Rightarrow> string \<Rightarrow> toolFormat \<Rightarrow> compatError option" where
  "rejectUnknownDefinitionFields d param fmt =
     (case List.map_filter (field_problem param fmt) d of [] \<Rightarrow> None | e # _ \<Rightarrow> Some e)"

definition missing_parameter :: "string \<Rightarrow> string \<Rightarrow> compatError" where
  "missing_parameter param message = ValidationError ''missing_required_parameter'' param message"

text \<open>The type an item has or implies.\<close>

definition item_type :: "fields \<Rightarrow> string \<Rightarrow> compatError + string" where
  "item_type item param =
     (case map_of item ''type'' of
        Some r \<Rightarrow> (case unmarshal_string r of
            None \<Rightarrow> Inl (invalid_parameter (param @ ''.type'') ''The tool type must be a string.'')
          | Some t \<Rightarrow> Inr t)
      | None \<Rightarrow> Inr (if map_of item ''function'' \<noteq> None \<or> map_of item ''name'' \<noteq> None then ''function'' else []))"

definition item_definition :: "fields \<Rightarrow> toolFormat \<Rightarrow> string \<Rightarrow> compatError + fields" where
  "item_definition item fmt param =
     (case map_of item ''function'' of
        Some r \<Rightarrow>
          if fmt = ToolFormatResponses \<and> hasFlatDefinitionFields item
          then Inl (invalid_parameter param ''A function tool cannot mix flat and nested function fields.'')
          else (case unmarshal_object r of
              Some (Some d) \<Rightarrow> Inr d
            | _ \<Rightarrow> Inl (invalid_parameter (param @ ''.function'') ''The function definition must be an object.''))
      | None \<Rightarrow> Inr (filter (\<lambda>(k, v). k \<noteq> ''type'') item))"

text \<open>The fields of a definition, one after another.\<close>

definition definition_name :: "fields \<Rightarrow> string \<Rightarrow> compatError + string" where
  "definition_name d param =
     (case map_of d ''name'' of
        None \<Rightarrow> Inl (missing_parameter (param @ ''.function.name'') ''A function tool name is required.'')
      | Some r \<Rightarrow>
          (case unmarshal_string r of
             Some n \<Rightarrow> if trim_space n \<noteq> n \<or> n = []
               then Inl (invalid_parameter (param @ ''.function.name'') ''A function tool name must be a non-empty string.'') else Inr n
           | None \<Rightarrow> Inl (invalid_parameter (param @ ''.function.name'') ''A function tool name must be a non-empty string.'')))"

definition definition_description :: "fields \<Rightarrow> string \<Rightarrow> compatError + string" where
  "definition_description d param =
     (case map_of d ''description'' of
        None \<Rightarrow> Inr []
      | Some r \<Rightarrow>
          (case unmarshal_string r of
             Some t \<Rightarrow> Inr t
           | None \<Rightarrow> Inl (invalid_parameter (param @ ''.function.description'') ''The function description must be a string.'')))"

definition definition_parameters :: "fields \<Rightarrow> raw option" where
  "definition_parameters d =
     (case map_of d ''parameters'' of None \<Rightarrow> None | Some r \<Rightarrow> if is_null r then None else Some r)"

definition definition_strict :: "fields \<Rightarrow> string \<Rightarrow> compatError + bool option" where
  "definition_strict d param =
     (case map_of d ''strict'' of
        None \<Rightarrow> Inr None
      | Some r \<Rightarrow>
          if is_null r then Inr None
          else (case unmarshal_bool r of
             Some b \<Rightarrow> Inr (Some b)
           | None \<Rightarrow> Inl (invalid_parameter (param @ ''.function.strict'') ''The function strict flag must be a boolean.'')))"

definition read_definition :: "fields \<Rightarrow> string \<Rightarrow> compatError + toolDefinition" where
  "read_definition d param =
     (case definition_name d param of
        Inl e \<Rightarrow> Inl e
      | Inr n \<Rightarrow>
          (case definition_description d param of
             Inl e \<Rightarrow> Inl e
           | Inr t \<Rightarrow>
               (case definition_strict d param of
                  Inl e \<Rightarrow> Inl e
                | Inr b \<Rightarrow> Inr \<lparr>toolName = n, toolDescription = t, toolParameters = definition_parameters d, toolStrict = b\<rparr>)))"

definition normalizeTool :: "fields option \<Rightarrow> toolFormat \<Rightarrow> string \<Rightarrow> compatError + toolDefinition" where
  "normalizeTool item fmt param =
     (case item of
        None \<Rightarrow> Inl (invalid_parameter param ''Each tool must be an object.'')
      | Some it \<Rightarrow>
          (case item_type it param of
             Inl e \<Rightarrow> Inl e
           | Inr t \<Rightarrow>
               if t \<noteq> ''function'' then Inl (invalid_parameter (param @ ''.type'') ''Only function tools are supported.'')
               else (case item_definition it fmt param of
                   Inl e \<Rightarrow> Inl e
                 | Inr d \<Rightarrow>
                     if fmt = ToolFormatChat \<and> d = []
                     then Inl (missing_parameter (param @ ''.function.name'') ''A function tool name is required.'')
                     else (case rejectUnknownDefinitionFields d param fmt of
                         Some e \<Rightarrow> Inl e
                       | None \<Rightarrow> read_definition d param))))"

fun normalize_items :: "fields option list \<Rightarrow> toolFormat \<Rightarrow> string \<Rightarrow> nat \<Rightarrow> compatError + toolDefinition list" where
  "normalize_items [] fmt param i = Inr []"
| "normalize_items (item # items) fmt param i =
     (case normalizeTool item fmt (indexed param i) of
        Inl e \<Rightarrow> Inl e
      | Inr d \<Rightarrow>
          (case normalize_items items fmt param (Suc i) of Inl e \<Rightarrow> Inl e | Inr ds \<Rightarrow> Inr (d # ds)))"

definition NormalizeTools :: "raw option \<Rightarrow> toolFormat \<Rightarrow> string \<Rightarrow> compatError + toolDefinition list" where
  "NormalizeTools r fmt param =
     (case r of
        None \<Rightarrow> Inr []
      | Some v \<Rightarrow>
          if is_null v then Inr []
          else (case unmarshal_objects v of
              Some (Some items) \<Rightarrow> normalize_items items fmt param 0
            | _ \<Rightarrow> Inl (invalid_parameter param ''The tools parameter must be an array.'')))"

text \<open>The names of a marshalled map come in order.\<close>

definition marshal_bool :: "bool \<Rightarrow> raw" where "marshal_bool b = RBool b"

definition function_fields :: "toolDefinition \<Rightarrow> fields" where
  "function_fields d =
     (''name'', marshal_string (toolName d))
       # (if toolDescription d \<noteq> [] then [(''description'', marshal_string (toolDescription d))] else [])
       @ (case toolParameters d of None \<Rightarrow> [] | Some r \<Rightarrow> [(''parameters'', marshal_raw r)])
       @ (case toolStrict d of None \<Rightarrow> [] | Some b \<Rightarrow> [(''strict'', marshal_bool b)])"

definition marshal_tool :: "toolFormat \<Rightarrow> toolDefinition \<Rightarrow> raw" where
  "marshal_tool fmt d =
     (if fmt = ToolFormatResponses then marshal_map ((''type'', marshal_string ''function'') # function_fields d)
      else marshal_map [(''type'', marshal_string ''function''), (''function'', marshal_map (function_fields d))])"

definition MarshalTools :: "toolDefinition list \<Rightarrow> toolFormat \<Rightarrow> raw" where
  "MarshalTools ds fmt = RArray (map (marshal_tool fmt) ds)"

definition ToolNames :: "toolDefinition list \<Rightarrow> string list" where
  "ToolNames ds = remdups (map toolName ds)"

subsection \<open>The choice\<close>

definition choice_name :: "fields \<Rightarrow> string" where
  "choice_name choice =
     (let name = stringValue (map_of choice ''name'')
      in if name \<noteq> [] then name
         else case map_of choice ''function'' of
           None \<Rightarrow> []
         | Some nested \<Rightarrow>
             (case unmarshal_object nested of
                None \<Rightarrow> []
              | Some None \<Rightarrow> []
              | Some (Some f) \<Rightarrow> stringValue (map_of f ''name'')))"

definition NormalizeToolChoice :: "raw option \<Rightarrow> string list \<Rightarrow> string \<Rightarrow> compatError + toolChoice" where
  "NormalizeToolChoice r names param =
     (case r of
        None \<Rightarrow> Inr no_choice
      | Some v \<Rightarrow>
          if is_null v then Inr no_choice
          else case unmarshal_string v of
            Some mode \<Rightarrow>
              if mode \<in> {''none'', ''auto'', ''required''} then
                (if mode = ''required'' \<and> names = []
                 then Inl (invalid_parameter param ''required tool_choice needs at least one function tool.'')
                 else Inr \<lparr>choiceMode = mode, choiceName = []\<rparr>)
              else Inl (invalid_parameter param ''The tool_choice value is not supported.'')
          | None \<Rightarrow>
              (case unmarshal_object v of
                 Some (Some choice) \<Rightarrow>
                   (case (case map_of choice ''type'' of
                        None \<Rightarrow> Some ''function''
                      | Some RNull \<Rightarrow> Some ''function''
                      | Some t \<Rightarrow> unmarshal_string t) of
                      None \<Rightarrow> Inl (invalid_parameter (param @ ''.type'') ''The tool choice type must be a string.'')
                    | Some t \<Rightarrow>
                        if t \<noteq> ''function'' then Inl (invalid_parameter (param @ ''.type'') ''Only function tool choices are supported.'')
                        else if choice_name choice = [] then Inl (missing_parameter (param @ ''.name'') ''A function tool choice requires a name.'')
                        else if names \<noteq> [] \<and> choice_name choice \<notin> set names
                        then Inl (invalid_parameter (param @ ''.name'') ''The selected function is not present in tools.'')
                        else Inr \<lparr>choiceMode = ''function'', choiceName = choice_name choice\<rparr>)
               | _ \<Rightarrow> Inl (invalid_parameter param ''The tool_choice parameter is malformed.'')))"

definition MarshalToolChoice :: "toolChoice \<Rightarrow> raw option" where
  "MarshalToolChoice c =
     (if choiceMode c = [] then None
      else if choiceMode c \<noteq> ''function'' then Some (marshal_string (choiceMode c))
      else Some (marshal_map [(''type'', marshal_string ''function''), (''function'', marshal_map [(''name'', marshal_string (choiceName c))])]))"

subsection \<open>Arguments and results\<close>

definition NormalizeArguments :: "raw option \<Rightarrow> string \<Rightarrow> compatError + string" where
  "NormalizeArguments r param =
     (case r of
        None \<Rightarrow> Inr ''{}''
      | Some v \<Rightarrow>
          if is_null v then Inr ''{}''
          else case unmarshal_string v of
            Some t \<Rightarrow>
              if trim_space t = [] then Inr ''{}''
              else (case raw_parse t of
                  None \<Rightarrow> Inl (invalid_parameter param ''Tool arguments must contain valid JSON.'')
                | Some u \<Rightarrow> Inr (spell u))
          | None \<Rightarrow> Inr (spell v))"

definition UnsupportedImageOutput :: string where
  "UnsupportedImageOutput = ''[image omitted: unsupported by upstream]''"

definition flattenOutputPart :: "(string \<Rightarrow> string) \<Rightarrow> raw \<Rightarrow> string \<Rightarrow> compatError + string" where
  "flattenOutputPart ul r param =
     (case unmarshal_string r of
        Some t \<Rightarrow> Inr t
      | None \<Rightarrow>
          (case unmarshal_object r of
             Some (Some part) \<Rightarrow>
               (let typeName = to_lower ul (stringValue (map_of part ''type''))
                in if typeName \<in> {''input_image'', ''output_image'', ''image'', ''image_url'', ''file'', ''input_file'', ''output_file''}
                   then Inr UnsupportedImageOutput
                   else if typeName \<in> {''input_text'', ''output_text'', ''text'', []} then
                     (case map_of part ''text'' of
                        None \<Rightarrow> Inr (spell r)
                      | Some t \<Rightarrow>
                          (case unmarshal_string t of
                             None \<Rightarrow> Inl (invalid_parameter (param @ ''.text'') ''Text tool output parts require a string text field.'')
                           | Some s \<Rightarrow> Inr s))
                   else Inr (spell r))
           | _ \<Rightarrow> Inr (spell r)))"

fun flatten_parts :: "(string \<Rightarrow> string) \<Rightarrow> raw list \<Rightarrow> string \<Rightarrow> nat \<Rightarrow> compatError + string list" where
  "flatten_parts ul [] param i = Inr []"
| "flatten_parts ul (r # rs) param i =
     (case flattenOutputPart ul r (indexed param i) of
        Inl e \<Rightarrow> Inl e
      | Inr s \<Rightarrow> (case flatten_parts ul rs param (Suc i) of Inl e \<Rightarrow> Inl e | Inr ss \<Rightarrow> Inr (s # ss)))"

text \<open>A JSON null unmarshals into a string without an error, as the empty text.\<close>

definition FlattenToolOutput :: "(string \<Rightarrow> string) \<Rightarrow> raw option \<Rightarrow> string \<Rightarrow> compatError + string" where
  "FlattenToolOutput ul r param =
     (case r of
        None \<Rightarrow> Inl (missing_parameter param ''Tool output is required.'')
      | Some v \<Rightarrow>
          (case unmarshal_string v of
             Some t \<Rightarrow> Inr t
           | None \<Rightarrow>
               (case unmarshal_array v of
                  Some (Some parts) \<Rightarrow>
                    (case flatten_parts ul parts param 0 of
                       Inl e \<Rightarrow> Inl e
                     | Inr texts \<Rightarrow> Inr (join_with [CHR 0x0A, CHR 0x0A] texts))
                | _ \<Rightarrow> Inr (spell v))))"

subsection \<open>Streamed calls\<close>

definition MaxToolArgumentsBytes :: nat where "MaxToolArgumentsBytes = 4194304"

record streamedCall =
  scIndex :: int
  scID :: string
  scName :: string
  scArguments :: string

datatype toolStreamError =
    NegativeIndex
  | ConflictingIDs int
  | ConflictingNames int
  | ArgumentsTooLong
  | MissingFunctionName int
  | MalformedArguments int

record toolCallAccumulator =
  accCalls :: "(int \<times> streamedCall) list"
  accTotal :: nat

definition empty_call :: "int \<Rightarrow> streamedCall" where
  "empty_call i = \<lparr>scIndex = i, scID = [], scName = [], scArguments = []\<rparr>"

definition put_call :: "streamedCall \<Rightarrow> toolCallAccumulator \<Rightarrow> toolCallAccumulator" where
  "put_call c a = a\<lparr>accCalls := AList.update (scIndex c) c (accCalls a)\<rparr>"

text \<open>An error leaves what was stored before it.\<close>

definition Add :: "streamedCall \<Rightarrow> toolCallAccumulator \<Rightarrow> toolStreamError option \<times> toolCallAccumulator" where
  "Add delta a =
     (if scIndex delta < 0 then (Some NegativeIndex, a)
      else
        let i = scIndex delta;
            call = (case map_of (accCalls a) i of None \<Rightarrow> empty_call i | Some c \<Rightarrow> c)
        in if scID delta \<noteq> [] \<and> scID call \<noteq> [] \<and> scID call \<noteq> scID delta then (Some (ConflictingIDs i), put_call call a)
           else
             let call1 = (if scID delta \<noteq> [] then call\<lparr>scID := scID delta\<rparr> else call)
             in if scName delta \<noteq> [] \<and> scName call1 \<noteq> [] \<and> scName call1 \<noteq> scName delta
                then (Some (ConflictingNames i), put_call call1 a)
                else
                  let call2 = (if scName delta \<noteq> [] then call1\<lparr>scName := scName delta\<rparr> else call1)
                  in if scArguments delta \<noteq> [] \<and> accTotal a + length (scArguments delta) > MaxToolArgumentsBytes
                     then (Some ArgumentsTooLong, put_call call2 a)
                     else
                       (None, (put_call (call2\<lparr>scArguments := scArguments call2 @ scArguments delta\<rparr>) a)
                                \<lparr>accTotal := accTotal a + length (scArguments delta)\<rparr>))"

definition finished_call :: "streamedCall \<Rightarrow> toolStreamError + streamedCall" where
  "finished_call c =
     (let arguments = (if scArguments c = [] then ''{}'' else scArguments c)
      in if scName c = [] then Inl (MissingFunctionName (scIndex c))
         else if raw_parse arguments = None then Inl (MalformedArguments (scIndex c))
         else Inr (c\<lparr>scID := (if scID c = [] then ''call_'' @ itoa (scIndex c) else scID c), scArguments := arguments\<rparr>))"

fun finish_calls :: "streamedCall list \<Rightarrow> toolStreamError + streamedCall list" where
  "finish_calls [] = Inr []"
| "finish_calls (c # cs) =
     (case finished_call c of
        Inl e \<Rightarrow> Inl e
      | Inr d \<Rightarrow> (case finish_calls cs of Inl e \<Rightarrow> Inl e | Inr ds \<Rightarrow> Inr (d # ds)))"

definition Calls :: "toolCallAccumulator \<Rightarrow> toolStreamError + streamedCall list" where
  "Calls a = finish_calls (map (\<lambda>i. the (map_of (accCalls a) i)) (sort (map fst (accCalls a))))"

end
