(* ===== verification/Responses_Request.thy ===== *)
theory Responses_Request
  imports Tool_Calls Responses_Stream
begin

text \<open>
  \<open>internal/protocol/responses/request.go\<close>, \<open>validate.go\<close>, \<open>types.go\<close> and \<open>config.go\<close>: a request of the Responses
  API is validated, turned into chat messages and fields, and, for the model it resolves to, written as a
  chat request. A request is refused with the first error of the code's order; where the code ranges over
  a map, the order is that of the bindings.
\<close>

subsection \<open>Errors\<close>

text \<open>A 400 with its code, parameter and message; \<open>LevelNotRecognized\<close> is the message built from the accepted levels.\<close>

datatype requestError =
    InvalidRequest string "string option" string
  | LevelNotRecognized string reasoningLevel "reasoningLevel list"
  | ModelCapability
  | InternalError string

definition invalidResponses :: "string \<Rightarrow> string \<Rightarrow> string \<Rightarrow> requestError" where
  "invalidResponses code param message = InvalidRequest code (if param = [] then None else Some param) message"

definition unsupportedResponses :: "string \<Rightarrow> string \<Rightarrow> requestError" where
  "unsupportedResponses param message = invalidResponses ''unsupported_responses_feature'' param message"

abbreviation bad_parameter :: "string \<Rightarrow> string \<Rightarrow> requestError" where
  "bad_parameter param message \<equiv> invalidResponses ''invalid_parameter'' param message"

definition compatRequestError :: "compatError \<Rightarrow> requestError" where
  "compatRequestError e =
     (case e of
        ValidationError code param message \<Rightarrow> invalidResponses code param message
      | InvalidLevel param level accepted \<Rightarrow> LevelNotRecognized param level accepted
      | AmbiguousReasoning \<Rightarrow> bad_parameter [] ''reasoning aliases disagree''
      | ReasoningUnsupported \<Rightarrow> bad_parameter [] ''reasoning is not supported by the selected model''
      | NoWireFormat \<Rightarrow> bad_parameter [] ''reasoning is not supported by the selected model: the selected model has no reasoning wire format''
      | UnknownWireFormat w \<Rightarrow> bad_parameter [] (''unsupported reasoning wire format '' @ w))"

definition reasoningResponseModelError :: "compatError \<Rightarrow> requestError" where
  "reasoningResponseModelError e =
     (if is_unsupported e
      then invalidResponses ''model_capability_unsupported'' ''reasoning'' ''The selected model does not support the requested reasoning mode.''
      else compatRequestError e)"

subsection \<open>Validation\<close>

definition isJSONNull :: "raw option \<Rightarrow> bool" where
  "isJSONNull r \<longleftrightarrow> r = None \<or> r = Some RNull"

definition allowedTopLevel :: "string list" where
  "allowedTopLevel =
     [''model'', ''input'', ''instructions'', ''stream'', ''tools'', ''tool_choice'', ''parallel_tool_calls'', ''max_output_tokens'',
      ''reasoning'', ''reasoning_effort'', ''text'', ''temperature'', ''top_p'', ''user'', ''store'', ''background'',
      ''previous_response_id'', ''conversation'', ''metadata'', ''prompt'', ''prompt_cache_key'', ''prompt_cache_options'',
      ''prompt_cache_retention'', ''context_management'', ''include'', ''max_tool_calls'', ''moderation'', ''safety_identifier'',
      ''service_tier'', ''truncation'', ''top_logprobs'', ''stream_options'', ''seed'', ''stop'', ''presence_penalty'',
      ''frequency_penalty'', ''thinking'', ''client_metadata'']"

definition reject_flag :: "string \<Rightarrow> string \<Rightarrow> string \<Rightarrow> fields \<Rightarrow> requestError option" where
  "reject_flag name malformed unsupported fs =
     (case map_of fs name of
        None \<Rightarrow> None
      | Some r \<Rightarrow>
          if is_null r then None
          else (case unmarshal_bool r of
             None \<Rightarrow> Some (bad_parameter name malformed)
           | Some v \<Rightarrow> if v then Some (unsupportedResponses name unsupported) else None))"

definition rejectStoreTrue :: "fields \<Rightarrow> requestError option" where
  "rejectStoreTrue = reject_flag ''store'' ''The store parameter must be a boolean.'' ''Stored responses are not supported.''"

definition rejectBackgroundAsync :: "fields \<Rightarrow> requestError option" where
  "rejectBackgroundAsync = reject_flag ''background'' ''The background parameter must be a boolean.'' ''Background responses are not supported.''"

definition unsupportedUserState :: "(string \<times> string) list" where
  "unsupportedUserState =
     [(''previous_response_id'', ''Stateful response recovery is not supported.''),
      (''conversation'', ''Stateful response recovery is not supported.''),
      (''metadata'', ''Response metadata persistence is not supported.''),
      (''prompt'', ''Prompt templates are not supported.''),
      (''prompt_cache_options'', ''Prompt cache options are not supported.''),
      (''prompt_cache_retention'', ''Prompt cache retention is not supported.''),
      (''context_management'', ''Context management is not supported.''),
      (''max_tool_calls'', ''Maximum tool call limits are not supported.''),
      (''moderation'', ''Moderation controls are not supported.''),
      (''safety_identifier'', ''Safety identifiers are not supported.''),
      (''top_logprobs'', ''Top logprobs are not supported.'')]"

definition rejectPresentUserState :: "fields \<Rightarrow> requestError option" where
  "rejectPresentUserState fs =
     map_option (\<lambda>(name, message). unsupportedResponses name message)
       (List.find (\<lambda>(name, _). \<not> isJSONNull (map_of fs name)) unsupportedUserState)"

fun first_hosted :: "nat \<Rightarrow> string list \<Rightarrow> requestError option" where
  "first_hosted i [] = None"
| "first_hosted i (w # ws) =
     (if w = ''reasoning.encrypted_content'' then first_hosted (Suc i) ws
      else Some (unsupportedResponses (indexed ''include'' i) ''Hosted tool inclusion is not supported.''))"

definition rejectIncludeHosted :: "fields \<Rightarrow> requestError option" where
  "rejectIncludeHosted fs =
     (case map_of fs ''include'' of
        None \<Rightarrow> None
      | Some r \<Rightarrow>
          if is_null r then None
          else (case unmarshal_array r of
             Some (Some vs) \<Rightarrow>
               (case map_all unmarshal_string vs of
                  None \<Rightarrow> Some (bad_parameter ''include'' ''The include parameter must be an array of strings.'')
                | Some ws \<Rightarrow> first_hosted 0 ws)
           | _ \<Rightarrow> Some (bad_parameter ''include'' ''The include parameter must be an array of strings.'')))"

definition reject_other :: "string \<Rightarrow> string \<Rightarrow> string \<Rightarrow> string \<Rightarrow> fields \<Rightarrow> requestError option" where
  "reject_other name only malformed unsupported fs =
     (case map_of fs name of
        None \<Rightarrow> None
      | Some r \<Rightarrow>
          if is_null r then None
          else (case unmarshal_string r of
             None \<Rightarrow> Some (bad_parameter name malformed)
           | Some v \<Rightarrow> if v \<noteq> only then Some (unsupportedResponses name unsupported) else None))"

definition rejectServiceTier :: "fields \<Rightarrow> requestError option" where
  "rejectServiceTier =
     reject_other ''service_tier'' ''auto'' ''The service_tier parameter must be a string or null.'' ''Only service_tier=auto is supported.''"

definition rejectTruncation :: "fields \<Rightarrow> requestError option" where
  "rejectTruncation =
     reject_other ''truncation'' ''disabled'' ''The truncation parameter must be a string or null.'' ''Only truncation=disabled is supported.''"

definition first_error :: "requestError option list \<Rightarrow> requestError option" where
  "first_error checks = (case List.map_filter id checks of [] \<Rightarrow> None | e # _ \<Rightarrow> Some e)"

definition rejectUnsupportedTopLevel :: "fields \<Rightarrow> requestError option" where
  "rejectUnsupportedTopLevel fs =
     (case List.find (\<lambda>(name, _). name \<notin> set allowedTopLevel) fs of
        Some (name, _) \<Rightarrow> Some (bad_parameter name ''Unknown Responses parameter.'')
      | None \<Rightarrow> first_error [rejectStoreTrue fs, rejectBackgroundAsync fs, rejectPresentUserState fs,
                             rejectIncludeHosted fs, rejectServiceTier fs, rejectTruncation fs])"

definition hosted_tool :: "fields option \<Rightarrow> bool" where
  "hosted_tool tool \<longleftrightarrow>
     (case tool of
        None \<Rightarrow> False
      | Some t \<Rightarrow> (case map_of t ''type'' of None \<Rightarrow> False
          | Some r \<Rightarrow> (case unmarshal_string r of None \<Rightarrow> False | Some w \<Rightarrow> w \<noteq> ''function'')))"

definition rejectHostedTools :: "fields \<Rightarrow> requestError option" where
  "rejectHostedTools fs =
     (case map_of fs ''tools'' of
        None \<Rightarrow> None
      | Some r \<Rightarrow>
          (case unmarshal_objects r of
             Some (Some tools) \<Rightarrow>
               if list_ex hosted_tool tools then Some (unsupportedResponses ''tools'' ''Only function tools are supported.'') else None
           | _ \<Rightarrow> None))"

definition requiredModel :: "fields \<Rightarrow> requestError + string" where
  "requiredModel fs =
     (case map_of fs ''model'' of
        None \<Rightarrow> Inl (invalidResponses ''missing_required_parameter'' ''model'' ''The model parameter is required.'')
      | Some r \<Rightarrow>
          (case unmarshal_string r of
             Some m \<Rightarrow> if trim_space m \<noteq> m \<or> m = [] then Inl (bad_parameter ''model'' ''The model parameter must be a non-empty string.'') else Inr m
           | None \<Rightarrow> Inl (bad_parameter ''model'' ''The model parameter must be a non-empty string.'')))"

definition parseStream :: "raw option \<Rightarrow> requestError + bool" where
  "parseStream r =
     (case r of
        None \<Rightarrow> Inr False
      | Some v \<Rightarrow> if is_null v then Inr False
          else (case unmarshal_bool v of None \<Rightarrow> Inl (bad_parameter ''stream'' ''The stream parameter must be a boolean.'') | Some b \<Rightarrow> Inr b))"

subsection \<open>Messages\<close>

record chatToolCall =
  ctcIndex :: int
  ctcID :: string
  ctcName :: string
  ctcArguments :: string

record chatMessage =
  msgRole :: string
  msgContent :: string
  msgContentPresent :: bool
  msgToolCallID :: string
  msgToolCalls :: "chatToolCall list"

definition text_message :: "string \<Rightarrow> string \<Rightarrow> chatMessage" where
  "text_message role content = \<lparr>msgRole = role, msgContent = content, msgContentPresent = True, msgToolCallID = [], msgToolCalls = []\<rparr>"

definition no_message :: chatMessage where
  "no_message = \<lparr>msgRole = [], msgContent = [], msgContentPresent = False, msgToolCallID = [], msgToolCalls = []\<rparr>"

text \<open>\<open>json.Marshal\<close> of the structs: fields in their order, empty ones left out where the tag says so.\<close>

definition marshal_struct :: "fields \<Rightarrow> raw" where
  "marshal_struct fs = RObject (map (\<lambda>(k, v). (quote k, v)) fs)"

definition marshal_call :: "chatToolCall \<Rightarrow> raw" where
  "marshal_call c =
     marshal_struct [(''index'', RNumber (itoa (ctcIndex c))), (''id'', marshal_string (ctcID c)), (''type'', marshal_string ''function''),
       (''function'', marshal_struct [(''name'', marshal_string (ctcName c)), (''arguments'', marshal_string (ctcArguments c))])]"

definition message_fields :: "chatMessage \<Rightarrow> fields" where
  "message_fields m =
     (''role'', marshal_string (msgRole m))
       # (if msgContent m = [] then [] else [(''content'', marshal_string (msgContent m))])
       @ (if msgToolCallID m = [] then [] else [(''tool_call_id'', marshal_string (msgToolCallID m))])
       @ (if msgToolCalls m = [] then [] else [(''tool_calls'', RArray (map marshal_call (msgToolCalls m)))])"

definition marshal_message :: "chatMessage \<Rightarrow> raw" where
  "marshal_message m = marshal_struct (message_fields m)"

record inputItem =
  itType :: string
  itRole :: string
  itContent :: "raw option"
  itName :: string
  itArguments :: "raw option"
  itCallID :: string
  itOutput :: "raw option"

definition parse_item :: "raw \<Rightarrow> inputItem option" where
  "parse_item r =
     (case unmarshal_struct r of
        None \<Rightarrow> None
      | Some ms \<Rightarrow>
          (case (struct_string ''type'' ms, struct_string ''role'' ms, struct_string ''name'' ms, struct_string ''call_id'' ms) of
             (Some t, Some ro, Some n, Some c) \<Rightarrow>
               Some \<lparr>itType = t, itRole = ro, itContent = struct_raw ''content'' ms, itName = n,
                     itArguments = struct_raw ''arguments'' ms, itCallID = c, itOutput = struct_raw ''output'' ms\<rparr>
           | _ \<Rightarrow> None))"

text \<open>The text of the parts of a message; a part that is no text is refused.\<close>

fun part_texts :: "string \<Rightarrow> nat \<Rightarrow> fields option list \<Rightarrow> requestError + string" where
  "part_texts param i [] = Inr []"
| "part_texts param i (part # ps) =
     (let kind = (case part of None \<Rightarrow> [] | Some p \<Rightarrow> stringValue (map_of p ''type''));
          here = (case part of None \<Rightarrow> [] | Some p \<Rightarrow> stringValue (map_of p ''text''))
      in if List.member [''input_text'', ''text'', ''output_text'', []] kind then
           (case part_texts param (Suc i) ps of Inl e \<Rightarrow> Inl e | Inr rest \<Rightarrow> Inr (here @ rest))
         else Inl (unsupportedResponses (indexed (param @ ''.content'') i)
           (if List.member [''input_image'', ''image'', ''image_url'', ''output_image''] kind then ''Image inputs are not supported.''
            else if kind = ''file'' then ''File inputs are not supported.'' else ''This content type is not supported.'')))"

text \<open>The text of an item, and whether it came as a string.\<close>

definition extractMessageText :: "inputItem \<Rightarrow> string \<Rightarrow> requestError + (string \<times> bool)" where
  "extractMessageText it param =
     (case itContent it of
        None \<Rightarrow> Inr ([], True)
      | Some r \<Rightarrow>
          (case unmarshal_string r of
             Some t \<Rightarrow> Inr (t, True)
           | None \<Rightarrow>
               (case unmarshal_objects r of
                  Some (Some ps) \<Rightarrow> (case part_texts param 0 ps of Inl e \<Rightarrow> Inl e | Inr t \<Rightarrow> Inr (t, False))
                | _ \<Rightarrow> Inl (bad_parameter (param @ ''.content'') ''The message content must be text or an array of text parts.''))))"

definition convertMessageItem :: "inputItem \<Rightarrow> nat \<Rightarrow> requestError + chatMessage" where
  "convertMessageItem it i =
     (let param = indexed ''input'' i; role = (if itRole it = [] then ''user'' else itRole it)
      in if \<not> List.member [''developer'', ''system'', ''user'', ''assistant''] role
         then Inl (bad_parameter (param @ ''.role'') ''The message role is not supported.'')
         else case extractMessageText it param of
           Inl e \<Rightarrow> Inl e
         | Inr (t, isString) \<Rightarrow>
             if role \<noteq> ''assistant'' then
               (if t = [] then Inl (bad_parameter (param @ ''.content'') ''The message content must be non-empty.'')
                else Inr (text_message role t))
             else Inr (if t \<noteq> [] \<or> isString then text_message role t
                       else (text_message role [])\<lparr>msgContentPresent := False\<rparr>))"

definition convertFunctionCallItem :: "inputItem \<Rightarrow> nat \<Rightarrow> requestError + chatMessage" where
  "convertFunctionCallItem it i =
     (let param = indexed ''input'' i
      in if itCallID it = [] \<or> itName it = [] then Inl (bad_parameter param ''Function call entries require a name and call_id.'')
         else case NormalizeArguments (itArguments it) (param @ ''.arguments'') of
           Inl e \<Rightarrow> Inl (compatRequestError e)
         | Inr args \<Rightarrow>
             Inr \<lparr>msgRole = ''assistant'', msgContent = [], msgContentPresent = False, msgToolCallID = [],
                  msgToolCalls = [\<lparr>ctcIndex = 0, ctcID = itCallID it, ctcName = itName it, ctcArguments = args\<rparr>]\<rparr>)"

definition normaliseFunctionOutput :: "(string \<Rightarrow> string) \<Rightarrow> raw option \<Rightarrow> string \<Rightarrow> requestError + string" where
  "normaliseFunctionOutput ul r param =
     (if r = None then Inl (invalidResponses ''missing_required_parameter'' param ''Function call output entries require output.'')
      else case FlattenToolOutput ul r param of Inl e \<Rightarrow> Inl (compatRequestError e) | Inr t \<Rightarrow> Inr t)"

definition convertFunctionCallOutputItem :: "(string \<Rightarrow> string) \<Rightarrow> inputItem \<Rightarrow> nat \<Rightarrow> requestError + chatMessage" where
  "convertFunctionCallOutputItem ul it i =
     (let param = indexed ''input'' i
      in if itCallID it = []
         then Inl (invalidResponses ''missing_required_parameter'' (param @ ''.call_id'') ''Function call output entries require a call_id.'')
         else case normaliseFunctionOutput ul (itOutput it) (param @ ''.output'') of
           Inl e \<Rightarrow> Inl e
         | Inr t \<Rightarrow> Inr \<lparr>msgRole = ''tool'', msgContent = t, msgContentPresent = True, msgToolCallID = itCallID it, msgToolCalls = []\<rparr>)"

text \<open>The message an item becomes, none for a reasoning item, and whether it needs a model with tools.\<close>

definition convertInputItem :: "(string \<Rightarrow> string) \<Rightarrow> raw \<Rightarrow> nat \<Rightarrow> requestError + (chatMessage \<times> bool)" where
  "convertInputItem ul r i =
     (case parse_item r of
        None \<Rightarrow> Inl (bad_parameter (indexed ''input'' i) ''Each input entry must be an object.'')
      | Some it \<Rightarrow>
          if itType it = [] \<or> itType it = ''message'' then
            (case convertMessageItem it i of Inl e \<Rightarrow> Inl e | Inr m \<Rightarrow> Inr (m, False))
          else if itType it = ''function_call'' then
            (case convertFunctionCallItem it i of Inl e \<Rightarrow> Inl e | Inr m \<Rightarrow> Inr (m, True))
          else if itType it = ''function_call_output'' then
            (case convertFunctionCallOutputItem ul it i of Inl e \<Rightarrow> Inl e | Inr m \<Rightarrow> Inr (m, True))
          else if itType it = ''reasoning'' then Inr (no_message, False)
          else if itType it = ''file'' then Inl (unsupportedResponses (indexed ''input'' i) ''File inputs are not supported.'')
          else Inl (unsupportedResponses (indexed ''input'' i) ''This input type is not supported.''))"

fun convert_items :: "(string \<Rightarrow> string) \<Rightarrow> nat \<Rightarrow> raw list \<Rightarrow> requestError + (chatMessage list \<times> bool)" where
  "convert_items ul i [] = Inr ([], False)"
| "convert_items ul i (r # rs) =
     (case convertInputItem ul r i of
        Inl e \<Rightarrow> Inl e
      | Inr (m, wants) \<Rightarrow>
          (case convert_items ul (Suc i) rs of
             Inl e \<Rightarrow> Inl e
           | Inr (ms, tools) \<Rightarrow> Inr (if msgRole m \<noteq> [] then m # ms else ms, wants \<or> tools)))"

definition convertInput :: "(string \<Rightarrow> string) \<Rightarrow> fields \<Rightarrow> requestError + (chatMessage list \<times> bool)" where
  "convertInput ul fs =
     (case map_of fs ''input'' of
        None \<Rightarrow> Inr ([], False)
      | Some r \<Rightarrow>
          if is_null r then Inr ([], False)
          else case unmarshal_string r of
            Some t \<Rightarrow> if t = [] then Inl (bad_parameter ''input'' ''The input string must be non-empty.'')
                      else Inr ([text_message ''user'' t], False)
          | None \<Rightarrow>
              (case (case unmarshal_array r of
                       Some (Some vs) \<Rightarrow> Some vs
                     | _ \<Rightarrow> (case unmarshal_object r of Some (Some _) \<Rightarrow> Some [r] | _ \<Rightarrow> None)) of
                 None \<Rightarrow> Inl (bad_parameter ''input'' ''The input parameter must be a string, object, or array.'')
               | Some items \<Rightarrow>
                   (case convert_items ul 0 items of
                      Inl e \<Rightarrow> Inl e
                    | Inr (ms, tools) \<Rightarrow>
                        if ms = [] then Inl (bad_parameter ''input'' ''The input array must not be empty.'') else Inr (ms, tools))))"

definition convertInstructions :: "raw option \<Rightarrow> requestError + chatMessage option" where
  "convertInstructions r =
     (case r of
        None \<Rightarrow> Inr None
      | Some v \<Rightarrow>
          (case unmarshal_string v of
             None \<Rightarrow> Inl (bad_parameter ''instructions'' ''The instructions parameter must be a string.'')
           | Some t \<Rightarrow> Inr (if t = [] then None else Some (text_message ''system'' t))))"

subsection \<open>Tools\<close>

definition definitionFields :: "string list" where
  "definitionFields = [''name'', ''description'', ''parameters'', ''strict'', ''allowed_callers'', ''defer_loading'', ''output_schema'']"

definition flat_fields :: "fields \<Rightarrow> fields" where
  "flat_fields tool = List.map_filter (\<lambda>name. map_option (Pair name) (map_of tool name)) definitionFields"

definition tool_param :: "nat \<Rightarrow> string \<Rightarrow> string" where
  "tool_param i name = indexed ''tools'' i @ (if name = [] then [] else CHR ''.'' # name)"

text \<open>The definition of a tool, flat or nested.\<close>

definition chosen_definition :: "fields \<Rightarrow> nat \<Rightarrow> requestError + fields" where
  "chosen_definition tool i =
     (case map_of tool ''function'' of
        None \<Rightarrow> Inr (flat_fields tool)
      | Some nested \<Rightarrow>
          if flat_fields tool \<noteq> [] then Inl (bad_parameter (tool_param i []) ''A function tool cannot mix flat and nested function fields.'')
          else (case unmarshal_object nested of
             Some (Some d) \<Rightarrow> Inr d
           | _ \<Rightarrow> Inl (bad_parameter (tool_param i ''function'') ''The function definition must be an object.'')))"

definition unknown_definition_field :: "fields \<Rightarrow> fields \<Rightarrow> nat \<Rightarrow> requestError option" where
  "unknown_definition_field tool d i =
     (case List.find (\<lambda>(name, _). name \<notin> set definitionFields) d of
        Some (name, _) \<Rightarrow> Some (bad_parameter (tool_param i name) ''Unknown function tool field.'')
      | None \<Rightarrow>
          (case List.find (\<lambda>(name, _). name \<noteq> ''type'' \<and> name \<noteq> ''function'' \<and> map_of d name = None) tool of
             Some (name, _) \<Rightarrow> Some (bad_parameter (tool_param i name) ''Unknown function tool field.'')
           | None \<Rightarrow> None))"

definition reject_extension :: "fields \<Rightarrow> nat \<Rightarrow> string \<Rightarrow> requestError option" where
  "reject_extension d i name =
     (if isJSONNull (map_of d name) then None
      else Some (unsupportedResponses (tool_param i name) (unsupportedToolExtensionMessage name)))"

definition function_name_error :: "fields \<Rightarrow> nat \<Rightarrow> requestError option" where
  "function_name_error d i =
     (let bad = Some (invalidResponses ''missing_required_parameter'' (tool_param i ''name'') ''A function tool requires a non-empty name.'')
      in case map_of d ''name'' of
           None \<Rightarrow> bad
         | Some r \<Rightarrow> (case unmarshal_string r of None \<Rightarrow> bad | Some n \<Rightarrow> if trim_space n \<noteq> n \<or> n = [] then bad else None))"

definition typed_field_error :: "fields \<Rightarrow> nat \<Rightarrow> string \<Rightarrow> (raw \<Rightarrow> bool) \<Rightarrow> string \<Rightarrow> requestError option" where
  "typed_field_error d i name well message =
     (case map_of d name of
        None \<Rightarrow> None
      | Some r \<Rightarrow> if is_null r \<or> well r then None else Some (bad_parameter (tool_param i name) message))"

definition normaliseFunctionDefinition :: "fields \<Rightarrow> nat \<Rightarrow> requestError + fields" where
  "normaliseFunctionDefinition tool i =
     (case chosen_definition tool i of
        Inl e \<Rightarrow> Inl e
      | Inr d \<Rightarrow>
          (case first_error
              [unknown_definition_field tool d i,
               reject_extension d i ''allowed_callers'', reject_extension d i ''defer_loading'', reject_extension d i ''output_schema'',
               function_name_error d i,
               typed_field_error d i ''description'' (\<lambda>r. unmarshal_string r \<noteq> None) ''The function description must be a string or null.'',
               typed_field_error d i ''parameters'' (\<lambda>r. case unmarshal_object r of Some (Some _) \<Rightarrow> True | _ \<Rightarrow> False)
                 ''The function parameters must be an object or null.'',
               typed_field_error d i ''strict'' (\<lambda>r. unmarshal_bool r \<noteq> None) ''The function strict flag must be a boolean or null.''] of
             Some e \<Rightarrow> Inl e
           | None \<Rightarrow> Inr (filter (\<lambda>(name, r). \<not> (name \<noteq> ''name'' \<and> is_null r)) d)))"

definition tool_type_error :: "fields option \<Rightarrow> nat \<Rightarrow> requestError option" where
  "tool_type_error tool i =
     (case (case tool of None \<Rightarrow> None | Some t \<Rightarrow> (case map_of t ''type'' of None \<Rightarrow> None | Some r \<Rightarrow> unmarshal_string r)) of
        None \<Rightarrow> Some (bad_parameter (tool_param i ''type'') ''A function tool requires type=function.'')
      | Some w \<Rightarrow> if w = ''function'' then None else Some (unsupportedResponses (tool_param i ''type'') ''Only function tools are supported.''))"

definition tool_definition :: "fields option \<Rightarrow> nat \<Rightarrow> requestError + fields" where
  "tool_definition tool i =
     (case tool_type_error tool i of Some e \<Rightarrow> Inl e | None \<Rightarrow> normaliseFunctionDefinition (the tool) i)"

fun tool_definitions :: "nat \<Rightarrow> fields option list \<Rightarrow> requestError + fields list" where
  "tool_definitions i [] = Inr []"
| "tool_definitions i (tool # tools) =
     (case tool_definition tool i of
        Inl e \<Rightarrow> Inl e
      | Inr d \<Rightarrow> (case tool_definitions (Suc i) tools of Inl e \<Rightarrow> Inl e | Inr ds \<Rightarrow> Inr (d # ds)))"

text \<open>The names of the tools, and the chat fields with them.\<close>

definition mapTools :: "fields \<Rightarrow> fields \<Rightarrow> requestError + (string list \<times> fields)" where
  "mapTools fs chat =
     (case map_of fs ''tools'' of
        None \<Rightarrow> Inr ([], chat)
      | Some r \<Rightarrow>
          if is_null r then Inr ([], chat)
          else (case unmarshal_objects r of
             Some (Some tools) \<Rightarrow>
               (case tool_definitions 0 tools of
                  Inl e \<Rightarrow> Inl e
                | Inr ds \<Rightarrow>
                    Inr (remdups (map (\<lambda>d. stringValue (map_of d ''name'')) ds),
                         AList.update ''tools''
                           (RArray (map (\<lambda>d. marshal_map [(''type'', marshal_string ''function''), (''function'', marshal_raw_map d)]) ds)) chat))
           | _ \<Rightarrow> Inl (bad_parameter ''tools'' ''The tools parameter must be an array.'')))"

definition normaliseResponseTools :: "raw option \<Rightarrow> requestError + raw option" where
  "normaliseResponseTools r =
     (if isJSONNull r then Inr None
      else case unmarshal_objects (the r) of
        Some (Some tools) \<Rightarrow>
          (case tool_definitions 0 tools of
             Inl e \<Rightarrow> Inl e
           | Inr ds \<Rightarrow> Inr (Some (RArray (map (\<lambda>d. marshal_raw_map ((''type'', marshal_string ''function'') # d)) ds))))
      | _ \<Rightarrow> Inl (bad_parameter ''tools'' ''The tools parameter must be an array.''))"

text \<open>The function a choice names.\<close>

definition chosen_function :: "fields \<Rightarrow> string list \<Rightarrow> requestError + string" where
  "chosen_function choice names =
     (let direct = stringValue (map_of choice ''name'');
          name = (if direct \<noteq> [] then Some direct
                  else case map_of choice ''function'' of
                    None \<Rightarrow> None
                  | Some r \<Rightarrow> (case unmarshal_struct r of None \<Rightarrow> None | Some ms \<Rightarrow> struct_string ''name'' ms))
      in case name of
           None \<Rightarrow> Inl (invalidResponses ''missing_required_parameter'' ''tool_choice.name'' ''A function tool choice requires a name.'')
         | Some n \<Rightarrow>
             if n \<notin> set names then Inl (bad_parameter ''tool_choice.name'' ''The selected function is not present in tools.'')
             else Inr n)"

definition normaliseResponseToolChoice :: "raw option \<Rightarrow> string list \<Rightarrow> requestError + raw option" where
  "normaliseResponseToolChoice r names =
     (if isJSONNull r then Inr None
      else if unmarshal_string (the r) \<noteq> None then Inr r
      else case unmarshal_object (the r) of
        Some (Some choice) \<Rightarrow>
          (case chosen_function choice names of
             Inl e \<Rightarrow> Inl e
           | Inr n \<Rightarrow> Inr (Some (marshal_map [(''type'', marshal_string ''function''), (''name'', marshal_string n)])))
      | _ \<Rightarrow> Inl (bad_parameter ''tool_choice'' ''The tool_choice parameter is malformed.''))"

definition mapToolChoice :: "fields \<Rightarrow> fields \<Rightarrow> string list \<Rightarrow> requestError + fields" where
  "mapToolChoice fs chat names =
     (case map_of fs ''tool_choice'' of
        None \<Rightarrow> Inr chat
      | Some r \<Rightarrow>
          if is_null r then Inr chat
          else case unmarshal_string r of
            Some w \<Rightarrow>
              if w \<noteq> ''auto'' \<and> w \<noteq> ''none'' \<and> w \<noteq> ''required'' then Inl (bad_parameter ''tool_choice'' ''The tool_choice string is not supported.'')
              else if w = ''required'' \<and> names = [] then Inl (bad_parameter ''tool_choice'' ''required tool_choice needs at least one function tool.'')
              else if names = [] \<and> w = ''auto'' then Inr chat
              else Inr (AList.update ''tool_choice'' r chat)
          | None \<Rightarrow>
              (case unmarshal_object r of
                 Some (Some choice) \<Rightarrow>
                   if (case map_of choice ''type'' of None \<Rightarrow> None | Some t \<Rightarrow> unmarshal_string t) \<noteq> Some ''function''
                   then Inl (unsupportedResponses ''tool_choice.type'' ''Only function tool choices are supported.'')
                   else (case chosen_function choice names of
                       Inl e \<Rightarrow> Inl e
                     | Inr n \<Rightarrow> Inr (AList.update ''tool_choice''
                         (marshal_map [(''type'', marshal_string ''function''), (''function'', marshal_map [(''name'', marshal_string n)])]) chat))
               | _ \<Rightarrow> Inl (bad_parameter ''tool_choice'' ''The tool_choice parameter is malformed.'')))"

definition mapParallelToolCalls :: "fields \<Rightarrow> fields \<Rightarrow> bool \<Rightarrow> requestError + fields" where
  "mapParallelToolCalls fs chat hasTools =
     (if isJSONNull (map_of fs ''parallel_tool_calls'') then
        Inr (if hasTools then AList.update ''parallel_tool_calls'' (RBool True) chat else chat)
      else
        let r = the (map_of fs ''parallel_tool_calls'')
        in if unmarshal_bool r = None then Inl (bad_parameter ''parallel_tool_calls'' ''parallel_tool_calls must be a boolean or null.'')
           else Inr (if hasTools then AList.update ''parallel_tool_calls'' r chat else chat))"

subsection \<open>The other fields\<close>

definition copy_field :: "string \<Rightarrow> fields \<Rightarrow> fields \<Rightarrow> fields" where
  "copy_field name fs chat = (if isJSONNull (map_of fs name) then chat else AList.update name (the (map_of fs name)) chat)"

definition mapReasoning :: "fields \<Rightarrow> fields \<Rightarrow> fields" where
  "mapReasoning fs chat =
     (let chat1 = copy_field ''reasoning_effort'' fs chat;
          chat2 = (if isJSONNull (map_of fs ''reasoning'') then chat1
                   else
                     let r = the (map_of fs ''reasoning'');
                         effort = (case unmarshal_struct r of None \<Rightarrow> None | Some ms \<Rightarrow> struct_raw ''effort'' ms)
                     in case effort of
                          Some e \<Rightarrow> AList.update ''reasoning_effort'' e chat1
                        | None \<Rightarrow>
                            if unmarshal_string r \<noteq> None then AList.update ''reasoning_effort'' r chat1
                            else AList.update ''reasoning'' r chat1)
      in copy_field ''thinking'' fs chat2)"

definition mapMaxOutputTokens :: "fields \<Rightarrow> fields \<Rightarrow> requestError + fields" where
  "mapMaxOutputTokens fs chat =
     (if isJSONNull (map_of fs ''max_output_tokens'') then Inr chat
      else case unmarshal_int_ptr (the (map_of fs ''max_output_tokens'')) of
        Some (Some v) \<Rightarrow>
          if v \<le> 0 then Inl (bad_parameter ''max_output_tokens'' ''The max_output_tokens parameter must be positive.'')
          else Inr (AList.update ''max_tokens'' (RNumber (itoa v)) chat)
      | _ \<Rightarrow> Inl (bad_parameter ''max_output_tokens'' ''The max_output_tokens parameter must be an integer.''))"

definition samplingFields :: "string list" where
  "samplingFields = [''temperature'', ''top_p'', ''seed'', ''stop'', ''presence_penalty'', ''frequency_penalty'', ''user'']"

definition mapSamplingParameters :: "fields \<Rightarrow> fields \<Rightarrow> fields" where
  "mapSamplingParameters fs chat = fold (\<lambda>name. copy_field name fs) samplingFields chat"

definition stream_option_error :: "string \<times> raw \<Rightarrow> requestError option" where
  "stream_option_error option =
     (let (name, r) = option
      in if name = ''include_usage'' then
           (if unmarshal_bool r = None then Some (bad_parameter ''stream_options.include_usage'' ''include_usage must be a boolean.'') else None)
         else if name = ''include_obfuscation'' then
           (case unmarshal_bool r of
              None \<Rightarrow> Some (bad_parameter ''stream_options.include_obfuscation'' ''include_obfuscation must be a boolean.'')
            | Some b \<Rightarrow> if b then Some (unsupportedResponses ''stream_options.include_obfuscation'' ''Stream obfuscation is not supported.'') else None)
         else Some (bad_parameter (''stream_options.'' @ name) ''Unknown stream option.''))"

definition mapStreamOptions :: "fields \<Rightarrow> fields \<Rightarrow> bool \<Rightarrow> requestError + fields" where
  "mapStreamOptions fs chat stream =
     (let parsed = (if isJSONNull (map_of fs ''stream_options'') then Some []
                    else case unmarshal_object (the (map_of fs ''stream_options'')) of Some (Some opts) \<Rightarrow> Some opts | _ \<Rightarrow> None)
      in case parsed of
           None \<Rightarrow> Inl (bad_parameter ''stream_options'' ''The stream_options parameter must be an object or null.'')
         | Some opts \<Rightarrow>
             (case first_error (map stream_option_error opts) of
                Some e \<Rightarrow> Inl e
              | None \<Rightarrow>
                  Inr (if stream
                       then AList.update ''stream_options''
                         (marshal_raw_map (AList.update ''include_usage'' (RBool True) (AList.delete ''include_obfuscation'' opts))) chat
                       else chat)))"

definition mapTextFormat :: "fields \<Rightarrow> fields \<Rightarrow> requestError + fields" where
  "mapTextFormat fs chat =
     (if isJSONNull (map_of fs ''text'') then Inr chat
      else
        let r = the (map_of fs ''text'')
        in case unmarshal_object r of
             Some (Some t) \<Rightarrow>
               if \<not> isJSONNull (map_of t ''verbosity'')
                  \<and> \<not> List.member [Some ''low'', Some ''medium'', Some ''high''] (unmarshal_string (the (map_of t ''verbosity'')))
               then Inl (bad_parameter ''text.verbosity'' ''text.verbosity must be low, medium, high, or null.'')
               else if isJSONNull (map_of t ''format'') then Inr chat
               else (case unmarshal_struct (the (map_of t ''format'')) of
                   None \<Rightarrow> Inl (bad_parameter ''text.format'' ''The text format parameter is malformed.'')
                 | Some ms \<Rightarrow>
                     (case (struct_string ''type'' ms, struct_string ''name'' ms, struct_bool_ptr ''strict'' ms) of
                        (Some ty, Some n, Some strict) \<Rightarrow>
                          if ty = [] \<or> ty = ''text'' then Inr chat
                          else if ty = ''json_object'' then
                            Inr (AList.update ''response_format'' (RObject [(''type'', RString ''json_object'')]) chat)
                          else if ty = ''json_schema'' then
                            (case (case struct_raw ''schema'' ms of None \<Rightarrow> struct_raw ''json_schema'' ms | Some s \<Rightarrow> Some s) of
                               None \<Rightarrow> Inl (bad_parameter ''text.format'' ''A json_schema format requires a schema.'')
                             | Some schema \<Rightarrow>
                                 Inr (AList.update ''response_format''
                                   (marshal_map [(''type'', marshal_string ''json_schema''),
                                      (''json_schema'', marshal_map ([(''name'', marshal_string n), (''schema'', marshal_raw schema)]
                                          @ (case strict of None \<Rightarrow> [] | Some b \<Rightarrow> [(''strict'', RBool b)])))]) chat))
                          else Inl (unsupportedResponses ''text.format'' ''This text format is not supported.'')
                      | _ \<Rightarrow> Inl (bad_parameter ''text.format'' ''The text format parameter is malformed.'')))
           | _ \<Rightarrow> if unmarshal_string r \<noteq> None then Inr chat
                  else Inl (bad_parameter ''text'' ''The text parameter must be an object with a format.''))"

text \<open>A raw message kept for the response is its text, nothing when it is missing.\<close>

definition raw_text :: "raw option \<Rightarrow> string" where
  "raw_text r = (case r of None \<Rightarrow> [] | Some v \<Rightarrow> spell v)"

definition responseConfigFromFields :: "fields \<Rightarrow> string list \<Rightarrow> requestError + responseConfig" where
  "responseConfigFromFields fs names =
     (case normaliseResponseTools (map_of fs ''tools'') of
        Inl e \<Rightarrow> Inl e
      | Inr tools \<Rightarrow>
          (case normaliseResponseToolChoice (map_of fs ''tool_choice'') names of
             Inl e \<Rightarrow> Inl e
           | Inr choice \<Rightarrow>
               let text_of = (\<lambda>name. raw_text (map_of fs name))
               in Inr \<lparr>cfgInstructions = text_of ''instructions'', cfgMaxOutputTokens = text_of ''max_output_tokens'',
                       cfgParallelToolCalls = text_of ''parallel_tool_calls'', cfgReasoning = text_of ''reasoning'',
                       cfgTemperature = text_of ''temperature'', cfgText = text_of ''text'', cfgToolChoice = raw_text choice,
                       cfgTools = raw_text tools, cfgTopP = text_of ''top_p'', cfgUser = text_of ''user''\<rparr>))"

subsection \<open>The request\<close>

record requirements =
  reqVision :: bool
  reqTools :: bool
  reqReasoning :: bool

record responsesRequest =
  rqPublicModelID :: string
  rqStream :: bool
  rqMessages :: "chatMessage list"
  rqChatFields :: fields
  rqConfig :: responseConfig
  rqRequirements :: requirements
  rqTools :: "toolDefinition list"
  rqToolChoice :: toolChoice
  rqToolChoiceSet :: bool
  rqReasoning :: reasoningSpec

definition maxResponsesBytes :: nat where "maxResponsesBytes = 33554432"

definition decodeObject :: "string \<Rightarrow> requestError + fields" where
  "decodeObject body =
     (case raw_parse body of
        None \<Rightarrow> Inl (invalidResponses ''invalid_json'' [] ''The request body must be a JSON object.'')
      | Some r \<Rightarrow>
          (case unmarshal_object r of
             Some (Some fs) \<Rightarrow> Inr fs
           | _ \<Rightarrow> Inl (invalidResponses ''invalid_json'' [] ''The request body must be a JSON object.'')))"

text \<open>Go's early returns, as the bind of the sum type.\<close>

definition and_then :: "'e + 'a \<Rightarrow> ('a \<Rightarrow> 'e + 'b) \<Rightarrow> 'e + 'b" where
  "and_then x f = (case x of Inl e \<Rightarrow> Inl e | Inr v \<Rightarrow> f v)"

definition guard_ok :: "'e option \<Rightarrow> 'e + unit" where
  "guard_ok x = (case x of None \<Rightarrow> Inr () | Some e \<Rightarrow> Inl e)"

definition lift_compat :: "compatError + 'a \<Rightarrow> requestError + 'a" where
  "lift_compat x = (case x of Inl e \<Rightarrow> Inl (compatRequestError e) | Inr v \<Rightarrow> Inr v)"

definition all_messages :: "(string \<Rightarrow> string) \<Rightarrow> fields \<Rightarrow> requestError + (chatMessage list \<times> bool)" where
  "all_messages ul fs =
     and_then (convertInput ul fs) (\<lambda>(ms, tools).
     and_then (convertInstructions (map_of fs ''instructions'')) (\<lambda>system.
       let messages = (case system of None \<Rightarrow> ms | Some m \<Rightarrow> m # ms)
       in if messages = [] then Inl (invalidResponses ''missing_required_parameter'' ''input'' ''The input parameter is required.'')
          else Inr (messages, tools)))"

definition parse_reasoning :: "(string \<Rightarrow> string) \<Rightarrow> fields \<Rightarrow> requestError + reasoningSpec" where
  "parse_reasoning ul fs =
     (case ParseReasoning ul fs of
        Inl AmbiguousReasoning \<Rightarrow> Inl (bad_parameter ''reasoning'' ''Reasoning aliases must describe the same level and budget.'')
      | Inl e \<Rightarrow> Inl (compatRequestError e)
      | Inr spec \<Rightarrow> Inr spec)"

definition parse_request_fields :: "(string \<Rightarrow> string) \<Rightarrow> fields \<Rightarrow> requestError + responsesRequest" where
  "parse_request_fields ul fs =
     and_then (guard_ok (rejectUnsupportedTopLevel fs)) (\<lambda>_.
     and_then (guard_ok (rejectHostedTools fs)) (\<lambda>_.
     and_then (requiredModel fs) (\<lambda>modelID.
     and_then (parseStream (map_of fs ''stream'')) (\<lambda>stream.
     and_then (all_messages ul fs) (\<lambda>(messages, wantsTools).
     and_then (mapTools fs []) (\<lambda>(names, chat1).
     and_then (mapToolChoice fs chat1 names) (\<lambda>chat2.
     and_then (mapParallelToolCalls fs chat2 (names \<noteq> [])) (\<lambda>chat3.
     and_then (lift_compat (NormalizeTools (map_of fs ''tools'') ToolFormatResponses ''tools'')) (\<lambda>tools.
     and_then (lift_compat (NormalizeToolChoice (map_of fs ''tool_choice'') names ''tool_choice'')) (\<lambda>choice.
     and_then (parse_reasoning ul fs) (\<lambda>reasoning.
     and_then (mapMaxOutputTokens fs (mapReasoning fs chat3)) (\<lambda>chat4.
     and_then (mapStreamOptions fs (mapSamplingParameters fs chat4) stream) (\<lambda>chat5.
     and_then (mapTextFormat fs chat5) (\<lambda>chat6.
     and_then (responseConfigFromFields fs names) (\<lambda>config.
       Inr \<lparr>rqPublicModelID = modelID, rqStream = stream, rqMessages = messages,
            rqChatFields = AList.update ''stream'' (RBool stream) chat6, rqConfig = config,
            rqRequirements = \<lparr>reqVision = False,
              reqTools = (wantsTools \<or> tools \<noteq> [] \<or> choiceMode choice = ''function'' \<or> choiceMode choice = ''required''),
              reqReasoning = RequiresReasoning reasoning\<rparr>,
            rqTools = tools, rqToolChoice = choice, rqToolChoiceSet = (\<not> isJSONNull (map_of fs ''tool_choice'')),
            rqReasoning = reasoning\<rparr>)))))))))))))))"

definition Parse :: "(string \<Rightarrow> string) \<Rightarrow> string \<Rightarrow> requestError + responsesRequest" where
  "Parse ul body =
     (if length body > maxResponsesBytes
      then Inl (invalidResponses ''request_too_large'' ''body'' ''The request body exceeds the 32 MiB limit.'')
      else and_then (decodeObject body) (parse_request_fields ul))"

text \<open>The body for the model the request resolved to.\<close>

definition with_reasoning :: "(string \<Rightarrow> string) \<Rightarrow> reasoningSpec \<Rightarrow> routedModel \<Rightarrow> bool \<Rightarrow> fields \<Rightarrow> requestError + fields" where
  "with_reasoning ul spec m autoReasoning chat =
     (let reasoning = (if autoReasoning \<and> \<not> specRequested spec \<and> cmSupportsReasoning m
                       then case AutoReasoningSpec (ReasoningProfile m) (OutputTokenLimit chat) of Some a \<Rightarrow> a | None \<Rightarrow> spec
                       else spec)
      in if specRequested reasoning \<and> cmSupportsReasoning m then
           (case ResolveReasoning reasoning (ReasoningProfile m) of
              Inl e \<Rightarrow> Inl (reasoningResponseModelError e)
            | Inr d \<Rightarrow>
                (case ApplyReasoning ul chat d (ReasoningProfile m) of
                   (Some e, _) \<Rightarrow> Inl (reasoningResponseModelError e)
                 | (None, chat1) \<Rightarrow> Inr chat1))
         else if specRequested spec \<and> \<not> RequiresReasoning spec then Inr (StripReasoning chat)
         else Inr chat)"

definition with_tools :: "responsesRequest \<Rightarrow> fields" where
  "with_tools r =
     (let chat1 = (if rqTools r \<noteq> [] then AList.update ''tools'' (MarshalTools (rqTools r) ToolFormatChat) (rqChatFields r) else rqChatFields r)
      in if rqToolChoiceSet r
         then (case MarshalToolChoice (rqToolChoice r) of None \<Rightarrow> chat1 | Some c \<Rightarrow> AList.update ''tool_choice'' c chat1)
         else chat1)"

definition MarshalForWithOptions :: "(string \<Rightarrow> string) \<Rightarrow> responsesRequest \<Rightarrow> routedModel \<Rightarrow> bool \<Rightarrow> requestError + fields" where
  "MarshalForWithOptions ul r m autoReasoning =
     (if cmKind m \<noteq> KindChat \<or> \<not> cmEnabled m
      then Inl (invalidResponses ''model_capability_unsupported'' ''model'' ''The selected model is not a chat model.'')
      else if rqPublicModelID r \<noteq> cmPublicID m
      then Inl (bad_parameter ''model'' ''The model parameter does not match the resolved model.'')
      else and_then (with_reasoning ul (rqReasoning r) m autoReasoning (with_tools r)) (\<lambda>chat.
        Inr (AList.update ''messages'' (RArray (map marshal_message (rqMessages r)))
              (AList.update ''model'' (marshal_string (cmUpstreamID m)) chat))))"

text \<open>The text sent: the fields in order.\<close>

definition marshalStable :: "fields \<Rightarrow> string" where
  "marshalStable fs = spell (marshal_map fs)"

definition ToChat :: "(string \<Rightarrow> string) \<Rightarrow> string \<Rightarrow> routedModel \<Rightarrow> requestError + string" where
  "ToChat ul body m =
     and_then (Parse ul body) (\<lambda>r. and_then (MarshalForWithOptions ul r m False) (\<lambda>fs. Inr (marshalStable fs)))"

end
