(* ===== verification/Tool_Properties.thy ===== *)
theory Tool_Properties
  imports Tool_Calls
begin

text \<open>
  Tools and arguments of tool calls keep their meaning on the way from the client to the upstream: what was
  accepted is accepted again in what is written, arguments are JSON whichever way they came, and the
  fragments of streamed calls are assembled by index.
\<close>

subsection \<open>Decoded literals are valid UTF-8\<close>

lemma utf8_len_take: "utf8_len s = Some k \<Longrightarrow> utf8_len (take k s @ w) = Some k \<and> k \<le> length s \<and> 0 < k"
proof -
  assume a: "utf8_len s = Some k"
  consider "s = []" | c where "s = [c]" | c d where "s = [c, d]" | c d e where "s = [c, d, e]"
    | c d e f es where "s = c # d # e # f # es"
    by (metis list.exhaust)
  then show ?thesis using a by cases (auto simp: utf8_len_def Let_def split: if_splits)
qed

lemma sanitize_valid: "length s \<le> n \<Longrightarrow> length (utf8_sanitize n s) \<le> m \<Longrightarrow> utf8_sanitize m (utf8_sanitize n s) = utf8_sanitize n s"
proof (induction n arbitrary: s m)
  case 0
  then show ?case by (cases m) auto
next
  case (Suc n)
  show ?case
  proof (cases s)
    case Nil
    then show ?thesis by (cases m) auto
  next
    case (Cons c cs)
    show ?thesis
    proof (cases "utf8_len s")
      case None
      let ?t = "utf8_sanitize n cs"
      have s: "utf8_sanitize (Suc n) s = utf8_encode 0xFFFD @ ?t" using None Cons by simp
      have e: "utf8_encode 0xFFFD = [CHR 0xEF, CHR 0xBF, CHR 0xBD]" by (simp add: utf8_encode_def char_of_def bit_0)
      then have l: "utf8_len (utf8_encode 0xFFFD @ ?t) = Some 3" by (simp add: utf8_len_def is_cont_def)
      obtain k where k: "m = Suc k" "length ?t \<le> k" using Suc.prems(2) s e by (cases m) auto
      show ?thesis unfolding s using l k e Suc.IH [of cs k] Suc.prems(1) Cons by simp
    next
      case (Some j)
      let ?t = "utf8_sanitize n (drop j s)"
      have j: "j \<le> length s" "0 < j" using utf8_len_take [OF Some] by auto
      have s: "utf8_sanitize (Suc n) s = take j s @ ?t" using Some Cons by simp
      have l: "utf8_len (take j s @ ?t) = Some j" using utf8_len_take [OF Some] by blast
      obtain k where k: "m = Suc k" "length ?t \<le> k" using Suc.prems(2) s j Cons by (cases m; cases j) auto
      have "take j s @ ?t \<noteq> []" using j Cons by (cases j) auto
      then obtain x xs where x: "take j s @ ?t = x # xs" by (cases "take j s @ ?t") auto
      have "utf8_sanitize m (take j s @ ?t) = take j (take j s @ ?t) @ utf8_sanitize k (drop j (take j s @ ?t))"
        using l k(1) x by (metis (no_types, lifting) list.case(2) option.case(2) utf8_sanitize.simps(2))
      also have "\<dots> = take j s @ utf8_sanitize k ?t" using j by simp
      finally show ?thesis unfolding s using Suc.IH [of "drop j s" k] Suc.prems(1) j k by simp
    qed
  qed
qed

lemma valid_unquote: "valid_utf8 (unquote u)"
  by (auto simp: valid_utf8_def unquote_def sanitize_valid split: option.splits)

lemma valid_string: "unmarshal_string r = Some s \<Longrightarrow> valid_utf8 s"
  using valid_unquote by (auto simp: unmarshal_string_def valid_utf8_def split: raw.splits)

subsection \<open>Arguments\<close>

definition raw_ok :: "raw \<Rightarrow> bool" where
  "raw_ok r \<longleftrightarrow> well_spelled r \<and> raw_depth r \<le> maxNestingDepth"

lemma cut_front_all: "cut_front ps s = [] \<Longrightarrow> s \<noteq> [] \<Longrightarrow> \<exists>p \<in> set ps. p \<noteq> [] \<and> suffix p s"
proof (induction ps s rule: cut_front.induct)
  case (1 ps s)
  then obtain p where p: "find (\<lambda>p. p \<noteq> [] \<and> prefix p s) ps = Some p"
    using cut_front_no_match [of s ps] by (cases "find (\<lambda>p. p \<noteq> [] \<and> prefix p s) ps") auto
  have "cut_front ps s = cut_front ps (drop (length p) s)" by (subst cut_front.simps) (simp only: p option.case)
  then have d: "cut_front ps (drop (length p) s) = []" using 1(2) by simp
  from p have m: "p \<in> set ps" "p \<noteq> []" "prefix p s" using find_Some_iff' [OF p] by simp_all
  show ?case
  proof (cases "drop (length p) s = []")
    case True
    then show ?thesis using m by (auto simp: prefix_def)
  next
    case False
    then obtain q where "q \<in> set ps" "q \<noteq> []" "suffix q (drop (length p) s)" using 1(1) [OF p d] by blast
    moreover have "suffix (drop (length p) s) s" by (rule suffix_drop)
    ultimately show ?thesis using suffix_order.trans by blast
  qed
qed

lemma trim_space_start:
  assumes "s = c # cs" "\<forall>p \<in> set space_seqs. hd p \<noteq> c"
  shows "trim_space s \<noteq> []"
proof -
  have nonempty: "\<forall>p \<in> set space_seqs. p \<noteq> []" by (simp add: space_seqs_def)
  have "find (\<lambda>p. p \<noteq> [] \<and> prefix p s) space_seqs = None"
    unfolding find_None_iff using assms by (auto simp: prefix_def Cons_eq_append_conv)
  then have f: "cut_front space_seqs s = s" by (rule cut_front_no_match)
  show ?thesis
  proof
    assume "trim_space s = []"
    then have "cut_front (map rev space_seqs) (rev s) = []" by (simp add: trim_space_def f)
    then obtain p where p: "p \<in> set space_seqs" "suffix (rev p) (rev s)"
      using cut_front_all [of "map rev space_seqs" "rev s"] assms(1) by auto
    then have "prefix p s" by (simp add: suffix_to_prefix)
    then show False using p(1) nonempty assms by (cases p) auto
  qed
qed

lemma spell_not_blank:
  assumes "well_spelled v"
  shows "trim_space (spell v) \<noteq> []"
proof -
  have "\<exists>c cs. spell v = c # cs \<and> (\<forall>p \<in> set space_seqs. hd p \<noteq> c)"
  proof (cases v)
    case (RNumber n)
    then have n: "json_number n = Some (n, [])" using assms by simp
    have "is_digit c \<or> c = CHR ''-'' \<Longrightarrow> \<forall>p \<in> set space_seqs. hd p \<noteq> c" for c
      by (auto simp: space_seqs_def is_digit_def)
    then show ?thesis using json_number_split(3,4) [OF n] RNumber by (cases n) auto
  qed (auto simp: space_seqs_def)
  then show ?thesis using trim_space_start by blast
qed

lemma unmarshal_marshal_string: "valid_utf8 s \<Longrightarrow> unmarshal_string (marshal_string s) = Some s"
  by (simp add: unmarshal_string_def marshal_string_def unquote_quote)

lemma arguments_read_back:
  assumes "NormalizeArguments r param = Inr s" "\<forall>v. r = Some v \<longrightarrow> raw_ok v"
  shows "(\<exists>v. raw_parse s = Some v \<and> spell v = s)
    \<and> (\<forall>v. r = Some v \<and> unmarshal_string v = None \<longrightarrow> raw_parse s = Some v)
    \<and> (\<forall>v t. r = Some v \<and> v \<noteq> RNull \<and> unmarshal_string v = Some t \<and> trim_space t \<noteq> [] \<longrightarrow> raw_parse s = raw_parse t)
    \<and> (valid_utf8 s \<longrightarrow> NormalizeArguments (Some (marshal_string s)) param' = Inr s)"
proof -
  have empty: "raw_parse ''{}'' = Some (RObject [])" using raw_parse_spell [of "RObject []"] by (simp add: maxNestingDepth_def)
  have again: "NormalizeArguments (Some (marshal_string (spell v))) param' = Inr (spell v)"
    if "valid_utf8 (spell v)" "well_spelled v" "raw_parse (spell v) = Some v" for v
    using that spell_not_blank [OF that(2)] unmarshal_marshal_string [OF that(1)]
    by (simp add: NormalizeArguments_def is_null_def marshal_string_def)
  consider (blank) "s = ''{}''" "\<And>v. r = Some v \<Longrightarrow> v = RNull \<or> (\<exists>t. unmarshal_string v = Some t \<and> trim_space t = [])"
    | (quoted) v t u where "r = Some v" "unmarshal_string v = Some t" "raw_parse t = Some u" "s = spell u" "trim_space t \<noteq> []"
    | (other) v where "r = Some v" "unmarshal_string v = None" "s = spell v"
    using assms(1) by (auto simp: NormalizeArguments_def is_null_def split: option.splits if_splits)
  then show ?thesis
  proof cases
    case blank
    then have s: "s = spell (RObject [])" by simp
    then show ?thesis using blank empty again [of "RObject []"] by (fastforce simp: unmarshal_string_def)
  next
    case quoted
    have u: "well_spelled u" "raw_parse (spell u) = Some u" using raw_parse_ok [OF quoted(3)] raw_parse_spell by auto
    then show ?thesis using quoted again [of u] by auto
  next
    case other
    then have "well_spelled v" "raw_parse (spell v) = Some v" using assms(2) raw_parse_spell by (auto simp: raw_ok_def)
    then show ?thesis using other again [of v] by auto
  qed
qed

lemma arguments_text:
  "NormalizeArguments r param = Inr s \<Longrightarrow> \<forall>v. r = Some v \<longrightarrow> raw_ok v \<Longrightarrow> \<exists>v. raw_parse s = Some v \<and> spell v = s"
  using arguments_read_back [of r param s] by blast


text \<open>A byte that is not UTF-8 is accepted, and \<open>json.Marshal\<close> spells it as the escape of U+FFFD.\<close>

lemma invalid_byte_accepted:
  "NormalizeArguments (Some (RArray [RString [CHR 0xFF]])) ''arguments'' = Inr (''[\"'' @ [CHR 0xFF] @ ''\"]'')"
  by code_simp

lemma invalid_byte_replaced: "quote [CHR 0xFF] = backslash # ''ufffd''"
  by (simp add: quote_def utf8_len_def)


subsection \<open>Reading a marshalled map\<close>

lemma update_fresh: "k \<notin> set (map fst al) \<Longrightarrow> AList.update k v al = al @ [(k, v)]"
  by (induction al) auto

lemma collect_distinct:
  "distinct (map fst fs) \<Longrightarrow> \<forall>f \<in> set fs. valid_utf8 (fst f) \<Longrightarrow> collect_members (map (\<lambda>(k, v). (quote k, v)) fs) = fs"
proof -
  have "fold (\<lambda>(k, v). AList.update (unquote k) v) (map (\<lambda>(k, v). (quote k, v)) fs) al = al @ fs"
    if "distinct (map fst (al @ fs))" "\<forall>f \<in> set fs. valid_utf8 (fst f)" for al
    using that
  proof (induction fs arbitrary: al)
    case (Cons f fs)
    obtain k v where f: "f = (k, v)" by (cases f)
    have "AList.update k v al = al @ [(k, v)]" using Cons.prems(1) f by (intro update_fresh) auto
    then show ?case using Cons.IH [of "al @ [(k, v)]"] Cons.prems f by (simp add: unquote_quote)
  qed simp
  then show "distinct (map fst fs) \<Longrightarrow> \<forall>f \<in> set fs. valid_utf8 (fst f) \<Longrightarrow> collect_members (map (\<lambda>(k, v). (quote k, v)) fs) = fs"
    by (simp add: collect_members_def)
qed

lemma unmarshal_marshal_map:
  assumes "distinct (map fst fs)" "\<forall>f \<in> set fs. valid_utf8 (fst f)"
  shows "unmarshal_object (marshal_map fs) = Some (Some (sort_key fst fs))"
proof -
  have "mset (map fst (sort_key fst fs)) = mset (map fst fs)" by simp
  then have "distinct (map fst (sort_key fst fs))" using assms(1) mset_eq_imp_distinct_iff by blast
  then show ?thesis using assms(2) by (simp add: marshal_map_def unmarshal_object_def collect_distinct)
qed

lemma map_of_sorted: "distinct (map fst fs) \<Longrightarrow> map_of (sort_key fst fs) = map_of fs"
proof -
  assume d: "distinct (map fst fs)"
  have "mset (map fst (sort_key fst fs)) = mset (map fst fs)" by simp
  then have "distinct (map fst (sort_key fst fs))" using d mset_eq_imp_distinct_iff by blast
  then show ?thesis using d by (intro map_of_eqI) (auto simp: image_iff intro: map_of_is_SomeI)
qed

subsection \<open>Tools\<close>

definition tool_ok :: "toolDefinition \<Rightarrow> bool" where
  "tool_ok d \<longleftrightarrow> toolName d \<noteq> [] \<and> trim_space (toolName d) = toolName d \<and> valid_utf8 (toolName d)
     \<and> valid_utf8 (toolDescription d) \<and> toolParameters d \<noteq> Some RNull"

definition respelled :: "toolDefinition \<Rightarrow> toolDefinition" where
  "respelled d = d\<lparr>toolParameters := map_option marshal_raw (toolParameters d)\<rparr>"

lemma read_definition_ok: "read_definition d param = Inr t \<Longrightarrow> tool_ok t"
  by (auto simp: read_definition_def definition_name_def definition_description_def definition_parameters_def tool_ok_def
      is_null_def valid_string [unfolded valid_utf8_def, folded valid_utf8_def] valid_utf8_def
      dest: valid_string [unfolded valid_utf8_def] split: sum.splits option.splits if_splits)

lemma normalized_ok: "normalize_items items fmt param i = Inr ds \<Longrightarrow> list_all tool_ok ds"
  by (induction items arbitrary: i ds)
    (auto simp: normalizeTool_def dest: read_definition_ok split: sum.splits option.splits if_splits)

lemma tool_keys: "valid_utf8 ''name''" "valid_utf8 ''description''" "valid_utf8 ''parameters''" "valid_utf8 ''strict''"
  "valid_utf8 ''type''" "valid_utf8 ''function''"
  by (intro ascii_valid, simp)+

lemma function_fields_keys:
  "distinct (map fst ((''type'', x) # function_fields d))" "\<forall>f \<in> set ((''type'', x) # function_fields d). valid_utf8 (fst f)"
  by (auto simp: function_fields_def tool_keys split: option.splits)

lemma function_fields_values:
  "map_of (function_fields d) ''name'' = Some (marshal_string (toolName d))"
  "map_of (function_fields d) ''description'' = (if toolDescription d = [] then None else Some (marshal_string (toolDescription d)))"
  "map_of (function_fields d) ''parameters'' = map_option marshal_raw (toolParameters d)"
  "map_of (function_fields d) ''strict'' = map_option RBool (toolStrict d)"
  "map_of (function_fields d) ''type'' = None" "map_of (function_fields d) ''function'' = None"
  by (auto simp: function_fields_def marshal_bool_def split: option.splits)

lemma marshal_null: "marshal_raw r = RNull \<longleftrightarrow> r = RNull"
  by (cases r) auto

lemma read_written:
  assumes "tool_ok d" "\<And>k. k \<in> {''name'', ''description'', ''parameters'', ''strict''} \<Longrightarrow> map_of fs k = map_of (function_fields d) k"
  shows "read_definition fs param = Inr (respelled d)"
proof -
  have m: "map_of fs ''name'' = Some (marshal_string (toolName d))"
    "map_of fs ''description'' = (if toolDescription d = [] then None else Some (marshal_string (toolDescription d)))"
    "map_of fs ''parameters'' = map_option marshal_raw (toolParameters d)" "map_of fs ''strict'' = map_option RBool (toolStrict d)"
    using assms(2) function_fields_values by simp_all
  have "definition_name fs param = Inr (toolName d)"
    using assms(1) by (simp add: definition_name_def m unmarshal_marshal_string tool_ok_def)
  moreover have "definition_description fs param = Inr (toolDescription d)"
    using assms(1) by (simp add: definition_description_def m unmarshal_marshal_string tool_ok_def)
  moreover have "definition_strict fs param = Inr (toolStrict d)"
    by (simp add: definition_strict_def m is_null_def unmarshal_bool_def split: option.splits)
  moreover have "definition_parameters fs = map_option marshal_raw (toolParameters d)"
    using assms(1) by (auto simp: definition_parameters_def m is_null_def marshal_null tool_ok_def split: option.splits)
  ultimately show ?thesis by (simp add: read_definition_def respelled_def)
qed

lemma known_fields: "f \<in> set (function_fields d) \<Longrightarrow> field_problem param fmt f = None"
  by (auto simp: function_fields_def field_problem_def split: option.splits if_splits)

lemma no_problem: "(\<And>f. f \<in> set fs \<Longrightarrow> field_problem param fmt f = None) \<Longrightarrow> rejectUnknownDefinitionFields fs param fmt = None"
  by (induction fs) (auto simp: rejectUnknownDefinitionFields_def List.map_filter_def)

lemma type_read: "unmarshal_string (marshal_string ''function'') = Some ''function''"
  by (intro unmarshal_marshal_string tool_keys)

lemma map_of_other: "map_of (filter (\<lambda>(k, v). k \<noteq> x) fs) k = (if k = x then None else map_of fs k)"
  by (induction fs) auto

lemma written_flat:
  assumes "tool_ok d"
  shows "\<exists>item. unmarshal_object (marshal_tool ToolFormatResponses d) = Some (Some item)
    \<and> normalizeTool (Some item) fmt param = Inr (respelled d)"
proof -
  let ?fs = "(''type'', marshal_string ''function'') # function_fields d"
  define item where "item = sort_key fst ?fs"
  define fs where "fs = filter (\<lambda>(k, v). k \<noteq> ''type'') item"
  have m: "map_of item = map_of ?fs" using map_of_sorted [OF function_fields_keys(1)] by (simp only: item_def)
  have s: "set item = set ?fs" by (simp only: item_def set_sort)
  have fm: "map_of fs k = map_of (function_fields d) k" for k
    using function_fields_values(5) [of d] by (simp add: fs_def map_of_other m)
  have "item_type item param = Inr ''function''" by (simp add: item_type_def m type_read)
  moreover have "item_definition item fmt param = Inr fs"
    using function_fields_values(6) [of d] by (simp add: item_definition_def m fs_def)
  moreover have "fs \<noteq> []" using fm [of "''name''"] function_fields_values(1) [of d] by auto
  moreover have "rejectUnknownDefinitionFields fs param fmt = None"
    using s known_fields by (intro no_problem) (auto simp: fs_def)
  moreover have "read_definition fs param = Inr (respelled d)" by (rule read_written [OF assms fm])
  ultimately have "normalizeTool (Some item) fmt param = Inr (respelled d)" by (simp add: normalizeTool_def)
  moreover have "unmarshal_object (marshal_tool ToolFormatResponses d) = Some (Some item)"
    unfolding marshal_tool_def item_def using unmarshal_marshal_map [OF function_fields_keys] by simp
  ultimately show ?thesis by blast
qed

lemma written_nested:
  assumes "tool_ok d"
  shows "\<exists>item. unmarshal_object (marshal_tool ToolFormatChat d) = Some (Some item)
    \<and> normalizeTool (Some item) fmt param = Inr (respelled d)"
proof -
  let ?f = "marshal_map (function_fields d)"
  let ?fs = "[(''type'', marshal_string ''function''), (''function'', ?f)]"
  define item where "item = sort_key fst ?fs"
  define fs where "fs = sort_key fst (function_fields d)"
  have keys: "distinct (map fst (function_fields d))" "\<forall>f \<in> set (function_fields d). valid_utf8 (fst f)"
    using function_fields_keys [of _ d] by simp_all
  have m: "map_of item = map_of ?fs" using map_of_sorted [of ?fs] by (simp add: item_def)
  have fm: "map_of fs k = map_of (function_fields d) k" for k using map_of_sorted [OF keys(1)] by (simp add: fs_def)
  have "item_type item param = Inr ''function''" by (simp add: item_type_def m type_read)
  moreover have "item_definition item fmt param = Inr fs"
    using unmarshal_marshal_map [OF keys] by (simp add: item_definition_def m fs_def hasFlatDefinitionFields_def)
  moreover have "fs \<noteq> []" using fm [of "''name''"] function_fields_values(1) [of d] by auto
  moreover have "rejectUnknownDefinitionFields fs param fmt = None"
    using known_fields by (intro no_problem) (auto simp: fs_def)
  moreover have "read_definition fs param = Inr (respelled d)" by (rule read_written [OF assms fm])
  ultimately have "normalizeTool (Some item) fmt param = Inr (respelled d)" by (simp add: normalizeTool_def)
  moreover have "unmarshal_object (marshal_tool ToolFormatChat d) = Some (Some item)"
    unfolding marshal_tool_def item_def using unmarshal_marshal_map [of ?fs] tool_keys by simp
  ultimately show ?thesis by blast
qed

lemma written_items:
  assumes "list_all tool_ok ds"
  shows "\<exists>items. map_all unmarshal_object (map (marshal_tool fmt) ds) = Some items
    \<and> normalize_items items fmt' param i = Inr (map respelled ds)"
  using assms
proof (induction ds arbitrary: i)
  case (Cons d ds)
  obtain items where i: "map_all unmarshal_object (map (marshal_tool fmt) ds) = Some items"
    "normalize_items items fmt' param (Suc i) = Inr (map respelled ds)" using Cons by fastforce
  have "\<exists>item. unmarshal_object (marshal_tool fmt d) = Some (Some item)
    \<and> normalizeTool (Some item) fmt' (indexed param i) = Inr (respelled d)"
    using written_flat written_nested Cons.prems by (cases fmt) simp_all
  then obtain item where "unmarshal_object (marshal_tool fmt d) = Some (Some item)"
    "normalizeTool (Some item) fmt' (indexed param i) = Inr (respelled d)" by blast
  then show ?case using i by simp
qed simp

text \<open>C19: Accepted tool definitions survive the translation: the array written for them in either format is accepted in either
  format and gives the same definitions, up to the spelling of the strings in the parameters, and each is well formed.\<close>

theorem tools_survive:
  assumes "NormalizeTools r fmt param = Inr ds"
  shows "NormalizeTools (Some (MarshalTools ds fmt')) fmt'' param' = Inr (map respelled ds) \<and> list_all tool_ok ds"
proof -
  have ok: "list_all tool_ok ds"
    using assms normalized_ok by (auto simp: NormalizeTools_def split: option.splits if_splits)
  then obtain items where "map_all unmarshal_object (map (marshal_tool fmt') ds) = Some items"
    "normalize_items items fmt'' param' 0 = Inr (map respelled ds)" using written_items by blast
  then show ?thesis using ok by (simp add: NormalizeTools_def MarshalTools_def unmarshal_objects_def is_null_def)
qed

theorem tools_survive_witness:
  "NormalizeTools (Some (MarshalTools [\<lparr>toolName = ''f'', toolDescription = [], toolParameters = Some (RObject []), toolStrict = None\<rparr>] ToolFormatChat))
     ToolFormatChat ''tools''
   = Inr [\<lparr>toolName = ''f'', toolDescription = [], toolParameters = Some (RObject []), toolStrict = None\<rparr>]"
proof -
  have "NormalizeTools (Some (RArray [RObject [(''type'', RString ''function''), (''name'', RString ''f''), (''parameters'', RObject [])]]))
      ToolFormatResponses ''tools''
    = Inr [\<lparr>toolName = ''f'', toolDescription = [], toolParameters = Some (RObject []), toolStrict = None\<rparr>]"
    by code_simp
  from tools_survive [OF this, of ToolFormatChat ToolFormatChat "''tools''"] show ?thesis by (simp add: respelled_def)
qed

subsection \<open>Streamed calls\<close>

definition first_nonempty :: "string list \<Rightarrow> string" where
  "first_nonempty ws = (case filter (\<lambda>w. w \<noteq> []) ws of [] \<Rightarrow> [] | w # _ \<Rightarrow> w)"

definition fragments :: "int \<Rightarrow> streamedCall list \<Rightarrow> streamedCall list" where
  "fragments i ds = filter (\<lambda>d. scIndex d = i) ds"

definition assembled :: "int \<Rightarrow> streamedCall list \<Rightarrow> streamedCall option" where
  "assembled i ds =
     (if fragments i ds = [] then None
      else Some \<lparr>scIndex = i, scID = first_nonempty (map scID (fragments i ds)), scName = first_nonempty (map scName (fragments i ds)),
                 scArguments = concat (map scArguments (fragments i ds))\<rparr>)"

fun add_all :: "streamedCall list \<Rightarrow> toolCallAccumulator \<Rightarrow> toolStreamError option \<times> toolCallAccumulator" where
  "add_all [] a = (None, a)"
| "add_all (d # ds) a = (case Add d a of (Some e, a1) \<Rightarrow> (Some e, a1) | (None, a1) \<Rightarrow> add_all ds a1)"

definition no_calls :: toolCallAccumulator where "no_calls = \<lparr>accCalls = [], accTotal = 0\<rparr>"

lemma first_nonempty_Cons: "first_nonempty (w # ws) = (if w = [] then first_nonempty ws else w)"
  by (simp add: first_nonempty_def)

lemma first_nonempty_snoc: "first_nonempty (ws @ [w]) = (if first_nonempty ws = [] then w else first_nonempty ws)"
proof (induction ws)
  case Nil
  then show ?case by (simp add: first_nonempty_def)
next
  case (Cons v ws)
  then show ?case by (simp add: first_nonempty_Cons)
qed

lemma add_all_snoc: "add_all (ds @ [d]) a = (case add_all ds a of (Some e, a1) \<Rightarrow> (Some e, a1) | (None, a1) \<Rightarrow> Add d a1)"
  by (induction ds arbitrary: a) (auto split: prod.splits option.splits)

lemma Add_ok:
  assumes "Add d a = (None, a')"
  defines "call \<equiv> case map_of (accCalls a) (scIndex d) of None \<Rightarrow> empty_call (scIndex d) | Some c \<Rightarrow> c"
  shows "scID d = [] \<or> scID call = [] \<or> scID call = scID d" "scName d = [] \<or> scName call = [] \<or> scName call = scName d"
    "accCalls a' = AList.update (scIndex call) (call\<lparr>scID := (if scID d \<noteq> [] then scID d else scID call),
        scName := (if scName d \<noteq> [] then scName d else scName call), scArguments := scArguments call @ scArguments d\<rparr>) (accCalls a)"
    "accTotal a' = accTotal a + length (scArguments d)" "scArguments d = [] \<or> accTotal a' \<le> MaxToolArgumentsBytes"
proof -
  define call1 where "call1 = (if scID d \<noteq> [] then call\<lparr>scID := scID d\<rparr> else call)"
  define call2 where "call2 = (if scName d \<noteq> [] then call1\<lparr>scName := scName d\<rparr> else call1)"
  note A = assms(1) [unfolded Add_def Let_def call_def [symmetric], folded call1_def, folded call2_def]
  have n: "\<not> scIndex d < 0" using A by (cases "scIndex d < 0") simp_all
  note A1 = A [unfolded if_not_P [OF n]]
  have i: "\<not> (scID d \<noteq> [] \<and> scID call \<noteq> [] \<and> scID call \<noteq> scID d)"
    by (rule notI) (use A1 in \<open>simp only: if_True prod.inject option.distinct simp_thms\<close>)
  note A2 = A1 [unfolded if_not_P [OF i]]
  have m: "\<not> (scName d \<noteq> [] \<and> scName call1 \<noteq> [] \<and> scName call1 \<noteq> scName d)"
    by (rule notI) (use A2 in \<open>simp only: if_True prod.inject option.distinct simp_thms\<close>)
  note A3 = A2 [unfolded if_not_P [OF m]]
  have l: "\<not> (scArguments d \<noteq> [] \<and> MaxToolArgumentsBytes < accTotal a + length (scArguments d))"
    by (rule notI) (use A3 in \<open>simp only: if_True prod.inject option.distinct simp_thms\<close>)
  note A4 = A3 [unfolded if_not_P [OF l]]
  have a': "a' = (put_call (call2\<lparr>scArguments := scArguments call2 @ scArguments d\<rparr>) a)\<lparr>accTotal := accTotal a + length (scArguments d)\<rparr>"
    using A4 by simp
  have c2: "call2 = call\<lparr>scID := (if scID d \<noteq> [] then scID d else scID call), scName := (if scName d \<noteq> [] then scName d else scName call)\<rparr>"
    by (simp add: call2_def call1_def)
  show "scID d = [] \<or> scID call = [] \<or> scID call = scID d" using i by blast
  show "scName d = [] \<or> scName call = [] \<or> scName call = scName d" using m by (auto simp: call1_def split: if_splits)
  show "accCalls a' = AList.update (scIndex call) (call\<lparr>scID := (if scID d \<noteq> [] then scID d else scID call),
        scName := (if scName d \<noteq> [] then scName d else scName call), scArguments := scArguments call @ scArguments d\<rparr>) (accCalls a)"
    by (simp add: a' put_call_def c2)
  show "accTotal a' = accTotal a + length (scArguments d)" by (simp add: a')
  then show "scArguments d = [] \<or> accTotal a' \<le> MaxToolArgumentsBytes" using l by (simp add: not_less)
qed

text \<open>The calls of a stream are assembled by index: after any number of deltas that were all accepted, every call has the
  first identifier and name sent for its index and the concatenation of its argument texts.\<close>

theorem streamed_calls_assembled:
  assumes "add_all ds no_calls = (None, a)"
  shows "(\<forall>i. map_of (accCalls a) i = assembled i ds) \<and> distinct (map fst (accCalls a))
    \<and> accTotal a = sum_list (map (\<lambda>d. length (scArguments d)) ds) \<and> accTotal a \<le> MaxToolArgumentsBytes"
  using assms
proof (induction ds arbitrary: a rule: rev_induct)
  case Nil
  then have "a = no_calls" by simp
  then show ?case by (simp add: no_calls_def assembled_def fragments_def)
next
  case (snoc d ds)
  obtain b where b: "add_all ds no_calls = (None, b)" "Add d b = (None, a)"
    using snoc.prems by (auto simp: add_all_snoc split: prod.splits option.splits)
  note IH = snoc.IH [OF b(1)]
  define call where "call = (case map_of (accCalls b) (scIndex d) of None \<Rightarrow> empty_call (scIndex d) | Some c \<Rightarrow> c)"
  note c = Add_ok [OF b(2), folded call_def]
  define frags where "frags = fragments (scIndex d) ds"
  have call: "call = \<lparr>scIndex = scIndex d, scID = first_nonempty (map scID frags), scName = first_nonempty (map scName frags),
      scArguments = concat (map scArguments frags)\<rparr>"
    using call_def IH by (auto simp: assembled_def frags_def [symmetric] empty_call_def first_nonempty_def)
  have "map_of (accCalls a) i = assembled i (ds @ [d])" for i
  proof (cases "i = scIndex d")
    case True
    then have "fragments i (ds @ [d]) = frags @ [d]" by (simp add: fragments_def frags_def)
    then show ?thesis using c(1-3) True call by (auto simp: assembled_def first_nonempty_snoc)
  next
    case False
    then have "fragments i (ds @ [d]) = fragments i ds" by (simp add: fragments_def)
    then show ?thesis using c(3) False call IH by (simp add: assembled_def)
  qed
  then show ?case using IH c(3-5) by (auto simp: distinct_update)
qed

end
