(* ===== verification/Reasoning_Wire.thy ===== *)
theory Reasoning_Wire
  imports Reasoning
begin

text \<open>
  What \<open>ApplyReasoning\<close> writes: the share of the completion a thinking budget may take, and that the
  written fields, parsed again, name the level that was decided.
\<close>

subsection \<open>The budget\<close>

lemma cap_bounds:
  assumes "0 < budget" "2 \<le> n" "3 * n \<le> MaxInt64"
  shows "0 < capThinkingBudget budget n" "capThinkingBudget budget n \<le> budget" "4 * capThinkingBudget budget n \<le> 3 * n"
    "32 < n \<Longrightarrow> capThinkingBudget budget n + 32 \<le> n"
proof -
  have w: "wrap64 (n * 3) = n * 3" using assms by (intro wrap64_id) (auto simp: in_int64_def MaxInt64_def)
  have pos: "0 < n * 3 div 4" "4 * (n * 3 div 4) \<le> 3 * n" "\<not> n * 3 < 0" using assms by linarith+
  show "0 < capThinkingBudget budget n" "capThinkingBudget budget n \<le> budget" "4 * capThinkingBudget budget n \<le> 3 * n"
    "32 < n \<Longrightarrow> capThinkingBudget budget n + 32 \<le> n"
    using assms(1,2) pos
    by (auto simp: capThinkingBudget_def thinkingBudgetNumerator_def thinkingBudgetDenominator_def thinkingContentReserve_def Let_def w)
qed

lemma cap_largest:
  assumes "0 < budget" "2 \<le> n" "3 * n \<le> MaxInt64" "b \<le> budget" "4 * b \<le> 3 * n" "32 < n \<longrightarrow> b + 32 \<le> n"
  shows "b \<le> capThinkingBudget budget n"
proof -
  have "wrap64 (n * 3) = n * 3" using assms by (intro wrap64_id) (auto simp: in_int64_def MaxInt64_def)
  then show ?thesis
    using assms by (auto simp: capThinkingBudget_def thinkingBudgetNumerator_def thinkingBudgetDenominator_def thinkingContentReserve_def Let_def)
qed

text \<open>One token is the only limit whose share is nothing, and nothing is not written.\<close>

lemma cap_one: "capThinkingBudget budget 1 = budget"
  by (simp add: capThinkingBudget_def thinkingBudgetNumerator_def thinkingBudgetDenominator_def thinkingContentReserve_def wrap64_id in_int64_def)

text \<open>The comment on the reserve says that a limit at or below it leaves the budget uncapped; the share of three quarters applies
  there.\<close>

lemma small_limit_capped: "capThinkingBudget 1024 32 = 24" "capThinkingBudget 1024 2 = 1"
  by code_simp+

text \<open>The budgets that leave room next to a token limit.\<close>

definition fits_limit :: "reasoningDecision \<Rightarrow> int \<Rightarrow> int \<Rightarrow> bool" where
  "fits_limit d limit b \<longleftrightarrow> b \<le> decEffectiveBudget d \<and> 4 * b \<le> 3 * limit \<and> (32 < limit \<longrightarrow> b + 32 \<le> limit)"

subsection \<open>Reading numbers and names back\<close>

lemma parse_int_itoa: "0 \<le> i \<Longrightarrow> in_int64 i \<Longrightarrow> parse_int (itoa i) = Some i"
proof -
  assume i: "0 \<le> i" "in_int64 i"
  note d = nat_digits_value [of "nat i"]
  then obtain c cs where c: "nat_digits (nat i) = c # cs" "is_digit c" by (cases "nat_digits (nat i)") auto
  then have "c \<noteq> CHR ''-''" "c \<noteq> CHR ''+''" by (auto simp: is_digit_def)
  then show ?thesis using i d c by (simp add: parse_int_def itoa_def)
qed

lemma known_level_text:
  assumes "known_level l"
  shows "unquote (quote l) = l" "parseFlexibleLevel ul l param = Inr l"
proof -
  have l: "l \<in> set (map fst reasoningBudgets)" using assms by (auto simp: known_level_def map_of_eq_None_iff)
  have "\<forall>l \<in> set (map fst reasoningBudgets). list_all (\<lambda>c. code_of c < 0x80) l" by (simp add: reasoningBudgets_def)
  then have a: "list_all (\<lambda>c. code_of c < 0x80) l" using l by blast
  then show "unquote (quote l) = l" by (intro unquote_quote ascii_valid)
  have "list_all (\<lambda>l. trim_space l = l \<and> map lower_char l = l \<and> map_of reasoningAliases l = Some l) (map fst reasoningBudgets)"
    by code_simp
  then have "trim_space l = l \<and> map lower_char l = l \<and> map_of reasoningAliases l = Some l" using l by (simp only: list_all_iff) 
  then show "parseFlexibleLevel ul l param = Inr l" using a by (simp add: parseFlexibleLevel_def to_lower_def)
qed

subsection \<open>Writing and parsing again\<close>

lemma cap_range: "capThinkingBudget b n \<le> b" "b \<le> 0 \<Longrightarrow> capThinkingBudget b n = b" "0 < b \<Longrightarrow> 0 < capThinkingBudget b n"
  by (auto simp: capThinkingBudget_def Let_def)

lemma strip_fields: "map_of (StripReasoning fs) k = (if k \<in> set reasoningAliasFields then None else map_of fs k)"
  by (simp add: StripReasoning_def reasoningAliasFields_def)

lemma key_texts: "unquote (quote ''type'') = ''type''" "unquote (quote ''budget_tokens'') = ''budget_tokens''"
  "unquote (quote ''enabled'') = ''enabled''" "unquote (quote ''disabled'') = ''disabled''"
  by (intro unquote_quote ascii_valid, simp)+

lemma marshalThinking_object:
  "unmarshal_object (marshalThinking d b) = Some (Some
     (if decEffectiveLevel d = ReasoningNone then [(''type'', marshal_string ''disabled'')]
      else if 0 \<le> b then [(''budget_tokens'', RNumber (itoa b)), (''type'', marshal_string ''enabled'')]
      else [(''type'', marshal_string ''enabled'')]))"
  by (simp add: marshalThinking_def marshal_map_def unmarshal_object_def collect_members_def key_texts)

definition written_level :: "reasoningDecision \<Rightarrow> int \<Rightarrow> reasoningLevel" where
  "written_level d b =
     (if decEffectiveLevel d = ReasoningNone then ReasoningNone else if 0 \<le> b then levelForBudget b else ReasoningAuto)"

lemma written_thinking:
  assumes "b \<le> 2147483647"
  shows "\<exists>spec. parseThinking ul (marshalThinking d b) ''thinking'' = Inr spec \<and> specRequested spec
    \<and> specLevel spec = written_level d b
    \<and> specHasBudget spec = (decEffectiveLevel d \<noteq> ReasoningNone \<and> 0 \<le> b)
    \<and> (decEffectiveLevel d \<noteq> ReasoningNone \<and> 0 \<le> b \<longrightarrow> specBudget spec = b)"
proof -
  have s: "unmarshal_bool (marshalThinking d b) = None" "unmarshal_string (marshalThinking d b) = None"
    by (simp_all add: marshalThinking_def marshal_map_def unmarshal_bool_def unmarshal_string_def)
  have t: "stringValueOK (marshal_string ''enabled'') = Some ''enabled''" "stringValueOK (marshal_string ''disabled'') = Some ''disabled''"
    by (simp_all add: stringValueOK_def unmarshal_string_def marshal_string_def key_texts)
  have n: "\<not> is_null (marshal_string x)" "\<not> is_null (RNumber y)" for x y by (simp_all add: is_null_def marshal_string_def)
  have i: "unmarshal_int (RNumber (itoa b)) = Some b" if "0 \<le> b"
    using parse_int_itoa [OF that] that assms by (simp add: unmarshal_int_def in_int64_def)
  have l: "levelForBudget b \<noteq> []" if "0 \<le> b"
    using level_search(3) [OF that assms refl] by (auto simp: reasoningBudgets_def)
  show ?thesis
  proof (cases "decEffectiveLevel d = ReasoningNone")
    case True
    then show ?thesis
      by (simp add: parseThinking_def s marshalThinking_object parseReasoningFields_def named_level_def typed_level_def readBudget_def
          t n written_level_def Let_def)
  next
    case False
    then show ?thesis using i l assms
      by (simp add: parseThinking_def s marshalThinking_object parseReasoningFields_def named_level_def typed_level_def readBudget_def
          t n written_level_def Let_def)
  qed
qed

lemma parse_single_alias:
  assumes "map_of fs ''reasoning_effort'' = None" "map_of fs ''reasoning'' = None" "map_of fs ''thinking'' = Some r" "\<not> is_null r"
    "parseThinking ul r ''thinking'' = Inr spec"
  shows "ParseReasoning ul fs = Inr (if specRequested spec then spec else no_spec)"
  using assms by (simp add: ParseReasoning_def merge_spec_def no_spec_def)

lemma parse_effort_alias:
  assumes "map_of fs ''thinking'' = None" "map_of fs ''reasoning'' = None" "map_of fs ''reasoning_effort'' = Some (marshal_string l)" "known_level l"
  shows "ParseReasoning ul fs = Inr (level_spec l ''reasoning_effort'')"
  using assms known_level_text [OF assms(4)]
  by (simp add: ParseReasoning_def merge_spec_def no_spec_def parseReasoningEffort_def unmarshal_string_def marshal_string_def
      is_null_def level_spec_def)

lemma one_alias:
  assumes "k \<in> set reasoningAliasFields"
  shows "(\<exists>!a. a \<in> set reasoningAliasFields \<and> map_of (AList.update k r (StripReasoning fs)) a \<noteq> None)
    \<and> (\<forall>x. x \<notin> set reasoningAliasFields \<longrightarrow> map_of (AList.update k r (StripReasoning fs)) x = map_of fs x)"
  using assms by (auto simp: strip_fields split: if_splits)

lemma alias_names: "''thinking'' \<in> set reasoningAliasFields" "''reasoning_effort'' \<in> set reasoningAliasFields"
  by (simp_all add: reasoningAliasFields_def)

text \<open>C20: What is written for a decision and what parsing it again gives, for a decision on a standard level with a budget of at
  most 2147483647. Exactly one of the three aliases is present afterwards, \<open>reasoning_effort\<close> or \<open>thinking\<close>, and every other field
  is as before. Where it is \<open>reasoning_effort\<close> it carries a level and no budget: parsed again it names the effective level, or \<open>high\<close> for any
  level but \<open>none\<close> when the levels of the provider are advisory. Where it is a thinking object it carries a budget and no level: parsed
  again it names \<open>none\<close> when that was decided; otherwise the decided budget capped for the token limit, with the level
  nearest to it, or \<open>auto\<close> without a budget when the budget is negative.\<close>

theorem reasoning_written_back:
  assumes "ApplyReasoning ul fs d p = (None, fs')" "decRequested d" "known_level (decEffectiveLevel d)"
    "decEffectiveBudget d \<le> 2147483647"
  shows "let b = capThinkingBudget (decEffectiveBudget d) (OutputTokenLimit fs)
    in (\<exists>spec. ParseReasoning ul fs' = Inr spec \<and> specRequested spec
          \<and> (if map_of fs' ''thinking'' = None
             then specLevel spec = (if AdvisoryLevels p \<and> decEffectiveLevel d \<noteq> ReasoningNone then ReasoningHigh else decEffectiveLevel d)
               \<and> \<not> specHasBudget spec
             else specLevel spec = written_level d b
               \<and> specHasBudget spec = (decEffectiveLevel d \<noteq> ReasoningNone \<and> 0 \<le> b)
               \<and> (decEffectiveLevel d \<noteq> ReasoningNone \<and> 0 \<le> b \<longrightarrow> specBudget spec = b)))
      \<and> (\<exists>!a. a \<in> set reasoningAliasFields \<and> map_of fs' a \<noteq> None) \<and> map_of fs' ''reasoning'' = None
      \<and> (\<forall>k. k \<notin> set reasoningAliasFields \<longrightarrow> map_of fs' k = map_of fs k)"
proof -
  define b where "b = capThinkingBudget (decEffectiveBudget d) (OutputTokenLimit fs)"
  define level where "level = (if AdvisoryLevels p \<and> decEffectiveLevel d \<noteq> ReasoningNone then ReasoningHigh else decEffectiveLevel d)"
  have b: "b \<le> 2147483647" using cap_range(1) [of "decEffectiveBudget d" "OutputTokenLimit fs"] assms(4) by (simp add: b_def)
  have "known_level ReasoningHigh" by (simp add: known_level_def reasoningBudgets_def)
  then have k: "known_level level" using assms(3) by (simp add: level_def)
  consider (thinking) "fs' = AList.update ''thinking'' (marshalThinking d b) (StripReasoning fs)"
    | (effort) "fs' = AList.update ''reasoning_effort'' (marshal_string level) (StripReasoning fs)"
    using assms(1,2) unfolding ApplyReasoning_def Let_def b_def level_def advisoryOnLevel_def by (auto split: if_splits)
  then show ?thesis
  proof cases
    case thinking
    obtain spec where s: "parseThinking ul (marshalThinking d b) ''thinking'' = Inr spec" "specRequested spec"
      "specLevel spec = written_level d b" "specHasBudget spec = (decEffectiveLevel d \<noteq> ReasoningNone \<and> 0 \<le> b)"
      "decEffectiveLevel d \<noteq> ReasoningNone \<and> 0 \<le> b \<longrightarrow> specBudget spec = b"
      using written_thinking [OF b, of ul d] by blast
    have "ParseReasoning ul fs' = Inr spec"
      using parse_single_alias [of fs' "marshalThinking d b" ul spec] thinking s(1,2)
      by (simp add: strip_fields reasoningAliasFields_def is_null_def marshalThinking_def marshal_map_def)
    moreover have "map_of fs' ''thinking'' \<noteq> None" using thinking by simp
    moreover have "map_of fs' ''reasoning'' = None" using thinking by (simp add: strip_fields reasoningAliasFields_def)
    ultimately show ?thesis using s one_alias [OF alias_names(1)] thinking unfolding b_def [symmetric] Let_def by auto
  next
    case effort
    have "ParseReasoning ul fs' = Inr (level_spec level ''reasoning_effort'')"
      using effort k by (intro parse_effort_alias) (simp_all add: strip_fields reasoningAliasFields_def)
    moreover have "map_of fs' ''thinking'' = None" using effort by (simp add: strip_fields reasoningAliasFields_def)
    moreover have "specRequested (level_spec level ''reasoning_effort'')" "specLevel (level_spec level ''reasoning_effort'') = level"
      "\<not> specHasBudget (level_spec level ''reasoning_effort'')"
      by (simp_all add: level_spec_def)
    moreover have "map_of fs' ''reasoning'' = None" using effort by (simp add: strip_fields reasoningAliasFields_def)
    ultimately show ?thesis using one_alias [OF alias_names(2)] effort unfolding level_def Let_def by auto
  qed
qed

text \<open>C22: The budget of a thinking object written next to a token limit, for a decision on a level other than \<open>none\<close> with a positive
  budget, when three times the limit does not exceed the largest int. With a limit of one token the budget is not capped. With a
  larger one it is positive, at most the budget decided and at most three quarters of the limit, also where the limit is at most the
  reserve of 32 tokens; when the limit is above the reserve, at least 32 tokens are left for the answer. It is the largest such
  budget.\<close>

theorem thinking_leaves_room:
  assumes "ApplyReasoning ul fs d p = (None, fs')" "decRequested d" "map_of fs' ''thinking'' = Some r"
    "decEffectiveLevel d \<noteq> ReasoningNone" "0 < decEffectiveBudget d" "0 < OutputTokenLimit fs" "3 * OutputTokenLimit fs \<le> MaxInt64"
  shows "\<exists>b. r = marshalThinking d b
    \<and> (if OutputTokenLimit fs = 1 then b = decEffectiveBudget d
       else 0 < b \<and> fits_limit d (OutputTokenLimit fs) b \<and> (\<forall>b'. fits_limit d (OutputTokenLimit fs) b' \<longrightarrow> b' \<le> b))"
proof -
  have "r = marshalThinking d (capThinkingBudget (decEffectiveBudget d) (OutputTokenLimit fs))"
    using assms(1-3) unfolding ApplyReasoning_def Let_def
    by (auto simp: strip_fields reasoningAliasFields_def split: if_splits)
  moreover have "capThinkingBudget (decEffectiveBudget d) 1 = decEffectiveBudget d" by (rule cap_one)
  moreover have "2 \<le> OutputTokenLimit fs" if "OutputTokenLimit fs \<noteq> 1" using assms(6) that by linarith
  ultimately show ?thesis
    using cap_bounds [OF assms(5) _ assms(7)] cap_largest [OF assms(5) _ assms(7)] unfolding fits_limit_def by (cases "OutputTokenLimit fs = 1") auto
qed

subsection \<open>Witnesses\<close>

definition sample_profile :: reasoningProfile where
  "sample_profile =
     \<lparr>Supported = True, Levels = [ReasoningHigh, ReasoningNone, ReasoningLow], MinBudget = 0, MaxBudget = 128000,
      ZeroAllowed = True, DynamicAllowed = False, WireFormat = ''thinking'', AdvisoryLevels = False\<rparr>"

definition sample_decision :: reasoningDecision where
  "sample_decision =
     \<lparr>decRequested = True, decSource = ''reasoning_effort'', decRequestedLevel = ReasoningHigh, decRequestedBudget = 24576,
      decEffectiveLevel = ReasoningHigh, decEffectiveBudget = 24576, decDowngraded = False\<rparr>"

lemma sample_resolve: "ResolveReasoning (level_spec ReasoningHigh ''reasoning_effort'') sample_profile = Inr sample_decision"
  by code_simp

lemma sample_auto: "AutoReasoningSpec sample_profile 0 = Some (injected ReasoningLow)"
  by code_simp

lemma sample_fits: "\<forall>l \<in> set (availableLevels sample_profile). fits_profile sample_profile l"
  by code_simp

lemma sample_apply: "ApplyReasoning id [(''max_tokens'', RNumber ''1024'')] sample_decision sample_profile =
    (None, [(''max_tokens'', RNumber ''1024''), (''thinking'', marshalThinking sample_decision 768)])"
  by code_simp

theorem reasoning_resolved_witness:
  "decEffectiveLevel sample_decision \<in> set (availableLevels sample_profile)"
  using reasoning_resolved [OF sample_resolve]
  by (simp add: level_spec_def sample_decision_def known_level_def reasoningBudgets_def)

theorem injected_reasoning_safe_witness:
  "\<exists>d. ResolveReasoning (injected ReasoningLow) sample_profile = Inr d \<and> decEffectiveLevel d = ReasoningLow"
  using injected_reasoning_safe [OF sample_auto sample_fits] by (simp add: injected_def level_spec_def)

theorem reasoning_written_back_witness:
  "\<exists>spec. ParseReasoning id [(''max_tokens'', RNumber ''1024''), (''thinking'', marshalThinking sample_decision 768)] = Inr spec
     \<and> specBudget spec = 768"
proof -
  have "known_level (decEffectiveLevel sample_decision)" "decEffectiveBudget sample_decision \<le> 2147483647" "decRequested sample_decision"
    by (simp_all add: sample_decision_def known_level_def reasoningBudgets_def)
  moreover have "capThinkingBudget (decEffectiveBudget sample_decision) (OutputTokenLimit [(''max_tokens'', RNumber ''1024'')]) = 768"
    by code_simp
  moreover have "decEffectiveLevel sample_decision \<noteq> ReasoningNone" by (simp add: sample_decision_def)
  ultimately show ?thesis using reasoning_written_back [OF sample_apply] by (auto simp: Let_def)
qed

theorem thinking_leaves_room_witness:
  "\<exists>b. marshalThinking sample_decision 768 = marshalThinking sample_decision b \<and> 0 < b \<and> fits_limit sample_decision 1024 b"
proof -
  have n: "OutputTokenLimit [(''max_tokens'', RNumber ''1024'')] = 1024" by code_simp
  show ?thesis
    using thinking_leaves_room [OF sample_apply, of "marshalThinking sample_decision 768"]
    by (auto simp: n sample_decision_def MaxInt64_def)
qed

end
