(* ===== verification/Responses_Body.thy ===== *)
theory Responses_Body
  imports Responses_Request Tool_Properties Reasoning_Wire
begin

text \<open>
  What a Responses request becomes: the names of the chat body come from a fixed list, its messages are
  well formed, and the aliases of reasoning never contradict each other.
\<close>

subsection \<open>Names\<close>

abbreviation names :: "fields \<Rightarrow> string set" where "names fs \<equiv> fst ` set fs"

definition chatNames :: "string set" where
  "chatNames = {''stream'', ''tools'', ''tool_choice'', ''parallel_tool_calls'', ''reasoning_effort'', ''reasoning'', ''thinking'',
     ''max_tokens'', ''temperature'', ''top_p'', ''seed'', ''stop'', ''presence_penalty'', ''frequency_penalty'', ''user'',
     ''stream_options'', ''response_format''}"

definition body_names :: "fields \<Rightarrow> bool" where
  "body_names fs \<longleftrightarrow> fields_ok fs \<and> names fs \<subseteq> chatNames"

lemma body_names_update: "body_names fs \<Longrightarrow> k \<in> chatNames \<Longrightarrow> body_names (AList.update k v fs)"
  by (auto simp: body_names_def dom_update)

lemma body_names_delete: "body_names fs \<Longrightarrow> body_names (AList.delete k fs)"
  using fields_ok_delete [of fs k] by (auto simp: body_names_def AList.delete_eq)

lemma body_names_copy: "body_names fs \<Longrightarrow> k \<in> chatNames \<Longrightarrow> body_names (copy_field k src fs)"
  by (simp add: copy_field_def body_names_update)

lemma chatNames_known [simp]:
  "''stream'' \<in> chatNames" "''tools'' \<in> chatNames" "''tool_choice'' \<in> chatNames" "''parallel_tool_calls'' \<in> chatNames"
  "''reasoning_effort'' \<in> chatNames" "''reasoning'' \<in> chatNames" "''thinking'' \<in> chatNames" "''max_tokens'' \<in> chatNames"
  "''stream_options'' \<in> chatNames" "''response_format'' \<in> chatNames"
  by (simp_all add: chatNames_def)

lemma body_names_sampling: "body_names chat \<Longrightarrow> body_names (mapSamplingParameters fs chat)"
proof -
  have "set ws \<subseteq> chatNames \<Longrightarrow> body_names chat \<Longrightarrow> body_names (fold (\<lambda>name. copy_field name fs) ws chat)" for ws
    by (induction ws arbitrary: chat) (auto simp: body_names_copy)
  moreover have "set samplingFields \<subseteq> chatNames" by (simp add: samplingFields_def chatNames_def)
  ultimately show "body_names chat \<Longrightarrow> body_names (mapSamplingParameters fs chat)" by (simp add: mapSamplingParameters_def)
qed

lemma and_then_Inr [simp]: "and_then x f = Inr v \<longleftrightarrow> (\<exists>u. x = Inr u \<and> f u = Inr v)"
  by (auto simp: and_then_def split: sum.splits)

lemma guard_ok_Inr [simp]: "guard_ok x = Inr u \<longleftrightarrow> x = None"
  by (auto simp: guard_ok_def split: option.splits)

lemma mapTools_names: "mapTools fs chat = Inr (ns, chat') \<Longrightarrow> body_names chat \<Longrightarrow> body_names chat'"
  by (auto simp: mapTools_def intro: body_names_update split: option.splits sum.splits if_splits)

lemma mapToolChoice_names: "mapToolChoice fs chat ns = Inr chat' \<Longrightarrow> body_names chat \<Longrightarrow> body_names chat'"
  by (auto simp: mapToolChoice_def intro: body_names_update split: option.splits sum.splits if_splits)

lemma mapParallel_names: "mapParallelToolCalls fs chat b = Inr chat' \<Longrightarrow> body_names chat \<Longrightarrow> body_names chat'"
  by (auto simp: mapParallelToolCalls_def Let_def intro: body_names_update split: if_splits)

lemma mapReasoning_names: "body_names chat \<Longrightarrow> body_names (mapReasoning fs chat)"
  by (auto simp: mapReasoning_def Let_def intro!: body_names_update body_names_copy split: option.splits)

lemma mapMaxOutputTokens_names: "mapMaxOutputTokens fs chat = Inr chat' \<Longrightarrow> body_names chat \<Longrightarrow> body_names chat'"
  by (auto simp: mapMaxOutputTokens_def intro: body_names_update split: option.splits if_splits)

lemma mapStreamOptions_names: "mapStreamOptions fs chat stream = Inr chat' \<Longrightarrow> body_names chat \<Longrightarrow> body_names chat'"
  by (auto simp: mapStreamOptions_def Let_def intro: body_names_update split: option.splits if_splits)

lemma mapTextFormat_names: "mapTextFormat fs chat = Inr chat' \<Longrightarrow> body_names chat \<Longrightarrow> body_names chat'"
  by (auto simp: mapTextFormat_def Let_def intro: body_names_update split: option.splits if_splits)

subsection \<open>Raw messages of a parsed body\<close>

definition fields_raw_ok :: "fields \<Rightarrow> bool" where
  "fields_raw_ok fs \<longleftrightarrow> (\<forall>v \<in> snd ` set fs. raw_ok v)"

lemma fold_max_ge: "a \<le> fold max xs a \<and> (\<forall>x \<in> set xs. x \<le> fold max xs (a :: nat))"
proof (induction xs arbitrary: a)
  case (Cons x xs)
  show ?case using Cons.IH [of "max x a"] by (auto intro: order_trans)
qed simp

lemma raw_ok_elements: "raw_ok (RArray vs) \<Longrightarrow> v \<in> set vs \<Longrightarrow> raw_ok v"
  using fold_max_ge [of 0 "map raw_depth vs"] by (fastforce simp: raw_ok_def list_all_iff)

lemma raw_ok_members:
  assumes "raw_ok (RObject ms)" "v \<in> snd ` set ms"
  shows "raw_ok v"
proof -
  obtain k where k: "(k, v) \<in> set ms" using assms(2) by force
  then have "raw_depth v \<in> set (map (\<lambda>(k, v). raw_depth v) ms)" by force
  then have "raw_depth v \<le> fold max (map (\<lambda>(k, v). raw_depth v) ms) 0" using fold_max_ge by blast
  then show ?thesis using assms(1) k by (auto simp: raw_ok_def list_all_iff)
qed

lemma collect_values: "snd ` set (collect_members ms) \<subseteq> snd ` set ms"
proof -
  have upd: "snd ` set (AList.update k v al) \<subseteq> insert v (snd ` set al)" for k and v :: raw and al
    by (induction al) auto
  have "snd ` set (fold (\<lambda>(k, v). AList.update (unquote k) v) ms al) \<subseteq> snd ` set al \<union> snd ` set ms" for al
  proof (induction ms arbitrary: al)
    case (Cons m ms)
    obtain k v where "m = (k, v)" by (cases m)
    then show ?case using Cons.IH [of "AList.update (unquote k) v al"] upd [of "unquote k" v al] by auto
  qed simp
  from this [of "[]"] show ?thesis by (simp add: collect_members_def)
qed

lemma decoded_ok: "decodeObject body = Inr fs \<Longrightarrow> fields_raw_ok fs"
  using raw_parse_ok collect_values raw_ok_members
  by (fastforce simp: decodeObject_def unmarshal_object_def fields_raw_ok_def raw_ok_def [symmetric]
      split: option.splits raw.splits)

lemma field_ok: "fields_raw_ok fs \<Longrightarrow> map_of fs k = Some r \<Longrightarrow> raw_ok r"
  by (force simp: fields_raw_ok_def dest: map_of_SomeD)

subsection \<open>Messages\<close>

definition call_ok :: "chatToolCall \<Rightarrow> bool" where
  "call_ok c \<longleftrightarrow> ctcID c \<noteq> [] \<and> ctcName c \<noteq> [] \<and> (\<exists>v. raw_parse (ctcArguments c) = Some v \<and> spell v = ctcArguments c)"

definition message_ok :: "chatMessage \<Rightarrow> bool" where
  "message_ok m \<longleftrightarrow>
     (List.member [''developer'', ''system'', ''user''] (msgRole m) \<and> msgContent m \<noteq> [] \<and> msgToolCallID m = [] \<and> msgToolCalls m = [])
     \<or> (msgRole m = ''assistant'' \<and> msgToolCallID m = [] \<and> (msgToolCalls m = [] \<or> (\<exists>c. msgToolCalls m = [c] \<and> call_ok c)))
     \<or> (msgRole m = ''tool'' \<and> msgToolCallID m \<noteq> [] \<and> msgToolCalls m = [])"

lemma convertMessageItem_ok: "convertMessageItem it i = Inr m \<Longrightarrow> message_ok m"
  by (auto simp: convertMessageItem_def Let_def message_ok_def text_message_def split: if_splits sum.splits)

lemma item_arguments_ok: "parse_item r = Some it \<Longrightarrow> raw_ok r \<Longrightarrow> itArguments it = Some v \<Longrightarrow> raw_ok v"
proof -
  assume a: "parse_item r = Some it" "raw_ok r" "itArguments it = Some v"
  obtain ms where ms: "unmarshal_struct r = Some ms" "struct_raw ''arguments'' ms = Some v"
    using a(1,3) by (auto simp: parse_item_def split: option.splits)
  then have "v \<in> set (struct_values ''arguments'' ms)"
    using last_in_set [of "struct_values ''arguments'' ms"] by (auto simp: struct_raw_def split: list.splits)
  then have v: "v \<in> snd ` set ms" by (auto simp: struct_values_def)
  show ?thesis
  proof (cases r)
    case (RObject ns)
    then show ?thesis using ms(1) v a(2) raw_ok_members [of ns v] by (simp add: unmarshal_struct_def)
  qed (use ms(1) v in \<open>auto simp: unmarshal_struct_def\<close>)
qed

lemma convertFunctionCallItem_ok:
  assumes "convertFunctionCallItem it i = Inr m" "\<forall>v. itArguments it = Some v \<longrightarrow> raw_ok v"
  shows "message_ok m"
proof -
  obtain args where a: "NormalizeArguments (itArguments it) (indexed ''input'' i @ ''.arguments'') = Inr args"
    "itCallID it \<noteq> []" "itName it \<noteq> []"
    "m = \<lparr>msgRole = ''assistant'', msgContent = [], msgContentPresent = False, msgToolCallID = [],
           msgToolCalls = [\<lparr>ctcIndex = 0, ctcID = itCallID it, ctcName = itName it, ctcArguments = args\<rparr>]\<rparr>"
    using assms(1) by (auto simp: convertFunctionCallItem_def Let_def split: if_splits sum.splits)
  then show ?thesis using arguments_text [OF a(1) assms(2)] by (simp add: message_ok_def call_ok_def)
qed

lemma convertFunctionCallOutputItem_ok: "convertFunctionCallOutputItem ul it i = Inr m \<Longrightarrow> message_ok m"
  by (auto simp: convertFunctionCallOutputItem_def Let_def message_ok_def split: if_splits sum.splits)

lemma convertInputItem_ok:
  assumes "convertInputItem ul r i = Inr (m, w)" "raw_ok r"
  shows "message_ok m \<or> m = no_message"
proof -
  obtain it where it: "parse_item r = Some it" using assms(1) by (cases "parse_item r") (auto simp: convertInputItem_def)
  have args: "\<forall>v. itArguments it = Some v \<longrightarrow> raw_ok v" using item_arguments_ok [OF it assms(2)] by blast
  consider "convertMessageItem it i = Inr m" | "convertFunctionCallItem it i = Inr m"
    | "convertFunctionCallOutputItem ul it i = Inr m" | "m = no_message"
    using assms(1) it unfolding convertInputItem_def by (simp split: if_splits sum.splits)
  then show ?thesis
    using convertMessageItem_ok convertFunctionCallItem_ok [OF _ args] convertFunctionCallOutputItem_ok by cases blast+
qed

lemma convert_items_ok:
  "convert_items ul i rs = Inr (ms, w) \<Longrightarrow> \<forall>r \<in> set rs. raw_ok r \<Longrightarrow> list_all message_ok ms"
proof (induction rs arbitrary: i ms w)
  case (Cons r rs)
  obtain m v ns u where m: "convertInputItem ul r i = Inr (m, v)" "convert_items ul (Suc i) rs = Inr (ns, u)"
    "ms = (if msgRole m \<noteq> [] then m # ns else ns)"
    using Cons.prems(1) by (cases "convertInputItem ul r i"; cases "convert_items ul (Suc i) rs") auto
  have "message_ok m \<or> m = no_message" using convertInputItem_ok [OF m(1)] Cons.prems(2) by simp
  then show ?case using Cons.IH [OF m(2)] Cons.prems(2) m(3) by (auto simp: no_message_def)
qed simp

lemma convertInput_ok:
  assumes "convertInput ul fs = Inr (ms, w)" "fields_raw_ok fs"
  shows "list_all message_ok ms"
proof (cases "map_of fs ''input''")
  case None
  then show ?thesis using assms(1) by (simp add: convertInput_def)
next
  case (Some r)
  have r: "raw_ok r" by (rule field_ok [OF assms(2) Some])
  consider (missing) "ms = []" | (plain) t where "ms = [text_message ''user'' t]" "t \<noteq> []"
    | (listed) items where "convert_items ul 0 items = Inr (ms, w)" "items = [r] \<or> unmarshal_array r = Some (Some items)"
    using assms(1) Some by (auto simp: convertInput_def is_null_def split: if_splits option.splits sum.splits)
  then show ?thesis
  proof cases
    case missing
    then show ?thesis by simp
  next
    case plain
    then show ?thesis by (simp add: message_ok_def text_message_def)
  next
    case listed
    have "\<forall>x \<in> set items. raw_ok x"
      using listed(2) r raw_ok_elements by (auto simp: unmarshal_array_def split: raw.splits)
    then show ?thesis using convert_items_ok [OF listed(1)] by blast
  qed
qed

lemma all_messages_ok:
  assumes "all_messages ul fs = Inr (ms, w)" "fields_raw_ok fs"
  shows "ms \<noteq> [] \<and> list_all message_ok ms"
proof -
  obtain ns system where n: "convertInput ul fs = Inr (ns, w)" "convertInstructions (map_of fs ''instructions'') = Inr system"
    "ms = (case system of None \<Rightarrow> ns | Some m \<Rightarrow> m # ns)" "ms \<noteq> []"
    using assms(1) by (auto simp: all_messages_def Let_def split: if_splits)
  have "case system of None \<Rightarrow> True | Some m \<Rightarrow> message_ok m"
    using n(2) by (auto simp: convertInstructions_def message_ok_def text_message_def split: option.splits if_splits)
  then show ?thesis using n(3,4) convertInput_ok [OF n(1) assms(2)] by (auto split: option.splits)
qed

subsection \<open>The parsed request\<close>

lemma parsed_request:
  assumes "Parse ul body = Inr r"
  obtains fs ns chat1 chat2 chat3 chat4 chat5 chat6 w where "decodeObject body = Inr fs" "fields_raw_ok fs"
    "all_messages ul fs = Inr (rqMessages r, w)" "mapTools fs [] = Inr (ns, chat1)"
    "mapToolChoice fs chat1 ns = Inr chat2" "mapParallelToolCalls fs chat2 (ns \<noteq> []) = Inr chat3"
    "mapMaxOutputTokens fs (mapReasoning fs chat3) = Inr chat4"
    "mapStreamOptions fs (mapSamplingParameters fs chat4) (rqStream r) = Inr chat5" "mapTextFormat fs chat5 = Inr chat6"
    "rqChatFields r = AList.update ''stream'' (RBool (rqStream r)) chat6"
    "NormalizeToolChoice (map_of fs ''tool_choice'') ns ''tool_choice'' = Inr (rqToolChoice r)"
    "rqToolChoiceSet r \<longleftrightarrow> \<not> isJSONNull (map_of fs ''tool_choice'')"
    "NormalizeTools (map_of fs ''tools'') ToolFormatResponses ''tools'' = Inr (rqTools r)"
proof -
  obtain fs where f: "decodeObject body = Inr fs" "parse_request_fields ul fs = Inr r"
    using assms by (auto simp: Parse_def split: if_splits)
  have compat: "\<And>x v. lift_compat x = Inr v \<longleftrightarrow> x = Inr v" by (auto simp: lift_compat_def split: sum.splits)
  from f(2) show ?thesis
    unfolding parse_request_fields_def
    by (clarsimp simp: compat split: prod.splits) (rule that [OF f(1) decoded_ok [OF f(1)]]; simp)
qed

lemma chat_fields_ok:
  assumes "Parse ul body = Inr r"
  shows "body_names (rqChatFields r)" "map_of (rqChatFields r) ''stream'' = Some (RBool (rqStream r))"
proof -
  obtain fs ns chat1 chat2 chat3 chat4 chat5 chat6 where p: "mapTools fs [] = Inr (ns, chat1)"
    "mapToolChoice fs chat1 ns = Inr chat2" "mapParallelToolCalls fs chat2 (ns \<noteq> []) = Inr chat3"
    "mapMaxOutputTokens fs (mapReasoning fs chat3) = Inr chat4"
    "mapStreamOptions fs (mapSamplingParameters fs chat4) (rqStream r) = Inr chat5" "mapTextFormat fs chat5 = Inr chat6"
    "rqChatFields r = AList.update ''stream'' (RBool (rqStream r)) chat6"
    by (rule parsed_request [OF assms])
  have "body_names []" by (simp add: body_names_def fields_ok_def)
  note mapTools_names [OF p(1) this]
  note mapToolChoice_names [OF p(2) this]
  note mapParallel_names [OF p(3) this]
  note mapMaxOutputTokens_names [OF p(4) mapReasoning_names [OF this]]
  note mapStreamOptions_names [OF p(5) body_names_sampling [OF this]]
  note mapTextFormat_names [OF p(6) this]
  then show "body_names (rqChatFields r)" "map_of (rqChatFields r) ''stream'' = Some (RBool (rqStream r))"
    using p(7) body_names_update by simp_all
qed

subsection \<open>The body\<close>

lemma with_tools_names: "body_names (rqChatFields r) \<Longrightarrow> body_names (with_tools r)"
  by (auto simp: with_tools_def Let_def intro!: body_names_update split: option.splits)

lemma strip_names: "body_names fs \<Longrightarrow> body_names (StripReasoning fs)"
  by (simp add: StripReasoning_def reasoningAliasFields_def body_names_delete)

lemma apply_shape:
  assumes "ApplyReasoning ul fs d p = (None, fs')"
  obtains "fs' = fs" "\<not> decRequested d"
    | k v where "k \<in> set reasoningAliasFields" "fs' = AList.update k v (StripReasoning fs)" "decRequested d"
  using assms alias_names unfolding ApplyReasoning_def Let_def by (auto split: if_splits)

lemma alias_known: "k \<in> set reasoningAliasFields \<Longrightarrow> k \<in> chatNames"
  by (auto simp: reasoningAliasFields_def)

lemma with_reasoning_shape:
  assumes "with_reasoning ul spec m auto chat = Inr chat'"
  obtains (same) "chat' = chat"
    | (strip) "chat' = StripReasoning chat"
    | (written) k v where "k \<in> set reasoningAliasFields" "chat' = AList.update k v (StripReasoning chat)"
  using assms unfolding with_reasoning_def Let_def
  by (auto split: if_splits option.splits sum.splits prod.splits elim!: apply_shape)

lemma with_reasoning_other:
  assumes "with_reasoning ul spec m auto chat = Inr chat'"
  shows "body_names chat \<Longrightarrow> body_names chat'" "k \<notin> set reasoningAliasFields \<Longrightarrow> map_of chat' k = map_of chat k"
  using assms by (cases rule: with_reasoning_shape; auto simp: strip_names strip_fields body_names_update alias_known)+

lemma resolve_requested: "ResolveReasoning spec p = Inr d \<Longrightarrow> specRequested spec \<Longrightarrow> decRequested d"
  by (auto simp: ResolveReasoning_def Let_def split: if_splits)

definition reasoning_consistent :: "reasoningSpec \<Rightarrow> routedModel \<Rightarrow> fields \<Rightarrow> bool" where
  "reasoning_consistent spec m fs \<longleftrightarrow>
     (if cmSupportsReasoning m then specRequested spec \<longrightarrow> (\<exists>!k. k \<in> set reasoningAliasFields \<and> map_of fs k \<noteq> None)
      else specRequested spec \<and> \<not> RequiresReasoning spec \<longrightarrow> (\<forall>k \<in> set reasoningAliasFields. map_of fs k = None))"

lemma with_reasoning_consistent:
  assumes "with_reasoning ul spec m auto chat = Inr chat'"
  shows "reasoning_consistent spec m chat'"
proof (cases "cmSupportsReasoning m \<and> specRequested spec")
  case True
  then obtain d where d: "ResolveReasoning spec (ReasoningProfile m) = Inr d" "ApplyReasoning ul chat d (ReasoningProfile m) = (None, chat')"
    using assms by (auto simp: with_reasoning_def Let_def split: sum.splits prod.splits option.splits)
  then obtain k v where "k \<in> set reasoningAliasFields" "chat' = AList.update k v (StripReasoning chat)"
    using apply_shape [OF d(2)] resolve_requested [OF d(1)] True by blast
  then show ?thesis using one_alias [of k v chat] True by (simp add: reasoning_consistent_def)
next
  case False
  then show ?thesis using assms
    by (auto simp: reasoning_consistent_def with_reasoning_def Let_def strip_fields split: if_splits)
qed

lemma body_shape:
  assumes "MarshalForWithOptions ul r m auto = Inr fs"
  obtains chat where "with_reasoning ul (rqReasoning r) m auto (with_tools r) = Inr chat"
    "fs = AList.update ''messages'' (RArray (map marshal_message (rqMessages r)))
              (AList.update ''model'' (marshal_string (cmUpstreamID m)) chat)"
  using assms by (auto simp: MarshalForWithOptions_def split: if_splits)

text \<open>C18: An accepted Responses request for a model it may use becomes a chat body that has only fields of the chat API, none
  of them twice, the identifier of the upstream model, the stream flag of the request, and at least one message, all with a
  role and fields that belong together and arguments of calls in JSON. When reasoning was requested of a model that has it there is
  exactly one reasoning field, when it was switched off for a model without it there is none.\<close>

theorem responses_body_ok:
  assumes "Parse ul body = Inr r" "MarshalForWithOptions ul r m auto = Inr fs"
  shows "distinct (map fst fs) \<and> names fs \<subseteq> insert ''model'' (insert ''messages'' chatNames)
    \<and> map_of fs ''model'' = Some (marshal_string (cmUpstreamID m))
    \<and> map_of fs ''stream'' = Some (RBool (rqStream r))
    \<and> map_of fs ''messages'' = Some (RArray (map marshal_message (rqMessages r)))
    \<and> rqMessages r \<noteq> [] \<and> list_all message_ok (rqMessages r)
    \<and> reasoning_consistent (rqReasoning r) m fs"
proof -
  obtain chat where c: "with_reasoning ul (rqReasoning r) m auto (with_tools r) = Inr chat"
    "fs = AList.update ''messages'' (RArray (map marshal_message (rqMessages r)))
              (AList.update ''model'' (marshal_string (cmUpstreamID m)) chat)"
    by (rule body_shape [OF assms(2)])
  have n: "body_names chat"
    using with_reasoning_other(1) [OF c(1)] with_tools_names chat_fields_ok(1) [OF assms(1)] by blast
  have s: "map_of chat ''stream'' = Some (RBool (rqStream r))"
    using with_reasoning_other(2) [OF c(1), of "''stream''"] chat_fields_ok(2) [OF assms(1)]
    by (simp add: reasoningAliasFields_def with_tools_def Let_def split: option.splits)
  have a: "map_of fs k = map_of chat k" if "k \<in> set reasoningAliasFields" for k
    using that c(2) by (auto simp: reasoningAliasFields_def)
  have e: "(k \<in> set reasoningAliasFields \<and> map_of fs k \<noteq> None) = (k \<in> set reasoningAliasFields \<and> map_of chat k \<noteq> None)" for k
    using a by auto
  have "reasoning_consistent (rqReasoning r) m fs"
    using with_reasoning_consistent [OF c(1)] a unfolding reasoning_consistent_def e
    by (cases "cmSupportsReasoning m") simp_all
  moreover have "rqMessages r \<noteq> [] \<and> list_all message_ok (rqMessages r)"
    by (rule parsed_request [OF assms(1)]) (rule all_messages_ok)
  moreover have "fields_ok fs" "names fs \<subseteq> insert ''model'' (insert ''messages'' chatNames)"
    using n c(2) by (auto simp: body_names_def dom_update)
  ultimately show ?thesis using c(2) s by (simp add: fields_ok_def)
qed

subsection \<open>A choice without tools\<close>

lemma copy_tools: "k \<noteq> ''tools'' \<Longrightarrow> map_of (copy_field k fs chat) ''tools'' = map_of chat ''tools''"
  by (simp add: copy_field_def)

lemma sampling_tools: "map_of (mapSamplingParameters fs chat) ''tools'' = map_of chat ''tools''"
proof -
  have "''tools'' \<notin> set ws \<Longrightarrow> map_of (fold (\<lambda>name. copy_field name fs) ws chat) ''tools'' = map_of chat ''tools''" for ws
    by (induction ws arbitrary: chat) (auto simp: copy_tools)
  moreover have "''tools'' \<notin> set samplingFields" by (simp add: samplingFields_def)
  ultimately show ?thesis by (simp add: mapSamplingParameters_def)
qed

lemma tools_kept:
  "mapToolChoice fs chat ns = Inr chat' \<Longrightarrow> map_of chat' ''tools'' = map_of chat ''tools''"
  "mapParallelToolCalls fs chat b = Inr chat' \<Longrightarrow> map_of chat' ''tools'' = map_of chat ''tools''"
  "map_of (mapReasoning fs chat) ''tools'' = map_of chat ''tools''"
  "mapMaxOutputTokens fs chat = Inr chat' \<Longrightarrow> map_of chat' ''tools'' = map_of chat ''tools''"
  "mapStreamOptions fs chat stream = Inr chat' \<Longrightarrow> map_of chat' ''tools'' = map_of chat ''tools''"
  "mapTextFormat fs chat = Inr chat' \<Longrightarrow> map_of chat' ''tools'' = map_of chat ''tools''"
proof -
  show "mapToolChoice fs chat ns = Inr chat' \<Longrightarrow> map_of chat' ''tools'' = map_of chat ''tools''"
    by (auto simp: mapToolChoice_def split: option.splits sum.splits if_splits)
  show "mapParallelToolCalls fs chat b = Inr chat' \<Longrightarrow> map_of chat' ''tools'' = map_of chat ''tools''"
    by (auto simp: mapParallelToolCalls_def Let_def split: if_splits)
  show "map_of (mapReasoning fs chat) ''tools'' = map_of chat ''tools''"
    by (auto simp: mapReasoning_def Let_def copy_tools split: option.splits)
  show "mapMaxOutputTokens fs chat = Inr chat' \<Longrightarrow> map_of chat' ''tools'' = map_of chat ''tools''"
    by (auto simp: mapMaxOutputTokens_def split: option.splits if_splits)
  show "mapStreamOptions fs chat stream = Inr chat' \<Longrightarrow> map_of chat' ''tools'' = map_of chat ''tools''"
    by (auto simp: mapStreamOptions_def Let_def split: option.splits if_splits)
  show "mapTextFormat fs chat = Inr chat' \<Longrightarrow> map_of chat' ''tools'' = map_of chat ''tools''"
    by (auto simp: mapTextFormat_def Let_def split: option.splits if_splits)
qed

text \<open>A request without tools whose choice is \<open>auto\<close> is sent with that choice and without tools, although the mapping of
  the choice drops it.\<close>

theorem tool_choice_without_tools:
  assumes "decodeObject body = Inr fs" "map_of fs ''tools'' = None" "map_of fs ''tool_choice'' = Some (RString u)" "unquote u = ''auto''"
    "Parse ul body = Inr r" "MarshalForWithOptions ul r m auto = Inr chat"
  shows "mapToolChoice fs [] [] = Inr [] \<and> rqTools r = [] \<and> map_of chat ''tools'' = None
    \<and> map_of chat ''tool_choice'' = Some (marshal_string ''auto'')"
proof -
  obtain fs' ns chat1 chat2 chat3 chat4 chat5 chat6 where p: "decodeObject body = Inr fs'" "mapTools fs' [] = Inr (ns, chat1)"
    "mapToolChoice fs' chat1 ns = Inr chat2" "mapParallelToolCalls fs' chat2 (ns \<noteq> []) = Inr chat3"
    "mapMaxOutputTokens fs' (mapReasoning fs' chat3) = Inr chat4"
    "mapStreamOptions fs' (mapSamplingParameters fs' chat4) (rqStream r) = Inr chat5" "mapTextFormat fs' chat5 = Inr chat6"
    "rqChatFields r = AList.update ''stream'' (RBool (rqStream r)) chat6"
    "NormalizeToolChoice (map_of fs' ''tool_choice'') ns ''tool_choice'' = Inr (rqToolChoice r)"
    "rqToolChoiceSet r \<longleftrightarrow> \<not> isJSONNull (map_of fs' ''tool_choice'')"
    "NormalizeTools (map_of fs' ''tools'') ToolFormatResponses ''tools'' = Inr (rqTools r)"
    by (rule parsed_request [OF assms(5)])
  have f: "fs' = fs" using p(1) assms(1) by simp
  have r: "rqTools r = []" using p(11) assms(2) f by (simp add: NormalizeTools_def)
  have c: "rqToolChoice r = \<lparr>choiceMode = ''auto'', choiceName = []\<rparr>" "rqToolChoiceSet r"
    using p(9,10) assms(3,4) f by (auto simp: NormalizeToolChoice_def is_null_def unmarshal_string_def isJSONNull_def)
  have w: "map_of (with_tools r) ''tool_choice'' = Some (marshal_string ''auto'')"
    by (simp add: with_tools_def r c MarshalToolChoice_def)
  have "chat1 = []" using p(2) assms(2) f by (simp add: mapTools_def)
  then have "map_of (rqChatFields r) ''tools'' = None"
    using tools_kept(1) [OF p(3)] tools_kept(2) [OF p(4)] tools_kept(4) [OF p(5)] tools_kept(5) [OF p(6)] tools_kept(6) [OF p(7)] p(8)
    by (simp add: tools_kept(3) sampling_tools)
  then have t: "map_of (with_tools r) ''tools'' = None"
    by (simp add: with_tools_def r c MarshalToolChoice_def)
  obtain out where o: "with_reasoning ul (rqReasoning r) m auto (with_tools r) = Inr out"
    "chat = AList.update ''messages'' (RArray (map marshal_message (rqMessages r)))
              (AList.update ''model'' (marshal_string (cmUpstreamID m)) out)"
    by (rule body_shape [OF assms(6)])
  have "map_of out ''tools'' = None" "map_of out ''tool_choice'' = Some (marshal_string ''auto'')"
    using with_reasoning_other(2) [OF o(1)] t w by (simp_all add: reasoningAliasFields_def)
  moreover have "mapToolChoice fs [] [] = Inr []"
    using assms(3,4) by (simp add: mapToolChoice_def is_null_def unmarshal_string_def)
  ultimately show ?thesis using o(2) r by simp
qed

definition sample_model :: routedModel where
  "sample_model =
     \<lparr>cmID = 1, cmPublicID = ''m'', cmUpstreamID = ''u/m'', cmKind = KindChat, cmProvider = ''nvidia'', cmEnabled = True,
      cmSupportsVision = False, cmSupportsTools = True, cmSupportsReasoning = False, cmReasoningWireFormat = [],
      cmReasoningLevels = [], cmReasoningMinBudget = 0, cmReasoningMaxBudget = 0, cmReasoningZeroAllowed = True,
      cmReasoningDynamicAllowed = True\<rparr>"

definition sample_body :: string where
  "sample_body = ''{\"model\":\"m\",\"input\":\"hi\",\"tool_choice\":\"auto\"}''"

lemma sample_decoded: "decodeObject sample_body = Inr [(''model'', RString ''m''), (''input'', RString ''hi''), (''tool_choice'', RString ''auto'')]"
  by code_simp

definition sample_request :: responsesRequest where
  "sample_request =
     \<lparr>rqPublicModelID = ''m'', rqStream = False, rqMessages = [text_message ''user'' ''hi''],
      rqChatFields = [(''stream'', RBool False)],
      rqConfig = \<lparr>cfgInstructions = [], cfgMaxOutputTokens = [], cfgParallelToolCalls = [], cfgReasoning = [], cfgTemperature = [],
        cfgText = [], cfgToolChoice = ''\"auto\"'', cfgTools = [], cfgTopP = [], cfgUser = []\<rparr>,
      rqRequirements = \<lparr>reqVision = False, reqTools = False, reqReasoning = False\<rparr>,
      rqTools = [], rqToolChoice = \<lparr>choiceMode = ''auto'', choiceName = []\<rparr>, rqToolChoiceSet = True, rqReasoning = no_spec\<rparr>"

abbreviation (input) "sample_fields \<equiv> [(''model'', RString ''m''), (''input'', RString ''hi''), (''tool_choice'', RString ''auto'')]"

lemma sample_fields_parsed: "parse_request_fields id sample_fields = Inr sample_request"
  by code_simp

lemma sample_short: "\<not> length sample_body > maxResponsesBytes"
  by (simp add: sample_body_def maxResponsesBytes_def)

lemma sample_parsed: "Parse id sample_body = Inr sample_request"
  unfolding Parse_def sample_decoded by (simp add: sample_short sample_fields_parsed and_then_def)

definition sample_chat :: fields where
  "sample_chat =
     [(''stream'', RBool False), (''tool_choice'', RString ''auto''), (''model'', RString ''u/m''),
      (''messages'', RArray [marshal_message (text_message ''user'' ''hi'')])]"

lemma sample_marshalled: "MarshalForWithOptions id sample_request sample_model False = Inr sample_chat"
  by code_simp

theorem responses_body_ok_witness:
  "map_of sample_chat ''messages'' = Some (RArray (map marshal_message (rqMessages sample_request))) \<and> rqMessages sample_request \<noteq> []"
  using responses_body_ok [OF sample_parsed sample_marshalled] by blast

theorem tool_choice_without_tools_witness:
  "rqTools sample_request = [] \<and> map_of sample_chat ''tools'' = None
    \<and> map_of sample_chat ''tool_choice'' = Some (marshal_string ''auto'')"
proof -
  have c: "map_of sample_fields ''tools'' = None" "map_of sample_fields ''tool_choice'' = Some (RString ''auto'')" "unquote ''auto'' = ''auto''"
    by code_simp+
  show ?thesis
    using tool_choice_without_tools [OF sample_decoded c sample_parsed sample_marshalled] by blast
qed

end
