(* ===== verification/Chat_Request.thy ===== *)
theory Chat_Request
  imports Responses_Request Password_Hash
begin

text \<open>
  \<open>internal/protocol/chat\<close>: a chat request is validated, its messages and tools are normalized, and it is
  written for the model it resolves to, or passed on as it came when nothing changes. The scanner of
  \<open>image.go\<close> walks over a message array that \<open>encoding/json\<close> has already accepted, so it is modelled on the
  syntax tree it walks over: members with their order and duplicates, texts as the scanner reads them
  (\<open>scanned\<close>). \<open>decodeFields\<close>, \<open>requiredModel\<close>, \<open>isJSONNull\<close>, \<open>compatRequestError\<close>, \<open>stringValue\<close> and \<open>marshalFields\<close> are the
  functions of the same meaning modelled for the Responses API. What \<open>strings.ToLower\<close> does outside ASCII,
  \<open>strconv.ParseFloat\<close> and \<open>url.ParseRequestURI\<close> are the parameters of type \<open>goLibrary\<close>.
\<close>

record requestURI =
  uriScheme :: string
  uriHost :: string
  uriHasUser :: bool

record goLibrary =
  libToLower :: "string \<Rightarrow> string"
  libParseFloat :: "string \<Rightarrow> rat option"
  libParseURI :: "string \<Rightarrow> requestURI option"

subsection \<open>Rules\<close>

definition invalidRequest :: "string \<Rightarrow> string \<Rightarrow> string \<Rightarrow> requestError" where
  "invalidRequest code param message = InvalidRequest code (if param = [] then None else Some param) message"

definition rejectUnsupported :: "fields \<Rightarrow> requestError option" where
  "rejectUnsupported fs =
     (case map_of fs ''store'' of
        None \<Rightarrow> None
      | Some r \<Rightarrow>
          (case unmarshal_bool_ptr r of
             Some (Some b) \<Rightarrow> if b then Some (invalidRequest ''unsupported_parameter'' ''store'' ''Stored responses are not supported.'') else None
           | _ \<Rightarrow> Some (bad_parameter ''store'' ''The store parameter must be a boolean.'')))"

definition reasoningModelError :: "compatError \<Rightarrow> requestError" where
  "reasoningModelError e = (if is_unsupported e then ModelCapability else compatRequestError e)"

subsection \<open>What the scanner reads\<close>

text \<open>A literal without escapes is taken as it stands.\<close>

definition scanned :: "string \<Rightarrow> string" where
  "scanned u = (if CHR 0x5C \<in> set u then unquote u else u)"

record jsonString =
  jsPresent :: bool
  jsValid :: bool
  jsValue :: string

record imageURLObject =
  iuPresent :: bool
  iuValid :: bool
  iuURL :: jsonString
  iuAlias :: bool

record contentPart =
  cpValid :: bool
  cpType :: jsonString
  cpTypeAlias :: bool
  cpImage :: imageURLObject
  cpImageAlias :: bool

datatype contentKind = ContentNull | ContentText | ContentParts

record messageContent =
  mcPresent :: bool
  mcValid :: bool
  mcKind :: contentKind
  mcParts :: "contentPart list"

record jsonArray =
  jaPresent :: bool
  jaValid :: bool
  jaLength :: nat

record parsedMessage =
  pmValid :: bool
  pmRole :: jsonString
  pmRoleAlias :: bool
  pmContent :: messageContent
  pmContentAlias :: bool
  pmToolCalls :: jsonArray
  pmToolCallsAlias :: bool

record namedFunction =
  nfPresent :: bool
  nfValid :: bool
  nfName :: jsonString
  nfNameAlias :: bool

record parsedTool =
  ptValid :: bool
  ptType :: jsonString
  ptTypeAlias :: bool
  ptFunction :: namedFunction
  ptFunctionAlias :: bool

definition absent_string :: jsonString where "absent_string = \<lparr>jsPresent = False, jsValid = False, jsValue = []\<rparr>"
definition absent_image :: imageURLObject where
  "absent_image = \<lparr>iuPresent = False, iuValid = False, iuURL = absent_string, iuAlias = False\<rparr>"
definition empty_part :: contentPart where
  "empty_part = \<lparr>cpValid = False, cpType = absent_string, cpTypeAlias = False, cpImage = absent_image, cpImageAlias = False\<rparr>"
definition absent_content :: messageContent where
  "absent_content = \<lparr>mcPresent = False, mcValid = False, mcKind = ContentNull, mcParts = []\<rparr>"
definition absent_array :: jsonArray where "absent_array = \<lparr>jaPresent = False, jaValid = False, jaLength = 0\<rparr>"
definition empty_parsed :: parsedMessage where
  "empty_parsed = \<lparr>pmValid = False, pmRole = absent_string, pmRoleAlias = False, pmContent = absent_content, pmContentAlias = False,
     pmToolCalls = absent_array, pmToolCallsAlias = False\<rparr>"
definition absent_function :: namedFunction where
  "absent_function = \<lparr>nfPresent = False, nfValid = False, nfName = absent_string, nfNameAlias = False\<rparr>"
definition empty_tool :: parsedTool where
  "empty_tool = \<lparr>ptValid = False, ptType = absent_string, ptTypeAlias = False, ptFunction = absent_function, ptFunctionAlias = False\<rparr>"

definition readJSONString :: "raw \<Rightarrow> jsonString" where
  "readJSONString r =
     (case r of RString u \<Rightarrow> \<lparr>jsPresent = True, jsValid = True, jsValue = scanned u\<rparr>
      | _ \<Rightarrow> \<lparr>jsPresent = True, jsValid = False, jsValue = []\<rparr>)"

definition readJSONArray :: "raw \<Rightarrow> jsonArray" where
  "readJSONArray r =
     (case r of RArray vs \<Rightarrow> \<lparr>jaPresent = True, jaValid = True, jaLength = length vs\<rparr>
      | _ \<Rightarrow> \<lparr>jaPresent = True, jaValid = False, jaLength = 0\<rparr>)"

definition duplicateJSONField :: "string \<Rightarrow> requestError" where
  "duplicateJSONField param = bad_parameter param ''Known request fields must not be repeated.''"

text \<open>The members of an object one after another, up to the first error.\<close>

fun walk :: "('a \<Rightarrow> string \<Rightarrow> raw \<Rightarrow> requestError + 'a) \<Rightarrow> (string \<times> raw) list \<Rightarrow> 'a \<Rightarrow> requestError + 'a" where
  "walk f [] a = Inr a"
| "walk f ((k, v) # ms) a = and_then (f a (scanned k) v) (walk f ms)"

text \<open>\<open>strings.EqualFold\<close> with a lower-case ASCII word.\<close>

abbreviation alias_of :: "string \<Rightarrow> string \<Rightarrow> bool" where "alias_of name key \<equiv> field_is name key"

subsubsection \<open>Images\<close>

definition image_field :: "string \<Rightarrow> imageURLObject \<Rightarrow> string \<Rightarrow> raw \<Rightarrow> requestError + imageURLObject" where
  "image_field partParam img key v =
     (if key \<noteq> ''url'' then Inr (img\<lparr>iuAlias := iuAlias img \<or> alias_of ''url'' key\<rparr>)
      else if jsPresent (iuURL img) then Inl (duplicateJSONField (partParam @ ''.image_url.url''))
      else Inr (img\<lparr>iuURL := readJSONString v\<rparr>))"

definition parseImageURLObject :: "string \<Rightarrow> raw \<Rightarrow> requestError + imageURLObject" where
  "parseImageURLObject partParam r =
     (case r of RObject ms \<Rightarrow> walk (image_field partParam) ms (absent_image\<lparr>iuPresent := True, iuValid := True\<rparr>)
      | _ \<Rightarrow> Inr (absent_image\<lparr>iuPresent := True\<rparr>))"

definition parseContentPartField :: "string \<Rightarrow> contentPart \<Rightarrow> string \<Rightarrow> raw \<Rightarrow> requestError + contentPart" where
  "parseContentPartField param part key v =
     (if key = ''type'' then
        (if jsPresent (cpType part) then Inl (duplicateJSONField (param @ ''.type'')) else Inr (part\<lparr>cpType := readJSONString v\<rparr>))
      else if key = ''image_url'' then
        (if iuPresent (cpImage part) then Inl (duplicateJSONField (param @ ''.image_url''))
         else and_then (parseImageURLObject param v) (\<lambda>img. Inr (part\<lparr>cpImage := img\<rparr>)))
      else Inr (part\<lparr>cpTypeAlias := cpTypeAlias part \<or> alias_of ''type'' key,
                     cpImageAlias := cpImageAlias part \<or> alias_of ''image_url'' key\<rparr>))"

definition parseContentPart :: "string \<Rightarrow> raw \<Rightarrow> requestError + contentPart" where
  "parseContentPart param r =
     (case r of RObject ms \<Rightarrow> walk (parseContentPartField param) ms (empty_part\<lparr>cpValid := True\<rparr>) | _ \<Rightarrow> Inr empty_part)"

fun parse_parts :: "string \<Rightarrow> nat \<Rightarrow> raw list \<Rightarrow> requestError + contentPart list" where
  "parse_parts param i [] = Inr []"
| "parse_parts param i (r # rs) =
     and_then (parseContentPart (indexed param i) r) (\<lambda>p. and_then (parse_parts param (Suc i) rs) (\<lambda>ps. Inr (p # ps)))"

definition parseMessageContent :: "nat \<Rightarrow> raw \<Rightarrow> requestError + messageContent" where
  "parseMessageContent i r =
     (case r of
        RNull \<Rightarrow> Inr (absent_content\<lparr>mcPresent := True, mcValid := True\<rparr>)
      | RString _ \<Rightarrow> Inr (absent_content\<lparr>mcPresent := True, mcValid := True, mcKind := ContentText\<rparr>)
      | RArray rs \<Rightarrow>
          and_then (parse_parts (indexed ''messages'' i @ ''.content'') 0 rs)
            (\<lambda>ps. Inr (absent_content\<lparr>mcPresent := True, mcValid := True, mcKind := ContentParts, mcParts := ps\<rparr>))
      | _ \<Rightarrow> Inr (absent_content\<lparr>mcPresent := True\<rparr>))"

definition markMessageAlias :: "parsedMessage \<Rightarrow> string \<Rightarrow> parsedMessage" where
  "markMessageAlias m key =
     (if alias_of ''role'' key then m\<lparr>pmRoleAlias := True\<rparr>
      else if alias_of ''content'' key then m\<lparr>pmContentAlias := True\<rparr>
      else if alias_of ''tool_calls'' key then m\<lparr>pmToolCallsAlias := True\<rparr> else m)"

definition parseMessageField :: "nat \<Rightarrow> parsedMessage \<Rightarrow> string \<Rightarrow> raw \<Rightarrow> requestError + parsedMessage" where
  "parseMessageField i m key v =
     (if key = ''role'' then
        (if jsPresent (pmRole m) then Inl (duplicateJSONField (indexed ''messages'' i @ ''.role''))
         else Inr (m\<lparr>pmRole := readJSONString v\<rparr>))
      else if key = ''content'' then
        (if mcPresent (pmContent m) then Inl (duplicateJSONField (indexed ''messages'' i @ ''.content''))
         else and_then (parseMessageContent i v) (\<lambda>c. Inr (m\<lparr>pmContent := c\<rparr>)))
      else if key = ''tool_calls'' then
        (if jaPresent (pmToolCalls m) then Inl (duplicateJSONField (indexed ''messages'' i @ ''.tool_calls''))
         else Inr (m\<lparr>pmToolCalls := readJSONArray v\<rparr>))
      else Inr (markMessageAlias m key))"

definition parseMessage :: "nat \<Rightarrow> raw \<Rightarrow> requestError + parsedMessage" where
  "parseMessage i r =
     (case r of RObject ms \<Rightarrow> walk (parseMessageField i) ms (empty_parsed\<lparr>pmValid := True\<rparr>) | _ \<Rightarrow> Inr empty_parsed)"

subsubsection \<open>Data URLs\<close>

definition maxDecodedImageBytes :: nat where "maxDecodedImageBytes = 20971520"

definition supportedImageDataPrefixes :: "string list" where
  "supportedImageDataPrefixes =
     [''data:image/png;base64'', ''data:image/jpeg;base64'', ''data:image/webp;base64'', ''data:image/gif;base64'']"

definition invalidImageData :: "string \<Rightarrow> requestError" where
  "invalidImageData param =
     invalidRequest ''invalid_image_data'' param ''Data images must use a supported MIME type and strict Base64 encoding.''"

definition validBase64Alphabet :: "string \<Rightarrow> nat \<Rightarrow> bool" where
  "validBase64Alphabet encoded padding =
     (let dataEnd = length encoded - padding
      in list_all (\<lambda>c. c = CHR ''='') (drop dataEnd encoded)
         \<and> list_all (\<lambda>c. 65 \<le> code_of c \<and> code_of c \<le> 90 \<or> 97 \<le> code_of c \<and> code_of c \<le> 122
               \<or> 48 \<le> code_of c \<and> code_of c \<le> 57 \<or> c = CHR ''+'' \<or> c = CHR ''/'') (take dataEnd encoded))"

definition strictBase64DecodedLength :: "string \<Rightarrow> nat option" where
  "strictBase64DecodedLength encoded =
     (if encoded = [] \<or> length encoded mod 4 \<noteq> 0 then None
      else
        let padding = length (takeWhile (\<lambda>c. c = CHR ''='') (rev encoded))
        in if padding > 2 \<or> \<not> validBase64Alphabet encoded padding then None
           else Some (length encoded div 4 * 3 - padding))"

text \<open>\<open>base64.StdEncoding.Strict()\<close>: line breaks are skipped, the padding is required, and the unused bits are zero.\<close>

definition std_decode_padded :: "string \<Rightarrow> string option" where
  "std_decode_padded s =
     (let t = filter (\<lambda>c. c \<noteq> CHR 0x0A \<and> c \<noteq> CHR 0x0D) s;
          body = takeWhile (\<lambda>c. c \<noteq> CHR ''='') t; pad = dropWhile (\<lambda>c. c \<noteq> CHR ''='') t
      in if length t mod 4 = 0 \<and> length pad \<le> 2 \<and> list_all (\<lambda>c. c = CHR ''='') pad then std_decode_strict body else None)"

definition validateDataImage :: "string \<Rightarrow> string \<Rightarrow> requestError option" where
  "validateDataImage source param =
     (let metadata = takeWhile (\<lambda>c. c \<noteq> CHR '','') source; encoded = tl (dropWhile (\<lambda>c. c \<noteq> CHR '','') source)
      in if CHR '','' \<notin> set source then Some (invalidImageData param)
         else if metadata \<notin> set supportedImageDataPrefixes then Some (invalidImageData param)
         else case strictBase64DecodedLength encoded of
           None \<Rightarrow> Some (invalidImageData param)
         | Some n \<Rightarrow>
             if n = 0 then Some (invalidImageData param)
             else if n > maxDecodedImageBytes
             then Some (invalidRequest ''image_too_large'' param ''A decoded image exceeds the 20 MiB limit.'')
             else if std_decode_padded encoded = None then Some (invalidImageData param) else None)"

definition validateImageSource :: "goLibrary \<Rightarrow> string \<Rightarrow> string \<Rightarrow> requestError option" where
  "validateImageSource lib source param =
     (if prefix ''data:'' source then validateDataImage source param
      else
        let refused = Some (invalidRequest ''invalid_image_url'' param ''Remote images must use an HTTPS URL without credentials.'')
        in case libParseURI lib source of
             None \<Rightarrow> refused
           | Some u \<Rightarrow> if uriScheme u \<noteq> ''https'' \<or> uriHost u = [] \<or> uriHasUser u then refused else None)"

definition validateImagePart :: "goLibrary \<Rightarrow> imageURLObject \<Rightarrow> string \<Rightarrow> requestError option" where
  "validateImagePart lib img param =
     (if \<not> iuPresent img
      then Some (invalidRequest ''missing_required_parameter'' (param @ ''.image_url'') ''An image_url content part must include image_url.'')
      else if \<not> iuValid img then Some (bad_parameter (param @ ''.image_url'') ''The image_url parameter must be an object.'')
      else if \<not> jsPresent (iuURL img)
      then Some (invalidRequest ''missing_required_parameter'' (param @ ''.image_url.url'') ''An image URL is required.'')
      else if iuAlias img \<or> \<not> jsValid (iuURL img) \<or> jsValue (iuURL img) = []
      then Some (bad_parameter (param @ ''.image_url.url'') ''The image URL must be a non-empty string.'')
      else validateImageSource lib (jsValue (iuURL img)) (param @ ''.image_url.url''))"

subsection \<open>Messages\<close>

fun validate_parts :: "goLibrary \<Rightarrow> string \<Rightarrow> nat \<Rightarrow> contentPart list \<Rightarrow> bool \<Rightarrow> requestError + bool" where
  "validate_parts lib param i [] hasImage = Inr hasImage"
| "validate_parts lib param i (part # ps) hasImage =
     (let partParam = indexed param i
      in if \<not> cpValid part then Inl (bad_parameter partParam ''Each message content part must be an object.'')
         else if \<not> jsPresent (cpType part)
         then Inl (invalidRequest ''missing_required_parameter'' (partParam @ ''.type'') ''Each message content part must include a type.'')
         else if cpTypeAlias part \<or> \<not> jsValid (cpType part) \<or> jsValue (cpType part) = []
         then Inl (bad_parameter (partParam @ ''.type'') ''The content part type must be a non-empty string.'')
         else if jsValue (cpType part) \<noteq> ''image_url'' then validate_parts lib param (Suc i) ps hasImage
         else if iuPresent (cpImage part) \<and> cpImageAlias part
         then Inl (bad_parameter (partParam @ ''.image_url'') ''The image_url field is ambiguous.'')
         else case validateImagePart lib (cpImage part) partParam of
           Some e \<Rightarrow> Inl e
         | None \<Rightarrow> validate_parts lib param (Suc i) ps True)"

definition validateContentParts :: "goLibrary \<Rightarrow> contentPart list \<Rightarrow> nat \<Rightarrow> requestError + bool" where
  "validateContentParts lib ps i = validate_parts lib (indexed ''messages'' i @ ''.content'') 0 ps False"

definition validateMessageContent :: "goLibrary \<Rightarrow> messageContent \<Rightarrow> nat \<Rightarrow> requestError + bool" where
  "validateMessageContent lib content i =
     (if \<not> mcPresent content then Inr False
      else if \<not> mcValid content
      then Inl (bad_parameter (indexed ''messages'' i @ ''.content'') ''Message content must be text, null, or an array of content parts.'')
      else if mcKind content \<noteq> ContentParts then Inr False
      else validateContentParts lib (mcParts content) i)"

definition validRoles :: "string list" where
  "validRoles = [''system'', ''developer'', ''user'', ''assistant'', ''tool'', ''function'']"

text \<open>Whether it has an image, and whether it needs tools.\<close>

definition validateMessage :: "goLibrary \<Rightarrow> parsedMessage \<Rightarrow> nat \<Rightarrow> requestError + (bool \<times> bool)" where
  "validateMessage lib m i =
     (let place = indexed ''messages'' i; role = jsValue (pmRole m)
      in if \<not> pmValid m then Inl (bad_parameter place ''Each message must be an object.'')
         else if \<not> jsPresent (pmRole m)
         then Inl (invalidRequest ''missing_required_parameter'' (place @ ''.role'') ''Each message must include a role.'')
         else if pmRoleAlias m \<or> \<not> jsValid (pmRole m)
         then Inl (bad_parameter (place @ ''.role'') ''The message role must be a supported string.'')
         else if role \<notin> set validRoles then Inl (bad_parameter (place @ ''.role'') ''The message role is not supported.'')
         else if pmContentAlias m then Inl (bad_parameter (place @ ''.content'') ''The content field is ambiguous.'')
         else if pmToolCallsAlias m then Inl (bad_parameter (place @ ''.tool_calls'') ''The tool_calls field is ambiguous.'')
         else if jaPresent (pmToolCalls m) \<and> \<not> jaValid (pmToolCalls m)
         then Inl (bad_parameter (place @ ''.tool_calls'') ''The tool_calls parameter must be an array.'')
         else and_then (validateMessageContent lib (pmContent m) i) (\<lambda>vision.
           Inr (vision, role = ''tool'' \<or> role = ''function'' \<or> role = ''assistant'' \<and> jaPresent (pmToolCalls m) \<and> jaLength (pmToolCalls m) > 0)))"

fun validate_messages :: "goLibrary \<Rightarrow> nat \<Rightarrow> raw list \<Rightarrow> bool \<times> bool \<Rightarrow> requestError + (bool \<times> bool)" where
  "validate_messages lib i [] found = Inr found"
| "validate_messages lib i (r # rs) found =
     and_then (parseMessage i r) (\<lambda>m. and_then (validateMessage lib m i) (\<lambda>(vision, tools).
       validate_messages lib (Suc i) rs (fst found \<or> vision, snd found \<or> tools)))"

definition validateMessages :: "goLibrary \<Rightarrow> fields \<Rightarrow> requestError + (bool \<times> bool)" where
  "validateMessages lib fs =
     (case map_of fs ''messages'' of
        None \<Rightarrow> Inl (invalidRequest ''missing_required_parameter'' ''messages'' ''The messages parameter is required.'')
      | Some (RArray (r # rs)) \<Rightarrow> validate_messages lib 0 (r # rs) (False, False)
      | Some _ \<Rightarrow> Inl (bad_parameter ''messages'' ''The messages parameter must be a non-empty array.''))"

text \<open>The search for the quoted names in the text of the messages.\<close>

definition contains :: "string \<Rightarrow> string \<Rightarrow> bool" where
  "contains s t \<longleftrightarrow> list_ex (\<lambda>n. prefix t (drop n s)) [0..<Suc (length s)]"

definition normalizationKeys :: "string list" where
  "normalizationKeys = [''\"tool_calls\"'', ''\"function_call\"'', ''\"tool_call_id\"'', ''\"call_id\"'', ''\"function\"'']"

definition needsChatMessageNormalization :: "raw \<Rightarrow> bool" where
  "needsChatMessageNormalization r = list_ex (contains (spell r)) normalizationKeys"

subsection \<open>Old forms of tool calls\<close>

text \<open>\<open>asObject\<close>: the nil map is \<open>None\<close>. A map is marshalled with its raw messages compacted and escaped.\<close>

definition asObject :: "raw option \<Rightarrow> fields option" where
  "asObject r = (case r of None \<Rightarrow> None | Some v \<Rightarrow> (case unmarshal_object v of Some (Some fs) \<Rightarrow> Some fs | _ \<Rightarrow> None))"

definition flat_function :: "fields \<Rightarrow> fields" where
  "flat_function item =
     (case map_of item ''name'' of None \<Rightarrow> [] | Some v \<Rightarrow> [(''name'', v)])
       @ (case map_of item ''arguments'' of None \<Rightarrow> [] | Some v \<Rightarrow> [(''arguments'', v)])"

definition call_id :: "fields \<Rightarrow> nat \<Rightarrow> string" where
  "call_id item index =
     (let given = stringValue (map_of item ''id'');
          cid = (if given = [] then stringValue (map_of item ''call_id'') else given)
      in if trim_space cid = [] then ''call_'' @ itoa (int index) else cid)"

definition normalizeToolCall :: "fields \<Rightarrow> nat \<Rightarrow> string \<Rightarrow> requestError + fields" where
  "normalizeToolCall item index param =
     (let given = stringValue (map_of item ''type'');
          callType = (if given = [] then ''function'' else given);
          function = (case asObject (map_of item ''function'') of None \<Rightarrow> flat_function item | Some f \<Rightarrow> f);
          name = stringValue (map_of function ''name'')
      in if callType \<noteq> ''function'' then Inl (bad_parameter (param @ ''.type'') ''Only function tool calls are supported.'')
         else if name = []
         then Inl (invalidRequest ''missing_required_parameter'' (param @ ''.function.name'') ''A tool call function name is required.'')
         else and_then (lift_compat (NormalizeArguments (map_of function ''arguments'') (param @ ''.function.arguments''))) (\<lambda>arguments.
           Inr [(''id'', marshal_string (call_id item index)), (''type'', marshal_string ''function''),
                (''function'', marshal_raw_map [(''name'', marshal_string name), (''arguments'', marshal_string arguments)])]))"

fun normalize_calls :: "string \<Rightarrow> nat \<Rightarrow> fields option list \<Rightarrow> requestError + fields list" where
  "normalize_calls param i [] = Inr []"
| "normalize_calls param i (item # items) =
     (case item of
        None \<Rightarrow> Inl (bad_parameter (indexed param i) ''Each tool call must be an object.'')
      | Some fs \<Rightarrow>
          and_then (normalizeToolCall fs i (indexed param i)) (\<lambda>call.
            and_then (normalize_calls param (Suc i) items) (\<lambda>calls. Inr (call # calls))))"

definition normalizeToolCalls :: "raw \<Rightarrow> string \<Rightarrow> requestError + fields list" where
  "normalizeToolCalls r param =
     (case unmarshal_objects r of
        Some (Some items) \<Rightarrow> normalize_calls param 0 items
      | _ \<Rightarrow> Inl (bad_parameter param ''Tool calls must be an array.''))"

text \<open>The calls of an assistant message; \<open>None\<close> when it has none.\<close>

definition normalizeAssistantCalls :: "fields \<Rightarrow> nat \<Rightarrow> requestError + fields list option" where
  "normalizeAssistantCalls message i =
     (case map_of message ''tool_calls'' of
        Some r \<Rightarrow> and_then (normalizeToolCalls r (indexed ''messages'' i @ ''.tool_calls'')) (\<lambda>calls. Inr (Some calls))
      | None \<Rightarrow>
          (case map_of message ''function_call'' of
             None \<Rightarrow> Inr None
           | Some legacy \<Rightarrow>
               and_then (normalizeToolCalls (RArray [legacy]) (indexed ''messages'' i @ ''.function_call'')) (\<lambda>calls. Inr (Some calls))))"

definition normalizeToolResult :: "goLibrary \<Rightarrow> fields \<Rightarrow> nat \<Rightarrow> requestError + fields" where
  "normalizeToolResult lib message i =
     (let m1 = (case (map_of message ''tool_call_id'', map_of message ''call_id'') of
                  (None, Some r) \<Rightarrow> AList.delete ''call_id'' (AList.update ''tool_call_id'' r message)
                | _ \<Rightarrow> message)
      in case map_of m1 ''content'' of
           None \<Rightarrow> Inr m1
         | Some r \<Rightarrow>
             and_then (lift_compat (FlattenToolOutput (libToLower lib) (Some r) (indexed ''messages'' i @ ''.content''))) (\<lambda>content.
               Inr (AList.update ''content'' (marshal_string content) m1)))"

text \<open>The identifiers of calls by name that no result has answered yet, oldest first.\<close>

type_synonym pendingCalls = "(string \<times> string list) list"

definition popPendingCall :: "pendingCalls \<Rightarrow> string \<Rightarrow> string \<times> pendingCalls" where
  "popPendingCall pending name =
     (case map_of pending name of
        None \<Rightarrow> ([], pending)
      | Some [] \<Rightarrow> ([], pending)
      | Some [cid] \<Rightarrow> (cid, AList.delete name pending)
      | Some (cid # ids) \<Rightarrow> (cid, AList.update name ids pending))"

definition push_call :: "fields \<Rightarrow> pendingCalls \<Rightarrow> pendingCalls" where
  "push_call call pending =
     (let name = stringValue (case asObject (map_of call ''function'') of None \<Rightarrow> None | Some f \<Rightarrow> map_of f ''name'');
          ids = (case map_of pending name of None \<Rightarrow> [] | Some ids \<Rightarrow> ids)
      in AList.update name (ids @ [stringValue (map_of call ''id'')]) pending)"

definition normalizeLegacyFunctionResult :: "goLibrary \<Rightarrow> fields \<Rightarrow> nat \<Rightarrow> pendingCalls \<Rightarrow> requestError + (fields \<times> pendingCalls)" where
  "normalizeLegacyFunctionResult lib message i pending =
     (let name = stringValue (map_of message ''name''); given = stringValue (map_of message ''tool_call_id'')
      in if name = []
         then Inl (invalidRequest ''missing_required_parameter'' (indexed ''messages'' i @ ''.name'') ''A legacy function result requires a name.'')
         else
           let (popped, pending1) = (if given = [] then popPendingCall pending name else (given, pending));
               cid = (if popped = [] then ''call_'' @ itoa (int i) else popped);
               m1 = AList.update ''tool_call_id'' (marshal_string cid) (AList.update ''role'' (marshal_string ''tool'') message);
               m2 = AList.delete ''call_id'' (AList.delete ''name'' m1)
           in and_then (normalizeToolResult lib m2 i) (\<lambda>m. Inr (m, pending1)))"

definition normalize_message :: "goLibrary \<Rightarrow> nat \<Rightarrow> fields \<Rightarrow> pendingCalls \<Rightarrow> requestError + (fields \<times> pendingCalls)" where
  "normalize_message lib i message pending =
     (let role = stringValue (map_of message ''role'')
      in if role = ''assistant'' then
           and_then (normalizeAssistantCalls message i) (\<lambda>found.
             case found of
               None \<Rightarrow> Inr (message, pending)
             | Some calls \<Rightarrow>
                 Inr (AList.delete ''function_call'' (AList.update ''tool_calls'' (RArray (map marshal_raw_map calls)) message),
                      fold push_call calls pending))
         else if role = ''function'' then normalizeLegacyFunctionResult lib message i pending
         else if role = ''tool'' then and_then (normalizeToolResult lib message i) (\<lambda>m. Inr (m, pending))
         else Inr (message, pending))"

fun normalize_from :: "goLibrary \<Rightarrow> nat \<Rightarrow> fields option list \<Rightarrow> pendingCalls \<Rightarrow> requestError + fields option list" where
  "normalize_from lib i [] pending = Inr []"
| "normalize_from lib i (m # ms) pending =
     (case m of
        None \<Rightarrow> and_then (normalize_from lib (Suc i) ms pending) (\<lambda>rest. Inr (None # rest))
      | Some fs \<Rightarrow>
          and_then (normalize_message lib i fs pending) (\<lambda>(fs1, pending1).
            and_then (normalize_from lib (Suc i) ms pending1) (\<lambda>rest. Inr (Some fs1 # rest))))"

definition marshal_messages :: "fields option list \<Rightarrow> raw" where
  "marshal_messages ms = RArray (map (\<lambda>m. case m of None \<Rightarrow> RNull | Some fs \<Rightarrow> marshal_raw_map fs) ms)"

definition normalizeChatMessages :: "goLibrary \<Rightarrow> raw \<Rightarrow> requestError + raw" where
  "normalizeChatMessages lib r =
     (case unmarshal_objects r of
        Some (Some ms) \<Rightarrow> and_then (normalize_from lib 0 ms []) (\<lambda>ms1. Inr (marshal_messages ms1))
      | _ \<Rightarrow> Inl (bad_parameter ''messages'' ''The messages parameter must be an array.''))"

subsection \<open>Tools and their choice\<close>

definition named_function_field :: "string \<Rightarrow> namedFunction \<Rightarrow> string \<Rightarrow> raw \<Rightarrow> requestError + namedFunction" where
  "named_function_field nameParam f key v =
     (if key \<noteq> ''name'' then Inr (f\<lparr>nfNameAlias := nfNameAlias f \<or> alias_of ''name'' key\<rparr>)
      else if jsPresent (nfName f) then Inl (duplicateJSONField nameParam)
      else Inr (f\<lparr>nfName := readJSONString v\<rparr>))"

definition parseNamedFunction :: "string \<Rightarrow> raw \<Rightarrow> requestError + namedFunction" where
  "parseNamedFunction nameParam r =
     (case r of RObject ms \<Rightarrow> walk (named_function_field nameParam) ms (absent_function\<lparr>nfPresent := True, nfValid := True\<rparr>)
      | _ \<Rightarrow> Inr (absent_function\<lparr>nfPresent := True\<rparr>))"

definition parseToolField :: "string \<Rightarrow> string \<Rightarrow> parsedTool \<Rightarrow> string \<Rightarrow> raw \<Rightarrow> requestError + parsedTool" where
  "parseToolField typeParam functionParam tool key v =
     (if key = ''type'' then
        (if jsPresent (ptType tool) then Inl (duplicateJSONField typeParam) else Inr (tool\<lparr>ptType := readJSONString v\<rparr>))
      else if key = ''function'' then
        (if nfPresent (ptFunction tool) then Inl (duplicateJSONField functionParam)
         else and_then (parseNamedFunction functionParam v) (\<lambda>f. Inr (tool\<lparr>ptFunction := f\<rparr>)))
      else Inr (tool\<lparr>ptTypeAlias := ptTypeAlias tool \<or> alias_of ''type'' key,
                     ptFunctionAlias := ptFunctionAlias tool \<or> alias_of ''function'' key\<rparr>))"

definition parseToolObject :: "string \<Rightarrow> string \<Rightarrow> raw \<Rightarrow> requestError + parsedTool" where
  "parseToolObject typeParam functionParam r =
     (case r of RObject ms \<Rightarrow> walk (parseToolField typeParam functionParam) ms (empty_tool\<lparr>ptValid := True\<rparr>)
      | _ \<Rightarrow> Inr empty_tool)"

definition validateTool :: "nat \<Rightarrow> raw \<Rightarrow> requestError option" where
  "validateTool i r =
     (let typeParam = indexed ''tools'' i @ ''.type''; nameParam = indexed ''tools'' i @ ''.function.name''
      in case parseToolObject typeParam nameParam r of
           Inl e \<Rightarrow> Some e
         | Inr tool \<Rightarrow>
             let f = ptFunction tool
             in if \<not> ptValid tool \<or> ptTypeAlias tool \<or> \<not> jsValid (ptType tool) \<or> jsValue (ptType tool) \<noteq> ''function''
                then Some (bad_parameter typeParam ''Only function tools are supported.'')
                else if \<not> nfPresent f \<and> \<not> ptFunctionAlias tool
                then Some (invalidRequest ''missing_required_parameter'' nameParam ''A function tool name is required.'')
                else if ptFunctionAlias tool \<or> \<not> nfValid f \<or> nfNameAlias f
                then Some (bad_parameter nameParam ''A function tool name must be a non-empty string.'')
                else if \<not> jsPresent (nfName f)
                then Some (invalidRequest ''missing_required_parameter'' nameParam ''A function tool name is required.'')
                else if \<not> jsValid (nfName f) \<or> jsValue (nfName f) = []
                then Some (bad_parameter nameParam ''A function tool name must be a non-empty string.'')
                else None)"

fun validate_tools :: "nat \<Rightarrow> raw list \<Rightarrow> requestError option" where
  "validate_tools i [] = None"
| "validate_tools i (r # rs) = (case validateTool i r of Some e \<Rightarrow> Some e | None \<Rightarrow> validate_tools (Suc i) rs)"

definition flat_tool :: "fields option \<Rightarrow> bool" where
  "flat_tool item = (case item of None \<Rightarrow> False | Some fs \<Rightarrow> map_of fs ''function'' = None \<and> map_of fs ''name'' \<noteq> None)"

definition isFlatToolList :: "raw \<Rightarrow> bool" where
  "isFlatToolList r = (case unmarshal_objects r of Some (Some items) \<Rightarrow> list_ex flat_tool items | _ \<Rightarrow> False)"

definition isFlatToolChoice :: "raw \<Rightarrow> bool" where
  "isFlatToolChoice r = (case unmarshal_object r of Some (Some fs) \<Rightarrow> map_of fs ''function'' = None \<and> map_of fs ''name'' \<noteq> None | _ \<Rightarrow> False)"

definition validateTools :: "fields \<Rightarrow> requestError + bool" where
  "validateTools fs =
     (case map_of fs ''tools'' of
        None \<Rightarrow> Inr False
      | Some r \<Rightarrow>
          if isFlatToolList r
          then and_then (lift_compat (NormalizeTools (Some r) ToolFormatChat ''tools'')) (\<lambda>ds. Inr (ds \<noteq> []))
          else (case r of
              RArray rs \<Rightarrow> (case validate_tools 0 rs of Some e \<Rightarrow> Inl e | None \<Rightarrow> Inr (rs \<noteq> []))
            | _ \<Rightarrow> Inl (bad_parameter ''tools'' ''The tools parameter must be an array.'')))"

definition validNamedToolChoice :: "parsedTool \<Rightarrow> bool" where
  "validNamedToolChoice choice \<longleftrightarrow>
     ptValid choice \<and> \<not> ptTypeAlias choice \<and> jsValid (ptType choice) \<and> jsValue (ptType choice) = ''function''
     \<and> \<not> ptFunctionAlias choice \<and> nfValid (ptFunction choice) \<and> \<not> nfNameAlias (ptFunction choice)
     \<and> jsValid (nfName (ptFunction choice)) \<and> jsValue (nfName (ptFunction choice)) \<noteq> []"

definition validateToolChoice :: "fields \<Rightarrow> requestError + bool" where
  "validateToolChoice fs =
     (case map_of fs ''tool_choice'' of
        None \<Rightarrow> Inr False
      | Some r \<Rightarrow>
          if isFlatToolChoice r
          then and_then (lift_compat (NormalizeToolChoice (Some r) [] ''tool_choice'')) (\<lambda>c. Inr (choiceMode c = ''function''))
          else (case unmarshal_string r of
              Some v \<Rightarrow>
                if v = ''none'' then Inr False
                else if v = ''auto'' \<or> v = ''required'' then Inr True
                else Inl (bad_parameter ''tool_choice'' ''The tool_choice value is not supported.'')
            | None \<Rightarrow>
                and_then (parseToolObject ''tool_choice'' ''tool_choice'' r) (\<lambda>choice.
                  if validNamedToolChoice choice then Inr True
                  else Inl (bad_parameter ''tool_choice'' ''The tool_choice parameter must select a function or a supported mode.''))))"

subsection \<open>Limits and sampling\<close>

text \<open>A field that is present and not null must pass a test of its value.\<close>

definition check_field :: "(raw \<Rightarrow> bool) \<Rightarrow> string \<Rightarrow> string \<Rightarrow> fields \<Rightarrow> requestError option" where
  "check_field good name message fs =
     (case map_of fs name of
        None \<Rightarrow> None
      | Some r \<Rightarrow> if is_null r \<or> good r then None else Some (bad_parameter name message))"

definition positive_int :: "raw \<Rightarrow> bool" where
  "positive_int r = (case unmarshal_int_ptr r of Some (Some v) \<Rightarrow> v > 0 | _ \<Rightarrow> False)"

definition float_within :: "goLibrary \<Rightarrow> rat \<Rightarrow> rat \<Rightarrow> raw \<Rightarrow> bool" where
  "float_within lib low high r =
     (case r of
        RNumber n \<Rightarrow> (case libParseFloat lib n of Some v \<Rightarrow> low \<le> v \<and> v \<le> high | None \<Rightarrow> False)
      | _ \<Rightarrow> False)"

definition optionalStream :: "fields \<Rightarrow> requestError + bool" where
  "optionalStream fs =
     (case map_of fs ''stream'' of
        None \<Rightarrow> Inr False
      | Some r \<Rightarrow>
          (case unmarshal_bool_ptr r of
             Some (Some b) \<Rightarrow> Inr b
           | _ \<Rightarrow> Inl (bad_parameter ''stream'' ''The stream parameter must be a boolean.'')))"

definition validateTokenLimits :: "fields \<Rightarrow> requestError option" where
  "validateTokenLimits fs =
     first_error
       [check_field positive_int ''max_tokens'' ''The max_tokens parameter must be a positive integer.'' fs,
        check_field positive_int ''max_completion_tokens'' ''The max_completion_tokens parameter must be a positive integer.'' fs]"

definition stream_options_error :: "fields \<Rightarrow> requestError option" where
  "stream_options_error fs =
     (case map_of fs ''stream_options'' of
        None \<Rightarrow> None
      | Some r \<Rightarrow>
          if is_null r then None
          else case unmarshal_object r of
            Some (Some options) \<Rightarrow>
              (case map_of options ''include_usage'' of
                 None \<Rightarrow> None
               | Some u \<Rightarrow>
                   (case u of RNull \<Rightarrow> None | RBool _ \<Rightarrow> None
                    | _ \<Rightarrow> Some (bad_parameter ''stream_options.include_usage'' ''include_usage must be a boolean.'')))
          | _ \<Rightarrow> Some (bad_parameter ''stream_options'' ''The stream_options parameter must be an object.''))"

definition validateSampling :: "goLibrary \<Rightarrow> fields \<Rightarrow> requestError option" where
  "validateSampling lib fs =
     first_error
       [check_field (float_within lib 0 2) ''temperature'' ''The temperature parameter must be between 0 and 2.'' fs,
        check_field (float_within lib 0 1) ''top_p'' ''The top_p parameter must be between 0 and 1.'' fs,
        check_field positive_int ''n'' ''The n parameter must be a positive integer.'' fs,
        check_field (float_within lib (-2) 2) ''presence_penalty'' ''The presence_penalty parameter must be between -2 and 2.'' fs,
        check_field (float_within lib (-2) 2) ''frequency_penalty'' ''The frequency_penalty parameter must be between -2 and 2.'' fs,
        stream_options_error fs]"

subsection \<open>The request\<close>

record chatRequest =
  crFields :: fields
  crPublicModel :: string
  crStream :: bool
  crRequirements :: requirements
  crTools :: "toolDefinition list"
  crToolChoice :: toolChoice
  crToolChoiceSet :: bool
  crReasoning :: reasoningSpec
  crRaw :: string
  crMessagesNormalized :: bool
  crRawUnsafe :: bool

definition MaxRequestBytes :: nat where "MaxRequestBytes = 33554432"

definition hasDuplicateTopLevelKeys :: "string \<Rightarrow> bool" where
  "hasDuplicateTopLevelKeys payload =
     (case raw_parse payload of
        Some (RObject ms) \<Rightarrow> \<not> distinct (map (scanned \<circ> fst) ms)
      | _ \<Rightarrow> False)"

definition normalized_messages :: "goLibrary \<Rightarrow> fields \<Rightarrow> requestError + (fields \<times> bool)" where
  "normalized_messages lib fs =
     (case map_of fs ''messages'' of
        Some r \<Rightarrow>
          if needsChatMessageNormalization r
          then and_then (normalizeChatMessages lib r) (\<lambda>ms. Inr (AList.update ''messages'' ms fs, True))
          else Inr (fs, False)
      | None \<Rightarrow> Inr (fs, False))"

definition parse_chat_fields :: "goLibrary \<Rightarrow> string \<Rightarrow> fields \<Rightarrow> requestError + chatRequest" where
  "parse_chat_fields lib payload fs =
     and_then (guard_ok (rejectUnsupported fs)) (\<lambda>_.
     and_then (requiredModel fs) (\<lambda>modelID.
     and_then (validateMessages lib fs) (\<lambda>(vision, messageTools).
     and_then (normalized_messages lib fs) (\<lambda>(fs1, normalized).
     and_then (optionalStream fs1) (\<lambda>stream.
     and_then (validateTools fs1) (\<lambda>hasTools.
     and_then (validateToolChoice fs1) (\<lambda>_.
     and_then (lift_compat (NormalizeTools (map_of fs1 ''tools'') ToolFormatChat ''tools'')) (\<lambda>tools.
     and_then (lift_compat (NormalizeToolChoice (map_of fs1 ''tool_choice'') (ToolNames tools) ''tool_choice'')) (\<lambda>choice.
     and_then (parse_reasoning (libToLower lib) fs1) (\<lambda>reasoning.
     and_then (guard_ok (validateTokenLimits fs1)) (\<lambda>_.
     and_then (guard_ok (validateSampling lib fs1)) (\<lambda>_.
       Inr \<lparr>crFields = fs1, crPublicModel = modelID, crStream = stream,
            crRequirements = \<lparr>reqVision = vision,
              reqTools = (messageTools \<or> hasTools \<or> tools \<noteq> [] \<or> choiceMode choice = ''function'' \<or> choiceMode choice = ''required''),
              reqReasoning = RequiresReasoning reasoning\<rparr>,
            crTools = tools, crToolChoice = choice, crToolChoiceSet = (map_of fs1 ''tool_choice'' \<noteq> None), crReasoning = reasoning,
            crRaw = payload, crMessagesNormalized = normalized, crRawUnsafe = hasDuplicateTopLevelKeys payload\<rparr>))))))))))))"

definition chat_Parse :: "goLibrary \<Rightarrow> string \<Rightarrow> requestError + chatRequest" where
  "chat_Parse lib payload =
     (if length payload > MaxRequestBytes
      then Inl (invalidRequest ''request_too_large'' ''body'' ''The request body exceeds the 32 MiB limit.'')
      else and_then (decodeObject payload) (parse_chat_fields lib payload))"

definition RequestedReasoningLevel :: "chatRequest \<Rightarrow> reasoningLevel" where
  "RequestedReasoningLevel r = (if specRequested (crReasoning r) \<and> specLevel (crReasoning r) \<noteq> [] then specLevel (crReasoning r) else [])"

subsection \<open>The body for a model\<close>

definition validateModel :: "chatRequest \<Rightarrow> routedModel \<Rightarrow> requestError option" where
  "validateModel r m =
     (if cmPublicID m \<noteq> crPublicModel r \<or> cmUpstreamID m = [] \<or> cmKind m \<noteq> KindChat \<or> \<not> cmEnabled m
      then Some (InternalError ''prepare chat request: resolved model does not match request'') else None)"

text \<open>Nothing has to be rewritten.\<close>

definition takes_fast_path :: "chatRequest \<Rightarrow> routedModel \<Rightarrow> bool \<Rightarrow> bool" where
  "takes_fast_path r m autoReasoning \<longleftrightarrow>
     cmUpstreamID m = crPublicModel r \<and> crTools r = [] \<and> \<not> crToolChoiceSet r \<and> \<not> crMessagesNormalized r
     \<and> \<not> specRequested (crReasoning r) \<and> \<not> autoReasoning \<and> \<not> crRawUnsafe r
     \<and> isJSONNull (map_of (crFields r) ''max_completion_tokens'')
     \<and> \<not> (map_of (crFields r) ''max_tokens'' \<noteq> None \<and> isJSONNull (map_of (crFields r) ''max_tokens''))"

definition chat_with_reasoning :: "(string \<Rightarrow> string) \<Rightarrow> reasoningSpec \<Rightarrow> routedModel \<Rightarrow> bool \<Rightarrow> fields \<Rightarrow> requestError + fields" where
  "chat_with_reasoning ul spec m autoReasoning fs =
     (let reasoning = (if autoReasoning \<and> \<not> specRequested spec \<and> cmSupportsReasoning m
                       then case AutoReasoningSpec (ReasoningProfile m) (OutputTokenLimit fs) of Some a \<Rightarrow> a | None \<Rightarrow> spec
                       else spec)
      in if specRequested reasoning \<and> cmSupportsReasoning m then
           (case ResolveReasoning reasoning (ReasoningProfile m) of
              Inl e \<Rightarrow> Inl (reasoningModelError e)
            | Inr d \<Rightarrow>
                (case ApplyReasoning ul fs d (ReasoningProfile m) of
                   (Some e, _) \<Rightarrow> Inl (reasoningModelError e)
                 | (None, fs1) \<Rightarrow> Inr fs1))
         else if specRequested spec \<and> \<not> RequiresReasoning spec then Inr (StripReasoning fs)
         else Inr fs)"

definition rename_limit :: "fields \<Rightarrow> fields" where
  "rename_limit fs =
     (case map_of fs ''max_completion_tokens'' of
        None \<Rightarrow> fs
      | Some r \<Rightarrow>
          if is_null r then fs
          else AList.delete ''max_completion_tokens''
                 (if isJSONNull (map_of fs ''max_tokens'') then AList.update ''max_tokens'' r fs else fs))"

text \<open>The fields of the body that is built anew. A choice without a text would make it invalid JSON.\<close>

definition rebuilt_fields :: "goLibrary \<Rightarrow> chatRequest \<Rightarrow> routedModel \<Rightarrow> bool \<Rightarrow> requestError + fields" where
  "rebuilt_fields lib r m autoReasoning =
     (let fs1 = AList.update ''model'' (marshal_string (cmUpstreamID m)) (crFields r);
          fs2 = (if crTools r \<noteq> [] then AList.update ''tools'' (MarshalTools (crTools r) ToolFormatChat) fs1 else fs1);
          choice = MarshalToolChoice (crToolChoice r);
          fs3 = (if crToolChoiceSet r then (case choice of None \<Rightarrow> fs2 | Some c \<Rightarrow> AList.update ''tool_choice'' c fs2) else fs2)
      in and_then (chat_with_reasoning (libToLower lib) (crReasoning r) m autoReasoning fs3) (\<lambda>fs4.
           if crToolChoiceSet r \<and> choice = None then Inl (InternalError ''marshal chat request: invalid raw JSON'')
           else Inr (rename_limit fs4)))"

definition chat_MarshalForWithOptions :: "goLibrary \<Rightarrow> chatRequest \<Rightarrow> routedModel \<Rightarrow> bool \<Rightarrow> requestError + string" where
  "chat_MarshalForWithOptions lib r m autoReasoning =
     (case validateModel r m of
        Some e \<Rightarrow> Inl e
      | None \<Rightarrow>
          if takes_fast_path r m autoReasoning then Inr (crRaw r)
          else and_then (rebuilt_fields lib r m autoReasoning) (\<lambda>fs. Inr (marshalStable fs)))"

end
