(* ===== verification/Chat_Body.thy ===== *)
theory Chat_Body
  imports Chat_Request Responses_Body
begin

text \<open>
  What a chat request becomes: passing the request on unchanged is equivalent to rebuilding it, a rebuilt body
  names the token limit by the name the upstream knows and keeps its value, and the check of data images accepts
  exactly what decodes strictly within the limit.
\<close>

subsection \<open>Data images\<close>

lemma b64_bytes_length: "b64_bytes vs = Some bs \<Longrightarrow> length bs = length vs * 3 div 4"
  by (induction vs arbitrary: bs rule: b64_bytes.induct) (auto split: if_splits)

lemma index_from_some: "index_from i c s = Some n \<Longrightarrow> c \<in> set s"
  by (induction s arbitrary: i) (auto split: if_splits)

lemma b64_values_some: "b64_values s = Some vs \<Longrightarrow> length vs = length s \<and> set s \<subseteq> set b64_alphabet"
  by (induction s arbitrary: vs) (auto simp: b64_value_def split: option.splits dest: index_from_some)

definition image_char :: "char \<Rightarrow> bool" where
  "image_char c \<longleftrightarrow> 65 \<le> code_of c \<and> code_of c \<le> 90 \<or> 97 \<le> code_of c \<and> code_of c \<le> 122
     \<or> 48 \<le> code_of c \<and> code_of c \<le> 57 \<or> c = CHR ''+'' \<or> c = CHR ''/''"

lemma url_chars: "list_all (\<lambda>c. image_char c \<or> c = CHR ''-'' \<or> c = CHR ''_'') b64_alphabet"
  by code_simp

lemma image_char_plain: "image_char c \<Longrightarrow> c \<noteq> CHR ''='' \<and> c \<noteq> CHR 0x0A \<and> c \<noteq> CHR 0x0D \<and> c \<noteq> CHR '',''"
  by (auto simp: image_char_def)

lemma std_decode_chars:
  assumes "std_decode_strict s = Some bs" "CHR 0x0A \<notin> set s" "CHR 0x0D \<notin> set s"
  shows "list_all image_char s \<and> length bs = length s * 3 div 4"
proof -
  have plain: "CHR ''-'' \<notin> set s" "CHR ''_'' \<notin> set s" and d: "raw_decode_strict (map of_std s) = Some bs"
    using assms(1) by (auto simp: std_decode_strict_def split: if_splits)
  have f: "filter (\<lambda>c. c \<noteq> CHR 0x0A \<and> c \<noteq> CHR 0x0D) (map of_std s) = map of_std s"
    using assms(2,3) by (auto simp: of_std_def intro!: filter_True)
  obtain vs cs where v: "b64_values (map of_std s) = Some vs" "b64_bytes vs = Some cs" "bs = map char_of cs"
    using d by (auto simp: raw_decode_strict_def f split: option.splits)
  have "image_char c" if "c \<in> set s" for c
  proof -
    have "of_std c \<in> set b64_alphabet" using b64_values_some [OF v(1)] that by auto
    then have "image_char (of_std c) \<or> of_std c = CHR ''-'' \<or> of_std c = CHR ''_''"
      using url_chars by (auto simp: list_all_iff)
    then show ?thesis using that plain by (auto simp: of_std_def image_char_def split: if_splits)
  qed
  then show ?thesis using b64_values_some [OF v(1)] b64_bytes_length [OF v(2)] v(3) by (auto simp: list_all_iff)
qed

text \<open>The text of a decoded image is its symbols and the padding.\<close>

lemma padded_shape:
  assumes "std_decode_padded s = Some bs" "CHR 0x0A \<notin> set s" "CHR 0x0D \<notin> set s"
  obtains body p where "s = body @ replicate p (CHR ''='')" "p \<le> 2" "length s mod 4 = 0" "list_all image_char body"
    "std_decode_strict body = Some bs" "length bs = length body * 3 div 4"
proof -
  define body where "body = takeWhile (\<lambda>c. c \<noteq> CHR ''='') s"
  define pad where "pad = dropWhile (\<lambda>c. c \<noteq> CHR ''='') s"
  have f: "filter (\<lambda>c. c \<noteq> CHR 0x0A \<and> c \<noteq> CHR 0x0D) s = s"
    using assms(2,3) by (auto intro!: filter_True)
  have p: "length s mod 4 = 0" "length pad \<le> 2" "list_all (\<lambda>c. c = CHR ''='') pad" "std_decode_strict body = Some bs"
    using assms(1) by (auto simp: std_decode_padded_def f body_def pad_def Let_def split: if_splits)
  have "pad = replicate (length pad) (CHR ''='')"
    using p(3) by (intro replicate_eqI) (auto simp: list_all_iff)
  moreover have s: "s = body @ pad" by (simp add: body_def pad_def)
  moreover have "CHR 0x0A \<notin> set body" "CHR 0x0D \<notin> set body" using assms(2,3) s by auto
  ultimately show ?thesis using that [of body "length pad"] p std_decode_chars [OF p(4)] by simp
qed

lemma padding_length:
  "list_all image_char body \<Longrightarrow> length (takeWhile (\<lambda>c. c = CHR ''='') (rev (body @ replicate p (CHR ''='')))) = p"
proof -
  assume b: "list_all image_char body"
  have "takeWhile (\<lambda>c. c = CHR ''='') (rev body) = []"
    using b image_char_plain [of "CHR ''=''"] by (cases body rule: rev_cases) auto
  then show ?thesis by (simp add: takeWhile_append)
qed

lemma decoded_length:
  assumes "std_decode_padded s = Some bs" "CHR 0x0A \<notin> set s" "CHR 0x0D \<notin> set s" "s \<noteq> []"
  shows "strictBase64DecodedLength s = Some (length bs)"
proof -
  obtain body p where b: "s = body @ replicate p (CHR ''='')" "p \<le> 2" "length s mod 4 = 0" "list_all image_char body"
    "length bs = length body * 3 div 4"
    by (rule padded_shape [OF assms(1-3)])
  have "validBase64Alphabet s p"
    using b(1,4) by (simp add: validBase64Alphabet_def Let_def image_char_def [symmetric] list_all_iff)
  moreover have "length s div 4 * 3 - p = length bs" using b(1-3,5) by (auto; presburger)
  ultimately show ?thesis
    using assms(4) b(2,3) padding_length [OF b(4), of p] by (simp add: strictBase64DecodedLength_def b(1) [symmetric] del: rev_append)
qed

lemma accepted_chars:
  assumes "strictBase64DecodedLength s = Some n"
  shows "s \<noteq> [] \<and> CHR 0x0A \<notin> set s \<and> CHR 0x0D \<notin> set s"
proof -
  obtain padding where "validBase64Alphabet s padding" "s \<noteq> []"
    using assms by (auto simp: strictBase64DecodedLength_def Let_def split: if_splits)
  then have "list_all (\<lambda>c. c = CHR ''='') (drop (length s - padding) s)" "list_all image_char (take (length s - padding) s)"
    by (auto simp: validBase64Alphabet_def Let_def list_all_iff image_char_def)
  moreover have "set s = set (take (length s - padding) s) \<union> set (drop (length s - padding) s)"
    by (metis append_take_drop_id set_append)
  ultimately show ?thesis using \<open>s \<noteq> []\<close> image_char_plain by (auto simp: list_all_iff)
qed

text \<open>A data image is accepted exactly when it is a supported prefix, a comma and a text without line breaks that decodes
  strictly to between one byte and 20 MiB, and the length computed from the text, which is that of the buffer the decoder
  writes to, is the number of bytes decoded.\<close>

theorem data_image_exact:
  "(validateDataImage source param = None
     \<longleftrightarrow> (\<exists>metadata encoded bytes. metadata \<in> set supportedImageDataPrefixes \<and> source = metadata @ '','' @ encoded
           \<and> CHR 0x0A \<notin> set encoded \<and> CHR 0x0D \<notin> set encoded \<and> std_decode_padded encoded = Some bytes
           \<and> strictBase64DecodedLength encoded = Some (length bytes) \<and> 0 < length bytes \<and> length bytes \<le> maxDecodedImageBytes))"
proof
  assume "validateDataImage source param = None"
  then obtain n bytes where a: "CHR '','' \<in> set source" "takeWhile (\<lambda>c. c \<noteq> CHR '','') source \<in> set supportedImageDataPrefixes"
    "strictBase64DecodedLength (tl (dropWhile (\<lambda>c. c \<noteq> CHR '','') source)) = Some n" "n \<noteq> 0" "n \<le> maxDecodedImageBytes"
    "std_decode_padded (tl (dropWhile (\<lambda>c. c \<noteq> CHR '','') source)) = Some bytes"
    by (auto simp: validateDataImage_def Let_def split: if_splits option.splits)
  let ?e = "tl (dropWhile (\<lambda>c. c \<noteq> CHR '','') source)"
  have "dropWhile (\<lambda>c. c \<noteq> CHR '','') source = CHR '','' # ?e"
    using a(1) by (induction source) auto
  then have "source = takeWhile (\<lambda>c. c \<noteq> CHR '','') source @ '','' @ ?e"
    using takeWhile_dropWhile_id [of "\<lambda>c. c \<noteq> CHR '',''" source] by simp
  moreover have "n = length bytes" using decoded_length [OF a(6)] accepted_chars [OF a(3)] a(3) by simp
  ultimately show "\<exists>metadata encoded bytes. metadata \<in> set supportedImageDataPrefixes \<and> source = metadata @ '','' @ encoded
           \<and> CHR 0x0A \<notin> set encoded \<and> CHR 0x0D \<notin> set encoded \<and> std_decode_padded encoded = Some bytes
           \<and> strictBase64DecodedLength encoded = Some (length bytes) \<and> 0 < length bytes \<and> length bytes \<le> maxDecodedImageBytes"
    using a accepted_chars [OF a(3)] by blast
next
  assume "\<exists>metadata encoded bytes. metadata \<in> set supportedImageDataPrefixes \<and> source = metadata @ '','' @ encoded
           \<and> CHR 0x0A \<notin> set encoded \<and> CHR 0x0D \<notin> set encoded \<and> std_decode_padded encoded = Some bytes
           \<and> strictBase64DecodedLength encoded = Some (length bytes) \<and> 0 < length bytes \<and> length bytes \<le> maxDecodedImageBytes"
  then obtain metadata encoded bytes where e: "metadata \<in> set supportedImageDataPrefixes" "source = metadata @ '','' @ encoded"
    "std_decode_padded encoded = Some bytes" "strictBase64DecodedLength encoded = Some (length bytes)"
    "0 < length bytes" "length bytes \<le> maxDecodedImageBytes"
    by blast
  have "CHR '','' \<notin> set metadata" using e(1) by (auto simp: supportedImageDataPrefixes_def)
  then have "takeWhile (\<lambda>c. c \<noteq> CHR '','') source = metadata" "dropWhile (\<lambda>c. c \<noteq> CHR '','') source = CHR '','' # encoded"
    by (simp_all add: e(2) takeWhile_append dropWhile_append dropWhile_eq_Nil_conv takeWhile_eq_all_conv)
  then show "validateDataImage source param = None"
    using e by (simp add: validateDataImage_def)
qed

subsection \<open>The fields of a parsed request\<close>

lemma requiredModel_valid: "requiredModel fs = Inr modelID \<Longrightarrow> (\<exists>v. map_of fs ''model'' = Some v \<and> unmarshal_string v = Some modelID)
    \<and> modelID \<noteq> [] \<and> valid_utf8 modelID"
  by (auto simp: requiredModel_def dest: valid_string split: option.splits if_splits)

lemma chat_parsed:
  assumes "chat_Parse lib payload = Inr r"
  obtains ps found where "decodeObject payload = Inr ps" "requiredModel ps = Inr (crPublicModel r)"
    "validateMessages lib ps = Inr found" "normalized_messages lib ps = Inr (crFields r, crMessagesNormalized r)"
    "optionalStream (crFields r) = Inr (crStream r)"
    "NormalizeTools (map_of (crFields r) ''tools'') ToolFormatChat ''tools'' = Inr (crTools r)"
    "NormalizeToolChoice (map_of (crFields r) ''tool_choice'') (ToolNames (crTools r)) ''tool_choice'' = Inr (crToolChoice r)"
    "\<exists>b. validateToolChoice (crFields r) = Inr b" "crToolChoiceSet r \<longleftrightarrow> map_of (crFields r) ''tool_choice'' \<noteq> None"
    "parse_reasoning (libToLower lib) (crFields r) = Inr (crReasoning r)"
    "validateTokenLimits (crFields r) = None" "validateSampling lib (crFields r) = None"
    "crRaw r = payload" "crRawUnsafe r = hasDuplicateTopLevelKeys payload"
proof -
  obtain ps where f: "decodeObject payload = Inr ps" "parse_chat_fields lib payload ps = Inr r"
    using assms by (auto simp: chat_Parse_def split: if_splits)
  have compat: "\<And>x v. lift_compat x = Inr v \<longleftrightarrow> x = Inr v" by (auto simp: lift_compat_def split: sum.splits)
  from f(2) show ?thesis
    unfolding parse_chat_fields_def
    by (clarsimp simp: compat split: prod.splits) (rule that [OF f(1)]; simp)
qed

lemma decoded_members:
  assumes "decodeObject payload = Inr ps"
  obtains ms where "raw_parse payload = Some (RObject ms)" "ps = collect_members ms"
  using assms by (auto simp: decodeObject_def unmarshal_object_def split: option.splits raw.splits)

lemma collect_valid: "f \<in> set (collect_members ms) \<Longrightarrow> valid_utf8 (fst f)"
proof -
  have upd: "set (AList.update k v al) \<subseteq> insert (k, v) (set al)" for k and v :: raw and al
    by (induction al) auto
  have "\<forall>f \<in> set (fold (\<lambda>(k, v). AList.update (unquote k) v) ms al). valid_utf8 (fst f)"
    if "\<forall>f \<in> set al. valid_utf8 (fst f)" for al
    using that
  proof (induction ms arbitrary: al)
    case (Cons m ms)
    obtain k v where "m = (k, v)" by (cases m)
    then show ?case using Cons.IH [of "AList.update (unquote k) v al"] Cons.prems upd [of "unquote k" v al] valid_unquote [of k]
      by fastforce
  qed simp
  from this [of "[]"] show "f \<in> set (collect_members ms) \<Longrightarrow> valid_utf8 (fst f)" by (simp add: collect_members_def)
qed

text \<open>A body written from fields is decoded to them.\<close>

lemma fold_max_least: "(\<forall>x \<in> set xs. x \<le> n) \<Longrightarrow> a \<le> n \<Longrightarrow> fold max xs a \<le> (n :: nat)"
  by (induction xs arbitrary: a) auto

lemma stable_text_decoded:
  assumes "distinct (map fst fs)" "\<forall>(k, v) \<in> set fs. valid_utf8 k \<and> well_spelled v \<and> Suc (raw_depth v) \<le> maxNestingDepth"
    "maxNestingDepth > 0"
  shows "decodeObject (marshalStable fs) = Inr (sort_key fst fs)"
proof -
  have "well_spelled (marshal_map fs)"
    using assms(2) by (fastforce simp: marshal_map_def list_all_iff quote_ok)
  moreover have "raw_depth (marshal_map fs) \<le> maxNestingDepth"
  proof -
    have "fold max (map (\<lambda>(k, v). raw_depth v) (map (\<lambda>(k, v). (quote k, v)) (sort_key fst fs))) 0 \<le> maxNestingDepth - 1"
      using assms(2) by (intro fold_max_least) fastforce+
    then show ?thesis using assms(3) by (simp add: marshal_map_def)
  qed
  ultimately have "raw_parse (marshalStable fs) = Some (marshal_map fs)"
    by (simp add: marshalStable_def raw_parse_spell)
  moreover have "\<forall>f \<in> set fs. valid_utf8 (fst f)" using assms(2) by auto
  ultimately show ?thesis using unmarshal_marshal_map [OF assms(1)] by (simp add: decodeObject_def)
qed

lemma member_depth:
  assumes "raw_parse payload = Some (RObject ms)" "v \<in> snd ` set ms"
  shows "well_spelled v \<and> Suc (raw_depth v) \<le> maxNestingDepth"
proof -
  obtain k where k: "(k, v) \<in> set ms" using assms(2) by force
  then have "raw_depth v \<in> set (map (\<lambda>(k, v). raw_depth v) ms)" by force
  then have "raw_depth v \<le> fold max (map (\<lambda>(k, v). raw_depth v) ms) 0" using fold_max_ge by blast
  then show ?thesis using raw_parse_ok [OF assms(1)] k by (auto simp: list_all_iff)
qed

subsection \<open>The fast path\<close>

lemma chat_with_reasoning_iff:
  "chat_with_reasoning ul spec m auto fs = Inr fs' \<longleftrightarrow> with_reasoning ul spec m auto fs = Inr fs'"
  by (auto simp: chat_with_reasoning_def with_reasoning_def Let_def split: option.splits sum.splits prod.splits)

lemma rename_limit_same: "isJSONNull (map_of fs ''max_completion_tokens'') \<Longrightarrow> rename_limit fs = fs"
  by (auto simp: rename_limit_def isJSONNull_def is_null_def split: option.splits)

text \<open>When nothing has to be rewritten the request is passed on as it came, and that is equivalent to building the body anew:
  the rebuilt body is decoded to the same fields as the one received, except that the model may be spelled differently, and no
  name of the body received is repeated.\<close>

theorem fast_path_equivalent:
  assumes "chat_Parse lib payload = Inr r" "validateModel r m = None" "takes_fast_path r m auto"
  shows "chat_MarshalForWithOptions lib r m auto = Inr payload
    \<and> (\<exists>ps fs. decodeObject payload = Inr ps \<and> rebuilt_fields lib r m auto = Inr fs
          \<and> decodeObject (marshalStable fs) = Inr (sort_key fst fs)
          \<and> (\<forall>k. k \<noteq> ''model'' \<longrightarrow> map_of (sort_key fst fs) k = map_of ps k)
          \<and> stringValue (map_of ps ''model'') = cmUpstreamID m
          \<and> stringValue (map_of (sort_key fst fs) ''model'') = cmUpstreamID m)
    \<and> (\<exists>ms. raw_parse payload = Some (RObject ms) \<and> distinct (map (scanned \<circ> fst) ms))"
proof -
  obtain ps found where p: "decodeObject payload = Inr ps" "requiredModel ps = Inr (crPublicModel r)"
    "normalized_messages lib ps = Inr (crFields r, crMessagesNormalized r)" "crRaw r = payload"
    "crRawUnsafe r = hasDuplicateTopLevelKeys payload"
    by (rule chat_parsed [OF assms(1)])
  obtain ms where ms: "raw_parse payload = Some (RObject ms)" "ps = collect_members ms"
    by (rule decoded_members [OF p(1)])
  have q: "cmUpstreamID m = crPublicModel r" "crTools r = []" "\<not> crToolChoiceSet r" "\<not> crMessagesNormalized r"
    "\<not> specRequested (crReasoning r)" "\<not> auto" "\<not> crRawUnsafe r" "isJSONNull (map_of (crFields r) ''max_completion_tokens'')"
    using assms(3) by (auto simp: takes_fast_path_def)
  have same: "crFields r = ps"
    using p(3) q(4) by (auto simp: normalized_messages_def split: option.splits if_splits)
  have model: "stringValue (map_of ps ''model'') = cmUpstreamID m" "valid_utf8 (cmUpstreamID m)" "map_of ps ''model'' \<noteq> None"
    using requiredModel_valid [OF p(2)] q(1) by (auto simp: stringValue_def)
  define fs where "fs = AList.update ''model'' (marshal_string (cmUpstreamID m)) ps"
  have rebuilt: "rebuilt_fields lib r m auto = Inr fs"
    using q rename_limit_same [of fs] by (simp add: rebuilt_fields_def Let_def same chat_with_reasoning_def and_then_def fs_def)
  have ok: "distinct (map fst fs)" using fields_ok_collect [of ms] by (simp add: fs_def ms(2) fields_ok_def distinct_update)
  have "(k, v) \<in> set fs \<Longrightarrow> valid_utf8 k \<and> well_spelled v \<and> Suc (raw_depth v) \<le> maxNestingDepth" for k v
  proof -
    assume "(k, v) \<in> set fs"
    then have "map_of fs k = Some v" using ok by simp
    then have "(if k = ''model'' then Some (marshal_string (cmUpstreamID m)) else map_of ps k) = Some v"
      by (simp add: fs_def map_of_update)
    then consider "k = ''model''" "v = marshal_string (cmUpstreamID m)" | "map_of ps k = Some v"
      by (metis option.inject)
    then show ?thesis
    proof cases
      case 1
      have "valid_utf8 ''model''" by (rule ascii_valid) simp
      moreover have "raw_depth v = 0" using 1 by (simp add: marshal_string_def)
      ultimately show ?thesis using 1 marshal_string_ok by (simp add: maxNestingDepth_def)
    next
      case 2
      then have "(k, v) \<in> set (collect_members ms)" using ms(2) by (auto dest: map_of_SomeD)
      then show ?thesis using collect_valid [of "(k, v)" ms] collect_values [of ms] member_depth [OF ms(1), of v] by force
    qed
  qed
  then have decoded: "decodeObject (marshalStable fs) = Inr (sort_key fst fs)"
    by (intro stable_text_decoded [OF ok]) (auto simp: maxNestingDepth_def)
  have "map_of (sort_key fst fs) = map_of fs" by (rule map_of_sorted [OF ok])
  then have "\<forall>k. k \<noteq> ''model'' \<longrightarrow> map_of (sort_key fst fs) k = map_of ps k"
    "stringValue (map_of (sort_key fst fs) ''model'') = cmUpstreamID m"
    using model(2) by (simp_all add: fs_def stringValue_def unmarshal_marshal_string)
  moreover have "chat_MarshalForWithOptions lib r m auto = Inr payload"
    using assms(2,3) p(4) by (simp add: chat_MarshalForWithOptions_def)
  moreover have "distinct (map (scanned \<circ> fst) ms)"
    using q(7) p(5) ms(1) by (simp add: hasDuplicateTopLevelKeys_def)
  ultimately show ?thesis using p(1) ms(1) rebuilt decoded model(1) by blast
qed

subsection \<open>The rebuilt body\<close>

lemma rename_limit_fields:
  "fields_ok fs \<Longrightarrow> fields_ok (rename_limit fs)"
  "isJSONNull (map_of (rename_limit fs) ''max_completion_tokens'')"
  "k \<noteq> ''max_tokens'' \<Longrightarrow> k \<noteq> ''max_completion_tokens'' \<Longrightarrow> map_of (rename_limit fs) k = map_of fs k"
  by (auto simp: rename_limit_def isJSONNull_def is_null_def split: option.splits)

definition limit_of :: "raw option \<Rightarrow> int option" where
  "limit_of r =
     (case r of
        None \<Rightarrow> None
      | Some v \<Rightarrow> (case unmarshal_int_ptr v of Some (Some n) \<Rightarrow> if n \<le> 0 then None else Some n | _ \<Rightarrow> None))"

lemma output_limit: "OutputTokenLimit fs =
    (case limit_of (map_of fs ''max_tokens'') of Some n \<Rightarrow> n
     | None \<Rightarrow> (case limit_of (map_of fs ''max_completion_tokens'') of Some n \<Rightarrow> n
        | None \<Rightarrow> (case limit_of (map_of fs ''max_output_tokens'') of Some n \<Rightarrow> n | None \<Rightarrow> 0)))"
  by (auto simp: OutputTokenLimit_def limit_of_def Let_def split: option.splits)

lemma checked_limit:
  assumes "validateTokenLimits fs = None" "k = ''max_tokens'' \<or> k = ''max_completion_tokens''"
  shows "limit_of (map_of fs k) = None \<longleftrightarrow> isJSONNull (map_of fs k)"
proof -
  have "check_field positive_int k' msg fs = None \<Longrightarrow> limit_of (map_of fs k') = None \<longleftrightarrow> isJSONNull (map_of fs k')" for k' msg
    by (auto simp: check_field_def limit_of_def isJSONNull_def is_null_def positive_int_def unmarshal_int_ptr_def split: option.splits if_splits)
  moreover have "\<exists>msg. check_field positive_int k msg fs = None"
    using assms by (auto simp: validateTokenLimits_def first_error_def find_None_iff split: option.splits)
  ultimately show ?thesis by blast
qed

text \<open>Renaming the limit of a valid request keeps the number that caps its thinking budget.\<close>

lemma rename_limit_keeps:
  assumes "validateTokenLimits fs = None"
  shows "OutputTokenLimit (rename_limit fs) = OutputTokenLimit fs"
proof (cases "isJSONNull (map_of fs ''max_completion_tokens'')")
  case True
  then show ?thesis by (simp add: rename_limit_same)
next
  case False
  then obtain v where v: "map_of fs ''max_completion_tokens'' = Some v" "v \<noteq> RNull"
    by (auto simp: isJSONNull_def)
  obtain n where n: "limit_of (Some v) = Some n"
    using checked_limit [OF assms, of "''max_completion_tokens''"] False v(1) by auto
  show ?thesis
  proof (cases "isJSONNull (map_of fs ''max_tokens'')")
    case True
    then have "limit_of (map_of fs ''max_tokens'') = None" using checked_limit [OF assms, of "''max_tokens''"] by simp
    then show ?thesis using v n True by (simp add: output_limit rename_limit_def is_null_def)
  next
    case False
    then obtain k where "limit_of (map_of fs ''max_tokens'') = Some k" using checked_limit [OF assms, of "''max_tokens''"] by auto
    then show ?thesis using v False by (simp add: output_limit rename_limit_def is_null_def)
  qed
qed

end
