(* ===== verification/Spec2Isabelle.thy ===== *)
theory Spec2Isabelle
  imports Pool_Service Pool_Summary Failover_Matcher Router_Properties Login_Limiter Access_Service
    Event_Hub Embed_Cache Sse_Proxy Exit_Pool_Properties Exit_Manager Responses_Properties
    Log_Buffer Body_Budget Key_Store Admin_Auth Model_Health Responses_Body Chat_Body
begin

text \<open>
  A verification of the routing core of nvidia-router, a Go service that multiplexes client requests
  over a pool of upstream API keys.

  \<^bold>\<open>The program.\<close> A client request is authenticated by its access key (\<open>internal/accesskey\<close>), which
  limits requests, tokens and concurrency. The retry loop \<open>Attempt.Run\<close> (\<open>internal/router\<close>) leases an
  upstream key from the pool (\<open>internal/pool\<close>), where it may wait in a bounded queue, runs the handler's
  upstream call with it, classifies the answer (\<open>internal/fault\<close>), records the outcome with the key, and
  either returns the response or backs off and tries another key within its budget. Around it are the
  administrator's sessions and logins (\<open>internal/adminauth\<close>, \<open>internal/httpapi/admin\<close>), the probes of
  models (\<open>internal/modelhealth\<close>), the broadcast hub of the live view (\<open>internal/eventhub\<close>) and the
  embedding cache (\<open>internal/embedcache\<close>).

  \<^bold>\<open>Conventions\<close> (\<open>Prelude\<close>, \<open>Go_Strings\<close>, \<open>Go_Sort\<close>, \<open>Go_Base64\<close>). An instant is the number of nanoseconds
  since Go's zero time, a duration a signed 64-bit count of nanoseconds with wrap-around and saturation
  written out. A string is its bytes. A Go error is the chain its \<open>Unwrap\<close> methods give, outermost
  first, and the nil error is the empty chain. A method under a lock is one function from state to
  state; goroutines are interleavings of such functions. A panic is the value \<open>None\<close>, an error a value
  of a sum or option type. Reads of the clock, random numbers, the order of a \<open>range\<close> over a map and
  the answers of the database and the network are arguments. Floating-point values are reals.

  \<^bold>\<open>JSON.\<close> \<open>Json\<close> parses a text to its syntax tree, which is also what a raw message holds, so the white space
  between tokens is dropped; \<open>Json_Text\<close> prints trees and strings as the library does and shows that printing
  and parsing invert each other; \<open>Json_Fields\<close> decodes trees into the Go types the code uses, a map of raw
  messages being its list of bindings in the order of a \<open>range\<close>.

  \<^bold>\<open>The key pool\<close> (\<open>internal/pool\<close>, \<open>internal/keystate\<close>).
  \<^item> \<open>Key_State\<close>: state of a key, latency estimate, the sliding window of requests; \<open>Sliding_Window\<close> is
    the interface (a locale) of such windows, which the login limiter implements too.
  \<^item> \<open>Key_Pool\<close>: the pool's record, the heap of key states its leases point into, every operation of
    \<open>pool.go\<close>. \<open>Wait_Queue\<close>: the waiters, dispatch with its relaxed pass, acquire, abandon, shutdown.
  \<^item> \<open>Pool_Scan\<close>, \<open>Pool_Acquire\<close>, \<open>Pool_Dispatch\<close>, \<open>Pool_Invariant\<close>, \<open>Pool_Operations\<close>: what one scan,
    one acquisition and one dispatch do, and that each operation keeps the invariant.
  \<^item> \<open>Pool_Machine\<close>: the machine of all public operations; no operation of a reachable pool panics or
    blocks, leases are accounted for, result channels have one owner, shutdown drains the queue.
  \<^item> \<open>Pool_Service\<close>: an acquisition succeeds exactly when a key is grantable and otherwise names the
    reason; round robin; after a dispatch no waiter that could be served is left. \<open>Pool_Summary\<close>: the
    admin summary, and that inserting and removing keys keeps the turn.

  \<^bold>\<open>Faults and configuration.\<close> \<open>Fault\<close> (values and errors), \<open>Failover_Matcher\<close> (parsing, merging and
  binary search of status ranges, equivalent to membership in the parsed tokens), \<open>Cooldown\<close> (bounds of
  every cooldown), \<open>Classifier\<close> (the decision table of \<open>Classify\<close> and the bounded error summary),
  \<open>Runtime_Config\<close> (the settings snapshot and its validation).

  \<^bold>\<open>The retry loop.\<close> \<open>Budget\<close> (timeouts and deadlines), \<open>Router\<close> (\<open>attempt.go\<close> over a log of events; the
  pool, the state writer, the handler and the clock are functions of the log so far), and
  \<open>Router_Properties\<close>: the loop, a \<open>partial_function\<close>, returns for every environment whose pool hands out
  keys not yet attempted (the interface \<open>fresh_keys\<close>, which the modelled pool implements), tries at
  most the configured number of keys, and retries only after a retryable, uncommitted failure inside
  the window.

  \<^bold>\<open>Access keys and logins.\<close> \<open>Access_Limiter\<close> (the sharded limiter: the limits on concurrency,
  requests and budget hold in every run), \<open>Access_Cache\<close> (the bounded cache of lookups), \<open>Access_Service\<close>
  (the table, authentication with digest migration, policy, revocation, and the interleaving of an
  authentication with a revocation), \<open>Login_Limiter\<close>.

  \<^bold>\<open>The administrator\<close> (\<open>internal/adminauth\<close>, \<open>internal/httpapi/admin/auth.go\<close>). \<open>Password_Hash\<close>: the encoded
  form of a password hash, its parser and verification; the Argon2id derivation is the parameter
  \<open>idKey\<close>. \<open>Admin_Sessions\<close>: the table of sessions with its two digests of a token (parameters), creation,
  lookup with migration of the digest, revocation and cleanup; the table refines the set of open sessions.
  \<open>Admin_Auth\<close>: login, logout, the change of the password and the two gates every administration request
  passes, over the sessions and the login limiter.

  \<^bold>\<open>Model health\<close> (\<open>internal/modelhealth\<close>). \<open>Health_Store\<close>: the tables of settings, events and latest
  states, with the stored text of a time as the key of comparisons, the buckets of a window, pruning and
  the outcomes of a transaction. \<open>Model_Health\<close>: what a probe records, the runs over all models, the
  summary of the dashboard with its availability and its sort orders.

  \<^bold>\<open>Caches and broadcast.\<close> \<open>Embed_Cache\<close>: the eviction loop equals keeping the longest fitting initial
  part of the recency order. \<open>Event_Hub\<close>: the circular buffer refines the published history.

  \<^bold>\<open>Event streams\<close> (\<open>internal/sse\<close>). \<open>Go_Bufio\<close> models the standard library's buffered reader over any
  source of bytes (the interface \<open>byte_source\<close>, which a body in chunks and the capturing reader of
  \<open>prime.go\<close> implement). \<open>Sse_Codec\<close> is the decoder and the encoder, \<open>Sse_Stream\<close> their specification on
  whole texts: the decoder refines it whatever the chunks, and decoding inverts encoding.
  \<open>Sse_Prime\<close>: priming accepts exactly the streams with data and replays what it consumed.
  \<open>Sse_Proxy\<close>: relaying to the client, over a log of what happens at its connection.

  \<^bold>\<open>Exits\<close> (\<open>internal/xkproxy\<close>). \<open>Exit_Proxy\<close>: an exit, its quality score and the orders of selection, whose
  comparison functions are shown to be those of stable sorts by a key. \<open>Exit_Pool\<close>: every operation of
  the pool of exits. \<open>Exit_Pool_Machine\<close>: its machine and invariant, the merge of a fetch and the
  quarantine of removed exits. \<open>Exit_Pool_Properties\<close>: selection, fairness, isolation and removal,
  sessions. \<open>Exit_Manager\<close>: the cache of transports, with the proxy each dials (an exit of the pool or the
  static proxy) and its settings; \<open>Acquire\<close> is a sequence of lock sections that interleave with those of other
  goroutines.

  \<^bold>\<open>The key store\<close> (\<open>internal/nvidiakey\<close>). \<open>Key_Store\<close>: the table of upstream keys, what successes, failures,
  manual tests and health probes write, the queries of available keys, the health checker's delay and
  sweep. Reports that do not overlap keep the pool equal to the table; overlapping ones need not.

  \<^bold>\<open>The Responses API\<close> (\<open>internal/protocol/responses\<close>). \<open>Responses_Stream\<close>: the state machine that turns the
  chunks of a chat stream into events, as actions over the state and the events emitted so far.
  \<open>Responses_Client\<close>: the contract with the client as an automaton over events, and invariants of actions
  (the locales \<open>delta_invariant\<close> and \<open>stream_invariant\<close>, interpreted for the sequence numbers, the
  memory budgets and the simulation). \<open>Responses_Simulation\<close>: the machine's state determines what the
  client has assembled; \<open>Responses_Properties\<close>: the whole stream is accepted and reports the text it got.

  \<^bold>\<open>Requests of the Responses API\<close> (\<open>internal/compat\<close>, \<open>internal/protocol/responses/request.go\<close>).
  \<open>Reasoning\<close>: levels of reasoning, the three aliases that name one, resolution against the profile of a
  model, injection, the cap of the thinking budget; \<open>Reasoning_Wire\<close>: what the written field
  parses back to, and the room a thinking budget leaves for the answer. \<open>Tool_Calls\<close>: definitions of tools, the choice among them,
  arguments, outputs and streamed calls; \<open>Tool_Properties\<close>: accepted tools survive being written in either
  format, and arguments are JSON. \<open>Responses_Request\<close>: validation and conversion of a request and the chat
  body for the model it resolved to; \<open>Responses_Body\<close>: every body is well formed. What \<open>strings.ToLower\<close> does
  outside ASCII is the parameter \<open>ul\<close>.

  \<^bold>\<open>Chat requests\<close> (\<open>internal/protocol/chat\<close>). \<open>Chat_Request\<close>: validation of messages, images, tools and limits,
  normalization of old forms of tool calls, and the body for the model a request resolved to. \<open>Chat_Body\<close>: a data
  image is accepted exactly when it decodes strictly within its limit, passing a request on unchanged is equivalent to
  rebuilding it, and renaming the token limit keeps it.

  \<^bold>\<open>Request log and request bodies.\<close> \<open>Log_Buffer\<close> (\<open>internal/observability/buffer.go\<close>): the bounded channel
  and its flusher goroutine, step by step; nothing is lost, repeated or reordered, a forced flush and a
  shutdown store what they promise. \<open>Body_Budget\<close> (\<open>internal/httpapi/v1/bodybudget.go\<close>): request goroutines
  over the shared read slots and byte counter; the bodies in memory fit the budget and nothing leaks.

  \<^bold>\<open>Bounds and fuel.\<close> The JSON parser of \<open>Json\<close> runs on fuel, and its fuel lemma shows that the length of
  the input is enough; values nested deeper than the 10000 levels of Go's decoder are refused, as there.
  Every other loop is structural, has a termination measure, or is the retry loop above, which is proved
  to return.

  \<^bold>\<open>Not modelled.\<close> The HTTP handlers and servers, the upstream clients, the collector and the settings
  of exits, the storage of the model catalogue, the translation of the requests of the other APIs (embeddings,
  audio), the statistics of the request log, the origin rules of the admin surface (an accepted
  origin is an argument), the timer of the probe loop, the database layer beyond the tables named above,
  encryption, the process wiring and the web frontend: they call libraries, move data between formats or
  only connect the parts above.
\<close>

end
